(* ===== verification/Prelude.thy ===== *)
theory Prelude
  imports Main "HOL-Library.Word"
begin

text \<open>
  What every theory of the development shares: names for the fixed-width integers of the
  code, byte buffers with \<open>memcpy\<close>-like splicing, little-endian fields of packed
  structs (the kernel is x86-64 only), and C strings.

  An access outside a buffer is undefined behaviour in the code.  The operations that the
  code runs on unchecked indices return an \<open>option\<close>, with \<open>None\<close> for the
  out-of-bounds access; where the index is a constant below a constant size, the plain
  list operations are used.
\<close>

unbundle bit_operations_syntax

section \<open>Fixed-width integers\<close>

type_synonym u8 = "8 word"
type_synonym u16 = "16 word"
type_synonym u32 = "32 word"
type_synonym u64 = "64 word"

named_theorems buf_simps \<open>reading back and framing of fields of byte buffers\<close>

lemma unat_add_no_overflow:
  "unat (a :: 'a::len word) + unat b < 2 ^ LENGTH('a) \<Longrightarrow> unat (a + b) = unat a + unat b"
  by (simp add: unat_plus_if_size word_size)

lemma unat_sub_no_underflow: "(b :: 'a::len word) \<le> a \<Longrightarrow> unat (a - b) = unat a - unat b"
  by (rule unat_sub)

lemma unat_mult_no_overflow:
  "unat (a :: 'a::len word) * unat b < 2 ^ LENGTH('a) \<Longrightarrow> unat (a * b) = unat a * unat b"
  by (rule unat_mult_lem [THEN iffD1])

lemma sint_small: "unat (x :: u32) < 2 ^ 31 \<Longrightarrow> sint x = int (unat x)"
proof -
  assume "unat x < 2 ^ 31"
  then have "int (unat x) < int (2 ^ 31)" by (simp only: of_nat_less_iff)
  then have "uint x < 2 ^ 31" by simp
  moreover have "- (2 ^ 31) \<le> uint x" by (rule order_trans [OF _ uint_ge_0]) simp
  ultimately have "signed_take_bit 31 (uint x) = uint x" by (intro signed_take_bit_int_eq_self)
  then have "sint x = uint x" by (simp add: sint_uint)
  then show ?thesis by simp
qed

lemma unat_dec: "0 < unat (w :: 'a::len word) \<Longrightarrow> unat (w - 1) = unat w - 1"
  by (simp add: unat_gt_0 unat_minus_one)

lemma unat_ucast_up:
  assumes "LENGTH('a) \<le> LENGTH('b)"
  shows "unat (ucast (w :: 'a::len word) :: 'b::len word) = unat w"
proof -
  have "unat w < 2 ^ LENGTH('b)"
    using unsigned_less [of w, where ?'a = nat] power_increasing [OF assms, of "2 :: nat"] by linarith
  then show ?thesis by (simp add: unsigned_ucast_eq take_bit_nat_eq_self)
qed

lemma unat_of_nat_eq: "n < 2 ^ LENGTH('a) \<Longrightarrow> unat (of_nat n :: 'a::len word) = n"
  by (simp add: unat_of_nat)

section \<open>Byte buffers\<close>

text \<open>\<open>splice bs off xs\<close> is \<open>memcpy(bs + off, xs, length xs)\<close> within the buffer.\<close>

definition splice :: "'a list \<Rightarrow> nat \<Rightarrow> 'a list \<Rightarrow> 'a list" where
  "splice bs off xs = take off bs @ xs @ drop (off + length xs) bs"

definition subbuf :: "'a list \<Rightarrow> nat \<Rightarrow> nat \<Rightarrow> 'a list" where
  "subbuf bs off n = take n (drop off bs)"

lemma length_splice [buf_simps, simp]:
  "off + length xs \<le> length bs \<Longrightarrow> length (splice bs off xs) = length bs"
  by (simp add: splice_def)

lemma length_subbuf [buf_simps, simp]:
  "off + n \<le> length bs \<Longrightarrow> length (subbuf bs off n) = n"
  by (simp add: subbuf_def)

lemma nth_subbuf [buf_simps]: "i < n \<Longrightarrow> off + n \<le> length bs \<Longrightarrow> subbuf bs off n ! i = bs ! (off + i)"
  by (simp add: subbuf_def)

lemma subbuf_replicate [simp]: "off + n \<le> k \<Longrightarrow> subbuf (replicate k x) off n = replicate n x"
  by (simp add: subbuf_def)

lemma nth_splice_in:
  "off \<le> i \<Longrightarrow> i < off + length xs \<Longrightarrow> off + length xs \<le> length bs \<Longrightarrow>
   splice bs off xs ! i = xs ! (i - off)"
  by (auto simp: splice_def nth_append)

lemma nth_splice_out:
  "i < off \<or> off + length xs \<le> i \<Longrightarrow> off + length xs \<le> length bs \<Longrightarrow>
   splice bs off xs ! i = bs ! i"
  by (auto simp: splice_def nth_append)

lemma nth_splice:
  "off + length xs \<le> length bs \<Longrightarrow>
   splice bs off xs ! i = (if off \<le> i \<and> i < off + length xs then xs ! (i - off) else bs ! i)"
  by (auto simp: nth_splice_in nth_splice_out)

lemma subbuf_splice_same [buf_simps]:
  "n = length xs \<Longrightarrow> off + length xs \<le> length bs \<Longrightarrow> subbuf (splice bs off xs) off n = xs"
  by (simp add: subbuf_def splice_def)

lemma subbuf_splice_other [buf_simps]:
  assumes "o2 + n \<le> off \<or> off + length xs \<le> o2"
    and "off + length xs \<le> length bs" and "o2 + n \<le> length bs"
  shows "subbuf (splice bs off xs) o2 n = subbuf bs o2 n"
  by (rule nth_equalityI) (use assms in \<open>auto simp: nth_subbuf nth_splice\<close>)

lemma splice_subbuf_id [buf_simps]:
  "off + n \<le> length bs \<Longrightarrow> splice bs off (subbuf bs off n) = bs"
  by (rule nth_equalityI) (auto simp: nth_splice nth_subbuf)

lemma length_concat_const: "(\<And>xs. xs \<in> set xss \<Longrightarrow> length xs = k) \<Longrightarrow> length (concat xss) = k * length xss"
  by (induction xss) auto

lemma splice_append:
  assumes "off + length xs + length ys \<le> length bs"
  shows "splice (splice bs off xs) (off + length xs) ys = splice bs off (xs @ ys)"
  using assms by (auto simp: splice_def ac_simps)

lemma take_splice:
  assumes "off + length xs \<le> n" "n \<le> length bs"
  shows "take n (splice bs off xs) = splice (take n bs) off xs"
  by (rule nth_equalityI) (use assms in \<open>auto simp: nth_splice\<close>)

lemma subbuf_take: "off + k \<le> n \<Longrightarrow> subbuf (take n bs) off k = subbuf bs off k"
  by (simp add: subbuf_def drop_take min_def)

section \<open>Little-endian fields\<close>

definition le16 :: "u16 \<Rightarrow> u8 list" where
  "le16 w = [ucast w, ucast (drop_bit 8 w)]"

definition le32 :: "u32 \<Rightarrow> u8 list" where
  "le32 w = [ucast w, ucast (drop_bit 8 w), ucast (drop_bit 16 w), ucast (drop_bit 24 w)]"

definition rd8 :: "u8 list \<Rightarrow> nat \<Rightarrow> u8" where
  "rd8 bs off = bs ! off"

definition rd16 :: "u8 list \<Rightarrow> nat \<Rightarrow> u16" where
  "rd16 bs off = ucast (bs ! off) OR push_bit 8 (ucast (bs ! (off + 1)))"

definition rd32 :: "u8 list \<Rightarrow> nat \<Rightarrow> u32" where
  "rd32 bs off = ucast (bs ! off) OR push_bit 8 (ucast (bs ! (off + 1)))
     OR push_bit 16 (ucast (bs ! (off + 2))) OR push_bit 24 (ucast (bs ! (off + 3)))"

definition rd64 :: "u8 list \<Rightarrow> nat \<Rightarrow> u64" where
  "rd64 bs off = ucast (rd32 bs off) OR push_bit 32 (ucast (rd32 bs (off + 4)))"

definition wr8 :: "u8 list \<Rightarrow> nat \<Rightarrow> u8 \<Rightarrow> u8 list" where
  "wr8 bs off w = splice bs off [w]"

definition wr16 :: "u8 list \<Rightarrow> nat \<Rightarrow> u16 \<Rightarrow> u8 list" where
  "wr16 bs off w = splice bs off (le16 w)"

definition wr32 :: "u8 list \<Rightarrow> nat \<Rightarrow> u32 \<Rightarrow> u8 list" where
  "wr32 bs off w = splice bs off (le32 w)"

lemma length_le [buf_simps, simp]: "length (le16 w) = 2" "length (le32 v) = 4"
  by (simp_all add: le16_def le32_def)

lemma length_wr [buf_simps, simp]:
  "off + 1 \<le> length bs \<Longrightarrow> length (wr8 bs off a) = length bs"
  "off + 2 \<le> length bs \<Longrightarrow> length (wr16 bs off b) = length bs"
  "off + 4 \<le> length bs \<Longrightarrow> length (wr32 bs off c) = length bs"
  by (simp_all add: wr8_def wr16_def wr32_def)

lemma bit_rd16:
  "bit (rd16 bs off) n \<longleftrightarrow> (if n < 8 then bit (bs ! off) n
     else n < 16 \<and> bit (bs ! (off + 1)) (n - 8))"
  using bit_imp_le_length [of "bs ! off" n] bit_imp_le_length [of "bs ! (off + 1)" "n - 8"]
  unfolding rd16_def bit_or_iff bit_push_bit_iff bit_unsigned_iff possible_bit_word
  by auto

lemma bit_rd32:
  "bit (rd32 bs off) n \<longleftrightarrow> (if n < 8 then bit (bs ! off) n
     else if n < 16 then bit (bs ! (off + 1)) (n - 8)
     else if n < 24 then bit (bs ! (off + 2)) (n - 16)
     else n < 32 \<and> bit (bs ! (off + 3)) (n - 24))"
  using bit_imp_le_length [of "bs ! off" n] bit_imp_le_length [of "bs ! (off + 1)" "n - 8"]
    bit_imp_le_length [of "bs ! (off + 2)" "n - 16"] bit_imp_le_length [of "bs ! (off + 3)" "n - 24"]
  unfolding rd32_def bit_or_iff bit_push_bit_iff bit_unsigned_iff possible_bit_word
  by auto

lemma bit_byte_of:
  "bit (ucast (drop_bit k (w :: 'a::len word)) :: u8) n \<longleftrightarrow> n < 8 \<and> bit w (k + n)"
  unfolding bit_unsigned_iff bit_drop_bit_eq possible_bit_word by (auto simp: comp_def)

lemma bit_byte_of_0: "bit (ucast (w :: 'a::len word) :: u8) n \<longleftrightarrow> n < 8 \<and> bit w n"
  using bit_byte_of [of 0 w n] by simp

lemma le16_nth: "le16 w ! 0 = ucast w" "le16 w ! 1 = ucast (drop_bit 8 w)"
  by (simp_all add: le16_def)

lemma le32_nth:
  "le32 w ! 0 = ucast w" "le32 w ! 1 = ucast (drop_bit 8 w)"
  "le32 w ! 2 = ucast (drop_bit 16 w)" "le32 w ! 3 = ucast (drop_bit 24 w)"
  by (simp_all add: le32_def)

lemma rd16_le16: "rd16 (le16 w) 0 = w"
proof (rule bit_word_eqI)
  fix n assume "n < LENGTH(16)"
  then show "bit (rd16 (le16 w) 0) n = bit w n"
    unfolding bit_rd16 add_0 le16_nth bit_byte_of
    unfolding bit_byte_of_0 by auto
qed

lemma rd32_le32: "rd32 (le32 w) 0 = w"
proof (rule bit_word_eqI)
  fix n assume "n < LENGTH(32)"
  then show "bit (rd32 (le32 w) 0) n = bit w n"
    unfolding bit_rd32 add_0 le32_nth bit_byte_of
    unfolding bit_byte_of_0 by auto
qed

lemma subbuf_2: "off + 2 \<le> length bs \<Longrightarrow> subbuf bs off 2 = [bs ! off, bs ! (off + 1)]"
  by (simp add: subbuf_def take_Suc_conv_app_nth numeral_2_eq_2)

lemma subbuf_4:
  "off + 4 \<le> length bs \<Longrightarrow> subbuf bs off 4 = [bs ! off, bs ! (off + 1), bs ! (off + 2), bs ! (off + 3)]"
  by (simp add: subbuf_def take_Suc_conv_app_nth eval_nat_numeral)

lemma le16_rd16: "off + 2 \<le> length bs \<Longrightarrow> le16 (rd16 bs off) = subbuf bs off 2"
proof -
  have "ucast (rd16 bs off) = bs ! off"
    by (rule bit_word_eqI) (simp add: bit_byte_of_0 bit_rd16)
  moreover have "ucast (drop_bit 8 (rd16 bs off)) = bs ! (off + 1)"
    by (rule bit_word_eqI) (simp add: bit_byte_of bit_rd16)
  ultimately show "off + 2 \<le> length bs \<Longrightarrow> ?thesis" by (simp add: le16_def subbuf_2)
qed

lemma le32_rd32: "off + 4 \<le> length bs \<Longrightarrow> le32 (rd32 bs off) = subbuf bs off 4"
proof -
  have "ucast (rd32 bs off) = bs ! off"
    by (rule bit_word_eqI) (simp add: bit_byte_of_0 bit_rd32)
  moreover have "ucast (drop_bit 8 (rd32 bs off)) = bs ! (off + 1)"
    by (rule bit_word_eqI) (simp add: bit_byte_of bit_rd32)
  moreover have "ucast (drop_bit 16 (rd32 bs off)) = bs ! (off + 2)"
    by (rule bit_word_eqI) (simp add: bit_byte_of bit_rd32)
  moreover have "ucast (drop_bit 24 (rd32 bs off)) = bs ! (off + 3)"
    by (rule bit_word_eqI) (simp add: bit_byte_of bit_rd32)
  ultimately show "off + 4 \<le> length bs \<Longrightarrow> ?thesis" by (simp add: le32_def subbuf_4)
qed

lemma rd8_subbuf: "off + 1 \<le> length bs \<Longrightarrow> rd8 bs off = rd8 (subbuf bs off 1) 0"
  by (simp add: rd8_def nth_subbuf)

lemma rd16_subbuf: "off + 2 \<le> length bs \<Longrightarrow> rd16 bs off = rd16 (subbuf bs off 2) 0"
  by (simp add: rd16_def nth_subbuf)

lemma rd32_subbuf: "off + 4 \<le> length bs \<Longrightarrow> rd32 bs off = rd32 (subbuf bs off 4) 0"
  by (simp add: rd32_def nth_subbuf)

lemma rd_wr_same [buf_simps]:
  "off + 1 \<le> length bs \<Longrightarrow> rd8 (wr8 bs off a) off = a"
  "off + 2 \<le> length bs \<Longrightarrow> rd16 (wr16 bs off b) off = b"
  "off + 4 \<le> length bs \<Longrightarrow> rd32 (wr32 bs off c) off = c"
  by (simp_all add: rd8_def wr8_def nth_splice rd16_subbuf [of off] rd32_subbuf [of off]
      wr16_def wr32_def subbuf_splice_same rd16_le16 rd32_le32)

lemma rd_splice_other [buf_simps]:
  assumes "off + length xs \<le> length bs"
  shows "o2 + 1 \<le> off \<or> off + length xs \<le> o2 \<Longrightarrow> o2 + 1 \<le> length bs \<Longrightarrow> rd8 (splice bs off xs) o2 = rd8 bs o2"
    and "o2 + 2 \<le> off \<or> off + length xs \<le> o2 \<Longrightarrow> o2 + 2 \<le> length bs \<Longrightarrow> rd16 (splice bs off xs) o2 = rd16 bs o2"
    and "o2 + 4 \<le> off \<or> off + length xs \<le> o2 \<Longrightarrow> o2 + 4 \<le> length bs \<Longrightarrow> rd32 (splice bs off xs) o2 = rd32 bs o2"
  using assms by (auto simp: rd8_def rd16_def rd32_def nth_splice)

text \<open>Fields of a struct written out as a concatenation.\<close>

named_theorems struct_simps \<open>reading fields of concatenated struct bytes\<close>

lemma nth_append_skip:
  "length xs \<le> off \<Longrightarrow> (xs @ ys) ! (off + k) = ys ! (off - length xs + k)"
  by (simp add: nth_append)

lemma nth_append_skip0: "length xs \<le> off \<Longrightarrow> (xs @ ys) ! off = ys ! (off - length xs)"
  by (simp add: nth_append)

lemma rd_skip [struct_simps]:
  assumes "length xs \<le> off"
  shows "rd8 (xs @ ys) off = rd8 ys (off - length xs)"
    and "rd16 (xs @ ys) off = rd16 ys (off - length xs)"
    and "rd32 (xs @ ys) off = rd32 ys (off - length xs)"
    and "subbuf (xs @ ys) off n = subbuf ys (off - length xs) n"
proof -
  note s = nth_append_skip [OF assms] and s0 = nth_append_skip0 [OF assms]
  show "rd8 (xs @ ys) off = rd8 ys (off - length xs)" by (simp only: rd8_def s0)
  show "rd16 (xs @ ys) off = rd16 ys (off - length xs)" by (simp only: rd16_def s0 s)
  show "rd32 (xs @ ys) off = rd32 ys (off - length xs)" by (simp only: rd32_def s0 s)
  show "subbuf (xs @ ys) off n = subbuf ys (off - length xs) n" using assms by (simp add: subbuf_def)
qed

lemma rd_head [struct_simps]:
  "rd8 (a # ys) 0 = a"
  "rd16 (le16 b @ ys) 0 = b" "rd16 (le16 b) 0 = b"
  "rd32 (le32 c @ ys) 0 = c" "rd32 (le32 c) 0 = c"
  "n = length xs \<Longrightarrow> subbuf (xs @ ys) 0 n = xs" "n = length xs \<Longrightarrow> subbuf xs 0 n = xs"
proof -
  show "rd16 (le16 b @ ys) 0 = b" "rd16 (le16 b) 0 = b"
    using rd16_le16 [of b] by (simp_all add: rd16_def nth_append)
  show "rd32 (le32 c @ ys) 0 = c" "rd32 (le32 c) 0 = c"
    using rd32_le32 [of c] by (simp_all add: rd32_def nth_append)
qed (simp_all add: rd8_def subbuf_def)

lemma rd_skip_Cons [struct_simps]:
  "0 < off \<Longrightarrow> rd8 (x # ys) off = rd8 ys (off - 1)"
  "0 < off \<Longrightarrow> rd16 (x # ys) off = rd16 ys (off - 1)"
  "0 < off \<Longrightarrow> rd32 (x # ys) off = rd32 ys (off - 1)"
  "0 < off \<Longrightarrow> subbuf (x # ys) off n = subbuf ys (off - 1) n"
  using rd_skip [of "[x]" off ys] by (simp_all add: Suc_le_eq)

section \<open>C strings\<close>

text \<open>
  A \<open>const char*\<close> is modelled by the bytes before its terminating NUL; \<open>cget s i\<close> is
  \<open>s[i]\<close>, which is the terminator at \<open>i = length s\<close>.  (No operation of the code reads
  past the terminator; \<open>cget\<close> is 0 there too.)
\<close>

type_synonym cstr = "u8 list"

definition cget :: "cstr \<Rightarrow> nat \<Rightarrow> u8" where
  "cget s i = (if i < length s then s ! i else 0)"

definition is_cstr :: "cstr \<Rightarrow> bool" where
  "is_cstr s = (0 \<notin> set s)"

definition ascii :: "string \<Rightarrow> cstr" where
  "ascii s = map of_char s"

lemma cget_0_iff: "is_cstr s \<Longrightarrow> i \<le> length s \<Longrightarrow> cget s i = 0 \<longleftrightarrow> i = length s"
  by (auto simp: cget_def is_cstr_def) (metis nth_mem)

end
