(* ===== verification/LibMem.thy ===== *)
theory LibMem
  imports Prelude
begin

text \<open>
  The freestanding C library of the kernel: \<open>lib/memory.cpp\<close> (\<open>memcpy\<close>, \<open>memset\<close>,
  \<open>memmove\<close>, \<open>memcmp\<close>, which the compiler may call implicitly) over a flat byte
  memory, and \<open>lib/string.cpp\<close> (\<open>strlen\<close>, \<open>strcmp\<close>, \<open>strncmp\<close>) over C strings.
  The loops run over the index \<open>i\<close> exactly as in the source, byte by byte, so overlapping
  ranges behave as they do in the code.  A \<open>char\<close> pointer that walks over a string is the
  list of the bytes it has not passed yet.
\<close>

section \<open>Memory\<close>

type_synonym mem = "nat \<Rightarrow> u8"

text \<open>One iteration \<open>pdest[i] = psrc[i]\<close>.\<close>

definition copy_byte :: "nat \<Rightarrow> nat \<Rightarrow> nat \<Rightarrow> mem \<Rightarrow> mem" where
  "copy_byte dest src i m = m(dest + i := m (src + i))"

definition memcpy :: "mem \<Rightarrow> nat \<Rightarrow> nat \<Rightarrow> nat \<Rightarrow> mem" where
  "memcpy m dest src n = fold (copy_byte dest src) [0..<n] m"

definition memset :: "mem \<Rightarrow> nat \<Rightarrow> int \<Rightarrow> nat \<Rightarrow> mem" where
  "memset m s c n = fold (\<lambda>i m. m(s + i := word_of_int c)) [0..<n] m"

definition memmove :: "mem \<Rightarrow> nat \<Rightarrow> nat \<Rightarrow> nat \<Rightarrow> mem" where
  "memmove m dest src n =
     (if src > dest then fold (copy_byte dest src) [0..<n] m
      else if src < dest then fold (\<lambda>i. copy_byte dest src (i - 1)) (rev [1..<n + 1]) m
      else m)"

fun memcmp_loop :: "mem \<Rightarrow> nat \<Rightarrow> nat \<Rightarrow> nat list \<Rightarrow> int" where
  "memcmp_loop m s1 s2 [] = 0"
| "memcmp_loop m s1 s2 (i # is) =
     (if m (s1 + i) \<noteq> m (s2 + i) then (if m (s1 + i) < m (s2 + i) then - 1 else 1)
      else memcmp_loop m s1 s2 is)"

definition memcmp :: "mem \<Rightarrow> nat \<Rightarrow> nat \<Rightarrow> nat \<Rightarrow> int" where
  "memcmp m s1 s2 n = memcmp_loop m s1 s2 [0..<n]"

text \<open>What each copy promises: the destination range holds the source range as it was before.\<close>

definition copied :: "mem \<Rightarrow> nat \<Rightarrow> nat \<Rightarrow> nat \<Rightarrow> mem" where
  "copied m dest src n = (\<lambda>a. if dest \<le> a \<and> a < dest + n then m (src + (a - dest)) else m a)"

lemma copied_0 [simp]: "copied m dest src 0 = m"
  by (auto simp: copied_def fun_eq_iff)

lemma copied_Suc_up:
  "dest \<le> src \<or> src + Suc n \<le> dest \<Longrightarrow>
   copy_byte dest src n (copied m dest src n) = copied m dest src (Suc n)"
  by (auto simp: copied_def copy_byte_def fun_eq_iff)

lemma copied_Suc_down:
  "src \<le> dest \<Longrightarrow> copied (copy_byte dest src n m) dest src n = copied m dest src (Suc n)"
  by (auto simp: copied_def copy_byte_def fun_eq_iff)

lemma fold_copy_up:
  "dest \<le> src \<or> src + n \<le> dest \<Longrightarrow> fold (copy_byte dest src) [0..<n] m = copied m dest src n"
  by (induction n) (auto simp: copied_Suc_up)

lemma fold_copy_down_shift:
  "fold (\<lambda>i. copy_byte dest src (i - 1)) (rev [1..<n + 1]) m = fold (copy_byte dest src) (rev [0..<n]) m"
proof -
  have "rev [1..<n + 1] = map Suc (rev [0..<n])"
    unfolding rev_map [symmetric] map_Suc_upt by simp
  then show ?thesis by (simp add: fold_map comp_def)
qed

lemma fold_copy_down:
  "src \<le> dest \<Longrightarrow> fold (copy_byte dest src) (rev [0..<n]) m = copied m dest src n"
  by (induction n arbitrary: m) (auto simp: copied_Suc_down)

lemma memcpy_disjoint: "src + n \<le> dest \<or> dest \<le> src \<Longrightarrow> memcpy m dest src n = copied m dest src n"
  unfolding memcpy_def by (rule fold_copy_up) auto

text \<open>C10. \<open>memmove\<close> copies correctly for every overlap of source and destination:
  the destination ends up with what the source range held before the call, and no byte
  outside the destination changes.  (The direction of the loop is what makes it so.)\<close>

theorem memmove_copies_any_overlap: "memmove m dest src n = copied m dest src n"
proof -
  consider "src > dest" | "src < dest" | "src = dest" by linarith
  then show ?thesis
  proof cases
    case 1
    then show ?thesis by (simp add: memmove_def fold_copy_up)
  next
    case 2
    then have "memmove m dest src n = fold (copy_byte dest src) (rev [0..<n]) m"
      by (simp only: memmove_def fold_copy_down_shift) simp
    with 2 show ?thesis by (simp add: fold_copy_down)
  next
    case 3
    then show ?thesis by (auto simp: memmove_def copied_def)
  qed
qed

lemma memset_range:
  "memset m s c n = (\<lambda>a. if s \<le> a \<and> a < s + n then word_of_int c else m a)"
  unfolding memset_def by (induction n) (auto simp: fun_eq_iff)

lemma memcmp_loop_0_iff:
  "memcmp_loop m s1 s2 is = 0 \<longleftrightarrow> (\<forall>i \<in> set is. m (s1 + i) = m (s2 + i))"
  by (induction "is") auto

lemma memcmp_0_iff: "memcmp m s1 s2 n = 0 \<longleftrightarrow> (\<forall>i < n. m (s1 + i) = m (s2 + i))"
  by (auto simp: memcmp_def memcmp_loop_0_iff)

section \<open>Strings\<close>

function strlen_from :: "cstr \<Rightarrow> nat \<Rightarrow> nat" where
  "strlen_from str len = (if cget str len \<noteq> 0 then strlen_from str (len + 1) else len)"
  by pat_completeness auto
termination
  by (relation "measure (\<lambda>(s, i). length s - i)") (auto simp: cget_def split: if_splits)

definition strlen :: "cstr \<Rightarrow> nat" where
  "strlen str = strlen_from str 0"

function strcmp :: "cstr \<Rightarrow> cstr \<Rightarrow> int" where
  "strcmp s1 s2 =
     (if cget s1 0 \<noteq> 0 \<and> cget s1 0 = cget s2 0 then strcmp (tl s1) (tl s2)
      else uint (cget s1 0) - uint (cget s2 0))"
  by pat_completeness auto
termination
  by (relation "measure (\<lambda>(s, _). length s)") (auto simp: cget_def split: if_splits)

fun strncmp :: "cstr \<Rightarrow> cstr \<Rightarrow> nat \<Rightarrow> int" where
  "strncmp s1 s2 0 = 0"
| "strncmp s1 s2 (Suc n) =
     (if cget s1 0 \<noteq> 0 \<and> cget s1 0 = cget s2 0 then strncmp (tl s1) (tl s2) n
      else uint (cget s1 0) - uint (cget s2 0))"

declare strlen_from.simps [simp del] strcmp.simps [simp del]

lemma strlen_from_length: "is_cstr s \<Longrightarrow> i \<le> length s \<Longrightarrow> strlen_from s i = length s"
proof (induction s i rule: strlen_from.induct)
  case (1 str len)
  show ?case
  proof (cases "len = length str")
    case True
    then show ?thesis by (subst strlen_from.simps) (simp add: cget_def)
  next
    case False
    with 1 have "cget str len \<noteq> 0" by (simp add: cget_0_iff)
    with 1 False show ?thesis by (simp add: strlen_from.simps [of str len])
  qed
qed

lemma strlen_length [simp]: "is_cstr s \<Longrightarrow> strlen s = length s"
  by (simp add: strlen_def strlen_from_length)

lemma is_cstr_Cons [simp]: "is_cstr (x # xs) \<longleftrightarrow> x \<noteq> 0 \<and> is_cstr xs"
  by (auto simp: is_cstr_def)

lemma is_cstr_Nil [simp]: "is_cstr []"
  by (simp add: is_cstr_def)

lemma uint_pos: "(w :: 'a::len word) \<noteq> 0 \<Longrightarrow> 0 < uint w"
  by (simp add: uint_0_iff order_less_le)

lemma strcmp_Nil: "strcmp [] s2 = - uint (cget s2 0)" "strcmp s1 [] = uint (cget s1 0)"
  by (subst strcmp.simps, simp add: cget_def)+

lemma strcmp_Cons:
  "x \<noteq> 0 \<Longrightarrow> strcmp (x # xs) (y # ys) = (if x = y then strcmp xs ys else uint x - uint y)"
  by (subst strcmp.simps) (auto simp: cget_def)

text \<open>\<open>strcmp\<close> of two C strings has the sign of their lexicographic order by unsigned bytes
  (shorter prefix first), and is 0 exactly on equal strings.  The commands and path walkers
  of the kernel compare names with it.\<close>

theorem strcmp_is_lexicographic:
  assumes "is_cstr a" and "is_cstr b"
  shows "(strcmp a b = 0 \<longleftrightarrow> a = b) \<and>
         (strcmp a b < 0 \<longleftrightarrow> (a, b) \<in> lexord {(x, y). x < y})"
  using assms
proof (induction a arbitrary: b)
  case Nil
  then show ?case by (cases b) (auto simp: strcmp_Nil cget_def uint_pos uint_0_iff)
next
  case (Cons x xs)
  show ?case
  proof (cases b)
    case Nil
    with Cons.prems show ?thesis by (auto simp: strcmp_Nil cget_def uint_pos uint_0_iff)
  next
    case (Cons y ys)
    with Cons.IH [of ys] Cons.prems show ?thesis
      by (auto simp: strcmp_Cons word_less_def word_uint_eq_iff)
  qed
qed

theorem strcmp_is_lexicographic_witness:
  "strcmp [99, 97] [99, 100] < 0"
  using strcmp_is_lexicographic [of "[99, 97]" "[99, 100]"] by simp

lemma strncmp_take:
  "is_cstr a \<Longrightarrow> is_cstr b \<Longrightarrow> strncmp a b n = 0 \<longleftrightarrow> take n a = take n b"
proof (induction a b n rule: strncmp.induct)
  case (2 s1 s2 n)
  then show ?case
    by (cases s1; cases s2) (auto simp: cget_def uint_0_iff word_uint_eq_iff [symmetric])
qed simp

end
