(* ===== verification/Phys.thy ===== *)
theory Phys
  imports Prelude
begin

text \<open>
  The physical page frame allocator, \<open>mm/phys.cpp\<close>.  The bitmap has one bit per 4 KiB page,
  1 for used.  Page indices inside the loops are natural numbers (they are below
  \<open>g_total_pages\<close>, which is at most \<open>2 ^ 52\<close>); the state's fields and the arguments and
  results of the operations are 64-bit words.  \<open>INVALID_INDEX\<close> is \<open>None\<close>.  The boot
  loader's memory map is a list of entries, \<open>None\<close> for a null pointer in it;
  \<open>me_usable\<close> is the comparison with the boot protocol's \<open>LIMINE_MEMMAP_USABLE\<close>.
\<close>

section \<open>State\<close>

definition PAGE_SIZE :: u64 where "PAGE_SIZE = 4096"
definition LOW_RESERVED :: u64 where "LOW_RESERVED = 0x100000"

record memmap_entry =
  me_base :: u64
  me_length :: u64
  me_usable :: bool

type_synonym memmap = "memmap_entry option list"

record phys_state =
  g_bitmap_phys :: u64
  g_bitmap :: "u8 list"
  g_total_pages :: u64
  g_free_pages :: u64
  g_used_pages :: u64
  g_hhdm_offset :: u64
  phys_initialized :: bool
  g_last_alloc_page :: u64

definition phys_boot :: phys_state where
  "phys_boot = \<lparr>g_bitmap_phys = 0, g_bitmap = [], g_total_pages = 0, g_free_pages = 0,
     g_used_pages = 0, g_hhdm_offset = 0, phys_initialized = False, g_last_alloc_page = 0\<rparr>"

section \<open>Bitmap\<close>

definition page_bit :: "nat \<Rightarrow> u8" where
  "page_bit page = push_bit (page AND 7) 1"

definition bit_set :: "u8 list \<Rightarrow> nat \<Rightarrow> u8 list" where
  "bit_set bm page = bm[drop_bit 3 page := (bm ! drop_bit 3 page) OR page_bit page]"

definition bit_clear :: "u8 list \<Rightarrow> nat \<Rightarrow> u8 list" where
  "bit_clear bm page = bm[drop_bit 3 page := (bm ! drop_bit 3 page) AND NOT (page_bit page)]"

definition bit_test :: "u8 list \<Rightarrow> nat \<Rightarrow> bool" where
  "bit_test bm page \<longleftrightarrow> (bm ! drop_bit 3 page) AND page_bit page \<noteq> 0"

text \<open>The loop of \<open>alloc_pages\<close> that marks a run used.  \<open>None\<close>: a write past the end of
  the bitmap.\<close>

fun set_run :: "u8 list \<Rightarrow> nat list \<Rightarrow> u8 list option" where
  "set_run bm [] = Some bm"
| "set_run bm (p # ps) = (if drop_bit 3 p < length bm then set_run (bit_set bm p) ps else None)"

lemma drop_bit_3 [simp]: "drop_bit 3 (p :: nat) = p div 8"
  by (simp add: drop_bit_eq_div)

lemma and_7 [simp]: "(p :: nat) AND 7 = p mod 8"
proof -
  have "p AND 7 = p AND mask 3" by (simp add: mask_eq_exp_minus_1)
  also have "\<dots> = p mod 8" by (simp only: take_bit_eq_mask [symmetric] take_bit_eq_mod) simp
  finally show ?thesis .
qed

lemma bit_test_bit: "bit_test bm p \<longleftrightarrow> bit (bm ! (p div 8)) (p mod 8)"
  by (simp add: bit_test_def page_bit_def bit_iff_and_push_bit_not_eq_0)

lemma bit_page_bit: "bit (page_bit p) n \<longleftrightarrow> n = p mod 8"
  by (auto simp: page_bit_def push_bit_of_1 bit_exp_iff)

lemma length_bit_ops [simp]:
  "length (bit_set bm p) = length bm" "length (bit_clear bm p) = length bm"
  by (simp_all add: bit_set_def bit_clear_def)

lemma div_mod_8_eq: "(q :: nat) div 8 = p div 8 \<Longrightarrow> q mod 8 = p mod 8 \<longleftrightarrow> q = p"
  by (metis div_mult_mod_eq)

lemma bit_test_set:
  "p div 8 < length bm \<Longrightarrow> bit_test (bit_set bm p) q \<longleftrightarrow> q = p \<or> bit_test bm q"
  using div_mod_8_eq [of q p]
  by (auto simp: bit_test_bit bit_set_def nth_list_update bit_or_iff bit_page_bit)

lemma bit_test_clear:
  "p div 8 < length bm \<Longrightarrow> bit_test (bit_clear bm p) q \<longleftrightarrow> q \<noteq> p \<and> bit_test bm q"
  using div_mod_8_eq [of q p]
  by (auto simp: bit_test_bit bit_clear_def nth_list_update bit_and_iff bit_not_iff bit_page_bit
      dest: bit_imp_le_length)

lemma set_run_Some:
  "set_run bm ps = Some bm' \<Longrightarrow>
   length bm' = length bm \<and> (\<forall>q. bit_test bm' q \<longleftrightarrow> q \<in> set ps \<or> bit_test bm q)"
  by (induction bm ps rule: set_run.induct) (auto simp: bit_test_set split: if_splits)

lemma set_run_defined: "\<forall>p \<in> set ps. p div 8 < length bm \<Longrightarrow> \<exists>bm'. set_run bm ps = Some bm'"
  by (induction bm ps rule: set_run.induct) auto

section \<open>Allocation\<close>

fun scan_run :: "u8 list \<Rightarrow> nat \<Rightarrow> nat \<times> nat \<Rightarrow> nat list \<Rightarrow> nat + nat \<times> nat" where
  "scan_run bm count (run, run_start) [] = Inr (run, run_start)"
| "scan_run bm count (run, run_start) (p # ps) =
     (if \<not> bit_test bm p then
        (let run_start' = (if run = 0 then p else run_start); run' = run + 1 in
         if run' \<ge> count then Inl run_start' else scan_run bm count (run', run_start') ps)
      else scan_run bm count (0, run_start) ps)"

definition find_free_run :: "phys_state \<Rightarrow> u64 \<Rightarrow> u64 \<Rightarrow> nat option" where
  "find_free_run s count hint =
     (if count = 0 \<or> count > g_total_pages s then None
      else
        let start = (if hint \<ge> g_total_pages s then 0 else hint) in
        case scan_run (g_bitmap s) (unat count) (0, 0) [unat start..<unat (g_total_pages s)] of
          Inl p \<Rightarrow> Some p
        | Inr st \<Rightarrow>
            (case scan_run (g_bitmap s) (unat count) st [0..<unat start] of
               Inl p \<Rightarrow> Some p
             | Inr _ \<Rightarrow> None))"

definition alloc_pages :: "phys_state \<Rightarrow> u64 \<Rightarrow> (u64 \<times> phys_state) option" where
  "alloc_pages s count =
     (if \<not> phys_initialized s \<or> count = 0 then Some (0, s)
      else if count > g_free_pages s then Some (0, s)
      else case find_free_run s count (g_last_alloc_page s) of
          None \<Rightarrow> Some (0, s)
        | Some p \<Rightarrow>
            (case set_run (g_bitmap s) [p..<p + unat count] of
               None \<Rightarrow> None
             | Some bm \<Rightarrow>
                 Some (of_nat p * PAGE_SIZE,
                   s\<lparr>g_bitmap := bm,
                     g_free_pages := g_free_pages s - count,
                     g_used_pages := g_used_pages s + count,
                     g_last_alloc_page := of_nat p + count\<rparr>)))"

definition alloc_page :: "phys_state \<Rightarrow> (u64 \<times> phys_state) option" where
  "alloc_page s = alloc_pages s 1"

section \<open>Release\<close>

text \<open>\<open>bit_clear(p); g_free_pages++; g_used_pages--\<close>, in \<open>init\<close> and in \<open>free_pages\<close>.\<close>

definition mark_free :: "nat \<Rightarrow> phys_state \<Rightarrow> phys_state" where
  "mark_free p s = s\<lparr>g_bitmap := bit_clear (g_bitmap s) p,
     g_free_pages := g_free_pages s + 1, g_used_pages := g_used_pages s - 1\<rparr>"

fun free_loop :: "phys_state \<Rightarrow> nat list \<Rightarrow> phys_state" where
  "free_loop s [] = s"
| "free_loop s (p # ps) =
     (if p \<ge> unat (g_total_pages s) then s
      else if bit_test (g_bitmap s) p then free_loop (mark_free p s) ps
      else free_loop s ps)"

definition free_pages :: "phys_state \<Rightarrow> u64 \<Rightarrow> u64 \<Rightarrow> phys_state" where
  "free_pages s phys count =
     (if \<not> phys_initialized s \<or> count = 0 then s
      else if phys mod PAGE_SIZE \<noteq> 0 then s
      else free_loop s [unat (phys div PAGE_SIZE)..<unat (phys div PAGE_SIZE) + unat count])"

definition free_page :: "phys_state \<Rightarrow> u64 \<Rightarrow> phys_state" where
  "free_page s phys = free_pages s phys 1"

definition is_allocated :: "phys_state \<Rightarrow> u64 \<Rightarrow> bool" where
  "is_allocated s phys =
     (if \<not> phys_initialized s then True
      else if phys div PAGE_SIZE \<ge> g_total_pages s then True
      else bit_test (g_bitmap s) (unat (phys div PAGE_SIZE)))"

definition total_pages :: "phys_state \<Rightarrow> u64" where "total_pages s = g_total_pages s"
definition free_pages_count :: "phys_state \<Rightarrow> u64" where "free_pages_count s = g_free_pages s"
definition used_pages :: "phys_state \<Rightarrow> u64" where "used_pages s = g_used_pages s"

section \<open>Initialisation from the memory map\<close>

fun reserve_bitmap_storage :: "memmap \<Rightarrow> u64 \<Rightarrow> u64" where
  "reserve_bitmap_storage [] bitmap_size = 0"
| "reserve_bitmap_storage (None # es) bitmap_size = reserve_bitmap_storage es bitmap_size"
| "reserve_bitmap_storage (Some e # es) bitmap_size =
     (if \<not> me_usable e then reserve_bitmap_storage es bitmap_size
      else if me_length e < bitmap_size then reserve_bitmap_storage es bitmap_size
      else if me_base e < LOW_RESERVED then
        (let skip = LOW_RESERVED - me_base e in
         if skip \<ge> me_length e then reserve_bitmap_storage es bitmap_size
         else if me_length e - skip < bitmap_size then reserve_bitmap_storage es bitmap_size
         else me_base e + skip)
      else me_base e)"

fun max_usable_addr :: "memmap \<Rightarrow> u64 \<Rightarrow> u64" where
  "max_usable_addr [] m = m"
| "max_usable_addr (None # es) m = max_usable_addr es m"
| "max_usable_addr (Some e # es) m =
     (if \<not> me_usable e then max_usable_addr es m
      else max_usable_addr es (if me_base e + me_length e > m then me_base e + me_length e else m))"

text \<open>The page range of a usable entry, clipped below at 1 MiB and above at the bitmap's end.\<close>

definition entry_pages :: "u64 \<Rightarrow> memmap_entry \<Rightarrow> nat list" where
  "entry_pages total_pg e =
     (let start_page = (me_base e + PAGE_SIZE - 1) div PAGE_SIZE;
          end_page = (me_base e + me_length e) div PAGE_SIZE;
          low_skip_page = (LOW_RESERVED + PAGE_SIZE - 1) div PAGE_SIZE;
          start_page = (if start_page < low_skip_page then low_skip_page else start_page);
          end_page = (if end_page > total_pg then total_pg else end_page)
      in if start_page \<ge> end_page then [] else [unat start_page..<unat end_page])"

fun mark_usable :: "memmap \<Rightarrow> phys_state \<Rightarrow> phys_state" where
  "mark_usable [] s = s"
| "mark_usable (None # es) s = mark_usable es s"
| "mark_usable (Some e # es) s =
     (if \<not> me_usable e then mark_usable es s
      else mark_usable es (fold mark_free (entry_pages (g_total_pages s) e) s))"

definition mark_reserved :: "nat \<Rightarrow> phys_state \<Rightarrow> phys_state" where
  "mark_reserved p s =
     (if p < unat (g_total_pages s) \<and> \<not> bit_test (g_bitmap s) p
      then s\<lparr>g_bitmap := bit_set (g_bitmap s) p,
             g_free_pages := g_free_pages s - 1, g_used_pages := g_used_pages s + 1\<rparr>
      else s)"

definition bitmap_pages :: "u64 \<Rightarrow> u64 \<Rightarrow> nat list" where
  "bitmap_pages bitmap_phys bitmap_size =
     [unat (bitmap_phys div PAGE_SIZE)..<unat ((bitmap_phys + bitmap_size + PAGE_SIZE - 1) div PAGE_SIZE)]"

definition phys_init :: "phys_state \<Rightarrow> memmap option \<Rightarrow> u64 \<Rightarrow> phys_state" where
  "phys_init s memmap hhdm_offset =
     (if phys_initialized s then s
      else case memmap of None \<Rightarrow> s | Some entries \<Rightarrow>
        if entries = [] then s
        else
          let s = s\<lparr>g_hhdm_offset := hhdm_offset\<rparr>;
              max_addr = max_usable_addr entries 0 in
          if max_addr = 0 then s
          else
            let total_pg = (max_addr + PAGE_SIZE - 1) div PAGE_SIZE;
                s = s\<lparr>g_total_pages := total_pg\<rparr> in
            if total_pg = 0 then s
            else
              let bitmap_size = (total_pg + 7) div 8;
                  bitmap_phys = reserve_bitmap_storage entries bitmap_size in
              if bitmap_phys = 0 then s
              else
                let s = s\<lparr>g_bitmap_phys := bitmap_phys,
                          g_bitmap := replicate (unat bitmap_size) 0xFF,
                          g_free_pages := 0, g_used_pages := total_pg\<rparr>;
                    s = mark_usable entries s;
                    s = fold mark_reserved (bitmap_pages bitmap_phys bitmap_size) s
                in s\<lparr>g_last_alloc_page := 0, phys_initialized := True\<rparr>)"

section \<open>Invariant\<close>

definition free_set :: "phys_state \<Rightarrow> nat set" where
  "free_set s = {p. p < unat (g_total_pages s) \<and> \<not> bit_test (g_bitmap s) p}"

text \<open>
  The counters agree with the bitmap, the bitmap covers every page, and page 0 is never
  free.  The last clause is not bookkeeping: a physical address of 0 is the failure value of
  \<open>alloc_pages\<close>, and the second pass of \<open>find_free_run\<close> relies on it (below).
\<close>

definition phys_inv :: "phys_state \<Rightarrow> bool" where
  "phys_inv s \<longleftrightarrow> phys_initialized s
     \<and> 0 < g_total_pages s \<and> unat (g_total_pages s) \<le> 2 ^ 52
     \<and> unat (g_total_pages s) \<le> 8 * length (g_bitmap s)
     \<and> card (free_set s) = unat (g_free_pages s)
     \<and> unat (g_free_pages s) + unat (g_used_pages s) = unat (g_total_pages s)
     \<and> bit_test (g_bitmap s) 0"

lemma finite_free_set [simp]: "finite (free_set s)"
  by (simp add: free_set_def)

lemma phys_inv_page_in_bitmap:
  "phys_inv s \<Longrightarrow> p < unat (g_total_pages s) \<Longrightarrow> p div 8 < length (g_bitmap s)"
  unfolding phys_inv_def by linarith

section \<open>The scan for a free run\<close>

abbreviation run_free :: "u8 list \<Rightarrow> nat \<Rightarrow> nat \<Rightarrow> bool" where
  "run_free bm p n \<equiv> \<forall>q \<in> {p..<p + n}. \<not> bit_test bm q"

lemma scan_run_Inl:
  assumes "scan_run bm count (run, st) [a..<b] = Inl p"
    and "run = 0 \<or> st + run = a \<and> run_free bm st run" and "run < count"
  shows "p + count \<le> b \<and> run_free bm p count"
  using assms
proof (induction "b - a" arbitrary: a run st)
  case 0
  then show ?case by simp
next
  case (Suc n)
  then have ab: "a < b" and n: "n = b - Suc a" by simp_all
  define st' where "st' = (if run = 0 then a else st)"
  show ?case
  proof (cases "bit_test bm a")
    case True
    with Suc.prems ab have "scan_run bm count (0, st) [Suc a..<b] = Inl p"
      by (simp add: upt_conv_Cons)
    with Suc.hyps(1) [OF n] Suc.prems show ?thesis by simp
  next
    case False
    have rf: "st' + Suc run = Suc a \<and> run_free bm st' (Suc run)"
      using Suc.prems(2) False by (auto simp: st'_def less_Suc_eq)
    show ?thesis
    proof (cases "Suc run \<ge> count")
      case True
      with Suc.prems ab False have "p = st'" and "count = Suc run"
        by (auto simp: upt_conv_Cons Let_def st'_def)
      with rf ab show ?thesis by auto
    next
      case False
      with Suc.prems ab \<open>\<not> bit_test bm a\<close> have "scan_run bm count (Suc run, st') [Suc a..<b] = Inl p"
        by (simp add: upt_conv_Cons Let_def st'_def)
      with Suc.hyps(1) [OF n] rf False show ?thesis by simp
    qed
  qed
qed

lemma scan_run_upt_used:
  "a < b \<Longrightarrow> bit_test bm a \<Longrightarrow>
   scan_run bm count (run, st) [a..<b] = scan_run bm count (0, st) [Suc a..<b]"
  by (simp add: upt_conv_Cons)

lemma scan_run_upt_free:
  "a < b \<Longrightarrow> \<not> bit_test bm a \<Longrightarrow> Suc run < count \<Longrightarrow>
   scan_run bm count (run, st) [a..<b]
   = scan_run bm count (Suc run, if run = 0 then a else st) [Suc a..<b]"
  by (simp add: upt_conv_Cons Let_def)

lemma scan_run_upt_hit:
  "a < b \<Longrightarrow> \<not> bit_test bm a \<Longrightarrow> Suc run \<ge> count \<Longrightarrow>
   scan_run bm count (run, st) [a..<b] = Inl (if run = 0 then a else st)"
  by (simp add: upt_conv_Cons Let_def)

lemma scan_run_Inr:
  assumes "scan_run bm count (run, st) [a..<b] = Inr r" and "run < count"
    and "a - run \<le> p" and "p + count \<le> b" and "run \<le> a"
  shows "\<exists>q \<in> {p..<p + count}. bit_test bm q"
  using assms
proof (induction "b - a" arbitrary: a run st)
  case 0
  then show ?case by linarith
next
  case (Suc n)
  then have ab: "a < b" and n: "n = b - Suc a" by linarith+
  show ?case
  proof (cases "bit_test bm a")
    case True
    show ?thesis
    proof (cases "p \<le> a")
      case True
      with Suc.prems(2,3,5) have "a \<in> {p..<p + count}" by simp
      with \<open>bit_test bm a\<close> show ?thesis by blast
    next
      case False
      from Suc.prems(1) have "scan_run bm count (0, st) [Suc a..<b] = Inr r"
        unfolding scan_run_upt_used [OF ab True] .
      from Suc.hyps(1) [OF n this] Suc.prems(2,4) False show ?thesis by linarith
    qed
  next
    case False
    have "Suc run < count"
      using Suc.prems(1) scan_run_upt_hit [OF ab False, of count run st] by (cases "Suc run < count") auto
    with Suc.prems(1) have "scan_run bm count (Suc run, if run = 0 then a else st) [Suc a..<b] = Inr r"
      by (simp only: scan_run_upt_free [OF ab False])
    from Suc.hyps(1) [OF n this \<open>Suc run < count\<close>] Suc.prems(3-5) show ?thesis by linarith
  qed
qed

text \<open>Where page 0 is used, the second pass starts afresh.\<close>

lemma scan_run_wrap:
  assumes "bit_test bm 0"
  shows "scan_run bm count st [0..<n] = (case n of 0 \<Rightarrow> Inr st | Suc m \<Rightarrow> scan_run bm count (0, snd st) [1..<n])"
  using assms by (cases st; cases n) (simp_all add: scan_run_upt_used del: upt_Suc)

definition scan_start :: "phys_state \<Rightarrow> u64 \<Rightarrow> u64" where
  "scan_start s hint = (if hint \<ge> g_total_pages s then 0 else hint)"

lemma find_free_run_unfold:
  "count \<noteq> 0 \<Longrightarrow> count \<le> g_total_pages s \<Longrightarrow> find_free_run s count hint =
   (case scan_run (g_bitmap s) (unat count) (0, 0) [unat (scan_start s hint)..<unat (g_total_pages s)] of
      Inl p \<Rightarrow> Some p
    | Inr st \<Rightarrow> (case scan_run (g_bitmap s) (unat count) st [0..<unat (scan_start s hint)] of
        Inl p \<Rightarrow> Some p | Inr _ \<Rightarrow> None))"
  unfolding find_free_run_def scan_start_def [symmetric] Let_def by (simp only: not_less [symmetric]) simp

lemma find_free_run_sound:
  assumes inv: "phys_inv s" and found: "find_free_run s count hint = Some p"
  shows "0 < count \<and> 0 < p \<and> p + unat count \<le> unat (g_total_pages s) \<and> run_free (g_bitmap s) p (unat count)"
proof -
  let ?bm = "g_bitmap s" and ?c = "unat count" and ?n = "unat (g_total_pages s)"
  let ?a = "unat (scan_start s hint)"
  from found have c: "0 < ?c" and first: "count \<noteq> 0" "\<not> count > g_total_pages s"
    by (auto simp: find_free_run_def unat_gt_0 split: if_splits)
  from inv have z: "bit_test ?bm 0" by (simp add: phys_inv_def)
  have a: "?a \<le> ?n"
    using inv by (auto simp: scan_start_def phys_inv_def word_le_nat_alt)
  have two: "(case scan_run ?bm ?c (0, 0) [?a..<?n] of Inl p \<Rightarrow> Some p
     | Inr st \<Rightarrow> (case scan_run ?bm ?c st [0..<?a] of Inl p \<Rightarrow> Some p | Inr _ \<Rightarrow> None)) = Some p"
    by (rule trans [OF find_free_run_unfold [symmetric] found]) (use first in auto)
  have res: "p + ?c \<le> ?n \<and> run_free ?bm p ?c"
  proof (cases "scan_run ?bm ?c (0, 0) [?a..<?n]")
    case (Inl p')
    with two have "scan_run ?bm ?c (0, 0) [?a..<?n] = Inl p" by simp
    from scan_run_Inl [OF this] c show ?thesis by simp
  next
    case (Inr st)
    with two have snd: "scan_run ?bm ?c st [0..<?a] = Inl p" by (auto split: sum.splits)
    then obtain m where m: "?a = Suc m" by (cases ?a) (auto, cases st, simp)
    with snd scan_run_wrap [OF z, of ?c st ?a] have "scan_run ?bm ?c (0, snd st) [1..<?a] = Inl p" by simp
    from scan_run_Inl [OF this] c a show ?thesis by simp
  qed
  moreover from res z c have "0 < p" by (cases p) force+
  ultimately show ?thesis using first by (simp add: word_gt_0)
qed

lemma find_free_run_complete:
  assumes inv: "phys_inv s" and none: "find_free_run s count hint = None"
    and c: "count \<noteq> 0" "count \<le> g_total_pages s"
    and p: "unat (scan_start s hint) \<le> p \<and> p + unat count \<le> unat (g_total_pages s)
          \<or> p + unat count \<le> unat (scan_start s hint)"
  shows "\<exists>q \<in> {p..<p + unat count}. bit_test (g_bitmap s) q"
proof -
  let ?bm = "g_bitmap s" and ?c = "unat count" and ?n = "unat (g_total_pages s)"
  let ?a = "unat (scan_start s hint)"
  from inv have z: "bit_test ?bm 0" by (simp add: phys_inv_def)
  from c have c0: "0 < ?c" by (simp add: unat_gt_0)
  have two: "(case scan_run ?bm ?c (0, 0) [?a..<?n] of Inl p \<Rightarrow> Some p
     | Inr st \<Rightarrow> (case scan_run ?bm ?c st [0..<?a] of Inl p \<Rightarrow> Some p | Inr _ \<Rightarrow> None)) = None"
    by (rule trans [OF find_free_run_unfold [symmetric] none]) (use c in auto)
  then obtain st where st: "scan_run ?bm ?c (0, 0) [?a..<?n] = Inr st" by (auto split: sum.splits)
  with two obtain st2 where st2: "scan_run ?bm ?c st [0..<?a] = Inr st2" by (auto split: sum.splits)
  show ?thesis
  proof (cases "?a \<le> p \<and> p + ?c \<le> ?n")
    case True
    with scan_run_Inr [OF st] c0 show ?thesis by simp
  next
    case False
    with p have pa: "p + ?c \<le> ?a" by simp
    show ?thesis
    proof (cases "p = 0")
      case True
      with z c0 show ?thesis by auto
    next
      case False
      from pa c0 obtain m where m: "?a = Suc m" by (cases ?a) auto
      with st2 scan_run_wrap [OF z, of ?c st ?a] have "scan_run ?bm ?c (0, snd st) [1..<?a] = Inr st2" by simp
      from scan_run_Inr [OF this, of p] c0 pa False show ?thesis by simp
    qed
  qed
qed

section \<open>Allocation and release\<close>

definition pages_of :: "u64 \<Rightarrow> u64 \<Rightarrow> nat set" where
  "pages_of phys count = {unat (phys div PAGE_SIZE)..<unat (phys div PAGE_SIZE) + unat count}"

lemma page_addr_div:
  assumes "p < 2 ^ 52"
  shows "unat (of_nat p * PAGE_SIZE div PAGE_SIZE :: u64) = p" "of_nat p * PAGE_SIZE mod PAGE_SIZE = 0"
proof -
  have 1: "unat (of_nat p :: u64) = p" using assms by (simp add: unat_of_nat)
  have "unat (of_nat p * PAGE_SIZE :: u64) = p * 4096"
    using assms by (subst unat_mult_no_overflow) (auto simp: 1 PAGE_SIZE_def)
  then show "unat (of_nat p * PAGE_SIZE div PAGE_SIZE :: u64) = p"
    "of_nat p * PAGE_SIZE mod PAGE_SIZE = 0"
    by (auto simp: unat_div word_unat_eq_iff unat_mod PAGE_SIZE_def)
qed

lemma alloc_pages_cases:
  assumes inv: "phys_inv s" and ok: "alloc_pages s count = Some (a, s')"
  obtains "a = 0" and "s' = s"
  | p where "0 < p" and "0 < count" and "p + unat count \<le> unat (g_total_pages s)"
      and "run_free (g_bitmap s) p (unat count)" and "a = of_nat p * PAGE_SIZE"
      and "count \<le> g_free_pages s"
      and "set_run (g_bitmap s) [p..<p + unat count] = Some (g_bitmap s')"
      and "s' = s\<lparr>g_bitmap := g_bitmap s', g_free_pages := g_free_pages s - count,
              g_used_pages := g_used_pages s + count, g_last_alloc_page := of_nat p + count\<rparr>"
  using ok find_free_run_sound [OF inv]
  by (force simp: alloc_pages_def split: if_splits option.splits)

lemma free_set_remove:
  assumes "p + n \<le> unat (g_total_pages s)" and "run_free (g_bitmap s) p n"
    and "\<forall>q. bit_test (g_bitmap s') q \<longleftrightarrow> q \<in> {p..<p + n} \<or> bit_test (g_bitmap s) q"
    and "g_total_pages s' = g_total_pages s"
  shows "free_set s' = free_set s - {p..<p + n}" and "{p..<p + n} \<subseteq> free_set s"
  using assms by (auto simp: free_set_def)

lemma alloc_pages_inv:
  assumes inv: "phys_inv s" and ok: "alloc_pages s count = Some (a, s')"
  shows "phys_inv s'"
  using inv ok
proof (cases rule: alloc_pages_cases)
  case 1
  with inv show ?thesis by simp
next
  case (2 p)
  let ?c = "unat count"
  from set_run_Some [OF 2(7)] have bm: "length (g_bitmap s') = length (g_bitmap s)"
    "\<forall>q. bit_test (g_bitmap s') q \<longleftrightarrow> q \<in> {p..<p + ?c} \<or> bit_test (g_bitmap s) q" by auto
  have tot: "g_total_pages s' = g_total_pages s" and ini: "phys_initialized s' = phys_initialized s"
    and fp: "g_free_pages s' = g_free_pages s - count" and up: "g_used_pages s' = g_used_pages s + count"
    by (subst 2(8), simp)+
  note fs = free_set_remove [OF 2(3) 2(4) bm(2) tot]
  have card: "card (free_set s') = card (free_set s) - ?c"
    unfolding fs(1) using fs(2) by (subst card_Diff_subset) auto
  have "unat (g_free_pages s) + unat (g_used_pages s) \<le> 2 ^ 52"
    using inv by (simp add: phys_inv_def)
  then have "unat (g_used_pages s) + ?c < 2 ^ 64"
    using \<open>count \<le> g_free_pages s\<close> by (simp add: word_le_nat_alt)
  then have u: "unat (g_used_pages s + count) = unat (g_used_pages s) + ?c"
    by (intro unat_add_no_overflow) simp
  have f: "unat (g_free_pages s - count) = unat (g_free_pages s) - ?c"
    using 2(6) by (rule unat_sub_no_underflow)
  show ?thesis
    using inv bm card 2(6) unfolding phys_inv_def tot ini fp up u f
    by (auto simp: word_le_nat_alt)
qed

lemma alloc_pages_defined:
  assumes inv: "phys_inv s"
  shows "alloc_pages s count \<noteq> None"
proof -
  have "\<exists>bm'. set_run (g_bitmap s) [p..<p + unat count] = Some bm'"
    if "find_free_run s count h = Some p" for p h
  proof (rule set_run_defined)
    from find_free_run_sound [OF inv that] phys_inv_page_in_bitmap [OF inv]
    show "\<forall>p\<in>set [p..<p + unat count]. p div 8 < length (g_bitmap s)" by simp
  qed
  then show ?thesis by (fastforce simp: alloc_pages_def split: option.splits)
qed

lemma phys_inv_release:
  assumes inv: "phys_inv s" and p: "p < unat (g_total_pages s)" "bit_test (g_bitmap s) p" "p \<noteq> 0"
  shows "phys_inv (mark_free p s)" (is "phys_inv ?t")
proof -
  note pb = phys_inv_page_in_bitmap [OF inv p(1)]
  have fs: "free_set ?t = insert p (free_set s)"
    using p by (auto simp: free_set_def mark_free_def bit_test_clear [OF pb])
  have "p \<notin> free_set s" using p by (simp add: free_set_def)
  then have card: "card (free_set ?t) = Suc (unat (g_free_pages s))"
    using inv unfolding fs by (simp add: phys_inv_def)
  have "card (free_set ?t) \<le> card {..<unat (g_total_pages s)}"
    by (rule card_mono) (auto simp: free_set_def mark_free_def)
  with card have lt: "Suc (unat (g_free_pages s)) \<le> unat (g_total_pages s)" by simp
  then have used: "0 < unat (g_used_pages s)" using inv by (simp add: phys_inv_def)
  have f: "unat (g_free_pages s + 1) = Suc (unat (g_free_pages s))"
    using lt inv by (subst unat_add_no_overflow) (auto simp: phys_inv_def)
  have u: "unat (g_used_pages s - 1) = unat (g_used_pages s) - 1"
    using used by (rule unat_dec)
  show ?thesis
    using inv card used p(3) f u by (simp add: phys_inv_def mark_free_def bit_test_clear [OF pb])
qed

lemma free_loop_inv: "phys_inv s \<Longrightarrow> 0 \<notin> set ps \<Longrightarrow> phys_inv (free_loop s ps)"
  by (induction s ps rule: free_loop.induct) (auto simp: not_le intro: phys_inv_release)

lemma free_pages_inv:
  assumes "phys_inv s" and "PAGE_SIZE \<le> phys"
  shows "phys_inv (free_pages s phys count)"
proof -
  have "0 < unat (phys div PAGE_SIZE)"
    using assms(2) by (auto simp: unat_div PAGE_SIZE_def word_le_nat_alt div_greater_zero_iff)
  with assms(1) show ?thesis
    by (auto simp: free_pages_def intro: free_loop_inv)
qed

lemma free_loop_fields:
  "g_total_pages (free_loop s ps) = g_total_pages s"
  "length (g_bitmap (free_loop s ps)) = length (g_bitmap s)"
  "g_last_alloc_page (free_loop s ps) = g_last_alloc_page s"
  "g_bitmap_phys (free_loop s ps) = g_bitmap_phys s"
  "g_hhdm_offset (free_loop s ps) = g_hhdm_offset s"
  "phys_initialized (free_loop s ps) = phys_initialized s"
  by (induction s ps rule: free_loop.induct) (simp_all add: mark_free_def)

lemma free_loop_bits:
  assumes "phys_inv s" and "0 < a"
  shows "bit_test (g_bitmap (free_loop s [a..<b])) q
           \<longleftrightarrow> bit_test (g_bitmap s) q \<and> \<not> (a \<le> q \<and> q < b \<and> q < unat (g_total_pages s))"
  using assms
proof (induction "b - a" arbitrary: a s)
  case (Suc n)
  then have ab: "[a..<b] = a # [Suc a..<b]" and n: "n = b - Suc a" by (simp_all add: upt_conv_Cons)
  let ?t = "mark_free a s" and ?n = "unat (g_total_pages s)"
  have t: "bit_test (g_bitmap s) a \<Longrightarrow> a < unat (g_total_pages s) \<Longrightarrow> phys_inv ?t"
    using Suc.prems by (intro phys_inv_release) auto
  have tb: "a < ?n \<Longrightarrow> bit_test (g_bitmap ?t) q \<longleftrightarrow> q \<noteq> a \<and> bit_test (g_bitmap s) q"
    using phys_inv_page_in_bitmap [OF Suc.prems(1)] by (simp add: mark_free_def bit_test_clear)
  have tt: "g_total_pages ?t = g_total_pages s" by (simp add: mark_free_def)
  have lt: "a < b" using Suc.hyps(2) by linarith
  consider "?n \<le> a" | "a < ?n" "bit_test (g_bitmap s) a" | "a < ?n" "\<not> bit_test (g_bitmap s) a"
    by linarith
  then show ?case
  proof cases
    case 1
    then show ?thesis by (simp add: ab)
  next
    case 2
    with Suc.hyps(1) [OF n t] have "bit_test (g_bitmap (free_loop s [a..<b])) q
      \<longleftrightarrow> bit_test (g_bitmap ?t) q \<and> \<not> (Suc a \<le> q \<and> q < b \<and> q < ?n)"
      by (simp add: ab tt)
    with 2 tb lt show ?thesis by (cases "q = a") auto
  next
    case 3
    with Suc.hyps(1) [OF n Suc.prems(1)] have "bit_test (g_bitmap (free_loop s [a..<b])) q
      \<longleftrightarrow> bit_test (g_bitmap s) q \<and> \<not> (Suc a \<le> q \<and> q < b \<and> q < ?n)"
      by (simp add: ab)
    with 3 show ?thesis by (cases "q = a") auto
  qed
qed simp

lemma free_pages_free_set:
  assumes "phys_inv s" and "PAGE_SIZE \<le> phys" and "phys mod PAGE_SIZE = 0"
  shows "free_set (free_pages s phys count)
       = free_set s \<union> (pages_of phys count \<inter> {..<unat (g_total_pages s)})"
proof (cases "count = 0")
  case True
  then show ?thesis by (simp add: free_pages_def pages_of_def)
next
  case False
  have pos: "0 < unat (phys div PAGE_SIZE)"
    using assms(2) by (auto simp: unat_div PAGE_SIZE_def word_le_nat_alt div_greater_zero_iff)
  have "phys_initialized s" using assms(1) by (simp add: phys_inv_def)
  with False assms(3) have fp: "free_pages s phys count
    = free_loop s [unat (phys div PAGE_SIZE)..<unat (phys div PAGE_SIZE) + unat count]"
    by (simp add: free_pages_def)
  show ?thesis
    unfolding fp free_set_def free_loop_fields
    by (auto simp: pages_of_def free_loop_bits [OF assms(1) pos])
qed

lemma bitmap_eqI:
  assumes "length bm = length bm'" and "\<And>q. q < 8 * length bm \<Longrightarrow> bit_test bm q = bit_test bm' q"
  shows "bm = bm'"
proof (rule nth_equalityI [OF assms(1)])
  fix i assume i: "i < length bm"
  show "bm ! i = bm' ! i"
  proof (rule bit_word_eqI)
    fix n assume "n < LENGTH(8)"
    then show "bit (bm ! i) n = bit (bm' ! i) n"
      using assms(2) [of "8 * i + n"] i by (simp add: bit_test_bit)
  qed
qed

section \<open>Initialisation establishes the invariant\<close>

text \<open>What the boot protocol guarantees of the memory map: the usable entries do not wrap
  around the address space and do not overlap.\<close>

definition entry_end :: "memmap_entry \<Rightarrow> nat" where
  "entry_end e = unat (me_base e) + unat (me_length e)"

fun usable_entries :: "memmap \<Rightarrow> memmap_entry list" where
  "usable_entries [] = []"
| "usable_entries (None # es) = usable_entries es"
| "usable_entries (Some e # es) = (if me_usable e then e # usable_entries es else usable_entries es)"

fun entries_apart :: "memmap_entry list \<Rightarrow> bool" where
  "entries_apart [] = True"
| "entries_apart (e # es) =
     (entry_end e + 4096 \<le> 2 ^ 64
      \<and> list_all (\<lambda>f. entry_end e \<le> unat (me_base f) \<or> entry_end f \<le> unat (me_base e)) es
      \<and> entries_apart es)"

definition memmap_ok :: "memmap \<Rightarrow> bool" where
  "memmap_ok es \<longleftrightarrow> entries_apart (usable_entries es)"

text \<open>The state while the usable pages are being marked: exactly the pages of \<open>S\<close> are free.\<close>

definition marked :: "phys_state \<Rightarrow> nat set \<Rightarrow> bool" where
  "marked s S \<longleftrightarrow> S \<subseteq> {0<..<unat (g_total_pages s)}
     \<and> unat (g_total_pages s) \<le> 2 ^ 52
     \<and> unat (g_total_pages s) \<le> 8 * length (g_bitmap s)
     \<and> (\<forall>q < unat (g_total_pages s). bit_test (g_bitmap s) q \<longleftrightarrow> q \<notin> S)
     \<and> unat (g_free_pages s) = card S
     \<and> unat (g_free_pages s) + unat (g_used_pages s) = unat (g_total_pages s)"

lemma marked_finite: "marked s S \<Longrightarrow> finite S"
  unfolding marked_def by (meson finite_greaterThanLessThan finite_subset)

lemma marked_free_step:
  assumes m: "marked s S" and p: "p \<notin> S" "0 < p" "p < unat (g_total_pages s)"
  shows "marked (mark_free p s) (insert p S)"
proof -
  let ?n = "unat (g_total_pages s)"
  from m have sub: "insert p S \<subseteq> {0<..<?n}" using p by (auto simp: marked_def)
  have card: "card (insert p S) = Suc (unat (g_free_pages s))"
    using m p marked_finite [OF m] by (simp add: marked_def)
  from card_mono [OF _ sub] have lt: "Suc (unat (g_free_pages s)) < ?n"
    using card p by simp
  then have f: "unat (g_free_pages s + 1) = Suc (unat (g_free_pages s))"
    using m by (subst unat_add_no_overflow) (auto simp: marked_def)
  have used: "0 < unat (g_used_pages s)" using lt m by (simp add: marked_def)
  then have u: "unat (g_used_pages s - 1) = unat (g_used_pages s) - 1"
    by (rule unat_dec)
  have "p div 8 < length (g_bitmap s)" using m p by (simp add: marked_def) linarith
  then show ?thesis
    using m p sub card f u used by (auto simp: marked_def mark_free_def bit_test_clear)
qed

lemma mark_free_fields [simp]:
  "g_total_pages (mark_free p s) = g_total_pages s"
  "length (g_bitmap (mark_free p s)) = length (g_bitmap s)"
  by (simp_all add: mark_free_def)

lemma marked_fold:
  "marked s S \<Longrightarrow> distinct ps \<Longrightarrow> set ps \<inter> S = {} \<Longrightarrow> set ps \<subseteq> {0<..<unat (g_total_pages s)} \<Longrightarrow>
   marked (fold mark_free ps s) (set ps \<union> S) \<and> g_total_pages (fold mark_free ps s) = g_total_pages s"
proof (induction ps arbitrary: s S)
  case (Cons p ps)
  then have "marked (mark_free p s) (insert p S)" by (intro marked_free_step) auto
  with Cons.IH [OF this] Cons.prems show ?case by (auto simp: insert_commute)
qed simp

lemma unat_ceil_page:
  assumes "unat x + 4096 \<le> 2 ^ 64"
  shows "unat ((x + PAGE_SIZE - 1) div PAGE_SIZE) = (unat x + 4095) div 4096"
proof -
  have "x + PAGE_SIZE - 1 = x + 4095" unfolding PAGE_SIZE_def by (simp add: algebra_simps)
  moreover have "unat (x + 4095) = unat x + 4095"
    using assms by (subst unat_add_no_overflow) auto
  ultimately show ?thesis by (simp only: unat_div) (simp add: PAGE_SIZE_def)
qed

lemma entries_apart_fits: "entries_apart es \<Longrightarrow> f \<in> set es \<Longrightarrow> entry_end f + 4096 \<le> 2 ^ 64"
  by (induction es) auto

lemma entry_pages_bounds:
  assumes "entry_end e + 4096 \<le> 2 ^ 64" and "p \<in> set (entry_pages t e)"
  shows "unat (me_base e) \<le> 4096 * p \<and> 4096 * p + 4096 \<le> entry_end e \<and> 256 \<le> p \<and> p < unat t"
proof -
  have b: "unat (me_base e) + 4096 \<le> 2 ^ 64" using assms(1) by (simp add: entry_end_def)
  have en: "unat (me_base e + me_length e) = entry_end e"
    using assms(1) unfolding entry_end_def by (intro unat_add_no_overflow) simp
  define st where "st = (me_base e + PAGE_SIZE - 1) div PAGE_SIZE"
  define ed where "ed = (me_base e + me_length e) div PAGE_SIZE"
  have st: "unat st = (unat (me_base e) + 4095) div 4096" unfolding st_def by (rule unat_ceil_page [OF b])
  have ed: "unat ed = entry_end e div 4096" by (simp add: ed_def unat_div en) (simp add: PAGE_SIZE_def)
  have low: "unat ((LOW_RESERVED + PAGE_SIZE - 1) div PAGE_SIZE) = 256"
    by (simp add: LOW_RESERVED_def PAGE_SIZE_def unat_div)
  from assms(2) have "unat st \<le> p" "256 \<le> p" "p < unat ed" "p < unat t"
    by (auto simp: entry_pages_def Let_def st_def [symmetric] ed_def [symmetric] low word_le_nat_alt
        word_less_nat_alt split: if_splits)
  then show ?thesis unfolding st ed by linarith
qed

lemma distinct_entry_pages: "distinct (entry_pages t e)"
  by (simp add: entry_pages_def Let_def)

lemma mark_usable_marked:
  "marked s S \<Longrightarrow> entries_apart (usable_entries es) \<Longrightarrow>
   (\<forall>e \<in> set (usable_entries es). set (entry_pages (g_total_pages s) e) \<inter> S = {}) \<Longrightarrow>
   (\<exists>S'. marked (mark_usable es s) S') \<and> g_total_pages (mark_usable es s) = g_total_pages s"
proof (induction es s arbitrary: S rule: mark_usable.induct)
  case (3 e es s)
  let ?ps = "entry_pages (g_total_pages s) e"
  show ?case
  proof (cases "me_usable e")
    case True
    with 3 have fits: "entry_end e + 4096 \<le> 2 ^ 64" by simp
    have "set ?ps \<subseteq> {0<..<unat (g_total_pages s)}"
      using entry_pages_bounds [OF fits] by fastforce
    with 3 True have m: "marked (fold mark_free ?ps s) (set ?ps \<union> S)"
      and t: "g_total_pages (fold mark_free ?ps s) = g_total_pages s"
      using marked_fold [OF 3(3) distinct_entry_pages] by auto
    have apart: "set (entry_pages (g_total_pages s) f) \<inter> (set ?ps \<union> S) = {}"
      if f: "f \<in> set (usable_entries es)" for f
    proof -
      have ff: "entry_end f + 4096 \<le> 2 ^ 64"
        using f 3(4) True by (intro entries_apart_fits) auto
      have "entry_end e \<le> unat (me_base f) \<or> entry_end f \<le> unat (me_base e)"
        using f 3(4) True by (auto simp: list_all_iff)
      with entry_pages_bounds [OF fits] entry_pages_bounds [OF ff]
      have "set (entry_pages (g_total_pages s) f) \<inter> set ?ps = {}" by fastforce
      with 3(5) True f show ?thesis by auto
    qed
    show ?thesis
      using 3(2) [OF _ m] 3(4) True apart t by simp
  next
    case False
    with 3 show ?thesis by simp
  qed
qed auto

lemma marked_reserve_step:
  assumes m: "marked s S"
  shows "marked (mark_reserved p s) (S - {p})"
proof (cases "p < unat (g_total_pages s) \<and> \<not> bit_test (g_bitmap s) p")
  case False
  with m have "S - {p} = S" by (auto simp: marked_def)
  moreover from False have "mark_reserved p s = s" by (auto simp: mark_reserved_def)
  ultimately show ?thesis using m by simp
next
  case True
  with m have pS: "p \<in> S" by (auto simp: marked_def)
  have pos: "0 < card S" using pS marked_finite [OF m] by (auto simp: card_gt_0_iff)
  have f: "unat (g_free_pages s - 1) = card S - 1"
    using m pos by (subst unat_dec) (auto simp: marked_def)
  have lt: "unat (g_used_pages s) < unat (g_total_pages s)" using m pos by (simp add: marked_def)
  then have u: "unat (g_used_pages s + 1) = Suc (unat (g_used_pages s))"
    using m by (subst unat_add_no_overflow) (auto simp: marked_def)
  have "p div 8 < length (g_bitmap s)" using m True by (simp add: marked_def) linarith
  with m True pS f u pos marked_finite [OF m] show ?thesis
    by (auto simp: marked_def mark_reserved_def bit_test_set)
qed

lemma mark_reserved_total [simp]: "g_total_pages (mark_reserved p s) = g_total_pages s"
  by (simp add: mark_reserved_def)

lemma fold_mark_reserved_total [simp]:
  "g_total_pages (fold mark_reserved ps s) = g_total_pages s"
  by (induction ps arbitrary: s) simp_all

lemma marked_reserve_fold: "marked s S \<Longrightarrow> marked (fold mark_reserved ps s) (S - set ps)"
proof (induction ps arbitrary: s S)
  case (Cons p ps)
  have "marked (fold mark_reserved ps (mark_reserved p s)) (S - {p} - set ps)"
    by (rule Cons.IH) (rule marked_reserve_step [OF Cons.prems])
  moreover have "S - {p} - set ps = S - set (p # ps)" by auto
  ultimately show ?case by (simp only: fold_simps)
qed simp

lemma marked_phys_inv:
  assumes m: "marked s S" and "0 < g_total_pages s"
  shows "phys_inv (s\<lparr>g_last_alloc_page := 0, phys_initialized := True\<rparr>)" (is "phys_inv ?t")
proof -
  have "free_set ?t = S" using m by (auto simp: marked_def free_set_def)
  then show ?thesis using m assms(2) by (auto simp: marked_def phys_inv_def word_less_nat_alt)
qed

lemma bit_test_all_used: "q < 8 * n \<Longrightarrow> bit_test (replicate n 0xFF) q"
proof -
  assume "q < 8 * n"
  then have "q div 8 < n" by linarith
  moreover have "bit (0xFF :: u8) (q mod 8)"
  proof -
    have "q mod 8 \<in> {0, 1, 2, 3, 4, 5, 6, 7}" by auto
    then show ?thesis by auto
  qed
  ultimately show ?thesis by (simp add: bit_test_bit)
qed

lemma max_usable_addr_bound:
  "entries_apart (usable_entries es) \<Longrightarrow> unat m + 4096 \<le> 2 ^ 64 \<Longrightarrow> unat (max_usable_addr es m) + 4096 \<le> 2 ^ 64"
proof (induction es m rule: max_usable_addr.induct)
  case (3 e es m)
  have "unat (me_base e + me_length e) + 4096 \<le> 2 ^ 64" if "me_usable e"
    using 3(3) that by (subst unat_add_no_overflow) (auto simp: entry_end_def)
  with 3 show ?case by (auto split: if_splits)
qed simp_all

theorem phys_init_establishes_inv:
  assumes ok: "memmap_ok entries" and ini: "phys_initialized (phys_init phys_boot (Some entries) hhdm)"
  shows "phys_inv (phys_init phys_boot (Some entries) hhdm)"
proof -
  define mx where "mx = max_usable_addr entries 0"
  define n where "n = (mx + PAGE_SIZE - 1) div PAGE_SIZE"
  define bsz where "bsz = (n + 7) div 8"
  define bp where "bp = reserve_bitmap_storage entries bsz"
  define s0 where "s0 = phys_boot\<lparr>g_hhdm_offset := hhdm, g_total_pages := n, g_bitmap_phys := bp,
     g_bitmap := replicate (unat bsz) 0xFF, g_free_pages := 0, g_used_pages := n\<rparr>"
  define s1 where "s1 = fold mark_reserved (bitmap_pages bp bsz) (mark_usable entries s0)"
  have pos: "n \<noteq> 0" and eq: "phys_init phys_boot (Some entries) hhdm
      = s1\<lparr>g_last_alloc_page := 0, phys_initialized := True\<rparr>"
    using ini by (auto simp: phys_init_def phys_boot_def Let_def mx_def n_def bsz_def bp_def s0_def s1_def
        split: if_splits)
  have "unat mx + 4096 \<le> 2 ^ 64"
    unfolding mx_def using ok by (intro max_usable_addr_bound) (auto simp: memmap_ok_def)
  then have n: "unat n \<le> 2 ^ 52" unfolding n_def by (subst unat_ceil_page) auto
  have "unat bsz = (unat n + 7) div 8"
    unfolding bsz_def using n by (simp add: unat_div unat_add_no_overflow)
  then have cover: "unat n \<le> 8 * unat bsz" by linarith
  have m0: "marked s0 {}"
    using n cover by (auto simp: s0_def marked_def bit_test_all_used)
  obtain S where "marked (mark_usable entries s0) S" and t: "g_total_pages (mark_usable entries s0) = n"
    using mark_usable_marked [OF m0, of entries] ok by (auto simp: memmap_ok_def s0_def)
  then have "marked s1 (S - set (bitmap_pages bp bsz))"
    unfolding s1_def by (intro marked_reserve_fold)
  moreover have "g_total_pages s1 = n" by (simp add: s1_def t)
  ultimately show ?thesis unfolding eq using pos by (intro marked_phys_inv) (auto simp: word_gt_0)
qed

end
