(* ===== verification/PhysSpec.thy ===== *)
theory PhysSpec
  imports Phys
begin

text \<open>
  The contract of the page allocator, as the interface \<open>page_provider\<close> that the heap and
  the DMA allocator build on, its interpretation on \<open>phys\<close>, and the properties of
  \<open>mm/phys.cpp\<close>: every allocation is a fresh, contiguous, in-range run; the counters and the
  bitmap agree in every reachable state; release undoes allocation.  The last section shows
  what the invariant is protecting: with page 0 free, the scan's run crosses from the last
  page to the first, and the allocation writes outside the bitmap.
\<close>

section \<open>The interface\<close>

text \<open>A sequence of requests, the failed ones included (address 0).\<close>

fun alloc_seq :: "('s \<Rightarrow> u64 \<Rightarrow> (u64 \<times> 's) option) \<Rightarrow> 's \<Rightarrow> u64 list \<Rightarrow> ((u64 \<times> u64) list \<times> 's) option" where
  "alloc_seq alloc s [] = Some ([], s)"
| "alloc_seq alloc s (c # cs) =
     (case alloc s c of None \<Rightarrow> None
      | Some (a, s') \<Rightarrow>
          (case alloc_seq alloc s' cs of None \<Rightarrow> None
           | Some (rs, s'') \<Rightarrow> Some ((a, c) # rs, s'')))"

fun pages_disjoint :: "(u64 \<times> u64) list \<Rightarrow> bool" where
  "pages_disjoint [] = True"
| "pages_disjoint ((a, c) # rs) =
     ((a = 0 \<or> list_all (\<lambda>(a', c'). a' = 0 \<or> pages_of a c \<inter> pages_of a' c' = {}) rs)
      \<and> pages_disjoint rs)"

locale page_provider =
  fixes alloc :: "'s \<Rightarrow> u64 \<Rightarrow> (u64 \<times> 's) option"
    and free :: "'s \<Rightarrow> u64 \<Rightarrow> u64 \<Rightarrow> 's"
    and inv :: "'s \<Rightarrow> bool"
    and avail :: "'s \<Rightarrow> nat set"
  assumes alloc_defined: "inv s \<Longrightarrow> alloc s c \<noteq> None"
    and alloc_inv: "inv s \<Longrightarrow> alloc s c = Some (a, s') \<Longrightarrow> inv s'"
    and alloc_fail: "inv s \<Longrightarrow> alloc s c = Some (0, s') \<Longrightarrow> s' = s"
    and alloc_fresh: "inv s \<Longrightarrow> alloc s c = Some (a, s') \<Longrightarrow> a \<noteq> 0 \<Longrightarrow>
      pages_of a c \<subseteq> avail s \<and> avail s' = avail s - pages_of a c"
    and free_inv: "inv s \<Longrightarrow> PAGE_SIZE \<le> a \<Longrightarrow> inv (free s a c)"
begin

lemma alloc_shrinks: "inv s \<Longrightarrow> alloc s c = Some (a, s') \<Longrightarrow> avail s' \<subseteq> avail s"
  using alloc_fail alloc_fresh by (cases "a = 0") blast+

lemma alloc_seq_defined: "inv s \<Longrightarrow> \<exists>rs s'. alloc_seq alloc s cs = Some (rs, s') \<and> inv s'"
proof (induction cs arbitrary: s)
  case (Cons c cs)
  obtain a s1 where a: "alloc s c = Some (a, s1)" using alloc_defined [OF Cons.prems] by fastforce
  from Cons.IH [OF alloc_inv [OF Cons.prems a]] obtain rs s' where
    "alloc_seq alloc s1 cs = Some (rs, s')" "inv s'" by blast
  with a show ?case by simp
qed simp

lemma alloc_seq_from_avail:
  "inv s \<Longrightarrow> alloc_seq alloc s cs = Some (rs, s') \<Longrightarrow>
   list_all (\<lambda>(a, c). a = 0 \<or> pages_of a c \<subseteq> avail s) rs"
proof (induction cs arbitrary: s rs)
  case (Cons c cs)
  then obtain a s1 rs1 where a: "alloc s c = Some (a, s1)"
    and r: "alloc_seq alloc s1 cs = Some (rs1, s')" "rs = (a, c) # rs1"
    by (auto split: option.splits)
  have "list_all (\<lambda>(a, c). a = 0 \<or> pages_of a c \<subseteq> avail s1) rs1"
    using Cons.IH [OF alloc_inv [OF Cons.prems(1) a] r(1)] .
  with alloc_shrinks [OF Cons.prems(1) a] alloc_fresh [OF Cons.prems(1) a] show ?case
    unfolding r(2) list_all_iff by fastforce
qed simp

lemma alloc_seq_disjoint:
  "inv s \<Longrightarrow> alloc_seq alloc s cs = Some (rs, s') \<Longrightarrow> pages_disjoint rs"
proof (induction cs arbitrary: s rs)
  case (Cons c cs)
  then obtain a s1 rs1 where a: "alloc s c = Some (a, s1)"
    and r: "alloc_seq alloc s1 cs = Some (rs1, s')" "rs = (a, c) # rs1"
    by (auto split: option.splits)
  note i1 = alloc_inv [OF Cons.prems(1) a]
  have "a = 0 \<or> list_all (\<lambda>(a', c'). a' = 0 \<or> pages_of a c \<inter> pages_of a' c' = {}) rs1"
    using alloc_seq_from_avail [OF i1 r(1)] alloc_fresh [OF Cons.prems(1) a]
    unfolding list_all_iff by fastforce
  with Cons.IH [OF i1 r(1)] show ?case by (simp add: r(2))
qed auto

end

lemma alloc_pages_fail:
  assumes inv: "phys_inv s" and ok: "alloc_pages s count = Some (0, s')"
  shows "s' = s"
  using inv ok
proof (cases rule: alloc_pages_cases)
  case (2 p)
  then have "p < 2 ^ 52" using inv by (auto simp: phys_inv_def word_less_nat_alt)
  with 2(1,5) page_addr_div(1) [of p] show ?thesis by (simp flip: 2(5))
qed simp

lemma alloc_pages_fresh:
  assumes inv: "phys_inv s" and ok: "alloc_pages s count = Some (a, s')" and "a \<noteq> 0"
  shows "a mod PAGE_SIZE = 0" "pages_of a count \<subseteq> free_set s"
    "free_set s' = free_set s - pages_of a count" "0 < count" "PAGE_SIZE \<le> a"
proof -
  from inv ok have "\<exists>p. 0 < p \<and> 0 < count \<and> p + unat count \<le> unat (g_total_pages s)
      \<and> run_free (g_bitmap s) p (unat count) \<and> a = of_nat p * PAGE_SIZE
      \<and> set_run (g_bitmap s) [p..<p + unat count] = Some (g_bitmap s')
      \<and> g_total_pages s' = g_total_pages s"
  proof (cases rule: alloc_pages_cases)
    case (2 p)
    moreover have "g_total_pages s' = g_total_pages s" by (subst 2(8)) simp
    ultimately show ?thesis by blast
  qed (use \<open>a \<noteq> 0\<close> in simp)
  then obtain p where p: "0 < p" "0 < count" "p + unat count \<le> unat (g_total_pages s)"
      "run_free (g_bitmap s) p (unat count)" "a = of_nat p * PAGE_SIZE"
      "set_run (g_bitmap s) [p..<p + unat count] = Some (g_bitmap s')"
      "g_total_pages s' = g_total_pages s" by blast
  have lt: "p < 2 ^ 52"
    using p(2,3) inv by (auto simp: phys_inv_def word_less_nat_alt)
  note dv = page_addr_div [OF lt]
  have pg: "pages_of a count = {p..<p + unat count}"
    by (simp add: pages_of_def p(5) dv)
  from set_run_Some [OF p(6)] have bits:
    "\<forall>q. bit_test (g_bitmap s') q \<longleftrightarrow> q \<in> {p..<p + unat count} \<or> bit_test (g_bitmap s) q" by auto
  from free_set_remove [OF p(3,4) bits p(7)]
  show "pages_of a count \<subseteq> free_set s" "free_set s' = free_set s - pages_of a count"
    by (simp_all add: pg)
  show "a mod PAGE_SIZE = 0" "0 < count" using p dv by simp_all
  have "0 < unat (a div PAGE_SIZE)" using p(1) dv p(5) by simp
  then show "PAGE_SIZE \<le> a"
    by (auto simp: unat_div word_le_nat_alt PAGE_SIZE_def div_greater_zero_iff)
qed

interpretation pp: page_provider alloc_pages free_pages phys_inv free_set
  by unfold_locales
    (auto simp: alloc_pages_defined alloc_pages_inv free_pages_inv alloc_pages_fresh dest: alloc_pages_fail)

section \<open>A concrete allocator state\<close>

text \<open>Sixteen pages, the last two free, the hint at the first free one.\<close>

definition phys_ex :: phys_state where
  "phys_ex = phys_boot\<lparr>g_bitmap := [0xFF, 0x3F], g_total_pages := 16, g_free_pages := 2,
     g_used_pages := 14, g_last_alloc_page := 14, phys_initialized := True\<rparr>"

lemma free_set_filter:
  "free_set s = set (filter (\<lambda>p. \<not> bit_test (g_bitmap s) p) [0..<unat (g_total_pages s)])"
  by (auto simp: free_set_def)

lemma upt_16: "[0..<16] = [0, 1, 2, 3, 4, 5, 6, 7, 8, 9, 10, 11, 12, 13, 14, 15 :: nat]"
  by code_simp

lemma phys_ex_fields [simp]:
  "g_bitmap phys_ex = [0xFF, 0x3F]" "g_total_pages phys_ex = 16" "g_free_pages phys_ex = 2"
  "g_used_pages phys_ex = 14" "g_last_alloc_page phys_ex = 14" "phys_initialized phys_ex"
  by (simp_all add: phys_ex_def phys_boot_def)

lemma free_set_ex: "free_set phys_ex = {14, 15}"
  by (simp add: free_set_filter upt_16 bit_test_bit)

lemma phys_inv_ex: "phys_inv phys_ex"
  by (simp add: phys_inv_def free_set_ex) (simp add: bit_test_bit)

lemma alloc_ex: "alloc_pages phys_ex 2 = Some (57344, phys_ex\<lparr>g_bitmap := [0xFF, 0xFF],
   g_free_pages := 0, g_used_pages := 16, g_last_alloc_page := 16\<rparr>)"
  by code_simp

text \<open>A boot memory map with a null entry, a reserved one and a usable one.\<close>

definition memmap_ex :: memmap where
  "memmap_ex = [None, Some \<lparr>me_base = 0, me_length = 0x9F000, me_usable = False\<rparr>,
     Some \<lparr>me_base = 0x100000, me_length = 0x3000, me_usable = True\<rparr>]"

section \<open>Properties\<close>

text \<open>C1. From a state that satisfies the invariant, \<open>alloc_pages\<close> never touches memory
  outside the bitmap; it either fails with 0 and changes nothing, or returns a non-zero
  page-aligned address whose \<open>count\<close> pages were all free and are now exactly the pages
  taken from the free set; the invariant is kept.\<close>

theorem alloc_pages_sound:
  assumes "phys_inv s"
  shows "\<exists>a s'. alloc_pages s count = Some (a, s') \<and> phys_inv s' \<and>
    (if a = 0 then s' = s
     else a mod PAGE_SIZE = 0 \<and> PAGE_SIZE \<le> a \<and> 0 < count
       \<and> pages_of a count \<subseteq> free_set s \<and> free_set s' = free_set s - pages_of a count)"
proof -
  obtain a s' where ok: "alloc_pages s count = Some (a, s')"
    using pp.alloc_defined [OF assms] by fastforce
  then show ?thesis
    using pp.alloc_inv [OF assms ok] pp.alloc_fail [OF assms] alloc_pages_fresh [OF assms ok] by auto
qed

theorem alloc_pages_sound_witness:
  "\<exists>a s'. alloc_pages phys_ex 2 = Some (a, s') \<and> phys_inv s' \<and>
    (if a = 0 then s' = phys_ex
     else a mod PAGE_SIZE = 0 \<and> PAGE_SIZE \<le> a \<and> 0 < (2 :: u64)
       \<and> pages_of a 2 \<subseteq> free_set phys_ex \<and> free_set s' = free_set phys_ex - pages_of a 2)"
  by (rule alloc_pages_sound [OF phys_inv_ex])

text \<open>\<open>alloc_pages\<close> is complete for runs inside one of its two scan windows: if some
  \<open>count\<close> consecutive free pages lie between the hint and the end, or between page 0 and the
  hint, the allocation succeeds.\<close>

theorem alloc_pages_complete:
  assumes inv: "phys_inv s" and c: "count \<noteq> 0"
    and p: "unat (scan_start s (g_last_alloc_page s)) \<le> p \<and> p + unat count \<le> unat (g_total_pages s)
          \<or> p + unat count \<le> unat (scan_start s (g_last_alloc_page s))"
    and free: "{p..<p + unat count} \<subseteq> free_set s"
  shows "\<exists>a s'. alloc_pages s count = Some (a, s') \<and> a \<noteq> 0"
proof -
  have "unat count = card {p..<p + unat count}" by simp
  also have "\<dots> \<le> card (free_set s)" by (intro card_mono free) simp
  finally have cf: "unat count \<le> unat (g_free_pages s)" using inv by (simp add: phys_inv_def)
  then have ct: "count \<le> g_total_pages s" using inv by (simp add: phys_inv_def word_le_nat_alt)
  have "find_free_run s count (g_last_alloc_page s) \<noteq> None"
    using find_free_run_complete [OF inv _ c ct p] free by (fastforce simp: free_set_def)
  then obtain q where q: "find_free_run s count (g_last_alloc_page s) = Some q" by blast
  note sd = find_free_run_sound [OF inv q]
  then have lt: "q < 2 ^ 52" using inv by (auto simp: phys_inv_def word_less_nat_alt)
  have nz: "of_nat q * PAGE_SIZE \<noteq> (0 :: u64)"
    using page_addr_div(1) [OF lt] sd by (metis div_0 less_irrefl unat_0)
  obtain r where r: "alloc_pages s count = Some r" using alloc_pages_defined [OF inv] by blast
  with q c cf inv nz show ?thesis
    by (auto simp: alloc_pages_def phys_inv_def word_less_nat_alt split: option.splits if_splits)
qed

theorem alloc_pages_complete_witness:
  "\<exists>a s'. alloc_pages phys_ex 2 = Some (a, s') \<and> a \<noteq> 0"
  by (rule alloc_pages_complete [OF phys_inv_ex, of _ 14])
    (simp_all add: scan_start_def free_set_ex set_eq_iff atLeastLessThan_nat_numeral)

text \<open>C2. Any sequence of allocations from a state that satisfies the invariant runs to the
  end, and the page runs it hands out are pairwise disjoint: no page is ever given out twice
  without having been released.\<close>

theorem alloc_sequence_disjoint:
  assumes "phys_inv s"
  shows "\<exists>rs s'. alloc_seq alloc_pages s cs = Some (rs, s') \<and> phys_inv s' \<and> pages_disjoint rs"
  using pp.alloc_seq_defined [OF assms, of cs] pp.alloc_seq_disjoint [OF assms, of cs] by blast

theorem alloc_sequence_disjoint_witness:
  "\<exists>rs s'. alloc_seq alloc_pages phys_ex [1, 1, 1] = Some (rs, s') \<and> phys_inv s' \<and> pages_disjoint rs"
  by (rule alloc_sequence_disjoint [OF phys_inv_ex])

text \<open>Releasing exactly what was allocated restores the bitmap and both counters: only the
  scan hint keeps a trace of the allocation.\<close>

theorem alloc_free_roundtrip:
  assumes inv: "phys_inv s" and ok: "alloc_pages s count = Some (a, s')" and nz: "a \<noteq> 0"
  shows "free_pages s' a count = s\<lparr>g_last_alloc_page := g_last_alloc_page s'\<rparr>"
proof -
  note inv' = alloc_pages_inv [OF inv ok] and fr = alloc_pages_fresh [OF inv ok nz]
  let ?t = "free_pages s' a count"
  have same: "g_total_pages s' = g_total_pages s" "length (g_bitmap s') = length (g_bitmap s)"
    "g_bitmap_phys s' = g_bitmap_phys s" "g_hhdm_offset s' = g_hhdm_offset s"
    using ok by (auto simp: alloc_pages_def dest: set_run_Some split: if_splits option.splits)
  have tinv: "phys_inv ?t" by (rule free_pages_inv [OF inv' fr(5)])
  have ft: "?t = free_loop s' [unat (a div PAGE_SIZE)..<unat (a div PAGE_SIZE) + unat count]"
    using inv' fr by (auto simp: free_pages_def phys_inv_def)
  have tf: "g_total_pages ?t = g_total_pages s" "length (g_bitmap ?t) = length (g_bitmap s)"
    "g_last_alloc_page ?t = g_last_alloc_page s'" "g_bitmap_phys ?t = g_bitmap_phys s"
    "g_hhdm_offset ?t = g_hhdm_offset s" "phys_initialized ?t" "phys_initialized s"
    using same inv inv' by (simp_all add: ft free_loop_fields phys_inv_def)
  have "pages_of a count \<subseteq> {..<unat (g_total_pages s')}"
    using fr(2) same(1) by (auto simp: free_set_def)
  then have fs: "free_set ?t = free_set s"
    using fr(2,3) free_pages_free_set [OF inv' fr(5,1), of count] by auto
  have bits: "bit_test (g_bitmap ?t) q = bit_test (g_bitmap s) q" for q
  proof (cases "q < unat (g_total_pages s)")
    case True
    with fs tf(1) show ?thesis unfolding free_set_def set_eq_iff by fastforce
  next
    case False
    then have "q \<notin> pages_of a count" using fr(2) by (auto simp: free_set_def)
    moreover have "0 < unat (a div PAGE_SIZE)"
      using fr(5) by (auto simp: unat_div PAGE_SIZE_def word_le_nat_alt div_greater_zero_iff)
    ultimately have "bit_test (g_bitmap ?t) q = bit_test (g_bitmap s') q"
      unfolding ft by (subst free_loop_bits [OF inv']) (auto simp: pages_of_def)
    moreover have "bit_test (g_bitmap s') q = bit_test (g_bitmap s) q"
    proof (cases rule: alloc_pages_cases [OF inv ok])
      case (2 p)
      then have "p < 2 ^ 52" using inv by (auto simp: phys_inv_def word_less_nat_alt)
      with \<open>q \<notin> pages_of a count\<close> set_run_Some [OF 2(7)] show ?thesis
        by (auto simp: pages_of_def 2(5) page_addr_div)
    qed (use nz in simp)
    ultimately show ?thesis by simp
  qed
  have bm: "g_bitmap ?t = g_bitmap s" by (rule bitmap_eqI) (simp_all add: tf bits)
  have fp: "g_free_pages ?t = g_free_pages s"
    using tinv inv fs by (simp add: phys_inv_def word_unat_eq_iff)
  then have "g_used_pages ?t = g_used_pages s"
    using tinv inv tf(1) by (simp add: phys_inv_def word_unat_eq_iff)
  with bm fp tf show ?thesis by (intro phys_state.equality) simp_all
qed

theorem alloc_free_roundtrip_witness:
  "free_pages (phys_ex\<lparr>g_bitmap := [0xFF, 0xFF], g_free_pages := 0, g_used_pages := 16,
     g_last_alloc_page := 16\<rparr>) 57344 2 = phys_ex\<lparr>g_last_alloc_page := 16\<rparr>"
  using alloc_free_roundtrip [OF phys_inv_ex alloc_ex] by simp

text \<open>C3. Booting on a memory map whose usable entries neither overlap nor wrap establishes
  the invariant, whenever initialisation completes: counters, bitmap and the reserved page 0
  agree before the first allocation.\<close>

theorem phys_init_inv:
  assumes "memmap_ok entries" and "phys_initialized (phys_init phys_boot (Some entries) hhdm)"
  shows "phys_inv (phys_init phys_boot (Some entries) hhdm)"
  using assms by (rule phys_init_establishes_inv)

theorem phys_init_inv_witness: "phys_inv (phys_init phys_boot (Some memmap_ex) 0)"
  by (rule phys_init_inv)
    (simp_all add: memmap_ok_def memmap_ex_def entry_end_def phys_init_def phys_boot_def Let_def
      PAGE_SIZE_def LOW_RESERVED_def)

text \<open>The invariant is needed, and the public operations can break it: after
  \<open>free_pages(0, 2)\<close> the pages 0 and 1 are free, the scan carries its run of the two last
  pages over to page 0, and a request for three pages writes past the end of the bitmap.\<close>

theorem alloc_run_wraps_past_end:
  "phys_inv phys_ex \<and> alloc_pages (free_pages phys_ex 0 2) 3 = None"
proof
  show "phys_inv phys_ex" by (rule phys_inv_ex)
  show "alloc_pages (free_pages phys_ex 0 2) 3 = None" by code_simp
qed

text \<open>The two scan windows are a real restriction: a free run that straddles the hint is
  not found, and the request fails although enough contiguous memory is free.\<close>

theorem alloc_misses_straddling_run:
  "phys_inv (phys_ex\<lparr>g_last_alloc_page := 15\<rparr>) \<and> {14..<16} \<subseteq> free_set (phys_ex\<lparr>g_last_alloc_page := 15\<rparr>)
   \<and> alloc_pages (phys_ex\<lparr>g_last_alloc_page := 15\<rparr>) 2 = Some (0, phys_ex\<lparr>g_last_alloc_page := 15\<rparr>)"
proof (intro conjI)
  have fs: "free_set (phys_ex\<lparr>g_last_alloc_page := 15\<rparr>) = {14, 15}"
    using free_set_ex by (simp add: free_set_def)
  then show "phys_inv (phys_ex\<lparr>g_last_alloc_page := 15\<rparr>)"
    using phys_inv_ex by (simp add: phys_inv_def)
  show "{14..<16} \<subseteq> free_set (phys_ex\<lparr>g_last_alloc_page := 15\<rparr>)"
    by (auto simp: fs)
  show "alloc_pages (phys_ex\<lparr>g_last_alloc_page := 15\<rparr>) 2 = Some (0, phys_ex\<lparr>g_last_alloc_page := 15\<rparr>)"
    by code_simp
qed

end
