(* ===== verification/Dma.thy ===== *)
theory Dma
  imports PhysSpec
begin

text \<open>
  The DMA allocator of \<open>drivers/dma.cpp\<close>: whole pages from \<open>phys\<close>, returned as addresses in
  the higher-half direct map, and \<open>map\<close>, which gives a driver the physical address back.  A
  \<open>void*\<close> is a 64-bit word, 0 for \<open>nullptr\<close>.  Its state sits beside the page allocator's.
\<close>

record dma_state =
  dma_hhdm_offset :: u64
  dma_phys_base :: u64
  dma_size :: u64
  dma_ready :: bool

definition dma_boot :: dma_state where
  "dma_boot = \<lparr>dma_hhdm_offset = 0, dma_phys_base = 0, dma_size = 0, dma_ready = False\<rparr>"

definition MIN_BASE :: u64 where "MIN_BASE = 0x100000"

text \<open>The largest usable entry above 1 MiB, for the boot log.\<close>

fun largest_region :: "memmap \<Rightarrow> dma_state \<Rightarrow> dma_state" where
  "largest_region [] d = d"
| "largest_region (None # es) d = largest_region es d"
| "largest_region (Some e # es) d =
     (if \<not> me_usable e then largest_region es d
      else if me_base e < MIN_BASE then largest_region es d
      else if me_length e > dma_size d
        then largest_region es (d\<lparr>dma_phys_base := me_base e, dma_size := me_length e\<rparr>)
      else largest_region es d)"

definition dma_init :: "phys_state \<Rightarrow> memmap option \<Rightarrow> u64 \<Rightarrow> dma_state \<times> phys_state" where
  "dma_init p memmap hhdm_offset =
     (let d = \<lparr>dma_hhdm_offset = hhdm_offset, dma_phys_base = 0, dma_size = 0, dma_ready = False\<rparr> in
      case memmap of None \<Rightarrow> (d, p)
      | Some entries \<Rightarrow>
          let p = phys_init p memmap hhdm_offset in
          if \<not> phys_initialized p then (d, p)
          else ((largest_region entries d)\<lparr>dma_ready := True\<rparr>, p))"

definition dma_alloc :: "dma_state \<Rightarrow> phys_state \<Rightarrow> u64 \<Rightarrow> u64 \<Rightarrow> (u64 \<times> phys_state) option" where
  "dma_alloc d p size_arg alignment =
     (if \<not> dma_ready d \<or> size_arg = 0 then Some (0, p)
      else
        let alignment = (if alignment = 0 then 1 else alignment) in
        if alignment > PAGE_SIZE then Some (0, p)
        else
          let pages = (size_arg + PAGE_SIZE - 1) div PAGE_SIZE in
          case alloc_pages p pages of
            None \<Rightarrow> None
          | Some (phys, p') \<Rightarrow>
              if phys = 0 then Some (0, p') else Some (phys + dma_hhdm_offset d, p'))"

definition dma_map :: "dma_state \<Rightarrow> u64 \<Rightarrow> u64" where
  "dma_map d virt =
     (if virt = 0 then 0
      else if dma_hhdm_offset d \<noteq> 0 \<and> virt \<ge> dma_hhdm_offset d then virt - dma_hhdm_offset d
      else virt)"

definition dma_stop :: "dma_state \<Rightarrow> dma_state" where
  "dma_stop d = d\<lparr>dma_ready := False\<rparr>"

lemma ceil_pages:
  assumes "unat n \<le> 2 ^ 63"
  shows "unat ((n + PAGE_SIZE - 1) div PAGE_SIZE) = (unat n + 4095) div 4096"
  using assms by (intro unat_ceil_page) simp

lemma map_of_hhdm:
  assumes "unat phys + unat (dma_hhdm_offset d) < 2 ^ 64" and "phys \<noteq> 0"
  shows "dma_map d (phys + dma_hhdm_offset d) = phys"
proof -
  have u: "unat (phys + dma_hhdm_offset d) = unat phys + unat (dma_hhdm_offset d)"
    using assms(1) by (intro unat_add_no_overflow) simp
  have "unat phys > 0" using assms(2) by (simp add: unat_gt_0)
  then have "phys + dma_hhdm_offset d \<noteq> 0" using u by (metis add_is_0 less_irrefl unat_0)
  then show ?thesis by (auto simp: dma_map_def word_le_nat_alt u)
qed

lemma alloc_addr_bound:
  assumes "phys_inv p" and "alloc_pages p c = Some (a, p')" and "a \<noteq> 0"
  shows "unat a < 4096 * unat (g_total_pages p)"
proof -
  note fr = alloc_pages_fresh [OF assms]
  have "unat (a div PAGE_SIZE) \<in> pages_of a c"
    using fr(4) by (simp add: pages_of_def word_less_nat_alt)
  with fr(2) have "unat a div 4096 < unat (g_total_pages p)"
    by (auto simp: free_set_def unat_div PAGE_SIZE_def)
  then show ?thesis by linarith
qed

text \<open>C4. A successful \<open>dma::alloc\<close> hands out enough fresh pages: translated back with
  \<open>dma::map\<close> the buffer starts at a page boundary, its pages cover the requested size and
  were all free before, and no other page changes state.  (The size must be at most
  \<open>2 ^ 63\<close> bytes, and the direct map of the managed pages must fit the address space.)\<close>

theorem dma_alloc_buffer:
  assumes inv: "phys_inv p" and ok: "dma_alloc d p n al = Some (v, p')" and nz: "v \<noteq> 0"
    and sz: "unat n \<le> 2 ^ 63"
    and hh: "unat (dma_hhdm_offset d) + 4096 * unat (g_total_pages p) \<le> 2 ^ 64"
  shows "\<exists>pages. unat n \<le> 4096 * unat pages \<and> dma_map d v mod PAGE_SIZE = 0
     \<and> pages_of (dma_map d v) pages \<subseteq> free_set p
     \<and> free_set p' = free_set p - pages_of (dma_map d v) pages \<and> phys_inv p'"
proof -
  let ?c = "(n + PAGE_SIZE - 1) div PAGE_SIZE"
  from ok nz obtain a where a: "alloc_pages p ?c = Some (a, p')" "a \<noteq> 0" "v = a + dma_hhdm_offset d"
    by (auto simp: dma_alloc_def Let_def split: if_splits option.splits)
  have "unat a + unat (dma_hhdm_offset d) < 2 ^ 64"
    using alloc_addr_bound [OF inv a(1,2)] hh by linarith
  then have m: "dma_map d v = a" unfolding a(3) using a(2) by (intro map_of_hhdm) auto
  have "unat n \<le> 4096 * unat ?c" unfolding ceil_pages [OF sz] by linarith
  with alloc_pages_fresh [OF inv a(1,2)] pp.alloc_inv [OF inv a(1)] show ?thesis
    unfolding m by (intro exI [of _ ?c]) simp
qed

definition dma_ex :: dma_state where
  "dma_ex = dma_boot\<lparr>dma_hhdm_offset := 0xFFFF800000000000, dma_ready := True\<rparr>"

definition phys_ex_full :: phys_state where
  "phys_ex_full = phys_ex\<lparr>g_bitmap := [0xFF, 0xFF], g_free_pages := 0, g_used_pages := 16,
     g_last_alloc_page := 16\<rparr>"

theorem dma_alloc_buffer_witness:
  "\<exists>pages. unat (5000 :: u64) \<le> 4096 * unat pages \<and> dma_map dma_ex 0xFFFF80000000E000 mod PAGE_SIZE = 0
     \<and> pages_of (dma_map dma_ex 0xFFFF80000000E000) pages \<subseteq> free_set phys_ex
     \<and> free_set phys_ex_full = free_set phys_ex - pages_of (dma_map dma_ex 0xFFFF80000000E000) pages \<and> phys_inv phys_ex_full"
  by (rule dma_alloc_buffer [OF phys_inv_ex, where al = 4096])
    (simp_all add: dma_alloc_def dma_ex_def dma_boot_def PAGE_SIZE_def alloc_ex phys_ex_full_def)

end
