(* ===== verification/Disk.thy ===== *)
theory Disk
  imports Prelude
begin

text \<open>
  The block layer: what a block driver offers (\<open>blk\<close>, one field per operation of the
  \<open>ata\<close> and \<open>ahci\<close> namespaces), the dispatch of \<open>drivers/disk.cpp\<close> over the active
  driver, and the interface \<open>block_device\<close> on which the file systems rest.

  The state \<open>'d\<close> of a device stands for what its medium holds: a read is a function of it,
  because a read leaves the medium alone (that the registers it does change cannot be observed
  by later operations is proved for the ATA driver).  \<open>None\<close> is the \<open>false\<close> of a read.
  A write returns its Boolean with the new state; a failed write may have changed the sector.
\<close>

record 'd blk =
  blk_init :: "'d \<Rightarrow> bool \<times> 'd"
  blk_present :: "'d \<Rightarrow> bool"
  blk_sectors :: "'d \<Rightarrow> u32"
  blk_read :: "'d \<Rightarrow> u32 \<Rightarrow> u8 list option"
  blk_write :: "'d \<Rightarrow> u32 \<Rightarrow> u8 list \<Rightarrow> bool \<times> 'd"
  blk_reads :: "'d \<Rightarrow> u32 \<Rightarrow> u8 \<Rightarrow> u8 list option"
  blk_writes :: "'d \<Rightarrow> u32 \<Rightarrow> u8 \<Rightarrow> u8 list \<Rightarrow> bool \<times> 'd"
  blk_flush :: "'d \<Rightarrow> bool \<times> 'd"

section \<open>Dispatch\<close>

datatype driver = NONE | ATA | AHCI

record ('a, 'b) disk_state =
  active_driver :: driver
  ahci_dev :: 'a
  ata_dev :: 'b

definition disk_init :: "'a blk \<Rightarrow> 'b blk \<Rightarrow> ('a, 'b) disk_state \<Rightarrow> bool \<times> ('a, 'b) disk_state" where
  "disk_init ahci ata s =
     (case blk_init ahci (ahci_dev s) of
        (True, a) \<Rightarrow> (True, s\<lparr>active_driver := AHCI, ahci_dev := a\<rparr>)
      | (False, a) \<Rightarrow>
          (case blk_init ata (ata_dev s) of
             (True, b) \<Rightarrow> (True, s\<lparr>active_driver := ATA, ahci_dev := a, ata_dev := b\<rparr>)
           | (False, b) \<Rightarrow> (False, s\<lparr>active_driver := NONE, ahci_dev := a, ata_dev := b\<rparr>)))"

definition disk_present :: "'a blk \<Rightarrow> 'b blk \<Rightarrow> ('a, 'b) disk_state \<Rightarrow> bool" where
  "disk_present ahci ata s =
     (case active_driver s of AHCI \<Rightarrow> blk_present ahci (ahci_dev s)
      | ATA \<Rightarrow> blk_present ata (ata_dev s) | NONE \<Rightarrow> False)"

definition disk_sectors :: "'a blk \<Rightarrow> 'b blk \<Rightarrow> ('a, 'b) disk_state \<Rightarrow> u32" where
  "disk_sectors ahci ata s =
     (case active_driver s of AHCI \<Rightarrow> blk_sectors ahci (ahci_dev s)
      | ATA \<Rightarrow> blk_sectors ata (ata_dev s) | NONE \<Rightarrow> 0)"

definition disk_read_sector :: "'a blk \<Rightarrow> 'b blk \<Rightarrow> ('a, 'b) disk_state \<Rightarrow> u32 \<Rightarrow> u8 list option" where
  "disk_read_sector ahci ata s lba =
     (case active_driver s of
        AHCI \<Rightarrow> blk_read ahci (ahci_dev s) lba
      | ATA \<Rightarrow> blk_read ata (ata_dev s) lba
      | NONE \<Rightarrow> None)"

definition on_ahci :: "('a, 'b) disk_state \<Rightarrow> bool \<times> 'a \<Rightarrow> bool \<times> ('a, 'b) disk_state" where
  "on_ahci s r = (fst r, s\<lparr>ahci_dev := snd r\<rparr>)"

definition on_ata :: "('a, 'b) disk_state \<Rightarrow> bool \<times> 'b \<Rightarrow> bool \<times> ('a, 'b) disk_state" where
  "on_ata s r = (fst r, s\<lparr>ata_dev := snd r\<rparr>)"

definition disk_write_sector ::
  "'a blk \<Rightarrow> 'b blk \<Rightarrow> ('a, 'b) disk_state \<Rightarrow> u32 \<Rightarrow> u8 list \<Rightarrow> bool \<times> ('a, 'b) disk_state" where
  "disk_write_sector ahci ata s lba buffer =
     (case active_driver s of
        AHCI \<Rightarrow> on_ahci s (blk_write ahci (ahci_dev s) lba buffer)
      | ATA \<Rightarrow> on_ata s (blk_write ata (ata_dev s) lba buffer)
      | NONE \<Rightarrow> (False, s))"

definition disk_read_sectors ::
  "'a blk \<Rightarrow> 'b blk \<Rightarrow> ('a, 'b) disk_state \<Rightarrow> u32 \<Rightarrow> u8 \<Rightarrow> u8 list option" where
  "disk_read_sectors ahci ata s lba count =
     (case active_driver s of
        AHCI \<Rightarrow> blk_reads ahci (ahci_dev s) lba count
      | ATA \<Rightarrow> blk_reads ata (ata_dev s) lba count
      | NONE \<Rightarrow> None)"

definition disk_write_sectors ::
  "'a blk \<Rightarrow> 'b blk \<Rightarrow> ('a, 'b) disk_state \<Rightarrow> u32 \<Rightarrow> u8 \<Rightarrow> u8 list \<Rightarrow> bool \<times> ('a, 'b) disk_state" where
  "disk_write_sectors ahci ata s lba count buffer =
     (case active_driver s of
        AHCI \<Rightarrow> on_ahci s (blk_writes ahci (ahci_dev s) lba count buffer)
      | ATA \<Rightarrow> on_ata s (blk_writes ata (ata_dev s) lba count buffer)
      | NONE \<Rightarrow> (False, s))"

definition disk_flush :: "'a blk \<Rightarrow> 'b blk \<Rightarrow> ('a, 'b) disk_state \<Rightarrow> bool \<times> ('a, 'b) disk_state" where
  "disk_flush ahci ata s =
     (case active_driver s of
        AHCI \<Rightarrow> on_ahci s (blk_flush ahci (ahci_dev s))
      | ATA \<Rightarrow> on_ata s (blk_flush ata (ata_dev s))
      | NONE \<Rightarrow> (False, s))"

definition active_driver_name :: "('a, 'b) disk_state \<Rightarrow> string" where
  "active_driver_name s =
     (case active_driver s of AHCI \<Rightarrow> ''AHCI'' | ATA \<Rightarrow> ''ATA PIO'' | NONE \<Rightarrow> ''none'')"

definition is_ata :: "('a, 'b) disk_state \<Rightarrow> bool" where "is_ata s \<longleftrightarrow> active_driver s = ATA"
definition is_ahci :: "('a, 'b) disk_state \<Rightarrow> bool" where "is_ahci s \<longleftrightarrow> active_driver s = AHCI"

text \<open>The namespace \<open>disk\<close> as the block device the file systems call.\<close>

definition disk_blk :: "'a blk \<Rightarrow> 'b blk \<Rightarrow> ('a, 'b) disk_state blk" where
  "disk_blk ahci ata = \<lparr>blk_init = disk_init ahci ata, blk_present = disk_present ahci ata,
     blk_sectors = disk_sectors ahci ata, blk_read = disk_read_sector ahci ata,
     blk_write = disk_write_sector ahci ata, blk_reads = disk_read_sectors ahci ata,
     blk_writes = disk_write_sectors ahci ata, blk_flush = disk_flush ahci ata\<rparr>"

section \<open>The interface of the file systems\<close>

text \<open>A run of sector writes that stops at the first failure, as the loops of the file
  systems do.\<close>

fun write_seq :: "'d blk \<Rightarrow> 'd \<Rightarrow> (u32 \<times> u8 list) list \<Rightarrow> bool \<times> 'd" where
  "write_seq io d [] = (True, d)"
| "write_seq io d ((lba, bs) # ws) =
     (case blk_write io d lba bs of
        (True, d') \<Rightarrow> write_seq io d' ws
      | (False, d') \<Rightarrow> (False, d'))"

fun read_seq :: "'d blk \<Rightarrow> 'd \<Rightarrow> u32 list \<Rightarrow> u8 list option" where
  "read_seq io d [] = Some []"
| "read_seq io d (lba # ls) =
     (case blk_read io d lba of None \<Rightarrow> None
      | Some bs \<Rightarrow> map_option ((@) bs) (read_seq io d ls))"

locale block_device =
  fixes io :: "'d blk"
  assumes read_len: "blk_read io d lba = Some bs \<Longrightarrow> length bs = 512"
    and write_read: "blk_write io d lba bs = (True, d') \<Longrightarrow> length bs = 512 \<Longrightarrow> blk_read io d' lba = Some bs"
    and write_frame: "blk_write io d lba bs = (ok, d') \<Longrightarrow> l \<noteq> lba \<Longrightarrow> blk_read io d' l = blk_read io d l"
    and write_present: "blk_write io d lba bs = (ok, d') \<Longrightarrow> blk_present io d' = blk_present io d"
    and flush_read: "blk_flush io d = (ok, d') \<Longrightarrow> blk_read io d' l = blk_read io d l"
    and flush_present: "blk_flush io d = (ok, d') \<Longrightarrow> blk_present io d' = blk_present io d"
begin

lemma write_read_fst:
  "fst (blk_write io d lba bs) \<Longrightarrow> length bs = 512 \<Longrightarrow> blk_read io (snd (blk_write io d lba bs)) lba = Some bs"
  by (metis (full_types) prod.collapse write_read)

lemma write_snd:
  "l \<noteq> lba \<Longrightarrow> blk_read io (snd (blk_write io d lba bs)) l = blk_read io d l"
  "blk_present io (snd (blk_write io d lba bs)) = blk_present io d"
  by (metis prod.collapse write_frame, metis prod.collapse write_present)

lemma flush_snd:
  "blk_read io (snd (blk_flush io d)) l = blk_read io d l"
  "blk_present io (snd (blk_flush io d)) = blk_present io d"
  by (metis prod.collapse flush_read, metis prod.collapse flush_present)

lemma write_seq_frame:
  "write_seq io d ws = (ok, d') \<Longrightarrow> l \<notin> fst ` set ws \<Longrightarrow> blk_read io d' l = blk_read io d l"
proof (induction ws arbitrary: d)
  case (Cons w ws)
  obtain lba bs where w: "w = (lba, bs)" by (cases w)
  obtain b d1 where b: "blk_write io d lba bs = (b, d1)" by (cases "blk_write io d lba bs")
  have "blk_read io d1 l = blk_read io d l" using Cons.prems by (intro write_frame [OF b]) (auto simp: w)
  with Cons w b show ?case by (cases b) auto
qed simp

lemma write_seq_present: "write_seq io d ws = (ok, d') \<Longrightarrow> blk_present io d' = blk_present io d"
proof (induction ws arbitrary: d)
  case (Cons w ws)
  obtain lba bs where w: "w = (lba, bs)" by (cases w)
  obtain b d1 where b: "blk_write io d lba bs = (b, d1)" by (cases "blk_write io d lba bs")
  with Cons w write_present [OF b] show ?case by (cases b) auto
qed simp

lemma write_seq_append:
  "write_seq io d (ws @ vs) = (case write_seq io d ws of (True, d') \<Rightarrow> write_seq io d' vs | (False, d') \<Rightarrow> (False, d'))"
  by (induction ws arbitrary: d) (auto split: prod.splits bool.splits)

lemma write_seq_read:
  assumes "write_seq io d (ws @ (l, bs) # vs) = (True, d')" and "length bs = 512"
    and "l \<notin> fst ` set vs"
  shows "blk_read io d' l = Some bs"
proof -
  obtain d1 d2 where 1: "write_seq io d ws = (True, d1)" "blk_write io d1 l bs = (True, d2)"
    "write_seq io d2 vs = (True, d')"
    using assms(1) by (auto simp: write_seq_append split: prod.splits bool.splits)
  from write_read [OF 1(2) assms(2)] write_seq_frame [OF 1(3) assms(3)] show ?thesis by simp
qed

lemma read_seq_len: "read_seq io d ls = Some bs \<Longrightarrow> length bs = 512 * length ls"
  by (induction ls arbitrary: bs) (auto split: option.splits dest: read_len)

lemma read_seq_cong: "(\<And>l. l \<in> set ls \<Longrightarrow> blk_read io d' l = blk_read io d l) \<Longrightarrow> read_seq io d' ls = read_seq io d ls"
  by (induction ls) (auto split: option.splits)

end

text \<open>The content of a readable sector.\<close>

definition sec :: "'d blk \<Rightarrow> 'd \<Rightarrow> u32 \<Rightarrow> u8 list" where
  "sec io d l = the (blk_read io d l)"

text \<open>A run of writes whose results are not looked at.\<close>

definition write_all :: "'d blk \<Rightarrow> (u32 \<times> u8 list) list \<Rightarrow> 'd \<Rightarrow> 'd" where
  "write_all io ws d = fold (\<lambda>(lba, bs) d. snd (blk_write io d lba bs)) ws d"

lemma write_all_simps [simp]:
  "write_all io [] d = d"
  "write_all io ((l, bs) # ws) d = write_all io ws (snd (blk_write io d l bs))"
  by (simp_all add: write_all_def)

text \<open>A device without faults: while it is \<open>good\<close>, the first \<open>lim\<close> sectors can be read
  and written.\<close>

locale reliable_device = block_device io for io :: "'d blk" +
  fixes good :: "'d \<Rightarrow> bool" and lim :: nat
  assumes good_read: "good d \<Longrightarrow> unat l < lim \<Longrightarrow> blk_read io d l \<noteq> None"
    and good_write: "good d \<Longrightarrow> unat l < lim \<Longrightarrow> length bs = 512 \<Longrightarrow> fst (blk_write io d l bs)"
    and good_keep: "good d \<Longrightarrow> length bs = 512 \<Longrightarrow> good (snd (blk_write io d l bs))"
    and good_flush: "good d \<Longrightarrow> good (snd (blk_flush io d))"
begin

lemma read_sec: "good d \<Longrightarrow> unat l < lim \<Longrightarrow> blk_read io d l = Some (sec io d l)"
  using good_read by (auto simp: sec_def)

lemma length_sec: "good d \<Longrightarrow> unat l < lim \<Longrightarrow> length (sec io d l) = 512"
  using read_sec read_len by blast

lemma sec_write:
  "good d \<Longrightarrow> unat l < lim \<Longrightarrow> length bs = 512 \<Longrightarrow>
   sec io (snd (blk_write io d l bs)) l' = (if l' = l then bs else sec io d l')"
  using write_read_fst [of d l bs] good_write [of d l bs] write_snd(1) [of l' l d bs] by (simp add: sec_def)

lemma write_ok: "good d \<Longrightarrow> unat l < lim \<Longrightarrow> length bs = 512 \<Longrightarrow> blk_write io d l bs = (True, snd (blk_write io d l bs))"
  using good_write [of d l bs] by (cases "blk_write io d l bs") simp

definition fits :: "(u32 \<times> u8 list) list \<Rightarrow> bool" where
  "fits ws \<longleftrightarrow> (\<forall>(l, bs)\<in>set ws. unat l < lim \<and> length bs = 512)"

lemma fits_simps [simp]:
  "fits []" "fits ((l, bs) # ws) \<longleftrightarrow> unat l < lim \<and> length bs = 512 \<and> fits ws"
  by (auto simp: fits_def)

lemma write_all_good: "good d \<Longrightarrow> fits ws \<Longrightarrow> good (write_all io ws d)"
  by (induction ws arbitrary: d) (auto simp: good_keep)

lemma write_all_frame: "good d \<Longrightarrow> fits ws \<Longrightarrow> l \<notin> fst ` set ws \<Longrightarrow> sec io (write_all io ws d) l = sec io d l"
  by (induction ws arbitrary: d) (auto simp: good_keep sec_write)

lemma write_all_sec:
  "good d \<Longrightarrow> fits ws \<Longrightarrow> (l, bs) \<in> set ws \<Longrightarrow> (\<And>b. (l, b) \<in> set ws \<Longrightarrow> b = bs) \<Longrightarrow>
   sec io (write_all io ws d) l = bs"
proof (induction ws arbitrary: d)
  case (Cons w ws)
  obtain l' b' where w: "w = (l', b')" by (cases w)
  let ?d = "snd (blk_write io d l' b')"
  have f: "fits ws" "good ?d" "unat l' < lim" "length b' = 512"
    using Cons.prems(1,2) unfolding w by (simp_all add: good_keep)
  have all: "sec io (write_all io (w # ws) d) l = sec io (write_all io ws ?d) l" by (simp add: w)
  show ?case
  proof (cases "(l, bs) \<in> set ws")
    case True
    have "sec io (write_all io ws ?d) l = bs"
      by (rule Cons.IH [OF f(2,1) True]) (rule Cons.prems(4), simp)
    then show ?thesis by (simp only: all)
  next
    case False
    have "l \<notin> fst ` set ws"
    proof
      assume "l \<in> fst ` set ws"
      then obtain b where "(l, b) \<in> set ws" by auto
      with False Cons.prems(4) [of b] show False by auto
    qed
    then have "sec io (write_all io ws ?d) l = sec io ?d l" using f by (intro write_all_frame)
    moreover have "l' = l" "b' = bs" using False Cons.prems(3) w by auto
    ultimately show ?thesis using f Cons.prems(1) unfolding all by (simp add: sec_write)
  qed
qed simp

lemma write_seq_all: "good d \<Longrightarrow> fits ws \<Longrightarrow> write_seq io d ws = (True, write_all io ws d)"
proof (induction ws arbitrary: d)
  case (Cons w ws)
  obtain l b where w: "w = (l, b)" by (cases w)
  let ?d = "snd (blk_write io d l b)"
  have f: "fits ws" "good ?d" "unat l < lim" "length b = 512"
    using Cons.prems unfolding w by (simp_all add: good_keep)
  have "blk_write io d l b = (True, ?d)" using write_ok Cons.prems(1) f by blast
  then have "write_seq io d (w # ws) = write_seq io ?d ws" unfolding w write_seq.simps by (metis (no_types, lifting) case_prod_conv bool.case(1))
  with Cons.IH [OF f(2,1)] show ?case by (simp add: w)
qed simp

lemma sec_flush: "sec io (snd (blk_flush io d)) l = sec io d l"
  by (simp add: sec_def flush_snd)

end

text \<open>Two drivers that satisfy the contract make a \<open>disk\<close> that does, whichever is active.\<close>

locale two_drivers =
  ahci: block_device ahci + ata: block_device ata
  for ahci :: "'a blk" and ata :: "'b blk"

sublocale two_drivers \<subseteq> disk: block_device "disk_blk ahci ata"
proof
  fix d :: "('a, 'b) disk_state" and lba bs ok d' l
  note defs = disk_blk_def disk_read_sector_def disk_write_sector_def disk_flush_def disk_present_def
    on_ahci_def on_ata_def
  show "blk_read (disk_blk ahci ata) d lba = Some bs \<Longrightarrow> length bs = 512"
    by (auto simp: defs split: driver.splits dest: ahci.read_len ata.read_len)
  show "blk_write (disk_blk ahci ata) d lba bs = (True, d') \<Longrightarrow> length bs = 512 \<Longrightarrow>
      blk_read (disk_blk ahci ata) d' lba = Some bs"
    by (auto simp: defs split: driver.splits intro: ahci.write_read_fst ata.write_read_fst)
  show "blk_write (disk_blk ahci ata) d lba bs = (ok, d') \<Longrightarrow> l \<noteq> lba \<Longrightarrow>
      blk_read (disk_blk ahci ata) d' l = blk_read (disk_blk ahci ata) d l"
    by (auto simp: defs split: driver.splits simp: ahci.write_snd ata.write_snd)
  show "blk_write (disk_blk ahci ata) d lba bs = (ok, d') \<Longrightarrow>
      blk_present (disk_blk ahci ata) d' = blk_present (disk_blk ahci ata) d"
    by (auto simp: defs split: driver.splits simp: ahci.write_snd ata.write_snd)
  show "blk_flush (disk_blk ahci ata) d = (ok, d') \<Longrightarrow>
      blk_read (disk_blk ahci ata) d' l = blk_read (disk_blk ahci ata) d l"
    by (auto simp: defs split: driver.splits simp: ahci.flush_snd ata.flush_snd)
  show "blk_flush (disk_blk ahci ata) d = (ok, d') \<Longrightarrow>
      blk_present (disk_blk ahci ata) d' = blk_present (disk_blk ahci ata) d"
    by (auto simp: defs split: driver.splits simp: ahci.flush_snd ata.flush_snd)
qed

section \<open>A sector store\<close>

text \<open>The medium itself, with a set of faulty sectors: the device that examples run on.\<close>

record store =
  cells :: "u32 \<Rightarrow> u8 list"
  faulty :: "u32 \<Rightarrow> bool"
  capacity :: u32

definition store_blk :: "store blk" where
  "store_blk = \<lparr>blk_init = (\<lambda>d. (True, d)), blk_present = (\<lambda>_. True), blk_sectors = capacity,
     blk_read = (\<lambda>d l. if faulty d l \<or> length (cells d l) \<noteq> 512 then None else Some (cells d l)),
     blk_write = (\<lambda>d l bs. if faulty d l \<or> length bs \<noteq> 512 then (False, d)
                          else (True, d\<lparr>cells := (cells d)(l := bs)\<rparr>)),
     blk_reads = (\<lambda>_ _ _. None), blk_writes = (\<lambda>d _ _ _. (False, d)), blk_flush = (\<lambda>d. (True, d))\<rparr>"

interpretation store_dev: block_device store_blk
  by unfold_locales (auto simp: store_blk_def split: if_splits)

interpretation store_disk: two_drivers store_blk store_blk
  by unfold_locales

definition store_good :: "store \<Rightarrow> bool" where
  "store_good d \<longleftrightarrow> (\<forall>l. \<not> faulty d l \<and> length (cells d l) = 512)"

interpretation store_rel: reliable_device store_blk store_good "2 ^ 32"
  by unfold_locales (auto simp: store_blk_def store_good_def)

end
