(* ===== verification/Fmt.thy ===== *)
theory Fmt
  imports Prelude
begin

text \<open>
  Decimal and hexadecimal output.  The same little routine is written out in most files of the
  kernel (\<open>print_dec\<close>, \<open>print_u64\<close>, \<open>serial_dec\<close>, \<open>debug_u64\<close>): digits are
  collected least significant first in a small stack buffer and printed backwards.  Text is
  the list of the bytes passed to \<open>putc\<close>.
\<close>

fun dec_digits :: "nat \<Rightarrow> u8 list" where
  "dec_digits v = (if v = 0 then [] else of_nat (48 + v mod 10) # dec_digits (v div 10))"

declare dec_digits.simps [simp del]

lemma dec_digits_0 [simp]: "dec_digits 0 = []"
  by (subst dec_digits.simps) simp

definition print_dec :: "u32 \<Rightarrow> u8 list" where
  "print_dec v = (if v = 0 then [48] else rev (dec_digits (unat v)))"

definition print_u64 :: "u64 \<Rightarrow> u8 list" where
  "print_u64 v = (if v = 0 then [48] else rev (dec_digits (unat v)))"

definition hex_digit :: "nat \<Rightarrow> u8" where
  "hex_digit n = ascii ''0123456789ABCDEF'' ! (n AND 15)"

definition print_hex8 :: "u8 \<Rightarrow> u8 list" where
  "print_hex8 v = [hex_digit (unat (drop_bit 4 v)), hex_digit (unat v)]"

definition print_hex16 :: "u16 \<Rightarrow> u8 list" where
  "print_hex16 v = map (\<lambda>i. hex_digit (unat (drop_bit i v))) [12, 8, 4, 0]"

text \<open>The value of a decimal text.\<close>

fun dec_value :: "u8 list \<Rightarrow> nat" where
  "dec_value [] = 0"
| "dec_value (c # cs) = (unat c - 48) * 10 ^ length cs + dec_value cs"

lemma dec_value_append: "dec_value (xs @ ys) = dec_value xs * 10 ^ length ys + dec_value ys"
  by (induction xs) (auto simp: algebra_simps power_add)

lemma digit_value: "unat (of_nat (48 + v mod 10) :: u8) = 48 + v mod 10"
  by (subst unat_of_nat) simp

lemma dec_value_digits: "dec_value (rev (dec_digits v)) = v"
proof (induction v rule: dec_digits.induct)
  case (1 v)
  show ?case
  proof (cases "v = 0")
    case True
    then show ?thesis by simp
  next
    case False
    with 1 have "dec_value (rev (dec_digits (v div 10))) = v div 10" by simp
    with False digit_value [of v] show ?thesis
      by (simp add: dec_digits.simps [of v] dec_value_append del: of_nat_add)
  qed
qed

lemma length_dec_digits: "v < 10 ^ n \<Longrightarrow> length (dec_digits v) \<le> n"
proof (induction n arbitrary: v)
  case 0
  then show ?case by (simp add: dec_digits.simps [of v])
next
  case (Suc n)
  then have "length (dec_digits (v div 10)) \<le> n" by (intro Suc.IH) auto
  then show ?case by (simp add: dec_digits.simps [of v])
qed

lemma dec_digits_are_digits: "c \<in> set (dec_digits v) \<Longrightarrow> 48 \<le> unat c \<and> unat c \<le> 57"
proof (induction v rule: dec_digits.induct)
  case (1 v)
  show ?case
  proof (cases "v = 0")
    case True
    with 1 show ?thesis by simp
  next
    case False
    with "1.prems" have "c = of_nat (48 + v mod 10) \<or> c \<in> set (dec_digits (v div 10))"
      by (simp add: dec_digits.simps [of v])
    moreover have "unat (of_nat (48 + v mod 10) :: u8) \<le> 57" unfolding digit_value by simp
    ultimately show ?thesis using "1.IH" [OF False] digit_value [of v] by auto
  qed
qed

text \<open>Decimal output is exact and fits its buffer: the text of a 32-bit number is one to ten
  decimal digits (the buffers hold twelve), the text of a 64-bit number at most twenty (the
  buffers hold twenty-four), and reading the text back gives the number.\<close>

theorem print_dec_exact:
  "dec_value (print_dec v) = unat v \<and> length (print_dec v) \<le> 10
   \<and> dec_value (print_u64 w) = unat w \<and> length (print_u64 w) \<le> 20
   \<and> list_all (\<lambda>c. 48 \<le> unat c \<and> unat c \<le> 57) (print_dec v @ print_u64 w)"
proof -
  have "unat v < 10 ^ 10" using unsigned_less [of v, where ?'a = nat] by simp
  moreover have "unat w < 10 ^ 20" using unsigned_less [of w, where ?'a = nat] by simp
  ultimately show ?thesis
    using length_dec_digits [of "unat v" 10] length_dec_digits [of "unat w" 20]
    by (auto simp: print_dec_def print_u64_def dec_value_digits list_all_iff dest: dec_digits_are_digits)
qed

end
