(* ===== verification/Mbr.thy ===== *)
theory Mbr
  imports Disk Fmt
begin

text \<open>
  The MBR partition table, \<open>fs/mbr.cpp\<close>: the packed 512-byte sector, reading and writing its
  four entries, partition creation and deletion on the disk, the search for a free LBA, and
  the listing.  \<open>io\<close> is the block device and \<open>d\<close> its state.
\<close>

section \<open>The packed structs\<close>

record partition =
  boot_flag :: u8
  chs_start :: "u8 list"
  ptype :: u8
  chs_end :: "u8 list"
  lba_start :: u32
  sector_count :: u32

text \<open>A packed \<open>Partition\<close> is its 16 bytes.\<close>

definition partition_bytes :: "partition \<Rightarrow> u8 list" where
  "partition_bytes p = [boot_flag p] @ chs_start p @ [ptype p] @ chs_end p
     @ le32 (lba_start p) @ le32 (sector_count p)"

definition partition_of :: "u8 list \<Rightarrow> partition" where
  "partition_of bs = \<lparr>boot_flag = rd8 bs 0, chs_start = subbuf bs 1 3, ptype = rd8 bs 4,
     chs_end = subbuf bs 5 3, lba_start = rd32 bs 8, sector_count = rd32 bs 12\<rparr>"

definition part_off :: "nat \<Rightarrow> nat" where "part_off i = 446 + 16 * i"

definition get_part :: "u8 list \<Rightarrow> nat \<Rightarrow> partition" where
  "get_part m i = partition_of (subbuf m (part_off i) 16)"

definition set_part :: "u8 list \<Rightarrow> nat \<Rightarrow> partition \<Rightarrow> u8 list" where
  "set_part m i p = splice m (part_off i) (partition_bytes p)"

definition mbr_signature :: "u8 list \<Rightarrow> u16" where "mbr_signature m = rd16 m 510"

section \<open>Operations\<close>

definition mbr_read :: "'d blk \<Rightarrow> 'd \<Rightarrow> u8 list option" where
  "mbr_read io d = blk_read io d 0"

definition mbr_write :: "'d blk \<Rightarrow> 'd \<Rightarrow> u8 list \<Rightarrow> bool \<times> 'd" where
  "mbr_write io d m = blk_write io d 0 m"

definition create_empty :: "u8 list" where
  "create_empty = wr16 (replicate 512 0) 510 0xAA55"

definition create_partition :: "'d blk \<Rightarrow> 'd \<Rightarrow> int \<Rightarrow> u32 \<Rightarrow> u32 \<Rightarrow> u8 \<Rightarrow> bool \<times> 'd" where
  "create_partition io d index start_lba sectors type_arg =
     (if index < 0 \<or> index > 3 then (False, d)
      else if start_lba < 2048 then (False, d)
      else if sectors = 0 then (False, d)
      else case mbr_read io d of None \<Rightarrow> (False, d)
      | Some m \<Rightarrow>
          let m = set_part m (nat index) \<lparr>boot_flag = 0x00, chs_start = [0, 0, 0], ptype = type_arg,
                    chs_end = [0, 0, 0], lba_start = start_lba, sector_count = sectors\<rparr>;
              m = wr16 m 510 0xAA55
          in mbr_write io d m)"

definition delete_partition :: "'d blk \<Rightarrow> 'd \<Rightarrow> int \<Rightarrow> bool \<times> 'd" where
  "delete_partition io d index =
     (if index < 0 \<or> index > 3 then (False, d)
      else case mbr_read io d of None \<Rightarrow> (False, d)
      | Some m \<Rightarrow>
          let m = splice m (part_off (nat index)) (replicate 16 0);
              m = wr16 m 510 0xAA55
          in mbr_write io d m)"

text \<open>An entry is unused where type and size are both zero.\<close>

definition part_unused :: "partition \<Rightarrow> bool" where
  "part_unused p \<longleftrightarrow> ptype p = 0 \<and> sector_count p = 0"

fun scan_parts :: "partition list \<Rightarrow> u32 \<Rightarrow> u32" where
  "scan_parts [] candidate = candidate"
| "scan_parts (p # ps) candidate =
     (if part_unused p then scan_parts ps candidate
      else if candidate \<ge> lba_start p \<and> candidate < lba_start p + sector_count p then
        (let candidate = lba_start p + sector_count p;
             candidate = (if candidate mod 2048 \<noteq> 0 then (candidate div 2048 + 1) * 2048 else candidate)
         in scan_parts ps candidate)
      else scan_parts ps candidate)"

definition find_free_lba :: "'d blk \<Rightarrow> 'd \<Rightarrow> u32 \<Rightarrow> u32" where
  "find_free_lba io d sectors_needed =
     (case mbr_read io d of None \<Rightarrow> 0
      | Some m \<Rightarrow>
          let candidate = scan_parts (map (get_part m) [0, 1, 2, 3]) 2048 in
          if candidate + sectors_needed > blk_sectors io d then 0 else candidate)"

section \<open>Listing\<close>

definition type_name :: "u8 \<Rightarrow> u8 list" where
  "type_name t = ascii
     (if t = 0x00 then ''Empty'' else if t = 0x01 then ''FAT12'' else if t = 0x04 then ''FAT16''
      else if t = 0x05 then ''Extended'' else if t = 0x06 then ''FAT16B'' else if t = 0x07 then ''NTFS''
      else if t = 0x0B then ''FAT32'' else if t = 0x0C then ''FAT32 LBA''
      else if t = 0x0E then ''FAT16 LBA'' else if t = 0x0F then ''Ext LBA''
      else if t = 0x82 then ''Linux Swap'' else if t = 0x83 then ''Linux''
      else if t = 0x8E then ''Linux LVM'' else if t = 0xEE then ''GPT''
      else if t = 0xEF then ''EFI'' else ''Unknown'')"

definition print_part :: "nat \<Rightarrow> partition \<Rightarrow> u8 list" where
  "print_part i p =
     (if part_unused p then []
      else ascii ''  '' @ [48 + of_nat i] @ ascii ''  ''
        @ (if boot_flag p = 0x80 then ascii ''*'' else ascii '' '') @ ascii ''     ''
        @ type_name (ptype p) @ replicate (12 - length (type_name (ptype p))) 32
        @ print_dec (lba_start p) @ replicate 12 32
        @ print_dec (sector_count p) @ ascii ''  ''
        @ print_dec (sector_count p div 2048) @ ascii '' MB'' @ [10])"

definition mbr_print_all :: "'d blk \<Rightarrow> 'd \<Rightarrow> u8 list" where
  "mbr_print_all io d =
     (case mbr_read io d of None \<Rightarrow> ascii ''Cannot read MBR'' @ [10]
      | Some m \<Rightarrow> ascii ''  #  Boot  Type        Start LBA    Sectors      Size'' @ [10]
          @ concat (map (\<lambda>i. print_part i (get_part m i)) [0, 1, 2, 3]))"

section \<open>Lemmas\<close>

definition partition_wf :: "partition \<Rightarrow> bool" where
  "partition_wf p \<longleftrightarrow> length (chs_start p) = 3 \<and> length (chs_end p) = 3"

lemma length_partition_bytes [simp]: "partition_wf p \<Longrightarrow> length (partition_bytes p) = 16"
  by (simp add: partition_bytes_def partition_wf_def)

lemma partition_roundtrip: "partition_wf p \<Longrightarrow> partition_of (partition_bytes p) = p"
proof -
  assume wf: "partition_wf p"
  let ?b = "partition_bytes p"
  have "rd32 ?b 8 = lba_start p"
    using wf by (subst rd32_subbuf) (simp_all add: partition_bytes_def partition_wf_def subbuf_def rd32_le32)
  moreover have "rd32 ?b 12 = sector_count p"
    using wf by (subst rd32_subbuf) (simp_all add: partition_bytes_def partition_wf_def subbuf_def rd32_le32)
  moreover have "rd8 ?b 0 = boot_flag p" "rd8 ?b 4 = ptype p"
    using wf by (simp_all add: rd8_def partition_bytes_def partition_wf_def nth_append nth_Cons')
  moreover have "subbuf ?b 1 3 = chs_start p" "subbuf ?b 5 3 = chs_end p"
    using wf by (simp_all add: subbuf_def partition_bytes_def partition_wf_def drop_Cons')
  ultimately show ?thesis by (simp add: partition_of_def)
qed

lemma get_set_part:
  assumes "length m = 512" and "i < 4" and "j < 4" and "partition_wf p"
  shows "get_part (wr16 (set_part m i p) 510 sig) j = (if j = i then p else get_part m j)"
proof -
  have l: "length (set_part m i p) = 512"
    using assms by (simp add: set_part_def part_off_def)
  have "get_part (wr16 (set_part m i p) 510 sig) j = get_part (set_part m i p) j"
    using assms(3) l unfolding get_part_def wr16_def
    by (subst subbuf_splice_other) (auto simp: part_off_def)
  also have "\<dots> = (if j = i then p else get_part m j)"
  proof (cases "j = i")
    case True
    with assms show ?thesis
      by (simp add: get_part_def set_part_def part_off_def subbuf_splice_same partition_roundtrip)
  next
    case False
    then have "j < i \<or> i < j" by linarith
    with assms False show ?thesis
      unfolding get_part_def set_part_def by (subst subbuf_splice_other) (auto simp: part_off_def)
  qed
  finally show ?thesis .
qed

lemma take_446_set_part:
  assumes "length m = 512" and "i < 4" and "partition_wf p"
  shows "take 446 (wr16 (set_part m i p) 510 sig) = take 446 m"
  using assms by (simp add: wr16_def set_part_def part_off_def splice_def)

context block_device
begin

lemma mbr_update:
  assumes m: "mbr_read io d = Some m" and w: "mbr_write io d m' = (True, d')" and l: "length m' = 512"
  shows "mbr_read io d' = Some m'" "\<forall>l. l \<noteq> 0 \<longrightarrow> blk_read io d' l = blk_read io d l"
  using w write_read [OF _ l] write_frame by (auto simp: mbr_read_def mbr_write_def)

lemma create_partition_writes:
  assumes m: "mbr_read io d = Some m" and ok: "create_partition io d i st n t = (True, d')"
  shows "0 \<le> i \<and> i \<le> 3 \<and> 2048 \<le> st \<and> n \<noteq> 0 \<and>
    (\<exists>m'. mbr_read io d' = Some m' \<and> mbr_signature m' = 0xAA55 \<and> take 446 m' = take 446 m
       \<and> (\<forall>j < 4. get_part m' j = (if j = nat i
            then \<lparr>boot_flag = 0, chs_start = [0, 0, 0], ptype = t, chs_end = [0, 0, 0],
                   lba_start = st, sector_count = n\<rparr>
            else get_part m j)))
    \<and> (\<forall>l. l \<noteq> 0 \<longrightarrow> blk_read io d' l = blk_read io d l)"
proof -
  define p where "p = \<lparr>boot_flag = 0, chs_start = [0, 0, 0], ptype = t, chs_end = [0, 0, 0 :: u8],
     lba_start = st, sector_count = n\<rparr>"
  define m' where "m' = wr16 (set_part m (nat i) p) 510 0xAA55"
  have g: "0 \<le> i" "i \<le> 3" "2048 \<le> st" "n \<noteq> 0" and w: "mbr_write io d m' = (True, d')"
    using ok m by (auto simp: create_partition_def Let_def p_def m'_def not_less split: if_splits)
  have lm: "length m = 512" using m read_len by (simp add: mbr_read_def)
  have wf: "partition_wf p" by (simp add: p_def partition_wf_def)
  have i4: "nat i < 4" using g by simp
  have ls: "length (set_part m (nat i) p) = 512"
    using lm wf i4 by (simp add: set_part_def part_off_def)
  then have lm': "length m' = 512" by (simp add: m'_def)
  have "mbr_signature m' = 0xAA55" using ls by (simp add: mbr_signature_def m'_def buf_simps)
  moreover have "take 446 m' = take 446 m" unfolding m'_def by (rule take_446_set_part [OF lm i4 wf])
  moreover have "\<forall>j < 4. get_part m' j = (if j = nat i then p else get_part m j)"
    unfolding m'_def using get_set_part [OF lm i4 _ wf] by blast
  ultimately show ?thesis using g mbr_update [OF m w lm'] unfolding p_def by auto
qed

lemma delete_partition_writes:
  assumes m: "mbr_read io d = Some m" and ok: "delete_partition io d i = (True, d')"
  shows "0 \<le> i \<and> i \<le> 3 \<and>
    (\<exists>m'. mbr_read io d' = Some m' \<and> mbr_signature m' = 0xAA55 \<and> part_unused (get_part m' (nat i))
       \<and> (\<forall>j < 4. j \<noteq> nat i \<longrightarrow> get_part m' j = get_part m j))"
proof -
  define z where "z = \<lparr>boot_flag = 0, chs_start = [0, 0, 0], ptype = 0, chs_end = [0, 0, 0 :: u8],
     lba_start = 0, sector_count = 0\<rparr>"
  have z: "replicate 16 0 = partition_bytes z"
    by (simp add: z_def partition_bytes_def le32_def eval_nat_numeral)
  have wf: "partition_wf z" by (simp add: z_def partition_wf_def)
  define m' where "m' = wr16 (set_part m (nat i) z) 510 0xAA55"
  have g: "0 \<le> i" "i \<le> 3" and w: "mbr_write io d m' = (True, d')"
    using ok m by (auto simp: delete_partition_def Let_def set_part_def z m'_def split: if_splits)
  have lm: "length m = 512" using m read_len by (simp add: mbr_read_def)
  have i4: "nat i < 4" using g by simp
  have ls: "length (set_part m (nat i) z) = 512"
    using lm wf i4 by (simp add: set_part_def part_off_def)
  then have lm': "length m' = 512" by (simp add: m'_def)
  have "mbr_signature m' = 0xAA55" using ls by (simp add: mbr_signature_def m'_def buf_simps)
  moreover have "\<forall>j < 4. get_part m' j = (if j = nat i then z else get_part m j)"
    unfolding m'_def using get_set_part [OF lm i4 _ wf] by blast
  moreover have "part_unused z" by (simp add: part_unused_def z_def)
  ultimately show ?thesis using g i4 mbr_update [OF m w lm'] by auto
qed

end

section \<open>Properties\<close>

text \<open>A successful \<open>create_partition\<close> had valid arguments, and on every device that
  satisfies the block contract the table read back holds the new entry at that index, the
  other three entries, the boot code and every other sector as before, and a valid signature.\<close>

theorem create_partition_effect:
  assumes "block_device io" and "mbr_read io d = Some m"
    and "create_partition io d i st n t = (True, d')"
  shows "0 \<le> i \<and> i \<le> 3 \<and> 2048 \<le> st \<and> n \<noteq> 0 \<and>
    (\<exists>m'. mbr_read io d' = Some m' \<and> mbr_signature m' = 0xAA55 \<and> take 446 m' = take 446 m
       \<and> (\<forall>j < 4. get_part m' j = (if j = nat i
            then \<lparr>boot_flag = 0, chs_start = [0, 0, 0], ptype = t, chs_end = [0, 0, 0],
                   lba_start = st, sector_count = n\<rparr>
            else get_part m j)))
    \<and> (\<forall>l. l \<noteq> 0 \<longrightarrow> blk_read io d' l = blk_read io d l)"
  using block_device.create_partition_writes [OF assms] .

text \<open>An all-zero disk.\<close>

definition zero_disk :: store where
  "zero_disk = \<lparr>cells = (\<lambda>_. replicate 512 0), faulty = (\<lambda>_. False), capacity = 0x100000\<rparr>"

lemma zero_disk_read [simp]: "blk_read store_blk zero_disk l = Some (replicate 512 0)"
  by (simp add: store_blk_def zero_disk_def)

lemma zero_disk_create:
  "\<exists>d'. create_partition store_blk zero_disk 1 2048 4096 0x83 = (True, d')"
  by (simp add: create_partition_def mbr_read_def mbr_write_def Let_def store_blk_def zero_disk_def
      set_part_def part_off_def partition_wf_def)

theorem create_partition_effect_witness:
  "\<exists>d' m'. mbr_read store_blk d' = Some m' \<and> lba_start (get_part m' 1) = 2048 \<and> mbr_signature m' = 0xAA55"
proof -
  obtain d' where d: "create_partition store_blk zero_disk 1 2048 4096 0x83 = (True, d')"
    using zero_disk_create by blast
  have m: "mbr_read store_blk zero_disk = Some (replicate 512 0)" by (simp add: mbr_read_def)
  show ?thesis
    using create_partition_effect [OF store_dev.block_device_axioms m d] by fastforce
qed

text \<open>A table in ascending, disjoint order, with room to round an end up to 2048 sectors.\<close>

fun table_sorted :: "nat \<Rightarrow> partition list \<Rightarrow> bool" where
  "table_sorted lo [] = True"
| "table_sorted lo (p # ps) =
     (if part_unused p then table_sorted lo ps
      else lo \<le> unat (lba_start p)
        \<and> unat (lba_start p) + unat (sector_count p) + 2048 < 2 ^ 32
        \<and> table_sorted (unat (lba_start p) + unat (sector_count p)) ps)"

definition inside_part :: "u32 \<Rightarrow> partition \<Rightarrow> bool" where
  "inside_part c p \<longleftrightarrow> \<not> part_unused p \<and> unat (lba_start p) \<le> unat c
     \<and> unat c < unat (lba_start p) + unat (sector_count p)"

definition round_2048 :: "u32 \<Rightarrow> u32" where
  "round_2048 c = (if c mod 2048 \<noteq> 0 then (c div 2048 + 1) * 2048 else c)"

lemma round_2048:
  assumes "unat c + 2048 < 2 ^ 32"
  shows "unat c \<le> unat (round_2048 c)" "unat (round_2048 c) mod 2048 = 0"
proof -
  have q: "unat (c div 2048) = unat c div 2048" by (simp add: unat_div)
  have q1: "unat (c div 2048 + 1) = unat c div 2048 + 1"
    using assms q by (subst unat_add_no_overflow) auto
  have "unat ((c div 2048 + 1) * 2048) = (unat c div 2048 + 1) * 2048"
    using assms q1 by (subst unat_mult_no_overflow) auto
  moreover have "c mod 2048 = 0 \<longleftrightarrow> unat c mod 2048 = 0"
    by (simp add: word_unat_eq_iff unat_mod)
  ultimately show "unat c \<le> unat (round_2048 c)" "unat (round_2048 c) mod 2048 = 0"
    by (auto simp: round_2048_def)
qed

lemma scan_parts_clear:
  "table_sorted lo ps \<Longrightarrow> unat c mod 2048 = 0 \<Longrightarrow>
   (\<forall>p \<in> set ps. \<not> inside_part (scan_parts ps c) p) \<and> unat (scan_parts ps c) mod 2048 = 0
   \<and> (unat c < lo \<longrightarrow> scan_parts ps c = c) \<and> (lo \<le> unat c \<longrightarrow> lo \<le> unat (scan_parts ps c))"
proof (induction ps arbitrary: lo c)
  case (Cons p ps)
  show ?case
  proof (cases "part_unused p")
    case True
    with Cons.IH [of lo c] Cons.prems show ?thesis by (auto simp: inside_part_def)
  next
    case False
    let ?e = "unat (lba_start p) + unat (sector_count p)"
    from Cons.prems False have so: "lo \<le> unat (lba_start p)" "?e + 2048 < 2 ^ 32" "table_sorted ?e ps" by auto
    have e: "unat (lba_start p + sector_count p) = ?e"
      using so(2) by (intro unat_add_no_overflow) simp
    show ?thesis
    proof (cases "lba_start p \<le> c \<and> c < lba_start p + sector_count p")
      case True
      define c' where "c' = round_2048 (lba_start p + sector_count p)"
      have c': "?e \<le> unat c'" "unat c' mod 2048 = 0"
        using round_2048 [of "lba_start p + sector_count p"] so(2) e by (simp_all add: c'_def)
      have eq: "scan_parts (p # ps) c = scan_parts ps c'"
        using True False by (simp add: Let_def c'_def round_2048_def)
      have "lo \<le> unat c" using True so(1) by (simp add: word_le_nat_alt)
      with Cons.IH [OF so(3) c'(2)] c'(1) so(1) show ?thesis
        unfolding eq by (auto simp: inside_part_def)
    next
      case out: False
      have eq: "scan_parts (p # ps) c = scan_parts ps c" using out False by auto
      have ih: "(\<forall>p \<in> set ps. \<not> inside_part (scan_parts ps c) p) \<and> unat (scan_parts ps c) mod 2048 = 0
        \<and> (unat c < ?e \<longrightarrow> scan_parts ps c = c) \<and> (?e \<le> unat c \<longrightarrow> ?e \<le> unat (scan_parts ps c))"
        by (rule Cons.IH [OF so(3) Cons.prems(2)])
      have "unat c < unat (lba_start p) \<or> ?e \<le> unat c"
        using out e by (auto simp: word_le_nat_alt word_less_nat_alt)
      with ih so(1) show ?thesis unfolding eq by (auto simp: inside_part_def)
    qed
  qed
qed simp

text \<open>On a table whose entries are in ascending, disjoint order, the sector that
  \<open>find_free_lba\<close> returns is aligned to 2048 and lies in no partition.  (It does not promise
  that the following sectors are free.)\<close>

theorem find_free_lba_sorted:
  assumes "mbr_read io d = Some m" and "table_sorted lo (map (get_part m) [0, 1, 2, 3])"
    and "find_free_lba io d n \<noteq> 0"
  shows "unat (find_free_lba io d n) mod 2048 = 0
    \<and> (\<forall>i < 4. \<not> inside_part (find_free_lba io d n) (get_part m i))"
proof -
  have "find_free_lba io d n = scan_parts (map (get_part m) [0, 1, 2, 3]) 2048"
    using assms(1,3) by (auto simp: find_free_lba_def Let_def simp del: scan_parts.simps list.map split: if_splits)
  moreover have "get_part m i \<in> set (map (get_part m) [0, 1, 2, 3])" if "i < 4" for i
  proof -
    from that have "i \<in> set [0, 1, 2, 3]" by auto
    then show ?thesis by (simp only: set_map) (rule imageI)
  qed
  moreover have "unat (2048 :: u32) mod 2048 = 0" by simp
  ultimately show ?thesis
    using scan_parts_clear [OF assms(2), of 2048] by metis
qed

lemma get_part_zero: "i < 4 \<Longrightarrow> get_part (replicate 512 0) i = \<lparr>boot_flag = 0, chs_start = [0, 0, 0],
    ptype = 0, chs_end = [0, 0, 0], lba_start = 0, sector_count = 0\<rparr>"
  by (simp add: get_part_def part_off_def partition_of_def rd8_def rd32_def)
    (simp add: eval_nat_numeral)

theorem find_free_lba_sorted_witness:
  "unat (find_free_lba store_blk zero_disk 100) mod 2048 = 0
    \<and> \<not> inside_part (find_free_lba store_blk zero_disk 100) (get_part (replicate 512 0) 3)"
proof -
  have "unat (find_free_lba store_blk zero_disk 100) mod 2048 = 0
      \<and> (\<forall>i < 4. \<not> inside_part (find_free_lba store_blk zero_disk 100) (get_part (replicate 512 0) i))"
    by (rule find_free_lba_sorted [where lo = 0])
      (simp_all add: mbr_read_def find_free_lba_def get_part_zero part_unused_def,
        simp add: zero_disk_def store_blk_def)
  then show ?thesis by simp
qed

text \<open>Without that order the result can lie inside a partition: the entries
  [4096, 6144) and [2048, 4096), in this order, send the search to sector 4096, the first
  sector of the first one.\<close>

theorem find_free_lba_unsorted_overlap:
  "\<exists>p q. table_sorted 0 [q, p] \<and> inside_part (scan_parts [p, q] 2048) p"
proof -
  define mk where "mk = (\<lambda>s. \<lparr>boot_flag = 0, chs_start = [0, 0, 0], ptype = 0x83, chs_end = [0, 0, 0],
     lba_start = s, sector_count = 2048\<rparr> :: partition)"
  have "table_sorted 0 [mk 2048, mk 4096] \<and> inside_part (scan_parts [mk 4096, mk 2048] 2048) (mk 4096)"
    by (simp add: mk_def part_unused_def inside_part_def Let_def)
  then show ?thesis by blast
qed

end
