(* ===== verification/MountConfig.thy ===== *)
theory MountConfig
  imports Disk
begin

text \<open>
  The persistent mount configuration, \<open>fs/mount_config.cpp\<close>: up to four entries (drive letter,
  file system, partition number, LBA) kept in a checksummed sector of the boot disk and cached
  in \<open>g_cfg\<close> behind \<open>g_loaded\<close>.
\<close>

section \<open>Layout\<close>

record saved_entry =
  letter :: u8
  fs_type :: u8
  part_num :: u8
  se_reserved :: u8
  se_lba :: u32

record disk_layout =
  magic :: u32
  version :: u32
  count :: u32
  dl_reserved :: u32
  entries :: "saved_entry list"
  padding :: "u8 list"
  checksum :: u32

record config_state =
  g_cfg :: disk_layout
  g_loaded :: bool

definition FS_NONE :: u8 where "FS_NONE = 0"
definition FS_EXT2 :: u8 where "FS_EXT2 = 1"
definition FS_FAT32 :: u8 where "FS_FAT32 = 2"
definition MAX_ENTRIES :: nat where "MAX_ENTRIES = 4"
definition CONFIG_MAGIC :: u32 where "CONFIG_MAGIC = 0x504D5443"
definition CONFIG_VERSION :: u32 where "CONFIG_VERSION = 2"
definition CONFIG_LBA :: u32 where "CONFIG_LBA = 1"

text \<open>The packed structs and their bytes.\<close>

definition entry_bytes :: "saved_entry \<Rightarrow> u8 list" where
  "entry_bytes e = letter e # fs_type e # part_num e # se_reserved e # le32 (se_lba e)"

definition entry_of :: "u8 list \<Rightarrow> saved_entry" where
  "entry_of bs = \<lparr>letter = rd8 bs 0, fs_type = rd8 bs 1, part_num = rd8 bs 2, se_reserved = rd8 bs 3,
     se_lba = rd32 bs 4\<rparr>"

definition layout_bytes :: "disk_layout \<Rightarrow> u8 list" where
  "layout_bytes c = le32 (magic c) @ le32 (version c) @ le32 (count c) @ le32 (dl_reserved c)
     @ concat (map entry_bytes (entries c)) @ padding c @ le32 (checksum c)"

definition layout_of :: "u8 list \<Rightarrow> disk_layout" where
  "layout_of bs = \<lparr>magic = rd32 bs 0, version = rd32 bs 4, count = rd32 bs 8, dl_reserved = rd32 bs 12,
     entries = map (\<lambda>i. entry_of (subbuf bs (16 + 8 * i) 8)) [0, 1, 2, 3],
     padding = subbuf bs 48 460, checksum = rd32 bs 508\<rparr>"

definition compute_checksum :: "disk_layout \<Rightarrow> u32" where
  "compute_checksum c =
     fold (\<lambda>b sum. (sum XOR ucast b) * 16777619) (take (512 - 4) (layout_bytes c)) 0x811C9DC5"

section \<open>Operations\<close>

definition wipe_entry :: saved_entry where
  "wipe_entry = \<lparr>letter = 0, fs_type = FS_NONE, part_num = 0, se_reserved = 0, se_lba = 0\<rparr>"

text \<open>Static storage is zero.\<close>

definition zero_layout :: disk_layout where
  "zero_layout = \<lparr>magic = 0, version = 0, count = 0, dl_reserved = 0,
     entries = replicate MAX_ENTRIES wipe_entry, padding = replicate 460 0, checksum = 0\<rparr>"

definition config_boot :: config_state where
  "config_boot = \<lparr>g_cfg = zero_layout, g_loaded = False\<rparr>"

definition seal :: "disk_layout \<Rightarrow> disk_layout" where
  "seal c = (let c = c\<lparr>checksum := 0\<rparr> in c\<lparr>checksum := compute_checksum c\<rparr>)"

definition reset :: "config_state \<Rightarrow> config_state" where
  "reset s = s\<lparr>g_cfg := seal (zero_layout\<lparr>magic := CONFIG_MAGIC, version := CONFIG_VERSION, count := 0\<rparr>)\<rparr>"

definition load :: "'d blk \<Rightarrow> 'd \<Rightarrow> config_state \<Rightarrow> bool \<times> config_state" where
  "load io d s =
     (if g_loaded s then (True, s)
      else
        let failed = (False, (reset s)\<lparr>g_loaded := True\<rparr>) in
        if \<not> blk_present io d then failed
        else case blk_read io d CONFIG_LBA of None \<Rightarrow> failed
        | Some sector \<Rightarrow>
            let tmp = layout_of sector in
            if magic tmp \<noteq> CONFIG_MAGIC \<or> version tmp \<noteq> CONFIG_VERSION then failed
            else
              let saved = checksum tmp; tmp = tmp\<lparr>checksum := 0\<rparr> in
              if saved \<noteq> compute_checksum tmp then failed
              else if unat (count tmp) > MAX_ENTRIES then failed
              else (count tmp > 0, s\<lparr>g_cfg := tmp, g_loaded := True\<rparr>))"

definition save :: "'d blk \<Rightarrow> 'd \<Rightarrow> config_state \<Rightarrow> bool \<times> config_state \<times> 'd" where
  "save io d s =
     (if \<not> blk_present io d then (False, s, d)
      else
        let s = s\<lparr>g_cfg := seal ((g_cfg s)\<lparr>magic := CONFIG_MAGIC, version := CONFIG_VERSION\<rparr>)\<rparr>;
            (ok, d') = blk_write io d CONFIG_LBA (layout_bytes (g_cfg s))
        in (ok, s, d'))"

text \<open>\<open>if (!g_loaded) load();\<close>\<close>

definition ensure_loaded :: "'d blk \<Rightarrow> 'd \<Rightarrow> config_state \<Rightarrow> config_state" where
  "ensure_loaded io d s = (if \<not> g_loaded s then snd (load io d s) else s)"

text \<open>The first index below \<open>count\<close> whose entry satisfies the test, as the search loops find it.\<close>

fun find_index :: "(saved_entry \<Rightarrow> bool) \<Rightarrow> saved_entry list \<Rightarrow> nat list \<Rightarrow> nat option" where
  "find_index P es [] = None"
| "find_index P es (i # is) = (if P (es ! i) then Some i else find_index P es is)"

definition search :: "(saved_entry \<Rightarrow> bool) \<Rightarrow> disk_layout \<Rightarrow> nat option" where
  "search P c = find_index P (entries c) [0..<unat (count c)]"

definition drop_oldest :: "disk_layout \<Rightarrow> disk_layout" where
  "drop_oldest c =
     (if unat (count c) \<ge> MAX_ENTRIES
      then c\<lparr>entries := fold (\<lambda>i es. es[i - 1 := es ! i]) [1..<MAX_ENTRIES] (entries c),
             count := of_nat (MAX_ENTRIES - 1)\<rparr>
      else c)"

definition add :: "'d blk \<Rightarrow> 'd \<Rightarrow> config_state \<Rightarrow> u8 \<Rightarrow> u8 \<Rightarrow> u8 \<Rightarrow> u32 \<Rightarrow> bool \<times> config_state \<times> 'd" where
  "add io d s ltr fs pn lba =
     (let s = ensure_loaded io d s; c = g_cfg s in
      case search (\<lambda>e. part_num e = pn) c of
        Some i \<Rightarrow>
          save io d (s\<lparr>g_cfg := c\<lparr>entries := (entries c)[i := ((entries c) ! i)\<lparr>letter := ltr, fs_type := fs, se_lba := lba\<rparr>]\<rparr>\<rparr>)
      | None \<Rightarrow>
          (case search (\<lambda>e. letter e = ltr) c of
             Some i \<Rightarrow>
               save io d (s\<lparr>g_cfg := c\<lparr>entries := (entries c)[i := ((entries c) ! i)\<lparr>part_num := pn, fs_type := fs, se_lba := lba\<rparr>]\<rparr>\<rparr>)
           | None \<Rightarrow>
               let c = drop_oldest c;
                   e = \<lparr>letter = ltr, fs_type = fs, part_num = pn, se_reserved = 0, se_lba = lba\<rparr>
               in save io d (s\<lparr>g_cfg := c\<lparr>entries := (entries c)[unat (count c) := e], count := count c + 1\<rparr>\<rparr>)))"

text \<open>Removing entry \<open>i\<close>: shift the later entries down, shrink, wipe the freed slot.\<close>

definition remove_at :: "disk_layout \<Rightarrow> nat \<Rightarrow> disk_layout" where
  "remove_at c i =
     (let es = fold (\<lambda>j es. es[j - 1 := es ! j]) [i + 1..<unat (count c)] (entries c);
          n = count c - 1
      in c\<lparr>entries := es[unat n := wipe_entry], count := n\<rparr>)"

definition remove_if :: "(saved_entry \<Rightarrow> bool) \<Rightarrow> 'd blk \<Rightarrow> 'd \<Rightarrow> config_state \<Rightarrow> bool \<times> config_state \<times> 'd" where
  "remove_if P io d s =
     (let s = ensure_loaded io d s in
      case search P (g_cfg s) of
        Some i \<Rightarrow> save io d (s\<lparr>g_cfg := remove_at (g_cfg s) i\<rparr>)
      | None \<Rightarrow> save io d s)"

definition remove_by_part :: "'d blk \<Rightarrow> 'd \<Rightarrow> config_state \<Rightarrow> u8 \<Rightarrow> bool \<times> config_state \<times> 'd" where
  "remove_by_part io d s pn = remove_if (\<lambda>e. part_num e = pn) io d s"

definition remove_by_letter :: "'d blk \<Rightarrow> 'd \<Rightarrow> config_state \<Rightarrow> u8 \<Rightarrow> bool \<times> config_state \<times> 'd" where
  "remove_by_letter io d s ltr = remove_if (\<lambda>e. letter e = ltr) io d s"

definition clear :: "'d blk \<Rightarrow> 'd \<Rightarrow> config_state \<Rightarrow> bool \<times> config_state \<times> 'd" where
  "clear io d s =
     (let s = ensure_loaded io d s in
      save io d (s\<lparr>g_cfg := (g_cfg s)\<lparr>count := 0, entries := replicate MAX_ENTRIES wipe_entry\<rparr>\<rparr>))"

definition config_count :: "'d blk \<Rightarrow> 'd \<Rightarrow> config_state \<Rightarrow> int \<times> config_state" where
  "config_count io d s = (let s = ensure_loaded io d s in (sint (count (g_cfg s)), s))"

text \<open>The fields of an entry that callers see.\<close>

definition get :: "'d blk \<Rightarrow> 'd \<Rightarrow> config_state \<Rightarrow> int \<Rightarrow> saved_entry option \<times> config_state" where
  "get io d s idx =
     (let s = ensure_loaded io d s in
      if idx < 0 \<or> nat idx \<ge> unat (count (g_cfg s)) then (None, s)
      else (Some (entries (g_cfg s) ! nat idx), s))"

definition get_last :: "'d blk \<Rightarrow> 'd \<Rightarrow> config_state \<Rightarrow> saved_entry option \<times> config_state" where
  "get_last io d s =
     (let s = ensure_loaded io d s in
      if count (g_cfg s) = 0 then (None, s)
      else get io d s (sint (count (g_cfg s)) - 1))"

section \<open>Well-formed configurations and what they mean\<close>

definition layout_wf :: "disk_layout \<Rightarrow> bool" where
  "layout_wf c \<longleftrightarrow> length (entries c) = 4 \<and> length (padding c) = 460 \<and> unat (count c) \<le> 4"

text \<open>The configuration is the list of the first \<open>count\<close> entries, oldest first.\<close>

definition saved :: "disk_layout \<Rightarrow> saved_entry list" where
  "saved c = take (unat (count c)) (entries c)"

fun position :: "('a \<Rightarrow> bool) \<Rightarrow> 'a list \<Rightarrow> nat option" where
  "position P [] = None"
| "position P (x # xs) = (if P x then Some 0 else map_option Suc (position P xs))"

text \<open>Adding on lists: the entry of the partition is replaced, else the entry of the letter,
  else the new entry goes to the end, dropping the oldest of four.\<close>

definition upsert :: "saved_entry \<Rightarrow> saved_entry list \<Rightarrow> saved_entry list" where
  "upsert e es =
     (case position (\<lambda>x. part_num x = part_num e) es of
        Some i \<Rightarrow> es[i := e\<lparr>se_reserved := se_reserved (es ! i)\<rparr>]
      | None \<Rightarrow>
          (case position (\<lambda>x. letter x = letter e) es of
             Some i \<Rightarrow> es[i := e\<lparr>se_reserved := se_reserved (es ! i)\<rparr>]
           | None \<Rightarrow> (if length es \<ge> 4 then tl es else es) @ [e]))"

definition remove_first :: "('a \<Rightarrow> bool) \<Rightarrow> 'a list \<Rightarrow> 'a list" where
  "remove_first P es = (case position P es of None \<Rightarrow> es | Some i \<Rightarrow> take i es @ drop (Suc i) es)"

lemma position_Some:
  "position P xs = Some i \<Longrightarrow> i < length xs \<and> P (xs ! i) \<and> (\<forall>j<i. \<not> P (xs ! j))"
proof (induction xs arbitrary: i)
  case (Cons x xs)
  then show ?case by (cases i) (auto split: if_splits simp: less_Suc_eq_0_disj)
qed simp

lemma position_None: "position P xs = None \<longleftrightarrow> (\<forall>x\<in>set xs. \<not> P x)"
  by (induction xs) auto

lemma find_index_upt:
  "n + length xs \<le> length es \<Longrightarrow> xs = take (length xs) (drop n es) \<Longrightarrow>
   find_index P es [n..<n + length xs] = map_option ((+) n) (position P xs)"
proof (induction xs arbitrary: n)
  case (Cons x xs)
  have u: "[n..<n + length (x # xs)] = n # [Suc n..<Suc n + length xs]"
    using upt_conv_Cons [of n "n + length (x # xs)"] by simp
  have d: "drop n es = es ! n # drop (Suc n) es" using Cons.prems(1) by (simp add: Cons_nth_drop_Suc)
  have x: "x = es ! n" and xs: "xs = take (length xs) (drop (Suc n) es)" using Cons.prems(2) by (auto simp: d)
  have ih: "find_index P es [Suc n..<Suc n + length xs] = map_option ((+) (Suc n)) (position P xs)"
    by (rule Cons.IH) (use Cons.prems(1) xs in auto)
  with x ih show ?case unfolding u find_index.simps by (cases "position P xs") auto
qed simp

lemma search_saved:
  assumes "layout_wf c" shows "search P c = position P (saved c)"
proof -
  have "length (saved c) = unat (count c)" using assms by (simp add: layout_wf_def saved_def)
  then have "search P c = map_option ((+) 0) (position P (saved c))"
    using find_index_upt [of 0 "saved c" "entries c" P] assms by (simp add: search_def layout_wf_def saved_def)
  then show ?thesis by (cases "position P (saved c)") auto
qed

lemma length_saved: "layout_wf c \<Longrightarrow> length (saved c) = unat (count c)"
  by (simp add: layout_wf_def saved_def)

subsection \<open>The sector\<close>

lemma length_entry_bytes [simp]: "length (entry_bytes e) = 8"
  by (simp add: entry_bytes_def)

lemma entry_roundtrip: "entry_of (entry_bytes e) = e"
  by (simp add: entry_of_def entry_bytes_def struct_simps)

lemma length_4E: assumes "length xs = 4" obtains a b c d where "xs = [a, b, c, d]"
  using assms by (auto simp: eval_nat_numeral length_Suc_conv)

lemma length_layout_bytes: "layout_wf c \<Longrightarrow> length (layout_bytes c) = 512"
  by (auto simp: layout_wf_def layout_bytes_def elim!: length_4E)

lemma layout_roundtrip: assumes "layout_wf c" shows "layout_of (layout_bytes c) = c"
proof -
  obtain a b e d where es: "entries c = [a, b, e, d]" using assms by (auto simp: layout_wf_def elim: length_4E)
  have p: "length (padding c) = 460" using assms by (simp add: layout_wf_def)
  show ?thesis by (simp add: layout_of_def layout_bytes_def es p struct_simps entry_roundtrip)
qed

lemma checksum_ignored:
  "layout_wf c \<Longrightarrow> compute_checksum (c\<lparr>checksum := x\<rparr>) = compute_checksum c"
  by (auto simp: layout_wf_def compute_checksum_def layout_bytes_def elim!: length_4E)

lemma layout_wf_update [simp]:
  "layout_wf (c\<lparr>checksum := x\<rparr>) = layout_wf c" "layout_wf (c\<lparr>magic := m\<rparr>) = layout_wf c"
  "layout_wf (c\<lparr>version := v\<rparr>) = layout_wf c"
  "saved (c\<lparr>checksum := x\<rparr>) = saved c" "saved (c\<lparr>magic := m\<rparr>) = saved c"
  "saved (c\<lparr>version := v\<rparr>) = saved c"
  by (simp_all add: layout_wf_def saved_def)

lemma seal_wf [simp]: "layout_wf (seal c) = layout_wf c" "saved (seal c) = saved c"
  by (simp_all add: seal_def Let_def)

lemma seal_fields [simp]:
  "magic (seal c) = magic c" "version (seal c) = version c" "count (seal c) = count c"
  by (simp_all add: seal_def Let_def)

subsection \<open>The operations on the saved list\<close>

text \<open>What \<open>save\<close> leaves in memory, and on the disk when it succeeds.\<close>

definition stored :: "disk_layout \<Rightarrow> disk_layout" where
  "stored c = seal (c\<lparr>magic := CONFIG_MAGIC, version := CONFIG_VERSION\<rparr>)"

lemma stored_wf [simp]: "layout_wf (stored c) = layout_wf c" "saved (stored c) = saved c"
  "magic (stored c) = CONFIG_MAGIC" "version (stored c) = CONFIG_VERSION" "count (stored c) = count c"
  by (simp_all add: stored_def)

lemma stored_checksum:
  "layout_wf c \<Longrightarrow> checksum (stored c) = compute_checksum ((stored c)\<lparr>checksum := x\<rparr>)"
  by (simp add: stored_def seal_def Let_def checksum_ignored)

lemma save_saved:
  "save io d s = (ok, s', d') \<Longrightarrow> saved (g_cfg s') = saved (g_cfg s)"
  "save io d s = (ok, s', d') \<Longrightarrow> layout_wf (g_cfg s) \<Longrightarrow> layout_wf (g_cfg s')"
  "save io d s = (ok, s', d') \<Longrightarrow> g_loaded s' = g_loaded s"
  by (auto simp: save_def Let_def split: if_splits prod.splits)

lemma ensure_loaded_id: "g_loaded s \<Longrightarrow> ensure_loaded io d s = s"
  by (simp add: ensure_loaded_def)

lemma update_at_saved:
  assumes "layout_wf c" "i < length (saved c)"
  shows "layout_wf (c\<lparr>entries := (entries c)[i := e]\<rparr>)"
    and "saved (c\<lparr>entries := (entries c)[i := e]\<rparr>) = (saved c)[i := e]"
    and "saved c ! i = entries c ! i"
  using assms by (auto simp: layout_wf_def saved_def take_update_swap)

lemma shift_down:
  "n \<le> length es \<Longrightarrow> let r = fold (\<lambda>j es. es[j - 1 := es ! j]) [Suc i..<n] es in
     length r = length es \<and> (\<forall>k<length es. r ! k = (if i \<le> k \<and> Suc k < n then es ! Suc k else es ! k))"
proof (induction n)
  case (Suc n)
  then show ?case
    by (cases "Suc i \<le> n") (auto simp: Let_def nth_list_update)
qed simp

lemma shift_down_take:
  assumes "i < n" "n \<le> length es"
  shows "take (n - 1) (fold (\<lambda>j es. es[j - 1 := es ! j]) [Suc i..<n] es) = take i (take n es) @ drop (Suc i) (take n es)"
    and "length (fold (\<lambda>j es. es[j - 1 := es ! j]) [Suc i..<n] es) = length es"
  using shift_down [OF assms(2), of i] assms
  by (auto simp: Let_def nth_append intro!: nth_equalityI)

lemma drop_oldest_saved:
  assumes "layout_wf c"
  shows "layout_wf (drop_oldest c) \<and> saved (drop_oldest c) = (if length (saved c) \<ge> 4 then tl (saved c) else saved c)
    \<and> unat (count (drop_oldest c)) < 4"
proof (cases "unat (count c) \<ge> MAX_ENTRIES")
  case True
  then have "unat (count c) = 4" "length (entries c) = 4" using assms by (auto simp: layout_wf_def MAX_ENTRIES_def)
  with True shift_down_take [of 0 4 "entries c"] assms show ?thesis
    by (auto simp: drop_oldest_def layout_wf_def saved_def MAX_ENTRIES_def drop_Suc)
qed (use assms in \<open>auto simp: drop_oldest_def layout_wf_def saved_def MAX_ENTRIES_def\<close>)

lemma append_saved:
  assumes "layout_wf c" "unat (count c) < 4"
  shows "layout_wf (c\<lparr>entries := (entries c)[unat (count c) := e], count := count c + 1\<rparr>)"
    and "saved (c\<lparr>entries := (entries c)[unat (count c) := e], count := count c + 1\<rparr>) = saved c @ [e]"
proof -
  have u: "unat (count c + 1) = unat (count c) + 1" using assms(2) by (simp add: unat_add_no_overflow)
  show "layout_wf (c\<lparr>entries := (entries c)[unat (count c) := e], count := count c + 1\<rparr>)"
    using assms u by (simp add: layout_wf_def)
  show "saved (c\<lparr>entries := (entries c)[unat (count c) := e], count := count c + 1\<rparr>) = saved c @ [e]"
    using assms u by (simp add: saved_def layout_wf_def take_Suc_conv_app_nth)
qed

text \<open>On a loaded configuration \<open>add\<close> saves the upserted list.\<close>

lemma add_is_save:
  assumes wf: "layout_wf (g_cfg s)" and l: "g_loaded s"
  shows "\<exists>c. layout_wf c \<and> saved c = upsert \<lparr>letter = ltr, fs_type = fs, part_num = pn, se_reserved = 0, se_lba = lba\<rparr> (saved (g_cfg s))
    \<and> add io d s ltr fs pn lba = save io d (s\<lparr>g_cfg := c\<rparr>)"
proof -
  let ?e = "\<lparr>letter = ltr, fs_type = fs, part_num = pn, se_reserved = 0, se_lba = lba\<rparr>"
  note srch = search_saved [OF wf]
  let ?p = "position (\<lambda>e. part_num e = pn) (saved (g_cfg s))"
  let ?q = "position (\<lambda>e. letter e = ltr) (saved (g_cfg s))"
  consider (p) i where "?p = Some i" | (q) i where "?p = None" "?q = Some i" | (n) "?p = None" "?q = None"
    by (cases ?p; cases ?q) auto
  then show ?thesis
  proof cases
    case p
    from position_Some [OF p] have i: "i < length (saved (g_cfg s))" "part_num (saved (g_cfg s) ! i) = pn" by auto
    note u = update_at_saved [OF wf i(1)]
    show ?thesis using p i u
      by (intro exI [of _ "(g_cfg s)\<lparr>entries := (entries (g_cfg s))[i := ((entries (g_cfg s)) ! i)\<lparr>letter := ltr, fs_type := fs, se_lba := lba\<rparr>]\<rparr>"])
        (auto simp: add_def ensure_loaded_id [OF l] srch upsert_def Let_def intro!: arg_cong [where f = "list_update (saved (g_cfg s)) i"])
  next
    case q
    from position_Some [OF q(2)] have i: "i < length (saved (g_cfg s))" "letter (saved (g_cfg s) ! i) = ltr" by auto
    note u = update_at_saved [OF wf i(1)]
    show ?thesis using q i u
      by (intro exI [of _ "(g_cfg s)\<lparr>entries := (entries (g_cfg s))[i := ((entries (g_cfg s)) ! i)\<lparr>part_num := pn, fs_type := fs, se_lba := lba\<rparr>]\<rparr>"])
        (auto simp: add_def ensure_loaded_id [OF l] srch upsert_def Let_def intro!: arg_cong [where f = "list_update (saved (g_cfg s)) i"])
  next
    case n
    let ?c = "drop_oldest (g_cfg s)"
    note o = drop_oldest_saved [OF wf]
    show ?thesis using n append_saved [of ?c ?e] o
      by (intro exI [of _ "?c\<lparr>entries := (entries ?c)[unat (count ?c) := ?e], count := count ?c + 1\<rparr>"])
        (auto simp: add_def ensure_loaded_id [OF l] srch upsert_def Let_def)
  qed
qed

lemma add_saved:
  assumes wf: "layout_wf (g_cfg s)" and l: "g_loaded s" and a: "add io d s ltr fs pn lba = (ok, s', d')"
  shows "layout_wf (g_cfg s') \<and> g_loaded s' \<and>
    saved (g_cfg s') = upsert \<lparr>letter = ltr, fs_type = fs, part_num = pn, se_reserved = 0, se_lba = lba\<rparr> (saved (g_cfg s))"
proof -
  obtain c where "layout_wf c" "saved c = upsert \<lparr>letter = ltr, fs_type = fs, part_num = pn, se_reserved = 0, se_lba = lba\<rparr> (saved (g_cfg s))"
      "save io d (s\<lparr>g_cfg := c\<rparr>) = (ok, s', d')"
    using add_is_save [OF wf l, of ltr fs pn lba io d] a by auto
  with save_saved [of io d "s\<lparr>g_cfg := c\<rparr>" ok s' d'] l show ?thesis by simp
qed

lemma remove_at_saved:
  assumes "layout_wf c" "i < length (saved c)"
  shows "layout_wf (remove_at c i) \<and> saved (remove_at c i) = take i (saved c) @ drop (Suc i) (saved c)"
proof -
  have i: "i < unat (count c)" "unat (count c) \<le> 4" "length (entries c) = 4"
    using assms by (auto simp: layout_wf_def saved_def)
  have u: "unat (count c - 1) = unat (count c) - 1" using i by (intro unat_dec) simp
  show ?thesis
    using shift_down_take [of i "unat (count c)" "entries c"] i u assms(1)
    by (simp add: remove_at_def layout_wf_def saved_def Let_def)
qed

lemma remove_if_saved:
  assumes wf: "layout_wf (g_cfg s)" and l: "g_loaded s" and a: "remove_if P io d s = (ok, s', d')"
  shows "layout_wf (g_cfg s') \<and> g_loaded s' \<and> saved (g_cfg s') = remove_first P (saved (g_cfg s))"
proof (cases "position P (saved (g_cfg s))")
  case None
  then have "save io d s = (ok, s', d')"
    using a by (simp add: remove_if_def ensure_loaded_id [OF l] search_saved [OF wf] Let_def)
  with wf l None show ?thesis by (auto simp: remove_first_def save_saved)
next
  case (Some i)
  have s: "save io d (s\<lparr>g_cfg := remove_at (g_cfg s) i\<rparr>) = (ok, s', d')"
    using a Some by (simp add: remove_if_def ensure_loaded_id [OF l] search_saved [OF wf] Let_def)
  have r: "layout_wf (remove_at (g_cfg s) i)"
    "saved (remove_at (g_cfg s) i) = take i (saved (g_cfg s)) @ drop (Suc i) (saved (g_cfg s))"
    using remove_at_saved [OF wf] position_Some [OF Some] by auto
  show ?thesis using save_saved [OF s] r l Some by (simp add: remove_first_def)
qed

subsection \<open>Partition numbers stay distinct\<close>

lemma distinct_upsert:
  assumes "distinct (map part_num es)" shows "distinct (map part_num (upsert e es))"
proof -
  have upd: "distinct (map part_num (es[i := x]))"
    if "i < length es" "part_num x = part_num (es ! i) \<or> part_num x \<notin> part_num ` set es" for i x
    using assms that
    by (auto simp: map_update distinct_list_update intro!: distinct_list_update)
  consider (p) i where "position (\<lambda>x. part_num x = part_num e) es = Some i"
    | (q) i where "position (\<lambda>x. part_num x = part_num e) es = None" "position (\<lambda>x. letter x = letter e) es = Some i"
    | (n) "position (\<lambda>x. part_num x = part_num e) es = None" "position (\<lambda>x. letter x = letter e) es = None"
    by (cases "position (\<lambda>x. part_num x = part_num e) es"; cases "position (\<lambda>x. letter x = letter e) es") auto
  then show ?thesis
  proof cases
    case p
    with position_Some [OF p] show ?thesis by (auto simp: upsert_def intro!: upd)
  next
    case q
    from q(1) have "\<forall>x\<in>set es. part_num x \<noteq> part_num e" by (simp add: position_None)
    with q position_Some [OF q(2)] show ?thesis by (auto simp: upsert_def intro!: upd)
  next
    case n
    have "distinct (map part_num (tl es))" "set (tl es) \<subseteq> set es"
      using assms by (cases es; auto)+
    moreover have "part_num e \<notin> part_num ` set es" using n(1) by (auto simp: position_None)
    ultimately have "distinct (map part_num ((if length es \<ge> 4 then tl es else es) @ [e]))"
      using assms by auto
    with n show ?thesis by (simp add: upsert_def)
  qed
qed

lemma upsert_present: "\<exists>x\<in>set (upsert e es). part_num x = part_num e \<and> letter x = letter e
   \<and> fs_type x = fs_type e \<and> se_lba x = se_lba e"
proof -
  have upd: "e\<lparr>se_reserved := r\<rparr> \<in> set (es[i := e\<lparr>se_reserved := r\<rparr>])" if "i < length es" for i r
    using that by (simp add: set_update_memI)
  show ?thesis
    by (auto simp: upsert_def split: option.splits dest!: position_Some
        intro!: bexI [OF _ upd] )
qed

lemma distinct_remove_first:
  assumes "distinct (map f es)" shows "distinct (map f (remove_first P es))"
proof (cases "position P es")
  case (Some i)
  have "distinct (map f (take i es @ es ! i # drop (Suc i) es))"
    using assms id_take_nth_drop [of i es] position_Some [OF Some] by simp
  then have "distinct (map f (take i es @ drop (Suc i) es))" by auto
  with Some show ?thesis by (simp add: remove_first_def)
qed (use assms in \<open>simp add: remove_first_def\<close>)

section \<open>Correctness\<close>

lemma load_sealed:
  assumes "layout_wf c" "blk_present io d" "blk_read io d CONFIG_LBA = Some (layout_bytes (stored c))" "\<not> g_loaded s"
  shows "load io d s = (count c > 0, s\<lparr>g_cfg := (stored c)\<lparr>checksum := 0\<rparr>, g_loaded := True\<rparr>)"
proof -
  have "layout_wf (stored c)" and n: "unat (count c) \<le> 4" using assms(1) by (simp, simp add: layout_wf_def)
  from layout_roundtrip [OF this(1)] n assms(2-4) stored_checksum [OF assms(1), of 0] show ?thesis
    by (simp add: load_def Let_def MAX_ENTRIES_def)
qed

context block_device
begin

lemma save_load:
  assumes "layout_wf (g_cfg s)" and "save io d s = (True, s', d')"
  shows "\<exists>s2. load io d' config_boot = (saved (g_cfg s) \<noteq> [], s2)
           \<and> saved (g_cfg s2) = saved (g_cfg s) \<and> layout_wf (g_cfg s2) \<and> g_loaded s2"
proof -
  have p: "blk_present io d" and s': "g_cfg s' = stored (g_cfg s)"
    and w: "blk_write io d CONFIG_LBA (layout_bytes (stored (g_cfg s))) = (True, d')"
    using assms(2) by (auto simp: save_def stored_def Let_def split: if_splits prod.splits)
  have "length (layout_bytes (stored (g_cfg s))) = 512" using assms(1) by (simp add: length_layout_bytes)
  from load_sealed [OF assms(1) _ write_read [OF w this], of config_boot] write_present [OF w] p
  have "load io d' config_boot = (count (g_cfg s) > 0, config_boot\<lparr>g_cfg := (stored (g_cfg s))\<lparr>checksum := 0\<rparr>, g_loaded := True\<rparr>)"
    by (simp add: config_boot_def)
  moreover have "count (g_cfg s) > 0 \<longleftrightarrow> saved (g_cfg s) \<noteq> []"
    using length_saved [OF assms(1)] by (metis length_greater_0_conv word_gt_0 unat_gt_0)
  ultimately show ?thesis using assms(1) by simp
qed

end

text \<open>C11. What \<open>save\<close> wrote is what \<open>load\<close> finds after a reboot: with a disk that
  keeps its sectors, a configuration saved with success is loaded by a kernel whose memory is
  fresh, entry by entry, and the load reports whether there is any entry.\<close>

theorem save_load_roundtrip:
  assumes "block_device io" and "layout_wf (g_cfg s)" and "save io d s = (True, s', d')"
  shows "\<exists>s2. load io d' config_boot = (saved (g_cfg s) \<noteq> [], s2)
           \<and> saved (g_cfg s2) = saved (g_cfg s) \<and> layout_wf (g_cfg s2) \<and> g_loaded s2"
  by (rule block_device.save_load [OF assms])

definition mc_ex :: "store" where
  "mc_ex = \<lparr>cells = (\<lambda>_. replicate 512 0), faulty = (\<lambda>_. False), capacity = 100\<rparr>"

definition mc_cfg :: config_state where
  "mc_cfg = \<lparr>g_cfg = zero_layout\<lparr>count := 2, entries :=
     [\<lparr>letter = 67, fs_type = 1, part_num = 1, se_reserved = 0, se_lba = 2048\<rparr>,
      \<lparr>letter = 68, fs_type = 2, part_num = 2, se_reserved = 0, se_lba = 4096\<rparr>,
      wipe_entry, wipe_entry]\<rparr>, g_loaded = True\<rparr>"

lemma mc_cfg_wf: "layout_wf (g_cfg mc_cfg)"
  by (simp add: mc_cfg_def layout_wf_def zero_layout_def)

lemma save_store:
  "layout_wf (g_cfg s) \<Longrightarrow> save store_blk mc_ex s =
     (True, s\<lparr>g_cfg := stored (g_cfg s)\<rparr>, mc_ex\<lparr>cells := (cells mc_ex)(CONFIG_LBA := layout_bytes (stored (g_cfg s)))\<rparr>)"
  by (simp add: save_def store_blk_def mc_ex_def Let_def stored_def length_layout_bytes)

theorem save_load_roundtrip_witness:
  "\<exists>d' s2. load store_blk d' config_boot = (True, s2)
     \<and> map letter (saved (g_cfg s2)) = [67, 68]"
proof -
  have "saved (g_cfg mc_cfg) \<noteq> []" "map letter (saved (g_cfg mc_cfg)) = [67, 68]"
    by (simp_all add: mc_cfg_def saved_def zero_layout_def)
  with save_load_roundtrip [OF store_dev.block_device_axioms mc_cfg_wf save_store [OF mc_cfg_wf]]
  show ?thesis by force
qed

text \<open>C12. On a loaded, well-formed configuration \<open>add\<close> refines \<open>upsert\<close> on the list of
  saved entries: afterwards there is an entry for the partition with the new letter, file system
  and LBA, and if no two entries had the same partition number, no two have it now; the count
  never exceeds the four slots.\<close>

theorem add_refines_upsert:
  assumes "layout_wf (g_cfg s)" and "g_loaded s" and "add io d s ltr fs pn lba = (ok, s', d')"
  shows "saved (g_cfg s') = upsert \<lparr>letter = ltr, fs_type = fs, part_num = pn, se_reserved = 0, se_lba = lba\<rparr> (saved (g_cfg s))
    \<and> layout_wf (g_cfg s') \<and> g_loaded s'
    \<and> (\<exists>x\<in>set (saved (g_cfg s')). part_num x = pn \<and> letter x = ltr \<and> fs_type x = fs \<and> se_lba x = lba)
    \<and> (distinct (map part_num (saved (g_cfg s))) \<longrightarrow> distinct (map part_num (saved (g_cfg s'))))"
  using add_saved [OF assms] upsert_present
    [of "\<lparr>letter = ltr, fs_type = fs, part_num = pn, se_reserved = 0, se_lba = lba\<rparr>" "saved (g_cfg s)"]
  by (auto intro: distinct_upsert)

theorem add_refines_upsert_witness:
  "\<exists>ok s' d'. add store_blk mc_ex mc_cfg 69 1 3 9000 = (ok, s', d')
     \<and> map letter (saved (g_cfg s')) = [67, 68, 69]"
proof -
  obtain ok s' d' where a: "add store_blk mc_ex mc_cfg 69 1 3 9000 = (ok, s', d')"
    by (metis prod_cases3)
  have "saved (g_cfg s') = upsert \<lparr>letter = 69, fs_type = 1, part_num = 3, se_reserved = 0, se_lba = 9000\<rparr> (saved (g_cfg mc_cfg))"
    using add_refines_upsert [OF mc_cfg_wf _ a] by (simp add: mc_cfg_def)
  moreover have "map letter (upsert \<lparr>letter = 69, fs_type = 1, part_num = 3, se_reserved = 0, se_lba = 9000\<rparr> (saved (g_cfg mc_cfg))) = [67, 68, 69]"
    by (simp add: upsert_def mc_cfg_def saved_def zero_layout_def)
  ultimately show ?thesis using a by metis
qed

text \<open>Removing by partition number or by letter deletes the first matching entry and
  keeps the others in their order, and the configuration well formed.\<close>

theorem remove_deletes_first:
  assumes "layout_wf (g_cfg s)" and "g_loaded s"
  shows "(remove_by_part io d s pn = (ok, s', d') \<longrightarrow>
      saved (g_cfg s') = remove_first (\<lambda>e. part_num e = pn) (saved (g_cfg s)) \<and> layout_wf (g_cfg s'))
    \<and> (remove_by_letter io d s ltr = (ok, s', d') \<longrightarrow>
      saved (g_cfg s') = remove_first (\<lambda>e. letter e = ltr) (saved (g_cfg s)) \<and> layout_wf (g_cfg s'))"
  using remove_if_saved [OF assms, of "\<lambda>e. part_num e = pn" io d ok s' d']
    remove_if_saved [OF assms, of "\<lambda>e. letter e = ltr" io d ok s' d']
  by (auto simp: remove_by_part_def remove_by_letter_def)

theorem remove_deletes_first_witness:
  "\<exists>ok s' d'. remove_by_letter store_blk mc_ex mc_cfg 67 = (ok, s', d')
     \<and> map part_num (saved (g_cfg s')) = [2]"
proof -
  obtain ok s' d' where a: "remove_by_letter store_blk mc_ex mc_cfg 67 = (ok, s', d')"
    by (metis prod_cases3)
  have "saved (g_cfg s') = remove_first (\<lambda>e. letter e = 67) (saved (g_cfg mc_cfg)) \<and> layout_wf (g_cfg s')"
    using remove_deletes_first [OF mc_cfg_wf, of store_blk mc_ex 0 ok s' d' 67] a by (simp add: mc_cfg_def)
  moreover have "map part_num (remove_first (\<lambda>e. letter e = 67) (saved (g_cfg mc_cfg))) = [2]"
    by (simp add: remove_first_def mc_cfg_def saved_def zero_layout_def)
  ultimately show ?thesis using a by metis
qed

text \<open>Letters are not kept distinct: after \<open>add('C', .., 1, ..)\<close> and
  \<open>add('D', .., 2, ..)\<close>, moving partition 2 to the letter C finds the entry of its partition first and
  rewrites its letter without looking at the other entries, so two entries say C.\<close>

theorem add_duplicates_letter:
  "\<exists>s1. snd (add store_blk mc_ex mc_cfg 67 2 2 4096) = s1 \<and> map letter (saved (g_cfg (fst s1))) = [67, 67]
     \<and> distinct (map letter (saved (g_cfg mc_cfg)))"
proof -
  obtain ok s' d' where a: "add store_blk mc_ex mc_cfg 67 2 2 4096 = (ok, s', d')"
    by (metis prod_cases3)
  have l: "g_loaded mc_cfg" by (simp add: mc_cfg_def)
  have "map letter (saved (g_cfg s')) = [67, 67]"
    using add_saved [OF mc_cfg_wf l a] by (simp add: upsert_def mc_cfg_def saved_def zero_layout_def)
  moreover have "distinct (map letter (saved (g_cfg mc_cfg)))"
    by (simp add: mc_cfg_def saved_def zero_layout_def)
  ultimately show ?thesis using a by simp
qed

end
