(* ===== verification/Paths.thy ===== *)
theory Paths
  imports Prelude
begin

text \<open>
  Paths as both file systems take them apart: separators are \<open>/\<close> and \<open>\\<close>, components go into a
  64-byte buffer, and the current path is printed into a bounded buffer.
\<close>

definition is_sep :: "u8 \<Rightarrow> bool" where
  "is_sep c \<longleftrightarrow> c = 47 \<or> c = 92"

text \<open>\<open>if (path[0] == '/' || path[0] == '\') path++;\<close>\<close>

definition skip_sep :: "cstr \<Rightarrow> cstr" where
  "skip_sep path = (if is_sep (cget path 0) then tl path else path)"

definition comp_of :: "cstr \<Rightarrow> cstr" where
  "comp_of p = take 63 (takeWhile (\<lambda>c. \<not> is_sep c) p)"

text \<open>\<open>p\<close> after a component and the one character \<open>if (*p) p++\<close> drops.\<close>

definition after_comp :: "cstr \<Rightarrow> cstr" where
  "after_comp p = tl (drop (length (comp_of p)) p)"

lemma length_after_comp: "p \<noteq> [] \<Longrightarrow> length (after_comp p) < length p"
  by (simp add: after_comp_def)

text \<open>\<open>get_path\<close> appends while \<open>pos + 1 < size\<close>; \<open>append_upto\<close> is one such loop.\<close>

fun append_upto :: "nat \<Rightarrow> u8 list \<Rightarrow> u8 list \<Rightarrow> u8 list" where
  "append_upto n buf [] = buf"
| "append_upto n buf (c # cs) = (if length buf + 1 < n then append_upto n (buf @ [c]) cs else buf)"

text \<open>With \<open>size = 0\<close> the final \<open>buf[pos] = 0\<close> is outside the buffer.\<close>

definition path_text :: "cstr list \<Rightarrow> nat \<Rightarrow> cstr option" where
  "path_text comps n =
     (if n = 0 then None
      else Some (fold (\<lambda>nm buf. append_upto n (append_upto n buf [47]) nm) comps (append_upto n [] (ascii ''root''))))"

end
