(* ===== verification/Fat32.thy ===== *)
theory Fat32
  imports Disk Fmt Paths "HOL-Library.Monad_Syntax"
begin

text \<open>
  The FAT32 file system, \<open>fs/fat32.cpp\<close>: mounting, the FAT, directories, files, paths and
  formatting.  The global \<open>fs\<close> is an explicit argument and result, the disk is \<open>io\<close> with
  state \<open>d\<close>.

  Results are options: \<open>None\<close> stands for a run without a defined result, that is a loop that
  never ends (cluster chains are followed without a bound) or an access outside a
  buffer; \<open>Some (False, ..)\<close> is an orderly \<open>return false\<close>.
\<close>

section \<open>Structs\<close>

record bpb =
  jmp :: "u8 list"
  oem :: "u8 list"
  bytes_per_sector :: u16
  sectors_per_cluster :: u8
  reserved_sectors :: u16
  num_fats :: u8
  root_entries :: u16
  total_sectors_16 :: u16
  media :: u8
  fat_size_16 :: u16
  sectors_per_track :: u16
  num_heads :: u16
  hidden_sectors :: u32
  total_sectors_32 :: u32
  fat_size_32 :: u32
  ext_flags :: u16
  fs_version :: u16
  root_cluster_b :: u32
  fs_info :: u16
  backup_boot :: u16
  bpb_reserved :: "u8 list"
  drive_num :: u8
  bpb_reserved1 :: u8
  boot_sig :: u8
  volume_id :: u32
  volume_label :: "u8 list"
  fs_type_name :: "u8 list"

definition bpb_of :: "u8 list \<Rightarrow> bpb" where
  "bpb_of bs = \<lparr>jmp = subbuf bs 0 3, oem = subbuf bs 3 8, bytes_per_sector = rd16 bs 11,
     sectors_per_cluster = rd8 bs 13, reserved_sectors = rd16 bs 14, num_fats = rd8 bs 16,
     root_entries = rd16 bs 17, total_sectors_16 = rd16 bs 19, media = rd8 bs 21, fat_size_16 = rd16 bs 22,
     sectors_per_track = rd16 bs 24, num_heads = rd16 bs 26, hidden_sectors = rd32 bs 28,
     total_sectors_32 = rd32 bs 32, fat_size_32 = rd32 bs 36, ext_flags = rd16 bs 40,
     fs_version = rd16 bs 42, root_cluster_b = rd32 bs 44, fs_info = rd16 bs 48,
     backup_boot = rd16 bs 50, bpb_reserved = subbuf bs 52 12, drive_num = rd8 bs 64,
     bpb_reserved1 = rd8 bs 65, boot_sig = rd8 bs 66, volume_id = rd32 bs 67,
     volume_label = subbuf bs 71 11, fs_type_name = subbuf bs 82 8\<rparr>"

record dir_entry =
  de_name :: "u8 list"
  de_ext :: "u8 list"
  de_attr :: u8
  de_reserved :: u8
  create_time_tenth :: u8
  create_time :: u16
  create_date :: u16
  access_date :: u16
  cluster_high :: u16
  write_time :: u16
  write_date :: u16
  cluster_low :: u16
  file_size_f :: u32

definition entry_of_bytes :: "u8 list \<Rightarrow> dir_entry" where
  "entry_of_bytes bs = \<lparr>de_name = subbuf bs 0 8, de_ext = subbuf bs 8 3, de_attr = rd8 bs 11,
     de_reserved = rd8 bs 12, create_time_tenth = rd8 bs 13, create_time = rd16 bs 14,
     create_date = rd16 bs 16, access_date = rd16 bs 18, cluster_high = rd16 bs 20,
     write_time = rd16 bs 22, write_date = rd16 bs 24, cluster_low = rd16 bs 26, file_size_f = rd32 bs 28\<rparr>"

definition bytes_of_entry :: "dir_entry \<Rightarrow> u8 list" where
  "bytes_of_entry e = de_name e @ de_ext e @ de_attr e # de_reserved e # create_time_tenth e #
     le16 (create_time e) @ le16 (create_date e) @ le16 (access_date e) @ le16 (cluster_high e)
     @ le16 (write_time e) @ le16 (write_date e) @ le16 (cluster_low e) @ le32 (file_size_f e)"

text \<open>\<open>((DirEntry* )sector)[i]\<close>\<close>

definition dir_slot :: "u8 list \<Rightarrow> nat \<Rightarrow> dir_entry" where
  "dir_slot sector i = entry_of_bytes (subbuf sector (32 * i) 32)"

definition set_slot :: "u8 list \<Rightarrow> nat \<Rightarrow> dir_entry \<Rightarrow> u8 list" where
  "set_slot sector i e = splice sector (32 * i) (bytes_of_entry e)"

definition ATTR_VOLUME_ID :: u8 where "ATTR_VOLUME_ID = 0x08"
definition ATTR_DIRECTORY :: u8 where "ATTR_DIRECTORY = 0x10"
definition ATTR_ARCHIVE :: u8 where "ATTR_ARCHIVE = 0x20"
definition ATTR_LONG_NAME :: u8 where "ATTR_LONG_NAME = 0x0F"

record path_stack =
  names :: "cstr list"
  clusters :: "u32 list"
  depth :: nat

record fs_state =
  mounted :: bool
  drive_letter :: u8
  partition_lba :: u32
  fs_bpb :: bpb
  fat_start :: u32
  data_start :: u32
  root_cluster :: u32
  current_cluster :: u32
  total_clusters :: u32
  bytes_per_cluster :: u32
  fs_path :: path_stack

text \<open>\<open>FS fs\<close> is zero-initialised.\<close>

definition fs_boot :: fs_state where
  "fs_boot = \<lparr>mounted = False, drive_letter = 0, partition_lba = 0, fs_bpb = bpb_of (replicate 90 0),
     fat_start = 0, data_start = 0, root_cluster = 0, current_cluster = 0, total_clusters = 0,
     bytes_per_cluster = 0, fs_path = \<lparr>names = replicate 32 [], clusters = replicate 32 0, depth = 0\<rparr>\<rparr>"

definition MIN_SECTORS :: u32 where "MIN_SECTORS = 2048"

section \<open>Mounting\<close>

text \<open>A zero \<open>sectors_per_cluster\<close> traps in the final division, \<open>None\<close>.\<close>

definition mount :: "'d blk \<Rightarrow> 'd \<Rightarrow> u32 \<Rightarrow> u8 \<Rightarrow> fs_state \<Rightarrow> (bool \<times> fs_state) option" where
  "mount io d plba ltr fs =
     (case blk_read io d plba of None \<Rightarrow> Some (False, fs)
      | Some sector \<Rightarrow>
        let bpb = bpb_of sector in
        if bytes_per_sector bpb \<noteq> 512 then Some (False, fs)
        else if fat_size_16 bpb \<noteq> 0 then Some (False, fs)
        else if fat_size_32 bpb = 0 then Some (False, fs)
        else
          let fat_start_v = plba + ucast (reserved_sectors bpb);
              fs = \<lparr>mounted = True, drive_letter = ltr, partition_lba = plba, fs_bpb = bpb,
                fat_start = fat_start_v,
                data_start = fat_start_v + ucast (num_fats bpb) * fat_size_32 bpb,
                root_cluster = root_cluster_b bpb, current_cluster = root_cluster_b bpb,
                total_clusters = total_clusters fs,
                bytes_per_cluster = ucast (bytes_per_sector bpb) * ucast (sectors_per_cluster bpb),
                fs_path = \<lparr>names = replicate 32 [], clusters = replicate 32 0, depth = 0\<rparr>\<rparr>;
              data_sectors = total_sectors_32 bpb
                - (ucast (reserved_sectors bpb) + ucast (num_fats bpb) * fat_size_32 bpb)
          in if sectors_per_cluster bpb = 0 then None
             else Some (True, fs\<lparr>total_clusters := data_sectors div ucast (sectors_per_cluster bpb)\<rparr>))"

definition unmount :: "fs_state \<Rightarrow> fs_state" where
  "unmount fs = fs\<lparr>mounted := False\<rparr>"

section \<open>The FAT\<close>

text \<open>\<open>fs.bpb.sectors_per_cluster\<close> as the number of rounds of the sector loops.\<close>

definition spc :: "fs_state \<Rightarrow> nat" where
  "spc fs = unat (sectors_per_cluster (fs_bpb fs))"

definition cluster_to_lba :: "fs_state \<Rightarrow> u32 \<Rightarrow> u32" where
  "cluster_to_lba fs cluster = data_start fs + (cluster - 2) * ucast (sectors_per_cluster (fs_bpb fs))"

definition fat_sector :: "fs_state \<Rightarrow> u32 \<Rightarrow> u32" where
  "fat_sector fs cluster = fat_start fs + (cluster * 4) div 512"

definition ent_offset :: "u32 \<Rightarrow> nat" where
  "ent_offset cluster = unat ((cluster * 4) mod 512)"

definition next_cluster :: "'d blk \<Rightarrow> 'd \<Rightarrow> fs_state \<Rightarrow> u32 \<Rightarrow> u32" where
  "next_cluster io d fs cluster =
     (case blk_read io d (fat_sector fs cluster) of None \<Rightarrow> 0x0FFFFFFF
      | Some sector \<Rightarrow> rd32 sector (ent_offset cluster) AND 0x0FFFFFFF)"

definition set_cluster :: "'d blk \<Rightarrow> 'd \<Rightarrow> fs_state \<Rightarrow> u32 \<Rightarrow> u32 \<Rightarrow> bool \<times> 'd" where
  "set_cluster io d fs cluster v =
     (let fat_sec = fat_sector fs cluster in
      case blk_read io d fat_sec of None \<Rightarrow> (False, d)
      | Some sector \<Rightarrow>
        let sector = wr32 sector (ent_offset cluster) (v AND 0x0FFFFFFF) in
        case blk_write io d fat_sec sector of
          (False, d1) \<Rightarrow> (False, d1)
        | (True, d1) \<Rightarrow> blk_write io d1 (fat_sec + fat_size_32 (fs_bpb fs)) sector)"

text \<open>The sector loops of \<open>read_cluster\<close> and \<open>write_cluster\<close> over \<open>buffer + off\<close>.\<close>

fun read_cluster_loop :: "'d blk \<Rightarrow> 'd \<Rightarrow> u32 \<Rightarrow> u8 list \<Rightarrow> nat \<Rightarrow> nat list \<Rightarrow> (bool \<times> u8 list) option" where
  "read_cluster_loop io d lba buf off [] = Some (True, buf)"
| "read_cluster_loop io d lba buf off (s # ss) =
     (case blk_read io d (lba + of_nat s) of None \<Rightarrow> Some (False, buf)
      | Some bs \<Rightarrow>
          if off + s * 512 + 512 \<le> length buf
          then read_cluster_loop io d lba (splice buf (off + s * 512) bs) off ss
          else None)"

definition read_cluster :: "'d blk \<Rightarrow> 'd \<Rightarrow> fs_state \<Rightarrow> u32 \<Rightarrow> u8 list \<Rightarrow> nat \<Rightarrow> (bool \<times> u8 list) option" where
  "read_cluster io d fs cluster buf off =
     read_cluster_loop io d (cluster_to_lba fs cluster) buf off [0..<spc fs]"

definition write_cluster :: "'d blk \<Rightarrow> 'd \<Rightarrow> fs_state \<Rightarrow> u32 \<Rightarrow> u8 list \<Rightarrow> bool \<times> 'd" where
  "write_cluster io d fs cluster buf =
     (let lba = cluster_to_lba fs cluster in
      write_seq io d (map (\<lambda>s. (lba + of_nat s, subbuf buf (s * 512) 512)) [0..<spc fs]))"

fun first_free :: "'d blk \<Rightarrow> 'd \<Rightarrow> fs_state \<Rightarrow> nat list \<Rightarrow> u32" where
  "first_free io d fs [] = 0"
| "first_free io d fs (c # cs) =
     (if next_cluster io d fs (of_nat c) = 0 then of_nat c else first_free io d fs cs)"

text \<open>\<open>alloc_cluster\<close>: the first free cluster, marked end-of-chain; 0 when there is none.\<close>

definition alloc_cluster :: "'d blk \<Rightarrow> 'd \<Rightarrow> fs_state \<Rightarrow> u32 \<times> 'd" where
  "alloc_cluster io d fs =
     (let c = first_free io d fs [2..<unat (total_clusters fs + 2)] in
      if c = 0 then (0, d) else (c, snd (set_cluster io d fs c 0x0FFFFFFF)))"

partial_function (option) free_chain :: "'d blk \<Rightarrow> fs_state \<Rightarrow> 'd \<Rightarrow> u32 \<Rightarrow> 'd option" where
  "free_chain io fs d start =
     (if start \<noteq> 0 \<and> start \<noteq> 0x0FFFFFFF \<and> start < 0x0FFFFFF8
      then let nxt = next_cluster io d fs start
           in free_chain io fs (snd (set_cluster io d fs start 0)) nxt
      else Some d)"

section \<open>Names\<close>

definition upcase :: "u8 \<Rightarrow> u8" where
  "upcase c = (if 97 \<le> c \<and> c \<le> 122 then c - 32 else c)"

text \<open>\<open>while (name[i] && .. && j < lim) out[j++] = ..name[i++]..\<close>: the copied bytes and the
  index after the last one.\<close>

fun copy_name :: "bool \<Rightarrow> cstr \<Rightarrow> nat \<Rightarrow> nat \<Rightarrow> u8 list \<times> nat" where
  "copy_name stop_dot name i 0 = ([], i)"
| "copy_name stop_dot name i (Suc room) =
     (if cget name i \<noteq> 0 \<and> \<not> (stop_dot \<and> cget name i = 46)
      then let (out, j) = copy_name stop_dot name (i + 1) room in (upcase (cget name i) # out, j)
      else ([], i))"

definition pad :: "nat \<Rightarrow> u8 list \<Rightarrow> u8 list" where
  "pad n xs = xs @ replicate (n - length xs) 32"

definition name_to_83 :: "cstr \<Rightarrow> u8 list" where
  "name_to_83 name =
     (if cget name 0 = 46 \<and> cget name 1 = 0 then pad 11 [46]
      else if cget name 0 = 46 \<and> cget name 1 = 46 \<and> cget name 2 = 0 then pad 11 [46, 46]
      else
        let (base, i) = copy_name True name 0 8 in
        if cget name i = 46
        then pad 8 base @ pad 3 (fst (copy_name False name (i + 1) 3))
        else pad 11 base)"

definition name_from_83 :: "dir_entry \<Rightarrow> u8 list" where
  "name_from_83 e = takeWhile (\<lambda>c. c \<noteq> 32) (de_name e)
     @ (if de_ext e ! 0 \<noteq> 32 then 46 # takeWhile (\<lambda>c. c \<noteq> 32) (de_ext e) else [])"

section \<open>Directories\<close>

text \<open>What one pass over a sector, a cluster or a chain concludes.\<close>

datatype 'a scan = Stop 'a | More

text \<open>The search over the sixteen entries of a sector: a terminator ends it without a result.\<close>

fun find_in_sector :: "u8 list \<Rightarrow> u8 list \<Rightarrow> nat list \<Rightarrow> nat option scan" where
  "find_in_sector name83 sector [] = More"
| "find_in_sector name83 sector (i # is) =
     (let e = dir_slot sector i; first = de_name e ! 0 in
      if first = 0x00 then Stop None
      else if first = 0xE5 then find_in_sector name83 sector is
      else if de_attr e = ATTR_LONG_NAME then find_in_sector name83 sector is
      else if de_name e \<noteq> take 8 name83 then find_in_sector name83 sector is
      else if de_ext e \<noteq> drop 8 name83 then find_in_sector name83 sector is
      else Stop (Some i))"

type_synonym found = "dir_entry \<times> u32 \<times> u32"

fun find_in_cluster :: "'d blk \<Rightarrow> 'd \<Rightarrow> u8 list \<Rightarrow> u32 \<Rightarrow> nat list \<Rightarrow> found option scan" where
  "find_in_cluster io d name83 lba [] = More"
| "find_in_cluster io d name83 lba (s # ss) =
     (case blk_read io d (lba + of_nat s) of None \<Rightarrow> Stop None
      | Some sector \<Rightarrow>
        (case find_in_sector name83 sector [0..<16] of
           Stop None \<Rightarrow> Stop None
         | Stop (Some i) \<Rightarrow> Stop (Some (dir_slot sector i, lba + of_nat s, of_nat (i * 32)))
         | More \<Rightarrow> find_in_cluster io d name83 lba ss))"

partial_function (option) find_loop :: "'d blk \<Rightarrow> 'd \<Rightarrow> fs_state \<Rightarrow> u8 list \<Rightarrow> u32 \<Rightarrow> found option option" where
  "find_loop io d fs name83 cluster =
     (if cluster \<noteq> 0 \<and> cluster < 0x0FFFFFF8
      then (case find_in_cluster io d name83 (cluster_to_lba fs cluster) [0..<spc fs] of
              Stop r \<Rightarrow> Some r
            | More \<Rightarrow> find_loop io d fs name83 (next_cluster io d fs cluster))
      else Some None)"

definition find_entry :: "'d blk \<Rightarrow> 'd \<Rightarrow> fs_state \<Rightarrow> u32 \<Rightarrow> cstr \<Rightarrow> found option option" where
  "find_entry io d fs dir_cluster name = find_loop io d fs (name_to_83 name) dir_cluster"

text \<open>\<open>create_file_entry\<close> takes the first slot that is free or deleted.\<close>

fun free_slot :: "u8 list \<Rightarrow> nat list \<Rightarrow> nat option" where
  "free_slot sector [] = None"
| "free_slot sector (i # is) =
     (let first = de_name (dir_slot sector i) ! 0 in
      if first = 0x00 \<or> first = 0xE5 then Some i else free_slot sector is)"

definition new_entry :: "u8 list \<Rightarrow> u8 \<Rightarrow> u32 \<Rightarrow> dir_entry" where
  "new_entry name83 attr first_cluster =
     \<lparr>de_name = take 8 name83, de_ext = drop 8 name83, de_attr = attr, de_reserved = 0,
      create_time_tenth = 0, create_time = 0, create_date = 0, access_date = 0,
      cluster_high = ucast (drop_bit 16 first_cluster AND 0xFFFF), write_time = 0, write_date = 0,
      cluster_low = ucast (first_cluster AND 0xFFFF), file_size_f = 0\<rparr>"

fun create_in_cluster ::
  "'d blk \<Rightarrow> 'd \<Rightarrow> u8 list \<Rightarrow> u8 \<Rightarrow> u32 \<Rightarrow> u32 \<Rightarrow> nat list \<Rightarrow> (bool \<times> 'd) scan" where
  "create_in_cluster io d name83 attr fc lba [] = More"
| "create_in_cluster io d name83 attr fc lba (s # ss) =
     (case blk_read io d (lba + of_nat s) of None \<Rightarrow> Stop (False, d)
      | Some sector \<Rightarrow>
        (case free_slot sector [0..<16] of
           Some i \<Rightarrow> Stop (blk_write io d (lba + of_nat s) (set_slot sector i (new_entry name83 attr fc)))
         | None \<Rightarrow> create_in_cluster io d name83 attr fc lba ss))"

partial_function (option) create_loop ::
  "'d blk \<Rightarrow> fs_state \<Rightarrow> u8 list \<Rightarrow> u8 \<Rightarrow> u32 \<Rightarrow> 'd \<Rightarrow> u32 \<Rightarrow> (bool \<times> 'd) option" where
  "create_loop io fs name83 attr fc d cluster =
     (if cluster \<noteq> 0 \<and> cluster < 0x0FFFFFF8
      then (case create_in_cluster io d name83 attr fc (cluster_to_lba fs cluster) [0..<spc fs] of
              Stop r \<Rightarrow> Some r
            | More \<Rightarrow>
                let nxt = next_cluster io d fs cluster in
                if nxt = 0 \<or> nxt \<ge> 0x0FFFFFF8 then
                  (let (new_c, d) = alloc_cluster io d fs in
                   if new_c = 0 then Some (False, d)
                   else
                     let d = snd (set_cluster io d fs cluster new_c);
                         d = snd (set_cluster io d fs new_c 0x0FFFFFFF)
                     in create_loop io fs name83 attr fc d new_c)
                else create_loop io fs name83 attr fc d nxt)
      else Some (False, d))"

definition create_file_entry ::
  "'d blk \<Rightarrow> 'd \<Rightarrow> fs_state \<Rightarrow> u32 \<Rightarrow> cstr \<Rightarrow> u8 \<Rightarrow> u32 \<Rightarrow> (bool \<times> 'd) option" where
  "create_file_entry io d fs dir_cluster name attr fc =
     create_loop io fs (name_to_83 name) attr fc d dir_cluster"

section \<open>Files\<close>

definition entry_cluster :: "dir_entry \<Rightarrow> u32" where
  "entry_cluster e = push_bit 16 (ucast (cluster_high e)) OR ucast (cluster_low e)"

text \<open>\<open>read_file\<close> copies whole clusters to \<open>ptr = buffer + off\<close>.\<close>

partial_function (option) read_loop ::
  "'d blk \<Rightarrow> 'd \<Rightarrow> fs_state \<Rightarrow> u32 \<Rightarrow> u32 \<Rightarrow> nat \<Rightarrow> u8 list \<Rightarrow> (bool \<times> u8 list) option" where
  "read_loop io d fs cluster remaining off buf =
     (if cluster \<noteq> 0 \<and> cluster < 0x0FFFFFF8 \<and> remaining > 0
      then let to_read = (if remaining < bytes_per_cluster fs then remaining else bytes_per_cluster fs) in
           do { (ok, buf) \<leftarrow> read_cluster io d fs cluster buf off;
                if \<not> ok then Some (False, buf)
                else read_loop io d fs (next_cluster io d fs cluster) (remaining - to_read)
                       (off + unat to_read) buf }
      else Some (True, buf))"

text \<open>The Boolean, the buffer and, on success, \<open>*size_out\<close>.\<close>

definition read_file :: "'d blk \<Rightarrow> 'd \<Rightarrow> fs_state \<Rightarrow> cstr \<Rightarrow> u8 list \<Rightarrow> (bool \<times> u8 list \<times> u32) option" where
  "read_file io d fs path buffer =
     (if \<not> mounted fs then Some (False, buffer, 0)
      else if cget path 0 = 47 \<and> cget path 1 = 0 then Some (False, buffer, 0)
      else
        do { r \<leftarrow> find_entry io d fs (current_cluster fs) (skip_sep path);
             case r of None \<Rightarrow> Some (False, buffer, 0)
             | Some (entry, _, _) \<Rightarrow>
                 if de_attr entry AND ATTR_DIRECTORY \<noteq> 0 then Some (False, buffer, 0)
                 else
                   do { (ok, buf) \<leftarrow> read_loop io d fs (entry_cluster entry) (file_size_f entry) 0 buffer;
                        Some (ok, buf, if ok then file_size_f entry else 0) } })"

definition delete_file :: "'d blk \<Rightarrow> 'd \<Rightarrow> fs_state \<Rightarrow> cstr \<Rightarrow> (bool \<times> 'd) option" where
  "delete_file io d fs path =
     (if \<not> mounted fs then Some (False, d)
      else
        do { r \<leftarrow> find_entry io d fs (current_cluster fs) (skip_sep path);
             case r of None \<Rightarrow> Some (False, d)
             | Some (entry, lba, off) \<Rightarrow>
                 do { sector \<leftarrow> blk_read io d lba;
                      Some (blk_write io d lba (wr8 sector (32 * unat (off div 32)) 0xE5)) } })"

text \<open>The write loop: one fresh cluster for each \<open>bytes_per_cluster\<close> of data, linked to the one
  before.  \<open>cluster_buf\<close> has 4096 bytes; a larger cluster overruns it.  \<open>off\<close> is
  \<open>ptr - data\<close>; the results of \<open>set_cluster\<close> and \<open>write_cluster\<close> are not looked at.
  The result is \<open>first\<close>, or nothing when no cluster is free.\<close>

partial_function (option) write_loop ::
  "'d blk \<Rightarrow> fs_state \<Rightarrow> u8 list \<Rightarrow> 'd \<Rightarrow> u32 \<Rightarrow> u32 \<Rightarrow> u32 \<Rightarrow> nat \<Rightarrow> (u32 option \<times> 'd) option" where
  "write_loop io fs data d first prev remaining off =
     (if remaining > 0
      then let (c, d) = alloc_cluster io d fs in
           if c = 0 then Some (None, d)
           else
             let first = (if first = 0 then c else first);
                 d = (if prev \<noteq> 0 then snd (set_cluster io d fs prev c) else d);
                 to_write = (if remaining < bytes_per_cluster fs then remaining else bytes_per_cluster fs)
             in if unat (bytes_per_cluster fs) > 4096 \<or> off + unat to_write > length data then None
                else
                  let cluster_buf = splice (replicate (unat (bytes_per_cluster fs)) 0) 0
                                      (subbuf data off (unat to_write));
                      d = snd (write_cluster io d fs c cluster_buf)
                  in write_loop io fs data d first c (remaining - to_write) (off + unat to_write)
      else Some (Some first, d))"

definition write_file :: "'d blk \<Rightarrow> 'd \<Rightarrow> fs_state \<Rightarrow> cstr \<Rightarrow> u8 list \<Rightarrow> u32 \<Rightarrow> (bool \<times> 'd) option" where
  "write_file io d fs path data sz =
     (if \<not> mounted fs then Some (False, d)
      else
        let path = skip_sep path in
        do { r \<leftarrow> find_entry io d fs (current_cluster fs) path;
             d \<leftarrow> (case r of None \<Rightarrow> Some d
                   | Some (old, _, _) \<Rightarrow>
                       do { d \<leftarrow> (if entry_cluster old \<ge> 2 then free_chain io fs d (entry_cluster old) else Some d);
                            (_, d) \<leftarrow> delete_file io d fs path;
                            Some d });
             (first, d) \<leftarrow> write_loop io fs data d 0 0 sz 0;
             case first of None \<Rightarrow> Some (False, d)
             | Some first \<Rightarrow>
                 do { (ok, d) \<leftarrow> create_file_entry io d fs (current_cluster fs) path ATTR_ARCHIVE first;
                      if \<not> ok then Some (False, d)
                      else
                        do { r \<leftarrow> find_entry io d fs (current_cluster fs) path;
                             case r of None \<Rightarrow> Some (True, d)
                             | Some (_, lba, off) \<Rightarrow>
                                 do { sector \<leftarrow> blk_read io d lba;
                                      Some (True, snd (blk_write io d lba
                                        (wr32 sector (32 * unat (off div 32) + 28) sz))) } } } })"

definition dot_entry :: "u8 list \<Rightarrow> u32 \<Rightarrow> dir_entry" where
  "dot_entry nm c = (new_entry (pad 11 nm) ATTR_DIRECTORY c)"

definition create_dir :: "'d blk \<Rightarrow> 'd \<Rightarrow> fs_state \<Rightarrow> cstr \<Rightarrow> (bool \<times> 'd) option" where
  "create_dir io d fs path =
     (if \<not> mounted fs then Some (False, d)
      else
        let path = skip_sep path; (c, d) = alloc_cluster io d fs in
        if c = 0 then Some (False, d)
        else if unat (bytes_per_cluster fs) > 4096 then None
        else
          let buf = replicate (unat (bytes_per_cluster fs)) 0;
              buf = splice buf 0 (bytes_of_entry (dot_entry [46] c));
              buf = splice buf 32 (bytes_of_entry (dot_entry [46, 46] (current_cluster fs)));
              d = snd (write_cluster io d fs c buf)
          in create_file_entry io d fs (current_cluster fs) path ATTR_DIRECTORY c)"

definition file_exists :: "'d blk \<Rightarrow> 'd \<Rightarrow> fs_state \<Rightarrow> cstr \<Rightarrow> bool option" where
  "file_exists io d fs path =
     (if \<not> mounted fs then Some False
      else map_option (\<lambda>r. r \<noteq> None) (find_entry io d fs (current_cluster fs) (skip_sep path)))"

definition file_size :: "'d blk \<Rightarrow> 'd \<Rightarrow> fs_state \<Rightarrow> cstr \<Rightarrow> u32 option" where
  "file_size io d fs path =
     (if \<not> mounted fs then Some 0
      else map_option (\<lambda>r. case r of None \<Rightarrow> 0 | Some (e, _, _) \<Rightarrow> file_size_f e)
             (find_entry io d fs (current_cluster fs) (skip_sep path)))"

section \<open>Paths\<close>

definition enter :: "fs_state \<Rightarrow> u32 \<Rightarrow> fs_state" where
  "enter fs c = fs\<lparr>current_cluster := (if c = 0 then root_cluster fs else c)\<rparr>"

definition push_path :: "fs_state \<Rightarrow> cstr \<Rightarrow> fs_state" where
  "push_path fs cmp =
     (let ps = fs_path fs in
      if depth ps < 32
      then fs\<lparr>fs_path := \<lparr>names = (names ps)[depth ps := take 12 cmp],
             clusters = (clusters ps)[depth ps := current_cluster fs], depth = depth ps + 1\<rparr>\<rparr>
      else fs)"

definition pop_path :: "fs_state \<Rightarrow> fs_state" where
  "pop_path fs = (if depth (fs_path fs) > 0 then fs\<lparr>fs_path := (fs_path fs)\<lparr>depth := depth (fs_path fs) - 1\<rparr>\<rparr> else fs)"

function cd_loop :: "'d blk \<Rightarrow> 'd \<Rightarrow> fs_state \<Rightarrow> cstr \<Rightarrow> (bool \<times> fs_state) option" where
  "cd_loop io d fs p =
     (if p = [] then Some (True, fs)
      else
        let cmp = comp_of p; rest = after_comp p in
        if cmp = [] then cd_loop io d fs rest
        else if cmp = [46] then cd_loop io d fs rest
        else if cmp = [46, 46] then
          (if current_cluster fs = root_cluster fs then cd_loop io d fs rest
           else
             case find_entry io d fs (current_cluster fs) [46, 46] of
               None \<Rightarrow> None
             | Some None \<Rightarrow> cd_loop io d fs rest
             | Some (Some (e, _, _)) \<Rightarrow> cd_loop io d (pop_path (enter fs (entry_cluster e))) rest)
        else
          case find_entry io d fs (current_cluster fs) cmp of
            None \<Rightarrow> None
          | Some None \<Rightarrow> Some (False, fs)
          | Some (Some (e, _, _)) \<Rightarrow>
              if de_attr e AND ATTR_DIRECTORY = 0 then Some (False, fs)
              else cd_loop io d (push_path (enter fs (entry_cluster e)) cmp) rest)"
  by pat_completeness auto
termination
  by (relation "measure (\<lambda>(io, d, fs, p). length p)") (auto simp: length_after_comp)

definition restore_path :: "fs_state \<Rightarrow> fs_state \<Rightarrow> fs_state" where
  "restore_path old fs =
     (let n = depth (fs_path old) in
      fs\<lparr>current_cluster := current_cluster old,
         fs_path := \<lparr>names = take n (names (fs_path old)) @ drop n (names (fs_path fs)),
           clusters = take n (clusters (fs_path old)) @ drop n (clusters (fs_path fs)), depth = n\<rparr>\<rparr>)"

text \<open>A null \<open>path\<close> is \<open>None\<close>.\<close>

definition cd :: "'d blk \<Rightarrow> 'd \<Rightarrow> fs_state \<Rightarrow> cstr option \<Rightarrow> (bool \<times> fs_state) option" where
  "cd io d fs path_opt =
     (case path_opt of None \<Rightarrow> Some (False, fs)
      | Some path \<Rightarrow>
        if \<not> mounted fs then Some (False, fs)
        else
          do { (ok, fs1) \<leftarrow>
                 (if is_sep (cget path 0)
                  then cd_loop io d (fs\<lparr>current_cluster := root_cluster fs,
                                        fs_path := (fs_path fs)\<lparr>depth := 0\<rparr>\<rparr>) (tl path)
                  else cd_loop io d fs path);
               Some (if ok then (True, fs1) else (False, restore_path fs fs1)) })"

definition get_path :: "fs_state \<Rightarrow> nat \<Rightarrow> cstr option" where
  "get_path fs n = path_text (take (depth (fs_path fs)) (names (fs_path fs))) n"

definition pwd :: "fs_state \<Rightarrow> u8 list option" where
  "pwd fs = get_path fs 512"

section \<open>Listing\<close>

definition line_of :: "dir_entry \<Rightarrow> u8 list" where
  "line_of e =
     (let isdir = de_attr e AND ATTR_DIRECTORY \<noteq> 0; nm = takeWhile (\<lambda>c. c \<noteq> 0) (name_from_83 e) in
      (if isdir then ascii ''  [DIR]  '' else ascii ''  [FILE] '') @ nm
      @ (if isdir then []
         else replicate (14 - length nm) 32 @ print_dec (file_size_f e) @ ascii '' bytes'') @ [10])"

text \<open>The text so far and the number of entries printed; a terminator ends the listing.\<close>

fun list_sector :: "u8 list \<Rightarrow> nat list \<Rightarrow> u8 list \<times> nat \<Rightarrow> (u8 list \<times> nat) \<times> bool" where
  "list_sector sector [] (out, n) = ((out, n), False)"
| "list_sector sector (i # is) (out, n) =
     (let e = dir_slot sector i; first = de_name e ! 0 in
      if first = 0x00 then
        ((out @ 10 # ascii ''Total: '' @ print_dec (of_nat n) @ ascii '' entries'' @ [10], n), True)
      else if first = 0xE5 then list_sector sector is (out, n)
      else if de_attr e = ATTR_LONG_NAME then list_sector sector is (out, n)
      else if de_attr e AND ATTR_VOLUME_ID \<noteq> 0 then list_sector sector is (out, n)
      else list_sector sector is (out @ line_of e, n + 1))"

fun list_cluster :: "'d blk \<Rightarrow> 'd \<Rightarrow> u32 \<Rightarrow> nat list \<Rightarrow> u8 list \<times> nat \<Rightarrow> (u8 list \<times> nat) \<times> bool" where
  "list_cluster io d lba [] acc = (acc, False)"
| "list_cluster io d lba (s # ss) acc =
     (case blk_read io d (lba + of_nat s) of None \<Rightarrow> (acc, True)
      | Some sector \<Rightarrow>
        (case list_sector sector [0..<16] acc of
           (acc, True) \<Rightarrow> (acc, True)
         | (acc, False) \<Rightarrow> list_cluster io d lba ss acc))"

partial_function (option) list_loop ::
  "'d blk \<Rightarrow> 'd \<Rightarrow> fs_state \<Rightarrow> u32 \<Rightarrow> u8 list \<times> nat \<Rightarrow> u8 list option" where
  "list_loop io d fs cluster acc =
     (if cluster \<noteq> 0 \<and> cluster < 0x0FFFFFF8
      then (let (acc, done) = list_cluster io d (cluster_to_lba fs cluster) [0..<spc fs] acc in
            if done then Some (fst acc) else list_loop io d fs (next_cluster io d fs cluster) acc)
      else Some (fst acc))"

definition list_dir :: "'d blk \<Rightarrow> 'd \<Rightarrow> fs_state \<Rightarrow> cstr option \<Rightarrow> u8 list option" where
  "list_dir io d fs path_opt =
     (if \<not> mounted fs then Some (ascii ''FAT32 not mounted'' @ [10])
      else
        let path = (case path_opt of None \<Rightarrow> [] | Some p \<Rightarrow> p) in
        if path \<noteq> [] \<and> \<not> (cget path 0 = 47 \<and> cget path 1 = 0)
        then do { r \<leftarrow> find_entry io d fs (current_cluster fs) (skip_sep path);
                  case r of None \<Rightarrow> Some (ascii ''Directory not found'' @ [10])
                  | Some (e, _, _) \<Rightarrow>
                      if de_attr e AND ATTR_DIRECTORY = 0 then Some (ascii ''Not a directory'' @ [10])
                      else list_loop io d fs (entry_cluster e) ([], 0) }
        else list_loop io d fs (current_cluster fs) ([], 0))"

section \<open>Formatting\<close>

definition choose_spc :: "u32 \<Rightarrow> u8" where
  "choose_spc n = (if n \<ge> 260000 then 8 else if n \<ge> 65000 then 4 else if n \<ge> 16000 then 2 else 1)"

definition fat_sectors_for :: "u32 \<Rightarrow> u32" where
  "fat_sectors_for cluster_count = ((cluster_count + 2) * 4 + 511) div 512"

definition clusters_for :: "u32 \<Rightarrow> u8 \<Rightarrow> u32 \<Rightarrow> u32" where
  "clusters_for total_sectors s fat_size = (total_sectors - 32 - 2 * fat_size) div ucast s"

text \<open>Up to \<open>n\<close> rounds of the fixed-point iteration: cluster count and FAT size.\<close>

fun size_fat :: "nat \<Rightarrow> u32 \<Rightarrow> u8 \<Rightarrow> u32 \<Rightarrow> u32 \<Rightarrow> u32 \<times> u32" where
  "size_fat 0 total_sectors s cluster_count fat_size = (cluster_count, fat_size)"
| "size_fat (Suc n) total_sectors s cluster_count fat_size =
     (let fat_size = fat_sectors_for cluster_count;
          new_cc = clusters_for total_sectors s fat_size
      in if new_cc = cluster_count then (cluster_count, fat_size)
         else size_fat n total_sectors s new_cc fat_size)"

definition fat_layout :: "u32 \<Rightarrow> u32 \<times> u32" where
  "fat_layout n = size_fat 8 n (choose_spc n) ((n - 32) div (ucast (choose_spc n) + 2)) 0"

definition boot_sector :: "u8 \<Rightarrow> u32 \<Rightarrow> u32 \<Rightarrow> u8 list" where
  "boot_sector s total_sectors fat_size =
     [0xEB, 0x58, 0x90] @ ascii ''MSWIN4.1'' @ le16 512 @ [s] @ le16 32 @ [2] @ [0, 0] @ [0, 0] @ [0xF8] @ [0, 0]
     @ [0x20, 0x00] @ [0x40, 0x00] @ [0, 0, 0, 0] @ le32 total_sectors @ le32 fat_size
     @ [0, 0] @ [0, 0] @ [2, 0, 0, 0] @ [1, 0] @ [6, 0] @ replicate 12 0 @ [0x80] @ [0] @ [0x29]
     @ [0x12, 0x34, 0x56, 0x78] @ ascii ''PODUMATOS  '' @ ascii ''FAT32   '' @ replicate 420 0 @ [0x55, 0xAA]"

definition fsinfo_sector :: "u8 list" where
  "fsinfo_sector = [0x52, 0x52, 0x61, 0x41] @ replicate 480 0 @ replicate 8 0xFF @ replicate 18 0 @ [0x55, 0xAA]"

definition first_fat_sector :: "u8 list" where
  "first_fat_sector = [0xF8, 0xFF, 0xFF, 0x0F, 0xFF, 0xFF, 0xFF, 0x0F, 0xFF, 0xFF, 0xFF, 0x0F] @ replicate 500 0"

text \<open>The unchecked writes of \<open>format\<close>, in its order.\<close>

definition format_writes :: "u32 \<Rightarrow> u8 \<Rightarrow> u32 \<Rightarrow> (u32 \<times> u8 list) list" where
  "format_writes plba s fat_size =
     (let fat_start_v = plba + 32; fat2_start = fat_start_v + fat_size; z = replicate 512 0;
          root_lba = fat_start_v + 2 * fat_size
      in (plba + 1, fsinfo_sector) # (fat_start_v, first_fat_sector) # (fat2_start, first_fat_sector)
         # concat (map (\<lambda>i. [(fat_start_v + of_nat i, z), (fat2_start + of_nat i, z)]) [1..<unat fat_size])
         @ map (\<lambda>i. (root_lba + of_nat i, z)) [0..<unat s])"

definition format :: "'d blk \<Rightarrow> 'd \<Rightarrow> u32 \<Rightarrow> u32 \<Rightarrow> bool \<times> 'd" where
  "format io d plba sector_count =
     (if \<not> blk_present io d then (False, d)
      else if sector_count < MIN_SECTORS then (False, d)
      else
        let s = choose_spc sector_count; (cluster_count, fat_size) = fat_layout sector_count in
        if cluster_count < 16 then (False, d)
        else
          let bs = boot_sector s sector_count fat_size in
          case write_seq io d [(plba, bs), (plba + 6, bs)] of
            (False, d) \<Rightarrow> (False, d)
          | (True, d) \<Rightarrow> (True, snd (blk_flush io (write_all io (format_writes plba s fat_size) d))))"

end
