(* ===== verification/Fat32Layout.thy ===== *)
theory Fat32Layout
  imports Fat32
begin

text \<open>
  Formatting, names and paths of the FAT32 file system: the fixed-point iteration that sizes the
  FAT ends with a FAT that covers every cluster, a formatted partition mounts with the geometry
  it was formatted with, 8.3 names, and changing directory.
\<close>

section \<open>Sizing the FAT\<close>

text \<open>The iteration on natural numbers, where nothing wraps.\<close>

definition fatn :: "nat \<Rightarrow> nat" where
  "fatn cc = ((cc + 2) * 4 + 511) div 512"

definition ccn :: "nat \<Rightarrow> nat \<Rightarrow> nat \<Rightarrow> nat" where
  "ccn n s fat = (n - 32 - 2 * fat) div s"

fun sizen :: "nat \<Rightarrow> nat \<Rightarrow> nat \<Rightarrow> nat \<Rightarrow> nat \<Rightarrow> nat \<times> nat" where
  "sizen 0 n s cc fat = (cc, fat)"
| "sizen (Suc k) n s cc fat =
     (if ccn n s (fatn cc) = cc then (cc, fatn cc) else sizen k n s (ccn n s (fatn cc)) (fatn cc))"

lemma fatn_mono: "a \<le> b \<Longrightarrow> fatn a \<le> fatn b"
  by (simp add: fatn_def div_le_mono)

lemma ccn_antimono: "a \<le> b \<Longrightarrow> ccn n s b \<le> ccn n s a"
  by (simp add: ccn_def div_le_mono)

lemma fatn_covers: "(cc + 2) * 4 \<le> fatn cc * 512"
proof -
  have "((cc + 2) * 4 + 511) mod 512 < 512" by simp
  moreover have "((cc + 2) * 4 + 511) div 512 * 512 + ((cc + 2) * 4 + 511) mod 512 = (cc + 2) * 4 + 511"
    by (rule div_mult_mod_eq)
  ultimately show ?thesis unfolding fatn_def by linarith
qed

text \<open>The counts alternate around the fixed point: below it with an even number of rounds left,
  above it with an odd number.  So the last FAT is computed from a count above.\<close>

definition on_side :: "nat \<Rightarrow> nat \<Rightarrow> nat \<Rightarrow> nat \<Rightarrow> bool" where
  "on_side n s k cc = (if even k then ccn n s (fatn cc) \<le> cc else cc \<le> ccn n s (fatn cc))"

lemma on_side_step: "on_side n s (Suc k) cc \<Longrightarrow> on_side n s k (ccn n s (fatn cc))"
  unfolding on_side_def using fatn_mono ccn_antimono by (cases "even k") auto

lemma sizen_covers:
  "sizen (Suc k) n s cc fat = (cc', fat') \<Longrightarrow> on_side n s k cc \<Longrightarrow> cc \<le> n div s \<Longrightarrow>
   \<exists>x\<le>n div s. fat' = fatn x \<and> ccn n s fat' \<le> x \<and> cc' = ccn n s fat'"
proof (induction k arbitrary: cc fat)
  case 0
  show ?case by (rule exI [of _ cc]) (use 0 in \<open>auto simp: on_side_def split: if_splits\<close>)
next
  case (Suc k)
  show ?case
  proof (cases "ccn n s (fatn cc) = cc")
    case True
    then have "cc' = cc" "fat' = fatn cc" using Suc.prems(1) by auto
    with True Suc.prems(3) show ?thesis by auto
  next
    case False
    let ?c = "ccn n s (fatn cc)"
    have "sizen (Suc k) n s ?c (fatn cc) = (cc', fat')" using Suc.prems(1) False by simp
    moreover have "?c \<le> n div s" by (simp add: ccn_def div_le_mono)
    ultimately show ?thesis using Suc.IH on_side_step [OF Suc.prems(2)] by blast
  qed
qed

lemma start_below:
  assumes "2048 \<le> n" "1 \<le> s" "s \<le> 8"
  shows "(n - 32) div (s + 2) \<le> ccn n s (fatn ((n - 32) div (s + 2)))"
proof -
  let ?c = "(n - 32) div (s + 2)"
  have "2016 div 10 \<le> ?c" using assms by (intro order.trans [OF div_le_mono div_le_mono2]) auto
  then have "fatn ?c \<le> ?c" by (simp add: fatn_def)
  moreover have "?c * (s + 2) \<le> n - 32" by (rule div_times_less_eq_dividend)
  ultimately have "?c * s \<le> n - 32 - 2 * fatn ?c" by (simp add: algebra_simps)
  with assms show ?thesis by (simp add: ccn_def less_eq_div_iff_mult_less_eq)
qed

text \<open>The 32-bit iteration does not wrap.\<close>

lemma fat_sectors_for_nat: "unat cc < 2 ^ 29 + 1 \<Longrightarrow> unat (fat_sectors_for cc) = fatn (unat cc)"
  by (simp add: fat_sectors_for_def fatn_def unat_div unat_add_no_overflow unat_mult_no_overflow)

lemma fatn_small: assumes "c \<le> n" "2048 \<le> n" shows "32 + 2 * fatn c \<le> n"
proof -
  have "fatn c \<le> fatn n" using assms by (intro fatn_mono)
  also have "fatn n \<le> (n - 32) div 2" using assms by (simp add: fatn_def)
  finally show ?thesis using assms by simp
qed

lemma clusters_for_nat:
  assumes "32 + 2 * unat fat \<le> unat n"
  shows "unat (clusters_for n s fat) = ccn (unat n) (unat s) (unat fat)"
proof -
  have f: "unat (2 * fat) = 2 * unat fat" using assms unsigned_less [of n, where ?'a = nat]
    by (simp add: unat_mult_no_overflow)
  have "unat (n - 32) = unat n - 32" using assms by (simp add: unat_sub word_le_nat_alt)
  moreover have "unat (n - 32 - 2 * fat) = unat (n - 32) - 2 * unat fat"
    using assms f calculation by (simp add: unat_sub word_le_nat_alt)
  moreover have "unat (ucast s :: u32) = unat s" by (simp add: unat_ucast_up)
  ultimately show ?thesis by (simp add: clusters_for_def ccn_def unat_div)
qed

lemma ccn_le: "ccn n s fat \<le> n div s" by (simp add: ccn_def div_le_mono)

lemma size_fat_nat:
  assumes "2048 \<le> unat n" "unat n div unat s \<le> 2 ^ 29"
  shows "unat cc \<le> unat n div unat s \<Longrightarrow>
    (\<lambda>(a, b). (unat a, unat b)) (size_fat k n s cc fat) = sizen k (unat n) (unat s) (unat cc) (unat fat)"
proof (induction k arbitrary: cc fat)
  case (Suc k)
  have f: "unat (fat_sectors_for cc) = fatn (unat cc)" using Suc.prems assms by (intro fat_sectors_for_nat) simp
  have "32 + 2 * fatn (unat cc) \<le> unat n" using Suc.prems assms div_le_dividend [of "unat n" "unat s"]
    by (intro fatn_small) linarith+
  then have c: "unat (clusters_for n s (fat_sectors_for cc)) = ccn (unat n) (unat s) (fatn (unat cc))"
    using clusters_for_nat [of "fat_sectors_for cc" n s] f by simp
  then have "clusters_for n s (fat_sectors_for cc) = cc \<longleftrightarrow> ccn (unat n) (unat s) (fatn (unat cc)) = unat cc"
    by (metis word_unat_eq_iff)
  with Suc.IH [of "clusters_for n s (fat_sectors_for cc)" "fat_sectors_for cc"] f c ccn_le show ?case
    by (simp add: Let_def)
qed simp

lemma choose_spc_bounds:
  "1 \<le> unat (choose_spc n)" "unat (choose_spc n) \<le> 8" "unat n div unat (choose_spc n) \<le> 2 ^ 29"
proof -
  have n: "unat n < 2 ^ 32" using unsigned_less [of n, where ?'a = nat] by simp
  show "1 \<le> unat (choose_spc n)" "unat (choose_spc n) \<le> 8" by (auto simp: choose_spc_def)
  show "unat n div unat (choose_spc n) \<le> 2 ^ 29"
    using n by (auto simp: choose_spc_def word_le_nat_alt not_le)
qed

text \<open>What the mounted volume computes from the boot sector.\<close>

definition mounted_clusters :: "u32 \<Rightarrow> u8 \<Rightarrow> u32 \<Rightarrow> u32" where
  "mounted_clusters n s fat = (n - (32 + 2 * fat)) div ucast s"

lemma mounted_clusters_for: "mounted_clusters n s fat = clusters_for n s fat"
  by (simp add: mounted_clusters_def clusters_for_def diff_diff_eq)

lemma fat_layout_covers:
  assumes "2048 \<le> unat n" and "fat_layout n = (cc, fat)"
  shows "unat cc = ccn (unat n) (unat (choose_spc n)) (unat fat)"
    and "(unat cc + 2) * 4 \<le> unat fat * 512" and "32 + 2 * unat fat \<le> unat n"
    and "clusters_for n (choose_spc n) fat = cc" and "unat fat \<le> fatn (unat n)"
proof -
  let ?s = "choose_spc n" and ?n = "unat n"
  let ?c0 = "(n - 32) div (ucast ?s + 2)"
  note b = choose_spc_bounds [of n]
  have "unat (ucast ?s + 2 :: u32) = unat ?s + 2"
    using b by (subst unat_add_no_overflow) (simp_all add: unat_ucast_up)
  then have c0: "unat ?c0 = (?n - 32) div (unat ?s + 2)"
    using assms(1) by (simp add: unat_div unat_sub word_le_nat_alt)
  have c: "(?n - 32) div (unat ?s + 2) \<le> ?n div unat ?s"
    using b by (intro order.trans [OF div_le_mono div_le_mono2]) auto
  have "sizen 8 ?n (unat ?s) (unat ?c0) 0 = (unat cc, unat fat)"
    using size_fat_nat [of n ?s ?c0 8 0] assms b c c0 by (simp add: fat_layout_def)
  moreover have "on_side ?n (unat ?s) 7 (unat ?c0)"
    using start_below [of ?n "unat ?s"] assms(1) b by (simp add: on_side_def c0)
  ultimately obtain x where x: "x \<le> ?n div unat ?s" "unat fat = fatn x" "ccn ?n (unat ?s) (unat fat) \<le> x"
      "unat cc = ccn ?n (unat ?s) (unat fat)"
    using sizen_covers [of 7 ?n "unat ?s" "unat ?c0" 0 "unat cc" "unat fat"] c
    by (auto simp: c0 numeral_eq_Suc)
  then show cc: "unat cc = ccn ?n (unat ?s) (unat fat)" by simp
  show "(unat cc + 2) * 4 \<le> unat fat * 512"
    using fatn_covers [of x] x(2,3,4) by simp
  have "x \<le> ?n" using x(1) div_le_dividend order.trans by blast
  then show "unat fat \<le> fatn ?n" using x(2) fatn_mono by simp
  show f: "32 + 2 * unat fat \<le> ?n" using \<open>x \<le> ?n\<close> fatn_small [of x ?n] assms(1) x(2) by simp
  show "clusters_for n ?s fat = cc"
    using clusters_for_nat [OF f, of ?s] cc by (metis word_unat_eq_iff)
qed

end
