(* ===== verification/Fat32Vol.thy ===== *)
theory Fat32Vol
  imports Fat32Layout
begin

text \<open>
  A mounted FAT32 volume on a device without faults: what \<open>next_cluster\<close> reads after
  \<open>set_cluster\<close>, which sectors a cluster owns, allocation, chains and freeing them, and the
  volume that formatting and mounting give.
\<close>

section \<open>Geometry\<close>

text \<open>The FAT covers the clusters, two copies of it lie before the data area, everything lies
  inside the first \<open>lim\<close> sectors, and no cluster number reads as an end of chain.\<close>

definition fs_geom :: "nat \<Rightarrow> fs_state \<Rightarrow> bool" where
  "fs_geom lim fs \<longleftrightarrow>
     lim \<le> 2 ^ 32 \<and> 1 \<le> spc fs \<and> unat (bytes_per_cluster fs) = 512 * spc fs
     \<and> unat (fat_start fs) + 2 * unat (fat_size_32 (fs_bpb fs)) = unat (data_start fs)
     \<and> unat (data_start fs) + unat (total_clusters fs) * spc fs \<le> lim
     \<and> (unat (total_clusters fs) + 2) * 4 \<le> unat (fat_size_32 (fs_bpb fs)) * 512
     \<and> unat (total_clusters fs) + 2 \<le> 0x0FFFFFF0"

definition valid :: "fs_state \<Rightarrow> u32 \<Rightarrow> bool" where
  "valid fs c \<longleftrightarrow> 2 \<le> unat c \<and> unat c < unat (total_clusters fs) + 2"

abbreviation fatsz :: "fs_state \<Rightarrow> nat" where
  "fatsz fs \<equiv> unat (fat_size_32 (fs_bpb fs))"

lemma entry_aligned: "n * 4 mod 512 = n mod 128 * (4 :: nat)"
  using mod_mult_mult2 [of n 4 128] by simp

lemma valid_entry:
  assumes "fs_geom lim fs" "valid fs c"
  shows "unat (fat_sector fs c) = unat (fat_start fs) + unat c * 4 div 512"
    and "unat c * 4 div 512 < fatsz fs"
    and "ent_offset c = unat c * 4 mod 512" and "ent_offset c + 4 \<le> 512"
    and "unat (fat_sector fs c) < lim" and "unat (fat_sector fs c + fat_size_32 (fs_bpb fs)) < lim"
    and "unat (fat_sector fs c + fat_size_32 (fs_bpb fs)) = unat (fat_start fs) + unat c * 4 div 512 + fatsz fs"
proof -
  let ?k = "unat c * 4 div 512"
  have c: "unat c * 4 < fatsz fs * 512" "unat c < 2 ^ 28" using assms by (auto simp: fs_geom_def valid_def)
  then show k: "?k < fatsz fs" by (simp add: div_less_iff_less_mult)
  have "unat (c * 4) = unat c * 4" using c by (simp add: unat_mult_no_overflow)
  then have d: "unat ((c * 4) div 512) = ?k" and m: "unat ((c * 4) mod 512) = unat c * 4 mod 512"
    by (simp_all add: unat_div unat_mod)
  show e: "ent_offset c = unat c * 4 mod 512" by (simp add: ent_offset_def m)
  show "ent_offset c + 4 \<le> 512" unfolding e entry_aligned
    using mod_less_divisor [of 128 "unat c"] by linarith
  have b: "unat (fat_start fs) + 2 * fatsz fs \<le> lim" "lim \<le> 2 ^ 32" using assms by (auto simp: fs_geom_def)
  show f: "unat (fat_sector fs c) = unat (fat_start fs) + ?k"
    unfolding fat_sector_def using k b d by (subst unat_add_no_overflow) auto
  show g: "unat (fat_sector fs c + fat_size_32 (fs_bpb fs)) = unat (fat_start fs) + ?k + fatsz fs"
    using k b f by (subst unat_add_no_overflow) auto
  show "unat (fat_sector fs c) < lim" "unat (fat_sector fs c + fat_size_32 (fs_bpb fs)) < lim"
    using f g k b by linarith+
qed

lemma valid_lba:
  assumes "fs_geom lim fs" "valid fs c" "s < spc fs"
  shows "unat (cluster_to_lba fs c + of_nat s) = unat (data_start fs) + (unat c - 2) * spc fs + s"
    and "unat (cluster_to_lba fs c + of_nat s) < lim"
    and "unat (data_start fs) \<le> unat (cluster_to_lba fs c + of_nat s)"
proof -
  have c: "2 \<le> unat c" "unat c - 2 < unat (total_clusters fs)" using assms by (auto simp: valid_def)
  have "(unat c - 2) * spc fs + spc fs = (unat c - 2 + 1) * spc fs" by (simp add: algebra_simps)
  also have "\<dots> \<le> unat (total_clusters fs) * spc fs" using c by (intro mult_le_mono) auto
  finally have b: "unat (data_start fs) + (unat c - 2) * spc fs + s < lim" "lim \<le> 2 ^ 32"
    using assms(1,3) by (auto simp: fs_geom_def)
  have "unat (c - 2) = unat c - 2" using c by (simp add: unat_sub word_le_nat_alt)
  moreover have "unat (ucast (sectors_per_cluster (fs_bpb fs)) :: u32) = spc fs" by (simp add: spc_def unat_ucast_up)
  ultimately have "unat ((c - 2) * ucast (sectors_per_cluster (fs_bpb fs))) = (unat c - 2) * spc fs"
    using b by (subst unat_mult_no_overflow) auto
  then have "unat (cluster_to_lba fs c) = unat (data_start fs) + (unat c - 2) * spc fs"
    unfolding cluster_to_lba_def using b by (subst unat_add_no_overflow) auto
  moreover have "unat (of_nat s :: u32) = s" using b by (simp add: unat_of_nat_eq)
  ultimately show u: "unat (cluster_to_lba fs c + of_nat s) = unat (data_start fs) + (unat c - 2) * spc fs + s"
    using b by (subst unat_add_no_overflow) auto
  show "unat (cluster_to_lba fs c + of_nat s) < lim" "unat (data_start fs) \<le> unat (cluster_to_lba fs c + of_nat s)"
    using u b by auto
qed

text \<open>The sectors of different clusters are different.\<close>

lemma lba_inj:
  assumes "fs_geom lim fs" "valid fs c" "valid fs c'" "s < spc fs" "s' < spc fs"
    and "cluster_to_lba fs c + of_nat s = cluster_to_lba fs c' + of_nat s'"
  shows "c = c' \<and> s = s'"
proof -
  have e: "(unat c - 2) * spc fs + s = (unat c' - 2) * spc fs + s'"
    using valid_lba(1) [OF assms(1,2,4)] valid_lba(1) [OF assms(1,3,5)] assms(6) by simp
  have "((unat c - 2) * spc fs + s) div spc fs = unat c - 2" "((unat c' - 2) * spc fs + s') div spc fs = unat c' - 2"
    using assms(4,5) by simp_all
  with e have "unat c - 2 = unat c' - 2" by simp
  with assms(2,3) have "unat c = unat c'" unfolding valid_def by linarith
  with e show ?thesis by (simp add: word_unat_eq_iff)
qed

abbreviation EOC :: u32 where "EOC \<equiv> 0x0FFFFFFF"

lemma valid_mask: "fs_geom lim fs \<Longrightarrow> valid fs c \<Longrightarrow> c AND 0x0FFFFFFF = c"
proof -
  assume "fs_geom lim fs" "valid fs c"
  then have "unat c < 2 ^ 28" by (simp add: fs_geom_def valid_def)
  then have "take_bit 28 c = c" by (metis take_bit_nat_eq_self unsigned_take_bit_eq word_unat_eq_iff)
  moreover have "(0x0FFFFFFF :: u32) = mask 28" by (simp add: mask_eq_exp_minus_1)
  ultimately show ?thesis by (simp add: take_bit_eq_mask)
qed

lemma valid_below: "fs_geom lim fs \<Longrightarrow> valid fs c \<Longrightarrow> c \<noteq> 0 \<and> c < 0x0FFFFFF8 \<and> c \<noteq> EOC"
  by (auto simp: fs_geom_def valid_def word_less_nat_alt)

section \<open>The FAT\<close>

lemma rd32_wr32:
  "o1 + 4 \<le> length bs \<Longrightarrow> o2 + 4 \<le> length bs \<Longrightarrow> o1 mod 4 = 0 \<Longrightarrow> o2 mod 4 = 0 \<Longrightarrow>
   rd32 (wr32 bs o1 v) o2 = (if o2 = o1 then v else rd32 bs o2)"
proof (cases "o2 = o1")
  case False
  assume a: "o1 + 4 \<le> length bs" "o2 + 4 \<le> length bs" "o1 mod 4 = 0" "o2 mod 4 = 0"
  with False have "o2 + 4 \<le> o1 \<or> o1 + 4 \<le> o2" by presburger
  with a False show ?thesis by (simp add: wr32_def rd_splice_other)
qed (simp add: buf_simps)

context reliable_device
begin

lemma next_sec:
  "good d \<Longrightarrow> fs_geom lim fs \<Longrightarrow> valid fs c \<Longrightarrow>
   next_cluster io d fs c = rd32 (sec io d (fat_sector fs c)) (ent_offset c) AND 0x0FFFFFFF"
  using valid_entry(5) [of lim fs c] by (simp add: next_cluster_def read_sec)

text \<open>\<open>set_cluster\<close> writes the two copies.\<close>

lemma set_cluster_writes:
  fixes v :: u32
  assumes "good d" "fs_geom lim fs" "valid fs c"
  defines "s \<equiv> wr32 (sec io d (fat_sector fs c)) (ent_offset c) (v AND 0x0FFFFFFF)"
  shows "set_cluster io d fs c v = (True, write_all io [(fat_sector fs c, s), (fat_sector fs c + fat_size_32 (fs_bpb fs), s)] d)"
    and "fits [(fat_sector fs c, s), (fat_sector fs c + fat_size_32 (fs_bpb fs), s)]"
proof -
  note e = valid_entry [OF assms(2,3)]
  have l: "length s = 512" using e length_sec [OF assms(1) e(5)] by (simp add: s_def)
  show f: "fits [(fat_sector fs c, s), (fat_sector fs c + fat_size_32 (fs_bpb fs), s)]" using l e by simp
  have "write_seq io d [(fat_sector fs c, s), (fat_sector fs c + fat_size_32 (fs_bpb fs), s)] =
      set_cluster io d fs c v"
    using read_sec [OF assms(1) e(5)]
    by (auto simp: set_cluster_def s_def Let_def split: prod.splits bool.splits)
  with write_seq_all [OF assms(1) f]
  show "set_cluster io d fs c v = (True, write_all io [(fat_sector fs c, s), (fat_sector fs c + fat_size_32 (fs_bpb fs), s)] d)"
    by simp
qed

lemma set_cluster_good: "good d \<Longrightarrow> fs_geom lim fs \<Longrightarrow> valid fs c \<Longrightarrow> good (snd (set_cluster io d fs c v))"
  by (simp only: set_cluster_writes(1) snd_conv) (rule write_all_good [OF _ set_cluster_writes(2)])

lemma set_cluster_sec:
  assumes "good d" "fs_geom lim fs" "valid fs c" "unat (data_start fs) \<le> unat l \<or> unat l < unat (fat_start fs)"
  shows "sec io (snd (set_cluster io d fs c v)) l = sec io d l"
proof -
  note e = valid_entry [OF assms(2,3)]
  have "unat (fat_sector fs c) < unat (data_start fs)"
    "unat (fat_sector fs c + fat_size_32 (fs_bpb fs)) < unat (data_start fs)"
    using e assms(2) unfolding fs_geom_def by linarith+
  then have "l \<noteq> fat_sector fs c" "l \<noteq> fat_sector fs c + fat_size_32 (fs_bpb fs)"
    using assms(4) e(1,7) by auto
  with set_cluster_writes [OF assms(1-3), of v] assms(1) show ?thesis by (simp add: sec_write good_keep)
qed

lemma next_set:
  assumes "good d" "fs_geom lim fs" "valid fs c" "valid fs c'"
  shows "next_cluster io (snd (set_cluster io d fs c v)) fs c' = (if c' = c then v AND 0x0FFFFFFF else next_cluster io d fs c')"
proof -
  note e = valid_entry [OF assms(2,3)] and e' = valid_entry [OF assms(2,4)]
  let ?s = "wr32 (sec io d (fat_sector fs c)) (ent_offset c) (v AND 0x0FFFFFFF)"
  note w = set_cluster_writes [OF assms(1-3), of v]
  have ne: "fat_sector fs c' \<noteq> fat_sector fs c + fat_size_32 (fs_bpb fs)" using e(7) e'(1,2) by auto
  have m: "ent_offset c mod 4 = 0" "ent_offset c' mod 4 = 0" unfolding e(3) e'(3) entry_aligned by simp_all
  have sec: "sec io (snd (set_cluster io d fs c v)) (fat_sector fs c') =
      (if fat_sector fs c' = fat_sector fs c then ?s else sec io d (fat_sector fs c'))"
    using w ne assms(1) by (simp add: sec_write good_keep)
  have eq: "fat_sector fs c' = fat_sector fs c \<and> ent_offset c' = ent_offset c \<longleftrightarrow> c' = c"
  proof
    assume a: "fat_sector fs c' = fat_sector fs c \<and> ent_offset c' = ent_offset c"
    then have "unat c' * 4 div 512 = unat c * 4 div 512" using e(1) e'(1) by auto
    with a have "unat c' * 4 = unat c * 4" using e(3) e'(3) by (metis div_mult_mod_eq)
    then show "c' = c" by (simp add: word_unat_eq_iff)
  qed simp
  have len: "length (sec io d (fat_sector fs c)) = 512" using length_sec assms(1) e(5) by blast
  have mm: "(v AND 0x0FFFFFFF) AND 0x0FFFFFFF = v AND 0x0FFFFFFF" by (simp add: and.assoc)
  have "next_cluster io (snd (set_cluster io d fs c v)) fs c' =
      rd32 (sec io (snd (set_cluster io d fs c v)) (fat_sector fs c')) (ent_offset c') AND 0x0FFFFFFF"
    using assms set_cluster_good by (intro next_sec) auto
  also have "\<dots> = (if c' = c then v AND 0x0FFFFFFF else next_cluster io d fs c')"
  proof (cases "fat_sector fs c' = fat_sector fs c")
    case True
    have "rd32 ?s (ent_offset c') = (if c' = c then v AND 0x0FFFFFFF else rd32 (sec io d (fat_sector fs c)) (ent_offset c'))"
      using rd32_wr32 [of "ent_offset c" "sec io d (fat_sector fs c)" "ent_offset c'"] len e(4) e'(4) m eq True by simp
    then show ?thesis unfolding sec next_sec [OF assms(1,2,4)] using True mm by simp
  next
    case False
    with eq have "c' \<noteq> c" by blast
    with False show ?thesis unfolding sec next_sec [OF assms(1,2,4)] by simp
  qed
  finally show ?thesis .
qed

end

section \<open>Clusters\<close>

definition lbas :: "fs_state \<Rightarrow> u32 \<Rightarrow> u32 list" where
  "lbas fs c = map (\<lambda>s. cluster_to_lba fs c + of_nat s) [0..<spc fs]"

text \<open>The bytes of a cluster.\<close>

definition cdata :: "'d blk \<Rightarrow> 'd \<Rightarrow> fs_state \<Rightarrow> u32 \<Rightarrow> u8 list" where
  "cdata io d fs c = concat (map (sec io d) (lbas fs c))"

lemma lbas_valid:
  assumes "fs_geom lim fs" "valid fs c" "l \<in> set (lbas fs c)"
  shows "unat l < lim" "unat (data_start fs) \<le> unat l"
  using assms valid_lba(2,3) [OF assms(1,2)] by (auto simp: lbas_def)

lemma lbas_disjoint:
  "fs_geom lim fs \<Longrightarrow> valid fs c \<Longrightarrow> valid fs c' \<Longrightarrow> c \<noteq> c' \<Longrightarrow> set (lbas fs c) \<inter> set (lbas fs c') = {}"
  by (auto simp: lbas_def dest: lba_inj)

lemma concat_subbuf:
  "length buf = 512 * n \<Longrightarrow> concat (map (\<lambda>s. subbuf buf (s * 512) 512) [0..<n]) = buf"
proof (induction n arbitrary: buf)
  case (Suc n)
  let ?b = "take (512 * n) buf"
  have "length ?b = 512 * n" using Suc.prems by simp
  then have "concat (map (\<lambda>s. subbuf ?b (s * 512) 512) [0..<n]) = ?b" by (rule Suc.IH)
  moreover have "map (\<lambda>s. subbuf ?b (s * 512) 512) [0..<n] = map (\<lambda>s. subbuf buf (s * 512) 512) [0..<n]"
    by (auto simp: subbuf_def drop_take)
  moreover have "subbuf buf (n * 512) 512 = drop (512 * n) buf" using Suc.prems by (simp add: subbuf_def mult.commute)
  ultimately show ?case by simp
qed simp

context reliable_device
begin

lemma length_cdata: "good d \<Longrightarrow> fs_geom lim fs \<Longrightarrow> valid fs c \<Longrightarrow> length (cdata io d fs c) = 512 * spc fs"
proof -
  assume a: "good d" "fs_geom lim fs" "valid fs c"
  have "length (cdata io d fs c) = 512 * length (map (sec io d) (lbas fs c))"
    unfolding cdata_def by (rule length_concat_const) (use length_sec [OF a(1)] lbas_valid(1) [OF a(2,3)] in auto)
  then show ?thesis by (simp add: lbas_def)
qed

lemma cdata_cong: "(\<And>l. l \<in> set (lbas fs c) \<Longrightarrow> sec io d' l = sec io d l) \<Longrightarrow> cdata io d' fs c = cdata io d fs c"
  by (auto simp: cdata_def intro!: arg_cong [where f = concat])

lemma set_cluster_cdata:
  "good d \<Longrightarrow> fs_geom lim fs \<Longrightarrow> valid fs c \<Longrightarrow> valid fs c' \<Longrightarrow>
   cdata io (snd (set_cluster io d fs c v)) fs c' = cdata io d fs c'"
  by (rule cdata_cong) (auto intro!: set_cluster_sec dest: lbas_valid(2))

definition cluster_writes :: "fs_state \<Rightarrow> u32 \<Rightarrow> u8 list \<Rightarrow> (u32 \<times> u8 list) list" where
  "cluster_writes fs c buf = map (\<lambda>s. (cluster_to_lba fs c + of_nat s, subbuf buf (s * 512) 512)) [0..<spc fs]"

lemma cluster_writes_fit:
  assumes "fs_geom lim fs" "valid fs c" "length buf = 512 * spc fs"
  shows "fits (cluster_writes fs c buf)" and "fst ` set (cluster_writes fs c buf) = set (lbas fs c)"
proof -
  show "fits (cluster_writes fs c buf)"
    using valid_lba(2) [OF assms(1,2)] assms(3) by (auto simp: fits_def cluster_writes_def)
qed (auto simp: cluster_writes_def lbas_def image_image)

lemma write_cluster_all:
  assumes "good d" "fs_geom lim fs" "valid fs c" "length buf = 512 * spc fs"
  shows "write_cluster io d fs c buf = (True, write_all io (cluster_writes fs c buf) d)"
  using write_seq_all [OF assms(1) cluster_writes_fit(1) [OF assms(2-4)]]
  by (simp add: write_cluster_def cluster_writes_def Let_def)

lemma write_cluster_effect:
  assumes "good d" "fs_geom lim fs" "valid fs c" "length buf = 512 * spc fs"
  defines "d' \<equiv> snd (write_cluster io d fs c buf)"
  shows "good d'" and "l \<notin> set (lbas fs c) \<Longrightarrow> sec io d' l = sec io d l"
    and "cdata io d' fs c = buf"
    and "valid fs c' \<Longrightarrow> c' \<noteq> c \<Longrightarrow> cdata io d' fs c' = cdata io d fs c'"
    and "valid fs c' \<Longrightarrow> next_cluster io d' fs c' = next_cluster io d fs c'"
proof -
  note w = write_cluster_all [OF assms(1-4)] and f = cluster_writes_fit [OF assms(2-4)]
  show g: "good d'" using w f assms(1) by (simp add: d'_def write_all_good)
  show other: "sec io d' l = sec io d l" if "l \<notin> set (lbas fs c)" for l
    using w f that assms(1) by (simp add: d'_def write_all_frame)
  have "sec io d' (cluster_to_lba fs c + of_nat s) = subbuf buf (s * 512) 512" if s: "s < spc fs" for s
  proof -
    have "(cluster_to_lba fs c + of_nat s, subbuf buf (s * 512) 512) \<in> set (cluster_writes fs c buf)"
      using s by (auto simp: cluster_writes_def)
    moreover have "b = subbuf buf (s * 512) 512"
      if b: "(cluster_to_lba fs c + of_nat s, b) \<in> set (cluster_writes fs c buf)" for b
    proof -
      obtain s' where m: "s' \<in> set [0..<spc fs]"
          and p: "(cluster_to_lba fs c + of_nat s, b) = (cluster_to_lba fs c + of_nat s', subbuf buf (s' * 512) 512)"
        using b unfolding cluster_writes_def set_map by (elim imageE)
      have "s = s'" using lba_inj [OF assms(2,3,3) s, of s'] m p by (simp only: set_upt atLeastLessThan_iff prod.inject)
      with p show ?thesis by simp
    qed
    ultimately show ?thesis unfolding d'_def w snd_conv by (rule write_all_sec [OF assms(1) f(1)])
  qed
  then have "map (sec io d') (lbas fs c) = map (\<lambda>s. subbuf buf (s * 512) 512) [0..<spc fs]"
    by (simp add: lbas_def)
  then show "cdata io d' fs c = buf" using concat_subbuf [OF assms(4)] by (simp add: cdata_def)
  show "cdata io d' fs c' = cdata io d fs c'" if "valid fs c'" "c' \<noteq> c"
  proof (intro cdata_cong other)
    fix l assume "l \<in> set (lbas fs c')"
    then show "l \<notin> set (lbas fs c)" using lbas_disjoint [OF assms(2,3) that(1)] that(2) by auto
  qed
  show "next_cluster io d' fs c' = next_cluster io d fs c'" if v: "valid fs c'"
  proof -
    note e = valid_entry [OF assms(2) v]
    have "unat (fat_sector fs c') < unat (data_start fs)" using e(1,2) assms(2) by (simp add: fs_geom_def)
    then have "fat_sector fs c' \<notin> set (lbas fs c)" using lbas_valid(2) [OF assms(2,3)] by force
    with g show ?thesis by (simp add: next_sec assms(1,2) v other)
  qed
qed

lemma read_cluster_loop_reads:
  assumes "good d" "fs_geom lim fs" "valid fs c" "n \<le> spc fs" "off + 512 * n \<le> length buf"
  shows "read_cluster_loop io d (cluster_to_lba fs c) buf off ([0..<n] @ ss) =
    read_cluster_loop io d (cluster_to_lba fs c)
      (splice buf off (concat (map (\<lambda>s. sec io d (cluster_to_lba fs c + of_nat s)) [0..<n]))) off ss"
  using assms(4,5)
proof (induction n arbitrary: ss)
  case (Suc n)
  let ?x = "concat (map (\<lambda>s. sec io d (cluster_to_lba fs c + of_nat s)) [0..<n])"
  let ?b = "sec io d (cluster_to_lba fs c + of_nat n)"
  have v: "unat (cluster_to_lba fs c + of_nat n) < lim" using valid_lba(2) [OF assms(2,3), of n] Suc.prems by simp
  have l: "length ?b = 512" by (rule length_sec [OF assms(1) v])
  have "length ?x = 512 * length (map (\<lambda>s. sec io d (cluster_to_lba fs c + of_nat s)) [0..<n])"
    by (rule length_concat_const) (use Suc.prems valid_lba(2) [OF assms(2,3)] length_sec [OF assms(1)] in auto)
  then have x: "length ?x = 512 * n" by simp
  have "read_cluster_loop io d (cluster_to_lba fs c) buf off ([0..<Suc n] @ ss) =
      read_cluster_loop io d (cluster_to_lba fs c) (splice buf off ?x) off (n # ss)"
    using Suc.IH [of "n # ss"] Suc.prems by simp
  also have "\<dots> = read_cluster_loop io d (cluster_to_lba fs c) (splice (splice buf off ?x) (off + n * 512) ?b) off ss"
    using read_sec [OF assms(1) v] Suc.prems x by simp
  also have "splice (splice buf off ?x) (off + n * 512) ?b = splice buf off (?x @ ?b)"
    using splice_append [of off ?x ?b buf] x l Suc.prems by (simp add: mult.commute)
  finally show ?case by simp
qed (simp add: splice_def)

lemma read_cluster_reads:
  assumes "good d" "fs_geom lim fs" "valid fs c" "off + 512 * spc fs \<le> length buf"
  shows "read_cluster io d fs c buf off = Some (True, splice buf off (cdata io d fs c))"
  using read_cluster_loop_reads [OF assms(1-3) order.refl assms(4), of "[]"]
  by (simp add: read_cluster_def cdata_def lbas_def o_def)

end

section \<open>Allocation\<close>

lemma first_free_cases:
  "(first_free io d fs cs = 0 \<and> (\<forall>c\<in>set cs. (of_nat c :: u32) \<noteq> 0 \<longrightarrow> next_cluster io d fs (of_nat c) \<noteq> 0))
   \<or> (\<exists>c\<in>set cs. first_free io d fs cs = of_nat c \<and> next_cluster io d fs (of_nat c) = 0)"
  by (induction cs) auto

context reliable_device
begin

lemma alloc_cluster_cases:
  assumes "good d" "fs_geom lim fs"
  obtains (full) "alloc_cluster io d fs = (0, d)" "\<And>c. valid fs c \<Longrightarrow> next_cluster io d fs c \<noteq> 0"
  | (found) c where "alloc_cluster io d fs = (c, snd (set_cluster io d fs c EOC))" "valid fs c" "c \<noteq> 0"
      "next_cluster io d fs c = 0"
proof -
  let ?cs = "[2..<unat (total_clusters fs + 2)]"
  have t: "unat (total_clusters fs + 2) = unat (total_clusters fs) + 2" "unat (total_clusters fs) + 2 < 2 ^ 32"
    using assms(2) by (auto simp: fs_geom_def unat_add_no_overflow)
  have v: "valid fs (of_nat c)" "unat (of_nat c :: u32) = c" if "c \<in> set ?cs" for c
  proof -
    have c: "2 \<le> c" "c < unat (total_clusters fs) + 2"
      using that unfolding set_upt atLeastLessThan_iff t(1) by blast+
    then show u: "unat (of_nat c :: u32) = c" using t(2) by (intro unat_of_nat_eq) simp
    show "valid fs (of_nat c)" unfolding valid_def u using c by simp
  qed
  consider (0) "first_free io d fs ?cs = 0" "\<And>c. c \<in> set ?cs \<Longrightarrow> next_cluster io d fs (of_nat c) \<noteq> 0"
    | (1) c where "c \<in> set ?cs" "first_free io d fs ?cs = of_nat c" "next_cluster io d fs (of_nat c) = 0"
    using first_free_cases [of io d fs ?cs] v valid_below [OF assms(2)] by blast
  then show ?thesis
  proof cases
    case 0
    have "next_cluster io d fs c \<noteq> 0" if "valid fs c" for c
    proof -
      have "unat c \<in> set ?cs" using that unfolding valid_def set_upt atLeastLessThan_iff t(1) by simp
      from 0(2) [OF this] show ?thesis by simp
    qed
    with 0(1) show ?thesis by (intro full) (auto simp: alloc_cluster_def)
  next
    case 1
    have "valid fs (of_nat c)" using v 1 by blast
    with 1 valid_below [OF assms(2) this] show ?thesis by (intro found [of "of_nat c"]) (auto simp: alloc_cluster_def Let_def)
  qed
qed

end

section \<open>Chains\<close>

fun chain :: "(u32 \<Rightarrow> u32) \<Rightarrow> fs_state \<Rightarrow> u32 \<Rightarrow> u32 list \<Rightarrow> bool" where
  "chain nx fs c [] = (0x0FFFFFF8 \<le> c)"
| "chain nx fs c (x # xs) = (c = x \<and> valid fs x \<and> chain nx fs (nx x) xs)"

lemma chain_valid: "chain nx fs c cs \<Longrightarrow> x \<in> set cs \<Longrightarrow> valid fs x"
  by (induction cs arbitrary: c) auto

lemma chain_cong: "(\<And>x. x \<in> set cs \<Longrightarrow> nx' x = nx x) \<Longrightarrow> chain nx' fs c cs = chain nx fs c cs"
  by (induction cs arbitrary: c) auto

lemma chain_det:
  "fs_geom lim fs \<Longrightarrow> chain nx fs c cs \<Longrightarrow> chain nx fs c cs' \<Longrightarrow> cs = cs'"
proof (induction cs arbitrary: c cs')
  case Nil
  then show ?case by (cases cs') (auto dest: valid_below)
next
  case (Cons x xs)
  from Cons.prems have "valid fs x" "c = x" by simp_all
  with Cons.prems valid_below [OF Cons.prems(1) \<open>valid fs x\<close>] obtain ys where "cs' = x # ys" "chain nx fs (nx x) ys"
    by (cases cs') auto
  with Cons show ?case by auto
qed

lemma chain_suffix: "chain nx fs c (xs @ y # ys) \<Longrightarrow> chain nx fs y (y # ys)"
  by (induction xs arbitrary: c) auto

text \<open>A chain that ends has no repeated cluster.\<close>

lemma chain_distinct: "fs_geom lim fs \<Longrightarrow> chain nx fs c cs \<Longrightarrow> distinct cs"
proof (induction cs arbitrary: c)
  case (Cons x xs)
  have "x \<notin> set xs"
  proof
    assume "x \<in> set xs"
    then obtain as bs where xs: "xs = as @ x # bs" by (auto simp: in_set_conv_decomp)
    have "chain nx fs x (x # bs)" using Cons.prems(2) chain_suffix [of nx fs c "x # as" x bs] by (simp add: xs)
    moreover have "chain nx fs x (x # xs)" using Cons.prems(2) by simp
    ultimately have "x # bs = x # xs" by (intro chain_det [OF Cons.prems(1)])
    then have "length bs = length xs" by simp
    then show False by (simp add: xs)
  qed
  with Cons show ?case by auto
qed simp

context reliable_device
begin

text \<open>Freeing a chain ends and clears exactly its entries.\<close>

lemma free_chain_effect:
  "good d \<Longrightarrow> fs_geom lim fs \<Longrightarrow> chain (next_cluster io d fs) fs c cs \<Longrightarrow> distinct cs \<Longrightarrow>
   \<exists>d'. free_chain io fs d c = Some d' \<and> good d'
     \<and> (\<forall>x. valid fs x \<longrightarrow> next_cluster io d' fs x = (if x \<in> set cs then 0 else next_cluster io d fs x))
     \<and> (\<forall>l. unat (data_start fs) \<le> unat l \<longrightarrow> sec io d' l = sec io d l)"
proof (induction cs arbitrary: c d)
  case Nil
  then have "\<not> c < 0x0FFFFFF8" by (simp add: not_less)
  with Nil show ?case by (subst free_chain.simps) auto
next
  case (Cons x xs)
  have v: "valid fs x" "c = x" "x \<noteq> 0" "x < 0x0FFFFFF8" "x \<noteq> EOC"
    using Cons.prems(3) valid_below [OF Cons.prems(2), of x] by simp_all
  let ?d = "snd (set_cluster io d fs x 0)"
  have g: "good ?d" using set_cluster_good Cons.prems(1,2) v(1) by blast
  have n: "valid fs y \<Longrightarrow> next_cluster io ?d fs y = (if y = x then 0 else next_cluster io d fs y)" for y
    using next_set [OF Cons.prems(1,2) v(1)] by simp
  have "chain (next_cluster io ?d fs) fs (next_cluster io d fs x) xs"
    using Cons.prems(3,4) n by (subst chain_cong [where nx = "next_cluster io d fs"]) (auto dest: chain_valid)
  from Cons.IH [OF g Cons.prems(2) this] Cons.prems(4) obtain d' where d':
    "free_chain io fs ?d (next_cluster io d fs x) = Some d'" "good d'"
    "\<forall>y. valid fs y \<longrightarrow> next_cluster io d' fs y = (if y \<in> set xs then 0 else next_cluster io ?d fs y)"
    "\<forall>l. unat (data_start fs) \<le> unat l \<longrightarrow> sec io d' l = sec io ?d l" by auto
  have "free_chain io fs d c = Some d'"
    using d'(1) v by (subst free_chain.simps) (simp add: Let_def)
  with d' n set_cluster_sec [OF Cons.prems(1,2) v(1)] show ?case by auto
qed

end

end
