(* ===== verification/Fat32File.thy ===== *)
theory Fat32File
  imports Fat32Vol
begin

text \<open>
  Files of the FAT32 file system on a device without faults: the write loop builds a chain of
  fresh clusters holding the data and leaves every other cluster alone, directories are lists of
  slots, and a file written is read back.
\<close>

section \<open>The write loop\<close>

lemma subbuf_append: "subbuf bs off m @ subbuf bs (off + m) n = subbuf bs off (m + n)"
  by (simp add: subbuf_def take_add add.commute)

definition free_clusters :: "'d blk \<Rightarrow> 'd \<Rightarrow> fs_state \<Rightarrow> u32 set" where
  "free_clusters io d fs = {c. valid fs c \<and> next_cluster io d fs c = 0}"

lemma finite_free_clusters [simp]: "finite (free_clusters io d fs)"
  by simp

text \<open>One round: mark \<open>c\<close>, link it to \<open>prev\<close>, fill it.\<close>

definition write_round :: "'d blk \<Rightarrow> fs_state \<Rightarrow> 'd \<Rightarrow> u32 \<Rightarrow> u32 \<Rightarrow> u8 list \<Rightarrow> 'd" where
  "write_round io fs d prev c buf =
     (let d = snd (set_cluster io d fs c EOC);
          d = (if prev \<noteq> 0 then snd (set_cluster io d fs prev c) else d)
      in snd (write_cluster io d fs c buf))"

context reliable_device
begin

lemma write_round_effect:
  assumes "good d" "fs_geom lim fs" "valid fs c" "next_cluster io d fs c = 0"
    and "prev = 0 \<or> valid fs prev \<and> next_cluster io d fs prev \<noteq> 0" "length buf = 512 * spc fs"
  defines "e \<equiv> write_round io fs d prev c buf"
  shows "good e" and "cdata io e fs c = buf"
    and "valid fs x \<Longrightarrow> next_cluster io e fs x =
           (if x = prev then c else if x = c then EOC else next_cluster io d fs x)"
    and "unat (data_start fs) \<le> unat l \<Longrightarrow> l \<notin> set (lbas fs c) \<Longrightarrow> sec io e l = sec io d l"
proof -
  let ?d1 = "snd (set_cluster io d fs c EOC)"
  let ?d2 = "if prev \<noteq> 0 then snd (set_cluster io ?d1 fs prev c) else ?d1"
  have g1: "good ?d1" by (rule set_cluster_good [OF assms(1-3)])
  have g2: "good ?d2" using g1 set_cluster_good [OF g1 assms(2)] assms(5) by auto
  have e: "e = snd (write_cluster io ?d2 fs c buf)" by (simp add: e_def write_round_def Let_def)
  note w = write_cluster_effect [OF g2 assms(2,3,6), folded e]
  show "good e" "cdata io e fs c = buf" by (rule w)+
  have n1: "valid fs x \<Longrightarrow> next_cluster io ?d1 fs x = (if x = c then EOC else next_cluster io d fs x)" for x
    using next_set [OF assms(1-3), of x EOC] by simp
  have pc: "prev \<noteq> 0 \<Longrightarrow> prev \<noteq> c" using assms(4,5) by auto
  have n2: "next_cluster io ?d2 fs x = (if x = prev then c else if x = c then EOC else next_cluster io d fs x)"
    if "valid fs x" for x
  proof (cases "prev = 0")
    case True
    then show ?thesis using n1 [OF that] valid_below [OF assms(2) that] by auto
  next
    case False
    then have "next_cluster io ?d2 fs x = (if x = prev then c AND 0x0FFFFFFF else next_cluster io ?d1 fs x)"
      using next_set [OF g1 assms(2) _ that, of prev c] assms(5) by simp
    then show ?thesis using n1 [OF that] valid_mask [OF assms(2,3)] by simp
  qed
  show "valid fs x \<Longrightarrow> next_cluster io e fs x =
      (if x = prev then c else if x = c then EOC else next_cluster io d fs x)"
    using w(5) n2 by simp
  assume l: "unat (data_start fs) \<le> unat l" "l \<notin> set (lbas fs c)"
  have "sec io ?d2 l = sec io d l"
    using set_cluster_sec [OF assms(1-3)] set_cluster_sec [OF g1 assms(2)] assms(5) l(1) by auto
  then show "sec io e l = sec io d l" using w(2) [OF l(2)] by simp
qed

text \<open>What the loop has done when it has turned \<open>d\<close> into \<open>d'\<close> writing \<open>bytes\<close> into
  the clusters \<open>cs\<close>.\<close>

definition written :: "fs_state \<Rightarrow> 'd \<Rightarrow> 'd \<Rightarrow> u32 \<Rightarrow> u8 list \<Rightarrow> u32 list \<Rightarrow> bool" where
  "written fs d d' prev bytes cs \<longleftrightarrow>
     distinct cs \<and> set cs \<subseteq> free_clusters io d fs
     \<and> length bytes \<le> length cs * (512 * spc fs) \<and> length cs * (512 * spc fs) < length bytes + 512 * spc fs
     \<and> take (length bytes) (concat (map (cdata io d' fs) cs)) = bytes
     \<and> (cs = [] \<longrightarrow> d' = d)
     \<and> (cs \<noteq> [] \<longrightarrow> chain (next_cluster io d' fs) fs (hd cs) cs \<and> (prev \<noteq> 0 \<longrightarrow> next_cluster io d' fs prev = hd cs))
     \<and> (\<forall>x. valid fs x \<longrightarrow> x \<notin> set cs \<longrightarrow> x \<noteq> prev \<longrightarrow> next_cluster io d' fs x = next_cluster io d fs x)
     \<and> (\<forall>l. unat (data_start fs) \<le> unat l \<longrightarrow> (\<forall>c\<in>set cs. l \<notin> set (lbas fs c)) \<longrightarrow> sec io d' l = sec io d l)"

lemma written_step:
  fixes bytes :: "u8 list"
  assumes "good d" "fs_geom lim fs" "valid fs c" "next_cluster io d fs c = 0"
    and prev: "prev = 0 \<or> valid fs prev \<and> next_cluster io d fs prev \<noteq> 0"
    and b: "buf = splice (replicate (512 * spc fs) 0) 0 (take (512 * spc fs) bytes)" "bytes \<noteq> []"
  defines "e \<equiv> write_round io fs d prev c buf"
  assumes w: "written fs e d' c (drop (512 * spc fs) bytes) cs"
  shows "written fs d d' prev bytes (c # cs)"
proof -
  let ?n = "512 * spc fs"
  have lb: "length buf = ?n" unfolding b(1) by (simp add: splice_def)
  note r = write_round_effect [OF assms(1-4) prev lb, folded e_def]
  have cs: "distinct cs" "\<And>x. x \<in> set cs \<Longrightarrow> valid fs x \<and> next_cluster io e fs x = 0"
    using w by (auto simp: written_def free_clusters_def)
  have c0: "c \<noteq> 0" using valid_below [OF assms(2,3)] by simp
  have pc: "prev \<noteq> c" using prev assms(4) c0 by auto
  have new: "x \<noteq> c \<and> x \<noteq> prev \<and> next_cluster io d fs x = 0" if "x \<in> set cs" for x
    using cs(2) [OF that] r(3) [of x] c0 by (auto split: if_splits)
  then have cn: "c \<notin> set cs" by blast
  have sub: "set (c # cs) \<subseteq> free_clusters io d fs"
    using new cs(2) assms(3,4) by (auto simp: free_clusters_def)
  have own: "\<forall>y\<in>set cs. l \<notin> set (lbas fs y)" if "l \<in> set (lbas fs c)" for l
  proof
    fix y assume y: "y \<in> set cs"
    have "set (lbas fs c) \<inter> set (lbas fs y) = {}"
      using new [OF y] cs(2) [OF y] by (intro lbas_disjoint [OF assms(2,3)]) auto
    with that show "l \<notin> set (lbas fs y)" by blast
  qed
  have "cdata io d' fs c = cdata io e fs c"
    using w own lbas_valid(2) [OF assms(2,3)] by (intro cdata_cong) (auto simp: written_def)
  with r(2) have data: "cdata io d' fs c = buf" by simp
  have tk: "take (length bytes) (buf @ concat (map (cdata io d' fs) cs)) = bytes"
  proof (cases "length bytes \<le> ?n")
    case True
    then show ?thesis using lb by (simp add: b(1) splice_def)
  next
    case False
    then have "buf = take ?n bytes" by (simp add: b(1) splice_def)
    moreover have "take (length bytes - ?n) (concat (map (cdata io d' fs) cs)) = drop ?n bytes"
      using w by (simp add: written_def)
    ultimately show ?thesis using lb by (simp add: append_take_drop_id)
  qed
  have nx: "next_cluster io d' fs x = next_cluster io d fs x" if "valid fs x" "x \<notin> set (c # cs)" "x \<noteq> prev" for x
    using w r(3) [OF that(1)] that by (simp add: written_def)
  have np: "next_cluster io d' fs prev = c" if "prev \<noteq> 0"
    using w r(3) [of prev] prev that pc new by (auto simp: written_def)
  have chn: "chain (next_cluster io d' fs) fs c (c # cs)"
  proof (cases "cs = []")
    case True
    then have "d' = e" using w by (simp add: written_def)
    with True r(3) [OF assms(3)] pc assms(3) show ?thesis by simp
  next
    case False
    then have "next_cluster io d' fs c = hd cs" "chain (next_cluster io d' fs) fs (hd cs) cs"
      using w c0 by (simp_all add: written_def)
    with assms(3) show ?thesis by simp
  qed
  have fr: "sec io d' l = sec io d l" if "unat (data_start fs) \<le> unat l" "\<forall>y\<in>set (c # cs). l \<notin> set (lbas fs y)" for l
    using w r(4) [OF that(1)] that by (simp add: written_def)
  have len: "length bytes \<le> length (c # cs) * ?n \<and> length (c # cs) * ?n < length bytes + ?n"
    using w b(2) assms(2) by (cases "length bytes \<le> ?n") (auto simp: written_def fs_geom_def)
  show ?thesis
    unfolding written_def using cs(1) cn sub tk nx np chn fr len data by simp
qed

lemma free_after_round:
  assumes "good d" "fs_geom lim fs" "valid fs c" "next_cluster io d fs c = 0"
    and prev: "prev = 0 \<or> valid fs prev \<and> next_cluster io d fs prev \<noteq> 0" and "length buf = 512 * spc fs"
  shows "card (free_clusters io (write_round io fs d prev c buf) fs) = card (free_clusters io d fs) - 1"
proof -
  note r = write_round_effect(3) [OF assms]
  have c0: "c \<noteq> 0" using valid_below [OF assms(2,3)] by blast
  have z: "\<not> valid fs 0" by (simp add: valid_def)
  have "free_clusters io (write_round io fs d prev c buf) fs = free_clusters io d fs - {c}"
    using r c0 z assms(3,5)
    by (auto simp: free_clusters_def split: if_splits)
  then show ?thesis using assms(3,4) by (simp add: free_clusters_def)
qed

text \<open>The loop always ends; it fails only when the free clusters do not hold the data.\<close>

lemma write_loop_effect:
  assumes "fs_geom lim fs" "spc fs \<le> 8"
  shows "good d \<Longrightarrow> off + unat rem = length data \<Longrightarrow>
    prev = 0 \<or> valid fs prev \<and> next_cluster io d fs prev \<noteq> 0 \<Longrightarrow>
    \<exists>r d'. write_loop io fs data d first prev rem off = Some (r, d') \<and> good d'
      \<and> (unat rem \<le> card (free_clusters io d fs) * (512 * spc fs) \<longrightarrow> r \<noteq> None)
      \<and> (r \<noteq> None \<longrightarrow> (\<exists>cs. written fs d d' prev (drop off data) cs
             \<and> r = Some (if first = 0 \<and> cs \<noteq> [] then hd cs else first)))"
proof (induction "unat rem" arbitrary: d first prev rem off rule: less_induct)
  case less
  let ?n = "512 * spc fs"
  have bpc: "unat (bytes_per_cluster fs) = ?n" "0 < ?n" using assms(1) by (auto simp: fs_geom_def)
  show ?case
  proof (cases "rem = 0")
    case True
    then have "written fs d d prev (drop off data) []" using less.prems(2) bpc by (simp add: written_def)
    with True less.prems(1) show ?thesis by (subst write_loop.simps) auto
  next
    case False
    then have rem: "0 < rem" "0 < unat rem" by (simp_all add: word_gt_0 unat_gt_0)
    consider (full) "alloc_cluster io d fs = (0, d)" "\<And>c. valid fs c \<Longrightarrow> next_cluster io d fs c \<noteq> 0"
      | (found) c where "alloc_cluster io d fs = (c, snd (set_cluster io d fs c EOC))" "valid fs c" "c \<noteq> 0"
          "next_cluster io d fs c = 0"
      by (rule alloc_cluster_cases [OF less.prems(1) assms(1)]) blast+
    then show ?thesis
    proof cases
      case full
      then have "free_clusters io d fs = {}" by (auto simp: free_clusters_def)
      with full(1) rem less.prems(1) show ?thesis by (subst write_loop.simps) auto
    next
      case (found c)
      let ?tw = "if rem < bytes_per_cluster fs then rem else bytes_per_cluster fs"
      let ?buf = "splice (replicate ?n 0) 0 (subbuf data off (unat ?tw))"
      let ?e = "write_round io fs d prev c ?buf"
      let ?first = "if first = 0 then c else first"
      have tw: "unat ?tw = min (unat rem) ?n" using bpc by (simp add: word_less_nat_alt min_def)
      have buf: "?buf = splice (replicate ?n 0) 0 (take ?n (drop off data))"
        using less.prems(2) by (simp add: tw subbuf_def min_def)
      have lb: "length ?buf = ?n" unfolding buf by (simp add: splice_def)
      have r': "unat (rem - ?tw) = unat rem - unat ?tw" using tw by (simp add: unat_sub word_le_nat_alt)
      note eff = write_round_effect [OF less.prems(1) assms(1) found(2,4) less.prems(3) lb]
      have ok: "\<not> (4096 < 512 * spc fs \<or> length data < off + unat ?tw)"
        using assms(2) tw less.prems(2) by simp
      have step: "write_loop io fs data d first prev rem off =
          write_loop io fs data ?e ?first c (rem - ?tw) (off + unat ?tw)"
        by (subst write_loop.simps)
          (simp only: rem if_True found(1,3) Let_def case_prod_conv ok if_False write_round_def bpc)
      have "unat (rem - ?tw) < unat rem" using r' tw rem bpc by simp
      moreover have "off + unat ?tw + unat (rem - ?tw) = length data" using r' tw less.prems(2) by simp
      moreover have "c = 0 \<or> valid fs c \<and> next_cluster io ?e fs c \<noteq> 0"
        using eff(3) [OF found(2)] found(2,3) by (cases "c = prev") auto
      ultimately obtain r d' where ih: "write_loop io fs data ?e ?first c (rem - ?tw) (off + unat ?tw) = Some (r, d')"
          "good d'" "unat (rem - ?tw) \<le> card (free_clusters io ?e fs) * ?n \<longrightarrow> r \<noteq> None"
          "r \<noteq> None \<longrightarrow> (\<exists>cs. written fs ?e d' c (drop (off + unat ?tw) data) cs
             \<and> r = Some (if ?first = 0 \<and> cs \<noteq> [] then hd cs else ?first))"
        using less.hyps [of "rem - ?tw" ?e "off + unat ?tw" c ?first] eff(1) by metis
      have fin: "written fs d d' prev (drop off data) (c # cs)"
        if "written fs ?e d' c (drop (off + unat ?tw) data) cs" for cs
      proof (rule written_step [OF less.prems(1) assms(1) found(2,4) less.prems(3) buf])
        show "drop off data \<noteq> []" using rem less.prems(2) by simp
        have "drop (off + unat ?tw) data = drop ?n (drop off data)"
          using less.prems(2) by (simp add: tw min_def add.commute)
        with that show "written fs ?e d' c (drop ?n (drop off data)) cs" by simp
      qed
      have card: "card (free_clusters io ?e fs) = card (free_clusters io d fs) - 1"
        by (rule free_after_round [OF less.prems(1) assms(1) found(2,4) less.prems(3) lb])
      have "unat rem \<le> card (free_clusters io d fs) * ?n \<longrightarrow> r \<noteq> None"
      proof
        assume "unat rem \<le> card (free_clusters io d fs) * ?n"
        then have "unat rem - unat ?tw \<le> (card (free_clusters io d fs) - 1) * ?n"
          by (auto simp: tw min_def diff_mult_distrib intro: diff_le_mono)
        then show "r \<noteq> None" using ih(3) r' card by simp
      qed
      moreover have "r \<noteq> None \<longrightarrow> (\<exists>cs. written fs d d' prev (drop off data) cs
             \<and> r = Some (if first = 0 \<and> cs \<noteq> [] then hd cs else first))"
      proof
        assume "r \<noteq> None"
        with ih(4) obtain cs where cs: "written fs ?e d' c (drop (off + unat ?tw) data) cs"
            "r = Some (if ?first = 0 \<and> cs \<noteq> [] then hd cs else ?first)" by auto
        have "r = Some (if first = 0 \<and> c # cs \<noteq> [] then hd (c # cs) else first)"
          using cs(2) found(3) by (cases "first = 0") auto
        with fin [OF cs(1)] show "\<exists>cs. written fs d d' prev (drop off data) cs
             \<and> r = Some (if first = 0 \<and> cs \<noteq> [] then hd cs else first)" by blast
      qed
      ultimately show ?thesis using step ih(1,2) by auto
    qed
  qed
qed

end

section \<open>Reading a chain\<close>

context reliable_device
begin

lemma read_loop_reads:
  assumes "good d" "fs_geom lim fs"
  shows "chain (next_cluster io d fs) fs c cs \<or> cs = [] \<Longrightarrow>
    unat rem \<le> length cs * (512 * spc fs) \<Longrightarrow> length cs * (512 * spc fs) < unat rem + 512 * spc fs \<Longrightarrow>
    off + length cs * (512 * spc fs) \<le> length buf \<Longrightarrow>
    read_loop io d fs c rem off buf = Some (True, splice buf off (concat (map (cdata io d fs) cs)))"
proof (induction cs arbitrary: c rem off buf)
  case Nil
  then have "rem = 0" by (simp add: unat_eq_0)
  then show ?case by (subst read_loop.simps) (simp add: splice_def)
next
  case (Cons x xs)
  let ?n = "512 * spc fs" and ?x = "cdata io d fs x"
  have bpc: "unat (bytes_per_cluster fs) = ?n" "0 < ?n" using assms(2) by (auto simp: fs_geom_def)
  have v: "c = x" "valid fs x" "x \<noteq> 0" "x < 0x0FFFFFF8" "chain (next_cluster io d fs) fs (next_cluster io d fs x) xs"
    using Cons.prems(1) valid_below [OF assms(2), of x] by simp_all
  have rem: "0 < rem" "0 < unat rem" using Cons.prems(3) bpc by (auto simp: word_gt_0 unat_gt_0)
  let ?tr = "if rem < bytes_per_cluster fs then rem else bytes_per_cluster fs"
  have tr: "unat ?tr = min (unat rem) ?n" using bpc by (simp add: word_less_nat_alt min_def)
  have r': "unat (rem - ?tr) = unat rem - min (unat rem) ?n" using tr by (simp add: unat_sub word_le_nat_alt)
  have lx: "length ?x = ?n" by (rule length_cdata [OF assms v(2)])
  have rd: "read_cluster io d fs x buf off = Some (True, splice buf off ?x)"
    using Cons.prems(4) by (intro read_cluster_reads [OF assms v(2)]) simp
  have "read_loop io d fs c rem off buf =
      read_loop io d fs (next_cluster io d fs x) (rem - ?tr) (off + unat ?tr) (splice buf off ?x)"
    using v rem rd by (subst read_loop.simps) (simp add: Let_def)
  also have "\<dots> = Some (True, splice (splice buf off ?x) (off + unat ?tr) (concat (map (cdata io d fs) xs)))"
  proof (rule Cons.IH)
    have "length (splice buf off ?x) = length buf" using lx Cons.prems(4) by simp
    then show "off + unat ?tr + length xs * ?n \<le> length (splice buf off ?x)" using tr Cons.prems(4) by simp
    show "unat (rem - ?tr) \<le> length xs * ?n" "length xs * ?n < unat (rem - ?tr) + ?n"
      using r' Cons.prems(2,3) by (cases xs; auto simp: min_def)+
    show "chain (next_cluster io d fs) fs (next_cluster io d fs x) xs \<or> xs = []" using v by simp
  qed
  also have "splice (splice buf off ?x) (off + unat ?tr) (concat (map (cdata io d fs) xs)) =
      splice buf off (?x @ concat (map (cdata io d fs) xs))"
  proof (cases "xs = []")
    case True
    then show ?thesis by (simp add: splice_def [where xs = "[]"])
  next
    case False
    then have "?n \<le> length xs * ?n" by (cases xs) auto
    then have "?n < unat rem" by (rule order.strict_trans1) (use Cons.prems(3) in simp)
    then have "unat ?tr = ?n" using tr by simp
    moreover have "length (concat (map (cdata io d fs) xs)) = ?n * length (map (cdata io d fs) xs)"
      using length_cdata [OF assms] chain_valid [OF v(5)] by (intro length_concat_const) auto
    ultimately show ?thesis using lx Cons.prems(4) splice_append [of off ?x "concat (map (cdata io d fs) xs)" buf]
      by (simp add: algebra_simps)
  qed
  finally show ?case by simp
qed

end

section \<open>Directories as lists of slots\<close>

text \<open>The slots of a list of sectors in the order of the loops.\<close>

definition sector_slots :: "'d blk \<Rightarrow> 'd \<Rightarrow> u32 \<Rightarrow> found list" where
  "sector_slots io d l = map (\<lambda>i. (dir_slot (sec io d l) i, l, of_nat (i * 32))) [0..<16]"

definition slots :: "'d blk \<Rightarrow> 'd \<Rightarrow> u32 list \<Rightarrow> found list" where
  "slots io d ls = concat (map (sector_slots io d) ls)"

definition first_byte :: "found \<Rightarrow> u8" where
  "first_byte x = de_name (fst x) ! 0"

definition slot_free :: "found \<Rightarrow> bool" where
  "slot_free x \<longleftrightarrow> first_byte x = 0x00 \<or> first_byte x = 0xE5"

definition slot_match :: "u8 list \<Rightarrow> found \<Rightarrow> bool" where
  "slot_match name83 x \<longleftrightarrow> de_attr (fst x) \<noteq> ATTR_LONG_NAME \<and> de_name (fst x) = take 8 name83 \<and> de_ext (fst x) = drop 8 name83"

fun scan_slots :: "u8 list \<Rightarrow> found list \<Rightarrow> found option scan" where
  "scan_slots name83 [] = More"
| "scan_slots name83 (x # xs) =
     (if first_byte x = 0x00 then Stop None
      else if first_byte x \<noteq> 0xE5 \<and> slot_match name83 x then Stop (Some x)
      else scan_slots name83 xs)"

lemma scan_slots_append:
  "scan_slots nm (xs @ ys) = (case scan_slots nm xs of Stop r \<Rightarrow> Stop r | More \<Rightarrow> scan_slots nm ys)"
  by (induction xs) auto

lemma find_in_sector_slots:
  "scan_slots nm (map (\<lambda>i. (dir_slot sector i, l, of_nat (i * 32))) is) =
   (case find_in_sector nm sector is of
      Stop None \<Rightarrow> Stop None | Stop (Some i) \<Rightarrow> Stop (Some (dir_slot sector i, l, of_nat (i * 32))) | More \<Rightarrow> More)"
  by (induction "is") (auto simp: Let_def first_byte_def slot_match_def)

text \<open>Well-formed chain of a directory: no entry of the FAT on it is zero.\<close>

lemma chain_next_nonzero: "chain nx fs c cs \<Longrightarrow> x \<in> set cs \<Longrightarrow> nx x \<noteq> 0"
proof (induction cs arbitrary: c)
  case (Cons y ys)
  show ?case
  proof (cases "x \<in> set ys")
    case False
    with Cons.prems have "x = y" by simp
    moreover have "nx y \<noteq> 0" using Cons.prems by (cases ys) (auto simp: valid_def)
    ultimately show ?thesis by simp
  qed (use Cons in auto)
qed simp

context reliable_device
begin

lemma find_in_cluster_slots:
  assumes "good d" "\<And>s. s \<in> set ss \<Longrightarrow> unat (lba + of_nat s) < lim"
  shows "find_in_cluster io d nm lba ss = scan_slots nm (slots io d (map (\<lambda>s. lba + of_nat s) ss))"
  using assms(2)
proof (induction ss)
  case (Cons s ss)
  have ih: "find_in_cluster io d nm lba ss = scan_slots nm (slots io d (map (\<lambda>s. lba + of_nat s) ss))"
    by (rule Cons.IH) (use Cons.prems in simp)
  have rd: "blk_read io d (lba + of_nat s) = Some (sec io d (lba + of_nat s))"
    using Cons.prems by (intro read_sec [OF assms(1)]) simp
  have sl: "slots io d (map (\<lambda>s. lba + of_nat s) (s # ss)) =
      sector_slots io d (lba + of_nat s) @ slots io d (map (\<lambda>s. lba + of_nat s) ss)"
    by (simp add: slots_def)
  show ?case unfolding find_in_cluster.simps(2) rd option.case sl scan_slots_append sector_slots_def
      find_in_sector_slots ih
    by (simp split: scan.splits option.splits)
qed (simp add: slots_def)

definition dir_slots :: "'d \<Rightarrow> fs_state \<Rightarrow> u32 list \<Rightarrow> found list" where
  "dir_slots d fs cs = slots io d (concat (map (lbas fs) cs))"

lemma dir_slots_Cons: "dir_slots d fs (x # xs) = slots io d (lbas fs x) @ dir_slots d fs xs"
  by (simp add: dir_slots_def slots_def)

text \<open>Along a chain the search ends, and is the search over the directory's slots.\<close>

lemma find_loop_slots:
  assumes "good d" "fs_geom lim fs"
  shows "chain (next_cluster io d fs) fs c cs \<Longrightarrow>
    find_loop io d fs nm c = Some (case scan_slots nm (dir_slots d fs cs) of Stop r \<Rightarrow> r | More \<Rightarrow> None)"
proof (induction cs arbitrary: c)
  case Nil
  then have "\<not> c < 0x0FFFFFF8" by (simp add: not_less)
  then show ?case by (subst find_loop.simps) (simp add: dir_slots_def slots_def)
next
  case (Cons x xs)
  then have v: "c = x" "valid fs x" "x \<noteq> 0" "x < 0x0FFFFFF8"
    using valid_below [OF assms(2), of x] by simp_all
  have "find_in_cluster io d nm (cluster_to_lba fs x) [0..<spc fs] = scan_slots nm (slots io d (lbas fs x))"
    unfolding lbas_def by (rule find_in_cluster_slots [OF assms(1)]) (use valid_lba(2) [OF assms(2) v(2)] in auto)
  with Cons v show ?case
    by (subst find_loop.simps) (simp add: dir_slots_Cons scan_slots_append split: scan.splits)
qed

text \<open>Creation takes the first free slot of the chain.\<close>

lemma slot_free_fst: "slot_free (e, x) \<longleftrightarrow> slot_free (e, y)"
  by (simp add: slot_free_def first_byte_def)

lemma free_slot_Some:
  "free_slot sector is = Some i \<Longrightarrow>
   \<exists>as bs. is = as @ i # bs \<and> (\<forall>j\<in>set as. \<not> slot_free (dir_slot sector j, x)) \<and> slot_free (dir_slot sector i, x)"
proof (induction "is")
  case (Cons a js)
  show ?case
  proof (cases "slot_free (dir_slot sector a, x)")
    case True
    then have "i = a" using Cons.prems by (auto simp: slot_free_def first_byte_def Let_def)
    with True show ?thesis by (intro exI [of _ "[]"] exI [of _ js]) auto
  next
    case False
    then have "free_slot sector js = Some i" using Cons.prems by (auto simp: slot_free_def first_byte_def Let_def)
    from Cons.IH [OF this] obtain as bs where
      "js = as @ i # bs \<and> (\<forall>j\<in>set as. \<not> slot_free (dir_slot sector j, x)) \<and> slot_free (dir_slot sector i, x)" by blast
    with False show ?thesis by (intro exI [of _ "a # as"] exI [of _ bs]) auto
  qed
qed simp

lemma free_slot_None: "free_slot sector is = None \<longleftrightarrow> (\<forall>j\<in>set is. \<not> slot_free (dir_slot sector j, x))"
  by (induction "is") (auto simp: slot_free_def first_byte_def Let_def)

end

section \<open>Entries\<close>

definition entry_wf :: "dir_entry \<Rightarrow> bool" where
  "entry_wf e \<longleftrightarrow> length (de_name e) = 8 \<and> length (de_ext e) = 3"

lemma length_bytes_of_entry [simp]: "entry_wf e \<Longrightarrow> length (bytes_of_entry e) = 32"
  by (simp add: bytes_of_entry_def entry_wf_def)

lemma entry_roundtrip_fat: "entry_wf e \<Longrightarrow> entry_of_bytes (bytes_of_entry e) = e"
  by (simp add: entry_of_bytes_def bytes_of_entry_def entry_wf_def struct_simps)

lemma slot_range: "i < 16 \<Longrightarrow> 32 * i + 32 \<le> (512 :: nat)" by simp

lemma dir_slot_set_slot:
  assumes "length sector = 512" "i < 16" "j < 16" "entry_wf e"
  shows "dir_slot (set_slot sector i e) j = (if j = i then e else dir_slot sector j)"
proof (cases "j = i")
  case True
  then show ?thesis using assms slot_range [of i]
    by (simp add: dir_slot_def set_slot_def subbuf_splice_same entry_roundtrip_fat)
next
  case False
  then have "32 * j + 32 \<le> 32 * i \<or> 32 * i + 32 \<le> 32 * j" by linarith
  then show ?thesis using False assms slot_range [of i] slot_range [of j]
    by (simp add: dir_slot_def set_slot_def subbuf_splice_other)
qed

lemma subbuf_1: "off < length bs \<Longrightarrow> bs ! off # xs = subbuf bs off 1 @ xs"
  by (simp add: subbuf_def take_Suc_conv_app_nth)

lemma subbuf_join:
  "o2 = off + n \<Longrightarrow> subbuf bs off n @ subbuf bs o2 m @ xs = subbuf bs off (n + m) @ xs"
  "o2 = off + n \<Longrightarrow> subbuf bs off n @ subbuf bs o2 m = subbuf bs off (n + m)"
  by (simp_all add: subbuf_append [symmetric])

lemma take_28_fields:
  assumes "length b = 32"
  shows "take 28 b = subbuf b 0 8 @ subbuf b 8 3 @ b ! 11 # b ! 12 # b ! 13 #
    subbuf b 14 2 @ subbuf b 16 2 @ subbuf b 18 2 @ subbuf b 20 2 @ subbuf b 22 2 @ subbuf b 24 2 @ subbuf b 26 2"
proof -
  have "11 < length b" "12 < length b" "13 < length b" using assms by simp_all
  note h = this [THEN subbuf_1]
  show ?thesis unfolding h by (simp add: subbuf_join) (simp add: subbuf_def)
qed

text \<open>Writing the size field of a slot.\<close>

lemma set_size_slot:
  assumes "length sector = 512" "i < 16" "entry_wf (dir_slot sector i)"
  shows "wr32 sector (32 * i + 28) sz = set_slot sector i ((dir_slot sector i)\<lparr>file_size_f := sz\<rparr>)"
proof -
  let ?b = "subbuf sector (32 * i) 32"
  have l: "length ?b = 32" using assms(1,2) by simp
  have "bytes_of_entry ((entry_of_bytes ?b)\<lparr>file_size_f := sz\<rparr>) = take 28 ?b @ le32 sz"
  proof -
    note take_28_fields [OF l]
    with l show ?thesis by (simp add: bytes_of_entry_def entry_of_bytes_def le16_rd16 rd8_def)
  qed
  moreover have "splice sector (32 * i) (take 28 ?b @ le32 sz) = wr32 sector (32 * i + 28) sz"
  proof -
    have t: "take 28 ?b = subbuf sector (32 * i) 28" "length (take 28 ?b) = 28" using l by (simp_all add: subbuf_def)
    have "splice sector (32 * i) (take 28 ?b) = sector"
      unfolding t(1) using slot_range [of i] assms(1,2) by (intro splice_subbuf_id) simp
    then show ?thesis using splice_append [of "32 * i" "take 28 ?b" "le32 sz" sector] slot_range [of i] assms(1,2)
      unfolding t(2) wr32_def by simp
  qed
  ultimately show ?thesis by (simp add: set_slot_def dir_slot_def)
qed

lemma length_copy_name: "length (fst (copy_name b nm i n)) \<le> n"
  by (induction b nm i n rule: copy_name.induct) (auto split: prod.splits simp: Let_def)

lemma length_pad: "length xs \<le> n \<Longrightarrow> length (pad n xs) = n"
  by (simp add: pad_def)

lemma length_name_to_83 [simp]: "length (name_to_83 nm) = 11"
proof -
  obtain b i where b: "copy_name True nm 0 8 = (b, i)" by (cases "copy_name True nm 0 8")
  have "length b \<le> 8" using length_copy_name [of True nm 0 8] b by simp
  then show ?thesis
    using length_copy_name [of False nm "i + 1" 3] by (simp add: name_to_83_def b length_pad)
qed

lemma new_entry_wf: "length nm = 11 \<Longrightarrow> entry_wf (new_entry nm attr fc)"
  by (simp add: new_entry_def entry_wf_def)

lemma bit_0xFFFF: "bit (0xFFFF :: u32) k \<longleftrightarrow> k < 16"
proof -
  have "(0xFFFF :: u32) = mask 16" by (simp add: mask_eq_exp_minus_1)
  then show ?thesis by (simp only: bit_mask_iff possible_bit_word) auto
qed

lemma new_entry_cluster: "entry_cluster (new_entry nm attr fc) = fc"
proof (rule bit_word_eqI)
  fix n assume n: "n < LENGTH(32)"
  show "bit (entry_cluster (new_entry nm attr fc)) n = bit fc n"
    using n unfolding entry_cluster_def new_entry_def bit_or_iff bit_push_bit_iff dir_entry.simps bit_unsigned_iff
      bit_and_iff bit_0xFFFF bit_drop_bit_eq possible_bit_word comp_def
    by (cases "n < 16") auto
qed

section \<open>Creating an entry\<close>

context reliable_device
begin

lemma sector_slots_set:
  assumes "good d" "unat l < lim" "i < 16" "entry_wf e"
  defines "d' \<equiv> snd (blk_write io d l (set_slot (sec io d l) i e))"
  shows "sector_slots io d' l = take i (sector_slots io d l) @ (e, l, of_nat (i * 32)) # drop (Suc i) (sector_slots io d l)"
    and "l' \<noteq> l \<Longrightarrow> sector_slots io d' l' = sector_slots io d l'" and "good d'"
proof -
  have len: "length (sec io d l) = 512" by (rule length_sec [OF assms(1,2)])
  then have l512: "length (set_slot (sec io d l) i e) = 512" using assms(3,4) slot_range [of i] by (simp add: set_slot_def)
  show "good d'" unfolding d'_def by (rule good_keep [OF assms(1) l512])
  note s = sec_write [OF assms(1,2) l512, folded d'_def]
  show "l' \<noteq> l \<Longrightarrow> sector_slots io d' l' = sector_slots io d l'" by (simp add: sector_slots_def s)
  show "sector_slots io d' l = take i (sector_slots io d l) @ (e, l, of_nat (i * 32)) # drop (Suc i) (sector_slots io d l)"
    using assms(3) by (intro nth_equalityI)
      (auto simp: sector_slots_def s nth_append nth_Cons' dir_slot_set_slot [OF len assms(3) _ assms(4)] less_Suc_eq_le Suc_diff_le)
qed

text \<open>Slot \<open>i\<close> of sector \<open>l\<close> is the first free one of the sectors \<open>ls\<close>.\<close>

definition first_slot :: "'d \<Rightarrow> u32 list \<Rightarrow> u32 list \<Rightarrow> u32 \<Rightarrow> u32 list \<Rightarrow> nat \<Rightarrow> bool" where
  "first_slot d ls ls1 l ls2 i \<longleftrightarrow> ls = ls1 @ l # ls2 \<and> i < 16
     \<and> (\<forall>x\<in>set (slots io d ls1 @ take i (sector_slots io d l)). \<not> slot_free x)
     \<and> slot_free (sector_slots io d l ! i)"

lemma first_slot_prefix:
  assumes "first_slot d ls ls1 l ls2 i" "\<forall>x\<in>set (slots io d ls0). \<not> slot_free x"
  shows "first_slot d (ls0 @ ls @ ls3) (ls0 @ ls1) l (ls2 @ ls3) i"
  using assms by (auto simp: first_slot_def slots_def)

lemma free_slot_sector:
  "free_slot (sec io d l) [0..<16] = Some i \<Longrightarrow> first_slot d (l # ls) [] l ls i"
proof -
  assume "free_slot (sec io d l) [0..<16] = Some i"
  from free_slot_Some [OF this, of "(l, 0)"] obtain as bs where a: "[0..<16] = as @ i # bs"
    and f: "\<forall>j\<in>set as. \<not> slot_free (dir_slot (sec io d l) j, l, 0)" "slot_free (dir_slot (sec io d l) i, l, 0)"
    by (elim exE conjE)
  have all: "\<not> slot_free (dir_slot (sec io d l) j, l, of_nat (j * 32))" if "j \<in> set as" for j
    using f(1) that slot_free_fst by blast
  have fi: "slot_free (dir_slot (sec io d l) i, l, of_nat (i * 32))" using f(2) slot_free_fst by blast
  have "i = [0..<16] ! length as" unfolding a by simp
  moreover have len: "length as < 16" using arg_cong [OF a, of length] by simp
  ultimately have i: "i = length as" "i < 16" by (simp_all del: upt.simps)
  have "as = take i [0..<16]" unfolding a using i by simp
  then have "as = [0..<i]" using i(2) by (simp add: take_upt del: upt.simps)
  with all fi i(2) show ?thesis
    by (simp add: first_slot_def slots_def sector_slots_def take_map take_upt del: upt.simps of_nat_mult)
qed

lemma free_slot_none_sector:
  "free_slot (sec io d l) [0..<16] = None \<Longrightarrow> \<forall>x\<in>set (sector_slots io d l). \<not> slot_free x"
  using free_slot_None [of "sec io d l" "[0..<16]" "(l, 0)"] slot_free_fst
  by (fastforce simp: sector_slots_def simp del: upt.simps)

lemma create_in_cluster_cases:
  assumes "good d" "\<And>s. s \<in> set ss \<Longrightarrow> unat (lba + of_nat s) < lim"
  shows "(create_in_cluster io d nm attr fc lba ss = More
      \<and> (\<forall>x\<in>set (slots io d (map (\<lambda>s. lba + of_nat s) ss)). \<not> slot_free x))
    \<or> (\<exists>ls1 l ls2 i. first_slot d (map (\<lambda>s. lba + of_nat s) ss) ls1 l ls2 i
         \<and> create_in_cluster io d nm attr fc lba ss
             = Stop (blk_write io d l (set_slot (sec io d l) i (new_entry nm attr fc))))"
  using assms(2)
proof (induction ss)
  case (Cons s ss)
  let ?l = "lba + of_nat s" and ?ls = "map (\<lambda>s. lba + of_nat s) ss"
  have rd: "blk_read io d ?l = Some (sec io d ?l)" using Cons.prems by (intro read_sec [OF assms(1)]) simp
  show ?case
  proof (cases "free_slot (sec io d ?l) [0..<16]")
    case (Some i)
    have "first_slot d (?l # ?ls) [] ?l ?ls i" by (rule free_slot_sector [OF Some])
    then show ?thesis using Some rd
      by (intro disjI2 exI [of _ "[]"] exI [of _ ?l] exI [of _ ?ls] exI [of _ i]) (simp del: upt.simps)
  next
    case None
    then have c: "create_in_cluster io d nm attr fc lba (s # ss) = create_in_cluster io d nm attr fc lba ss"
      using rd by (simp del: upt.simps)
    have n: "\<forall>x\<in>set (slots io d [?l]). \<not> slot_free x" using free_slot_none_sector [OF None] by (simp add: slots_def)
    have "(create_in_cluster io d nm attr fc lba ss = More \<and> (\<forall>x\<in>set (slots io d ?ls). \<not> slot_free x))
      \<or> (\<exists>ls1 l ls2 i. first_slot d ?ls ls1 l ls2 i
         \<and> create_in_cluster io d nm attr fc lba ss = Stop (blk_write io d l (set_slot (sec io d l) i (new_entry nm attr fc))))"
      by (rule Cons.IH) (use Cons.prems in simp)
    then show ?thesis
    proof (elim disjE conjE exE)
      fix ls1 l ls2 i
      assume "first_slot d ?ls ls1 l ls2 i"
        "create_in_cluster io d nm attr fc lba ss = Stop (blk_write io d l (set_slot (sec io d l) i (new_entry nm attr fc)))"
      with first_slot_prefix [OF _ n, of ?ls ls1 l ls2 i "[]"] c show ?thesis
        by (intro disjI2 exI [of _ "?l # ls1"] exI [of _ l] exI [of _ ls2] exI [of _ i]) simp
    qed (use c n in \<open>auto simp: slots_def\<close>)
  qed
qed (simp add: slots_def)

lemma create_loop_slots:
  assumes "good d" "fs_geom lim fs"
  shows "chain (next_cluster io d fs) fs c cs \<Longrightarrow> \<exists>x\<in>set (dir_slots d fs cs). slot_free x \<Longrightarrow>
    \<exists>ls1 l ls2 i. first_slot d (concat (map (lbas fs) cs)) ls1 l ls2 i
      \<and> create_loop io fs nm attr fc d c = Some (blk_write io d l (set_slot (sec io d l) i (new_entry nm attr fc)))"
proof (induction cs arbitrary: c)
  case (Cons x xs)
  then have v: "c = x" "valid fs x" "x \<noteq> 0" "x < 0x0FFFFFF8"
    using valid_below [OF assms(2), of x] by simp_all
  have cases: "(create_in_cluster io d nm attr fc (cluster_to_lba fs x) [0..<spc fs] = More
      \<and> (\<forall>x\<in>set (slots io d (lbas fs x)). \<not> slot_free x))
    \<or> (\<exists>ls1 l ls2 i. first_slot d (lbas fs x) ls1 l ls2 i
         \<and> create_in_cluster io d nm attr fc (cluster_to_lba fs x) [0..<spc fs]
             = Stop (blk_write io d l (set_slot (sec io d l) i (new_entry nm attr fc))))"
    unfolding lbas_def by (rule create_in_cluster_cases [OF assms(1)]) (use valid_lba(2) [OF assms(2) v(2)] in auto)
  then show ?case
  proof (elim disjE conjE exE)
    fix ls1 l ls2 i
    assume f: "first_slot d (lbas fs x) ls1 l ls2 i"
      and c: "create_in_cluster io d nm attr fc (cluster_to_lba fs x) [0..<spc fs]
             = Stop (blk_write io d l (set_slot (sec io d l) i (new_entry nm attr fc)))"
    have "first_slot d (concat (map (lbas fs) (x # xs))) ls1 l (ls2 @ concat (map (lbas fs) xs)) i"
      using first_slot_prefix [OF f, of "[]" "concat (map (lbas fs) xs)"] by (simp add: slots_def)
    moreover have "create_loop io fs nm attr fc d c = Some (blk_write io d l (set_slot (sec io d l) i (new_entry nm attr fc)))"
      using c v by (subst create_loop.simps) simp
    ultimately show ?thesis by blast
  next
    assume m: "create_in_cluster io d nm attr fc (cluster_to_lba fs x) [0..<spc fs] = More"
      and n: "\<forall>x\<in>set (slots io d (lbas fs x)). \<not> slot_free x"
    then have ex: "\<exists>x\<in>set (dir_slots d fs xs). slot_free x" using Cons.prems(2) by (auto simp: dir_slots_Cons)
    then have "xs \<noteq> []" by (auto simp: dir_slots_def slots_def)
    then have "valid fs (next_cluster io d fs x)" using Cons.prems(1) by (cases xs) auto
    then have nx: "next_cluster io d fs x \<noteq> 0" "\<not> 0x0FFFFFF8 \<le> next_cluster io d fs x"
      using valid_below [OF assms(2)] by (auto simp: not_le)
    have "chain (next_cluster io d fs) fs (next_cluster io d fs x) xs" using Cons.prems(1) by simp
    from Cons.IH [OF this ex] obtain ls1 l ls2 i where f: "first_slot d (concat (map (lbas fs) xs)) ls1 l ls2 i"
      and c: "create_loop io fs nm attr fc d (next_cluster io d fs x) = Some (blk_write io d l (set_slot (sec io d l) i (new_entry nm attr fc)))"
      by blast
    have "first_slot d (concat (map (lbas fs) (x # xs))) (lbas fs x @ ls1) l ls2 i"
      using first_slot_prefix [OF f n, of "[]"] by simp
    moreover have "create_loop io fs nm attr fc d c = create_loop io fs nm attr fc d (next_cluster io d fs x)"
      using m v nx by (subst create_loop.simps) (simp add: Let_def)
    ultimately show ?thesis using c by (metis (no_types, lifting))
  qed
qed (simp add: dir_slots_def slots_def)

lemma distinct_lbas:
  assumes "fs_geom lim fs" "distinct cs" "\<forall>c\<in>set cs. valid fs c"
  shows "distinct (concat (map (lbas fs) cs))"
  using assms(2,3)
proof (induction cs)
  case (Cons x xs)
  have "distinct (lbas fs x)"
    unfolding lbas_def distinct_map using lba_inj [OF assms(1), of x x] Cons.prems by (auto intro!: inj_onI)
  moreover have "set (lbas fs x) \<inter> set (lbas fs y) = {}" if "y \<in> set xs" for y
    using that Cons.prems by (intro lbas_disjoint [OF assms(1)]) auto
  ultimately show ?case using Cons by auto
qed simp

lemma dir_write:
  assumes "good d" "fs_geom lim fs" "valid fs x" "l \<in> set (lbas fs x)" "length bs = 512"
  defines "d' \<equiv> snd (blk_write io d l bs)"
  shows "valid fs c \<Longrightarrow> next_cluster io d' fs c = next_cluster io d fs c"
    and "valid fs c \<Longrightarrow> c \<noteq> x \<Longrightarrow> cdata io d' fs c = cdata io d fs c"
proof -
  note l = lbas_valid [OF assms(2-4)]
  have g: "good d'" unfolding d'_def by (rule good_keep [OF assms(1,5)])
  have s: "sec io d' l' = (if l' = l then bs else sec io d l')" for l'
    unfolding d'_def by (rule sec_write [OF assms(1) l(1) assms(5)])
  show "next_cluster io d' fs c = next_cluster io d fs c" if c: "valid fs c"
  proof -
    note e = valid_entry [OF assms(2) c]
    have "unat (fat_sector fs c) < unat (data_start fs)" using e(1,2) assms(2) by (simp add: fs_geom_def)
    then have "fat_sector fs c \<noteq> l" using l(2) by auto
    then show ?thesis unfolding next_sec [OF g assms(2) c] next_sec [OF assms(1,2) c] by (simp add: s)
  qed
  show "cdata io d' fs c = cdata io d fs c" if c: "valid fs c" "c \<noteq> x"
  proof (rule cdata_cong)
    fix l' assume "l' \<in> set (lbas fs c)"
    then have "l' \<noteq> l" using lbas_disjoint [OF assms(2) c(1) assms(3) c(2)] assms(4) by blast
    then show "sec io d' l' = sec io d l'" by (simp add: s)
  qed
qed

text \<open>Placing a matching entry in a slot with only non-matching ones before makes it the one found.\<close>

lemma scan_after_set:
  assumes "good d" "unat l < lim" "i < 16" "entry_wf e" "l \<notin> set ls1"
    and "scan_slots nm (slots io d ls1 @ take i (sector_slots io d l)) = More"
    and "\<not> slot_free (e, l, of_nat (i * 32))" "slot_match nm (e, l, of_nat (i * 32))"
  defines "d' \<equiv> snd (blk_write io d l (set_slot (sec io d l) i e))"
  shows "scan_slots nm (slots io d' (ls1 @ l # ls2)) = Stop (Some (e, l, of_nat (i * 32)))"
    and "slots io d' ls1 @ take i (sector_slots io d' l) = slots io d ls1 @ take i (sector_slots io d l)"
proof -
  note s = sector_slots_set [OF assms(1-4), folded d'_def]
  have "map (sector_slots io d') ls1 = map (sector_slots io d) ls1"
    by (rule map_cong [OF refl]) (metis s(2) assms(5))
  then have p: "slots io d' ls1 = slots io d ls1" by (simp only: slots_def)
  have len: "length (sector_slots io d l) = 16" by (simp add: sector_slots_def)
  then show "slots io d' ls1 @ take i (sector_slots io d' l) = slots io d ls1 @ take i (sector_slots io d l)"
    using p s(1) assms(3) by simp
  have "slots io d' (ls1 @ l # ls2) = (slots io d ls1 @ take i (sector_slots io d l)) @ (e, l, of_nat (i * 32))
      # drop (Suc i) (sector_slots io d l) @ slots io d' ls2"
    using p s(1) by (simp add: slots_def)
  then show "scan_slots nm (slots io d' (ls1 @ l # ls2)) = Stop (Some (e, l, of_nat (i * 32)))"
    using assms(6-8) by (simp only: scan_slots_append scan.case) (simp add: slot_free_def)
qed

lemma scan_prefix_More:
  assumes "\<forall>x\<in>set xs. \<not> slot_free x" "\<forall>x. scan_slots nm (xs @ ys) \<noteq> Stop (Some x)"
  shows "scan_slots nm xs = More"
  using assms by (induction xs) (auto simp: slot_free_def split: if_splits)

text \<open>The directory part of writing a new file: entry created, found again, size set.\<close>

lemma create_and_size:
  assumes "good d" "fs_geom lim fs" "chain (next_cluster io d fs) fs dc ds"
    and "\<exists>x\<in>set (slots io d (concat (map (lbas fs) ds))). slot_free x"
    and none: "find_loop io d fs nm dc = Some None"
    and nm: "length nm = 11" "nm ! 0 \<noteq> 0" "nm ! 0 \<noteq> 0xE5"
  obtains d1 l i d2 where
    "create_loop io fs nm ATTR_ARCHIVE fc d dc = Some (True, d1)"
    "find_loop io d1 fs nm dc = Some (Some (new_entry nm ATTR_ARCHIVE fc, l, of_nat (i * 32)))"
    "i < 16" "blk_read io d1 l = Some (sec io d1 l)"
    "d2 = snd (blk_write io d1 l (wr32 (sec io d1 l) (32 * i + 28) sz))" "good d2"
    "find_loop io d2 fs nm dc = Some (Some ((new_entry nm ATTR_ARCHIVE fc)\<lparr>file_size_f := sz\<rparr>, l, of_nat (i * 32)))"
    "\<forall>c. valid fs c \<longrightarrow> next_cluster io d2 fs c = next_cluster io d fs c"
    "\<forall>c. valid fs c \<longrightarrow> c \<notin> set ds \<longrightarrow> cdata io d2 fs c = cdata io d fs c"
proof -
  let ?L = "concat (map (lbas fs) ds)" and ?e = "new_entry nm ATTR_ARCHIVE fc"
  have dsv: "\<forall>c\<in>set ds. valid fs c" using chain_valid [OF assms(3)] by blast
  obtain ls1 l ls2 i where f: "first_slot d ?L ls1 l ls2 i"
    and c: "create_loop io fs nm ATTR_ARCHIVE fc d dc = Some (blk_write io d l (set_slot (sec io d l) i ?e))"
    using create_loop_slots [OF assms(1-3), of nm ATTR_ARCHIVE fc] assms(4) unfolding dir_slots_def by blast
  have L: "?L = ls1 @ l # ls2" and i: "i < 16"
    and fr: "\<forall>x\<in>set (slots io d ls1 @ take i (sector_slots io d l)). \<not> slot_free x"
    using f by (auto simp: first_slot_def)
  have "distinct ?L" by (rule distinct_lbas [OF assms(2) chain_distinct [OF assms(2,3)] dsv])
  then have nl: "l \<notin> set ls1" unfolding L by simp
  obtain x where x: "x \<in> set ds" "l \<in> set (lbas fs x)"
    using arg_cong [OF L, of set] by auto
  have lim: "unat l < lim" using lbas_valid(1) [OF assms(2) _ x(2)] dsv x(1) by blast
  have ls: "length (sec io d l) = 512" by (rule length_sec [OF assms(1) lim])
  let ?s1 = "set_slot (sec io d l) i ?e"
  have we: "entry_wf ?e" "entry_wf (?e\<lparr>file_size_f := sz\<rparr>)" using new_entry_wf [OF nm(1)] by (simp_all add: entry_wf_def)
  have l1: "length ?s1 = 512" using ls i we slot_range [of i] by (simp add: set_slot_def)
  define d1 where "d1 = snd (blk_write io d l ?s1)"
  have w1: "blk_write io d l ?s1 = (True, d1)" unfolding d1_def by (rule write_ok [OF assms(1) lim l1])
  have split: "slots io d ?L = (slots io d ls1 @ take i (sector_slots io d l)) @ drop i (sector_slots io d l) @ slots io d ls2"
    unfolding L by (simp add: slots_def)
  have pre: "scan_slots nm (slots io d ls1 @ take i (sector_slots io d l)) = More"
    by (rule scan_prefix_More [OF fr, where ys = "drop i (sector_slots io d l) @ slots io d ls2"])
      (use none find_loop_slots [OF assms(1-3), of nm] split in \<open>auto simp: dir_slots_def split: scan.splits\<close>)
  have m: "\<not> slot_free (?e, y)" "slot_match nm (?e, y)" "\<not> slot_free (?e\<lparr>file_size_f := sz\<rparr>, y)"
      "slot_match nm (?e\<lparr>file_size_f := sz\<rparr>, y)" for y
    using nm by (simp_all add: slot_free_def first_byte_def slot_match_def new_entry_def ATTR_ARCHIVE_def ATTR_LONG_NAME_def)
  note a1 = scan_after_set [OF assms(1) lim i we(1) nl pre m(1,2), folded d1_def]
  have g1: "good d1" unfolding d1_def by (rule good_keep [OF assms(1) l1])
  note p1 = dir_write [OF assms(1,2) _ x(2) l1, folded d1_def]
  have n1: "next_cluster io d1 fs c = next_cluster io d fs c" if "valid fs c" for c using p1(1) dsv x(1) that by blast
  have ch1: "chain (next_cluster io d1 fs) fs dc ds"
    using assms(3) n1 dsv by (subst chain_cong [where nx = "next_cluster io d fs"]) auto
  have f1: "find_loop io d1 fs nm dc = Some (Some (?e, l, of_nat (i * 32)))"
    using find_loop_slots [OF g1 assms(2) ch1, of nm] a1(1) [of ls2] by (simp add: dir_slots_def L)
  have s1: "sec io d1 l = ?s1" unfolding d1_def using sec_write [OF assms(1) lim l1] by simp
  have e1: "dir_slot (sec io d1 l) i = ?e" unfolding s1 using dir_slot_set_slot [OF ls i i we(1)] by simp
  define d2 where "d2 = snd (blk_write io d1 l (wr32 (sec io d1 l) (32 * i + 28) sz))"
  have w2: "wr32 (sec io d1 l) (32 * i + 28) sz = set_slot (sec io d1 l) i (?e\<lparr>file_size_f := sz\<rparr>)"
    using set_size_slot [of "sec io d1 l" i sz] length_sec [OF g1 lim] i we(1) e1 by simp
  have l2: "length (set_slot (sec io d1 l) i (?e\<lparr>file_size_f := sz\<rparr>)) = 512"
    using length_sec [OF g1 lim] i we(2) slot_range [of i] by (simp add: set_slot_def)
  have g2: "good d2" unfolding d2_def w2 by (rule good_keep [OF g1 l2])
  have pre1: "scan_slots nm (slots io d1 ls1 @ take i (sector_slots io d1 l)) = More" using pre a1(2) by simp
  note a2 = scan_after_set [OF g1 lim i we(2) nl pre1 m(3,4), folded w2, folded d2_def]
  note p2 = dir_write [OF g1 assms(2) _ x(2) l2, folded w2, folded d2_def]
  have n2: "next_cluster io d2 fs c = next_cluster io d fs c" if "valid fs c" for c using p2(1) n1 dsv x(1) that by auto
  have ch2: "chain (next_cluster io d2 fs) fs dc ds"
    using assms(3) n2 dsv by (subst chain_cong [where nx = "next_cluster io d fs"]) auto
  have f2: "find_loop io d2 fs nm dc = Some (Some (?e\<lparr>file_size_f := sz\<rparr>, l, of_nat (i * 32)))"
    using find_loop_slots [OF g2 assms(2) ch2, of nm] a2(1) [of ls2] by (simp add: dir_slots_def L)
  have c2: "cdata io d2 fs c = cdata io d fs c" if "valid fs c" "c \<notin> set ds" for c
    using p1(2) p2(2) dsv x(1) that by metis
  show ?thesis
    by (rule that [OF _ f1 i read_sec [OF g1 lim] d2_def g2 f2]) (use n2 c2 in \<open>simp_all add: c w1\<close>)
qed

text \<open>Reading the slots of a directory whose sectors did not change.\<close>

lemma slots_cong: "(\<And>l. l \<in> set ls \<Longrightarrow> sec io d' l = sec io d l) \<Longrightarrow> slots io d' ls = slots io d ls"
  unfolding slots_def by (intro arg_cong [where f = concat] map_cong refl) (simp add: sector_slots_def)

text \<open>What the data loop leaves of the clusters in use.\<close>

lemma written_keeps:
  assumes "fs_geom lim fs" "written fs d d1 0 data cs" "valid fs c" "next_cluster io d fs c \<noteq> 0"
  shows "next_cluster io d1 fs c = next_cluster io d fs c" and "c \<notin> set cs"
    and "l \<in> set (lbas fs c) \<Longrightarrow> sec io d1 l = sec io d l" and "cdata io d1 fs c = cdata io d fs c"
proof -
  have csf: "\<forall>c\<in>set cs. valid fs c \<and> next_cluster io d fs c = 0" using assms(2) by (auto simp: written_def free_clusters_def)
  then show nc: "c \<notin> set cs" using assms(4) by auto
  with assms(2,3) show "next_cluster io d1 fs c = next_cluster io d fs c" by (auto simp: written_def valid_def)
  show s: "sec io d1 l = sec io d l" if l: "l \<in> set (lbas fs c)" for l
  proof -
    have "l \<notin> set (lbas fs y)" if "y \<in> set cs" for y
      using lbas_disjoint [OF assms(1,3), of y] csf that nc l by auto
    then show ?thesis using assms(2) lbas_valid(2) [OF assms(1,3) l] by (simp add: written_def)
  qed
  then show "cdata io d1 fs c = cdata io d fs c" by (rule cdata_cong)
qed

text \<open>Writing a new file: the data in a chain \<open>cs\<close> of clusters that were free, the entry found.\<close>

lemma write_new_file:
  fixes data :: "u8 list"
  assumes "good d" "fs_geom lim fs" "spc fs \<le> 8" "mounted fs" "length data = unat sz"
    and ds: "chain (next_cluster io d fs) fs (current_cluster fs) ds"
    and room: "\<exists>x\<in>set (slots io d (concat (map (lbas fs) ds))). slot_free x"
      "unat sz \<le> card (free_clusters io d fs) * (512 * spc fs)"
    and new: "find_entry io d fs (current_cluster fs) (skip_sep path) = Some None"
    and nm: "name_to_83 (skip_sep path) ! 0 \<notin> {0, 0xE5}"
  obtains d3 d1 cs l off where "write_file io d fs path data sz = Some (True, d3)" "good d3"
    "written fs d d1 0 data cs"
    "find_entry io d3 fs (current_cluster fs) (skip_sep path) = Some (Some
       ((new_entry (name_to_83 (skip_sep path)) ATTR_ARCHIVE (if cs \<noteq> [] then hd cs else 0))\<lparr>file_size_f := sz\<rparr>, l, off))"
    "\<forall>c. valid fs c \<longrightarrow> next_cluster io d3 fs c = next_cluster io d1 fs c"
    "\<forall>c. valid fs c \<longrightarrow> c \<notin> set ds \<longrightarrow> cdata io d3 fs c = cdata io d1 fs c"
proof -
  let ?nm = "name_to_83 (skip_sep path)" and ?dc = "current_cluster fs" and ?L = "concat (map (lbas fs) ds)"
  have dsv: "\<forall>c\<in>set ds. valid fs c \<and> next_cluster io d fs c \<noteq> 0"
    using chain_valid [OF ds] chain_next_nonzero [OF ds] by blast
  obtain r d1 where w: "write_loop io fs data d 0 0 sz 0 = Some (r, d1)" "good d1" "r \<noteq> None"
    and ex: "\<exists>cs. written fs d d1 0 (drop 0 data) cs \<and> r = Some (if (0::u32) = 0 \<and> cs \<noteq> [] then hd cs else 0)"
    using write_loop_effect [OF assms(2,3,1), of 0 sz data 0 0] assms(5) room(2) by auto
  then obtain cs where cs: "written fs d d1 0 data cs" and r: "r = Some (if cs \<noteq> [] then hd cs else 0)" by auto
  note keep = written_keeps [OF assms(2) cs]
  have ch1: "chain (next_cluster io d1 fs) fs ?dc ds"
    using ds keep(1) dsv by (subst chain_cong [where nx = "next_cluster io d fs"]) auto
  have sl1: "slots io d1 ?L = slots io d ?L" by (rule slots_cong) (use keep(3) dsv in auto)
  have none1: "find_loop io d1 fs ?nm ?dc = Some None"
    using new find_loop_slots [OF w(2) assms(2) ch1, of ?nm] find_loop_slots [OF assms(1,2) ds, of ?nm] sl1
    by (simp add: find_entry_def dir_slots_def)
  have room1: "\<exists>x\<in>set (slots io d1 ?L). slot_free x" using room(1) sl1 by simp
  have nm0: "?nm ! 0 \<noteq> 0" "?nm ! 0 \<noteq> 0xE5" using nm by auto
  let ?fc = "if cs \<noteq> [] then hd cs else 0"
  obtain d2 l i d3 where c: "create_loop io fs ?nm ATTR_ARCHIVE ?fc d1 ?dc = Some (True, d2)"
    "find_loop io d2 fs ?nm ?dc = Some (Some (new_entry ?nm ATTR_ARCHIVE ?fc, l, of_nat (i * 32)))"
    "i < 16" "blk_read io d2 l = Some (sec io d2 l)"
    "d3 = snd (blk_write io d2 l (wr32 (sec io d2 l) (32 * i + 28) sz))" "good d3"
    and f3: "find_loop io d3 fs ?nm ?dc = Some (Some ((new_entry ?nm ATTR_ARCHIVE ?fc)\<lparr>file_size_f := sz\<rparr>, l, of_nat (i * 32)))"
    and n3: "\<forall>c. valid fs c \<longrightarrow> next_cluster io d3 fs c = next_cluster io d1 fs c"
    and c3: "\<forall>c. valid fs c \<longrightarrow> c \<notin> set ds \<longrightarrow> cdata io d3 fs c = cdata io d1 fs c"
    by (rule create_and_size [OF w(2) assms(2) ch1 room1 none1 length_name_to_83 nm0]) (rule that; assumption)
  have ui: "unat ((of_nat (i * 32) :: u32) div 32) = i"
    using c(3) by (simp add: unat_div unat_of_nat_eq del: of_nat_mult)
  have "write_file io d fs path data sz = Some (True, d3)"
    unfolding write_file_def
    using assms(4) new w(1) r c ui by (simp add: Let_def create_file_entry_def find_entry_def del: of_nat_mult)
  then show ?thesis using c(6) cs f3 n3 c3 unfolding find_entry_def [symmetric] by (rule that)
qed

lemma write_read_file:
  fixes data :: "u8 list"
  assumes "good d" "fs_geom lim fs" "spc fs \<le> 8" "mounted fs" "length data = unat sz"
    and ds: "chain (next_cluster io d fs) fs (current_cluster fs) ds"
    and room: "\<exists>x\<in>set (slots io d (concat (map (lbas fs) ds))). slot_free x"
      "unat sz \<le> card (free_clusters io d fs) * (512 * spc fs)"
    and new: "find_entry io d fs (current_cluster fs) (skip_sep path) = Some None"
    and nm: "name_to_83 (skip_sep path) ! 0 \<notin> {0, 0xE5}" "\<not> (cget path 0 = 47 \<and> cget path 1 = 0)"
    and buf: "unat sz + 512 * spc fs \<le> length buf"
  shows "\<exists>d' buf'. write_file io d fs path data sz = Some (True, d') \<and> good d'
    \<and> read_file io d' fs path buf = Some (True, buf', sz) \<and> take (unat sz) buf' = data
    \<and> (\<forall>c. valid fs c \<longrightarrow> next_cluster io d fs c \<noteq> 0 \<longrightarrow> next_cluster io d' fs c = next_cluster io d fs c
          \<and> (c \<notin> set ds \<longrightarrow> cdata io d' fs c = cdata io d fs c))"
proof -
  let ?n = "512 * spc fs"
  obtain d3 d1 cs l off where w: "write_file io d fs path data sz = Some (True, d3)" "good d3" "written fs d d1 0 data cs"
    and f3: "find_entry io d3 fs (current_cluster fs) (skip_sep path) = Some (Some
       ((new_entry (name_to_83 (skip_sep path)) ATTR_ARCHIVE (if cs \<noteq> [] then hd cs else 0))\<lparr>file_size_f := sz\<rparr>, l, off))"
    and n3: "\<forall>c. valid fs c \<longrightarrow> next_cluster io d3 fs c = next_cluster io d1 fs c"
    and c3: "\<forall>c. valid fs c \<longrightarrow> c \<notin> set ds \<longrightarrow> cdata io d3 fs c = cdata io d1 fs c"
    by (rule write_new_file [OF assms(1-5) ds room new nm(1)]) (rule that; assumption)
  let ?fc = "if cs \<noteq> [] then hd cs else 0" and ?D = "concat (map (cdata io d3 fs) cs)"
  let ?e = "(new_entry (name_to_83 (skip_sep path)) ATTR_ARCHIVE ?fc)\<lparr>file_size_f := sz\<rparr>"
  note keep = written_keeps [OF assms(2) w(3)]
  have csf: "\<forall>c\<in>set cs. valid fs c \<and> c \<notin> set ds"
    using w(3) chain_next_nonzero [OF ds] by (auto simp: written_def free_clusters_def)
  have chf: "chain (next_cluster io d3 fs) fs ?fc cs \<or> cs = []"
    using w(3) n3 csf chain_cong [of cs "next_cluster io d3 fs" "next_cluster io d1 fs" fs ?fc] by (auto simp: written_def)
  have D: "?D = concat (map (cdata io d1 fs) cs)"
    using c3 csf by (intro arg_cong [where f = concat] map_cong) auto
  have len: "unat sz \<le> length cs * ?n" "length cs * ?n < unat sz + ?n" "take (unat sz) ?D = data"
    using w(3) assms(5) by (simp_all add: written_def D)
  have rd: "read_loop io d3 fs ?fc sz 0 buf = Some (True, splice buf 0 ?D)"
    using len buf by (intro read_loop_reads [OF w(2) assms(2) chf]) auto
  have "ATTR_ARCHIVE AND ATTR_DIRECTORY = 0" by (simp add: ATTR_ARCHIVE_def ATTR_DIRECTORY_def)
  moreover have "de_attr ?e = ATTR_ARCHIVE" "entry_cluster ?e = ?fc"
    using new_entry_cluster [of "name_to_83 (skip_sep path)" ATTR_ARCHIVE ?fc]
    by (simp_all add: new_entry_def entry_cluster_def)
  ultimately have read: "read_file io d3 fs path buf = Some (True, splice buf 0 ?D, sz)"
    unfolding read_file_def using assms(4) nm(2) f3 rd by simp
  have "length data \<le> length ?D" using arg_cong [OF len(3), of length] by simp
  then have "take (unat sz) (splice buf 0 ?D) = data" using len(3) assms(5) by (simp add: splice_def)
  with w(1,2) read n3 c3 keep show ?thesis by (metis (no_types, lifting))
qed

end

end
