(* ===== verification/Fat32Format.thy ===== *)
theory Fat32Format
  imports Fat32File
begin

text \<open>
  Formatting followed by mounting: the volume has the geometry the file operations rely on, all
  its clusters are free but the root directory's, and the root directory is empty.  Then the
  correctness of files on any such volume, stated outside the locale.
\<close>

section \<open>The layout\<close>

lemma fatn_le: "fatn x \<le> x div 128 + 2"
proof -
  define q where "q = x div 128"
  have "x < 128 + q * 128" using dividend_less_div_times [of 128 x] by (simp add: q_def)
  then have "(x + 2) * 4 + 511 < (q + 3) * 512" by (simp add: algebra_simps)
  then have "(x + 2) * 4 + 511 < (x div 128 + 3) * 512" by (simp only: q_def)
  then have "fatn x < x div 128 + 3" unfolding fatn_def by (rule less_mult_imp_div_less)
  then show ?thesis by simp
qed

definition fs_of_layout :: "u32 \<Rightarrow> u8 \<Rightarrow> u8 \<Rightarrow> u32 \<Rightarrow> u32 \<Rightarrow> u32 \<Rightarrow> fs_state" where
  "fs_of_layout plba ltr s n fat cc =
     \<lparr>mounted = True, drive_letter = ltr, partition_lba = plba, fs_bpb = bpb_of (boot_sector s n fat),
      fat_start = plba + 32, data_start = plba + 32 + 2 * fat, root_cluster = 2, current_cluster = 2,
      total_clusters = cc, bytes_per_cluster = 512 * ucast s,
      fs_path = \<lparr>names = replicate 32 [], clusters = replicate 32 0, depth = 0\<rparr>\<rparr>"

lemma length_ascii [simp]: "length (ascii s) = length s" by (simp add: ascii_def)

lemma length_boot_sector [simp]: "length (boot_sector s n fat) = 512"
  by (simp add: boot_sector_def)

lemma rd16_bytes [struct_simps]: "rd16 (a # b # xs) 0 = ucast a OR push_bit 8 (ucast b)"
  by (simp add: rd16_def)

lemma rd32_bytes [struct_simps]:
  "rd32 (a # b # c # d # xs) 0 = ucast a OR push_bit 8 (ucast b) OR push_bit 16 (ucast c) OR push_bit 24 (ucast d)"
  by (simp add: rd32_def numeral_3_eq_3 numeral_2_eq_2)

lemma boot_sector_fields:
  "bytes_per_sector (bpb_of (boot_sector s n fat)) = 512"
  "sectors_per_cluster (bpb_of (boot_sector s n fat)) = s"
  "reserved_sectors (bpb_of (boot_sector s n fat)) = 32"
  "num_fats (bpb_of (boot_sector s n fat)) = 2"
  "fat_size_16 (bpb_of (boot_sector s n fat)) = 0"
  "total_sectors_32 (bpb_of (boot_sector s n fat)) = n"
  "fat_size_32 (bpb_of (boot_sector s n fat)) = fat"
  "root_cluster_b (bpb_of (boot_sector s n fat)) = 2"
  by (simp_all add: bpb_of_def boot_sector_def struct_simps)

lemma mount_layout:
  assumes "blk_read io d plba = Some (boot_sector s n fat)" "fat \<noteq> 0" "s \<noteq> 0"
  shows "mount io d plba ltr fs = Some (True, fs_of_layout plba ltr s n fat (clusters_for n s fat))"
  using assms by (simp add: mount_def boot_sector_fields fs_of_layout_def Let_def clusters_for_def diff_diff_eq)

lemma fat_layout_facts:
  assumes "2048 \<le> unat n" "fat_layout n = (cc, fat)"
  shows "16 \<le> unat cc" "0 < unat fat" "unat cc * unat (choose_spc n) + 32 + 2 * unat fat \<le> unat n"
    "unat n \<le> 0x7FFFFC00 \<Longrightarrow> unat cc + 2 \<le> 0x0FFFFFF0"
proof -
  note f = fat_layout_covers [OF assms] and b = choose_spc_bounds [of n]
  let ?s = "unat (choose_spc n)"
  show p: "0 < unat fat" using f(2) by (cases "unat fat") auto
  have "unat cc * ?s \<le> unat n - 32 - 2 * unat fat" unfolding f(1) ccn_def by (rule div_times_less_eq_dividend)
  then show "unat cc * ?s + 32 + 2 * unat fat \<le> unat n" using f(3) by linarith
  have "unat fat \<le> unat n div 128 + 2" using f(5) fatn_le [of "unat n"] by linarith
  then have "16 * 8 \<le> unat n - 32 - 2 * unat fat" using assms(1) by linarith
  then have "16 \<le> (unat n - 32 - 2 * unat fat) div 8" by simp
  also have "\<dots> \<le> unat cc" unfolding f(1) ccn_def using b by (intro div_le_mono2) auto
  finally show "16 \<le> unat cc" .
  show "unat cc + 2 \<le> 0x0FFFFFF0" if "unat n \<le> 0x7FFFFC00"
  proof (cases "260000 \<le> n")
    case True
    then have "unat cc \<le> (unat n - 32) div 8" unfolding f(1) ccn_def by (simp add: choose_spc_def div_le_mono)
    with that show ?thesis by linarith
  next
    case False
    then have "unat n < 260000" by (simp add: word_le_nat_alt)
    moreover have "unat cc \<le> unat n" unfolding f(1) ccn_def by (rule order.trans [OF div_le_dividend]) simp
    ultimately show ?thesis by linarith
  qed
qed

lemma plba_addr:
  "unat plba + unat n \<le> lim \<Longrightarrow> lim \<le> 2 ^ 32 \<Longrightarrow> k < unat n \<Longrightarrow> unat ((plba :: u32) + of_nat k) = unat plba + k"
  for n :: u32
  by (subst unat_add_no_overflow) (simp_all add: unat_of_nat_eq)

lemma plba_addr_eq:
  "unat plba + unat n \<le> lim \<Longrightarrow> lim \<le> 2 ^ 32 \<Longrightarrow> k < unat n \<Longrightarrow> unat (l :: u32) = unat plba + k \<Longrightarrow> l = plba + of_nat k"
  for n :: u32
  by (simp add: word_unat_eq_iff plba_addr del: of_nat_add)

lemma layout_room:
  assumes "2048 \<le> unat n" "fat_layout n = (cc, fat)"
  shows "32 + 2 * unat fat + unat (choose_spc n) \<le> unat n"
proof -
  have "unat (choose_spc n) \<le> unat cc * unat (choose_spc n)" using fat_layout_facts(1) [OF assms] by simp
  with fat_layout_facts(3) [OF assms] show ?thesis by linarith
qed

section \<open>What formatting writes\<close>

text \<open>The sector at offset \<open>k\<close> of the partition, for the sectors of the FATs and the root.\<close>

definition formatted_sector :: "nat \<Rightarrow> nat \<Rightarrow> u8 list" where
  "formatted_sector F k = (if k = 1 then fsinfo_sector else if k = 32 \<or> k = 32 + F then first_fat_sector else replicate 512 0)"

definition format_offsets :: "nat \<Rightarrow> nat \<Rightarrow> nat set" where
  "format_offsets F s = {k. k = 1 \<or> 32 \<le> k \<and> k < 32 + 2 * F + s}"

lemma format_writes_set:
  assumes "0 < unat fat" "0 < unat s"
  shows "set (format_writes plba s fat) =
    (\<lambda>k. (plba + of_nat k, formatted_sector (unat fat) k)) ` format_offsets (unat fat) (unat s)"
    (is "?L = ?R")
proof -
  let ?F = "unat fat" and ?z = "replicate 512 (0 :: u8)"
  have f: "fat = of_nat ?F" by simp
  have "?L = {(plba + 1, fsinfo_sector), (plba + 32, first_fat_sector), (plba + 32 + fat, first_fat_sector)}
      \<union> (\<lambda>i. (plba + 32 + of_nat i, ?z)) ` {1..<?F} \<union> (\<lambda>i. (plba + 32 + fat + of_nat i, ?z)) ` {1..<?F}
      \<union> (\<lambda>i. (plba + 32 + 2 * fat + of_nat i, ?z)) ` {0..<unat s}"
    by (auto simp: format_writes_def Let_def)
  also have "\<dots> = (\<lambda>k. (plba + of_nat k, formatted_sector ?F k)) `
      ({1, 32, 32 + ?F} \<union> (\<lambda>i. 32 + i) ` {1..<?F} \<union> (\<lambda>i. 32 + ?F + i) ` {1..<?F} \<union> (\<lambda>i. 32 + 2 * ?F + i) ` {0..<unat s})"
    (is "_ = ?h ` _")
  proof -
    have "?h 1 = (plba + 1, fsinfo_sector)" "?h 32 = (plba + 32, first_fat_sector)"
      "?h (32 + ?F) = (plba + 32 + fat, first_fat_sector)"
      using assms(1) by (simp_all add: formatted_sector_def add.assoc)
    moreover have "?h ` (\<lambda>i. 32 + i) ` {1..<?F} = (\<lambda>i. (plba + 32 + of_nat i, ?z)) ` {1..<?F}"
      unfolding image_image by (rule image_cong) (auto simp: formatted_sector_def add.assoc)
    moreover have "?h ` (\<lambda>i. 32 + ?F + i) ` {1..<?F} = (\<lambda>i. (plba + 32 + fat + of_nat i, ?z)) ` {1..<?F}"
      unfolding image_image by (rule image_cong) (auto simp: formatted_sector_def add.assoc)
    moreover have "?h ` (\<lambda>i. 32 + 2 * ?F + i) ` {0..<unat s} = (\<lambda>i. (plba + 32 + 2 * fat + of_nat i, ?z)) ` {0..<unat s}"
      unfolding image_image using assms(1) by (intro image_cong) (auto simp: formatted_sector_def add.assoc)
    ultimately show ?thesis by (simp only: image_Un image_insert image_empty)
  qed
  also have "{1, 32, 32 + ?F} \<union> (\<lambda>i. 32 + i) ` {1..<?F} \<union> (\<lambda>i. 32 + ?F + i) ` {1..<?F} \<union> (\<lambda>i. 32 + 2 * ?F + i) ` {0..<unat s}
      = format_offsets ?F (unat s)"
  proof (intro set_eqI iffI)
    fix k assume "k \<in> format_offsets ?F (unat s)"
    then consider "k = 1" | "k = 32" | "k = 32 + ?F" | "32 < k" "k < 32 + ?F" | "32 + ?F < k" "k < 32 + 2 * ?F"
      | "32 + 2 * ?F \<le> k" "k < 32 + 2 * ?F + unat s" by (force simp: format_offsets_def)
    then show "k \<in> {1, 32, 32 + ?F} \<union> (\<lambda>i. 32 + i) ` {1..<?F} \<union> (\<lambda>i. 32 + ?F + i) ` {1..<?F} \<union> (\<lambda>i. 32 + 2 * ?F + i) ` {0..<unat s}"
      by cases (auto intro: image_eqI [of _ _ "k - 32"] image_eqI [of _ _ "k - 32 - ?F"] image_eqI [of _ _ "k - 32 - 2 * ?F"])
  qed (use assms in \<open>auto simp: format_offsets_def\<close>)
  finally show ?thesis .
qed

context reliable_device
begin

lemma format_effect:
  assumes "good d" "blk_present io d" "2048 \<le> unat n" "unat plba + unat n \<le> lim" "lim \<le> 2 ^ 32"
    and lay: "fat_layout n = (cc, fat)"
  obtains d' where "format io d plba n = (True, d')" "good d'"
    "sec io d' plba = boot_sector (choose_spc n) n fat"
    "\<forall>k. 32 \<le> k \<longrightarrow> k < 32 + 2 * unat fat + unat (choose_spc n) \<longrightarrow>
       sec io d' (plba + of_nat k) = formatted_sector (unat fat) k"
proof -
  let ?s = "choose_spc n" and ?F = "unat fat"
  let ?b = "boot_sector ?s n fat" and ?ws = "format_writes plba ?s fat"
  note f = fat_layout_facts [OF assms(3) lay] and b = choose_spc_bounds [of n]
  note small = layout_room [OF assms(3) lay] and addr = plba_addr [OF assms(4,5)]
  have inj: "plba + of_nat k = plba + of_nat k' \<longleftrightarrow> k = k'" if "k < unat n" "k' < unat n" for k k'
    using addr [OF that(1)] addr [OF that(2)] by (metis add_left_cancel)
  note ws = format_writes_set [of fat ?s plba, OF f(2)]
  have off: "k < unat n" if "k \<in> format_offsets ?F (unat ?s)" for k
    using that small assms(3) by (auto simp: format_offsets_def)
  have fits2: "fits ?ws"
    unfolding fits_def using ws b off addr assms(4)
    by (fastforce simp: formatted_sector_def fsinfo_sector_def first_fat_sector_def)
  have fits1: "fits [(plba, ?b), (plba + 6, ?b)]"
    using addr [of 0] addr [of 6] assms(3,4) by simp
  let ?d1 = "write_all io [(plba, ?b), (plba + 6, ?b)] d"
  let ?d2 = "write_all io ?ws ?d1"
  have g1: "good ?d1" by (rule write_all_good [OF assms(1) fits1])
  have g2: "good ?d2" by (rule write_all_good [OF g1 fits2])
  have fmt: "format io d plba n = (True, snd (blk_flush io ?d2))"
    using assms(2,3) f(1) write_seq_all [OF assms(1) fits1]
    by (simp add: format_def MIN_SECTORS_def lay word_less_nat_alt Let_def del: write_seq.simps write_all_simps)
  have s: "sec io ?d2 (plba + of_nat k) = formatted_sector ?F k" if "k \<in> format_offsets ?F (unat ?s)" for k
  proof (rule write_all_sec [OF g1 fits2])
    show "(plba + of_nat k, formatted_sector ?F k) \<in> set ?ws" using ws b that by simp
    fix b assume "(plba + of_nat k, b) \<in> set ?ws"
    then obtain k' where "k' \<in> format_offsets ?F (unat ?s)" "plba + of_nat k = plba + of_nat k'" "b = formatted_sector ?F k'"
      using ws \<open>1 \<le> unat ?s\<close> by auto
    with inj off that show "b = formatted_sector ?F k" by metis
  qed
  have "plba \<notin> fst ` set ?ws"
    using ws b inj [of 0] off by (force simp: format_offsets_def)
  then have "sec io ?d2 plba = sec io ?d1 plba" by (rule write_all_frame [OF g1 fits2])
  also have "\<dots> = ?b"
    using inj [of 0 6] assms(3) by (intro write_all_sec [OF assms(1) fits1]) auto
  finally have "sec io ?d2 plba = ?b" .
  with s show ?thesis
    by (intro that [OF fmt good_flush [OF g2]]) (auto simp: sec_flush format_offsets_def)
qed

end

lemma first_fat_entry:
  "2 \<le> c \<Longrightarrow> c * 4 < 512 \<Longrightarrow> rd32 first_fat_sector (c * 4) = (if c = 2 then EOC else 0)"
proof -
  assume c: "2 \<le> c" "c * 4 < (512 :: nat)"
  show ?thesis
  proof (cases "c = 2")
    case True
    have "rd32 first_fat_sector 8 = EOC" by (simp add: rd32_def first_fat_sector_def)
    with True show ?thesis by simp
  next
    case False
    then have l: "length [0xF8, 0xFF, 0xFF, 0x0F, 0xFF, 0xFF, 0xFF, 0x0F, 0xFF, 0xFF, 0xFF, 0x0F :: u8] \<le> c * 4"
      using c by simp
    have "c \<le> 127" using c by simp
    then show ?thesis unfolding first_fat_sector_def rd_skip(3) [OF l] using False c by (simp add: rd32_def)
  qed
qed

lemma rd32_zeros: "off + 4 \<le> 512 \<Longrightarrow> rd32 (replicate 512 0) off = 0"
  by (simp add: rd32_def)

lemma layout_geom:
  fixes ltr :: u8
  assumes "2048 \<le> unat n" "unat n \<le> 0x7FFFFC00" "unat plba + unat n \<le> lim" "lim \<le> 2 ^ 32"
    and lay: "fat_layout n = (cc, fat)"
  defines "fs \<equiv> fs_of_layout plba ltr (choose_spc n) n fat cc"
  shows "fs_geom lim fs" and "spc fs = unat (choose_spc n)"
    and "unat (fat_start fs) = unat plba + 32" and "unat (data_start fs) = unat plba + 32 + 2 * unat fat"
    and "fat_size_32 (fs_bpb fs) = fat" and "total_clusters fs = cc"
proof -
  let ?s = "unat (choose_spc n)"
  note f = fat_layout_facts [OF assms(1) lay] fat_layout_covers [OF assms(1) lay] and b = choose_spc_bounds [of n]
  show flds: "spc fs = ?s" "fat_size_32 (fs_bpb fs) = fat" "total_clusters fs = cc"
    by (simp_all add: fs_def fs_of_layout_def spc_def boot_sector_fields)
  have n: "unat n < 2 ^ 32" "32 + 2 * unat fat < unat n"
    using layout_room [OF assms(1) lay] b(1) assms(2) by simp_all
  show fst: "unat (fat_start fs) = unat plba + 32"
    using assms(1,3,4) by (simp add: fs_def fs_of_layout_def unat_add_no_overflow)
  have "unat (2 * fat) = 2 * unat fat" using n by (simp add: unat_mult_no_overflow)
  moreover have "unat (plba + 32) = unat plba + 32" using fst by (simp add: fs_def fs_of_layout_def)
  ultimately show dst: "unat (data_start fs) = unat plba + 32 + 2 * unat fat"
    unfolding fs_def fs_of_layout_def fs_state.simps using n assms(3,4) by (subst unat_add_no_overflow) simp_all
  have "unat (bytes_per_cluster fs) = 512 * ?s"
    using b(2) by (simp add: fs_def fs_of_layout_def unat_mult_no_overflow unat_ucast_up)
  then show "fs_geom lim fs"
    unfolding fs_geom_def flds fst dst using assms(2-4) f b(1) by simp
qed

context reliable_device
begin

lemma format_mount:
  fixes ltr :: u8
  assumes "good d" "blk_present io d" "2048 \<le> unat n" "unat n \<le> 0x7FFFFC00" "unat plba + unat n \<le> lim" "lim \<le> 2 ^ 32"
    and lay: "fat_layout n = (cc, fat)"
  defines "fs \<equiv> fs_of_layout plba ltr (choose_spc n) n fat cc"
  shows "\<exists>d'. format io d plba n = (True, d') \<and> good d' \<and> mount io d' plba ltr old = Some (True, fs)
    \<and> (\<forall>c. valid fs c \<longrightarrow> next_cluster io d' fs c = (if c = 2 then EOC else 0))
    \<and> (\<forall>l\<in>set (lbas fs 2). sec io d' l = replicate 512 0)"
proof -
  let ?F = "unat fat" and ?s = "unat (choose_spc n)"
  note small = layout_room [OF assms(3) lay]
  note g = layout_geom [OF assms(3-7), of ltr, folded fs_def]
  note f = fat_layout_facts [OF assms(3) lay] fat_layout_covers [OF assms(3) lay] and b = choose_spc_bounds [of n]
  obtain d' where d': "format io d plba n = (True, d')" "good d'" "sec io d' plba = boot_sector (choose_spc n) n fat"
    and k: "\<forall>k. 32 \<le> k \<longrightarrow> k < 32 + 2 * ?F + ?s \<longrightarrow> sec io d' (plba + of_nat k) = formatted_sector ?F k"
    by (rule format_effect [OF assms(1-3,5,6) lay])
  have "blk_read io d' plba = Some (boot_sector (choose_spc n) n fat)"
    using read_sec [OF d'(2), of plba] assms(3,5) d'(3) by simp
  moreover have "fat \<noteq> 0" "choose_spc n \<noteq> 0" using f(2) b(1) by auto
  ultimately have m: "mount io d' plba ltr old = Some (True, fs)"
    using mount_layout [of io d' plba "choose_spc n" n fat ltr old] f(8) by (simp add: fs_def)
  have nx: "next_cluster io d' fs c = (if c = 2 then EOC else 0)" if v: "valid fs c" for c
  proof -
    note e = valid_entry [OF g(1) v]
    let ?q = "unat c * 4 div 512"
    have fse: "fat_sector fs c = plba + of_nat (32 + ?q)"
      using e(1,2) g(3,5) small b(1) by (intro plba_addr_eq [OF assms(5,6)]) auto
    have sec: "sec io d' (fat_sector fs c) = formatted_sector ?F (32 + ?q)"
      unfolding fse by (rule k [rule_format]) (use e(2) [unfolded g(5)] in linarith)+
    have "rd32 (formatted_sector ?F (32 + ?q)) (ent_offset c) = (if c = 2 then EOC else 0)"
    proof (cases "?q = 0")
      case True
      then have "unat c * 4 < 512" by (simp add: div_eq_0_iff)
      then have "ent_offset c = unat c * 4" using e(3) by simp
      moreover have "2 \<le> unat c" "unat c = 2 \<longleftrightarrow> c = 2" using v by (auto simp: valid_def word_unat_eq_iff)
      ultimately show ?thesis using first_fat_entry [of "unat c"] \<open>unat c * 4 < 512\<close> True
        by (simp add: formatted_sector_def)
    next
      case False
      then have "c \<noteq> 2" by auto
      moreover have "formatted_sector ?F (32 + ?q) = replicate 512 0"
        using False e(2) g(5) by (simp add: formatted_sector_def)
      ultimately show ?thesis using rd32_zeros [OF e(4)] by simp
    qed
    then show ?thesis unfolding next_sec [OF d'(2) g(1) v] sec by simp
  qed
  have v2: "valid fs 2" using f(1) g(6) by (simp add: valid_def)
  have "sec io d' l = replicate 512 0" if l: "l \<in> set (lbas fs 2)" for l
  proof -
    obtain j where j: "j < ?s" "l = cluster_to_lba fs 2 + of_nat j" using l g(2) by (auto simp: lbas_def)
    have "unat l = unat plba + (32 + 2 * ?F + j)" using valid_lba(1) [OF g(1) v2, of j] j g(2,4) by simp
    then have l: "l = plba + of_nat (32 + 2 * ?F + j)"
      using j(1) small by (intro plba_addr_eq [OF assms(5,6)]) auto
    have "sec io d' l = formatted_sector ?F (32 + 2 * ?F + j)"
      unfolding l by (rule k [rule_format]) (use j(1) in linarith)+
    then show ?thesis using f(2) by (simp add: formatted_sector_def)
  qed
  with d'(1,2) m nx show ?thesis by blast
qed

text \<open>A directory whose sectors are zero has no entry.\<close>

lemma empty_dir:
  assumes "good d" "fs_geom lim fs" "valid fs c" "next_cluster io d fs c = EOC"
    and "\<forall>l\<in>set (lbas fs c). sec io d l = replicate 512 0"
  shows "find_entry io d fs c nm = Some None" and "\<exists>x\<in>set (slots io d (concat (map (lbas fs) [c]))). slot_free x"
    and "chain (next_cluster io d fs) fs c [c]"
proof -
  show ch: "chain (next_cluster io d fs) fs c [c]" using assms(3,4) by simp
  have "1 \<le> spc fs" using assms(2) by (simp add: fs_geom_def)
  then have "lbas fs c \<noteq> []" by (simp add: lbas_def)
  then obtain l ls where l: "lbas fs c = l # ls" by (cases "lbas fs c") auto
  let ?x = "(dir_slot (sec io d l) 0, l, 0 :: u32)"
  have x: "first_byte ?x = 0" using assms(5) l by (simp add: first_byte_def dir_slot_def entry_of_bytes_def)
  have "[0..<16] = 0 # [1..<16 :: nat]" by (simp add: upt_rec)
  then have s: "slots io d (concat (map (lbas fs) [c])) = ?x # map (\<lambda>i. (dir_slot (sec io d l) i, l, of_nat (i * 32))) [1..<16] @ slots io d ls"
    using l by (simp add: slots_def sector_slots_def)
  show "\<exists>x\<in>set (slots io d (concat (map (lbas fs) [c]))). slot_free x" unfolding s using x by (simp add: slot_free_def)
  show "find_entry io d fs c nm = Some None"
    unfolding find_entry_def find_loop_slots [OF assms(1,2) ch] dir_slots_def s using x by simp
qed

end

section \<open>Correctness\<close>

text \<open>\<open>format\<close> sizes the FAT so that it covers every cluster: for any number of sectors from
  2048 on, the fixed-point iteration ends with a FAT that has an entry for each cluster the mounted
  volume will count, the two FATs, the reserved sectors and the clusters fit the partition, there
  are at least sixteen clusters, and nothing wrapped on the way.\<close>

theorem format_fat_covers:
  assumes "2048 \<le> unat n" and "fat_layout n = (cc, fat)"
  shows "clusters_for n (choose_spc n) fat = cc \<and> 16 \<le> unat cc \<and> (unat cc + 2) * 4 \<le> unat fat * 512
    \<and> 32 + 2 * unat fat + unat cc * unat (choose_spc n) \<le> unat n"
  using fat_layout_covers [OF assms] fat_layout_facts [OF assms] by simp

theorem format_fat_covers_witness:
  "(unat (1984 :: u32) + 2) * 4 \<le> unat (16 :: u32) * 512 \<and> fat_layout 2048 = (1984, 16)"
proof -
  have l: "fat_layout 2048 = (1984, 16)" by code_simp
  show ?thesis using format_fat_covers [of 2048 1984 16] l by simp
qed

text \<open>C14. A partition that was formatted mounts, with the geometry the file operations rely on:
  on a device without faults \<open>format\<close> returns true, \<open>mount\<close> of the partition succeeds, the
  FATs and the clusters lie inside the device without overlapping, every cluster is free except the
  root directory's, which is the end of its chain, and no name is found in the root directory.\<close>

theorem format_then_mount:
  assumes "reliable_device io good lim" and "good d" and "blk_present io d"
    and "2048 \<le> unat n" and "unat n \<le> 0x7FFFFC00" and "unat plba + unat n \<le> lim" and "lim \<le> 2 ^ 32"
  shows "\<exists>d' fs. format io d plba n = (True, d') \<and> good d' \<and> mount io d' plba ltr old = Some (True, fs)
    \<and> fs_geom lim fs \<and> spc fs \<le> 8 \<and> mounted fs \<and> current_cluster fs = 2 \<and> valid fs 2 \<and> valid fs 3
    \<and> (\<forall>c. valid fs c \<longrightarrow> next_cluster io d' fs c = (if c = 2 then EOC else 0))
    \<and> (\<forall>nm. find_entry io d' fs 2 nm = Some None)
    \<and> (\<exists>x\<in>set (slots io d' (concat (map (lbas fs) [2]))). slot_free x)"
proof -
  obtain cc fat where lay: "fat_layout n = (cc, fat)" by (cases "fat_layout n")
  let ?fs = "fs_of_layout plba ltr (choose_spc n) n fat cc"
  note g = layout_geom [OF assms(4-7) lay, of ltr]
  obtain d' where d': "format io d plba n = (True, d')" "good d'" "mount io d' plba ltr old = Some (True, ?fs)"
    "\<forall>c. valid ?fs c \<longrightarrow> next_cluster io d' ?fs c = (if c = 2 then EOC else 0)"
    "\<forall>l\<in>set (lbas ?fs 2). sec io d' l = replicate 512 0"
    using reliable_device.format_mount [OF assms lay, of ltr old] by blast
  have v: "valid ?fs 2" "valid ?fs 3" using fat_layout_facts(1) [OF assms(4) lay] g(6) by (simp_all add: valid_def)
  have "next_cluster io d' ?fs 2 = EOC" using d'(4) v(1) by simp
  note e = reliable_device.empty_dir [OF assms(1) d'(2) g(1) v(1) this d'(5)]
  have "spc ?fs \<le> 8" using g(2) choose_spc_bounds(2) by simp
  moreover have "mounted ?fs" "current_cluster ?fs = 2" by (simp_all add: fs_of_layout_def)
  ultimately show ?thesis using d' g(1) v e(1,2) by (intro exI [of _ d'] exI [of _ ?fs]) simp
qed

definition fat_disk :: store where
  "fat_disk = \<lparr>cells = (\<lambda>_. replicate 512 0), faulty = (\<lambda>_. False), capacity = 4096\<rparr>"

lemma fat_disk_good: "store_good fat_disk" "blk_present store_blk fat_disk"
  by (simp_all add: store_good_def fat_disk_def store_blk_def)

theorem format_then_mount_witness:
  "\<exists>d' fs. format store_blk fat_disk 2048 2048 = (True, d') \<and> mount store_blk d' 2048 67 fs_boot = Some (True, fs)
     \<and> fs_geom (2 ^ 32) fs"
  using format_then_mount [OF store_rel.reliable_device_axioms fat_disk_good, of 2048 2048 67 fs_boot] by auto

text \<open>C13. A file written is read back.  On a mounted volume of a device without faults, with a
  name that the current directory does not hold, a free slot in the directory and enough free
  clusters, \<open>write_file\<close> returns true and \<open>read_file\<close> into a buffer with room for the whole
  clusters returns true, the size and the data; the FAT entries of all clusters that were in use,
  and the contents of all of them outside the directory, are what they were.\<close>

theorem write_then_read:
  fixes data :: "u8 list"
  assumes "reliable_device io good lim" and "good d" and "fs_geom lim fs" and "spc fs \<le> 8" and "mounted fs"
    and "length data = unat sz"
    and "chain (next_cluster io d fs) fs (current_cluster fs) ds"
    and "\<exists>x\<in>set (slots io d (concat (map (lbas fs) ds))). slot_free x"
    and "unat sz \<le> card (free_clusters io d fs) * (512 * spc fs)"
    and "find_entry io d fs (current_cluster fs) (skip_sep path) = Some None"
    and "name_to_83 (skip_sep path) ! 0 \<notin> {0, 0xE5}" and "\<not> (cget path 0 = 47 \<and> cget path 1 = 0)"
    and "unat sz + 512 * spc fs \<le> length buf"
  shows "\<exists>d' buf'. write_file io d fs path data sz = Some (True, d') \<and> good d'
    \<and> read_file io d' fs path buf = Some (True, buf', sz) \<and> take (unat sz) buf' = data
    \<and> (\<forall>c. valid fs c \<longrightarrow> next_cluster io d fs c \<noteq> 0 \<longrightarrow> next_cluster io d' fs c = next_cluster io d fs c
          \<and> (c \<notin> set ds \<longrightarrow> cdata io d' fs c = cdata io d fs c))"
  by (rule reliable_device.write_read_file [OF assms])

lemma fat_disk_volume:
  obtains d' fs where "store_good d'" "fs_geom (2 ^ 32) fs" "spc fs \<le> 8" "mounted fs" "current_cluster fs = 2"
    "chain (next_cluster store_blk d' fs) fs 2 [2]" "valid fs 3" "next_cluster store_blk d' fs 3 = 0"
    "\<And>nm. find_entry store_blk d' fs 2 nm = Some None"
    "\<exists>x\<in>set (slots store_blk d' (concat (map (lbas fs) [2]))). slot_free x"
proof -
  let ?s = "fs_of_layout 2048 67 1 2048 16 1984"
  have lay: "fat_layout 2048 = (1984, 16)" by code_simp
  have c: "choose_spc 2048 = 1" by (simp add: choose_spc_def)
  have b: "2048 \<le> unat (2048 :: u32)" "unat (2048 :: u32) \<le> 0x7FFFFC00" "unat (2048 :: u32) + unat (2048 :: u32) \<le> 2 ^ 32"
    "(2 ^ 32 :: nat) \<le> 2 ^ 32" by simp_all
  note g = layout_geom [OF b lay, of 67, unfolded c]
  obtain d' where d': "store_good d'"
    "\<forall>c. valid ?s c \<longrightarrow> next_cluster store_blk d' ?s c = (if c = 2 then EOC else 0)"
    "\<forall>l\<in>set (lbas ?s 2). sec store_blk d' l = replicate 512 0"
    using store_rel.format_mount [OF fat_disk_good b lay, of 67 fs_boot] unfolding c by blast
  have v: "valid ?s 2" "valid ?s 3" using g(6) by (simp_all add: valid_def)
  then have n: "next_cluster store_blk d' ?s 2 = EOC" "next_cluster store_blk d' ?s 3 = 0" using d'(2) by simp_all
  note e = store_rel.empty_dir [OF d'(1) g(1) v(1) n(1) d'(3)]
  have "spc ?s \<le> 8" "mounted ?s" "current_cluster ?s = 2"
    using g(2) by (simp_all add: fs_of_layout_def)
  from that [OF d'(1) g(1) this e(3) v(2) n(2) e(1,2)] show ?thesis .
qed

theorem write_then_read_witness:
  "\<exists>d d' fs buf'. mounted fs \<and> write_file store_blk d fs (ascii ''a.txt'') [1, 2, 3] 3 = Some (True, d')
     \<and> read_file store_blk d' fs (ascii ''a.txt'') (replicate 5000 0) = Some (True, buf', 3) \<and> take 3 buf' = [1, 2, 3]"
proof (rule fat_disk_volume)
  fix d fs
  assume v: "store_good d" "fs_geom (2 ^ 32) fs" "spc fs \<le> 8" "mounted fs" "current_cluster fs = 2"
    "chain (next_cluster store_blk d fs) fs 2 [2]" "valid fs 3" "next_cluster store_blk d fs 3 = 0"
    "\<And>nm. find_entry store_blk d fs 2 nm = Some None"
    "\<exists>x\<in>set (slots store_blk d (concat (map (lbas fs) [2]))). slot_free x"
  have "0 < card (free_clusters store_blk d fs)"
    using v(7,8) by (auto simp: card_gt_0_iff free_clusters_def)
  moreover have "1 \<le> spc fs" using v(2) by (simp add: fs_geom_def)
  ultimately obtain a b where ab: "card (free_clusters store_blk d fs) = Suc a" "spc fs = Suc b"
    by (metis Suc_le_D One_nat_def gr0_implies_Suc)
  have room: "unat (3 :: u32) \<le> card (free_clusters store_blk d fs) * (512 * spc fs)" unfolding ab by simp
  have nm: "name_to_83 (skip_sep (ascii ''a.txt'')) ! 0 \<notin> {0, 0xE5}" by code_simp
  have sl: "\<not> (cget (ascii ''a.txt'') 0 = 47 \<and> cget (ascii ''a.txt'') 1 = 0)" by code_simp
  show ?thesis
    using write_then_read [OF store_rel.reliable_device_axioms v(1-4), of "[1, 2, 3]" 3 "[2]" "ascii ''a.txt''" "replicate 5000 0"]
      v room nm sl by auto
qed

end
