(* ===== verification/Prog.thy ===== *)
theory Prog
  imports Main "HOL-Library.State_Monad"
begin

text \<open>
  Programs in the state monad, as the file system ext2, the AHCI driver and the commands are written:
  reading a part of the state, changing it, and loops.
\<close>

definition asks :: "('s \<Rightarrow> 'a) \<Rightarrow> ('s, 'a) state" where
  "asks f = do { s \<leftarrow> State_Monad.get; State_Monad.return (f s) }"

definition modify :: "('s \<Rightarrow> 's) \<Rightarrow> ('s, unit) state" where
  "modify f = do { s \<leftarrow> State_Monad.get; State_Monad.set (f s) }"

lemma run_asks [simp]: "run_state (asks f) s = (f s, s)" by (simp add: asks_def)
lemma run_modify [simp]: "run_state (modify f) s = ((), f s)" by (simp add: modify_def)

abbreviation ret :: "'a \<Rightarrow> ('s, 'a) state" where "ret \<equiv> State_Monad.return"

text \<open>A loop that a \<open>return\<close> in its body leaves with a value.\<close>

fun first_m :: "('a \<Rightarrow> ('s, 'b option) state) \<Rightarrow> 'a list \<Rightarrow> ('s, 'b option) state" where
  "first_m f [] = ret None"
| "first_m f (x # xs) = do { r \<leftarrow> f x; case r of Some y \<Rightarrow> ret (Some y) | None \<Rightarrow> first_m f xs }"

fun for_m :: "('a \<Rightarrow> ('s, unit) state) \<Rightarrow> 'a list \<Rightarrow> ('s, unit) state" where
  "for_m f [] = ret ()"
| "for_m f (x # xs) = do { _ \<leftarrow> f x; for_m f xs }"

end
