(* ===== verification/Ext2.thy ===== *)
theory Ext2
  imports Disk Fmt Paths Prog
begin

text \<open>
  The ext2 file system, \<open>fs/ext2.cpp\<close>: blocks, superblock, group descriptors, inodes, block
  pointers, allocation, directories, paths and files.

  The code works on file-scope state: the mounted \<open>fs\<close> and the three buffers \<open>g_buf\<close>,
  \<open>g_buf2\<close> and \<open>dir_buf\<close> that all operations share.  The operations are programs in the
  state monad over this state and the disk, so that an operation that overwrites a buffer another
  one is still reading does so here too.  \<open>ub\<close> records that the run has reached undefined
  behaviour (a division by zero, an index outside a buffer); what follows has no meaning.
\<close>

section \<open>Structs\<close>

record bgd =
  bg_block_bitmap :: u32
  bg_inode_bitmap :: u32
  bg_inode_table :: u32
  bg_free_blocks_count :: u16
  bg_free_inodes_count :: u16
  bg_used_dirs_count :: u16
  bg_pad :: u16
  bg_reserved :: "u8 list"

definition bgd_of :: "u8 list \<Rightarrow> bgd" where
  "bgd_of bs = \<lparr>bg_block_bitmap = rd32 bs 0, bg_inode_bitmap = rd32 bs 4, bg_inode_table = rd32 bs 8,
     bg_free_blocks_count = rd16 bs 12, bg_free_inodes_count = rd16 bs 14, bg_used_dirs_count = rd16 bs 16,
     bg_pad = rd16 bs 18, bg_reserved = subbuf bs 20 12\<rparr>"

definition bgd_bytes :: "bgd \<Rightarrow> u8 list" where
  "bgd_bytes b = le32 (bg_block_bitmap b) @ le32 (bg_inode_bitmap b) @ le32 (bg_inode_table b)
     @ le16 (bg_free_blocks_count b) @ le16 (bg_free_inodes_count b) @ le16 (bg_used_dirs_count b)
     @ le16 (bg_pad b) @ bg_reserved b"

record inode =
  i_mode :: u16
  i_uid :: u16
  i_size :: u32
  i_atime :: u32
  i_ctime :: u32
  i_mtime :: u32
  i_dtime :: u32
  i_gid :: u16
  i_links_count :: u16
  i_blocks :: u32
  i_flags :: u32
  i_osd1 :: u32
  i_block :: "u32 list"
  i_generation :: u32
  i_file_acl :: u32
  i_dir_acl :: u32
  i_faddr :: u32
  i_osd2 :: "u8 list"

definition inode_of :: "u8 list \<Rightarrow> inode" where
  "inode_of bs = \<lparr>i_mode = rd16 bs 0, i_uid = rd16 bs 2, i_size = rd32 bs 4, i_atime = rd32 bs 8,
     i_ctime = rd32 bs 12, i_mtime = rd32 bs 16, i_dtime = rd32 bs 20, i_gid = rd16 bs 24,
     i_links_count = rd16 bs 26, i_blocks = rd32 bs 28, i_flags = rd32 bs 32, i_osd1 = rd32 bs 36,
     i_block = map (\<lambda>i. rd32 bs (40 + 4 * i)) [0..<15], i_generation = rd32 bs 100,
     i_file_acl = rd32 bs 104, i_dir_acl = rd32 bs 108, i_faddr = rd32 bs 112, i_osd2 = subbuf bs 116 12\<rparr>"

definition inode_bytes :: "inode \<Rightarrow> u8 list" where
  "inode_bytes n = le16 (i_mode n) @ le16 (i_uid n) @ le32 (i_size n) @ le32 (i_atime n) @ le32 (i_ctime n)
     @ le32 (i_mtime n) @ le32 (i_dtime n) @ le16 (i_gid n) @ le16 (i_links_count n) @ le32 (i_blocks n)
     @ le32 (i_flags n) @ le32 (i_osd1 n) @ concat (map le32 (i_block n)) @ le32 (i_generation n)
     @ le32 (i_file_acl n) @ le32 (i_dir_acl n) @ le32 (i_faddr n) @ i_osd2 n"

text \<open>\<open>memset(&in, 0, sizeof(in))\<close>\<close>

definition zero_inode :: inode where
  "zero_inode = inode_of (replicate 128 0)"

text \<open>The superblock is copied to and from the disk as its 1024 bytes.\<close>

definition s_inodes_count :: "u8 list \<Rightarrow> u32" where "s_inodes_count sb = rd32 sb 0"
definition s_blocks_count :: "u8 list \<Rightarrow> u32" where "s_blocks_count sb = rd32 sb 4"
definition s_free_blocks_count :: "u8 list \<Rightarrow> u32" where "s_free_blocks_count sb = rd32 sb 12"
definition s_free_inodes_count :: "u8 list \<Rightarrow> u32" where "s_free_inodes_count sb = rd32 sb 16"
definition s_first_data_block :: "u8 list \<Rightarrow> u32" where "s_first_data_block sb = rd32 sb 20"
definition s_log_block_size :: "u8 list \<Rightarrow> u32" where "s_log_block_size sb = rd32 sb 24"
definition s_blocks_per_group :: "u8 list \<Rightarrow> u32" where "s_blocks_per_group sb = rd32 sb 32"
definition s_inodes_per_group :: "u8 list \<Rightarrow> u32" where "s_inodes_per_group sb = rd32 sb 40"
definition s_magic :: "u8 list \<Rightarrow> u16" where "s_magic sb = rd16 sb 56"
definition s_rev_level :: "u8 list \<Rightarrow> u32" where "s_rev_level sb = rd32 sb 76"
definition s_first_ino :: "u8 list \<Rightarrow> u32" where "s_first_ino sb = rd32 sb 84"
definition s_inode_size :: "u8 list \<Rightarrow> u16" where "s_inode_size sb = rd16 sb 88"

definition EXT2_MAGIC :: u16 where "EXT2_MAGIC = 0xEF53"
definition FT_REG_FILE :: u8 where "FT_REG_FILE = 1"
definition FT_DIR :: u8 where "FT_DIR = 2"
definition S_IFMT :: u16 where "S_IFMT = 0xF000"
definition S_IFDIR :: u16 where "S_IFDIR = 0x4000"
definition S_IFREG :: u16 where "S_IFREG = 0x8000"

record ext2_fs =
  e_mounted :: bool
  e_letter :: u8
  e_partition_lba :: u32
  block_size :: u32
  sectors_per_block :: u32
  inode_size :: u32
  inodes_per_group :: u32
  blocks_per_group :: u32
  groups_count :: u32
  first_data_block :: u32
  current_inode :: u32
  root_inode :: u32
  sb :: "u8 list"
  e_names :: "cstr list"
  e_inodes :: "u32 list"
  e_depth :: nat

record 'd ext2 =
  dev :: 'd
  fs :: ext2_fs
  g_buf :: "u8 list"
  g_buf2 :: "u8 list"
  dir_buf :: "u8 list"
  ub :: bool

type_synonym ('d, 'a) prog = "('d ext2, 'a) state"

definition zero_fs :: ext2_fs where
  "zero_fs = \<lparr>e_mounted = False, e_letter = 0, e_partition_lba = 0, block_size = 0, sectors_per_block = 0,
     inode_size = 0, inodes_per_group = 0, blocks_per_group = 0, groups_count = 0, first_data_block = 0,
     current_inode = 0, root_inode = 0, sb = replicate 1024 0, e_names = replicate 32 [],
     e_inodes = replicate 32 0, e_depth = 0\<rparr>"

definition ext2_boot :: "'d \<Rightarrow> 'd ext2" where
  "ext2_boot d = \<lparr>dev = d, fs = zero_fs, g_buf = replicate 8192 0, g_buf2 = replicate 8192 0,
     dir_buf = replicate 8192 0, ub = False\<rparr>"

section \<open>Programs\<close>

text \<open>Undefined behaviour unless the condition holds.\<close>

definition require :: "bool \<Rightarrow> ('d, unit) prog" where
  "require c = (if c then ret () else modify (\<lambda>s. s\<lparr>ub := True\<rparr>))"

section \<open>Blocks and superblock\<close>

datatype buffer = GBuf | GBuf2 | DirBuf

definition buf_get :: "buffer \<Rightarrow> 'd ext2 \<Rightarrow> u8 list" where
  "buf_get b s = (case b of GBuf \<Rightarrow> g_buf s | GBuf2 \<Rightarrow> g_buf2 s | DirBuf \<Rightarrow> dir_buf s)"

definition buf_put :: "buffer \<Rightarrow> u8 list \<Rightarrow> 'd ext2 \<Rightarrow> 'd ext2" where
  "buf_put b bs s = (case b of GBuf \<Rightarrow> s\<lparr>g_buf := bs\<rparr> | GBuf2 \<Rightarrow> s\<lparr>g_buf2 := bs\<rparr> | DirBuf \<Rightarrow> s\<lparr>dir_buf := bs\<rparr>)"

text \<open>Sectors \<open>lba + s\<close> to and from \<open>p + s * 512\<close>, up to the first failure.\<close>

fun read_sectors_to :: "'d blk \<Rightarrow> 'd \<Rightarrow> u32 \<Rightarrow> u8 list \<Rightarrow> nat list \<Rightarrow> bool \<times> u8 list" where
  "read_sectors_to io d lba p [] = (True, p)"
| "read_sectors_to io d lba p (s # ss) =
     (case blk_read io d (lba + of_nat s) of None \<Rightarrow> (False, p)
      | Some bs \<Rightarrow> read_sectors_to io d lba (splice p (s * 512) bs) ss)"

definition write_sectors_from :: "'d blk \<Rightarrow> 'd \<Rightarrow> u32 \<Rightarrow> u8 list \<Rightarrow> nat \<Rightarrow> bool \<times> 'd" where
  "write_sectors_from io d lba p n =
     write_seq io d (map (\<lambda>s. (lba + of_nat s, subbuf p (s * 512) 512)) [0..<n])"

definition block_lba :: "ext2_fs \<Rightarrow> u32 \<Rightarrow> u32" where
  "block_lba f block = e_partition_lba f + block * sectors_per_block f"

definition read_block :: "'d blk \<Rightarrow> u32 \<Rightarrow> buffer \<Rightarrow> ('d, bool) prog" where
  "read_block io block b = do {
     s \<leftarrow> State_Monad.get;
     let (ok, p) = read_sectors_to io (dev s) (block_lba (fs s) block) (buf_get b s)
                     [0..<unat (sectors_per_block (fs s))];
     _ \<leftarrow> modify (buf_put b p);
     ret ok }"

definition write_block :: "'d blk \<Rightarrow> u32 \<Rightarrow> buffer \<Rightarrow> ('d, bool) prog" where
  "write_block io block b = do {
     s \<leftarrow> State_Monad.get;
     let (ok, d) = write_sectors_from io (dev s) (block_lba (fs s) block) (buf_get b s)
                     (unat (sectors_per_block (fs s)));
     _ \<leftarrow> State_Monad.set (s\<lparr>dev := d\<rparr>);
     ret ok }"

definition read_superblock :: "'d blk \<Rightarrow> ('d, bool) prog" where
  "read_superblock io = do {
     s \<leftarrow> State_Monad.get;
     case blk_read io (dev s) (e_partition_lba (fs s) + 2) of None \<Rightarrow> ret False
     | Some sec0 \<Rightarrow> do {
         _ \<leftarrow> modify (\<lambda>s. s\<lparr>fs := (fs s)\<lparr>sb := splice (sb (fs s)) 0 sec0\<rparr>\<rparr>);
         case blk_read io (dev s) (e_partition_lba (fs s) + 3) of None \<Rightarrow> ret False
         | Some sec1 \<Rightarrow> do {
             _ \<leftarrow> modify (\<lambda>s. s\<lparr>fs := (fs s)\<lparr>sb := splice (sb (fs s)) 512 sec1\<rparr>\<rparr>);
             ret True } } }"

definition write_superblock :: "'d blk \<Rightarrow> ('d, bool) prog" where
  "write_superblock io = do {
     s \<leftarrow> State_Monad.get;
     let (ok, d) = write_seq io (dev s)
           [(e_partition_lba (fs s) + 2, subbuf (sb (fs s)) 0 512), (e_partition_lba (fs s) + 3, subbuf (sb (fs s)) 512 512)];
     _ \<leftarrow> State_Monad.set (s\<lparr>dev := d\<rparr>);
     ret ok }"

text \<open>\<open>fs.sb.field = ..\<close>\<close>

definition sb_put :: "nat \<Rightarrow> u32 \<Rightarrow> 'd ext2 \<Rightarrow> 'd ext2" where
  "sb_put off v s = s\<lparr>fs := (fs s)\<lparr>sb := wr32 (sb (fs s)) off v\<rparr>\<rparr>"

section \<open>Group descriptors and inodes\<close>

definition bgd_block :: "ext2_fs \<Rightarrow> u32 \<Rightarrow> u32" where
  "bgd_block f grp = first_data_block f + 1 + (grp * 32) div block_size f"

definition bgd_off :: "ext2_fs \<Rightarrow> u32 \<Rightarrow> nat" where
  "bgd_off f grp = unat ((grp * 32) mod block_size f)"

definition read_bgd :: "'d blk \<Rightarrow> u32 \<Rightarrow> ('d, bgd option) prog" where
  "read_bgd io grp = do {
     f \<leftarrow> asks fs;
     if grp \<ge> groups_count f then ret None
     else do {
       ok \<leftarrow> read_block io (bgd_block f grp) GBuf;
       if \<not> ok then ret None
       else asks (\<lambda>s. Some (bgd_of (subbuf (g_buf s) (bgd_off f grp) 32))) } }"

definition write_bgd :: "'d blk \<Rightarrow> u32 \<Rightarrow> bgd \<Rightarrow> ('d, bool) prog" where
  "write_bgd io grp b = do {
     f \<leftarrow> asks fs;
     if grp \<ge> groups_count f then ret False
     else do {
       ok \<leftarrow> read_block io (bgd_block f grp) GBuf;
       if \<not> ok then ret False
       else do {
         _ \<leftarrow> modify (\<lambda>s. s\<lparr>g_buf := splice (g_buf s) (bgd_off f grp) (bgd_bytes b)\<rparr>);
         write_block io (bgd_block f grp) GBuf } } }"

definition inode_byte :: "ext2_fs \<Rightarrow> bgd \<Rightarrow> u32 \<Rightarrow> u32" where
  "inode_byte f b inode_num =
     bg_inode_table b * block_size f + ((inode_num - 1) mod inodes_per_group f) * inode_size f"

definition read_inode :: "'d blk \<Rightarrow> u32 \<Rightarrow> ('d, inode option) prog" where
  "read_inode io inode_num = do {
     f \<leftarrow> asks fs;
     if inode_num = 0 \<or> inode_num > s_inodes_count (sb f) then ret None
     else do {
       _ \<leftarrow> require (inodes_per_group f \<noteq> 0);
       r \<leftarrow> read_bgd io ((inode_num - 1) div inodes_per_group f);
       case r of None \<Rightarrow> ret None
       | Some b \<Rightarrow> do {
           ok \<leftarrow> read_block io (inode_byte f b inode_num div block_size f) GBuf;
           if \<not> ok then ret None
           else asks (\<lambda>s. Some (inode_of (subbuf (g_buf s) (unat (inode_byte f b inode_num mod block_size f)) 128))) } } }"

definition write_inode :: "'d blk \<Rightarrow> u32 \<Rightarrow> inode \<Rightarrow> ('d, bool) prog" where
  "write_inode io inode_num i = do {
     f \<leftarrow> asks fs;
     if inode_num = 0 \<or> inode_num > s_inodes_count (sb f) then ret False
     else do {
       _ \<leftarrow> require (inodes_per_group f \<noteq> 0);
       r \<leftarrow> read_bgd io ((inode_num - 1) div inodes_per_group f);
       case r of None \<Rightarrow> ret False
       | Some b \<Rightarrow> do {
           ok \<leftarrow> read_block io (inode_byte f b inode_num div block_size f) GBuf;
           if \<not> ok then ret False
           else do {
             _ \<leftarrow> modify (\<lambda>s. s\<lparr>g_buf := splice (g_buf s) (unat (inode_byte f b inode_num mod block_size f)) (inode_bytes i)\<rparr>);
             write_block io (inode_byte f b inode_num div block_size f) GBuf } } } }"

section \<open>Allocation\<close>

text \<open>The first clear bit of a bitmap of \<open>n\<close> bytes for which \<open>ok\<close> holds, as the two nested
  loops over bytes and bits find it: bytes of \<open>0xFF\<close> are skipped.\<close>

fun first_bit :: "(nat \<Rightarrow> bool) \<Rightarrow> u8 \<Rightarrow> nat \<Rightarrow> nat list \<Rightarrow> nat option" where
  "first_bit ok w base [] = None"
| "first_bit ok w base (b # bs) =
     (if \<not> bit w b \<and> ok (base + b) then Some (base + b) else first_bit ok w base bs)"

fun first_clear :: "(nat \<Rightarrow> bool) \<Rightarrow> u8 list \<Rightarrow> nat list \<Rightarrow> nat option" where
  "first_clear ok bm [] = None"
| "first_clear ok bm (i # is) =
     (if bm ! i = 0xFF then first_clear ok bm is
      else case first_bit ok (bm ! i) (i * 8) [0..<8] of
             Some k \<Rightarrow> Some k | None \<Rightarrow> first_clear ok bm is)"

definition mark_bit :: "u8 list \<Rightarrow> nat \<Rightarrow> u8 list" where
  "mark_bit bm k = bm[k div 8 := bm ! (k div 8) OR push_bit (k mod 8) 1]"

definition unmark_bit :: "u8 list \<Rightarrow> nat \<Rightarrow> u8 list" where
  "unmark_bit bm k = bm[k div 8 := bm ! (k div 8) AND NOT (push_bit (k mod 8) 1)]"

text \<open>\<open>if (count > 0) count--\<close> on a superblock counter, and \<open>count++\<close>.\<close>

definition sb_dec :: "nat \<Rightarrow> 'd ext2 \<Rightarrow> 'd ext2" where
  "sb_dec off s = (let v = rd32 (sb (fs s)) off in if v > 0 then sb_put off (v - 1) s else s)"

definition sb_inc :: "nat \<Rightarrow> 'd ext2 \<Rightarrow> 'd ext2" where
  "sb_inc off s = sb_put off (rd32 (sb (fs s)) off + 1) s"

text \<open>One round of the loop over the groups: \<open>None\<close> goes on to the next group.\<close>

definition alloc_in_group :: "'d blk \<Rightarrow> u32 \<Rightarrow> ('d, u32 option) prog" where
  "alloc_in_group io g = do {
     f \<leftarrow> asks fs;
     rb \<leftarrow> read_bgd io g;
     case rb of None \<Rightarrow> ret (Some 0)
     | Some b \<Rightarrow>
       if bg_free_blocks_count b = 0 then ret None
       else do {
         ok \<leftarrow> read_block io (bg_block_bitmap b) GBuf;
         if \<not> ok then ret (Some 0)
         else do {
           bm \<leftarrow> asks g_buf;
           case first_clear (\<lambda>_. True) bm [0..<unat (block_size f)] of None \<Rightarrow> ret None
           | Some k \<Rightarrow> do {
               _ \<leftarrow> modify (\<lambda>s. s\<lparr>g_buf := mark_bit (g_buf s) k\<rparr>);
               ok \<leftarrow> write_block io (bg_block_bitmap b) GBuf;
               if \<not> ok then ret (Some 0)
               else do {
                 ok \<leftarrow> write_bgd io g (b\<lparr>bg_free_blocks_count := bg_free_blocks_count b - 1\<rparr>);
                 if \<not> ok then ret (Some 0)
                 else do {
                   _ \<leftarrow> modify (sb_dec 12);
                   _ \<leftarrow> write_superblock io;
                   ret (Some (g * blocks_per_group f + of_nat k + first_data_block f)) } } } } } }"

definition alloc_block_internal :: "'d blk \<Rightarrow> ('d, u32) prog" where
  "alloc_block_internal io = do {
     f \<leftarrow> asks fs;
     r \<leftarrow> first_m (alloc_in_group io) (map of_nat [0..<unat (groups_count f)]);
     ret (case r of Some n \<Rightarrow> n | None \<Rightarrow> 0) }"

definition free_block :: "'d blk \<Rightarrow> u32 \<Rightarrow> ('d, unit) prog" where
  "free_block io block = do {
     f \<leftarrow> asks fs;
     if block = 0 \<or> block < first_data_block f then ret ()
     else do {
       _ \<leftarrow> require (blocks_per_group f \<noteq> 0);
       let adjusted = block - first_data_block f;
       let g = adjusted div blocks_per_group f;
       let idx = unat (adjusted mod blocks_per_group f);
       if g \<ge> groups_count f then ret ()
       else do {
         rb \<leftarrow> read_bgd io g;
         case rb of None \<Rightarrow> ret ()
         | Some b \<Rightarrow> do {
             ok \<leftarrow> read_block io (bg_block_bitmap b) GBuf;
             if \<not> ok then ret ()
             else do {
               bm \<leftarrow> asks g_buf;
               _ \<leftarrow> require (idx div 8 < length bm);
               _ \<leftarrow> modify (\<lambda>s. s\<lparr>g_buf := unmark_bit (g_buf s) idx\<rparr>);
               _ \<leftarrow> write_block io (bg_block_bitmap b) GBuf;
               _ \<leftarrow> write_bgd io g (b\<lparr>bg_free_blocks_count := bg_free_blocks_count b + 1\<rparr>);
               _ \<leftarrow> modify (sb_inc 12);
               _ \<leftarrow> write_superblock io;
               ret () } } } } }"

text \<open>One round of the loop over the groups: \<open>None\<close> goes on to the next group.\<close>

definition alloc_inode_in_group :: "'d blk \<Rightarrow> bool \<Rightarrow> u32 \<Rightarrow> ('d, u32 option) prog" where
  "alloc_inode_in_group io is_dir g = do {
     f \<leftarrow> asks fs;
     rb \<leftarrow> read_bgd io g;
     case rb of None \<Rightarrow> ret (Some 0)
     | Some b \<Rightarrow>
       if bg_free_inodes_count b = 0 then ret None
       else do {
         ok \<leftarrow> read_block io (bg_inode_bitmap b) GBuf;
         if \<not> ok then ret (Some 0)
         else do {
           bm \<leftarrow> asks g_buf;
           let num = (\<lambda>k. g * inodes_per_group f + of_nat k + 1);
           case first_clear (\<lambda>k. num k \<ge> s_first_ino (sb f)) bm [0..<unat (block_size f)] of None \<Rightarrow> ret None
           | Some k \<Rightarrow> do {
               _ \<leftarrow> modify (\<lambda>s. s\<lparr>g_buf := mark_bit (g_buf s) k\<rparr>);
               ok \<leftarrow> write_block io (bg_inode_bitmap b) GBuf;
               if \<not> ok then ret (Some 0)
               else do {
                 let b = b\<lparr>bg_free_inodes_count := bg_free_inodes_count b - 1\<rparr>;
                 let b = (if is_dir then b\<lparr>bg_used_dirs_count := bg_used_dirs_count b + 1\<rparr> else b);
                 ok \<leftarrow> write_bgd io g b;
                 if \<not> ok then ret (Some 0)
                 else do {
                   _ \<leftarrow> modify (sb_dec 16);
                   _ \<leftarrow> write_superblock io;
                   ret (Some (num k)) } } } } } }"

definition alloc_inode :: "'d blk \<Rightarrow> bool \<Rightarrow> ('d, u32) prog" where
  "alloc_inode io is_dir = do {
     f \<leftarrow> asks fs;
     r \<leftarrow> first_m (alloc_inode_in_group io is_dir) (map of_nat [0..<unat (groups_count f)]);
     ret (case r of Some n \<Rightarrow> n | None \<Rightarrow> 0) }"

definition free_inode :: "'d blk \<Rightarrow> u32 \<Rightarrow> bool \<Rightarrow> ('d, unit) prog" where
  "free_inode io inode_num is_dir = do {
     f \<leftarrow> asks fs;
     if inode_num = 0 \<or> inode_num \<le> 10 then ret ()
     else do {
       _ \<leftarrow> require (inodes_per_group f \<noteq> 0);
       let g = (inode_num - 1) div inodes_per_group f;
       let idx = unat ((inode_num - 1) mod inodes_per_group f);
       if g \<ge> groups_count f then ret ()
       else do {
         rb \<leftarrow> read_bgd io g;
         case rb of None \<Rightarrow> ret ()
         | Some b \<Rightarrow> do {
             ok \<leftarrow> read_block io (bg_inode_bitmap b) GBuf;
             if \<not> ok then ret ()
             else do {
               bm \<leftarrow> asks g_buf;
               _ \<leftarrow> require (idx div 8 < length bm);
               _ \<leftarrow> modify (\<lambda>s. s\<lparr>g_buf := unmark_bit (g_buf s) idx\<rparr>);
               _ \<leftarrow> write_block io (bg_inode_bitmap b) GBuf;
               let b = b\<lparr>bg_free_inodes_count := bg_free_inodes_count b + 1\<rparr>;
               let b = (if is_dir \<and> bg_used_dirs_count b > 0 then b\<lparr>bg_used_dirs_count := bg_used_dirs_count b - 1\<rparr> else b);
               _ \<leftarrow> write_bgd io g b;
               _ \<leftarrow> modify (sb_inc 16);
               _ \<leftarrow> write_superblock io;
               ret () } } } } }"

section \<open>Block pointers\<close>

definition ppb :: "ext2_fs \<Rightarrow> u32" where
  "ppb f = block_size f div 4"

text \<open>\<open>((uint32_t* )buf)[i]\<close>, and the assignment to it.\<close>

definition word_at :: "u8 list \<Rightarrow> u32 \<Rightarrow> u32" where
  "word_at buf i = rd32 buf (4 * unat i)"

definition put_word :: "u8 list \<Rightarrow> u32 \<Rightarrow> u32 \<Rightarrow> u8 list" where
  "put_word buf i v = wr32 buf (4 * unat i) v"

text \<open>One step down: nothing below a zero pointer or an unreadable block.\<close>

definition follow :: "'d blk \<Rightarrow> u32 \<Rightarrow> u32 \<Rightarrow> ('d, u32) prog" where
  "follow io blk i = do {
     if blk = 0 then ret 0
     else do { ok \<leftarrow> read_block io blk GBuf; if \<not> ok then ret 0 else asks (\<lambda>s. word_at (g_buf s) i) } }"

definition get_inode_block :: "'d blk \<Rightarrow> inode \<Rightarrow> u32 \<Rightarrow> ('d, u32) prog" where
  "get_inode_block io i idx = do {
     f \<leftarrow> asks fs;
     let p = ppb f;
     if idx < 12 then ret (i_block i ! unat idx)
     else if idx - 12 < p then follow io (i_block i ! 12) (idx - 12)
     else if idx - 12 - p < p * p then do {
       let k = idx - 12 - p;
       ind \<leftarrow> follow io (i_block i ! 13) (k div p);
       follow io ind (k mod p) }
     else if idx - 12 - p - p * p < p * p * p then do {
       let k = idx - 12 - p - p * p;
       ind \<leftarrow> follow io (i_block i ! 14) (k div (p * p));
       ind2 \<leftarrow> follow io ind ((k mod (p * p)) div p);
       follow io ind2 ((k mod (p * p)) mod p) }
     else ret 0 }"

text \<open>A fresh block of zeros, or nothing.\<close>

definition new_zero_block :: "'d blk \<Rightarrow> ('d, u32 option) prog" where
  "new_zero_block io = do {
     f \<leftarrow> asks fs;
     ind \<leftarrow> alloc_block_internal io;
     if ind = 0 then ret None
     else do {
       _ \<leftarrow> modify (\<lambda>s. s\<lparr>g_buf := splice (g_buf s) 0 (replicate (unat (block_size f)) 0)\<rparr>);
       ok \<leftarrow> write_block io ind GBuf;
       ret (if ok then Some ind else None) } }"

text \<open>The pointer \<open>i_block[n]\<close>, allocated when it is zero.\<close>

definition top_pointer :: "'d blk \<Rightarrow> inode \<Rightarrow> nat \<Rightarrow> ('d, inode option) prog" where
  "top_pointer io i n = do {
     if i_block i ! n \<noteq> 0 then ret (Some i)
     else do {
       r \<leftarrow> new_zero_block io;
       ret (map_option (\<lambda>ind. i\<lparr>i_block := (i_block i)[n := ind]\<rparr>) r) } }"

text \<open>With the block \<open>blk\<close> in \<open>g_buf2\<close>: its pointer \<open>k\<close>, allocated and written back when it
  is zero.\<close>

definition sub_pointer :: "'d blk \<Rightarrow> u32 \<Rightarrow> u32 \<Rightarrow> ('d, u32 option) prog" where
  "sub_pointer io blk k = do {
     ok \<leftarrow> read_block io blk GBuf2;
     if \<not> ok then ret None
     else do {
       ind \<leftarrow> asks (\<lambda>s. word_at (g_buf2 s) k);
       if ind \<noteq> 0 then ret (Some ind)
       else do {
         r \<leftarrow> new_zero_block io;
         case r of None \<Rightarrow> ret None
         | Some ind \<Rightarrow> do {
             _ \<leftarrow> modify (\<lambda>s. s\<lparr>g_buf2 := put_word (g_buf2 s) k ind\<rparr>);
             ok \<leftarrow> write_block io blk GBuf2;
             ret (if ok then Some ind else None) } } } }"

text \<open>\<open>blk[k] = v\<close> through \<open>g_buf\<close>.\<close>

definition store_pointer :: "'d blk \<Rightarrow> u32 \<Rightarrow> u32 \<Rightarrow> u32 \<Rightarrow> ('d, bool) prog" where
  "store_pointer io blk k v = do {
     ok \<leftarrow> read_block io blk GBuf;
     if \<not> ok then ret False
     else do {
       _ \<leftarrow> modify (\<lambda>s. s\<lparr>g_buf := put_word (g_buf s) k v\<rparr>);
       write_block io blk GBuf } }"

text \<open>The inode is passed by pointer: the result carries it, also when the call fails.\<close>

definition set_inode_block :: "'d blk \<Rightarrow> inode \<Rightarrow> u32 \<Rightarrow> u32 \<Rightarrow> ('d, bool \<times> inode) prog" where
  "set_inode_block io i idx v = do {
     f \<leftarrow> asks fs;
     let p = ppb f;
     if idx < 12 then ret (True, i\<lparr>i_block := (i_block i)[unat idx := v]\<rparr>)
     else if idx - 12 < p then do {
       r \<leftarrow> top_pointer io i 12;
       case r of None \<Rightarrow> ret (False, i)
       | Some i \<Rightarrow> do { ok \<leftarrow> store_pointer io (i_block i ! 12) (idx - 12) v; ret (ok, i) } }
     else if idx - 12 - p < p * p then do {
       let k = idx - 12 - p;
       r \<leftarrow> top_pointer io i 13;
       case r of None \<Rightarrow> ret (False, i)
       | Some i \<Rightarrow> do {
           r \<leftarrow> sub_pointer io (i_block i ! 13) (k div p);
           case r of None \<Rightarrow> ret (False, i)
           | Some ind \<Rightarrow> do { ok \<leftarrow> store_pointer io ind (k mod p) v; ret (ok, i) } } }
     else if idx - 12 - p - p * p < p * p * p then do {
       let k = idx - 12 - p - p * p;
       r \<leftarrow> top_pointer io i 14;
       case r of None \<Rightarrow> ret (False, i)
       | Some i \<Rightarrow> do {
           r \<leftarrow> sub_pointer io (i_block i ! 14) (k div (p * p));
           case r of None \<Rightarrow> ret (False, i)
           | Some dind \<Rightarrow> do {
               r \<leftarrow> sub_pointer io dind ((k mod (p * p)) div p);
               case r of None \<Rightarrow> ret (False, i)
               | Some ind \<Rightarrow> do { ok \<leftarrow> store_pointer io ind ((k mod (p * p)) mod p) v; ret (ok, i) } } } }
     else ret (False, i) }"

section \<open>Freeing the blocks of a file\<close>

text \<open>The loop over the pointers of the block in \<open>g_buf\<close>.  Each \<open>free_block\<close> reads the next
  pointer from the buffer as the call before has left it.\<close>

definition free_gbuf_pointers :: "'d blk \<Rightarrow> u32 \<Rightarrow> ('d, unit) prog" where
  "free_gbuf_pointers io p = for_m (\<lambda>j. do {
     b \<leftarrow> asks (\<lambda>s. word_at (g_buf s) j);
     if b \<noteq> 0 then free_block io b else ret () }) (map of_nat [0..<unat p])"

text \<open>A pointer whose block is an array of pointers to data blocks.\<close>

definition free_indirect :: "'d blk \<Rightarrow> u32 \<Rightarrow> u32 \<Rightarrow> ('d, unit) prog" where
  "free_indirect io p ind = do {
     ok \<leftarrow> read_block io ind GBuf;
     _ \<leftarrow> (if ok then free_gbuf_pointers io p else ret ());
     free_block io ind }"

definition free_double :: "'d blk \<Rightarrow> u32 \<Rightarrow> u32 \<Rightarrow> ('d, unit) prog" where
  "free_double io p tp = do {
     ok \<leftarrow> read_block io tp GBuf2;
     _ \<leftarrow> (if ok then for_m (\<lambda>j. do {
            ind \<leftarrow> asks (\<lambda>s. word_at (g_buf2 s) j);
            if ind = 0 then ret () else free_indirect io p ind }) (map of_nat [0..<unat p])
          else ret ());
     free_block io tp }"

definition free_triple :: "'d blk \<Rightarrow> u32 \<Rightarrow> u32 \<Rightarrow> ('d, unit) prog" where
  "free_triple io p tp = do {
     ok \<leftarrow> read_block io tp GBuf2;
     _ \<leftarrow> (if ok then for_m (\<lambda>i. do {
            dind \<leftarrow> asks (\<lambda>s. word_at (g_buf2 s) i);
            if dind = 0 then ret ()
            else do {
              ok \<leftarrow> read_block io dind GBuf;
              _ \<leftarrow> (if ok then for_m (\<lambda>j. do {
                     ind \<leftarrow> asks (\<lambda>s. word_at (g_buf s) j);
                     if ind = 0 then ret () else free_indirect io p ind }) (map of_nat [0..<unat p])
                   else ret ());
              free_block io dind } }) (map of_nat [0..<unat p])
          else ret ());
     free_block io tp }"

definition free_inode_blocks :: "'d blk \<Rightarrow> inode \<Rightarrow> ('d, inode) prog" where
  "free_inode_blocks io i = do {
     f \<leftarrow> asks fs;
     let p = ppb f;
     _ \<leftarrow> for_m (\<lambda>k. if i_block i ! k \<noteq> 0 then free_block io (i_block i ! k) else ret ()) [0..<12];
     _ \<leftarrow> (if i_block i ! 12 \<noteq> 0 then free_indirect io p (i_block i ! 12) else ret ());
     _ \<leftarrow> (if i_block i ! 13 \<noteq> 0 then free_double io p (i_block i ! 13) else ret ());
     _ \<leftarrow> (if i_block i ! 14 \<noteq> 0 then free_triple io p (i_block i ! 14) else ret ());
     ret (i\<lparr>i_block := replicate 15 0, i_blocks := 0\<rparr>) }"

section \<open>Directory blocks\<close>

text \<open>The fields of the packed \<open>DirEntry\<close> at \<open>off\<close>; the name follows the eight bytes.\<close>

definition d_inode :: "u8 list \<Rightarrow> nat \<Rightarrow> u32" where "d_inode b off = rd32 b off"
definition d_rec_len :: "u8 list \<Rightarrow> nat \<Rightarrow> nat" where "d_rec_len b off = unat (rd16 b (off + 4))"
definition d_name_len :: "u8 list \<Rightarrow> nat \<Rightarrow> nat" where "d_name_len b off = unat (rd8 b (off + 6))"
definition d_file_type :: "u8 list \<Rightarrow> nat \<Rightarrow> u8" where "d_file_type b off = rd8 b (off + 7)"

text \<open>The two \<open>break\<close> conditions of every walk over a block of \<open>n\<close> bytes.\<close>

definition d_bad :: "u8 list \<Rightarrow> nat \<Rightarrow> nat \<Rightarrow> bool" where
  "d_bad b n off \<longleftrightarrow> d_rec_len b off < 8 \<or> off + d_rec_len b off > n"

definition d_is :: "u8 list \<Rightarrow> nat \<Rightarrow> cstr \<Rightarrow> bool" where
  "d_is b off nm \<longleftrightarrow> d_inode b off \<noteq> 0 \<and> d_name_len b off = length nm \<and> subbuf b (off + 8) (length nm) = nm"

function find_in_block :: "u8 list \<Rightarrow> nat \<Rightarrow> cstr \<Rightarrow> nat \<Rightarrow> nat option" where
  "find_in_block b n nm off =
     (if off + 8 \<le> n then
        (if d_bad b n off then None
         else if d_is b off nm then Some off
         else find_in_block b n nm (off + d_rec_len b off))
      else None)"
  by pat_completeness auto
termination by (relation "measure (\<lambda>(b, n, nm, off). n - off)") (auto simp: d_bad_def)

text \<open>\<open>(8 + len + 3) & ~3\<close>\<close>

definition d_size :: "nat \<Rightarrow> nat" where
  "d_size len = (len + 11) div 4 * 4"

text \<open>Filling an entry: inode, name and type, the rest of the record cleared.\<close>

definition fill_entry :: "u8 list \<Rightarrow> nat \<Rightarrow> u32 \<Rightarrow> nat \<Rightarrow> cstr \<Rightarrow> u8 \<Rightarrow> u8 list" where
  "fill_entry b off ino rl nm ty =
     splice b off (le32 ino @ le16 (of_nat rl) @ [of_nat (length nm), ty] @ nm @ replicate (rl - 8 - length nm) 0)"

function insert_in_block :: "u8 list \<Rightarrow> nat \<Rightarrow> u32 \<Rightarrow> cstr \<Rightarrow> u8 \<Rightarrow> nat \<Rightarrow> u8 list option" where
  "insert_in_block b n ino nm ty off =
     (if off + 8 \<le> n then
        (if d_bad b n off then None
         else
           let rl = d_rec_len b off; needed = d_size (length nm); real = d_size (d_name_len b off) in
           if d_inode b off = 0 \<and> rl \<ge> needed then Some (fill_entry b off ino rl nm ty)
           else if d_inode b off \<noteq> 0 \<and> rl \<ge> real + needed
           then Some (fill_entry (wr16 b (off + 4) (of_nat real)) (off + real) ino (rl - real) nm ty)
           else insert_in_block b n ino nm ty (off + rl))
      else None)"
  by pat_completeness auto
termination by (relation "measure (\<lambda>(b, n, ino, nm, ty, off). n - off)") (auto simp: d_bad_def)

text \<open>\<open>prev\<close> is the entry before, \<open>None\<close> for \<open>0xFFFFFFFF\<close>.\<close>

function remove_in_block :: "u8 list \<Rightarrow> nat \<Rightarrow> cstr \<Rightarrow> nat \<Rightarrow> nat option \<Rightarrow> (u32 \<times> u8 list) option" where
  "remove_in_block b n nm off prev =
     (if off + 8 \<le> n then
        (if d_bad b n off then None
         else if d_is b off nm then
           Some (d_inode b off,
             case prev of Some p \<Rightarrow> wr16 b (p + 4) (rd16 b (p + 4) + rd16 b (off + 4))
             | None \<Rightarrow> wr32 b off 0)
         else remove_in_block b n nm (off + d_rec_len b off) (Some off))
      else None)"
  by pat_completeness auto
termination by (relation "measure (\<lambda>(b, n, nm, off, prev). n - off)") (auto simp: d_bad_def)

function find_dotdot :: "u8 list \<Rightarrow> nat \<Rightarrow> nat \<Rightarrow> u32 option" where
  "find_dotdot b n off =
     (if off + 8 \<le> n then
        (if d_bad b n off then None
         else if d_name_len b off = 2 \<and> b ! (off + 8) = 46 \<and> b ! (off + 9) = 46 then Some (d_inode b off)
         else find_dotdot b n (off + d_rec_len b off))
      else None)"
  by pat_completeness auto
termination by (relation "measure (\<lambda>(b, n, off). n - off)") (auto simp: d_bad_def)

declare find_in_block.simps [simp del] insert_in_block.simps [simp del] remove_in_block.simps [simp del]
  find_dotdot.simps [simp del]

section \<open>Directories\<close>

definition is_dir_mode :: "inode \<Rightarrow> bool" where
  "is_dir_mode i \<longleftrightarrow> i_mode i AND S_IFMT = S_IFDIR"

definition num_blocks :: "ext2_fs \<Rightarrow> inode \<Rightarrow> u32" where
  "num_blocks f i = (i_size i + block_size f - 1) div block_size f"

text \<open>A loop over the blocks of a directory: a hole is skipped, \<open>fail\<close> on an unreadable block,
  \<open>body\<close> gets the block number with the block in \<open>dir_buf\<close>.\<close>

definition each_dir_block :: "'d blk \<Rightarrow> inode \<Rightarrow> 'r \<Rightarrow> (u32 \<Rightarrow> ('d, 'r option) prog) \<Rightarrow> ('d, 'r option) prog" where
  "each_dir_block io dir fail body = do {
     f \<leftarrow> asks fs;
     first_m (\<lambda>b. do {
       blk \<leftarrow> get_inode_block io dir b;
       if blk = 0 then ret None
       else do {
         ok \<leftarrow> read_block io blk DirBuf;
         if \<not> ok then ret (Some fail) else body blk } }) (map of_nat [0..<unat (num_blocks f dir)]) }"

definition find_dir_entry :: "'d blk \<Rightarrow> u32 \<Rightarrow> cstr \<Rightarrow> ('d, u32) prog" where
  "find_dir_entry io dir_inode nm = do {
     r \<leftarrow> read_inode io dir_inode;
     case r of None \<Rightarrow> ret 0
     | Some dir \<Rightarrow>
       if \<not> is_dir_mode dir \<or> nm = [] \<or> length nm > 255 then ret 0
       else do {
         f \<leftarrow> asks fs;
         r \<leftarrow> each_dir_block io dir 0 (\<lambda>blk. asks (\<lambda>s.
           map_option (d_inode (dir_buf s)) (find_in_block (dir_buf s) (unat (block_size f)) nm 0)));
         ret (case r of Some n \<Rightarrow> n | None \<Rightarrow> 0) } }"

definition add_dir_entry :: "'d blk \<Rightarrow> u32 \<Rightarrow> u32 \<Rightarrow> cstr \<Rightarrow> u8 \<Rightarrow> ('d, bool) prog" where
  "add_dir_entry io dir_inode new_inode nm ty = do {
     r \<leftarrow> read_inode io dir_inode;
     case r of None \<Rightarrow> ret False
     | Some dir \<Rightarrow>
       if length nm > 255 then ret False
       else do {
         f \<leftarrow> asks fs;
         let n = unat (block_size f);
         r \<leftarrow> each_dir_block io dir False (\<lambda>blk. do {
           b \<leftarrow> asks dir_buf;
           case insert_in_block b n new_inode nm ty 0 of None \<Rightarrow> ret None
           | Some b' \<Rightarrow> do {
               _ \<leftarrow> modify (\<lambda>s. s\<lparr>dir_buf := b'\<rparr>);
               ok \<leftarrow> write_block io blk DirBuf;
               ret (Some ok) } });
         case r of Some ok \<Rightarrow> ret ok
         | None \<Rightarrow> do {
             blk \<leftarrow> alloc_block_internal io;
             if blk = 0 then ret False
             else do {
               _ \<leftarrow> modify (\<lambda>s. s\<lparr>dir_buf := fill_entry (dir_buf s) 0 new_inode n nm ty\<rparr>);
               ok \<leftarrow> write_block io blk DirBuf;
               if \<not> ok then do { _ \<leftarrow> free_block io blk; ret False }
               else do {
                 (ok, dir) \<leftarrow> set_inode_block io dir (num_blocks f dir) blk;
                 if \<not> ok then do { _ \<leftarrow> free_block io blk; ret False }
                 else write_inode io dir_inode
                   (dir\<lparr>i_size := (num_blocks f dir + 1) * block_size f,
                        i_blocks := i_blocks dir + block_size f div 512\<rparr>) } } } } }"

definition remove_dir_entry :: "'d blk \<Rightarrow> u32 \<Rightarrow> cstr \<Rightarrow> ('d, bool \<times> u32) prog" where
  "remove_dir_entry io dir_inode nm = do {
     r \<leftarrow> read_inode io dir_inode;
     case r of None \<Rightarrow> ret (False, 0)
     | Some dir \<Rightarrow> do {
         f \<leftarrow> asks fs;
         r \<leftarrow> each_dir_block io dir (False, 0) (\<lambda>blk. do {
           b \<leftarrow> asks dir_buf;
           case remove_in_block b (unat (block_size f)) nm 0 None of None \<Rightarrow> ret None
           | Some (ino, b') \<Rightarrow> do {
               _ \<leftarrow> modify (\<lambda>s. s\<lparr>dir_buf := b'\<rparr>);
               ok \<leftarrow> write_block io blk DirBuf;
               ret (Some (ok, ino)) } });
         ret (case r of Some x \<Rightarrow> x | None \<Rightarrow> (False, 0)) } }"

section \<open>Paths\<close>

definition split_path :: "cstr \<Rightarrow> cstr \<times> cstr" where
  "split_path path =
     (let p = skip_sep path;
          last = rev (takeWhile (\<lambda>c. \<not> is_sep c) (rev p));
          len = length p - length last;
          len = (if len > 0 \<and> is_sep (p ! (len - 1)) then len - 1 else len)
      in (take 255 (take len p), take 63 last))"

text \<open>The inode that \<open>..\<close> of the directory \<open>cur\<close> names, if its first block can be read.\<close>

definition parent_of :: "'d blk \<Rightarrow> inode \<Rightarrow> ('d, u32 option) prog" where
  "parent_of io i = do {
     f \<leftarrow> asks fs;
     blk \<leftarrow> get_inode_block io i 0;
     if blk = 0 then ret None
     else do {
       ok \<leftarrow> read_block io blk DirBuf;
       if \<not> ok then ret None else asks (\<lambda>s. find_dotdot (dir_buf s) (unat (block_size f)) 0) } }"

function resolve_loop :: "'d blk \<Rightarrow> u32 \<Rightarrow> cstr \<Rightarrow> ('d, u32) prog" where
  "resolve_loop io cur p =
     (if p = [] then ret cur
      else
        let cmp = comp_of p; rest = after_comp p in
        if cmp = [] \<or> cmp = [46] then resolve_loop io cur rest
        else if cmp = [46, 46] then do {
          f \<leftarrow> asks fs;
          if cur = root_inode f then resolve_loop io cur rest
          else do {
            r \<leftarrow> read_inode io cur;
            case r of None \<Rightarrow> resolve_loop io cur rest
            | Some i \<Rightarrow> do {
                r \<leftarrow> parent_of io i;
                resolve_loop io (case r of Some n \<Rightarrow> n | None \<Rightarrow> cur) rest } } }
        else do {
          next \<leftarrow> find_dir_entry io cur cmp;
          if next = 0 then ret 0 else resolve_loop io next rest })"
  by pat_completeness auto
termination by (relation "measure (\<lambda>(io, cur, p). length p)") (auto simp: length_after_comp)

declare resolve_loop.simps [simp del]

definition resolve_relative :: "'d blk \<Rightarrow> u32 \<Rightarrow> cstr \<Rightarrow> ('d, u32) prog" where
  "resolve_relative io start path = do {
     f \<leftarrow> asks fs;
     if path = [] then ret start
     else if is_sep (cget path 0) then resolve_loop io (root_inode f) (tl path)
     else resolve_loop io start path }"

end
