(* ===== verification/Ext2Dir.thy ===== *)
theory Ext2Dir
  imports Ext2
begin

text \<open>
  The directory blocks of ext2 as lists of names.  \<open>dir_ok\<close> says that the records of a block
  tile it and hold their names; \<open>dir_list\<close> is the list of live entries in the order of the walk.
  Looking a name up, inserting it and removing it are the list operations.
\<close>

section \<open>Agreement of blocks on a range\<close>

definition agree :: "u8 list \<Rightarrow> u8 list \<Rightarrow> nat \<Rightarrow> nat \<Rightarrow> bool" where
  "agree b b' lo hi \<longleftrightarrow> length b' = length b \<and> (\<forall>i. lo \<le> i \<and> i < hi \<longrightarrow> b' ! i = b ! i)"

lemma agree_mono: "agree b b' lo hi \<Longrightarrow> lo \<le> lo' \<Longrightarrow> hi' \<le> hi \<Longrightarrow> agree b b' lo' hi'"
  by (auto simp: agree_def)

lemma agree_fields:
  assumes "agree b b' lo hi" "lo \<le> off" "off + 8 \<le> hi"
  shows "d_inode b' off = d_inode b off" "d_rec_len b' off = d_rec_len b off"
    "d_name_len b' off = d_name_len b off" "d_file_type b' off = d_file_type b off"
  using assms by (auto simp: agree_def d_inode_def d_rec_len_def d_name_len_def d_file_type_def rd8_def rd16_def rd32_def)

lemma agree_name:
  assumes "agree b b' lo hi" "lo \<le> off" "off + k \<le> hi" "hi \<le> length b"
  shows "subbuf b' off k = subbuf b off k"
  by (rule nth_equalityI) (use assms in \<open>auto simp: agree_def nth_subbuf\<close>)

lemma agree_splice:
  "off + length xs \<le> length b \<Longrightarrow> hi \<le> off \<or> off + length xs \<le> lo \<Longrightarrow> agree b (splice b off xs) lo hi"
  by (auto simp: agree_def nth_splice)

lemma agree_trans: "agree b b' lo hi \<Longrightarrow> agree b' b'' lo hi \<Longrightarrow> agree b b'' lo hi"
  by (auto simp: agree_def)

section \<open>The list of a block\<close>

function dir_ok :: "u8 list \<Rightarrow> nat \<Rightarrow> nat \<Rightarrow> bool" where
  "dir_ok b n off =
     (if off = n then True
      else if off + 8 \<le> n \<and> \<not> d_bad b n off \<and> 8 + d_name_len b off \<le> d_rec_len b off
      then dir_ok b n (off + d_rec_len b off) else False)"
  by pat_completeness auto
termination by (relation "measure (\<lambda>(b, n, off). n - off)") (auto simp: d_bad_def)

definition live :: "u8 list \<Rightarrow> nat \<Rightarrow> (cstr \<times> u32) list" where
  "live b off = (if d_inode b off \<noteq> 0 then [(subbuf b (off + 8) (d_name_len b off), d_inode b off)] else [])"

function dir_list :: "u8 list \<Rightarrow> nat \<Rightarrow> nat \<Rightarrow> (cstr \<times> u32) list" where
  "dir_list b n off =
     (if off + 8 \<le> n \<and> \<not> d_bad b n off then live b off @ dir_list b n (off + d_rec_len b off) else [])"
  by pat_completeness auto
termination by (relation "measure (\<lambda>(b, n, off). n - off)") (auto simp: d_bad_def)

declare dir_ok.simps [simp del] dir_list.simps [simp del]

lemma dir_ok_entry:
  assumes "dir_ok b n off" "off + 8 \<le> n"
  shows "\<not> d_bad b n off" "8 + d_name_len b off \<le> d_rec_len b off" "dir_ok b n (off + d_rec_len b off)"
    "8 \<le> d_rec_len b off" "off + d_rec_len b off \<le> n"
  using assms by (subst (asm) dir_ok.simps, auto simp: d_bad_def split: if_splits)+

lemma dir_okI:
  assumes "off + d_rec_len b off \<le> n" "8 + d_name_len b off \<le> d_rec_len b off" "dir_ok b n (off + d_rec_len b off)"
  shows "dir_ok b n off"
  using assms by (subst dir_ok.simps) (auto simp: d_bad_def)

lemma dir_list_entry:
  "dir_ok b n off \<Longrightarrow> off + 8 \<le> n \<Longrightarrow> dir_list b n off = live b off @ dir_list b n (off + d_rec_len b off)"
  by (subst dir_list.simps) (simp add: dir_ok_entry)

lemma dir_list_end: "\<not> off + 8 \<le> n \<Longrightarrow> dir_list b n off = []"
  by (subst dir_list.simps) simp

lemma agree_dir:
  assumes "agree b b' off n" "n \<le> length b" "dir_ok b n off"
  shows "dir_ok b' n off \<and> dir_list b' n off = dir_list b n off"
  using assms
proof (induction b n off rule: dir_ok.induct)
  case (1 b n off)
  show ?case
  proof (cases "off = n")
    case True
    then show ?thesis by (simp add: dir_ok.simps [of b' n n] dir_list_end)
  next
    case False
    then have o: "off + 8 \<le> n" using 1(4) by (simp add: dir_ok.simps [of b n off] split: if_splits)
    note e = dir_ok_entry [OF 1(4) o]
    note f = agree_fields [OF 1(2) order_refl o]
    have nm: "subbuf b' (off + 8) (d_name_len b off) = subbuf b (off + 8) (d_name_len b off)"
      by (rule agree_name [OF 1(2)]) (use e 1(3) in auto)
    have ih: "dir_ok b' n (off + d_rec_len b off) \<and> dir_list b' n (off + d_rec_len b off) = dir_list b n (off + d_rec_len b off)"
      by (rule 1(1)) (use False o e 1(3) agree_mono [OF 1(2)] in auto)
    have ok: "dir_ok b' n off" by (rule dir_okI) (use e f ih in auto)
    show ?thesis
      using ok ih f nm by (simp add: dir_list_entry [OF ok o] dir_list_entry [OF 1(4) o] live_def)
  qed
qed

text \<open>Looking up is \<open>map_of\<close>.\<close>

lemma find_is_map_of:
  assumes "dir_ok b n off" "n \<le> length b"
  shows "map_option (d_inode b) (find_in_block b n nm off) = map_of (dir_list b n off) nm"
  using assms
proof (induction b n nm off rule: find_in_block.induct)
  case (1 b n nm off)
  show ?case
  proof (cases "off + 8 \<le> n")
    case False
    then show ?thesis by (simp add: find_in_block.simps [of b n nm off] dir_list_end)
  next
    case o: True
    note e = dir_ok_entry [OF 1(2) o]
    have len: "length (subbuf b (off + 8) (d_name_len b off)) = d_name_len b off"
      using e 1(3) by simp
    have is_iff: "d_is b off nm \<longleftrightarrow> d_inode b off \<noteq> 0 \<and> subbuf b (off + 8) (d_name_len b off) = nm"
      using len by (auto simp: d_is_def)
    have ih: "\<not> d_is b off nm \<Longrightarrow> map_option (d_inode b) (find_in_block b n nm (off + d_rec_len b off))
        = map_of (dir_list b n (off + d_rec_len b off)) nm"
      by (rule 1(1)) (use o e 1(3) in auto)
    show ?thesis
      using e(1) o ih is_iff
      by (subst find_in_block.simps) (auto simp: dir_list_entry [OF 1(2) o] live_def)
  qed
qed

section \<open>Filling an entry\<close>

lemma d_size_bounds: "8 + len \<le> d_size len" "8 \<le> d_size len" "d_size len \<le> len + 11"
  by (simp_all add: d_size_def)

lemma unat_u16: "x < 65536 \<Longrightarrow> unat (of_nat x :: u16) = x"
  by (rule unat_of_nat_eq) simp

lemma unat_u8: "x < 256 \<Longrightarrow> unat (of_nat x :: u8) = x"
  by (rule unat_of_nat_eq) simp

lemma d_name_len_le: "d_name_len b off < 256"
  unfolding d_name_len_def using unsigned_less [of "rd8 b (off + 6)", where ?'a = nat] by simp


lemma length_fill:
  assumes fit: "off + rl \<le> length b" "8 + length nm \<le> rl" "length nm < 256" "rl < 65536"
  shows "length (fill_entry b off ino rl nm ty) = length b"
  using fit by (simp add: fill_entry_def)

lemma fill_bytes:
  assumes fit: "off + rl \<le> length b" "8 + length nm \<le> rl" "length nm < 256" "rl < 65536"
  shows "subbuf (fill_entry b off ino rl nm ty) off rl =
     le32 ino @ le16 (of_nat rl) @ [of_nat (length nm), ty] @ nm @ replicate (rl - 8 - length nm) 0"
  unfolding fill_entry_def by (rule subbuf_splice_same) (use fit in auto)

lemma fill_nth:
  assumes fit: "off + rl \<le> length b" "8 + length nm \<le> rl" "length nm < 256" "rl < 65536"
  shows "i < rl \<Longrightarrow> fill_entry b off ino rl nm ty ! (off + i) =
     (le32 ino @ le16 (of_nat rl) @ [of_nat (length nm), ty] @ nm @ replicate (rl - 8 - length nm) 0) ! i"
  unfolding fill_bytes [OF fit, of ino ty, symmetric] using fit by (simp add: nth_subbuf length_fill [OF fit])

lemma fill_name:
  assumes fit: "off + rl \<le> length b" "8 + length nm \<le> rl" "length nm < 256" "rl < 65536"
  shows "subbuf (fill_entry b off ino rl nm ty) (off + 8) (length nm) = nm"
proof (rule nth_equalityI)
  show "length (subbuf (fill_entry b off ino rl nm ty) (off + 8) (length nm)) = length nm"
    using fit by (simp add: length_fill [OF fit])
  fix i assume i: "i < length (subbuf (fill_entry b off ino rl nm ty) (off + 8) (length nm))"
  then have i: "i < length nm" using fit by (simp add: length_fill [OF fit])
  have "subbuf (fill_entry b off ino rl nm ty) (off + 8) (length nm) ! i = fill_entry b off ino rl nm ty ! (off + (8 + i))"
    using i fit by (simp add: nth_subbuf length_fill [OF fit] add.assoc)
  also have "\<dots> = nm ! i" using i fit by (subst fill_nth [OF fit]) (auto simp: nth_append)
  finally show "subbuf (fill_entry b off ino rl nm ty) (off + 8) (length nm) ! i = nm ! i" .
qed

lemma fill_fields:
  assumes fit: "off + rl \<le> length b" "8 + length nm \<le> rl" "length nm < 256" "rl < 65536"
  shows "d_inode (fill_entry b off ino rl nm ty) off = ino"
  "d_rec_len (fill_entry b off ino rl nm ty) off = rl"
  "d_name_len (fill_entry b off ino rl nm ty) off = length nm"
  "d_file_type (fill_entry b off ino rl nm ty) off = ty"
proof -
  let ?f = "fill_entry b off ino rl nm ty"
  define xs where "xs = le32 ino @ le16 (of_nat rl) @ [of_nat (length nm), ty] @ nm @ replicate (rl - 8 - length nm) 0"
  have n: "?f ! (off + i) = xs ! i" if "i < 8" for i using fill_nth [OF fit, of i] that fit by (simp add: xs_def)
  have "rd32 ?f off = rd32 xs 0" using n [of 0] n [of 1] n [of 2] n [of 3] by (simp add: rd32_def numeral_2_eq_2)
  then show "d_inode ?f off = ino" by (simp add: d_inode_def xs_def struct_simps)
  have "rd16 ?f (off + 4) = rd16 xs 4" using n [of 4] n [of 5] by (simp add: rd16_def ac_simps)
  also have "\<dots> = of_nat rl" by (simp add: xs_def struct_simps)
  finally show "d_rec_len ?f off = rl" using fit by (simp add: d_rec_len_def unat_u16)
  have "rd8 ?f (off + 6) = rd8 xs 6" using n [of 6] by (simp add: rd8_def)
  also have "\<dots> = of_nat (length nm)" by (simp add: xs_def struct_simps)
  finally show "d_name_len ?f off = length nm" using fit by (simp add: d_name_len_def unat_u8)
  have "rd8 ?f (off + 7) = rd8 xs 7" using n [of 7] by (simp add: rd8_def)
  also have "\<dots> = ty" by (simp add: xs_def struct_simps)
  finally show "d_file_type ?f off = ty" by (simp add: d_file_type_def)
qed

lemma fill_live:
  assumes fit: "off + rl \<le> length b" "8 + length nm \<le> rl" "length nm < 256" "rl < 65536"
  shows "ino \<noteq> 0 \<Longrightarrow> live (fill_entry b off ino rl nm ty) off = [(nm, ino)]"
  by (simp add: live_def fill_fields [OF fit] fill_name [OF fit])

lemma fill_agree:
  assumes fit: "off + rl \<le> length b" "8 + length nm \<le> rl" "length nm < 256" "rl < 65536"
  shows "hi \<le> off \<or> off + rl \<le> lo \<Longrightarrow> agree b (fill_entry b off ino rl nm ty) lo hi"
  unfolding fill_entry_def by (rule agree_splice) (use fit in auto)

section \<open>Insertion\<close>

lemma insert_at_empty:
  fixes ty :: u8
  assumes "dir_ok b n off" "off + 8 \<le> n" "n \<le> length b" "n < 65536" "length nm < 256" "ino \<noteq> 0"
    and "d_inode b off = 0" "d_size (length nm) \<le> d_rec_len b off"
  defines "b' \<equiv> fill_entry b off ino (d_rec_len b off) nm ty"
  shows "agree b b' 0 off \<and> agree b b' n (length b) \<and> dir_ok b' n off
    \<and> dir_list b' n off = (nm, ino) # dir_list b n (off + d_rec_len b off)
    \<and> dir_list b n off = dir_list b n (off + d_rec_len b off)"
proof -
  note e = dir_ok_entry [OF assms(1,2)]
  let ?rl = "d_rec_len b off"
  have fit: "off + ?rl \<le> length b" "8 + length nm \<le> ?rl" "length nm < 256" "?rl < 65536"
    using e assms(3-5,8) d_size_bounds(1) [of "length nm"] by linarith+
  note f = fill_fields [OF fit] and a = fill_agree [OF fit]
  have rest: "dir_ok b' n (off + ?rl) \<and> dir_list b' n (off + ?rl) = dir_list b n (off + ?rl)"
    unfolding b'_def by (rule agree_dir [OF _ assms(3) e(3)]) (rule a, simp)
  have ok: "dir_ok b' n off"
    by (rule dir_okI) (use rest e fit in \<open>auto simp: b'_def f\<close>)
  have "dir_list b' n off = (nm, ino) # dir_list b n (off + ?rl)"
    using rest by (subst dir_list_entry [OF ok assms(2)]) (simp add: b'_def f fill_live [OF fit] assms(6))
  moreover have "dir_list b n off = dir_list b n (off + ?rl)"
    by (simp add: dir_list_entry [OF assms(1,2)] live_def assms(7))
  ultimately show ?thesis using a e(5) ok by (simp add: b'_def)
qed

lemma insert_after_live:
  fixes ty :: u8
  assumes "dir_ok b n off" "off + 8 \<le> n" "n \<le> length b" "n < 65536" "length nm < 256" "ino \<noteq> 0"
    and "d_size (d_name_len b off) + d_size (length nm) \<le> d_rec_len b off"
  defines "real \<equiv> d_size (d_name_len b off)"
  defines "b' \<equiv> fill_entry (wr16 b (off + 4) (of_nat real)) (off + real) ino (d_rec_len b off - real) nm ty"
  shows "agree b b' 0 off \<and> agree b b' n (length b) \<and> dir_ok b' n off
    \<and> dir_list b' n off = live b off @ (nm, ino) # dir_list b n (off + d_rec_len b off)"
proof -
  note e = dir_ok_entry [OF assms(1,2)]
  let ?rl = "d_rec_len b off" and ?b1 = "wr16 b (off + 4) (of_nat real :: u16)"
  have len1: "length ?b1 = length b" using assms(2,3) by simp
  have real: "8 + d_name_len b off \<le> real" "real + d_size (length nm) \<le> ?rl"
    using assms(7) d_size_bounds by (auto simp: real_def)
  have fit: "off + real + (?rl - real) \<le> length ?b1" "8 + length nm \<le> ?rl - real" "length nm < 256" "?rl - real < 65536"
    using e assms(3-5) real d_size_bounds(1) [of "length nm"] len1 by linarith+
  note f = fill_fields [OF fit] and a = fill_agree [OF fit]
  have a1: "agree b ?b1 lo hi" if "hi \<le> off + 4 \<or> off + 6 \<le> lo" for lo hi
    unfolding wr16_def by (rule agree_splice) (use that assms(2,3) in auto)
  have keep: "agree b b' lo hi" if "hi \<le> off + 4 \<or> (off + 6 \<le> lo \<and> hi \<le> off + real) \<or> off + ?rl \<le> lo" for lo hi
    unfolding b'_def
    by (rule agree_trans [OF a1 a]) (use that real in auto)
  have rest: "dir_ok b' n (off + ?rl) \<and> dir_list b' n (off + ?rl) = dir_list b n (off + ?rl)"
    by (rule agree_dir [OF keep assms(3) e(3)]) simp
  have new: "d_rec_len b' (off + real) = ?rl - real" "d_name_len b' (off + real) = length nm"
    by (simp_all add: b'_def f)
  have ok2: "dir_ok b' n (off + real)"
    by (rule dir_okI) (use rest e fit real new in \<open>auto simp: add.assoc\<close>)
  have "real \<le> 65535" using real e assms(4) by linarith
  then have rl1: "d_rec_len ?b1 off = real"
    using assms(2,3) by (simp add: d_rec_len_def rd_wr_same unat_u16)
  have a2: "agree ?b1 b' off (off + real)" unfolding b'_def by (rule a) simp
  have hd_rl: "d_rec_len b' off = real"
    using agree_fields(2) [OF a2 order_refl] real rl1 by simp
  have nl: "d_name_len b' off = d_name_len b off" "d_inode b' off = d_inode b off"
    using keep [where lo = off and hi = "off + 4"] keep [where lo = "off + 6" and hi = "off + real"] real(1)
    by (auto simp: agree_def d_name_len_def d_inode_def rd8_def rd32_def)
  have nm: "subbuf b' (off + 8) (d_name_len b off) = subbuf b (off + 8) (d_name_len b off)"
    by (rule agree_name [OF keep, where lo = "off + 8" and hi = "off + real"]) (use real e assms(3) in auto)
  have ok: "dir_ok b' n off"
    by (rule dir_okI) (use hd_rl nl real ok2 e in auto)
  have o2: "off + real + 8 \<le> n" using fit e real by linarith
  have "dir_list b' n off = live b off @ dir_list b' n (off + real)"
    by (simp add: dir_list_entry [OF ok assms(2)] hd_rl live_def nl nm)
  also have "dir_list b' n (off + real) = (nm, ino) # dir_list b n (off + ?rl)"
    using rest real fill_live [OF fit assms(6)]
    by (simp add: dir_list_entry [OF ok2 o2] new add.assoc) (simp add: b'_def)
  finally show ?thesis using keep [where lo = 0 and hi = off] keep [where lo = n and hi = "length b"] e(5) ok by auto
qed

lemma insert_effect:
  assumes "insert_in_block b n ino nm ty off = Some b'"
    and "dir_ok b n off" "n \<le> length b" "n < 65536" "length nm < 256" "ino \<noteq> 0"
  shows "agree b b' 0 off \<and> agree b b' n (length b) \<and> dir_ok b' n off
    \<and> (\<exists>xs ys. dir_list b n off = xs @ ys \<and> dir_list b' n off = xs @ (nm, ino) # ys)"
  using assms
proof (induction b n ino nm ty off rule: insert_in_block.induct)
  case (1 b n ino nm ty off)
  have o: "off + 8 \<le> n" using 1(2) by (subst (asm) insert_in_block.simps) (auto split: if_splits)
  note e = dir_ok_entry [OF 1(3) o]
  let ?rl = "d_rec_len b off"
  consider (empty) "d_inode b off = 0" "d_size (length nm) \<le> ?rl" "b' = fill_entry b off ino ?rl nm ty"
    | (split) "d_inode b off \<noteq> 0" "d_size (d_name_len b off) + d_size (length nm) \<le> ?rl"
        "b' = fill_entry (wr16 b (off + 4) (of_nat (d_size (d_name_len b off)))) (off + d_size (d_name_len b off))
                ino (?rl - d_size (d_name_len b off)) nm ty"
    | (skip) "\<not> (d_inode b off = 0 \<and> ?rl \<ge> d_size (length nm))"
        "\<not> (d_inode b off \<noteq> 0 \<and> ?rl \<ge> d_size (d_name_len b off) + d_size (length nm))"
        "insert_in_block b n ino nm ty (off + ?rl) = Some b'"
    using 1(2) o e(1) by (subst (asm) insert_in_block.simps) (auto simp: Let_def split: if_splits)
  then show ?case
  proof cases
    case empty
    then show ?thesis using insert_at_empty [OF 1(3) o 1(4-7) empty(1,2)] by (metis append_Nil)
  next
    case split
    then show ?thesis
      using insert_after_live [OF 1(3) o 1(4-7) split(2)] dir_list_entry [OF 1(3) o] by metis
  next
    case skip
    have ih: "agree b b' 0 (off + ?rl) \<and> agree b b' n (length b) \<and> dir_ok b' n (off + ?rl)
      \<and> (\<exists>xs ys. dir_list b n (off + ?rl) = xs @ ys \<and> dir_list b' n (off + ?rl) = xs @ (nm, ino) # ys)"
      by (rule 1(1) [OF o e(1) refl refl refl _ _ skip(3) e(3) 1(4-7)]) (use skip in auto)
    then have a: "agree b b' 0 (off + ?rl)" by blast
    note f = agree_fields [OF a le0, of off]
    have le: "off + 8 \<le> off + ?rl" using e by simp
    have nm: "subbuf b' (off + 8) (d_name_len b off) = subbuf b (off + 8) (d_name_len b off)"
      by (rule agree_name [OF a]) (use e 1(4) in auto)
    have ok: "dir_ok b' n off" by (rule dir_okI) (use e f [OF le] ih in auto)
    have "dir_list b' n off = live b off @ dir_list b' n (off + ?rl)"
      using f [OF le] nm by (simp add: dir_list_entry [OF ok o] live_def)
    moreover have "agree b b' 0 off" using a by (rule agree_mono) simp_all
    ultimately show ?thesis
      using ih ok dir_list_entry [OF 1(3) o] by (metis append.assoc)
  qed
qed

section \<open>Removal\<close>

lemma merge_effect:
  assumes "dir_ok b n p" "p + 8 \<le> n" "off = p + d_rec_len b p" "off + 8 \<le> n" "n \<le> length b" "n < 65536"
  defines "b' \<equiv> wr16 b (p + 4) (rd16 b (p + 4) + rd16 b (off + 4))"
  shows "agree b b' 0 p \<and> agree b b' n (length b) \<and> dir_ok b' n p
    \<and> dir_list b' n p = live b p @ dir_list b n (off + d_rec_len b off)"
proof -
  note e = dir_ok_entry [OF assms(1,2)]
  have oko: "dir_ok b n off" using e(3) by (simp add: assms(3))
  note eo = dir_ok_entry [OF oko assms(4)]
  have keep: "agree b b' lo hi" if "hi \<le> p + 4 \<or> p + 6 \<le> lo" for lo hi
    unfolding b'_def wr16_def by (rule agree_splice) (use that assms(2,5) in auto)
  have "d_rec_len b p + d_rec_len b off < 65536" using eo(5) assms(3,6) by linarith
  then have rl: "d_rec_len b' p = d_rec_len b p + d_rec_len b off"
    using assms(2,5) unfolding b'_def d_rec_len_def
    by (simp add: rd_wr_same unat_add_no_overflow)
  have rest: "dir_ok b' n (off + d_rec_len b off) \<and> dir_list b' n (off + d_rec_len b off) = dir_list b n (off + d_rec_len b off)"
    by (rule agree_dir [OF keep assms(5) eo(3)]) (use e(4) assms(3) in auto)
  have nl: "d_name_len b' p = d_name_len b p" "d_inode b' p = d_inode b p"
    using keep [where lo = p and hi = "p + 4"] keep [where lo = "p + 6" and hi = "p + 8"]
    by (auto simp: agree_def d_name_len_def d_inode_def rd8_def rd32_def)
  have nm: "subbuf b' (p + 8) (d_name_len b p) = subbuf b (p + 8) (d_name_len b p)"
    by (rule agree_name [OF keep, where lo = "p + 8" and hi = n]) (use e assms(5) in auto)
  have sum: "p + (d_rec_len b p + d_rec_len b off) = off + d_rec_len b off" using assms(3) by simp
  have ok: "dir_ok b' n p"
    by (rule dir_okI) (use rl nl rest e(2) eo(5) sum in \<open>simp_all add: sum\<close>)
  have "dir_list b' n p = live b p @ dir_list b n (off + d_rec_len b off)"
    using rest by (simp add: dir_list_entry [OF ok assms(2)] rl sum live_def nl nm)
  then show ?thesis using keep [where lo = 0 and hi = p] keep [where lo = n and hi = "length b"] assms(2) ok by auto
qed

lemma remove_effect_prev:
  assumes "remove_in_block b n nm off (Some p) = Some (ino, b')"
    and "dir_ok b n p" "p + 8 \<le> n" "off = p + d_rec_len b p" "n \<le> length b" "n < 65536"
  shows "agree b b' 0 p \<and> agree b b' n (length b) \<and> dir_ok b' n p
    \<and> (\<exists>xs ys. dir_list b n off = xs @ (nm, ino) # ys \<and> dir_list b' n p = live b p @ xs @ ys \<and> nm \<notin> fst ` set xs)"
  using assms
proof (induction b n nm off "Some p" arbitrary: p rule: remove_in_block.induct)
  case (1 b n nm off)
  have o: "off + 8 \<le> n" using 1(2) by (subst (asm) remove_in_block.simps) (auto split: if_splits)
  note ep = dir_ok_entry [OF 1(3,4)]
  have oko: "dir_ok b n off" using ep(3) 1(5) by simp
  note e = dir_ok_entry [OF oko o]
  let ?rl = "d_rec_len b off"
  have len: "length (subbuf b (off + 8) (d_name_len b off)) = d_name_len b off" using e 1(6) by simp
  show ?case
  proof (cases "d_is b off nm")
    case True
    then have r: "ino = d_inode b off" "b' = wr16 b (p + 4) (rd16 b (p + 4) + rd16 b (off + 4))"
      using 1(2) o e(1) by (subst (asm) remove_in_block.simps; simp)+
    have "live b off = [(nm, ino)]" using True r(1) by (auto simp: d_is_def live_def)
    then have "dir_list b n off = (nm, ino) # dir_list b n (off + ?rl)" by (simp add: dir_list_entry [OF oko o])
    then show ?thesis
      using merge_effect [OF 1(3,4,5) o 1(6,7)] r(2) by (metis append_Nil empty_iff empty_set image_empty)
  next
    case False
    have rec: "remove_in_block b n nm (off + ?rl) (Some off) = Some (ino, b')"
      using 1(2) o e(1) False by (subst (asm) remove_in_block.simps) simp
    have ih: "agree b b' 0 off \<and> agree b b' n (length b) \<and> dir_ok b' n off
      \<and> (\<exists>xs ys. dir_list b n (off + ?rl) = xs @ (nm, ino) # ys \<and> dir_list b' n off = live b off @ xs @ ys \<and> nm \<notin> fst ` set xs)"
      by (rule 1(1) [OF o e(1) False rec oko o refl 1(6,7)])
    then have a: "agree b b' 0 off" by blast
    have le: "p + 8 \<le> off" using ep(4) 1(5) by simp
    note f = agree_fields [OF a le0 le]
    have nm: "subbuf b' (p + 8) (d_name_len b p) = subbuf b (p + 8) (d_name_len b p)"
      by (rule agree_name [OF a]) (use ep 1(5,6) o in auto)
    have ok: "dir_ok b' n p" by (rule dir_okI) (use ep f ih 1(5) in auto)
    have lp: "dir_list b' n p = live b p @ dir_list b' n off"
      using f nm 1(5) by (simp add: dir_list_entry [OF ok 1(4)] live_def)
    have notnm: "nm \<notin> fst ` set (live b off)" using False len by (auto simp: d_is_def live_def)
    obtain xs ys where xy: "dir_list b n (off + ?rl) = xs @ (nm, ino) # ys" "dir_list b' n off = live b off @ xs @ ys" "nm \<notin> fst ` set xs"
      using ih by blast
    have "dir_list b n off = (live b off @ xs) @ (nm, ino) # ys" using xy(1) by (simp add: dir_list_entry [OF oko o])
    moreover have "dir_list b' n p = live b p @ (live b off @ xs) @ ys" using lp xy(2) by simp
    moreover have "nm \<notin> fst ` set (live b off @ xs)" using notnm xy(3) by auto
    moreover have "agree b b' 0 p" using a by (rule agree_mono) (use le in simp_all)
    ultimately show ?thesis using ih ok by blast
  qed
qed

lemma remove_effect:
  assumes "remove_in_block b n nm 0 None = Some (ino, b')"
    and "dir_ok b n 0" "n \<le> length b" "n < 65536"
  shows "agree b b' n (length b) \<and> dir_ok b' n 0
    \<and> (\<exists>xs ys. dir_list b n 0 = xs @ (nm, ino) # ys \<and> dir_list b' n 0 = xs @ ys \<and> nm \<notin> fst ` set xs)"
proof -
  have o: "0 + 8 \<le> n" using assms(1) by (subst (asm) remove_in_block.simps) (auto split: if_splits)
  note e = dir_ok_entry [OF assms(2) o]
  have len: "length (subbuf b (0 + 8) (d_name_len b 0)) = d_name_len b 0" using e assms(3) by simp
  show ?thesis
  proof (cases "d_is b 0 nm")
    case True
    then have r: "ino = d_inode b 0" "b' = wr32 b 0 0"
      using assms(1) o e(1) by (subst (asm) remove_in_block.simps; simp)+
    have keep: "agree b b' 4 hi" for hi
      unfolding r(2) wr32_def by (rule agree_splice) (use o assms(3) in auto)
    have rl: "d_rec_len b' 0 = d_rec_len b 0" "d_name_len b' 0 = d_name_len b 0"
      using keep [of 8] by (auto simp: agree_def d_rec_len_def d_name_len_def rd8_def rd16_def)
    have rest: "dir_ok b' n (0 + d_rec_len b 0) \<and> dir_list b' n (0 + d_rec_len b 0) = dir_list b n (0 + d_rec_len b 0)"
      by (rule agree_dir [OF _ assms(3) e(3)]) (use agree_mono [OF keep [of n]] e in auto)
    have ok: "dir_ok b' n 0" by (rule dir_okI) (use rl rest e in auto)
    have "d_inode b' 0 = 0" using o assms(3) by (simp add: r(2) d_inode_def rd_wr_same)
    then have "dir_list b' n 0 = [] @ dir_list b n (0 + d_rec_len b 0)"
      using rest by (simp add: dir_list_entry [OF ok o] rl live_def)
    moreover have "dir_list b n 0 = [] @ (nm, ino) # dir_list b n (0 + d_rec_len b 0)"
      using True r(1) by (subst dir_list_entry [OF assms(2) o]) (auto simp: d_is_def live_def)
    moreover have "agree b b' n (length b)" using o by (intro agree_mono [OF keep [of "length b"]]) simp_all
    ultimately show ?thesis using ok by (metis empty_iff empty_set image_empty)
  next
    case False
    have rec: "remove_in_block b n nm (d_rec_len b 0) (Some 0) = Some (ino, b')"
      using assms(1) o e(1) False by (subst (asm) remove_in_block.simps) simp
    have notnm: "nm \<notin> fst ` set (live b 0)" using False len by (auto simp: d_is_def live_def)
    obtain xs ys where xy: "dir_list b n (d_rec_len b 0) = xs @ (nm, ino) # ys" "dir_list b' n 0 = live b 0 @ xs @ ys" "nm \<notin> fst ` set xs"
      and r: "agree b b' n (length b)" "dir_ok b' n 0"
      using remove_effect_prev [OF rec assms(2) o _ assms(3,4)] by auto
    have "dir_list b n 0 = (live b 0 @ xs) @ (nm, ino) # ys" using xy(1) by (simp add: dir_list_entry [OF assms(2) o])
    moreover have "nm \<notin> fst ` set (live b 0 @ xs)" using notnm xy(3) by auto
    ultimately show ?thesis using r xy(2) by (metis append.assoc)
  qed
qed

lemma remove_none:
  assumes "remove_in_block b n nm off prev = None" "dir_ok b n off" "n \<le> length b"
  shows "nm \<notin> fst ` set (dir_list b n off)"
  using assms
proof (induction b n nm off prev rule: remove_in_block.induct)
  case (1 b n nm off prev)
  show ?case
  proof (cases "off + 8 \<le> n")
    case False
    then show ?thesis by (simp add: dir_list_end)
  next
    case o: True
    note e = dir_ok_entry [OF 1(3) o]
    have len: "length (subbuf b (off + 8) (d_name_len b off)) = d_name_len b off" using e 1(4) by simp
    have no: "\<not> d_is b off nm" "remove_in_block b n nm (off + d_rec_len b off) (Some off) = None"
      using 1(2) o e(1) by (subst (asm) remove_in_block.simps; simp split: if_splits)+
    have "nm \<notin> fst ` set (dir_list b n (off + d_rec_len b off))"
      by (rule 1(1) [OF o e(1) no(1) no(2) e(3) 1(4)])
    moreover have "nm \<notin> fst ` set (live b off)" using no(1) len by (auto simp: d_is_def live_def)
    ultimately show ?thesis by (auto simp: dir_list_entry [OF 1(3) o])
  qed
qed

section \<open>Properties\<close>

definition look :: "u8 list \<Rightarrow> nat \<Rightarrow> cstr \<Rightarrow> u32 option" where
  "look b n nm = map_option (d_inode b) (find_in_block b n nm 0)"

lemma look_map_of: "dir_ok b n 0 \<Longrightarrow> n \<le> length b \<Longrightarrow> look b n nm = map_of (dir_list b n 0) nm"
  by (simp add: look_def find_is_map_of)

lemma map_of_insert: "x \<noteq> k \<Longrightarrow> map_of (xs @ (k, v) # ys) x = map_of (xs @ ys) x"
  by (simp add: map_add_def split: option.splits)

lemma map_of_insert_new: "k \<notin> fst ` set (xs @ ys) \<Longrightarrow> map_of (xs @ (k, v) # ys) k = Some v"
  by (induction xs) auto

text \<open>C18. Inserting a name into a directory block whose records tile it: the records still tile the
  block, the list of live entries has the new one somewhere and is otherwise as it was, the new
  name is found when it was not there before, every other name is found as before, and no byte
  past the block changes.\<close>

theorem ext2_insert_entry:
  assumes "insert_in_block b n ino nm ty 0 = Some b'"
    and "dir_ok b n 0" "n \<le> length b" "n < 65536" "length nm < 256" "ino \<noteq> 0"
  shows "dir_ok b' n 0 \<and> agree b b' n (length b)
    \<and> (\<exists>xs ys. dir_list b n 0 = xs @ ys \<and> dir_list b' n 0 = xs @ (nm, ino) # ys)
    \<and> (look b n nm = None \<longrightarrow> look b' n nm = Some ino)
    \<and> (\<forall>x. x \<noteq> nm \<longrightarrow> look b' n x = look b n x)"
proof -
  note i = insert_effect [OF assms]
  then obtain xs ys where xy: "dir_list b n 0 = xs @ ys" "dir_list b' n 0 = xs @ (nm, ino) # ys" by blast
  have ok: "dir_ok b' n 0" "n \<le> length b'" using i assms(3) by (auto simp: agree_def)
  have "look b' n nm = Some ino" if "look b n nm = None"
    using that map_of_insert_new [of nm xs ys ino]
    unfolding look_map_of [OF assms(2,3)] look_map_of [OF ok] xy map_of_eq_None_iff by blast
  moreover have "look b' n x = look b n x" if "x \<noteq> nm" for x
    unfolding look_map_of [OF assms(2,3)] look_map_of [OF ok] xy by (rule map_of_insert [OF that])
  ultimately show ?thesis using i by blast
qed

definition dot_only :: "u8 list" where
  "dot_only = fill_entry (replicate 64 0) 0 2 64 [46] FT_DIR"

theorem ext2_insert_entry_witness:
  "look (the (insert_in_block dot_only 64 12 [97] FT_REG_FILE 0)) 64 [97] = Some 12"
proof -
  have i: "insert_in_block dot_only 64 12 [97] FT_REG_FILE 0 = Some (the (insert_in_block dot_only 64 12 [97] FT_REG_FILE 0))"
    by code_simp
  have d: "dir_ok dot_only 64 0" "(64 :: nat) \<le> length dot_only" "look dot_only 64 [97] = None" by code_simp+
  show ?thesis
    using ext2_insert_entry [OF i d(1,2)] d(3) by simp
qed

text \<open>C19. Removing a name: nothing is returned exactly when the name is not in the block.  Otherwise the
  inode of its first entry is returned and that entry alone is gone from the list, whether its
  record is merged into the one before or, at the start of the block, emptied.  The records still
  tile the block.\<close>

theorem ext2_remove_entry:
  assumes "dir_ok b n 0" "n \<le> length b" "n < 65536"
  shows "(case remove_in_block b n nm 0 None of
      None \<Rightarrow> nm \<notin> fst ` set (dir_list b n 0)
    | Some (ino, b') \<Rightarrow> dir_ok b' n 0 \<and> agree b b' n (length b) \<and> look b n nm = Some ino
        \<and> (\<exists>xs ys. dir_list b n 0 = xs @ (nm, ino) # ys \<and> dir_list b' n 0 = xs @ ys \<and> nm \<notin> fst ` set xs)
        \<and> (\<forall>x. x \<noteq> nm \<longrightarrow> look b' n x = look b n x))"
proof (cases "remove_in_block b n nm 0 None")
  case None
  then show ?thesis using remove_none [OF None assms(1,2)] by simp
next
  case (Some r)
  obtain ino b' where r: "r = (ino, b')" by (cases r)
  note e = remove_effect [OF Some [unfolded r] assms]
  then obtain xs ys where xy: "dir_list b n 0 = xs @ (nm, ino) # ys" "dir_list b' n 0 = xs @ ys" "nm \<notin> fst ` set xs" by blast
  have ok: "dir_ok b' n 0" "n \<le> length b'" using e assms(2) by (auto simp: agree_def)
  have "look b n nm = Some ino"
    unfolding look_map_of [OF assms(1,2)] xy using xy(3) by (simp add: map_add_def map_of_eq_None_iff [THEN iffD2] dom_map_of_conv_image_fst split: option.splits)
  moreover have "look b' n x = look b n x" if "x \<noteq> nm" for x
    unfolding look_map_of [OF assms(1,2)] look_map_of [OF ok] xy by (rule map_of_insert [OF that, symmetric])
  ultimately show ?thesis using e unfolding Some r by simp
qed

theorem ext2_remove_entry_witness:
  "look (snd (the (remove_in_block dot_only 64 [46] 0 None))) 64 [46] = None"
proof -
  have d: "dir_ok dot_only 64 0" "(64 :: nat) \<le> length dot_only" "dir_list dot_only 64 0 = [([46], 2)]"
    "remove_in_block dot_only 64 [46] 0 None = Some (2, wr32 dot_only 0 0)" by code_simp+
  have "dir_ok (wr32 dot_only 0 0) 64 0 \<and> dir_list (wr32 dot_only 0 0) 64 0 = []"
    using ext2_remove_entry [OF d(1,2), of "[46]"] unfolding d(3,4) by (auto simp: Cons_eq_append_conv)
  moreover have "(64 :: nat) \<le> length (wr32 dot_only 0 0)" using d(2) by simp
  ultimately show ?thesis unfolding d(4) by (simp add: look_map_of)
qed

end
