(* ===== verification/Ext2Vol.thy ===== *)
theory Ext2Vol
  imports Ext2Dir
begin

text \<open>
  An ext2 volume on a device without faults: blocks as byte lists, group descriptors and inodes
  at their places, and the effect of writing them, of allocating and of freeing a block.
\<close>

section \<open>Blocks\<close>

definition spbn :: "ext2_fs \<Rightarrow> nat" where "spbn f = unat (sectors_per_block f)"
definition bsn :: "ext2_fs \<Rightarrow> nat" where "bsn f = unat (block_size f)"

definition geom :: "ext2_fs \<Rightarrow> bool" where
  "geom f \<longleftrightarrow> 1 \<le> spbn f \<and> spbn f \<le> 8 \<and> bsn f = 512 * spbn f"

text \<open>A block that lies inside the first \<open>lim\<close> sectors.\<close>

definition blk_ok :: "nat \<Rightarrow> ext2_fs \<Rightarrow> u32 \<Rightarrow> bool" where
  "blk_ok lim f blk \<longleftrightarrow> unat (e_partition_lba f) + (unat blk + 1) * spbn f \<le> lim \<and> lim \<le> 2 ^ 32"

lemma block_lba_unat:
  assumes "blk_ok lim f blk" "s < spbn f"
  shows "unat (block_lba f blk + of_nat s) = unat (e_partition_lba f) + unat blk * spbn f + s"
    and "unat (block_lba f blk + of_nat s) < lim"
proof -
  have b: "unat (e_partition_lba f) + unat blk * spbn f + s < lim" "lim \<le> 2 ^ 32"
    using assms by (auto simp: blk_ok_def algebra_simps)
  have m: "unat (blk * sectors_per_block f) = unat blk * spbn f"
    using b unfolding spbn_def by (intro unat_mult_no_overflow) simp
  have p: "unat (block_lba f blk) = unat (e_partition_lba f) + unat blk * spbn f"
    unfolding block_lba_def m [symmetric] using b m by (intro unat_add_no_overflow) simp
  have "unat (of_nat s :: u32) = s" using b by (simp add: unat_of_nat_eq)
  then show u: "unat (block_lba f blk + of_nat s) = unat (e_partition_lba f) + unat blk * spbn f + s"
    using p b by (subst unat_add_no_overflow) auto
  show "unat (block_lba f blk + of_nat s) < lim" using u b by simp
qed

lemma pos_eq:
  fixes n a b s t :: nat
  assumes "s < n" "t < n" "a * n + s = b * n + t"
  shows "a = b \<and> s = t"
proof -
  have "(a * n + s) div n = a" "(b * n + t) div n = b" using assms(1,2) by simp_all
  with assms(3) show ?thesis by simp
qed

lemma block_lba_inj:
  assumes "blk_ok lim f a" "blk_ok lim f b" "s < spbn f" "t < spbn f"
    and "block_lba f a + of_nat s = block_lba f b + of_nat t"
  shows "a = b \<and> s = t"
proof -
  have "unat a * spbn f + s = unat b * spbn f + t"
    using block_lba_unat(1) [OF assms(1,3)] block_lba_unat(1) [OF assms(2,4)] assms(5) by simp
  from pos_eq [OF assms(3,4) this] show ?thesis by (simp add: word_unat_eq_iff)
qed

definition blk_of :: "'d blk \<Rightarrow> ext2_fs \<Rightarrow> 'd \<Rightarrow> u32 \<Rightarrow> u8 list" where
  "blk_of io f d blk = concat (map (\<lambda>s. sec io d (block_lba f blk + of_nat s)) [0..<spbn f])"

text \<open>The sectors of a block written from a buffer.\<close>

definition blk_writes_of :: "ext2_fs \<Rightarrow> u32 \<Rightarrow> u8 list \<Rightarrow> (u32 \<times> u8 list) list" where
  "blk_writes_of f blk p = map (\<lambda>s. (block_lba f blk + of_nat s, subbuf p (s * 512) 512)) [0..<spbn f]"

text \<open>What a state must satisfy for block I/O to succeed: buffers of 8192 bytes, a good device.\<close>

definition bufs_ok :: "'d ext2 \<Rightarrow> bool" where
  "bufs_ok s \<longleftrightarrow> length (g_buf s) = 8192 \<and> length (g_buf2 s) = 8192 \<and> length (dir_buf s) = 8192"

lemma buf_put_simps [simp]:
  "dev (buf_put b p s) = dev s" "fs (buf_put b p s) = fs s" "ub (buf_put b p s) = ub s"
  "buf_get b (buf_put b p s) = p"
  by (cases b; simp add: buf_put_def buf_get_def)+

lemma bufs_ok_get: "bufs_ok s \<Longrightarrow> length (buf_get b s) = 8192"
  by (cases b) (auto simp: bufs_ok_def buf_get_def)

lemma bufs_ok_put: "bufs_ok s \<Longrightarrow> length p = 8192 \<Longrightarrow> bufs_ok (buf_put b p s)"
  by (cases b) (auto simp: bufs_ok_def buf_put_def)

lemma concat_chunks:
  "k * n \<le> length p \<Longrightarrow> concat (map (\<lambda>s. subbuf p (s * n) n) [0..<k]) = take (k * n) p"
proof (induction k)
  case (Suc k)
  then have "take (Suc k * n) p = take (k * n) p @ subbuf p (k * n) n"
    unfolding subbuf_def by (metis add.commute mult_Suc take_add)
  with Suc show ?case by simp
qed simp

text \<open>The superblock's two sectors, and writing it.\<close>

definition sb_writes :: "ext2_fs \<Rightarrow> (u32 \<times> u8 list) list" where
  "sb_writes f = [(e_partition_lba f + 2, subbuf (sb f) 0 512), (e_partition_lba f + 3, subbuf (sb f) 512 512)]"

text \<open>A block past the superblock.\<close>

definition past_sb :: "nat \<Rightarrow> ext2_fs \<Rightarrow> u32 \<Rightarrow> bool" where
  "past_sb lim f blk \<longleftrightarrow> blk_ok lim f blk \<and> 4 \<le> unat blk * spbn f"

lemma sb_lba:
  assumes "past_sb lim f blk" "1 \<le> spbn f"
  shows "unat (e_partition_lba f + 2) = unat (e_partition_lba f) + 2" "unat (e_partition_lba f + 3) = unat (e_partition_lba f) + 3"
    "unat (e_partition_lba f + 2) < lim" "unat (e_partition_lba f + 3) < lim"
proof -
  have b: "unat (e_partition_lba f) + 4 \<le> lim" "lim \<le> 2 ^ 32"
    using assms by (auto simp: past_sb_def blk_ok_def algebra_simps)
  have n: "unat (2 :: u32) = 2" "unat (3 :: u32) = 3" by simp_all
  show u: "unat (e_partition_lba f + 2) = unat (e_partition_lba f) + 2" "unat (e_partition_lba f + 3) = unat (e_partition_lba f) + 3"
    by (subst unat_add_no_overflow; use b n in simp)+
  show "unat (e_partition_lba f + 2) < lim" "unat (e_partition_lba f + 3) < lim" using u b by simp_all
qed

context reliable_device
begin

lemma length_blk_of: "good d \<Longrightarrow> blk_ok lim f blk \<Longrightarrow> length (blk_of io f d blk) = 512 * spbn f"
  unfolding blk_of_def
  by (subst length_concat_const [where k = 512]) (auto simp: length_sec block_lba_unat(2))

lemma read_sectors_to_eq:
  assumes "good d" "k \<le> m" "m \<le> spbn f" "blk_ok lim f blk" "m * 512 \<le> length p"
  shows "read_sectors_to io d (block_lba f blk) p [k..<m]
    = (True, splice p (k * 512) (concat (map (\<lambda>s. sec io d (block_lba f blk + of_nat s)) [k..<m])))"
  using assms(2,5)
proof (induction "m - k" arbitrary: k p)
  case 0
  then show ?case by (simp add: splice_def)
next
  case (Suc x)
  then have k: "k < m" by simp
  let ?s = "sec io d (block_lba f blk + of_nat k)"
  have lba: "unat (block_lba f blk + of_nat k) < lim" using block_lba_unat(2) [OF assms(4)] k assms(3) by simp
  have len: "length ?s = 512" by (rule length_sec [OF assms(1) lba])
  have le: "Suc k * 512 \<le> length p" using k Suc.prems(2) by (metis Suc_leI dual_order.trans mult_le_mono1)
  have rest: "length (concat (map (\<lambda>s. sec io d (block_lba f blk + of_nat s)) [Suc k..<m])) = 512 * (m - Suc k)"
    by (subst length_concat_const [where k = 512])
       (use assms in \<open>auto simp: length_sec block_lba_unat(2)\<close>)
  have app: "splice (splice p (k * 512) ?s) (Suc k * 512) ys = splice p (k * 512) (?s @ ys)"
    if "length ys = 512 * (m - Suc k)" for ys
    using splice_append [of "k * 512" ?s ys p] len that k Suc.prems(2) by (simp add: algebra_simps)
  have le2: "length (splice p (k * 512) ?s) = length p" using le len by simp
  have "read_sectors_to io d (block_lba f blk) p [k..<m]
      = read_sectors_to io d (block_lba f blk) (splice p (k * 512) ?s) [Suc k..<m]"
    using k read_sec [OF assms(1) lba] by (simp add: upt_conv_Cons)
  also have "\<dots> = (True, splice (splice p (k * 512) ?s) (Suc k * 512)
      (concat (map (\<lambda>s. sec io d (block_lba f blk + of_nat s)) [Suc k..<m])))"
    by (rule Suc.hyps(1)) (use Suc.hyps(2) Suc.prems k le2 in auto)
  finally show ?case using app [OF rest] k by (simp add: upt_conv_Cons)
qed

lemma read_block_run:
  assumes "good (dev s)" "geom (fs s)" "blk_ok lim (fs s) blk" "bufs_ok s"
  shows "run_state (read_block io blk b) s
    = (True, buf_put b (splice (buf_get b s) 0 (blk_of io (fs s) (dev s) blk)) s)"
proof -
  have "spbn (fs s) * 512 \<le> length (buf_get b s)" using assms(2) bufs_ok_get [OF assms(4)] by (simp add: geom_def)
  from read_sectors_to_eq [OF assms(1) le0 order_refl assms(3) this]
  show ?thesis by (simp add: read_block_def blk_of_def spbn_def)
qed

lemma fits_blk: "blk_ok lim f blk \<Longrightarrow> 512 * spbn f \<le> length p \<Longrightarrow> fits (blk_writes_of f blk p)"
proof -
  assume b: "blk_ok lim f blk" and l: "512 * spbn f \<le> length p"
  have "s * 512 + 512 \<le> length p" if "s < spbn f" for s
  proof -
    have "Suc s * 512 \<le> spbn f * 512" using that by (intro mult_le_mono1) simp
    with l show ?thesis by simp
  qed
  with b show ?thesis by (auto simp: fits_def blk_writes_of_def block_lba_unat(2))
qed

lemma write_block_run:
  assumes "good (dev s)" "geom (fs s)" "blk_ok lim (fs s) blk" "bufs_ok s"
  shows "run_state (write_block io blk b) s
    = (True, s\<lparr>dev := write_all io (blk_writes_of (fs s) blk (buf_get b s)) (dev s)\<rparr>)"
proof -
  have "512 * spbn (fs s) \<le> length (buf_get b s)" using assms(2) bufs_ok_get [OF assms(4)] by (simp add: geom_def)
  from write_seq_all [OF assms(1) fits_blk [OF assms(3) this]]
  show ?thesis by (simp add: write_block_def write_sectors_from_def blk_writes_of_def spbn_def)
qed

lemma blk_write_same:
  assumes "good d" "blk_ok lim f blk" "512 * spbn f \<le> length p"
  shows "blk_of io f (write_all io (blk_writes_of f blk p) d) blk = take (512 * spbn f) p"
proof -
  note fit = fits_blk [OF assms(2,3)]
  have "sec io (write_all io (blk_writes_of f blk p) d) (block_lba f blk + of_nat s) = subbuf p (s * 512) 512"
    if s: "s < spbn f" for s
  proof (rule write_all_sec [OF assms(1) fit])
    show "(block_lba f blk + of_nat s, subbuf p (s * 512) 512) \<in> set (blk_writes_of f blk p)"
      using s by (auto simp: blk_writes_of_def)
    fix bs assume "(block_lba f blk + of_nat s, bs) \<in> set (blk_writes_of f blk p)"
    then obtain t where t: "t < spbn f" "block_lba f blk + of_nat s = block_lba f blk + of_nat t" "bs = subbuf p (t * 512) 512"
      by (auto simp: blk_writes_of_def)
    show "bs = subbuf p (s * 512) 512" using block_lba_inj [OF assms(2,2) s t(1,2)] t(3) by simp
  qed
  then have "blk_of io f (write_all io (blk_writes_of f blk p) d) blk = concat (map (\<lambda>s. subbuf p (s * 512) 512) [0..<spbn f])"
    unfolding blk_of_def by (intro arg_cong [where f = concat] map_cong) auto
  also have "\<dots> = take (512 * spbn f) p" using concat_chunks [of "spbn f" 512 p] assms(3) by (simp add: mult.commute)
  finally show ?thesis .
qed

lemma blk_write_other:
  assumes "good d" "blk_ok lim f blk" "512 * spbn f \<le> length p" "blk_ok lim f b2" "b2 \<noteq> blk"
  shows "blk_of io f (write_all io (blk_writes_of f blk p) d) b2 = blk_of io f d b2"
proof -
  have "sec io (write_all io (blk_writes_of f blk p) d) (block_lba f b2 + of_nat s) = sec io d (block_lba f b2 + of_nat s)"
    if s: "s < spbn f" for s
  proof (rule write_all_frame [OF assms(1) fits_blk [OF assms(2,3)]])
    show "block_lba f b2 + of_nat s \<notin> fst ` set (blk_writes_of f blk p)"
    proof
      assume "block_lba f b2 + of_nat s \<in> fst ` set (blk_writes_of f blk p)"
      then obtain t where "t < spbn f" "block_lba f b2 + of_nat s = block_lba f blk + of_nat t"
        by (auto simp: blk_writes_of_def)
      from block_lba_inj [OF assms(4,2) s this] assms(5) show False by simp
    qed
  qed
  then show ?thesis unfolding blk_of_def by (intro arg_cong [where f = concat] map_cong) auto
qed

lemma sb_write_other:
  assumes "good d" "length (sb f) = 1024" "past_sb lim f blk" "1 \<le> spbn f"
  shows "blk_of io f (write_all io (sb_writes f) d) blk = blk_of io f d blk"
    and "good (write_all io (sb_writes f) d)" and "fits (sb_writes f)"
proof -
  note u = sb_lba [OF assms(3,4)]
  have ok: "blk_ok lim f blk" using assms(3) by (simp add: past_sb_def)
  show fit: "fits (sb_writes f)" using u assms(2) by (simp add: sb_writes_def)
  show "good (write_all io (sb_writes f) d)" by (rule write_all_good [OF assms(1) fit])
  have "sec io (write_all io (sb_writes f) d) (block_lba f blk + of_nat s) = sec io d (block_lba f blk + of_nat s)"
    if s: "s < spbn f" for s
  proof (rule write_all_frame [OF assms(1) fit])
    have "unat (e_partition_lba f) + 4 \<le> unat (block_lba f blk + of_nat s)"
      using block_lba_unat(1) [OF ok s] assms(3) by (simp add: past_sb_def)
    then have "block_lba f blk + of_nat s \<noteq> l" if "unat l < unat (e_partition_lba f) + 4" for l
      using that by auto
    from this [of "e_partition_lba f + 2"] this [of "e_partition_lba f + 3"]
    have "block_lba f blk + of_nat s \<noteq> e_partition_lba f + 2 \<and> block_lba f blk + of_nat s \<noteq> e_partition_lba f + 3"
      unfolding u(1,2) by linarith
    then show "block_lba f blk + of_nat s \<notin> fst ` set (sb_writes f)" by (simp add: sb_writes_def)
  qed
  then show "blk_of io f (write_all io (sb_writes f) d) blk = blk_of io f d blk"
    unfolding blk_of_def by (intro arg_cong [where f = concat] map_cong) auto
qed

lemma write_superblock_run:
  assumes "good (dev s)" "length (sb (fs s)) = 1024" "fits (sb_writes (fs s))"
  shows "run_state (write_superblock io) s = (True, s\<lparr>dev := write_all io (sb_writes (fs s)) (dev s)\<rparr>)"
  using write_seq_all [OF assms(1,3)] by (simp add: write_superblock_def sb_writes_def)

end

section \<open>Group descriptors\<close>

lemma bgd_of_bytes: "length (bg_reserved b) = 12 \<Longrightarrow> bgd_of (bgd_bytes b) = b"
  by (simp add: bgd_of_def bgd_bytes_def struct_simps)

lemma length_bgd_bytes: "length (bg_reserved b) = 12 \<Longrightarrow> length (bgd_bytes b) = 32"
  by (simp add: bgd_bytes_def)

lemma length_bgd_reserved: "length bs = 32 \<Longrightarrow> length (bg_reserved (bgd_of bs)) = 12"
  by (simp add: bgd_of_def)

definition bgd_at :: "'d blk \<Rightarrow> ext2_fs \<Rightarrow> 'd \<Rightarrow> u32 \<Rightarrow> bgd" where
  "bgd_at io f d g = bgd_of (subbuf (blk_of io f d (bgd_block f g)) (bgd_off f g) 32)"

lemma bgd_off_bounds:
  assumes "geom f" "unat g * 32 < 2 ^ 32"
  shows "bgd_off f g = (unat g * 32) mod bsn f" "bgd_off f g + 32 \<le> bsn f"
proof -
  have "unat (g * 32) = unat g * 32" using assms(2) by (simp add: unat_mult_no_overflow)
  then show o: "bgd_off f g = (unat g * 32) mod bsn f" by (simp add: bgd_off_def unat_mod bsn_def)
  have "(unat g * 32) mod (16 * spbn f * 32) = (unat g mod (16 * spbn f)) * 32" by (rule mod_mult_mult2)
  moreover have "bsn f = 16 * spbn f * 32" "0 < spbn f" using assms(1) by (simp_all add: geom_def)
  ultimately have "bgd_off f g = (unat g mod (16 * spbn f)) * 32" "unat g mod (16 * spbn f) < 16 * spbn f" using o by simp_all
  then show "bgd_off f g + 32 \<le> bsn f" using \<open>bsn f = 16 * spbn f * 32\<close> by linarith
qed

lemma bgd_slots:
  assumes "geom f" "unat g * 32 < 2 ^ 32" "unat h * 32 < 2 ^ 32" "g \<noteq> h" "bgd_block f g = bgd_block f h"
  shows "bgd_off f h + 32 \<le> bgd_off f g \<or> bgd_off f g + 32 \<le> bgd_off f h"
proof -
  let ?m = "16 * spbn f"
  have m: "bsn f = ?m * 32" "0 < ?m" using assms(1) by (simp_all add: geom_def)
  have "(g * 32) div block_size f = (h * 32) div block_size f" using assms(5) by (simp add: bgd_block_def)
  then have "unat (g * 32) div bsn f = unat (h * 32) div bsn f" by (metis bsn_def unat_div)
  then have "(unat g * 32) div (?m * 32) = (unat h * 32) div (?m * 32)"
    using assms(2,3) m by (simp add: unat_mult_no_overflow)
  then have "unat g div ?m = unat h div ?m" by (metis div_mult_mult2 numeral_neq_zero)
  moreover have "unat g \<noteq> unat h" using assms(4) by (simp add: word_unat_eq_iff)
  ultimately have "unat g mod ?m \<noteq> unat h mod ?m" by (metis div_mult_mod_eq)
  moreover have "bgd_off f g = (unat g mod ?m) * 32" "bgd_off f h = (unat h mod ?m) * 32"
    using bgd_off_bounds(1) [OF assms(1,2)] bgd_off_bounds(1) [OF assms(1,3)] m mod_mult_mult2 [of _ 32 ?m] by metis+
  ultimately show ?thesis by linarith
qed

text \<open>What a write into one descriptor does to the table.\<close>

definition put_bgd :: "'d blk \<Rightarrow> ext2_fs \<Rightarrow> u32 \<Rightarrow> bgd \<Rightarrow> 'd \<Rightarrow> 'd" where
  "put_bgd io f g b d =
     write_all io (blk_writes_of f (bgd_block f g) (splice (blk_of io f d (bgd_block f g)) (bgd_off f g) (bgd_bytes b))) d"

lemma blk_writes_take: "512 * spbn f \<le> n \<Longrightarrow> blk_writes_of f blk (take n p) = blk_writes_of f blk p"
proof -
  assume n: "512 * spbn f \<le> n"
  have "subbuf (take n p) (s * 512) 512 = subbuf p (s * 512) 512" if "s < spbn f" for s
  proof -
    have "Suc s * 512 \<le> n" using that n by (metis Suc_leI le_trans mult.commute mult_le_mono1)
    then show ?thesis by (simp add: subbuf_def drop_take min_def)
  qed
  then show ?thesis by (simp add: blk_writes_of_def)
qed

context reliable_device
begin

definition e_ok :: "'d ext2 \<Rightarrow> bool" where
  "e_ok s \<longleftrightarrow> good (dev s) \<and> geom (fs s) \<and> bufs_ok s"

lemma e_ok_gbuf: "e_ok s \<Longrightarrow> length x = 8192 \<Longrightarrow> e_ok (s\<lparr>g_buf := x\<rparr>)"
  by (simp add: e_ok_def bufs_ok_def)

lemma read_gbuf:
  assumes "e_ok s" "blk_ok lim (fs s) blk"
  obtains x where "run_state (read_block io blk GBuf) s = (True, s\<lparr>g_buf := x\<rparr>)"
    and "length x = 8192" and "take (bsn (fs s)) x = blk_of io (fs s) (dev s) blk" and "length (blk_of io (fs s) (dev s) blk) = bsn (fs s)"
proof
  let ?b = "blk_of io (fs s) (dev s) blk"
  have l: "length ?b = bsn (fs s)" "bsn (fs s) \<le> 4096" "length (g_buf s) = 8192"
    using length_blk_of [OF _ assms(2), of "dev s"] assms(1) by (auto simp: e_ok_def geom_def bufs_ok_def)
  show "run_state (read_block io blk GBuf) s = (True, s\<lparr>g_buf := splice (g_buf s) 0 ?b\<rparr>)"
    using read_block_run [of s blk GBuf] assms by (simp add: e_ok_def buf_put_def buf_get_def)
  show "length (splice (g_buf s) 0 ?b) = 8192" using l by simp
  show "take (bsn (fs s)) (splice (g_buf s) 0 ?b) = ?b" using l by (simp add: splice_def)
  show "length ?b = bsn (fs s)" by (rule l(1))
qed

lemma write_gbuf:
  assumes "e_ok s" "blk_ok lim (fs s) blk"
  shows "run_state (write_block io blk GBuf) s
      = (True, s\<lparr>dev := write_all io (blk_writes_of (fs s) blk (take (bsn (fs s)) (g_buf s))) (dev s)\<rparr>)"
  using write_block_run [of s blk GBuf] assms by (simp add: e_ok_def buf_get_def blk_writes_take geom_def)

lemma e_ok_write:
  assumes "e_ok s" "blk_ok lim (fs s) blk" "512 * spbn (fs s) \<le> length p"
  shows "e_ok (s\<lparr>dev := write_all io (blk_writes_of (fs s) blk p) (dev s)\<rparr>)"
  using assms write_all_good [OF _ fits_blk [OF assms(2,3)]] by (simp add: e_ok_def bufs_ok_def)

lemma read_bgd_run:
  assumes "e_ok s" "g < groups_count (fs s)" "blk_ok lim (fs s) (bgd_block (fs s) g)" "unat g * 32 < 2 ^ 32"
  obtains x where "run_state (read_bgd io g) s = (Some (bgd_at io (fs s) (dev s) g), s\<lparr>g_buf := x\<rparr>)" "length x = 8192"
proof -
  obtain x where x: "run_state (read_block io (bgd_block (fs s) g) GBuf) s = (True, s\<lparr>g_buf := x\<rparr>)" "length x = 8192"
    "take (bsn (fs s)) x = blk_of io (fs s) (dev s) (bgd_block (fs s) g)"
    using read_gbuf [OF assms(1,3)] by metis
  have "bgd_off (fs s) g + 32 \<le> bsn (fs s)" using bgd_off_bounds(2) [OF _ assms(4)] assms(1) by (simp add: e_ok_def)
  then have "subbuf x (bgd_off (fs s) g) 32 = subbuf (take (bsn (fs s)) x) (bgd_off (fs s) g) 32"
    by (simp add: subbuf_take)
  then have "run_state (read_bgd io g) s = (Some (bgd_at io (fs s) (dev s) g), s\<lparr>g_buf := x\<rparr>)"
    using assms(2) x by (simp add: read_bgd_def bgd_at_def not_le)
  then show ?thesis using that x(2) by blast
qed

lemma write_bgd_run:
  assumes "e_ok s" "g < groups_count (fs s)" "blk_ok lim (fs s) (bgd_block (fs s) g)" "unat g * 32 < 2 ^ 32"
    and "length (bg_reserved b) = 12"
  obtains x where "run_state (write_bgd io g b) s = (True, s\<lparr>g_buf := x, dev := put_bgd io (fs s) g b (dev s)\<rparr>)" "length x = 8192"
    and "take (bsn (fs s)) x = splice (blk_of io (fs s) (dev s) (bgd_block (fs s) g)) (bgd_off (fs s) g) (bgd_bytes b)"
proof -
  let ?f = "fs s" and ?blk = "bgd_block (fs s) g" and ?o = "bgd_off (fs s) g"
  obtain x where x: "run_state (read_block io ?blk GBuf) s = (True, s\<lparr>g_buf := x\<rparr>)" "length x = 8192"
    "take (bsn ?f) x = blk_of io ?f (dev s) ?blk"
    using read_gbuf [OF assms(1,3)] by metis
  let ?x = "splice x ?o (bgd_bytes b)"
  have o: "?o + 32 \<le> bsn ?f" "bsn ?f \<le> 4096"
    using bgd_off_bounds(2) [OF _ assms(4)] assms(1) by (auto simp: e_ok_def geom_def)
  have lx: "length ?x = 8192" using x o assms(5) by (simp add: length_bgd_bytes)
  have tk: "take (bsn ?f) ?x = splice (blk_of io ?f (dev s) ?blk) ?o (bgd_bytes b)"
    unfolding x(3) [symmetric] by (rule take_splice) (use o x(2) assms(5) in \<open>simp_all add: length_bgd_bytes\<close>)
  have "run_state (write_block io ?blk GBuf) (s\<lparr>g_buf := ?x\<rparr>) = (True, s\<lparr>g_buf := ?x, dev := put_bgd io ?f g b (dev s)\<rparr>)"
    using write_gbuf [OF e_ok_gbuf [OF assms(1) lx], of ?blk] assms(3) tk by (simp add: put_bgd_def)
  then have "run_state (write_bgd io g b) s = (True, s\<lparr>g_buf := ?x, dev := put_bgd io ?f g b (dev s)\<rparr>)"
    using assms(2) x(1) by (simp add: write_bgd_def not_le)
  then show ?thesis using that lx tk by blast
qed

lemma put_bgd_effect:
  assumes "good d" "geom f" "blk_ok lim f (bgd_block f g)" "unat g * 32 < 2 ^ 32" "length (bg_reserved b) = 12"
  shows "good (put_bgd io f g b d)" and "bgd_at io f (put_bgd io f g b d) g = b"
    and "h \<noteq> g \<Longrightarrow> unat h * 32 < 2 ^ 32 \<Longrightarrow> blk_ok lim f (bgd_block f h) \<Longrightarrow>
           bgd_at io f (put_bgd io f g b d) h = bgd_at io f d h"
    and "blk_ok lim f blk \<Longrightarrow> blk \<noteq> bgd_block f g \<Longrightarrow> blk_of io f (put_bgd io f g b d) blk = blk_of io f d blk"
    and "blk_of io f (put_bgd io f g b d) (bgd_block f g) = splice (blk_of io f d (bgd_block f g)) (bgd_off f g) (bgd_bytes b)"
proof -
  let ?blk = "bgd_block f g" and ?o = "bgd_off f g"
  let ?p = "splice (blk_of io f d ?blk) ?o (bgd_bytes b)"
  have l: "length (blk_of io f d ?blk) = bsn f" using length_blk_of [OF assms(1,3)] assms(2) by (simp add: geom_def)
  have o: "?o + 32 \<le> bsn f" by (rule bgd_off_bounds(2) [OF assms(2,4)])
  have lb: "length (bgd_bytes b) = 32" by (rule length_bgd_bytes [OF assms(5)])
  have lp: "512 * spbn f \<le> length ?p" "length ?p = bsn f" using l o lb assms(2) by (simp_all add: geom_def)
  show "good (put_bgd io f g b d)" unfolding put_bgd_def by (rule write_all_good [OF assms(1) fits_blk [OF assms(3) lp(1)]])
  show same: "blk_of io f (put_bgd io f g b d) ?blk = ?p"
    unfolding put_bgd_def by (subst blk_write_same [OF assms(1,3) lp(1)]) (use lp assms(2) in \<open>simp add: geom_def\<close>)
  show other: "blk_of io f (put_bgd io f g b d) blk = blk_of io f d blk" if "blk_ok lim f blk" "blk \<noteq> ?blk" for blk
    unfolding put_bgd_def by (rule blk_write_other [OF assms(1,3) lp(1) that])
  show "bgd_at io f (put_bgd io f g b d) g = b"
    unfolding bgd_at_def same using l o lb by (simp add: subbuf_splice_same bgd_of_bytes [OF assms(5)])
  assume h: "h \<noteq> g" "unat h * 32 < 2 ^ 32" "blk_ok lim f (bgd_block f h)"
  show "bgd_at io f (put_bgd io f g b d) h = bgd_at io f d h"
  proof (cases "bgd_block f h = ?blk")
    case False
    then show ?thesis by (simp add: bgd_at_def other [OF h(3)])
  next
    case True
    have s: "?o + 32 \<le> bgd_off f h \<or> bgd_off f h + 32 \<le> ?o" using bgd_slots [OF assms(2) h(2) assms(4) h(1) True] by blast
    have oh: "bgd_off f h + 32 \<le> bsn f" by (rule bgd_off_bounds(2) [OF assms(2) h(2)])
    have "subbuf ?p (bgd_off f h) 32 = subbuf (blk_of io f d ?blk) (bgd_off f h) 32"
      by (rule subbuf_splice_other) (use s l o lb oh in auto)
    then show ?thesis by (simp add: bgd_at_def True same)
  qed
qed

end

section \<open>Bitmaps\<close>

definition bm_bit :: "u8 list \<Rightarrow> nat \<Rightarrow> bool" where
  "bm_bit bm k \<longleftrightarrow> bit (bm ! (k div 8)) (k mod 8)"

lemma bit_one_push: "bit (push_bit m (1 :: u8)) n \<longleftrightarrow> n = m \<and> n < 8"
  unfolding bit_push_bit_iff bit_1_iff possible_bit_word by auto

lemma mod_8_less: "k mod 8 < (8 :: nat)"
  by simp

lemma length_mark [simp]: "length (mark_bit bm k) = length bm" "length (unmark_bit bm k) = length bm"
  by (simp_all add: mark_bit_def unmark_bit_def)

lemma same_bit: "j div 8 = k div 8 \<Longrightarrow> j mod 8 = k mod 8 \<longleftrightarrow> j = (k :: nat)"
  by (metis div_mult_mod_eq)

lemma bm_bit_mark: "k div 8 < length bm \<Longrightarrow> bm_bit (mark_bit bm k) j \<longleftrightarrow> j = k \<or> bm_bit bm j"
  unfolding bm_bit_def mark_bit_def
  by (cases "j div 8 = k div 8") (simp_all only: nth_list_update_eq nth_list_update_neq bit_or_iff bit_one_push mod_8_less simp_thms same_bit, auto)

lemma bm_bit_unmark: "k div 8 < length bm \<Longrightarrow> bm_bit (unmark_bit bm k) j \<longleftrightarrow> j \<noteq> k \<and> bm_bit bm j"
  unfolding bm_bit_def unmark_bit_def
  by (cases "j div 8 = k div 8")
     (simp_all only: nth_list_update_eq nth_list_update_neq bit_and_iff bit_not_iff bit_one_push possible_bit_word mod_8_less simp_thms same_bit, auto)

lemma unmark_mark:
  assumes "k div 8 < length bm" "\<not> bm_bit bm k"
  shows "unmark_bit (mark_bit bm k) k = bm"
proof -
  have "(bm ! (k div 8) OR push_bit (k mod 8) 1) AND NOT (push_bit (k mod 8) 1) = bm ! (k div 8)"
    by (rule bit_word_eqI, unfold bit_or_iff bit_and_iff bit_not_iff bit_one_push) (use assms(2) in \<open>auto simp: bm_bit_def\<close>)
  then show ?thesis using assms(1) by (simp add: mark_bit_def unmark_bit_def)
qed

lemma first_bit_Some: "first_bit ok w base bs = Some k \<Longrightarrow> \<exists>b\<in>set bs. k = base + b \<and> \<not> bit w b \<and> ok k"
  by (induction bs) (auto split: if_splits)

lemma first_bit_None: "first_bit ok w base bs = None \<Longrightarrow> b \<in> set bs \<Longrightarrow> bit w b \<or> \<not> ok (base + b)"
  by (induction bs) (auto split: if_splits)

lemma first_clear_Some:
  assumes "first_clear ok bm is = Some k" "set is \<subseteq> {..<n}"
  shows "k < 8 * n \<and> \<not> bm_bit bm k \<and> ok k"
  using assms
proof (induction "is")
  case (Cons i "is")
  have sub: "i < n" "set is \<subseteq> {..<n}" using Cons.prems(2) by auto
  consider "first_clear ok bm is = Some k" | "first_bit ok (bm ! i) (i * 8) [0..<8] = Some k"
    using Cons.prems(1) unfolding first_clear.simps by (auto split: if_splits option.splits)
  then show ?case
  proof cases
    case 1
    then show ?thesis by (rule Cons.IH [OF _ sub(2)])
  next
    case 2
    then obtain b where b: "b \<in> set [0..<8]" "k = i * 8 + b" "\<not> bit (bm ! i) b" "ok k" using first_bit_Some by blast
    then have "b < 8" by simp
    with b sub(1) show ?thesis by (simp add: bm_bit_def)
  qed
qed simp

lemma bit_ff: "b < 8 \<Longrightarrow> bit (0xFF :: u8) b"
proof -
  have "(0xFF :: u8) = mask 8" by (simp add: mask_eq_exp_minus_1)
  then show "b < 8 \<Longrightarrow> bit (0xFF :: u8) b" by (simp only: bit_mask_iff possible_bit_word) simp
qed

lemma first_clear_None:
  assumes "first_clear ok bm is = None" "i \<in> set is" "b < 8"
  shows "bm_bit bm (i * 8 + b) \<or> \<not> ok (i * 8 + b)"
  using assms(1,2)
proof (induction "is")
  case (Cons j "is")
  have rest: "first_clear ok bm is = None" using Cons.prems(1) unfolding first_clear.simps by (auto split: if_splits option.splits)
  show ?case
  proof (cases "i \<in> set is")
    case True
    then show ?thesis by (rule Cons.IH [OF rest])
  next
    case False
    then have ij: "i = j" using Cons.prems(2) by simp
    have bm: "bm_bit bm (i * 8 + b) = bit (bm ! i) b" using assms(3) by (simp add: bm_bit_def)
    show ?thesis
    proof (cases "bm ! j = 0xFF")
      case True
      then show ?thesis using bit_ff [OF assms(3)] ij bm by simp
    next
      case nff: False
      then have "first_bit ok (bm ! j) (j * 8) [0..<8] = None"
        using Cons.prems(1) unfolding first_clear.simps by (auto split: if_splits option.splits)
      moreover have "b \<in> set [0..<8]" using assms(3) by simp
      ultimately show ?thesis using first_bit_None [of ok "bm ! j" "j * 8" "[0..<8]" b] ij bm by simp
    qed
  qed
qed simp

lemma first_clear_cong: "(\<And>i. i \<in> set is \<Longrightarrow> bm ! i = bm' ! i) \<Longrightarrow> first_clear ok bm is = first_clear ok bm' is"
  by (induction "is") (auto split: option.splits)

lemma first_clear_take: "first_clear ok bm [0..<n] = first_clear ok (take n bm) [0..<n]"
  by (rule first_clear_cong) simp

section \<open>A sound volume\<close>

text \<open>The blocks of the inode table, the metadata blocks of a group, and the layout in which no two
  of them coincide and none is in the descriptor table or the superblock.\<close>

definition tab_blocks :: "ext2_fs \<Rightarrow> nat" where
  "tab_blocks f = (unat (inodes_per_group f) * unat (inode_size f) + bsn f - 1) div bsn f"

definition metas :: "ext2_fs \<Rightarrow> bgd \<Rightarrow> nat list" where
  "metas f b = unat (bg_block_bitmap b) # unat (bg_inode_bitmap b)
     # [unat (bg_inode_table b)..<unat (bg_inode_table b) + tab_blocks f]"

definition grps :: "ext2_fs \<Rightarrow> u32 list" where
  "grps f = map of_nat [0..<unat (groups_count f)]"

definition sane :: "'d blk \<Rightarrow> nat \<Rightarrow> ext2_fs \<Rightarrow> 'd \<Rightarrow> bool" where
  "sane io lim f d \<longleftrightarrow>
     unat (groups_count f) * 32 \<le> 2 ^ 32
     \<and> (\<forall>g\<in>set (grps f). past_sb lim f (bgd_block f g))
     \<and> (\<forall>g\<in>set (grps f). distinct (metas f (bgd_at io f d g)))
     \<and> (\<forall>g\<in>set (grps f). \<forall>x\<in>set (metas f (bgd_at io f d g)).
           past_sb lim f (of_nat x) \<and> x < 2 ^ 32 \<and> (\<forall>h\<in>set (grps f). unat (bgd_block f h) \<noteq> x))
     \<and> (\<forall>g\<in>set (grps f). \<forall>h\<in>set (grps f). g \<noteq> h \<longrightarrow>
           set (metas f (bgd_at io f d g)) \<inter> set (metas f (bgd_at io f d h)) = {})"

lemma grps_iff: "g \<in> set (grps f) \<longleftrightarrow> g < groups_count f"
proof
  assume "g \<in> set (grps f)"
  then obtain k where k: "k < unat (groups_count f)" "g = of_nat k" by (auto simp: grps_def)
  have "unat g = k" unfolding k(2)
    by (rule unat_of_nat_eq) (use k(1) unsigned_less [of "groups_count f", where ?'a = nat] in linarith)
  with k(1) show "g < groups_count f" by (simp add: word_less_nat_alt)
next
  assume "g < groups_count f"
  then have "unat g < unat (groups_count f)" by (simp add: word_less_nat_alt)
  then have "unat g \<in> set [0..<unat (groups_count f)]" by simp
  then have "of_nat (unat g) \<in> set (grps f)" unfolding grps_def list.set_map by (rule imageI)
  then show "g \<in> set (grps f)" by simp
qed

lemma sane_group:
  assumes "sane io lim f d" "g < groups_count f"
  shows "past_sb lim f (bgd_block f g)" "unat g * 32 < 2 ^ 32" "blk_ok lim f (bgd_block f g)"
proof -
  show "past_sb lim f (bgd_block f g)" using assms by (simp add: sane_def grps_iff)
  then show "blk_ok lim f (bgd_block f g)" by (simp add: past_sb_def)
  have "unat g < unat (groups_count f)" using assms(2) by (simp add: word_less_nat_alt)
  then show "unat g * 32 < 2 ^ 32" using assms(1) unfolding sane_def by linarith
qed

lemma sane_meta:
  assumes "sane io lim f d" "g < groups_count f" "unat w \<in> set (metas f (bgd_at io f d g))"
  shows "past_sb lim f w" "blk_ok lim f w" "\<And>h. h < groups_count f \<Longrightarrow> w \<noteq> bgd_block f h"
    "\<And>h x. h < groups_count f \<Longrightarrow> h \<noteq> g \<Longrightarrow> unat x \<in> set (metas f (bgd_at io f d h)) \<Longrightarrow> w \<noteq> x"
proof -
  have g: "g \<in> set (grps f)" using assms(2) by (simp add: grps_iff)
  have s: "past_sb lim f (of_nat (unat w)) \<and> unat w < 2 ^ 32 \<and> (\<forall>h\<in>set (grps f). unat (bgd_block f h) \<noteq> unat w)"
    using assms(1) g assms(3) unfolding sane_def by blast
  then have "past_sb lim f (of_nat (unat w))" and b: "\<forall>h\<in>set (grps f). unat (bgd_block f h) \<noteq> unat w" by blast+
  then show p: "past_sb lim f w" by simp
  then show "blk_ok lim f w" by (simp add: past_sb_def)
  show "w \<noteq> bgd_block f h" if "h < groups_count f" for h using b that by (auto simp: grps_iff)
  show "w \<noteq> x" if "h < groups_count f" "h \<noteq> g" "unat x \<in> set (metas f (bgd_at io f d h))" for h x
  proof -
    have "h \<in> set (grps f)" using that(1) by (simp add: grps_iff)
    then have "set (metas f (bgd_at io f d g)) \<inter> set (metas f (bgd_at io f d h)) = {}"
      using assms(1) g that(2) unfolding sane_def by blast
    with assms(3) that(3) show ?thesis by auto
  qed
qed

lemma sane_cong:
  assumes "\<And>g. g < groups_count f \<Longrightarrow> metas f (bgd_at io f d' g) = metas f (bgd_at io f d g)"
  shows "sane io lim f d' = sane io lim f d"
proof -
  have "metas f (bgd_at io f d' g) = metas f (bgd_at io f d g)" if "g \<in> set (grps f)" for g
    using assms that by (simp add: grps_iff)
  then show ?thesis unfolding sane_def by (simp cong: ball_cong)
qed

lemma meta_bitmap: "unat (bg_block_bitmap b) \<in> set (metas f b)" "unat (bg_inode_bitmap b) \<in> set (metas f b)"
  by (simp_all add: metas_def)

text \<open>Only the superblock of the mounted state changes while blocks are allocated and freed.\<close>

lemma with_sb [simp]:
  "spbn (f\<lparr>sb := y\<rparr>) = spbn f" "bsn (f\<lparr>sb := y\<rparr>) = bsn f" "geom (f\<lparr>sb := y\<rparr>) = geom f"
  "blk_ok lim (f\<lparr>sb := y\<rparr>) blk = blk_ok lim f blk" "past_sb lim (f\<lparr>sb := y\<rparr>) blk = past_sb lim f blk"
  "block_lba (f\<lparr>sb := y\<rparr>) blk = block_lba f blk"
  "bgd_block (f\<lparr>sb := y\<rparr>) g = bgd_block f g" "bgd_off (f\<lparr>sb := y\<rparr>) g = bgd_off f g"
  "metas (f\<lparr>sb := y\<rparr>) b = metas f b" "grps (f\<lparr>sb := y\<rparr>) = grps f"
  by (simp_all add: spbn_def bsn_def geom_def blk_ok_def past_sb_def block_lba_def bgd_block_def bgd_off_def
      metas_def tab_blocks_def grps_def)

lemma with_sb_dev [simp]:
  "blk_of io (f\<lparr>sb := y\<rparr>) d blk = blk_of io f d blk" "bgd_at io (f\<lparr>sb := y\<rparr>) d g = bgd_at io f d g"
  "blk_writes_of (f\<lparr>sb := y\<rparr>) blk p = blk_writes_of f blk p" "put_bgd io (f\<lparr>sb := y\<rparr>) g b d = put_bgd io f g b d"
  "sane io lim (f\<lparr>sb := y\<rparr>) d = sane io lim f d"
  by (simp_all add: blk_of_def bgd_at_def blk_writes_of_def put_bgd_def sane_def)

definition put_blk :: "'d blk \<Rightarrow> ext2_fs \<Rightarrow> u32 \<Rightarrow> u8 list \<Rightarrow> 'd \<Rightarrow> 'd" where
  "put_blk io f blk p d = write_all io (blk_writes_of f blk p) d"

text \<open>The device after a bitmap block, the descriptor of its group and the superblock are written,
  in this order: every allocation and every freeing ends so.\<close>

definition commit :: "'d blk \<Rightarrow> ext2_fs \<Rightarrow> u32 \<Rightarrow> u32 \<Rightarrow> u8 list \<Rightarrow> bgd \<Rightarrow> u8 list \<Rightarrow> 'd \<Rightarrow> 'd" where
  "commit io f g w p b y d = write_all io (sb_writes (f\<lparr>sb := y\<rparr>)) (put_bgd io f g b (put_blk io f w p d))"

context reliable_device
begin

lemma put_blk_effect:
  assumes "good d" "geom f" "blk_ok lim f blk" "length p = bsn f"
  shows "good (put_blk io f blk p d)" "blk_of io f (put_blk io f blk p d) blk = p"
    and "blk_ok lim f x \<Longrightarrow> x \<noteq> blk \<Longrightarrow> blk_of io f (put_blk io f blk p d) x = blk_of io f d x"
proof -
  have l: "512 * spbn f \<le> length p" "take (512 * spbn f) p = p" using assms(2,4) by (simp_all add: geom_def)
  show "good (put_blk io f blk p d)" unfolding put_blk_def by (rule write_all_good [OF assms(1) fits_blk [OF assms(3) l(1)]])
  show "blk_of io f (put_blk io f blk p d) blk = p" unfolding put_blk_def blk_write_same [OF assms(1,3) l(1)] by (rule l(2))
  show "blk_ok lim f x \<Longrightarrow> x \<noteq> blk \<Longrightarrow> blk_of io f (put_blk io f blk p d) x = blk_of io f d x"
    unfolding put_blk_def by (rule blk_write_other [OF assms(1,3) l(1)])
qed

lemma commit_effect:
  fixes b :: bgd
  assumes "good d" "geom f" "sane io lim f d" "g < groups_count f"
    and "unat w \<in> set (metas f (bgd_at io f d g))" "length p = bsn f"
    and "length (bg_reserved b) = 12" "metas f b = metas f (bgd_at io f d g)" "length y = 1024"
  defines "d' \<equiv> commit io f g w p b y d"
  shows "good d'" "blk_of io f d' w = p" "bgd_at io f d' g = b"
    and "h < groups_count f \<Longrightarrow> h \<noteq> g \<Longrightarrow> bgd_at io f d' h = bgd_at io f d h"
    and "past_sb lim f x \<Longrightarrow> x \<noteq> w \<Longrightarrow> x \<noteq> bgd_block f g \<Longrightarrow> blk_of io f d' x = blk_of io f d x"
    and "sane io lim f d'"
    and "blk_of io f d' (bgd_block f g) = splice (blk_of io f (put_blk io f w p d) (bgd_block f g)) (bgd_off f g) (bgd_bytes b)"
proof -
  note gg = sane_group [OF assms(3,4)] and m = sane_meta [OF assms(3,4,5)]
  let ?d1 = "put_blk io f w p d" and ?d2 = "put_bgd io f g b (put_blk io f w p d)"
  note e1 = put_blk_effect [OF assms(1,2) m(2) assms(6)]
  note e2 = put_bgd_effect [OF e1(1) assms(2) gg(3,2) assms(7)]
  have sp: "1 \<le> spbn f" using assms(2) by (simp add: geom_def)
  have e3: "blk_of io f d' x = blk_of io f ?d2 x" if "past_sb lim f x" for x
    unfolding d'_def commit_def
    using sb_write_other(1) [OF e2(1), of "f\<lparr>sb := y\<rparr>" x] that assms(9) sp by simp
  show "blk_of io f d' (bgd_block f g) = splice (blk_of io f ?d1 (bgd_block f g)) (bgd_off f g) (bgd_bytes b)"
    using e3 [OF gg(1)] e2(5) by simp
  show "good d'" unfolding d'_def commit_def
    using sb_write_other(2) [OF e2(1), of "f\<lparr>sb := y\<rparr>" w] m(1) assms(9) sp by simp
  have bg: "bgd_at io f d' h = bgd_at io f ?d2 h" if "h < groups_count f" for h
    unfolding bgd_at_def e3 [OF sane_group(1) [OF assms(3) that]] ..
  show g: "bgd_at io f d' g = b" using bg [OF assms(4)] e2(2) by simp
  show h: "bgd_at io f d' h = bgd_at io f d h" if "h < groups_count f" "h \<noteq> g" for h
  proof -
    note hh = sane_group [OF assms(3) that(1)]
    have "bgd_at io f ?d2 h = bgd_at io f ?d1 h" by (rule e2(3) [OF that(2) hh(2,3)])
    also have "\<dots> = bgd_at io f d h" unfolding bgd_at_def by (subst e1(3) [OF hh(3)]) (use m(3) [OF that(1)] in auto)
    finally show ?thesis using bg [OF that(1)] by simp
  qed
  have "blk_of io f ?d2 w = p" using e2(4) [OF m(2) m(3) [OF assms(4)]] e1(2) by simp
  then show "blk_of io f d' w = p" using e3 [OF m(1)] by simp
  show "blk_of io f d' x = blk_of io f d x" if "past_sb lim f x" "x \<noteq> w" "x \<noteq> bgd_block f g" for x
  proof -
    have ok: "blk_ok lim f x" using that(1) by (simp add: past_sb_def)
    show ?thesis using e3 [OF that(1)] e2(4) [OF ok that(3)] e1(3) [OF ok that(2)] by simp
  qed
  have "metas f (bgd_at io f d' h) = metas f (bgd_at io f d h)" if "h < groups_count f" for h
    using g h [OF that] assms(8) by (cases "h = g") auto
  then show "sane io lim f d'" using sane_cong [of f io d' d lim] assms(3) by blast
qed

text \<open>The state in which the operations run: device and buffers, a sound volume, a whole superblock.\<close>

definition vol_ok :: "'d ext2 \<Rightarrow> bool" where
  "vol_ok s \<longleftrightarrow> e_ok s \<and> sane io lim (fs s) (dev s) \<and> length (sb (fs s)) = 1024"

definition committed :: "'d ext2 \<Rightarrow> u32 \<Rightarrow> u32 \<Rightarrow> u8 list \<Rightarrow> bgd \<Rightarrow> 'd ext2 \<Rightarrow> bool" where
  "committed s g w p b s' \<longleftrightarrow> (\<exists>x y. length x = 8192 \<and> length y = 1024
     \<and> take (bsn (fs s)) x = blk_of io (fs s) (commit io (fs s) g w p b y (dev s)) (bgd_block (fs s) g)
     \<and> s' = s\<lparr>g_buf := x, fs := (fs s)\<lparr>sb := y\<rparr>, dev := commit io (fs s) g w p b y (dev s)\<rparr>)"

lemma committed_vol_ok:
  assumes "vol_ok s" "committed s g w p b s'" "g < groups_count (fs s)"
    and "unat w \<in> set (metas (fs s) (bgd_at io (fs s) (dev s) g))" "length p = bsn (fs s)"
    and "length (bg_reserved b) = 12" "metas (fs s) b = metas (fs s) (bgd_at io (fs s) (dev s) g)"
  shows "vol_ok s'"
proof -
  obtain x y where xy: "length x = 8192" "length y = 1024"
    and s': "s' = s\<lparr>g_buf := x, fs := (fs s)\<lparr>sb := y\<rparr>, dev := commit io (fs s) g w p b y (dev s)\<rparr>"
    using assms(2) by (auto simp: committed_def)
  have v: "good (dev s)" "geom (fs s)" "sane io lim (fs s) (dev s)" "bufs_ok s"
    using assms(1) by (auto simp: vol_ok_def e_ok_def)
  note c = commit_effect [OF v(1-3) assms(3-7) xy(2)]
  show ?thesis unfolding vol_ok_def e_ok_def s' using c(1,6) v(2,4) xy by (simp add: bufs_ok_def)
qed

definition counts_only :: "('d ext2 \<Rightarrow> 'd ext2) \<Rightarrow> bool" where
  "counts_only upd \<longleftrightarrow> (\<forall>s. length (sb (fs s)) = 1024 \<longrightarrow> (\<exists>y. length y = 1024 \<and> upd s = s\<lparr>fs := (fs s)\<lparr>sb := y\<rparr>\<rparr>))"

lemma counts_only_put: "length (sb (fs s)) = 1024 \<Longrightarrow> off + 4 \<le> 1024 \<Longrightarrow>
    \<exists>y. length y = 1024 \<and> sb_put off v s = s\<lparr>fs := (fs s)\<lparr>sb := y\<rparr>\<rparr>"
  by (rule exI [of _ "wr32 (sb (fs s)) off v"]) (simp add: sb_put_def)

lemma counts_only: "off + 4 \<le> 1024 \<Longrightarrow> counts_only (sb_dec off)" "off + 4 \<le> 1024 \<Longrightarrow> counts_only (sb_inc off)"
proof -
  assume off: "off + 4 \<le> 1024"
  show "counts_only (sb_inc off)" by (simp add: counts_only_def sb_inc_def counts_only_put [OF _ off])
  have "\<exists>y. length y = 1024 \<and> s = s\<lparr>fs := (fs s)\<lparr>sb := y\<rparr>\<rparr>" if "length (sb (fs s)) = 1024" for s :: "'d ext2"
    by (rule exI [of _ "sb (fs s)"]) (simp add: that)
  then show "counts_only (sb_dec off)" by (simp add: counts_only_def sb_dec_def Let_def counts_only_put [OF _ off])
qed

text \<open>The tail of allocation and freeing: bitmap written from the buffer, then descriptor and
  superblock.\<close>

lemma commit_run:
  assumes "vol_ok s" "g < groups_count (fs s)" "unat w \<in> set (metas (fs s) (bgd_at io (fs s) (dev s) g))"
    and "length (bg_reserved b) = 12" "metas (fs s) b = metas (fs s) (bgd_at io (fs s) (dev s) g)"
    and "counts_only upd"
  shows "\<exists>s1 s2 s3 s'. run_state (write_block io w GBuf) s = (True, s1) \<and> run_state (write_bgd io g b) s1 = (True, s2)
    \<and> run_state (modify upd) s2 = ((), s3) \<and> run_state (write_superblock io) s3 = (True, s')
    \<and> committed s g w (take (bsn (fs s)) (g_buf s)) b s'"
proof -
  let ?f = "fs s" and ?p = "take (bsn (fs s)) (g_buf s)"
  have v: "e_ok s" "sane io lim ?f (dev s)" "length (sb ?f) = 1024" "geom ?f" "good (dev s)" "length (g_buf s) = 8192"
    using assms(1) by (auto simp: vol_ok_def e_ok_def bufs_ok_def)
  note gg = sane_group [OF v(2) assms(2)] and m = sane_meta [OF v(2) assms(2,3)]
  have lp: "length ?p = bsn ?f" "512 * spbn ?f \<le> length ?p" using v(4,6) by (auto simp: geom_def)
  let ?s1 = "s\<lparr>dev := put_blk io ?f w ?p (dev s)\<rparr>"
  have r1: "run_state (write_block io w GBuf) s = (True, ?s1)"
    using write_gbuf [OF v(1) m(2)] by (simp add: put_blk_def)
  have ok1: "e_ok ?s1" using e_ok_write [OF v(1) m(2) lp(2)] by (simp add: put_blk_def)
  obtain x where x: "length x = 8192"
    "run_state (write_bgd io g b) ?s1 = (True, ?s1\<lparr>g_buf := x, dev := put_bgd io ?f g b (put_blk io ?f w ?p (dev s))\<rparr>)"
    "take (bsn ?f) x = splice (blk_of io ?f (put_blk io ?f w ?p (dev s)) (bgd_block ?f g)) (bgd_off ?f g) (bgd_bytes b)"
    by (rule write_bgd_run [OF ok1, of g b]) (use assms(2,4) gg in auto)
  let ?s2 = "s\<lparr>g_buf := x, dev := put_bgd io ?f g b (put_blk io ?f w ?p (dev s))\<rparr>"
  obtain y where y: "length y = 1024" "upd ?s2 = ?s2\<lparr>fs := ?f\<lparr>sb := y\<rparr>\<rparr>"
    using assms(6) [unfolded counts_only_def, rule_format, of ?s2] v(3) by auto
  let ?s3 = "?s2\<lparr>fs := ?f\<lparr>sb := y\<rparr>\<rparr>"
  have gd: "good (dev ?s3)"
    using put_bgd_effect(1) [OF put_blk_effect(1) [OF v(5,4) m(2) lp(1)] v(4) gg(3,2) assms(4)] by simp
  have fit: "fits (sb_writes (fs ?s3))"
    using sb_write_other(3) [OF gd, of "fs ?s3" w] y(1) m(1) v(4) by (simp add: geom_def)
  have r4: "run_state (write_superblock io) ?s3 = (True, ?s3\<lparr>dev := commit io ?f g w ?p b y (dev s)\<rparr>)"
    using write_superblock_run [OF gd _ fit] y(1) by (simp add: commit_def)
  show ?thesis
  proof (intro exI conjI)
    show "run_state (write_block io w GBuf) s = (True, ?s1)" by (rule r1)
    show "run_state (write_bgd io g b) ?s1 = (True, ?s2)" using x(2) by simp
    show "run_state (modify upd) ?s2 = ((), ?s3)" using y(2) by simp
    show "run_state (write_superblock io) ?s3 = (True, ?s3\<lparr>dev := commit io ?f g w ?p b y (dev s)\<rparr>)" by (rule r4)
    show "committed s g w ?p b (?s3\<lparr>dev := commit io ?f g w ?p b y (dev s)\<rparr>)"
      unfolding committed_def using x(1,3) y(1) commit_effect(7) [OF v(5,4,2) assms(2,3) lp(1) assms(4,5) y(1)] by (intro exI [of _ x] exI [of _ y]) simp
  qed
qed

end

end
