(* ===== verification/Ext2Alloc.thy ===== *)
theory Ext2Alloc
  imports Ext2Vol
begin

text \<open>
  Allocation and freeing of blocks on a sound volume: the block that is handed out was free in its
  bitmap and is marked, everything else keeps its contents, and freeing undoes it.
\<close>

section \<open>Allocation\<close>

text \<open>The bitmap of group \<open>g\<close>, and the block that bit \<open>k\<close> of it stands for.\<close>

definition bitmap :: "'d blk \<Rightarrow> ext2_fs \<Rightarrow> 'd \<Rightarrow> u32 \<Rightarrow> u8 list" where
  "bitmap io f d g = blk_of io f d (bg_block_bitmap (bgd_at io f d g))"

definition block_no :: "ext2_fs \<Rightarrow> u32 \<Rightarrow> nat \<Rightarrow> u32" where
  "block_no f g k = g * blocks_per_group f + of_nat k + first_data_block f"

lemma bitmap_sb [simp]: "bitmap io (f\<lparr>sb := y\<rparr>) d g = bitmap io f d g"
  by (simp add: bitmap_def)

lemma mark_take: "k div 8 < n \<Longrightarrow> n \<le> length bm \<Longrightarrow> take n (mark_bit bm k) = mark_bit (take n bm) k"
  "k div 8 < n \<Longrightarrow> n \<le> length bm \<Longrightarrow> take n (unmark_bit bm k) = unmark_bit (take n bm) k"
  by (simp_all add: mark_bit_def unmark_bit_def take_update_swap)

context reliable_device
begin

lemma vol_ok_gbuf: "vol_ok s \<Longrightarrow> length x = 8192 \<Longrightarrow> vol_ok (s\<lparr>g_buf := x\<rparr>)"
  by (simp add: vol_ok_def e_ok_gbuf)

lemma committed_gbuf: "committed (s\<lparr>g_buf := x\<rparr>) g w p b s' = committed s g w p b s'"
  by (simp add: committed_def)

lemma vol_group:
  assumes "vol_ok s" "g < groups_count (fs s)"
  shows "length (bg_reserved (bgd_at io (fs s) (dev s) g)) = 12"
    and "blk_ok lim (fs s) (bg_block_bitmap (bgd_at io (fs s) (dev s) g))"
    and "length (bitmap io (fs s) (dev s) g) = bsn (fs s)"
    and "unat (bg_block_bitmap (bgd_at io (fs s) (dev s) g)) \<in> set (metas (fs s) (bgd_at io (fs s) (dev s) g))"
proof -
  have v: "good (dev s)" "geom (fs s)" "sane io lim (fs s) (dev s)" using assms(1) by (auto simp: vol_ok_def e_ok_def)
  note gg = sane_group [OF v(3) assms(2)]
  have "length (blk_of io (fs s) (dev s) (bgd_block (fs s) g)) = bsn (fs s)"
    using length_blk_of [OF v(1) gg(3)] v(2) by (simp add: geom_def)
  then show "length (bg_reserved (bgd_at io (fs s) (dev s) g)) = 12"
    unfolding bgd_at_def using bgd_off_bounds(2) [OF v(2) gg(2)] by (intro length_bgd_reserved) simp
  show m: "unat (bg_block_bitmap (bgd_at io (fs s) (dev s) g)) \<in> set (metas (fs s) (bgd_at io (fs s) (dev s) g))"
    by (rule meta_bitmap)
  show ok: "blk_ok lim (fs s) (bg_block_bitmap (bgd_at io (fs s) (dev s) g))" by (rule sane_meta(2) [OF v(3) assms(2) m])
  show "length (bitmap io (fs s) (dev s) g) = bsn (fs s)"
    unfolding bitmap_def using length_blk_of [OF v(1) ok] v(2) by (simp add: geom_def)
qed

lemma alloc_in_group_run:
  assumes "vol_ok s" "g < groups_count (fs s)"
  defines "f \<equiv> fs s" and "d \<equiv> dev s"
  defines "b \<equiv> bgd_at io f d g"
  shows "bg_free_blocks_count b = 0 \<or> first_clear (\<lambda>_. True) (bitmap io f d g) [0..<bsn f] = None \<Longrightarrow>
      \<exists>x. length x = 8192 \<and> run_state (alloc_in_group io g) s = (None, s\<lparr>g_buf := x\<rparr>)"
    and "bg_free_blocks_count b \<noteq> 0 \<Longrightarrow> first_clear (\<lambda>_. True) (bitmap io f d g) [0..<bsn f] = Some k \<Longrightarrow>
      \<exists>s'. run_state (alloc_in_group io g) s = (Some (block_no f g k), s')
        \<and> committed s g (bg_block_bitmap b) (mark_bit (bitmap io f d g) k) (b\<lparr>bg_free_blocks_count := bg_free_blocks_count b - 1\<rparr>) s'"
proof -
  let ?w = "bg_block_bitmap b"
  have v: "e_ok s" "sane io lim f d" using assms(1) by (auto simp: vol_ok_def f_def d_def)
  note gg = sane_group [OF v(2) assms(2) [folded f_def]]
  note vg = vol_group [OF assms(1,2), folded f_def d_def, folded b_def]
  obtain x1 where x1: "run_state (read_bgd io g) s = (Some b, s\<lparr>g_buf := x1\<rparr>)" "length x1 = 8192"
    unfolding b_def f_def d_def by (rule read_bgd_run [OF v(1) assms(2)]) (use gg f_def in auto)
  let ?s1 = "s\<lparr>g_buf := x1\<rparr>"
  have ok1: "e_ok ?s1" by (rule e_ok_gbuf [OF v(1) x1(2)])
  obtain x2 where x2: "run_state (read_block io ?w GBuf) ?s1 = (True, ?s1\<lparr>g_buf := x2\<rparr>)" "length x2 = 8192"
    "take (bsn f) x2 = bitmap io f d g"
    by (rule read_gbuf [OF ok1, of ?w]) (use vg f_def d_def b_def in \<open>auto simp: bitmap_def\<close>)
  let ?s2 = "s\<lparr>g_buf := x2\<rparr>"
  have fc: "first_clear (\<lambda>_. True) x2 [0..<unat (block_size f)] = first_clear (\<lambda>_. True) (bitmap io f d g) [0..<bsn f]"
    using first_clear_take [of "\<lambda>_. True" x2 "bsn f"] x2(3) by (simp add: bsn_def)
  { assume "bg_free_blocks_count b = 0 \<or> first_clear (\<lambda>_. True) (bitmap io f d g) [0..<bsn f] = None"
    then show "\<exists>x. length x = 8192 \<and> run_state (alloc_in_group io g) s = (None, s\<lparr>g_buf := x\<rparr>)"
    proof
      assume "bg_free_blocks_count b = 0"
      then show ?thesis using x1 by (intro exI [of _ x1]) (simp add: alloc_in_group_def)
    next
      assume n: "first_clear (\<lambda>_. True) (bitmap io f d g) [0..<bsn f] = None"
      show ?thesis
      proof (cases "bg_free_blocks_count b = 0")
        case True
        then show ?thesis using x1 by (intro exI [of _ x1]) (simp add: alloc_in_group_def)
      next
        case False
        then show ?thesis using x1 x2 n fc by (intro exI [of _ x2]) (simp add: alloc_in_group_def f_def)
      qed
    qed }
  assume free: "bg_free_blocks_count b \<noteq> 0" and k: "first_clear (\<lambda>_. True) (bitmap io f d g) [0..<bsn f] = Some k"
  have k8: "k div 8 < bsn f" using first_clear_Some [OF k, of "bsn f"] by (auto simp: subset_eq)
  have gm: "bsn f \<le> 4096" using v(1) by (simp add: e_ok_def geom_def f_def)
  let ?s3 = "s\<lparr>g_buf := mark_bit x2 k\<rparr>" and ?b = "b\<lparr>bg_free_blocks_count := bg_free_blocks_count b - 1\<rparr>"
  have vol3: "vol_ok ?s3" by (rule vol_ok_gbuf [OF assms(1)]) (simp add: x2(2))
  obtain s4 s5 s6 s' where r: "run_state (write_block io ?w GBuf) ?s3 = (True, s4)" "run_state (write_bgd io g ?b) s4 = (True, s5)"
    "run_state (modify (sb_dec 12)) s5 = ((), s6)" "run_state (write_superblock io) s6 = (True, s')"
    and c: "committed ?s3 g ?w (take (bsn (fs ?s3)) (g_buf ?s3)) ?b s'"
    using commit_run [OF vol3, of g ?w ?b "sb_dec 12"] assms(2) vg counts_only(1) [of 12]
    by (auto simp: f_def d_def b_def metas_def tab_blocks_def)
  have p: "take (bsn f) (mark_bit x2 k) = mark_bit (bitmap io f d g) k"
    using mark_take(1) [OF k8, of x2] gm x2 by simp
  have "committed s g ?w (mark_bit (bitmap io f d g) k) ?b s'"
    using c p unfolding committed_gbuf by (simp add: f_def)
  moreover have "run_state (alloc_in_group io g) s = (Some (block_no f g k), s')"
    using x1 x2 free k fc r by (simp add: alloc_in_group_def block_no_def f_def)
  ultimately show "\<exists>s'. run_state (alloc_in_group io g) s = (Some (block_no f g k), s')
        \<and> committed s g ?w (mark_bit (bitmap io f d g) k) ?b s'" by blast
qed

text \<open>A group without a block to give.\<close>

definition exhausted :: "ext2_fs \<Rightarrow> 'd \<Rightarrow> u32 \<Rightarrow> bool" where
  "exhausted f d g \<longleftrightarrow> bg_free_blocks_count (bgd_at io f d g) = 0 \<or> (\<forall>k<8 * bsn f. bm_bit (bitmap io f d g) k)"

lemma none_full: "first_clear (\<lambda>_. True) bm [0..<n] = None \<Longrightarrow> k < 8 * n \<Longrightarrow> bm_bit bm k"
  using first_clear_None [of "\<lambda>_. True" bm "[0..<n]" "k div 8" "k mod 8"] by auto

lemma alloc_loop:
  assumes "vol_ok s" "set gs \<subseteq> {g. g < groups_count (fs s)}"
  shows "(\<exists>x. length x = 8192 \<and> run_state (first_m (alloc_in_group io) gs) s = (None, s\<lparr>g_buf := x\<rparr>)
            \<and> (\<forall>g\<in>set gs. exhausted (fs s) (dev s) g))
       \<or> (\<exists>g k s'. g \<in> set gs \<and> k < 8 * bsn (fs s) \<and> \<not> bm_bit (bitmap io (fs s) (dev s) g) k
            \<and> run_state (first_m (alloc_in_group io) gs) s = (Some (block_no (fs s) g k), s')
            \<and> committed s g (bg_block_bitmap (bgd_at io (fs s) (dev s) g)) (mark_bit (bitmap io (fs s) (dev s) g) k)
                 ((bgd_at io (fs s) (dev s) g)\<lparr>bg_free_blocks_count := bg_free_blocks_count (bgd_at io (fs s) (dev s) g) - 1\<rparr>) s')"
  using assms
proof (induction gs arbitrary: s)
  case Nil
  then show ?case by (intro disjI1 exI [of _ "g_buf s"]) (simp add: vol_ok_def e_ok_def bufs_ok_def)
next
  case (Cons g gs)
  have g: "g < groups_count (fs s)" using Cons.prems(2) by simp
  let ?b = "bgd_at io (fs s) (dev s) g" and ?fc = "first_clear (\<lambda>_. True) (bitmap io (fs s) (dev s) g) [0..<bsn (fs s)]"
  note run = alloc_in_group_run [OF Cons.prems(1) g]
  show ?case
  proof (cases "bg_free_blocks_count ?b = 0 \<or> ?fc = None")
    case True
    from run(1) [OF True] obtain x where x: "length x = 8192" "run_state (alloc_in_group io g) s = (None, s\<lparr>g_buf := x\<rparr>)" by blast
    have full: "exhausted (fs s) (dev s) g" using True none_full by (auto simp: exhausted_def)
    have step: "run_state (first_m (alloc_in_group io) (g # gs)) s = run_state (first_m (alloc_in_group io) gs) (s\<lparr>g_buf := x\<rparr>)"
      using x(2) by simp
    show ?thesis
      using Cons.IH [OF vol_ok_gbuf [OF Cons.prems(1) x(1)]] Cons.prems(2) full
      unfolding step committed_gbuf by (auto; blast)
  next
    case False
    then obtain k where k: "?fc = Some k" by blast
    from False have nz: "bg_free_blocks_count ?b \<noteq> 0" by blast
    from run(2) [OF nz k] obtain s' where s': "run_state (alloc_in_group io g) s = (Some (block_no (fs s) g k), s')"
      "committed s g (bg_block_bitmap ?b) (mark_bit (bitmap io (fs s) (dev s) g) k) (?b\<lparr>bg_free_blocks_count := bg_free_blocks_count ?b - 1\<rparr>) s'" by blast
    have kk: "k < 8 * bsn (fs s)" "\<not> bm_bit (bitmap io (fs s) (dev s) g) k"
      using first_clear_Some [OF k, of "bsn (fs s)"] by (auto simp: subset_eq)
    show ?thesis
      by (rule disjI2, rule exI [of _ g], rule exI [of _ k], rule exI [of _ s']) (use s' kk in simp)
  qed
qed

text \<open>What a change of one bit of the bitmap of group \<open>g\<close> and of its count does to the volume.\<close>

definition bit_change :: "ext2_fs \<Rightarrow> 'd \<Rightarrow> u32 \<Rightarrow> u8 list \<Rightarrow> u16 \<Rightarrow> 'd \<Rightarrow> bool" where
  "bit_change f d g p c d' \<longleftrightarrow> bitmap io f d' g = p
     \<and> bgd_at io f d' g = (bgd_at io f d g)\<lparr>bg_free_blocks_count := c\<rparr>
     \<and> (\<forall>h. h < groups_count f \<and> h \<noteq> g \<longrightarrow> bgd_at io f d' h = bgd_at io f d h \<and> bitmap io f d' h = bitmap io f d h)
     \<and> (\<forall>x. past_sb lim f x \<and> x \<noteq> bg_block_bitmap (bgd_at io f d g) \<and> x \<noteq> bgd_block f g \<longrightarrow> blk_of io f d' x = blk_of io f d x)"

lemma committed_bit_change:
  assumes "vol_ok s" "g < groups_count (fs s)" "length p = bsn (fs s)"
    and "committed s g (bg_block_bitmap (bgd_at io (fs s) (dev s) g)) p ((bgd_at io (fs s) (dev s) g)\<lparr>bg_free_blocks_count := c\<rparr>) s'"
  shows "vol_ok s' \<and> bit_change (fs s) (dev s) g p c (dev s') \<and> (\<exists>y. fs s' = (fs s)\<lparr>sb := y\<rparr>)"
proof -
  let ?f = "fs s" and ?d = "dev s"
  let ?b = "bgd_at io ?f ?d g"
  obtain x y where xy: "length x = 8192" "length y = 1024"
    and s': "s' = s\<lparr>g_buf := x, fs := (fs s)\<lparr>sb := y\<rparr>, dev := commit io ?f g (bg_block_bitmap ?b) p (?b\<lparr>bg_free_blocks_count := c\<rparr>) y ?d\<rparr>"
    using assms(4) by (auto simp: committed_def)
  note vg = vol_group [OF assms(1,2)]
  have v: "good ?d" "geom ?f" "sane io lim ?f ?d" using assms(1) by (auto simp: vol_ok_def e_ok_def)
  have r: "length (bg_reserved (?b\<lparr>bg_free_blocks_count := c\<rparr>)) = 12" "metas ?f (?b\<lparr>bg_free_blocks_count := c\<rparr>) = metas ?f ?b"
    using vg(1) by (simp_all add: metas_def)
  note e = commit_effect [OF v assms(2) vg(4) assms(3) r xy(2)]
  have "bitmap io ?f (dev s') h = bitmap io ?f ?d h" if h: "h < groups_count ?f" "h \<noteq> g" for h
  proof -
    let ?w = "bg_block_bitmap (bgd_at io ?f ?d h)"
    note m = sane_meta [OF v(3) h(1) meta_bitmap(1)]
    have "?w \<noteq> bg_block_bitmap ?b" by (rule m(4) [OF assms(2)]) (use h vg(4) in auto)
    then show ?thesis using e(4) [OF h] e(5) [OF m(1) _ m(3) [OF assms(2)]] by (simp add: bitmap_def s')
  qed
  then have "bit_change ?f ?d g p c (dev s')"
    unfolding bit_change_def s' using e by (simp add: bitmap_def)
  moreover have "vol_ok s'" by (rule committed_vol_ok [OF assms(1,4,2) vg(4) assms(3) r])
  ultimately show ?thesis using s' by auto
qed

lemma alloc_block_spec:
  assumes "vol_ok s" "run_state (alloc_block_internal io) s = (blk, s')"
  shows "vol_ok s' \<and> (\<exists>y. fs s' = (fs s)\<lparr>sb := y\<rparr>) \<and>
    ((blk = 0 \<and> dev s' = dev s \<and> (\<forall>g<groups_count (fs s). exhausted (fs s) (dev s) g))
     \<or> (\<exists>g k. g < groups_count (fs s) \<and> k < 8 * bsn (fs s) \<and> blk = block_no (fs s) g k
          \<and> \<not> bm_bit (bitmap io (fs s) (dev s) g) k
          \<and> bit_change (fs s) (dev s) g (mark_bit (bitmap io (fs s) (dev s) g) k)
               (bg_free_blocks_count (bgd_at io (fs s) (dev s) g) - 1) (dev s')))"
proof -
  have sub: "set (grps (fs s)) \<subseteq> {g. g < groups_count (fs s)}" by (auto simp: grps_iff)
  have run: "run_state (alloc_block_internal io) s
      = (case run_state (first_m (alloc_in_group io) (grps (fs s))) s of (r, s') \<Rightarrow> (case r of Some n \<Rightarrow> n | None \<Rightarrow> 0, s'))"
    by (simp add: alloc_block_internal_def grps_def split: prod.splits)
  from alloc_loop [OF assms(1) sub] show ?thesis
  proof (elim disjE exE conjE)
    fix x assume x: "length x = 8192" "run_state (first_m (alloc_in_group io) (grps (fs s))) s = (None, s\<lparr>g_buf := x\<rparr>)"
      "\<forall>g\<in>set (grps (fs s)). exhausted (fs s) (dev s) g"
    then have "blk = 0" "s' = s\<lparr>g_buf := x\<rparr>" using assms(2) run by simp_all
    moreover have "\<exists>y. fs s = (fs s)\<lparr>sb := y\<rparr>" by (rule exI [of _ "sb (fs s)"]) simp
    ultimately show ?thesis using x(1,3) vol_ok_gbuf [OF assms(1) x(1)] by (simp add: grps_iff)
  next
    fix g k s1
    assume g: "g \<in> set (grps (fs s))" and k: "k < 8 * bsn (fs s)" "\<not> bm_bit (bitmap io (fs s) (dev s) g) k"
      and r: "run_state (first_m (alloc_in_group io) (grps (fs s))) s = (Some (block_no (fs s) g k), s1)"
      and c: "committed s g (bg_block_bitmap (bgd_at io (fs s) (dev s) g)) (mark_bit (bitmap io (fs s) (dev s) g) k)
                 ((bgd_at io (fs s) (dev s) g)\<lparr>bg_free_blocks_count := bg_free_blocks_count (bgd_at io (fs s) (dev s) g) - 1\<rparr>) s1"
    have gl: "g < groups_count (fs s)" using g by (simp add: grps_iff)
    have "blk = block_no (fs s) g k" "s1 = s'" using assms(2) run r by simp_all
    with committed_bit_change [OF assms(1) gl _ c] vol_group(3) [OF assms(1) gl] gl k show ?thesis by auto
  qed
qed

section \<open>Freeing\<close>

lemma free_block_run:
  assumes "vol_ok s" "g < groups_count (fs s)" "k < unat (blocks_per_group (fs s))" "k < 8 * bsn (fs s)"
    and "unat g * unat (blocks_per_group (fs s)) + k + unat (first_data_block (fs s)) < 2 ^ 32" "block_no (fs s) g k \<noteq> 0"
  shows "\<exists>s'. run_state (free_block io (block_no (fs s) g k)) s = ((), s')
    \<and> committed s g (bg_block_bitmap (bgd_at io (fs s) (dev s) g)) (unmark_bit (bitmap io (fs s) (dev s) g) k)
        ((bgd_at io (fs s) (dev s) g)\<lparr>bg_free_blocks_count := bg_free_blocks_count (bgd_at io (fs s) (dev s) g) + 1\<rparr>) s'"
proof -
  let ?f = "fs s" and ?d = "dev s" and ?blk = "block_no (fs s) g k" and ?bpg = "unat (blocks_per_group (fs s))"
  let ?b = "bgd_at io ?f ?d g"
  let ?w = "bg_block_bitmap ?b" and ?b' = "?b\<lparr>bg_free_blocks_count := bg_free_blocks_count ?b + 1\<rparr>"
  have v: "e_ok s" "sane io lim ?f ?d" "geom ?f" using assms(1) by (auto simp: vol_ok_def e_ok_def)
  note gg = sane_group [OF v(2) assms(2)] and vg = vol_group [OF assms(1,2)]
  have m: "unat (g * blocks_per_group ?f) = unat g * ?bpg" using assms(5) by (simp add: unat_mult_no_overflow)
  have kk: "unat (of_nat k :: u32) = k" using assms(5) by (simp add: unat_of_nat_eq)
  have s1: "unat (g * blocks_per_group ?f + of_nat k) = unat g * ?bpg + k"
    using assms(5) m kk by (subst unat_add_no_overflow) auto
  have s2: "unat ?blk = unat g * ?bpg + k + unat (first_data_block ?f)"
    unfolding block_no_def using assms(5) s1 by (subst unat_add_no_overflow) auto
  have ge: "\<not> ?blk < first_data_block ?f" using s2 by (simp add: word_less_nat_alt)
  have adj: "?blk - first_data_block ?f = g * blocks_per_group ?f + of_nat k" by (simp add: block_no_def)
  have gr: "(?blk - first_data_block ?f) div blocks_per_group ?f = g"
  proof -
    have "unat ((?blk - first_data_block ?f) div blocks_per_group ?f) = (unat g * ?bpg + k) div ?bpg"
      unfolding adj unat_div s1 ..
    also have "\<dots> = unat g" using assms(3) by simp
    finally show ?thesis by (simp add: word_unat_eq_iff)
  qed
  have ix: "unat ((?blk - first_data_block ?f) mod blocks_per_group ?f) = k"
    unfolding adj unat_mod s1 using assms(3) by simp
  have bpg: "blocks_per_group ?f \<noteq> 0" using assms(3) by auto
  obtain x1 where x1: "run_state (read_bgd io g) s = (Some ?b, s\<lparr>g_buf := x1\<rparr>)" "length x1 = 8192"
    by (rule read_bgd_run [OF v(1) assms(2) gg(3,2)])
  let ?s1 = "s\<lparr>g_buf := x1\<rparr>"
  have ok1: "e_ok ?s1" by (rule e_ok_gbuf [OF v(1) x1(2)])
  obtain x2 where x2: "run_state (read_block io ?w GBuf) ?s1 = (True, ?s1\<lparr>g_buf := x2\<rparr>)" "length x2 = 8192"
    "take (bsn ?f) x2 = bitmap io ?f ?d g"
    by (rule read_gbuf [OF ok1, of ?w]) (use vg in \<open>auto simp: bitmap_def\<close>)
  have k8: "k div 8 < bsn ?f" "bsn ?f \<le> 4096" using assms(4) v(3) by (auto simp: geom_def)
  let ?s3 = "s\<lparr>g_buf := unmark_bit x2 k\<rparr>"
  have vol3: "vol_ok ?s3" by (rule vol_ok_gbuf [OF assms(1)]) (simp add: x2(2))
  obtain s4 s5 s6 s' where r: "run_state (write_block io ?w GBuf) ?s3 = (True, s4)" "run_state (write_bgd io g ?b') s4 = (True, s5)"
    "run_state (modify (sb_inc 12)) s5 = ((), s6)" "run_state (write_superblock io) s6 = (True, s')"
    and c: "committed ?s3 g ?w (take (bsn (fs ?s3)) (g_buf ?s3)) ?b' s'"
    using commit_run [OF vol3, of g ?w ?b' "sb_inc 12"] assms(2) vg counts_only(2) [of 12] by (auto simp: metas_def)
  have p: "take (bsn ?f) (unmark_bit x2 k) = unmark_bit (bitmap io ?f ?d g) k"
    using mark_take(2) [OF k8(1), of x2] k8 x2 by simp
  have c': "committed s g ?w (unmark_bit (bitmap io ?f ?d g) k) ?b' s'" using c p unfolding committed_gbuf by simp
  have "k div 8 < length x2" using k8 x2 by simp
  then have "run_state (free_block io ?blk) s = ((), s')"
    using x1 x2 r assms(2,6) ge bpg by (simp add: free_block_def Let_def gr ix require_def not_le)
  then show ?thesis using c' by blast
qed

lemma free_block_spec:
  assumes "vol_ok s" "g < groups_count (fs s)" "k < unat (blocks_per_group (fs s))" "k < 8 * bsn (fs s)"
    and "unat g * unat (blocks_per_group (fs s)) + k + unat (first_data_block (fs s)) < 2 ^ 32" "block_no (fs s) g k \<noteq> 0"
  shows "vol_ok (snd (run_state (free_block io (block_no (fs s) g k)) s))
    \<and> bit_change (fs s) (dev s) g (unmark_bit (bitmap io (fs s) (dev s) g) k)
        (bg_free_blocks_count (bgd_at io (fs s) (dev s) g) + 1) (dev (snd (run_state (free_block io (block_no (fs s) g k)) s)))
    \<and> (\<exists>y. fs (snd (run_state (free_block io (block_no (fs s) g k)) s)) = (fs s)\<lparr>sb := y\<rparr>)
    \<and> take (bsn (fs s)) (g_buf (snd (run_state (free_block io (block_no (fs s) g k)) s)))
        = blk_of io (fs s) (dev (snd (run_state (free_block io (block_no (fs s) g k)) s))) (bgd_block (fs s) g)"
proof -
  obtain s' where s': "run_state (free_block io (block_no (fs s) g k)) s = ((), s')"
    "committed s g (bg_block_bitmap (bgd_at io (fs s) (dev s) g)) (unmark_bit (bitmap io (fs s) (dev s) g) k)
        ((bgd_at io (fs s) (dev s) g)\<lparr>bg_free_blocks_count := bg_free_blocks_count (bgd_at io (fs s) (dev s) g) + 1\<rparr>) s'"
    using free_block_run [OF assms] by blast
  have "take (bsn (fs s)) (g_buf s') = blk_of io (fs s) (dev s') (bgd_block (fs s) g)"
    using s'(2) by (auto simp: committed_def)
  then show ?thesis using committed_bit_change [OF assms(1,2) _ s'(2)] vol_group(3) [OF assms(1,2)] s'(1) by simp
qed

end

section \<open>A small volume\<close>

text \<open>One group on a store: superblock in block 1, descriptor in block 2, bitmaps in 3 and 4, an inode
  table of one block in 5, all blocks before 6 marked.\<close>

definition tiny_fs :: ext2_fs where
  "tiny_fs = zero_fs\<lparr>e_mounted := True, block_size := 1024, sectors_per_block := 2, inode_size := 128,
     inodes_per_group := 8, blocks_per_group := 8192, groups_count := 1, first_data_block := 1,
     current_inode := 2, root_inode := 2, sb := wr32 (replicate 1024 0) 0 8\<rparr>"

definition tiny_bgd :: bgd where
  "tiny_bgd = \<lparr>bg_block_bitmap = 3, bg_inode_bitmap = 4, bg_inode_table = 5, bg_free_blocks_count = 8187,
     bg_free_inodes_count = 8, bg_used_dirs_count = 0, bg_pad = 0, bg_reserved = replicate 12 0\<rparr>"

definition tiny_store :: store where
  "tiny_store = \<lparr>cells = (\<lambda>l. if l = 4 then bgd_bytes tiny_bgd @ replicate 480 0
                       else if l = 6 then 0x1F # replicate 511 0 else replicate 512 0),
     faulty = (\<lambda>_. False), capacity = 20000\<rparr>"

definition tiny :: "store ext2" where
  "tiny = (ext2_boot tiny_store)\<lparr>fs := tiny_fs\<rparr>"

lemma tiny_bgd_at: "bgd_at store_blk tiny_fs tiny_store 0 = tiny_bgd"
  by code_simp

lemma tiny_geom: "geom tiny_fs" "grps tiny_fs = [0]" "bsn tiny_fs = 1024" "spbn tiny_fs = 2" "tab_blocks tiny_fs = 1"
  by code_simp+

lemma tiny_blk_ok: "unat w < 1000000 \<Longrightarrow> blk_ok (2 ^ 32) tiny_fs w"
  unfolding blk_ok_def tiny_geom by (simp add: tiny_fs_def zero_fs_def)

lemma tiny_metas: "metas tiny_fs tiny_bgd = [3, 4, 5]" "bgd_block tiny_fs 0 = 2"
  by code_simp+

lemma tiny_vol_ok: "store_rel.vol_ok tiny"
proof -
  have st: "store_good tiny_store" by (simp add: store_good_def tiny_store_def bgd_bytes_def tiny_bgd_def)
  have bufs: "bufs_ok tiny" by (simp add: bufs_ok_def tiny_def ext2_boot_def)
  have p: "past_sb (2 ^ 32) tiny_fs w" if "w \<in> {2, 3, 4, 5}" for w
    using that tiny_blk_ok [of w] unfolding past_sb_def tiny_geom by auto
  have "sane store_blk (2 ^ 32) tiny_fs tiny_store"
    unfolding sane_def tiny_geom(2) by (simp add: tiny_bgd_at tiny_metas p [simplified]) (simp add: tiny_fs_def)
  moreover have "fs tiny = tiny_fs" "dev tiny = tiny_store" by (simp_all add: tiny_def ext2_boot_def)
  moreover have "length (sb tiny_fs) = 1024" by (simp add: tiny_fs_def)
  ultimately show ?thesis
    unfolding store_rel.vol_ok_def store_rel.e_ok_def using st bufs tiny_geom(1) by simp
qed

section \<open>Properties\<close>

text \<open>C15. Allocation on a sound volume of a device without faults.  Either no group has both a
  positive count and a clear bit, the result is 0 and the disk is unchanged; or the result is the
  block of a bit \<open>k\<close> that was clear, the bitmap of its group has this bit set and nothing else
  changed, the count is one less, and every other block past the superblock keeps its bytes.  The
  volume stays sound.\<close>

theorem ext2_alloc_block:
  assumes "reliable_device io good lim" "reliable_device.vol_ok io good lim s"
    and "run_state (alloc_block_internal io) s = (blk, s')"
  shows "reliable_device.vol_ok io good lim s' \<and>
    ((blk = 0 \<and> dev s' = dev s \<and> (\<forall>g<groups_count (fs s). reliable_device.exhausted io (fs s) (dev s) g))
     \<or> (\<exists>g k. g < groups_count (fs s) \<and> k < 8 * bsn (fs s) \<and> blk = block_no (fs s) g k
          \<and> \<not> bm_bit (bitmap io (fs s) (dev s) g) k
          \<and> reliable_device.bit_change io lim (fs s) (dev s) g (mark_bit (bitmap io (fs s) (dev s) g) k)
               (bg_free_blocks_count (bgd_at io (fs s) (dev s) g) - 1) (dev s')))"
  using reliable_device.alloc_block_spec [OF assms] by blast

theorem ext2_alloc_block_witness:
  "store_rel.vol_ok (snd (run_state (alloc_block_internal store_blk) tiny))"
  by (rule ext2_alloc_block [OF store_rel.reliable_device_axioms tiny_vol_ok surjective_pairing, THEN conjunct1])

lemma tiny_sel: "fs tiny = tiny_fs" "dev tiny = tiny_store"
  by (simp_all add: tiny_def ext2_boot_def)

lemma tiny_bitmap: "bitmap store_blk tiny_fs tiny_store 0 = 0x1F # replicate 1023 0"
  by code_simp

lemma tiny_alloc: "fst (run_state (alloc_block_internal store_blk) tiny) \<noteq> 0"
proof -
  let ?blk = "fst (run_state (alloc_block_internal store_blk) tiny)"
  have ne: "\<not> store_rel.exhausted tiny_fs tiny_store 0"
  proof -
    have "\<not> bm_bit (0x1F # replicate 1023 0) 8" by (simp add: bm_bit_def)
    moreover have "bg_free_blocks_count tiny_bgd \<noteq> 0" by (simp add: tiny_bgd_def)
    moreover have "(8 :: nat) < 8 * 1024" by simp
    ultimately show ?thesis unfolding store_rel.exhausted_def tiny_bitmap tiny_bgd_at tiny_geom(3) by blast
  qed
  have one: "g < groups_count tiny_fs \<Longrightarrow> g = 0" for g by (simp add: tiny_fs_def)
  have "0 < groups_count tiny_fs" by (simp add: tiny_fs_def)
  with ne obtain g k where gk: "g < groups_count tiny_fs" "k < 8 * bsn tiny_fs" "?blk = block_no tiny_fs g k"
    using store_rel.alloc_block_spec [OF tiny_vol_ok surjective_pairing] unfolding tiny_sel by blast
  have "unat (of_nat k + 1 :: u32) = k + 1" using gk(2) by (subst unat_add_no_overflow) (simp_all add: tiny_geom unat_of_nat_eq)
  moreover have "block_no tiny_fs 0 k = of_nat k + 1" by (simp add: block_no_def tiny_fs_def)
  ultimately show ?thesis using gk(3) one [OF gk(1)] by (metis Suc_eq_plus1 nat.distinct(1) unat_0)
qed

text \<open>C16. Freeing undoes allocation: after a block is allocated and freed again, every bitmap and every
  descriptor is what it was before.  The groups are as formatting makes them (a bitmap block has
  a bit for each block of its group) and block numbers do not wrap.\<close>

theorem ext2_alloc_free_roundtrip:
  assumes "reliable_device io good lim" "reliable_device.vol_ok io good lim s"
    and "run_state (alloc_block_internal io) s = (blk, s1)" "blk \<noteq> 0"
    and "unat (blocks_per_group (fs s)) = 8 * bsn (fs s)"
    and "unat (groups_count (fs s)) * unat (blocks_per_group (fs s)) + unat (first_data_block (fs s)) < 2 ^ 32"
  defines "s2 \<equiv> snd (run_state (free_block io blk) s1)"
  shows "reliable_device.vol_ok io good lim s2 \<and> (\<forall>g<groups_count (fs s).
    bgd_at io (fs s) (dev s2) g = bgd_at io (fs s) (dev s) g \<and> bitmap io (fs s) (dev s2) g = bitmap io (fs s) (dev s) g)"
proof -
  note rd = assms(1)
  obtain g k y where v1: "reliable_device.vol_ok io good lim s1" and f1: "fs s1 = (fs s)\<lparr>sb := y\<rparr>"
    and g: "g < groups_count (fs s)" and k: "k < 8 * bsn (fs s)" "blk = block_no (fs s) g k" "\<not> bm_bit (bitmap io (fs s) (dev s) g) k"
    and c: "reliable_device.bit_change io lim (fs s) (dev s) g (mark_bit (bitmap io (fs s) (dev s) g) k)
               (bg_free_blocks_count (bgd_at io (fs s) (dev s) g) - 1) (dev s1)"
    using reliable_device.alloc_block_spec [OF rd assms(2,3)] assms(4) by blast
  have "Suc (unat g) * unat (blocks_per_group (fs s)) \<le> unat (groups_count (fs s)) * unat (blocks_per_group (fs s))"
    using g by (intro mult_le_mono1) (simp add: word_less_nat_alt)
  then have nw: "unat g * unat (blocks_per_group (fs s)) + k + unat (first_data_block (fs s)) < 2 ^ 32"
    using assms(5,6) k(1) by simp
  have b1: "bitmap io (fs s1) (dev s1) h = bitmap io (fs s) (dev s1) h" for h by (simp add: f1 bitmap_def)
  have no: "block_no (fs s1) g k = block_no (fs s) g k" by (simp add: f1 block_no_def)
  have sp: "reliable_device.vol_ok io good lim (snd (run_state (free_block io (block_no (fs s1) g k)) s1))
    \<and> reliable_device.bit_change io lim (fs s1) (dev s1) g (unmark_bit (bitmap io (fs s1) (dev s1) g) k)
        (bg_free_blocks_count (bgd_at io (fs s1) (dev s1) g) + 1) (dev (snd (run_state (free_block io (block_no (fs s1) g k)) s1)))
    \<and> (\<exists>y. fs (snd (run_state (free_block io (block_no (fs s1) g k)) s1)) = (fs s1)\<lparr>sb := y\<rparr>)
    \<and> take (bsn (fs s1)) (g_buf (snd (run_state (free_block io (block_no (fs s1) g k)) s1)))
        = blk_of io (fs s1) (dev (snd (run_state (free_block io (block_no (fs s1) g k)) s1))) (bgd_block (fs s1) g)"
    by (rule reliable_device.free_block_spec [OF rd v1]) (use g k assms(4,5) nw no in \<open>simp_all add: f1\<close>)
  have kl: "k div 8 < length (bitmap io (fs s) (dev s) g)"
    using k(1) reliable_device.vol_group(3) [OF rd assms(2) g] by simp
  note bc = reliable_device.bit_change_def [OF rd]
  have "bgd_at io (fs s) (dev s2) h = bgd_at io (fs s) (dev s) h \<and> bitmap io (fs s) (dev s2) h = bitmap io (fs s) (dev s) h"
    if h: "h < groups_count (fs s)" for h
  proof (cases "h = g")
    case True
    then show ?thesis using c sp unmark_mark [OF kl k(3)]
      unfolding bc s2_def k(2) no b1 by (simp add: f1)
  next
    case False
    then show ?thesis using c sp h unfolding bc s2_def k(2) no b1 by (simp add: f1)
  qed
  then show ?thesis using sp unfolding s2_def k(2) no by blast
qed

theorem ext2_alloc_free_roundtrip_witness:
  "bitmap store_blk tiny_fs (dev (snd (run_state (free_block store_blk (fst (run_state (alloc_block_internal store_blk) tiny)))
     (snd (run_state (alloc_block_internal store_blk) tiny))))) 0 = 0x1F # replicate 1023 0"
proof -
  have h: "unat (blocks_per_group (fs tiny)) = 8 * bsn (fs tiny)"
    "unat (groups_count (fs tiny)) * unat (blocks_per_group (fs tiny)) + unat (first_data_block (fs tiny)) < 2 ^ 32"
    unfolding tiny_sel tiny_geom by (simp_all add: tiny_fs_def)
  have "0 < groups_count tiny_fs" by (simp add: tiny_fs_def)
  with ext2_alloc_free_roundtrip [OF store_rel.reliable_device_axioms tiny_vol_ok surjective_pairing tiny_alloc h]
  show ?thesis unfolding tiny_sel by (simp add: tiny_bitmap)
qed

end
