(* ===== verification/Ext2Inode.thy ===== *)
theory Ext2Inode
  imports Ext2Alloc
begin

text \<open>
  Inodes on a sound volume: each has 128 bytes of its own in the inode table of its group;
  \<open>write_inode\<close> changes these bytes only and \<open>read_inode\<close> reads them back.
\<close>

section \<open>The bytes of an inode\<close>

lemma length_concat_le32: "length (concat (map le32 xs)) = 4 * length xs"
  by (induction xs) auto

lemma length_inode_bytes: "length (i_block i) = 15 \<Longrightarrow> length (i_osd2 i) = 12 \<Longrightarrow> length (inode_bytes i) = 128"
  by (simp add: inode_bytes_def length_concat_le32)

lemma rd32_concat: "k < length xs \<Longrightarrow> rd32 (concat (map le32 xs) @ ys) (4 * k) = xs ! k"
proof (induction xs arbitrary: k)
  case (Cons x xs)
  show ?case
  proof (cases k)
    case (Suc j)
    then have "rd32 (le32 x @ concat (map le32 xs) @ ys) (4 * k) = rd32 (concat (map le32 xs) @ ys) (4 * j)"
      by (simp add: struct_simps)
    with Cons Suc show ?thesis by simp
  qed (simp add: struct_simps)
qed simp

lemma inode_of_bytes:
  assumes "length (i_block i) = 15" "length (i_osd2 i) = 12"
  shows "inode_of (inode_bytes i) = i"
proof -
  let ?pre = "le16 (i_mode i) @ le16 (i_uid i) @ le32 (i_size i) @ le32 (i_atime i) @ le32 (i_ctime i)
     @ le32 (i_mtime i) @ le32 (i_dtime i) @ le16 (i_gid i) @ le16 (i_links_count i) @ le32 (i_blocks i)
     @ le32 (i_flags i) @ le32 (i_osd1 i)"
  let ?post = "le32 (i_generation i) @ le32 (i_file_acl i) @ le32 (i_dir_acl i) @ le32 (i_faddr i) @ i_osd2 i"
  have b: "inode_bytes i = ?pre @ concat (map le32 (i_block i)) @ ?post" by (simp add: inode_bytes_def)
  have "rd32 (inode_bytes i) (40 + 4 * k) = i_block i ! k" if "k < 15" for k
  proof -
    have "rd32 (inode_bytes i) (40 + 4 * k) = rd32 (concat (map le32 (i_block i)) @ ?post) (4 * k)"
      unfolding b by (subst rd_skip) simp_all
    then show ?thesis using that assms(1) by (simp add: rd32_concat)
  qed
  then have blocks: "map (\<lambda>k. rd32 (inode_bytes i) (40 + 4 * k)) [0..<15] = i_block i"
    using assms(1) by (intro nth_equalityI) auto
  have post: "rd32 (inode_bytes i) 100 = i_generation i" "rd32 (inode_bytes i) 104 = i_file_acl i"
    "rd32 (inode_bytes i) 108 = i_dir_acl i" "rd32 (inode_bytes i) 112 = i_faddr i" "subbuf (inode_bytes i) 116 12 = i_osd2 i"
    unfolding b using assms by (simp_all add: struct_simps length_concat_le32)
  have pre: "rd16 (inode_bytes i) 0 = i_mode i" "rd16 (inode_bytes i) 2 = i_uid i" "rd32 (inode_bytes i) 4 = i_size i"
    "rd32 (inode_bytes i) 8 = i_atime i" "rd32 (inode_bytes i) 12 = i_ctime i" "rd32 (inode_bytes i) 16 = i_mtime i"
    "rd32 (inode_bytes i) 20 = i_dtime i" "rd16 (inode_bytes i) 24 = i_gid i" "rd16 (inode_bytes i) 26 = i_links_count i"
    "rd32 (inode_bytes i) 28 = i_blocks i" "rd32 (inode_bytes i) 32 = i_flags i" "rd32 (inode_bytes i) 36 = i_osd1 i"
    unfolding b by (simp_all add: struct_simps)
  show ?thesis unfolding inode_of_def blocks post pre by simp
qed

section \<open>The place of an inode\<close>

definition inode_grp :: "ext2_fs \<Rightarrow> u32 \<Rightarrow> u32" where
  "inode_grp f n = (n - 1) div inodes_per_group f"

definition inode_blk :: "'d blk \<Rightarrow> ext2_fs \<Rightarrow> 'd \<Rightarrow> u32 \<Rightarrow> u32" where
  "inode_blk io f d n = inode_byte f (bgd_at io f d (inode_grp f n)) n div block_size f"

definition inode_off :: "'d blk \<Rightarrow> ext2_fs \<Rightarrow> 'd \<Rightarrow> u32 \<Rightarrow> nat" where
  "inode_off io f d n = unat (inode_byte f (bgd_at io f d (inode_grp f n)) n mod block_size f)"

definition inode_at :: "'d blk \<Rightarrow> ext2_fs \<Rightarrow> 'd \<Rightarrow> u32 \<Rightarrow> inode" where
  "inode_at io f d n = inode_of (subbuf (blk_of io f d (inode_blk io f d n)) (inode_off io f d n) 128)"

definition inode_valid :: "ext2_fs \<Rightarrow> u32 \<Rightarrow> bool" where
  "inode_valid f n \<longleftrightarrow> n \<noteq> 0 \<and> n \<le> s_inodes_count (sb f) \<and> inodes_per_group f \<noteq> 0 \<and> inode_grp f n < groups_count f"

text \<open>Inodes of a multiple of 128 bytes, in tables that end below 4 GiB.\<close>

definition tables_ok :: "'d blk \<Rightarrow> ext2_fs \<Rightarrow> 'd \<Rightarrow> bool" where
  "tables_ok io f d \<longleftrightarrow> inode_size f \<noteq> 0 \<and> unat (inode_size f) mod 128 = 0
     \<and> (\<forall>g<groups_count f. (unat (bg_inode_table (bgd_at io f d g)) + tab_blocks f) * bsn f < 2 ^ 32)"

lemma mult_idx: "(i :: nat) < n \<Longrightarrow> i * k + k \<le> n * k"
  by (metis Suc_leI mult.commute mult_Suc_right mult_le_mono2 add.commute)

lemma inode_place:
  assumes "geom f" "tables_ok io f d" "inode_valid f n"
  defines "idx \<equiv> unat (n - 1) mod unat (inodes_per_group f)"
  defines "p \<equiv> idx * unat (inode_size f)"
  defines "t \<equiv> unat (bg_inode_table (bgd_at io f d (inode_grp f n)))"
  shows "unat (inode_blk io f d n) = t + p div bsn f" "inode_off io f d n = p mod bsn f"
    and "unat (inode_blk io f d n) \<in> set (metas f (bgd_at io f d (inode_grp f n)))"
    and "inode_off io f d n + 128 \<le> bsn f"
proof -
  let ?isz = "unat (inode_size f)" and ?b = "bgd_at io f d (inode_grp f n)"
  have bs: "0 < bsn f" "bsn f = 128 * (4 * spbn f)" using assms(1) by (auto simp: geom_def)
  have isz: "?isz \<noteq> 0" "?isz = 128 * (?isz div 128)" using assms(2) by (auto simp: tables_ok_def unat_eq_0)
  have idx: "idx < unat (inodes_per_group f)" using assms(3) by (simp add: idx_def inode_valid_def unat_gt_0)
  then have pn: "p + ?isz \<le> unat (inodes_per_group f) * ?isz" unfolding p_def by (rule mult_idx)
  have nn: "unat (inodes_per_group f) * ?isz + bsn f - 1 < tab_blocks f * bsn f + bsn f"
    unfolding tab_blocks_def
    using bs(1) by (metis add.commute div_mult_mod_eq mod_less_divisor nat_add_left_cancel_less)
  have p: "p < tab_blocks f * bsn f" using pn nn bs(1) isz(1) by linarith
  then have pd: "p div bsn f < tab_blocks f" using bs(1) by (simp add: div_less_iff_less_mult)
  have lim: "t * bsn f + tab_blocks f * bsn f < 2 ^ 32"
    using assms(2,3) by (simp add: tables_ok_def inode_valid_def t_def algebra_simps)
  have u1: "unat (bg_inode_table ?b * block_size f) = t * bsn f"
    unfolding t_def bsn_def using lim by (intro unat_mult_no_overflow) (simp add: t_def bsn_def)
  have um: "unat ((n - 1) mod inodes_per_group f) = idx" by (simp add: idx_def unat_mod)
  have u2: "unat (((n - 1) mod inodes_per_group f) * inode_size f) = p"
    unfolding p_def um [symmetric] using lim p by (intro unat_mult_no_overflow) (simp add: um p_def)
  have u: "unat (inode_byte f ?b n) = t * bsn f + p"
    unfolding inode_byte_def u1 [symmetric] u2 [symmetric]
    using lim p by (intro unat_add_no_overflow) (simp add: u1 u2)
  show k: "unat (inode_blk io f d n) = t + p div bsn f"
    unfolding inode_blk_def unat_div u bsn_def [symmetric] using bs(1) by simp
  show o: "inode_off io f d n = p mod bsn f"
    unfolding inode_off_def unat_mod u bsn_def [symmetric] by simp
  show "unat (inode_blk io f d n) \<in> set (metas f ?b)" using pd unfolding k metas_def t_def by simp
  have "p = 128 * (idx * (?isz div 128))" unfolding p_def using isz(2) by (metis mult.left_commute)
  then have "p mod bsn f = 128 * ((idx * (?isz div 128)) mod (4 * spbn f))" by (simp only: bs(2) mult_mod_right)
  moreover have "(idx * (?isz div 128)) mod (4 * spbn f) < 4 * spbn f" using bs by simp
  ultimately show "inode_off io f d n + 128 \<le> bsn f" unfolding o bs(2) by linarith
qed

lemma near_pos: "(a :: nat) div b = c div b \<Longrightarrow> a mod b < c mod b + k \<Longrightarrow> a < c + k"
proof -
  assume e: "a div b = c div b" and l: "a mod b < c mod b + k"
  have "a = c div b * b + a mod b" "c = c div b * b + c mod b" using e by (metis div_mult_mod_eq, simp)
  with l show ?thesis by linarith
qed

text \<open>Different inodes do not overlap.\<close>

lemma inode_slots:
  assumes "geom f" "tables_ok io f d" "sane io lim f d" "inode_valid f n" "inode_valid f m" "n \<noteq> m"
  shows "inode_blk io f d n \<noteq> inode_blk io f d m \<or> inode_off io f d m + 128 \<le> inode_off io f d n
    \<or> inode_off io f d n + 128 \<le> inode_off io f d m"
proof (rule ccontr)
  assume c: "\<not> ?thesis"
  let ?ipg = "unat (inodes_per_group f)" and ?isz = "unat (inode_size f)"
  let ?i = "unat (n - 1) mod ?ipg" and ?j = "unat (m - 1) mod ?ipg"
  note pn = inode_place [OF assms(1,2,4)] and pm = inode_place [OF assms(1,2,5)]
  have g: "inode_grp f n = inode_grp f m"
  proof (rule ccontr)
    assume ne: "inode_grp f n \<noteq> inode_grp f m"
    have "inode_blk io f d n \<noteq> inode_blk io f d m"
      using assms(4,5) by (intro sane_meta(4) [OF assms(3) _ pn(3) _ ne [symmetric] pm(3)]) (auto simp: inode_valid_def)
    with c show False by blast
  qed
  have "?i * ?isz div bsn f = ?j * ?isz div bsn f" using c pn(1) pm(1) g by simp
  moreover have "?i * ?isz mod bsn f < ?j * ?isz mod bsn f + 128" "?j * ?isz mod bsn f < ?i * ?isz mod bsn f + 128"
    using c pn(2) pm(2) by auto
  ultimately have near: "?i * ?isz < ?j * ?isz + 128" "?j * ?isz < ?i * ?isz + 128"
    by (metis near_pos)+
  have isz: "128 \<le> ?isz" using assms(2) unat_eq_0 [of "inode_size f"] unfolding tables_ok_def by (metis gr0I mod_less not_le)
  have "?i = ?j"
  proof (rule ccontr)
    assume "?i \<noteq> ?j"
    then have "?i * ?isz + ?isz \<le> ?j * ?isz \<or> ?j * ?isz + ?isz \<le> ?i * ?isz" by (metis linorder_neqE_nat mult_idx)
    with near isz show False by linarith
  qed
  moreover have "unat (n - 1) div ?ipg = unat (m - 1) div ?ipg"
    using g unfolding inode_grp_def by (metis unat_div)
  ultimately have "unat (n - 1) = unat (m - 1)" by (metis div_mult_mod_eq)
  then have "n - 1 = m - 1" by (simp add: word_unat_eq_iff)
  with assms(6) show False by simp
qed

section \<open>Reading and writing inodes\<close>

context reliable_device
begin

lemma read_inode_run:
  assumes "vol_ok s" "tables_ok io (fs s) (dev s)" "inode_valid (fs s) n"
  shows "\<exists>x. length x = 8192 \<and> run_state (read_inode io n) s = (Some (inode_at io (fs s) (dev s) n), s\<lparr>g_buf := x\<rparr>)
    \<and> take (bsn (fs s)) x = blk_of io (fs s) (dev s) (inode_blk io (fs s) (dev s) n)"
proof -
  let ?f = "fs s" and ?d = "dev s"
  let ?g = "inode_grp ?f n"
  have v: "e_ok s" "sane io lim ?f ?d" "geom ?f" using assms(1) by (auto simp: vol_ok_def e_ok_def)
  have val: "n \<noteq> 0" "\<not> s_inodes_count (sb ?f) < n" "inodes_per_group ?f \<noteq> 0" "?g < groups_count ?f"
    using assms(3) by (auto simp: inode_valid_def)
  note gg = sane_group [OF v(2) val(4)] and pl = inode_place [OF v(3) assms(2,3)]
  note m = sane_meta [OF v(2) val(4) pl(3)]
  obtain x1 where x1: "run_state (read_bgd io ?g) s = (Some (bgd_at io ?f ?d ?g), s\<lparr>g_buf := x1\<rparr>)" "length x1 = 8192"
    by (rule read_bgd_run [OF v(1) val(4) gg(3,2)])
  have ok1: "e_ok (s\<lparr>g_buf := x1\<rparr>)" by (rule e_ok_gbuf [OF v(1) x1(2)])
  obtain x where x: "run_state (read_block io (inode_blk io ?f ?d n) GBuf) (s\<lparr>g_buf := x1\<rparr>) = (True, s\<lparr>g_buf := x\<rparr>)"
    "length x = 8192" "take (bsn ?f) x = blk_of io ?f ?d (inode_blk io ?f ?d n)"
    by (rule read_gbuf [OF ok1, of "inode_blk io ?f ?d n"]) (use m(2) in auto)
  have "subbuf x (inode_off io ?f ?d n) 128 = subbuf (take (bsn ?f) x) (inode_off io ?f ?d n) 128"
    using pl(4) by (simp add: subbuf_take)
  then have "run_state (read_inode io n) s = (Some (inode_at io ?f ?d n), s\<lparr>g_buf := x\<rparr>)"
    using val x1 x(1,3) unfolding inode_grp_def inode_blk_def inode_off_def
    by (simp add: read_inode_def require_def inode_at_def inode_blk_def inode_off_def inode_grp_def)
  with x show ?thesis by blast
qed

lemma write_inode_run:
  assumes "vol_ok s" "tables_ok io (fs s) (dev s)" "inode_valid (fs s) n" "length (inode_bytes i) = 128"
  defines "p \<equiv> splice (blk_of io (fs s) (dev s) (inode_blk io (fs s) (dev s) n)) (inode_off io (fs s) (dev s) n) (inode_bytes i)"
  shows "\<exists>x. length x = 8192 \<and> run_state (write_inode io n i) s
    = (True, s\<lparr>g_buf := x, dev := put_blk io (fs s) (inode_blk io (fs s) (dev s) n) p (dev s)\<rparr>)"
proof -
  let ?f = "fs s" and ?d = "dev s"
  let ?g = "inode_grp ?f n" and ?k = "inode_blk io (fs s) (dev s) n" and ?o = "inode_off io (fs s) (dev s) n"
  have v: "e_ok s" "sane io lim ?f ?d" "geom ?f" "bsn ?f \<le> 4096" using assms(1) by (auto simp: vol_ok_def e_ok_def geom_def)
  have val: "n \<noteq> 0" "\<not> s_inodes_count (sb ?f) < n" "inodes_per_group ?f \<noteq> 0" "?g < groups_count ?f"
    using assms(3) by (auto simp: inode_valid_def)
  note gg = sane_group [OF v(2) val(4)] and pl = inode_place [OF v(3) assms(2,3)]
  note m = sane_meta [OF v(2) val(4) pl(3)]
  obtain x1 where x1: "run_state (read_bgd io ?g) s = (Some (bgd_at io ?f ?d ?g), s\<lparr>g_buf := x1\<rparr>)" "length x1 = 8192"
    by (rule read_bgd_run [OF v(1) val(4) gg(3,2)])
  have ok1: "e_ok (s\<lparr>g_buf := x1\<rparr>)" by (rule e_ok_gbuf [OF v(1) x1(2)])
  obtain x where x: "run_state (read_block io ?k GBuf) (s\<lparr>g_buf := x1\<rparr>) = (True, s\<lparr>g_buf := x\<rparr>)"
    "length x = 8192" "take (bsn ?f) x = blk_of io ?f ?d ?k"
    by (rule read_gbuf [OF ok1, of ?k]) (use m(2) in auto)
  let ?y = "splice x ?o (inode_bytes i)"
  have ly: "length ?y = 8192" using x(2) pl(4) v(4) assms(4) by simp
  have tk: "take (bsn ?f) ?y = p"
    unfolding p_def x(3) [symmetric] by (rule take_splice) (use pl(4) v(4) x(2) assms(4) in simp_all)
  have w: "run_state (write_block io ?k GBuf) (s\<lparr>g_buf := ?y\<rparr>) = (True, s\<lparr>g_buf := ?y, dev := put_blk io ?f ?k p ?d\<rparr>)"
    using write_gbuf [OF e_ok_gbuf [OF v(1) ly], of ?k] m(2) tk by (simp add: put_blk_def)
  have "run_state (write_inode io n i) s = (True, s\<lparr>g_buf := ?y, dev := put_blk io ?f ?k p ?d\<rparr>)"
    using val x1 x(1) w unfolding inode_grp_def inode_blk_def inode_off_def
    by (simp add: write_inode_def require_def)
  with ly show ?thesis by blast
qed

lemma write_inode_spec:
  assumes "vol_ok s" "tables_ok io (fs s) (dev s)" "inode_valid (fs s) n" "length (i_block i) = 15" "length (i_osd2 i) = 12"
    and "run_state (write_inode io n i) s = (ok, s')"
  shows "ok \<and> vol_ok s' \<and> fs s' = fs s \<and> tables_ok io (fs s) (dev s')
    \<and> inode_at io (fs s) (dev s') n = i
    \<and> (\<forall>m. inode_valid (fs s) m \<and> m \<noteq> n \<longrightarrow> inode_at io (fs s) (dev s') m = inode_at io (fs s) (dev s) m)
    \<and> (\<forall>x. blk_ok lim (fs s) x \<and> x \<noteq> inode_blk io (fs s) (dev s) n \<longrightarrow> blk_of io (fs s) (dev s') x = blk_of io (fs s) (dev s) x)"
proof -
  let ?f = "fs s" and ?d = "dev s"
  let ?k = "inode_blk io ?f ?d n" and ?o = "inode_off io ?f ?d n"
  let ?p = "splice (blk_of io ?f ?d ?k) ?o (inode_bytes i)"
  let ?d' = "put_blk io ?f ?k ?p ?d"
  have v: "good ?d" "sane io lim ?f ?d" "geom ?f" "e_ok s" using assms(1) by (auto simp: vol_ok_def e_ok_def)
  have val: "inode_grp ?f n < groups_count ?f" using assms(3) by (auto simp: inode_valid_def)
  note gg = sane_group [OF v(2) val] and pl = inode_place [OF v(3) assms(2,3)]
  note m = sane_meta [OF v(2) val pl(3)]
  have lb: "length (inode_bytes i) = 128" by (rule length_inode_bytes [OF assms(4,5)])
  have lk: "length (blk_of io ?f ?d ?k) = bsn ?f" using length_blk_of [OF v(1) m(2)] v(3) by (simp add: geom_def)
  have lp: "length ?p = bsn ?f" using lk pl(4) lb by simp
  note e = put_blk_effect [OF v(1,3) m(2) lp]
  obtain x where x: "length x = 8192" "s' = s\<lparr>g_buf := x, dev := ?d'\<rparr>" "ok"
    using write_inode_run [OF assms(1-3) lb] assms(6) by auto
  have bg: "bgd_at io ?f ?d' g = bgd_at io ?f ?d g" if "g < groups_count ?f" for g
    unfolding bgd_at_def by (subst e(3) [OF sane_group(3) [OF v(2) that]]) (use m(3) [OF that] in auto)
  have sane: "sane io lim ?f ?d'" using sane_cong [of ?f io ?d' ?d lim] bg v(2) by simp
  have tab: "tables_ok io ?f ?d'" using assms(2) bg by (simp add: tables_ok_def)
  have pos: "inode_blk io ?f ?d' q = inode_blk io ?f ?d q" "inode_off io ?f ?d' q = inode_off io ?f ?d q" if "inode_valid ?f q" for q
    using bg [of "inode_grp ?f q"] that by (simp_all add: inode_blk_def inode_off_def inode_valid_def)
  have same: "inode_at io ?f ?d' n = i"
    unfolding inode_at_def pos [OF assms(3)] e(2) using lk pl(4) lb inode_of_bytes [OF assms(4,5)] by (simp add: subbuf_splice_same)
  have other: "inode_at io ?f ?d' q = inode_at io ?f ?d q" if q: "inode_valid ?f q" "q \<noteq> n" for q
  proof -
    note pq = inode_place [OF v(3) assms(2) q(1)]
    have vq: "inode_grp ?f q < groups_count ?f" using q(1) by (simp add: inode_valid_def)
    have okq: "blk_ok lim ?f (inode_blk io ?f ?d q)" by (rule sane_meta(2) [OF v(2) vq pq(3)])
    show ?thesis
    proof (cases "inode_blk io ?f ?d q = ?k")
      case False
      then show ?thesis unfolding inode_at_def pos [OF q(1)] by (subst e(3) [OF okq]) auto
    next
      case True
      have sl: "inode_off io ?f ?d q + 128 \<le> ?o \<or> ?o + 128 \<le> inode_off io ?f ?d q"
        using inode_slots [OF v(3) assms(2) v(2) q(1) assms(3) q(2)] True by auto
      have "subbuf ?p (inode_off io ?f ?d q) 128 = subbuf (blk_of io ?f ?d ?k) (inode_off io ?f ?d q) 128"
        by (rule subbuf_splice_other) (use sl lk pl(4) pq(4) lb in auto)
      then show ?thesis unfolding inode_at_def pos [OF q(1)] True e(2) by simp
    qed
  qed
  have "vol_ok s'" using assms(1) x e(1) sane v(4) by (simp add: vol_ok_def e_ok_def bufs_ok_def)
  then show ?thesis using x(2,3) tab same other e(3) by simp
qed

end

text \<open>C17. A written inode is read back, and no other inode and no other block changes.  The call
  succeeds for every inode number inside the volume.\<close>

theorem ext2_inode_roundtrip:
  assumes "reliable_device io good lim" "reliable_device.vol_ok io good lim s" "tables_ok io (fs s) (dev s)"
    and "inode_valid (fs s) n" "length (i_block i) = 15" "length (i_osd2 i) = 12"
    and "run_state (write_inode io n i) s = (ok, s')"
  shows "ok \<and> reliable_device.vol_ok io good lim s' \<and> fst (run_state (read_inode io n) s') = Some i
    \<and> (\<forall>m. inode_valid (fs s) m \<and> m \<noteq> n \<longrightarrow>
          fst (run_state (read_inode io m) s') = fst (run_state (read_inode io m) s))
    \<and> (\<forall>x. blk_ok lim (fs s) x \<and> x \<noteq> inode_blk io (fs s) (dev s) n \<longrightarrow> blk_of io (fs s) (dev s') x = blk_of io (fs s) (dev s) x)"
proof -
  note w = reliable_device.write_inode_spec [OF assms]
  have f: "fs s' = fs s" "reliable_device.vol_ok io good lim s'" "tables_ok io (fs s') (dev s')" using w by auto
  have "fst (run_state (read_inode io m) s') = Some (inode_at io (fs s) (dev s') m)" if "inode_valid (fs s) m" for m
    using reliable_device.read_inode_run [OF assms(1) f(2,3), of m] that f(1) by auto
  moreover have "fst (run_state (read_inode io m) s) = Some (inode_at io (fs s) (dev s) m)" if "inode_valid (fs s) m" for m
    using reliable_device.read_inode_run [OF assms(1-3) that] by auto
  ultimately show ?thesis using w assms(4) by simp
qed

lemma tiny_tables: "tables_ok store_blk tiny_fs tiny_store"
  unfolding tables_ok_def tiny_geom
  by (simp add: tiny_fs_def) (simp add: tiny_bgd_at [unfolded tiny_fs_def, simplified] tiny_bgd_def)

theorem ext2_inode_roundtrip_witness:
  "fst (run_state (read_inode store_blk 3) (snd (run_state (write_inode store_blk 3 (zero_inode\<lparr>i_size := 77\<rparr>)) tiny)))
    = Some (zero_inode\<lparr>i_size := 77\<rparr>)"
proof -
  have z: "length (i_block (zero_inode\<lparr>i_size := 77\<rparr>)) = 15" "length (i_osd2 (zero_inode\<lparr>i_size := 77\<rparr>)) = 12"
    by (simp_all add: zero_inode_def inode_of_def)
  have v: "inode_valid (fs tiny) 3" unfolding tiny_sel by code_simp
  have t: "tables_ok store_blk (fs tiny) (dev tiny)" unfolding tiny_sel by (rule tiny_tables)
  show ?thesis
    by (rule ext2_inode_roundtrip [OF store_rel.reliable_device_axioms tiny_vol_ok t v z surjective_pairing,
        THEN conjunct2, THEN conjunct2, THEN conjunct1])
qed

end
