(* ===== verification/Ext2Leak.thy ===== *)
theory Ext2Leak
  imports Ext2Alloc
begin

text \<open>
  Freeing the blocks behind an indirect pointer.  \<open>free_block\<close> leaves the descriptor block in
  \<open>g_buf\<close>, the buffer from which \<open>free_inode_blocks\<close> goes on to read pointers: from the
  second one on it frees what the words of the group descriptors say, which are the bitmap and
  inode table blocks.
\<close>

definition roomy :: "ext2_fs \<Rightarrow> bool" where
  "roomy f \<longleftrightarrow> unat (blocks_per_group f) = 8 * bsn f
     \<and> unat (groups_count f) * unat (blocks_per_group f) + unat (first_data_block f) < 2 ^ 32"

lemma roomy_sb [simp]: "roomy (f\<lparr>sb := y\<rparr>) = roomy f"
  by (simp add: roomy_def)

text \<open>The bit of a block in the bitmaps.\<close>

definition grp_of :: "ext2_fs \<Rightarrow> u32 \<Rightarrow> u32" where
  "grp_of f blk = (blk - first_data_block f) div blocks_per_group f"

definition idx_of :: "ext2_fs \<Rightarrow> u32 \<Rightarrow> nat" where
  "idx_of f blk = unat ((blk - first_data_block f) mod blocks_per_group f)"

definition marked :: "'d blk \<Rightarrow> ext2_fs \<Rightarrow> 'd \<Rightarrow> u32 \<Rightarrow> bool" where
  "marked io f d blk = bm_bit (bitmap io f d (grp_of f blk)) (idx_of f blk)"

lemma of_grp_idx:
  assumes "first_data_block f \<le> blk"
  shows "block_no f (grp_of f blk) (idx_of f blk) = blk"
proof -
  let ?a = "blk - first_data_block f"
  have "?a div blocks_per_group f * blocks_per_group f + ?a mod blocks_per_group f = ?a"
    by (metis word_mod_div_equality)
  moreover have "of_nat (idx_of f blk) = ?a mod blocks_per_group f" by (simp add: idx_of_def)
  ultimately show ?thesis by (simp add: block_no_def grp_of_def)
qed

text \<open>A block number that \<open>free_block\<close> acts on.\<close>

definition freeable :: "ext2_fs \<Rightarrow> u32 \<Rightarrow> bool" where
  "freeable f blk \<longleftrightarrow> blk \<noteq> 0 \<and> first_data_block f \<le> blk \<and> grp_of f blk < groups_count f"

context reliable_device
begin

text \<open>Bitmaps that have lost bits and nothing else.\<close>

definition fewer :: "ext2_fs \<Rightarrow> 'd \<Rightarrow> 'd \<Rightarrow> bool" where
  "fewer f d d' \<longleftrightarrow> (\<forall>g<groups_count f. (\<forall>j. bm_bit (bitmap io f d' g) j \<longrightarrow> bm_bit (bitmap io f d g) j)
     \<and> bg_inode_bitmap (bgd_at io f d' g) = bg_inode_bitmap (bgd_at io f d g))"

lemma fewer_trans: "fewer f d d' \<Longrightarrow> fewer f d' d'' \<Longrightarrow> fewer f d d''"
  by (simp add: fewer_def)

lemma free_freeable:
  assumes "vol_ok s" "roomy (fs s)" "freeable (fs s) blk"
  defines "s' \<equiv> snd (run_state (free_block io blk) s)"
  shows "vol_ok s'" "\<exists>y. fs s' = (fs s)\<lparr>sb := y\<rparr>" "fewer (fs s) (dev s) (dev s')" "\<not> marked io (fs s) (dev s') blk"
    and "take (bsn (fs s)) (g_buf s') = blk_of io (fs s) (dev s') (bgd_block (fs s) (grp_of (fs s) blk))"
proof -
  let ?f = "fs s" and ?g = "grp_of (fs s) blk" and ?k = "idx_of (fs s) blk" and ?bpg = "unat (blocks_per_group (fs s))"
  have e: "block_no ?f ?g ?k = blk" by (rule of_grp_idx) (use assms(3) in \<open>simp add: freeable_def\<close>)
  have g: "?g < groups_count ?f" using assms(3) by (simp add: freeable_def)
  have bs: "0 < bsn ?f" using assms(1) by (simp add: vol_ok_def e_ok_def geom_def)
  have bpg: "?bpg = 8 * bsn ?f" using assms(2) by (simp add: roomy_def)
  have k: "?k < ?bpg" unfolding idx_of_def unat_mod using bpg bs by simp
  have "Suc (unat ?g) * ?bpg \<le> unat (groups_count ?f) * ?bpg"
    using g by (intro mult_le_mono1) (simp add: word_less_nat_alt)
  then have "unat ?g * ?bpg + ?bpg \<le> unat (groups_count ?f) * ?bpg" by simp
  then have nw: "unat ?g * ?bpg + ?k + unat (first_data_block ?f) < 2 ^ 32"
    using assms(2) k unfolding roomy_def by linarith
  note sp = free_block_spec [OF assms(1) g k _ nw, unfolded e, folded s'_def]
  have sp: "vol_ok s' \<and> bit_change ?f (dev s) ?g (unmark_bit (bitmap io ?f (dev s) ?g) ?k)
        (bg_free_blocks_count (bgd_at io ?f (dev s) ?g) + 1) (dev s')
      \<and> (\<exists>y. fs s' = ?f\<lparr>sb := y\<rparr>) \<and> take (bsn ?f) (g_buf s') = blk_of io ?f (dev s') (bgd_block ?f ?g)"
    by (rule sp) (use assms(3) k bpg in \<open>auto simp: freeable_def\<close>)
  then show "vol_ok s'" "\<exists>y. fs s' = ?f\<lparr>sb := y\<rparr>" "take (bsn ?f) (g_buf s') = blk_of io ?f (dev s') (bgd_block ?f ?g)" by blast+
  have kl: "?k div 8 < length (bitmap io ?f (dev s) ?g)" using k bpg vol_group(3) [OF assms(1) g] by simp
  have bc: "bitmap io ?f (dev s') ?g = unmark_bit (bitmap io ?f (dev s) ?g) ?k"
    "bg_inode_bitmap (bgd_at io ?f (dev s') ?g) = bg_inode_bitmap (bgd_at io ?f (dev s) ?g)"
    and oth: "\<And>h. h < groups_count ?f \<Longrightarrow> h \<noteq> ?g \<Longrightarrow> bgd_at io ?f (dev s') h = bgd_at io ?f (dev s) h \<and> bitmap io ?f (dev s') h = bitmap io ?f (dev s) h"
    using sp by (auto simp: bit_change_def)
  show "\<not> marked io ?f (dev s') blk" unfolding marked_def bc(1) using bm_bit_unmark [OF kl] by simp
  show "fewer ?f (dev s) (dev s')"
    unfolding fewer_def
  proof (intro allI impI)
    fix h assume h: "h < groups_count ?f"
    show "(\<forall>j. bm_bit (bitmap io ?f (dev s') h) j \<longrightarrow> bm_bit (bitmap io ?f (dev s) h) j)
      \<and> bg_inode_bitmap (bgd_at io ?f (dev s') h) = bg_inode_bitmap (bgd_at io ?f (dev s) h)"
      using oth [OF h] bc bm_bit_unmark [OF kl] by (cases "h = ?g") auto
  qed
qed

lemma free_any:
  fixes blk :: u32
  assumes "vol_ok s" "roomy (fs s)"
  defines "s' \<equiv> snd (run_state (free_block io blk) s)"
  shows "vol_ok s' \<and> (\<exists>y. fs s' = (fs s)\<lparr>sb := y\<rparr>) \<and> fewer (fs s) (dev s) (dev s')"
proof (cases "freeable (fs s) blk")
  case True
  then show ?thesis using free_freeable [OF assms(1,2) True] by (simp add: s'_def)
next
  case False
  have bpg: "blocks_per_group (fs s) \<noteq> 0"
    using assms by (auto simp: roomy_def vol_ok_def e_ok_def geom_def)
  have s': "s' = s"
    using False bpg unfolding s'_def freeable_def grp_of_def
    by (auto simp: free_block_def require_def not_le not_less)
  have "\<exists>y. fs s = (fs s)\<lparr>sb := y\<rparr>" by (rule exI [of _ "sb (fs s)"]) simp
  then show ?thesis unfolding s' using assms(1) by (simp add: fewer_def)
qed

lemma free_rounds:
  fixes js :: "u32 list"
  assumes "vol_ok s" "roomy (fs s)"
  defines "s' \<equiv> snd (run_state (for_m (\<lambda>j. do { b \<leftarrow> asks (\<lambda>s. word_at (g_buf s) j); if b \<noteq> 0 then free_block io b else ret () }) js) s)"
  shows "vol_ok s' \<and> (\<exists>y. fs s' = (fs s)\<lparr>sb := y\<rparr>) \<and> fewer (fs s) (dev s) (dev s')"
  using assms(1,2) unfolding s'_def
proof (induction js arbitrary: s)
  case Nil
  have "\<exists>y. fs s = (fs s)\<lparr>sb := y\<rparr>" by (rule exI [of _ "sb (fs s)"]) simp
  with Nil show ?case by (simp add: fewer_def)
next
  case (Cons j js)
  let ?b = "word_at (g_buf s) j"
  let ?s1 = "snd (run_state (if ?b \<noteq> 0 then free_block io ?b else ret ()) s)"
  have 1: "vol_ok ?s1 \<and> (\<exists>y. fs ?s1 = (fs s)\<lparr>sb := y\<rparr>) \<and> fewer (fs s) (dev s) (dev ?s1)"
  proof (cases "?b = 0")
    case True
    have "\<exists>y. fs s = (fs s)\<lparr>sb := y\<rparr>" by (rule exI [of _ "sb (fs s)"]) simp
    with True Cons.prems show ?thesis by (simp add: fewer_def)
  next
    case False
    then show ?thesis using free_any [OF Cons.prems, of ?b] by simp
  qed
  then obtain y where y: "fs ?s1 = (fs s)\<lparr>sb := y\<rparr>" by blast
  have fw: "fewer (f\<lparr>sb := z\<rparr>) d d' = fewer f d d'" for f z d d' by (simp add: fewer_def)
  have "roomy (fs ?s1)" using Cons.prems(2) y by simp
  from Cons.IH [OF _ this] 1 show ?case
    by (auto simp: y fw case_prod_beta intro: fewer_trans)
qed

end

text \<open>C21. Freeing the pointers of an indirect block whose first pointer belongs to a group with its
  descriptor in the first block of the table frees the inode bitmap of group 0: afterwards its own
  block is not marked in the block bitmap any more, and the next allocation may hand it out as file
  data.  (The second word of the buffer is by then the second word of the descriptor table.)\<close>

theorem ext2_free_indirect_frees_inode_bitmap:
  assumes "reliable_device io good lim" "reliable_device.vol_ok io good lim s" "roomy (fs s)"
    and "freeable (fs s) (word_at (g_buf s) 0)" "bgd_block (fs s) (grp_of (fs s) (word_at (g_buf s) 0)) = bgd_block (fs s) 0"
    and "2 \<le> unat p" "freeable (fs s) (bg_inode_bitmap (bgd_at io (fs s) (dev s) 0))"
  shows "\<not> marked io (fs s) (dev (snd (run_state (free_gbuf_pointers io p) s))) (bg_inode_bitmap (bgd_at io (fs s) (dev s) 0))"
proof -
  note rd = assms(1)
  let ?f = "fs s" and ?b0 = "word_at (g_buf s) 0" and ?ib = "bg_inode_bitmap (bgd_at io (fs s) (dev s) 0)"
  let ?body = "\<lambda>j. do { b \<leftarrow> asks (\<lambda>s. word_at (g_buf s) j); if b \<noteq> 0 then free_block io b else ret () }"
  let ?s1 = "snd (run_state (free_block io ?b0) s)"
  have up: "map of_nat [0..<unat p] = (0 :: u32) # 1 # map of_nat [2..<unat p]"
    using assms(6) by (simp add: upt_conv_Cons numeral_2_eq_2)
  note f1 = reliable_device.free_freeable [OF rd assms(2-4)]
  obtain y where y: "fs ?s1 = ?f\<lparr>sb := y\<rparr>" using f1(2) by blast
  have v: "geom ?f" "0 < groups_count ?f"
    using assms(2,4) unfolding reliable_device.vol_ok_def [OF rd] reliable_device.e_ok_def [OF rd] freeable_def
    by (auto simp: word_less_nat_alt)
  have o0: "bgd_off ?f 0 = 0" by (simp add: bgd_off_def)
  have ib1: "bg_inode_bitmap (bgd_at io ?f (dev ?s1) 0) = ?ib"
    using f1(3) v(2) by (simp add: reliable_device.fewer_def [OF rd])
  have bs: "8 \<le> bsn ?f" using v(1) by (simp add: geom_def)
  have "word_at (g_buf ?s1) 1 = rd32 (take (bsn ?f) (g_buf ?s1)) 4"
    using bs by (simp add: word_at_def rd32_def)
  also have "\<dots> = rd32 (blk_of io ?f (dev ?s1) (bgd_block ?f 0)) 4" using f1(5) assms(5) by simp
  also have "\<dots> = ?ib" unfolding ib1 [symmetric] by (simp add: bgd_at_def bgd_of_def o0 subbuf_def rd32_def)
  finally have w1: "word_at (g_buf ?s1) 1 = ?ib" .
  have v1: "reliable_device.vol_ok io good lim ?s1" "roomy (fs ?s1)" using f1(1) y assms(3) by simp_all
  have fr: "freeable (fs ?s1) ?ib" using assms(7) y by (simp add: freeable_def grp_of_def)
  let ?s2 = "snd (run_state (free_block io ?ib) ?s1)"
  note f2 = reliable_device.free_freeable [OF rd v1 fr]
  obtain z where z: "fs ?s2 = ?f\<lparr>sb := z\<rparr>" using f2(2) y by auto
  have v2: "reliable_device.vol_ok io good lim ?s2" "roomy (fs ?s2)" using f2(1) z assms(3) by simp_all
  let ?s3 = "snd (run_state (for_m ?body (map of_nat [2..<unat p])) ?s2)"
  note f3 = reliable_device.free_rounds [OF rd v2, of "map of_nat [2..<unat p]"]
  have nz: "?b0 \<noteq> 0" "?ib \<noteq> 0" using assms(4,7) by (auto simp: freeable_def)
  have run: "snd (run_state (free_gbuf_pointers io p) s) = ?s3"
    unfolding free_gbuf_pointers_def up using nz w1 by (simp add: case_prod_beta)
  have m2: "\<not> marked io ?f (dev ?s2) ?ib" using f2(4) y by (simp add: marked_def grp_of_def idx_of_def)
  have fw: "reliable_device.fewer io ?f (dev ?s2) (dev ?s3)"
    using f3 z by (simp add: reliable_device.fewer_def [OF rd])
  have "grp_of ?f ?ib < groups_count ?f" using assms(7) by (simp add: freeable_def)
  then show ?thesis unfolding run using m2 fw by (auto simp: marked_def reliable_device.fewer_def [OF rd])
qed

definition tiny_indirect :: "store ext2" where
  "tiny_indirect = tiny\<lparr>g_buf := le32 20 @ replicate 8188 0\<rparr>"

theorem ext2_free_indirect_frees_inode_bitmap_witness:
  "marked store_blk tiny_fs (dev tiny_indirect) 4
    \<and> \<not> marked store_blk tiny_fs (dev (snd (run_state (free_gbuf_pointers store_blk 256) tiny_indirect))) 4"
proof -
  have f: "fs tiny_indirect = tiny_fs" "dev tiny_indirect = tiny_store" "g_buf tiny_indirect = le32 20 @ replicate 8188 0"
    by (simp_all add: tiny_indirect_def tiny_sel)
  have v: "store_rel.vol_ok tiny_indirect"
    unfolding tiny_indirect_def by (rule store_rel.vol_ok_gbuf [OF tiny_vol_ok]) simp
  have w: "word_at (g_buf tiny_indirect) 0 = 20" unfolding f by (simp add: word_at_def struct_simps)
  have r: "roomy (fs tiny_indirect)" unfolding f roomy_def tiny_geom by (simp add: tiny_fs_def)
  have fr: "freeable (fs tiny_indirect) (word_at (g_buf tiny_indirect) 0)" unfolding w unfolding f by code_simp
  have b: "bgd_block (fs tiny_indirect) (grp_of (fs tiny_indirect) (word_at (g_buf tiny_indirect) 0)) = bgd_block (fs tiny_indirect) 0"
    unfolding w unfolding f by code_simp
  have ib: "bg_inode_bitmap (bgd_at store_blk tiny_fs tiny_store 0) = 4" unfolding tiny_bgd_at by (simp add: tiny_bgd_def)
  have fi: "freeable (fs tiny_indirect) (bg_inode_bitmap (bgd_at store_blk (fs tiny_indirect) (dev tiny_indirect) 0))"
    unfolding f ib by code_simp
  have p: "2 \<le> unat (256 :: u32)" by simp
  have "grp_of tiny_fs 4 = 0" "idx_of tiny_fs 4 = 3" by code_simp+
  then have "marked store_blk tiny_fs tiny_store 4" by (simp add: marked_def tiny_bitmap bm_bit_def)
  with ext2_free_indirect_frees_inode_bitmap [OF store_rel.reliable_device_axioms v r fr b p fi]
  show ?thesis unfolding f ib by simp
qed

end
