(* ===== verification/Ext2Files.thy ===== *)
theory Ext2Files
  imports Ext2
begin

text \<open>
  The public operations of \<open>fs/ext2.cpp\<close>: mounting, files, directories, the current path, the
  listing and formatting.
\<close>

section \<open>Mounting\<close>

definition ext2_mount :: "'d blk \<Rightarrow> u32 \<Rightarrow> u8 \<Rightarrow> ('d, bool) prog" where
  "ext2_mount io plba ltr = do {
     _ \<leftarrow> modify (\<lambda>s. s\<lparr>fs := zero_fs\<lparr>e_partition_lba := plba\<rparr>\<rparr>);
     ok \<leftarrow> read_superblock io;
     if \<not> ok then ret False
     else do {
       b \<leftarrow> asks (\<lambda>s. sb (fs s));
       if s_magic b \<noteq> EXT2_MAGIC then ret False
       else do {
         _ \<leftarrow> require (s_log_block_size b < 32);
         let bs = push_bit (unat (s_log_block_size b)) 1024;
         _ \<leftarrow> modify (\<lambda>s. s\<lparr>fs := (fs s)\<lparr>block_size := bs\<rparr>\<rparr>);
         if bs < 1024 \<or> bs > 4096 then ret False
         else do {
           let isz = (if s_rev_level b \<ge> 1 \<and> s_inode_size b \<ge> 128 then ucast (s_inode_size b) else 128);
           let isz = (if isz > 1024 then 128 else isz);
           _ \<leftarrow> modify (\<lambda>s. s\<lparr>fs := (fs s)\<lparr>sectors_per_block := bs div 512, inode_size := isz,
             inodes_per_group := s_inodes_per_group b, blocks_per_group := s_blocks_per_group b,
             first_data_block := s_first_data_block b, root_inode := 2, current_inode := 2,
             e_letter := ltr, e_depth := 0\<rparr>\<rparr>);
           _ \<leftarrow> require (s_blocks_per_group b \<noteq> 0);
           let data_blocks = s_blocks_count b - s_first_data_block b;
           _ \<leftarrow> modify (\<lambda>s. s\<lparr>fs := (fs s)\<lparr>
             groups_count := (data_blocks + s_blocks_per_group b - 1) div s_blocks_per_group b,
             e_mounted := True\<rparr>\<rparr>);
           ret True } } } }"

definition ext2_unmount :: "('d, unit) prog" where
  "ext2_unmount = modify (\<lambda>s. s\<lparr>fs := (fs s)\<lparr>e_mounted := False\<rparr>\<rparr>)"

definition ext2_is_mounted :: "ext2_fs \<Rightarrow> bool" where
  "ext2_is_mounted f = e_mounted f"

definition ext2_get_letter :: "ext2_fs \<Rightarrow> u8" where
  "ext2_get_letter f = e_letter f"

section \<open>Files\<close>

text \<open>\<open>remaining\<close> in the round for block \<open>k\<close> of a file of \<open>n\<close> bytes, and \<open>chunk\<close>.\<close>

definition chunk_len :: "nat \<Rightarrow> nat \<Rightarrow> nat \<Rightarrow> nat" where
  "chunk_len n bs k = min (n - k * bs) bs"

definition rounds :: "nat \<Rightarrow> nat \<Rightarrow> nat list" where
  "rounds n bs = [0..<(n + bs - 1) div bs]"

text \<open>The reading loop, with the caller's buffer; \<open>p = buffer + k * block_size\<close>.\<close>

fun read_rounds :: "'d blk \<Rightarrow> inode \<Rightarrow> nat \<Rightarrow> nat list \<Rightarrow> u8 list \<Rightarrow> ('d, bool \<times> u8 list) prog" where
  "read_rounds io i bs [] buf = ret (True, buf)"
| "read_rounds io i bs (k # ks) buf = do {
     blk \<leftarrow> get_inode_block io i (of_nat k);
     let chunk = chunk_len (unat (i_size i)) bs k;
     _ \<leftarrow> require (k * bs + chunk \<le> length buf);
     if blk = 0 then read_rounds io i bs ks (splice buf (k * bs) (replicate chunk 0))
     else do {
       ok \<leftarrow> read_block io blk GBuf;
       if \<not> ok then ret (False, buf)
       else do {
         b \<leftarrow> asks g_buf;
         read_rounds io i bs ks (splice buf (k * bs) (take chunk b)) } } }"

text \<open>The Boolean, the buffer and, on success, \<open>*size_out\<close>; a null path is \<open>None\<close>.\<close>

definition ext2_read_file :: "'d blk \<Rightarrow> cstr option \<Rightarrow> u8 list \<Rightarrow> ('d, bool \<times> u8 list \<times> u32) prog" where
  "ext2_read_file io path_opt buf = do {
     f \<leftarrow> asks fs;
     case path_opt of None \<Rightarrow> ret (False, buf, 0)
     | Some path \<Rightarrow>
       if \<not> e_mounted f then ret (False, buf, 0)
       else do {
         n \<leftarrow> resolve_relative io (current_inode f) path;
         if n = 0 then ret (False, buf, 0)
         else do {
           r \<leftarrow> read_inode io n;
           case r of None \<Rightarrow> ret (False, buf, 0)
           | Some i \<Rightarrow>
             if is_dir_mode i then ret (False, buf, 0)
             else do {
               let bs = unat (block_size f);
               (ok, buf) \<leftarrow> read_rounds io i bs (rounds (unat (i_size i)) bs) buf;
               ret (ok, buf, if ok then i_size i else 0) } } } }"

text \<open>The writing loop.  \<open>None\<close> is \<open>return false\<close>; running out of blocks gives back a new
  inode and its blocks, the other failures do not.\<close>

fun write_rounds ::
  "'d blk \<Rightarrow> u8 list \<Rightarrow> u32 \<Rightarrow> bool \<Rightarrow> u32 \<Rightarrow> nat \<Rightarrow> nat list \<Rightarrow> inode \<Rightarrow> ('d, inode option) prog" where
  "write_rounds io data sz is_new n bs [] i = ret (Some i)"
| "write_rounds io data sz is_new n bs (k # ks) i = do {
     blk \<leftarrow> alloc_block_internal io;
     if blk = 0 then do {
       _ \<leftarrow> (if is_new then do { _ \<leftarrow> free_inode_blocks io i; free_inode io n False } else ret ());
       ret None }
     else do {
       let chunk = chunk_len (unat sz) bs k;
       _ \<leftarrow> require (k * bs + chunk \<le> length data);
       _ \<leftarrow> modify (\<lambda>s. s\<lparr>g_buf := splice (splice (g_buf s) 0 (replicate bs 0)) 0 (subbuf data (k * bs) chunk)\<rparr>);
       ok \<leftarrow> write_block io blk GBuf;
       if \<not> ok then do { _ \<leftarrow> free_block io blk; ret None }
       else do {
         (ok, i) \<leftarrow> set_inode_block io i (of_nat k) blk;
         if \<not> ok then do { _ \<leftarrow> free_block io blk; ret None }
         else write_rounds io data sz is_new n bs ks i } } }"

text \<open>The inode to write to: the file's own, emptied, or a new one.\<close>

definition open_for_write :: "'d blk \<Rightarrow> u32 \<Rightarrow> ('d, (u32 \<times> inode \<times> bool) option) prog" where
  "open_for_write io n =
     (if n \<noteq> 0 then do {
        r \<leftarrow> read_inode io n;
        case r of None \<Rightarrow> ret None
        | Some i \<Rightarrow> do {
            i \<leftarrow> free_inode_blocks io i;
            ret (Some (n, i\<lparr>i_size := 0, i_blocks := 0, i_block := replicate 15 0\<rparr>, False)) } }
      else do {
        n \<leftarrow> alloc_inode io False;
        if n = 0 then ret None
        else ret (Some (n, zero_inode\<lparr>i_mode := S_IFREG OR 0x1A4, i_links_count := 1\<rparr>, True)) })"

definition ext2_write_file :: "'d blk \<Rightarrow> cstr option \<Rightarrow> u8 list \<Rightarrow> u32 \<Rightarrow> ('d, bool) prog" where
  "ext2_write_file io path_opt data sz = do {
     f \<leftarrow> asks fs;
     case path_opt of None \<Rightarrow> ret False
     | Some path \<Rightarrow>
       if \<not> e_mounted f then ret False
       else
         let (parent, nm) = split_path path in
         if nm = [] then ret False
         else do {
           pn \<leftarrow> resolve_relative io (current_inode f) parent;
           if pn = 0 then ret False
           else do {
             r \<leftarrow> read_inode io pn;
             case r of None \<Rightarrow> ret False
             | Some pi \<Rightarrow>
               if \<not> is_dir_mode pi then ret False
               else do {
                 n \<leftarrow> find_dir_entry io pn nm;
                 r \<leftarrow> open_for_write io n;
                 case r of None \<Rightarrow> ret False
                 | Some (n, i, is_new) \<Rightarrow> do {
                     let bs = unat (block_size f);
                     r \<leftarrow> write_rounds io data sz is_new n bs (rounds (unat sz) bs) i;
                     case r of None \<Rightarrow> ret False
                     | Some i \<Rightarrow> do {
                         let i = i\<lparr>i_size := sz, i_blocks := of_nat (length (rounds (unat sz) bs)) * (block_size f div 512)\<rparr>;
                         ok \<leftarrow> write_inode io n i;
                         if \<not> ok then ret False
                         else if \<not> is_new then ret True
                         else do {
                           ok \<leftarrow> add_dir_entry io pn n nm FT_REG_FILE;
                           if ok then ret True
                           else do {
                             _ \<leftarrow> free_inode_blocks io i;
                             _ \<leftarrow> free_inode io n False;
                             ret False } } } } } } } }"

text \<open>The first block of a new directory.\<close>

definition dot_block :: "u8 list \<Rightarrow> nat \<Rightarrow> u32 \<Rightarrow> u32 \<Rightarrow> u8 list" where
  "dot_block b n self parent =
     splice b 0 (le32 self @ le16 12 @ [1, FT_DIR, 46, 0, 0, 0]
       @ le32 parent @ le16 (of_nat (n - 12)) @ [2, FT_DIR, 46, 46] @ replicate (n - 22) 0)"

definition give_up_dir :: "'d blk \<Rightarrow> u32 \<Rightarrow> u32 \<Rightarrow> ('d, bool) prog" where
  "give_up_dir io blk n = do { _ \<leftarrow> free_block io blk; _ \<leftarrow> free_inode io n True; ret False }"

definition ext2_create_dir :: "'d blk \<Rightarrow> cstr option \<Rightarrow> ('d, bool) prog" where
  "ext2_create_dir io path_opt = do {
     f \<leftarrow> asks fs;
     case path_opt of None \<Rightarrow> ret False
     | Some path \<Rightarrow>
       if \<not> e_mounted f then ret False
       else
         let (parent, nm) = split_path path in
         if nm = [] then ret False
         else do {
           pn \<leftarrow> resolve_relative io (current_inode f) parent;
           if pn = 0 then ret False
           else do {
             old \<leftarrow> find_dir_entry io pn nm;
             if old \<noteq> 0 then ret False
             else do {
               n \<leftarrow> alloc_inode io True;
               if n = 0 then ret False
               else do {
                 blk \<leftarrow> alloc_block_internal io;
                 if blk = 0 then do { _ \<leftarrow> free_inode io n True; ret False }
                 else do {
                   _ \<leftarrow> modify (\<lambda>s. s\<lparr>g_buf := dot_block (g_buf s) (unat (block_size f)) n pn\<rparr>);
                   ok \<leftarrow> write_block io blk GBuf;
                   if \<not> ok then give_up_dir io blk n
                   else do {
                     ok \<leftarrow> write_inode io n (zero_inode\<lparr>i_mode := S_IFDIR OR 0x1ED, i_links_count := 2,
                       i_size := block_size f, i_blocks := block_size f div 512, i_block := (replicate 15 0)[0 := blk]\<rparr>);
                     if \<not> ok then give_up_dir io blk n
                     else do {
                       r \<leftarrow> read_inode io pn;
                       _ \<leftarrow> (case r of None \<Rightarrow> ret False
                            | Some pi \<Rightarrow> write_inode io pn (pi\<lparr>i_links_count := i_links_count pi + 1\<rparr>));
                       ok \<leftarrow> add_dir_entry io pn n nm FT_DIR;
                       if \<not> ok then give_up_dir io blk n else ret True } } } } } } } }"

definition ext2_delete_file :: "'d blk \<Rightarrow> cstr option \<Rightarrow> ('d, bool) prog" where
  "ext2_delete_file io path_opt = do {
     f \<leftarrow> asks fs;
     case path_opt of None \<Rightarrow> ret False
     | Some path \<Rightarrow>
       if \<not> e_mounted f then ret False
       else
         let (parent, nm) = split_path path in
         do {
           pn \<leftarrow> resolve_relative io (current_inode f) parent;
           if pn = 0 then ret False
           else do {
             (ok, target) \<leftarrow> remove_dir_entry io pn nm;
             if \<not> ok then ret False
             else if target = 0 then ret False
             else do {
               r \<leftarrow> read_inode io target;
               case r of None \<Rightarrow> ret False
               | Some i \<Rightarrow> do {
                   _ \<leftarrow> free_inode_blocks io i;
                   _ \<leftarrow> free_inode io target (is_dir_mode i);
                   ret True } } } } }"

definition ext2_file_exists :: "'d blk \<Rightarrow> cstr option \<Rightarrow> ('d, bool) prog" where
  "ext2_file_exists io path_opt = do {
     f \<leftarrow> asks fs;
     case path_opt of None \<Rightarrow> ret False
     | Some path \<Rightarrow>
       if \<not> e_mounted f then ret False
       else do { n \<leftarrow> resolve_relative io (current_inode f) path; ret (n \<noteq> 0) } }"

definition ext2_file_size :: "'d blk \<Rightarrow> cstr option \<Rightarrow> ('d, u32) prog" where
  "ext2_file_size io path_opt = do {
     f \<leftarrow> asks fs;
     case path_opt of None \<Rightarrow> ret 0
     | Some path \<Rightarrow>
       if \<not> e_mounted f then ret 0
       else do {
         n \<leftarrow> resolve_relative io (current_inode f) path;
         if n = 0 then ret 0
         else do {
           r \<leftarrow> read_inode io n;
           ret (case r of None \<Rightarrow> 0 | Some i \<Rightarrow> i_size i) } } }"

section \<open>Current directory\<close>

definition e_push :: "cstr \<Rightarrow> u32 \<Rightarrow> 'd ext2 \<Rightarrow> 'd ext2" where
  "e_push cmp n s =
     (let f = fs s in
      if e_depth f < 32
      then s\<lparr>fs := f\<lparr>e_names := (e_names f)[e_depth f := cmp], e_inodes := (e_inodes f)[e_depth f := n],
                     e_depth := e_depth f + 1\<rparr>\<rparr>
      else s)"

definition e_pop :: "'d ext2 \<Rightarrow> 'd ext2" where
  "e_pop s = (if e_depth (fs s) > 0 then s\<lparr>fs := (fs s)\<lparr>e_depth := e_depth (fs s) - 1\<rparr>\<rparr> else s)"

text \<open>\<open>None\<close> is \<open>goto rollback\<close>.\<close>

function ext2_cd_loop :: "'d blk \<Rightarrow> u32 \<Rightarrow> cstr \<Rightarrow> ('d, u32 option) prog" where
  "ext2_cd_loop io cur p =
     (if p = [] then ret (Some cur)
      else
        let cmp = comp_of p; rest = after_comp p in
        if cmp = [] \<or> cmp = [46] then ext2_cd_loop io cur rest
        else if cmp = [46, 46] then do {
          f \<leftarrow> asks fs;
          if cur = root_inode f then ext2_cd_loop io cur rest
          else do {
            r \<leftarrow> read_inode io cur;
            case r of None \<Rightarrow> ret None
            | Some i \<Rightarrow> do {
                r \<leftarrow> parent_of io i;
                _ \<leftarrow> modify e_pop;
                ext2_cd_loop io (case r of Some n \<Rightarrow> (if n = 0 then root_inode f else n) | None \<Rightarrow> root_inode f) rest } } }
        else do {
          n \<leftarrow> find_dir_entry io cur cmp;
          if n = 0 then ret None
          else do {
            r \<leftarrow> read_inode io n;
            case r of None \<Rightarrow> ret None
            | Some i \<Rightarrow>
              if \<not> is_dir_mode i then ret None
              else do {
                _ \<leftarrow> modify (e_push cmp n);
                ext2_cd_loop io n rest } } })"
  by pat_completeness auto
termination by (relation "measure (\<lambda>(io, cur, p). length p)") (auto simp: length_after_comp)

declare ext2_cd_loop.simps [simp del]

definition e_restore :: "ext2_fs \<Rightarrow> 'd ext2 \<Rightarrow> 'd ext2" where
  "e_restore old s =
     (let n = e_depth old in
      s\<lparr>fs := (fs s)\<lparr>current_inode := current_inode old, e_depth := n,
          e_names := take n (e_names old) @ drop n (e_names (fs s)),
          e_inodes := take n (e_inodes old) @ drop n (e_inodes (fs s))\<rparr>\<rparr>)"

definition ext2_cd :: "'d blk \<Rightarrow> cstr option \<Rightarrow> ('d, bool) prog" where
  "ext2_cd io path_opt = do {
     f \<leftarrow> asks fs;
     case path_opt of None \<Rightarrow> ret False
     | Some path \<Rightarrow>
       if \<not> e_mounted f \<or> path = [] then ret False
       else do {
         r \<leftarrow> (if is_sep (cget path 0)
              then do { _ \<leftarrow> modify (\<lambda>s. s\<lparr>fs := (fs s)\<lparr>e_depth := 0\<rparr>\<rparr>); ext2_cd_loop io (root_inode f) (tl path) }
              else ext2_cd_loop io (current_inode f) path);
         case r of
           Some cur \<Rightarrow> do { _ \<leftarrow> modify (\<lambda>s. s\<lparr>fs := (fs s)\<lparr>current_inode := cur\<rparr>\<rparr>); ret True }
         | None \<Rightarrow> do { _ \<leftarrow> modify (e_restore f); ret False } } }"

definition ext2_get_path :: "ext2_fs \<Rightarrow> nat \<Rightarrow> cstr option" where
  "ext2_get_path f n = path_text (take (e_depth f) (e_names f)) n"

definition ext2_pwd :: "ext2_fs \<Rightarrow> cstr option" where
  "ext2_pwd f = ext2_get_path f 512"

section \<open>Listing\<close>

text \<open>The line of an entry; the size is read from the inode of a non-directory.\<close>

definition ext2_line :: "u8 \<Rightarrow> u8 list \<Rightarrow> u32 \<Rightarrow> u8 list" where
  "ext2_line ty nm fsize =
     (if ty = FT_DIR then ascii ''  [DIR]  '' else ascii ''  [FILE] '') @ takeWhile (\<lambda>c. c \<noteq> 0) nm
     @ (if ty = FT_DIR then []
        else (if length nm < 20 then replicate (20 - length nm) 32 else [32]) @ print_dec fsize @ ascii '' bytes'')
     @ [10]"

text \<open>The walk over the block in \<open>dir_buf\<close> from \<open>off\<close>: text so far and number of lines.\<close>

function list_walk :: "'d blk \<Rightarrow> nat \<Rightarrow> nat \<Rightarrow> u8 list \<times> nat \<Rightarrow> ('d, u8 list \<times> nat) prog" where
  "list_walk io n off acc =
     (if off + 8 \<le> n then do {
        b \<leftarrow> asks dir_buf;
        if d_bad b n off then ret acc
        else
          let nl = d_name_len b off; nm = subbuf b (off + 8) nl; rl = d_rec_len b off in
          if d_inode b off \<noteq> 0 \<and> nl > 0 \<and> nm \<noteq> [46] \<and> nm \<noteq> [46, 46] then do {
            fsize \<leftarrow> (if d_file_type b off = FT_DIR then ret 0
                      else do { r \<leftarrow> read_inode io (d_inode b off);
                                ret (case r of Some i \<Rightarrow> i_size i | None \<Rightarrow> 0) });
            list_walk io n (off + rl) (fst acc @ ext2_line (d_file_type b off) nm fsize, snd acc + 1) }
          else list_walk io n (off + rl) acc }
      else ret acc)"
  by pat_completeness auto
termination by (relation "measure (\<lambda>(io, n, off, acc). n - off)") (auto simp: d_bad_def)

declare list_walk.simps [simp del]

text \<open>\<open>Inl\<close> is the text at an early return.\<close>

fun list_blocks :: "'d blk \<Rightarrow> inode \<Rightarrow> nat \<Rightarrow> u32 list \<Rightarrow> u8 list \<times> nat \<Rightarrow> ('d, u8 list + (u8 list \<times> nat)) prog" where
  "list_blocks io dir n [] acc = ret (Inr acc)"
| "list_blocks io dir n (b # bs) acc = do {
     blk \<leftarrow> get_inode_block io dir b;
     if blk = 0 then list_blocks io dir n bs acc
     else do {
       ok \<leftarrow> read_block io blk DirBuf;
       if \<not> ok then ret (Inl (fst acc))
       else do { acc \<leftarrow> list_walk io n 0 acc; list_blocks io dir n bs acc } } }"

definition ext2_list_dir :: "'d blk \<Rightarrow> cstr option \<Rightarrow> ('d, u8 list) prog" where
  "ext2_list_dir io path_opt = do {
     f \<leftarrow> asks fs;
     if \<not> e_mounted f then ret (ascii ''Ext2 not mounted'' @ [10])
     else do {
       let path = (case path_opt of None \<Rightarrow> [] | Some p \<Rightarrow> p);
       n \<leftarrow> (if path \<noteq> [] \<and> \<not> (cget path 0 = 47 \<and> cget path 1 = 0)
            then resolve_relative io (current_inode f) path else ret (current_inode f));
       if n = 0 \<and> path \<noteq> [] \<and> \<not> (cget path 0 = 47 \<and> cget path 1 = 0) then ret (ascii ''Directory not found'' @ [10])
       else do {
         r \<leftarrow> read_inode io n;
         case r of None \<Rightarrow> ret []
         | Some dir \<Rightarrow>
           if \<not> is_dir_mode dir then ret (ascii ''Not a directory'' @ [10])
           else do {
             r \<leftarrow> list_blocks io dir (unat (block_size f)) (map of_nat [0..<unat (num_blocks f dir)]) ([], 0);
             ret (case r of Inl out \<Rightarrow> out
                  | Inr (out, n) \<Rightarrow> out @ ascii ''Total: '' @ print_dec (of_nat n) @ ascii '' entries'' @ [10]) } } } }"

end
