(* ===== verification/Ext2Format.thy ===== *)
theory Ext2Format
  imports Ext2Files
begin

text \<open>
  \<open>ext2::format\<close>: the layout computed from the number of sectors, the superblock, group
  descriptors, bitmaps and root directory it writes, in its order; and what the 32-bit and 16-bit
  arithmetic of the layout does on large and on unlucky sizes.
\<close>

section \<open>Layout\<close>

record e2_layout =
  l_block_size :: u32
  l_bpg :: u32
  l_spb :: u32
  l_fdb :: u32
  l_total_blocks :: u32
  l_data_blocks :: u32
  l_groups :: u32
  l_itb :: u32
  l_bgd_blocks :: u32
  l_g0 :: u32
  l_gN :: u32

definition INODES_PER_GROUP :: u32 where "INODES_PER_GROUP = 2048"

text \<open>\<open>total_bytes\<close> is computed in 32 bits.\<close>

definition choose_block :: "u32 \<Rightarrow> u32 \<times> u32" where
  "choose_block sector_count =
     (let total_bytes = sector_count * 512; r = (1024, 8192);
          r = (if total_bytes > 128 * 1024 * 1024 then (2048, 16384) else r);
          r = (if total_bytes > 512 * 1024 * 1024 then (4096, 32768) else r)
      in r)"

definition ext2_layout :: "u32 \<Rightarrow> e2_layout option" where
  "ext2_layout sector_count =
     (let (bs, bpg) = choose_block sector_count;
          spb = bs div 512;
          fdb = (if bs = 1024 then 1 else 0);
          total_blocks = sector_count div spb in
      if total_blocks < fdb + 8 then None
      else
        let data_blocks = total_blocks - fdb;
            groups = (data_blocks + bpg - 1) div bpg;
            itb = (INODES_PER_GROUP * 128 + bs - 1) div bs;
            bgd_blocks = (groups * 32 + bs - 1) div bs;
            g0 = 1 + bgd_blocks + 2 + itb;
            gN = 2 + itb
        in if g0 + 1 \<ge> bpg then None
           else Some \<lparr>l_block_size = bs, l_bpg = bpg, l_spb = spb, l_fdb = fdb, l_total_blocks = total_blocks,
             l_data_blocks = data_blocks, l_groups = groups, l_itb = itb, l_bgd_blocks = bgd_blocks,
             l_g0 = g0, l_gN = gN\<rparr>)"

text \<open>The blocks of a group, and how many of them its metadata takes.\<close>

definition group_blocks :: "e2_layout \<Rightarrow> u32 \<Rightarrow> u32" where
  "group_blocks l g =
     (if g = l_groups l - 1
      then let rem = l_data_blocks l - g * l_bpg l in if rem < l_bpg l then rem else l_bpg l
      else l_bpg l)"

definition overhead :: "e2_layout \<Rightarrow> u32 \<Rightarrow> u32" where
  "overhead l g = (if g = 0 then l_g0 l else l_gN l)"

definition group_list :: "e2_layout \<Rightarrow> u32 list" where
  "group_list l = map of_nat [0..<unat (l_groups l)]"

definition total_free :: "e2_layout \<Rightarrow> u32" where
  "total_free l =
     (let free = fold (\<lambda>g free. if group_blocks l g > overhead l g then free + (group_blocks l g - overhead l g) else free)
                  (group_list l) 0
      in if free > 0 then free - 1 else free)"

definition bitmaps_start :: "e2_layout \<Rightarrow> u32 \<Rightarrow> u32" where
  "bitmaps_start l g = l_fdb l + g * l_bpg l + (if g = 0 then 1 + l_bgd_blocks l else 0)"

definition superblock_of :: "e2_layout \<Rightarrow> u8 list" where
  "superblock_of l =
     (let total_inodes = l_groups l * INODES_PER_GROUP;
          log = (if l_block_size l = 1024 then 0 else if l_block_size l = 2048 then 1 else 2 :: u32);
          s = replicate 1024 0;
          s = wr32 s 0 total_inodes; s = wr32 s 4 (l_total_blocks l); s = wr32 s 8 (l_total_blocks l div 20);
          s = wr32 s 12 (total_free l); s = wr32 s 16 (total_inodes - 10); s = wr32 s 20 (l_fdb l);
          s = wr32 s 24 log; s = wr32 s 28 log; s = wr32 s 32 (l_bpg l); s = wr32 s 36 (l_bpg l);
          s = wr32 s 40 INODES_PER_GROUP; s = wr16 s 56 EXT2_MAGIC; s = wr16 s 58 1; s = wr16 s 60 1;
          s = wr32 s 72 0; s = wr32 s 76 1; s = wr32 s 84 11; s = wr16 s 88 128; s = wr32 s 96 0x0002
      in s)"

definition bgd_for :: "e2_layout \<Rightarrow> u32 \<Rightarrow> bgd" where
  "bgd_for l g =
     (let start = bitmaps_start l g;
          b = \<lparr>bg_block_bitmap = start, bg_inode_bitmap = start + 1, bg_inode_table = start + 2,
            bg_free_blocks_count = ucast (group_blocks l g - overhead l g),
            bg_free_inodes_count = ucast INODES_PER_GROUP, bg_used_dirs_count = 0, bg_pad = 0, bg_reserved = replicate 12 0\<rparr>
      in if g = 0 then
           let b = (if bg_free_inodes_count b \<ge> 10 then b\<lparr>bg_free_inodes_count := bg_free_inodes_count b - 10\<rparr> else b);
               b = b\<lparr>bg_used_dirs_count := 1\<rparr>
           in if bg_free_blocks_count b > 0 then b\<lparr>bg_free_blocks_count := bg_free_blocks_count b - 1\<rparr> else b
         else b)"

section \<open>What is written\<close>

text \<open>The sectors of a block's bytes.\<close>

definition sectors_of :: "u32 \<Rightarrow> u8 list \<Rightarrow> u32 \<Rightarrow> (u32 \<times> u8 list) list" where
  "sectors_of lba bs spb = map (\<lambda>s. (lba + of_nat s, subbuf bs (s * 512) 512)) [0..<unat spb]"

definition bgd_table :: "e2_layout \<Rightarrow> u8 list" where
  "bgd_table l = concat (map (bgd_bytes \<circ> bgd_for l) (group_list l))"

definition bgd_writes :: "u32 \<Rightarrow> e2_layout \<Rightarrow> (u32 \<times> u8 list) list" where
  "bgd_writes plba l =
     concat (map (\<lambda>b. let bs = unat (l_block_size l); chunk = subbuf (bgd_table l) (b * bs) bs in
         sectors_of (plba + (l_fdb l + 1 + of_nat b) * l_spb l) (chunk @ replicate (bs - length chunk) 0) (l_spb l))
       [0..<unat (l_bgd_blocks l)])"

definition block_bitmap :: "e2_layout \<Rightarrow> u32 \<Rightarrow> u8 list" where
  "block_bitmap l g =
     (let tb = unat (group_blocks l g); ov = unat (overhead l g); bpg = unat (l_bpg l);
          bm = fold (\<lambda>i bm. mark_bit bm i) [0..<ov] (replicate 4096 0);
          bm = (if g = l_groups l - 1 \<and> tb < bpg
                then fold (\<lambda>i bm. mark_bit bm i) [tb..<min bpg (unat (l_block_size l) * 8)] bm else bm)
      in if g = 0 then mark_bit bm ov else bm)"

definition inode_bitmap :: "u32 \<Rightarrow> u8 list" where
  "inode_bitmap g = (if g = 0 then fold (\<lambda>i bm. mark_bit bm i) [0..<10] (replicate 4096 0) else replicate 4096 0)"

definition group_writes :: "u32 \<Rightarrow> e2_layout \<Rightarrow> u32 \<Rightarrow> (u32 \<times> u8 list) list" where
  "group_writes plba l g =
     (let b = bitmaps_start l g in
      sectors_of (plba + b * l_spb l) (block_bitmap l g) (l_spb l)
      @ sectors_of (plba + (b + 1) * l_spb l) (inode_bitmap g) (l_spb l)
      @ concat (map (\<lambda>ib. map (\<lambda>s. (plba + (b + 2 + of_nat ib) * l_spb l + of_nat s, replicate 512 0)) [0..<unat (l_spb l)])
          [0..<unat (l_itb l)]))"

definition root_data_blk :: "e2_layout \<Rightarrow> u32" where
  "root_data_blk l = l_fdb l + l_g0 l"

definition root_dir_writes :: "u32 \<Rightarrow> e2_layout \<Rightarrow> (u32 \<times> u8 list) list" where
  "root_dir_writes plba l =
     (let n = unat (l_block_size l) in
      sectors_of (plba + root_data_blk l * l_spb l) (dot_block (replicate n 0) n 2 2) (l_spb l))"

definition root_inode_of :: "e2_layout \<Rightarrow> inode" where
  "root_inode_of l = zero_inode\<lparr>i_mode := S_IFDIR OR 0x1ED, i_links_count := 2, i_size := l_block_size l,
     i_blocks := l_block_size l div 512, i_block := (replicate 15 0)[0 := root_data_blk l]\<rparr>"

text \<open>\<open>alloc\<close> tells whether \<open>dma::alloc\<close> returns a buffer for that many bytes.\<close>

definition ext2_format :: "'d blk \<Rightarrow> (u32 \<Rightarrow> bool) \<Rightarrow> 'd \<Rightarrow> u32 \<Rightarrow> u32 \<Rightarrow> bool \<times> 'd" where
  "ext2_format io alloc d plba sector_count =
     (if \<not> blk_present io d then (False, d)
      else if sector_count < 8192 then (False, d)
      else case ext2_layout sector_count of None \<Rightarrow> (False, d)
      | Some l \<Rightarrow>
        let sb = superblock_of l in
        case write_seq io d [(plba + 2, subbuf sb 0 512), (plba + 3, subbuf sb 512 512)] of
          (False, d) \<Rightarrow> (False, d)
        | (True, d) \<Rightarrow>
          if \<not> alloc (l_groups l * 32) then (False, d)
          else
            case write_seq io d (bgd_writes plba l @ concat (map (group_writes plba l) (group_list l)) @ root_dir_writes plba l) of
              (False, d) \<Rightarrow> (False, d)
            | (True, d) \<Rightarrow>
              let byte_off = (l_fdb l + 1 + l_bgd_blocks l + 2) * l_block_size l + 1 * 128;
                  blk = byte_off div l_block_size l; off = unat (byte_off mod l_block_size l);
                  lba = plba + blk * l_spb l in
              case read_seq io d (map (\<lambda>s. lba + of_nat s) [0..<unat (l_spb l)]) of
                None \<Rightarrow> (False, d)
              | Some b \<Rightarrow>
                (case write_seq io d (sectors_of lba (splice b off (inode_bytes (root_inode_of l))) (l_spb l)) of
                   (False, d) \<Rightarrow> (False, d)
                 | (True, d) \<Rightarrow> (True, snd (blk_flush io d))))"

end
