(* ===== verification/Ext2FormatProps.thy ===== *)
theory Ext2FormatProps
  imports Ext2Format
begin

text \<open>
  The layout that \<open>ext2::format\<close> computes, on naturals; formatting stays inside the partition when
  the last group holds its own metadata, and what happens when it does not; the choice of the block
  size in 32 bits.
\<close>

section \<open>The layout\<close>

lemma choose_block_cases:
  "choose_block sc = (1024, 8192) \<or> choose_block sc = (2048, 16384) \<or> choose_block sc = (4096, 32768)"
  by (simp add: choose_block_def Let_def)

lemma u32_ceil:
  fixes a b :: u32
  assumes "unat a + unat b < 2 ^ 32" "0 < unat b"
  shows "unat ((a + b - 1) div b) = (unat a + unat b - 1) div unat b"
proof -
  have "unat (a + b) = unat a + unat b" by (rule unat_add_no_overflow) (use assms in simp)
  then have "unat (a + b - 1) = unat a + unat b - 1" using assms by (simp add: unat_dec)
  then show ?thesis by (simp add: unat_div)
qed

record layout_nat =
  n_bs :: nat
  n_spb :: nat
  n_fdb :: nat
  n_total :: nat
  n_groups :: nat
  n_bgd :: nat
  n_itb :: nat

text \<open>The same numbers without wrap-around.\<close>

definition is_layout :: "u32 \<Rightarrow> e2_layout \<Rightarrow> layout_nat \<Rightarrow> bool" where
  "is_layout sc l n \<longleftrightarrow> unat (l_block_size l) = n_bs n \<and> n_bs n \<in> {1024, 2048, 4096}
     \<and> unat (l_bpg l) = 8 * n_bs n \<and> unat (l_spb l) = n_spb n \<and> n_bs n = 512 * n_spb n
     \<and> unat (l_fdb l) = n_fdb n \<and> n_fdb n = (if n_bs n = 1024 then 1 else 0)
     \<and> unat (l_total_blocks l) = n_total n \<and> n_total n = unat sc div n_spb n \<and> n_fdb n + 8 \<le> n_total n
     \<and> unat (l_data_blocks l) = n_total n - n_fdb n
     \<and> unat (l_groups l) = n_groups n \<and> n_groups n = (n_total n - n_fdb n + 8 * n_bs n - 1) div (8 * n_bs n)
     \<and> unat (l_bgd_blocks l) = n_bgd n \<and> n_bgd n = (n_groups n * 32 + n_bs n - 1) div n_bs n
     \<and> unat (l_itb l) = n_itb n \<and> n_itb n = 262144 div n_bs n
     \<and> unat (l_g0 l) = 3 + n_bgd n + n_itb n \<and> unat (l_gN l) = 2 + n_itb n
     \<and> 4 + n_bgd n + n_itb n < 8 * n_bs n"

definition nat_layout :: "u32 \<Rightarrow> u32 \<Rightarrow> layout_nat" where
  "nat_layout sc bs =
     (let b = unat bs; spb = b div 512; fdb = (if b = 1024 then 1 else 0); tb = unat sc div spb;
          g = (tb - fdb + 8 * b - 1) div (8 * b)
      in \<lparr>n_bs = b, n_spb = spb, n_fdb = fdb, n_total = tb, n_groups = g, n_bgd = (g * 32 + b - 1) div b, n_itb = 262144 div b\<rparr>)"

lemma sum_overheads:
  fixes a b :: u32
  assumes "unat a < 2 ^ 20" "unat b \<le> 256"
  shows "unat (1 + a + 2 + b) = 3 + unat a + unat b" "unat (2 + b) = 2 + unat b" "unat (1 + a + 2 + b + 1) = 4 + unat a + unat b"
proof -
  have n: "unat (1 :: u32) = 1" "unat (2 :: u32) = 2" by simp_all
  have 1: "unat (1 + a) = 1 + unat a" by (subst unat_add_no_overflow; use assms n in simp)
  have 2: "unat (1 + a + 2) = 3 + unat a" by (subst unat_add_no_overflow; use assms 1 n in simp)
  show 3: "unat (1 + a + 2 + b) = 3 + unat a + unat b" by (subst unat_add_no_overflow; use assms 2 in simp)
  show "unat (1 + a + 2 + b + 1) = 4 + unat a + unat b" by (subst unat_add_no_overflow; use assms 3 n in simp)
  show "unat (2 + b) = 2 + unat b" by (subst unat_add_no_overflow; use assms n in simp)
qed

lemma layout_case:
  fixes bs bpg :: u32
  assumes "ext2_layout sc = Some l" "choose_block sc = (bs, bpg)"
    and "unat bs = b" "b \<in> {1024, 2048, 4096}" "unat bpg = 8 * b"
    and "unat (bs div 512) = b div 512" "unat ((INODES_PER_GROUP * 128 + bs - 1) div bs) = 262144 div b"
    and "(bs = 1024) = (b = 1024)"
  shows "is_layout sc l (nat_layout sc bs)"
proof -
  define n where "n = nat_layout sc bs"
  define spb where "spb = bs div 512"
  define fdb :: u32 where "fdb = (if bs = 1024 then 1 else 0)"
  define tb where "tb = sc div spb"
  define data where "data = tb - fdb"
  define g where "g = (data + bpg - 1) div bpg"
  define bgd where "bgd = (g * 32 + bs - 1) div bs"
  define itb where "itb = (INODES_PER_GROUP * 128 + bs - 1) div bs"
  have l: "\<not> tb < fdb + 8" "\<not> 1 + bgd + 2 + itb + 1 \<ge> bpg"
    "l = \<lparr>l_block_size = bs, l_bpg = bpg, l_spb = spb, l_fdb = fdb, l_total_blocks = tb, l_data_blocks = data,
        l_groups = g, l_itb = itb, l_bgd_blocks = bgd, l_g0 = 1 + bgd + 2 + itb, l_gN = 2 + itb\<rparr>"
    using assms(1,2) unfolding spb_def fdb_def tb_def data_def g_def bgd_def itb_def
    by (simp_all add: ext2_layout_def Let_def split: if_splits)
  have nb: "n_bs n = b" "n_spb n = b div 512" "n_fdb n = (if b = 1024 then 1 else 0)"
    "n_total n = unat sc div (b div 512)" "n_groups n = (n_total n - n_fdb n + 8 * b - 1) div (8 * b)"
    "n_bgd n = (n_groups n * 32 + b - 1) div b" "n_itb n = 262144 div b"
    by (simp_all add: n_def nat_layout_def Let_def assms(3))
  have b: "2 \<le> b div 512" "b = 512 * (b div 512)" "1024 \<le> b" "b \<le> 4096" using assms(4) by auto
  have ufdb: "unat fdb = n_fdb n" "n_fdb n \<le> 1" using assms(8) by (simp_all add: fdb_def nb(3))
  have uspb: "unat spb = b div 512" unfolding spb_def by (rule assms(6))
  have utb: "unat tb = n_total n" unfolding tb_def nb(4) unat_div uspb ..
  have "unat sc div (b div 512) \<le> unat sc div 2" by (rule div_le_mono2) (use b in auto)
  then have tbl: "n_total n < 2 ^ 31"
    using unsigned_less [of sc, where ?'a = nat] unfolding nb(4) by simp
  have f8: "unat (fdb + 8) = n_fdb n + 8" by (subst unat_add_no_overflow; use ufdb in simp)
  have ge: "n_fdb n + 8 \<le> n_total n" using l(1) unfolding not_less word_le_nat_alt f8 utb .
  have "fdb \<le> tb" unfolding word_le_nat_alt ufdb utb using ge by linarith
  then have udata: "unat data = n_total n - n_fdb n" unfolding data_def by (subst unat_sub) (simp_all add: ufdb utb)
  have ug: "unat g = n_groups n"
    unfolding g_def nb(5) using tbl b by (subst u32_ceil) (simp_all add: udata assms(5))
  have "n_groups n \<le> (n_total n + 8 * b) div (8 * b)" unfolding nb(5) by (rule div_le_mono) simp
  also have "\<dots> \<le> (n_total n + 8 * b) div 8192" by (rule div_le_mono2) (use b in auto)
  also have "\<dots> \<le> (2 ^ 31 + 32768) div 8192" by (rule div_le_mono) (use tbl b(4) in linarith)
  finally have gl: "n_groups n < 2 ^ 20" by simp
  have g32: "unat (g * 32) = n_groups n * 32" using gl by (subst unat_mult_no_overflow) (simp_all add: ug)
  have ubgd: "unat bgd = n_bgd n"
    unfolding bgd_def nb(6) using gl b by (subst u32_ceil) (simp_all add: g32 assms(3))
  have "n_groups n * 32 + b - 1 < 1048576 * 1024" using gl b(4) by simp
  then have "(n_groups n * 32 + b - 1) div 1024 < 1048576" by (simp add: div_less_iff_less_mult)
  then have bgl: "n_bgd n < 2 ^ 20"
    unfolding nb(6) using div_le_mono2 [of 1024 b "n_groups n * 32 + b - 1"] b(3) by simp
  have uitb: "unat itb = n_itb n" "n_itb n \<le> 256" using assms(4,7) by (auto simp: nb(7) itb_def)
  note ov = sum_overheads [of bgd itb, unfolded ubgd uitb(1), OF bgl uitb(2)]
  have lt: "4 + n_bgd n + n_itb n < 8 * b" using l(2) unfolding not_le word_less_nat_alt ov(3) assms(5) .
  show ?thesis
    unfolding n_def [symmetric] is_layout_def l(3) e2_layout.select_convs nb(1,2)
    by (intro conjI assms(3-5) uspb b(2) ufdb(1) nb(3-7) utb ge udata ug ubgd uitb(1) ov(1,2) lt)
qed

lemma layout_exists: "ext2_layout sc = Some l \<Longrightarrow> \<exists>n. is_layout sc l n"
proof -
  assume l: "ext2_layout sc = Some l"
  consider "choose_block sc = (1024, 8192)" | "choose_block sc = (2048, 16384)" | "choose_block sc = (4096, 32768)"
    using choose_block_cases by blast
  then show ?thesis
  proof cases
    case 1
    show ?thesis by (rule exI, rule layout_case [OF l 1, of 1024]) (simp_all add: unat_div INODES_PER_GROUP_def)
  next
    case 2
    show ?thesis by (rule exI, rule layout_case [OF l 2, of 2048]) (simp_all add: unat_div INODES_PER_GROUP_def)
  next
    case 3
    show ?thesis by (rule exI, rule layout_case [OF l 3, of 4096]) (simp_all add: unat_div INODES_PER_GROUP_def)
  qed
qed

section \<open>Formatting stays inside the partition\<close>

definition inside :: "u32 \<Rightarrow> u32 \<Rightarrow> u32 \<Rightarrow> bool" where
  "inside plba sc lba \<longleftrightarrow> unat plba + 2 \<le> unat lba \<and> unat lba < unat plba + unat sc"

text \<open>The last group has room for its bitmaps and inode table.\<close>

definition full_tail :: "e2_layout \<Rightarrow> bool" where
  "full_tail l \<longleftrightarrow> overhead l (l_groups l - 1) < group_blocks l (l_groups l - 1)"

lemma layout_bounds:
  assumes "is_layout sc l n"
  shows "1 \<le> n_groups n" "n_total n < 2147483648" "n_total n * n_spb n \<le> unat sc" "2 \<le> n_spb n"
    and "n_bgd n + n_itb n + 4 < 8 * n_bs n" "n_bs n \<le> 4096" "(n_groups n - 1) * (8 * n_bs n) < n_total n - n_fdb n"
    and "n_total n - n_fdb n \<le> n_groups n * (8 * n_bs n)" "n_fdb n \<le> 1" "n_bs n = 512 * n_spb n"
proof -
  have b: "n_bs n \<in> {1024, 2048, 4096}" and bs: "n_bs n = 512 * n_spb n" and tt: "n_total n = unat sc div n_spb n"
    and gg: "n_groups n = (n_total n - n_fdb n + 8 * n_bs n - 1) div (8 * n_bs n)" and ge: "n_fdb n + 8 \<le> n_total n"
    and lt: "4 + n_bgd n + n_itb n < 8 * n_bs n" and fd: "n_fdb n = (if n_bs n = 1024 then 1 else 0)"
    using assms unfolding is_layout_def by blast+
  show "n_bs n = 512 * n_spb n" by (rule bs)
  show sp: "2 \<le> n_spb n" "n_bs n \<le> 4096" using b bs by auto
  show "n_bgd n + n_itb n + 4 < 8 * n_bs n" using lt by simp
  show "n_fdb n \<le> 1" using fd by simp
  show "n_total n * n_spb n \<le> unat sc" unfolding tt by simp
  have "unat sc div n_spb n \<le> unat sc div 2" by (rule div_le_mono2) (use sp in auto)
  then show "n_total n < 2147483648" using unsigned_less [of sc, where ?'a = nat] unfolding tt by simp
  define B where "B = 8 * n_bs n"
  define D where "D = n_total n - n_fdb n"
  have B: "0 < B" "1 \<le> D" using b ge by (auto simp: B_def D_def)
  have G: "n_groups n = (D + B - 1) div B" by (simp only: gg B_def D_def)
  have q: "(D + B - 1) div B * B + (D + B - 1) mod B = D + B - 1" "(D + B - 1) mod B < B" using B by simp_all
  show g1: "1 \<le> n_groups n"
  proof (rule ccontr)
    assume "\<not> 1 \<le> n_groups n"
    then have "(D + B - 1) div B = 0" using G by simp
    with q have "D + B - 1 < B" by (metis add_0 mult_0)
    with B show False by linarith
  qed
  have "n_groups n * B = (n_groups n - 1) * B + B" using g1 by (metis Suc_eq_plus1 le_add_diff_inverse2 mult_Suc add.commute)
  moreover have "n_groups n * B \<le> D + B - 1" "D + B - 1 < n_groups n * B + B" using q unfolding G by linarith+
  ultimately show "(n_groups n - 1) * (8 * n_bs n) < n_total n - n_fdb n" "n_total n - n_fdb n \<le> n_groups n * (8 * n_bs n)"
    unfolding B_def [symmetric] D_def [symmetric] using B by linarith+
qed

lemma group_room:
  assumes "is_layout sc l n" "full_tail l" "g < l_groups l"
  shows "n_fdb n + unat g * (8 * n_bs n) + unat (overhead l g) < n_total n" "unat g * (8 * n_bs n) < 2147483648"
proof -
  note lb = layout_bounds [OF assms(1)]
  have u: "unat (l_bpg l) = 8 * n_bs n" "unat (l_groups l) = n_groups n" "unat (l_data_blocks l) = n_total n - n_fdb n"
    "unat (l_g0 l) = 3 + n_bgd n + n_itb n" "unat (l_gN l) = 2 + n_itb n" "n_fdb n + 8 \<le> n_total n"
    using assms(1) unfolding is_layout_def by blast+
  have g: "unat g < n_groups n" using assms(3) u(2) by (simp add: word_less_nat_alt)
  then have "unat g * (8 * n_bs n) \<le> (n_groups n - 1) * (8 * n_bs n)" by (intro mult_le_mono1) simp
  then have gb: "unat g * (8 * n_bs n) < n_total n - n_fdb n" using lb(7) by linarith
  then show "unat g * (8 * n_bs n) < 2147483648" using lb(2) by linarith
  have last: "unat (l_groups l - 1) = n_groups n - 1" using u(2) lb(1) by (simp add: unat_dec)
  show "n_fdb n + unat g * (8 * n_bs n) + unat (overhead l g) < n_total n"
  proof (cases "g = l_groups l - 1")
    case True
    have "unat g * (8 * n_bs n) < 4294967296" using gb lb(2) by linarith
    then have m: "unat (g * l_bpg l) = unat g * (8 * n_bs n)" unfolding u(1) [symmetric]
      by (intro unat_mult_no_overflow) simp
    have "g * l_bpg l \<le> l_data_blocks l" unfolding word_le_nat_alt m u(3) using gb by simp
    then have "unat (l_data_blocks l - g * l_bpg l) = n_total n - n_fdb n - unat g * (8 * n_bs n)"
      by (subst unat_sub) (simp_all add: m u(3))
    then have "unat (group_blocks l g) \<le> n_total n - n_fdb n - unat g * (8 * n_bs n)"
      using True u(1) by (auto simp: group_blocks_def Let_def word_less_nat_alt)
    moreover have "unat (overhead l g) < unat (group_blocks l g)"
      using assms(2) True by (simp add: full_tail_def word_less_nat_alt)
    ultimately show ?thesis using gb by linarith
  next
    case False
    then have "unat g \<noteq> n_groups n - 1" using last by (metis word_unat_eq_iff)
    then have "unat g + 1 \<le> n_groups n - 1" using g by linarith
    then have "(unat g + 1) * (8 * n_bs n) \<le> (n_groups n - 1) * (8 * n_bs n)" by (rule mult_le_mono1)
    then have "unat g * (8 * n_bs n) + 8 * n_bs n < n_total n - n_fdb n" using lb(7) by simp
    moreover have "unat (overhead l g) < 8 * n_bs n" using lb(5) u(4,5) by (simp add: overhead_def)
    ultimately show ?thesis by linarith
  qed
qed

lemma sector_inside:
  assumes "is_layout sc l n" "unat plba + unat sc \<le> 2 ^ 32" "1 \<le> unat x" "unat x < n_total n" "s < n_spb n"
  shows "inside plba sc (plba + x * l_spb l + of_nat s)"
proof -
  note lb = layout_bounds [OF assms(1)]
  have spb: "unat (l_spb l) = n_spb n" using assms(1) unfolding is_layout_def by blast
  have "(unat x + 1) * n_spb n \<le> n_total n * n_spb n" using assms(4) by (intro mult_le_mono1) simp
  then have le: "unat x * n_spb n + n_spb n \<le> unat sc" using lb(3) by simp
  have ge: "n_spb n \<le> unat x * n_spb n" using assms(3) by simp
  have lt: "unat plba + (unat x * n_spb n + s) < 2 ^ 32" "unat x * n_spb n < 2 ^ 32" "s < 2 ^ 32"
    using le assms(2,5) by linarith+
  have 1: "unat (x * l_spb l) = unat x * n_spb n"
    using lt(2) by (subst unat_mult_no_overflow) (simp_all add: spb)
  have 2: "unat (plba + x * l_spb l) = unat plba + unat x * n_spb n"
    using lt(1) by (subst unat_add_no_overflow) (simp_all add: 1)
  have 3: "unat (of_nat s :: u32) = s" by (rule unat_of_nat_eq) (use lt(3) in simp)
  have "unat (plba + x * l_spb l + of_nat s) = unat plba + unat x * n_spb n + s"
    using lt(1) by (subst unat_add_no_overflow) (simp_all add: 2 3)
  then show ?thesis unfolding inside_def using le ge lb(4) assms(5) by linarith
qed

lemma sectors_inside:
  assumes "is_layout sc l n" "unat plba + unat sc \<le> 2 ^ 32" "1 \<le> unat x" "unat x < n_total n"
  shows "\<forall>p\<in>set (sectors_of (plba + x * l_spb l) bs (l_spb l)). inside plba sc (fst p)"
proof -
  have "unat (l_spb l) = n_spb n" using assms(1) unfolding is_layout_def by blast
  then show ?thesis using sector_inside [OF assms] by (auto simp: sectors_of_def)
qed

lemma bgd_writes_inside:
  assumes "is_layout sc l n" "full_tail l" "unat plba + unat sc \<le> 2 ^ 32"
  shows "\<forall>p\<in>set (bgd_writes plba l). inside plba sc (fst p)"
proof -
  have u: "unat (l_fdb l) = n_fdb n" "unat (l_bgd_blocks l) = n_bgd n" "unat (l_g0 l) = 3 + n_bgd n + n_itb n"
    "unat (l_groups l) = n_groups n"
    using assms(1) unfolding is_layout_def by blast+
  note lb = layout_bounds [OF assms(1)]
  have "0 < l_groups l" using u(4) lb(1) by (simp add: word_less_nat_alt)
  from group_room(1) [OF assms(1,2) this] have t: "n_fdb n + 3 + n_bgd n < n_total n" by (simp add: overhead_def u)
  have "\<forall>p\<in>set (sectors_of (plba + (l_fdb l + 1 + of_nat b) * l_spb l) bs (l_spb l)). inside plba sc (fst p)"
    if "b < n_bgd n" for b bs
  proof -
    have 1: "unat (l_fdb l + 1) = n_fdb n + 1" using lb(9) by (subst unat_add_no_overflow) (simp_all add: u)
    have 2: "unat (of_nat b :: u32) = b" by (rule unat_of_nat_eq) (use that t lb(2) in simp)
    have x: "unat (l_fdb l + 1 + of_nat b) = n_fdb n + 1 + b"
      using that t lb(2) by (subst unat_add_no_overflow) (simp_all add: 1 2)
    show ?thesis by (rule sectors_inside [OF assms(1,3)]) (use x that t in auto)
  qed
  then show ?thesis unfolding bgd_writes_def by (auto simp: u Let_def)
qed

lemma group_writes_inside:
  assumes "is_layout sc l n" "full_tail l" "unat plba + unat sc \<le> 2 ^ 32" "g < l_groups l"
  shows "\<forall>p\<in>set (group_writes plba l g). inside plba sc (fst p)"
proof -
  have u: "unat (l_fdb l) = n_fdb n" "unat (l_bgd_blocks l) = n_bgd n" "unat (l_itb l) = n_itb n" "unat (l_spb l) = n_spb n"
    "unat (l_bpg l) = 8 * n_bs n" "unat (l_g0 l) = 3 + n_bgd n + n_itb n" "unat (l_gN l) = 2 + n_itb n"
    using assms(1) unfolding is_layout_def by blast+
  note lb = layout_bounds [OF assms(1)] and gr = group_room [OF assms(1,2,4)]
  let ?e = "if g = 0 then 1 + n_bgd n else 0"
  have ov: "unat (overhead l g) = ?e + 2 + n_itb n" using u by (simp add: overhead_def)
  have m: "unat (g * l_bpg l) = unat g * (8 * n_bs n)"
    using gr(2) by (subst unat_mult_no_overflow) (simp_all add: u)
  have tot: "n_total n < 2147483648" using lb(2) by simp
  have a: "unat (l_fdb l + g * l_bpg l) = n_fdb n + unat g * (8 * n_bs n)"
    using gr lb(2) by (subst unat_add_no_overflow) (simp_all add: u m)
  have e: "unat (if g = 0 then 1 + l_bgd_blocks l else 0) = ?e"
    using lb(5,6) u(2) unat_add_no_overflow [of 1 "l_bgd_blocks l"] by simp
  have st: "unat (bitmaps_start l g) = n_fdb n + unat g * (8 * n_bs n) + ?e"
  proof -
    have "unat (l_fdb l + g * l_bpg l) + unat (if g = 0 then 1 + l_bgd_blocks l else 0) < 4294967296"
      unfolding a e using gr(1) ov tot by linarith
    then have "unat (bitmaps_start l g) = unat (l_fdb l + g * l_bpg l) + unat (if g = 0 then 1 + l_bgd_blocks l else 0)"
      unfolding bitmaps_start_def by (intro unat_add_no_overflow) simp
    then show ?thesis unfolding a e .
  qed
  have lim: "unat (bitmaps_start l g) + 2 + n_itb n < n_total n" using gr(1) st ov by linarith
  have pos: "1 \<le> unat (bitmaps_start l g)"
  proof (cases "g = 0")
    case False
    then have "1 \<le> unat g" by (simp add: Suc_le_eq unat_gt_0)
    then have "8 * n_bs n \<le> unat g * (8 * n_bs n)" by simp
    then show ?thesis using st lb(4,10) by linarith
  qed (use st in simp)
  have b1: "unat (bitmaps_start l g + 1) = unat (bitmaps_start l g) + 1" "unat (bitmaps_start l g + 2) = unat (bitmaps_start l g) + 2"
    using lim lb(2) by (subst unat_add_no_overflow; simp)+
  have tab: "unat (bitmaps_start l g + 2 + of_nat ib) = unat (bitmaps_start l g) + 2 + ib" if "ib < n_itb n" for ib
  proof -
    have "unat (of_nat ib :: u32) = ib" by (rule unat_of_nat_eq) (use that lim lb(2) in simp)
    then show ?thesis using that lim lb(2) by (subst unat_add_no_overflow) (simp_all add: b1)
  qed
  have 1: "\<forall>p\<in>set (sectors_of (plba + bitmaps_start l g * l_spb l) bs (l_spb l)). inside plba sc (fst p)" for bs
    by (rule sectors_inside [OF assms(1,3) pos]) (use lim in simp)
  have 2: "\<forall>p\<in>set (sectors_of (plba + (bitmaps_start l g + 1) * l_spb l) bs (l_spb l)). inside plba sc (fst p)" for bs
    by (rule sectors_inside [OF assms(1,3)]) (use lim b1 in simp_all)
  have 3: "inside plba sc (plba + (bitmaps_start l g + 2 + of_nat ib) * l_spb l + of_nat s)" if "ib < n_itb n" "s < n_spb n" for ib s
    by (rule sector_inside [OF assms(1,3) _ _ that(2)]) (use lim tab [OF that(1)] that(1) in simp_all)
  show ?thesis
    unfolding group_writes_def Let_def using 1 2 3 by (auto simp: u)
qed

lemma root_inside:
  assumes "is_layout sc l n" "full_tail l" "unat plba + unat sc \<le> 2 ^ 32"
  shows "\<forall>p\<in>set (root_dir_writes plba l). inside plba sc (fst p)"
    and "\<forall>p\<in>set (sectors_of (plba + (((l_fdb l + 1 + l_bgd_blocks l + 2) * l_block_size l + 1 * 128) div l_block_size l) * l_spb l) bs (l_spb l)).
      inside plba sc (fst p)"
proof -
  have u: "unat (l_fdb l) = n_fdb n" "unat (l_bgd_blocks l) = n_bgd n" "unat (l_g0 l) = 3 + n_bgd n + n_itb n"
    "unat (l_groups l) = n_groups n" "unat (l_block_size l) = n_bs n" "n_bs n \<in> {1024, 2048, 4096}"
    using assms(1) unfolding is_layout_def by blast+
  note lb = layout_bounds [OF assms(1)]
  have "0 < l_groups l" using u(4) lb(1) by (simp add: word_less_nat_alt)
  from group_room(1) [OF assms(1,2) this] have t: "n_fdb n + 3 + n_bgd n + n_itb n < n_total n" by (simp add: overhead_def u)
  have r: "unat (root_data_blk l) = n_fdb n + (3 + n_bgd n + n_itb n)"
    unfolding root_data_blk_def using t lb(2) by (subst unat_add_no_overflow) (simp_all add: u)
  show "\<forall>p\<in>set (root_dir_writes plba l). inside plba sc (fst p)"
    unfolding root_dir_writes_def Let_def by (rule sectors_inside [OF assms(1,3)]) (use r t in simp_all)
  let ?x = "n_fdb n + n_bgd n + 3"
  have x: "unat (l_fdb l + 1 + l_bgd_blocks l + 2) = ?x"
  proof -
    have 1: "unat (l_fdb l + 1) = n_fdb n + 1" using lb(9) by (subst unat_add_no_overflow) (simp_all add: u)
    have 2: "unat (l_fdb l + 1 + l_bgd_blocks l) = n_fdb n + 1 + n_bgd n"
      using t lb(2) by (subst unat_add_no_overflow) (simp_all add: u 1)
    show ?thesis using t lb(2) by (subst unat_add_no_overflow) (simp_all add: 2)
  qed
  have xs: "?x \<le> 32768" using lb(5,6,9) by linarith
  have "?x * n_bs n \<le> 32768 * 4096" using xs lb(6) by (rule mult_le_mono)
  then have m2: "?x * n_bs n \<le> 134217728" by simp
  have m1: "unat ((l_fdb l + 1 + l_bgd_blocks l + 2) * l_block_size l) = ?x * n_bs n"
    unfolding x [symmetric] u(5) [symmetric] by (rule unat_mult_no_overflow) (unfold x u(5), use m2 in simp)
  have bt: "unat ((l_fdb l + 1 + l_bgd_blocks l + 2) * l_block_size l + 1 * 128) = ?x * n_bs n + 128"
    unfolding m1 [symmetric] using m2 by (subst unat_add_no_overflow) (simp_all only: m1, simp_all)
  have "unat (((l_fdb l + 1 + l_bgd_blocks l + 2) * l_block_size l + 1 * 128) div l_block_size l) = (?x * n_bs n + 128) div n_bs n"
    unfolding unat_div bt u(5) ..
  also have "\<dots> = ?x + 128 div n_bs n" by (rule div_mult_self3) (use u(6) in auto)
  also have "\<dots> = ?x" using u(6) by auto
  finally have k: "unat (((l_fdb l + 1 + l_bgd_blocks l + 2) * l_block_size l + 1 * 128) div l_block_size l) = ?x" .
  show "\<forall>p\<in>set (sectors_of (plba + (((l_fdb l + 1 + l_bgd_blocks l + 2) * l_block_size l + 1 * 128) div l_block_size l) * l_spb l) bs (l_spb l)).
      inside plba sc (fst p)"
    by (rule sectors_inside [OF assms(1,3)]) (unfold k, use t in simp_all)
qed

context block_device
begin

lemma write_seq_inside:
  assumes "write_seq io d ws = (ok, d')" "\<forall>p\<in>set ws. inside plba sc (fst p)" "\<not> inside plba sc lba"
  shows "blk_read io d' lba = blk_read io d lba"
  by (rule write_seq_frame [OF assms(1)]) (use assms(2,3) in auto)

lemma format_frame:
  assumes "case ext2_layout sc of None \<Rightarrow> True | Some l \<Rightarrow> full_tail l"
    and "unat plba + unat sc \<le> 2 ^ 32" "\<not> inside plba sc lba"
  shows "blk_read io (snd (ext2_format io alloc d plba sc)) lba = blk_read io d lba"
proof (cases "blk_present io d \<and> \<not> sc < 8192")
  case False
  then show ?thesis by (auto simp: ext2_format_def)
next
  case go: True
  show ?thesis
  proof (cases "ext2_layout sc")
    case None
    then show ?thesis by (simp add: ext2_format_def)
  next
    case (Some l)
    obtain n where n: "is_layout sc l n" using layout_exists [OF Some] by blast
    have ft: "full_tail l" using assms(1) Some by simp
    have sc: "8192 \<le> unat sc" using go by (simp add: word_less_nat_alt)
    have sb: "unat (plba + 2) = unat plba + 2" "unat (plba + 3) = unat plba + 3"
      using sc assms(2) by (subst unat_add_no_overflow; simp)+
    let ?w1 = "[(plba + 2, subbuf (superblock_of l) 0 512), (plba + 3, subbuf (superblock_of l) 512 512)]"
    let ?w2 = "bgd_writes plba l @ concat (map (group_writes plba l) (group_list l)) @ root_dir_writes plba l"
    have i1: "\<forall>p\<in>set ?w1. inside plba sc (fst p)" using sb sc by (simp add: inside_def)
    have "g < l_groups l" if g: "g \<in> set (group_list l)" for g
    proof -
      obtain k where k: "k < unat (l_groups l)" "g = of_nat k" using g by (auto simp: group_list_def)
      have "unat g = k" unfolding k(2)
        by (rule unat_of_nat_eq) (use k(1) unsigned_less [of "l_groups l", where ?'a = nat] in linarith)
      with k(1) show ?thesis by (simp add: word_less_nat_alt)
    qed
    then have i2: "\<forall>p\<in>set ?w2. inside plba sc (fst p)"
      using bgd_writes_inside [OF n ft assms(2)] group_writes_inside [OF n ft assms(2)] root_inside(1) [OF n ft assms(2)]
      by auto
    let ?b = "(l_fdb l + 1 + l_bgd_blocks l + 2) * l_block_size l + 1 * 128"
    let ?lba = "plba + (?b div l_block_size l) * l_spb l"
    note i3 = root_inside(2) [OF n ft assms(2)]
    obtain ok1 d1 where s1: "write_seq io d ?w1 = (ok1, d1)" by (cases "write_seq io d ?w1")
    obtain ok2 d2 where s2: "write_seq io d1 ?w2 = (ok2, d2)" by (cases "write_seq io d1 ?w2")
    have r1: "blk_read io d1 lba = blk_read io d lba" by (rule write_seq_inside [OF s1 i1 assms(3)])
    have r2: "blk_read io d2 lba = blk_read io d1 lba" by (rule write_seq_inside [OF s2 i2 assms(3)])
    have r3: "blk_read io d3 lba = blk_read io d2 lba" if "write_seq io d2 (sectors_of ?lba bs (l_spb l)) = (ok3, d3)" for bs ok3 d3
      by (rule write_seq_inside [OF that i3 assms(3)])
    have "ext2_format io alloc d plba sc =
        (if \<not> ok1 then (False, d1)
         else if \<not> alloc (l_groups l * 32) then (False, d1)
         else if \<not> ok2 then (False, d2)
         else case read_seq io d2 (map (\<lambda>s. ?lba + of_nat s) [0..<unat (l_spb l)]) of None \<Rightarrow> (False, d2)
           | Some b \<Rightarrow> (case write_seq io d2 (sectors_of ?lba (splice b (unat (?b mod l_block_size l)) (inode_bytes (root_inode_of l))) (l_spb l)) of
               (False, d) \<Rightarrow> (False, d) | (True, d) \<Rightarrow> (True, snd (blk_flush io d))))"
      unfolding ext2_format_def Let_def using go Some s1 s2
      by (cases ok1; cases ok2) (simp_all only: option.case if_False if_True prod.case bool.case not_True_eq_False not_False_eq_True)
    then show ?thesis
      using r1 r2 r3 by (auto simp: flush_snd split: option.splits prod.splits bool.splits)
  qed
qed

end

section \<open>Properties\<close>

text \<open>C20. Formatting a partition changes no sector outside it (nor its first two sectors), whatever fails
  on the way, provided the layout gives the last group room for its own bitmaps and inode table.\<close>

theorem ext2_format_stays_inside:
  assumes "block_device io" "case ext2_layout sc of None \<Rightarrow> True | Some l \<Rightarrow> full_tail l"
    and "unat plba + unat sc \<le> 2 ^ 32" "\<not> inside plba sc lba"
  shows "blk_read io (snd (ext2_format io alloc d plba sc)) lba = blk_read io d lba"
  by (rule block_device.format_frame [OF assms])

lemma layout_8192: "(case ext2_layout 8192 of None \<Rightarrow> False | Some l \<Rightarrow> full_tail l)"
  by code_simp

definition blank_disk :: store where
  "blank_disk = \<lparr>cells = (\<lambda>_. replicate 512 0), faulty = (\<lambda>_. False), capacity = 20000\<rparr>"

theorem ext2_format_stays_inside_witness:
  "blk_read store_blk (snd (ext2_format store_blk (\<lambda>_. True) blank_disk 2048 8192)) 10240 = blk_read store_blk blank_disk 10240"
proof (rule ext2_format_stays_inside [OF store_dev.block_device_axioms])
  show "case ext2_layout 8192 of None \<Rightarrow> True | Some l \<Rightarrow> full_tail l" using layout_8192 by (simp split: option.splits)
qed (simp_all add: inside_def)

text \<open>A partition of 16400 sectors: the second group has 7 blocks and its metadata needs 258.  The layout
  is accepted, the group's free count wraps to 65285, and the inode table is written past the end of
  the partition (sector 16900 and more from its start).\<close>

theorem ext2_format_writes_past_partition:
  "\<exists>l. ext2_layout 16400 = Some l \<and> group_blocks l 1 = 7 \<and> bg_free_blocks_count (bgd_for l 1) = 65285
     \<and> 1 \<in> set (group_list l) \<and> (16900, replicate 512 0) \<in> set (group_writes 0 l 1)"
proof -
  obtain l where l: "ext2_layout 16400 = Some l" and c: "group_blocks l 1 = 7" "bg_free_blocks_count (bgd_for l 1) = 65285"
    "bitmaps_start l 1 = 8193" "l_spb l = 2" "l_itb l = 256" "l_groups l = 2"
  proof -
    have "(case ext2_layout 16400 of None \<Rightarrow> False | Some l \<Rightarrow> group_blocks l 1 = 7 \<and> bg_free_blocks_count (bgd_for l 1) = 65285
       \<and> bitmaps_start l 1 = 8193 \<and> l_spb l = 2 \<and> l_itb l = 256 \<and> l_groups l = 2)" by code_simp
    then show ?thesis using that by (auto split: option.splits)
  qed
  have "1 \<in> set (group_list l)" by (auto simp: group_list_def c(6) image_iff intro!: bexI [of _ 1])
  moreover have "(16900, replicate 512 0) \<in> set (group_writes 0 l 1)"
  proof -
    have "(0 + (8193 + 2 + of_nat 255) * 2 + of_nat 0, replicate 512 0) \<in>
      set (concat (map (\<lambda>ib. map (\<lambda>s. (0 + (8193 + 2 + of_nat ib) * 2 + of_nat s :: u32, replicate 512 (0 :: u8))) [0..<unat (2 :: u32)]) [0..<unat (256 :: u32)]))"
      unfolding set_concat set_map by (rule UN_I [OF imageI [of 255]], simp, unfold set_map, rule image_eqI [of _ _ 0]) simp_all
    moreover have "0 + (8193 + 2 + of_nat 255) * 2 + of_nat 0 = (16900 :: u32)" by simp
    ultimately show ?thesis unfolding group_writes_def Let_def c set_append by (intro UnI2) (simp only:)
  qed
  ultimately show ?thesis using l c by blast
qed

text \<open>The number of bytes wraps in 32 bits: a partition of 8388607 sectors gets blocks of 4 KiB in 32
  groups, one more sector gives blocks of 1 KiB in 512 groups.\<close>

theorem ext2_block_size_wraps:
  "(case (ext2_layout 8388607, ext2_layout 8388608) of
      (Some a, Some b) \<Rightarrow> l_block_size a = 4096 \<and> l_groups a = 32 \<and> l_block_size b = 1024 \<and> l_groups b = 512
    | _ \<Rightarrow> False)"
  by code_simp

end
