(* ===== verification/Heap.thy ===== *)
theory Heap
  imports PhysSpec Fmt
begin

text \<open>
  The kernel heap, \<open>mm/heap.cpp\<close>: regions of whole pages from the page allocator, each with a
  doubly linked list of blocks in address order.  Memory is a function from addresses to bytes and
  headers are read and written at their offsets in it, so that freed headers, payloads and reused
  pages share it as they do in the machine.  A null pointer is 0.  A walk along a list that does not
  end is \<open>None\<close>, as is a page allocation that leaves the bitmap.
\<close>

section \<open>Memory\<close>

type_synonym memory = "u64 \<Rightarrow> u8"

definition ld :: "memory \<Rightarrow> u64 \<Rightarrow> nat \<Rightarrow> u8 list" where
  "ld m a n = map (\<lambda>i. m (a + of_nat i)) [0..<n]"

definition st :: "memory \<Rightarrow> u64 \<Rightarrow> u8 list \<Rightarrow> memory" where
  "st m a bs = (\<lambda>x. if unat (x - a) < length bs then bs ! unat (x - a) else m x)"

lemma st_code [code]:
  "st m a bs = (\<lambda>x. if uint (x - a) < int (length bs) then bs ! nat (uint (x - a)) else m x)"
  by (simp add: st_def fun_eq_iff nat_less_iff flip: nat_uint_eq)

definition le64 :: "u64 \<Rightarrow> u8 list" where
  "le64 v = le32 (ucast v) @ le32 (ucast (drop_bit 32 v))"

definition ld32 :: "memory \<Rightarrow> u64 \<Rightarrow> u32" where "ld32 m a = rd32 (ld m a 4) 0"
definition ld64 :: "memory \<Rightarrow> u64 \<Rightarrow> u64" where "ld64 m a = rd64 (ld m a 8) 0"
definition st32 :: "memory \<Rightarrow> u64 \<Rightarrow> u32 \<Rightarrow> memory" where "st32 m a v = st m a (le32 v)"
definition st64 :: "memory \<Rightarrow> u64 \<Rightarrow> u64 \<Rightarrow> memory" where "st64 m a v = st m a (le64 v)"

section \<open>Headers\<close>

definition ALIGNMENT :: u64 where "ALIGNMENT = 16"
definition MIN_REGION_PAGES :: u64 where "MIN_REGION_PAGES = 16"
definition BLOCK_MAGIC :: u32 where "BLOCK_MAGIC = 0xC0DEC0DE"
definition BLOCK_DEAD :: u32 where "BLOCK_DEAD = 0xDEADDEAD"

text \<open>Both headers have 48 bytes.  Region: prev, next, first, pages, size, usage.  Block: prev, next,
  region, magic, size, req_size.\<close>

definition HDR :: u64 where "HDR = 48"

definition prev_of :: "memory \<Rightarrow> u64 \<Rightarrow> u64" where "prev_of m a = ld64 m a"
definition next_of :: "memory \<Rightarrow> u64 \<Rightarrow> u64" where "next_of m a = ld64 m (a + 8)"
definition r_first :: "memory \<Rightarrow> u64 \<Rightarrow> u64" where "r_first m r = ld64 m (r + 16)"
definition r_pages :: "memory \<Rightarrow> u64 \<Rightarrow> u32" where "r_pages m r = ld32 m (r + 24)"
definition r_size :: "memory \<Rightarrow> u64 \<Rightarrow> u32" where "r_size m r = ld32 m (r + 28)"
definition r_usage :: "memory \<Rightarrow> u64 \<Rightarrow> u32" where "r_usage m r = ld32 m (r + 32)"
definition b_region :: "memory \<Rightarrow> u64 \<Rightarrow> u64" where "b_region m b = ld64 m (b + 16)"
definition b_magic :: "memory \<Rightarrow> u64 \<Rightarrow> u32" where "b_magic m b = ld32 m (b + 32)"
definition b_size :: "memory \<Rightarrow> u64 \<Rightarrow> u32" where "b_size m b = ld32 m (b + 36)"
definition b_req :: "memory \<Rightarrow> u64 \<Rightarrow> u32" where "b_req m b = ld32 m (b + 40)"

definition set_prev :: "u64 \<Rightarrow> u64 \<Rightarrow> memory \<Rightarrow> memory" where "set_prev a v m = st64 m a v"
definition set_next :: "u64 \<Rightarrow> u64 \<Rightarrow> memory \<Rightarrow> memory" where "set_next a v m = st64 m (a + 8) v"
definition set_first :: "u64 \<Rightarrow> u64 \<Rightarrow> memory \<Rightarrow> memory" where "set_first r v m = st64 m (r + 16) v"
definition set_usage :: "u64 \<Rightarrow> u32 \<Rightarrow> memory \<Rightarrow> memory" where "set_usage r v m = st32 m (r + 32) v"

text \<open>All fields of a new header.\<close>

definition init_region :: "u64 \<Rightarrow> u64 \<Rightarrow> memory \<Rightarrow> memory" where
  "init_region r pages m =
     (let m = st64 m r 0; m = st64 m (r + 8) 0; m = st64 m (r + 16) 0;
          m = st32 m (r + 24) (ucast pages); m = st32 m (r + 28) (ucast (pages * PAGE_SIZE));
          m = st32 m (r + 32) 48; m = st32 m (r + 36) 0; m = st64 m (r + 40) 0
      in m)"

definition init_block :: "u64 \<Rightarrow> u64 \<Rightarrow> u64 \<Rightarrow> u64 \<Rightarrow> u64 \<Rightarrow> u64 \<Rightarrow> memory \<Rightarrow> memory" where
  "init_block b pv nx r payload req m =
     (let m = st64 m b pv; m = st64 m (b + 8) nx; m = st64 m (b + 16) r; m = st64 m (b + 24) 0;
          m = st32 m (b + 32) BLOCK_MAGIC; m = st32 m (b + 36) (ucast payload);
          m = st32 m (b + 40) (ucast req); m = st32 m (b + 44) 0
      in m)"

section \<open>State\<close>

record heap_state =
  h_mem :: memory
  h_phys :: phys_state
  h_root :: u64
  h_best :: u64
  h_init :: bool
  h_total_region_bytes :: u64
  h_in_use :: u64
  h_peak :: u64
  h_region_count :: u64
  h_live :: u64

definition heap_boot :: "memory \<Rightarrow> phys_state \<Rightarrow> heap_state" where
  "heap_boot m p = \<lparr>h_mem = m, h_phys = p, h_root = 0, h_best = 0, h_init = False, h_total_region_bytes = 0,
     h_in_use = 0, h_peak = 0, h_region_count = 0, h_live = 0\<rparr>"

definition upd_mem :: "(memory \<Rightarrow> memory) \<Rightarrow> heap_state \<Rightarrow> heap_state" where
  "upd_mem f h = h\<lparr>h_mem := f (h_mem h)\<rparr>"

definition align_up :: "u64 \<Rightarrow> u64 \<Rightarrow> u64" where
  "align_up v a = (v + a - 1) AND NOT (a - 1)"

section \<open>Regions\<close>

definition region_alloc :: "heap_state \<Rightarrow> u64 \<Rightarrow> (u64 \<times> heap_state) option" where
  "region_alloc h pages =
     (case alloc_pages (h_phys h) pages of None \<Rightarrow> None
      | Some (a, p) \<Rightarrow> Some (if a = 0 then 0 else a + g_hhdm_offset p, h\<lparr>h_phys := p\<rparr>))"

definition region_free :: "u64 \<Rightarrow> u64 \<Rightarrow> heap_state \<Rightarrow> heap_state" where
  "region_free v pages h =
     (let hhdm = g_hhdm_offset (h_phys h) in
      if v = 0 \<or> hhdm = 0 \<or> v < hhdm then h
      else h\<lparr>h_phys := free_pages (h_phys h) (v - hhdm) pages\<rparr>)"

definition free_bytes :: "memory \<Rightarrow> u64 \<Rightarrow> u64" where
  "free_bytes m r = ucast (r_size m r) - ucast (r_usage m r)"

partial_function (option) best_loop :: "memory \<Rightarrow> u64 \<Rightarrow> u64 \<Rightarrow> u64 \<Rightarrow> u64 option" where
  "best_loop m r best_free best =
     (if r = 0 then Some best
      else if free_bytes m r > best_free then best_loop m (next_of m r) (free_bytes m r) r
      else best_loop m (next_of m r) best_free best)"

definition refresh_best_hint :: "heap_state \<Rightarrow> heap_state option" where
  "refresh_best_hint h = map_option (\<lambda>b. h\<lparr>h_best := b\<rparr>) (best_loop (h_mem h) (h_root h) 0 0)"

text \<open>The last node of a list, from \<open>a\<close>; regions and blocks have \<open>next\<close> at the same offset.\<close>

partial_function (option) last_of :: "memory \<Rightarrow> u64 \<Rightarrow> u64 option" where
  "last_of m a = (if a \<noteq> 0 \<and> next_of m a \<noteq> 0 then last_of m (next_of m a) else Some a)"

definition link_region :: "heap_state \<Rightarrow> u64 \<Rightarrow> heap_state option" where
  "link_region h r =
     (if h_root h = 0 then Some (h\<lparr>h_root := r\<rparr>)
      else map_option (\<lambda>t. upd_mem (set_prev r t \<circ> set_next t r) h) (last_of (h_mem h) (h_root h)))"

definition create_region :: "heap_state \<Rightarrow> u64 \<Rightarrow> (u64 \<times> heap_state) option" where
  "create_region h payload =
     (let want = payload + HDR + HDR;
          pages = (want + PAGE_SIZE - 1) div PAGE_SIZE;
          pages = (if pages < MIN_REGION_PAGES then MIN_REGION_PAGES else pages) in
      if pages > 0xFFFFFFFF div PAGE_SIZE then Some (0, h)
      else case region_alloc h (ucast (ucast pages :: u32)) of None \<Rightarrow> None
      | Some (r, h) \<Rightarrow>
          if r = 0 then Some (0, h)
          else case link_region (upd_mem (init_region r pages) h) r of None \<Rightarrow> None
          | Some h \<Rightarrow> Some (r, h\<lparr>h_total_region_bytes := h_total_region_bytes h + ucast (r_size (h_mem h) r),
                               h_region_count := h_region_count h + 1\<rparr>))"

definition destroy_region :: "u64 \<Rightarrow> heap_state \<Rightarrow> heap_state" where
  "destroy_region r h =
     (if r = 0 then h
      else
        let h = (if prev_of (h_mem h) r \<noteq> 0 then upd_mem (\<lambda>m. set_next (prev_of m r) (next_of m r) m) h else h);
            h = (if next_of (h_mem h) r \<noteq> 0 then upd_mem (\<lambda>m. set_prev (next_of m r) (prev_of m r) m) h else h);
            h = (if h_root h = r then h\<lparr>h_root := next_of (h_mem h) r\<rparr> else h);
            h = (if h_best h = r then h\<lparr>h_best := 0\<rparr> else h);
            h = h\<lparr>h_total_region_bytes := h_total_region_bytes h - ucast (r_size (h_mem h) r),
                  h_region_count := h_region_count h - 1\<rparr>
        in region_free r (ucast (r_pages (h_mem h) r)) h)"

section \<open>Placing a block\<close>

text \<open>The counters after an allocation of \<open>req\<close> bytes.\<close>

definition account :: "u64 \<Rightarrow> heap_state \<Rightarrow> heap_state" where
  "account req h =
     (let u = h_in_use h + req in
      h\<lparr>h_in_use := u, h_peak := (if u > h_peak h then u else h_peak h), h_live := h_live h + 1\<rparr>)"

text \<open>What every successful branch ends with: usage, counters and the payload's address.\<close>

definition placed :: "u64 \<Rightarrow> u64 \<Rightarrow> u64 \<Rightarrow> u64 \<Rightarrow> heap_state \<Rightarrow> u64 \<times> heap_state" where
  "placed r needed req b h =
     (b + HDR, account req (upd_mem (\<lambda>m. set_usage r (r_usage m r + ucast needed) m) h))"

definition block_end :: "memory \<Rightarrow> u64 \<Rightarrow> u64" where
  "block_end m b = b + HDR + ucast (b_size m b)"

text \<open>The first block that is followed, before the next one, by a gap of \<open>needed\<close> bytes.\<close>

partial_function (option) find_gap :: "memory \<Rightarrow> u64 \<Rightarrow> u64 \<Rightarrow> u64 option option" where
  "find_gap m needed cur =
     (if cur = 0 \<or> next_of m cur = 0 then Some None
      else if next_of m cur - block_end m cur \<ge> needed then Some (Some cur)
      else find_gap m needed (next_of m cur))"

definition place_block :: "u64 \<Rightarrow> u64 \<Rightarrow> u64 \<Rightarrow> heap_state \<Rightarrow> (u64 \<times> heap_state) option" where
  "place_block r payload req h =
     (let m = h_mem h; needed = HDR + payload; first = r_first m r; base = r + HDR in
      if first = 0 then
        Some (placed r needed req base (upd_mem (set_first r base \<circ> init_block base 0 0 r payload req) h))
      else if first - base \<ge> needed then
        Some (placed r needed req base
          (upd_mem (set_first r base \<circ> set_prev first base \<circ> init_block base 0 first r payload req) h))
      else case find_gap m needed first of None \<Rightarrow> None
      | Some (Some cur) \<Rightarrow>
          let b = block_end m cur; nx = next_of m cur in
          Some (placed r needed req b (upd_mem (set_next cur b \<circ> set_prev nx b \<circ> init_block b cur nx r payload req) h))
      | Some None \<Rightarrow>
          (case last_of m first of None \<Rightarrow> None
           | Some lst \<Rightarrow>
               let b = block_end m lst in
               if r + ucast (r_size m r) - b \<ge> needed
               then Some (placed r needed req b (upd_mem (set_next lst b \<circ> init_block b lst 0 r payload req) h))
               else Some (0, h)))"

section \<open>Interface\<close>

definition heap_init :: "heap_state \<Rightarrow> heap_state" where
  "heap_init h =
     (if h_init h then h
      else h\<lparr>h_root := 0, h_best := 0, h_total_region_bytes := 0, h_in_use := 0, h_peak := 0,
             h_region_count := 0, h_live := 0, h_init := True\<rparr>)"

partial_function (option) try_regions :: "u64 \<Rightarrow> u64 \<Rightarrow> u64 \<Rightarrow> heap_state \<Rightarrow> (u64 \<times> heap_state) option" where
  "try_regions r payload req h =
     (if r = 0 then Some (0, h)
      else if r = h_best h then try_regions (next_of (h_mem h) r) payload req h
      else case place_block r payload req h of None \<Rightarrow> None
      | Some (p, h) \<Rightarrow>
          if p \<noteq> 0 then map_option (\<lambda>h. (p, h)) (refresh_best_hint h)
          else try_regions (next_of (h_mem h) r) payload req h)"

definition kmalloc :: "u64 \<Rightarrow> heap_state \<Rightarrow> (u64 \<times> heap_state) option" where
  "kmalloc n h =
     (if \<not> h_init h \<or> n = 0 then Some (0, h)
      else
        let payload = align_up n ALIGNMENT in
        if payload > 0xFFFFFFFF then Some (0, h)
        else case (if h_best h \<noteq> 0 then place_block (h_best h) payload n h else Some (0, h)) of None \<Rightarrow> None
        | Some (p, h) \<Rightarrow>
            if p \<noteq> 0 then Some (p, h)
            else case try_regions (h_root h) payload n h of None \<Rightarrow> None
            | Some (p, h) \<Rightarrow>
                if p \<noteq> 0 then Some (p, h)
                else case create_region h payload of None \<Rightarrow> None
                | Some (r, h) \<Rightarrow>
                    if r = 0 then Some (0, h)
                    else case place_block r payload n h of None \<Rightarrow> None
                    | Some (p, h) \<Rightarrow>
                        if p = 0 then Some (0, destroy_region r h)
                        else map_option (\<lambda>h. (p, h)) (refresh_best_hint h))"

text \<open>\<open>memset\<close> and \<open>memcpy\<close> on memory.\<close>

definition kcalloc :: "u64 \<Rightarrow> u64 \<Rightarrow> heap_state \<Rightarrow> (u64 \<times> heap_state) option" where
  "kcalloc count n h =
     (if count = 0 \<or> n = 0 then Some (0, h)
      else if count > - 1 div n then Some (0, h)
      else case kmalloc (count * n) h of None \<Rightarrow> None
      | Some (p, h) \<Rightarrow>
          if p = 0 then Some (0, h)
          else Some (p, upd_mem (\<lambda>m. st m p (replicate (unat (count * n)) 0)) h))"

definition kfree :: "u64 \<Rightarrow> heap_state \<Rightarrow> heap_state option" where
  "kfree p h =
     (if p = 0 then Some h
      else
        let b = p - HDR in
        if b_magic (h_mem h) b \<noteq> BLOCK_MAGIC then Some h
        else
          let r = b_region (h_mem h) b;
              h = h\<lparr>h_in_use := h_in_use h - ucast (b_req (h_mem h) b), h_live := h_live h - 1\<rparr>;
              h = (if prev_of (h_mem h) b \<noteq> 0 then upd_mem (\<lambda>m. set_next (prev_of m b) (next_of m b) m) h
                   else upd_mem (\<lambda>m. set_first r (next_of m b) m) h);
              h = (if next_of (h_mem h) b \<noteq> 0 then upd_mem (\<lambda>m. set_prev (next_of m b) (prev_of m b) m) h else h);
              h = upd_mem (\<lambda>m. st32 m (b + 32) BLOCK_DEAD) h;
              h = upd_mem (\<lambda>m. set_usage r (r_usage m r - ucast (HDR + ucast (b_size m b))) m) h
          in if r_first (h_mem h) r = 0 then refresh_best_hint (destroy_region r h) else refresh_best_hint h)"

definition krealloc :: "u64 \<Rightarrow> u64 \<Rightarrow> heap_state \<Rightarrow> (u64 \<times> heap_state) option" where
  "krealloc p n h =
     (if p = 0 then kmalloc n h
      else if n = 0 then map_option (\<lambda>h. (0, h)) (kfree p h)
      else
        let b = p - HDR; req = ucast (b_req (h_mem h) b) in
        if b_magic (h_mem h) b \<noteq> BLOCK_MAGIC then Some (0, h)
        else if n \<le> req then
          Some (p, (upd_mem (\<lambda>m. st32 m (b + 40) (ucast n)) h)\<lparr>h_in_use := h_in_use h - req + n\<rparr>)
        else case kmalloc n h of None \<Rightarrow> None
        | Some (np, h) \<Rightarrow>
            if np = 0 then Some (0, h)
            else map_option (\<lambda>h. (np, h))
              (kfree p (upd_mem (\<lambda>m. st m np (ld m p (unat (b_req m b)))) h)))"

definition total_region_bytes :: "heap_state \<Rightarrow> u64" where "total_region_bytes h = h_total_region_bytes h"
definition current_in_use_bytes :: "heap_state \<Rightarrow> u64" where "current_in_use_bytes h = h_in_use h"
definition peak_in_use_bytes :: "heap_state \<Rightarrow> u64" where "peak_in_use_bytes h = h_peak h"
definition region_count :: "heap_state \<Rightarrow> u64" where "region_count h = h_region_count h"
definition allocation_count :: "heap_state \<Rightarrow> u64" where "allocation_count h = h_live h"

text \<open>What \<open>print_stats\<close> puts on the console.\<close>

definition heap_stats :: "heap_state \<Rightarrow> u8 list" where
  "heap_stats h =
     ascii ''Heap statistics:'' @ [10]
     @ ascii ''  Regions:       '' @ print_u64 (h_region_count h) @ ascii ''  ('' @ print_u64 (h_total_region_bytes h div 1024)
     @ ascii '' KB reserved from phys)'' @ [10]
     @ ascii ''  In use:        '' @ print_u64 (h_in_use h) @ ascii '' bytes ('' @ print_u64 (h_in_use h div 1024) @ ascii '' KB)'' @ [10]
     @ ascii ''  Peak in use:   '' @ print_u64 (h_peak h) @ ascii '' bytes'' @ [10]
     @ ascii ''  Live blocks:   '' @ print_u64 (h_live h) @ [10]"

declare best_loop.simps [code] last_of.simps [code] find_gap.simps [code] try_regions.simps [code]

end
