(* ===== verification/HeapMem.thy ===== *)
theory HeapMem
  imports Heap
begin

text \<open>
  Reading headers after writing them: a store at one address does not change a load apart from
  it; the fields of one header are independent; and everything 48 bytes away from a header is
  out of reach of its fields (\<open>hdr_only\<close>), which is the frame rule the list proofs use.
\<close>

named_theorems hdr_simps \<open>fields of a header after updates of the same header\<close>
named_theorems hdr_intros \<open>updates that stay inside one header\<close>

section \<open>Loads and stores\<close>

lemma length_ld [simp]: "length (ld m a n) = n"
  by (simp add: ld_def)

lemma length_le64 [simp]: "length (le64 v) = 8"
  by (simp add: le64_def)

lemma ld_cong: "(\<And>k. k < n \<Longrightarrow> m' (a + of_nat k) = m (a + of_nat k)) \<Longrightarrow> ld m' a n = ld m a n"
  by (simp add: ld_def)

lemma unat_diff_flip:
  assumes "a \<noteq> (b :: u64)" shows "unat (a - b) + unat (b - a) = 2 ^ 64"
proof -
  have s: "a - b + (b - a) = 0" by simp
  have "unat (a - b) \<noteq> 0" using assms by (simp add: unat_eq_zero)
  moreover have "unat (a - b + (b - a)) = 0" by (simp only: s unat_0)
  ultimately show ?thesis
    unfolding unat_plus_if' by (simp split: if_splits)
qed

lemma word_apart_offset:
  assumes "l \<le> unat (b - a :: u64)" "n \<le> unat (a - b)" "k < n"
  shows "l \<le> unat (b + of_nat k - a)"
proof -
  have "a \<noteq> b" using assms by auto
  note unat_diff_flip [OF this]
  then have "unat (b - a) + k < 2 ^ 64" using assms by linarith
  then have "unat (b - a + of_nat k) = unat (b - a) + k"
    by (simp add: unat_word_ariths unat_of_nat_eq)
  moreover have e: "b + of_nat k - a = b - a + of_nat k" by simp
  ultimately show ?thesis unfolding e using assms(1) by linarith
qed

lemma ld_st_apart:
  "length bs \<le> unat (b - a) \<Longrightarrow> n \<le> unat (a - b) \<Longrightarrow> ld (st m a bs) b n = ld m b n"
  by (rule ld_cong) (auto simp: st_def not_less dest: word_apart_offset [of _ b a])

lemma ld_st_same: "length bs = n \<Longrightarrow> n \<le> 2 ^ 64 \<Longrightarrow> ld (st m a bs) a n = bs"
  by (rule nth_equalityI) (simp_all add: ld_def st_def unat_of_nat_eq)

lemma rd64_le64: "rd64 (le64 v) 0 = v"
proof -
  have "rd64 (le64 v) 0 = ucast (ucast v :: u32) OR push_bit 32 (ucast (ucast (drop_bit 32 v) :: u32))"
    by (simp add: rd64_def le64_def rd_head rd_skip)
  also have "\<dots> = v"
  proof (rule bit_word_eqI)
    fix n assume "n < LENGTH(64)"
    then show "bit (ucast (ucast v :: u32) OR push_bit 32 (ucast (ucast (drop_bit 32 v) :: u32)) :: u64) n = bit v n"
      unfolding bit_or_iff bit_push_bit_iff bit_unsigned_iff bit_drop_bit_eq possible_bit_word
      by auto
  qed
  finally show ?thesis .
qed

lemma ld_st_fields [simp]: "ld64 (st64 m a v) a = v" "ld32 (st32 m a w) a = w"
  by (simp_all add: ld64_def st64_def ld32_def st32_def ld_st_same rd64_le64 rd32_le32)

lemma ld_st_fields_apart:
  "8 \<le> unat (b - a) \<Longrightarrow> 8 \<le> unat (a - b) \<Longrightarrow> ld64 (st64 m a v) b = ld64 m b"
  "4 \<le> unat (b - a) \<Longrightarrow> 8 \<le> unat (a - b) \<Longrightarrow> ld64 (st32 m a w) b = ld64 m b"
  "8 \<le> unat (b - a) \<Longrightarrow> 4 \<le> unat (a - b) \<Longrightarrow> ld32 (st64 m a v) b = ld32 m b"
  "4 \<le> unat (b - a) \<Longrightarrow> 4 \<le> unat (a - b) \<Longrightarrow> ld32 (st32 m a w) b = ld32 m b"
  by (simp_all add: ld64_def st64_def ld32_def st32_def ld_st_apart)

section \<open>The fields of one header\<close>

lemmas hdr_defs = prev_of_def next_of_def r_first_def r_pages_def r_size_def r_usage_def b_region_def
  b_magic_def b_size_def b_req_def set_prev_def set_next_def set_first_def set_usage_def

definition set_magic :: "u64 \<Rightarrow> u32 \<Rightarrow> memory \<Rightarrow> memory" where "set_magic b v m = st32 m (b + 32) v"
definition set_req :: "u64 \<Rightarrow> u32 \<Rightarrow> memory \<Rightarrow> memory" where "set_req b v m = st32 m (b + 40) v"

lemma set_prev_fields [hdr_simps]:
  "prev_of (set_prev a v m) a = v" "next_of (set_prev a v m) a = next_of m a"
  "b_region (set_prev a v m) a = b_region m a" "b_magic (set_prev a v m) a = b_magic m a"
  "b_size (set_prev a v m) a = b_size m a" "b_req (set_prev a v m) a = b_req m a"
  "r_first (set_prev a v m) a = r_first m a" "r_pages (set_prev a v m) a = r_pages m a"
  "r_size (set_prev a v m) a = r_size m a" "r_usage (set_prev a v m) a = r_usage m a"
  by (simp_all add: hdr_defs ld_st_fields_apart)

lemma set_next_fields [hdr_simps]:
  "prev_of (set_next a v m) a = prev_of m a" "next_of (set_next a v m) a = v"
  "b_region (set_next a v m) a = b_region m a" "b_magic (set_next a v m) a = b_magic m a"
  "b_size (set_next a v m) a = b_size m a" "b_req (set_next a v m) a = b_req m a"
  "r_first (set_next a v m) a = r_first m a" "r_pages (set_next a v m) a = r_pages m a"
  "r_size (set_next a v m) a = r_size m a" "r_usage (set_next a v m) a = r_usage m a"
  by (simp_all add: hdr_defs ld_st_fields_apart)

lemma set_first_fields [hdr_simps]:
  "prev_of (set_first a v m) a = prev_of m a" "next_of (set_first a v m) a = next_of m a"
  "r_first (set_first a v m) a = v" "r_pages (set_first a v m) a = r_pages m a"
  "r_size (set_first a v m) a = r_size m a" "r_usage (set_first a v m) a = r_usage m a"
  by (simp_all add: hdr_defs ld_st_fields_apart)

lemma set_usage_fields [hdr_simps]:
  "prev_of (set_usage a w m) a = prev_of m a" "next_of (set_usage a w m) a = next_of m a"
  "r_first (set_usage a w m) a = r_first m a" "r_pages (set_usage a w m) a = r_pages m a"
  "r_size (set_usage a w m) a = r_size m a" "r_usage (set_usage a w m) a = w"
  by (simp_all add: hdr_defs ld_st_fields_apart)

lemma set_magic_fields [hdr_simps]:
  "prev_of (set_magic a w m) a = prev_of m a" "next_of (set_magic a w m) a = next_of m a"
  "b_region (set_magic a w m) a = b_region m a" "b_magic (set_magic a w m) a = w"
  "b_size (set_magic a w m) a = b_size m a" "b_req (set_magic a w m) a = b_req m a"
  by (simp_all add: hdr_defs set_magic_def ld_st_fields_apart)

lemma set_req_fields [hdr_simps]:
  "prev_of (set_req a w m) a = prev_of m a" "next_of (set_req a w m) a = next_of m a"
  "b_region (set_req a w m) a = b_region m a" "b_magic (set_req a w m) a = b_magic m a"
  "b_size (set_req a w m) a = b_size m a" "b_req (set_req a w m) a = w"
  by (simp_all add: hdr_defs set_req_def ld_st_fields_apart)

lemma init_block_fields [hdr_simps]:
  "prev_of (init_block b pv nx r p q m) b = pv" "next_of (init_block b pv nx r p q m) b = nx"
  "b_region (init_block b pv nx r p q m) b = r" "b_magic (init_block b pv nx r p q m) b = BLOCK_MAGIC"
  "b_size (init_block b pv nx r p q m) b = ucast p" "b_req (init_block b pv nx r p q m) b = ucast q"
  by (simp_all add: hdr_defs init_block_def Let_def ld_st_fields_apart)

lemma init_region_fields [hdr_simps]:
  "prev_of (init_region r p m) r = 0" "next_of (init_region r p m) r = 0" "r_first (init_region r p m) r = 0"
  "r_pages (init_region r p m) r = ucast p" "r_size (init_region r p m) r = ucast (p * PAGE_SIZE)"
  "r_usage (init_region r p m) r = 48"
  by (simp_all add: hdr_defs init_region_def Let_def ld_st_fields_apart)

section \<open>The frame of a header\<close>

text \<open>Memory that differs at most in the 48 bytes from \<open>a\<close>.\<close>

definition hdr_only :: "u64 \<Rightarrow> memory \<Rightarrow> memory \<Rightarrow> bool" where
  "hdr_only a m m' \<longleftrightarrow> (\<forall>x. 48 \<le> unat (x - a) \<longrightarrow> m' x = m x)"

definition far :: "u64 \<Rightarrow> u64 \<Rightarrow> bool" where
  "far a b \<longleftrightarrow> 48 \<le> unat (a - b) \<and> 48 \<le> unat (b - a)"

lemma far_sym: "far a b \<longleftrightarrow> far b a"
  by (auto simp: far_def)

lemma far_neq: "far a b \<Longrightarrow> a \<noteq> b"
  by (auto simp: far_def)

lemma far_of_le:
  assumes "unat a + 48 \<le> unat b" "unat b + 48 \<le> 2 ^ 64" shows "far a b" "far b a"
proof -
  have 1: "unat (b - a) = unat b - unat a"
    using assms by (intro unat_sub_no_underflow) (simp add: word_le_nat_alt)
  have "b \<noteq> a" using assms by auto
  note unat_diff_flip [OF this]
  with 1 assms show "far a b" "far b a" unfolding far_def by linarith+
qed

lemma hdr_only_refl [hdr_intros]: "hdr_only a m m"
  by (simp add: hdr_only_def)

lemma hdr_only_trans: "hdr_only a m m' \<Longrightarrow> hdr_only a m' m'' \<Longrightarrow> hdr_only a m m''"
  by (simp add: hdr_only_def)

lemma hdr_only_st:
  assumes "unat d + length bs \<le> 48" shows "hdr_only a m (st m (a + d) bs)"
  unfolding hdr_only_def
proof (intro allI impI)
  fix x assume x: "48 \<le> unat (x - a)"
  then have "unat (x - a - d) = unat (x - a) - unat d"
    using assms by (intro unat_sub_no_underflow) (simp add: word_le_nat_alt)
  then have "length bs \<le> unat (x - (a + d))" using x assms by (simp add: diff_diff_eq)
  then show "st m (a + d) bs x = m x" by (simp add: st_def)
qed

lemma hdr_only_st_fields:
  "unat d + 8 \<le> 48 \<Longrightarrow> hdr_only a m (st64 m (a + d) v)"
  "unat d + 4 \<le> 48 \<Longrightarrow> hdr_only a m (st32 m (a + d) w)"
  "hdr_only a m (st64 m a v)"
  using hdr_only_st [of 0 "le64 v" a m] by (simp_all add: st64_def st32_def hdr_only_st)

lemma hdr_only_steps:
  "hdr_only a m m' \<Longrightarrow> unat d + 8 \<le> 48 \<Longrightarrow> hdr_only a m (st64 m' (a + d) v)"
  "hdr_only a m m' \<Longrightarrow> unat d + 4 \<le> 48 \<Longrightarrow> hdr_only a m (st32 m' (a + d) w)"
  "hdr_only a m m' \<Longrightarrow> hdr_only a m (st64 m' a v)"
  using hdr_only_trans hdr_only_st_fields by blast+

lemma hdr_only_sets [hdr_intros]:
  "hdr_only a m (set_prev a v m)" "hdr_only a m (set_next a v m)" "hdr_only a m (set_first a v m)"
  "hdr_only a m (set_usage a w m)" "hdr_only a m (set_magic a w m)" "hdr_only a m (set_req a w m)"
  by (simp_all add: hdr_defs set_magic_def set_req_def hdr_only_st_fields)

lemma hdr_only_inits [hdr_intros]:
  "hdr_only b m (init_block b pv nx r p q m)" "hdr_only r m (init_region r pg m)"
  by (simp_all add: init_block_def init_region_def hdr_only_steps hdr_only_refl)

lemma hdr_only_ld:
  assumes "hdr_only a m m'" "far a b" "unat d + n \<le> 48"
  shows "ld m' (b + d) n = ld m (b + d) n"
proof (rule ld_cong)
  fix k assume "k < n"
  have "48 \<le> unat (b + d + of_nat k - a)"
  proof -
    have "of_nat (unat d) = d" by simp
    then have e: "b + d + of_nat k - a = b + of_nat (unat d + k) - a" by simp
    have "48 \<le> unat (b + of_nat (unat d + k) - a)"
      using assms \<open>k < n\<close> by (intro word_apart_offset [where n = 48]) (auto simp: far_def)
    then show ?thesis by (simp only: e)
  qed
  with assms(1) show "m' (b + d + of_nat k) = m (b + d + of_nat k)" by (simp add: hdr_only_def)
qed

lemma hdr_only_fields:
  assumes "hdr_only a m m'" "far a b"
  shows "prev_of m' b = prev_of m b" "next_of m' b = next_of m b" "b_region m' b = b_region m b"
    "b_magic m' b = b_magic m b" "b_size m' b = b_size m b" "b_req m' b = b_req m b"
    "r_first m' b = r_first m b" "r_pages m' b = r_pages m b" "r_size m' b = r_size m b"
    "r_usage m' b = r_usage m b"
  using hdr_only_ld [OF assms, of 0]
  by (simp_all add: hdr_defs ld64_def ld32_def hdr_only_ld [OF assms])

end
