(* ===== verification/HeapRegion.thy ===== *)
theory HeapRegion
  imports HeapMem
begin

text \<open>
  One region of the heap: the block headers form a doubly linked list in address order, the
  blocks are 16-byte aligned, do not overlap and lie inside the region, and the usage counter is
  their sum (\<open>region_ok\<close>).  Placing a block inserts one node into a gap and unlinking removes
  one; both keep the invariant and write nothing but headers (\<open>touch\<close>).
\<close>

section \<open>The list of blocks\<close>

lemmas frame_simps =
  hdr_only_fields [OF hdr_only_sets(1)] hdr_only_fields [OF hdr_only_sets(2)]
  hdr_only_fields [OF hdr_only_sets(3)] hdr_only_fields [OF hdr_only_sets(4)]
  hdr_only_fields [OF hdr_only_sets(5)] hdr_only_fields [OF hdr_only_sets(6)]
  hdr_only_fields [OF hdr_only_inits(1)] hdr_only_fields [OF hdr_only_inits(2)]

definition node :: "memory \<Rightarrow> u64 \<Rightarrow> u64 \<Rightarrow> u64 \<Rightarrow> u64 \<Rightarrow> bool" where
  "node m r pv b nx \<longleftrightarrow> prev_of m b = pv \<and> next_of m b = nx \<and> b_region m b = r \<and> b_magic m b = BLOCK_MAGIC"

definition head0 :: "u64 list \<Rightarrow> u64 \<Rightarrow> u64" where
  "head0 bs nx = hd (bs @ [nx])"

lemma head0_simps [simp]: "head0 [] nx = nx" "head0 (b # bs) nx = b"
  by (simp_all add: head0_def)

lemma head0_append [simp]: "head0 (xs @ ys) nx = head0 xs (head0 ys nx)"
  by (cases xs) simp_all

fun seg :: "memory \<Rightarrow> u64 \<Rightarrow> u64 \<Rightarrow> u64 list \<Rightarrow> u64 \<Rightarrow> bool" where
  "seg m r pv [] nx = True"
| "seg m r pv (b # bs) nx = (node m r pv b (head0 bs nx) \<and> seg m r b bs nx)"

lemma seg_append: "seg m r pv (xs @ ys) nx \<longleftrightarrow> seg m r pv xs (head0 ys nx) \<and> seg m r (last (pv # xs)) ys nx"
  by (induction xs arbitrary: pv) simp_all

lemma seg_cong:
  assumes "\<And>b. b \<in> set bs \<Longrightarrow> prev_of m' b = prev_of m b \<and> next_of m' b = next_of m b
    \<and> b_region m' b = b_region m b \<and> b_magic m' b = b_magic m b"
  shows "seg m' r pv bs nx = seg m r pv bs nx"
  using assms by (induction bs arbitrary: pv) (simp_all add: node_def)

lemma seg_magic: "seg m r pv bs nx \<Longrightarrow> b \<in> set bs \<Longrightarrow> b_magic m b = BLOCK_MAGIC \<and> b_region m b = r"
  by (induction bs arbitrary: pv) (auto simp: node_def)

section \<open>The blocks in the region\<close>

definition block_top :: "memory \<Rightarrow> u64 \<Rightarrow> nat" where
  "block_top m b = unat b + 48 + unat (b_size m b)"

fun spaced :: "memory \<Rightarrow> nat \<Rightarrow> u64 list \<Rightarrow> nat \<Rightarrow> bool" where
  "spaced m lo [] hi = (lo \<le> hi)"
| "spaced m lo (b # bs) hi =
     (lo \<le> unat b \<and> 16 dvd unat b \<and> 16 dvd unat (b_size m b) \<and> b_req m b \<le> b_size m b
      \<and> spaced m (block_top m b) bs hi)"

fun end_of :: "memory \<Rightarrow> nat \<Rightarrow> u64 list \<Rightarrow> nat" where
  "end_of m lo [] = lo"
| "end_of m lo (b # bs) = end_of m (block_top m b) bs"

lemma end_of_append [simp]: "end_of m lo (xs @ ys) = end_of m (end_of m lo xs) ys"
  by (induction xs arbitrary: lo) simp_all

lemma end_of_last: "xs \<noteq> [] \<Longrightarrow> end_of m lo xs = block_top m (last xs)"
  by (induction xs arbitrary: lo) auto

lemma spaced_append:
  "spaced m lo (xs @ ys) hi \<longleftrightarrow> spaced m lo xs (end_of m lo xs) \<and> spaced m (end_of m lo xs) ys hi"
  by (induction xs arbitrary: lo) auto

lemma spaced_le: "spaced m lo bs hi \<Longrightarrow> lo \<le> hi"
  by (induction bs arbitrary: lo) (force simp: block_top_def)+

lemma spaced_bounds: "spaced m lo bs hi \<Longrightarrow> b \<in> set bs \<Longrightarrow> lo \<le> unat b \<and> block_top m b \<le> hi
    \<and> 16 dvd unat b \<and> 16 dvd unat (b_size m b) \<and> b_req m b \<le> b_size m b"
proof (induction bs arbitrary: lo)
  case (Cons c cs)
  with spaced_le [of m "block_top m c" cs hi] show ?case by (fastforce simp: block_top_def)
qed simp

lemma spaced_mono: "spaced m lo bs hi \<Longrightarrow> lo' \<le> lo \<Longrightarrow> spaced m lo' bs hi"
  by (cases bs) auto

lemma spaced_cong:
  assumes "\<And>b. b \<in> set bs \<Longrightarrow> b_size m' b = b_size m b \<and> b_req m' b = b_req m b"
  shows "spaced m' lo bs hi = spaced m lo bs hi"
  using assms by (induction bs arbitrary: lo) (simp_all add: block_top_def)

lemma end_of_cong:
  assumes "\<And>b. b \<in> set bs \<Longrightarrow> b_size m' b = b_size m b"
  shows "end_of m' lo bs = end_of m lo bs"
  using assms by (induction bs arbitrary: lo) (simp_all add: block_top_def)

lemma spaced_far:
  assumes "spaced m lo bs hi" "hi \<le> 2 ^ 64" shows "sorted_wrt far bs"
  using assms(1)
proof (induction bs arbitrary: lo)
  case (Cons b bs)
  have "far b c" if "c \<in> set bs" for c
  proof -
    have "block_top m b \<le> unat c" "block_top m c \<le> hi"
      using spaced_bounds [of m "block_top m b" bs hi c] Cons.prems that by auto
    with assms(2) show ?thesis by (intro far_of_le) (auto simp: block_top_def)
  qed
  with Cons show ?case by auto
qed simp

definition used_bytes :: "memory \<Rightarrow> u64 list \<Rightarrow> nat" where
  "used_bytes m bs = 48 + (\<Sum>b\<leftarrow>bs. 48 + unat (b_size m b))"

lemma used_bytes_append [simp]:
  "used_bytes m (xs @ b # ys) = used_bytes m (xs @ ys) + 48 + unat (b_size m b)"
  by (simp add: used_bytes_def)

lemma used_bytes_cong:
  "(\<And>b. b \<in> set bs \<Longrightarrow> b_size m' b = b_size m b) \<Longrightarrow> used_bytes m' bs = used_bytes m bs"
  by (simp add: used_bytes_def cong: map_cong)

lemma spaced_used: "spaced m lo bs hi \<Longrightarrow> lo + used_bytes m bs \<le> hi + 48"
  by (induction bs arbitrary: lo) (force simp: used_bytes_def block_top_def)+

definition region_ok :: "memory \<Rightarrow> u64 \<Rightarrow> u64 list \<Rightarrow> bool" where
  "region_ok m r bs \<longleftrightarrow> 16 dvd unat r \<and> unat r + unat (r_size m r) < 2 ^ 64
     \<and> r_first m r = head0 bs 0 \<and> seg m r 0 bs 0
     \<and> spaced m (unat r + 48) bs (unat r + unat (r_size m r))
     \<and> unat (r_usage m r) = used_bytes m bs"

lemma region_okD:
  assumes "region_ok m r bs"
  shows "16 dvd unat r" "unat r + unat (r_size m r) < 2 ^ 64" "r_first m r = head0 bs 0" "seg m r 0 bs 0"
    "spaced m (unat r + 48) bs (unat r + unat (r_size m r))" "unat (r_usage m r) = used_bytes m bs"
  using assms unfolding region_ok_def by blast+

lemma region_ok_far:
  assumes "region_ok m r bs" shows "sorted_wrt far (r # bs)"
proof -
  note ok = region_okD [OF assms]
  have "far r b" if "b \<in> set bs" for b
    using spaced_bounds [OF ok(5) that] ok(2) by (intro far_of_le) (auto simp: block_top_def)
  with spaced_far [OF ok(5)] ok(2) show ?thesis by auto
qed

lemma region_ok_nonzero: "region_ok m r bs \<Longrightarrow> 0 \<notin> set bs"
  using spaced_bounds [of m "unat r + 48" bs "unat r + unat (r_size m r)" 0] by (auto dest: region_okD)

section \<open>The frame\<close>

text \<open>Memory that differs at most in the headers at \<open>S\<close>.\<close>

definition touch :: "u64 set \<Rightarrow> memory \<Rightarrow> memory \<Rightarrow> bool" where
  "touch S m m' \<longleftrightarrow> (\<forall>x. (\<forall>a \<in> S. 48 \<le> unat (x - a)) \<longrightarrow> m' x = m x)"

lemma touch_refl [simp]: "touch S m m"
  by (simp add: touch_def)

lemma touch_step: "touch S m m' \<Longrightarrow> hdr_only a m' m'' \<Longrightarrow> a \<in> S \<Longrightarrow> touch S m m''"
  by (auto simp: touch_def hdr_only_def)

lemma touch_mono: "touch S m m' \<Longrightarrow> S \<subseteq> T \<Longrightarrow> touch T m m'"
  by (auto simp: touch_def)

lemma touch_trans: "touch S m m' \<Longrightarrow> touch S m' m'' \<Longrightarrow> touch S m m''"
  by (auto simp: touch_def)

lemma outside_hdr: "unat x < unat a \<or> unat a + 48 \<le> unat x \<Longrightarrow> unat a + 48 \<le> 2 ^ 64 \<Longrightarrow> 48 \<le> unat (x - (a :: u64))"
proof -
  assume o: "unat x < unat a \<or> unat a + 48 \<le> unat x" and t: "unat a + 48 \<le> 2 ^ 64"
  show ?thesis
  proof (cases "unat x < unat a")
    case True
    then have "unat (a - x) = unat a - unat x"
      by (intro unat_sub_no_underflow) (simp add: word_le_nat_alt)
    moreover have "x \<noteq> a" using True by auto
    ultimately show ?thesis using unat_diff_flip [of x a] t True by linarith
  next
    case False
    then have "unat (x - a) = unat x - unat a" using o
      by (intro unat_sub_no_underflow) (simp add: word_le_nat_alt)
    with False o show ?thesis by linarith
  qed
qed

section \<open>Inserting a node\<close>

lemma far_in_list: "sorted_wrt far l \<Longrightarrow> x \<in> set l \<Longrightarrow> y \<in> set l \<Longrightarrow> x = y \<or> far x y"
  by (induction l) (auto intro: far_sym [THEN iffD1])

text \<open>Linking changes no other field, whether or not it is the same header.\<close>

lemma relink_fields:
  assumes "a = c \<or> far a c"
  shows "b_size (set_prev a v m) c = b_size m c" "b_req (set_prev a v m) c = b_req m c"
    "b_region (set_prev a v m) c = b_region m c" "b_magic (set_prev a v m) c = b_magic m c"
    "next_of (set_prev a v m) c = next_of m c"
    "b_size (set_next a v m) c = b_size m c" "b_req (set_next a v m) c = b_req m c"
    "b_region (set_next a v m) c = b_region m c" "b_magic (set_next a v m) c = b_magic m c"
    "prev_of (set_next a v m) c = prev_of m c"
  using assms by (auto simp: hdr_simps frame_simps)

definition insert_node :: "u64 \<Rightarrow> u64 \<Rightarrow> u64 \<Rightarrow> u64 \<Rightarrow> u64 \<Rightarrow> u64 \<Rightarrow> memory \<Rightarrow> memory" where
  "insert_node pv b nx r payload req m =
     (let m = init_block b pv nx r payload req m;
          m = (if nx = 0 then m else set_prev nx b m);
          m = (if pv = 0 then set_first r b m else set_next pv b m)
      in set_usage r (r_usage m r + ucast (48 + payload)) m)"

lemma end_of_dvd: "spaced m lo xs hi \<Longrightarrow> 16 dvd lo \<Longrightarrow> 16 dvd end_of m lo xs"
  by (induction xs arbitrary: lo) (simp_all add: block_top_def)

lemma end_of_ge: "spaced m lo xs hi \<Longrightarrow> lo \<le> end_of m lo xs"
  using spaced_append [of m lo xs "[]" hi] spaced_le [of m lo xs "end_of m lo xs"] by simp

lemma insert_far:
  assumes ok: "region_ok m r (xs @ ys)" and b: "unat b = end_of m (unat r + 48) xs"
    and room: "unat b + 48 \<le> (if ys = [] then unat r + unat (r_size m r) else unat (hd ys))"
  shows "sorted_wrt far (r # xs @ b # ys)"
proof -
  note d = region_okD [OF ok]
  from d(5) have sp: "spaced m (unat r + 48) xs (unat b)" "spaced m (unat b) ys (unat r + unat (r_size m r))"
    by (simp_all add: spaced_append b)
  have top: "unat b + 48 \<le> 2 ^ 64"
    using room d(2) spaced_bounds [OF sp(2), of "hd ys"] by (auto simp: block_top_def split: if_splits)
  have "far c b" if "c \<in> set (r # xs)" for c
    using that spaced_bounds [OF sp(1), of c] end_of_ge [OF d(5)[unfolded spaced_append, THEN conjunct1]] top b
    by (intro far_of_le) (auto simp: block_top_def)
  moreover have "far b c" if c: "c \<in> set ys" for c
  proof -
    obtain y ys' where ys: "ys = y # ys'" using c by (cases ys) auto
    have "unat y \<le> unat c"
      using c sp(2) spaced_bounds [of m "block_top m y" ys' "unat r + unat (r_size m r)" c]
      by (auto simp: ys block_top_def)
    then show ?thesis
      using room spaced_bounds [OF sp(2) c] d(2) by (intro far_of_le) (auto simp: ys block_top_def)
  qed
  ultimately show ?thesis
    using region_ok_far [OF ok] by (auto simp: sorted_wrt_append intro: far_sym [THEN iffD1])
qed

lemma insert_node_fields:
  assumes far: "sorted_wrt far (r # xs @ b # ys)" and nz: "0 \<notin> set (xs @ ys)"
    and pv: "pv = last (0 # xs)" and nx: "nx = head0 ys 0"
  shows "c \<in> set (xs @ ys) \<Longrightarrow> b_size (insert_node pv b nx r p q m) c = b_size m c"
    "c \<in> set (xs @ ys) \<Longrightarrow> b_req (insert_node pv b nx r p q m) c = b_req m c"
    "b_size (insert_node pv b nx r p q m) b = ucast p"
    "b_req (insert_node pv b nx r p q m) b = ucast q"
    "r_size (insert_node pv b nx r p q m) r = r_size m r"
    "r_pages (insert_node pv b nx r p q m) r = r_pages m r"
    "prev_of (insert_node pv b nx r p q m) r = prev_of m r"
    "next_of (insert_node pv b nx r p q m) r = next_of m r"
    "r_usage (insert_node pv b nx r p q m) r = r_usage m r + ucast (48 + p)"
    "r_first (insert_node pv b nx r p q m) r = (if xs = [] then b else r_first m r)"
    "touch (set (r # b # xs @ ys)) m (insert_node pv b nx r p q m)"
proof -
  have pvnz: "xs \<noteq> [] \<Longrightarrow> pv \<noteq> 0 \<and> pv \<in> set xs"
  proof -
    assume "xs \<noteq> []"
    then have "last xs \<in> set xs" "pv = last xs" by (simp_all add: pv)
    with nz show ?thesis by (metis Un_iff set_append)
  qed
  have nxnz: "ys \<noteq> [] \<Longrightarrow> nx \<noteq> 0 \<and> nx \<in> set ys" using nz nx by (cases ys) auto
  have z: "xs = [] \<Longrightarrow> pv = 0" "ys = [] \<Longrightarrow> nx = 0" using pv nx by simp_all
  have fr: "far r c" "far c r" if "c \<in> set (b # xs @ ys)" for c
    using far that by (auto simp: sorted_wrt_append intro: far_sym [THEN iffD1])
  have fb: "far b c" "far c b" if "c \<in> set (xs @ ys)" for c
    using far that by (auto simp: sorted_wrt_append intro: far_sym [THEN iffD1])
  have fl: "x = y \<or> far x y" if "x \<in> set (xs @ ys)" "y \<in> set (xs @ ys)" for x y
    by (rule far_in_list [OF far]) (use that in auto)
  define m1 where "m1 = init_block b pv nx r p q m"
  define m2 where "m2 = (if nx = 0 then m1 else set_prev nx b m1)"
  define m3 where "m3 = (if pv = 0 then set_first r b m2 else set_next pv b m2)"
  have e: "insert_node pv b nx r p q m = set_usage r (r_usage m3 r + ucast (48 + p)) m3"
    by (simp add: insert_node_def Let_def m1_def m2_def m3_def)
  note fs = hdr_simps frame_simps relink_fields
  show "touch (set (r # b # xs @ ys)) m (insert_node pv b nx r p q m)"
  proof -
    let ?S = "set (r # b # xs @ ys)"
    have "touch ?S m m1" unfolding m1_def by (rule touch_step [OF touch_refl hdr_only_inits(1)]) simp
    then have "touch ?S m m2" unfolding m2_def using nxnz z
      by (auto intro!: touch_step [OF _ hdr_only_sets(1)])
    then have "touch ?S m m3" unfolding m3_def using pvnz z
      by (auto intro: touch_step [OF _ hdr_only_sets(2)] touch_step [OF _ hdr_only_sets(3)])
    then show ?thesis unfolding e by (rule touch_step [OF _ hdr_only_sets(4)]) simp
  qed
  have nxc: "nx = 0 \<or> nx \<in> set (xs @ ys)" and pvc: "pv = 0 \<or> pv \<in> set (xs @ ys)"
    using pvnz nxnz z by auto
  have "b_size m3 c = b_size m c \<and> b_req m3 c = b_req m c" if "c \<in> set (xs @ ys)" for c
    using fl [OF _ that] fb [OF that] fr [of c] that nxc pvc
    unfolding m3_def m2_def m1_def by (auto simp: fs)
  with fr show "c \<in> set (xs @ ys) \<Longrightarrow> b_size (insert_node pv b nx r p q m) c = b_size m c"
    "c \<in> set (xs @ ys) \<Longrightarrow> b_req (insert_node pv b nx r p q m) c = b_req m c" for c
    unfolding e by (auto simp: fs)
  have "b_size m3 b = ucast p \<and> b_req m3 b = ucast q"
    using fb nxc pvc fr [of b] unfolding m3_def m2_def m1_def by (auto simp: fs)
  with fr [of b] show "b_size (insert_node pv b nx r p q m) b = ucast p"
    "b_req (insert_node pv b nx r p q m) b = ucast q"
    unfolding e by (simp_all add: fs)
  have "r_size m3 r = r_size m r \<and> r_pages m3 r = r_pages m r \<and> prev_of m3 r = prev_of m r
     \<and> next_of m3 r = next_of m r \<and> r_usage m3 r = r_usage m r \<and> r_first m3 r = (if xs = [] then b else r_first m r)"
    using fr [of b] fr [of nx] fr [of pv] nxc pvc pvnz z unfolding m3_def m2_def m1_def by (auto simp: fs)
  then show "r_size (insert_node pv b nx r p q m) r = r_size m r"
    "r_pages (insert_node pv b nx r p q m) r = r_pages m r"
    "prev_of (insert_node pv b nx r p q m) r = prev_of m r"
    "next_of (insert_node pv b nx r p q m) r = next_of m r"
    "r_first (insert_node pv b nx r p q m) r = (if xs = [] then b else r_first m r)"
    "r_usage (insert_node pv b nx r p q m) r = r_usage m r + ucast (48 + p)"
    unfolding e by (simp_all add: fs)
qed

lemma insert_node_seg:
  assumes far: "sorted_wrt far (r # xs @ b # ys)" and nz: "0 \<notin> set (xs @ ys)"
    and pv: "pv = last (0 # xs)" and nx: "nx = head0 ys 0" and sg: "seg m r 0 (xs @ ys) 0" and "b \<noteq> 0"
  shows "seg (insert_node pv b nx r p q m) r 0 (xs @ b # ys) 0"
proof -
  have fr: "far r c" "far c r" if "c \<in> set (b # xs @ ys)" for c
    using far that by (auto simp: sorted_wrt_append intro: far_sym [THEN iffD1])
  have fb: "far b c" "far c b" if "c \<in> set (xs @ ys)" for c
    using far that by (auto simp: sorted_wrt_append intro: far_sym [THEN iffD1])
  have fl: "x = y \<or> far x y" if "x \<in> set (xs @ ys)" "y \<in> set (xs @ ys)" for x y
    by (rule far_in_list [OF far]) (use that in auto)
  note fs = hdr_simps frame_simps relink_fields
  define m1 where "m1 = init_block b pv nx r p q m"
  define m2 where "m2 = (if nx = 0 then m1 else set_prev nx b m1)"
  define m3 where "m3 = (if pv = 0 then set_first r b m2 else set_next pv b m2)"
  have e: "insert_node pv b nx r p q m = set_usage r (r_usage m3 r + ucast (48 + p)) m3"
    by (simp add: insert_node_def Let_def m1_def m2_def m3_def)
  have s1: "seg m1 r 0 xs (head0 ys 0)" "seg m1 r (last (0 # xs)) ys 0"
    using sg unfolding seg_append m1_def
    by (subst seg_cong; use fb in \<open>auto simp: fs\<close>)+
  have s2: "node m2 r pv b nx" "seg m2 r 0 xs (head0 ys 0)" "seg m2 r b ys 0"
  proof -
    show "node m2 r pv b nx"
      using fb [of nx] nz nx unfolding m2_def m1_def by (cases ys) (auto simp: node_def fs)
    have "far nx c" if "c \<in> set xs" "ys \<noteq> []" for c
      using far that far_sym [of nx c] by (cases ys) (auto simp: nx sorted_wrt_append)
    then have "seg m2 r 0 xs (head0 ys 0) = seg m1 r 0 xs (head0 ys 0)"
      unfolding m2_def by (intro seg_cong, cases ys) (auto simp: fs nx)
    with s1(1) show "seg m2 r 0 xs (head0 ys 0)" by simp
    show "seg m2 r b ys 0"
    proof (cases ys)
      case (Cons y ys')
      with s1(2) have "node m1 r (last (0 # xs)) y (head0 ys' 0)" "seg m1 r y ys' 0" by simp_all
      moreover have "y \<noteq> 0" "m2 = set_prev y b m1" using nz by (auto simp: m2_def nx Cons)
      moreover have "seg m2 r y ys' 0 = seg m1 r y ys' 0"
        using far \<open>m2 = set_prev y b m1\<close> by (intro seg_cong) (auto simp: Cons fs sorted_wrt_append)
      ultimately show ?thesis by (simp add: Cons node_def fs)
    qed simp
  qed
  have s3: "seg m3 r 0 xs b" "node m3 r pv b nx" "seg m3 r b ys 0"
  proof -
    have pvx: "xs \<noteq> [] \<Longrightarrow> pv \<in> set xs \<and> pv \<noteq> 0"
      using nz last_in_set [of xs] by (metis Un_iff last.simps pv set_append)
    have f3: "far pv c" if "c \<in> set (b # ys)" "xs \<noteq> []" for c
      using far pvx that by (auto simp: sorted_wrt_append)
    show "node m3 r pv b nx"
      using s2(1) fr [of b] f3 [of b] pvx unfolding m3_def by (cases "xs = []") (auto simp: node_def fs pv)
    have "seg m3 r b ys 0 = seg m2 r b ys 0"
      using fr f3 pvx unfolding m3_def by (intro seg_cong, cases "xs = []") (auto simp: fs pv)
    with s2(3) show "seg m3 r b ys 0" by simp
    show "seg m3 r 0 xs b"
    proof (cases xs rule: rev_cases)
      case (snoc xs' x)
      with s2(2) have "seg m2 r 0 xs' x" "node m2 r (last (0 # xs')) x (head0 ys 0)"
        by (simp_all add: seg_append)
      moreover have "m3 = set_next x b m2" using pvx snoc pv by (simp add: m3_def)
      moreover have "far x c" if "c \<in> set xs'" for c
        using far that far_sym [of x c] by (simp add: snoc sorted_wrt_append)
      then have "seg m3 r 0 xs' x = seg m2 r 0 xs' x"
        using \<open>m3 = set_next x b m2\<close> by (intro seg_cong) (auto simp: fs)
      ultimately show ?thesis by (simp add: snoc seg_append node_def fs)
    qed simp
  qed
  have "seg (set_usage r u m3) r 0 (xs @ b # ys) 0 = seg m3 r 0 (xs @ b # ys) 0" for u
    using fr by (intro seg_cong) (auto simp: fs)
  moreover have "seg m3 r 0 (xs @ b # ys) 0" using s3 by (simp add: seg_append pv nx)
  ultimately show ?thesis by (simp only: e)
qed

lemma word_le_unat32: "(p :: u64) \<le> 0xFFFFFFFF \<Longrightarrow> unat (ucast p :: u32) = unat p"
  by (simp add: unsigned_ucast_eq word_le_nat_alt take_bit_nat_eq_self)

lemma insert_node_ok:
  assumes ok: "region_ok m r (xs @ ys)" and b: "unat b = end_of m (unat r + 48) xs"
    and room: "unat b + 48 + unat p \<le> (if ys = [] then unat r + unat (r_size m r) else unat (hd ys))"
    and p: "16 dvd unat p" "p \<le> 0xFFFFFFFF" "q \<le> p"
    and pv: "pv = last (0 # xs)" and nx: "nx = head0 ys 0"
  shows "region_ok (insert_node pv b nx r p q m) r (xs @ b # ys)"
proof -
  let ?m = "insert_node pv b nx r p q m"
  note d = region_okD [OF ok]
  have far: "sorted_wrt far (r # xs @ b # ys)" by (rule insert_far [OF ok b]) (use room in \<open>simp split: if_splits\<close>)
  have nz: "0 \<notin> set (xs @ ys)" by (rule region_ok_nonzero [OF ok])
  note f = insert_node_fields [OF far nz pv nx, where m = m and p = p and q = q]
  have up: "unat (ucast p :: u32) = unat p" and uq: "unat (ucast q :: u32) = unat q"
    using p by (simp_all add: word_le_unat32)
  have sb: "b_size ?m b = ucast p" "b_req ?m b = ucast q" by (simp_all add: f)
  have sp: "spaced m (unat r + 48) xs (unat b)" "spaced m (unat b) ys (unat r + unat (r_size m r))"
    using d(5) by (simp_all add: spaced_append b)
  have "b \<noteq> 0" using spaced_le [OF sp(1)] by auto
  have spn: "spaced ?m (unat r + 48) (xs @ b # ys) (unat r + unat (r_size ?m r))"
  proof -
    have "spaced ?m (unat r + 48) xs (unat b)" using sp(1) by (subst spaced_cong) (simp_all add: f)
    moreover have "spaced ?m (unat b + 48 + unat p) ys (unat r + unat (r_size m r))"
      using sp(2) room by (subst spaced_cong [where m = m], simp add: f, cases ys) simp_all
    moreover have "16 dvd unat b"
      unfolding b by (rule end_of_dvd [OF sp(1)]) (use d(1) in simp)
    moreover have "end_of ?m (unat r + 48) xs = unat b"
      unfolding b by (rule end_of_cong) (simp add: f)
    moreover have "(ucast q :: u32) \<le> ucast p" using p by (simp add: word_le_nat_alt up uq)
    ultimately show ?thesis using p(1) by (simp add: spaced_append block_top_def f up)
  qed
  have us: "unat (r_usage ?m r) = used_bytes ?m (xs @ b # ys)"
  proof -
    have u: "used_bytes ?m (xs @ b # ys) = used_bytes m (xs @ ys) + (48 + unat p)"
      using used_bytes_cong [of "xs @ ys" ?m m] by (simp add: sb up) (simp add: f)
    have "used_bytes ?m (xs @ b # ys) \<le> unat (r_size m r)"
      using spaced_used [OF spn] by (simp add: f)
    moreover have "unat (r_size m r) < 2 ^ LENGTH(32)" by (rule unsigned_less)
    ultimately have lt: "used_bytes m (xs @ ys) + (48 + unat p) < 2 ^ 32"
      unfolding u by simp
    have "unat (ucast (48 + p) :: u32) = 48 + unat p"
      using lt p(2) by (subst word_le_unat32) (simp_all add: word_le_nat_alt unat_add_no_overflow)
    with lt d(6) have "unat (r_usage m r + ucast (48 + p)) = used_bytes m (xs @ ys) + (48 + unat p)"
      by (subst unat_add_no_overflow) simp_all
    then show ?thesis by (simp only: f u)
  qed
  have "r_first ?m r = head0 (xs @ b # ys) 0"
    using d(3) by (cases xs) (simp_all add: f)
  with insert_node_seg [OF far nz pv nx d(4) \<open>b \<noteq> 0\<close>] d spn us show ?thesis
    unfolding region_ok_def by (simp add: f)
qed

section \<open>Removing a node\<close>

definition remove_node :: "u64 \<Rightarrow> u64 \<Rightarrow> memory \<Rightarrow> memory" where
  "remove_node r b m =
     (let m = (if prev_of m b = 0 then set_first r (next_of m b) m else set_next (prev_of m b) (next_of m b) m);
          m = (if next_of m b = 0 then m else set_prev (next_of m b) (prev_of m b) m);
          m = set_magic b BLOCK_DEAD m
      in set_usage r (r_usage m r - ucast (HDR + ucast (b_size m b))) m)"

lemma remove_node_ok:
  assumes ok: "region_ok m r (xs @ b # ys)"
  shows "region_ok (remove_node r b m) r (xs @ ys)"
    "c \<in> set (xs @ ys) \<Longrightarrow> b_size (remove_node r b m) c = b_size m c \<and> b_req (remove_node r b m) c = b_req m c"
    "r_size (remove_node r b m) r = r_size m r" "r_pages (remove_node r b m) r = r_pages m r"
    "prev_of (remove_node r b m) r = prev_of m r" "next_of (remove_node r b m) r = next_of m r"
    "b_magic (remove_node r b m) b = BLOCK_DEAD"
    "touch (set (r # xs @ b # ys)) m (remove_node r b m)"
proof -
  note d = region_okD [OF ok] and far = region_ok_far [OF ok] and nz = region_ok_nonzero [OF ok]
  let ?m = "remove_node r b m"
  define pv nx where "pv = last (0 # xs)" and "nx = head0 ys 0"
  have nb: "prev_of m b = pv" "next_of m b = nx" and sgx: "seg m r 0 xs b" and sgy: "seg m r b ys 0"
    using d(4) by (simp_all add: seg_append node_def pv_def nx_def)
  have pvx: "xs \<noteq> [] \<Longrightarrow> pv \<in> set xs \<and> pv \<noteq> 0"
  proof -
    assume "xs \<noteq> []"
    then have "last xs \<in> set xs" "pv = last xs" by (simp_all add: pv_def)
    with nz show ?thesis by (metis Un_iff set_append)
  qed
  have nxy: "ys \<noteq> [] \<Longrightarrow> nx \<in> set ys \<and> nx \<noteq> 0" using nz by (cases ys) (auto simp: nx_def)
  have z: "xs = [] \<Longrightarrow> pv = 0" "ys = [] \<Longrightarrow> nx = 0" by (simp_all add: pv_def nx_def)
  have fl: "x = y \<or> far x y" if "x \<in> set (r # xs @ b # ys)" "y \<in> set (r # xs @ b # ys)" for x y
    by (rule far_in_list [OF far that])
  have fr: "far r c" "far c r" if "c \<in> set (b # xs @ ys)" for c
    using far that by (auto simp: sorted_wrt_append intro: far_sym [THEN iffD1])
  have fb: "far b c" "far c b" if "c \<in> set (xs @ ys)" for c
    using far that by (auto simp: sorted_wrt_append intro: far_sym [THEN iffD1])
  have fx: "far x y" "far y x" if "x \<in> set xs" "y \<in> set ys" for x y
    using far that by (auto simp: sorted_wrt_append intro: far_sym [THEN iffD1])
  note fs = hdr_simps frame_simps relink_fields
  define m1 where "m1 = (if pv = 0 then set_first r nx m else set_next pv nx m)"
  define m2 where "m2 = (if nx = 0 then m1 else set_prev nx pv m1)"
  define m3 where "m3 = set_magic b BLOCK_DEAD m2"
  have b1: "next_of m1 b = nx" "prev_of m1 b = pv" "b_size m3 b = b_size m b" "b_magic m3 b = BLOCK_DEAD"
    using fr [of b] fb [of pv] fb [of nx] pvx nxy z nb unfolding m1_def m2_def m3_def
    by (cases "xs = []"; cases "ys = []"; auto simp: fs)+
  have e: "?m = set_usage r (r_usage m3 r - ucast (HDR + ucast (b_size m b))) m3"
    by (simp only: remove_node_def Let_def nb m1_def [symmetric] b1(1,2) m2_def [symmetric]
        m3_def [symmetric] b1(3))
  have pvc: "pv = 0 \<or> pv \<in> set (xs @ ys)" and nxc: "nx = 0 \<or> nx \<in> set (xs @ ys)" using pvx nxy z by auto
  have "b_size m3 c = b_size m c \<and> b_req m3 c = b_req m c" if "c \<in> set (xs @ ys)" for c
  proof -
    have "pv = 0 \<or> pv = c \<or> far pv c" "nx = 0 \<or> nx = c \<or> far nx c" "far b c" "far r c"
      using fl [of pv c] fl [of nx c] fb [OF that] fr [of c] that pvc nxc by auto
    then show ?thesis unfolding m1_def m2_def m3_def by (auto simp: fs)
  qed
  with fr show sz: "c \<in> set (xs @ ys) \<Longrightarrow> b_size ?m c = b_size m c \<and> b_req ?m c = b_req m c" for c
    unfolding e by (auto simp: fs)
  have "r_size m3 r = r_size m r \<and> r_pages m3 r = r_pages m r \<and> prev_of m3 r = prev_of m r
     \<and> next_of m3 r = next_of m r \<and> r_usage m3 r = r_usage m r \<and> r_first m3 r = (if xs = [] then nx else r_first m r)"
    using fr [of b] fr [of nx] fr [of pv] nxc pvc pvx z unfolding m3_def m2_def m1_def by (auto simp: fs)
  then have rf: "r_size ?m r = r_size m r" "r_pages ?m r = r_pages m r"
    "prev_of ?m r = prev_of m r" "next_of ?m r = next_of m r"
    and rf2: "r_first ?m r = (if xs = [] then nx else r_first m r)"
      "r_usage ?m r = r_usage m r - ucast (HDR + ucast (b_size m b))"
    unfolding e by (simp_all add: fs)
  then show "r_size ?m r = r_size m r" "r_pages ?m r = r_pages m r"
    "prev_of ?m r = prev_of m r" "next_of ?m r = next_of m r" by blast+
  show "b_magic ?m b = BLOCK_DEAD" using fr [of b] b1 unfolding e by (simp add: fs)
  show "touch (set (r # xs @ b # ys)) m ?m"
  proof -
    let ?S = "set (r # xs @ b # ys)"
    have "touch ?S m m1" unfolding m1_def using pvx z
      by (auto intro: touch_step [OF touch_refl hdr_only_sets(2)] touch_step [OF touch_refl hdr_only_sets(3)])
    then have "touch ?S m m2" unfolding m2_def using nxy z
      by (auto intro!: touch_step [OF _ hdr_only_sets(1)])
    then have "touch ?S m m3" unfolding m3_def by (rule touch_step [OF _ hdr_only_sets(5)]) simp
    then show ?thesis unfolding e by (rule touch_step [OF _ hdr_only_sets(4)]) simp
  qed
  have sx: "seg m3 r 0 xs nx" and sy: "seg m3 r pv ys 0"
  proof -
    have "seg m2 r 0 xs nx"
    proof (cases xs rule: rev_cases)
      case (snoc xs' x)
      with sgx have "seg m r 0 xs' x" "node m r (last (0 # xs')) x b" by (simp_all add: seg_append)
      moreover have "m1 = set_next x nx m" using pvx by (simp add: m1_def pv_def snoc)
      moreover have "far x c" "far x c" if "c \<in> set xs'" for c
        using far that far_sym [of x c] by (simp_all add: snoc sorted_wrt_append)
      then have "seg m1 r 0 xs' x = seg m r 0 xs' x"
        using \<open>m1 = set_next x nx m\<close> by (intro seg_cong) (auto simp: fs)
      ultimately have "seg m1 r 0 xs nx" by (simp add: snoc seg_append node_def fs)
      moreover have "seg m2 r 0 xs nx = seg m1 r 0 xs nx"
        using fx nxy z unfolding m2_def by (intro seg_cong, cases "ys = []") (auto simp: fs)
      ultimately show ?thesis by simp
    qed simp
    moreover have "seg m2 r pv ys 0"
    proof (cases ys)
      case (Cons y ys')
      have "seg m1 r b ys 0 = seg m r b ys 0"
        using fx fr pvx z unfolding m1_def by (intro seg_cong, cases "xs = []") (auto simp: fs)
      with sgy Cons have "node m1 r b y (head0 ys' 0)" "seg m1 r y ys' 0" by simp_all
      moreover have "m2 = set_prev y pv m1" using nxy by (simp add: m2_def nx_def Cons)
      moreover have "seg m2 r y ys' 0 = seg m1 r y ys' 0"
        using far \<open>m2 = set_prev y pv m1\<close> by (intro seg_cong) (auto simp: Cons fs sorted_wrt_append)
      ultimately show ?thesis by (simp add: Cons node_def fs)
    qed simp
    moreover have "seg m3 r p zs n = seg m2 r p zs n" if "set zs \<subseteq> set (xs @ ys)" for p zs n
      unfolding m3_def using fb that by (intro seg_cong) (auto simp: fs)
    ultimately show "seg m3 r 0 xs nx" "seg m3 r pv ys 0" by simp_all
  qed
  have sg: "seg ?m r 0 (xs @ ys) 0"
  proof -
    have "seg ?m r 0 (xs @ ys) 0 = seg m3 r 0 (xs @ ys) 0"
      unfolding e using fr by (intro seg_cong) (auto simp: fs)
    with sx sy show ?thesis by (simp only: seg_append nx_def pv_def)
  qed
  have sp: "spaced ?m (unat r + 48) (xs @ ys) (unat r + unat (r_size m r))"
  proof -
    from d(5) have 1: "spaced m (unat r + 48) xs (end_of m (unat r + 48) xs)"
      "end_of m (unat r + 48) xs \<le> unat b" "spaced m (block_top m b) ys (unat r + unat (r_size m r))"
      by (simp_all add: spaced_append)
    then have "spaced m (unat r + 48) (xs @ ys) (unat r + unat (r_size m r))"
      using spaced_mono [OF 1(3), of "end_of m (unat r + 48) xs"] by (simp add: spaced_append block_top_def)
    with sz show ?thesis by (subst spaced_cong) simp_all
  qed
  have us: "unat (r_usage ?m r) = used_bytes ?m (xs @ ys)"
  proof -
    have u: "unat (r_usage m r) = used_bytes m (xs @ ys) + (48 + unat (b_size m b))"
      using d(6) by simp
    have lt: "unat (r_usage m r) < 2 ^ LENGTH(32)" by (rule unsigned_less)
    have "unat (HDR + ucast (b_size m b)) = 48 + unat (b_size m b)"
      using lt u by (subst unat_add_no_overflow) (simp_all add: HDR_def unat_ucast_up)
    moreover from this have "unat (ucast (HDR + ucast (b_size m b)) :: u32) = 48 + unat (b_size m b)"
      using lt u by (subst word_le_unat32) (simp_all add: word_le_nat_alt)
    ultimately have "unat (r_usage ?m r) = used_bytes m (xs @ ys)"
      using u unfolding rf2 by (subst unat_sub_no_underflow) (simp_all add: word_le_nat_alt)
    then show ?thesis using used_bytes_cong [of "xs @ ys" ?m m] sz by simp
  qed
  have "r_first ?m r = head0 (xs @ ys) 0" using d(3) by (cases xs) (simp_all add: rf2 nx_def)
  with sg sp us d(1,2) show "region_ok ?m r (xs @ ys)" unfolding region_ok_def by (simp add: rf)
qed

end
