(* ===== verification/HeapPlace.thy ===== *)
theory HeapPlace
  imports HeapRegion
begin

text \<open>
  \<open>place_block\<close> on a well-formed region is a first-fit search: the loops end, and the block goes
  into the first gap that is wide enough, or nothing changes and no gap is.
\<close>

section \<open>The searches end\<close>

lemma unat_block_end: "block_top m b < 2 ^ 64 \<Longrightarrow> unat (block_end m b) = block_top m b"
proof -
  assume t: "block_top m b < 2 ^ 64"
  have u: "unat (ucast (b_size m b) :: u64) = unat (b_size m b)" by (simp add: unat_ucast_up)
  have "unat (b + HDR) = unat b + 48"
    using t by (subst unat_add_no_overflow) (simp_all add: HDR_def block_top_def)
  then show ?thesis
    using t unfolding block_end_def block_top_def
    by (subst unat_add_no_overflow) (simp_all add: u)
qed

lemma last_of_seg:
  "seg m r pv (b # bs) 0 \<Longrightarrow> 0 \<notin> set (b # bs) \<Longrightarrow> last_of m b = Some (last (b # bs))"
proof (induction bs arbitrary: pv b)
  case Nil
  then show ?case by (subst last_of.simps) (simp add: node_def)
next
  case (Cons c bs)
  then have "next_of m b = c" "seg m r b (c # bs) 0" "c \<noteq> 0" "b \<noteq> 0" by (simp_all add: node_def)
  with Cons.IH [of b c] Cons.prems show ?case by (subst last_of.simps) simp
qed

lemma find_gap_seg:
  assumes "seg m r pv (b # bs) 0" "0 \<notin> set (b # bs)"
  shows "find_gap m n b = Some None
      \<and> (\<forall>xs cur nx ys. b # bs = xs @ cur # nx # ys \<longrightarrow> nx - block_end m cur < n)
    \<or> (\<exists>xs cur nx ys. b # bs = xs @ cur # nx # ys \<and> find_gap m n b = Some (Some cur)
      \<and> n \<le> nx - block_end m cur)"
  using assms
proof (induction bs arbitrary: pv b)
  case Nil
  then have "find_gap m n b = Some None" by (subst find_gap.simps) (simp add: node_def)
  then show ?case by (simp add: Cons_eq_append_conv)
next
  case (Cons c bs)
  then have nx: "next_of m b = c" "seg m r b (c # bs) 0" "c \<noteq> 0" "b \<noteq> 0" by (simp_all add: node_def)
  then have g: "find_gap m n b = (if n \<le> c - block_end m b then Some (Some b) else find_gap m n c)"
    by (subst find_gap.simps) simp
  show ?case
  proof (cases "n \<le> c - block_end m b")
    case True
    then have "b # c # bs = [] @ b # c # bs \<and> find_gap m n b = Some (Some b) \<and> n \<le> c - block_end m b"
      by (simp add: g)
    then show ?thesis by blast
  next
    case False
    then have g: "find_gap m n b = find_gap m n c" by (simp add: g)
    from Cons.IH [OF nx(2)] Cons.prems(2) consider
      (none) "find_gap m n c = Some None"
        "\<forall>xs cur nx ys. c # bs = xs @ cur # nx # ys \<longrightarrow> nx - block_end m cur < n"
    | (hit) xs cur nx ys where "c # bs = xs @ cur # nx # ys" "find_gap m n c = Some (Some cur)"
        "n \<le> nx - block_end m cur" by auto
    then show ?thesis
    proof cases
      case none
      have "nx - block_end m cur < n" if "b # c # bs = xs @ cur # nx # ys" for xs cur nx ys
        using that none(2) False by (cases xs) auto
      with none(1) show ?thesis by (auto simp: g)
    next
      case hit
      then have "b # c # bs = (b # xs) @ cur # nx # ys" by simp
      with hit show ?thesis unfolding g by blast
    qed
  qed
qed

section \<open>First fit\<close>

text \<open>The gap of a region between the blocks \<open>xs\<close> and the blocks \<open>ys\<close> after them.\<close>

definition gap_room :: "memory \<Rightarrow> u64 \<Rightarrow> u64 list \<Rightarrow> u64 list \<Rightarrow> nat" where
  "gap_room m r xs ys =
     (if ys = [] then unat r + unat (r_size m r) else unat (hd ys)) - end_of m (unat r + 48) xs"

lemma gap_bounds:
  assumes "region_ok m r (xs @ ys)"
  shows "end_of m (unat r + 48) xs \<le> (if ys = [] then unat r + unat (r_size m r) else unat (hd ys))"
    "end_of m (unat r + 48) xs < 2 ^ 64"
proof -
  note d = region_okD [OF assms]
  from d(5) have "spaced m (end_of m (unat r + 48) xs) ys (unat r + unat (r_size m r))"
    by (simp add: spaced_append)
  with spaced_le [OF this] d(2)
  show "end_of m (unat r + 48) xs \<le> (if ys = [] then unat r + unat (r_size m r) else unat (hd ys))"
    "end_of m (unat r + 48) xs < 2 ^ 64"
    by (cases ys; simp)+
qed

lemma unat_gap:
  assumes ok: "region_ok m r (xs @ cur # nx # ys)"
  shows "unat (nx - block_end m cur) = gap_room m r (xs @ [cur]) (nx # ys)"
    "unat (block_end m cur) = end_of m (unat r + 48) (xs @ [cur])"
proof -
  have ok': "region_ok m r ((xs @ [cur]) @ nx # ys)" using ok by simp
  note b = gap_bounds [OF ok']
  show e: "unat (block_end m cur) = end_of m (unat r + 48) (xs @ [cur])"
    using b(2) by (subst unat_block_end) simp_all
  with b show "unat (nx - block_end m cur) = gap_room m r (xs @ [cur]) (nx # ys)"
    by (subst unat_sub_no_underflow) (simp_all add: gap_room_def word_le_nat_alt)
qed

lemma unat_last_gap:
  assumes ok: "region_ok m r (xs @ [lst])"
  shows "unat (r + ucast (r_size m r) - block_end m lst) = gap_room m r (xs @ [lst]) []"
    "unat (block_end m lst) = end_of m (unat r + 48) (xs @ [lst])"
proof -
  have ok': "region_ok m r ((xs @ [lst]) @ [])" using ok by simp
  note b = gap_bounds [OF ok'] and d = region_okD [OF ok]
  show e: "unat (block_end m lst) = end_of m (unat r + 48) (xs @ [lst])"
    using b(2) by (subst unat_block_end) simp_all
  have "unat (r + ucast (r_size m r)) = unat r + unat (r_size m r)"
    using d(2) by (subst unat_add_no_overflow) (simp_all add: unat_ucast_up)
  with e b show "unat (r + ucast (r_size m r) - block_end m lst) = gap_room m r (xs @ [lst]) []"
    by (subst unat_sub_no_underflow) (simp_all add: gap_room_def word_le_nat_alt)
qed

lemma unat_first_gap:
  assumes ok: "region_ok m r (b # bs)"
  shows "unat (b - (r + HDR)) = gap_room m r [] (b # bs)" "unat (r + HDR) = unat r + 48"
proof -
  have "region_ok m r ([] @ b # bs)" using ok by simp
  note bd = gap_bounds [OF this]
  show e: "unat (r + HDR) = unat r + 48"
    using bd(2) by (subst unat_add_no_overflow) (simp_all add: HDR_def)
  with bd(1) show "unat (b - (r + HDR)) = gap_room m r [] (b # bs)"
    by (subst unat_sub_no_underflow) (simp_all add: gap_room_def word_le_nat_alt)
qed

text \<open>The block a placement adds, and the state after it.\<close>

definition placed_in :: "u64 \<Rightarrow> u64 \<Rightarrow> u64 \<Rightarrow> u64 list \<Rightarrow> u64 \<Rightarrow> u64 list \<Rightarrow> heap_state \<Rightarrow> heap_state" where
  "placed_in r p q xs b ys h = account q (upd_mem (insert_node (last (0 # xs)) b (head0 ys 0) r p q) h)"

lemma upd_mem_upd_mem: "upd_mem f (upd_mem g h) = upd_mem (f \<circ> g) h"
  by (simp add: upd_mem_def)

lemma placed_in_eq:
  assumes "P = Some (placed r (HDR + p) q b (upd_mem f h))"
    and "\<And>m. f m = (let m = init_block b (last (0 # xs)) (head0 ys 0) r p q m;
      m = (if head0 ys 0 = 0 then m else set_prev (head0 ys 0) b m)
      in if last (0 # xs) = 0 then set_first r b m else set_next (last (0 # xs)) b m)"
  shows "P = Some (b + HDR, placed_in r p q xs b ys h)"
  by (simp add: assms(1)) (simp add: placed_def placed_in_def upd_mem_def insert_node_def Let_def HDR_def assms(2))

lemma place_block_cases:
  assumes ok: "region_ok (h_mem h) r bs" and p: "p \<le> 0xFFFFFFFF"
    and fresh: "bs = [] \<Longrightarrow> 96 + unat p \<le> unat (r_size (h_mem h) r)"
  shows "place_block r p q h = Some (0, h) \<and> (\<forall>xs ys. bs = xs @ ys \<longrightarrow> gap_room (h_mem h) r xs ys < 48 + unat p)
    \<or> (\<exists>xs b ys. bs = xs @ ys \<and> unat b = end_of (h_mem h) (unat r + 48) xs
        \<and> 48 + unat p \<le> gap_room (h_mem h) r xs ys
        \<and> place_block r p q h = Some (b + HDR, placed_in r p q xs b ys h))"
proof (cases bs)
  case Nil
  let ?b = "r + HDR"
  have "unat ?b = unat r + 48" using region_okD(2) [OF ok] fresh Nil
    by (subst unat_add_no_overflow) (simp_all add: HDR_def)
  moreover have "place_block r p q h = Some (?b + HDR, placed_in r p q [] ?b [] h)"
    using region_okD(3) [OF ok] Nil
    by (intro placed_in_eq [where f = "set_first r ?b \<circ> init_block ?b 0 0 r p q"])
      (simp_all add: place_block_def Let_def)
  moreover have "48 + unat p \<le> gap_room (h_mem h) r [] []" using fresh Nil by (simp add: gap_room_def)
  ultimately show ?thesis
    using Nil by (intro disjI2 exI [of _ "[] :: u64 list"] exI [of _ ?b]) simp
next
  case (Cons f cs)
  let ?m = "h_mem h" and ?n = "HDR + p"
  note d = region_okD [OF ok] and nz = region_ok_nonzero [OF ok]
  have first: "r_first ?m r = f" "f \<noteq> 0" using d(3) nz by (auto simp: Cons)
  have n: "unat ?n = 48 + unat p"
    using p by (subst unat_add_no_overflow) (simp_all add: HDR_def word_le_nat_alt)
  note fg = unat_first_gap [OF ok [unfolded Cons]]
  have lg: "bs = xs @ [l] \<Longrightarrow> unat (r + ucast (r_size ?m r) - block_end ?m l) = gap_room ?m r (xs @ [l]) []
      \<and> unat (block_end ?m l) = end_of ?m (unat r + 48) (xs @ [l])" for xs l
    using unat_last_gap ok by blast
  have mg: "bs = xs @ cur # nx # ys \<Longrightarrow> unat (nx - block_end ?m cur) = gap_room ?m r (xs @ [cur]) (nx # ys)
      \<and> unat (block_end ?m cur) = end_of ?m (unat r + 48) (xs @ [cur])" for xs cur nx ys
    using unat_gap ok by blast
  show ?thesis
  proof (cases "?n \<le> f - (r + HDR)")
    case True
    then have "place_block r p q h = Some (r + HDR + HDR, placed_in r p q [] (r + HDR) bs h)"
      using first
      by (intro placed_in_eq [where f = "set_first r (r + HDR) \<circ> set_prev f (r + HDR) \<circ> init_block (r + HDR) 0 f r p q"])
        (simp_all add: place_block_def Let_def Cons)
    with True fg n Cons show ?thesis
      by (intro disjI2 exI [of _ "[] :: u64 list"] exI [of _ "r + HDR"] exI [of _ bs]) (simp add: word_le_nat_alt)
  next
    case front: False
    from find_gap_seg [OF d(4)[unfolded Cons] nz[unfolded Cons], of ?n] consider
      (none) "find_gap ?m ?n f = Some None" "\<forall>xs cur nx ys. bs = xs @ cur # nx # ys \<longrightarrow> nx - block_end ?m cur < ?n"
    | (hit) xs cur nx ys where "bs = xs @ cur # nx # ys" "find_gap ?m ?n f = Some (Some cur)"
        "?n \<le> nx - block_end ?m cur" unfolding Cons by blast
    then show ?thesis
    proof cases
      case hit
      have nxt: "next_of ?m cur = nx" "cur \<noteq> 0" "nx \<noteq> 0"
        using d(4) nz by (auto simp: hit(1) seg_append node_def)
      have "place_block r p q h
          = Some (block_end ?m cur + HDR, placed_in r p q (xs @ [cur]) (block_end ?m cur) (nx # ys) h)"
        using first front hit(2) nxt
        by (intro placed_in_eq [where f = "set_next cur (block_end ?m cur) \<circ> set_prev nx (block_end ?m cur)
              \<circ> init_block (block_end ?m cur) cur nx r p q"]) (simp_all add: place_block_def Let_def)
      with mg [OF hit(1)] hit(1,3) n show ?thesis
        by (intro disjI2 exI [of _ "xs @ [cur]"] exI [of _ "block_end ?m cur"] exI [of _ "nx # ys"])
          (simp add: word_le_nat_alt)
    next
      case none
      obtain xs l where l: "bs = xs @ [l]" by (cases bs rule: rev_cases) (simp_all add: Cons)
      have "last (f # cs) = l" using l unfolding Cons by (metis last_snoc)
      then have lst: "last_of ?m f = Some l" "l \<noteq> 0"
        using last_of_seg [OF d(4)[unfolded Cons] nz[unfolded Cons]] nz l by simp_all
      show ?thesis
      proof (cases "?n \<le> r + ucast (r_size ?m r) - block_end ?m l")
        case True
        then have "place_block r p q h
            = Some (block_end ?m l + HDR, placed_in r p q (xs @ [l]) (block_end ?m l) [] h)"
          using first front none(1) lst
          by (intro placed_in_eq [where f = "set_next l (block_end ?m l) \<circ> init_block (block_end ?m l) l 0 r p q"])
            (simp_all add: place_block_def Let_def)
        with lg [OF l] l True n show ?thesis
          by (intro disjI2 exI [of _ "xs @ [l]"] exI [of _ "block_end ?m l"] exI [of _ "[] :: u64 list"])
            (simp add: word_le_nat_alt)
      next
        case False
        then have "place_block r p q h = Some (0, h)"
          using first front none(1) lst by (simp add: place_block_def Let_def)
        moreover have "gap_room ?m r us vs < 48 + unat p" if bs: "bs = us @ vs" for us vs
        proof (cases us rule: rev_cases)
          case Nil
          with bs Cons front fg n show ?thesis by (simp add: word_le_nat_alt)
        next
          case us: (snoc us' cur)
          show ?thesis
          proof (cases vs)
            case Nil
            with bs us l lg [OF l] False n show ?thesis by (auto simp: word_le_nat_alt)
          next
            case vs: (Cons nx vs')
            have b: "bs = us' @ cur # nx # vs'" by (simp add: bs us vs)
            with none(2) have "nx - block_end ?m cur < ?n" by blast
            with mg [OF b] n show ?thesis by (simp add: us vs word_less_nat_alt)
          qed
        qed
        ultimately show ?thesis by blast
      qed
    qed
  qed
qed

end
