(* ===== verification/HeapSpec.thy ===== *)
theory HeapSpec
  imports HeapPlace
begin

text \<open>
  The whole heap: the regions form a doubly linked list, each is well formed, each occupies
  exactly the pages it took from the page allocator, and the statistics count regions and blocks
  (\<open>heap_ok\<close>).  \<open>heap_rel F h v\<close> is the abstraction: \<open>v\<close> maps the address of every live allocation
  to its contents, and \<open>F\<close> is the set of pages that are free or owned by the heap.
\<close>

section \<open>Changes confined to an interval\<close>

definition inside :: "nat \<Rightarrow> nat \<Rightarrow> memory \<Rightarrow> memory \<Rightarrow> bool" where
  "inside lo hi m m' \<longleftrightarrow> (\<forall>x. unat x < lo \<or> hi \<le> unat x \<longrightarrow> m' x = m x)"

lemma unat_offset: "unat a + k < 2 ^ 64 \<Longrightarrow> unat ((a :: u64) + of_nat k) = unat a + k"
  by (subst unat_add_no_overflow) (simp_all add: unat_of_nat_eq)

lemma inside_ld:
  assumes "inside lo hi m m'" "unat a + n \<le> lo \<or> hi \<le> unat a" "unat a + n \<le> 2 ^ 64"
  shows "ld m' a n = ld m a n"
proof (rule ld_cong)
  fix k assume "k < n"
  then have "unat (a + of_nat k) = unat a + k" using assms(3) by (intro unat_offset) simp
  with assms(1,2) \<open>k < n\<close> show "m' (a + of_nat k) = m (a + of_nat k)" by (auto simp: inside_def)
qed

lemma inside_fields:
  assumes "inside lo hi m m'" "unat b + 48 \<le> lo \<or> hi \<le> unat b" "unat b + 48 \<le> 2 ^ 64"
  shows "prev_of m' b = prev_of m b" "next_of m' b = next_of m b" "b_region m' b = b_region m b"
    "b_magic m' b = b_magic m b" "b_size m' b = b_size m b" "b_req m' b = b_req m b"
    "r_first m' b = r_first m b" "r_pages m' b = r_pages m b" "r_size m' b = r_size m b"
    "r_usage m' b = r_usage m b"
proof -
  have o: "ld m' (b + of_nat d) n = ld m (b + of_nat d) n" if "d + n \<le> 48" for d n
  proof (cases "n = 0")
    case False
    then have "unat (b + of_nat d) = unat b + d" using that assms(3) by (intro unat_offset) simp
    with that assms(2,3) show ?thesis by (intro inside_ld [OF assms(1)]) linarith+
  qed (simp add: ld_def)
  have o': "ld m' b n = ld m b n" if "n \<le> 48" for n using o [of 0 n] that by simp
  show "prev_of m' b = prev_of m b" "next_of m' b = next_of m b" "b_region m' b = b_region m b"
    "b_magic m' b = b_magic m b" "b_size m' b = b_size m b" "b_req m' b = b_req m b"
    "r_first m' b = r_first m b" "r_pages m' b = r_pages m b" "r_size m' b = r_size m b"
    "r_usage m' b = r_usage m b"
    using o [of 8 8] o [of 16 8] o [of 24 4] o [of 28 4] o [of 32 4] o [of 36 4] o [of 40 4]
    by (simp_all add: hdr_defs ld64_def ld32_def o')
qed

lemma touch_inside:
  assumes "touch S m m'" "\<And>a. a \<in> S \<Longrightarrow> lo \<le> unat a \<and> unat a + 48 \<le> hi" "hi \<le> 2 ^ 64"
  shows "inside lo hi m m'"
  unfolding inside_def
proof (intro allI impI)
  fix x :: u64 assume x: "unat x < lo \<or> hi \<le> unat x"
  have "48 \<le> unat (x - a)" if "a \<in> S" for a
    using assms(2) [OF that] assms(3) x by (intro outside_hdr) auto
  with assms(1) show "m' x = m x" by (simp add: touch_def)
qed

definition rtop :: "memory \<Rightarrow> u64 \<Rightarrow> nat" where
  "rtop m r = unat r + unat (r_size m r)"

definition beside :: "nat \<Rightarrow> nat \<Rightarrow> nat \<Rightarrow> nat \<Rightarrow> bool" where
  "beside lo hi lo' hi' \<longleftrightarrow> hi \<le> lo' \<or> hi' \<le> lo"

lemma region_ok_inside:
  assumes "inside lo hi m m'" "beside (unat r) (rtop m r) lo hi" "region_ok m r bs" "48 \<le> unat (r_size m r)"
  shows "region_ok m' r bs"
proof -
  note d = region_okD [OF assms(3)]
  have bnd: "unat c + 48 \<le> lo \<or> hi \<le> unat c" "unat c + 48 \<le> 2 ^ 64" if "c \<in> set (r # bs)" for c
    using that spaced_bounds [OF d(5), of c] assms(2,4) d(2)
    by (auto simp: beside_def rtop_def block_top_def)
  note f = inside_fields [OF assms(1) bnd]
  have "seg m' r 0 bs 0 = seg m r 0 bs 0" by (rule seg_cong) (simp add: f)
  moreover have "spaced m' lo bs hi = spaced m lo bs hi" for lo hi by (rule spaced_cong) (simp add: f)
  moreover have "used_bytes m' bs = used_bytes m bs" by (rule used_bytes_cong) (simp add: f)
  ultimately show ?thesis using d unfolding region_ok_def by (simp add: f)
qed

text \<open>Linking regions changes only the links.\<close>

lemma region_ok_relink:
  assumes "region_ok m r bs" "\<And>c. c \<in> set (r # bs) \<Longrightarrow> far a c \<or> a = r \<and> c = r"
  shows "region_ok (set_next a v m) r bs" "region_ok (set_prev a v m) r bs"
proof -
  note d = region_okD [OF assms(1)]
  have fr: "a = r \<or> far a r" and fb: "c \<in> set bs \<Longrightarrow> far a c" for c
    using assms(2) region_ok_far [OF assms(1)] by (auto dest: far_neq)
  have "region_ok m' r bs" if "m' = set_next a v m \<or> m' = set_prev a v m" for m'
  proof -
    have rf: "r_first m' r = r_first m r" "r_size m' r = r_size m r" "r_usage m' r = r_usage m r"
      using fr that by (auto simp: hdr_simps frame_simps)
    have f: "prev_of m' c = prev_of m c" "next_of m' c = next_of m c" "b_region m' c = b_region m c"
      "b_magic m' c = b_magic m c" "b_size m' c = b_size m c" "b_req m' c = b_req m c" if "c \<in> set bs" for c
      using fb [OF that] \<open>m' = _ \<or> _\<close> by (auto simp: frame_simps)
    have "seg m' r 0 bs 0 = seg m r 0 bs 0" by (rule seg_cong) (simp add: f)
    moreover have "spaced m' lo bs hi = spaced m lo bs hi" for lo hi by (rule spaced_cong) (simp add: f)
    moreover have "used_bytes m' bs = used_bytes m bs" by (rule used_bytes_cong) (simp add: f)
    ultimately show ?thesis using d unfolding region_ok_def by (simp add: rf)
  qed
  then show "region_ok (set_next a v m) r bs" "region_ok (set_prev a v m) r bs" by blast+
qed

section \<open>The invariant\<close>

fun rchain :: "memory \<Rightarrow> u64 \<Rightarrow> u64 list \<Rightarrow> u64 \<Rightarrow> bool" where
  "rchain m pv [] nx = True"
| "rchain m pv (r # rs) nx = (prev_of m r = pv \<and> next_of m r = head0 rs nx \<and> rchain m r rs nx)"

lemma rchain_append:
  "rchain m pv (xs @ ys) nx \<longleftrightarrow> rchain m pv xs (head0 ys nx) \<and> rchain m (last (pv # xs)) ys nx"
  by (induction xs arbitrary: pv) simp_all

lemma rchain_cong:
  "(\<And>r. r \<in> set rs \<Longrightarrow> prev_of m' r = prev_of m r \<and> next_of m' r = next_of m r)
    \<Longrightarrow> rchain m' pv rs nx = rchain m pv rs nx"
  by (induction rs arbitrary: pv) simp_all

definition hhdm_ok :: "phys_state \<Rightarrow> bool" where
  "hhdm_ok p \<longleftrightarrow> g_hhdm_offset p \<noteq> 0 \<and> 16 dvd unat (g_hhdm_offset p)
     \<and> unat (g_hhdm_offset p) + 4096 * unat (g_total_pages p) < 2 ^ 64"

text \<open>The pages of a region, and that they are its extent.\<close>

definition page_no :: "phys_state \<Rightarrow> u64 \<Rightarrow> nat" where
  "page_no p r = (unat r - unat (g_hhdm_offset p)) div 4096"

definition region_pages :: "phys_state \<Rightarrow> memory \<Rightarrow> u64 \<Rightarrow> nat set" where
  "region_pages p m r = {page_no p r..<page_no p r + unat (r_pages m r)}"

definition paged :: "phys_state \<Rightarrow> memory \<Rightarrow> u64 \<Rightarrow> bool" where
  "paged p m r \<longleftrightarrow> unat r = unat (g_hhdm_offset p) + 4096 * page_no p r \<and> 0 < page_no p r
     \<and> unat (r_size m r) = 4096 * unat (r_pages m r) \<and> 0 < unat (r_pages m r)
     \<and> page_no p r + unat (r_pages m r) \<le> unat (g_total_pages p)"

definition blocks :: "(u64 \<times> u64 list) list \<Rightarrow> u64 list" where
  "blocks rs = concat (map snd rs)"

lemma blocks_simps [simp]:
  "blocks [] = []" "blocks (x # rs) = snd x @ blocks rs" "blocks (rs @ qs) = blocks rs @ blocks qs"
  by (simp_all add: blocks_def)

definition stats_ok :: "heap_state \<Rightarrow> (u64 \<times> u64 list) list \<Rightarrow> bool" where
  "stats_ok h rs \<longleftrightarrow> h_region_count h = of_nat (length rs)
     \<and> h_total_region_bytes h = (\<Sum>r\<leftarrow>map fst rs. ucast (r_size (h_mem h) r))
     \<and> h_live h = of_nat (length (blocks rs))
     \<and> h_in_use h = (\<Sum>b\<leftarrow>blocks rs. ucast (b_req (h_mem h) b))"

definition regions_ok :: "phys_state \<Rightarrow> memory \<Rightarrow> (u64 \<times> u64 list) list \<Rightarrow> bool" where
  "regions_ok p m rs \<longleftrightarrow> rchain m 0 (map fst rs) 0
     \<and> (\<forall>x \<in> set rs. region_ok m (fst x) (snd x) \<and> paged p m (fst x))
     \<and> sorted_wrt disjnt (free_set p # map (region_pages p m) (map fst rs))"

definition heap_ok :: "nat set \<Rightarrow> heap_state \<Rightarrow> (u64 \<times> u64 list) list \<Rightarrow> bool" where
  "heap_ok F h rs \<longleftrightarrow> h_init h \<and> phys_inv (h_phys h) \<and> hhdm_ok (h_phys h)
     \<and> h_root h = head0 (map fst rs) 0 \<and> (h_best h = 0 \<or> h_best h \<in> fst ` set rs)
     \<and> regions_ok (h_phys h) (h_mem h) rs
     \<and> F = free_set (h_phys h) \<union> \<Union> (set (map (region_pages (h_phys h) (h_mem h)) (map fst rs)))
     \<and> stats_ok h rs"

lemma heap_okD:
  assumes "heap_ok F h rs"
  shows "h_init h" "phys_inv (h_phys h)" "hhdm_ok (h_phys h)" "h_root h = head0 (map fst rs) 0"
    "h_best h = 0 \<or> h_best h \<in> fst ` set rs" "regions_ok (h_phys h) (h_mem h) rs"
    "F = free_set (h_phys h) \<union> \<Union> (set (map (region_pages (h_phys h) (h_mem h)) (map fst rs)))"
    "stats_ok h rs"
  using assms unfolding heap_ok_def by blast+

lemma regions_okD:
  assumes "regions_ok p m rs"
  shows "rchain m 0 (map fst rs) 0" "x \<in> set rs \<Longrightarrow> region_ok m (fst x) (snd x)"
    "x \<in> set rs \<Longrightarrow> paged p m (fst x)"
    "sorted_wrt disjnt (free_set p # map (region_pages p m) (map fst rs))"
  using assms unfolding regions_ok_def by blast+

text \<open>Two regions with no page in common do not overlap.\<close>

lemma paged_beside:
  assumes "paged p m r" "paged p m r'" "disjnt (region_pages p m r) (region_pages p m r')"
  shows "beside (unat r) (rtop m r) (unat r') (rtop m r')"
proof -
  note u = assms(1,2)[unfolded paged_def]
  have "page_no p r + unat (r_pages m r) \<le> page_no p r' \<or> page_no p r' + unat (r_pages m r') \<le> page_no p r"
  proof (rule ccontr)
    assume "\<not> ?thesis"
    then have "max (page_no p r) (page_no p r') \<in> region_pages p m r \<inter> region_pages p m r'"
      using u by (auto simp: region_pages_def)
    with assms(3) show False by (auto simp: disjnt_def)
  qed
  with u show ?thesis unfolding beside_def rtop_def by auto
qed

lemma paged_size: "paged p m r \<Longrightarrow> 4096 \<le> unat (r_size m r)"
  by (auto simp: paged_def)

lemma regions_beside:
  assumes "regions_ok p m (us @ (r, bs) # vs)" "x \<in> set (us @ vs)"
  shows "beside (unat (fst x)) (rtop m (fst x)) (unat r) (rtop m r)"
proof -
  note d = regions_okD [OF assms(1)]
  have "disjnt (region_pages p m (fst x)) (region_pages p m r)"
    using d(4) assms(2) by (auto simp: sorted_wrt_append disjnt_sym)
  with d(3) [of x] d(3) [of "(r, bs)"] assms(2) show ?thesis by (intro paged_beside) auto
qed

section \<open>A change of one region\<close>

lemma block_bounds:
  assumes "region_ok m r bs" "c \<in> set bs"
  shows "unat r + 48 \<le> unat c" "block_top m c \<le> rtop m r" "rtop m r < 2 ^ 64" "16 dvd unat c"
    "b_req m c \<le> b_size m c"
  using spaced_bounds [OF region_okD(5) [OF assms(1)] assms(2)] region_okD(2) [OF assms(1)]
  by (simp_all add: rtop_def)

lemma other_block:
  assumes "regions_ok p m (us @ (r, bs) # vs)" "x \<in> set (us @ vs)" "c \<in> set (snd x)"
  shows "beside (unat c) (block_top m c) (unat r) (rtop m r)" "block_top m c < 2 ^ 64"
proof -
  have x: "x \<in> set (us @ (r, bs) # vs)" using assms(2) by auto
  note bb = block_bounds [OF regions_okD(2) [OF assms(1) x] assms(3)]
  with regions_beside [OF assms(1,2)]
  show "beside (unat c) (block_top m c) (unat r) (rtop m r)" "block_top m c < 2 ^ 64"
    by (auto simp: beside_def)
qed

lemma other_block_in:
  assumes "regions_ok p m (us @ (r, bs) # vs)" "c \<in> set (blocks (us @ vs))"
  shows "beside (unat c) (block_top m c) (unat r) (rtop m r)" "block_top m c < 2 ^ 64" "b_req m c \<le> b_size m c"
proof -
  obtain x where x: "x \<in> set (us @ vs)" "c \<in> set (snd x)" using assms(2) by (auto simp: blocks_def)
  then have "x \<in> set (us @ (r, bs) # vs)" by auto
  from block_bounds(5) [OF regions_okD(2) [OF assms(1) this] x(2)] other_block [OF assms(1) x]
  show "beside (unat c) (block_top m c) (unat r) (rtop m r)" "block_top m c < 2 ^ 64" "b_req m c \<le> b_size m c"
    by simp_all
qed

lemma unat_payload: "block_top m c < 2 ^ 64 \<Longrightarrow> unat (c + HDR) = unat c + 48"
  by (subst unat_add_no_overflow) (simp_all add: HDR_def block_top_def)

text \<open>What a change inside one region leaves alone in the others.\<close>

lemma other_block_same:
  assumes ok: "regions_ok p m (us @ (r, bs) # vs)" and ins: "inside (unat r) (rtop m r) m m'"
    and c: "c \<in> set (blocks (us @ vs))"
  shows "b_size m' c = b_size m c" "b_req m' c = b_req m c"
    "ld m' (c + HDR) (unat (b_req m c)) = ld m (c + HDR) (unat (b_req m c))"
proof -
  note o = other_block_in [OF ok c]
  have b: "unat c + 48 \<le> unat r \<or> rtop m r \<le> unat c" "unat c + 48 \<le> 2 ^ 64"
    using o by (auto simp: beside_def block_top_def)
  show "b_size m' c = b_size m c" "b_req m' c = b_req m c"
    by (simp_all add: inside_fields [OF ins b])
  have "unat (b_req m c) \<le> unat (b_size m c)" using o(3) by (simp add: word_le_nat_alt)
  then show "ld m' (c + HDR) (unat (b_req m c)) = ld m (c + HDR) (unat (b_req m c))"
    using o by (intro inside_ld [OF ins]) (auto simp: unat_payload [OF o(2)] beside_def block_top_def)
qed

lemma regions_ok_local:
  assumes R: "regions_ok p m (us @ (r, bs) # vs)" and ins: "inside (unat r) (rtop m r) m m'"
    and ok: "region_ok m' r bs'" and f: "r_size m' r = r_size m r" "r_pages m' r = r_pages m r"
      "prev_of m' r = prev_of m r" "next_of m' r = next_of m r"
  shows "regions_ok p m' (us @ (r, bs') # vs)"
    "x \<in> set (us @ (r, bs) # vs) \<Longrightarrow> region_pages p m' (fst x) = region_pages p m (fst x) \<and> r_size m' (fst x) = r_size m (fst x)"
proof -
  note d = regions_okD [OF R]
  have o: "region_ok m' (fst x) (snd x) \<and> prev_of m' (fst x) = prev_of m (fst x)
      \<and> next_of m' (fst x) = next_of m (fst x) \<and> r_size m' (fst x) = r_size m (fst x)
      \<and> r_pages m' (fst x) = r_pages m (fst x)" if x: "x \<in> set (us @ vs)" for x
  proof -
    have x': "x \<in> set (us @ (r, bs) # vs)" using x by auto
    note be = regions_beside [OF R x] and sz = paged_size [OF d(3) [OF x']] and ro = d(2) [OF x']
    have b: "unat (fst x) + 48 \<le> unat r \<or> rtop m r \<le> unat (fst x)" "unat (fst x) + 48 \<le> 2 ^ 64"
      using be sz region_okD(2) [OF ro] by (auto simp: beside_def rtop_def)
    show ?thesis
      using region_ok_inside [OF ins be ro] sz inside_fields [OF ins b] by simp
  qed
  have same: "prev_of m' (fst x) = prev_of m (fst x) \<and> next_of m' (fst x) = next_of m (fst x)
     \<and> r_size m' (fst x) = r_size m (fst x) \<and> r_pages m' (fst x) = r_pages m (fst x)"
    if "x \<in> set (us @ (r, bs) # vs)" for x
    using o [of x] that f by (cases "x = (r, bs)") auto
  then have rp: "region_pages p m' (fst x) = region_pages p m (fst x)" if "x \<in> set (us @ (r, bs) # vs)" for x
    using that by (simp add: region_pages_def)
  show "x \<in> set (us @ (r, bs) # vs) \<Longrightarrow> region_pages p m' (fst x) = region_pages p m (fst x) \<and> r_size m' (fst x) = r_size m (fst x)" for x
    using rp same by blast
  have A: "rchain m' 0 (map fst (us @ (r, bs') # vs)) 0 = rchain m 0 (map fst (us @ (r, bs) # vs)) 0"
    using same by (subst rchain_cong [where m = m]) force+
  have B: "map (region_pages p m') (map fst (us @ (r, bs') # vs)) = map (region_pages p m) (map fst (us @ (r, bs) # vs))"
    using rp rp [of "(r, bs)"] by simp
  have C: "region_ok m' (fst x) (snd x) \<and> paged p m' (fst x)" if "x \<in> set (us @ (r, bs') # vs)" for x
  proof (cases "x = (r, bs')")
    case True
    with ok d(3) [of "(r, bs)"] f show ?thesis by (simp add: paged_def)
  next
    case False
    then have "x \<in> set (us @ vs)" using that by auto
    with o d(3) [of x] show ?thesis by (auto simp: paged_def)
  qed
  show "regions_ok p m' (us @ (r, bs') # vs)"
    unfolding regions_ok_def A B using d(1,4) C by blast
qed

section \<open>The contents of the heap\<close>

text \<open>The address of every live allocation, with the bytes that were asked for.\<close>

definition view :: "memory \<Rightarrow> (u64 \<times> u64 list) list \<Rightarrow> u64 \<Rightarrow> u8 list option" where
  "view m rs = (\<lambda>a. if a - HDR \<in> set (blocks rs) then Some (ld m a (unat (b_req m (a - HDR)))) else None)"

definition heap_rel :: "nat set \<Rightarrow> heap_state \<Rightarrow> (u64 \<Rightarrow> u8 list option) \<Rightarrow> bool" where
  "heap_rel F h v \<longleftrightarrow> (\<exists>rs. heap_ok F h rs \<and> (\<forall>x \<in> set rs. snd x \<noteq> []) \<and> v = view (h_mem h) rs)"

text \<open>No header lies in the payload of a block.\<close>

lemma hdr_outside_payload:
  assumes ok: "region_ok m r bs" and c: "c \<in> set bs" and a: "a \<in> set (r # bs)"
  shows "block_top m c \<le> unat a \<or> unat a + 48 \<le> unat c + 48" "unat a + 48 \<le> 2 ^ 64"
proof -
  note bc = block_bounds [OF ok c]
  show "unat a + 48 \<le> 2 ^ 64"
    using a bc block_bounds [OF ok, of a] by (auto simp: block_top_def)
  show "block_top m c \<le> unat a \<or> unat a + 48 \<le> unat c + 48"
  proof (cases "a = r")
    case False
    then have a: "a \<in> set bs" using a by simp
    obtain xs ys where bs: "bs = xs @ c # ys" using c by (meson split_list)
    with region_okD(5) [OF ok] have sp: "spaced m (unat r + 48) xs (end_of m (unat r + 48) xs)"
      "end_of m (unat r + 48) xs \<le> unat c" "spaced m (block_top m c) ys (rtop m r)"
      by (simp_all add: spaced_append rtop_def)
    from a bs consider "a = c" | "a \<in> set xs" | "a \<in> set ys" by auto
    then show ?thesis
      using spaced_bounds [OF sp(1), of a] spaced_bounds [OF sp(3), of a] sp(2)
      by cases (auto simp: block_top_def)
  qed (use bc in simp)
qed

lemma region_payload:
  assumes ok: "region_ok m1 r bs" and t: "touch (set (r # bs)) m m'" and c: "c \<in> set bs"
    and n: "n \<le> unat (b_size m1 c)"
  shows "ld m' (c + HDR) n = ld m (c + HDR) n"
proof (rule ld_cong)
  fix k assume k: "k < n"
  note bc = block_bounds [OF ok c]
  have "unat (c + HDR) = unat c + 48" using bc by (intro unat_payload [of m1]) simp
  then have u: "unat (c + HDR + of_nat k) = unat c + 48 + k"
    using bc k n by (subst unat_offset) (auto simp: block_top_def)
  have "48 \<le> unat (c + HDR + of_nat k - a)" if "a \<in> set (r # bs)" for a
    using hdr_outside_payload [OF ok c that] u k n by (intro outside_hdr) (auto simp: block_top_def)
  with t show "m' (c + HDR + of_nat k) = m (c + HDR + of_nat k)" by (simp add: touch_def)
qed

end
