(* ===== verification/HeapOps.thy ===== *)
theory HeapOps
  imports HeapSpec
begin

text \<open>
  Every operation of the heap keeps \<open>heap_ok\<close> and does to the contents what it should: placing and
  releasing inside a region, creating and destroying regions, and from them \<open>kmalloc\<close>, \<open>kcalloc\<close>,
  \<open>krealloc\<close> and \<open>kfree\<close>.
\<close>

section \<open>Inside one region\<close>

lemma heap_ok_local:
  assumes ok: "heap_ok F h (us @ (r, bs) # vs)" and ins: "inside (unat r) (rtop (h_mem h) r) (h_mem h) (h_mem h')"
    and rok: "region_ok (h_mem h') r bs'"
    and f: "r_size (h_mem h') r = r_size (h_mem h) r" "r_pages (h_mem h') r = r_pages (h_mem h) r"
      "prev_of (h_mem h') r = prev_of (h_mem h) r" "next_of (h_mem h') r = next_of (h_mem h) r"
    and s: "h_phys h' = h_phys h" "h_root h' = h_root h" "h_best h' = h_best h" "h_init h' = h_init h"
      "h_region_count h' = h_region_count h" "h_total_region_bytes h' = h_total_region_bytes h"
    and live: "h_live h' = h_live h + of_nat (length bs') - of_nat (length bs)"
    and use: "h_in_use h' = h_in_use h + (\<Sum>b\<leftarrow>bs'. ucast (b_req (h_mem h') b)) - (\<Sum>b\<leftarrow>bs. ucast (b_req (h_mem h) b))"
  shows "heap_ok F h' (us @ (r, bs') # vs)"
proof -
  let ?rs = "us @ (r, bs) # vs" and ?rs' = "us @ (r, bs') # vs" and ?m = "h_mem h" and ?m' = "h_mem h'"
  note d = heap_okD [OF ok]
  note l = regions_ok_local [OF d(6) ins rok f]
  have fst: "map fst ?rs' = map fst ?rs" by simp
  have rp: "map (region_pages (h_phys h) ?m') (map fst ?rs') = map (region_pages (h_phys h) ?m) (map fst ?rs)"
    and sz: "map (\<lambda>r. ucast (r_size ?m' r) :: u64) (map fst ?rs') = map (\<lambda>r. ucast (r_size ?m r)) (map fst ?rs)"
    unfolding fst using l(2) l(2) [of "(r, bs)"] by auto
  have o: "(\<Sum>b\<leftarrow>blocks qs. ucast (b_req ?m' b) :: u64) = (\<Sum>b\<leftarrow>blocks qs. ucast (b_req ?m b))"
    if "set qs \<subseteq> set (us @ vs)" for qs
  proof -
    have "set (blocks qs) \<subseteq> set (blocks (us @ vs))" using that by (auto simp: blocks_def)
    with other_block_same [OF d(6) ins] show ?thesis by (intro arg_cong [where f = sum_list]) auto
  qed
  have "stats_ok h' ?rs'"
    using d(8) o [of us] o [of vs] live use unfolding stats_ok_def fst [symmetric] sz
    by (simp add: s algebra_simps)
  moreover have "regions_ok (h_phys h') ?m' ?rs'" using l(1) by (simp add: s)
  moreover have "h_best h' = 0 \<or> h_best h' \<in> fst ` set ?rs'" using d(5) by (auto simp: s)
  ultimately show ?thesis
    using d(1-4,7) unfolding heap_ok_def s(1) rp by (simp add: s)
qed

text \<open>The contents: blocks outside the region are what they were.\<close>

lemma blocks_apart:
  assumes "regions_ok p m (us @ (r, bs) # vs)" "c \<in> set (blocks (us @ vs))"
    "unat r \<le> unat b" "unat b + 48 \<le> rtop m r"
  shows "c \<noteq> b"
  using other_block_in [OF assms(1,2)] assms(3,4) by (auto simp: beside_def block_top_def)

lemma view_local:
  assumes ok: "regions_ok p m (us @ (r, bs) # vs)" and ins: "inside (unat r) (rtop m r) m m'"
    and same: "\<And>a. a - HDR \<notin> set (blocks (us @ vs)) \<Longrightarrow>
      (if a - HDR \<in> set bs' then Some (ld m' a (unat (b_req m' (a - HDR)))) else None)
      = (if a - HDR \<in> set bs then Some (ld m a (unat (b_req m (a - HDR)))) else None) \<or> a = x"
    and x: "x - HDR \<notin> set (blocks (us @ vs))"
  shows "view m' (us @ (r, bs') # vs) = (view m (us @ (r, bs) # vs))
    (x := if x - HDR \<in> set bs' then Some (ld m' x (unat (b_req m' (x - HDR)))) else None)"
proof
  fix a
  note o = other_block_same [OF ok ins, of "a - HDR"]
  show "view m' (us @ (r, bs') # vs) a = ((view m (us @ (r, bs) # vs))
    (x := if x - HDR \<in> set bs' then Some (ld m' x (unat (b_req m' (x - HDR)))) else None)) a"
  proof (cases "a - HDR \<in> set (blocks (us @ vs))")
    case True
    then have "a \<noteq> x" using x by auto
    with True o show ?thesis by (auto simp: view_def)
  next
    case False
    then show ?thesis using same [OF False] by (cases "a = x") (auto simp: view_def)
  qed
qed

section \<open>Placing\<close>

lemma touch_region_inside:
  assumes "region_ok m1 r bs" "touch (set (r # bs)) m m'" "48 \<le> unat (r_size m1 r)" "r_size m1 r = r_size m r"
  shows "inside (unat r) (rtop m r) m m'"
proof (rule touch_inside [OF assms(2)])
  have t: "rtop m r = rtop m1 r" using assms(4) by (simp add: rtop_def)
  show "rtop m r \<le> 2 ^ 64" using region_okD(2) [OF assms(1)] unfolding t by (simp add: rtop_def)
  show "unat r \<le> unat a \<and> unat a + 48 \<le> rtop m r" if "a \<in> set (r # bs)" for a
    using that block_bounds [OF assms(1), of a] assms(3) unfolding t
    by (cases "a = r") (auto simp: block_top_def rtop_def)
qed

lemma upd_mem_fields [simp]:
  "h_mem (upd_mem f h) = f (h_mem h)" "h_phys (upd_mem f h) = h_phys h" "h_root (upd_mem f h) = h_root h"
  "h_best (upd_mem f h) = h_best h" "h_init (upd_mem f h) = h_init h"
  "h_region_count (upd_mem f h) = h_region_count h" "h_total_region_bytes (upd_mem f h) = h_total_region_bytes h"
  "h_in_use (upd_mem f h) = h_in_use h" "h_peak (upd_mem f h) = h_peak h" "h_live (upd_mem f h) = h_live h"
  by (simp_all add: upd_mem_def)

lemma account_fields [simp]:
  "h_mem (account q h) = h_mem h" "h_phys (account q h) = h_phys h" "h_root (account q h) = h_root h"
  "h_best (account q h) = h_best h" "h_init (account q h) = h_init h"
  "h_region_count (account q h) = h_region_count h" "h_total_region_bytes (account q h) = h_total_region_bytes h"
  "h_in_use (account q h) = h_in_use h + q" "h_live (account q h) = h_live h + 1"
  by (simp_all add: account_def Let_def)

lemma ucast_ucast_small: "(q :: u64) \<le> 0xFFFFFFFF \<Longrightarrow> ucast (ucast q :: u32) = q"
  by (simp add: word_unat_eq_iff unat_ucast_up word_le_unat32)

lemma heap_place:
  assumes ok: "heap_ok F h (us @ (r, xs @ ys) # vs)"
    and b: "unat b = end_of (h_mem h) (unat r + 48) xs" and room: "48 + unat p \<le> gap_room (h_mem h) r xs ys"
    and p: "16 dvd unat p" "p \<le> 0xFFFFFFFF" "q \<le> p"
  shows "heap_ok F (placed_in r p q xs b ys h) (us @ (r, xs @ b # ys) # vs)"
    "view (h_mem h) (us @ (r, xs @ ys) # vs) (b + HDR) = None"
    "\<exists>d. length d = unat q \<and> view (h_mem (placed_in r p q xs b ys h)) (us @ (r, xs @ b # ys) # vs)
       = (view (h_mem h) (us @ (r, xs @ ys) # vs))(b + HDR \<mapsto> d)"
    "16 dvd unat (b + HDR)" "b + HDR \<noteq> 0"
proof -
  let ?h = "placed_in r p q xs b ys h" and ?m = "h_mem h"
  let ?m' = "h_mem ?h" and ?rs = "us @ (r, xs @ ys) # vs" and ?rs' = "us @ (r, xs @ b # ys) # vs"
  note d = heap_okD [OF ok] and r = regions_okD [OF heap_okD(6) [OF ok]]
  have rok: "region_ok ?m r (xs @ ys)" using r(2) [of "(r, xs @ ys)"] by simp
  have sz: "4096 \<le> unat (r_size ?m r)" using r(3) [of "(r, xs @ ys)"] by (intro paged_size) simp
  have room': "unat b + 48 + unat p \<le> (if ys = [] then unat r + unat (r_size ?m r) else unat (hd ys))"
    using room gap_bounds(1) [OF rok] unfolding gap_room_def b [symmetric] by linarith
  have m': "?m' = insert_node (last (0 # xs)) b (head0 ys 0) r p q ?m" by (simp add: placed_in_def)
  have rok': "region_ok ?m' r (xs @ b # ys)" unfolding m' by (rule insert_node_ok [OF rok b room' p refl refl])
  have far: "sorted_wrt far (r # xs @ b # ys)"
    by (rule insert_far [OF rok b]) (use room' in \<open>simp split: if_splits\<close>)
  note f = insert_node_fields [OF far region_ok_nonzero [OF rok] refl refl, where m = ?m and p = p and q = q, folded m']
  have t: "touch (set (r # xs @ b # ys)) ?m ?m'" using f(11) by (simp add: insert_commute)
  have ins: "inside (unat r) (rtop ?m r) ?m ?m'"
    by (rule touch_region_inside [OF rok' t]) (use sz f(5) in simp_all)
  have q: "q \<le> 0xFFFFFFFF" using p by simp
  show "heap_ok F ?h ?rs'"
  proof (rule heap_ok_local [OF ok ins rok' f(5-8)])
    have "(\<Sum>c\<leftarrow>zs. ucast (b_req ?m' c) :: u64) = (\<Sum>c\<leftarrow>zs. ucast (b_req ?m c))" if "set zs \<subseteq> set (xs @ ys)" for zs
      using that f(2) by (intro arg_cong [where f = sum_list]) auto
    then show "h_in_use ?h = h_in_use h + (\<Sum>b\<leftarrow>xs @ b # ys. ucast (b_req ?m' b)) - (\<Sum>b\<leftarrow>xs @ ys. ucast (b_req ?m b))"
      by (simp add: f(4) ucast_ucast_small [OF q]) (simp add: placed_in_def)
  qed (simp_all add: placed_in_def)
  note bb = block_bounds [OF rok', of b]
  have bt: "block_top ?m' b \<le> rtop ?m r" "rtop ?m r < 2 ^ 64"
    using bb f(5) by (simp_all add: rtop_def)
  then have bh: "unat (b + HDR) = unat b + 48" by (intro unat_payload [of ?m']) simp
  with bb show "16 dvd unat (b + HDR)" "b + HDR \<noteq> 0" by (auto simp del: unat_0 simp: unat_eq_zero [symmetric])
  have apart: "b \<notin> set (blocks (us @ vs))"
    using blocks_apart [OF d(6), of b b] bt bb by (auto simp: block_top_def)
  have "b \<notin> set (xs @ ys)" using far by (auto simp: sorted_wrt_append dest: far_neq)
  with apart show "view ?m ?rs (b + HDR) = None" by (simp add: view_def)
  have "view ?m' ?rs' = (view ?m ?rs)
    (b + HDR := if b + HDR - HDR \<in> set (xs @ b # ys) then Some (ld ?m' (b + HDR) (unat (b_req ?m' (b + HDR - HDR)))) else None)"
  proof (rule view_local [OF d(6) ins])
    show "(if a - HDR \<in> set (xs @ b # ys) then Some (ld ?m' a (unat (b_req ?m' (a - HDR)))) else None)
      = (if a - HDR \<in> set (xs @ ys) then Some (ld ?m a (unat (b_req ?m (a - HDR)))) else None) \<or> a = b + HDR" for a
    proof (cases "a - HDR \<in> set (xs @ ys)")
      case True
      have "b_req ?m' (a - HDR) \<le> b_size ?m' (a - HDR)" using block_bounds(5) [OF rok', of "a - HDR"] True by auto
      then have "ld ?m' (a - HDR + HDR) (unat (b_req ?m' (a - HDR))) = ld ?m (a - HDR + HDR) (unat (b_req ?m' (a - HDR)))"
        using True by (intro region_payload [OF rok' t]) (auto simp: word_le_nat_alt)
      with True f(2) [OF True] show ?thesis by simp
    qed auto
  qed (use apart in simp)
  then have "view ?m' ?rs' = (view ?m ?rs)(b + HDR \<mapsto> ld ?m' (b + HDR) (unat (b_req ?m' b)))" by simp
  moreover have "unat (b_req ?m' b) = unat q" by (simp add: f(4) word_le_unat32 [OF q])
  ultimately show "\<exists>d. length d = unat q \<and> view ?m' ?rs' = (view ?m ?rs)(b + HDR \<mapsto> d)"
    by (metis length_ld)
qed

section \<open>The hint\<close>

lemma region_nonzero: "regions_ok p m rs \<Longrightarrow> 0 \<notin> set (map fst rs)"
  using regions_okD(3) [of p m rs] by (force simp: paged_def)

lemma best_loop_in:
  "rchain m pv rs 0 \<Longrightarrow> 0 \<notin> set rs \<Longrightarrow> \<exists>b. best_loop m (head0 rs 0) f best = Some b \<and> (b = best \<or> b \<in> set rs)"
proof (induction rs arbitrary: pv f best)
  case Nil
  then show ?case by (subst best_loop.simps) simp
next
  case (Cons r rs)
  then have r: "next_of m r = head0 rs 0" "rchain m r rs 0" "0 \<notin> set rs" "r \<noteq> 0" by simp_all
  show ?case
    using Cons.IH [OF r(2,3), of "free_bytes m r" r] Cons.IH [OF r(2,3), of f best] r(1,4)
    by (subst best_loop.simps) auto
qed

lemma heap_refresh:
  assumes "heap_ok F h rs"
  obtains b where "refresh_best_hint h = Some (h\<lparr>h_best := b\<rparr>)" "heap_ok F (h\<lparr>h_best := b\<rparr>) rs"
proof -
  note d = heap_okD [OF assms]
  from best_loop_in [OF regions_okD(1) [OF d(6)] region_nonzero [OF d(6)], of 0 0]
  obtain b where b: "best_loop (h_mem h) (h_root h) 0 0 = Some b" "b = 0 \<or> b \<in> set (map fst rs)"
    by (auto simp: d(4))
  have "heap_ok F (h\<lparr>h_best := b\<rparr>) rs"
    using assms b(2) unfolding heap_ok_def stats_ok_def by auto
  with b(1) that show thesis by (simp add: refresh_best_hint_def)
qed

section \<open>Releasing\<close>

definition released :: "u64 \<Rightarrow> u64 \<Rightarrow> heap_state \<Rightarrow> heap_state" where
  "released r b h = upd_mem (remove_node r b)
     (h\<lparr>h_in_use := h_in_use h - ucast (b_req (h_mem h) b), h_live := h_live h - 1\<rparr>)"

lemma kfree_released:
  assumes "b_magic (h_mem h) b = BLOCK_MAGIC" "b_region (h_mem h) b = r" "b + HDR \<noteq> 0"
  shows "kfree (b + HDR) h = (let h = released r b h in
    if r_first (h_mem h) r = 0 then refresh_best_hint (destroy_region r h) else refresh_best_hint h)"
proof -
  let ?h1 = "h\<lparr>h_in_use := h_in_use h - ucast (b_req (h_mem h) b), h_live := h_live h - 1\<rparr>"
  let ?h2 = "if prev_of (h_mem ?h1) b \<noteq> 0 then upd_mem (\<lambda>m. set_next (prev_of m b) (next_of m b) m) ?h1
     else upd_mem (\<lambda>m. set_first r (next_of m b) m) ?h1"
  let ?h3 = "if next_of (h_mem ?h2) b \<noteq> 0 then upd_mem (\<lambda>m. set_prev (next_of m b) (prev_of m b) m) ?h2 else ?h2"
  let ?h4 = "upd_mem (\<lambda>m. st32 m (b + 32) BLOCK_DEAD) ?h3"
  let ?h5 = "upd_mem (\<lambda>m. set_usage r (r_usage m r - ucast (HDR + ucast (b_size m b))) m) ?h4"
  have e: "?h5 = released r b h"
    by (cases "prev_of (h_mem h) b = 0"; simp add: released_def upd_mem_def remove_node_def set_magic_def Let_def)
  show ?thesis
    using assms(3) unfolding kfree_def Let_def add_diff_cancel_right' assms(1,2) e [symmetric]
    by simp
qed

lemma heap_remove:
  assumes ok: "heap_ok F h (us @ (r, xs @ b # ys) # vs)"
  shows "heap_ok F (released r b h) (us @ (r, xs @ ys) # vs)"
    "view (h_mem (released r b h)) (us @ (r, xs @ ys) # vs)
       = (view (h_mem h) (us @ (r, xs @ b # ys) # vs))(b + HDR := None)"
    "b_magic (h_mem (released r b h)) b = BLOCK_DEAD"
proof -
  let ?h = "released r b h" and ?m = "h_mem h"
  let ?m' = "h_mem ?h" and ?rs' = "us @ (r, xs @ ys) # vs" and ?rs = "us @ (r, xs @ b # ys) # vs"
  note d = heap_okD [OF ok] and r = regions_okD [OF heap_okD(6) [OF ok]]
  have rok: "region_ok ?m r (xs @ b # ys)" using r(2) [of "(r, xs @ b # ys)"] by simp
  have sz: "4096 \<le> unat (r_size ?m r)" using r(3) [of "(r, xs @ b # ys)"] by (intro paged_size) simp
  have m': "?m' = remove_node r b ?m" by (simp add: released_def)
  note f = remove_node_ok [OF rok, folded m']
  have ins: "inside (unat r) (rtop ?m r) ?m ?m'"
    by (rule touch_region_inside [OF rok f(8)]) (use sz in simp_all)
  show "b_magic (h_mem (released r b h)) b = BLOCK_DEAD" by (rule f(7))
  show "heap_ok F ?h ?rs'"
  proof (rule heap_ok_local [OF ok ins f(1,3-6)])
    have "(\<Sum>c\<leftarrow>zs. ucast (b_req ?m' c) :: u64) = (\<Sum>c\<leftarrow>zs. ucast (b_req ?m c))" if "set zs \<subseteq> set (xs @ ys)" for zs
      using that f(2) by (intro arg_cong [where f = sum_list]) auto
    then show "h_in_use ?h = h_in_use h + (\<Sum>b\<leftarrow>xs @ ys. ucast (b_req ?m' b)) - (\<Sum>b\<leftarrow>xs @ b # ys. ucast (b_req ?m b))"
      by simp (simp add: released_def)
  qed (simp_all add: released_def)
  note bb = block_bounds [OF rok, of b]
  have apart: "b \<notin> set (blocks (us @ vs))"
    using blocks_apart [OF d(6), of b b] bb by (auto simp: block_top_def)
  have nin: "b \<notin> set (xs @ ys)" using region_ok_far [OF rok] by (auto simp: sorted_wrt_append dest: far_neq)
  have "view ?m' ?rs' = (view ?m ?rs)
    (b + HDR := if b + HDR - HDR \<in> set (xs @ ys) then Some (ld ?m' (b + HDR) (unat (b_req ?m' (b + HDR - HDR)))) else None)"
  proof (rule view_local [OF d(6) ins])
    show "(if a - HDR \<in> set (xs @ ys) then Some (ld ?m' a (unat (b_req ?m' (a - HDR)))) else None)
      = (if a - HDR \<in> set (xs @ b # ys) then Some (ld ?m a (unat (b_req ?m (a - HDR)))) else None) \<or> a = b + HDR" for a
    proof (cases "a - HDR \<in> set (xs @ ys)")
      case True
      have "b_req ?m (a - HDR) \<le> b_size ?m (a - HDR)" using block_bounds(5) [OF rok, of "a - HDR"] True by auto
      then have "ld ?m' (a - HDR + HDR) (unat (b_req ?m (a - HDR))) = ld ?m (a - HDR + HDR) (unat (b_req ?m (a - HDR)))"
        using True by (intro region_payload [OF rok f(8)]) (auto simp: word_le_nat_alt)
      with True f(2) [OF True] show ?thesis by simp
    qed auto
  qed (use apart in simp)
  with nin show "view ?m' ?rs' = (view ?m ?rs)(b + HDR := None)" by simp
qed

end
