(* ===== verification/HeapLink.thy ===== *)
theory HeapLink
  imports HeapOps
begin

text \<open>Regions joining and leaving the list, with their pages.\<close>

section \<open>The list of regions\<close>

lemma sorted_wrt_mem:
  "sorted_wrt R (map f l) \<Longrightarrow> symp R \<Longrightarrow> x \<in> set l \<Longrightarrow> y \<in> set l \<Longrightarrow> x = y \<or> R (f x) (f y)"
  by (induction l) (auto dest: sympD)

lemma regions_apart:
  assumes R: "regions_ok p m rs" and xy: "x \<in> set rs" "y \<in> set rs" "x \<noteq> y"
  shows "beside (unat (fst x)) (rtop m (fst x)) (unat (fst y)) (rtop m (fst y))"
proof -
  note d = regions_okD [OF R]
  have "sorted_wrt disjnt (map (\<lambda>x. region_pages p m (fst x)) rs)" using d(4) by (simp add: comp_def)
  then have "disjnt (region_pages p m (fst x)) (region_pages p m (fst y))"
    using sorted_wrt_mem [of disjnt "\<lambda>x. region_pages p m (fst x)" rs x y] xy disjnt_sym by (auto simp: symp_def)
  with d(3) xy show ?thesis by (intro paged_beside) auto
qed

lemma region_hdr_far:
  assumes R: "regions_ok p m rs" and x: "x \<in> set rs" and y: "y \<in> set rs" and c: "c \<in> set (fst y # snd y)"
  shows "far (fst x) c \<or> x = y \<and> c = fst x"
proof (cases "x = y")
  case True
  with region_ok_far [OF regions_okD(2) [OF R y]] c show ?thesis by auto
next
  case False
  note be = regions_apart [OF R x y False] and ry = regions_okD(2) [OF R y] and rx = regions_okD(2) [OF R x]
  have "4096 \<le> unat (r_size m (fst x))" "4096 \<le> unat (r_size m (fst y))"
    by (rule paged_size [OF regions_okD(3) [OF R x]]) (rule paged_size [OF regions_okD(3) [OF R y]])
  moreover have "unat (fst y) \<le> unat c" "unat c + 48 \<le> rtop m (fst y)"
    using c block_bounds [OF ry, of c] calculation by (auto simp: block_top_def rtop_def)
  moreover note region_okD(2) [OF ry] region_okD(2) [OF rx]
  ultimately have "far (fst x) c"
    using be far_of_le [of "fst x" c] far_of_le [of c "fst x"] by (auto simp: beside_def rtop_def)
  then show ?thesis by simp
qed

lemma region_hdrs_far: "regions_ok p m rs \<Longrightarrow> sorted_wrt far (map fst rs)"
proof -
  assume R: "regions_ok p m rs"
  have "distinct rs"
  proof -
    have "rs ! i \<noteq> rs ! j" if "i < j" "j < length rs" for i j
    proof
      assume e: "rs ! i = rs ! j"
      have "disjnt (region_pages p m (fst (rs ! i))) (region_pages p m (fst (rs ! j)))"
      proof -
        have "sorted_wrt (\<lambda>x y. disjnt (region_pages p m (fst x)) (region_pages p m (fst y))) rs"
          using regions_okD(4) [OF R] by (simp add: sorted_wrt_map)
        with that show ?thesis by (simp add: sorted_wrt_iff_nth_less)
      qed
      moreover have "page_no p (fst (rs ! j)) \<in> region_pages p m (fst (rs ! j))"
        using regions_okD(3) [OF R, of "rs ! j"] that by (simp add: paged_def region_pages_def)
      ultimately show False unfolding e by (auto simp: disjnt_def)
    qed
    then show ?thesis unfolding distinct_conv_nth by (metis nat_neq_iff)
  qed
  then have "far (fst (rs ! i)) (fst (rs ! j))" if "i < j" "j < length rs" for i j
    using region_hdr_far [OF R, of "rs ! i" "rs ! j" "fst (rs ! j)"] that
    by (auto simp: distinct_conv_nth)
  then show ?thesis by (simp add: sorted_wrt_map sorted_wrt_iff_nth_less)
qed

definition unlink_region :: "u64 \<Rightarrow> u64 \<Rightarrow> memory \<Rightarrow> memory" where
  "unlink_region pv nx m =
     (let m = (if pv = 0 then m else set_next pv nx m) in if nx = 0 then m else set_prev nx pv m)"

lemma rchain_unlink:
  assumes ch: "rchain m 0 (xs @ r # ys) 0" and far: "sorted_wrt far (xs @ r # ys)" and nz: "0 \<notin> set (xs @ ys)"
  shows "rchain (unlink_region (last (0 # xs)) (head0 ys 0) m) 0 (xs @ ys) 0"
proof -
  define pv nx where "pv = last (0 # xs)" and "nx = head0 ys 0"
  define m1 where "m1 = (if pv = 0 then m else set_next pv nx m)"
  define m2 where "m2 = (if nx = 0 then m1 else set_prev nx pv m1)"
  have cx: "rchain m 0 xs r" and cy: "rchain m r ys 0" using ch by (simp_all add: rchain_append)
  have fx: "far x y" "far y x" if "x \<in> set xs" "y \<in> set ys" for x y
    using far that by (auto simp: sorted_wrt_append intro: far_sym [THEN iffD1])
  have pvx: "xs \<noteq> [] \<Longrightarrow> pv \<in> set xs \<and> pv \<noteq> 0"
  proof -
    assume "xs \<noteq> []"
    then have "last xs \<in> set xs" "pv = last xs" by (simp_all add: pv_def)
    with nz show ?thesis by (metis Un_iff set_append)
  qed
  have nxy: "ys \<noteq> [] \<Longrightarrow> nx \<in> set ys \<and> nx \<noteq> 0" using nz by (cases ys) (auto simp: nx_def)
  have z: "xs = [] \<Longrightarrow> pv = 0" "ys = [] \<Longrightarrow> nx = 0" by (simp_all add: pv_def nx_def)
  note fs = hdr_simps frame_simps relink_fields
  have "rchain m2 0 xs nx"
  proof (cases xs rule: rev_cases)
    case (snoc xs' x)
    with cx have "rchain m 0 xs' x" "prev_of m x = last (0 # xs')" by (simp_all add: rchain_append)
    moreover have m1: "m1 = set_next x nx m" using pvx by (simp add: m1_def pv_def snoc)
    moreover have "far x c" if "c \<in> set xs'" for c
      using far that far_sym [of x c] by (simp add: snoc sorted_wrt_append)
    then have "rchain m1 0 xs' x = rchain m 0 xs' x" using m1 by (intro rchain_cong) (auto simp: fs)
    ultimately have "rchain m1 0 xs nx" by (simp add: snoc rchain_append fs)
    moreover have "rchain m2 0 xs nx = rchain m1 0 xs nx"
      using fx nxy z unfolding m2_def by (intro rchain_cong, cases "ys = []") (auto simp: fs)
    ultimately show ?thesis by simp
  qed simp
  moreover have "rchain m2 pv ys 0"
  proof (cases ys)
    case (Cons y ys')
    have "rchain m1 r ys 0 = rchain m r ys 0"
      using fx pvx z unfolding m1_def by (intro rchain_cong, cases "xs = []") (auto simp: fs)
    with cy Cons have "next_of m1 y = head0 ys' 0" "rchain m1 y ys' 0" by simp_all
    moreover have m2: "m2 = set_prev y pv m1" using nxy by (simp add: m2_def nx_def Cons)
    moreover have "rchain m2 y ys' 0 = rchain m1 y ys' 0"
      using far m2 by (intro rchain_cong) (auto simp: Cons fs sorted_wrt_append)
    ultimately show ?thesis by (simp add: Cons fs)
  qed simp
  ultimately have "rchain m2 0 (xs @ ys) 0" by (simp only: rchain_append pv_def nx_def)
  then show ?thesis by (simp only: unlink_region_def Let_def m1_def m2_def pv_def nx_def)
qed

lemma rchain_link:
  assumes ch: "rchain m 0 (xs @ [t]) 0" and far: "sorted_wrt far (xs @ [t, r])" and r: "next_of m r = 0"
  shows "rchain (set_prev r t (set_next t r m)) 0 (xs @ [t, r]) 0"
proof -
  let ?m = "set_prev r t (set_next t r m)"
  note fs = hdr_simps frame_simps relink_fields
  have f: "far t r" "far r t" using far by (auto simp: sorted_wrt_append far_sym)
  have "far t c" "far r c" if "c \<in> set xs" for c
    using far that by (auto simp: sorted_wrt_append intro: far_sym [THEN iffD1])
  then have "rchain ?m 0 xs t = rchain m 0 xs t" by (intro rchain_cong) (auto simp: fs)
  with ch f r show ?thesis by (simp add: rchain_append fs)
qed

section \<open>What relinking leaves alone\<close>

lemma touch_fields:
  assumes "touch S m m'" "\<And>a. a \<in> S \<Longrightarrow> far a b"
  shows "b_size m' b = b_size m b" "b_req m' b = b_req m b" "b_magic m' b = b_magic m b"
proof -
  have o: "ld m' (b + d) n = ld m (b + d) n" if "unat d + n \<le> 48" for d n
  proof (rule ld_cong)
    fix k assume k: "k < n"
    have "of_nat (unat d) = d" by simp
    then have e: "b + d + of_nat k - a = b + of_nat (unat d + k) - a" for a by simp
    have "48 \<le> unat (b + of_nat (unat d + k) - a)" if "a \<in> S" for a
      using assms(2) [OF that] k \<open>unat d + n \<le> 48\<close>
      by (intro word_apart_offset [where n = 48]) (auto simp: far_def)
    with assms(1) show "m' (b + d + of_nat k) = m (b + d + of_nat k)"
      unfolding touch_def e [symmetric] by simp
  qed
  show "b_size m' b = b_size m b" "b_req m' b = b_req m b" "b_magic m' b = b_magic m b"
    using o [of 36 4] o [of 40 4] o [of 32 4] by (simp_all add: hdr_defs ld32_def)
qed

lemma region_touch:
  assumes R: "regions_ok p m rs" and S: "S \<subseteq> set (map fst rs)" and t: "touch S m m'" and c: "c \<in> set (blocks rs)"
  shows "b_size m' c = b_size m c" "b_req m' c = b_req m c" "b_magic m' c = b_magic m c"
    "ld m' (c + HDR) (unat (b_req m c)) = ld m (c + HDR) (unat (b_req m c))"
proof -
  obtain y where y: "y \<in> set rs" "c \<in> set (snd y)" using c by (auto simp: blocks_def)
  note ry = regions_okD(2) [OF R y(1)]
  note bc = block_bounds [OF ry y(2)]
  have "far a c" if aS: "a \<in> S" for a
  proof -
    obtain x where x: "x \<in> set rs" "a = fst x" using aS S by auto
    show ?thesis
      using region_hdr_far [OF R x(1) y(1), of c] y(2) region_ok_far [OF ry] by (auto simp: x(2))
  qed
  from touch_fields [OF t this] show "b_size m' c = b_size m c" "b_req m' c = b_req m c" "b_magic m' c = b_magic m c"
    by simp_all
  show "ld m' (c + HDR) (unat (b_req m c)) = ld m (c + HDR) (unat (b_req m c))"
  proof (rule ld_cong)
    fix k assume k: "k < unat (b_req m c)"
    have lt: "unat (b_req m c) \<le> unat (b_size m c)" using bc(5) by (simp add: word_le_nat_alt)
    have "unat (c + HDR) = unat c + 48" using bc by (intro unat_payload [of m]) simp
    then have u: "unat (c + HDR + of_nat k) = unat c + 48 + k"
      using bc k lt by (subst unat_offset) (auto simp: block_top_def)
    have "48 \<le> unat (c + HDR + of_nat k - a)" if aS: "a \<in> S" for a
    proof -
      obtain x where x: "x \<in> set rs" "a = fst x" using aS S by auto
      have "unat a + 48 \<le> rtop m a" "rtop m a < 2 ^ 64"
        using paged_size [OF regions_okD(3) [OF R x(1)]] region_okD(2) [OF regions_okD(2) [OF R x(1)]]
        by (simp_all add: rtop_def x(2))
      moreover have "a = fst y \<or> beside (unat a) (rtop m a) (unat (fst y)) (rtop m (fst y))"
        using regions_apart [OF R x(1) y(1)] by (auto simp: x(2))
      ultimately show ?thesis
        using bc k lt u by (intro outside_hdr) (auto simp: beside_def block_top_def)
    qed
    with t show "m' (c + HDR + of_nat k) = m (c + HDR + of_nat k)" by (simp add: touch_def)
  qed
qed

lemma regions_ok_relink:
  assumes R: "regions_ok p m rs" and a: "a \<in> set (map fst rs)" and x: "x \<in> set rs"
    and ok: "region_ok m' (fst x) (snd x)"
  shows "region_ok (set_next a v m') (fst x) (snd x)" "region_ok (set_prev a v m') (fst x) (snd x)"
    "r_size (set_next a v m') (fst x) = r_size m' (fst x)" "r_pages (set_next a v m') (fst x) = r_pages m' (fst x)"
    "r_size (set_prev a v m') (fst x) = r_size m' (fst x)" "r_pages (set_prev a v m') (fst x) = r_pages m' (fst x)"
proof -
  obtain z where z: "z \<in> set rs" "a = fst z" using a by auto
  have far: "far a c \<or> a = fst x \<and> c = fst x" if "c \<in> set (fst x # snd x)" for c
    using region_hdr_far [OF R z(1) x that] by (auto simp: z(2))
  show "region_ok (set_next a v m') (fst x) (snd x)" "region_ok (set_prev a v m') (fst x) (snd x)"
    by (rule region_ok_relink [OF ok far], assumption)+
  show "r_size (set_next a v m') (fst x) = r_size m' (fst x)" "r_pages (set_next a v m') (fst x) = r_pages m' (fst x)"
    "r_size (set_prev a v m') (fst x) = r_size m' (fst x)" "r_pages (set_prev a v m') (fst x) = r_pages m' (fst x)"
    using far [of "fst x"] by (auto simp: hdr_simps frame_simps)
qed

lemma view_same:
  assumes "\<And>c. c \<in> set (blocks rs) \<Longrightarrow> b_req m' c = b_req m c \<and>
     ld m' (c + HDR) (unat (b_req m c)) = ld m (c + HDR) (unat (b_req m c))"
    and "set (blocks rs') = set (blocks rs)"
  shows "view m' rs' = view m rs"
  unfolding view_def assms(2)
proof
  fix a
  show "(if a - HDR \<in> set (blocks rs) then Some (ld m' a (unat (b_req m' (a - HDR)))) else None)
    = (if a - HDR \<in> set (blocks rs) then Some (ld m a (unat (b_req m (a - HDR)))) else None)"
    using assms(1) [of "a - HDR"] by auto
qed

section \<open>Pages\<close>

lemma free_pages_consts [simp]:
  "g_hhdm_offset (free_pages p a n) = g_hhdm_offset p" "g_total_pages (free_pages p a n) = g_total_pages p"
  by (simp_all add: free_pages_def free_loop_fields)

lemma alloc_pages_consts:
  "alloc_pages p n = Some (a, p') \<Longrightarrow> g_hhdm_offset p' = g_hhdm_offset p \<and> g_total_pages p' = g_total_pages p"
  by (auto simp: alloc_pages_def split: if_splits option.splits)

lemma paged_phys:
  assumes "paged p m r" "hhdm_ok p"
  shows "g_hhdm_offset p \<le> r" "unat (r - g_hhdm_offset p) = 4096 * page_no p r"
    "pages_of (r - g_hhdm_offset p) (ucast (r_pages m r)) = region_pages p m r"
    "PAGE_SIZE \<le> r - g_hhdm_offset p" "(r - g_hhdm_offset p) mod PAGE_SIZE = 0"
proof -
  note u = assms(1)[unfolded paged_def]
  show le: "g_hhdm_offset p \<le> r" using u by (simp add: word_le_nat_alt)
  show s: "unat (r - g_hhdm_offset p) = 4096 * page_no p r"
    using u by (subst unat_sub_no_underflow [OF le]) linarith
  show "pages_of (r - g_hhdm_offset p) (ucast (r_pages m r)) = region_pages p m r"
    by (simp add: pages_of_def region_pages_def unat_div s PAGE_SIZE_def unat_ucast_up)
  show "PAGE_SIZE \<le> r - g_hhdm_offset p" using u by (simp add: word_le_nat_alt s PAGE_SIZE_def)
  show "(r - g_hhdm_offset p) mod PAGE_SIZE = 0"
    by (simp add: word_unat_eq_iff unat_mod s PAGE_SIZE_def)
qed

section \<open>Giving a region back\<close>

lemma destroy_region_unlinked:
  assumes "r \<noteq> 0" "far pv r \<or> pv = 0" "far nx r \<or> nx = 0" "prev_of (h_mem h) r = pv" "next_of (h_mem h) r = nx"
  shows "destroy_region r h = region_free r (ucast (r_pages (h_mem h) r))
     (h\<lparr>h_mem := unlink_region pv nx (h_mem h), h_root := (if h_root h = r then nx else h_root h),
        h_best := (if h_best h = r then 0 else h_best h),
        h_total_region_bytes := h_total_region_bytes h - ucast (r_size (h_mem h) r),
        h_region_count := h_region_count h - 1\<rparr>)"
proof -
  let ?m = "h_mem h"
  define h1 where "h1 = (if pv \<noteq> 0 then upd_mem (set_next pv nx) h else h)"
  define h2 where "h2 = (if nx \<noteq> 0 then upd_mem (set_prev nx pv) h1 else h1)"
  note fs = hdr_simps frame_simps relink_fields
  have e1: "(if prev_of ?m r \<noteq> 0 then upd_mem (\<lambda>m. set_next (prev_of m r) (next_of m r) m) h else h) = h1"
    using assms(4,5) by (simp add: h1_def upd_mem_def)
  have f1: "prev_of (h_mem h1) r = pv" "next_of (h_mem h1) r = nx"
    using assms by (auto simp: h1_def fs)
  then have e2: "(if next_of (h_mem h1) r \<noteq> 0 then upd_mem (\<lambda>m. set_prev (next_of m r) (prev_of m r) m) h1 else h1) = h2"
    by (simp add: h2_def upd_mem_def)
  have f2: "next_of (h_mem h2) r = nx" "r_size (h_mem h2) r = r_size ?m r" "r_pages (h_mem h2) r = r_pages ?m r"
    using assms f1 by (auto simp: h2_def h1_def fs)
  have h2: "h2 = h\<lparr>h_mem := unlink_region pv nx ?m\<rparr>"
    by (simp add: h2_def h1_def upd_mem_def unlink_region_def Let_def)
  show ?thesis
    using assms(1) f2 unfolding destroy_region_def Let_def e1 e2
    by (simp add: h2)
qed

lemma region_no_node: "regions_ok p m rs \<Longrightarrow> x \<in> set rs \<Longrightarrow> fst x \<noteq> 0"
  using region_nonzero [of p m rs] by force

lemma unlink_region_ok:
  assumes R: "regions_ok p m rs" and x: "x \<in> set rs"
    and pv: "pv = 0 \<or> pv \<in> set (map fst rs)" and nx: "nx = 0 \<or> nx \<in> set (map fst rs)"
  shows "region_ok (unlink_region pv nx m) (fst x) (snd x)"
    "r_size (unlink_region pv nx m) (fst x) = r_size m (fst x)"
    "r_pages (unlink_region pv nx m) (fst x) = r_pages m (fst x)"
proof -
  define m1 where "m1 = (if pv = 0 then m else set_next pv nx m)"
  have e: "unlink_region pv nx m = (if nx = 0 then m1 else set_prev nx pv m1)"
    by (simp add: unlink_region_def Let_def m1_def)
  note rl = regions_ok_relink [OF R _ x]
  have 1: "region_ok m1 (fst x) (snd x)" "r_size m1 (fst x) = r_size m (fst x)" "r_pages m1 (fst x) = r_pages m (fst x)"
    using rl [OF _ regions_okD(2) [OF R x], of pv] regions_okD(2) [OF R x] pv unfolding m1_def
    by (cases "pv = 0"; simp)+
  have "region_ok m' (fst x) (snd x) \<and> r_size m' (fst x) = r_size m (fst x) \<and> r_pages m' (fst x) = r_pages m (fst x)"
    if "m' = (if nx = 0 then m1 else set_prev nx pv m1)" for m'
    using rl [OF _ 1(1), of nx] 1 nx that by (cases "nx = 0") simp_all
  from this [OF e] show "region_ok (unlink_region pv nx m) (fst x) (snd x)"
    "r_size (unlink_region pv nx m) (fst x) = r_size m (fst x)"
    "r_pages (unlink_region pv nx m) (fst x) = r_pages m (fst x)" by blast+
qed

lemma unlink_region_touch: "touch {a. (a = pv \<or> a = nx) \<and> a \<noteq> 0} m (unlink_region pv nx m)"
  unfolding unlink_region_def Let_def
  by (auto intro: touch_step [OF touch_step [OF touch_refl hdr_only_sets(2)] hdr_only_sets(1)]
      touch_step [OF touch_refl hdr_only_sets(2)] touch_step [OF touch_refl hdr_only_sets(1)])

lemma heap_destroy:
  assumes ok: "heap_ok F h (us @ (r, []) # vs)"
  shows "heap_ok F (destroy_region r h) (us @ vs)"
    "view (h_mem (destroy_region r h)) (us @ vs) = view (h_mem h) (us @ (r, []) # vs)"
    "\<And>c. unat r + 48 \<le> unat c \<Longrightarrow> unat c + 48 \<le> rtop (h_mem h) r \<Longrightarrow>
      b_magic (h_mem (destroy_region r h)) c = b_magic (h_mem h) c"
proof -
  let ?rs = "us @ (r, []) # vs" and ?m = "h_mem h" and ?p = "h_phys h"
  define pv nx where "pv = last (0 # map fst us)" and "nx = head0 (map fst vs) 0"
  let ?m' = "unlink_region pv nx ?m" and ?hh = "g_hhdm_offset ?p"
  let ?p' = "free_pages ?p (r - ?hh) (ucast (r_pages ?m r))"
  note d = heap_okD [OF ok] and R = regions_okD [OF heap_okD(6) [OF ok]]
  have r: "r \<noteq> 0" "paged ?p ?m r" using R(3) [of "(r, [])"] region_no_node [OF d(6), of "(r, [])"] by simp_all
  note pg = paged_phys [OF r(2) d(3)]
  have "sorted_wrt far (map fst us @ r # map fst vs)" using region_hdrs_far [OF d(6)] by simp
  note far = this
  have pvc: "pv = 0 \<or> pv \<in> set (map fst us)"
    using last_in_set [of "map fst us"] by (auto simp: pv_def simp del: last_map)
  have nxc: "nx = 0 \<or> nx \<in> set (map fst vs)" by (cases vs) (simp_all add: nx_def)
  have fr: "far pv r \<or> pv = 0" "far nx r \<or> nx = 0"
    using far pvc nxc by (auto simp: sorted_wrt_append intro: far_sym [THEN iffD1])
  have ch: "rchain ?m 0 (map fst us @ r # map fst vs) 0" using R(1) by simp
  then have lk: "prev_of ?m r = pv" "next_of ?m r = nx" by (simp_all add: rchain_append pv_def nx_def)
  define h' where "h' = h\<lparr>h_mem := ?m', h_root := (if h_root h = r then nx else h_root h),
        h_best := (if h_best h = r then 0 else h_best h),
        h_total_region_bytes := h_total_region_bytes h - ucast (r_size ?m r),
        h_region_count := h_region_count h - 1, h_phys := ?p'\<rparr>"
  have e: "destroy_region r h = h'"
    using destroy_region_unlinked [OF r(1) fr lk] r(1) d(3) pg(1)
    by (auto simp: region_free_def Let_def h'_def hhdm_ok_def not_less)
  have pvr: "pv = 0 \<or> pv \<in> set (map fst ?rs)" and nxr: "nx = 0 \<or> nx \<in> set (map fst ?rs)"
    using pvc nxc by auto
  note un = unlink_region_ok [OF d(6) _ pvr nxr]
  have pages: "region_pages ?p' ?m' (fst x) = region_pages ?p ?m (fst x)" "page_no ?p' a = page_no ?p a"
    if "x \<in> set ?rs" for x a
    using un(3) [OF that] by (simp_all add: region_pages_def page_no_def)
  have mp: "map (region_pages ?p' ?m') (map fst qs) = map (region_pages ?p ?m) (map fst qs)"
    if "set qs \<subseteq> set ?rs" for qs
  proof -
    have "region_pages ?p' ?m' (fst x) = region_pages ?p ?m (fst x)" if "x \<in> set qs" for x
      by (rule pages(1)) (use that \<open>set qs \<subseteq> set ?rs\<close> in blast)
    then show ?thesis by simp
  qed
  have fs: "free_set ?p' = free_set ?p \<union> region_pages ?p ?m r"
  proof -
    have "region_pages ?p ?m r \<subseteq> {..<unat (g_total_pages ?p)}"
      using r(2) by (auto simp: region_pages_def paged_def)
    then show ?thesis using free_pages_free_set [OF d(2) pg(4,5), of "ucast (r_pages ?m r)"] by (auto simp: pg(3))
  qed
  have reg: "regions_ok ?p' ?m' (us @ vs)"
    unfolding regions_ok_def
  proof (intro conjI ballI)
    show "rchain ?m' 0 (map fst (us @ vs)) 0"
      using rchain_unlink [OF ch far] region_nonzero [OF d(6)] by (simp add: pv_def nx_def)
    show "region_ok ?m' (fst x) (snd x)" "paged ?p' ?m' (fst x)" if "x \<in> set (us @ vs)" for x
    proof -
      have x: "x \<in> set ?rs" using that by auto
      show "region_ok ?m' (fst x) (snd x)" by (rule un(1) [OF x])
      show "paged ?p' ?m' (fst x)" using R(3) [OF x] un(2,3) [OF x] by (simp add: paged_def page_no_def)
    qed
    have e: "map (region_pages ?p' ?m') (map fst (us @ vs)) = map (region_pages ?p ?m) (map fst (us @ vs))"
      by (rule mp) auto
    show "sorted_wrt disjnt (free_set ?p' # map (region_pages ?p' ?m') (map fst (us @ vs)))"
      unfolding e fs using R(4) by (auto simp: sorted_wrt_append disjnt_def)
  qed
  have sz: "map (\<lambda>r. ucast (r_size ?m' r) :: u64) (map fst (us @ vs)) = map (\<lambda>r. ucast (r_size ?m r)) (map fst (us @ vs))"
    using un(2) by auto
  have S: "{a. (a = pv \<or> a = nx) \<and> a \<noteq> 0} \<subseteq> set (map fst ?rs)" using pvr nxr by auto
  note rt = region_touch [OF d(6) S unlink_region_touch]
  have st: "stats_ok h' (us @ vs)"
  proof -
    have "(\<Sum>b\<leftarrow>blocks qs. ucast (b_req ?m' b) :: u64) = (\<Sum>b\<leftarrow>blocks qs. ucast (b_req ?m b))"
      if "set qs \<subseteq> set ?rs" for qs
    proof -
      have "set (blocks qs) \<subseteq> set (blocks ?rs)" using that by (auto simp: blocks_def)
      with rt(2) show ?thesis by (intro arg_cong [where f = sum_list]) auto
    qed
    from this [of "us @ vs"]
    have u: "(\<Sum>b\<leftarrow>blocks (us @ vs). ucast (b_req ?m' b) :: u64) = (\<Sum>b\<leftarrow>blocks (us @ vs). ucast (b_req ?m b))"
      by fastforce
    have f: "h_region_count h' = h_region_count h - 1" "h_live h' = h_live h" "h_in_use h' = h_in_use h"
      "h_total_region_bytes h' = h_total_region_bytes h - ucast (r_size ?m r)" "h_mem h' = ?m'"
      by (simp_all add: h'_def)
    from d(8) show ?thesis unfolding stats_ok_def f sz u by simp
  qed
  have root: "h_root h' = head0 (map fst (us @ vs)) 0"
  proof (cases us)
    case (Cons u us')
    then have "fst u \<noteq> r" using far by (auto dest: far_neq)
    with d(4) show ?thesis by (simp add: h'_def Cons)
  qed (use d(4) in \<open>simp add: h'_def nx_def\<close>)
  show "heap_ok F (destroy_region r h) (us @ vs)"
  proof -
    have e2: "map (region_pages ?p' ?m') (map fst (us @ vs)) = map (region_pages ?p ?m) (map fst (us @ vs))"
      by (rule mp) auto
    have "F = free_set ?p' \<union> \<Union> (set (map (region_pages ?p' ?m') (map fst (us @ vs))))"
      unfolding e2 fs using d(7) by auto
    moreover have "hhdm_ok ?p'" using d(3) by (simp add: hhdm_ok_def)
    moreover have "h_best h' = 0 \<or> h_best h' \<in> fst ` set (us @ vs)" using d(5) by (auto simp: h'_def)
    ultimately show ?thesis
      using d(1) free_pages_inv [OF d(2) pg(4)] root reg st unfolding e heap_ok_def
      by (simp add: h'_def)
  qed
  show "view (h_mem (destroy_region r h)) (us @ vs) = view ?m ?rs"
    unfolding e h'_def using rt by (intro view_same) auto
  show "b_magic (h_mem (destroy_region r h)) c = b_magic ?m c"
    if c: "unat r + 48 \<le> unat c" "unat c + 48 \<le> rtop ?m r" for c
  proof -
    have rok: "region_ok ?m r []" using R(2) [of "(r, [])"] by simp
    have "far a c" if a: "a = pv \<or> a = nx" "a \<noteq> 0" for a
    proof -
      obtain x where x: "x \<in> set (us @ vs)" "a = fst x" using pvc nxc a by auto
      have x': "x \<in> set ?rs" using x(1) by auto
      have "beside (unat a) (rtop ?m a) (unat r) (rtop ?m r)" using regions_beside [OF d(6) x(1)] by (simp add: x(2))
      then show ?thesis
        using c paged_size [OF R(3) [OF x']] region_okD(2) [OF R(2) [OF x']] region_okD(2) [OF rok]
          far_of_le [of a c] far_of_le [of c a] by (auto simp: beside_def rtop_def x(2))
    qed
    then have "b_magic ?m' c = b_magic ?m c"
      by (intro touch_fields(3) [OF unlink_region_touch]) auto
    then show ?thesis by (simp add: e h'_def)
  qed
qed

end
