(* ===== verification/HeapCreate.thy ===== *)
theory HeapCreate
  imports HeapLink
begin

text \<open>Taking a new region from the page allocator.\<close>

section \<open>Memory next to the regions\<close>

lemma hdr_only_inside: "hdr_only a m m' \<Longrightarrow> unat a + 48 \<le> hi \<Longrightarrow> hi \<le> 2 ^ 64 \<Longrightarrow> inside (unat a) hi m m'"
  by (auto simp: hdr_only_def inside_def outside_hdr)

lemma region_same_beside:
  assumes ins: "inside lo hi m m'" and b: "beside (unat r) (rtop m r) lo hi"
    and ok: "region_ok m r bs" and sz: "48 \<le> unat (r_size m r)"
  shows "region_ok m' r bs" "prev_of m' r = prev_of m r" "next_of m' r = next_of m r"
    "r_size m' r = r_size m r" "r_pages m' r = r_pages m r"
    "c \<in> set bs \<Longrightarrow> b_req m' c = b_req m c \<and> b_size m' c = b_size m c \<and> b_magic m' c = b_magic m c"
    "c \<in> set bs \<Longrightarrow> ld m' (c + HDR) (unat (b_req m c)) = ld m (c + HDR) (unat (b_req m c))"
proof -
  show "region_ok m' r bs" by (rule region_ok_inside [OF ins b ok sz])
  have "unat r + 48 \<le> lo \<or> hi \<le> unat r" "unat r + 48 \<le> 2 ^ 64"
    using b sz region_okD(2) [OF ok] by (auto simp: beside_def rtop_def)
  from inside_fields [OF ins this]
  show "prev_of m' r = prev_of m r" "next_of m' r = next_of m r"
    "r_size m' r = r_size m r" "r_pages m' r = r_pages m r" by simp_all
  show "b_req m' c = b_req m c \<and> b_size m' c = b_size m c \<and> b_magic m' c = b_magic m c" if c: "c \<in> set bs"
  proof -
    note bc = block_bounds [OF ok c]
    have "unat c + 48 \<le> lo \<or> hi \<le> unat c" "unat c + 48 \<le> 2 ^ 64"
      using b bc by (auto simp: beside_def block_top_def)
    from inside_fields [OF ins this] show ?thesis by simp
  qed
  show "ld m' (c + HDR) (unat (b_req m c)) = ld m (c + HDR) (unat (b_req m c))" if c: "c \<in> set bs"
  proof -
    note bc = block_bounds [OF ok c]
    have "unat (b_req m c) \<le> unat (b_size m c)" using bc(5) by (simp add: word_le_nat_alt)
    moreover have "unat (c + HDR) = unat c + 48" using bc by (intro unat_payload [of m]) simp
    ultimately show ?thesis using b bc by (intro inside_ld [OF ins]) (auto simp: beside_def block_top_def)
  qed
qed

text \<open>The new header is written, then linked after the last region.\<close>

definition append_region :: "u64 \<Rightarrow> u64 \<Rightarrow> u64 list \<Rightarrow> memory \<Rightarrow> memory" where
  "append_region r pages rs m =
     (let m = init_region r pages m in if rs = [] then m else set_prev r (last rs) (set_next (last rs) r m))"

lemma append_region_ok:
  assumes R: "regions_ok p m rs" and top: "unat r + 4096 \<le> hi" "hi < 2 ^ 64"
    and b: "\<And>x. x \<in> set rs \<Longrightarrow> beside (unat (fst x)) (rtop m (fst x)) (unat r) hi"
    and r: "16 dvd unat r" "unat (ucast (pages * PAGE_SIZE) :: u32) = hi - unat r"
  shows "rchain (append_region r pages (map fst rs) m) 0 (map fst rs @ [r]) 0"
    "x \<in> set rs \<Longrightarrow> region_ok (append_region r pages (map fst rs) m) (fst x) (snd x)"
    "x \<in> set rs \<Longrightarrow> r_size (append_region r pages (map fst rs) m) (fst x) = r_size m (fst x)"
    "x \<in> set rs \<Longrightarrow> r_pages (append_region r pages (map fst rs) m) (fst x) = r_pages m (fst x)"
    "region_ok (append_region r pages (map fst rs) m) r []"
    "r_size (append_region r pages (map fst rs) m) r = ucast (pages * PAGE_SIZE)"
    "r_pages (append_region r pages (map fst rs) m) r = ucast pages"
    "c \<in> set (blocks rs) \<Longrightarrow> b_req (append_region r pages (map fst rs) m) c = b_req m c \<and>
      ld (append_region r pages (map fst rs) m) (c + HDR) (unat (b_req m c)) = ld m (c + HDR) (unat (b_req m c))"
proof -
  let ?m' = "append_region r pages (map fst rs) m"
  define m1 where "m1 = init_region r pages m"
  define t where "t = last (map fst rs)"
  have m': "?m' = (if rs = [] then m1 else set_prev r t (set_next t r m1))"
    by (simp add: append_region_def Let_def m1_def t_def)
  note Rd = regions_okD [OF R]
  have sz: "4096 \<le> unat (r_size m (fst x))" if "x \<in> set rs" for x by (rule paged_size [OF Rd(3) [OF that]])
  have ins1: "inside (unat r) hi m m1"
    unfolding m1_def using top by (intro hdr_only_inside hdr_only_inits) simp_all
  have same1: "region_ok m1 (fst x) (snd x)" "prev_of m1 (fst x) = prev_of m (fst x)" "next_of m1 (fst x) = next_of m (fst x)"
    "r_size m1 (fst x) = r_size m (fst x)" "r_pages m1 (fst x) = r_pages m (fst x)"
    "c \<in> set (snd x) \<Longrightarrow> b_req m1 c = b_req m c"
    "c \<in> set (snd x) \<Longrightarrow> ld m1 (c + HDR) (unat (b_req m c)) = ld m (c + HDR) (unat (b_req m c))"
    if "x \<in> set rs" for x c
    using region_same_beside [OF ins1 b [OF that] Rd(2) [OF that]] sz [OF that] by simp_all
  have R1: "regions_ok p m1 rs"
    unfolding regions_ok_def
  proof (intro conjI ballI)
    show "rchain m1 0 (map fst rs) 0" using Rd(1) same1(2,3) by (subst rchain_cong [where m = m]) auto
    show "region_ok m1 (fst x) (snd x)" "paged p m1 (fst x)" if "x \<in> set rs" for x
      using same1 [OF that] Rd(3) [OF that] by (simp_all add: paged_def)
    have e: "map (region_pages p m1) (map fst rs) = map (region_pages p m) (map fst rs)"
      using same1(5) by (simp add: region_pages_def)
    show "sorted_wrt disjnt (free_set p # map (region_pages p m1) (map fst rs))" unfolding e by (rule Rd(4))
  qed
  have farr: "far (fst x) r" "far r (fst x)" if x: "x \<in> set rs" for x
    using b [OF x] sz [OF x] region_okD(2) [OF Rd(2) [OF x]] top far_of_le [of "fst x" r] far_of_le [of r "fst x"]
    by (auto simp: beside_def rtop_def)
  have far: "sorted_wrt far (map fst rs @ [r])" using region_hdrs_far [OF R] farr by (auto simp: sorted_wrt_append)
  have t: "rs \<noteq> [] \<Longrightarrow> t \<in> set (map fst rs)" unfolding t_def by (rule last_in_set) simp
  have tr: "rs \<noteq> [] \<Longrightarrow> far t r \<and> far r t" using t farr by auto
  note fs = hdr_simps frame_simps relink_fields
  show "rchain ?m' 0 (map fst rs @ [r]) 0"
  proof (cases "rs = []")
    case False
    then obtain qs where q: "map fst rs = qs @ [t]" unfolding t_def by (metis append_butlast_last_id map_is_Nil_conv)
    have "rchain (set_prev r t (set_next t r m1)) 0 (qs @ [t, r]) 0"
      by (rule rchain_link) (use regions_okD(1) [OF R1] far in \<open>simp_all add: q m1_def hdr_simps\<close>)
    with False show ?thesis unfolding m' by (simp add: q)
  qed (simp add: append_region_def hdr_simps)
  have rf: "r_size ?m' r = r_size m1 r" "r_pages ?m' r = r_pages m1 r" "r_first ?m' r = r_first m1 r" "r_usage ?m' r = r_usage m1 r"
    using tr unfolding m' by (auto simp: fs)
  show rsz: "r_size ?m' r = ucast (pages * PAGE_SIZE)" "r_pages ?m' r = ucast pages"
    unfolding rf by (simp_all add: m1_def hdr_simps)
  show "region_ok ?m' r []"
    unfolding region_ok_def rsz r(2) rf(3,4) using top r(1) by (simp add: m1_def hdr_simps used_bytes_def)
  have x2: "region_ok ?m' (fst x) (snd x) \<and> r_size ?m' (fst x) = r_size m (fst x) \<and> r_pages ?m' (fst x) = r_pages m (fst x)
     \<and> (\<forall>c \<in> set (snd x). b_req ?m' c = b_req m c \<and> ld ?m' (c + HDR) (unat (b_req m c)) = ld m (c + HDR) (unat (b_req m c)))"
    if x: "x \<in> set rs" for x
  proof (cases "rs = []")
    case False
    define m2 where "m2 = set_next t r m1"
    note rl = regions_ok_relink [OF R1 t [OF False] x same1(1) [OF x], of r, folded m2_def]
    have ins2: "inside (unat r) hi m2 (set_prev r t m2)"
      using top by (intro hdr_only_inside hdr_only_sets) simp_all
    have be: "beside (unat (fst x)) (rtop m2 (fst x)) (unat r) hi"
      using b [OF x] rl(3) same1(4) [OF x] by (simp add: rtop_def)
    note s2 = region_same_beside [OF ins2 be rl(1)]
    have bt: "b_req m2 c = b_req m c" "ld m2 (c + HDR) (unat (b_req m c)) = ld m (c + HDR) (unat (b_req m c))"
      if c: "c \<in> set (snd x)" for c
    proof -
      have "c \<in> set (blocks rs)" using c x by (auto simp: blocks_def)
      moreover have "touch {t} m1 m2" unfolding m2_def by (rule touch_step [OF touch_refl hdr_only_sets(2)]) simp
      moreover have "{t} \<subseteq> set (map fst rs)" using t [OF False] by simp
      ultimately show "b_req m2 c = b_req m c" "ld m2 (c + HDR) (unat (b_req m c)) = ld m (c + HDR) (unat (b_req m c))"
        using region_touch(2,4) [OF R1] same1(6,7) [OF x c] by metis+
    qed
    have "48 \<le> unat (r_size m2 (fst x))" using rl(3) same1(4) [OF x] sz [OF x] by simp
    note s2 = s2 [OF this]
    have "b_req (set_prev r t m2) c = b_req m c \<and>
        ld (set_prev r t m2) (c + HDR) (unat (b_req m c)) = ld m (c + HDR) (unat (b_req m c))" if c: "c \<in> set (snd x)" for c
      using s2(6,7) [OF c] bt [OF c] by simp
    moreover have "?m' = set_prev r t m2" using False by (simp add: m' m2_def)
    ultimately show ?thesis using s2(1,4,5) rl(3,4) same1(4,5) [OF x] by simp
  qed (use x in simp)
  then show "x \<in> set rs \<Longrightarrow> region_ok ?m' (fst x) (snd x)" "x \<in> set rs \<Longrightarrow> r_size ?m' (fst x) = r_size m (fst x)"
    "x \<in> set rs \<Longrightarrow> r_pages ?m' (fst x) = r_pages m (fst x)" for x by blast+
  show "b_req ?m' c = b_req m c \<and> ld ?m' (c + HDR) (unat (b_req m c)) = ld m (c + HDR) (unat (b_req m c))"
    if "c \<in> set (blocks rs)"
    using that x2 by (auto simp: blocks_def)
qed

section \<open>Creating a region\<close>

definition region_need :: "u64 \<Rightarrow> u64" where
  "region_need p = (let n = (p + HDR + HDR + PAGE_SIZE - 1) div PAGE_SIZE in if n < MIN_REGION_PAGES then MIN_REGION_PAGES else n)"

lemma region_need:
  assumes "p \<le> 0xFFFFFFFF"
  shows "96 + unat p \<le> 4096 * unat (region_need p)" "0 < unat (region_need p)"
    "\<not> region_need p > 0xFFFFFFFF div PAGE_SIZE \<Longrightarrow> unat (region_need p) \<le> 1048575"
proof -
  have "unat p \<le> 4294967295" using assms by (simp add: word_le_nat_alt)
  then have u: "unat (p + HDR + HDR + PAGE_SIZE - 1) = unat p + 96 + 4095"
    by (simp add: HDR_def PAGE_SIZE_def) (subst unat_add_no_overflow; simp)
  have d: "unat ((p + HDR + HDR + PAGE_SIZE - 1) div PAGE_SIZE) = (unat p + 4191) div 4096"
    unfolding unat_div u by (simp add: PAGE_SIZE_def)
  then show "96 + unat p \<le> 4096 * unat (region_need p)" "0 < unat (region_need p)"
    by (auto simp: region_need_def Let_def MIN_REGION_PAGES_def word_less_nat_alt)
  show "\<not> region_need p > 0xFFFFFFFF div PAGE_SIZE \<Longrightarrow> unat (region_need p) \<le> 1048575"
    by (simp add: PAGE_SIZE_def word_le_nat_alt not_less)
qed

lemma link_region_append:
  assumes "regions_ok p m rs" "h_root h = head0 (map fst rs) 0" "r \<noteq> 0"
    and ch: "h_mem h = init_region r pages m" "rchain (h_mem h) 0 (map fst rs) 0"
  shows "link_region h r = Some (h\<lparr>h_root := head0 (map fst rs @ [r]) 0, h_mem := append_region r pages (map fst rs) m\<rparr>)"
proof (cases rs)
  case Nil
  then show ?thesis using assms by (simp add: link_region_def append_region_def)
next
  case (Cons x qs)
  have nz: "0 \<notin> set (map fst rs)" by (rule region_nonzero [OF assms(1)])
  have "last_of (h_mem h) a = Some (last (a # as))" if "rchain (h_mem h) pv (a # as) 0" "0 \<notin> set (a # as)" for pv a as
    using that
  proof (induction as arbitrary: pv a)
    case Nil
    then show ?case by (subst last_of.simps) simp
  next
    case (Cons c as)
    then have "next_of (h_mem h) a = c" "rchain (h_mem h) a (c # as) 0" "c \<noteq> 0" "a \<noteq> 0" by simp_all
    with Cons.IH [of a c] Cons.prems show ?case by (subst last_of.simps) simp
  qed
  from this [of 0 "fst x" "map fst qs"] ch(2) nz
  have "last_of (h_mem h) (h_root h) = Some (last (map fst rs))" by (simp add: Cons assms(2))
  then show ?thesis
    using Cons assms(2) nz by (auto simp: link_region_def append_region_def Let_def upd_mem_def ch(1))
qed

lemma heap_create:
  assumes ok: "heap_ok F h rs" and p: "p \<le> 0xFFFFFFFF"
  shows "create_region h p = Some (0, h) \<or>
    (\<exists>r h'. create_region h p = Some (r, h') \<and> r \<noteq> 0 \<and> heap_ok F h' (rs @ [(r, [])])
      \<and> view (h_mem h') (rs @ [(r, [])]) = view (h_mem h) rs \<and> 96 + unat p \<le> unat (r_size (h_mem h') r)
      \<and> h_best h' = h_best h)"
proof -
  let ?n = "region_need p" and ?p = "h_phys h" and ?m = "h_mem h"
  let ?hh = "g_hhdm_offset ?p"
  note d = heap_okD [OF ok] and R = regions_okD [OF heap_okD(6) [OF ok]] and nd = region_need [OF p]
  have cr: "create_region h p = (if ?n > 0xFFFFFFFF div PAGE_SIZE then Some (0, h)
      else case region_alloc h (ucast (ucast ?n :: u32)) of None \<Rightarrow> None
      | Some (r, h) \<Rightarrow>
          if r = 0 then Some (0, h)
          else case link_region (upd_mem (init_region r ?n) h) r of None \<Rightarrow> None
          | Some h \<Rightarrow> Some (r, h\<lparr>h_total_region_bytes := h_total_region_bytes h + ucast (r_size (h_mem h) r),
                               h_region_count := h_region_count h + 1\<rparr>))"
    unfolding create_region_def region_need_def Let_def by (rule refl)
  show ?thesis
  proof (cases "?n > 0xFFFFFFFF div PAGE_SIZE")
    case True
    then show ?thesis by (simp add: cr)
  next
    case False
    then have n: "unat ?n \<le> 1048575" by (rule nd(3))
    then have "?n \<le> 0xFFFFFFFF" by (simp add: word_le_nat_alt)
    then have nn: "ucast (ucast ?n :: u32) = ?n" "unat (ucast ?n :: u32) = unat ?n"
      by (simp_all add: ucast_ucast_small word_le_unat32)
    obtain a p' where al: "alloc_pages ?p ?n = Some (a, p')" using pp.alloc_defined [OF d(2)] by fastforce
    show ?thesis
    proof (cases "a = 0")
      case True
      with al have "p' = ?p" using pp.alloc_fail [OF d(2)] by simp
      with False al True show ?thesis by (simp add: cr nn region_alloc_def)
    next
      case a: False
      note fr = alloc_pages_fresh [OF d(2) al a] and c = alloc_pages_consts [OF al]
      define q where "q = unat (a div PAGE_SIZE)"
      define r where "r = a + ?hh"
      have ua: "unat a = 4096 * q"
        using fr(1) by (simp add: q_def unat_div PAGE_SIZE_def word_unat_eq_iff unat_mod)
          (metis dvd_mult_div_cancel mod_0_imp_dvd)
      have pg: "pages_of a ?n = {q..<q + unat ?n}" by (simp add: pages_of_def q_def)
      have q: "0 < q" using a ua by (metis mult_0_right neq0_conv unat_eq_zero)
      have "q + unat ?n - 1 \<in> pages_of a ?n" using nd(2) by (auto simp: pg)
      with fr(2) have qt: "q + unat ?n \<le> unat (g_total_pages ?p)" using nd(2) by (auto simp: free_set_def)
      have hh: "unat ?hh + 4096 * unat (g_total_pages ?p) < 2 ^ 64" "16 dvd unat ?hh" "?hh \<noteq> 0"
        using d(3) by (auto simp: hhdm_ok_def)
      have ur: "unat r = unat ?hh + 4096 * q"
        unfolding r_def using hh(1) qt by (subst unat_add_no_overflow) (simp_all add: ua)
      have r0: "r \<noteq> 0" using ur q by auto
      have sz: "unat (ucast (?n * PAGE_SIZE) :: u32) = 4096 * unat ?n"
      proof -
        have "unat (?n * PAGE_SIZE) = 4096 * unat ?n"
          using n by (subst unat_mult_no_overflow) (simp_all add: PAGE_SIZE_def)
        moreover from this have "?n * PAGE_SIZE \<le> 0xFFFFFFFF" using n by (simp add: word_le_nat_alt)
        ultimately show ?thesis by (simp add: word_le_unat32)
      qed
      define hi where "hi = unat r + 4096 * unat ?n"
      have hi: "unat r + 4096 \<le> hi" "hi < 2 ^ 64" using nd(2) hh(1) qt by (simp_all add: hi_def ur)
      have old: "page_no ?p (fst x) + unat (r_pages ?m (fst x)) \<le> q \<or> q + unat ?n \<le> page_no ?p (fst x)"
        if x: "x \<in> set rs" for x
      proof -
        have "disjnt (free_set ?p) (region_pages ?p ?m (fst x))" using R(4) x by auto
        then have dj: "{q..<q + unat ?n} \<inter> region_pages ?p ?m (fst x) = {}" using fr(2) by (auto simp: pg disjnt_def)
        show ?thesis
        proof (rule ccontr)
          assume "\<not> ?thesis"
          then have "max q (page_no ?p (fst x)) \<in> {q..<q + unat ?n} \<inter> region_pages ?p ?m (fst x)"
            using R(3) [OF x] nd(2) by (auto simp: region_pages_def paged_def)
          with dj show False by blast
        qed
      qed
      have be: "beside (unat (fst x)) (rtop ?m (fst x)) (unat r) hi" if x: "x \<in> set rs" for x
        using old [OF x] R(3) [OF x] unfolding beside_def rtop_def hi_def ur paged_def by auto
      have sz': "unat (ucast (?n * PAGE_SIZE) :: u32) = hi - unat r" by (simp add: sz hi_def)
      have r16: "16 dvd unat r" unfolding ur by (intro dvd_add hh(2)) (simp add: dvd_mult2)
      let ?m' = "append_region r ?n (map fst rs) ?m"
      note ap = append_region_ok [OF d(6) hi be r16 sz']
      have ch: "rchain (init_region r ?n ?m) 0 (map fst rs) 0"
      proof -
        have ins: "inside (unat r) hi ?m (init_region r ?n ?m)"
          using hi by (intro hdr_only_inside hdr_only_inits) simp_all
        have "prev_of (init_region r ?n ?m) (fst x) = prev_of ?m (fst x) \<and> next_of (init_region r ?n ?m) (fst x) = next_of ?m (fst x)"
          if x: "x \<in> set rs" for x
          using region_same_beside(2,3) [OF ins be [OF x] R(2) [OF x]] paged_size [OF R(3) [OF x]] by simp
        then show ?thesis using R(1) by (subst rchain_cong [where m = ?m]) auto
      qed
      define h' where "h' = h\<lparr>h_phys := p', h_mem := ?m', h_root := head0 (map fst rs @ [r]) 0,
        h_total_region_bytes := h_total_region_bytes h + ucast (r_size ?m' r), h_region_count := h_region_count h + 1\<rparr>"
      have e: "create_region h p = Some (r, h')"
      proof -
        have "link_region (upd_mem (init_region r ?n) (h\<lparr>h_phys := p'\<rparr>)) r
          = Some ((upd_mem (init_region r ?n) (h\<lparr>h_phys := p'\<rparr>))\<lparr>h_root := head0 (map fst rs @ [r]) 0, h_mem := ?m'\<rparr>)"
          by (rule link_region_append [OF d(6)]) (use d(4) r0 ch in simp_all)
        moreover have "region_alloc h ?n = Some (r, h\<lparr>h_phys := p'\<rparr>)"
          using al a c by (simp add: region_alloc_def r_def)
        ultimately show ?thesis using False r0 by (simp add: cr nn(1) h'_def upd_mem_def)
      qed
      have pn: "page_no p' x = page_no ?p x" for x using c by (simp add: page_no_def)
      have pr: "page_no p' r = q" using c by (simp add: page_no_def ur)
      have rp: "region_pages p' ?m' r = {q..<q + unat ?n}"
        by (simp add: region_pages_def pr ap(7) nn(2))
      have mp: "map (region_pages p' ?m') (map fst (rs @ [(r, [])]))
          = map (region_pages ?p ?m) (map fst rs) @ [{q..<q + unat ?n}]"
        using ap(4) by (simp add: rp) (simp add: region_pages_def pn)
      have fs: "free_set p' = free_set ?p - {q..<q + unat ?n}" using fr(3) by (simp add: pg)
      have reg: "regions_ok p' ?m' (rs @ [(r, [])])"
        unfolding regions_ok_def mp
      proof (intro conjI ballI)
        show "rchain ?m' 0 (map fst (rs @ [(r, [])])) 0" using ap(1) by simp
        show "region_ok ?m' (fst x) (snd x)" "paged p' ?m' (fst x)" if "x \<in> set (rs @ [(r, [])])" for x
        proof -
          have "x \<in> set rs \<or> x = (r, [])" using that by auto
          then show "region_ok ?m' (fst x) (snd x)" using ap(2,5) by auto
          have "paged p' ?m' r"
            using c q qt nd(2) by (simp add: paged_def pr ap(6,7) sz nn(2) ur)
          then show "paged p' ?m' (fst x)"
            using \<open>x \<in> set rs \<or> x = (r, [])\<close> R(3) [of x] ap(3,4) [of x] c by (auto simp: paged_def pn)
        qed
        show "sorted_wrt disjnt (free_set p' # map (region_pages ?p ?m) (map fst rs) @ [{q..<q + unat ?n}])"
        proof -
          have "disjnt (region_pages ?p ?m (fst x)) {q..<q + unat ?n}" if x: "x \<in> set rs" for x
            using old [OF x] by (auto simp: region_pages_def disjnt_def)
          then show ?thesis using R(4) unfolding fs by (auto simp: sorted_wrt_append disjnt_def)
        qed
      qed
      have st: "stats_ok h' (rs @ [(r, [])])"
      proof -
        have s1: "map (\<lambda>r. ucast (r_size ?m' r) :: u64) (map fst rs) = map (\<lambda>r. ucast (r_size ?m r)) (map fst rs)"
          using ap(3) by simp
        have s2: "(\<Sum>b\<leftarrow>blocks rs. ucast (b_req ?m' b) :: u64) = (\<Sum>b\<leftarrow>blocks rs. ucast (b_req ?m b))"
          using ap(8) by (intro arg_cong [where f = sum_list]) auto
        have f: "h_region_count h' = h_region_count h + 1" "h_live h' = h_live h" "h_in_use h' = h_in_use h"
          "h_total_region_bytes h' = h_total_region_bytes h + ucast (r_size ?m' r)" "h_mem h' = ?m'"
          by (simp_all add: h'_def)
        show ?thesis
          using d(8) unfolding stats_ok_def f map_append sum_list_append blocks_simps s1 s2 by simp
      qed
      have "heap_ok F h' (rs @ [(r, [])])"
      proof -
        have "F = free_set p' \<union> \<Union> (set (map (region_pages p' ?m') (map fst (rs @ [(r, [])]))))"
          unfolding mp fs using d(7) fr(2) by (auto simp: pg)
        moreover have "hhdm_ok p'" using d(3) c by (simp add: hhdm_ok_def)
        moreover have "h_best h' = 0 \<or> h_best h' \<in> fst ` set (rs @ [(r, [])])" using d(5) by (auto simp: h'_def)
        ultimately show ?thesis
          using d(1) pp.alloc_inv [OF d(2) al] reg st unfolding heap_ok_def by (simp add: h'_def)
      qed
      moreover have "view (h_mem h') (rs @ [(r, [])]) = view ?m rs"
        unfolding h'_def using ap(8) by (intro view_same) auto
      moreover have "96 + unat p \<le> unat (r_size (h_mem h') r)"
        using nd(1) by (simp add: h'_def ap(6) sz)
      ultimately show ?thesis using e r0 by (auto simp: h'_def)
    qed
  qed
qed

end
