(* ===== verification/HeapAlloc.thy ===== *)
theory HeapAlloc
  imports HeapCreate
begin

text \<open>The contract of \<open>kmalloc\<close>, \<open>kcalloc\<close>, \<open>krealloc\<close> and \<open>kfree\<close>, over \<open>heap_rel\<close>.\<close>

section \<open>Rounding\<close>

lemma and_not_mask_eq: "(w :: 'a::len word) AND NOT (mask n) = push_bit n (drop_bit n w)"
  by (rule bit_word_eqI) (auto simp: bit_simps)

lemma unat_align_up:
  assumes "unat n + 15 < 2 ^ 64"
  shows "unat (align_up n ALIGNMENT) = (unat n + 15) div 16 * 16"
proof -
  have m: "ALIGNMENT - 1 = mask 4" by (simp add: ALIGNMENT_def mask_eq_exp_minus_1)
  have u: "unat (n + ALIGNMENT - 1) = unat n + 15"
    using assms by (simp add: ALIGNMENT_def) (subst unat_add_no_overflow; simp)
  have "align_up n ALIGNMENT = push_bit 4 (drop_bit 4 (n + ALIGNMENT - 1))"
    by (simp only: align_up_def m and_not_mask_eq)
  then have e: "align_up n ALIGNMENT = (n + ALIGNMENT - 1) div 16 * 16"
    by (simp add: push_bit_eq_mult drop_bit_eq_div del: add_diff_eq)
  have "unat ((n + ALIGNMENT - 1) div 16) = (unat n + 15) div 16" unfolding unat_div u by simp
  then have "unat ((n + ALIGNMENT - 1) div 16 * 16) = (unat n + 15) div 16 * 16"
    using assms by (subst unat_mult_no_overflow) (simp_all, linarith?)
  then show ?thesis by (simp only: e)
qed

lemma align_up_bounds:
  assumes "unat n + 15 < 2 ^ 64"
  shows "16 dvd unat (align_up n ALIGNMENT)" "n \<le> align_up n ALIGNMENT"
  by (simp_all add: unat_align_up [OF assms] word_le_nat_alt)

section \<open>Allocation\<close>

definition grants :: "nat set \<Rightarrow> (u64 \<Rightarrow> u8 list option) \<Rightarrow> u64 \<Rightarrow> u64 \<Rightarrow> heap_state \<Rightarrow> bool" where
  "grants F v q a h' \<longleftrightarrow> a \<noteq> 0 \<and> 16 dvd unat a \<and> v a = None
     \<and> (\<exists>d. length d = unat q \<and> heap_rel F h' (v(a \<mapsto> d)))"

lemma heap_rel_refresh:
  assumes "heap_rel F h v" shows "\<exists>h'. refresh_best_hint h = Some h' \<and> heap_rel F h' v \<and> h_mem h' = h_mem h"
proof -
  obtain rs where rs: "heap_ok F h rs" "\<forall>x \<in> set rs. snd x \<noteq> []" "v = view (h_mem h) rs"
    using assms by (auto simp: heap_rel_def)
  obtain b where "refresh_best_hint h = Some (h\<lparr>h_best := b\<rparr>)" "heap_ok F (h\<lparr>h_best := b\<rparr>) rs"
    by (rule heap_refresh [OF rs(1)])
  with rs(2,3) show ?thesis by (auto simp: heap_rel_def)
qed

lemma grants_refresh:
  assumes "grants F v q a h" shows "\<exists>h'. refresh_best_hint h = Some h' \<and> grants F v q a h'"
  using assms heap_rel_refresh unfolding grants_def by blast

lemma place_in_region:
  assumes ok: "heap_ok F h (us @ (r, bs) # vs)" and ne: "\<forall>x \<in> set (us @ vs). snd x \<noteq> []"
    and p: "16 dvd unat p" "p \<le> 0xFFFFFFFF" "q \<le> p"
    and fresh: "bs = [] \<Longrightarrow> 96 + unat p \<le> unat (r_size (h_mem h) r)"
  shows "place_block r p q h = Some (0, h) \<and> bs \<noteq> []
    \<or> (\<exists>a h'. place_block r p q h = Some (a, h') \<and> grants F (view (h_mem h) (us @ (r, bs) # vs)) q a h')"
proof -
  have rok: "region_ok (h_mem h) r bs" using regions_okD(2) [OF heap_okD(6) [OF ok], of "(r, bs)"] by simp
  from place_block_cases [OF rok p(2) fresh] consider
    (none) "place_block r p q h = Some (0, h)"
      "\<forall>xs ys. bs = xs @ ys \<longrightarrow> gap_room (h_mem h) r xs ys < 48 + unat p"
  | (hit) xs b ys where "bs = xs @ ys" "unat b = end_of (h_mem h) (unat r + 48) xs"
      "48 + unat p \<le> gap_room (h_mem h) r xs ys" "place_block r p q h = Some (b + HDR, placed_in r p q xs b ys h)"
    by blast
  then show ?thesis
  proof cases
    case none
    have "bs \<noteq> []"
    proof
      assume "bs = []"
      with fresh none(2) show False by (auto simp: gap_room_def)
    qed
    with none show ?thesis by simp
  next
    case hit
    note hp = heap_place [OF ok [unfolded hit(1)] hit(2,3) p]
    have "\<forall>x \<in> set (us @ (r, xs @ b # ys) # vs). snd x \<noteq> []" using ne by auto
    with hp have "grants F (view (h_mem h) (us @ (r, bs) # vs)) q (b + HDR) (placed_in r p q xs b ys h)"
      unfolding grants_def heap_rel_def hit(1) by metis
    with hit(4) show ?thesis by blast
  qed
qed

lemma try_regions_ok:
  assumes "heap_ok F h (us @ vs)" "\<forall>x \<in> set (us @ vs). snd x \<noteq> []"
    and p: "16 dvd unat p" "p \<le> 0xFFFFFFFF" "q \<le> p"
  shows "try_regions (head0 (map fst vs) 0) p q h = Some (0, h)
    \<or> (\<exists>a h'. try_regions (head0 (map fst vs) 0) p q h = Some (a, h') \<and> grants F (view (h_mem h) (us @ vs)) q a h')"
  using assms(1,2)
proof (induction vs arbitrary: us)
  case Nil
  then show ?case by (subst (1) try_regions.simps) simp
next
  case (Cons x vs)
  obtain r bs where x: "x = (r, bs)" by (cases x)
  note R = heap_okD(6) [OF Cons.prems(1)]
  have r0: "r \<noteq> 0" using region_no_node [OF R, of x] by (simp add: x)
  have nx: "next_of (h_mem h) r = head0 (map fst vs) 0"
    using regions_okD(1) [OF R] by (simp add: rchain_append x)
  note IH = Cons.IH [of "us @ [x]"]
  have IH: "try_regions (next_of (h_mem h) r) p q h = Some (0, h)
    \<or> (\<exists>a h'. try_regions (next_of (h_mem h) r) p q h = Some (a, h') \<and> grants F (view (h_mem h) (us @ x # vs)) q a h')"
    using IH Cons.prems by (simp add: nx)
  have unf: "try_regions r p q h = (if r = h_best h then try_regions (next_of (h_mem h) r) p q h
      else case place_block r p q h of None \<Rightarrow> None
      | Some (a, h) \<Rightarrow> if a \<noteq> 0 then map_option (\<lambda>h. (a, h)) (refresh_best_hint h)
          else try_regions (next_of (h_mem h) r) p q h)"
    using r0 by (subst try_regions.simps) simp
  have pl: "place_block r p q h = Some (0, h)
    \<or> (\<exists>a h'. place_block r p q h = Some (a, h') \<and> grants F (view (h_mem h) (us @ x # vs)) q a h')"
    using place_in_region [of F h us r bs vs p q] Cons.prems p by (auto simp: x)
  then show ?case
  proof (elim disjE exE conjE)
    assume "place_block r p q h = Some (0, h)"
    then have "try_regions r p q h = try_regions (next_of (h_mem h) r) p q h" by (subst unf) simp
    with IH show ?thesis by (simp add: x)
  next
    fix a h' assume a: "place_block r p q h = Some (a, h')" "grants F (view (h_mem h) (us @ x # vs)) q a h'"
    obtain h'' where h'': "refresh_best_hint h' = Some h''" "grants F (view (h_mem h) (us @ x # vs)) q a h''"
      using grants_refresh [OF a(2)] by blast
    have "a \<noteq> 0" using a(2) by (simp add: grants_def)
    show ?thesis
    proof (cases "r = h_best h")
      case True
      have "try_regions r p q h = try_regions (next_of (h_mem h) r) p q h" unfolding unf by (rule if_P [OF True])
      with IH show ?thesis by (simp add: x)
    next
      case False
      with a(1) h'' \<open>a \<noteq> 0\<close> show ?thesis by (simp add: x unf)
    qed
  qed
qed

lemma kmalloc_ok:
  assumes rel: "heap_rel F h v" and n: "0 < n" "unat n + 15 < 2 ^ 64"
  shows "kmalloc n h = Some (0, h) \<or> (\<exists>a h'. kmalloc n h = Some (a, h') \<and> grants F v n a h')"
proof -
  let ?p = "align_up n ALIGNMENT"
  obtain rs where rs: "heap_ok F h rs" "\<forall>x \<in> set rs. snd x \<noteq> []" "v = view (h_mem h) rs"
    using rel by (auto simp: heap_rel_def)
  note d = heap_okD [OF rs(1)] and al = align_up_bounds [OF n(2)]
  have n0: "n \<noteq> 0" using n(1) by auto
  show ?thesis
  proof (cases "?p > 0xFFFFFFFF")
    case True
    then show ?thesis using d(1) n by (simp add: kmalloc_def)
  next
    case False
    then have p: "?p \<le> 0xFFFFFFFF" by simp
    have unf: "kmalloc n h = (case (if h_best h \<noteq> 0 then place_block (h_best h) ?p n h else Some (0, h)) of None \<Rightarrow> None
        | Some (p, h) \<Rightarrow>
            if p \<noteq> 0 then Some (p, h)
            else case try_regions (h_root h) ?p n h of None \<Rightarrow> None
            | Some (p, h) \<Rightarrow>
                if p \<noteq> 0 then Some (p, h)
                else case create_region h ?p of None \<Rightarrow> None
                | Some (r, h) \<Rightarrow>
                    if r = 0 then Some (0, h)
                    else case place_block r ?p n h of None \<Rightarrow> None
                    | Some (p, h) \<Rightarrow>
                        if p = 0 then Some (0, destroy_region r h)
                        else map_option (\<lambda>h. (p, h)) (refresh_best_hint h))"
      using d(1) n0 False by (simp only: kmalloc_def Let_def if_False simp_thms)
    have best: "(if h_best h \<noteq> 0 then place_block (h_best h) ?p n h else Some (0, h)) = Some (0, h)
      \<or> (\<exists>a h'. (if h_best h \<noteq> 0 then place_block (h_best h) ?p n h else Some (0, h)) = Some (a, h') \<and> grants F v n a h')"
    proof (cases "h_best h = 0")
      case False
      then obtain x where x: "x \<in> set rs" "h_best h = fst x" using d(5) by auto
      then obtain us vs where sp: "rs = us @ (fst x, snd x) # vs" by (metis split_list prod.collapse)
      show ?thesis
        using place_in_region [of F h us "fst x" "snd x" vs ?p n] rs al p False x unfolding sp by auto
    qed simp
    show ?thesis
    proof (cases "\<exists>a h'. (if h_best h \<noteq> 0 then place_block (h_best h) ?p n h else Some (0, h)) = Some (a, h') \<and> grants F v n a h'")
      case True
      then show ?thesis unfolding unf by (auto simp: grants_def)
    next
      case False
      with best have b0: "(if h_best h \<noteq> 0 then place_block (h_best h) ?p n h else Some (0, h)) = Some (0, h)" by blast
      from try_regions_ok [of F h "[]" rs ?p n] rs d(4) al p
      have tr: "try_regions (h_root h) ?p n h = Some (0, h)
        \<or> (\<exists>a h'. try_regions (h_root h) ?p n h = Some (a, h') \<and> grants F v n a h')" by simp
      show ?thesis
      proof (cases "\<exists>a h'. try_regions (h_root h) ?p n h = Some (a, h') \<and> grants F v n a h'")
        case True
        then show ?thesis unfolding unf b0 by (auto simp: grants_def)
      next
        case False
        with tr have t0: "try_regions (h_root h) ?p n h = Some (0, h)" by blast
        show ?thesis
          using heap_create [OF rs(1) p]
        proof (elim disjE exE conjE)
          assume "create_region h ?p = Some (0, h)"
          then show ?thesis unfolding unf b0 by (simp add: t0)
        next
          fix r h1 assume c: "create_region h ?p = Some (r, h1)" "r \<noteq> 0" "heap_ok F h1 (rs @ [(r, [])])"
            "view (h_mem h1) (rs @ [(r, [])]) = view (h_mem h) rs" "96 + unat ?p \<le> unat (r_size (h_mem h1) r)"
          from place_in_region [OF c(3) _ al(1) p al(2) c(5)] rs(2,3) c(4)
          obtain a h2 where a: "place_block r ?p n h1 = Some (a, h2)" "grants F v n a h2" by auto
          obtain h3 where "refresh_best_hint h2 = Some h3" "grants F v n a h3" using grants_refresh [OF a(2)] by blast
          moreover have "a \<noteq> 0" using a(2) by (simp add: grants_def)
          ultimately show ?thesis unfolding unf b0 using c(1,2) a(1) by (simp add: t0)
        qed
      qed
    qed
  qed
qed

section \<open>Release\<close>

lemma heap_rel_block:
  assumes "heap_rel F h v" "v a = Some d"
  obtains us r xs ys vs where "heap_ok F h (us @ (r, xs @ (a - HDR) # ys) # vs)"
    "\<forall>x \<in> set (us @ (r, xs @ (a - HDR) # ys) # vs). snd x \<noteq> []"
    "v = view (h_mem h) (us @ (r, xs @ (a - HDR) # ys) # vs)"
    "d = ld (h_mem h) a (unat (b_req (h_mem h) (a - HDR)))"
proof -
  obtain rs where rs: "heap_ok F h rs" "\<forall>x \<in> set rs. snd x \<noteq> []" "v = view (h_mem h) rs"
    using assms(1) by (auto simp: heap_rel_def)
  with assms(2) have a: "a - HDR \<in> set (blocks rs)" "d = ld (h_mem h) a (unat (b_req (h_mem h) (a - HDR)))"
    by (auto simp: view_def split: if_splits)
  then obtain x where x: "x \<in> set rs" "a - HDR \<in> set (snd x)" by (auto simp: blocks_def)
  obtain us vs where us: "rs = us @ x # vs" using x(1) by (meson split_list)
  obtain xs ys where xs: "snd x = xs @ (a - HDR) # ys" using x(2) by (meson split_list)
  have "rs = us @ (fst x, xs @ (a - HDR) # ys) # vs" by (simp add: us flip: xs)
  with rs a(2) that show thesis by blast
qed

lemma block_hdr:
  assumes "region_ok m r (xs @ b # ys)"
  shows "b_magic m b = BLOCK_MAGIC" "b_region m b = r" "b + HDR \<noteq> 0"
  using seg_magic [OF region_okD(4) [OF assms], of b] block_bounds [OF assms, of b]
    unat_payload [of m b] by (auto simp del: unat_0 simp: unat_eq_zero [symmetric])

lemma kfree_dead: "b_magic (h_mem h) (a - HDR) = BLOCK_DEAD \<Longrightarrow> kfree a h = Some h"
  by (simp add: kfree_def BLOCK_DEAD_def BLOCK_MAGIC_def)

lemma kfree_ok:
  assumes rel: "heap_rel F h v" and a: "v a = Some d"
  shows "\<exists>h'. kfree a h = Some h' \<and> heap_rel F h' (v(a := None)) \<and> kfree a h' = Some h'"
proof -
  obtain us r xs ys vs where ok: "heap_ok F h (us @ (r, xs @ (a - HDR) # ys) # vs)"
    and ne: "\<forall>x \<in> set (us @ (r, xs @ (a - HDR) # ys) # vs). snd x \<noteq> []"
    and v: "v = view (h_mem h) (us @ (r, xs @ (a - HDR) # ys) # vs)"
    by (rule heap_rel_block [OF rel a])
  define b where "b = a - HDR"
  have ab: "a = b + HDR" by (simp add: b_def)
  note ok = ok [folded b_def] and ne = ne [folded b_def] and v = v [folded b_def]
  have rok: "region_ok (h_mem h) r (xs @ b # ys)"
    using regions_okD(2) [OF heap_okD(6) [OF ok], of "(r, xs @ b # ys)"] by simp
  note hd = block_hdr [OF rok] and rm = heap_remove [OF ok]
  let ?h = "released r b h"
  have kf: "kfree a h = (if r_first (h_mem ?h) r = 0 then refresh_best_hint (destroy_region r ?h) else refresh_best_hint ?h)"
    unfolding ab by (subst kfree_released [OF hd]) (simp add: Let_def)
  have rok': "region_ok (h_mem ?h) r (xs @ ys)"
    using regions_okD(2) [OF heap_okD(6) [OF rm(1)], of "(r, xs @ ys)"] by simp
  have first: "r_first (h_mem ?h) r = 0 \<longleftrightarrow> xs @ ys = []"
    using region_okD(3) [OF rok'] region_ok_nonzero [OF rok'] by (cases "xs @ ys") auto
  have "\<exists>h2. kfree a h = refresh_best_hint h2 \<and> heap_rel F h2 (v(a := None)) \<and> b_magic (h_mem h2) b = BLOCK_DEAD"
  proof (cases "xs @ ys = []")
    case True
    then have rm': "heap_ok F ?h (us @ (r, []) # vs)" using rm(1) by simp
    note ds = heap_destroy [OF rm']
    have "view (h_mem (destroy_region r ?h)) (us @ vs) = v(a := None)"
      using ds(2) rm(2) True v by (simp add: ab)
    moreover have "\<forall>x \<in> set (us @ vs). snd x \<noteq> []" using ne by auto
    moreover have "b_magic (h_mem (destroy_region r ?h)) b = BLOCK_DEAD"
    proof -
      have "rtop (h_mem ?h) r = rtop (h_mem h) r"
        using remove_node_ok(3) [OF rok] by (simp add: rtop_def released_def)
      then show ?thesis
        using ds(3) [of b] block_bounds [OF rok, of b] rm(3) by (auto simp: block_top_def)
    qed
    ultimately show ?thesis using ds(1) True first kf unfolding heap_rel_def by metis
  next
    case False
    have "\<forall>x \<in> set (us @ (r, xs @ ys) # vs). snd x \<noteq> []" using ne False by auto
    then show ?thesis using False first kf rm v unfolding heap_rel_def ab by metis
  qed
  then obtain h2 where h2: "kfree a h = refresh_best_hint h2" "heap_rel F h2 (v(a := None))"
    "b_magic (h_mem h2) b = BLOCK_DEAD" by blast
  obtain h3 where h3: "refresh_best_hint h2 = Some h3" "heap_rel F h3 (v(a := None))" "h_mem h3 = h_mem h2"
    using heap_rel_refresh [OF h2(2)] by blast
  moreover have "kfree a h3 = Some h3" using h2(3) h3(3) by (intro kfree_dead) (simp add: ab)
  ultimately show ?thesis using h2(1) by simp
qed

section \<open>Writing to an allocation\<close>

definition store :: "u64 \<Rightarrow> u8 list \<Rightarrow> heap_state \<Rightarrow> heap_state" where
  "store a bs h = upd_mem (\<lambda>m. st m a bs) h"

lemma st_inside: "unat a + length bs \<le> 2 ^ 64 \<Longrightarrow> inside (unat a) (unat a + length bs) m (st m a bs)"
proof -
  assume t: "unat a + length bs \<le> 2 ^ 64"
  have "length bs \<le> unat (x - a)" if "unat x < unat a \<or> unat a + length bs \<le> unat x" for x
  proof (cases "unat x < unat a")
    case True
    then have "unat (a - x) = unat a - unat x" by (intro unat_sub_no_underflow) (simp add: word_le_nat_alt)
    moreover have "x \<noteq> a" using True by auto
    ultimately show ?thesis using unat_diff_flip [of x a] t True by linarith
  next
    case False
    then have "unat (x - a) = unat x - unat a" by (intro unat_sub_no_underflow) (simp add: word_le_nat_alt)
    with False that show ?thesis by linarith
  qed
  then show ?thesis by (force simp: inside_def st_def)
qed

lemma ld_st_prefix:
  assumes "length bs \<le> n" "unat a + n \<le> 2 ^ 64"
  shows "ld (st m a bs) a n = bs @ drop (length bs) (ld m a n)"
proof (rule nth_equalityI)
  fix i assume i: "i < length (ld (st m a bs) a n)"
  then have "unat (of_nat i :: u64) = i" using assms by (intro unat_of_nat_eq) simp
  with i assms(1) show "ld (st m a bs) a n ! i = (bs @ drop (length bs) (ld m a n)) ! i"
    by (simp add: ld_def st_def nth_append)
qed (use assms(1) in simp)

lemma inside_mono: "inside lo hi m m' \<Longrightarrow> lo' \<le> lo \<Longrightarrow> hi \<le> hi' \<Longrightarrow> inside lo' hi' m m'"
  by (auto simp: inside_def)

lemma store_ok:
  assumes rel: "heap_rel F h v" and a: "v a = Some d" and len: "length bs \<le> length d"
  shows "heap_rel F (store a bs h) (v(a \<mapsto> bs @ drop (length bs) d))"
proof -
  obtain us r xs ys vs where ok: "heap_ok F h (us @ (r, xs @ (a - HDR) # ys) # vs)"
    and ne: "\<forall>x \<in> set (us @ (r, xs @ (a - HDR) # ys) # vs). snd x \<noteq> []"
    and v: "v = view (h_mem h) (us @ (r, xs @ (a - HDR) # ys) # vs)"
    and d: "d = ld (h_mem h) a (unat (b_req (h_mem h) (a - HDR)))"
    by (rule heap_rel_block [OF rel a])
  define b where "b = a - HDR"
  have ab: "a = b + HDR" by (simp add: b_def)
  note ok = ok [folded b_def] and ne = ne [folded b_def] and v = v [folded b_def] and d = d [folded b_def]
  let ?m = "h_mem h" and ?m' = "st (h_mem h) a bs" and ?bs = "xs @ b # ys"
  note hd = heap_okD [OF ok]
  have rok: "region_ok ?m r ?bs" using regions_okD(2) [OF hd(6), of "(r, ?bs)"] by simp
  have bin: "b \<in> set ?bs" by simp
  note bb = block_bounds [OF rok bin]
  have ua: "unat a = unat b + 48" unfolding ab using bb by (intro unat_payload [of ?m]) simp
  have len': "length bs \<le> unat (b_req ?m b)" "unat (b_req ?m b) \<le> unat (b_size ?m b)"
    using len d bb(5) by (simp_all add: word_le_nat_alt)
  then have top: "unat a + length bs \<le> block_top ?m b" by (simp add: ua block_top_def)
  have ins: "inside (unat a) (unat a + length bs) ?m ?m'" using top bb by (intro st_inside) simp
  have insr: "inside (unat r) (rtop ?m r) ?m ?m'" by (rule inside_mono [OF ins]) (use top bb ua in simp_all)
  have f: "prev_of ?m' c = prev_of ?m c" "next_of ?m' c = next_of ?m c" "b_region ?m' c = b_region ?m c"
    "b_magic ?m' c = b_magic ?m c" "b_size ?m' c = b_size ?m c" "b_req ?m' c = b_req ?m c"
    "r_first ?m' c = r_first ?m c" "r_pages ?m' c = r_pages ?m c" "r_size ?m' c = r_size ?m c"
    "r_usage ?m' c = r_usage ?m c" if "c \<in> set (r # ?bs)" for c
    using hdr_outside_payload [OF rok bin that] top ua inside_fields [OF ins, of c] by auto
  have rok': "region_ok ?m' r ?bs"
  proof -
    have "seg ?m' r 0 ?bs 0 = seg ?m r 0 ?bs 0" by (rule seg_cong) (simp add: f)
    moreover have "spaced ?m' lo ?bs hi = spaced ?m lo ?bs hi" for lo hi by (rule spaced_cong) (simp add: f)
    moreover have "used_bytes ?m' ?bs = used_bytes ?m ?bs" by (rule used_bytes_cong) (simp add: f)
    ultimately show ?thesis using rok unfolding region_ok_def by (simp add: f)
  qed
  have ok': "heap_ok F (store a bs h) (us @ (r, ?bs) # vs)"
  proof (rule heap_ok_local [OF ok])
    have "(\<Sum>b\<leftarrow>?bs. ucast (b_req ?m' b) :: u64) = (\<Sum>b\<leftarrow>?bs. ucast (b_req ?m b))"
      using f(6) by (intro arg_cong [where f = sum_list]) auto
    then show "h_in_use (store a bs h) = h_in_use h + (\<Sum>b\<leftarrow>?bs. ucast (b_req (h_mem (store a bs h)) b))
        - (\<Sum>b\<leftarrow>?bs. ucast (b_req ?m b))" by (simp add: store_def)
  qed (use insr rok' f [of r] in \<open>simp_all add: store_def\<close>)
  have apart: "b \<notin> set (blocks (us @ vs))"
    using blocks_apart [OF hd(6), of b b] bb by (auto simp: block_top_def)
  have "view ?m' (us @ (r, ?bs) # vs) = (view ?m (us @ (r, ?bs) # vs))
    (a := if a - HDR \<in> set ?bs then Some (ld ?m' a (unat (b_req ?m' (a - HDR)))) else None)"
  proof (rule view_local [OF hd(6) insr])
    show "(if c - HDR \<in> set ?bs then Some (ld ?m' c (unat (b_req ?m' (c - HDR)))) else None)
      = (if c - HDR \<in> set ?bs then Some (ld ?m c (unat (b_req ?m (c - HDR)))) else None) \<or> c = a" for c
    proof (cases "c - HDR \<in> set ?bs \<and> c \<noteq> a")
      case True
      define e where "e = c - HDR"
      have ce: "c = e + HDR" "e \<in> set ?bs" "e \<noteq> b" using True by (auto simp: e_def ab)
      note be = block_bounds [OF rok ce(2)]
      have uc: "unat c = unat e + 48" unfolding ce(1) using be by (intro unat_payload [of ?m]) simp
      have "unat (b_req ?m e) \<le> unat (b_size ?m e)" using be(5) by (simp add: word_le_nat_alt)
      moreover have "block_top ?m b \<le> unat e \<or> block_top ?m e \<le> unat b"
        using hdr_outside_payload(1) [OF rok bin, of e] hdr_outside_payload(1) [OF rok ce(2), of b] ce(2,3)
        by (auto simp: word_unat_eq_iff)
      ultimately have "ld ?m' c (unat (b_req ?m e)) = ld ?m c (unat (b_req ?m e))"
        using top be uc ua by (intro inside_ld [OF ins]) (auto simp: block_top_def)
      then show ?thesis using ce(2) f(6) [of e] by (simp flip: e_def)
    qed auto
  qed (use apart in \<open>simp add: ab\<close>)
  moreover have "ld ?m' a (unat (b_req ?m b)) = bs @ drop (length bs) d"
    unfolding d using len' bb ua by (intro ld_st_prefix) (auto simp: block_top_def)
  ultimately have "view ?m' (us @ (r, ?bs) # vs) = v(a \<mapsto> bs @ drop (length bs) d)"
    using f(6) [of b] by (simp add: v flip: b_def)
  with ok' ne show ?thesis unfolding heap_rel_def by (metis store_def upd_mem_fields(1))
qed

end
