(* ===== verification/HeapProps.thy ===== *)
theory HeapProps
  imports HeapAlloc
begin

text \<open>
  The heap as a provider of storage: the interface \<open>allocator\<close>, its interpretation on \<open>kmalloc\<close> and
  \<open>kfree\<close>, and the properties of \<open>mm/heap.cpp\<close>.
\<close>

section \<open>Reallocation\<close>

lemma kcalloc_ok:
  assumes rel: "heap_rel F h v" and n: "unat c * unat n + 15 < 2 ^ 64 \<or> 2 ^ 64 \<le> unat c * unat n"
  shows "\<exists>a h'. kcalloc c n h = Some (a, h') \<and> (a = 0 \<and> h' = h
    \<or> a \<noteq> 0 \<and> v a = None \<and> heap_rel F h' (v(a \<mapsto> replicate (unat c * unat n) 0)))"
proof (cases "c = 0 \<or> n = 0 \<or> c > - 1 div n")
  case True
  then show ?thesis by (auto simp: kcalloc_def)
next
  case False
  then have n0: "0 < unat n" "0 < unat c" by (simp_all add: unat_gt_0)
  have "unat c \<le> unat (- 1 div n)" using False by (simp add: word_le_nat_alt not_less)
  also have "\<dots> = (2 ^ 64 - 1) div unat n" by (simp add: unat_div unsigned_minus_1_eq_mask mask_eq_exp_minus_1)
  finally have "unat c * unat n \<le> (2 ^ 64 - 1) div unat n * unat n" by (rule mult_le_mono1)
  also have "\<dots> \<le> 2 ^ 64 - 1" by (rule div_times_less_eq_dividend)
  finally have lt: "unat c * unat n < 2 ^ 64" by simp
  then have u: "unat (c * n) = unat c * unat n" by (intro unat_mult_no_overflow) simp
  have "0 < c * n" using n0 u by (simp add: word_less_nat_alt)
  moreover have "unat (c * n) + 15 < 2 ^ 64" using n lt u by linarith
  ultimately consider "kmalloc (c * n) h = Some (0, h)" | a h1 where "kmalloc (c * n) h = Some (a, h1)" "grants F v (c * n) a h1"
    using kmalloc_ok [OF rel] by blast
  then show ?thesis
  proof cases
    case 1
    with False show ?thesis by (simp add: kcalloc_def)
  next
    case 2
    then obtain d where d: "a \<noteq> 0" "v a = None" "length d = unat c * unat n" "heap_rel F h1 (v(a \<mapsto> d))"
      by (auto simp: grants_def u)
    have "heap_rel F (store a (replicate (unat c * unat n) 0) h1) (v(a \<mapsto> replicate (unat c * unat n) 0))"
      using store_ok [OF d(4), of a d "replicate (unat c * unat n) 0"] d(3) by simp
    then show ?thesis using False d(1,2) 2(1) by (simp add: kcalloc_def u store_def)
  qed
qed

lemma shrink_ok:
  assumes rel: "heap_rel F h v" and a: "v a = Some d" and n: "unat n \<le> length d"
  shows "heap_rel F ((upd_mem (\<lambda>m. st32 m (a - HDR + 40) (ucast n)) h)
      \<lparr>h_in_use := h_in_use h - ucast (b_req (h_mem h) (a - HDR)) + n\<rparr>) (v(a \<mapsto> take (unat n) d))"
    (is "heap_rel F ?h _")
proof -
  obtain us r xs ys vs where ok: "heap_ok F h (us @ (r, xs @ (a - HDR) # ys) # vs)"
    and ne: "\<forall>x \<in> set (us @ (r, xs @ (a - HDR) # ys) # vs). snd x \<noteq> []"
    and v: "v = view (h_mem h) (us @ (r, xs @ (a - HDR) # ys) # vs)"
    and d: "d = ld (h_mem h) a (unat (b_req (h_mem h) (a - HDR)))"
    by (rule heap_rel_block [OF rel a])
  define b where "b = a - HDR"
  have ab: "a = b + HDR" by (simp add: b_def)
  note ok = ok [folded b_def] and ne = ne [folded b_def] and v = v [folded b_def] and d = d [folded b_def]
  let ?m = "h_mem h" and ?bs = "xs @ b # ys"
  let ?m' = "set_req b (ucast n) ?m"
  note hd = heap_okD [OF ok]
  have rok: "region_ok ?m r ?bs" using regions_okD(2) [OF hd(6), of "(r, ?bs)"] by simp
  have bin: "b \<in> set ?bs" by simp
  note bb = block_bounds [OF rok bin]
  have len: "unat n \<le> unat (b_req ?m b)" using n d by simp
  have "unat (b_req ?m b) < 2 ^ LENGTH(32)" by (rule unsigned_less)
  then have "n \<le> 0xFFFFFFFF" using len by (simp add: word_le_nat_alt)
  note un = word_le_unat32 [OF this] and uu = ucast_ucast_small [OF this]
  have fb: "far b c" if "c \<in> set (r # xs @ ys)" for c
    using region_ok_far [OF rok] that by (auto simp: sorted_wrt_append intro: far_sym [THEN iffD1])
  have f: "prev_of ?m' c = prev_of ?m c" "next_of ?m' c = next_of ?m c" "b_region ?m' c = b_region ?m c"
    "b_magic ?m' c = b_magic ?m c" "b_size ?m' c = b_size ?m c" if "c \<in> set (r # ?bs)" for c
    using that fb [of c] by (auto simp: hdr_simps frame_simps)
  have fr: "b_req ?m' c = b_req ?m c" "r_first ?m' r = r_first ?m r" "r_pages ?m' r = r_pages ?m r"
    "r_size ?m' r = r_size ?m r" "r_usage ?m' r = r_usage ?m r" if "c \<in> set (xs @ ys)" for c
    using that fb [of c] fb [of r] by (auto simp: frame_simps)
  have frr: "r_first ?m' r = r_first ?m r" "r_pages ?m' r = r_pages ?m r" "r_size ?m' r = r_size ?m r"
    "r_usage ?m' r = r_usage ?m r" using fb [of r] by (simp_all add: frame_simps)
  have qb: "b_req ?m' b = ucast n" by (simp add: hdr_simps)
  have le: "(ucast n :: u32) \<le> b_req ?m b" using len un by (simp add: word_le_nat_alt)
  have t: "touch (set (r # ?bs)) ?m ?m'" by (rule touch_step [OF touch_refl hdr_only_sets(6)]) simp
  have "4096 \<le> unat (r_size ?m r)" using regions_okD(3) [OF hd(6), of "(r, ?bs)"] by (intro paged_size) simp
  then have ins: "inside (unat r) (rtop ?m r) ?m ?m'" by (intro touch_region_inside [OF rok t]) simp_all
  have rok': "region_ok ?m' r ?bs"
  proof -
    have sg: "seg ?m' r 0 ?bs 0 = seg ?m r 0 ?bs 0" by (rule seg_cong) (simp add: f)
    have us: "used_bytes ?m' ?bs = used_bytes ?m ?bs" by (rule used_bytes_cong) (simp add: f)
    have weak: "spaced m1 lo cs hi \<Longrightarrow> (\<And>c. c \<in> set cs \<Longrightarrow> b_size m2 c = b_size m1 c \<and> b_req m2 c \<le> b_req m1 c)
      \<Longrightarrow> spaced m2 lo cs hi" for m1 m2 lo cs hi
      by (induction cs arbitrary: lo) (auto simp: block_top_def intro: order_trans)
    have sp: "spaced ?m' lo ?bs hi" if "spaced ?m lo ?bs hi" for lo hi
      by (rule weak [OF that]) (use f(5) fr(1) qb le in auto)
    show ?thesis using rok sp unfolding region_ok_def frr sg us by blast
  qed
  define h1 where "h1 = ?h"
  have h1: "h_mem h1 = ?m'" "h_phys h1 = h_phys h" "h_root h1 = h_root h" "h_best h1 = h_best h"
    "h_init h1 = h_init h" "h_region_count h1 = h_region_count h" "h_live h1 = h_live h"
    "h_total_region_bytes h1 = h_total_region_bytes h" "h_in_use h1 = h_in_use h - ucast (b_req ?m b) + n"
    by (simp_all add: h1_def set_req_def ab)
  have ok': "heap_ok F h1 (us @ (r, ?bs) # vs)"
  proof (rule heap_ok_local [OF ok])
    have "(\<Sum>c\<leftarrow>zs. ucast (b_req ?m' c) :: u64) = (\<Sum>c\<leftarrow>zs. ucast (b_req ?m c))" if "set zs \<subseteq> set (xs @ ys)" for zs
      using that fr(1) by (intro arg_cong [where f = sum_list]) auto
    then show "h_in_use h1 = h_in_use h + (\<Sum>b\<leftarrow>?bs. ucast (b_req (h_mem h1) b)) - (\<Sum>b\<leftarrow>?bs. ucast (b_req ?m b))"
      by (simp add: h1 qb uu)
  qed (use ins rok' frr f [of r] in \<open>simp_all add: h1\<close>)
  have apart: "b \<notin> set (blocks (us @ vs))"
    using blocks_apart [OF hd(6), of b b] bb by (auto simp: block_top_def)
  have pay: "ld ?m' (c + HDR) k = ld ?m (c + HDR) k" if "c \<in> set ?bs" "k \<le> unat (b_req ?m c)" for c k
    using that block_bounds(5) [OF rok that(1)] by (intro region_payload [OF rok t]) (auto simp: word_le_nat_alt)
  have "view ?m' (us @ (r, ?bs) # vs) = (view ?m (us @ (r, ?bs) # vs))
    (a := if a - HDR \<in> set ?bs then Some (ld ?m' a (unat (b_req ?m' (a - HDR)))) else None)"
  proof (rule view_local [OF hd(6) ins])
    show "(if c - HDR \<in> set ?bs then Some (ld ?m' c (unat (b_req ?m' (c - HDR)))) else None)
      = (if c - HDR \<in> set ?bs then Some (ld ?m c (unat (b_req ?m (c - HDR)))) else None) \<or> c = a" for c
    proof (cases "c - HDR \<in> set ?bs \<and> c \<noteq> a")
      case True
      then have "c - HDR \<in> set (xs @ ys)" by (auto simp: b_def)
      then show ?thesis using pay [of "c - HDR" "unat (b_req ?m (c - HDR))"] fr(1) [of "c - HDR"] by auto
    qed auto
  qed (use apart in \<open>simp add: ab\<close>)
  moreover have "ld ?m' a (unat n) = take (unat n) d"
    using pay [OF bin, of "unat n"] len unfolding d ab by (simp add: ld_def take_map)
  ultimately have "view ?m' (us @ (r, ?bs) # vs) = v(a \<mapsto> take (unat n) d)"
    using un qb by (simp add: v flip: b_def)
  with ok' ne have "heap_rel F h1 (v(a \<mapsto> take (unat n) d))" unfolding heap_rel_def by (metis h1(1))
  then show ?thesis by (simp add: h1_def)
qed

lemma krealloc_ok:
  assumes rel: "heap_rel F h v" and a: "v a = Some d" and n: "0 < n" "unat n + 15 < 2 ^ 64"
  shows "\<exists>q h'. krealloc a n h = Some (q, h') \<and> (q = 0 \<and> h' = h \<or> q \<noteq> 0 \<and> (q = a \<or> v q = None)
    \<and> (\<exists>e. length e = unat n \<and> heap_rel F h' ((v(a := None))(q \<mapsto> e))
      \<and> take (min (length d) (unat n)) e = take (min (length d) (unat n)) d))"
proof -
  obtain us r xs ys vs where ok: "heap_ok F h (us @ (r, xs @ (a - HDR) # ys) # vs)"
    and d: "d = ld (h_mem h) a (unat (b_req (h_mem h) (a - HDR)))"
    by (rule heap_rel_block [OF rel a])
  define b where "b = a - HDR"
  have ab: "a = b + HDR" by (simp add: b_def)
  have rok: "region_ok (h_mem h) r (xs @ b # ys)"
    using regions_okD(2) [OF heap_okD(6) [OF ok], of "(r, xs @ b # ys)"] by (simp add: b_def)
  note hd = block_hdr [OF rok]
  have dl: "length d = unat (b_req (h_mem h) b)" by (simp add: d b_def)
  have n0: "n \<noteq> 0" using n(1) by auto
  let ?req = "ucast (b_req (h_mem h) b) :: u64"
  have ureq: "unat ?req = length d" by (simp add: dl unat_ucast_up)
  have unf: "krealloc a n h = (if n \<le> ?req then
        Some (a, (upd_mem (\<lambda>m. st32 m (b + 40) (ucast n)) h)\<lparr>h_in_use := h_in_use h - ?req + n\<rparr>)
      else case kmalloc n h of None \<Rightarrow> None
      | Some (np, h) \<Rightarrow> if np = 0 then Some (0, h)
          else map_option (\<lambda>h. (np, h)) (kfree a (upd_mem (\<lambda>m. st m np (ld m a (unat (b_req m b)))) h)))"
  proof -
    have "a \<noteq> 0" using hd(3) by (simp add: ab)
    then show ?thesis using hd(1) n0 unfolding krealloc_def Let_def b_def [symmetric] by simp
  qed
  show ?thesis
  proof (cases "n \<le> ?req")
    case True
    then have le: "unat n \<le> length d" by (simp add: word_le_nat_alt ureq)
    note sh = shrink_ok [OF rel a le, folded b_def]
    let ?h = "(upd_mem (\<lambda>m. st32 m (b + 40) (ucast n)) h)\<lparr>h_in_use := h_in_use h - ?req + n\<rparr>"
    have "\<exists>e. length e = unat n \<and> heap_rel F ?h ((v(a := None))(a \<mapsto> e))
      \<and> take (min (length d) (unat n)) e = take (min (length d) (unat n)) d"
      by (rule exI [of _ "take (unat n) d"]) (use sh le in \<open>simp add: min_absorb2\<close>)
    moreover have "krealloc a n h = Some (a, ?h)" unfolding unf by (rule if_P [OF True])
    moreover have "a \<noteq> 0" using hd(3) by (simp add: ab)
    ultimately show ?thesis by blast
  next
    case False
    then have lt: "length d < unat n" by (simp add: word_le_nat_alt ureq)
    from kmalloc_ok [OF rel n] show ?thesis
    proof (elim disjE exE conjE)
      assume "kmalloc n h = Some (0, h)"
      then show ?thesis by (simp add: unf False)
    next
      fix np h1 assume k: "kmalloc n h = Some (np, h1)" "grants F v n np h1"
      then obtain e where e: "np \<noteq> 0" "v np = None" "length e = unat n" "heap_rel F h1 (v(np \<mapsto> e))"
        by (auto simp: grants_def)
      have ne: "np \<noteq> a" using e(2) a by auto
      have a1: "(v(np \<mapsto> e)) a = Some d" using a ne by simp
      have d1: "d = ld (h_mem h1) a (unat (b_req (h_mem h1) b))"
        unfolding b_def by (rule heap_rel_block [OF e(4) a1])
      have "heap_rel F (store np d h1) (v(np \<mapsto> d @ drop (length d) e))"
        using store_ok [OF e(4), of np e d] lt e(3) by simp
      then obtain h2 where h2: "kfree a (store np d h1) = Some h2"
        "heap_rel F h2 ((v(np \<mapsto> d @ drop (length d) e))(a := None))"
        using kfree_ok [of F "store np d h1" "v(np \<mapsto> d @ drop (length d) e)" a d] a ne by auto
      have "krealloc a n h = Some (np, h2)"
        using k(1) e(1) False h2(1) by (simp add: unf store_def upd_mem_def flip: d1)
      moreover have "(v(np \<mapsto> d @ drop (length d) e))(a := None) = (v(a := None))(np \<mapsto> d @ drop (length d) e)"
        using ne by (rule fun_upd_twist)
      with h2(2) have "heap_rel F h2 ((v(a := None))(np \<mapsto> d @ drop (length d) e))" by simp
      moreover have "length (d @ drop (length d) e) = unat n" using lt e(3) by simp
      moreover have "take (min (length d) (unat n)) (d @ drop (length d) e) = take (min (length d) (unat n)) d"
        using lt by simp
      ultimately show ?thesis using e(1,2) by blast
    qed
  qed
qed

section \<open>What the relation says\<close>

lemma heap_boot_ok:
  assumes "phys_inv p" "hhdm_ok p"
  shows "heap_rel (free_set p) (heap_init (heap_boot m p)) Map.empty"
proof -
  have "heap_ok (free_set p) (heap_init (heap_boot m p)) []"
    using assms by (simp add: heap_ok_def heap_init_def heap_boot_def regions_ok_def stats_ok_def)
  moreover have "view (h_mem (heap_init (heap_boot m p))) [] = Map.empty" by (auto simp: view_def)
  ultimately show ?thesis unfolding heap_rel_def by (metis empty_iff list.set(1))
qed

lemma heap_payloads_apart:
  assumes rel: "heap_rel F h v" and a: "v a = Some d" and c: "v c = Some e" and ne: "a \<noteq> c"
  shows "unat a + length d \<le> unat c \<or> unat c + length e \<le> unat a" "unat a + length d \<le> 2 ^ 64" "a \<noteq> 0"
proof -
  obtain us r xs ys vs where ok: "heap_ok F h (us @ (r, xs @ (a - HDR) # ys) # vs)"
    and v: "v = view (h_mem h) (us @ (r, xs @ (a - HDR) # ys) # vs)"
    and d: "d = ld (h_mem h) a (unat (b_req (h_mem h) (a - HDR)))"
    by (rule heap_rel_block [OF rel a])
  define b f where "b = a - HDR" and "f = c - HDR"
  have ab: "a = b + HDR" "c = f + HDR" by (simp_all add: b_def f_def)
  let ?m = "h_mem h" and ?bs = "xs @ b # ys"
  note R = heap_okD(6) [OF ok, folded b_def]
  have rok: "region_ok ?m r ?bs" using regions_okD(2) [OF R, of "(r, ?bs)"] by simp
  have bin: "b \<in> set ?bs" by simp
  note bb = block_bounds [OF rok bin]
  have lf: "f \<in> set (blocks (us @ (r, ?bs) # vs))" "length e = unat (b_req ?m f)"
    using c by (auto simp: v view_def b_def f_def split: if_splits)
  have ld: "length d = unat (b_req ?m b)" by (simp add: d b_def)
  have ub: "unat a = unat b + 48" unfolding ab using bb by (intro unat_payload [of ?m]) simp
  have lb: "unat (b_req ?m b) \<le> unat (b_size ?m b)" using bb(5) by (simp add: word_le_nat_alt)
  show "unat a + length d \<le> 2 ^ 64" using bb lb by (simp add: ub ld block_top_def)
  show "a \<noteq> 0" using ub by auto
  have nu: "unat a \<noteq> unat c" using ne by (simp add: word_unat_eq_iff)
  show "unat a + length d \<le> unat c \<or> unat c + length e \<le> unat a"
  proof (cases "f \<in> set ?bs")
    case True
    note bf = block_bounds [OF rok True]
    have uf: "unat c = unat f + 48" unfolding ab using bf by (intro unat_payload [of ?m]) simp
    have "unat (b_req ?m f) \<le> unat (b_size ?m f)" using bf(5) by (simp add: word_le_nat_alt)
    then show ?thesis
      using hdr_outside_payload(1) [OF rok bin, of f] hdr_outside_payload(1) [OF rok True, of b] True lb nu
      by (auto simp: ub uf ld lf(2) block_top_def)
  next
    case False
    then have "f \<in> set (blocks (us @ vs))" using lf(1) by auto
    note o = other_block_in [OF R this]
    have uf: "unat c = unat f + 48" unfolding ab by (rule unat_payload [OF o(2)])
    have "unat (b_req ?m f) \<le> unat (b_size ?m f)" using o(3) by (simp add: word_le_nat_alt)
    then show ?thesis using o(1) bb lb by (auto simp: beside_def ub uf ld lf(2) block_top_def)
  qed
qed

lemma heap_empty:
  assumes "heap_rel F h Map.empty"
  shows "h_root h = 0" "h_in_use h = 0" "h_live h = 0" "h_region_count h = 0" "h_total_region_bytes h = 0"
    "free_set (h_phys h) = F"
proof -
  obtain rs where rs: "heap_ok F h rs" "\<forall>x \<in> set rs. snd x \<noteq> []" "Map.empty = view (h_mem h) rs"
    using assms by (auto simp: heap_rel_def)
  have "rs = []"
  proof (rule ccontr)
    assume "rs \<noteq> []"
    then obtain x where x: "x \<in> set rs" by (cases rs) auto
    then obtain b where "b \<in> set (snd x)" using rs(2) by (cases "snd x") fastforce+
    then have "view (h_mem h) rs (b + HDR) \<noteq> None" using x by (auto simp: view_def blocks_def)
    with rs(3) show False by metis
  qed
  with heap_okD [OF rs(1)] show "h_root h = 0" "h_in_use h = 0" "h_live h = 0" "h_region_count h = 0"
    "h_total_region_bytes h = 0" "free_set (h_phys h) = F"
    by (simp_all add: stats_ok_def)
qed

lemma blocks_distinct: "regions_ok p m (us @ vs) \<Longrightarrow> distinct (blocks vs)"
proof (induction vs arbitrary: us)
  case (Cons x vs)
  obtain r bs where x: "x = (r, bs)" by (cases x)
  have R: "regions_ok p m (us @ (r, bs) # vs)" using Cons.prems by (simp add: x)
  have rok: "region_ok m r bs" using regions_okD(2) [OF R, of "(r, bs)"] by simp
  have "sorted_wrt far bs" using region_ok_far [OF rok] by simp
  then have "distinct bs" by (induction bs) (auto dest: far_neq)
  moreover have "c \<notin> set (blocks vs)" if "c \<in> set bs" for c
  proof
    assume "c \<in> set (blocks vs)"
    then show False using blocks_apart [OF R, of c c] block_bounds [OF rok that] by (auto simp: block_top_def)
  qed
  moreover have "distinct (blocks vs)" using Cons.IH [of "us @ [x]"] Cons.prems by simp
  ultimately show ?case by (auto simp: x)
qed simp

lemma heap_stats_exact:
  assumes "heap_rel F h v"
  shows "finite (dom v)" "h_live h = of_nat (card (dom v))"
    "h_in_use h = (\<Sum>a \<in> dom v. of_nat (length (the (v a))))"
proof -
  obtain rs where rs: "heap_ok F h rs" "v = view (h_mem h) rs"
    using assms by (auto simp: heap_rel_def)
  note d = heap_okD [OF rs(1)]
  have ds: "distinct (blocks rs)" using blocks_distinct [of "h_phys h" "h_mem h" "[]" rs] d(6) by simp
  have dm: "dom v = (\<lambda>b. b + HDR) ` set (blocks rs)"
    by (auto simp: rs(2) view_def image_iff split: if_splits) (metis diff_add_cancel)
  have inj: "inj_on (\<lambda>b. b + HDR) (set (blocks rs))" by (rule inj_onI) simp
  show "finite (dom v)" by (simp add: dm)
  have "card (dom v) = length (blocks rs)" unfolding dm by (simp add: card_image [OF inj] distinct_card [OF ds])
  then show "h_live h = of_nat (card (dom v))" using d(8) by (simp add: stats_ok_def)
  have "(\<Sum>a \<in> dom v. of_nat (length (the (v a))) :: u64) = (\<Sum>b \<in> set (blocks rs). ucast (b_req (h_mem h) b))"
    unfolding dm by (subst sum.reindex [OF inj]) (auto intro!: sum.cong simp: rs(2) view_def)
  also have "\<dots> = (\<Sum>b\<leftarrow>blocks rs. ucast (b_req (h_mem h) b))" by (rule sum_list_distinct_conv_sum_set [OF ds, symmetric])
  finally show "h_in_use h = (\<Sum>a \<in> dom v. of_nat (length (the (v a))))" using d(8) by (simp add: stats_ok_def)
qed

section \<open>The interface\<close>

text \<open>A client of an allocator: it keeps its own record of what it put where.\<close>

datatype client_op = Put "u8 list" | Drop u64 | Write u64 "u8 list"

fun client :: "(u64 \<Rightarrow> 's \<Rightarrow> (u64 \<times> 's) option) \<Rightarrow> (u64 \<Rightarrow> 's \<Rightarrow> 's option) \<Rightarrow> (u64 \<Rightarrow> u8 list \<Rightarrow> 's \<Rightarrow> 's)
    \<Rightarrow> client_op list \<Rightarrow> 's \<Rightarrow> (u64 \<Rightarrow> u8 list option) \<Rightarrow> ('s \<times> (u64 \<Rightarrow> u8 list option)) option" where
  "client alloc free wr [] s v = Some (s, v)"
| "client alloc free wr (Put d # ops) s v =
     (case alloc (of_nat (length d)) s of None \<Rightarrow> None
      | Some (a, s) \<Rightarrow> if a = 0 then client alloc free wr ops s v
          else client alloc free wr ops (wr a d s) (v(a \<mapsto> d)))"
| "client alloc free wr (Drop a # ops) s v =
     (if v a = None then client alloc free wr ops s v
      else case free a s of None \<Rightarrow> None | Some s \<Rightarrow> client alloc free wr ops s (v(a := None)))"
| "client alloc free wr (Write a d # ops) s v =
     (case v a of None \<Rightarrow> client alloc free wr ops s v
      | Some e \<Rightarrow> if length e < length d then client alloc free wr ops s v
          else client alloc free wr ops (wr a d s) (v(a \<mapsto> d @ drop (length d) e)))"

fun op_ok :: "client_op \<Rightarrow> bool" where
  "op_ok (Put d) = (0 < length d \<and> length d + 15 < 2 ^ 64)"
| "op_ok _ = True"

locale allocator =
  fixes rel :: "'s \<Rightarrow> (u64 \<Rightarrow> u8 list option) \<Rightarrow> bool"
    and alloc :: "u64 \<Rightarrow> 's \<Rightarrow> (u64 \<times> 's) option"
    and free :: "u64 \<Rightarrow> 's \<Rightarrow> 's option"
    and wr :: "u64 \<Rightarrow> u8 list \<Rightarrow> 's \<Rightarrow> 's"
  assumes alloc_law: "rel s v \<Longrightarrow> 0 < n \<Longrightarrow> unat n + 15 < 2 ^ 64 \<Longrightarrow> \<exists>a s'. alloc n s = Some (a, s') \<and>
      (a = 0 \<and> s' = s \<or> a \<noteq> 0 \<and> v a = None \<and> (\<exists>d. length d = unat n \<and> rel s' (v(a \<mapsto> d))))"
    and free_law: "rel s v \<Longrightarrow> v a \<noteq> None \<Longrightarrow> \<exists>s'. free a s = Some s' \<and> rel s' (v(a := None))"
    and wr_law: "rel s v \<Longrightarrow> v a = Some d \<Longrightarrow> length bs \<le> length d \<Longrightarrow> rel (wr a bs s) (v(a \<mapsto> bs @ drop (length bs) d))"
begin

lemma put_step:
  assumes "rel s v" "op_ok (Put d)"
  shows "\<exists>a s'. alloc (of_nat (length d)) s = Some (a, s') \<and>
    (a = 0 \<and> rel s' v \<or> a \<noteq> 0 \<and> v a = None \<and> rel (wr a d s') (v(a \<mapsto> d)))"
proof -
  have u: "unat (of_nat (length d) :: u64) = length d" using assms(2) by (intro unat_of_nat_eq) simp
  have "0 < (of_nat (length d) :: u64)" using assms(2) u by (simp add: word_less_nat_alt)
  with alloc_law [OF assms(1), of "of_nat (length d)"] assms(2) u obtain a s' where
    a: "alloc (of_nat (length d)) s = Some (a, s')"
      "a = 0 \<and> s' = s \<or> a \<noteq> 0 \<and> v a = None \<and> (\<exists>e. length e = length d \<and> rel s' (v(a \<mapsto> e)))" by auto
  then show ?thesis
  proof (cases "a = 0")
    case False
    then obtain e where e: "v a = None" "length e = length d" "rel s' (v(a \<mapsto> e))" using a(2) by blast
    from wr_law [OF e(3), of a e d] e(2) have "rel (wr a d s') (v(a \<mapsto> d))" by simp
    with False a(1) e(1) show ?thesis by blast
  qed (use a assms(1) in auto)
qed

lemma client_refines:
  "rel s v \<Longrightarrow> list_all op_ok ops \<Longrightarrow> \<exists>s' v'. client alloc free wr ops s v = Some (s', v') \<and> rel s' v'"
proof (induction ops arbitrary: s v)
  case (Cons x ops)
  show ?case
  proof (cases x)
    case (Put d)
    with Cons.prems obtain a s' where "alloc (of_nat (length d)) s = Some (a, s')"
      "a = 0 \<and> rel s' v \<or> a \<noteq> 0 \<and> v a = None \<and> rel (wr a d s') (v(a \<mapsto> d))"
      using put_step [of s v d] by auto
    with Cons Put show ?thesis by auto
  next
    case (Drop a)
    with Cons free_law [of s v a] show ?thesis by fastforce
  next
    case (Write a d)
    with Cons wr_law [of s v a _ d] show ?thesis by (auto split: option.splits)
  qed
qed simp

lemma drop_all:
  "rel s v \<Longrightarrow> dom v \<subseteq> set xs \<Longrightarrow> \<exists>s'. client alloc free wr (map Drop xs) s v = Some (s', Map.empty) \<and> rel s' Map.empty"
proof (induction xs arbitrary: s v)
  case (Cons a xs)
  show ?case
  proof (cases "v a = None")
    case True
    then have "dom v \<subseteq> set xs" using Cons.prems(2) by auto
    with Cons.IH [OF Cons.prems(1)] True show ?thesis by simp
  next
    case False
    then obtain s1 where 1: "free a s = Some s1" "rel s1 (v(a := None))" using free_law [OF Cons.prems(1)] by blast
    have "dom (v(a := None)) \<subseteq> set xs" using Cons.prems(2) by auto
    from Cons.IH [OF 1(2) this] obtain s2 where "client alloc free wr (map Drop xs) s1 (v(a := None)) = Some (s2, Map.empty)" "rel s2 Map.empty"
      by blast
    moreover obtain e where "v a = Some e" using False by blast
    ultimately show ?thesis using 1(1) by simp
  qed
qed simp

end

interpretation heap: allocator "heap_rel F" kmalloc kfree store
proof unfold_locales
  show "\<exists>a s'. kmalloc n s = Some (a, s') \<and>
      (a = 0 \<and> s' = s \<or> a \<noteq> 0 \<and> v a = None \<and> (\<exists>d. length d = unat n \<and> heap_rel F s' (v(a \<mapsto> d))))"
    if "heap_rel F s v" "0 < n" "unat n + 15 < 2 ^ 64" for s v n
    using kmalloc_ok [OF that] unfolding grants_def by blast
  show "\<exists>s'. kfree a s = Some s' \<and> heap_rel F s' (v(a := None))" if "heap_rel F s v" "v a \<noteq> None" for s v a
    using that kfree_ok by blast
qed (rule store_ok)

section \<open>A concrete heap\<close>

definition heap_phys :: phys_state where
  "heap_phys = phys_boot\<lparr>g_bitmap := [1, 0, 0], g_total_pages := 24, g_free_pages := 23,
     g_used_pages := 1, g_hhdm_offset := 0x10000, phys_initialized := True\<rparr>"

definition heap_ex :: heap_state where
  "heap_ex = heap_init (heap_boot (\<lambda>_. 0) heap_phys)"

lemma heap_phys_inv: "phys_inv heap_phys" "hhdm_ok heap_phys"
proof -
  have fs: "free_set heap_phys = {1..<24}"
    by (auto simp: free_set_def heap_phys_def phys_boot_def bit_test_bit nth_Cons' bit_1_iff)
  show "phys_inv heap_phys" unfolding phys_inv_def fs by (simp add: heap_phys_def phys_boot_def bit_test_bit)
  show "hhdm_ok heap_phys" by (simp add: hhdm_ok_def heap_phys_def phys_boot_def)
qed

lemma heap_ex_rel: "heap_rel (free_set heap_phys) heap_ex Map.empty"
  unfolding heap_ex_def by (rule heap_boot_ok [OF heap_phys_inv])

text \<open>One allocation on it.\<close>

lemma heap_ex_alloc: "\<exists>h d. kmalloc 100 heap_ex = Some (69728, h) \<and> length d = 100
    \<and> heap_rel (free_set heap_phys) h [69728 \<mapsto> d]"
proof -
  have "map_option fst (kmalloc 100 heap_ex) = Some 69728" unfolding heap_ex_def by code_simp
  with kmalloc_ok [OF heap_ex_rel, of 100] show ?thesis by (auto simp: grants_def)
qed

section \<open>Properties\<close>

text \<open>C5. The heap implements a store.\<close>

theorem heap_client_refines:
  assumes "phys_inv p" "hhdm_ok p" "list_all op_ok ops"
  shows "\<exists>h v. client kmalloc kfree store ops (heap_init (heap_boot m p)) Map.empty = Some (h, v)
    \<and> heap_rel (free_set p) h v"
  by (rule heap.client_refines [OF heap_boot_ok [OF assms(1,2)] assms(3)])

theorem heap_client_refines_witness:
  "\<exists>h v. client kmalloc kfree store [Put [1, 2, 3], Put (replicate 5000 7), Drop 69728, Put [4]]
      (heap_init (heap_boot (\<lambda>_. 0) heap_phys)) Map.empty = Some (h, v) \<and> heap_rel (free_set heap_phys) h v"
  by (rule heap_client_refines [OF heap_phys_inv]) simp

text \<open>C6. kmalloc.\<close>

theorem kmalloc_sound:
  assumes "heap_rel F h v" "0 < n" "unat n + 15 < 2 ^ 64"
  shows "\<exists>a h'. kmalloc n h = Some (a, h') \<and> (a = 0 \<and> h' = h \<or>
    a \<noteq> 0 \<and> 16 dvd unat a \<and> v a = None \<and> (\<exists>d. length d = unat n \<and> heap_rel F h' (v(a \<mapsto> d))))"
  using kmalloc_ok [OF assms] unfolding grants_def by blast

theorem kmalloc_sound_witness:
  "\<exists>a h'. kmalloc 100 heap_ex = Some (a, h') \<and> (a = 0 \<and> h' = heap_ex \<or>
    a \<noteq> 0 \<and> 16 dvd unat a \<and> (Map.empty :: u64 \<Rightarrow> u8 list option) a = None
    \<and> (\<exists>d. length d = unat (100 :: u64) \<and> heap_rel (free_set heap_phys) h' (Map.empty(a \<mapsto> d))))"
  by (rule kmalloc_sound [OF heap_ex_rel]) simp_all

text \<open>C7. kfree.\<close>

theorem kfree_sound:
  assumes "heap_rel F h v" "v a = Some d"
  shows "\<exists>h'. kfree a h = Some h' \<and> heap_rel F h' (v(a := None)) \<and> kfree a h' = Some h'"
  by (rule kfree_ok [OF assms])

theorem kfree_sound_witness:
  "\<exists>h h'. kmalloc 100 heap_ex = Some (69728, h) \<and> kfree 69728 h = Some h'
    \<and> heap_rel (free_set heap_phys) h' Map.empty \<and> kfree 69728 h' = Some h'"
proof -
  obtain h d where h: "kmalloc 100 heap_ex = Some (69728, h)" "heap_rel (free_set heap_phys) h [69728 \<mapsto> d]"
    using heap_ex_alloc by blast
  from kfree_sound [OF h(2), of 69728 d] h(1) show ?thesis by auto
qed

text \<open>C8. krealloc.\<close>

theorem krealloc_sound:
  assumes "heap_rel F h v" "v a = Some d" "0 < n" "unat n + 15 < 2 ^ 64"
  shows "\<exists>q h'. krealloc a n h = Some (q, h') \<and> (q = 0 \<and> h' = h \<or> q \<noteq> 0 \<and> (q = a \<or> v q = None)
    \<and> (\<exists>e. length e = unat n \<and> heap_rel F h' ((v(a := None))(q \<mapsto> e))
      \<and> take (min (length d) (unat n)) e = take (min (length d) (unat n)) d))"
  by (rule krealloc_ok [OF assms])

theorem krealloc_sound_witness:
  "\<exists>h d q h'. kmalloc 100 heap_ex = Some (69728, h) \<and> length d = 100 \<and> krealloc 69728 4000 h = Some (q, h') \<and>
    (q = 0 \<and> h' = h \<or> q \<noteq> 0 \<and> (\<exists>e. length e = 4000 \<and> heap_rel (free_set heap_phys) h' [q \<mapsto> e] \<and> take 100 e = d))"
proof -
  obtain h d where h: "kmalloc 100 heap_ex = Some (69728, h)" "length d = 100" "heap_rel (free_set heap_phys) h [69728 \<mapsto> d]"
    using heap_ex_alloc by blast
  from krealloc_sound [OF h(3), of 69728 d 4000] obtain q h' where
    "krealloc 69728 4000 h = Some (q, h')" "q = 0 \<and> h' = h \<or> q \<noteq> 0 \<and>
      (\<exists>e. length e = 4000 \<and> heap_rel (free_set heap_phys) h' [q \<mapsto> e] \<and> take 100 e = d)"
    using h(2) by (auto simp: min_def)
  with h show ?thesis by blast
qed

text \<open>kcalloc.\<close>

theorem kcalloc_sound:
  assumes "heap_rel F h v" "unat c * unat n + 15 < 2 ^ 64 \<or> 2 ^ 64 \<le> unat c * unat n"
  shows "\<exists>a h'. kcalloc c n h = Some (a, h') \<and> (a = 0 \<and> h' = h
    \<or> a \<noteq> 0 \<and> v a = None \<and> heap_rel F h' (v(a \<mapsto> replicate (unat c * unat n) 0)))"
  by (rule kcalloc_ok [OF assms])

theorem kcalloc_sound_witness:
  "\<exists>a h'. kcalloc 0x100000000 0x100000000 heap_ex = Some (a, h') \<and> (a = 0 \<and> h' = heap_ex
    \<or> a \<noteq> 0 \<and> (Map.empty :: u64 \<Rightarrow> u8 list option) a = None \<and>
      heap_rel (free_set heap_phys) h' (Map.empty(a \<mapsto> replicate (unat (0x100000000 :: u64) * unat (0x100000000 :: u64)) 0)))"
  by (rule kcalloc_sound [OF heap_ex_rel]) simp

text \<open>Live allocations never overlap and the statistics are exact.\<close>

theorem heap_allocations_disjoint:
  assumes "heap_rel F h v"
  shows "h_live h = of_nat (card (dom v)) \<and> h_in_use h = (\<Sum>a \<in> dom v. of_nat (length (the (v a))))
    \<and> (\<forall>a d c e. v a = Some d \<and> v c = Some e \<and> a \<noteq> c \<longrightarrow>
        unat a + length d \<le> unat c \<or> unat c + length e \<le> unat a)"
  using heap_stats_exact [OF assms] heap_payloads_apart(1) [OF assms] by blast

theorem heap_allocations_disjoint_witness:
  "\<exists>h d. kmalloc 100 heap_ex = Some (69728, h) \<and> h_live h = 1 \<and> h_in_use h = 100 \<and> length (d :: u8 list) = 100"
proof -
  obtain h d where h: "kmalloc 100 heap_ex = Some (69728, h)" "length d = 100" "heap_rel (free_set heap_phys) h [69728 \<mapsto> d]"
    using heap_ex_alloc by blast
  from heap_allocations_disjoint [OF h(3)] h(1,2) show ?thesis by auto
qed

text \<open>C9. No page leaks.  Whatever a client does with a booted heap, once it frees the blocks that it still
  holds, in any order, no region is left, the statistics are back at zero, and the free pages are those
  there were at boot.\<close>

theorem heap_drained:
  assumes "phys_inv p" "hhdm_ok p" "list_all op_ok ops"
  shows "\<exists>h v. client kmalloc kfree store ops (heap_init (heap_boot m p)) Map.empty = Some (h, v) \<and> finite (dom v)
    \<and> (\<forall>xs. set xs = dom v \<longrightarrow> (\<exists>h'. client kmalloc kfree store (map Drop xs) h v = Some (h', Map.empty)
         \<and> h_root h' = 0 \<and> h_in_use h' = 0 \<and> h_live h' = 0 \<and> h_region_count h' = 0 \<and> h_total_region_bytes h' = 0
         \<and> free_set (h_phys h') = free_set p))"
proof -
  obtain h v where 1: "client kmalloc kfree store ops (heap_init (heap_boot m p)) Map.empty = Some (h, v)" "heap_rel (free_set p) h v"
    using heap.client_refines [OF heap_boot_ok [OF assms(1,2)] assms(3)] by blast
  moreover have "\<exists>h'. client kmalloc kfree store (map Drop xs) h v = Some (h', Map.empty)
      \<and> h_root h' = 0 \<and> h_in_use h' = 0 \<and> h_live h' = 0 \<and> h_region_count h' = 0 \<and> h_total_region_bytes h' = 0
      \<and> free_set (h_phys h') = free_set p" if "set xs = dom v" for xs
  proof -
    have "dom v \<subseteq> set xs" using that by simp
    from heap.drop_all [OF 1(2) this] obtain h' where "client kmalloc kfree store (map Drop xs) h v = Some (h', Map.empty)"
        "heap_rel (free_set p) h' Map.empty" by blast
    with heap_empty [OF this(2)] show ?thesis by simp
  qed
  ultimately show ?thesis using heap_stats_exact(1) [OF 1(2)] by blast
qed

theorem heap_drained_witness:
  "\<exists>h v. client kmalloc kfree store [Put [1, 2, 3], Put (replicate 5000 7), Drop 69728, Put [4]]
      (heap_init (heap_boot (\<lambda>_. 0) heap_phys)) Map.empty = Some (h, v)
    \<and> (\<forall>xs. set xs = dom v \<longrightarrow> (\<exists>h'. client kmalloc kfree store (map Drop xs) h v = Some (h', Map.empty)
         \<and> free_set (h_phys h') = free_set heap_phys))"
proof -
  have "list_all op_ok [Put [1, 2, 3], Put (replicate 5000 7), Drop 69728, Put [4]]" by simp
  from heap_drained [OF heap_phys_inv this, of "\<lambda>_. 0"] show ?thesis by blast
qed

text \<open>Wrap.\<close>

theorem kmalloc_size_wraps:
  "map_option (\<lambda>(a, h). (a, b_size (h_mem h) (a - HDR), h_in_use h)) (kmalloc (- 1) heap_ex) = Some (69728, 0, - 1)"
  unfolding heap_ex_def by code_simp

end
