(* ===== verification/Usb.thy ===== *)
theory Usb
  imports Prelude
begin

text \<open>
  USB enumeration, \<open>drivers/usb/usb.cpp\<close>: the standard requests as 8-byte setup packets and the
  sequence that gives the device its address and configuration.  The host controllers are a
  parameter: a control transfer takes the setup packet and the data buffer and returns success,
  the buffer and the new state of the bus.  The diagnostics on the serial port are left out.
\<close>

section \<open>The bus\<close>

record 'd bus =
  xhci_present :: "'d \<Rightarrow> bool"
  ehci_present :: "'d \<Rightarrow> bool"
  xhci_control :: "'d \<Rightarrow> u8 \<Rightarrow> u16 \<Rightarrow> u8 list \<Rightarrow> u8 list \<Rightarrow> u16 \<Rightarrow> bool \<times> u8 list \<times> 'd"
  ehci_control :: "'d \<Rightarrow> u8 \<Rightarrow> u16 \<Rightarrow> u8 list \<Rightarrow> u8 list \<Rightarrow> u16 \<Rightarrow> bool \<times> u8 list \<times> 'd"
  xhci_intr_open :: "'d \<Rightarrow> u8 \<Rightarrow> u8 \<Rightarrow> u16 \<Rightarrow> u8 \<Rightarrow> bool \<times> 'd"
  ehci_intr_open :: "'d \<Rightarrow> u8 \<Rightarrow> u8 \<Rightarrow> u16 \<Rightarrow> u8 \<Rightarrow> bool \<times> 'd"
  xhci_intr_read :: "'d \<Rightarrow> u8 list \<Rightarrow> u16 \<Rightarrow> bool \<times> u8 list \<times> 'd"
  ehci_intr_read :: "'d \<Rightarrow> u8 list \<Rightarrow> u16 \<Rightarrow> bool \<times> u8 list \<times> 'd"

record usb_state =
  g_enumerated :: bool
  g_device_mps :: u16
  g_device_addr :: u8

definition usb_boot :: usb_state where
  "usb_boot = \<lparr>g_enumerated = False, g_device_mps = 8, g_device_addr = 0\<rparr>"

definition get_device_mps :: "usb_state \<Rightarrow> u16" where "get_device_mps s = g_device_mps s"
definition get_device_addr :: "usb_state \<Rightarrow> u8" where "get_device_addr s = g_device_addr s"
definition is_enumerated :: "usb_state \<Rightarrow> bool" where "is_enumerated s = g_enumerated s"

section \<open>Requests\<close>

definition DESC_DEVICE :: u8 where "DESC_DEVICE = 1"
definition DESC_CONFIGURATION :: u8 where "DESC_CONFIGURATION = 2"
definition DESC_INTERFACE :: u8 where "DESC_INTERFACE = 4"
definition DESC_ENDPOINT :: u8 where "DESC_ENDPOINT = 5"
definition REQ_SET_ADDRESS :: u8 where "REQ_SET_ADDRESS = 5"
definition REQ_GET_DESCRIPTOR :: u8 where "REQ_GET_DESCRIPTOR = 6"
definition REQ_SET_CONFIGURATION :: u8 where "REQ_SET_CONFIGURATION = 9"
definition REQ_IN :: u8 where "REQ_IN = 0x80 OR 0 OR 0"
definition REQ_OUT :: u8 where "REQ_OUT = 0 OR 0 OR 0"

definition setup_packet :: "u8 \<Rightarrow> u8 \<Rightarrow> u16 \<Rightarrow> u16 \<Rightarrow> u16 \<Rightarrow> u8 list" where
  "setup_packet rt rq v i l = [rt, rq] @ le16 v @ le16 i @ le16 l"

definition send_setup :: "'d bus \<Rightarrow> 'd \<Rightarrow> u8 \<Rightarrow> u16 \<Rightarrow> u8 \<Rightarrow> u8 \<Rightarrow> u16 \<Rightarrow> u16 \<Rightarrow> u16 \<Rightarrow> u8 list \<Rightarrow> bool \<times> u8 list \<times> 'd" where
  "send_setup b d addr mps rt rq v i l data =
     (if xhci_present b d then xhci_control b d addr mps (setup_packet rt rq v i l) data l
      else ehci_control b d addr mps (setup_packet rt rq v i l) data l)"

definition desc_value :: "u8 \<Rightarrow> u8 \<Rightarrow> u16" where
  "desc_value ty ix = push_bit 8 (ucast ty) OR ucast ix"

definition get_descriptor :: "'d bus \<Rightarrow> 'd \<Rightarrow> u8 \<Rightarrow> u16 \<Rightarrow> u8 \<Rightarrow> u8 \<Rightarrow> u16 \<Rightarrow> u8 list \<Rightarrow> u16 \<Rightarrow> bool \<times> u8 list \<times> 'd" where
  "get_descriptor b d addr mps ty ix langid buf l =
     send_setup b d addr mps REQ_IN REQ_GET_DESCRIPTOR (desc_value ty ix) langid l buf"

definition set_address :: "'d bus \<Rightarrow> 'd \<Rightarrow> u8 \<Rightarrow> bool \<times> 'd" where
  "set_address b d new_addr =
     (let (ok, _, d) = send_setup b d 0 8 REQ_OUT REQ_SET_ADDRESS (ucast new_addr) 0 0 [] in (ok, d))"

definition set_configuration :: "'d bus \<Rightarrow> 'd \<Rightarrow> u8 \<Rightarrow> u16 \<Rightarrow> u8 \<Rightarrow> bool \<times> 'd" where
  "set_configuration b d addr mps config =
     (let (ok, _, d) = send_setup b d addr mps REQ_OUT REQ_SET_CONFIGURATION (ucast config) 0 0 [] in (ok, d))"

section \<open>Enumeration\<close>

text \<open>The fields of the device and configuration descriptors.\<close>

definition dd_bLength :: "u8 list \<Rightarrow> u8" where "dd_bLength dd = rd8 dd 0"
definition dd_bMaxPacketSize0 :: "u8 list \<Rightarrow> u8" where "dd_bMaxPacketSize0 dd = rd8 dd 7"
definition cd_wTotalLength :: "u8 list \<Rightarrow> u16" where "cd_wTotalLength cd = rd16 cd 2"
definition cd_bConfigurationValue :: "u8 list \<Rightarrow> u8" where "cd_bConfigurationValue cd = rd8 cd 5"

definition enumerate_device :: "'d bus \<Rightarrow> usb_state \<Rightarrow> 'd \<Rightarrow> u8 \<Rightarrow> bool \<times> usb_state \<times> 'd" where
  "enumerate_device b s d new_addr =
     (if g_enumerated s then (False, s, d)
      else if new_addr = 0 \<or> new_addr > 127 then (False, s, d)
      else let (ok, dd, d) = get_descriptor b d 0 8 DESC_DEVICE 0 0 (replicate 18 0) 8 in
      if \<not> ok then (False, s, d)
      else let mps0 = (if dd_bMaxPacketSize0 dd = 0 then 8 else dd_bMaxPacketSize0 dd);
               (ok, d) = set_address b d new_addr in
      if \<not> ok then (False, s, d)
      else let (ok, dd, d) = get_descriptor b d new_addr (ucast mps0) DESC_DEVICE 0 0 (replicate 18 0) 18 in
      if \<not> ok then (False, s, d)
      else if dd_bLength dd \<noteq> 18 then (False, s, d)
      else let mps0 = (if dd_bMaxPacketSize0 dd \<noteq> 0 then dd_bMaxPacketSize0 dd else mps0);
               (ok, cd, d) = get_descriptor b d new_addr (ucast mps0) DESC_CONFIGURATION 0 0 (replicate 9 0) 9 in
      if \<not> ok then (False, s, d)
      else let total_len = cd_wTotalLength cd in
      if total_len = 0 \<or> total_len > 4096 then (False, s, d)
      else let (ok, cfg, d) = get_descriptor b d new_addr (ucast mps0) DESC_CONFIGURATION 0 0 (replicate 4096 0) total_len in
      if \<not> ok then (False, s, d)
      else if cd_bConfigurationValue cfg = 0 then (False, s, d)
      else let (ok, d) = set_configuration b d new_addr (ucast mps0) (cd_bConfigurationValue cfg) in
      if \<not> ok then (False, s, d)
      else (True, \<lparr>g_enumerated = True, g_device_mps = ucast mps0, g_device_addr = new_addr\<rparr>, d))"

section \<open>The protocol\<close>

text \<open>A bus that records every control transfer.\<close>

definition logs :: "'d bus \<Rightarrow> ('d \<Rightarrow> (u8 \<times> u8 list) list) \<Rightarrow> bool" where
  "logs b log \<longleftrightarrow> (\<forall>d addr mps sp data l.
     log (snd (snd (xhci_control b d addr mps sp data l))) = log d @ [(addr, sp)]
     \<and> log (snd (snd (ehci_control b d addr mps sp data l))) = log d @ [(addr, sp)])"

lemma logs_send_setup:
  "logs b log \<Longrightarrow> send_setup b d addr mps rt rq v i l data = (ok, data', d')
    \<Longrightarrow> log d' = log d @ [(addr, setup_packet rt rq v i l)]"
  unfolding logs_def send_setup_def by (metis snd_conv)

lemma logs_requests:
  assumes "logs b log"
  shows "get_descriptor b d addr mps ty ix lang buf l = (ok, buf', d')
      \<Longrightarrow> log d' = log d @ [(addr, setup_packet REQ_IN REQ_GET_DESCRIPTOR (desc_value ty ix) lang l)]"
    and "set_address b d new = (ok, d') \<Longrightarrow> log d' = log d @ [(0, setup_packet REQ_OUT REQ_SET_ADDRESS (ucast new) 0 0)]"
    and "set_configuration b d addr mps c = (ok, d')
      \<Longrightarrow> log d' = log d @ [(addr, setup_packet REQ_OUT REQ_SET_CONFIGURATION (ucast c) 0 0)]"
  by (auto simp: get_descriptor_def set_address_def set_configuration_def split: prod.splits
      dest: logs_send_setup [OF assms])

text \<open>Either nothing is recorded, or the device went through the six requests in order.\<close>

lemma enumerate_cases:
  assumes "enumerate_device b s d new_addr = (ok, s', d')" "logs b log"
  shows "\<not> ok \<and> s' = s \<or>
    ok \<and> \<not> g_enumerated s \<and> 0 < new_addr \<and> new_addr \<le> 127 \<and> g_enumerated s' \<and> g_device_addr s' = new_addr
    \<and> 0 < g_device_mps s' \<and> g_device_mps s' \<le> 255
    \<and> (\<exists>total c. log d' = log d @
      [(0, setup_packet REQ_IN REQ_GET_DESCRIPTOR (desc_value DESC_DEVICE 0) 0 8),
       (0, setup_packet REQ_OUT REQ_SET_ADDRESS (ucast new_addr) 0 0),
       (new_addr, setup_packet REQ_IN REQ_GET_DESCRIPTOR (desc_value DESC_DEVICE 0) 0 18),
       (new_addr, setup_packet REQ_IN REQ_GET_DESCRIPTOR (desc_value DESC_CONFIGURATION 0) 0 9),
       (new_addr, setup_packet REQ_IN REQ_GET_DESCRIPTOR (desc_value DESC_CONFIGURATION 0) 0 total),
       (new_addr, setup_packet REQ_OUT REQ_SET_CONFIGURATION (ucast (c :: u8)) 0 0)]
      \<and> 0 < total \<and> total \<le> 4096 \<and> c \<noteq> 0)"
proof (cases ok)
  case False
  then show ?thesis
    using assms(1) unfolding enumerate_device_def Let_def by (auto split: if_splits prod.splits)
next
  case True
  note lg = logs_requests [OF assms(2)]
  have mps: "(ucast (m :: u8) :: u16) \<le> 255" "(ucast m :: u16) = 0 \<longleftrightarrow> m = 0" for m
  proof -
    have "unat (ucast m :: u16) = unat m" by (simp add: unat_ucast_up)
    moreover have "unat m < 2 ^ LENGTH(8)" by (rule unsigned_less)
    ultimately show "(ucast m :: u16) \<le> 255" "(ucast m :: u16) = 0 \<longleftrightarrow> m = 0"
      by (simp_all add: word_le_nat_alt word_unat_eq_iff)
  qed
  show ?thesis
    using assms(1) True unfolding enumerate_device_def Let_def
    by (auto split: if_splits prod.splits simp: mps word_gt_0 not_less dest!: lg)
      (rule exI, rule conjI, rule refl, rule exI, rule conjI, rule refl, blast)+
qed

text \<open>A device that answers every request, on a bus that records them.\<close>

definition demo_control :: "(u8 \<times> u8 list) list \<Rightarrow> u8 \<Rightarrow> u16 \<Rightarrow> u8 list \<Rightarrow> u8 list \<Rightarrow> u16
    \<Rightarrow> bool \<times> u8 list \<times> (u8 \<times> u8 list) list" where
  "demo_control d addr mps sp data l =
     (True,
      (if sp ! 3 = DESC_DEVICE then [18, 1, 0, 2, 0, 0, 0, 64]
       else if sp ! 3 = DESC_CONFIGURATION then [9, 2, 34, 0, 1, 1, 0, 0xA0, 50] else data),
      d @ [(addr, sp)])"

definition demo_bus :: "(u8 \<times> u8 list) list bus" where
  "demo_bus = \<lparr>xhci_present = (\<lambda>_. True), ehci_present = (\<lambda>_. False),
     xhci_control = demo_control, ehci_control = demo_control,
     xhci_intr_open = (\<lambda>d _ _ _ _. (True, d)), ehci_intr_open = (\<lambda>d _ _ _ _. (True, d)),
     xhci_intr_read = (\<lambda>d b _. (False, b, d)), ehci_intr_read = (\<lambda>d b _. (False, b, d))\<rparr>"

lemma demo_logs: "logs demo_bus (\<lambda>d. d)"
  by (simp add: logs_def demo_bus_def demo_control_def)

lemma demo_enumerates: "fst (enumerate_device demo_bus usb_boot [] 1)"
  by (simp add: enumerate_device_def usb_boot_def get_descriptor_def set_address_def set_configuration_def
      send_setup_def demo_bus_def demo_control_def setup_packet_def desc_value_def le16_def
      DESC_DEVICE_def DESC_CONFIGURATION_def dd_bLength_def dd_bMaxPacketSize0_def cd_wTotalLength_def
      cd_bConfigurationValue_def rd8_def rd16_def)

text \<open>C22. Enumeration is all or nothing, and when it succeeds the device was sent exactly the
  standard sequence: eight bytes of the device descriptor at address 0, its address, then at that
  address the whole device descriptor, the head of the configuration, the whole configuration
  (between 1 and 4096 bytes), and the configuration's number.  On failure nothing is recorded.\<close>

theorem usb_enumerate_protocol:
  assumes "logs b log" "enumerate_device b s d new_addr = (ok, s', d')"
  shows "(\<not> ok \<longrightarrow> s' = s) \<and> (ok \<longrightarrow>
    \<not> g_enumerated s \<and> 0 < new_addr \<and> new_addr \<le> 127 \<and> g_enumerated s' \<and> g_device_addr s' = new_addr
    \<and> 0 < g_device_mps s' \<and> g_device_mps s' \<le> 255
    \<and> (\<exists>total c. log d' = log d @
      [(0, setup_packet REQ_IN REQ_GET_DESCRIPTOR (desc_value DESC_DEVICE 0) 0 8),
       (0, setup_packet REQ_OUT REQ_SET_ADDRESS (ucast new_addr) 0 0),
       (new_addr, setup_packet REQ_IN REQ_GET_DESCRIPTOR (desc_value DESC_DEVICE 0) 0 18),
       (new_addr, setup_packet REQ_IN REQ_GET_DESCRIPTOR (desc_value DESC_CONFIGURATION 0) 0 9),
       (new_addr, setup_packet REQ_IN REQ_GET_DESCRIPTOR (desc_value DESC_CONFIGURATION 0) 0 total),
       (new_addr, setup_packet REQ_OUT REQ_SET_CONFIGURATION (ucast (c :: u8)) 0 0)]
      \<and> 0 < total \<and> total \<le> 4096 \<and> c \<noteq> 0))"
  using enumerate_cases [OF assms(2,1)] by blast

theorem usb_enumerate_protocol_witness:
  "\<exists>s' d'. enumerate_device demo_bus usb_boot [] 1 = (True, s', d') \<and> g_device_addr s' = 1 \<and> length d' = 6"
proof -
  obtain ok s' d' where e: "enumerate_device demo_bus usb_boot [] 1 = (ok, s', d')" by (metis prod_cases3)
  then have ok: ok using demo_enumerates by simp
  from usb_enumerate_protocol [OF demo_logs e] ok have "g_device_addr s' = 1" "length d' = 6" by auto
  with e ok show ?thesis by auto
qed

end
