(* ===== verification/UsbHid.thy ===== *)
theory UsbHid
  imports Usb
begin

text \<open>
  The USB keyboard, \<open>drivers/usb/usb_hid.cpp\<close>: the walk over the configuration descriptor that
  looks for an interrupt-IN endpoint of a HID interface, and the polling of boot-protocol reports
  with caps lock and key repeat.  \<open>pit::ticks\<close> advances between two reads of it: \<open>ticks i\<close> is what
  the loop reads for the key in byte \<open>i\<close> of the report, \<open>ticks 8\<close> what the repeat check reads.
\<close>

section \<open>State\<close>

record hid_state =
  g_ready :: bool
  g_dev_addr :: u8
  g_ep_num :: u8
  g_ep_mps :: u16
  g_ep_interval :: u8
  g_iface_num :: u8
  g_prev :: "u8 list"
  g_curr :: "u8 list"
  g_pending_char :: u8
  g_pending_key :: u16
  g_caps_lock :: bool
  g_held_usage :: u8
  g_held_start :: u32
  g_last_repeat :: u32

definition hid_reset :: hid_state where
  "hid_reset = \<lparr>g_ready = False, g_dev_addr = 0, g_ep_num = 0, g_ep_mps = 8, g_ep_interval = 10,
     g_iface_num = 0, g_prev = replicate 8 0, g_curr = replicate 8 0, g_pending_char = 0,
     g_pending_key = 0, g_caps_lock = False, g_held_usage = 0, g_held_start = 0, g_last_repeat = 0\<rparr>"

definition REPEAT_DELAY_TICKS :: u32 where "REPEAT_DELAY_TICKS = 50"
definition REPEAT_RATE_TICKS :: u32 where "REPEAT_RATE_TICKS = 5"
definition KEY_SPECIAL_BASE :: u16 where "KEY_SPECIAL_BASE = 0x100"

definition bus_intr_open :: "'d bus \<Rightarrow> 'd \<Rightarrow> u8 \<Rightarrow> u8 \<Rightarrow> u16 \<Rightarrow> u8 \<Rightarrow> bool \<times> 'd" where
  "bus_intr_open b d addr ep mps interval =
     (if xhci_present b d then xhci_intr_open b d addr ep mps interval
      else ehci_intr_open b d addr ep mps interval)"

definition bus_intr_read :: "'d bus \<Rightarrow> 'd \<Rightarrow> u8 list \<Rightarrow> u16 \<Rightarrow> bool \<times> u8 list \<times> 'd" where
  "bus_intr_read b d out l = (if xhci_present b d then xhci_intr_read b d out l else ehci_intr_read b d out l)"

section \<open>Key maps\<close>

definition g_map_lo :: "u8 list" where
  "g_map_lo = [0, 0, 0, 0] @ ascii ''abcdefghijklmnopqrstuvwxyz1234567890''
     @ [10, 27, 8, 9, 32] @ ascii ''-=[]'' @ [92, 0] @ ascii '';'' @ [39, 96] @ ascii '',./'' @ replicate 199 0"

definition g_map_hi :: "u8 list" where
  "g_map_hi = [0, 0, 0, 0] @ ascii ''ABCDEFGHIJKLMNOPQRSTUVWXYZ!@#$%^&*()''
     @ [10, 27, 8, 9, 32] @ ascii ''_+{}|'' @ [0] @ ascii '':'' @ [34] @ ascii ''~<>?'' @ replicate 199 0"

definition is_special :: "u8 \<Rightarrow> bool" where
  "is_special usage \<longleftrightarrow> (usage \<ge> 0x3A \<and> usage \<le> 0x45) \<or> (usage \<ge> 0x4F \<and> usage \<le> 0x52)"

definition is_held :: "hid_state \<Rightarrow> u8 \<Rightarrow> bool" where
  "is_held h usage = list_ex (\<lambda>i. g_curr h ! i = usage) [2..<8]"

definition usage_to_output :: "bool \<Rightarrow> u8 \<Rightarrow> bool \<Rightarrow> u8 \<times> u16" where
  "usage_to_output caps usage shift =
     (if usage \<ge> 0x04 \<and> usage \<le> 0x38 then
        let c = (if usage \<ge> 0x04 \<and> usage \<le> 0x1D
                 then (if shift \<noteq> caps then g_map_hi ! unat usage else g_map_lo ! unat usage)
                 else (if shift then g_map_hi ! unat usage else g_map_lo ! unat usage))
        in if c \<noteq> 0 then (c, 0)
           else if is_special usage then (0, KEY_SPECIAL_BASE + ucast usage) else (0, 0)
      else if is_special usage then (0, KEY_SPECIAL_BASE + ucast usage)
      else (0, 0))"

section \<open>The configuration descriptor\<close>

function parse_config :: "u8 list \<Rightarrow> nat \<Rightarrow> nat \<Rightarrow> bool \<Rightarrow> hid_state \<Rightarrow> bool \<times> hid_state" where
  "parse_config cfg len off in_hid h =
     (if off + 2 \<le> len then
        let bl = unat (cfg ! off); ty = cfg ! (off + 1) in
        if bl = 0 then (False, h)
        else if off + bl > len then (False, h)
        else if ty = DESC_INTERFACE \<and> bl \<ge> 9 then
          (if cfg ! (off + 5) = 0x03
           then parse_config cfg len (off + bl) True (h\<lparr>g_iface_num := cfg ! (off + 2)\<rparr>)
           else parse_config cfg len (off + bl) False h)
        else if ty = DESC_ENDPOINT \<and> bl \<ge> 7 then
          (if \<not> in_hid then parse_config cfg len (off + bl) in_hid h
           else if cfg ! (off + 2) AND 0x80 \<noteq> 0 \<and> cfg ! (off + 3) AND 0x03 = 0x03 then
             let mps = rd16 cfg (off + 4) AND 0x7FF in
             (True, h\<lparr>g_ep_num := cfg ! (off + 2) AND 0x0F, g_ep_mps := (if mps > 64 then 64 else mps),
                      g_ep_interval := cfg ! (off + 6)\<rparr>)
           else parse_config cfg len (off + bl) in_hid h)
        else parse_config cfg len (off + bl) in_hid h
      else (False, h))"
  by pat_completeness auto
termination by (relation "measure (\<lambda>(cfg, len, off, in_hid, h). len - off)") auto

definition parse_config_for_hid :: "u8 list \<Rightarrow> u16 \<Rightarrow> hid_state \<Rightarrow> bool \<times> hid_state" where
  "parse_config_for_hid cfg len h = parse_config cfg (unat len) 0 False h"

declare parse_config.simps [simp del]

section \<open>Operations\<close>

definition hid_init :: "'d bus \<Rightarrow> usb_state \<Rightarrow> 'd \<Rightarrow> bool \<times> hid_state \<times> usb_state \<times> 'd" where
  "hid_init b u d =
     (let h = hid_reset in
      if \<not> ehci_present b d \<and> \<not> xhci_present b d then (False, h, u, d)
      else let (ok, u, d) = enumerate_device b u d 1 in
      if \<not> ok then (False, h, u, d)
      else let h = h\<lparr>g_dev_addr := get_device_addr u\<rparr>; mps0 = get_device_mps u;
               (ok, cd, d) = get_descriptor b d (g_dev_addr h) mps0 DESC_CONFIGURATION 0 0 (replicate 9 0) 9 in
      if \<not> ok then (False, h, u, d)
      else let total = cd_wTotalLength cd in
      if total = 0 \<or> total > 4096 then (False, h, u, d)
      else let (ok, cfg, d) = get_descriptor b d (g_dev_addr h) mps0 DESC_CONFIGURATION 0 0 (replicate 4096 0) total in
      if \<not> ok then (False, h, u, d)
      else let (ok, h) = parse_config_for_hid cfg total h in
      if \<not> ok then (False, h, u, d)
      else let (_, _, d) = send_setup b d (g_dev_addr h) mps0 0x21 0x0B 0 (ucast (g_iface_num h)) 0 [];
               (_, _, d) = send_setup b d (g_dev_addr h) mps0 0x21 0x0A 0 (ucast (g_iface_num h)) 0 [];
               (ok, d) = bus_intr_open b d (g_dev_addr h) (g_ep_num h) (g_ep_mps h) (g_ep_interval h) in
      if \<not> ok then (False, h, u, d)
      else (True, h\<lparr>g_ready := True\<rparr>, u, d))"

definition shift_down :: "hid_state \<Rightarrow> bool" where
  "shift_down h \<longleftrightarrow> g_curr h ! 0 AND 0x22 \<noteq> 0"

text \<open>The pending character or key.\<close>

definition deliver :: "u8 \<times> u16 \<Rightarrow> hid_state \<Rightarrow> hid_state" where
  "deliver ck h = (if fst ck \<noteq> 0 then h\<lparr>g_pending_char := fst ck\<rparr>
     else if snd ck \<noteq> 0 then h\<lparr>g_pending_key := snd ck\<rparr> else h)"

text \<open>Byte \<open>i\<close> of a new report.\<close>

definition new_key :: "(nat \<Rightarrow> u64) \<Rightarrow> bool \<Rightarrow> nat \<Rightarrow> hid_state \<Rightarrow> hid_state" where
  "new_key ticks shift i h =
     (let usage = g_curr h ! i in
      if usage = 0 then h
      else if list_ex (\<lambda>j. g_prev h ! j = usage) [2..<8] then h
      else if usage = 0x39 then h\<lparr>g_caps_lock := \<not> g_caps_lock h\<rparr>
      else (deliver (usage_to_output (g_caps_lock h) usage shift) h)
        \<lparr>g_held_usage := usage, g_held_start := ucast (ticks i), g_last_repeat := ucast (ticks i)\<rparr>)"

definition check_repeat :: "(nat \<Rightarrow> u64) \<Rightarrow> hid_state \<Rightarrow> hid_state" where
  "check_repeat ticks h =
     (if g_held_usage h = 0 then h
      else if \<not> is_held h (g_held_usage h) then h\<lparr>g_held_usage := 0\<rparr>
      else let now = ucast (ticks 8) in
        if now - g_held_start h < REPEAT_DELAY_TICKS then h
        else if now - g_last_repeat h < REPEAT_RATE_TICKS then h
        else deliver (usage_to_output (g_caps_lock h) (g_held_usage h) (shift_down h)) (h\<lparr>g_last_repeat := now\<rparr>))"

definition take_report :: "(nat \<Rightarrow> u64) \<Rightarrow> u8 list \<Rightarrow> hid_state \<Rightarrow> hid_state" where
  "take_report ticks report h =
     (let h = h\<lparr>g_prev := g_curr h, g_curr := report\<rparr> in fold (new_key ticks (shift_down h)) [2..<8] h)"

definition hid_poll :: "'d bus \<Rightarrow> (nat \<Rightarrow> u64) \<Rightarrow> hid_state \<Rightarrow> 'd \<Rightarrow> bool \<times> hid_state \<times> 'd" where
  "hid_poll b ticks h d =
     (if \<not> g_ready h then (False, h, d)
      else let (ok, report, d) = bus_intr_read b d (replicate 8 0) 8;
               h = (if ok then take_report ticks report h else h)
           in (True, check_repeat ticks h, d))"

definition hid_get_char :: "'d bus \<Rightarrow> (nat \<Rightarrow> u64) \<Rightarrow> hid_state \<Rightarrow> 'd \<Rightarrow> u8 \<times> hid_state \<times> 'd" where
  "hid_get_char b ticks h d =
     (if g_pending_char h \<noteq> 0 then (g_pending_char h, h\<lparr>g_pending_char := 0\<rparr>, d)
      else let (ok, h, d) = hid_poll b ticks h d in
      if \<not> ok then (0, h, d)
      else if g_pending_char h \<noteq> 0 then (g_pending_char h, h\<lparr>g_pending_char := 0\<rparr>, d)
      else (0, h, d))"

definition hid_get_key :: "'d bus \<Rightarrow> (nat \<Rightarrow> u64) \<Rightarrow> hid_state \<Rightarrow> 'd \<Rightarrow> u16 \<times> hid_state \<times> 'd" where
  "hid_get_key b ticks h d =
     (if g_pending_key h \<noteq> 0 then (g_pending_key h, h\<lparr>g_pending_key := 0\<rparr>, d)
      else let (ok, h, d) = hid_poll b ticks h d in
      if \<not> ok then (0, h, d)
      else if g_pending_key h \<noteq> 0 then (g_pending_key h, h\<lparr>g_pending_key := 0\<rparr>, d)
      else (0, h, d))"

definition hid_has_data :: "hid_state \<Rightarrow> bool" where
  "hid_has_data h \<longleftrightarrow> g_pending_char h \<noteq> 0 \<or> g_pending_key h \<noteq> 0"

section \<open>What the walk finds\<close>

text \<open>The search over a list of descriptors, and a list that fills a buffer exactly.\<close>

fun hid_search :: "u8 list list \<Rightarrow> bool \<Rightarrow> hid_state \<Rightarrow> bool \<times> hid_state" where
  "hid_search [] in_hid h = (False, h)"
| "hid_search (x # xs) in_hid h =
     (if x ! 1 = DESC_INTERFACE \<and> 9 \<le> length x then
        (if x ! 5 = 3 then hid_search xs True (h\<lparr>g_iface_num := x ! 2\<rparr>) else hid_search xs False h)
      else if x ! 1 = DESC_ENDPOINT \<and> 7 \<le> length x \<and> in_hid \<and> x ! 2 AND 0x80 \<noteq> 0 \<and> x ! 3 AND 3 = 3 then
        (True, h\<lparr>g_ep_num := x ! 2 AND 15, g_ep_mps := min 64 (rd16 x 4 AND 0x7FF), g_ep_interval := x ! 6\<rparr>)
      else hid_search xs in_hid h)"

definition desc_ok :: "u8 list \<Rightarrow> bool" where
  "desc_ok x \<longleftrightarrow> 2 \<le> length x \<and> length x = unat (x ! 0)"

lemma nth_mid: "i < length x \<Longrightarrow> (pre @ x @ post) ! (length pre + i) = x ! i"
  by (simp add: nth_append)

lemma parse_config_search:
  "list_all desc_ok xs \<Longrightarrow> parse_config (pre @ concat xs @ post) (length pre + length (concat xs)) (length pre) in_hid h
    = hid_search xs in_hid h"
proof (induction xs arbitrary: pre in_hid h)
  case Nil
  then show ?case by (simp add: parse_config.simps)
next
  case (Cons x xs)
  define cfg where "cfg = pre @ concat (x # xs) @ post"
  define len where "len = length pre + length (concat (x # xs))"
  have x: "2 \<le> length x" "unat (x ! 0) = length x" using Cons.prems by (simp_all add: desc_ok_def)
  have n: "cfg ! (length pre + i) = x ! i" if "i < length x" for i using that by (simp add: cfg_def nth_append)
  have n0: "cfg ! length pre = x ! 0" "cfg ! (length pre + 1) = x ! 1" using n [of 0] n [of 1] x(1)
    by (cases "x = []"; simp)+
  have ih: "parse_config cfg len (length pre + length x) b h = hid_search xs b h" for b h
    using Cons.IH [of "pre @ x"] Cons.prems by (simp add: cfg_def len_def add.assoc)
  have unf: "parse_config cfg len (length pre) in_hid h =
     (if x ! 1 = DESC_INTERFACE \<and> length x \<ge> 9 then
        (if cfg ! (length pre + 5) = 3
         then hid_search xs True (h\<lparr>g_iface_num := cfg ! (length pre + 2)\<rparr>) else hid_search xs False h)
      else if x ! 1 = DESC_ENDPOINT \<and> length x \<ge> 7 then
        (if \<not> in_hid then hid_search xs in_hid h
         else if cfg ! (length pre + 2) AND 0x80 \<noteq> 0 \<and> cfg ! (length pre + 3) AND 0x03 = 0x03 then
           let mps = rd16 cfg (length pre + 4) AND 0x7FF in
           (True, h\<lparr>g_ep_num := cfg ! (length pre + 2) AND 0x0F, g_ep_mps := (if mps > 64 then 64 else mps),
                    g_ep_interval := cfg ! (length pre + 6)\<rparr>)
         else hid_search xs in_hid h)
      else hid_search xs in_hid h)"
  proof -
    have "length pre + 2 \<le> len" "\<not> length pre + length x > len" "length x \<noteq> 0" using x by (auto simp: len_def)
    then show ?thesis by (subst parse_config.simps) (simp only: Let_def n0 x(2) ih if_True if_False simp_thms)
  qed
  have m: "(if mps > 64 then 64 else mps) = min 64 mps" for mps :: u16 by (auto simp: min_def)
  have "parse_config cfg len (length pre) in_hid h = hid_search (x # xs) in_hid h"
  proof (cases "x ! 1 = DESC_INTERFACE \<and> length x \<ge> 9")
    case True
    then show ?thesis using n [of 5] n [of 2] unfolding unf by simp
  next
    case F: False
    show ?thesis
    proof (cases "x ! 1 = DESC_ENDPOINT \<and> length x \<ge> 7")
      case True
      have c: "length pre + 4 + 1 = length pre + 5" "4 + 1 = (5 :: nat)" by simp_all
      have "rd16 cfg (length pre + 4) = rd16 x 4"
        using n [of 4] n [of 5] True unfolding rd16_def c by simp
      moreover have "DESC_ENDPOINT \<noteq> DESC_INTERFACE" by (simp add: DESC_ENDPOINT_def DESC_INTERFACE_def)
      ultimately show ?thesis
        using True n [of 2] n [of 3] n [of 6] unfolding unf Let_def m by simp
    next
      case False
      with F show ?thesis unfolding unf by auto
    qed
  qed
  then show ?case by (simp only: cfg_def len_def)
qed

text \<open>Whatever the bytes are, the walk reads only the part of the buffer it was given.\<close>

lemma parse_config_local:
  assumes len: "len \<le> length cfg" "len \<le> length cfg'" and same: "take len cfg = take len cfg'"
  shows "parse_config cfg len off in_hid h = parse_config cfg' len off in_hid h"
proof (induction "len - off" arbitrary: off in_hid h rule: less_induct)
  case less
  have n: "cfg ! i = cfg' ! i" if "i < len" for i using same that by (metis nth_take)
  let ?bl = "unat (cfg' ! off)"
  show ?case
  proof (cases "off + 2 \<le> len \<and> ?bl \<noteq> 0 \<and> \<not> off + ?bl > len")
    case True
    then have g: "off + 2 \<le> len" "?bl \<noteq> 0" "\<not> off + ?bl > len" by blast+
    have o: "cfg ! off = cfg' ! off" "cfg ! (off + 1) = cfg' ! (off + 1)" using n g(1) by simp_all
    have ih: "parse_config cfg len (off + ?bl) b h = parse_config cfg' len (off + ?bl) b h" for b h
      using g by (intro less) linarith
    note unf = parse_config.simps [of _ len off in_hid h]
    show ?thesis
    proof (cases "cfg' ! (off + 1) = DESC_INTERFACE \<and> ?bl \<ge> 9")
      case True
      then have "cfg ! (off + 5) = cfg' ! (off + 5)" "cfg ! (off + 2) = cfg' ! (off + 2)" using n g by simp_all
      then show ?thesis unfolding unf [of cfg] unf [of cfg'] Let_def using True
        by (simp only: o ih if_True simp_thms)
    next
      case F: False
      show ?thesis
      proof (cases "cfg' ! (off + 1) = DESC_ENDPOINT \<and> ?bl \<ge> 7")
        case True
        then have f: "cfg ! (off + i) = cfg' ! (off + i)" if "i < 7" for i using n g that by simp
        have "cfg ! (off + 2) = cfg' ! (off + 2)" "cfg ! (off + 3) = cfg' ! (off + 3)"
          "cfg ! (off + 6) = cfg' ! (off + 6)" by (rule f, simp)+
        moreover have c: "off + 4 + 1 = off + 5" by simp
        have "rd16 cfg (off + 4) = rd16 cfg' (off + 4)"
          using f [of 4] f [of 5] unfolding rd16_def c by simp
        ultimately
        show ?thesis unfolding unf [of cfg] unf [of cfg'] Let_def using True F
          by (simp only: o ih if_False simp_thms)
      next
        case False
        with F show ?thesis unfolding unf [of cfg] unf [of cfg'] Let_def
          by (simp only: o ih if_False simp_thms)
      qed
    qed
  next
    case False
    have o: "off + 2 \<le> len \<Longrightarrow> cfg ! off = cfg' ! off" by (rule n) simp
    have stop: "parse_config c len off in_hid h = (False, h)"
      if "\<not> (off + 2 \<le> len \<and> unat (c ! off) \<noteq> 0 \<and> \<not> off + unat (c ! off) > len)" for c
      using that by (subst parse_config.simps) (simp only: Let_def split: if_split, blast)
    from False o show ?thesis by (subst (1 2) stop) auto
  qed
qed

section \<open>Reports\<close>

lemma new_key_keeps [simp]: "g_curr (new_key t s i h) = g_curr h" "g_prev (new_key t s i h) = g_prev h"
  "g_ready (new_key t s i h) = g_ready h"
  by (simp_all add: new_key_def Let_def deliver_def)

lemma fold_idle: "\<forall>j \<in> set js. g_curr h ! j = 0 \<Longrightarrow> fold (new_key t s) js h = h"
  by (induction js) (simp_all add: new_key_def)

lemma take_single_report:
  assumes i: "2 \<le> i" "i < 8" and z: "\<And>j. 2 \<le> j \<Longrightarrow> j < 8 \<Longrightarrow> j \<noteq> i \<Longrightarrow> r ! j = 0"
  shows "take_report t r h = (let h = h\<lparr>g_prev := g_curr h, g_curr := r\<rparr> in new_key t (shift_down h) i h)"
proof -
  let ?h = "h\<lparr>g_prev := g_curr h, g_curr := r\<rparr>"
  have e: "[2..<8] = [2..<i] @ i # [Suc i..<8]"
    using i upt_add_eq_append [of 2 i "8 - i"] upt_conv_Cons [of i 8] by simp
  have 1: "fold (new_key t s) [2..<i] ?h = ?h" for s by (rule fold_idle) (use i z in auto)
  have 2: "fold (new_key t s) [Suc i..<8] (new_key t s i ?h) = new_key t s i ?h" for s
    by (rule fold_idle) (use i z in auto)
  show ?thesis unfolding take_report_def Let_def e fold_append fold_Cons comp_apply 1 2 by (rule refl)
qed

section \<open>Properties\<close>

text \<open>C23. On a buffer that holds a list of well-formed descriptors the walk is the search over that
  list, whatever follows the buffer's used part; on any bytes at all it reads nothing beyond the
  length it was given.\<close>

theorem hid_descriptor_walk:
  assumes "unat len \<le> length cfg"
  shows "(\<forall>xs. list_all desc_ok xs \<and> take (unat len) cfg = concat xs \<longrightarrow>
      parse_config_for_hid cfg len h = hid_search xs False h)
    \<and> (\<forall>cfg'. unat len \<le> length cfg' \<and> take (unat len) cfg' = take (unat len) cfg \<longrightarrow>
      parse_config_for_hid cfg' len h = parse_config_for_hid cfg len h)"
proof (intro conjI allI impI)
  fix xs assume xs: "list_all desc_ok xs \<and> take (unat len) cfg = concat xs"
  have c: "cfg = [] @ concat xs @ drop (unat len) cfg" using xs by (metis append_Nil append_take_drop_id)
  have l: "unat len = length ([] :: u8 list) + length (concat xs)"
    using xs assms by (metis length_take min_absorb2 add_0 list.size(3))
  show "parse_config_for_hid cfg len h = hid_search xs False h"
    using parse_config_search [of xs "[]" "drop (unat len) cfg" False h] xs c l
    unfolding parse_config_for_hid_def by (metis list.size(3))
next
  fix cfg' assume "unat len \<le> length cfg' \<and> take (unat len) cfg' = take (unat len) cfg"
  then show "parse_config_for_hid cfg' len h = parse_config_for_hid cfg len h"
    using assms unfolding parse_config_for_hid_def by (intro parse_config_local) simp_all
qed

text \<open>A keyboard's configuration: the configuration, one HID interface, the HID descriptor and an
  interrupt-IN endpoint with packets of 8 bytes.\<close>

definition keyboard_cfg :: "u8 list list" where
  "keyboard_cfg = [[9, 2, 34, 0, 1, 1, 0, 0xA0, 50], [9, 4, 0, 0, 1, 3, 1, 1, 0],
     [9, 33, 17, 1, 0, 1, 34, 63, 0], [7, 5, 0x81, 3, 8, 0, 10]]"

theorem hid_descriptor_walk_witness:
  "parse_config_for_hid (concat keyboard_cfg) 34 hid_reset
     = (True, hid_reset\<lparr>g_ep_num := 1, g_ep_mps := 8, g_ep_interval := 10, g_iface_num := 0\<rparr>)"
proof -
  have k: "length (concat keyboard_cfg) = 34" "list_all desc_ok keyboard_cfg" by code_simp+
  then have t: "take (unat (34 :: u16)) (concat keyboard_cfg) = concat keyboard_cfg" by simp
  have "parse_config_for_hid (concat keyboard_cfg) 34 hid_reset = hid_search keyboard_cfg False hid_reset"
  proof -
    have "unat (34 :: u16) \<le> length (concat keyboard_cfg)" using k(1) by simp
    from conjunct1 [OF hid_descriptor_walk [OF this, of hid_reset]] k(2) t show ?thesis by blast
  qed
  also have "\<dots> = (True, hid_reset\<lparr>g_ep_num := 1, g_ep_mps := 8, g_ep_interval := 10, g_iface_num := 0\<rparr>)"
    by code_simp
  finally show ?thesis .
qed

text \<open>C24. A key that goes down alone is delivered, once.  Let the keyboard be ready with no character
  pending, and let its next report hold one key, which was not in the report before, is not Caps Lock,
  and stands for a character under the modifiers of the report.  Then the next \<open>get_char\<close> returns that
  character, and while no report follows and the repeat delay has not passed the one after it returns
  nothing.  (Of two keys that go down in one report only the second is delivered:
  \<open>hid_simultaneous_key_lost\<close>.)\<close>

theorem hid_key_delivered:
  assumes h: "g_ready h" "g_pending_char h = 0"
    and r: "bus_intr_read b d (replicate 8 0) 8 = (True, r, d')" "2 \<le> i" "i < 8" "r ! i = u" "u \<noteq> 0" "u \<noteq> 0x39"
      "\<And>j. 2 \<le> j \<Longrightarrow> j < 8 \<Longrightarrow> j \<noteq> i \<Longrightarrow> r ! j = 0"
    and new: "\<And>j. 2 \<le> j \<Longrightarrow> j < 8 \<Longrightarrow> g_curr h ! j \<noteq> u"
    and c: "fst (usage_to_output (g_caps_lock h) u (r ! 0 AND 0x22 \<noteq> 0)) = c" "c \<noteq> 0"
    and t: "(ucast (ticks 8) :: u32) - ucast (ticks i) < 50" "(ucast (ticks' 8) :: u32) - ucast (ticks i) < 50"
    and idle: "bus_intr_read b d' (replicate 8 0) 8 = (False, r', d'')"
  shows "\<exists>h'. hid_get_char b ticks h d = (c, h', d') \<and> g_held_usage h' = u
    \<and> fst (hid_get_char b ticks' h' d') = 0"
proof -
  let ?h = "h\<lparr>g_prev := g_curr h, g_curr := r\<rparr>"
  define h1 where "h1 = (deliver (usage_to_output (g_caps_lock h) u (shift_down ?h)) ?h)
        \<lparr>g_held_usage := u, g_held_start := ucast (ticks i), g_last_repeat := ucast (ticks i)\<rparr>"
  have "\<not> list_ex (\<lambda>j. g_curr h ! j = u) [2..<8]" using new by (auto simp: list_ex_iff)
  then have n: "new_key ticks (shift_down ?h) i ?h = h1"
    using r(4-6) by (simp add: new_key_def Let_def h1_def)
  have k: "take_report ticks r h = h1"
    using take_single_report [OF r(2,3,7)] n by (simp add: Let_def)
  have c1: "fst (usage_to_output (g_caps_lock h) u (shift_down ?h)) = c" using c(1) by (simp add: shift_down_def)
  have p: "g_pending_char h1 = c" "g_held_usage h1 = u" "g_held_start h1 = ucast (ticks i)" "g_ready h1" "g_curr h1 = r"
    using c(2) c1 h(1) by (simp_all add: h1_def deliver_def)
  have held: "is_held h1 u"
    unfolding is_held_def list_ex_iff set_upt using r(2-4) p(5) by (intro bexI [of _ i]) simp_all
  have cr: "check_repeat tk h2 = h2"
    if "(ucast (tk 8) :: u32) - ucast (ticks i) < 50" "h2 = h1 \<or> h2 = h1\<lparr>g_pending_char := 0\<rparr>" for tk h2
    using that held p r(5) by (auto simp: check_repeat_def Let_def REPEAT_DELAY_TICKS_def is_held_def)
  have 1: "hid_get_char b ticks h d = (c, h1\<lparr>g_pending_char := 0\<rparr>, d')"
    using h r(1) k p c(2) cr [of ticks h1, OF t(1)] by (simp add: hid_get_char_def hid_poll_def)
  have "fst (hid_get_char b ticks' (h1\<lparr>g_pending_char := 0\<rparr>) d') = 0"
    using idle p(4) cr [of ticks' "h1\<lparr>g_pending_char := 0\<rparr>", OF t(2)] by (simp add: hid_get_char_def hid_poll_def)
  with 1 p(2) show ?thesis by auto
qed

text \<open>A bus with reports to deliver, one per poll.\<close>

definition report_bus :: "u8 list list bus" where
  "report_bus = \<lparr>xhci_present = (\<lambda>_. True), ehci_present = (\<lambda>_. False),
     xhci_control = (\<lambda>d _ _ _ b _. (False, b, d)), ehci_control = (\<lambda>d _ _ _ b _. (False, b, d)),
     xhci_intr_open = (\<lambda>d _ _ _ _. (True, d)), ehci_intr_open = (\<lambda>d _ _ _ _. (True, d)),
     xhci_intr_read = (\<lambda>d b _. case d of [] \<Rightarrow> (False, b, d) | r # rs \<Rightarrow> (True, r, rs)),
     ehci_intr_read = (\<lambda>d b _. (False, b, d))\<rparr>"

theorem hid_key_delivered_witness:
  "\<exists>h'. hid_get_char report_bus (\<lambda>_. 1000) (hid_reset\<lparr>g_ready := True\<rparr>) [[2, 0, 4, 0, 0, 0, 0, 0]] = (65, h', [])
    \<and> g_held_usage h' = 4 \<and> fst (hid_get_char report_bus (\<lambda>_. 1040) h' []) = 0"
proof (rule hid_key_delivered [where i = 2])
  show "bus_intr_read report_bus [[2, 0, 4, 0, 0, 0, 0, 0]] (replicate 8 0) 8 = (True, [2, 0, 4, 0, 0, 0, 0, 0], [])"
    "bus_intr_read report_bus [] (replicate 8 0) 8 = (False, replicate 8 0, [])"
    by (simp_all add: bus_intr_read_def report_bus_def)
  show "g_curr (hid_reset\<lparr>g_ready := True\<rparr>) ! j \<noteq> 4" if "2 \<le> j" "j < 8" for j
    using that by (simp add: hid_reset_def)
  show "[2, 0, 4, 0, 0, 0, 0, 0] ! j = (0 :: u8)" if "2 \<le> j" "j < 8" "j \<noteq> 2" for j
  proof -
    have "j \<in> {3, 4, 5, 6, 7}" using that by auto
    then show ?thesis by auto
  qed
  show "fst (usage_to_output (g_caps_lock (hid_reset\<lparr>g_ready := True\<rparr>)) 4 ([2, 0, 4, 0, 0, 0, 0, 0] ! 0 AND (0x22 :: u8) \<noteq> 0)) = 65"
    by code_simp
qed (simp_all add: hid_reset_def)

lemma usage_a_b: "usage_to_output False 4 False = (97, 0)" "usage_to_output False 5 False = (98, 0)"
  by code_simp+

lemma upt_2_8: "[2..<8] = [2, 3, 4, 5, 6, 7 :: nat]"
  by code_simp

text \<open>When two keys go down in the same report only the later byte's character survives: the
  single pending slot is overwritten before anyone reads it.\<close>

theorem hid_simultaneous_key_lost:
  "(case hid_get_char report_bus (\<lambda>_. 1000) (hid_reset\<lparr>g_ready := True\<rparr>) [[0, 0, 4, 5, 0, 0, 0, 0]] of
     (c, h, d) \<Rightarrow> (c, fst (hid_get_char report_bus (\<lambda>_. 1000) h d))) = (98, 0)"
proof -
  let ?r = "[0, 0, 4, 5, 0, 0, 0, 0] :: u8 list" and ?t = "\<lambda>_ :: nat. 1000 :: u64"
  define h0 where "h0 = hid_reset\<lparr>g_ready := True, g_curr := ?r\<rparr>"
  define h1 where "h1 = h0\<lparr>g_pending_char := 97, g_held_usage := 4, g_held_start := 1000, g_last_repeat := 1000\<rparr>"
  define h2 where "h2 = h0\<lparr>g_pending_char := 98, g_held_usage := 5, g_held_start := 1000, g_last_repeat := 1000\<rparr>"
  have f: "g_curr h0 = ?r" "g_prev h0 = replicate 8 0" "g_caps_lock h0 = False" "g_ready h0" "g_pending_char h0 = 0"
    by (simp_all add: h0_def hid_reset_def)
  have n1: "new_key ?t False 2 h0 = h1"
    by (simp add: new_key_def f usage_a_b deliver_def upt_2_8 h1_def)
  have f1: "g_curr h1 = ?r" "g_prev h1 = replicate 8 0" "g_caps_lock h1 = False" by (simp_all add: h1_def f)
  have n2: "new_key ?t False 3 h1 = h2"
    by (simp add: new_key_def f1 usage_a_b deliver_def upt_2_8) (simp add: h1_def h2_def)
  have f2: "g_curr h2 = ?r" "g_ready h2" "g_pending_char h2 = 98" "g_held_usage h2 = 5" "g_held_start h2 = 1000"
    by (simp_all add: h2_def f)
  have e: "[2..<8] = 2 # 3 # [4..<8 :: nat]" by (simp add: upt_2_8 upt_rec)
  have i: "fold (new_key ?t False) [4..<8] h2 = h2" by (rule fold_idle) (simp add: f2 upt_rec)
  have tr: "take_report ?t ?r (hid_reset\<lparr>g_ready := True\<rparr>) = h2"
  proof -
    have "(hid_reset\<lparr>g_ready := True\<rparr>)\<lparr>g_prev := g_curr (hid_reset\<lparr>g_ready := True\<rparr>), g_curr := ?r\<rparr> = h0"
      by (simp add: h0_def hid_reset_def)
    moreover have "shift_down h0 = False" by (simp add: shift_down_def f)
    ultimately show ?thesis unfolding take_report_def Let_def e fold_simps by (simp only: n1 n2 i)
  qed
  have held: "is_held h2 5" by (simp add: is_held_def f2 upt_2_8)
  have cr: "check_repeat ?t h2 = h2" "check_repeat ?t (h2\<lparr>g_pending_char := 0\<rparr>) = h2\<lparr>g_pending_char := 0\<rparr>"
    using held by (simp_all add: check_repeat_def f2 REPEAT_DELAY_TICKS_def is_held_def)
  have "hid_get_char report_bus ?t (hid_reset\<lparr>g_ready := True\<rparr>) [?r] = (98, h2\<lparr>g_pending_char := 0\<rparr>, [])"
    using tr cr by (simp add: hid_get_char_def hid_poll_def bus_intr_read_def report_bus_def f2 hid_reset_def)
  moreover have "fst (hid_get_char report_bus ?t (h2\<lparr>g_pending_char := 0\<rparr>) []) = 0"
    using cr by (simp add: hid_get_char_def hid_poll_def bus_intr_read_def report_bus_def f2)
  ultimately show ?thesis by simp
qed

end
