(* ===== verification/Keyboard.thy ===== *)
theory Keyboard
  imports UsbHid "HOL-Library.Monad_Syntax"
begin

text \<open>
  The PS/2 keyboard (\<open>drivers/ps2.cpp\<close>) and the choice between it and a USB keyboard
  (\<open>drivers/input.cpp\<close>).  Port input and output are parameters; a wait for the controller that
  never ends is \<open>None\<close>.
\<close>

section \<open>PS/2\<close>

record 'd ports =
  p_inb :: "'d \<Rightarrow> u16 \<Rightarrow> u8 \<times> 'd"
  p_outb :: "'d \<Rightarrow> u16 \<Rightarrow> u8 \<Rightarrow> 'd"

record ps2_state =
  shift_pressed :: bool
  caps_lock :: bool

definition ps2_boot :: ps2_state where "ps2_boot = \<lparr>shift_pressed = False, caps_lock = False\<rparr>"

definition scancode_ascii :: "u8 list" where
  "scancode_ascii =
     [0, 27] @ ascii ''1234567890-='' @ [8, 9]
     @ ascii ''qwertyuiop[]'' @ [10, 0] @ ascii ''asdfghjkl;''
     @ [39, 96, 0, 92] @ ascii ''zxcvbnm,./'' @ [0] @ ascii ''*''
     @ [0] @ ascii '' '' @ replicate 6 0
     @ replicate 7 0 @ ascii ''789-456+1''
     @ ascii ''230.'' @ replicate 12 0
     @ replicate 32 0"

definition scancode_ascii_shift :: "u8 list" where
  "scancode_ascii_shift =
     [0, 27] @ ascii ''!@#$%^&*()_+'' @ [8, 9]
     @ ascii ''QWERTYUIOP{}'' @ [10, 0] @ ascii ''ASDFGHJKL:''
     @ [34] @ ascii ''~'' @ [0] @ ascii ''|'' @ ascii ''ZXCVBNM<>?'' @ [0] @ ascii ''*''
     @ [0] @ ascii '' '' @ replicate 6 0
     @ replicate 7 0 @ ascii ''789-456+1''
     @ ascii ''230.'' @ replicate 12 0
     @ replicate 32 0"

text \<open>\<open>while (inb(0x64) & 1) inb(0x60);\<close> and the two waits.\<close>

partial_function (option) drain :: "'d ports \<Rightarrow> 'd \<Rightarrow> 'd option" where
  "drain io d = (let (v, d) = p_inb io d 0x64 in if v AND 1 \<noteq> 0 then drain io (snd (p_inb io d 0x60)) else Some d)"

partial_function (option) wait_output :: "'d ports \<Rightarrow> 'd \<Rightarrow> 'd option" where
  "wait_output io d = (let (v, d) = p_inb io d 0x64 in if v AND 1 = 0 then wait_output io d else Some d)"

partial_function (option) wait_input :: "'d ports \<Rightarrow> 'd \<Rightarrow> 'd option" where
  "wait_input io d = (let (v, d) = p_inb io d 0x64 in if v AND 2 \<noteq> 0 then wait_input io d else Some d)"

declare drain.simps [code] wait_output.simps [code] wait_input.simps [code]

definition ps2_init :: "'d ports \<Rightarrow> 'd \<Rightarrow> 'd option" where
  "ps2_init io d = do {
     d \<leftarrow> drain io d;
     let d = p_outb io d 0x64 0x20;
     d \<leftarrow> wait_output io d;
     let (config, d) = p_inb io d 0x60;
     let config = config OR 0x01;
     let config = config OR 0x40;
     let d = p_outb io d 0x64 0x60;
     d \<leftarrow> wait_input io d;
     let d = p_outb io d 0x60 config;
     let d = p_outb io d 0x64 0xAE;
     d \<leftarrow> wait_input io d;
     drain io d }"

definition ps2_has_data :: "'d ports \<Rightarrow> 'd \<Rightarrow> bool \<times> 'd" where
  "ps2_has_data io d = (let (v, d) = p_inb io d 0x64 in (v AND 0x01 \<noteq> 0, d))"

definition ps2_read_data :: "'d ports \<Rightarrow> 'd \<Rightarrow> u8 \<times> 'd" where
  "ps2_read_data io d = p_inb io d 0x60"

text \<open>What \<open>get_char\<close> makes of a scan code; the tables hold only ASCII, so a signed \<open>char\<close> compares
  as its byte.\<close>

definition decode :: "ps2_state \<Rightarrow> u8 \<Rightarrow> u8 \<times> ps2_state" where
  "decode s scancode =
     (let released = (scancode AND 0x80 \<noteq> 0); code = scancode AND 0x7F in
      if code = 0x2A \<or> code = 0x36 then (0, s\<lparr>shift_pressed := \<not> released\<rparr>)
      else if code = 0x3A \<and> \<not> released then (0, s\<lparr>caps_lock := \<not> caps_lock s\<rparr>)
      else if released then (0, s)
      else let c = (if shift_pressed s then scancode_ascii_shift ! unat code else scancode_ascii ! unat code)
           in (if caps_lock s
               then (if c \<ge> 97 \<and> c \<le> 122 then c - 32 else if c \<ge> 65 \<and> c \<le> 90 then c + 32 else c)
               else c, s))"

definition ps2_get_char :: "'d ports \<Rightarrow> ps2_state \<Rightarrow> 'd \<Rightarrow> u8 \<times> ps2_state \<times> 'd" where
  "ps2_get_char io s d =
     (let (ok, d) = ps2_has_data io d in
      if \<not> ok then (0, s, d)
      else let (scancode, d) = ps2_read_data io d; (c, s) = decode s scancode in (c, s, d))"

definition ps2_stop :: "'d ports \<Rightarrow> 'd \<Rightarrow> 'd option" where
  "ps2_stop io d = do { d \<leftarrow> wait_input io (p_outb io d 0x64 0xAD); drain io d }"

section \<open>Input\<close>

datatype source = NoSource | PS2 | USB

record 'd input_dev =
  i_bus :: "'d bus"
  i_ports :: "'d ports"
  i_xhci_init :: "'d \<Rightarrow> u64 \<Rightarrow> bool \<times> 'd"
  i_ehci_init :: "'d \<Rightarrow> u64 \<Rightarrow> bool \<times> 'd"

record input_state =
  in_source :: source
  in_hid :: hid_state
  in_usb :: usb_state
  in_ps2 :: ps2_state

definition try_usb :: "'d input_dev \<Rightarrow> bool \<times> 'd \<Rightarrow> input_state \<Rightarrow> bool \<times> input_state \<times> 'd" where
  "try_usb dev r s =
     (let (ok, d) = r in
      if \<not> ok then (False, s, d)
      else let (ok, h, u, d) = hid_init (i_bus dev) (in_usb s) d;
               s = s\<lparr>in_hid := h, in_usb := u\<rparr>
           in if ok then (True, s\<lparr>in_source := USB\<rparr>, d) else (False, s, d))"

definition input_init :: "'d input_dev \<Rightarrow> u64 \<Rightarrow> input_state \<Rightarrow> 'd \<Rightarrow> (input_state \<times> 'd) option" where
  "input_init dev hhdm s d =
     (let (ok, s, d) = try_usb dev (i_xhci_init dev d hhdm) (s\<lparr>in_source := NoSource\<rparr>) in
      if ok then Some (s, d)
      else let (ok, s, d) = try_usb dev (i_ehci_init dev d hhdm) s in
      if ok then Some (s, d)
      else map_option (\<lambda>d. (s\<lparr>in_source := PS2\<rparr>, d)) (ps2_init (i_ports dev) d))"

definition active_source_name :: "input_state \<Rightarrow> cstr" where
  "active_source_name s = (case in_source s of USB \<Rightarrow> ascii ''USB HID'' | PS2 \<Rightarrow> ascii ''PS/2'' | NoSource \<Rightarrow> ascii ''none'')"

definition input_get_char :: "'d input_dev \<Rightarrow> (nat \<Rightarrow> u64) \<Rightarrow> input_state \<Rightarrow> 'd \<Rightarrow> u8 \<times> input_state \<times> 'd" where
  "input_get_char dev ticks s d =
     (case in_source s of
        USB \<Rightarrow> (let (c, h, d) = hid_get_char (i_bus dev) ticks (in_hid s) d in (c, s\<lparr>in_hid := h\<rparr>, d))
      | PS2 \<Rightarrow> (let (c, p, d) = ps2_get_char (i_ports dev) (in_ps2 s) d in (c, s\<lparr>in_ps2 := p\<rparr>, d))
      | NoSource \<Rightarrow> (0, s, d))"

definition input_get_key :: "'d input_dev \<Rightarrow> (nat \<Rightarrow> u64) \<Rightarrow> input_state \<Rightarrow> 'd \<Rightarrow> u16 \<times> input_state \<times> 'd" where
  "input_get_key dev ticks s d =
     (case in_source s of
        USB \<Rightarrow> (let (k, h, d) = hid_get_key (i_bus dev) ticks (in_hid s) d in (k, s\<lparr>in_hid := h\<rparr>, d))
      | _ \<Rightarrow> (0, s, d))"

definition input_has_data :: "'d input_dev \<Rightarrow> input_state \<Rightarrow> 'd \<Rightarrow> bool \<times> 'd" where
  "input_has_data dev s d =
     (case in_source s of USB \<Rightarrow> (hid_has_data (in_hid s), d)
      | PS2 \<Rightarrow> ps2_has_data (i_ports dev) d | NoSource \<Rightarrow> (False, d))"

definition input_poll :: "'d input_dev \<Rightarrow> (nat \<Rightarrow> u64) \<Rightarrow> input_state \<Rightarrow> 'd \<Rightarrow> input_state \<times> 'd" where
  "input_poll dev ticks s d =
     (if in_source s = USB
      then (let (_, h, d) = hid_poll (i_bus dev) ticks (in_hid s) d in (s\<lparr>in_hid := h\<rparr>, d)) else (s, d))"

definition input_stop :: "input_state \<Rightarrow> input_state" where
  "input_stop s = s\<lparr>in_source := NoSource\<rparr>"

section \<open>The fallback to EHCI\<close>

text \<open>\<open>g_enumerated\<close> is never cleared, and while an xHCI controller is present every request goes to
  it.  So when the device behind xHCI was configured but is not a keyboard, the attempt over EHCI
  fails at once.\<close>

lemma enumerate_twice: "g_enumerated u \<Longrightarrow> enumerate_device b u d a = (False, u, d)"
  by (simp add: enumerate_device_def)

lemma hid_init_enumerated: "g_enumerated u \<Longrightarrow> \<not> fst (hid_init b u d)"
  by (simp add: hid_init_def Let_def enumerate_twice)

text \<open>Once a USB device has been enumerated, no later attempt to find a keyboard succeeds:
  if the device behind the xHCI controller is not a keyboard, \<open>input::init\<close> never uses a keyboard
  behind the EHCI controller but falls back to PS/2.\<close>

lemma ehci_keyboard_never_tried:
  assumes x: "i_xhci_init dev d hhdm = (True, d1)" "hid_init (i_bus dev) (in_usb s) d1 = (False, h, u, d2)" "g_enumerated u"
    and e: "i_ehci_init dev d2 hhdm = (ok, d3)"
    and r: "input_init dev hhdm s d = Some (s', d')"
  shows "in_source s' = PS2"
proof -
  note r = r [unfolded input_init_def x(1)]
  have t: "try_usb dev (True, d1) (s\<lparr>in_source := NoSource\<rparr>) = (False, s\<lparr>in_source := NoSource, in_hid := h, in_usb := u\<rparr>, d2)"
    using x(2) by (simp add: try_usb_def)
  have "\<not> fst (try_usb dev (ok, d3) s1)" if "in_usb s1 = u" for s1
    using hid_init_enumerated [OF x(3), of "i_bus dev" d3] that
    by (auto simp: try_usb_def Let_def split: prod.splits)
  then have "\<not> fst (try_usb dev (ok, d3) (s\<lparr>in_source := NoSource, in_hid := h, in_usb := u\<rparr>))" by simp
  with r show ?thesis unfolding t by (auto simp: e Let_def split: prod.splits if_splits)
qed

end
