(* ===== verification/Shell.thy ===== *)
theory Shell
  imports Prelude
begin

text \<open>
  The line editor of the shell (\<open>shell/shell.cpp\<close>) and the driver registry
  (\<open>lib/driver_registry.cpp\<close>).  The characters \<open>input::get_char\<close> returns are a list, 0 for no
  key; a line that is not finished when they run out is \<open>None\<close>.  A write outside the buffer of
  256 bytes would be \<open>None\<close> too.
\<close>

section \<open>The line editor\<close>

datatype echo = Putc u8 | Backspace

record line_state =
  ln_buffer :: "u8 list"
  ln_pos :: nat
  ln_echo :: "echo list"

definition buf_put :: "nat \<Rightarrow> u8 \<Rightarrow> line_state \<Rightarrow> line_state option" where
  "buf_put i c s = (if i < length (ln_buffer s) then Some (s\<lparr>ln_buffer := (ln_buffer s)[i := c]\<rparr>) else None)"

definition emit :: "echo \<Rightarrow> line_state \<Rightarrow> line_state" where
  "emit e s = s\<lparr>ln_echo := ln_echo s @ [e]\<rparr>"

text \<open>One character that does not end the line; \<open>char\<close> is signed.\<close>

definition line_key :: "u8 \<Rightarrow> line_state \<Rightarrow> line_state option" where
  "line_key c s =
     (if c = 8 then Some (if ln_pos s > 0 then emit Backspace (s\<lparr>ln_pos := ln_pos s - 1\<rparr>) else s)
      else if sint c \<ge> 32 \<and> ln_pos s < 255 then
        (case buf_put (ln_pos s) c s of None \<Rightarrow> None
         | Some s \<Rightarrow> Some (emit (Putc c) (s\<lparr>ln_pos := ln_pos s + 1\<rparr>)))
      else Some s)"

fun read_line :: "u8 list \<Rightarrow> line_state \<Rightarrow> (line_state \<times> u8 list) option" where
  "read_line [] s = None"
| "read_line (c # cs) s =
     (if c = 0 then read_line cs s
      else if c = 10 then map_option (\<lambda>s. (s, cs)) (buf_put (ln_pos s) 0 (emit (Putc 10) s))
      else case line_key c s of None \<Rightarrow> None | Some s \<Rightarrow> read_line cs s)"

lemma read_line_shorter: "read_line cs s = Some (s', cs') \<Longrightarrow> length cs' < length cs"
  by (induction cs s rule: read_line.induct) (fastforce split: if_splits option.splits)+

text \<open>The shell proper: a prompt, a line, the command; the buffer is reused.\<close>

definition line_bytes :: "line_state \<Rightarrow> cstr" where
  "line_bytes s = takeWhile (\<lambda>c. c \<noteq> 0) (ln_buffer s)"

function shell_run :: "('e \<Rightarrow> cstr \<Rightarrow> 'e) \<Rightarrow> ('e \<Rightarrow> 'e) \<Rightarrow> u8 list \<Rightarrow> u8 list \<Rightarrow> 'e \<Rightarrow> 'e" where
  "shell_run execute prompt buf input e =
     (let e = prompt e in
      case read_line input \<lparr>ln_buffer = buf[0 := 0], ln_pos = 0, ln_echo = []\<rparr> of None \<Rightarrow> e
      | Some (s, rest) \<Rightarrow> shell_run execute prompt (ln_buffer s) rest (execute e (line_bytes s)))"
  by pat_completeness auto
termination
  by (relation "measure (\<lambda>(x, p, b, input, e). length input)") (auto dest: read_line_shorter)

declare shell_run.simps [simp del]

section \<open>The driver registry\<close>

record reg_entry =
  re_name :: cstr
  re_description :: cstr
  re_ok :: bool

definition MAX_DRIVERS :: nat where "MAX_DRIVERS = 32"

text \<open>The first \<open>g_count\<close> entries of the table.\<close>

definition reg_clear :: "reg_entry list" where "reg_clear = []"

definition reg_add :: "reg_entry list \<Rightarrow> cstr \<Rightarrow> cstr \<Rightarrow> bool \<Rightarrow> reg_entry list" where
  "reg_add es name description ok =
     (if length es \<ge> MAX_DRIVERS then es
      else es @ [\<lparr>re_name = name, re_description = description, re_ok = ok\<rparr>])"

definition reg_count :: "reg_entry list \<Rightarrow> int" where "reg_count es = int (length es)"

definition reg_get :: "reg_entry list \<Rightarrow> int \<Rightarrow> reg_entry option" where
  "reg_get es index = (if index < 0 \<or> index \<ge> reg_count es then None else Some (es ! nat index))"

section \<open>What the editor leaves\<close>

text \<open>The reference: a stack of at most 255 printable characters.\<close>

fun edit :: "u8 list \<Rightarrow> u8 list \<Rightarrow> u8 list" where
  "edit st [] = st"
| "edit st (c # cs) =
     (if c = 8 then edit (butlast st) cs
      else if sint c \<ge> 32 \<and> length st < 255 then edit (st @ [c]) cs
      else edit st cs)"

definition line_ok :: "line_state \<Rightarrow> u8 list \<Rightarrow> bool" where
  "line_ok s st \<longleftrightarrow> length (ln_buffer s) = 256 \<and> ln_pos s = length st \<and> length st \<le> 255
     \<and> take (length st) (ln_buffer s) = st \<and> list_all (\<lambda>c. 32 \<le> sint c) st"

lemma line_key_ok:
  assumes "line_ok s st" "c \<noteq> 0"
  shows "\<exists>s'. line_key c s = Some s' \<and> line_ok s' (edit st [c])"
proof -
  have "take (Suc (length st)) ((ln_buffer s)[length st := c]) = st @ [c]" if "length st < 255"
    using assms(1) that by (simp add: line_ok_def take_Suc_conv_app_nth)
  moreover have "take (length st - 1) (ln_buffer s) = butlast st"
    using assms(1) by (simp add: line_ok_def butlast_conv_take) (metis diff_le_self min.absorb1 take_take)
  moreover have "list_all P (butlast st)" if "list_all P st" for P
    using that by (auto simp: list_all_iff dest: in_set_butlastD)
  ultimately show ?thesis
    using assms by (auto simp: line_key_def line_ok_def buf_put_def emit_def)
qed

lemma edit_append: "edit st (xs @ ys) = edit (edit st xs) ys"
  by (induction st xs rule: edit.induct) simp_all

lemma read_line_edits:
  "line_ok s st \<Longrightarrow> 10 \<notin> set cs \<Longrightarrow> \<exists>s'. read_line (cs @ 10 # rest) s = Some (s', rest)
    \<and> line_bytes s' = edit st cs \<and> length (ln_buffer s') = 256 \<and> length (edit st cs) \<le> 255"
proof (induction cs arbitrary: s st)
  case Nil
  then have b: "length (ln_buffer s) = 256" "ln_pos s = length st" "length st \<le> 255"
    "take (length st) (ln_buffer s) = st" "list_all (\<lambda>c. 32 \<le> sint c) st"
    by (simp_all add: line_ok_def)
  have nz: "\<forall>c \<in> set st. c \<noteq> 0" using b(5) by (auto simp: list_all_iff)
  have "(ln_buffer s)[length st := 0] = st @ 0 # drop (Suc (length st)) (ln_buffer s)"
    using b upd_conv_take_nth_drop [of "length st" "ln_buffer s" 0] by simp
  then have "takeWhile (\<lambda>c. c \<noteq> 0) ((ln_buffer s)[length st := 0]) = st"
    using nz by (simp add: takeWhile_append)
  then show ?case using b by (simp add: buf_put_def emit_def line_bytes_def)
next
  case (Cons c cs)
  show ?case
  proof (cases "c = 0")
    case True
    then show ?thesis using Cons.IH [OF Cons.prems(1)] Cons.prems(2) by simp
  next
    case False
    obtain s' where s': "line_key c s = Some s'" "line_ok s' (edit st [c])"
      using line_key_ok [OF Cons.prems(1) False] by blast
    have "edit st (c # cs) = edit (edit st [c]) cs" using edit_append [of st "[c]" cs] by simp
    with Cons.IH [OF s'(2)] Cons.prems(2) s'(1) False show ?thesis by auto
  qed
qed

section \<open>Property\<close>

text \<open>C25. Whatever is typed, the editor never writes outside its buffer and the shell executes, in
  order, exactly the lines of the reference editor: printable characters append while there are
  fewer than 255, backspace removes the last one, everything else is ignored; after the last line
  it prompts and waits.\<close>

theorem shell_executes_lines:
  assumes "length buf = 256" "\<forall>l \<in> set ls. 10 \<notin> set l"
  shows "shell_run execute prompt buf (concat (map (\<lambda>l. l @ [10]) ls)) e
      = prompt (fold (\<lambda>l e. execute (prompt e) (edit [] l)) ls e)
    \<and> (\<forall>l \<in> set ls. length (edit [] l) \<le> 255)"
  using assms
proof (induction ls arbitrary: buf e)
  case Nil
  then show ?case by (subst shell_run.simps) simp
next
  case (Cons l ls)
  have "line_ok \<lparr>ln_buffer = buf[0 := 0], ln_pos = 0, ln_echo = []\<rparr> []"
    using Cons.prems(1) by (simp add: line_ok_def)
  then obtain s where s: "read_line (l @ 10 # concat (map (\<lambda>l. l @ [10]) ls)) \<lparr>ln_buffer = buf[0 := 0], ln_pos = 0, ln_echo = []\<rparr>
      = Some (s, concat (map (\<lambda>l. l @ [10]) ls))" "line_bytes s = edit [] l" "length (ln_buffer s) = 256"
    "length (edit [] l) \<le> 255"
    using read_line_edits Cons.prems(2) by (metis list.set_intros(1))
  with Cons.IH [OF s(3)] Cons.prems(2) show ?case
    by (subst shell_run.simps) (simp add: Let_def)
qed

theorem shell_executes_lines_witness:
  "shell_run (\<lambda>e l. e @ [l]) (\<lambda>e. e) (replicate 256 0) [108, 115, 120, 8, 10, 104, 8, 8, 27, 105, 10] []
     = [ascii ''ls'', ascii ''i'']"
proof -
  have "shell_run (\<lambda>e l. e @ [l]) (\<lambda>e. e) (replicate 256 0)
      (concat (map (\<lambda>l. l @ [10]) [[108, 115, 120, 8], [104, 8, 8, 27, 105]])) []
     = (\<lambda>e. e) (fold (\<lambda>l e. e @ [edit [] l]) [[108, 115, 120, 8], [104, 8, 8, 27, 105]] [])"
    using shell_executes_lines [of "replicate 256 0" "[[108, 115, 120, 8], [104, 8, 8, 27, 105]]" "\<lambda>e l. e @ [l]" "\<lambda>e. e" "[]"]
    by simp
  then show ?thesis by (simp add: ascii_def)
qed

end
