(* ===== verification/Font.thy ===== *)
theory Font
  imports Prelude
begin

text \<open>
  The bitmap font of the console, \<open>console/font.cpp\<close>: 16 rows of 8 pixels for each of the 256
  characters.  The table lists the printable ASCII characters; the rest of the array is zero.
\<close>

definition font_glyphs :: "u8 list list" where
  "font_glyphs =
    [[0,0,0,0,0,0,0,0,0,0,0,0,0,0,0,0],
     [0,0,24,24,24,24,24,24,8,0,24,24,0,0,0,0],
     [0,0,108,108,108,40,0,0,0,0,0,0,0,0,0,0],
     [0,0,108,108,254,108,254,108,108,0,0,0,0,0,0,0],
     [0,8,62,104,104,60,10,10,124,16,0,0,0,0,0,0],
     [0,0,198,204,24,48,102,198,0,0,0,0,0,0,0,0],
     [0,0,56,108,108,56,108,206,206,123,0,0,0,0,0,0],
     [0,0,24,24,24,8,0,0,0,0,0,0,0,0,0,0],
     [0,0,12,24,48,48,48,48,48,24,12,0,0,0,0,0],
     [0,0,48,24,12,12,12,12,12,24,48,0,0,0,0,0],
     [0,0,0,0,24,126,60,126,24,0,0,0,0,0,0,0],
     [0,0,0,24,24,126,24,24,0,0,0,0,0,0,0,0],
     [0,0,0,0,0,0,0,0,0,24,24,8,0,0,0,0],
     [0,0,0,0,0,126,0,0,0,0,0,0,0,0,0,0],
     [0,0,0,0,0,0,0,0,0,24,24,0,0,0,0,0],
     [0,0,2,6,12,24,48,96,192,128,0,0,0,0,0,0],
     [0,0,56,108,198,198,198,198,108,56,0,0,0,0,0,0],
     [0,0,24,56,24,24,24,24,24,126,0,0,0,0,0,0],
     [0,0,124,198,6,12,24,48,96,254,0,0,0,0,0,0],
     [0,0,124,198,6,60,6,198,198,124,0,0,0,0,0,0],
     [0,0,102,102,102,126,6,6,6,6,0,0,0,0,0,0],
     [0,0,254,192,192,252,6,6,198,124,0,0,0,0,0,0],
     [0,0,60,96,192,252,198,198,198,124,0,0,0,0,0,0],
     [0,0,254,6,12,24,48,48,48,48,0,0,0,0,0,0],
     [0,0,124,198,198,124,198,198,198,124,0,0,0,0,0,0],
     [0,0,124,198,198,198,126,6,12,120,0,0,0,0,0,0],
     [0,0,0,24,24,0,0,24,24,0,0,0,0,0,0,0],
     [0,0,0,24,24,0,0,24,24,8,0,0,0,0,0,0],
     [0,0,12,24,48,96,48,24,12,0,0,0,0,0,0,0],
     [0,0,0,0,126,0,126,0,0,0,0,0,0,0,0,0],
     [0,0,48,24,12,6,12,24,48,0,0,0,0,0,0,0],
     [0,0,124,198,6,12,24,0,24,24,0,0,0,0,0,0],
     [0,0,124,198,222,222,222,192,124,0,0,0,0,0,0,0],
     [0,0,16,56,108,198,254,198,198,198,0,0,0,0,0,0],
     [0,0,252,102,102,124,102,102,102,252,0,0,0,0,0,0],
     [0,0,60,102,192,192,192,192,102,60,0,0,0,0,0,0],
     [0,0,248,108,102,102,102,102,108,248,0,0,0,0,0,0],
     [0,0,254,96,96,248,96,96,96,254,0,0,0,0,0,0],
     [0,0,254,96,96,248,96,96,96,96,0,0,0,0,0,0],
     [0,0,60,102,192,192,206,102,102,62,0,0,0,0,0,0],
     [0,0,198,198,198,254,198,198,198,198,0,0,0,0,0,0],
     [0,0,60,24,24,24,24,24,24,60,0,0,0,0,0,0],
     [0,0,30,12,12,12,12,12,204,120,0,0,0,0,0,0],
     [0,0,230,102,108,120,108,102,102,230,0,0,0,0,0,0],
     [0,0,96,96,96,96,96,96,96,254,0,0,0,0,0,0],
     [0,0,198,238,254,214,198,198,198,198,0,0,0,0,0,0],
     [0,0,198,230,246,222,206,198,198,198,0,0,0,0,0,0],
     [0,0,56,108,198,198,198,198,108,56,0,0,0,0,0,0],
     [0,0,252,102,102,124,96,96,96,96,0,0,0,0,0,0],
     [0,0,56,108,198,198,198,214,124,14,0,0,0,0,0,0],
     [0,0,252,102,102,124,108,102,102,230,0,0,0,0,0,0],
     [0,0,60,102,96,60,6,6,102,60,0,0,0,0,0,0],
     [0,0,254,24,24,24,24,24,24,24,0,0,0,0,0,0],
     [0,0,198,198,198,198,198,198,108,56,0,0,0,0,0,0],
     [0,0,198,198,198,198,198,108,56,16,0,0,0,0,0,0],
     [0,0,198,198,198,214,254,238,198,0,0,0,0,0,0,0],
     [0,0,198,198,108,56,108,198,198,198,0,0,0,0,0,0],
     [0,0,102,102,102,60,24,24,24,24,0,0,0,0,0,0],
     [0,0,254,6,12,24,48,96,192,254,0,0,0,0,0,0],
     [0,0,60,48,48,48,48,48,48,48,48,60,0,0,0,0],
     [0,0,128,192,96,48,24,12,6,2,0,0,0,0,0,0],
     [0,0,60,12,12,12,12,12,12,12,12,60,0,0,0,0],
     [0,0,24,60,102,0,0,0,0,0,0,0,0,0,0,0],
     [0,0,0,0,0,0,0,0,0,0,0,0,255,0,0,0],
     [0,0,48,24,12,0,0,0,0,0,0,0,0,0,0,0],
     [0,0,0,0,0,120,12,124,204,204,122,0,0,0,0,0],
     [0,0,96,96,96,124,102,102,102,102,124,0,0,0,0,0],
     [0,0,0,0,0,60,102,192,192,102,60,0,0,0,0,0],
     [0,0,6,6,6,62,102,102,102,102,62,0,0,0,0,0],
     [0,0,0,0,0,60,102,126,192,102,60,0,0,0,0,0],
     [0,0,28,36,32,120,32,32,32,32,120,0,0,0,0,0],
     [0,0,0,0,0,62,102,102,102,62,6,124,0,0,0,0],
     [0,0,96,96,96,124,102,102,102,102,102,0,0,0,0,0],
     [0,0,24,0,0,56,24,24,24,24,60,0,0,0,0,0],
     [0,0,12,0,0,28,12,12,12,12,12,12,120,0,0,0],
     [0,0,96,96,96,102,108,120,108,102,102,0,0,0,0,0],
     [0,0,56,24,24,24,24,24,24,24,60,0,0,0,0,0],
     [0,0,0,0,0,204,254,214,214,214,198,0,0,0,0,0],
     [0,0,0,0,0,124,102,102,102,102,102,0,0,0,0,0],
     [0,0,0,0,0,60,102,102,102,102,60,0,0,0,0,0],
     [0,0,0,0,0,124,102,102,102,124,96,96,0,0,0,0],
     [0,0,0,0,0,62,102,102,102,62,6,6,0,0,0,0],
     [0,0,0,0,0,124,102,96,96,96,96,0,0,0,0,0],
     [0,0,0,0,0,62,96,60,6,124,0,0,0,0,0,0],
     [0,0,32,32,120,32,32,32,32,36,24,0,0,0,0,0],
     [0,0,0,0,0,102,102,102,102,102,62,0,0,0,0,0],
     [0,0,0,0,0,102,102,102,102,60,24,0,0,0,0,0],
     [0,0,0,0,0,198,214,214,214,254,108,0,0,0,0,0],
     [0,0,0,0,0,198,108,56,108,198,198,0,0,0,0,0],
     [0,0,0,0,0,102,102,102,102,62,6,124,0,0,0,0],
     [0,0,0,0,0,126,12,24,48,96,126,0,0,0,0,0],
     [0,0,14,24,24,112,24,24,24,14,0,0,0,0,0,0],
     [0,0,24,24,24,24,24,24,24,24,24,24,0,0,0,0],
     [0,0,112,24,24,14,24,24,24,112,0,0,0,0,0,0],
     [0,0,118,220,0,0,0,0,0,0,0,0,0,0,0,0]]"

definition font :: "u8 list list" where
  "font = replicate 32 (replicate 16 0) @ font_glyphs @ replicate (256 - 32 - length font_glyphs) (replicate 16 0)"

text \<open>\<open>font[(uint8_t)c][y]\<close>.\<close>

definition glyph_row :: "u8 \<Rightarrow> nat \<Rightarrow> u8" where
  "glyph_row c y = font ! unat c ! y"

lemma glyphs_shape: "length font_glyphs = 95" "list_all (\<lambda>g. length g = 16) font_glyphs"
  by code_simp+

lemma font_shape: "length font = 256" "c < 256 \<Longrightarrow> length (font ! c) = 16"
proof -
  show l: "length font = 256" by (simp add: font_def glyphs_shape)
  have "list_all (\<lambda>g. length g = 16) font"
    using glyphs_shape(2) by (simp add: font_def glyphs_shape(1) list_all_iff)
  then show "c < 256 \<Longrightarrow> length (font ! c) = 16" using l by (simp add: list_all_length)
qed

text \<open>A blank is all background.\<close>

lemma glyph_space: "y < 16 \<Longrightarrow> glyph_row 32 y = 0"
proof -
  have "font ! 32 = font_glyphs ! 0" by (simp add: font_def nth_append glyphs_shape)
  also have "\<dots> = replicate 16 0" by code_simp
  finally show "y < 16 \<Longrightarrow> glyph_row 32 y = 0" by (simp add: glyph_row_def)
qed

end
