(* ===== verification/Console.thy ===== *)
theory Console
  imports Font
begin

text \<open>
  The framebuffer console, \<open>console/console.cpp\<close>: pixels, the text cursor with scrolling, and the
  mouse cursor that saves and restores what it covers.  The memory behind \<open>fb->address\<close> is a list
  of 32-bit words.  An access outside it, or through a null framebuffer, sets \<open>con_ub\<close>.  \<open>int\<close>
  coordinates are 32-bit words read as signed; their sums wrap.
\<close>

section \<open>State\<close>

record fbuf =
  fb_width :: u64
  fb_height :: u64
  fb_pitch :: u64

record con_state =
  con_fb :: "fbuf option"
  con_pix :: "u32 list"
  cursor_x :: u64
  cursor_y :: u64
  fg_color :: u32
  bg_color :: u32
  mouse_x :: u32
  mouse_y :: u32
  mouse_visible :: bool
  cursor_bg :: "u32 list"
  con_ub :: bool

definition con_boot :: con_state where
  "con_boot = \<lparr>con_fb = None, con_pix = [], cursor_x = 0, cursor_y = 0, fg_color = 0xFFFFFFFF, bg_color = 0,
     mouse_x = 100, mouse_y = 100, mouse_visible = False, cursor_bg = replicate 144 0, con_ub = False\<rparr>"

definition CURSOR_W :: nat where "CURSOR_W = 12"
definition CURSOR_H :: nat where "CURSOR_H = 12"

definition fail_ub :: "con_state \<Rightarrow> con_state" where "fail_ub s = s\<lparr>con_ub := True\<rparr>"

text \<open>Words of the framebuffer.\<close>

definition store_px :: "u64 \<Rightarrow> u32 \<Rightarrow> con_state \<Rightarrow> con_state" where
  "store_px k v s = (if unat k < length (con_pix s) then s\<lparr>con_pix := (con_pix s)[unat k := v]\<rparr> else fail_ub s)"

definition copy_px :: "u64 \<Rightarrow> u64 \<Rightarrow> con_state \<Rightarrow> con_state" where
  "copy_px src dst s =
     (if unat src < length (con_pix s) then store_px dst (con_pix s ! unat src) s else fail_ub s)"

definition words_per_row :: "fbuf \<Rightarrow> u64" where "words_per_row f = fb_pitch f div 4"

text \<open>\<open>for (size_t i = a; i < b; i++)\<close>.\<close>

definition range64 :: "u64 \<Rightarrow> u64 \<Rightarrow> u64 list" where
  "range64 a b = map of_nat [unat a..<unat b]"

section \<open>Pixels\<close>

definition get_width :: "con_state \<Rightarrow> u32" where
  "get_width s = (case con_fb s of None \<Rightarrow> 0 | Some f \<Rightarrow> ucast (fb_width f))"

definition get_height :: "con_state \<Rightarrow> u32" where
  "get_height s = (case con_fb s of None \<Rightarrow> 0 | Some f \<Rightarrow> ucast (fb_height f))"

text \<open>The word of the pixel \<open>(x, y)\<close>, if the guards of \<open>draw_pixel\<close> and \<open>read_pixel\<close> let it through.\<close>

definition pixel_index :: "con_state \<Rightarrow> u32 \<Rightarrow> u32 \<Rightarrow> u64 option" where
  "pixel_index s x y =
     (case con_fb s of None \<Rightarrow> None
      | Some f \<Rightarrow>
        if sint x < 0 \<or> sint y < 0 then None
        else if ucast x \<ge> fb_width f then None
        else if ucast y \<ge> fb_height f then None
        else Some (ucast y * words_per_row f + ucast x))"

definition draw_pixel :: "u32 \<Rightarrow> u32 \<Rightarrow> u32 \<Rightarrow> con_state \<Rightarrow> con_state" where
  "draw_pixel x y color s = (case pixel_index s x y of None \<Rightarrow> s | Some k \<Rightarrow> store_px k color s)"

definition read_pixel :: "u32 \<Rightarrow> u32 \<Rightarrow> con_state \<Rightarrow> u32 \<times> con_state" where
  "read_pixel x y s =
     (case pixel_index s x y of None \<Rightarrow> (0, s)
      | Some k \<Rightarrow> if unat k < length (con_pix s) then (con_pix s ! unat k, s) else (0, fail_ub s))"

definition draw_rect :: "u32 \<Rightarrow> u32 \<Rightarrow> u32 \<Rightarrow> u32 \<Rightarrow> u32 \<Rightarrow> con_state \<Rightarrow> con_state" where
  "draw_rect x y w h color =
     fold (\<lambda>j. fold (\<lambda>i. draw_pixel (x + of_nat i) (y + of_nat j) color) [0..<nat (sint w)]) [0..<nat (sint h)]"

section \<open>Text\<close>

definition set_color :: "u32 \<Rightarrow> u32 \<Rightarrow> con_state \<Rightarrow> con_state" where
  "set_color fg bg s = s\<lparr>fg_color := fg, bg_color := bg\<rparr>"

definition scroll :: "con_state \<Rightarrow> con_state" where
  "scroll s =
     (case con_fb s of None \<Rightarrow> fail_ub s
      | Some f \<Rightarrow>
        let pitch = words_per_row f; row_size = fb_width f; bg = bg_color s;
            s = fold (\<lambda>y. fold (\<lambda>x. copy_px (y * pitch + x) ((y - 16) * pitch + x)) (range64 0 row_size))
                  (range64 16 (fb_height f)) s;
            s = fold (\<lambda>y. fold (\<lambda>x. store_px (y * pitch + x) bg) (range64 0 row_size))
                  (range64 (fb_height f - 16) (fb_height f)) s
        in if cursor_y s \<ge> 16 then s\<lparr>cursor_y := cursor_y s - 16\<rparr> else s)"

definition draw_char :: "u8 \<Rightarrow> u64 \<Rightarrow> u64 \<Rightarrow> con_state \<Rightarrow> con_state" where
  "draw_char c cx cy s =
     (case con_fb s of None \<Rightarrow> fail_ub s
      | Some f \<Rightarrow>
        let pitch = words_per_row f; fg = fg_color s; bg = bg_color s in
        fold (\<lambda>y. fold (\<lambda>x s.
          let px = cx + of_nat x; py = cy + of_nat y in
          if px \<ge> fb_width f \<or> py \<ge> fb_height f then s
          else if glyph_row c y AND push_bit (7 - x) 1 \<noteq> 0 then store_px (py * pitch + px) fg s
          else store_px (py * pitch + px) bg s) [0..<8]) [0..<16] s)"

definition con_backspace :: "con_state \<Rightarrow> con_state" where
  "con_backspace s =
     (case con_fb s of None \<Rightarrow> fail_ub s
      | Some f \<Rightarrow>
        let s = (if cursor_x s \<ge> 8 then s\<lparr>cursor_x := cursor_x s - 8\<rparr>
                 else if cursor_y s \<ge> 16
                 then s\<lparr>cursor_y := cursor_y s - 16, cursor_x := (fb_width f div 8) * 8 - 8\<rparr> else s)
        in draw_char 32 (cursor_x s) (cursor_y s) s)"

definition con_putc :: "u8 \<Rightarrow> con_state \<Rightarrow> con_state" where
  "con_putc c s =
     (case con_fb s of None \<Rightarrow> fail_ub s
      | Some f \<Rightarrow>
        let s = (if c = 10 then s\<lparr>cursor_x := 0, cursor_y := cursor_y s + 16\<rparr>
                 else if c = 8 then con_backspace s
                 else let s = draw_char c (cursor_x s) (cursor_y s) s;
                          s = s\<lparr>cursor_x := cursor_x s + 8\<rparr>
                      in if cursor_x s + 8 > fb_width f
                         then s\<lparr>cursor_x := 0, cursor_y := cursor_y s + 16\<rparr> else s)
        in if cursor_y s + 16 > fb_height f then scroll s else s)"

definition con_puts :: "cstr \<Rightarrow> con_state \<Rightarrow> con_state" where
  "con_puts = fold con_putc"

definition con_clear :: "con_state \<Rightarrow> con_state" where
  "con_clear s =
     (case con_fb s of None \<Rightarrow> fail_ub s
      | Some f \<Rightarrow>
        (fold (\<lambda>i. store_px i (bg_color s)) (range64 0 (words_per_row f * fb_height f)) s)
          \<lparr>cursor_x := 0, cursor_y := 0\<rparr>)"

definition con_init :: "fbuf \<Rightarrow> con_state \<Rightarrow> con_state" where
  "con_init f s = con_clear (s\<lparr>con_fb := Some f\<rparr>)"

section \<open>The mouse cursor\<close>

text \<open>The loops over the 12 by 12 box, in the order of the code.\<close>

definition cursor_box :: "(nat \<times> nat) list" where
  "cursor_box = List.product [0..<CURSOR_H] [0..<CURSOR_W]"

definition save_bg :: "con_state \<Rightarrow> con_state" where
  "save_bg = fold (\<lambda>(j, i) s.
     let (v, s) = read_pixel (mouse_x s + of_nat i) (mouse_y s + of_nat j) s
     in s\<lparr>cursor_bg := (cursor_bg s)[j * CURSOR_W + i := v]\<rparr>) cursor_box"

definition restore_bg :: "con_state \<Rightarrow> con_state" where
  "restore_bg = fold (\<lambda>(j, i) s.
     draw_pixel (mouse_x s + of_nat i) (mouse_y s + of_nat j) (cursor_bg s ! (j * CURSOR_W + i)) s) cursor_box"

definition draw_cursor_shape :: "con_state \<Rightarrow> con_state" where
  "draw_cursor_shape s =
     (let cx = of_nat (CURSOR_W div 2); cy = of_nat (CURSOR_H div 2); mx = mouse_x s; my = mouse_y s;
          s = draw_pixel (mx + cx) (my + cy) 0xFFFFFF s;
          s = fold (\<lambda>i s.
            draw_pixel (mx + cx) (my + cy - of_nat i) 0xFFFFFF
              (draw_pixel (mx + cx) (my + cy + of_nat i) 0xFFFFFF
                (draw_pixel (mx + cx - of_nat i) (my + cy) 0xFFFFFF
                  (draw_pixel (mx + cx + of_nat i) (my + cy) 0xFFFFFF s)))) [1..<4] s
      in fold (\<lambda>i s.
            draw_pixel (mx + cx - 1) (my + cy - of_nat i) 0
              (draw_pixel (mx + cx + 1) (my + cy + of_nat i) 0
                (draw_pixel (mx + cx - of_nat i) (my + cy - 1) 0
                  (draw_pixel (mx + cx + of_nat i) (my + cy + 1) 0 s)))) [1..<5] s)"

definition show_cursor :: "con_state \<Rightarrow> con_state" where
  "show_cursor s = (if mouse_visible s then s else (draw_cursor_shape (save_bg s))\<lparr>mouse_visible := True\<rparr>)"

definition hide_cursor :: "con_state \<Rightarrow> con_state" where
  "hide_cursor s = (if \<not> mouse_visible s then s else (restore_bg s)\<lparr>mouse_visible := False\<rparr>)"

definition move_cursor :: "u32 \<Rightarrow> u32 \<Rightarrow> con_state \<Rightarrow> con_state" where
  "move_cursor x y s =
     (case con_fb s of None \<Rightarrow> s
      | Some f \<Rightarrow>
        let x = (if sint x < 0 then 0 else x);
            y = (if sint y < 0 then 0 else y);
            x = (if ucast x > fb_width f - of_nat CURSOR_W then ucast (fb_width f - of_nat CURSOR_W) else x);
            y = (if ucast y > fb_height f - of_nat CURSOR_H then ucast (fb_height f - of_nat CURSOR_H) else y)
        in show_cursor ((hide_cursor s)\<lparr>mouse_x := x, mouse_y := y\<rparr>))"

definition move_cursor_rel :: "u32 \<Rightarrow> u32 \<Rightarrow> con_state \<Rightarrow> con_state" where
  "move_cursor_rel dx dy s = move_cursor (mouse_x s + dx) (mouse_y s + dy) s"

definition get_cursor_x :: "con_state \<Rightarrow> u32" where "get_cursor_x s = mouse_x s"
definition get_cursor_y :: "con_state \<Rightarrow> u32" where "get_cursor_y s = mouse_y s"

end
