(* ===== verification/ConsoleDraw.thy ===== *)
theory ConsoleDraw
  imports Console
begin

text \<open>
  What the drawing operations of the console do to the words of the framebuffer: a calculus of
  pictures (partial maps from word indices to colours) that compose along the drawing loops.
\<close>

section \<open>Geometry\<close>

abbreviation "fw f \<equiv> unat (fb_width f)"
abbreviation "fh f \<equiv> unat (fb_height f)"
abbreviation "fp f \<equiv> unat (words_per_row f)"

text \<open>A framebuffer whose memory is as large as its rows say, of a size that 32-bit signed
  coordinates can address.\<close>

definition geo :: "fbuf \<Rightarrow> con_state \<Rightarrow> bool" where
  "geo f s \<longleftrightarrow> con_fb s = Some f \<and> fw f \<le> fp f \<and> length (con_pix s) = fp f * fh f
     \<and> fp f < 2 ^ 31 \<and> fh f < 2 ^ 31"

lemma geo_fb: "geo f s \<Longrightarrow> con_fb s = Some f"
  by (simp add: geo_def)

lemma geo_update [simp]:
  "geo f (s\<lparr>cursor_x := a\<rparr>) = geo f s" "geo f (s\<lparr>cursor_y := b\<rparr>) = geo f s"
  "geo f (s\<lparr>fg_color := c\<rparr>) = geo f s" "geo f (s\<lparr>bg_color := c\<rparr>) = geo f s"
  "geo f (s\<lparr>mouse_x := d\<rparr>) = geo f s" "geo f (s\<lparr>mouse_y := d\<rparr>) = geo f s"
  "geo f (s\<lparr>mouse_visible := v\<rparr>) = geo f s" "geo f (s\<lparr>cursor_bg := B\<rparr>) = geo f s"
  by (simp_all add: geo_def)

lemma geo_size: "geo f s \<Longrightarrow> fp f * fh f < 2 ^ 62"
proof -
  assume g: "geo f s"
  have "fp f * fh f \<le> (2 ^ 31 - 1) * (2 ^ 31 - 1)" by (rule mult_le_mono) (use g in \<open>auto simp: geo_def\<close>)
  then show ?thesis by simp
qed

text \<open>The index of a pixel.\<close>

lemma pix_bound: "x < P \<Longrightarrow> y < h \<Longrightarrow> y * P + x < P * (h :: nat)"
proof -
  assume "x < P" "y < h"
  then have "y * P + x < y * P + P" "Suc y * P \<le> h * P" by (simp, intro mult_le_mono1) simp
  then show ?thesis by (simp add: mult.commute)
qed

lemma pix_inj: "x < P \<Longrightarrow> x' < P \<Longrightarrow> y * P + x = y' * P + x' \<longleftrightarrow> x = x' \<and> y = (y' :: nat)"
proof
  assume xs: "x < P" "x' < P" and e: "y * P + x = y' * P + x'"
  then have "(y * P + x) div P = (y' * P + x') div P" "(y * P + x) mod P = (y' * P + x') mod P" by simp_all
  with xs show "x = x' \<and> y = y'" by simp
qed simp

lemma pix_index:
  assumes "geo f s" "y < fh f" "x < fp f" "unat a = y" "unat b = x"
  shows "unat (a * words_per_row f + b) = y * fp f + x" "y * fp f + x < length (con_pix s)"
proof -
  have b: "y * fp f + x < fp f * fh f" by (rule pix_bound [OF assms(3,2)])
  then show "y * fp f + x < length (con_pix s)" using assms(1) by (simp add: geo_def)
  have m: "unat (a * words_per_row f) = y * fp f"
    using b geo_size [OF assms(1)] assms(4) by (subst unat_mult_no_overflow) simp_all
  show "unat (a * words_per_row f + b) = y * fp f + x"
    using b geo_size [OF assms(1)] assms(5) m by (subst unat_add_no_overflow) simp_all
qed

section \<open>Pictures\<close>

text \<open>\<open>drawn f s s' img\<close>: \<open>s'\<close> is \<open>s\<close> with the colours of \<open>img\<close> put over its words.\<close>

definition drawn :: "con_state \<Rightarrow> con_state \<Rightarrow> (nat \<Rightarrow> u32 option) \<Rightarrow> bool" where
  "drawn s s' img \<longleftrightarrow> (\<exists>X. s' = s\<lparr>con_pix := X\<rparr> \<and> length X = length (con_pix s)
     \<and> (\<forall>k < length X. X ! k = (case img k of None \<Rightarrow> con_pix s ! k | Some v \<Rightarrow> v)))"

definition over :: "(nat \<Rightarrow> u32 option) \<Rightarrow> (nat \<Rightarrow> u32 option) \<Rightarrow> nat \<Rightarrow> u32 option" where
  "over i1 i2 k = (case i2 k of None \<Rightarrow> i1 k | Some v \<Rightarrow> Some v)"

lemma drawn_refl: "drawn s s (\<lambda>_. None)"
  unfolding drawn_def by (rule exI [of _ "con_pix s"]) simp

lemma drawn_trans: "drawn s s1 i1 \<Longrightarrow> drawn s1 s2 i2 \<Longrightarrow> drawn s s2 (over i1 i2)"
proof -
  assume "drawn s s1 i1" "drawn s1 s2 i2"
  then obtain X Y where X: "s1 = s\<lparr>con_pix := X\<rparr>" "length X = length (con_pix s)"
      "\<forall>k < length X. X ! k = (case i1 k of None \<Rightarrow> con_pix s ! k | Some v \<Rightarrow> v)"
    and Y: "s2 = s1\<lparr>con_pix := Y\<rparr>" "length Y = length (con_pix s1)"
      "\<forall>k < length Y. Y ! k = (case i2 k of None \<Rightarrow> con_pix s1 ! k | Some v \<Rightarrow> v)"
    unfolding drawn_def by blast
  have "s2 = s\<lparr>con_pix := Y\<rparr>" "length Y = length (con_pix s)" using X(1,2) Y(1,2) by simp_all
  moreover have "Y ! k = (case over i1 i2 k of None \<Rightarrow> con_pix s ! k | Some v \<Rightarrow> v)" if "k < length Y" for k
    using X Y(2,3) that by (simp add: over_def split: option.splits)
  ultimately show ?thesis unfolding drawn_def by blast
qed

lemma drawn_frame:
  assumes "drawn s s' img"
  shows "con_fb s' = con_fb s" "length (con_pix s') = length (con_pix s)" "cursor_x s' = cursor_x s"
    "cursor_y s' = cursor_y s" "fg_color s' = fg_color s" "bg_color s' = bg_color s" "mouse_x s' = mouse_x s"
    "mouse_y s' = mouse_y s" "mouse_visible s' = mouse_visible s" "cursor_bg s' = cursor_bg s" "con_ub s' = con_ub s"
  using assms by (auto simp: drawn_def)

lemma drawn_geo: "drawn s s' img \<Longrightarrow> geo f s' = geo f s"
  by (simp add: geo_def drawn_frame)

lemma drawn_pix: "drawn s s' img \<Longrightarrow> k < length (con_pix s) \<Longrightarrow>
    con_pix s' ! k = (case img k of None \<Rightarrow> con_pix s ! k | Some v \<Rightarrow> v)"
  by (auto simp: drawn_def)

lemma drawn_cong: "drawn s s' i \<Longrightarrow> (\<And>k. k < length (con_pix s) \<Longrightarrow> i k = i' k) \<Longrightarrow> drawn s s' i'"
  unfolding drawn_def by (elim exE conjE) (intro exI conjI, assumption, assumption, simp)

lemma drawn_store: "unat k < length (con_pix s) \<Longrightarrow> drawn s (store_px k v s) [unat k \<mapsto> v]"
  unfolding drawn_def store_px_def by (rule exI [of _ "(con_pix s)[unat k := v]"]) (simp add: nth_list_update)

text \<open>A loop of drawings: the last one that touches a word decides its colour.\<close>

primrec overlay :: "('i \<Rightarrow> nat \<Rightarrow> u32 option) \<Rightarrow> 'i list \<Rightarrow> nat \<Rightarrow> u32 option" where
  "overlay img [] = (\<lambda>_. None)"
| "overlay img (i # is) = over (img i) (overlay img is)"

lemma drawn_fold:
  assumes "\<And>i t. i \<in> set is \<Longrightarrow> geo f t \<Longrightarrow> t = s\<lparr>con_pix := con_pix t\<rparr> \<Longrightarrow> drawn t (g i t) (img i)" "geo f s"
  shows "drawn s (fold g is s) (overlay img is)"
proof -
  have "drawn t (fold g is t) (overlay img is)" if "geo f t" "t = s\<lparr>con_pix := con_pix t\<rparr>" for t
    using assms(1) that
  proof (induction "is" arbitrary: t)
    case Nil
    then show ?case by (simp add: drawn_refl)
  next
    case (Cons i "is")
    have 1: "drawn t (g i t) (img i)" using Cons.prems by simp
    have "g i t = s\<lparr>con_pix := con_pix (g i t)\<rparr>"
    proof -
      obtain X where X: "g i t = t\<lparr>con_pix := X\<rparr>" using 1 by (auto simp: drawn_def)
      show ?thesis unfolding X by (subst Cons.prems(3)) simp
    qed
    then have "drawn (g i t) (fold g is (g i t)) (overlay img is)"
      using Cons.IH [of "g i t"] Cons.prems 1 by (simp add: drawn_geo)
    with 1 show ?case by (simp add: drawn_trans)
  qed
  then show ?thesis using assms(2) by simp
qed

lemma overlay_None: "(\<And>i. i \<in> set is \<Longrightarrow> img i k = None) \<Longrightarrow> overlay img is k = None"
  by (induction "is") (simp_all add: over_def)

lemma overlay_Some: "i \<in> set is \<Longrightarrow> img i k = Some v \<Longrightarrow> (\<And>j u. j \<in> set is \<Longrightarrow> img j k = Some u \<Longrightarrow> u = v)
    \<Longrightarrow> overlay img is k = Some v"
proof (induction "is" arbitrary: i)
  case (Cons a "is")
  show ?case
  proof (cases "overlay img is k")
    case None
    have "i = a"
      using Cons.IH [of i] Cons.prems None by (metis list.set_intros(2) option.distinct(1) set_ConsD)
    with Cons.prems None show ?thesis by (simp add: over_def)
  next
    case (Some u)
    then have "\<exists>j \<in> set is. img j k \<noteq> None" by (metis overlay_None option.distinct(1))
    then have "overlay img is k = Some v" using Cons.IH Cons.prems by (metis list.set_intros(2) not_None_eq)
    then show ?thesis by (simp add: over_def)
  qed
qed simp

lemma overlay_dom: "overlay img is k = Some v \<Longrightarrow> \<exists>i \<in> set is. img i k = Some v"
  by (induction "is") (auto simp: over_def split: option.splits)

section \<open>Single pixels\<close>

definition at :: "fbuf \<Rightarrow> u32 \<Rightarrow> u32 \<Rightarrow> nat \<Rightarrow> bool" where
  "at f x y k \<longleftrightarrow> unat x < fw f \<and> unat y < fh f \<and> k = unat y * fp f + unat x"

text \<open>The guards of \<open>draw_pixel\<close> let exactly the pixels of the picture through.\<close>

lemma pixel_index_at:
  assumes "geo f s"
  shows "pixel_index s x y =
    (if unat x < fw f \<and> unat y < fh f then Some (ucast y * words_per_row f + ucast x) else None)"
proof -
  have u: "unat (ucast z :: u64) = unat z" for z :: u32 by (simp add: unat_ucast_up)
  have le: "(ucast x \<ge> fb_width f) = (\<not> unat x < fw f)" "(ucast y \<ge> fb_height f) = (\<not> unat y < fh f)"
    by (simp_all add: word_le_nat_alt u not_less)
  have "unat x < fw f \<Longrightarrow> \<not> sint x < 0" "unat y < fh f \<Longrightarrow> \<not> sint y < 0"
    using assms by (simp_all add: geo_def sint_small)
  then show ?thesis using geo_fb [OF assms] unfolding pixel_index_def by (auto simp: le)
qed

lemma pixel_word:
  assumes "geo f s" "unat x < fw f" "unat (y :: u32) < fh f"
  shows "unat (ucast y * words_per_row f + ucast (x :: u32) :: u64) = unat y * fp f + unat x"
    "unat y * fp f + unat x < length (con_pix s)"
proof -
  have u: "unat (ucast z :: u64) = unat z" for z :: u32 by (rule unat_ucast_up) simp
  have x: "unat x < fp f" using assms by (simp add: geo_def)
  show "unat (ucast y * words_per_row f + ucast x :: u64) = unat y * fp f + unat x"
    by (rule pix_index(1) [OF assms(1,3) x u u])
  show "unat y * fp f + unat x < length (con_pix s)" by (rule pix_index(2) [OF assms(1,3) x u u])
qed

lemma drawn_pixel:
  assumes "geo f s"
  shows "drawn s (draw_pixel x y c s) (\<lambda>k. if at f x y k then Some c else None)"
proof (cases "unat x < fw f \<and> unat y < fh f")
  case True
  note w = pixel_word [OF assms conjunct1 [OF True] conjunct2 [OF True]]
  have "draw_pixel x y c s = store_px (ucast y * words_per_row f + ucast x) c s"
    using True by (simp add: draw_pixel_def pixel_index_at [OF assms])
  moreover have "drawn s (store_px (ucast y * words_per_row f + ucast x) c s) [unat y * fp f + unat x \<mapsto> c]"
    using drawn_store [of "ucast y * words_per_row f + ucast x" s c] w by simp
  ultimately show ?thesis using True by (auto simp: at_def elim!: drawn_cong)
next
  case False
  then have "pixel_index s x y = None" by (simp only: pixel_index_at [OF assms] if_False)
  then have "draw_pixel x y c s = s" by (simp add: draw_pixel_def)
  then show ?thesis using drawn_refl [of s] False by (auto simp: at_def elim!: drawn_cong)
qed

lemma read_pixel_at:
  assumes "geo f s"
  shows "read_pixel x y s = (if unat x < fw f \<and> unat y < fh f then con_pix s ! (unat y * fp f + unat x) else 0, s)"
proof (cases "unat x < fw f \<and> unat y < fh f")
  case True
  note w = pixel_word [OF assms conjunct1 [OF True] conjunct2 [OF True]]
  show ?thesis unfolding read_pixel_def pixel_index_at [OF assms] using True w by simp
next
  case False
  then show ?thesis unfolding read_pixel_def pixel_index_at [OF assms] by (simp only: if_False option.case)
qed

end
