(* ===== verification/ConsoleText.thy ===== *)
theory ConsoleText
  imports ConsoleDraw
begin

text \<open>
  Text on the console: what \<open>draw_char\<close>, \<open>clear\<close> and \<open>scroll\<close> do to the picture, the invariant that
  keeps every write inside the framebuffer, and the refinement of a character terminal.
\<close>

section \<open>Characters and blanks\<close>

lemma fold_product: "fold (\<lambda>y. fold (g y) xs) ys s = fold (\<lambda>(y, x). g y x) (List.product ys xs) s"
  by (induction ys arbitrary: s) (simp_all add: fold_map comp_def)

definition glyph_px :: "u32 \<Rightarrow> u32 \<Rightarrow> u8 \<Rightarrow> nat \<Rightarrow> nat \<Rightarrow> u32" where
  "glyph_px fg bg c x y = (if glyph_row c y AND push_bit (7 - x) 1 \<noteq> 0 then fg else bg)"

lemma glyph_px_space: "y < 16 \<Longrightarrow> glyph_px fg bg 32 x y = bg"
  by (simp add: glyph_px_def glyph_space)

text \<open>Pictures that colour single pixels.\<close>

lemma overlay_pixels:
  assumes "\<And>y x. (y, x) \<in> set yxs \<Longrightarrow> x0 + x < P" "x' < P"
  shows "overlay (\<lambda>(y, x). [(y0 + y) * P + (x0 + x) \<mapsto> v y x]) yxs (y' * P + x')
    = (if y0 \<le> y' \<and> x0 \<le> x' \<and> (y' - y0, x' - x0) \<in> set yxs then Some (v (y' - y0) (x' - x0)) else None)"
proof -
  have e: "(\<lambda>(y, x). [(y0 + y) * P + (x0 + x) \<mapsto> v y x]) (y, x) (y' * P + x')
      = (if y' = y0 + y \<and> x' = x0 + x then Some (v y x) else None)" if "(y, x) \<in> set yxs" for y x
    using pix_inj [OF assms(2) assms(1) [OF that], of y' "y0 + y"] by auto
  show ?thesis
  proof (cases "y0 \<le> y' \<and> x0 \<le> x' \<and> (y' - y0, x' - x0) \<in> set yxs")
    case True
    then have s: "(\<lambda>(y, x). [(y0 + y) * P + (x0 + x) \<mapsto> v y x]) (y' - y0, x' - x0) (y' * P + x') = Some (v (y' - y0) (x' - x0))"
      using e by simp
    have "overlay (\<lambda>(y, x). [(y0 + y) * P + (x0 + x) \<mapsto> v y x]) yxs (y' * P + x') = Some (v (y' - y0) (x' - x0))"
    proof (rule overlay_Some)
      show "(y' - y0, x' - x0) \<in> set yxs" using True by blast
      show "(\<lambda>(y, x). [(y0 + y) * P + (x0 + x) \<mapsto> v y x]) (y' - y0, x' - x0) (y' * P + x') = Some (v (y' - y0) (x' - x0))"
        by (rule s)
      fix j u assume "j \<in> set yxs" "(\<lambda>(y, x). [(y0 + y) * P + (x0 + x) \<mapsto> v y x]) j (y' * P + x') = Some u"
      moreover obtain a b where "j = (a, b)" by (rule prod.exhaust)
      ultimately show "u = v (y' - y0) (x' - x0)" using e [of a b] by (auto split: if_splits)
    qed
    then show ?thesis using True by simp
  next
    case False
    then have "overlay (\<lambda>(y, x). [(y0 + y) * P + (x0 + x) \<mapsto> v y x]) yxs (y' * P + x') = None"
    proof (intro overlay_None)
      fix j assume "j \<in> set yxs"
      moreover obtain a b where "j = (a, b)" by (rule prod.exhaust)
      ultimately show "(\<lambda>(y, x). [(y0 + y) * P + (x0 + x) \<mapsto> v y x]) j (y' * P + x') = None"
        using e [of a b] False by (auto split: if_splits)
    qed
    then show ?thesis using False by simp
  qed
qed

definition cell_pixels :: "(nat \<times> nat) list" where "cell_pixels = List.product [0..<16] [0..<8]"

lemma drawn_char:
  assumes g: "geo f s" and c: "unat cx + 8 \<le> fw f" "unat cy + 16 \<le> fh f"
  shows "drawn s (draw_char c cx cy s)
    (overlay (\<lambda>(y, x). [(unat cy + y) * fp f + (unat cx + x) \<mapsto> glyph_px (fg_color s) (bg_color s) c x y]) cell_pixels)"
proof -
  let ?g = "\<lambda>(y, x) t. let px = cx + of_nat x; py = cy + of_nat y in
      if px \<ge> fb_width f \<or> py \<ge> fb_height f then t
      else if glyph_row c y AND push_bit (7 - x) 1 \<noteq> 0 then store_px (py * words_per_row f + px) (fg_color s) t
      else store_px (py * words_per_row f + px) (bg_color s) t"
  have e: "draw_char c cx cy s = fold ?g cell_pixels s"
    by (simp add: draw_char_def geo_fb [OF g] Let_def cell_pixels_def fold_product [symmetric])
  show ?thesis unfolding e
  proof (rule drawn_fold [OF _ g])
    fix yx t assume "yx \<in> set cell_pixels" and gt: "geo f t"
    moreover obtain y x where yx: "yx = (y, x)" by (rule prod.exhaust)
    ultimately have b: "y < 16" "x < 8" by (auto simp: cell_pixels_def)
    have f31: "fw f < 2 ^ 31" "fh f < 2 ^ 31" "fw f \<le> fp f" using gt by (auto simp: geo_def)
    have px: "unat (cx + of_nat x) = unat cx + x" "unat (cy + of_nat y) = unat cy + y"
      using b c f31 by (subst unat_add_no_overflow; simp add: unat_of_nat_eq)+
    have in_range: "\<not> (cx + of_nat x \<ge> fb_width f \<or> cy + of_nat y \<ge> fb_height f)"
      using b c by (simp add: word_le_nat_alt px)
    have y: "unat cy + y < fh f" and x: "unat cx + x < fp f" using b c f31 by simp_all
    note i = pix_index [OF gt y x px(2) px(1)]
    have st: "drawn t (store_px ((cy + of_nat y) * words_per_row f + (cx + of_nat x)) v t)
        [(unat cy + y) * fp f + (unat cx + x) \<mapsto> v]" for v
      using drawn_store [of "(cy + of_nat y) * words_per_row f + (cx + of_nat x)" t v] i by simp
    show "drawn t (?g yx t) ((\<lambda>(y, x). [(unat cy + y) * fp f + (unat cx + x) \<mapsto> glyph_px (fg_color s) (bg_color s) c x y]) yx)"
      unfolding yx using in_range st by (simp add: Let_def glyph_px_def)
  qed
qed

text \<open>Pixel by pixel: the cell shows the glyph and nothing else changes.\<close>

lemma draw_char_pixel:
  assumes g: "geo f s" and c: "unat cx + 8 \<le> fw f" "unat cy + 16 \<le> fh f" and p: "x < fw f" "y < fh f"
  shows "con_pix (draw_char c cx cy s) ! (y * fp f + x)
    = (if unat cx \<le> x \<and> x < unat cx + 8 \<and> unat cy \<le> y \<and> y < unat cy + 16
       then glyph_px (fg_color s) (bg_color s) c (x - unat cx) (y - unat cy) else con_pix s ! (y * fp f + x))"
proof -
  have x: "x < fp f" and k: "y * fp f + x < length (con_pix s)"
    using g p pix_bound [of x "fp f" y "fh f"] by (auto simp: geo_def)
  have "unat cx + x' < fp f" if "(y', x') \<in> set cell_pixels" for y' x'
    using that c g by (auto simp: cell_pixels_def geo_def)
  note o = overlay_pixels [of cell_pixels "unat cx" "fp f", OF this x]
  show ?thesis
    by (subst drawn_pix [OF drawn_char [OF g c] k]) (subst o, auto simp: cell_pixels_def)
qed

section \<open>Clearing\<close>

lemma range64_map: "range64 a b = map of_nat [unat a..<unat b]"
  by (simp add: range64_def)

lemma drawn_clear:
  assumes "geo f s"
  shows "con_clear s = s\<lparr>con_pix := replicate (fp f * fh f) (bg_color s), cursor_x := 0, cursor_y := 0\<rparr>"
proof -
  let ?n = "fp f * fh f"
  have n: "unat (words_per_row f * fb_height f) = ?n"
    using geo_size [OF assms] by (subst unat_mult_no_overflow) simp_all
  have "drawn s (fold (\<lambda>i. store_px (of_nat i) (bg_color s)) [0..<?n] s) (overlay (\<lambda>i. [i \<mapsto> bg_color s]) [0..<?n])"
  proof (rule drawn_fold [OF _ assms])
    fix i t assume "i \<in> set [0..<?n]" "geo f t"
    then have "unat (of_nat i :: u64) = i" "i < length (con_pix t)"
      using geo_size [OF assms] by (simp_all add: geo_def unat_of_nat_eq)
    then show "drawn t (store_px (of_nat i) (bg_color s) t) [i \<mapsto> bg_color s]"
      using drawn_store [of "of_nat i" t "bg_color s"] by simp
  qed
  moreover have "overlay (\<lambda>i. [i \<mapsto> bg_color s]) [0..<?n] k = Some (bg_color s)" if "k < ?n" for k
    by (rule overlay_Some [of k]) (use that in \<open>auto split: if_splits\<close>)
  moreover have "length (con_pix s) = ?n" using assms by (simp add: geo_def)
  ultimately obtain X where X: "fold (\<lambda>i. store_px (of_nat i) (bg_color s)) [0..<?n] s = s\<lparr>con_pix := X\<rparr>"
      "length X = ?n" "\<forall>k < ?n. X ! k = bg_color s"
    unfolding drawn_def by auto
  then have "X = replicate ?n (bg_color s)" by (intro nth_equalityI) simp_all
  with X(1) show ?thesis by (simp add: con_clear_def geo_fb [OF assms] range64_map n fold_map comp_def)
qed

section \<open>Scrolling\<close>

text \<open>The copy loop, up to row \<open>n\<close> and in that row up to column \<open>m\<close>.\<close>

definition shifted :: "fbuf \<Rightarrow> nat \<Rightarrow> nat \<Rightarrow> u32 list \<Rightarrow> u32 list \<Rightarrow> bool" where
  "shifted f n m old X \<longleftrightarrow> length X = length old
     \<and> (\<forall>y < fh f. \<forall>x < fp f. X ! (y * fp f + x)
       = old ! ((if x < fw f \<and> y < n \<or> x < m \<and> y = n then y + 16 else y) * fp f + x))"

lemma shifted_step:
  assumes g: "geo f s" "con_pix s = X" and sh: "shifted f n m old X" and n: "n + 16 < fh f" and m: "m < fw f"
  shows "\<exists>X'. copy_px (of_nat (n + 16) * words_per_row f + of_nat m) ((of_nat (n + 16) - 16) * words_per_row f + of_nat m) s
      = s\<lparr>con_pix := X'\<rparr> \<and> shifted f n (Suc m) old X'"
proof -
  have lim: "fh f < 2 ^ 31" "fw f \<le> fp f" "fp f < 2 ^ 31" using g(1) by (auto simp: geo_def)
  have u: "unat (of_nat (n + 16) :: u64) = n + 16" "unat (of_nat m :: u64) = m"
    using lim n m by (intro unat_of_nat_eq; simp)+
  have d: "(of_nat (n + 16) :: u64) - 16 = of_nat n" by simp
  have un: "unat (of_nat n :: u64) = n" using lim n by (intro unat_of_nat_eq) simp
  have mp: "m < fp f" and nh: "n < fh f" using lim m n by simp_all
  note i1 = pix_index [OF g(1) n mp u] and i2 = pix_index [OF g(1) nh mp un u(2)]
  let ?X = "X[n * fp f + m := X ! ((n + 16) * fp f + m)]"
  have "copy_px (of_nat (n + 16) * words_per_row f + of_nat m) ((of_nat (n + 16) - 16) * words_per_row f + of_nat m) s
      = s\<lparr>con_pix := ?X\<rparr>"
    unfolding d using i1 i2 g(2) by (simp add: copy_px_def store_px_def)
  moreover have "shifted f n (Suc m) old ?X"
    unfolding shifted_def
  proof (intro conjI allI impI)
    show "length ?X = length old" using sh by (simp add: shifted_def)
    fix y x assume yx: "y < fh f" "x < fp f"
    have Xyx: "X ! (y * fp f + x) = old ! ((if x < fw f \<and> y < n \<or> x < m \<and> y = n then y + 16 else y) * fp f + x)"
      using sh yx by (simp add: shifted_def)
    have Xsrc: "X ! ((n + 16) * fp f + m) = old ! ((n + 16) * fp f + m)"
      using sh n mp by (simp add: shifted_def)
    show "?X ! (y * fp f + x) = old ! ((if x < fw f \<and> y < n \<or> x < Suc m \<and> y = n then y + 16 else y) * fp f + x)"
    proof (cases "x = m \<and> y = n")
      case True
      then show ?thesis using i2(2) g(2) Xsrc by simp
    next
      case False
      then have "n * fp f + m \<noteq> y * fp f + x" using pix_inj [OF mp yx(2), of n y] by auto
      then show ?thesis using Xyx False by (auto simp: less_Suc_eq)
    qed
  qed
  ultimately show ?thesis by blast
qed

lemma shifted_row:
  assumes g: "geo f s" and sh: "shifted f n 0 old (con_pix s)" and n: "n + 16 < fh f" and m: "m \<le> fw f"
  shows "\<exists>X. fold (\<lambda>x. copy_px (of_nat (n + 16) * words_per_row f + of_nat x)
        ((of_nat (n + 16) - 16) * words_per_row f + of_nat x)) [0..<m] s = s\<lparr>con_pix := X\<rparr>
      \<and> shifted f n m old X"
  using m
proof (induction m)
  case 0
  show ?case by (rule exI [of _ "con_pix s"]) (use sh in simp)
next
  case (Suc m)
  then obtain X where X: "fold (\<lambda>x. copy_px (of_nat (n + 16) * words_per_row f + of_nat x)
        ((of_nat (n + 16) - 16) * words_per_row f + of_nat x)) [0..<m] s = s\<lparr>con_pix := X\<rparr>"
      "shifted f n m old X" by auto
  have "geo f (s\<lparr>con_pix := X\<rparr>)" using g sh X(2) by (simp add: geo_def shifted_def)
  from shifted_step [OF this _ X(2) n] Suc.prems
  obtain X' where X': "copy_px (of_nat (n + 16) * words_per_row f + of_nat m)
        ((of_nat (n + 16) - 16) * words_per_row f + of_nat m) (s\<lparr>con_pix := X\<rparr>) = s\<lparr>con_pix := X'\<rparr>"
      "shifted f n (Suc m) old X'" by auto
  then show ?case by (intro exI [of _ X']) (simp only: upt_Suc_append le0 fold_append fold_simps comp_apply X(1) simp_thms)
qed

lemma shifted_wrap: "shifted f n (fw f) old X \<Longrightarrow> shifted f (Suc n) 0 old X"
  unfolding shifted_def by (intro conjI allI impI) (auto simp: less_Suc_eq)

lemma shifted_rows:
  assumes g: "geo f s" and n: "n + 16 \<le> fh f"
  shows "\<exists>X. fold (\<lambda>y. fold (\<lambda>x. copy_px (of_nat (y + 16) * words_per_row f + of_nat x)
        ((of_nat (y + 16) - 16) * words_per_row f + of_nat x)) [0..<fw f]) [0..<n] s = s\<lparr>con_pix := X\<rparr>
      \<and> shifted f n 0 (con_pix s) X"
  using n
proof (induction n)
  case 0
  show ?case by (rule exI [of _ "con_pix s"]) (simp add: shifted_def)
next
  case (Suc n)
  then obtain X where X: "fold (\<lambda>y. fold (\<lambda>x. copy_px (of_nat (y + 16) * words_per_row f + of_nat x)
        ((of_nat (y + 16) - 16) * words_per_row f + of_nat x)) [0..<fw f]) [0..<n] s = s\<lparr>con_pix := X\<rparr>"
      "shifted f n 0 (con_pix s) X" by auto
  have "geo f (s\<lparr>con_pix := X\<rparr>)" using g X(2) by (simp add: geo_def shifted_def)
  from shifted_row [OF this, of n "con_pix s" "fw f"] X(2) Suc.prems
  obtain X' where X': "fold (\<lambda>x. copy_px (of_nat (n + 16) * words_per_row f + of_nat x)
        ((of_nat (n + 16) - 16) * words_per_row f + of_nat x)) [0..<fw f] (s\<lparr>con_pix := X\<rparr>) = s\<lparr>con_pix := X'\<rparr>"
      "shifted f n (fw f) (con_pix s) X'" by auto
  then show ?case
    by (intro exI [of _ X'] conjI shifted_wrap) (simp only: upt_Suc_append le0 fold_append fold_simps comp_apply X(1), assumption)
qed

text \<open>The rows that come into view at the bottom.\<close>

lemma drawn_bottom:
  assumes g: "geo f s"
  shows "drawn s (fold (\<lambda>y. fold (\<lambda>x. store_px (of_nat y * words_per_row f + of_nat x) bg) [0..<fw f]) [h..<fh f] s)
    (overlay (\<lambda>(y, x). [(0 + y) * fp f + (0 + x) \<mapsto> bg]) (List.product [h..<fh f] [0..<fw f]))"
  unfolding fold_product
proof (rule drawn_fold [OF _ g])
  fix yx t assume "yx \<in> set (List.product [h..<fh f] [0..<fw f])" and gt: "geo f t"
  moreover obtain y x where yx: "yx = (y, x)" by (rule prod.exhaust)
  ultimately have b: "y < fh f" "x < fp f" by (auto simp: geo_def)
  have u: "unat (of_nat y :: u64) = y" "unat (of_nat x :: u64) = x"
    using b gt by (intro unat_of_nat_eq; simp add: geo_def)+
  note i = pix_index [OF gt b u]
  show "drawn t ((\<lambda>(y, x). store_px (of_nat y * words_per_row f + of_nat x) bg) yx t)
      ((\<lambda>(y, x). [(0 + y) * fp f + (0 + x) \<mapsto> bg]) yx)"
    using drawn_store [of "of_nat y * words_per_row f + of_nat x" t bg] i by (simp add: yx)
qed

text \<open>Scrolling moves every pixel up by 16 rows and clears the last 16.\<close>

lemma scroll_effect:
  assumes g: "geo f s" and h: "16 \<le> fh f" and cy: "16 \<le> unat (cursor_y s)"
  shows "\<exists>X. scroll s = s\<lparr>con_pix := X, cursor_y := cursor_y s - 16\<rparr> \<and> length X = length (con_pix s)
    \<and> (\<forall>y < fh f. \<forall>x < fw f. X ! (y * fp f + x)
      = (if y + 16 < fh f then con_pix s ! ((y + 16) * fp f + x) else bg_color s))"
proof -
  let ?n = "fh f - 16"
  obtain X where X: "fold (\<lambda>y. fold (\<lambda>x. copy_px (of_nat (y + 16) * words_per_row f + of_nat x)
        ((of_nat (y + 16) - 16) * words_per_row f + of_nat x)) [0..<fw f]) [0..<?n] s = s\<lparr>con_pix := X\<rparr>"
      "shifted f ?n 0 (con_pix s) X" using shifted_rows [OF g, of ?n] h by auto
  let ?s = "s\<lparr>con_pix := X\<rparr>"
  have gX: "geo f ?s" using g X(2) by (simp add: geo_def shifted_def)
  note d = drawn_bottom [OF gX, of "bg_color s" ?n]
  obtain Y where Y: "fold (\<lambda>y. fold (\<lambda>x. store_px (of_nat y * words_per_row f + of_nat x) (bg_color s)) [0..<fw f]) [?n..<fh f] ?s
      = s\<lparr>con_pix := Y\<rparr>" "length Y = length X"
    using d by (auto simp: drawn_def)
  have r1: "range64 16 (fb_height f) = map (\<lambda>y. of_nat (y + 16)) [0..<?n]"
  proof -
    have "[16..<fh f] = map (\<lambda>y. y + 16) [0..<?n]" using map_add_upt [of 16 ?n] h by simp
    then show ?thesis by (simp add: range64_map comp_def)
  qed
  have "16 \<le> fb_height f" using h by (simp add: word_le_nat_alt)
  then have r2: "unat (fb_height f - 16) = ?n" by (simp add: unat_sub)
  have cw: "cursor_y s \<ge> 16" using cy by (simp add: word_le_nat_alt)
  have r0: "range64 0 (fb_width f) = map of_nat [0..<fw f]" by (simp add: range64_map)
  have s1: "fold (\<lambda>y. fold (\<lambda>x. copy_px (y * words_per_row f + x) ((y - 16) * words_per_row f + x))
      (range64 0 (fb_width f))) (range64 16 (fb_height f)) s = ?s"
    unfolding r0 r1 fold_map comp_def by (rule X(1))
  have s2: "fold (\<lambda>y. fold (\<lambda>x. store_px (y * words_per_row f + x) (bg_color s))
      (range64 0 (fb_width f))) (range64 (fb_height f - 16) (fb_height f)) ?s = s\<lparr>con_pix := Y\<rparr>"
    unfolding r0 range64_map [of "fb_height f - 16" "fb_height f"] r2 fold_map comp_def by (rule Y(1))
  have "scroll s = s\<lparr>con_pix := Y, cursor_y := cursor_y s - 16\<rparr>"
    using cw by (simp add: scroll_def geo_fb [OF g] Let_def s1 s2)
  moreover have "Y ! (y * fp f + x) = (if y + 16 < fh f then con_pix s ! ((y + 16) * fp f + x) else bg_color s)"
    if "y < fh f" "x < fw f" for y x
  proof -
    have x: "x < fp f" using that g by (simp add: geo_def)
    have k: "y * fp f + x < length (con_pix ?s)" using pix_bound [OF x that(1)] gX by (simp add: geo_def)
    have "Y ! (y * fp f + x) = (if ?n \<le> y then bg_color s else X ! (y * fp f + x))"
    proof -
      have "0 + x' < fp f" if "(y', x') \<in> set (List.product [?n..<fh f] [0..<fw f])" for y' x'
        using that g by (auto simp: geo_def)
      note o = overlay_pixels [OF this x, where ?y0.0 = 0]
      show ?thesis using drawn_pix [OF d k] Y(1) that
        by (simp only: o) (auto split: if_splits)
    qed
    also have "\<dots> = (if y + 16 < fh f then con_pix s ! ((y + 16) * fp f + x) else bg_color s)"
      using X(2) that x by (auto simp: shifted_def)
    finally show ?thesis .
  qed
  moreover have "length Y = length (con_pix s)" using Y(2) X(2) by (simp add: shifted_def)
  ultimately show ?thesis by blast
qed

section \<open>The screen\<close>

definition con_ok :: "fbuf \<Rightarrow> con_state \<Rightarrow> bool" where
  "con_ok f s \<longleftrightarrow> geo f s \<and> 8 \<le> fw f \<and> 16 \<le> fh f \<and> \<not> con_ub s \<and> length (cursor_bg s) = 144
     \<and> unat (cursor_x s) + 8 \<le> fw f \<and> unat (cursor_y s) + 16 \<le> fh f"

lemma con_ok_drawn: "drawn s s' img \<Longrightarrow> con_ok f s' = con_ok f s"
  by (simp add: con_ok_def drawn_geo drawn_frame)

text \<open>Where the text cursor goes, as numbers.\<close>

lemma cursor_adv:
  assumes "con_ok f s"
  shows "unat (cursor_x s + 8) = unat (cursor_x s) + 8" "unat (cursor_y s + 16) = unat (cursor_y s) + 16"
    "cursor_x s + 8 + 8 > fb_width f \<longleftrightarrow> unat (cursor_x s) + 16 > fw f"
    "cursor_y s + 16 > fb_height f \<longleftrightarrow> False" "cursor_y s + 16 + 16 > fb_height f \<longleftrightarrow> unat (cursor_y s) + 32 > fh f"
proof -
  have b: "unat (cursor_x s) + 8 < 2 ^ 31" "unat (cursor_y s) + 16 < 2 ^ 31"
    using assms by (auto simp: con_ok_def geo_def)
  show x: "unat (cursor_x s + 8) = unat (cursor_x s) + 8" and y: "unat (cursor_y s + 16) = unat (cursor_y s) + 16"
    using b by (subst unat_add_no_overflow; simp)+
  have "unat (cursor_x s + 8 + 8) = unat (cursor_x s) + 16" "unat (cursor_y s + 16 + 16) = unat (cursor_y s) + 32"
    using b x y by (subst unat_add_no_overflow; simp)+
  then show "cursor_x s + 8 + 8 > fb_width f \<longleftrightarrow> unat (cursor_x s) + 16 > fw f"
    "cursor_y s + 16 + 16 > fb_height f \<longleftrightarrow> unat (cursor_y s) + 32 > fh f" by (simp_all add: word_less_nat_alt)
  show "cursor_y s + 16 > fb_height f \<longleftrightarrow> False"
    using y assms by (simp add: word_less_nat_alt con_ok_def not_less)
qed

text \<open>The line feed, shared by \<open>'\n'\<close> and the end of a row.\<close>

definition line_feed :: "fbuf \<Rightarrow> con_state \<Rightarrow> con_state" where
  "line_feed f s = (let s = s\<lparr>cursor_x := 0, cursor_y := cursor_y s + 16\<rparr>
     in if cursor_y s + 16 > fb_height f then scroll s else s)"

definition backed :: "fbuf \<Rightarrow> con_state \<Rightarrow> con_state" where
  "backed f s = (if cursor_x s \<ge> 8 then s\<lparr>cursor_x := cursor_x s - 8\<rparr>
     else if cursor_y s \<ge> 16 then s\<lparr>cursor_y := cursor_y s - 16, cursor_x := (fb_width f div 8) * 8 - 8\<rparr> else s)"

lemma line_feed_effect:
  assumes "con_ok f s"
  shows "\<exists>X y. line_feed f s = s\<lparr>con_pix := X, cursor_x := 0, cursor_y := y\<rparr> \<and> length X = length (con_pix s)
    \<and> (if unat (cursor_y s) + 32 > fh f
       then y = cursor_y s \<and> (\<forall>y < fh f. \<forall>x < fw f. X ! (y * fp f + x)
         = (if y + 16 < fh f then con_pix s ! ((y + 16) * fp f + x) else bg_color s))
       else unat y = unat (cursor_y s) + 16 \<and> X = con_pix s)"
proof (cases "unat (cursor_y s) + 32 > fh f")
  case True
  let ?s = "s\<lparr>cursor_x := 0, cursor_y := cursor_y s + 16\<rparr>"
  have g: "geo f ?s" and h: "16 \<le> fh f" and c: "16 \<le> unat (cursor_y ?s)"
    using assms cursor_adv(2) [OF assms] by (simp_all add: con_ok_def)
  obtain X where X: "scroll ?s = ?s\<lparr>con_pix := X, cursor_y := cursor_y ?s - 16\<rparr>" "length X = length (con_pix s)"
      "\<forall>y < fh f. \<forall>x < fw f. X ! (y * fp f + x)
         = (if y + 16 < fh f then con_pix s ! ((y + 16) * fp f + x) else bg_color s)"
    using scroll_effect [OF g h c] by auto
  have "line_feed f s = scroll ?s" using True cursor_adv [OF assms] by (simp add: line_feed_def Let_def)
  then show ?thesis using X True by (intro exI [of _ X] exI [of _ "cursor_y s"]) simp
next
  case False
  then have "line_feed f s = s\<lparr>cursor_x := 0, cursor_y := cursor_y s + 16\<rparr>"
    using cursor_adv [OF assms] by (simp add: line_feed_def Let_def)
  then show ?thesis using False cursor_adv(2) [OF assms]
    by (intro exI [of _ "con_pix s"] exI [of _ "cursor_y s + 16"]) simp
qed

lemma line_feed_ok: "con_ok f s \<Longrightarrow> con_ok f (line_feed f s)"
  using line_feed_effect [of f s] by (auto simp: con_ok_def geo_def split: if_splits)

lemma backed_effect:
  assumes "con_ok f s"
  shows "\<exists>x y. backed f s = s\<lparr>cursor_x := x, cursor_y := y\<rparr>
    \<and> (if unat (cursor_x s) \<ge> 8 then unat x = unat (cursor_x s) - 8 \<and> y = cursor_y s
       else if unat (cursor_y s) \<ge> 16 then unat x = 8 * (fw f div 8) - 8 \<and> unat y = unat (cursor_y s) - 16
       else x = cursor_x s \<and> y = cursor_y s)"
proof -
  have w: "8 \<le> fw f" using assms by (simp add: con_ok_def)
  have d: "unat (fb_width f div 8) = fw f div 8" by (simp add: unat_div)
  have lt: "fw f < 2 ^ LENGTH(64)" by (rule unsigned_less)
  have m: "unat ((fb_width f div 8) * 8) = 8 * (fw f div 8)"
  proof -
    have "fw f div 8 * 8 \<le> fw f" by simp
    then have "fw f div 8 * 8 < 2 ^ LENGTH(64)" using lt by (rule le_less_trans)
    then show ?thesis by (subst unat_mult_no_overflow) (simp_all add: d)
  qed
  have "8 \<le> (fb_width f div 8) * 8" using w by (simp add: word_le_nat_alt m) 
  then have e: "unat ((fb_width f div 8) * 8 - 8) = 8 * (fw f div 8) - 8" by (simp add: unat_sub m)
  have c: "(cursor_x s \<ge> 8) = (unat (cursor_x s) \<ge> 8)" "(cursor_y s \<ge> 16) = (unat (cursor_y s) \<ge> 16)"
    by (simp_all add: word_le_nat_alt)
  show ?thesis
    by (rule exI [of _ "cursor_x (backed f s)"], rule exI [of _ "cursor_y (backed f s)"])
      (simp add: backed_def c e unat_sub)
qed

lemma backed_ok: "con_ok f s \<Longrightarrow> con_ok f (backed f s)"
  using backed_effect [of f s] by (auto simp: con_ok_def split: if_splits)

lemma putc_cases:
  assumes "con_ok f s"
  shows "con_putc c s =
    (if c = 10 then line_feed f s
     else if c = 8 then draw_char 32 (cursor_x (backed f s)) (cursor_y (backed f s)) (backed f s)
     else let s = draw_char c (cursor_x s) (cursor_y s) s in
       if unat (cursor_x s) + 16 > fw f then line_feed f s else s\<lparr>cursor_x := cursor_x s + 8\<rparr>)"
proof -
  have fb: "con_fb s = Some f" using assms by (simp add: con_ok_def geo_def)
  have d: "con_ok f t \<Longrightarrow> con_ok f (draw_char c (cursor_x t) (cursor_y t) t)" for c t
    using con_ok_drawn [OF drawn_char] by (metis con_ok_def)
  let ?b = "draw_char 32 (cursor_x (backed f s)) (cursor_y (backed f s)) (backed f s)"
  have b: "con_backspace s = ?b" by (simp add: con_backspace_def fb backed_def Let_def)
  have "con_ok f ?b" by (intro d backed_ok assms)
  then have 1: "cursor_y ?b + 16 > fb_height f \<longleftrightarrow> False" by (rule cursor_adv(4))
  let ?t = "draw_char c (cursor_x s) (cursor_y s) s"
  note a = cursor_adv [OF d [OF assms, of c]]
  show ?thesis unfolding con_putc_def fb option.case b Let_def
    using 1 a by (auto simp: line_feed_def Let_def)
qed

lemma draw_char_ok: "con_ok f s \<Longrightarrow> con_ok f (draw_char c (cursor_x s) (cursor_y s) s)"
  using con_ok_drawn [OF drawn_char] by (metis con_ok_def)

lemma putc_ok:
  assumes "con_ok f s"
  shows "con_ok f (con_putc c s)"
proof -
  have a: "con_ok f (t\<lparr>cursor_x := cursor_x t + 8\<rparr>)" if "con_ok f t" "\<not> unat (cursor_x t) + 16 > fw f" for t
    using that cursor_adv(1) [OF that(1)] by (simp add: con_ok_def)
  show ?thesis unfolding putc_cases [OF assms] Let_def
    using a [OF draw_char_ok [OF assms]]
    by (auto intro!: line_feed_ok backed_ok draw_char_ok assms)
qed

end
