(* ===== verification/ConsoleProps.thy ===== *)
theory ConsoleProps
  imports ConsoleText
begin

text \<open>
  The console as a terminal: a grid of coloured characters with a cursor, which the pixels show
  (\<open>shows_term\<close>), and the mouse cursor, which leaves the picture under it alone.
\<close>

section \<open>The terminal\<close>

record term_state =
  t_cell :: "nat \<Rightarrow> nat \<Rightarrow> u8 \<times> u32"
  t_row :: nat
  t_col :: nat
  t_fg :: u32

definition term_blank :: "u32 \<Rightarrow> term_state" where
  "term_blank fg = \<lparr>t_cell = (\<lambda>_ _. (32, fg)), t_row = 0, t_col = 0, t_fg = fg\<rparr>"

definition term_put :: "u8 \<Rightarrow> term_state \<Rightarrow> term_state" where
  "term_put c t = t\<lparr>t_cell := (\<lambda>r k. if r = t_row t \<and> k = t_col t then (c, t_fg t) else t_cell t r k)\<rparr>"

definition term_feed :: "nat \<Rightarrow> term_state \<Rightarrow> term_state" where
  "term_feed R t =
     (if Suc (t_row t) < R then t\<lparr>t_col := 0, t_row := Suc (t_row t)\<rparr>
      else t\<lparr>t_col := 0, t_cell := (\<lambda>r k. if Suc r < R then t_cell t (Suc r) k else (32, t_fg t))\<rparr>)"

definition term_back :: "nat \<Rightarrow> term_state \<Rightarrow> term_state" where
  "term_back C t = (if t_col t > 0 then t\<lparr>t_col := t_col t - 1\<rparr>
     else if t_row t > 0 then t\<lparr>t_row := t_row t - 1, t_col := C - 1\<rparr> else t)"

definition term_putc :: "nat \<Rightarrow> nat \<Rightarrow> u8 \<Rightarrow> term_state \<Rightarrow> term_state" where
  "term_putc R C c t =
     (if c = 10 then term_feed R t
      else if c = 8 then term_put 32 (term_back C t)
      else let t = term_put c t in if Suc (t_col t) < C then t\<lparr>t_col := Suc (t_col t)\<rparr> else term_feed R t)"

abbreviation "rows f \<equiv> fh f div 16"
abbreviation "cols f \<equiv> fw f div 8"

text \<open>The colour of a pixel of the text area; below the last full row there is background.\<close>

definition screen_px :: "nat \<Rightarrow> u32 \<Rightarrow> term_state \<Rightarrow> nat \<Rightarrow> nat \<Rightarrow> u32" where
  "screen_px R bg t x y =
     (if y div 16 < R then (case t_cell t (y div 16) (x div 8) of (c, fg) \<Rightarrow> glyph_px fg bg c (x mod 8) (y mod 16)) else bg)"

definition shows_term :: "fbuf \<Rightarrow> con_state \<Rightarrow> term_state \<Rightarrow> bool" where
  "shows_term f s t \<longleftrightarrow> con_ok f s \<and> unat (cursor_x s) = 8 * t_col t \<and> unat (cursor_y s) = 16 * t_row t
     \<and> t_col t < cols f \<and> t_row t < rows f \<and> fg_color s = t_fg t
     \<and> (\<forall>y < fh f. \<forall>x < 8 * cols f. con_pix s ! (y * fp f + x) = screen_px (rows f) (bg_color s) t x y)"

lemma shows_put:
  assumes "shows_term f s t"
  shows "shows_term f (draw_char c (cursor_x s) (cursor_y s) s) (term_put c t)"
proof -
  note sh = assms [unfolded shows_term_def]
  have ok: "con_ok f s" and g: "geo f s" and b: "unat (cursor_x s) + 8 \<le> fw f" "unat (cursor_y s) + 16 \<le> fh f"
    using sh by (auto simp: con_ok_def)
  have "con_pix (draw_char c (cursor_x s) (cursor_y s) s) ! (y * fp f + x) = screen_px (rows f) (bg_color s) (term_put c t) x y"
    if yx: "y < fh f" "x < 8 * cols f" for x y
  proof -
    have cell: "8 * t_col t \<le> x \<and> x < 8 * t_col t + 8 \<longleftrightarrow> x div 8 = t_col t"
      "16 * t_row t \<le> y \<and> y < 16 * t_row t + 16 \<longleftrightarrow> y div 16 = t_row t" by auto
    have x: "x < fw f" using yx(2) by linarith
    have "con_pix (draw_char c (cursor_x s) (cursor_y s) s) ! (y * fp f + x)
      = (if x div 8 = t_col t \<and> y div 16 = t_row t
         then glyph_px (t_fg t) (bg_color s) c (x - 8 * t_col t) (y - 16 * t_row t) else con_pix s ! (y * fp f + x))"
    proof -
      have "(8 * t_col t \<le> x \<and> x < 8 * t_col t + 8 \<and> 16 * t_row t \<le> y \<and> y < 16 * t_row t + 16)
          = (x div 8 = t_col t \<and> y div 16 = t_row t)" using cell by blast
      then show ?thesis using draw_char_pixel [OF g b x yx(1), of c] sh by simp
    qed
    also have "\<dots> = screen_px (rows f) (bg_color s) (term_put c t) x y"
    proof -
      have m: "x div 8 = t_col t \<Longrightarrow> x - 8 * t_col t = x mod 8" "y div 16 = t_row t \<Longrightarrow> y - 16 * t_row t = y mod 16"
        by (metis minus_mult_div_eq_mod)+
      show ?thesis using sh yx m by (simp add: screen_px_def term_put_def)
    qed
    finally show ?thesis .
  qed
  moreover have "fg_color (draw_char c (cursor_x s) (cursor_y s) s) = fg_color s"
    "bg_color (draw_char c (cursor_x s) (cursor_y s) s) = bg_color s"
    "cursor_x (draw_char c (cursor_x s) (cursor_y s) s) = cursor_x s"
    "cursor_y (draw_char c (cursor_x s) (cursor_y s) s) = cursor_y s"
    using drawn_frame [OF drawn_char [OF g b, of c]] by simp_all
  ultimately show ?thesis
    using sh draw_char_ok [OF ok, of c] unfolding shows_term_def by (simp add: term_put_def)
qed

lemma shows_feed:
  assumes "shows_term f s t"
  shows "shows_term f (line_feed f s) (term_feed (rows f) t)"
proof -
  note sh = assms [unfolded shows_term_def]
  have ok: "con_ok f s" and w: "8 \<le> fw f" "16 \<le> fh f" using sh by (auto simp: con_ok_def)
  obtain X y where e: "line_feed f s = s\<lparr>con_pix := X, cursor_x := 0, cursor_y := y\<rparr>"
    "if unat (cursor_y s) + 32 > fh f
       then y = cursor_y s \<and> (\<forall>y < fh f. \<forall>x < fw f. X ! (y * fp f + x)
         = (if y + 16 < fh f then con_pix s ! ((y + 16) * fp f + x) else bg_color s))
       else unat y = unat (cursor_y s) + 16 \<and> X = con_pix s"
    using line_feed_effect [OF ok] by auto
  have full: "unat (cursor_y s) + 32 > fh f \<longleftrightarrow> \<not> Suc (t_row t) < rows f"
    using sh by (simp add: less_eq_div_iff_mult_less_eq less_Suc_eq_le Suc_le_eq [symmetric] not_less_eq_eq) linarith
  have ok': "con_ok f (line_feed f s)" by (rule line_feed_ok [OF ok])
  have c: "0 < cols f" using w by simp
  show ?thesis
  proof (cases "Suc (t_row t) < rows f")
    case True
    then show ?thesis using sh e full ok' c by (simp add: shows_term_def term_feed_def screen_px_def)
  next
    case False
    with full e(2) have y: "y = cursor_y s" and X: "\<And>y x. y < fh f \<Longrightarrow> x < fw f \<Longrightarrow> X ! (y * fp f + x)
         = (if y + 16 < fh f then con_pix s ! ((y + 16) * fp f + x) else bg_color s)" by simp_all
    have "X ! (y * fp f + x) = screen_px (rows f) (bg_color s) (term_feed (rows f) t) x y"
      if yx: "y < fh f" "x < 8 * cols f" for x y
    proof -
      have x: "x < fw f" using yx(2) by linarith
      have d: "(y + 16) div 16 = Suc (y div 16)" "(y + 16) mod 16 = y mod 16" by simp_all
      show ?thesis
      proof (cases "y + 16 < fh f")
        case in_scr: True
        then have "con_pix s ! ((y + 16) * fp f + x) = screen_px (rows f) (bg_color s) t x (y + 16)"
          using sh yx(2) by blast
        then show ?thesis using X [OF yx(1) x] in_scr False
          by (simp add: screen_px_def d term_feed_def glyph_px_space split: prod.splits)
      next
        case out: False
        then have "\<not> Suc (y div 16) < rows f" by (metis d(1) div_le_mono linorder_not_less)
        then show ?thesis using X [OF yx(1) x] out False
          by (simp add: screen_px_def term_feed_def glyph_px_space)
      qed
    qed
    then show ?thesis using sh e(1) ok' c y False by (simp add: shows_term_def term_feed_def)
  qed
qed

lemma shows_back:
  assumes "shows_term f s t"
  shows "shows_term f (backed f s) (term_back (cols f) t)"
proof -
  note sh = assms [unfolded shows_term_def]
  have ok: "con_ok f s" using sh by blast
  obtain x y where e: "backed f s = s\<lparr>cursor_x := x, cursor_y := y\<rparr>"
    "if unat (cursor_x s) \<ge> 8 then unat x = unat (cursor_x s) - 8 \<and> y = cursor_y s
       else if unat (cursor_y s) \<ge> 16 then unat x = 8 * (fw f div 8) - 8 \<and> unat y = unat (cursor_y s) - 16
       else x = cursor_x s \<and> y = cursor_y s"
    using backed_effect [OF ok] by auto
  have "con_ok f (backed f s)" by (rule backed_ok [OF ok])
  moreover have "unat x = 8 * t_col (term_back (cols f) t)" "unat y = 16 * t_row (term_back (cols f) t)"
    using e(2) sh by (auto simp: term_back_def diff_mult_distrib2 split: if_splits)
  moreover have "t_col (term_back (cols f) t) < cols f" "t_row (term_back (cols f) t) < rows f"
    using sh by (auto simp: term_back_def)
  moreover have "t_fg (term_back C t) = t_fg t" "t_cell (term_back C t) = t_cell t" for C
    by (simp_all add: term_back_def)
  ultimately show ?thesis using sh e(1) by (simp add: shows_term_def screen_px_def)
qed

lemma shows_putc:
  assumes "shows_term f s t"
  shows "shows_term f (con_putc c s) (term_putc (rows f) (cols f) c t)"
proof -
  have ok: "con_ok f s" using assms by (simp add: shows_term_def)
  let ?s = "draw_char c (cursor_x s) (cursor_y s) s" and ?t = "term_put c t"
  have p: "shows_term f ?s ?t" by (rule shows_put [OF assms])
  note sh = p [unfolded shows_term_def]
  have full: "unat (cursor_x ?s) + 16 > fw f \<longleftrightarrow> \<not> Suc (t_col ?t) < cols f"
    using sh by (simp add: less_eq_div_iff_mult_less_eq less_Suc_eq_le Suc_le_eq [symmetric] not_less_eq_eq) linarith
  have adv: "shows_term f (?s\<lparr>cursor_x := cursor_x ?s + 8\<rparr>) (?t\<lparr>t_col := Suc (t_col ?t)\<rparr>)" if "Suc (t_col ?t) < cols f"
  proof -
    have "unat (cursor_x ?s + 8) = unat (cursor_x ?s) + 8" using sh by (intro cursor_adv(1) [where f = f]) blast
    moreover from this have "con_ok f (?s\<lparr>cursor_x := cursor_x ?s + 8\<rparr>)" using sh full that by (simp add: con_ok_def)
    ultimately show ?thesis using sh that by (simp add: shows_term_def screen_px_def)
  qed
  show ?thesis
    unfolding putc_cases [OF ok] term_putc_def Let_def
    using shows_feed [OF assms] shows_put [OF shows_back [OF assms], of 32] shows_feed [OF p] adv full by simp
qed

lemma shows_puts: "shows_term f s t \<Longrightarrow> shows_term f (con_puts str s) (fold (term_putc (rows f) (cols f)) str t)"
  unfolding con_puts_def by (induction str arbitrary: s t) (simp_all add: shows_putc)

lemma clear_ok:
  assumes "geo f s" "8 \<le> fw f" "16 \<le> fh f" "\<not> con_ub s" "length (cursor_bg s) = 144"
  shows "con_ok f (con_clear s)"
  using assms(2-) assms(1) [unfolded geo_def] unfolding drawn_clear [OF assms(1)] con_ok_def geo_def by simp

lemma shows_clear:
  assumes "geo f s" "8 \<le> fw f" "16 \<le> fh f" "\<not> con_ub s" "length (cursor_bg s) = 144"
  shows "shows_term f (con_clear s) (term_blank (fg_color s))"
proof -
  have "y * fp f + x < fp f * fh f" if "y < fh f" "x < 8 * cols f" for x y
  proof (rule pix_bound [OF _ that(1)])
    show "x < fp f" using that(2) assms(1) unfolding geo_def by linarith
  qed
  moreover have "0 < cols f" "0 < rows f" using assms(2,3) by (simp_all add: div_greater_zero_iff)
  ultimately show ?thesis using assms clear_ok [OF assms]
    by (simp add: shows_term_def drawn_clear term_blank_def screen_px_def glyph_px_space)
qed

section \<open>The mouse cursor\<close>

lemma draw_pixel_touch:
  assumes "geo f s" "con_ok f s"
  shows "con_ok f (draw_pixel x y c s)"
  using con_ok_drawn [OF drawn_pixel [OF assms(1)]] assms(2) by blast

text \<open>What \<open>save_bg\<close> stores.\<close>

definition under :: "fbuf \<Rightarrow> con_state \<Rightarrow> nat \<Rightarrow> nat \<Rightarrow> u32" where
  "under f s i j = fst (read_pixel (mouse_x s + of_nat i) (mouse_y s + of_nat j) s)"

lemma save_fold:
  assumes "geo f s" "length (cursor_bg s) = 144" "set ps \<subseteq> {0..<12} \<times> {0..<12}"
  shows "\<exists>B. fold (\<lambda>(j, i) s. let (v, s) = read_pixel (mouse_x s + of_nat i) (mouse_y s + of_nat j) s
        in s\<lparr>cursor_bg := (cursor_bg s)[j * CURSOR_W + i := v]\<rparr>) ps s = s\<lparr>cursor_bg := B\<rparr> \<and> length B = 144
      \<and> (\<forall>i < 12. \<forall>j < 12. B ! (j * 12 + i) = (if (j, i) \<in> set ps then under f s i j else cursor_bg s ! (j * 12 + i)))"
  using assms
proof (induction ps rule: rev_induct)
  case Nil
  then show ?case by (intro exI [of _ "cursor_bg s"]) simp
next
  case (snoc p ps)
  obtain j i where p: "p = (j, i)" by (rule prod.exhaust)
  have ji: "j < 12" "i < 12" using snoc.prems(3) p by auto
  obtain B where B: "fold (\<lambda>(j, i) s. let (v, s) = read_pixel (mouse_x s + of_nat i) (mouse_y s + of_nat j) s
        in s\<lparr>cursor_bg := (cursor_bg s)[j * CURSOR_W + i := v]\<rparr>) ps s = s\<lparr>cursor_bg := B\<rparr>" "length B = 144"
      "\<forall>i < 12. \<forall>j < 12. B ! (j * 12 + i) = (if (j, i) \<in> set ps then under f s i j else cursor_bg s ! (j * 12 + i))"
    using snoc by auto
  let ?B = "B[j * 12 + i := under f s i j]"
  have r: "read_pixel x y (s\<lparr>cursor_bg := B\<rparr>) = (fst (read_pixel x y s), s\<lparr>cursor_bg := B\<rparr>)" for x y
    using snoc.prems(1) by (subst (1 2) read_pixel_at [where f = f]) simp_all
  have lt: "j * 12 + i < length B" using B(2) ji by simp
  have "?B ! (j' * 12 + i') = (if (j', i') \<in> set (ps @ [p]) then under f s i' j' else cursor_bg s ! (j' * 12 + i'))"
    if "i' < 12" "j' < 12" for i' j'
    using B(3) that ji lt pix_inj [OF ji(2) that(1), of j j'] by (auto simp: p nth_list_update)
  moreover have "fold (\<lambda>(j, i) s. let (v, s) = read_pixel (mouse_x s + of_nat i) (mouse_y s + of_nat j) s
        in s\<lparr>cursor_bg := (cursor_bg s)[j * CURSOR_W + i := v]\<rparr>) (ps @ [p]) s = s\<lparr>cursor_bg := ?B\<rparr>"
    unfolding fold_append fold_simps comp_apply B(1) p by (simp add: r under_def CURSOR_W_def)
  ultimately show ?case using B(2) by (intro exI [of _ ?B]) simp
qed

lemma cursor_box_set: "set cursor_box = {0..<12} \<times> {0..<12}"
  by (auto simp: cursor_box_def CURSOR_W_def CURSOR_H_def)

lemma save_bg_effect:
  assumes "geo f s" "length (cursor_bg s) = 144"
  shows "\<exists>B. save_bg s = s\<lparr>cursor_bg := B\<rparr> \<and> length B = 144 \<and> (\<forall>i < 12. \<forall>j < 12. B ! (j * 12 + i) = under f s i j)"
  using save_fold [OF assms, of cursor_box] by (simp add: save_bg_def cursor_box_set)

text \<open>The words of the box under the cursor.\<close>

definition in_box :: "fbuf \<Rightarrow> con_state \<Rightarrow> nat \<Rightarrow> bool" where
  "in_box f s k \<longleftrightarrow> (\<exists>i < 12. \<exists>j < 12. at f (mouse_x s + of_nat i) (mouse_y s + of_nat j) k)"

lemma box_pixel:
  assumes "geo f t" "mouse_x t = mouse_x s" "mouse_y t = mouse_y s"
    and "x = mouse_x s + of_nat i" "y = mouse_y s + of_nat j" "i < 12" "j < 12"
  shows "\<exists>img. drawn t (draw_pixel x y c t) img \<and> (\<forall>k. img k \<noteq> None \<longrightarrow> in_box f s k)"
  by (rule exI, rule conjI, rule drawn_pixel [OF assms(1)]) (use assms(4-7) in \<open>auto simp: in_box_def split: if_splits\<close>)

text \<open>A drawing that stays in the box.\<close>

definition boxed :: "fbuf \<Rightarrow> con_state \<Rightarrow> con_state \<Rightarrow> con_state \<Rightarrow> bool" where
  "boxed f s t t' \<longleftrightarrow> (\<exists>img. drawn t t' img \<and> (\<forall>k. img k \<noteq> None \<longrightarrow> in_box f s k))"

lemma boxed_refl: "boxed f s t t"
  unfolding boxed_def using drawn_refl by blast

lemma boxed_pixel:
  assumes "boxed f s s t" "geo f s" "x = mouse_x s + of_nat i" "y = mouse_y s + of_nat j" "i < 12" "j < 12"
  shows "boxed f s s (draw_pixel x y c t)"
proof -
  obtain img where d: "drawn s t img" "\<forall>k. img k \<noteq> None \<longrightarrow> in_box f s k" using assms(1) by (auto simp: boxed_def)
  have "geo f t" "mouse_x t = mouse_x s" "mouse_y t = mouse_y s" using d(1) assms(2) by (simp_all add: drawn_geo drawn_frame)
  then obtain img' where d': "drawn t (draw_pixel x y c t) img'" "\<forall>k. img' k \<noteq> None \<longrightarrow> in_box f s k"
    using box_pixel assms(3-6) by blast
  have "drawn s (draw_pixel x y c t) (over img img')" by (rule drawn_trans [OF d(1) d'(1)])
  moreover have "\<forall>k. over img img' k \<noteq> None \<longrightarrow> in_box f s k"
    using d(2) d'(2) by (auto simp: over_def split: option.splits)
  ultimately show ?thesis unfolding boxed_def by blast
qed

lemma shape_boxed:
  assumes "geo f s"
  shows "boxed f s s (draw_cursor_shape s)"
proof -
  have r: "[1..<4] = [1, 2, 3 :: nat]" "[1..<5] = [1, 2, 3, 4 :: nat]" by (simp_all add: upt_rec)
  have p: "mouse_x s + 6 + 1 = mouse_x s + of_nat 7" "mouse_x s + 6 + 2 = mouse_x s + of_nat 8"
    "mouse_x s + 6 + 3 = mouse_x s + of_nat 9" "mouse_x s + 6 + 4 = mouse_x s + of_nat 10"
    "mouse_x s + 6 - 1 = mouse_x s + of_nat 5" "mouse_x s + 6 - 2 = mouse_x s + of_nat 4"
    "mouse_x s + 6 - 3 = mouse_x s + of_nat 3" "mouse_x s + 6 - 4 = mouse_x s + of_nat 2" "mouse_x s + 6 = mouse_x s + of_nat 6"
    by simp_all
  have q: "mouse_y s + 6 + 1 = mouse_y s + of_nat 7" "mouse_y s + 6 + 2 = mouse_y s + of_nat 8"
    "mouse_y s + 6 + 3 = mouse_y s + of_nat 9" "mouse_y s + 6 + 4 = mouse_y s + of_nat 10"
    "mouse_y s + 6 - 1 = mouse_y s + of_nat 5" "mouse_y s + 6 - 2 = mouse_y s + of_nat 4"
    "mouse_y s + 6 - 3 = mouse_y s + of_nat 3" "mouse_y s + 6 - 4 = mouse_y s + of_nat 2" "mouse_y s + 6 = mouse_y s + of_nat 6"
    by simp_all
  have n: "of_nat (CURSOR_W div 2) = (6 :: u32)" "of_nat (CURSOR_H div 2) = (6 :: u32)"
    "of_nat (1 :: nat) = (1 :: u32)" "of_nat (2 :: nat) = (2 :: u32)" "of_nat (3 :: nat) = (3 :: u32)" "of_nat (4 :: nat) = (4 :: u32)"
    by (simp_all add: CURSOR_W_def CURSOR_H_def)
  show ?thesis
    unfolding draw_cursor_shape_def Let_def r fold_simps n unfolding p(1-8) q(1-8) unfolding p(9) q(9)
    by (intro boxed_pixel [OF _ assms refl refl] boxed_refl; simp)
qed

lemma drawn_restore:
  assumes "geo f s"
  shows "drawn s (restore_bg s) (overlay (\<lambda>(j, i) k. if at f (mouse_x s + of_nat i) (mouse_y s + of_nat j) k
    then Some (cursor_bg s ! (j * 12 + i)) else None) cursor_box)"
  unfolding restore_bg_def
proof (rule drawn_fold [OF _ assms])
  fix p :: "nat \<times> nat" and t assume g: "geo f t" and t: "t = s\<lparr>con_pix := con_pix t\<rparr>"
  obtain j i where p: "p = (j, i)" by (rule prod.exhaust)
  have "mouse_x t = mouse_x s" "mouse_y t = mouse_y s" "cursor_bg t = cursor_bg s" by (subst t, simp)+
  then show "drawn t ((\<lambda>(j, i) s. draw_pixel (mouse_x s + of_nat i) (mouse_y s + of_nat j) (cursor_bg s ! (j * CURSOR_W + i)) s) p t)
      ((\<lambda>(j, i) k. if at f (mouse_x s + of_nat i) (mouse_y s + of_nat j) k
        then Some (cursor_bg s ! (j * 12 + i)) else None) p)"
    using drawn_pixel [OF g, of "mouse_x s + of_nat i" "mouse_y s + of_nat j" "cursor_bg s ! (j * 12 + i)"]
    by (simp add: p CURSOR_W_def)
qed

lemma under_at: "geo f s \<Longrightarrow> at f (mouse_x s + of_nat i) (mouse_y s + of_nat j) k \<Longrightarrow> under f s i j = con_pix s ! k"
  by (simp add: under_def read_pixel_at at_def)

lemma show_effect:
  assumes g: "geo f s" and B: "length (cursor_bg s) = 144" and v: "\<not> mouse_visible s"
  shows "\<exists>B X. show_cursor s = s\<lparr>cursor_bg := B, con_pix := X, mouse_visible := True\<rparr> \<and> length B = 144
    \<and> length X = length (con_pix s) \<and> (\<forall>i < 12. \<forall>j < 12. B ! (j * 12 + i) = under f s i j)
    \<and> (\<forall>k < length X. \<not> in_box f s k \<longrightarrow> X ! k = con_pix s ! k)"
proof -
  obtain B where B: "save_bg s = s\<lparr>cursor_bg := B\<rparr>" "length B = 144" "\<forall>i < 12. \<forall>j < 12. B ! (j * 12 + i) = under f s i j"
    using save_bg_effect [OF g B] by blast
  let ?s = "s\<lparr>cursor_bg := B\<rparr>"
  have "boxed f ?s ?s (draw_cursor_shape ?s)" using g by (intro shape_boxed) simp
  then obtain img where img: "drawn ?s (draw_cursor_shape ?s) img" "\<forall>k. img k \<noteq> None \<longrightarrow> in_box f ?s k"
    by (auto simp: boxed_def)
  then obtain X where X: "draw_cursor_shape ?s = ?s\<lparr>con_pix := X\<rparr>" "length X = length (con_pix s)"
      "\<forall>k < length X. X ! k = (case img k of None \<Rightarrow> con_pix s ! k | Some v \<Rightarrow> v)"
    unfolding drawn_def by (auto cong: option.case_cong)
  have "X ! k = con_pix s ! k" if "k < length X" "\<not> in_box f s k" for k
  proof -
    have "\<not> in_box f ?s k" using that(2) by (simp add: in_box_def)
    then have "img k = None" using img(2) by blast
    then show ?thesis using X(3) that(1) by simp
  qed
  then show ?thesis using B X(1,2) v by (intro exI [of _ B] exI [of _ X]) (simp add: show_cursor_def)
qed

lemma show_hide:
  assumes g: "geo f s" and B: "length (cursor_bg s) = 144" and v: "\<not> mouse_visible s"
  shows "\<exists>B. hide_cursor (show_cursor s) = s\<lparr>cursor_bg := B\<rparr> \<and> length B = 144"
proof -
  obtain B X where S: "show_cursor s = s\<lparr>cursor_bg := B, con_pix := X, mouse_visible := True\<rparr>" "length B = 144"
    "length X = length (con_pix s)" "\<forall>i < 12. \<forall>j < 12. B ! (j * 12 + i) = under f s i j"
    "\<forall>k < length X. \<not> in_box f s k \<longrightarrow> X ! k = con_pix s ! k" using show_effect [OF assms] by blast
  let ?s = "s\<lparr>cursor_bg := B, con_pix := X, mouse_visible := True\<rparr>"
  let ?img = "\<lambda>(j, i) k. if at f (mouse_x s + of_nat i) (mouse_y s + of_nat j) k then Some (B ! (j * 12 + i)) else None"
  have "geo f ?s" using g S(3) by (simp add: geo_def)
  from drawn_restore [OF this] have d: "drawn ?s (restore_bg ?s) (overlay ?img cursor_box)" by (simp cong: if_cong)
  have o: "overlay ?img cursor_box k = (if in_box f s k then Some (con_pix s ! k) else None)" for k
  proof (cases "in_box f s k")
    case True
    then obtain i j where ij: "i < 12" "j < 12" "at f (mouse_x s + of_nat i) (mouse_y s + of_nat j) k" by (auto simp: in_box_def)
    have b: "B ! (j * 12 + i) = con_pix s ! k" if "i < 12" "j < 12" "at f (mouse_x s + of_nat i) (mouse_y s + of_nat j) k" for i j
      using S(4) that under_at [OF g that(3)] by simp
    have "overlay ?img cursor_box k = Some (con_pix s ! k)"
      using ij b by (intro overlay_Some [of "(j, i)"]) (auto simp: cursor_box_set split: if_splits)
    then show ?thesis using True by simp
  next
    case False
    then have "overlay ?img cursor_box k = None"
      by (intro overlay_None) (auto simp: cursor_box_set in_box_def)
    then show ?thesis using False by simp
  qed
  obtain Y where Y': "restore_bg ?s = ?s\<lparr>con_pix := Y\<rparr>" "length Y = length (con_pix ?s)"
      "\<forall>k < length Y. Y ! k = (case overlay ?img cursor_box k of None \<Rightarrow> con_pix ?s ! k | Some v \<Rightarrow> v)"
    using d unfolding drawn_def by blast
  have Y: "Y ! k = (if in_box f s k then con_pix s ! k else X ! k)" if "k < length X" for k
    using Y'(2,3) that unfolding o by (simp split: if_splits)
  have "length Y = length X" using Y'(2) by simp
  then have "Y = con_pix s"
    using Y S(3,5) by (intro nth_equalityI) (auto split: if_splits)
  then show ?thesis using S(1,2) Y'(1) v by (intro exI [of _ B]) (simp add: hide_cursor_def)
qed

section \<open>Every operation keeps the screen\<close>

lemma rect_ok: "con_ok f s \<Longrightarrow> con_ok f (draw_rect x y w h c s)"
proof -
  have f: "(\<And>i t. con_ok f t \<Longrightarrow> con_ok f (g i t)) \<Longrightarrow> con_ok f t \<Longrightarrow> con_ok f (fold g is t)" for g t and "is" :: "nat list"
    by (induction "is" arbitrary: t) simp_all
  show "con_ok f s \<Longrightarrow> con_ok f (draw_rect x y w h c s)"
    unfolding draw_rect_def by (intro f draw_pixel_touch) (simp_all add: con_ok_def)
qed

lemma puts_ok: "con_ok f s \<Longrightarrow> con_ok f (con_puts str s)"
  unfolding con_puts_def by (induction str arbitrary: s) (simp_all add: putc_ok)

lemma backspace_ok: "con_ok f s \<Longrightarrow> con_ok f (con_backspace s)"
proof -
  assume ok: "con_ok f s"
  then have "con_backspace s = draw_char 32 (cursor_x (backed f s)) (cursor_y (backed f s)) (backed f s)"
    by (simp add: con_backspace_def con_ok_def geo_def backed_def Let_def)
  then show ?thesis using ok by (simp add: draw_char_ok backed_ok)
qed

lemma show_ok: "con_ok f s \<Longrightarrow> con_ok f (show_cursor s)"
proof (cases "mouse_visible s")
  case False
  assume ok: "con_ok f s"
  then have "geo f s" "length (cursor_bg s) = 144" by (simp_all add: con_ok_def)
  from show_effect [OF this False] ok show ?thesis by (auto simp: con_ok_def geo_def)
qed (simp add: show_cursor_def)

lemma hide_ok: "con_ok f s \<Longrightarrow> con_ok f (hide_cursor s)"
proof -
  assume ok: "con_ok f s"
  then have "con_ok f (restore_bg s)" using con_ok_drawn [OF drawn_restore] con_ok_def by blast
  then show ?thesis using ok by (simp add: hide_cursor_def con_ok_def geo_def)
qed

lemma move_ok: "con_ok f s \<Longrightarrow> con_ok f (move_cursor x y s)"
proof -
  assume ok: "con_ok f s"
  then have "con_ok f ((hide_cursor s)\<lparr>mouse_x := a, mouse_y := b\<rparr>)" for a b
    using hide_ok [OF ok] by (simp add: con_ok_def)
  then have m: "con_ok f (show_cursor ((hide_cursor s)\<lparr>mouse_x := a, mouse_y := b\<rparr>))" for a b by (rule show_ok)
  have fb: "con_fb s = Some f" using ok by (simp add: con_ok_def geo_def)
  show ?thesis unfolding move_cursor_def fb option.case Let_def by (rule m)
qed

section \<open>Properties\<close>

text \<open>C38. On a framebuffer with room for a character, every operation keeps the console well-formed:
  no operation, on any arguments, writes outside the memory of the framebuffer, and the text cursor
  stays where a whole character fits.\<close>

theorem console_well_formed:
  assumes "con_ok f s"
  shows "con_ok f (con_putc c s) \<and> con_ok f (con_puts str s) \<and> con_ok f (con_backspace s) \<and> con_ok f (con_clear s)
    \<and> con_ok f (set_color fg bg s) \<and> con_ok f (draw_pixel x y v s) \<and> con_ok f (draw_rect x y w h v s)
    \<and> con_ok f (show_cursor s) \<and> con_ok f (hide_cursor s) \<and> con_ok f (move_cursor x y s) \<and> con_ok f (move_cursor_rel x y s)"
proof (intro conjI)
  have s: "geo f s" "8 \<le> fw f" "16 \<le> fh f" "\<not> con_ub s" "length (cursor_bg s) = 144"
    using assms by (auto simp: con_ok_def)
  show "con_ok f (con_clear s)" by (rule clear_ok [OF s])
  show "con_ok f (draw_pixel x y v s)" by (rule draw_pixel_touch [OF s(1) assms])
  show "con_ok f (set_color fg bg s)" using assms by (simp add: set_color_def con_ok_def)
qed (simp_all add: assms putc_ok puts_ok backspace_ok rect_ok show_ok hide_ok move_ok move_cursor_rel_def)

definition demo_fb :: fbuf where "demo_fb = \<lparr>fb_width = 20, fb_height = 40, fb_pitch = 96\<rparr>"

definition demo_con :: con_state where
  "demo_con = con_boot\<lparr>con_fb := Some demo_fb, con_pix := replicate 960 7\<rparr>"

lemma demo_geo: "geo demo_fb demo_con" "8 \<le> fw demo_fb" "16 \<le> fh demo_fb" "\<not> con_ub demo_con" "length (cursor_bg demo_con) = 144"
  by (simp_all add: geo_def demo_con_def demo_fb_def con_boot_def words_per_row_def)

theorem console_well_formed_witness:
  "con_ok demo_fb (con_putc 65 (con_clear demo_con)) \<and> con_ok demo_fb (move_cursor 0xFFFFFFF0 5000 (con_clear demo_con))"
  using console_well_formed [OF clear_ok [OF demo_geo]] by blast

text \<open>C37. The console refines a character terminal: clearing shows the blank terminal, and after any
  string the pixels show exactly what the terminal holds, scrolling and backspace included.\<close>

theorem console_refines_terminal:
  assumes "geo f s" "8 \<le> fw f" "16 \<le> fh f" "\<not> con_ub s" "length (cursor_bg s) = 144"
  shows "shows_term f (con_clear s) (term_blank (fg_color s))
    \<and> shows_term f (con_puts str (con_clear s)) (fold (term_putc (rows f) (cols f)) str (term_blank (fg_color s)))
    \<and> (\<forall>s t str. shows_term f s t \<longrightarrow> shows_term f (con_puts str s) (fold (term_putc (rows f) (cols f)) str t))"
  using shows_clear [OF assms] shows_puts by blast

theorem console_refines_terminal_witness:
  "shows_term demo_fb (con_puts [65, 66, 67, 68, 69, 8] (con_clear demo_con))
     (fold (term_putc 2 2) [65, 66, 67, 68, 69, 8] (term_blank 0xFFFFFFFF))
   \<and> t_cell (fold (term_putc 2 2) [65, 66, 67, 68, 69, 8] (term_blank 0xFFFFFFFF)) 0 1 = (68, 0xFFFFFFFF)"
proof
  have "rows demo_fb = 2" "cols demo_fb = 2" "fg_color demo_con = 0xFFFFFFFF"
    by (simp_all add: demo_fb_def demo_con_def con_boot_def)
  with console_refines_terminal [OF demo_geo, of "[65, 66, 67, 68, 69, 8]"]
  show "shows_term demo_fb (con_puts [65, 66, 67, 68, 69, 8] (con_clear demo_con))
     (fold (term_putc 2 2) [65, 66, 67, 68, 69, 8] (term_blank 0xFFFFFFFF))" by simp
qed (simp add: term_putc_def term_put_def term_feed_def term_back_def term_blank_def Let_def)

text \<open>The mouse cursor leaves the picture alone: hiding it after showing it restores every pixel,
  and the picture under it is the same before and after a move to anywhere.\<close>

theorem mouse_cursor_restores:
  assumes "geo f s" "length (cursor_bg s) = 144"
  shows "(\<not> mouse_visible s \<longrightarrow> con_pix (hide_cursor (show_cursor s)) = con_pix s)
    \<and> (con_ok f s \<longrightarrow> con_pix (hide_cursor (move_cursor x y s)) = con_pix (hide_cursor s))"
proof (intro conjI impI)
  assume "\<not> mouse_visible s"
  from show_hide [OF assms this] show "con_pix (hide_cursor (show_cursor s)) = con_pix s" by auto
next
  assume ok: "con_ok f s"
  have r: "con_pix (hide_cursor (show_cursor ((hide_cursor s)\<lparr>mouse_x := a, mouse_y := b\<rparr>))) = con_pix (hide_cursor s)" for a b
  proof -
    let ?s = "(hide_cursor s)\<lparr>mouse_x := a, mouse_y := b\<rparr>"
    have "geo f ?s" "length (cursor_bg ?s) = 144" using hide_ok [OF ok] by (simp_all add: con_ok_def)
    moreover have "\<not> mouse_visible ?s" by (simp add: hide_cursor_def)
    ultimately obtain B where "hide_cursor (show_cursor ?s) = ?s\<lparr>cursor_bg := B\<rparr>" using show_hide by blast
    then show ?thesis by simp
  qed
  show "con_pix (hide_cursor (move_cursor x y s)) = con_pix (hide_cursor s)"
    unfolding move_cursor_def geo_fb [OF assms(1)] option.case Let_def by (rule r)
qed

theorem mouse_cursor_restores_witness:
  "con_pix (hide_cursor (show_cursor demo_con)) = replicate 960 7"
proof -
  have "\<not> mouse_visible demo_con" "con_pix demo_con = replicate 960 7" by (simp_all add: demo_con_def con_boot_def)
  with mouse_cursor_restores [OF demo_geo(1,5)] show ?thesis by metis
qed

end
