(* ===== verification/Pci.thy ===== *)
theory Pci
  imports Fmt
begin

text \<open>
  The PCI bus, \<open>drivers/pci.cpp\<close>: configuration accesses through the ports 0xCF8 and 0xCFC, which
  are a parameter, the scan of all buses into the table of 256 devices, and the lookups.
  The table is the list of its first \<open>device_count\<close> entries; a new entry has all its fields set.
\<close>

section \<open>Configuration space\<close>

record 'd pci_ports =
  pci_outl :: "'d \<Rightarrow> u16 \<Rightarrow> u32 \<Rightarrow> 'd"
  pci_inl :: "'d \<Rightarrow> u16 \<Rightarrow> u32 \<times> 'd"

definition config_address :: "u8 \<Rightarrow> u8 \<Rightarrow> u8 \<Rightarrow> u8 \<Rightarrow> u32" where
  "config_address bus slot func offset =
     push_bit 31 1 OR push_bit 16 (ucast bus) OR push_bit 11 (ucast slot) OR push_bit 8 (ucast func)
     OR (ucast offset AND 0xFC)"

definition read_config :: "'d pci_ports \<Rightarrow> 'd \<Rightarrow> u8 \<Rightarrow> u8 \<Rightarrow> u8 \<Rightarrow> u8 \<Rightarrow> u32 \<times> 'd" where
  "read_config io d bus slot func offset =
     (let d = pci_outl io d 0xCF8 (config_address bus slot func offset) in pci_inl io d 0xCFC)"

definition write_config :: "'d pci_ports \<Rightarrow> 'd \<Rightarrow> u8 \<Rightarrow> u8 \<Rightarrow> u8 \<Rightarrow> u8 \<Rightarrow> u32 \<Rightarrow> 'd" where
  "write_config io d bus slot func offset v =
     (let d = pci_outl io d 0xCF8 (config_address bus slot func offset) in pci_outl io d 0xCFC v)"

section \<open>The scan\<close>

record pci_device =
  pd_bus :: u8
  pd_slot :: u8
  pd_func :: u8
  pd_vendor_id :: u16
  pd_device_id :: u16
  pd_class_code :: u8
  pd_subclass :: u8
  pd_prog_if :: u8
  pd_revision :: u8
  pd_header_type :: u8
  pd_bar :: "u32 list"
  pd_irq_line :: u8
  pd_irq_pin :: u8

text \<open>\<open>(v >> k) & 0xFF\<close> and the vendor id.\<close>

definition byte_at :: "nat \<Rightarrow> u32 \<Rightarrow> u8" where "byte_at k v = ucast (drop_bit k v AND 0xFF)"
definition vendor_of :: "u32 \<Rightarrow> u16" where "vendor_of v = ucast (v AND 0xFFFF)"

fun read_bars :: "'d pci_ports \<Rightarrow> 'd \<Rightarrow> u8 \<Rightarrow> u8 \<Rightarrow> u8 \<Rightarrow> nat list \<Rightarrow> u32 list \<times> 'd" where
  "read_bars io d bus slot func [] = ([], d)"
| "read_bars io d bus slot func (i # is) =
     (let (v, d) = read_config io d bus slot func (of_nat (0x10 + i * 4));
          (vs, d) = read_bars io d bus slot func is in (v # vs, d))"

definition scan_function :: "'d pci_ports \<Rightarrow> u8 \<Rightarrow> u8 \<Rightarrow> u8 \<Rightarrow> pci_device list \<times> 'd \<Rightarrow> pci_device list \<times> 'd" where
  "scan_function io bus slot func = (\<lambda>(devices, d).
     let (reg0, d) = read_config io d bus slot func 0x00; vendor_id = vendor_of reg0 in
     if vendor_id = 0xFFFF then (devices, d)
     else if length devices \<ge> 256 then (devices, d)
     else let (reg8, d) = read_config io d bus slot func 0x08;
              (regC, d) = read_config io d bus slot func 0x0C;
              header_type = byte_at 16 regC;
              (bars, d) = (if header_type AND 0x7F = 0 then read_bars io d bus slot func [0..<6]
                           else (replicate 6 0, d));
              (reg3C, d) = read_config io d bus slot func 0x3C
          in (devices @ [\<lparr>pd_bus = bus, pd_slot = slot, pd_func = func, pd_vendor_id = vendor_id,
                pd_device_id = ucast (drop_bit 16 reg0 AND 0xFFFF), pd_class_code = byte_at 24 reg8,
                pd_subclass = byte_at 16 reg8, pd_prog_if = byte_at 8 reg8, pd_revision = byte_at 0 reg8,
                pd_header_type = header_type, pd_bar = bars, pd_irq_line = byte_at 0 reg3C, pd_irq_pin = byte_at 8 reg3C\<rparr>], d))"

definition scan_func_if_present :: "'d pci_ports \<Rightarrow> u8 \<Rightarrow> u8 \<Rightarrow> u8 \<Rightarrow> pci_device list \<times> 'd \<Rightarrow> pci_device list \<times> 'd" where
  "scan_func_if_present io bus slot func = (\<lambda>(devices, d).
     let (reg, d) = read_config io d bus slot func 0x00 in
     if vendor_of reg \<noteq> 0xFFFF then scan_function io bus slot func (devices, d) else (devices, d))"

definition scan_slot :: "'d pci_ports \<Rightarrow> u8 \<Rightarrow> u8 \<Rightarrow> pci_device list \<times> 'd \<Rightarrow> pci_device list \<times> 'd" where
  "scan_slot io bus slot = (\<lambda>(devices, d).
     let (reg0, d) = read_config io d bus slot 0 0x00 in
     if vendor_of reg0 = 0xFFFF then (devices, d)
     else let (devices, d) = scan_function io bus slot 0 (devices, d);
              (regC, d) = read_config io d bus slot 0 0x0C in
          if byte_at 16 regC AND 0x80 \<noteq> 0
          then fold (\<lambda>func. scan_func_if_present io bus slot (of_nat func)) [1..<8] (devices, d)
          else (devices, d))"

definition pci_init :: "'d pci_ports \<Rightarrow> 'd \<Rightarrow> pci_device list \<times> 'd" where
  "pci_init io d =
     fold (\<lambda>bus. fold (\<lambda>slot. scan_slot io (of_nat bus) (of_nat slot)) [0..<32]) [0..<256] ([], d)"

section \<open>Lookups\<close>

definition pci_device_count :: "pci_device list \<Rightarrow> nat" where "pci_device_count ds = length ds"

definition pci_get_device :: "pci_device list \<Rightarrow> int \<Rightarrow> pci_device option" where
  "pci_get_device ds index = (if index < 0 \<or> index \<ge> int (pci_device_count ds) then None else Some (ds ! nat index))"

fun find_by_class :: "pci_device list \<Rightarrow> u8 \<Rightarrow> u8 \<Rightarrow> pci_device option" where
  "find_by_class [] class_code subclass = None"
| "find_by_class (d # ds) class_code subclass =
     (if pd_class_code d = class_code \<and> pd_subclass d = subclass then Some d else find_by_class ds class_code subclass)"

definition class_name :: "u8 \<Rightarrow> u8 \<Rightarrow> cstr" where
  "class_name c s = ascii
     (if c = 0x00 then ''Unclassified''
      else if c = 0x01 then
        (if s = 0x00 then ''SCSI controller'' else if s = 0x01 then ''IDE controller''
         else if s = 0x06 then ''SATA controller'' else ''Storage controller'')
      else if c = 0x02 then (if s = 0x00 then ''Ethernet'' else ''Network controller'')
      else if c = 0x03 then (if s = 0x00 then ''VGA controller'' else ''Display controller'')
      else if c = 0x04 then ''Multimedia device''
      else if c = 0x05 then ''Memory controller''
      else if c = 0x06 then
        (if s = 0x00 then ''Host bridge'' else if s = 0x01 then ''ISA bridge''
         else if s = 0x04 then ''PCI bridge'' else ''Bridge'')
      else if c = 0x07 then ''Communication controller''
      else if c = 0x08 then ''System peripheral''
      else if c = 0x09 then ''Input device''
      else if c = 0x0A then ''Docking station''
      else if c = 0x0B then ''Processor''
      else if c = 0x0C then (if s = 0x03 then ''USB controller'' else ''Serial bus controller'')
      else if c = 0x0D then ''Wireless controller''
      else if c = 0x0E then ''Intelligent I/O''
      else if c = 0x0F then ''Satellite controller''
      else if c = 0x10 then ''Encryption controller''
      else if c = 0x11 then ''Signal processing''
      else ''Unknown'')"

text \<open>The listing, as the bytes put to the console.\<close>

definition pci_line :: "pci_device \<Rightarrow> cstr" where
  "pci_line d = print_hex8 (pd_bus d) @ ascii '':'' @ print_hex8 (pd_slot d) @ ascii ''.'' @ [hex_digit (unat (pd_func d))]
     @ ascii ''  '' @ print_hex16 (pd_vendor_id d) @ ascii '' '' @ print_hex16 (pd_device_id d) @ ascii '' ''
     @ print_hex8 (pd_class_code d) @ ascii '':'' @ print_hex8 (pd_subclass d) @ ascii '' ''
     @ class_name (pd_class_code d) (pd_subclass d) @ [10]"

definition pci_print_all :: "pci_device list \<Rightarrow> cstr" where
  "pci_print_all ds = ascii ''PCI devices: '' @ print_dec (of_nat (pci_device_count ds)) @ [10, 10]
     @ ascii ''BDF      Vendor Device Class          Description'' @ [10]
     @ ascii ''--------------------------------------------------------'' @ [10]
     @ concat (map pci_line ds)"

section \<open>What the scan finds\<close>

text \<open>The configuration mechanism: after its address was written, a register reads as its contents.\<close>

definition config_reads :: "'d pci_ports \<Rightarrow> (u32 \<Rightarrow> u32) \<Rightarrow> bool" where
  "config_reads io cfg \<longleftrightarrow> (\<forall>d a. fst (pci_inl io (pci_outl io d 0xCF8 a) 0xCFC) = cfg a)"

definition reg :: "(u32 \<Rightarrow> u32) \<Rightarrow> u8 \<Rightarrow> u8 \<Rightarrow> u8 \<Rightarrow> u8 \<Rightarrow> u32" where
  "reg cfg bus slot func offset = cfg (config_address bus slot func offset)"

definition present :: "(u32 \<Rightarrow> u32) \<Rightarrow> u8 \<Rightarrow> u8 \<Rightarrow> u8 \<Rightarrow> bool" where
  "present cfg bus slot func \<longleftrightarrow> vendor_of (reg cfg bus slot func 0) \<noteq> 0xFFFF"

definition device_at :: "(u32 \<Rightarrow> u32) \<Rightarrow> u8 \<Rightarrow> u8 \<Rightarrow> u8 \<Rightarrow> pci_device" where
  "device_at cfg bus slot func =
     (let r = reg cfg bus slot func; header_type = byte_at 16 (r 0x0C) in
      \<lparr>pd_bus = bus, pd_slot = slot, pd_func = func, pd_vendor_id = vendor_of (r 0),
       pd_device_id = ucast (drop_bit 16 (r 0) AND 0xFFFF), pd_class_code = byte_at 24 (r 8),
       pd_subclass = byte_at 16 (r 8), pd_prog_if = byte_at 8 (r 8), pd_revision = byte_at 0 (r 8),
       pd_header_type = header_type,
       pd_bar = (if header_type AND 0x7F = 0 then map r [0x10, 0x14, 0x18, 0x1C, 0x20, 0x24] else replicate 6 0),
       pd_irq_line = byte_at 0 (r 0x3C), pd_irq_pin = byte_at 8 (r 0x3C)\<rparr>)"

text \<open>The functions of a slot that answer: function 0, and the others only behind a multi-function
  device.\<close>

definition slot_devices :: "(u32 \<Rightarrow> u32) \<Rightarrow> u8 \<Rightarrow> u8 \<Rightarrow> pci_device list" where
  "slot_devices cfg bus slot =
     (if present cfg bus slot 0
      then map (device_at cfg bus slot) (0 # (if byte_at 16 (reg cfg bus slot 0 0x0C) AND 0x80 \<noteq> 0
        then filter (present cfg bus slot) [1, 2, 3, 4, 5, 6, 7] else []))
      else [])"

definition bus_devices :: "(u32 \<Rightarrow> u32) \<Rightarrow> pci_device list" where
  "bus_devices cfg = concat (map (\<lambda>bus. concat (map (\<lambda>slot. slot_devices cfg (of_nat bus) (of_nat slot)) [0..<32])) [0..<256])"

text \<open>A step of the scan adds devices while there is room.\<close>

definition adds :: "(pci_device list \<times> 'd \<Rightarrow> pci_device list \<times> 'd) \<Rightarrow> pci_device list \<Rightarrow> bool" where
  "adds step xs \<longleftrightarrow> (\<forall>ds d. length ds \<le> 256 \<longrightarrow> fst (step (ds, d)) = take 256 (ds @ xs))"

lemma take_256_append: "take 256 (take 256 xs @ ys) = take 256 (xs @ ys)"
  by (simp add: min_def not_le)

lemma adds_fold: "(\<And>i. i \<in> set is \<Longrightarrow> adds (step i) (f i)) \<Longrightarrow> adds (fold step is) (concat (map f is))"
proof (induction "is")
  case (Cons i "is")
  then have 1: "adds (step i) (f i)" and 2: "adds (fold step is) (concat (map f is))" by simp_all
  show ?case unfolding adds_def
  proof (intro allI impI)
    fix ds :: "pci_device list" and d assume l: "length ds \<le> 256"
    obtain ds' d' where e: "step i (ds, d) = (ds', d')" by (rule prod.exhaust)
    from 1 l have "fst (step i (ds, d)) = take 256 (ds @ f i)" unfolding adds_def by blast
    then have "ds' = take 256 (ds @ f i)" by (simp add: e)
    moreover from this have "length ds' \<le> 256" by simp
    with 2 have "fst (fold step is (ds', d')) = take 256 (ds' @ concat (map f is))" unfolding adds_def by blast
    ultimately have "fst (fold step is (ds', d')) = take 256 (take 256 (ds @ f i) @ concat (map f is))" by simp
    also have "\<dots> = take 256 (ds @ concat (map f (i # is)))" unfolding take_256_append by simp
    finally show "fst (fold step (i # is) (ds, d)) = take 256 (ds @ concat (map f (i # is)))"
      by (simp add: e)
  qed
qed (simp add: adds_def)

lemma read_config_reg: "config_reads io cfg \<Longrightarrow> \<exists>d'. read_config io d b s f off = (reg cfg b s f off, d')"
  by (simp add: read_config_def reg_def config_reads_def Let_def prod_eq_iff)

lemma read_bars_reg: "config_reads io cfg \<Longrightarrow>
    \<exists>d'. read_bars io d b s f is = (map (\<lambda>i. reg cfg b s f (of_nat (0x10 + i * 4))) is, d')"
proof (induction "is" arbitrary: d)
  case (Cons i "is")
  obtain d1 where 1: "read_config io d b s f (of_nat (0x10 + i * 4)) = (reg cfg b s f (of_nat (0x10 + i * 4)), d1)"
    using read_config_reg [OF Cons.prems] by blast
  obtain d2 where 2: "read_bars io d1 b s f is = (map (\<lambda>i. reg cfg b s f (of_nat (0x10 + i * 4))) is, d2)"
    using Cons by blast
  show ?case unfolding read_bars.simps 1 Let_def split 2 by simp
qed simp

lemma scan_function_adds:
  assumes c: "config_reads io cfg"
  shows "adds (scan_function io b s f) (if present cfg b s f then [device_at cfg b s f] else [])"
  unfolding adds_def
proof (intro allI impI)
  fix ds :: "pci_device list" and d assume l: "length ds \<le> 256"
  note r = read_config_reg [OF c, of _ b s f]
  obtain d1 where 1: "read_config io d b s f 0 = (reg cfg b s f 0, d1)" using r by blast
  obtain d2 where 2: "read_config io d1 b s f 8 = (reg cfg b s f 8, d2)" using r by blast
  obtain d3 where 3: "read_config io d2 b s f 0x0C = (reg cfg b s f 0x0C, d3)" using r by blast
  have "[0..<6] = [0, 1, 2, 3, 4, 5 :: nat]" by (simp add: upt_rec)
  then obtain d4 where 4: "read_bars io d3 b s f [0..<6] = (map (reg cfg b s f) [0x10, 0x14, 0x18, 0x1C, 0x20, 0x24], d4)"
    using read_bars_reg [OF c, of d3 b s f "[0..<6]"] by auto
  obtain d5 where 5: "read_config io d3 b s f 0x3C = (reg cfg b s f 0x3C, d5)" using r by blast
  obtain d6 where 6: "read_config io d4 b s f 0x3C = (reg cfg b s f 0x3C, d6)" using r by blast
  show "fst (scan_function io b s f (ds, d)) = take 256 (ds @ (if present cfg b s f then [device_at cfg b s f] else []))"
  proof (cases "present cfg b s f \<and> length ds < 256")
    case True
    then have p: "vendor_of (reg cfg b s f 0) \<noteq> 0xFFFF" and n: "\<not> length ds \<ge> 256" by (simp_all add: present_def)
    show ?thesis
      using True unfolding scan_function_def split 1 Let_def if_not_P [OF p] if_not_P [OF n] 2 3
      by (cases "byte_at 16 (reg cfg b s f 0x0C) AND 0x7F = 0") (simp_all add: 4 5 6 device_at_def Let_def take_Cons')
  next
    case False
    then have "fst (scan_function io b s f (ds, d)) = ds"
      unfolding scan_function_def split 1 Let_def by (auto simp: present_def)
    with False l show ?thesis by auto
  qed
qed

lemma scan_func_if_present_adds:
  assumes c: "config_reads io cfg"
  shows "adds (scan_func_if_present io b s f) (if present cfg b s f then [device_at cfg b s f] else [])"
  unfolding adds_def
proof (intro allI impI)
  fix ds :: "pci_device list" and d assume l: "length ds \<le> 256"
  obtain d1 where 1: "read_config io d b s f 0 = (reg cfg b s f 0, d1)" using read_config_reg [OF c] by blast
  show "fst (scan_func_if_present io b s f (ds, d)) = take 256 (ds @ (if present cfg b s f then [device_at cfg b s f] else []))"
    using scan_function_adds [OF c, of b s f] l
    unfolding scan_func_if_present_def split 1 Let_def adds_def by (simp add: present_def)
qed

lemma scan_slot_adds:
  assumes c: "config_reads io cfg"
  shows "adds (scan_slot io b s) (slot_devices cfg b s)"
  unfolding adds_def
proof (intro allI impI)
  fix ds :: "pci_device list" and d assume l: "length ds \<le> 256"
  obtain d1 where 1: "read_config io d b s 0 0 = (reg cfg b s 0 0, d1)" using read_config_reg [OF c] by blast
  obtain ds2 d2 where 2: "scan_function io b s 0 (ds, d1) = (ds2, d2)" by (rule prod.exhaust)
  obtain d3 where 3: "read_config io d2 b s 0 0x0C = (reg cfg b s 0 0x0C, d3)" using read_config_reg [OF c] by blast
  show "fst (scan_slot io b s (ds, d)) = take 256 (ds @ slot_devices cfg b s)"
  proof (cases "present cfg b s 0")
    case False
    then show ?thesis using l unfolding scan_slot_def split 1 Let_def by (simp add: present_def slot_devices_def)
  next
    case True
    have "fst (scan_function io b s 0 (ds, d1)) = take 256 (ds @ (if present cfg b s 0 then [device_at cfg b s 0] else []))"
      using scan_function_adds [OF c, of b s 0] l unfolding adds_def by blast
    then have ds2: "ds2 = take 256 (ds @ [device_at cfg b s 0])" using True by (simp add: 2)
    have w: "[1..<8] = [1, 2, 3, 4, 5, 6, 7 :: nat]" by (simp add: upt_rec)
    have "adds (fold (\<lambda>func. scan_func_if_present io b s (of_nat func)) [1..<8])
        (concat (map (\<lambda>func. if present cfg b s (of_nat func) then [device_at cfg b s (of_nat func)] else []) [1..<8]))"
      by (intro adds_fold scan_func_if_present_adds [OF c])
    moreover have "concat (map (\<lambda>func. if present cfg b s (of_nat func) then [device_at cfg b s (of_nat func)] else []) [1..<8])
        = map (device_at cfg b s) (filter (present cfg b s) [1, 2, 3, 4, 5, 6, 7])"
      unfolding w by simp
    ultimately have f: "fst (fold (\<lambda>func. scan_func_if_present io b s (of_nat func)) [1..<8] (ds2, d3))
        = take 256 (ds2 @ map (device_at cfg b s) (filter (present cfg b s) [1, 2, 3, 4, 5, 6, 7]))"
      unfolding adds_def ds2 using l by (simp add: min_absorb1)
    have v: "vendor_of (reg cfg b s 0 0) \<noteq> 0xFFFF" using True by (simp add: present_def)
    show ?thesis
    proof (cases "byte_at 16 (reg cfg b s 0 0x0C) AND 0x80 \<noteq> 0")
      case multi: True
      show ?thesis
        unfolding scan_slot_def split 1 Let_def if_not_P [OF v] 2 3 if_P [OF multi] f unfolding ds2 take_256_append
        using True multi by (simp add: slot_devices_def)
    next
      case False
      show ?thesis
        unfolding scan_slot_def split 1 Let_def if_not_P [OF v] 2 3 if_not_P [OF False] ds2
        using True False by (simp add: slot_devices_def)
    qed
  qed
qed

lemma find_by_class_find: "find_by_class ds c s = List.find (\<lambda>d. pd_class_code d = c \<and> pd_subclass d = s) ds"
  by (induction ds) simp_all

section \<open>Properties\<close>

text \<open>C39. On a bus whose configuration registers read as \<open>cfg\<close> says, the scan tables the first 256
  functions that are present, in bus, slot, function order, each with its own registers; the lookup
  by class returns the first of them with that class, and no index gives a device outside the table.\<close>

theorem pci_scan_finds:
  assumes "config_reads io cfg" "fst (pci_init io d) = ds"
  shows "ds = take 256 (bus_devices cfg)
    \<and> find_by_class ds c s = List.find (\<lambda>d. pd_class_code d = c \<and> pd_subclass d = s) (take 256 (bus_devices cfg))
    \<and> (\<forall>i. pci_get_device ds i = (if 0 \<le> i \<and> i < int (min 256 (length (bus_devices cfg)))
         then Some (bus_devices cfg ! nat i) else None))"
proof -
  have "adds (fold (\<lambda>bus. fold (\<lambda>slot. scan_slot io (of_nat bus) (of_nat slot)) [0..<32]) [0..<256]) (bus_devices cfg)"
    unfolding bus_devices_def by (intro adds_fold scan_slot_adds [OF assms(1)])
  then have e: "ds = take 256 (bus_devices cfg)"
    using assms(2) unfolding pci_init_def adds_def by (metis append_Nil le0 list.size(3))
  show ?thesis unfolding e find_by_class_find
    by (auto simp: pci_get_device_def pci_device_count_def min_def split: if_splits)
qed

text \<open>A bus with one function: an AHCI controller in slot 31 of bus 0, behind a port that latches
  the address.\<close>

definition one_cfg :: "u32 \<Rightarrow> u32" where
  "one_cfg a = (if a = config_address 0 31 0 0 then 0x29228086
     else if a = config_address 0 31 0 8 then 0x01060102 else if a AND 0xFFFFFF00 = config_address 0 31 0 0 then 0 else 0xFFFFFFFF)"

definition latch_ports :: "u32 pci_ports" where
  "latch_ports = \<lparr>pci_outl = (\<lambda>d p v. if p = 0xCF8 then v else d), pci_inl = (\<lambda>d p. (one_cfg d, d))\<rparr>"

theorem pci_scan_finds_witness:
  "fst (pci_init latch_ports 0) = take 256 (bus_devices one_cfg)"
proof -
  have "config_reads latch_ports one_cfg" by (simp add: config_reads_def latch_ports_def)
  from pci_scan_finds [OF this refl] show ?thesis by blast
qed

end
