(* ===== verification/Dmi.thy ===== *)
theory Dmi
  imports Prelude
begin

text \<open>
  SMBIOS data, \<open>lib/dmi.cpp\<close>: the entry points, the walk over the structure table and the copying
  of its strings.  Memory is a total function from addresses to bytes; pointers are natural
  numbers.  The five string buffers keep their sizes.  The trace on the serial port is left out.
\<close>

type_synonym bytes_mem = "nat \<Rightarrow> u8"

section \<open>State\<close>

record dmi_state =
  d_available :: bool
  d_motherboard :: "u8 list"
  d_product :: "u8 list"
  d_bios_vendor :: "u8 list"
  d_bios_version :: "u8 list"
  d_bios_date :: "u8 list"

definition dmi_boot :: dmi_state where
  "dmi_boot = \<lparr>d_available = False, d_motherboard = replicate 128 0, d_product = replicate 128 0,
     d_bios_vendor = replicate 64 0, d_bios_version = replicate 64 0, d_bios_date = replicate 64 0\<rparr>"

text \<open>What \<open>init\<close> and \<open>stop\<close> do first.\<close>

definition dmi_clear :: "dmi_state \<Rightarrow> dmi_state" where
  "dmi_clear s = s\<lparr>d_available := False, d_motherboard := (d_motherboard s)[0 := 0],
     d_product := (d_product s)[0 := 0], d_bios_vendor := (d_bios_vendor s)[0 := 0],
     d_bios_version := (d_bios_version s)[0 := 0], d_bios_date := (d_bios_date s)[0 := 0]\<rparr>"

definition to_virt :: "u64 \<Rightarrow> u64 \<Rightarrow> u64" where
  "to_virt phys hhdm = (if hhdm = 0 then phys else if phys \<ge> hhdm then phys else phys + hhdm)"

section \<open>Strings\<close>

text \<open>\<open>while (a[i] && cur + 1 < dst_size) dst[cur++] = a[i++];\<close>\<close>

function copy_chars :: "bytes_mem \<Rightarrow> nat \<Rightarrow> nat \<Rightarrow> u8 list \<Rightarrow> u8 list \<times> nat" where
  "copy_chars m a cur dst =
     (if m a \<noteq> 0 \<and> cur + 1 < length dst then copy_chars m (a + 1) (cur + 1) (dst[cur := m a]) else (dst, cur))"
  by pat_completeness auto
termination by (relation "measure (\<lambda>(m, a, cur, dst). length dst - cur)") auto

declare copy_chars.simps [simp del]

definition copy_str :: "bytes_mem \<Rightarrow> u8 list \<Rightarrow> nat option \<Rightarrow> u8 list" where
  "copy_str m dst src =
     (if length dst = 0 then dst
      else case src of None \<Rightarrow> dst[0 := 0]
      | Some p \<Rightarrow> (let (dst, i) = copy_chars m p 0 dst in dst[i := 0]))"

definition copy_join :: "bytes_mem \<Rightarrow> u8 list \<Rightarrow> nat option \<Rightarrow> nat option \<Rightarrow> u8 list" where
  "copy_join m dst a b =
     (if length dst = 0 then dst
      else let (dst, cur) = (case a of None \<Rightarrow> (dst, 0) | Some a \<Rightarrow> copy_chars m a 0 dst);
               (dst, cur) =
                 (case b of None \<Rightarrow> (dst, cur)
                  | Some b \<Rightarrow>
                    if m b \<noteq> 0
                    then let (dst, cur) = (if cur > 0 \<and> cur + 1 < length dst then (dst[cur := 32], cur + 1) else (dst, cur))
                         in copy_chars m b cur dst
                    else (dst, cur))
           in dst[cur := 0])"

function skip_str :: "bytes_mem \<Rightarrow> nat \<Rightarrow> nat \<Rightarrow> nat" where
  "skip_str m p stop = (if p < stop \<and> m p \<noteq> 0 then skip_str m (p + 1) stop else p)"
  by pat_completeness auto
termination by (relation "measure (\<lambda>(m, p, stop). stop - p)") auto

declare skip_str.simps [simp del]

lemma skip_str_ge: "p \<le> skip_str m p stop"
  by (induction m p stop rule: skip_str.induct) (subst skip_str.simps, auto)

function find_string :: "bytes_mem \<Rightarrow> nat \<Rightarrow> nat \<Rightarrow> u8 \<Rightarrow> u8 \<Rightarrow> nat option" where
  "find_string m p stop cur idx =
     (if p < stop \<and> m p \<noteq> 0 then
        if cur = idx then Some p
        else let p = skip_str m p stop in
          if p \<ge> stop then None else find_string m (p + 1) stop (cur + 1) idx
      else None)"
  by pat_completeness auto
termination
proof (relation "measure (\<lambda>(m, p, stop, cur, idx). stop - p)")
  fix m :: bytes_mem and p stop :: nat and cur idx :: u8 and x
  assume "p < stop \<and> m p \<noteq> 0" "x = skip_str m p stop" "\<not> x \<ge> stop"
  then show "((m, x + 1, stop, cur + 1, idx), (m, p, stop, cur, idx)) \<in> measure (\<lambda>(m, p, stop, cur, idx). stop - p)"
    using skip_str_ge [of p m stop] by simp
qed simp

declare find_string.simps [simp del]

definition get_string :: "bytes_mem \<Rightarrow> nat \<Rightarrow> nat \<Rightarrow> u8 \<Rightarrow> nat option" where
  "get_string m str_table stop idx =
     (if idx = 0 then None
      else if str_table = 0 \<or> str_table \<ge> stop then None
      else find_string m str_table stop 1 idx)"

section \<open>Structures\<close>

function find_end :: "bytes_mem \<Rightarrow> nat \<Rightarrow> nat \<Rightarrow> nat" where
  "find_end m p stop =
     (if p + 1 < stop then if m p = 0 \<and> m (p + 1) = 0 then p + 2 else find_end m (p + 1) stop else stop)"
  by pat_completeness auto
termination by (relation "measure (\<lambda>(m, p, stop). stop - p)") auto

declare find_end.simps [simp del]

definition next_struct :: "bytes_mem \<Rightarrow> nat \<Rightarrow> nat \<Rightarrow> nat" where
  "next_struct m s stop =
     (if s + 1 \<ge> stop then stop
      else let hlen = m (s + 1) in
      if hlen < 4 then stop
      else if s + unat hlen \<ge> stop then stop
      else find_end m (s + unat hlen) stop)"

definition mem32 :: "bytes_mem \<Rightarrow> nat \<Rightarrow> u32" where "mem32 m a = rd32 (map m [a..<a + 4]) 0"
definition mem16 :: "bytes_mem \<Rightarrow> nat \<Rightarrow> u16" where "mem16 m a = rd16 (map m [a..<a + 2]) 0"
definition mem64 :: "bytes_mem \<Rightarrow> nat \<Rightarrow> u64" where "mem64 m a = rd64 (map m [a..<a + 8]) 0"

text \<open>The entry points: the address of the table and its size.\<close>

definition parse_entry_64 :: "bytes_mem \<Rightarrow> nat \<Rightarrow> nat \<Rightarrow> (u64 \<times> u32) option" where
  "parse_entry_64 m ep ep_end =
     (if ep + 0x18 > ep_end then None
      else if map m [ep..<ep + 5] \<noteq> ascii ''_SM3_'' then None
      else let max_size = mem32 m (ep + 0x0C); addr = mem64 m (ep + 0x10) in
      if addr = 0 then None else Some (addr, max_size))"

definition parse_entry_32 :: "bytes_mem \<Rightarrow> nat \<Rightarrow> nat \<Rightarrow> (u64 \<times> u32) option" where
  "parse_entry_32 m ep ep_end =
     (if ep + 0x1F > ep_end then None
      else if map m [ep..<ep + 4] \<noteq> ascii ''_SM_'' then None
      else let len = mem16 m (ep + 0x16); addr = mem32 m (ep + 0x18) in
      if addr = 0 then None else Some (ucast addr, ucast len))"

text \<open>One structure of the types the kernel knows.\<close>

definition take_struct :: "bytes_mem \<Rightarrow> nat \<Rightarrow> nat \<Rightarrow> dmi_state \<Rightarrow> dmi_state" where
  "take_struct m s stop st =
     (let ty = m s; len = m (s + 1); str_table = s + unat len in
      if ty = 0 \<and> len \<ge> 8 then
        st\<lparr>d_bios_vendor := copy_str m (d_bios_vendor st) (get_string m str_table stop (m (s + 4))),
           d_bios_version := copy_str m (d_bios_version st) (get_string m str_table stop (m (s + 5))),
           d_bios_date := copy_str m (d_bios_date st) (get_string m str_table stop (m (s + 7)))\<rparr>
      else if ty = 1 \<and> len \<ge> 6 then
        st\<lparr>d_product := copy_join m (d_product st) (get_string m str_table stop (m (s + 4)))
             (get_string m str_table stop (m (s + 5)))\<rparr>
      else if ty = 2 \<and> len \<ge> 6 then
        st\<lparr>d_motherboard := copy_join m (d_motherboard st) (get_string m str_table stop (m (s + 4)))
             (get_string m str_table stop (m (s + 5)))\<rparr>
      else st)"

text \<open>The walk; its first argument is the number of rounds the guard still allows.\<close>

primrec dmi_walk :: "nat \<Rightarrow> bytes_mem \<Rightarrow> nat \<Rightarrow> nat \<Rightarrow> dmi_state \<Rightarrow> dmi_state" where
  "dmi_walk 0 m s stop st = st"
| "dmi_walk (Suc n) m s stop st =
     (if s + 4 \<le> stop then
        let ty = m s; len = m (s + 1) in
        if ty = 127 then st
        else if len < 4 then st
        else if s + unat len > stop then st
        else let st = take_struct m s stop st; nxt = next_struct m s stop in
          if nxt \<le> s \<or> nxt > stop then st else dmi_walk n m nxt stop st
      else st)"

record smbios_response =
  entry_32 :: u64
  entry_64 :: u64

definition dmi_init :: "bytes_mem \<Rightarrow> smbios_response option \<Rightarrow> u64 \<Rightarrow> dmi_state \<Rightarrow> dmi_state" where
  "dmi_init m response hhdm st =
     (let st = dmi_clear st in
      case response of None \<Rightarrow> st
      | Some r \<Rightarrow>
        let info = (if entry_64 r \<noteq> 0
                    then let ep = unat (to_virt (entry_64 r) hhdm) in parse_entry_64 m ep (ep + 0x20) else None);
            info = (if info = None \<and> entry_32 r \<noteq> 0
                    then let ep = unat (to_virt (entry_32 r) hhdm) in parse_entry_32 m ep (ep + 0x20) else info)
        in case info of None \<Rightarrow> st
           | Some (phys, max_size) \<Rightarrow>
             let table = unat (to_virt phys hhdm);
                 table_len = (if max_size \<noteq> 0 then max_size else 0xFFFF)
             in (dmi_walk 1024 m table (table + unat table_len) st)\<lparr>d_available := True\<rparr>)"

definition dmi_available :: "dmi_state \<Rightarrow> bool" where "dmi_available st = d_available st"

text \<open>A buffer as a C string, \<open>"Unknown"\<close> when empty.\<close>

definition or_unknown :: "u8 list \<Rightarrow> cstr" where
  "or_unknown b = (if b ! 0 \<noteq> 0 then takeWhile (\<lambda>c. c \<noteq> 0) b else ascii ''Unknown'')"

definition motherboard :: "dmi_state \<Rightarrow> cstr" where "motherboard st = or_unknown (d_motherboard st)"
definition product_name :: "dmi_state \<Rightarrow> cstr" where "product_name st = or_unknown (d_product st)"
definition bios_vendor :: "dmi_state \<Rightarrow> cstr" where "bios_vendor st = or_unknown (d_bios_vendor st)"
definition bios_version :: "dmi_state \<Rightarrow> cstr" where "bios_version st = or_unknown (d_bios_version st)"
definition bios_date :: "dmi_state \<Rightarrow> cstr" where "bios_date st = or_unknown (d_bios_date st)"

definition dmi_stop :: "dmi_state \<Rightarrow> dmi_state" where "dmi_stop st = dmi_clear st"

end
