(* ===== verification/DmiProps.thy ===== *)
theory DmiProps
  imports Dmi
begin

text \<open>
  The SMBIOS walk against a list of structures: the table in memory is the encoding of a list of
  formatted areas with their strings, and the kernel reads back what the list says.
\<close>

section \<open>Encoded structures\<close>

definition at_mem :: "bytes_mem \<Rightarrow> nat \<Rightarrow> u8 list \<Rightarrow> bool" where
  "at_mem m a xs \<longleftrightarrow> (\<forall>i < length xs. m (a + i) = xs ! i)"

lemma at_mem_append: "at_mem m a (xs @ ys) \<longleftrightarrow> at_mem m a xs \<and> at_mem m (a + length xs) ys"
proof
  assume l: "at_mem m a (xs @ ys)"
  have "m (a + length xs + i) = ys ! i" if "i < length ys" for i
    using l that unfolding at_mem_def by (metis add.assoc length_append nat_add_left_cancel_less nth_append_length_plus)
  then show "at_mem m a xs \<and> at_mem m (a + length xs) ys"
    using l unfolding at_mem_def by (auto simp: nth_append dest: spec [of _ "_ :: nat"])
next
  assume r: "at_mem m a xs \<and> at_mem m (a + length xs) ys"
  show "at_mem m a (xs @ ys)" unfolding at_mem_def
  proof (intro allI impI)
    fix i assume i: "i < length (xs @ ys)"
    show "m (a + i) = (xs @ ys) ! i"
    proof (cases "i < length xs")
      case True
      then show ?thesis using r by (simp add: at_mem_def nth_append)
    next
      case False
      then obtain k where k: "i = length xs + k" by (metis le_add_diff_inverse not_less)
      then show ?thesis using r i by (simp add: at_mem_def add.assoc)
    qed
  qed
qed

lemma at_mem_Cons: "at_mem m a (x # xs) \<longleftrightarrow> m a = x \<and> at_mem m (a + 1) xs"
  using at_mem_append [of m a "[x]" xs] by (simp add: at_mem_def)

lemma at_mem_Nil [simp]: "at_mem m a []"
  by (simp add: at_mem_def)

text \<open>A structure: its type, the formatted area after the two length bytes, its strings.\<close>

type_synonym smb_struct = "u8 \<times> u8 list \<times> u8 list list"

definition enc_strs :: "u8 list list \<Rightarrow> u8 list" where
  "enc_strs ss = (if ss = [] then [0, 0] else concat (map (\<lambda>s. s @ [0]) ss) @ [0])"

fun enc_struct :: "smb_struct \<Rightarrow> u8 list" where
  "enc_struct (ty, fmt, ss) = [ty, of_nat (2 + length fmt)] @ fmt @ enc_strs ss"

fun struct_ok :: "smb_struct \<Rightarrow> bool" where
  "struct_ok (ty, fmt, ss) \<longleftrightarrow> 2 \<le> length fmt \<and> length fmt \<le> 253 \<and> length ss \<le> 255
     \<and> list_all (\<lambda>s. s \<noteq> [] \<and> 0 \<notin> set s) ss"

definition nth_str :: "u8 list list \<Rightarrow> u8 \<Rightarrow> u8 list option" where
  "nth_str ss idx = (if 1 \<le> unat idx \<and> unat idx \<le> length ss then Some (ss ! (unat idx - 1)) else None)"

section \<open>Finding strings\<close>

lemma skip_str_end:
  "at_mem m p (s @ [0]) \<Longrightarrow> 0 \<notin> set s \<Longrightarrow> p + length s < stop \<Longrightarrow> skip_str m p stop = p + length s"
proof (induction s arbitrary: p)
  case Nil
  then show ?case by (subst skip_str.simps) (simp add: at_mem_Cons)
next
  case (Cons c s)
  then have "skip_str m (p + 1) stop = p + 1 + length s" by (simp add: at_mem_Cons)
  with Cons.prems show ?case by (subst skip_str.simps) (simp add: at_mem_Cons)
qed

lemma find_string_nth:
  assumes "at_mem m p (concat (map (\<lambda>s. s @ [0]) ss) @ [0])" "p + length (concat (map (\<lambda>s. s @ [0]) ss)) < stop"
    and "list_all (\<lambda>s. s \<noteq> [] \<and> 0 \<notin> set s) ss" "unat cur + length ss \<le> 256" "cur \<le> idx"
  shows "case find_string m p stop cur idx of None \<Rightarrow> length ss \<le> unat idx - unat cur
    | Some q \<Rightarrow> unat idx - unat cur < length ss \<and> at_mem m q (ss ! (unat idx - unat cur) @ [0])"
  using assms
proof (induction ss arbitrary: p cur)
  case Nil
  then show ?case by (subst find_string.simps) (simp add: at_mem_Cons)
next
  case (Cons s ss)
  have s: "s \<noteq> []" "0 \<notin> set s" using Cons.prems(3) by simp_all
  have at: "at_mem m p (s @ [0])" "at_mem m (p + length s + 1) (concat (map (\<lambda>s. s @ [0]) ss) @ [0])"
    using Cons.prems(1) by (simp_all add: at_mem_append at_mem_Cons add.assoc)
  have "m p \<noteq> 0" using s at(1) by (cases s) (auto simp: at_mem_Cons)
  moreover have "p < stop" using Cons.prems(2) by simp
  ultimately have f: "find_string m p stop cur idx = (if cur = idx then Some p
      else let p = skip_str m p stop in if p \<ge> stop then None else find_string m (p + 1) stop (cur + 1) idx)"
    by (subst find_string.simps) simp
  show ?case
  proof (cases "cur = idx")
    case True
    then show ?thesis using f at(1) by simp
  next
    case False
    have lt: "unat cur < unat idx" using Cons.prems(5) False by (simp add: word_le_nat_alt word_unat_eq_iff)
    have "unat idx < 2 ^ LENGTH(8)" by (rule unsigned_less)
    then have c: "unat (cur + 1) = unat cur + 1" using lt by (subst unat_add_no_overflow) simp_all
    have sk: "skip_str m p stop = p + length s" using at(1) s(2) Cons.prems(2) by (intro skip_str_end) simp_all
    have "case find_string m (p + length s + 1) stop (cur + 1) idx of None \<Rightarrow> length ss \<le> unat idx - unat (cur + 1)
        | Some q \<Rightarrow> unat idx - unat (cur + 1) < length ss \<and> at_mem m q (ss ! (unat idx - unat (cur + 1)) @ [0])"
      using Cons.prems c lt by (intro Cons.IH at(2)) (simp_all add: word_le_nat_alt)
    moreover have "find_string m p stop cur idx = find_string m (p + length s + 1) stop (cur + 1) idx"
      using f False sk Cons.prems(2) by simp
    moreover obtain k where k: "unat idx - unat cur = Suc k" using lt by (metis Suc_diff_Suc)
    moreover have "unat idx - unat (cur + 1) = k" using k c by simp
    ultimately show ?thesis by (simp split: option.splits)
  qed
qed

lemma get_string_nth:
  assumes "at_mem m p (enc_strs ss)" "p + length (enc_strs ss) \<le> stop" "0 < p"
    and "list_all (\<lambda>s. s \<noteq> [] \<and> 0 \<notin> set s) ss" "length ss \<le> 255"
  shows "case nth_str ss idx of None \<Rightarrow> get_string m p stop idx = None
    | Some s \<Rightarrow> \<exists>q. get_string m p stop idx = Some q \<and> at_mem m q (s @ [0])"
proof (cases "idx = 0")
  case True
  then show ?thesis by (simp add: nth_str_def get_string_def)
next
  case False
  have at: "at_mem m p (concat (map (\<lambda>s. s @ [0]) ss) @ [0])" "p + length (concat (map (\<lambda>s. s @ [0]) ss)) < stop"
    using assms(1,2) by (auto simp: enc_strs_def at_mem_Cons split: if_splits)
  have g: "get_string m p stop idx = find_string m p stop 1 idx"
    using False assms(3) at(2) by (simp add: get_string_def)
  have le: "1 \<le> idx" using False by (simp add: word_le_nat_alt unat_gt_0 Suc_le_eq)
  then have "1 \<le> unat idx" by (simp add: word_le_nat_alt)
  then show ?thesis
    using find_string_nth [OF at assms(4), of 1 idx] le assms(5)
    by (auto simp: g nth_str_def split: option.splits)
qed

section \<open>Copying strings\<close>

abbreviation cview :: "u8 list \<Rightarrow> cstr" where "cview b \<equiv> takeWhile (\<lambda>c. c \<noteq> 0) b"

lemma cview_put: "take k b = t \<Longrightarrow> 0 \<notin> set t \<Longrightarrow> k < length b \<Longrightarrow> cview (b[k := 0]) = t"
proof -
  assume t: "take k b = t" "0 \<notin> set t" and k: "k < length b"
  have "b[k := 0] = t @ 0 # drop (Suc k) b" using t(1) k by (simp add: upd_conv_take_nth_drop)
  moreover have "\<forall>c \<in> set t. c \<noteq> 0" using t(2) by auto
  ultimately show ?thesis by (simp add: takeWhile_append)
qed

lemma copy_chars_take:
  assumes "at_mem m a (s @ [0])" "0 \<notin> set s" "cur < length dst" "take cur dst = pre"
  shows "\<exists>dst' cur'. copy_chars m a cur dst = (dst', cur') \<and> length dst' = length dst \<and> cur' < length dst
    \<and> cur' = cur + length (take (length dst - 1 - cur) s) \<and> take cur' dst' = pre @ take (length dst - 1 - cur) s"
  using assms
proof (induction s arbitrary: a cur dst pre)
  case Nil
  then show ?case by (subst copy_chars.simps) (simp add: at_mem_Cons)
next
  case (Cons c s)
  show ?case
  proof (cases "cur + 1 < length dst")
    case True
    have "take (cur + 1) (dst[cur := c]) = pre @ [c]"
      using Cons.prems(3,4) by (simp add: take_Suc_conv_app_nth)
    with Cons.IH [of "a + 1" "cur + 1" "dst[cur := c]" "pre @ [c]"] Cons.prems True
    obtain dst' cur' where "copy_chars m (a + 1) (cur + 1) (dst[cur := c]) = (dst', cur')" "length dst' = length dst"
      "cur' < length dst" "cur' = cur + 1 + length (take (length dst - 1 - (cur + 1)) s)"
      "take cur' dst' = (pre @ [c]) @ take (length dst - 1 - (cur + 1)) s"
      by (auto simp: at_mem_Cons)
    moreover have "length dst - 1 - cur = Suc (length dst - 1 - (cur + 1))" using True by simp
    moreover have "copy_chars m a cur dst = copy_chars m (a + 1) (cur + 1) (dst[cur := c])"
      using Cons.prems(1,2) True by (subst copy_chars.simps) (auto simp: at_mem_Cons)
    ultimately show ?thesis by simp
  next
    case False
    then show ?thesis using Cons.prems by (subst copy_chars.simps) simp
  qed
qed

definition opt_str :: "u8 list option \<Rightarrow> u8 list" where "opt_str s = (case s of None \<Rightarrow> [] | Some s \<Rightarrow> s)"

lemma copy_str_view:
  assumes "case s of None \<Rightarrow> src = None | Some s \<Rightarrow> \<exists>q. src = Some q \<and> at_mem m q (s @ [0]) \<and> 0 \<notin> set s" "0 < length dst"
  shows "cview (copy_str m dst src) = take (length dst - 1) (opt_str s) \<and> length (copy_str m dst src) = length dst"
proof (cases s)
  case None
  then show ?thesis using assms by (cases dst) (simp_all add: copy_str_def opt_str_def)
next
  case (Some s')
  then obtain q where q: "src = Some q" "at_mem m q (s' @ [0])" "0 \<notin> set s'" using assms(1) by auto
  obtain dst' cur' where c: "copy_chars m q 0 dst = (dst', cur')" "length dst' = length dst" "cur' < length dst"
    "take cur' dst' = take (length dst - 1) s'"
    using copy_chars_take [OF q(2,3) assms(2), of "[]"] by auto
  have "cview (dst'[cur' := 0]) = take (length dst - 1) s'"
    using c q(3) by (intro cview_put) (auto dest: in_set_takeD)
  then show ?thesis using c assms(2) Some q(1) by (simp add: copy_str_def opt_str_def)
qed

definition join_str :: "u8 list option \<Rightarrow> u8 list option \<Rightarrow> u8 list" where
  "join_str a b = opt_str a @ (if a \<noteq> None \<and> b \<noteq> None then [32] else []) @ opt_str b"

lemma copy_join_view:
  assumes a: "case a of None \<Rightarrow> pa = None | Some s \<Rightarrow> \<exists>q. pa = Some q \<and> at_mem m q (s @ [0]) \<and> 0 \<notin> set s \<and> s \<noteq> []"
    and b: "case b of None \<Rightarrow> pb = None | Some s \<Rightarrow> \<exists>q. pb = Some q \<and> at_mem m q (s @ [0]) \<and> 0 \<notin> set s \<and> s \<noteq> []"
    and l: "1 < length dst"
  shows "cview (copy_join m dst pa pb) = take (length dst - 1) (join_str a b) \<and> length (copy_join m dst pa pb) = length dst"
proof -
  let ?n = "length dst - 1"
  have len: "0 < length dst" using l by linarith
  define da where "da = (case pa of None \<Rightarrow> (dst, 0) | Some q \<Rightarrow> copy_chars m q 0 dst)"
  obtain d1 c1 where d1: "da = (d1, c1)" by (rule prod.exhaust)
  have A: "length d1 = length dst \<and> c1 < length dst \<and> c1 = length (take ?n (opt_str a)) \<and> take c1 d1 = take ?n (opt_str a)"
  proof (cases a)
    case None
    then show ?thesis using a d1 l by (auto simp: da_def opt_str_def)
  next
    case (Some s)
    then obtain q where q: "pa = Some q" "at_mem m q (s @ [0])" "0 \<notin> set s" using a by auto
    obtain dst' cur' where "copy_chars m q 0 dst = (dst', cur')" "length dst' = length dst" "cur' < length dst"
      "cur' = length (take ?n s)" "take cur' dst' = take ?n s"
      using copy_chars_take [OF q(2,3) len, of "[]"] by auto
    then show ?thesis using Some q(1) d1 by (auto simp: da_def opt_str_def)
  qed
  have za: "0 \<notin> set (opt_str a)" and zb: "0 \<notin> set (opt_str b)"
    using a b by (auto simp: opt_str_def split: option.splits)
  show ?thesis
  proof (cases b)
    case None
    have "copy_join m dst pa pb = d1[c1 := 0]"
      using b None len d1 by (simp add: copy_join_def da_def [symmetric])
    moreover have "cview (d1[c1 := 0]) = take ?n (opt_str a)"
      using A za by (intro cview_put) (auto dest: in_set_takeD)
    ultimately show ?thesis using A None by (simp add: join_str_def opt_str_def)
  next
    case (Some s)
    then obtain q where q: "pb = Some q" "at_mem m q (s @ [0])" "0 \<notin> set s" "s \<noteq> []" using b by auto
    have mq: "m q \<noteq> 0" using q(2-4) by (cases s) (auto simp: at_mem_Cons)
    define d2 where "d2 = (if c1 > 0 \<and> c1 + 1 < length d1 then d1[c1 := 32] else d1)"
    define c2 where "c2 = (if c1 > 0 \<and> c1 + 1 < length d1 then c1 + 1 else c1)"
    define pre where "pre = take ?n (opt_str a) @ (if c1 > 0 \<and> c1 + 1 < length d1 then [32] else [])"
    have B: "length d2 = length dst" "c2 < length dst" "take c2 d2 = pre"
      using A by (auto simp: d2_def c2_def pre_def take_Suc_conv_app_nth)
    obtain d3 c3 where C: "copy_chars m q c2 d2 = (d3, c3)" "length d3 = length dst" "c3 < length dst"
      "take c3 d3 = pre @ take (?n - c2) s"
      using copy_chars_take [OF q(2,3), of c2 d2 pre] B by auto
    have e: "copy_join m dst pa pb = d3[c3 := 0]"
    proof -
      have "(if c1 > 0 \<and> c1 + 1 < length d1 then (d1[c1 := 32], c1 + 1) else (d1, c1)) = (d2, c2)"
        by (simp add: d2_def c2_def)
      moreover have "length dst \<noteq> 0" using len by simp
      ultimately show ?thesis
        unfolding copy_join_def da_def [symmetric] d1 q(1) Let_def split option.case using mq
        by (simp only: if_True if_False simp_thms split C(1))
    qed
    have "0 \<notin> set (pre @ take (?n - c2) s)"
      using za q(3) by (auto simp: pre_def dest: in_set_takeD)
    then have v: "cview (d3[c3 := 0]) = pre @ take (?n - c2) s" using C by (intro cview_put) simp_all
    have na: "a = None \<longleftrightarrow> opt_str a = []" using a by (auto simp: opt_str_def split: option.splits)
    have "pre @ take (?n - c2) s = take ?n (join_str a b)"
    proof (cases "a = None")
      case True
      then have "c1 = 0" using A na by simp
      then show ?thesis using True Some by (simp add: pre_def c2_def join_str_def opt_str_def)
    next
      case False
      then have c1: "c1 > 0" using A na l by simp
      show ?thesis
      proof (cases "c1 + 1 < length d1")
        case True
        then have "take ?n (opt_str a) = opt_str a" "c1 = length (opt_str a)" using A by auto
        then show ?thesis using True c1 A False Some
          by (simp add: pre_def c2_def join_str_def opt_str_def [of "Some s"] take_Cons')
      next
        case False
        then have "c1 = ?n" using A by simp
        then have "?n \<le> length (opt_str a)" using A by simp
        then show ?thesis using False A \<open>c1 = ?n\<close> Some \<open>a \<noteq> None\<close> by (simp add: pre_def c2_def join_str_def)
      qed
    qed
    then show ?thesis using e v C(2) by simp
  qed
qed

section \<open>The end of a structure\<close>

lemma find_end_strings:
  "at_mem m p (concat (map (\<lambda>s. s @ [0]) (s # ss)) @ [0]) \<Longrightarrow> list_all (\<lambda>s. s \<noteq> [] \<and> 0 \<notin> set s) (tl (s # ss))
    \<Longrightarrow> 0 \<notin> set s \<Longrightarrow> p + length (concat (map (\<lambda>s. s @ [0]) (s # ss))) < stop
    \<Longrightarrow> find_end m p stop = p + length (concat (map (\<lambda>s. s @ [0]) (s # ss))) + 1"
proof (induction ss arbitrary: p s)
  case Nil
  then show ?case
  proof (induction s arbitrary: p)
    case Nil
    then show ?case by (subst find_end.simps) (simp add: at_mem_Cons)
  next
    case (Cons c s)
    then have "find_end m (p + 1) stop = p + 1 + length s + 2" by (simp add: at_mem_Cons)
    with Cons.prems show ?case by (subst find_end.simps) (simp add: at_mem_Cons)
  qed
next
  case (Cons s' ss)
  note outer = Cons.IH
  from Cons.prems show ?case
  proof (induction s arbitrary: p)
    case Nil
    have s': "s' \<noteq> []" "0 \<notin> set s'" using Nil.prems(2) by simp_all
    have at: "m p = 0" "at_mem m (p + 1) (concat (map (\<lambda>s. s @ [0]) (s' # ss)) @ [0])"
      using Nil.prems(1) by (simp_all add: at_mem_Cons)
    have "m (p + 1) \<noteq> 0" using s' at(2) by (cases s') (auto simp: at_mem_Cons)
    moreover have "find_end m (p + 1) stop = p + 1 + length (concat (map (\<lambda>s. s @ [0]) (s' # ss))) + 1"
      using Nil.prems s' by (intro outer at(2)) simp_all
    ultimately show ?case using Nil.prems(4) by (subst find_end.simps) simp
  next
    case (Cons c s)
    then have "find_end m (p + 1) stop = p + 1 + length (concat (map (\<lambda>s. s @ [0]) (s # s' # ss))) + 1"
      by (simp add: at_mem_Cons)
    with Cons.prems show ?case by (subst find_end.simps) (simp add: at_mem_Cons)
  qed
qed

lemma find_end_enc:
  assumes "at_mem m p (enc_strs ss)" "list_all (\<lambda>s. s \<noteq> [] \<and> 0 \<notin> set s) ss" "p + length (enc_strs ss) \<le> stop"
  shows "find_end m p stop = p + length (enc_strs ss)"
proof (cases ss)
  case Nil
  then show ?thesis using assms by (subst find_end.simps) (simp add: enc_strs_def at_mem_Cons)
next
  case (Cons s ss')
  then show ?thesis using assms find_end_strings [of m p s ss' stop] by (simp add: enc_strs_def)
qed

section \<open>What the table says\<close>

record dmi_info =
  i_board :: "u8 list"
  i_product :: "u8 list"
  i_vendor :: "u8 list"
  i_version :: "u8 list"
  i_date :: "u8 list"

definition info_of :: "dmi_state \<Rightarrow> dmi_info" where
  "info_of st = \<lparr>i_board = cview (d_motherboard st), i_product = cview (d_product st),
     i_vendor = cview (d_bios_vendor st), i_version = cview (d_bios_version st), i_date = cview (d_bios_date st)\<rparr>"

definition sized :: "dmi_state \<Rightarrow> bool" where
  "sized st \<longleftrightarrow> length (d_motherboard st) = 128 \<and> length (d_product st) = 128
     \<and> length (d_bios_vendor st) = 64 \<and> length (d_bios_version st) = 64 \<and> length (d_bios_date st) = 64"

text \<open>The fields of a structure are counted from its start, the formatted area from byte 2.\<close>

fun says :: "smb_struct \<Rightarrow> dmi_info \<Rightarrow> dmi_info" where
  "says (ty, fmt, ss) v =
     (let str = (\<lambda>k. nth_str ss (fmt ! (k - 2))) in
      if ty = 0 \<and> 8 \<le> 2 + length fmt then
        v\<lparr>i_vendor := take 63 (opt_str (str 4)), i_version := take 63 (opt_str (str 5)), i_date := take 63 (opt_str (str 7))\<rparr>
      else if ty = 1 \<and> 6 \<le> 2 + length fmt then v\<lparr>i_product := take 127 (join_str (str 4) (str 5))\<rparr>
      else if ty = 2 \<and> 6 \<le> 2 + length fmt then v\<lparr>i_board := take 127 (join_str (str 4) (str 5))\<rparr>
      else v)"

lemma nth_str_ok: "list_all (\<lambda>s. s \<noteq> [] \<and> 0 \<notin> set s) ss \<Longrightarrow> nth_str ss idx = Some s \<Longrightarrow> 0 \<notin> set s \<and> s \<noteq> []"
  by (auto simp: nth_str_def list_all_length split: if_splits)

lemma enc_fields:
  assumes "at_mem m s (enc_struct (ty, fmt, ss))" "struct_ok (ty, fmt, ss)"
  shows "m s = ty" "unat (m (s + 1)) = 2 + length fmt" "k < length fmt \<Longrightarrow> m (s + 2 + k) = fmt ! k"
    "at_mem m (s + 2 + length fmt) (enc_strs ss)"
proof -
  have a: "m s = ty" "m (s + 1) = of_nat (2 + length fmt)" "at_mem m (s + 2) fmt" "at_mem m (s + 2 + length fmt) (enc_strs ss)"
    using assms(1) by (simp_all add: at_mem_Cons at_mem_append)
  show "m s = ty" "at_mem m (s + 2 + length fmt) (enc_strs ss)" by (fact a)+
  have "2 + length fmt < 2 ^ LENGTH(8)" using assms(2) by simp
  then show "unat (m (s + 1)) = 2 + length fmt" unfolding a(2) by (rule unat_of_nat_eq)
  show "k < length fmt \<Longrightarrow> m (s + 2 + k) = fmt ! k" using a(3) by (simp add: at_mem_def)
qed

lemma take_struct_says:
  assumes at: "at_mem m s (enc_struct x)" and ok: "struct_ok x" and fits: "s + length (enc_struct x) \<le> stop" and sz: "sized st"
  shows "info_of (take_struct m s stop st) = says x (info_of st) \<and> sized (take_struct m s stop st)"
proof -
  obtain ty fmt ss where x: "x = (ty, fmt, ss)" by (cases x)
  note f = enc_fields [OF at [unfolded x] ok [unfolded x]]
  have l: "length fmt \<le> 253" "length ss \<le> 255" "list_all (\<lambda>s. s \<noteq> [] \<and> 0 \<notin> set s) ss" using ok x by simp_all
  let ?p = "s + unat (m (s + 1))"
  have p: "?p = s + 2 + length fmt" using f(2) by simp
  have g: "case nth_str ss idx of None \<Rightarrow> get_string m ?p stop idx = None
    | Some t \<Rightarrow> \<exists>q. get_string m ?p stop idx = Some q \<and> at_mem m q (t @ [0]) \<and> 0 \<notin> set t \<and> t \<noteq> []" for idx
    using get_string_nth [of m ?p ss stop idx] f(4) l nth_str_ok [OF l(3)] fits unfolding p x
    by (auto split: option.splits)
  have g': "case nth_str ss idx of None \<Rightarrow> get_string m ?p stop idx = None
    | Some t \<Rightarrow> \<exists>q. get_string m ?p stop idx = Some q \<and> at_mem m q (t @ [0]) \<and> 0 \<notin> set t" for idx
    using g [of idx] by (auto split: option.splits)
  have c: "cview (copy_str m dst (get_string m ?p stop idx)) = take 63 (opt_str (nth_str ss idx))
      \<and> length (copy_str m dst (get_string m ?p stop idx)) = 64" if "length dst = 64" for dst idx
    using copy_str_view [OF g', of dst idx] that by simp
  have j: "cview (copy_join m dst (get_string m ?p stop i1) (get_string m ?p stop i2)) = take 127 (join_str (nth_str ss i1) (nth_str ss i2))
      \<and> length (copy_join m dst (get_string m ?p stop i1) (get_string m ?p stop i2)) = 128" if "length dst = 128" for dst i1 i2
    using copy_join_view [OF g g, of dst i1 i2] that by simp
  have len: "(m (s + 1) \<ge> 8) = (8 \<le> 2 + length fmt)" "(m (s + 1) \<ge> 6) = (6 \<le> 2 + length fmt)"
    by (simp_all add: word_le_nat_alt f(2) [simplified])
  have fld: "6 \<le> 2 + length fmt \<Longrightarrow> m (s + 4) = fmt ! 2 \<and> m (s + 5) = fmt ! 3" "8 \<le> 2 + length fmt \<Longrightarrow> m (s + 7) = fmt ! 5"
    using f(3) [of 2] f(3) [of 3] f(3) [of 5] by (simp_all add: numeral_eq_Suc)
  consider (bios) "ty = 0 \<and> 8 \<le> 2 + length fmt" | (sys) "ty = 1 \<and> 6 \<le> 2 + length fmt"
    | (board) "ty = 2 \<and> 6 \<le> 2 + length fmt" | (other) "\<not> (ty = 0 \<and> 8 \<le> 2 + length fmt)"
      "\<not> (ty = 1 \<and> 6 \<le> 2 + length fmt)" "\<not> (ty = 2 \<and> 6 \<le> 2 + length fmt)" by blast
  then show ?thesis
  proof cases
    case bios
    then show ?thesis using c fld sz unfolding x take_struct_def Let_def len f(1) by (simp add: info_of_def sized_def Let_def)
  next
    case sys
    then show ?thesis using j fld sz unfolding x take_struct_def Let_def len f(1) by (simp add: info_of_def sized_def Let_def)
  next
    case board
    then show ?thesis using j fld sz unfolding x take_struct_def Let_def len f(1) by (simp add: info_of_def sized_def Let_def)
  next
    case other
    then show ?thesis using sz unfolding x take_struct_def Let_def len f(1) says.simps
      by (simp only: if_False simp_thms)
  qed
qed

lemma next_struct_enc:
  assumes at: "at_mem m s (enc_struct x)" and ok: "struct_ok x" and fits: "s + length (enc_struct x) \<le> stop"
  shows "next_struct m s stop = s + length (enc_struct x)"
proof -
  obtain ty fmt ss where x: "x = (ty, fmt, ss)" by (cases x)
  note f = enc_fields [OF at [unfolded x] ok [unfolded x]]
  have l: "2 \<le> length fmt" "list_all (\<lambda>s. s \<noteq> [] \<and> 0 \<notin> set s) ss" using ok x by simp_all
  have n: "2 \<le> length (enc_strs ss)" by (cases ss) (auto simp: enc_strs_def)
  have e: "find_end m (s + (2 + length fmt)) stop = s + (2 + length fmt) + length (enc_strs ss)"
    using f(4) l(2) fits x by (intro find_end_enc) (simp_all add: add.assoc)
  have "\<not> m (s + 1) < 4" using l(1) by (simp add: word_less_nat_alt f(2) [simplified])
  then show ?thesis unfolding next_struct_def Let_def f(2) e using fits n x by simp
qed

text \<open>The walk over a table that the structures fill.\<close>

lemma dmi_walk_says:
  assumes "at_mem m s (concat (map enc_struct xs))" "list_all struct_ok xs" "sized st"
    and "s + length (concat (map enc_struct xs)) = stop"
  shows "info_of (dmi_walk n m s stop st) = fold says (takeWhile (\<lambda>x. fst x \<noteq> 127) (take n xs)) (info_of st)
    \<and> sized (dmi_walk n m s stop st)"
  using assms
proof (induction n arbitrary: s xs st)
  case (Suc n)
  show ?case
  proof (cases xs)
    case Nil
    then show ?thesis using Suc.prems by simp
  next
    case (Cons x xs')
    have at: "at_mem m s (enc_struct x)" "at_mem m (s + length (enc_struct x)) (concat (map enc_struct xs'))"
      using Suc.prems(1) Cons by (simp_all add: at_mem_append)
    have ok: "struct_ok x" "list_all struct_ok xs'" using Suc.prems(2) Cons by simp_all
    obtain ty fmt ss where x: "x = (ty, fmt, ss)" by (cases x)
    note f = enc_fields [OF at(1) [unfolded x] ok(1) [unfolded x]]
    have fits: "s + length (enc_struct x) \<le> stop" using Suc.prems(4) Cons by simp
    have n2: "2 \<le> length (enc_strs ss)" by (cases ss) (auto simp: enc_strs_def)
    have g: "s + 4 \<le> stop" "\<not> m (s + 1) < 4" "\<not> s + unat (m (s + 1)) > stop"
      using fits x n2 ok(1) by (simp_all add: word_less_nat_alt f(2) [simplified])
    note t = take_struct_says [OF at(1) ok(1) fits Suc.prems(3)] and nx = next_struct_enc [OF at(1) ok(1) fits]
    have pos: "0 < length (enc_struct x)" by (simp add: x)
    show ?thesis
    proof (cases "ty = 127")
      case True
      then show ?thesis using g f(1) Suc.prems(3) Cons x by simp
    next
      case False
      have "s + length (enc_struct x) + length (concat (map enc_struct xs')) = stop" using Suc.prems(4) Cons by simp
      from Suc.IH [OF at(2) ok(2) conjunct2 [OF t] this]
      show ?thesis using g f(1) False Cons x nx pos fits t by (simp add: Let_def)
    qed
  qed
qed simp

section \<open>Property\<close>

definition shown :: "u8 list \<Rightarrow> cstr" where "shown s = (if s = [] then ascii ''Unknown'' else s)"

lemma or_unknown_shown: "b \<noteq> [] \<Longrightarrow> or_unknown b = shown (cview b)"
  by (cases b) (auto simp: or_unknown_def shown_def)

text \<open>C40. When the 64-bit entry point leads to a table that encodes a list of structures, the kernel
  ends up with exactly the strings that list gives: of the BIOS, system and baseboard structures
  before the end marker (and among the first 1024) the last of each kind counts, cut to the size
  of the buffers; what is missing reads as \<open>"Unknown"\<close>.\<close>

theorem dmi_reads_table:
  assumes r: "entry_64 r \<noteq> 0" "ep = unat (to_virt (entry_64 r) hhdm)" "parse_entry_64 m ep (ep + 0x20) = Some (phys, len)"
    and t: "table = unat (to_virt phys hhdm)" "len \<noteq> 0"
    and xs: "at_mem m table (concat (map enc_struct xs))" "list_all struct_ok xs" "length (concat (map enc_struct xs)) = unat len"
    and sz: "sized st" and st: "st' = dmi_init m (Some r) hhdm st"
    and v: "v = fold says (takeWhile (\<lambda>x. fst x \<noteq> 127) (take 1024 xs))
        \<lparr>i_board = [], i_product = [], i_vendor = [], i_version = [], i_date = []\<rparr>"
  shows "dmi_available st' \<and> motherboard st' = shown (i_board v) \<and> product_name st' = shown (i_product v)
    \<and> bios_vendor st' = shown (i_vendor v) \<and> bios_version st' = shown (i_version v) \<and> bios_date st' = shown (i_date v)"
proof -
  have c0: "cview (b[0 := 0]) = []" if "b \<noteq> []" for b :: "u8 list" using that by (cases b) simp_all
  have ne: "length b = k \<Longrightarrow> 0 < k \<Longrightarrow> b \<noteq> []" for b :: "u8 list" and k by auto
  have sz': "sized (dmi_clear st)" and i0: "info_of (dmi_clear st) = \<lparr>i_board = [], i_product = [], i_vendor = [], i_version = [], i_date = []\<rparr>"
    using sz by (auto simp: sized_def dmi_clear_def info_of_def intro!: c0)
  define w where "w = dmi_walk 1024 m table (table + unat len) (dmi_clear st)"
  have w: "info_of w = v" "sized w"
    using dmi_walk_says [OF xs(1,2) sz', of "table + unat len" 1024] xs(3) unfolding w_def v i0 by simp_all
  have e: "st' = w\<lparr>d_available := True\<rparr>"
    using r t(2) unfolding st w_def t(1) dmi_init_def Let_def by simp
  have nn: "d_motherboard w \<noteq> []" "d_product w \<noteq> []" "d_bios_vendor w \<noteq> []" "d_bios_version w \<noteq> []" "d_bios_date w \<noteq> []"
    using w(2) by (auto simp: sized_def)
  show ?thesis unfolding e w(1) [symmetric]
    by (simp add: dmi_available_def motherboard_def product_name_def bios_vendor_def bios_version_def bios_date_def
        or_unknown_shown nn info_of_def)
qed

lemma at_mem_map: "at_mem m a xs \<Longrightarrow> k + n \<le> length xs \<Longrightarrow> map m [a + k..<a + k + n] = subbuf xs k n"
  by (rule nth_equalityI) (simp_all add: at_mem_def nth_subbuf add.assoc)

text \<open>A machine: the entry point at 4096, the table at 8192, with the direct map at 0.\<close>

definition demo_table :: "smb_struct list" where
  "demo_table = [(0, [0, 0, 1, 2, 0, 3], [ascii ''ACME'', ascii ''1.2'', ascii ''01/02/2026'']),
     (2, [1, 0, 1, 2], [ascii ''ACME'', ascii ''X1'']), (127, [2, 0], [])]"

definition demo_entry :: "u8 list" where
  "demo_entry = ascii ''_SM3_'' @ replicate 7 0 @ [50, 0, 0, 0] @ [0, 32, 0, 0, 0, 0, 0, 0]"

definition demo_mem :: bytes_mem where
  "demo_mem a = (if 4096 \<le> a \<and> a < 4096 + length demo_entry then demo_entry ! (a - 4096)
     else if 8192 \<le> a \<and> a < 8192 + length (concat (map enc_struct demo_table))
     then concat (map enc_struct demo_table) ! (a - 8192) else 0)"

theorem dmi_reads_table_witness:
  "motherboard (dmi_init demo_mem (Some \<lparr>entry_32 = 0, entry_64 = 4096\<rparr>) 0 dmi_boot) = ascii ''ACME X1''
   \<and> product_name (dmi_init demo_mem (Some \<lparr>entry_32 = 0, entry_64 = 4096\<rparr>) 0 dmi_boot) = ascii ''Unknown''"
proof -
  let ?r = "\<lparr>entry_32 = 0, entry_64 = 4096\<rparr> :: smbios_response"
  have l: "length (concat (map enc_struct demo_table)) = 50" "length demo_entry = 24" "list_all struct_ok demo_table"
    by code_simp+
  have at: "at_mem demo_mem 8192 (concat (map enc_struct demo_table))"
    by (simp add: at_mem_def demo_mem_def l)
  have "at_mem demo_mem 4096 demo_entry" by (simp add: at_mem_def demo_mem_def)
  note am = at_mem_map [OF this, unfolded l(2)]
  have f: "subbuf demo_entry 0 5 = ascii ''_SM3_''" "rd32 (subbuf demo_entry 12 4) 0 = 50" "rd64 (subbuf demo_entry 16 8) 0 = 8192"
    by code_simp+
  have p: "parse_entry_64 demo_mem 4096 (4096 + 0x20) = Some (8192, 50)"
    using am [of 0 5] am [of 12 4] am [of 16 8] f
    by (simp add: parse_entry_64_def mem32_def mem64_def Let_def)
  have v: "fold says (takeWhile (\<lambda>x. fst x \<noteq> 127) (take 1024 demo_table))
      \<lparr>i_board = [], i_product = [], i_vendor = [], i_version = [], i_date = []\<rparr>
    = \<lparr>i_board = ascii ''ACME X1'', i_product = [], i_vendor = ascii ''ACME'', i_version = ascii ''1.2'', i_date = ascii ''01/02/2026''\<rparr>"
  proof -
    have "take 1024 demo_table = demo_table" by (simp add: demo_table_def)
    moreover have "fold says (takeWhile (\<lambda>x. fst x \<noteq> 127) demo_table)
      \<lparr>i_board = [], i_product = [], i_vendor = [], i_version = [], i_date = []\<rparr>
    = \<lparr>i_board = ascii ''ACME X1'', i_product = [], i_vendor = ascii ''ACME'', i_version = ascii ''1.2'', i_date = ascii ''01/02/2026''\<rparr>"
      by code_simp
    ultimately show ?thesis by (simp only:)
  qed
  have sz: "sized dmi_boot" by (simp add: sized_def dmi_boot_def)
  have tv: "unat (to_virt 4096 0) = 4096" "unat (to_virt 8192 0) = 8192" by (simp_all add: to_virt_def)
  from dmi_reads_table [of ?r 4096 0 demo_mem 8192 50 8192 demo_table dmi_boot _ _, OF _ _ p _ _ at l(3) _ sz refl refl]
  moreover have "ascii ''ACME X1'' \<noteq> []" by (simp add: ascii_def)
  ultimately show ?thesis by (simp add: tv l(1) v shown_def)
qed

section \<open>A string cut by the end of the table\<close>

text \<open>The search for a string stops at the end of the table, but the copy does not: a last string
  without its terminator is copied with whatever follows the table.\<close>

lemma dmi_copies_past_table:
  "let m = (\<lambda>a. if a = 6 then 65 else if a = 7 then 66 else 0 :: u8) in
   get_string m 6 7 1 = Some 6 \<and> copy_str m [0, 0, 0, 0] (get_string m 6 7 1) = [65, 66, 0, 0]"
  by code_simp

end
