(* ===== verification/Ata.thy ===== *)
theory Ata
  imports Disk "HOL-Library.Monad_Syntax"
begin

text \<open>
  The ATA driver in PIO mode, \<open>drivers/ata.cpp\<close>.  Port input and output are parameters; every
  operation returns the new state of the devices behind the ports, or \<open>None\<close> when a wait for the
  drive never ends.  \<open>disk_info\<close> is \<open>disk::info\<close>.
\<close>

section \<open>Ports\<close>

record 'd ata_ports =
  a_inb :: "'d \<Rightarrow> u16 \<Rightarrow> u8 \<times> 'd"
  a_outb :: "'d \<Rightarrow> u16 \<Rightarrow> u8 \<Rightarrow> 'd"
  a_inw :: "'d \<Rightarrow> u16 \<Rightarrow> u16 \<times> 'd"
  a_outw :: "'d \<Rightarrow> u16 \<Rightarrow> u16 \<Rightarrow> 'd"

definition ATA_DATA :: u16 where "ATA_DATA = 0x1F0"
definition ATA_SECTORS :: u16 where "ATA_SECTORS = 0x1F2"
definition ATA_LBA_LOW :: u16 where "ATA_LBA_LOW = 0x1F3"
definition ATA_LBA_MID :: u16 where "ATA_LBA_MID = 0x1F4"
definition ATA_LBA_HIGH :: u16 where "ATA_LBA_HIGH = 0x1F5"
definition ATA_DRIVE :: u16 where "ATA_DRIVE = 0x1F6"
definition ATA_STATUS :: u16 where "ATA_STATUS = 0x1F7"
definition ATA_COMMAND :: u16 where "ATA_COMMAND = 0x1F7"
definition ATA_SR_BSY :: u8 where "ATA_SR_BSY = 0x80"
definition ATA_SR_DRQ :: u8 where "ATA_SR_DRQ = 0x08"

lemmas ata_regs = ATA_DATA_def ATA_SECTORS_def ATA_LBA_LOW_def ATA_LBA_MID_def ATA_LBA_HIGH_def
  ATA_DRIVE_def ATA_STATUS_def ATA_COMMAND_def ATA_SR_BSY_def ATA_SR_DRQ_def

definition delay_400ns :: "'d ata_ports \<Rightarrow> 'd \<Rightarrow> 'd" where
  "delay_400ns io = fold (\<lambda>i d. snd (a_inb io d ATA_STATUS)) [0..<4]"

partial_function (option) wait_bsy :: "'d ata_ports \<Rightarrow> 'd \<Rightarrow> 'd option" where
  "wait_bsy io d = (let (st, d) = a_inb io d ATA_STATUS in if st AND ATA_SR_BSY \<noteq> 0 then wait_bsy io d else Some d)"

declare wait_bsy.simps [code]

definition wait_drq :: "'d ata_ports \<Rightarrow> 'd \<Rightarrow> (bool \<times> 'd) option" where
  "wait_drq io d = do {
     d \<leftarrow> wait_bsy io d;
     let (st, d) = a_inb io d ATA_STATUS;
     Some (st AND ATA_SR_DRQ \<noteq> 0, d) }"

text \<open>\<open>n\<close> words from and to the data port.\<close>

primrec in_words :: "'d ata_ports \<Rightarrow> nat \<Rightarrow> 'd \<Rightarrow> u16 list \<times> 'd" where
  "in_words io 0 d = ([], d)"
| "in_words io (Suc n) d = (let (w, d) = a_inw io d ATA_DATA; (ws, d) = in_words io n d in (w # ws, d))"

definition out_words :: "'d ata_ports \<Rightarrow> u16 list \<Rightarrow> 'd \<Rightarrow> 'd" where
  "out_words io = fold (\<lambda>w d. a_outw io d ATA_DATA w)"

text \<open>A buffer as 16-bit words.\<close>

definition bytes_of_words :: "u16 list \<Rightarrow> u8 list" where
  "bytes_of_words ws = concat (map le16 ws)"

definition words_at :: "u8 list \<Rightarrow> nat \<Rightarrow> u16 list" where
  "words_at buffer off = map (\<lambda>i. rd16 buffer (off + 2 * i)) [0..<256]"

section \<open>Identification\<close>

record disk_info =
  di_present :: bool
  di_sectors :: u32
  di_sectors48 :: u64
  di_model :: "u8 list"
  di_serial :: "u8 list"
  di_firmware :: "u8 list"
  di_lba48 :: bool

definition info_boot :: disk_info where
  "info_boot = \<lparr>di_present = False, di_sectors = 0, di_sectors48 = 0, di_model = replicate 41 0,
     di_serial = replicate 21 0, di_firmware = replicate 9 0, di_lba48 = False\<rparr>"

text \<open>The characters of \<open>n\<close> identify words from word \<open>k\<close>, high byte first, and the terminator.\<close>

definition id_chars :: "u16 list \<Rightarrow> nat \<Rightarrow> nat \<Rightarrow> u8 list" where
  "id_chars ids k n = concat (map (\<lambda>w. [ucast (drop_bit 8 w AND 0xFF), ucast (w AND 0xFF)]) (take n (drop k ids))) @ [0]"

text \<open>\<open>for (int i = n - 1; i >= 0 && s[i] == ' '; i--) s[i] = '\0';\<close>\<close>

primrec trim_spaces :: "nat \<Rightarrow> u8 list \<Rightarrow> u8 list" where
  "trim_spaces 0 s = s"
| "trim_spaces (Suc i) s = (if s ! i = 32 then trim_spaces i (s[i := 0]) else s)"

definition info_of_identify :: "u16 list \<Rightarrow> disk_info \<Rightarrow> disk_info" where
  "info_of_identify ids info =
     (let lba48 = (ids ! 83 AND push_bit 10 1 \<noteq> 0);
          sectors = ucast (ids ! 60) OR push_bit 16 (ucast (ids ! 61))
      in info\<lparr>di_model := trim_spaces 40 (id_chars ids 27 20), di_serial := trim_spaces 20 (id_chars ids 10 10),
           di_firmware := id_chars ids 23 4, di_sectors := sectors, di_lba48 := lba48,
           di_sectors48 := (if lba48 then ucast (ids ! 100) OR push_bit 16 (ucast (ids ! 101))
               OR push_bit 32 (ucast (ids ! 102)) OR push_bit 48 (ucast (ids ! 103)) else ucast sectors),
           di_present := True\<rparr>)"

definition ata_init :: "'d ata_ports \<Rightarrow> disk_info \<Rightarrow> 'd \<Rightarrow> (bool \<times> disk_info \<times> 'd) option" where
  "ata_init io info d =
     (let info = info\<lparr>di_present := False\<rparr>;
          d = delay_400ns io (a_outb io d ATA_DRIVE 0xA0);
          d = a_outb io (a_outb io (a_outb io (a_outb io d ATA_SECTORS 0) ATA_LBA_LOW 0) ATA_LBA_MID 0) ATA_LBA_HIGH 0;
          d = delay_400ns io (a_outb io d ATA_COMMAND 0xEC);
          (status, d) = a_inb io d ATA_STATUS
      in if status = 0 then Some (False, info, d)
      else do {
        d \<leftarrow> wait_bsy io d;
        let (mid, d) = a_inb io d ATA_LBA_MID;
        let (high, d) = a_inb io d ATA_LBA_HIGH;
        if mid \<noteq> 0 \<or> high \<noteq> 0 then Some (False, info, d)
        else do {
          (ok, d) \<leftarrow> wait_drq io d;
          if \<not> ok then Some (False, info, d)
          else let (ids, d) = in_words io 256 d in Some (True, info_of_identify ids info, d) } })"

section \<open>Transfers\<close>

text \<open>The part the four transfers share: the registers and the command.\<close>

definition ata_command :: "'d ata_ports \<Rightarrow> u32 \<Rightarrow> u8 \<Rightarrow> u8 \<Rightarrow> 'd \<Rightarrow> 'd option" where
  "ata_command io lba count cmd d = do {
     d \<leftarrow> wait_bsy io d;
     let d = delay_400ns io (a_outb io d ATA_DRIVE (ucast (0xE0 OR (drop_bit 24 lba AND 0x0F))));
     let d = a_outb io d ATA_SECTORS count;
     let d = a_outb io d ATA_LBA_LOW (ucast (lba AND 0xFF));
     let d = a_outb io d ATA_LBA_MID (ucast (drop_bit 8 lba AND 0xFF));
     let d = a_outb io d ATA_LBA_HIGH (ucast (drop_bit 16 lba AND 0xFF));
     Some (delay_400ns io (a_outb io d ATA_COMMAND cmd)) }"

text \<open>A read returns what it stored in the buffer, also when it fails half-way.\<close>

definition ata_read_sector :: "'d ata_ports \<Rightarrow> disk_info \<Rightarrow> u32 \<Rightarrow> 'd \<Rightarrow> (bool \<times> u8 list \<times> 'd) option" where
  "ata_read_sector io info lba d =
     (if \<not> di_present info then Some (False, [], d)
      else do {
        d \<leftarrow> ata_command io lba 1 0x20 d;
        (ok, d) \<leftarrow> wait_drq io d;
        if \<not> ok then Some (False, [], d)
        else let (ws, d) = in_words io 256 d in Some (True, bytes_of_words ws, d) })"

definition ata_write_sector :: "'d ata_ports \<Rightarrow> disk_info \<Rightarrow> u32 \<Rightarrow> u8 list \<Rightarrow> 'd \<Rightarrow> (bool \<times> 'd) option" where
  "ata_write_sector io info lba buffer d =
     (if \<not> di_present info then Some (False, d)
      else do {
        d \<leftarrow> ata_command io lba 1 0x30 d;
        (ok, d) \<leftarrow> wait_drq io d;
        if \<not> ok then Some (False, d)
        else do {
          d \<leftarrow> wait_bsy io (a_outb io (out_words io (words_at buffer 0) d) ATA_COMMAND 0xE7);
          Some (True, d) } })"

primrec in_sectors :: "'d ata_ports \<Rightarrow> nat \<Rightarrow> 'd \<Rightarrow> (bool \<times> u8 list \<times> 'd) option" where
  "in_sectors io 0 d = Some (True, [], d)"
| "in_sectors io (Suc n) d = do {
     (ok, d) \<leftarrow> wait_drq io d;
     if \<not> ok then Some (False, [], d)
     else do {
       let (ws, d) = in_words io 256 d;
       (ok, bs, d) \<leftarrow> in_sectors io n (delay_400ns io d);
       Some (ok, bytes_of_words ws @ bs, d) } }"

definition ata_read_sectors :: "'d ata_ports \<Rightarrow> disk_info \<Rightarrow> u32 \<Rightarrow> u8 \<Rightarrow> 'd \<Rightarrow> (bool \<times> u8 list \<times> 'd) option" where
  "ata_read_sectors io info lba count d =
     (if \<not> di_present info \<or> count = 0 then Some (False, [], d)
      else do { d \<leftarrow> ata_command io lba count 0x20 d; in_sectors io (unat count) d })"

primrec out_sectors :: "'d ata_ports \<Rightarrow> u8 list \<Rightarrow> nat \<Rightarrow> nat \<Rightarrow> 'd \<Rightarrow> (bool \<times> 'd) option" where
  "out_sectors io buffer s 0 d = Some (True, d)"
| "out_sectors io buffer s (Suc n) d = do {
     (ok, d) \<leftarrow> wait_drq io d;
     if \<not> ok then Some (False, d)
     else out_sectors io buffer (s + 1) n (delay_400ns io (out_words io (words_at buffer (s * 512)) d)) }"

definition ata_write_sectors :: "'d ata_ports \<Rightarrow> disk_info \<Rightarrow> u32 \<Rightarrow> u8 \<Rightarrow> u8 list \<Rightarrow> 'd \<Rightarrow> (bool \<times> 'd) option" where
  "ata_write_sectors io info lba count buffer d =
     (if \<not> di_present info \<or> count = 0 then Some (False, d)
      else do {
        d \<leftarrow> ata_command io lba count 0x30 d;
        (ok, d) \<leftarrow> out_sectors io buffer 0 (unat count) d;
        if \<not> ok then Some (False, d)
        else do { d \<leftarrow> wait_bsy io (a_outb io d ATA_COMMAND 0xE7); Some (True, d) } })"

definition ata_flush :: "'d ata_ports \<Rightarrow> disk_info \<Rightarrow> 'd \<Rightarrow> (bool \<times> 'd) option" where
  "ata_flush io info d =
     (if \<not> di_present info then Some (False, d)
      else do { d \<leftarrow> wait_bsy io (a_outb io d ATA_COMMAND 0xE7); Some (True, d) })"

definition ata_stop :: "disk_info \<Rightarrow> disk_info" where
  "ata_stop info = info\<lparr>di_present := False\<rparr>"

end
