(* ===== verification/AtaDrive.thy ===== *)
theory AtaDrive
  imports Ata
begin

text \<open>
  What the ATA driver may expect of the drive: the PIO protocol as a hypothesis on the ports
  (\<open>follows_pio\<close>).  It speaks of a single healthy drive, device 0, and says only what the standard
  says: the status is valid 400 ns after a command or a selection, a register or the command register
  may be written only while BSY and DRQ are clear, a data word moved only while DRQ is set and BSY
  clear, a sector addressed by its LBA only with the LBA bit set.  An access outside these rules may
  do anything.  The rest of the theory follows the driver's steps through the protocol.
\<close>

section \<open>The drive\<close>

text \<open>A transfer in progress: the current sector, the sectors left (it included), the words of the
  current sector still to come or already taken.\<close>

datatype phase = Idle | DataIn nat nat "u16 list" | DataOut nat nat "u16 list"

text \<open>The medium and its size, the answer to IDENTIFY, the registers; for how many more reads of the
  status its value is not valid yet (\<open>dr_settle\<close>, 400 ns are 4 reads) and the drive is busy
  (\<open>dr_busy\<close>).\<close>

record drive =
  dr_medium :: "nat \<Rightarrow> u16 list"
  dr_size :: nat
  dr_ident :: "u16 list"
  dr_count :: u8
  dr_low :: u8
  dr_mid :: u8
  dr_high :: u8
  dr_dev :: u8
  dr_settle :: nat
  dr_busy :: nat
  dr_phase :: phase

definition drive_lba :: "drive \<Rightarrow> nat" where
  "drive_lba v = unat (dr_low v) + 2 ^ 8 * unat (dr_mid v) + 2 ^ 16 * unat (dr_high v) + 2 ^ 24 * unat (dr_dev v AND 0x0F)"

text \<open>Count 0 stands for 256 sectors.\<close>

definition sector_count :: "u8 \<Rightarrow> nat" where
  "sector_count c = (if c = 0 then 256 else unat c)"

text \<open>Device 0 is selected; the drive takes a command: the status is valid, BSY and DRQ are clear.\<close>

definition selected :: "drive \<Rightarrow> bool" where
  "selected v \<longleftrightarrow> dr_dev v AND 0x10 = 0"

definition accepts :: "drive \<Rightarrow> bool" where
  "accepts v \<longleftrightarrow> dr_settle v = 0 \<and> dr_busy v = 0 \<and> dr_phase v = Idle"

text \<open>A read of the status: BSY while the drive is busy, then DRQ during a transfer, never 0; time goes on.\<close>

definition status_ok :: "u8 \<Rightarrow> drive \<Rightarrow> bool" where
  "status_ok s v \<longleftrightarrow> dr_settle v > 0 \<or> s \<noteq> 0 \<and> (s AND 0x80 \<noteq> 0 \<longleftrightarrow> dr_busy v > 0)
     \<and> (dr_busy v > 0 \<or> (s AND 0x08 \<noteq> 0 \<longleftrightarrow> dr_phase v \<noteq> Idle))"

definition ticks :: "nat \<Rightarrow> drive \<Rightarrow> drive" where
  "ticks n v = v\<lparr>dr_settle := dr_settle v - n, dr_busy := dr_busy v - n\<rparr>"

text \<open>IDENTIFY, FLUSH CACHE, and READ and WRITE SECTORS with the LBA bit and within the medium.\<close>

definition command_ok :: "u8 \<Rightarrow> drive \<Rightarrow> bool" where
  "command_ok c v \<longleftrightarrow> selected v \<and> (c = 0xEC \<or> c = 0xE7
     \<or> (c = 0x20 \<or> c = 0x30) \<and> dr_dev v AND 0x40 \<noteq> 0 \<and> drive_lba v + sector_count (dr_count v) \<le> dr_size v)"

text \<open>The effect of a command: the status is valid after \<open>s\<close> reads, the drive is busy for \<open>lat\<close>.\<close>

definition drive_command :: "nat \<Rightarrow> nat \<Rightarrow> u8 \<Rightarrow> drive \<Rightarrow> drive" where
  "drive_command s lat c v =
     (if c = 0x20 then v\<lparr>dr_settle := s, dr_busy := lat, dr_phase := DataIn (drive_lba v) (sector_count (dr_count v)) (dr_medium v (drive_lba v))\<rparr>
      else if c = 0x30 then v\<lparr>dr_settle := s, dr_busy := lat, dr_phase := DataOut (drive_lba v) (sector_count (dr_count v)) []\<rparr>
      else if c = 0xEC then v\<lparr>dr_settle := s, dr_busy := lat, dr_phase := DataIn 0 1 (dr_ident v)\<rparr>
      else v\<lparr>dr_settle := s, dr_busy := lat\<rparr>)"

definition drive_register :: "u16 \<Rightarrow> u8 \<Rightarrow> drive \<Rightarrow> drive" where
  "drive_register p x v =
     (if p = 0x1F2 then v\<lparr>dr_count := x\<rparr> else if p = 0x1F3 then v\<lparr>dr_low := x\<rparr>
      else if p = 0x1F4 then v\<lparr>dr_mid := x\<rparr> else v\<lparr>dr_high := x\<rparr>)"

text \<open>The drive behind a data word: the rest of the sector, the next sector, or the end.\<close>

definition after_in :: "nat \<Rightarrow> nat \<Rightarrow> nat \<Rightarrow> nat \<Rightarrow> u16 list \<Rightarrow> drive \<Rightarrow> drive" where
  "after_in s lat l n ws v =
     (if ws \<noteq> [] then v\<lparr>dr_phase := DataIn l n ws\<rparr>
      else if n > 1 then v\<lparr>dr_settle := s, dr_busy := lat, dr_phase := DataIn (l + 1) (n - 1) (dr_medium v (l + 1))\<rparr>
      else v\<lparr>dr_phase := Idle\<rparr>)"

definition after_out :: "nat \<Rightarrow> nat \<Rightarrow> nat \<Rightarrow> nat \<Rightarrow> u16 list \<Rightarrow> drive \<Rightarrow> drive" where
  "after_out s lat l n ws v =
     (if length ws < 256 then v\<lparr>dr_phase := DataOut l n ws\<rparr>
      else v\<lparr>dr_medium := (dr_medium v)(l := ws), dr_settle := s, dr_busy := lat,
             dr_phase := (if n > 1 then DataOut (l + 1) (n - 1) [] else Idle)\<rparr>)"

text \<open>The ports lead to such a drive, seen through \<open>view\<close>: status, selection, registers, commands, data
  in, data out.\<close>

definition pio_status :: "'d ata_ports \<Rightarrow> ('d \<Rightarrow> drive) \<Rightarrow> bool" where
  "pio_status io view \<longleftrightarrow> (\<forall>d. selected (view d) \<longrightarrow>
     status_ok (fst (a_inb io d 0x1F7)) (view d) \<and> view (snd (a_inb io d 0x1F7)) = ticks 1 (view d))"

definition pio_select :: "'d ata_ports \<Rightarrow> ('d \<Rightarrow> drive) \<Rightarrow> bool" where
  "pio_select io view \<longleftrightarrow> (\<forall>d x. accepts (view d) \<longrightarrow>
     (\<exists>s\<le>4. view (a_outb io d 0x1F6 x) = (view d)\<lparr>dr_dev := x, dr_settle := s\<rparr>))"

definition pio_registers :: "'d ata_ports \<Rightarrow> ('d \<Rightarrow> drive) \<Rightarrow> bool" where
  "pio_registers io view \<longleftrightarrow> (\<forall>d p x. accepts (view d) \<longrightarrow> p \<in> {0x1F2, 0x1F3, 0x1F4, 0x1F5} \<longrightarrow>
     view (a_outb io d p x) = drive_register p x (view d))"

definition pio_command :: "'d ata_ports \<Rightarrow> ('d \<Rightarrow> drive) \<Rightarrow> bool" where
  "pio_command io view \<longleftrightarrow> (\<forall>d c. accepts (view d) \<longrightarrow> command_ok c (view d) \<longrightarrow>
     (\<exists>s\<le>4. \<exists>lat. view (a_outb io d 0x1F7 c) = drive_command s lat c (view d)))"

definition pio_in :: "'d ata_ports \<Rightarrow> ('d \<Rightarrow> drive) \<Rightarrow> bool" where
  "pio_in io view \<longleftrightarrow> (\<forall>d l n w ws. dr_settle (view d) = 0 \<longrightarrow> dr_busy (view d) = 0 \<longrightarrow> dr_phase (view d) = DataIn l n (w # ws) \<longrightarrow>
     fst (a_inw io d 0x1F0) = w \<and> (\<exists>s\<le>4. \<exists>lat. view (snd (a_inw io d 0x1F0)) = after_in s lat l n ws (view d)))"

definition pio_out :: "'d ata_ports \<Rightarrow> ('d \<Rightarrow> drive) \<Rightarrow> bool" where
  "pio_out io view \<longleftrightarrow> (\<forall>d l n ws w. dr_settle (view d) = 0 \<longrightarrow> dr_busy (view d) = 0 \<longrightarrow> dr_phase (view d) = DataOut l n ws \<longrightarrow>
     (\<exists>s\<le>4. \<exists>lat. view (a_outw io d 0x1F0 w) = after_out s lat l n (ws @ [w]) (view d)))"

definition follows_pio :: "'d ata_ports \<Rightarrow> ('d \<Rightarrow> drive) \<Rightarrow> bool" where
  "follows_pio io view \<longleftrightarrow> pio_status io view \<and> pio_select io view \<and> pio_registers io view
     \<and> pio_command io view \<and> pio_in io view \<and> pio_out io view"

text \<open>
  The driver itself leaves the protocol in one place: it writes FLUSH CACHE right behind the last
  data word of a write (\<open>write_sector\<close>) or 400 ns after it (\<open>write_sectors\<close>), and \<open>flush\<close> also without
  looking at the status.  Two kinds of drives bear it: those that have stored the sector within
  these 400 ns (\<open>prompt\<close>), and those on which a FLUSH CACHE that comes too early does not disturb the
  storing (\<open>tolerant\<close>; QEMU, for one, ignores a command written while BSY is set).
\<close>

definition prompt :: "'d ata_ports \<Rightarrow> ('d \<Rightarrow> drive) \<Rightarrow> bool" where
  "prompt io view \<longleftrightarrow> (\<forall>d l ws w. dr_settle (view d) = 0 \<longrightarrow> dr_busy (view d) = 0 \<longrightarrow> dr_phase (view d) = DataOut l 1 ws \<longrightarrow>
     dr_busy (view (a_outw io d 0x1F0 w)) \<le> 4)"

definition tolerant :: "'d ata_ports \<Rightarrow> ('d \<Rightarrow> drive) \<Rightarrow> bool" where
  "tolerant io view \<longleftrightarrow> (\<forall>d. selected (view d) \<longrightarrow> dr_phase (view d) = Idle \<longrightarrow> dr_settle (view d) \<le> 4 \<longrightarrow>
     (\<exists>s\<le>4. \<exists>lat. view (a_outb io d 0x1F7 0xE7) = (view d)\<lparr>dr_settle := s, dr_busy := lat\<rparr>))"

text \<open>Between two operations of the driver: no transfer; 400 ns later the status is valid.\<close>

definition resting :: "drive \<Rightarrow> bool" where
  "resting v \<longleftrightarrow> selected v \<and> dr_phase v = Idle \<and> dr_settle v \<le> 4"

definition quiet :: "drive \<Rightarrow> bool" where
  "quiet v \<longleftrightarrow> selected v \<and> dr_phase v = Idle \<and> dr_settle v = 0"

text \<open>What a step leaves alone: all but the time and the registers.\<close>

definition core :: "drive \<Rightarrow> (nat \<Rightarrow> u16 list) \<times> phase" where
  "core v = (dr_medium v, dr_phase v)"

definition same :: "drive \<Rightarrow> drive \<Rightarrow> bool" where
  "same v v' \<longleftrightarrow> dr_size v' = dr_size v \<and> dr_ident v' = dr_ident v \<and> selected v' = selected v"

lemma same_refl [simp]: "same v v"
  by (simp add: same_def)

lemma same_trans [trans]: "same a b \<Longrightarrow> same b c \<Longrightarrow> same a c"
  by (simp add: same_def)

lemma same_upd [simp]:
  "same v (v'\<lparr>dr_settle := s\<rparr>) = same v v'" "same v (v'\<lparr>dr_busy := b\<rparr>) = same v v'" "same v (v'\<lparr>dr_phase := ph\<rparr>) = same v v'"
  "same v (v'\<lparr>dr_medium := m\<rparr>) = same v v'" "same v (v'\<lparr>dr_count := c\<rparr>) = same v v'"
  "same v (v'\<lparr>dr_low := c\<rparr>) = same v v'" "same v (v'\<lparr>dr_mid := c\<rparr>) = same v v'" "same v (v'\<lparr>dr_high := c\<rparr>) = same v v'"
  by (simp_all add: same_def selected_def)

lemma core_time [simp]: "core (v\<lparr>dr_settle := s\<rparr>) = core v" "core (v\<lparr>dr_busy := b\<rparr>) = core v"
  by (simp_all add: core_def)

lemma ticks_fields [simp]:
  "dr_settle (ticks n v) = dr_settle v - n" "dr_busy (ticks n v) = dr_busy v - n" "dr_phase (ticks n v) = dr_phase v"
  "dr_medium (ticks n v) = dr_medium v" "dr_dev (ticks n v) = dr_dev v" "dr_size (ticks n v) = dr_size v" "dr_ident (ticks n v) = dr_ident v"
  "core (ticks n v) = core v" "same w (ticks n v) = same w v"
  "selected (ticks n v) = selected v"
  by (simp_all add: ticks_def core_def selected_def)

lemma ticks_ticks [simp]: "ticks m (ticks n v) = ticks (n + m) v"
  by (simp add: ticks_def)

section \<open>Waiting\<close>

lemma status_step:
  assumes "follows_pio io view" "selected (view d)"
  shows "\<exists>s d'. a_inb io d ATA_STATUS = (s, d') \<and> status_ok s (view d) \<and> view d' = ticks 1 (view d)"
  using assms by (intro exI [of _ "fst (a_inb io d 0x1F7)"] exI [of _ "snd (a_inb io d 0x1F7)"])
    (simp add: follows_pio_def pio_status_def ata_regs)

lemma delay_view:
  assumes f: "follows_pio io view" and s: "selected (view d)"
  shows "view (delay_400ns io d) = ticks 4 (view d)"
proof -
  have "view (fold (\<lambda>i d. snd (a_inb io d ATA_STATUS)) is d) = ticks (length is) (view d)" if "selected (view d)" for "is" :: "nat list" and d
    using that
  proof (induction "is" arbitrary: d)
    case Nil
    then show ?case by (simp add: ticks_def)
  next
    case (Cons i "is")
    obtain st d' where "a_inb io d ATA_STATUS = (st, d')" "view d' = ticks 1 (view d)"
      using status_step [OF f Cons.prems] by blast
    then show ?case using Cons.IH [of d'] Cons.prems by simp
  qed
  from this [OF s, of "[0..<4]"] show ?thesis by (simp add: delay_400ns_def)
qed

text \<open>A wait for the drive ends.  While the status is not valid it may end too early.\<close>

lemma wait_bsy_ends:
  assumes f: "follows_pio io view" and s: "selected (view d)"
  shows "\<exists>d' n. wait_bsy io d = Some d' \<and> view d' = ticks n (view d)
    \<and> (dr_settle (view d) = 0 \<longrightarrow> dr_busy (view d') = 0)"
  using s
proof (induction "dr_settle (view d) + dr_busy (view d)" arbitrary: d rule: less_induct)
  case less
  obtain st d1 where 1: "a_inb io d ATA_STATUS = (st, d1)" "status_ok st (view d)" "view d1 = ticks 1 (view d)"
    using status_step [OF f less.prems] by blast
  show ?case
  proof (cases "st AND 0x80 = 0")
    case True
    then have "wait_bsy io d = Some d1" by (subst wait_bsy.simps) (simp add: 1(1) ATA_SR_BSY_def)
    then show ?thesis using 1(2,3) True by (intro exI [of _ d1] exI [of _ 1]) (auto simp: status_ok_def)
  next
    case False
    then have "dr_settle (view d) + dr_busy (view d) > 0" using 1(2) by (auto simp: status_ok_def)
    then have "dr_settle (view d1) + dr_busy (view d1) < dr_settle (view d) + dr_busy (view d)" using 1(3) by auto
    from less.hyps [OF this] obtain d2 n where 2: "wait_bsy io d1 = Some d2" "view d2 = ticks n (view d1)"
        "dr_settle (view d1) = 0 \<longrightarrow> dr_busy (view d2) = 0" using 1(3) less.prems by auto
    have "wait_bsy io d = Some d2" using False 2(1) by (subst wait_bsy.simps) (simp add: 1(1) ATA_SR_BSY_def)
    then show ?thesis using 2(2,3) 1(3) by (intro exI [of _ d2] exI [of _ "1 + n"]) simp
  qed
qed

lemma wait_drq_ends:
  assumes f: "follows_pio io view" and s: "selected (view d)" "dr_settle (view d) = 0"
  shows "\<exists>d' n. wait_drq io d = Some (dr_phase (view d) \<noteq> Idle, d') \<and> view d' = ticks n (view d) \<and> dr_busy (view d') = 0"
proof -
  obtain d1 n where 1: "wait_bsy io d = Some d1" "view d1 = ticks n (view d)" "dr_busy (view d1) = 0"
    using wait_bsy_ends [OF f s(1)] s(2) by blast
  obtain st d2 where 2: "a_inb io d1 ATA_STATUS = (st, d2)" "status_ok st (view d1)" "view d2 = ticks 1 (view d1)"
    using status_step [OF f, of d1] 1(2) s(1) by auto
  have "(st AND ATA_SR_DRQ \<noteq> 0) = (dr_phase (view d) \<noteq> Idle)" using 2(2) 1(2,3) s(2) by (simp add: status_ok_def ata_regs)
  then have "wait_drq io d = Some (dr_phase (view d) \<noteq> Idle, d2)" by (simp add: wait_drq_def 1(1) 2(1))
  then show ?thesis using 1(2,3) 2(3) by (intro exI [of _ d2] exI [of _ "n + 1"]) simp
qed

section \<open>The address of a command\<close>

text \<open>The registers hold the low 28 bits of the LBA.\<close>

lemma nibbles: "(0xE0 OR x) AND 0x0F = x AND (0x0F :: u8)"
  by (simp add: bit.conj_disj_distrib2)

lemma low_byte: "(x :: 'a::len word) AND 0xFF = take_bit 8 x" "y AND (0x0F :: 'a word) = take_bit 4 y"
  by (simp_all add: take_bit_eq_mask mask_eq_exp_minus_1)

lemma unat_low_byte: "unat (ucast (x AND 0xFF :: u32) :: u8) = unat x mod 256"
  by (simp add: low_byte unsigned_ucast_eq unsigned_take_bit_eq take_bit_eq_mod unat_mod)

lemma lba_registers:
  assumes "dr_low v = ucast (lba AND 0xFF)" "dr_mid v = ucast (drop_bit 8 lba AND 0xFF)"
    "dr_high v = ucast (drop_bit 16 lba AND 0xFF)" "dr_dev v = ucast (0xE0 OR (drop_bit 24 lba AND 0x0F) :: u32)"
  shows "drive_lba v = unat lba mod 2 ^ 28"
proof -
  let ?n = "unat lba"
  have 1: "unat (dr_low v) = ?n mod 256" "unat (dr_mid v) = ?n div 2 ^ 8 mod 256" "unat (dr_high v) = ?n div 2 ^ 16 mod 256"
    unfolding assms unat_low_byte by (simp_all add: unat_drop_bit_eq drop_bit_eq_div unat_div)
  have "unat (dr_dev v AND 0x0F) = ?n div 2 ^ 24 mod 2 ^ 4"
  proof -
    have "ucast (0xE0 OR (drop_bit 24 lba AND 0x0F) :: u32) = (0xE0 OR ucast (drop_bit 24 lba AND 0x0F) :: u8)"
      by (rule bit_word_eqI) (auto simp: bit_simps)
    then have "dr_dev v AND 0x0F = ucast (drop_bit 24 lba AND 0x0F) AND 0x0F" unfolding assms(4) by (simp only: nibbles)
    then have "unat (dr_dev v AND 0x0F) = unat (ucast (drop_bit 24 lba AND 0x0F) AND (0x0F :: u8))" by simp
    also have "\<dots> = ?n div 2 ^ 24 mod 2 ^ 4"
      by (simp add: low_byte unsigned_take_bit_eq unsigned_ucast_eq unat_drop_bit_eq drop_bit_eq_div take_bit_eq_mod unat_div unat_mod)
    finally show ?thesis .
  qed
  moreover have "n mod 256 + 2 ^ 8 * (n div 2 ^ 8 mod 256) + 2 ^ 16 * (n div 2 ^ 16 mod 256) + 2 ^ 24 * (n div 2 ^ 24 mod 2 ^ 4)
      = n mod 2 ^ 28" for n :: nat
    using mod_mult2_eq [of n "2 ^ 24" "2 ^ 4"] mod_mult2_eq [of n "2 ^ 16" "2 ^ 8"] mod_mult2_eq [of n "2 ^ 8" "2 ^ 8"] by simp
  ultimately show ?thesis unfolding drive_lba_def 1 by simp
qed

lemma dev_bits:
  fixes lba :: u32
  shows "(ucast (0xE0 OR (drop_bit 24 lba AND 0x0F)) :: u8) AND 0x10 = 0"
    and "(ucast (0xE0 OR (drop_bit 24 lba AND 0x0F)) :: u8) AND 0x40 \<noteq> 0"
proof -
  let ?x = "ucast (drop_bit 24 lba) :: u8"
  have e: "ucast (0xE0 OR (drop_bit 24 lba AND 0x0F) :: u32) = (0xE0 OR (?x AND 0x0F) :: u8)"
    by (rule bit_word_eqI) (auto simp: bit_simps)
  have "(0xE0 OR (?x AND 0x0F)) AND 0x10 = (0xE0 AND 0x10) OR (?x AND (0x0F AND 0x10))" "(0xE0 OR (?x AND 0x0F)) AND 0x40 = (0xE0 AND 0x40) OR (?x AND (0x0F AND 0x40))"
    by (simp_all only: bit.conj_disj_distrib2 and.assoc)
  then show "(ucast (0xE0 OR (drop_bit 24 lba AND 0x0F)) :: u8) AND 0x10 = 0"
    "(ucast (0xE0 OR (drop_bit 24 lba AND 0x0F)) :: u8) AND 0x40 \<noteq> 0" unfolding e by simp_all
qed

text \<open>The wait, the selection and the registers of a transfer: the drive is addressed and takes the command.\<close>

lemma registers_view:
  assumes f: "follows_pio io view" and q: "quiet (view d)" and c: "cmd = 0x20 \<or> cmd = 0x30"
    and room: "unat lba mod 2 ^ 28 + sector_count count \<le> dr_size (view d)"
  shows "\<exists>d' v s lat. ata_command io lba count cmd d = Some d' \<and> view d' = ticks 4 (drive_command s lat cmd v) \<and> s \<le> 4
    \<and> drive_lba v = unat lba mod 2 ^ 28 \<and> dr_count v = count \<and> core v = core (view d) \<and> same (view d) v"
proof -
  have q': "selected (view d)" "dr_phase (view d) = Idle" "dr_settle (view d) = 0" using q by (simp_all add: quiet_def)
  obtain d1 n where 1: "wait_bsy io d = Some d1" "view d1 = ticks n (view d)" "dr_busy (view d1) = 0"
    using wait_bsy_ends [OF f q'(1)] q'(3) by blast
  let ?dev = "ucast (0xE0 OR (drop_bit 24 lba AND 0x0F) :: u32) :: u8"
  define d2 where "d2 = a_outb io d1 ATA_DRIVE ?dev"
  define d3 where "d3 = delay_400ns io d2"
  define d4 where "d4 = a_outb io d3 ATA_SECTORS count"
  define d5 where "d5 = a_outb io d4 ATA_LBA_LOW (ucast (lba AND 0xFF))"
  define d6 where "d6 = a_outb io d5 ATA_LBA_MID (ucast (drop_bit 8 lba AND 0xFF))"
  define d7 where "d7 = a_outb io d6 ATA_LBA_HIGH (ucast (drop_bit 16 lba AND 0xFF))"
  define d8 where "d8 = a_outb io d7 ATA_COMMAND cmd"
  have dev: "?dev AND 0x10 = 0" "?dev AND 0x40 \<noteq> 0" by (rule dev_bits)+
  have a1: "accepts (view d1)" using 1(2,3) q' by (simp add: accepts_def)
  obtain s2 where v2: "view d2 = (view d1)\<lparr>dr_dev := ?dev, dr_settle := s2\<rparr>" "s2 \<le> 4"
    using f a1 unfolding follows_pio_def pio_select_def d2_def ATA_DRIVE_def by blast
  have s2: "selected (view d2)" using dev v2 by (simp add: selected_def)
  have v3: "view d3 = ticks 4 (view d2)" unfolding d3_def by (rule delay_view [OF f s2])
  have a3: "accepts (view d3)" using a1 v2 v3 by (simp add: accepts_def)
  have reg: "accepts (view e) \<Longrightarrow> p \<in> {0x1F2, 0x1F3, 0x1F4, 0x1F5} \<Longrightarrow> view (a_outb io e p x) = drive_register p x (view e)" for e p x
    using f unfolding follows_pio_def pio_registers_def by blast
  have v4: "view d4 = (view d3)\<lparr>dr_count := count\<rparr>"
    using reg [of d3 "0x1F2"] a3 by (simp add: d4_def drive_register_def ATA_SECTORS_def)
  have a4: "accepts (view d4)" using a3 v4 by (simp add: accepts_def)
  have v5: "view d5 = (view d4)\<lparr>dr_low := ucast (lba AND 0xFF)\<rparr>"
    using reg [of d4 "0x1F3"] a4 by (simp add: d5_def drive_register_def ATA_LBA_LOW_def)
  have a5: "accepts (view d5)" using a4 v5 by (simp add: accepts_def)
  have v6: "view d6 = (view d5)\<lparr>dr_mid := ucast (drop_bit 8 lba AND 0xFF)\<rparr>"
    using reg [of d5 "0x1F4"] a5 by (simp add: d6_def drive_register_def ATA_LBA_MID_def)
  have a6: "accepts (view d6)" using a5 v6 by (simp add: accepts_def)
  have v7: "view d7 = (view d6)\<lparr>dr_high := ucast (drop_bit 16 lba AND 0xFF)\<rparr>"
    using reg [of d6 "0x1F5"] a6 by (simp add: d7_def drive_register_def ATA_LBA_HIGH_def)
  have a7: "accepts (view d7)" using a6 v7 by (simp add: accepts_def)
  have dev7: "dr_dev (view d7) = ?dev" by (simp add: v2 v3 v4 v5 v6 v7)
  have lba: "drive_lba (view d7) = unat lba mod 2 ^ 28"
    by (rule lba_registers) (simp_all add: v2 v3 v4 v5 v6 v7)
  have c7: "core (view d7) = core (view d)" "dr_count (view d7) = count" "dr_size (view d7) = dr_size (view d)"
      "dr_ident (view d7) = dr_ident (view d)"
    by (simp_all add: v2 v3 v4 v5 v6 v7 1(2) core_def ticks_def)
  have sel7: "selected (view d7)" using dev dev7 by (simp add: selected_def)
  have "command_ok cmd (view d7)" using c dev dev7 sel7 lba c7 room by (simp add: command_ok_def)
  then obtain s lat where v8: "view d8 = drive_command s lat cmd (view d7)" "s \<le> 4"
    using f a7 unfolding follows_pio_def pio_command_def d8_def ATA_COMMAND_def by blast
  have "selected (view d8)" using sel7 v8(1) by (simp add: drive_command_def selected_def)
  then have "view (delay_400ns io d8) = ticks 4 (view d8)" by (rule delay_view [OF f])
  moreover have "ata_command io lba count cmd d = Some (delay_400ns io d8)"
    by (simp add: ata_command_def 1(1) d8_def d7_def d6_def d5_def d4_def d3_def d2_def Let_def)
  moreover have "same (view d) (view d7)" using c7 sel7 q'(1) by (simp add: same_def)
  ultimately show ?thesis using v8 lba c7 by (intro exI [of _ "delay_400ns io d8"] exI [of _ "view d7"] exI [of _ s] exI [of _ lat]) simp
qed

section \<open>Sectors\<close>

definition medium_ok :: "(nat \<Rightarrow> u16 list) \<Rightarrow> bool" where
  "medium_ok m \<longleftrightarrow> (\<forall>l. length (m l) = 256)"

definition next_in :: "(nat \<Rightarrow> u16 list) \<Rightarrow> nat \<Rightarrow> nat \<Rightarrow> phase" where
  "next_in m l n = (if n > 1 then DataIn (l + 1) (n - 1) (m (l + 1)) else Idle)"

definition next_out :: "nat \<Rightarrow> nat \<Rightarrow> phase" where
  "next_out l n = (if n > 1 then DataOut (l + 1) (n - 1) [] else Idle)"

text \<open>A state in which the drive has settled, and a state in which it can move data.\<close>

definition settled :: "drive \<Rightarrow> (nat \<Rightarrow> u16 list) \<Rightarrow> phase \<Rightarrow> drive \<Rightarrow> bool" where
  "settled v0 m ph v \<longleftrightarrow> selected v \<and> same v0 v \<and> dr_settle v = 0 \<and> core v = (m, ph)"

lemma settled_quiet: "settled v0 m Idle v \<Longrightarrow> quiet v"
  by (simp add: settled_def quiet_def core_def)

lemma settledE:
  assumes "settled v0 m ph v"
  shows "selected v" "same v0 v" "dr_settle v = 0" "dr_medium v = m" "dr_phase v = ph"
  using assms by (simp_all add: settled_def core_def)

lemma delay_settles:
  assumes "follows_pio io view" "selected (view d)" "same v0 (view d)" "dr_settle (view d) \<le> 4" "core (view d) = (m, ph)"
  shows "settled v0 m ph (view (delay_400ns io d))"
  using assms by (simp add: settled_def delay_view)

lemma drq_settled:
  assumes f: "follows_pio io view" and s: "settled v0 m ph (view d)" and ph: "ph \<noteq> Idle"
  shows "\<exists>d'. wait_drq io d = Some (True, d') \<and> settled v0 m ph (view d') \<and> dr_busy (view d') = 0"
proof -
  obtain d' n where "wait_drq io d = Some (dr_phase (view d) \<noteq> Idle, d')" "view d' = ticks n (view d)" "dr_busy (view d') = 0"
    using wait_drq_ends [OF f] settledE [OF s] by blast
  then show ?thesis using s ph by (auto simp: settled_def core_def)
qed

lemma command_settled:
  assumes f: "follows_pio io view" and q: "quiet (view d)" and room: "unat lba mod 2 ^ 28 + sector_count count \<le> dr_size (view d)"
  shows "\<exists>d'. ata_command io lba count 0x20 d = Some d' \<and> settled (view d) (dr_medium (view d))
        (DataIn (unat lba mod 2 ^ 28) (sector_count count) (dr_medium (view d) (unat lba mod 2 ^ 28))) (view d')"
    and "\<exists>d'. ata_command io lba count 0x30 d = Some d' \<and> settled (view d) (dr_medium (view d))
        (DataOut (unat lba mod 2 ^ 28) (sector_count count) []) (view d')"
proof -
  have sel: "selected (view d)" using q by (simp add: quiet_def)
  show "\<exists>d'. ata_command io lba count 0x20 d = Some d' \<and> settled (view d) (dr_medium (view d))
        (DataIn (unat lba mod 2 ^ 28) (sector_count count) (dr_medium (view d) (unat lba mod 2 ^ 28))) (view d')"
    using registers_view [OF f q _ room, of "0x20"] sel
    by (auto simp: settled_def drive_command_def core_def same_def selected_def)
  show "\<exists>d'. ata_command io lba count 0x30 d = Some d' \<and> settled (view d) (dr_medium (view d))
        (DataOut (unat lba mod 2 ^ 28) (sector_count count) []) (view d')"
    using registers_view [OF f q _ room, of "0x30"] sel
    by (auto simp: settled_def drive_command_def core_def same_def selected_def)
qed

lemma in_words_view:
  assumes f: "follows_pio io view"
  shows "settled v0 m (DataIn l n ws) (view d) \<Longrightarrow> dr_busy (view d) = 0 \<Longrightarrow> ws \<noteq> [] \<Longrightarrow>
    \<exists>d'. in_words io (length ws) d = (ws, d') \<and> selected (view d') \<and> same v0 (view d') \<and> core (view d') = (m, next_in m l n)
      \<and> dr_settle (view d') \<le> 4 \<and> (n \<le> 1 \<longrightarrow> dr_settle (view d') = 0)"
proof (induction ws arbitrary: d)
  case (Cons w ws)
  note s = settledE [OF Cons.prems(1)]
  obtain s lat d1 where 1: "a_inw io d ATA_DATA = (w, d1)" "view d1 = after_in s lat l n ws (view d)" "s \<le> 4"
  proof -
    have "fst (a_inw io d 0x1F0) = w" "\<exists>s\<le>4. \<exists>lat. view (snd (a_inw io d 0x1F0)) = after_in s lat l n ws (view d)"
      using f s Cons.prems(2) unfolding follows_pio_def pio_in_def by blast+
    then show thesis using that by (auto simp: ATA_DATA_def prod_eq_iff)
  qed
  show ?case
  proof (cases "ws = []")
    case True
    then show ?thesis using 1 s by (auto simp: after_in_def core_def next_in_def selected_def same_def)
  next
    case False
    have "settled v0 m (DataIn l n ws) (view d1)" "dr_busy (view d1) = 0"
      using 1(2) s Cons.prems(2) False by (simp_all add: after_in_def core_def settled_def selected_def same_def)
    from Cons.IH [OF this False] obtain d2 where "in_words io (length ws) d1 = (ws, d2)" "selected (view d2)" "same v0 (view d2)"
        "core (view d2) = (m, next_in m l n)" "dr_settle (view d2) \<le> 4" "n \<le> 1 \<longrightarrow> dr_settle (view d2) = 0" by blast
    then show ?thesis using 1(1) by simp
  qed
qed simp

lemma out_words_view:
  assumes f: "follows_pio io view"
  shows "dr_settle (view d) = 0 \<Longrightarrow> dr_busy (view d) = 0 \<Longrightarrow> dr_phase (view d) = DataOut l n acc \<Longrightarrow> length acc + length ws < 256 \<Longrightarrow>
    view (out_words io ws d) = (view d)\<lparr>dr_phase := DataOut l n (acc @ ws)\<rparr>"
proof (induction ws arbitrary: d acc)
  case (Cons w ws)
  obtain s lat where "view (a_outw io d ATA_DATA w) = after_out s lat l n (acc @ [w]) (view d)"
    using f Cons.prems unfolding follows_pio_def pio_out_def ATA_DATA_def by blast
  then have "view (a_outw io d ATA_DATA w) = (view d)\<lparr>dr_phase := DataOut l n (acc @ [w])\<rparr>"
    using Cons.prems(4) by (simp add: after_out_def)
  then show ?case using Cons.IH [of "a_outw io d ATA_DATA w" "acc @ [w]"] Cons.prems by (simp add: out_words_def)
qed (simp add: out_words_def)

text \<open>A whole sector: all its words but the last, and the state the last one leads to.\<close>

lemma out_words_last: "out_words io (ws @ [w]) d = a_outw io (out_words io ws d) ATA_DATA w"
  by (simp add: out_words_def)

lemma out_sector_view:
  assumes f: "follows_pio io view" and s: "settled v0 m (DataOut l n []) (view d)" "dr_busy (view d) = 0" and len: "length ws = 256"
  shows "selected (view (out_words io ws d)) \<and> same v0 (view (out_words io ws d)) \<and> core (view (out_words io ws d)) = (m(l := ws), next_out l n)
    \<and> dr_settle (view (out_words io ws d)) \<le> 4 \<and> (prompt io view \<longrightarrow> n = 1 \<longrightarrow> dr_busy (view (out_words io ws d)) \<le> 4)"
proof -
  note s' = settledE [OF s(1)]
  have ws: "ws = butlast ws @ [last ws]" using len by (intro append_butlast_last_id [symmetric]) auto
  let ?d = "out_words io (butlast ws) d"
  have v: "view ?d = (view d)\<lparr>dr_phase := DataOut l n (butlast ws)\<rparr>"
    using out_words_view [OF f s'(3) s(2) s'(5), of "butlast ws"] len by simp
  have r: "dr_settle (view ?d) = 0" "dr_busy (view ?d) = 0" "dr_phase (view ?d) = DataOut l n (butlast ws)"
    using v s'(3) s(2) by simp_all
  obtain s1 lat where "view (a_outw io ?d ATA_DATA (last ws)) = after_out s1 lat l n (butlast ws @ [last ws]) (view ?d)" "s1 \<le> 4"
    using f r unfolding follows_pio_def pio_out_def ATA_DATA_def by blast
  then have o: "view (out_words io ws d) = after_out s1 lat l n ws (view ?d)" "s1 \<le> 4"
    using ws out_words_last [of io "butlast ws" "last ws" d] by simp_all
  have "prompt io view \<Longrightarrow> n = 1 \<Longrightarrow> dr_busy (view (out_words io ws d)) \<le> 4"
    using r ws out_words_last [of io "butlast ws" "last ws" d] unfolding prompt_def ATA_DATA_def by metis
  then show ?thesis using o v s' len by (simp add: after_out_def core_def next_out_def same_def selected_def)
qed

end
