(* ===== verification/AtaProps.thy ===== *)
theory AtaProps
  imports AtaDrive
begin

text \<open>
  The operations of the ATA driver on a drive that follows the PIO protocol (\<open>follows_pio\<close>), what
  the driver's early FLUSH CACHE asks of the drive beyond it, and the driver as a block device.
\<close>

section \<open>Runs of sectors\<close>


text \<open>Writing puts the buffer's sectors on the medium.\<close>

definition put_sectors :: "u8 list \<Rightarrow> nat \<Rightarrow> nat \<Rightarrow> nat \<Rightarrow> (nat \<Rightarrow> u16 list) \<Rightarrow> nat \<Rightarrow> u16 list" where
  "put_sectors buffer s l n m k = (if l \<le> k \<and> k < l + n then words_at buffer ((s + (k - l)) * 512) else m k)"

lemma length_words_at [simp]: "length (words_at buffer off) = 256"
  by (simp add: words_at_def)


section \<open>The operations\<close>

text \<open>FLUSH CACHE, legal or too early, and the wait behind it.\<close>

lemma flush_rests:
  assumes f: "follows_pio io view" and r: "resting (view d)" and t: "tolerant io view \<or> dr_settle (view d) = 0 \<and> dr_busy (view d) = 0"
  shows "\<exists>d'. wait_bsy io (a_outb io d ATA_COMMAND 0xE7) = Some d' \<and> resting (view d') \<and> same (view d) (view d')
    \<and> dr_medium (view d') = dr_medium (view d)"
proof -
  have r': "selected (view d)" "dr_phase (view d) = Idle" "dr_settle (view d) \<le> 4" using r by (simp_all add: resting_def)
  obtain s lat where v: "view (a_outb io d ATA_COMMAND 0xE7) = (view d)\<lparr>dr_settle := s, dr_busy := lat\<rparr>" "s \<le> 4"
  proof (cases "tolerant io view")
    case True
    then show thesis using r' that unfolding tolerant_def ATA_COMMAND_def by blast
  next
    case False
    then have "accepts (view d)" "command_ok 0xE7 (view d)" using t r' by (simp_all add: accepts_def command_ok_def)
    then obtain s lat where "view (a_outb io d 0x1F7 0xE7) = drive_command s lat 0xE7 (view d)" "s \<le> 4"
      using f unfolding follows_pio_def pio_command_def by blast
    then have "view (a_outb io d ATA_COMMAND 0xE7) = (view d)\<lparr>dr_settle := s, dr_busy := lat\<rparr>"
      by (simp add: drive_command_def ATA_COMMAND_def)
    then show thesis using \<open>s \<le> 4\<close> by (rule that)
  qed
  obtain d' n where "wait_bsy io (a_outb io d ATA_COMMAND 0xE7) = Some d'" "view d' = ticks n (view (a_outb io d ATA_COMMAND 0xE7))"
    using wait_bsy_ends [OF f, of "a_outb io d ATA_COMMAND 0xE7"] v(1) r'(1) by (auto simp: selected_def)
  then show ?thesis using v r' by (auto simp: resting_def selected_def same_def)
qed

lemma put_one: "put_sectors buffer 0 l (Suc 0) m = m(l := words_at buffer 0)"
  by (rule ext) (auto simp: put_sectors_def)

lemma sector_count_pos: "count \<noteq> 0 \<Longrightarrow> sector_count count = unat count" "sector_count 1 = 1"
  by (simp_all add: sector_count_def)

text \<open>A write of one sector, up to its FLUSH CACHE and as a whole.\<close>

lemma write_one_flush:
  assumes f: "follows_pio io view" and p: "di_present info" and q: "quiet (view d)" and room: "unat lba mod 2 ^ 28 < dr_size (view d)"
  shows "\<exists>d3. ata_write_sector io info lba buffer d = map_option (Pair True) (wait_bsy io (a_outb io d3 ATA_COMMAND 0xE7))
    \<and> resting (view d3) \<and> same (view d) (view d3) \<and> dr_medium (view d3) = (dr_medium (view d))(unat lba mod 2 ^ 28 := words_at buffer 0)
    \<and> (\<exists>d2. dr_settle (view d2) = 0 \<and> dr_busy (view d2) = 0 \<and> (\<exists>l ws. length ws = 255 \<and> dr_phase (view d2) = DataOut l 1 ws)
         \<and> d3 = a_outw io d2 0x1F0 (last (words_at buffer 0)))"
proof -
  let ?l = "unat lba mod 2 ^ 28" and ?ws = "words_at buffer 0"
  obtain d1 where 1: "ata_command io lba 1 0x30 d = Some d1" "settled (view d) (dr_medium (view d)) (DataOut ?l 1 []) (view d1)"
    using command_settled(2) [OF f q, of lba 1] room by (auto simp: sector_count_pos)
  obtain d2 where 2: "wait_drq io d1 = Some (True, d2)" "settled (view d) (dr_medium (view d)) (DataOut ?l 1 []) (view d2)" "dr_busy (view d2) = 0"
    using drq_settled [OF f 1(2)] by auto
  note s2 = settledE [OF 2(2)]
  let ?d3 = "out_words io ?ws d2"
  have 3: "selected (view ?d3)" "same (view d) (view ?d3)" "core (view ?d3) = ((dr_medium (view d))(?l := ?ws), Idle)" "dr_settle (view ?d3) \<le> 4"
    using out_sector_view [OF f 2(2,3), of ?ws] by (simp_all add: next_out_def)
  have "ata_write_sector io info lba buffer d = map_option (Pair True) (wait_bsy io (a_outb io ?d3 ATA_COMMAND 0xE7))"
    using p 1(1) 2(1) by (cases "wait_bsy io (a_outb io ?d3 ATA_COMMAND 0xE7)") (simp_all add: ata_write_sector_def)
  moreover have "view (out_words io (butlast ?ws) d2) = (view d2)\<lparr>dr_phase := DataOut ?l 1 (butlast ?ws)\<rparr>"
    using out_words_view [OF f s2(3) 2(3) s2(5), of "butlast ?ws"] by simp
  moreover have "?d3 = a_outw io (out_words io (butlast ?ws) d2) 0x1F0 (last ?ws)"
  proof -
    have "?ws = butlast ?ws @ [last ?ws]" by (intro append_butlast_last_id [symmetric]) (simp add: words_at_def)
    then show ?thesis using out_words_last [of io "butlast ?ws" "last ?ws" d2] by (simp add: ATA_DATA_def)
  qed
  ultimately show ?thesis using 3 s2 2(3)
    by (intro exI [of _ ?d3] conjI exI [of _ "out_words io (butlast ?ws) d2"] exI [of _ ?l] exI [of _ "butlast ?ws"])
      (simp_all add: resting_def core_def)
qed

lemma write_one:
  assumes f: "follows_pio io view" "tolerant io view" and p: "di_present info" and q: "quiet (view d)"
    and room: "unat lba mod 2 ^ 28 < dr_size (view d)"
  shows "\<exists>d'. ata_write_sector io info lba buffer d = Some (True, d') \<and> resting (view d') \<and> same (view d) (view d')
    \<and> dr_medium (view d') = (dr_medium (view d))(unat lba mod 2 ^ 28 := words_at buffer 0)"
proof -
  obtain d3 where 3: "ata_write_sector io info lba buffer d = map_option (Pair True) (wait_bsy io (a_outb io d3 ATA_COMMAND 0xE7))"
      "resting (view d3)" "same (view d) (view d3)" "dr_medium (view d3) = (dr_medium (view d))(unat lba mod 2 ^ 28 := words_at buffer 0)"
    using write_one_flush [OF f(1) p q room] by blast
  obtain d4 where "wait_bsy io (a_outb io d3 ATA_COMMAND 0xE7) = Some d4" "resting (view d4)" "same (view d3) (view d4)"
      "dr_medium (view d4) = dr_medium (view d3)" using flush_rests [OF f(1) 3(2)] f(2) by blast
  then show ?thesis using 3 same_trans by auto
qed


lemma read_one:
  assumes f: "follows_pio io view" and p: "di_present info" and q: "quiet (view d)" and room: "unat lba mod 2 ^ 28 < dr_size (view d)"
    and len: "length (dr_medium (view d) (unat lba mod 2 ^ 28)) = 256"
  shows "\<exists>d'. ata_read_sector io info lba d = Some (True, bytes_of_words (dr_medium (view d) (unat lba mod 2 ^ 28)), d')
      \<and> quiet (view d') \<and> same (view d) (view d') \<and> dr_medium (view d') = dr_medium (view d)"
proof -
  let ?l = "unat lba mod 2 ^ 28" and ?m = "dr_medium (view d)"
  have w: "?m ?l \<noteq> []" using len by auto
  obtain d1 where 1: "ata_command io lba 1 0x20 d = Some d1" "settled (view d) ?m (DataIn ?l 1 (?m ?l)) (view d1)"
    using command_settled(1) [OF f q, of lba 1] room by (auto simp: sector_count_pos)
  obtain d2 where 2: "wait_drq io d1 = Some (True, d2)" "settled (view d) ?m (DataIn ?l 1 (?m ?l)) (view d2)" "dr_busy (view d2) = 0"
    using drq_settled [OF f 1(2)] by auto
  obtain d3 where 3: "in_words io 256 d2 = (?m ?l, d3)" "selected (view d3)" "same (view d) (view d3)" "core (view d3) = (?m, Idle)" "dr_settle (view d3) = 0"
    using in_words_view [OF f 2(2,3) w] len by (auto simp: next_in_def)
  then show ?thesis using p 1(1) 2(1) by (simp add: ata_read_sector_def quiet_def core_def)
qed


text \<open>Words and bytes.\<close>

lemma le16_pair: "off + 1 < length bs \<Longrightarrow> le16 (rd16 bs off) = [bs ! off, bs ! (off + 1)]"
  by (simp add: le16_def rd16_def) (intro conjI bit_word_eqI; auto simp: bit_simps dest: bit_imp_le_length)

lemma concat_pairs: "n * 2 \<le> length bs - off \<Longrightarrow> off \<le> length bs \<Longrightarrow>
    concat (map (\<lambda>i. [bs ! (off + 2 * i), bs ! (off + 2 * i + 1)]) [0..<n]) = take (2 * n) (drop off bs)"
proof (induction n)
  case (Suc n)
  have "take (2 * Suc n) (drop off bs) = take (2 * n) (drop off bs) @ [bs ! (off + 2 * n), bs ! (off + 2 * n + 1)]"
    using Suc.prems by (simp add: take_Suc_conv_app_nth numeral_2_eq_2)
  then show ?case using Suc by simp
qed simp

lemma words_bytes:
  assumes "off + 512 \<le> length bs"
  shows "bytes_of_words (words_at bs off) = subbuf bs off 512"
proof -
  have "bytes_of_words (words_at bs off) = concat (map (\<lambda>i. le16 (rd16 bs (off + 2 * i))) [0..<256])"
    by (simp add: bytes_of_words_def words_at_def comp_def)
  also have "\<dots> = concat (map (\<lambda>i. [bs ! (off + 2 * i), bs ! (off + 2 * i + 1)]) [0..<256])"
    by (intro arg_cong [of _ _ concat] map_cong refl le16_pair) (use assms in auto)
  also have "\<dots> = subbuf bs off 512" using concat_pairs [of 256 bs off] assms by (simp add: subbuf_def)
  finally show ?thesis .
qed


section \<open>Identification\<close>

text \<open>The driver reads the LBA registers back while DRQ is set, to tell an ATA drive from others.  In ATA-1
  the host may read the registers whenever BSY is clear, and they hold what it wrote, as IDENTIFY has
  no use for them; later editions promise their contents only while DRQ is clear as well, so this is a
  hypothesis of its own.\<close>

definition reads_back :: "'d ata_ports \<Rightarrow> ('d \<Rightarrow> drive) \<Rightarrow> bool" where
  "reads_back io view \<longleftrightarrow> (\<forall>d. selected (view d) \<longrightarrow> dr_settle (view d) = 0 \<longrightarrow> dr_busy (view d) = 0 \<longrightarrow>
     fst (a_inb io d 0x1F4) = dr_mid (view d) \<and> view (snd (a_inb io d 0x1F4)) = view d
     \<and> fst (a_inb io d 0x1F5) = dr_high (view d) \<and> view (snd (a_inb io d 0x1F5)) = view d)"

lemma init_view:
  assumes f: "follows_pio io view" "reads_back io view" and a: "accepts (view d)" and len: "length (dr_ident (view d)) = 256"
  shows "\<exists>d'. ata_init io info d = Some (True, info_of_identify (dr_ident (view d)) (info\<lparr>di_present := False\<rparr>), d')
    \<and> quiet (view d') \<and> dr_medium (view d') = dr_medium (view d) \<and> dr_size (view d') = dr_size (view d) \<and> dr_ident (view d') = dr_ident (view d)"
proof -
  let ?id = "dr_ident (view d)"
  define d1 where "d1 = a_outb io d ATA_DRIVE 0xA0"
  define d2 where "d2 = delay_400ns io d1"
  define d3 where "d3 = a_outb io d2 ATA_SECTORS 0"
  define d4 where "d4 = a_outb io d3 ATA_LBA_LOW 0"
  define d5 where "d5 = a_outb io d4 ATA_LBA_MID 0"
  define d6 where "d6 = a_outb io d5 ATA_LBA_HIGH 0"
  define d7 where "d7 = a_outb io d6 ATA_COMMAND 0xEC"
  define d8 where "d8 = delay_400ns io d7"
  obtain s1 where v1: "view d1 = (view d)\<lparr>dr_dev := 0xA0, dr_settle := s1\<rparr>" "s1 \<le> 4"
    using f(1) a unfolding follows_pio_def pio_select_def d1_def ATA_DRIVE_def by blast
  have v2: "view d2 = ticks 4 (view d1)" unfolding d2_def by (rule delay_view [OF f(1)]) (simp add: v1 selected_def)
  have a2: "accepts (view d2)" using a v1 v2 by (simp add: accepts_def)
  have reg: "accepts (view e) \<Longrightarrow> p \<in> {0x1F2, 0x1F3, 0x1F4, 0x1F5} \<Longrightarrow> view (a_outb io e p x) = drive_register p x (view e)" for e p x
    using f(1) unfolding follows_pio_def pio_registers_def by blast
  have v3: "view d3 = (view d2)\<lparr>dr_count := 0\<rparr>" using reg [of d2 "0x1F2"] a2 by (simp add: d3_def drive_register_def ATA_SECTORS_def)
  have a3: "accepts (view d3)" using a2 v3 by (simp add: accepts_def)
  have v4: "view d4 = (view d3)\<lparr>dr_low := 0\<rparr>" using reg [of d3 "0x1F3"] a3 by (simp add: d4_def drive_register_def ATA_LBA_LOW_def)
  have a4: "accepts (view d4)" using a3 v4 by (simp add: accepts_def)
  have v5: "view d5 = (view d4)\<lparr>dr_mid := 0\<rparr>" using reg [of d4 "0x1F4"] a4 by (simp add: d5_def drive_register_def ATA_LBA_MID_def)
  have a5: "accepts (view d5)" using a4 v5 by (simp add: accepts_def)
  have v6: "view d6 = (view d5)\<lparr>dr_high := 0\<rparr>" using reg [of d5 "0x1F5"] a5 by (simp add: d6_def drive_register_def ATA_LBA_HIGH_def)
  have a6: "accepts (view d6)" using a5 v6 by (simp add: accepts_def)
  have k6: "selected (view d6)" "dr_mid (view d6) = 0" "dr_high (view d6) = 0" "dr_ident (view d6) = ?id"
      "dr_medium (view d6) = dr_medium (view d)" "dr_size (view d6) = dr_size (view d)"
    by (simp_all add: v1 v2 v3 v4 v5 v6 selected_def)
  obtain s lat where v7: "view d7 = drive_command s lat 0xEC (view d6)" "s \<le> 4"
    using f(1) a6 k6(1) unfolding follows_pio_def pio_command_def d7_def ATA_COMMAND_def command_ok_def by blast
  have v8: "view d8 = ticks 4 (view d7)" unfolding d8_def
    by (rule delay_view [OF f(1)]) (use k6(1) in \<open>simp add: v7 drive_command_def selected_def\<close>)
  let ?v = "\<lambda>b v. dr_settle v = 0 \<and> (b \<longrightarrow> dr_busy v = 0) \<and> dr_phase v = DataIn 0 1 ?id \<and> selected v \<and> dr_mid v = 0 \<and> dr_high v = 0
      \<and> dr_ident v = ?id \<and> dr_medium v = dr_medium (view d) \<and> dr_size v = dr_size (view d)"
  have t: "?v b v \<Longrightarrow> ?v b (ticks n v)" for b v n by (simp add: ticks_def selected_def)
  have k8: "?v False (view d8)" using v7 v8 k6 by (simp add: drive_command_def) (simp add: ticks_def selected_def)
  obtain st d9 where 9: "a_inb io d8 ATA_STATUS = (st, d9)" "status_ok st (view d8)" "view d9 = ticks 1 (view d8)"
    using status_step [OF f(1)] k8 by blast
  have st: "st \<noteq> 0" using 9(2) k8 by (simp add: status_ok_def)
  have k9: "?v False (view d9)" unfolding 9(3) by (rule t [OF k8])
  obtain d10 n where 10: "wait_bsy io d9 = Some d10" "view d10 = ticks n (view d9)" "dr_busy (view d10) = 0"
    using wait_bsy_ends [OF f(1), of d9] k9 by auto
  have k10: "?v True (view d10)" using t [OF k9, of n] 10(2,3) by simp
  obtain d11 where 11: "a_inb io d10 ATA_LBA_MID = (0, d11)" "view d11 = view d10"
    using f(2) k10 unfolding reads_back_def ATA_LBA_MID_def by (metis prod.collapse)
  obtain d12 where 12: "a_inb io d11 ATA_LBA_HIGH = (0, d12)" "view d12 = view d10"
    using f(2) k10 11(2) unfolding reads_back_def ATA_LBA_HIGH_def by (metis prod.collapse)
  obtain d13 m where 13: "wait_drq io d12 = Some (True, d13)" "view d13 = ticks m (view d12)" "dr_busy (view d13) = 0"
    using wait_drq_ends [OF f(1), of d12] k10 12(2) by auto
  have k13: "?v True (view d13)" using t [OF k10, of m] 12(2) 13(2) by simp
  then have s13: "settled (view d13) (dr_medium (view d)) (DataIn 0 1 ?id) (view d13)" by (simp add: settled_def core_def)
  have ne: "?id \<noteq> []" using len by auto
  obtain d14 where 14: "in_words io 256 d13 = (?id, d14)" "selected (view d14)" "same (view d13) (view d14)"
      "core (view d14) = (dr_medium (view d), Idle)" "dr_settle (view d14) = 0"
    using in_words_view [OF f(1) s13 13(3) ne] len by (auto simp: next_in_def)
  have "ata_init io info d = Some (True, info_of_identify ?id (info\<lparr>di_present := False\<rparr>), d14)"
    unfolding ata_init_def Let_def d1_def [symmetric] d2_def [symmetric] d3_def [symmetric] d4_def [symmetric] d5_def [symmetric]
      d6_def [symmetric] d7_def [symmetric] d8_def [symmetric] 9(1) split
    using st 10(1) 11(1) 12(1) 13(1) 14(1) by simp
  then show ?thesis using 14 k13 by (auto simp: quiet_def core_def same_def)
qed

text \<open>The text fields: two characters per word, the high byte first, padded with spaces.\<close>

definition ata_text :: "u16 list \<Rightarrow> nat \<Rightarrow> nat \<Rightarrow> u8 list" where
  "ata_text ids k n = concat (map (\<lambda>w. [ucast (drop_bit 8 w), ucast w]) (take n (drop k ids)))"

lemma id_chars_text: "id_chars ids k n = ata_text ids k n @ [0]"
proof -
  have "ucast (drop_bit 8 w AND 0xFF) = (ucast (drop_bit 8 w) :: u8)" "ucast (w AND 0xFF) = (ucast w :: u8)" for w :: u16
    by (rule bit_word_eqI; simp add: bit_simps low_byte)+
  then show ?thesis by (simp add: id_chars_def ata_text_def)
qed

lemma trim_padded:
  assumes "name \<noteq> [] \<longrightarrow> last name \<noteq> 32"
  shows "trim_spaces (length name + k) (name @ replicate k 32 @ rest) = name @ replicate k 0 @ rest"
proof (induction k arbitrary: rest)
  case 0
  show ?case
  proof (cases name rule: rev_cases)
    case (snoc n c)
    then show ?thesis using assms by (simp add: nth_append)
  qed simp
next
  case (Suc k)
  have "name @ replicate (Suc k) 32 @ rest = name @ replicate k 32 @ (32 # rest)" by (simp add: replicate_app_Cons_same)
  moreover have "(name @ replicate k 32 @ (32 # rest)) ! (length name + k) = 32"
    "(name @ replicate k 32 @ (32 # rest))[length name + k := 0] = name @ replicate k 32 @ (0 # rest)"
    by (simp_all add: nth_append list_update_append)
  ultimately have "trim_spaces (length name + Suc k) (name @ replicate (Suc k) 32 @ rest)
      = trim_spaces (length name + k) (name @ replicate k 32 @ (0 # rest))" by simp
  also have "\<dots> = name @ replicate (Suc k) 0 @ rest" using Suc [of "0 # rest"] by (simp add: replicate_app_Cons_same)
  finally show ?case .
qed

lemma text_field:
  assumes "ata_text ids k n = name @ replicate (m - length name) 32" "length name \<le> m" "name \<noteq> [] \<longrightarrow> last name \<noteq> 32"
  shows "trim_spaces m (id_chars ids k n) = name @ replicate (m + 1 - length name) 0"
proof -
  have "trim_spaces (length name + (m - length name)) (name @ replicate (m - length name) 32 @ [0]) = name @ replicate (m - length name) 0 @ [0]"
    by (rule trim_padded [OF assms(3)])
  moreover have "replicate (m - length name) (0 :: u8) @ [0] = replicate (m + 1 - length name) 0"
    using assms(2) by (simp add: replicate_append_same Suc_diff_le flip: replicate_Suc)
  ultimately show ?thesis using assms(2) by (simp add: id_chars_text assms(1))
qed

lemma unat_or_push:
  fixes x y :: "'a::len word"
  assumes "unat x < 2 ^ n" "unat y < 2 ^ k" "n + k \<le> LENGTH('a)"
  shows "unat (x OR push_bit n y) = unat x + unat y * 2 ^ n \<and> unat (x OR push_bit n y) < 2 ^ (n + k)"
proof -
  have "unat y + 1 \<le> 2 ^ k" using assms(2) by simp
  then have "(unat y + 1) * 2 ^ n \<le> 2 ^ k * 2 ^ n" by (rule mult_right_mono) simp
  then have s: "unat x + unat y * 2 ^ n < 2 ^ (n + k)" using assms(1) by (simp add: power_add mult.commute)
  have "(2 :: nat) ^ (n + k) \<le> 2 ^ LENGTH('a)" using assms(3) by (intro power_increasing) simp_all
  then have l: "unat x + unat y * 2 ^ n < 2 ^ LENGTH('a)" using s by (rule less_le_trans [rotated])
  have "take_bit n (unat x) = unat x" using assms(1) by (simp add: take_bit_nat_eq_self)
  then have x: "i < n" if "bit x i" for i
  proof -
    have "bit (take_bit n (unat x)) i" using that \<open>take_bit n (unat x) = unat x\<close> by (simp add: bit_unsigned_iff)
    then show ?thesis by (simp add: bit_take_bit_iff)
  qed
  have "x AND push_bit n y = 0" by (rule bit_word_eqI) (auto simp: bit_simps dest: x)
  then have "x OR push_bit n y = x + push_bit n y" using word_plus_and_or [of x "push_bit n y"] by simp
  moreover have "unat (push_bit n y) = unat y * 2 ^ n"
    using l by (simp add: unsigned_push_bit_eq take_bit_nat_eq_self push_bit_eq_mult [of n "unat y"])
  ultimately show ?thesis using s l by (simp add: unat_word_ariths)
qed

lemma ucast16:
  "unat (ucast (w :: u16) :: u32) = unat w" "unat (ucast (w :: u16) :: u64) = unat w" "unat w < 2 ^ 16"
proof -
  have "unat w < 2 ^ LENGTH(16)" by (rule unsigned_less)
  then show l: "unat w < 2 ^ 16" by simp
  show "unat (ucast w :: u32) = unat w" "unat (ucast w :: u64) = unat w"
    unfolding unsigned_ucast_eq using l by (simp_all add: take_bit_nat_eq_self)
qed

lemma words32: "unat (ucast (a :: u16) OR push_bit 16 (ucast (b :: u16)) :: u32) = unat a + 2 ^ 16 * unat b"
  using unat_or_push [of "ucast a :: u32" 16 "ucast b" 16] ucast16 [of a] ucast16 [of b] by simp

lemma words64:
  "unat (ucast (a :: u16) OR push_bit 16 (ucast (b :: u16)) OR push_bit 32 (ucast (c :: u16)) OR push_bit 48 (ucast (e :: u16)) :: u64)
     = unat a + 2 ^ 16 * unat b + 2 ^ 32 * unat c + 2 ^ 48 * unat e"
proof -
  have 1: "unat (ucast a OR push_bit 16 (ucast b) :: u64) = unat a + unat b * 2 ^ 16 \<and> unat (ucast a OR push_bit 16 (ucast b) :: u64) < 2 ^ 32"
    using unat_or_push [of "ucast a :: u64" 16 "ucast b" 16] ucast16 [of a] ucast16 [of b] by simp
  have 2: "unat (ucast a OR push_bit 16 (ucast b) OR push_bit 32 (ucast c) :: u64) = unat a + unat b * 2 ^ 16 + unat c * 2 ^ 32
      \<and> unat (ucast a OR push_bit 16 (ucast b) OR push_bit 32 (ucast c) :: u64) < 2 ^ 48"
    using unat_or_push [of "ucast a OR push_bit 16 (ucast b) :: u64" 32 "ucast c" 16] 1 ucast16 [of c] by (simp add: or.assoc)
  show ?thesis
    using unat_or_push [of "ucast a OR push_bit 16 (ucast b) OR push_bit 32 (ucast c) :: u64" 48 "ucast e" 16] 2 ucast16 [of e]
    by (simp add: or.assoc)
qed

lemma bit10: "((w :: u16) AND push_bit 10 1 \<noteq> 0) = bit w 10"
  by (simp add: bit_iff_and_push_bit_not_eq_0)

section \<open>No drive\<close>

text \<open>Ports with nothing behind them read as \<open>0xFF\<close>: BSY is set for ever.\<close>

lemma wait_bsy_empty:
  assumes "\<And>d. fst (a_inb io d 0x1F7) = 0xFF"
  shows "wait_bsy io d = None"
proof (rule ccontr)
  assume "wait_bsy io d \<noteq> None"
  then obtain r where r: "wait_bsy io d = Some r" by blast
  have "\<not> (\<forall>d. fst (a_inb io d 0x1F7) = 0xFF)"
  proof (rule wait_bsy.raw_induct [where P = "\<lambda>io d r. \<not> (\<forall>d. fst (a_inb io d 0x1F7) = 0xFF)", OF _ r])
    fix f and io :: "'a ata_ports" and d r
    assume IH: "\<And>io d r. f io d = Some r \<Longrightarrow> \<not> (\<forall>d. fst (a_inb io d 0x1F7) = 0xFF)"
      and e: "(let (st, d) = a_inb io d ATA_STATUS in if st AND ATA_SR_BSY \<noteq> 0 then f io d else Some d) = Some r"
    show "\<not> (\<forall>d. fst (a_inb io d 0x1F7) = 0xFF)"
    proof
      assume a: "\<forall>d. fst (a_inb io d 0x1F7) = 0xFF"
      then have "fst (a_inb io d ATA_STATUS) = 0xFF" by (simp add: ATA_STATUS_def)
      then have "f io (snd (a_inb io d ATA_STATUS)) = Some r" using e by (simp add: case_prod_unfold Let_def ATA_SR_BSY_def)
      then show False using IH a by blast
    qed
  qed
  then show False using assms by blast
qed

text \<open>On a machine without a drive on the primary channel the probe of the driver does not return.\<close>

lemma ata_init_hangs:
  assumes "\<And>d. fst (a_inb io d 0x1F7) = 0xFF"
  shows "ata_init io info d = None"
proof -
  define d8 where "d8 = delay_400ns io (a_outb io (a_outb io (a_outb io (a_outb io (a_outb io
    (delay_400ns io (a_outb io d ATA_DRIVE 0xA0)) ATA_SECTORS 0) ATA_LBA_LOW 0) ATA_LBA_MID 0) ATA_LBA_HIGH 0) ATA_COMMAND 0xEC)"
  have "a_inb io d8 ATA_STATUS = (0xFF, snd (a_inb io d8 0x1F7))" using assms by (simp add: ATA_STATUS_def prod_eq_iff)
  then show ?thesis unfolding ata_init_def Let_def d8_def [symmetric] by (simp add: wait_bsy_empty [OF assms])
qed

section \<open>Properties\<close>


text \<open>A drive behind the ports: the status settles after a read, the drive is busy for three reads of its
  status, a register or command written at the wrong time is ignored.\<close>

definition demo_command :: "u8 \<Rightarrow> drive \<Rightarrow> drive" where
  "demo_command c v = (if accepts v \<and> command_ok c v then drive_command 1 3 c v else v)"

definition demo_outb :: "drive \<Rightarrow> u16 \<Rightarrow> u8 \<Rightarrow> drive" where
  "demo_outb v p x =
     (if p = 0x1F7 then demo_command x v
      else if \<not> accepts v then v
      else if p = 0x1F6 then v\<lparr>dr_dev := x, dr_settle := 1\<rparr>
      else if p \<in> {0x1F2, 0x1F3, 0x1F4, 0x1F5} then drive_register p x v else v)"

definition demo_inb :: "drive \<Rightarrow> u16 \<Rightarrow> u8 \<times> drive" where
  "demo_inb v p =
     (if p = 0x1F7 then
        (if dr_settle v > 0 then 0x50 else if dr_busy v > 0 then 0x80 else if dr_phase v = Idle then 0x50 else 0x58, ticks 1 v)
      else if p = 0x1F4 then (dr_mid v, v) else if p = 0x1F5 then (dr_high v, v) else (0, v))"

definition demo_inw :: "drive \<Rightarrow> u16 \<Rightarrow> u16 \<times> drive" where
  "demo_inw v p = (case dr_phase v of DataIn l n (w # ws) \<Rightarrow> (w, after_in 1 3 l n ws v) | _ \<Rightarrow> (0, v))"

definition demo_outw :: "drive \<Rightarrow> u16 \<Rightarrow> u16 \<Rightarrow> drive" where
  "demo_outw v p w = (case dr_phase v of DataOut l n ws \<Rightarrow> after_out 1 3 l n (ws @ [w]) v | _ \<Rightarrow> v)"

definition demo_ports :: "drive ata_ports" where
  "demo_ports = \<lparr>a_inb = demo_inb, a_outb = demo_outb, a_inw = demo_inw, a_outw = demo_outw\<rparr>"

definition demo_ident :: "u16 list" where
  "demo_ident = (replicate 256 0x2020)[27 := 0x5051, 60 := 0, 61 := 0x1000]"

definition demo_drive :: drive where
  "demo_drive = \<lparr>dr_medium = (\<lambda>_. replicate 256 0), dr_size = 2 ^ 28, dr_ident = demo_ident, dr_count = 0, dr_low = 0, dr_mid = 0,
     dr_high = 0, dr_dev = 0, dr_settle = 0, dr_busy = 0, dr_phase = Idle\<rparr>"

lemma ex_le4: "P (Suc 0) \<Longrightarrow> \<exists>s\<le>4. P s"
  by (rule exI [of _ "Suc 0"]) simp

lemma demo_follows: "follows_pio demo_ports (\<lambda>v. v)"
  unfolding follows_pio_def
proof (intro conjI)
  show "pio_status demo_ports (\<lambda>v. v)" by (auto simp: pio_status_def demo_ports_def demo_inb_def status_ok_def)
  show "pio_select demo_ports (\<lambda>v. v)"
    unfolding pio_select_def by (auto simp: demo_ports_def demo_outb_def intro!: exI [of _ "1 :: nat"])
  show "pio_registers demo_ports (\<lambda>v. v)" by (auto simp: pio_registers_def demo_ports_def demo_outb_def)
  show "pio_command demo_ports (\<lambda>v. v)"
    unfolding pio_command_def by (simp add: demo_ports_def demo_outb_def demo_command_def) (intro allI impI ex_le4, blast)
  show "pio_in demo_ports (\<lambda>v. v)" unfolding pio_in_def by (simp add: demo_ports_def demo_inw_def) (intro allI impI ex_le4, blast)
  show "pio_out demo_ports (\<lambda>v. v)" unfolding pio_out_def by (simp add: demo_ports_def demo_outw_def) (intro allI impI ex_le4, blast)
qed

lemma demo_bears: "prompt demo_ports (\<lambda>v. v)" "tolerant demo_ports (\<lambda>v. v)" "reads_back demo_ports (\<lambda>v. v)"
proof -
  show "prompt demo_ports (\<lambda>v. v)" by (auto simp: prompt_def demo_ports_def demo_outw_def after_out_def)
  show "reads_back demo_ports (\<lambda>v. v)" by (auto simp: reads_back_def demo_ports_def demo_inb_def)
  show "tolerant demo_ports (\<lambda>v. v)" unfolding tolerant_def
  proof (intro allI impI)
    fix v :: drive assume "selected v" "dr_phase v = Idle" "dr_settle v \<le> 4"
    show "\<exists>s\<le>4. \<exists>lat. a_outb demo_ports v 0x1F7 0xE7 = v\<lparr>dr_settle := s, dr_busy := lat\<rparr>"
    proof (cases "accepts v \<and> command_ok 0xE7 v")
      case True
      then have "a_outb demo_ports v 0x1F7 0xE7 = v\<lparr>dr_settle := 1, dr_busy := 3\<rparr>"
        by (simp add: demo_ports_def demo_outb_def demo_command_def drive_command_def)
      then show ?thesis by (metis one_le_numeral)
    next
      case False
      then have "a_outb demo_ports v 0x1F7 0xE7 = v\<lparr>dr_settle := dr_settle v, dr_busy := dr_busy v\<rparr>"
        by (auto simp: demo_ports_def demo_outb_def demo_command_def)
      then show ?thesis using \<open>dr_settle v \<le> 4\<close> by blast
    qed
  qed
qed

lemma demo_quiet: "quiet demo_drive" "accepts demo_drive" "medium_ok (dr_medium demo_drive)" "dr_size demo_drive = 2 ^ 28"
  by (simp_all add: quiet_def accepts_def medium_ok_def selected_def demo_drive_def)


text \<open>The driver's FLUSH CACHE behind a sector: on a drive that raises BSY while it stores the sector it is
  written while BSY is set, which the standard forbids.\<close>

lemma ata_flush_too_early:
  assumes f: "follows_pio io view" and p: "di_present info" and q: "quiet (view d)" and room: "unat lba mod 2 ^ 28 < dr_size (view d)"
    and slow: "\<And>d l ws w. length ws = 255 \<Longrightarrow> dr_phase (view d) = DataOut l 1 ws \<Longrightarrow> dr_busy (view (a_outw io d 0x1F0 w)) > 0"
  shows "\<exists>d3. dr_busy (view d3) > 0
    \<and> ata_write_sector io info lba buffer d = map_option (Pair True) (wait_bsy io (a_outb io d3 ATA_COMMAND 0xE7))"
  using write_one_flush [OF f p q room, of buffer] slow by blast

text \<open>So the protocol does not give a write its meaning.  These ports follow it as well, but a command
  written while the drive is busy destroys sector 0: the write of sector 0 returns true, and the data
  is not on the medium.\<close>

definition fragile_ports :: "drive ata_ports" where
  "fragile_ports = demo_ports\<lparr>a_outb := \<lambda>v p x. if p = 0x1F7 \<and> dr_busy v > 0 then v\<lparr>dr_medium := (dr_medium v)(0 := replicate 256 0)\<rparr>
     else demo_outb v p x\<rparr>"

lemma fragile_follows: "follows_pio fragile_ports (\<lambda>v. v)"
proof -
  have "accepts v \<Longrightarrow> a_outb fragile_ports v p x = a_outb demo_ports v p x" for v p x
    by (simp add: fragile_ports_def demo_ports_def accepts_def)
  moreover have "a_inb fragile_ports = a_inb demo_ports" "a_inw fragile_ports = a_inw demo_ports" "a_outw fragile_ports = a_outw demo_ports"
    by (simp_all add: fragile_ports_def)
  ultimately show ?thesis using demo_follows
    unfolding follows_pio_def pio_status_def pio_select_def pio_registers_def pio_command_def pio_in_def pio_out_def by simp
qed

lemma words_at_nines: "words_at (replicate 512 9) 0 \<noteq> replicate 256 0"
proof
  assume "words_at (replicate 512 9) 0 = replicate 256 0"
  then have "words_at (replicate 512 9) 0 ! 0 = replicate 256 0 ! 0" by simp
  then show False by (simp add: words_at_def rd16_def)
qed

lemma ata_write_lost:
  "\<exists>d'. follows_pio fragile_ports (\<lambda>v. v) \<and> quiet demo_drive
    \<and> ata_write_sector fragile_ports (info_boot\<lparr>di_present := True\<rparr>) 0 (replicate 512 9) demo_drive = Some (True, d')
    \<and> dr_medium d' 0 = replicate 256 0 \<and> words_at (replicate 512 9) 0 \<noteq> replicate 256 0"
proof -
  let ?io = fragile_ports and ?info = "info_boot\<lparr>di_present := True\<rparr>"
  have p: "di_present ?info" by simp
  have r: "unat (0 :: u32) mod 2 ^ 28 < dr_size demo_drive" by (simp add: demo_quiet)
  obtain d3 d2 l ws where 3: "ata_write_sector ?io ?info 0 (replicate 512 9) demo_drive
        = map_option (Pair True) (wait_bsy ?io (a_outb ?io d3 ATA_COMMAND 0xE7))" "resting d3"
      "length ws = 255" "dr_phase d2 = DataOut l 1 ws" "d3 = a_outw ?io d2 0x1F0 (last (words_at (replicate 512 9) 0))"
    using write_one_flush [OF fragile_follows p demo_quiet(1) r, of "replicate 512 9"] by blast
  have "dr_busy d3 = 3" using 3(3,4) by (simp add: 3(5) fragile_ports_def demo_ports_def demo_outw_def after_out_def)
  then have o: "a_outb ?io d3 ATA_COMMAND 0xE7 = d3\<lparr>dr_medium := (dr_medium d3)(0 := replicate 256 0)\<rparr>"
    by (simp add: fragile_ports_def ATA_COMMAND_def)
  obtain d4 n where 4: "wait_bsy ?io (a_outb ?io d3 ATA_COMMAND 0xE7) = Some d4" "d4 = ticks n (a_outb ?io d3 ATA_COMMAND 0xE7)"
    using wait_bsy_ends [OF fragile_follows, of "a_outb ?io d3 ATA_COMMAND 0xE7"] 3(2) o by (auto simp: resting_def selected_def)
  have "dr_medium d4 0 = replicate 256 0" using o by (simp add: 4(2))
  then show ?thesis using 3(1) 4(1) fragile_follows demo_quiet(1) words_at_nines by simp
qed

text \<open>C33. The probe identifies a drive.  On an idle drive that follows the protocol, and whose LBA registers
  read back as they were written (\<open>reads_back\<close>), \<open>init\<close> returns
  true: no wait goes on for ever, the model and the serial number are the drive's texts without the
  spaces that pad them, the firmware and the numbers of sectors are those of the IDENTIFY block, with
  48 bits where the drive has them, and the drive is left idle and its medium untouched.\<close>

theorem ata_init_identifies:
  assumes f: "follows_pio io view" "reads_back io view" and a: "accepts (view d)"
    and ids: "dr_ident (view d) = ids" "length ids = 256"
    and m: "ata_text ids 27 20 = model @ replicate (40 - length model) 32" "length model \<le> 40" "model \<noteq> [] \<longrightarrow> last model \<noteq> 32"
    and s: "ata_text ids 10 10 = serial @ replicate (20 - length serial) 32" "length serial \<le> 20" "serial \<noteq> [] \<longrightarrow> last serial \<noteq> 32"
  shows "\<exists>info' d'. ata_init io info d = Some (True, info', d') \<and> di_present info'
    \<and> di_model info' = model @ replicate (41 - length model) 0
    \<and> di_serial info' = serial @ replicate (21 - length serial) 0
    \<and> di_firmware info' = ata_text ids 23 4 @ [0]
    \<and> unat (di_sectors info') = unat (ids ! 60) + 2 ^ 16 * unat (ids ! 61)
    \<and> (di_lba48 info' \<longleftrightarrow> bit (ids ! 83) 10)
    \<and> unat (di_sectors48 info') = (if bit (ids ! 83) 10
         then unat (ids ! 100) + 2 ^ 16 * unat (ids ! 101) + 2 ^ 32 * unat (ids ! 102) + 2 ^ 48 * unat (ids ! 103)
         else unat (di_sectors info'))
    \<and> quiet (view d') \<and> dr_medium (view d') = dr_medium (view d)"
proof -
  let ?info = "info_of_identify ids (info\<lparr>di_present := False\<rparr>)"
  obtain d' where 1: "ata_init io info d = Some (True, ?info, d')" "quiet (view d')" "dr_medium (view d') = dr_medium (view d)"
    using init_view [OF f a, of info] ids by auto
  have t: "di_model ?info = model @ replicate (41 - length model) 0" "di_serial ?info = serial @ replicate (21 - length serial) 0"
    using text_field [OF m] text_field [OF s] by (simp_all add: info_of_identify_def Let_def)
  have n: "unat (di_sectors ?info) = unat (ids ! 60) + 2 ^ 16 * unat (ids ! 61)"
    using words32 by (simp add: info_of_identify_def Let_def)
  have b: "di_lba48 ?info \<longleftrightarrow> bit (ids ! 83) 10" using bit10 by (simp add: info_of_identify_def Let_def)
  have n48: "unat (di_sectors48 ?info) = (if bit (ids ! 83) 10
         then unat (ids ! 100) + 2 ^ 16 * unat (ids ! 101) + 2 ^ 32 * unat (ids ! 102) + 2 ^ 48 * unat (ids ! 103) else unat (di_sectors ?info))"
  proof -
    have e: "di_sectors48 ?info = (if bit (ids ! 83) 10 then ucast (ids ! 100) OR push_bit 16 (ucast (ids ! 101))
        OR push_bit 32 (ucast (ids ! 102)) OR push_bit 48 (ucast (ids ! 103)) else ucast (di_sectors ?info))"
      unfolding info_of_identify_def Let_def bit10 by simp
    have "unat (ucast (x :: u32) :: u64) = unat x" for x
      using unsigned_less [of x, where ?'a = nat] by (simp add: unsigned_ucast_eq take_bit_nat_eq_self)
    then show ?thesis unfolding e using words64 by simp
  qed
  have "di_firmware ?info = ata_text ids 23 4 @ [0]" "di_present ?info" by (simp_all add: info_of_identify_def Let_def id_chars_text)
  then show ?thesis using 1 t n b n48 by blast
qed

theorem ata_init_identifies_witness:
  "\<exists>info' d'. ata_init demo_ports info_boot demo_drive = Some (True, info', d') \<and> di_model info' = [0x50, 0x51] @ replicate 39 0
     \<and> unat (di_sectors info') = 2 ^ 28 \<and> unat (di_sectors48 info') = 2 ^ 28"
proof -
  have "dr_ident demo_drive = demo_ident" "length demo_ident = 256" by (simp_all add: demo_drive_def demo_ident_def)
  moreover have "ata_text demo_ident 27 20 = [0x50, 0x51] @ replicate 38 32" "ata_text demo_ident 10 10 = [] @ replicate 20 32" by code_simp+
  moreover have "demo_ident ! 60 = 0" "demo_ident ! 61 = 0x1000" "demo_ident ! 83 = 0x2020" by (simp_all add: demo_ident_def)
  moreover have "\<not> bit (0x2020 :: u16) 10" by simp
  ultimately show ?thesis
    using ata_init_identifies [OF demo_follows demo_bears(3) demo_quiet(2), of demo_ident "[0x50, 0x51]" "[]" info_boot] by auto
qed

text \<open>The driver takes 32-bit sector numbers but puts only 28 bits of them into the registers, and
  does not check: a write to sector 2^28 replaces sector 0, the partition table.\<close>

theorem ata_lba28_wraps:
  assumes "follows_pio io view" "tolerant io view" "quiet (view d)" "0 < dr_size (view d)" "di_present info" "unat lba = 2 ^ 28"
  shows "\<exists>d'. ata_write_sector io info lba buffer d = Some (True, d') \<and> dr_medium (view d') 0 = words_at buffer 0
    \<and> dr_medium (view d') (2 ^ 28) = dr_medium (view d) (2 ^ 28)"
proof -
  obtain d' where "ata_write_sector io info lba buffer d = Some (True, d')"
      "dr_medium (view d') = (dr_medium (view d))(0 := words_at buffer 0)"
    using write_one [OF assms(1,2,5,3), of lba buffer] assms(4,6) by auto
  then show ?thesis by auto
qed

theorem ata_lba28_wraps_witness:
  "\<exists>d'. ata_write_sector demo_ports (info_boot\<lparr>di_present := True\<rparr>) 0x10000000 (replicate 512 9) demo_drive = Some (True, d')
     \<and> dr_medium d' 0 \<noteq> dr_medium demo_drive 0"
proof -
  have "\<exists>d'. ata_write_sector demo_ports (info_boot\<lparr>di_present := True\<rparr>) 0x10000000 (replicate 512 9) demo_drive = Some (True, d')
      \<and> dr_medium d' 0 = words_at (replicate 512 9) 0 \<and> dr_medium d' (2 ^ 28) = dr_medium demo_drive (2 ^ 28)"
    by (rule ata_lba28_wraps [OF demo_follows demo_bears(2) demo_quiet(1)]) (simp_all add: demo_quiet)
  moreover have "words_at (replicate 512 9) 0 \<noteq> replicate 256 0" by (rule words_at_nines)
  ultimately show ?thesis by (auto simp: demo_drive_def)
qed

section \<open>The driver as a block device\<close>

text \<open>What the file systems see of the driver and its drive: the medium, between two operations, below
  the 2^28 sectors that the driver can address.\<close>

definition on_medium :: "(nat \<Rightarrow> u16 list) \<Rightarrow> drive" where "on_medium m = demo_drive\<lparr>dr_medium := m\<rparr>"

definition ata_info :: disk_info where "ata_info = info_boot\<lparr>di_present := True, di_sectors := 0x10000000\<rparr>"

definition ata_blk :: "(nat \<Rightarrow> u16 list) blk" where
  "ata_blk = \<lparr>blk_init = (\<lambda>m. case ata_init demo_ports info_boot (on_medium m) of Some (ok, info, d) \<Rightarrow> (ok, dr_medium d) | None \<Rightarrow> (False, m)),
     blk_present = (\<lambda>_. di_present ata_info), blk_sectors = (\<lambda>_. di_sectors ata_info),
     blk_read = (\<lambda>m l. if unat l < 2 ^ 28 \<and> length (m (unat l)) = 256
       then (case ata_read_sector demo_ports ata_info l (on_medium m) of Some (True, bs, d) \<Rightarrow> Some bs | _ \<Rightarrow> None) else None),
     blk_write = (\<lambda>m l bs. if unat l < 2 ^ 28
       then (case ata_write_sector demo_ports ata_info l bs (on_medium m) of Some (ok, d) \<Rightarrow> (ok, dr_medium d) | None \<Rightarrow> (False, m))
       else (False, m)),
     blk_reads = (\<lambda>m l n. case ata_read_sectors demo_ports ata_info l n (on_medium m) of Some (True, bs, d) \<Rightarrow> Some bs | _ \<Rightarrow> None),
     blk_writes = (\<lambda>m l n bs. case ata_write_sectors demo_ports ata_info l n bs (on_medium m) of Some (ok, d) \<Rightarrow> (ok, dr_medium d) | None \<Rightarrow> (False, m)),
     blk_flush = (\<lambda>m. case ata_flush demo_ports ata_info (on_medium m) of Some (ok, d) \<Rightarrow> (ok, dr_medium d) | None \<Rightarrow> (False, m))\<rparr>"

lemma on_medium_quiet [simp]: "quiet (on_medium m)" "dr_size (on_medium m) = 2 ^ 28" "dr_medium (on_medium m) = m"
  by (simp_all add: on_medium_def quiet_def selected_def demo_drive_def)

lemma ata_info_present [simp]: "di_present ata_info"
  by (simp add: ata_info_def)

lemma ata_blk_read: "blk_read ata_blk m l =
    (if unat l < 2 ^ 28 \<and> length (m (unat l)) = 256 then Some (bytes_of_words (m (unat l))) else None)"
proof (cases "unat l < 2 ^ 28 \<and> length (m (unat l)) = 256")
  case True
  then have "unat l mod 2 ^ 28 < dr_size (on_medium m)" "length (dr_medium (on_medium m) (unat l mod 2 ^ 28)) = 256" by simp_all
  from read_one [OF demo_follows ata_info_present on_medium_quiet(1) this] True
  show ?thesis by (auto simp: ata_blk_def)
next
  case False
  then show ?thesis by (simp only: ata_blk_def blk.select_convs if_False)
qed

lemma ata_blk_write: "blk_write ata_blk m l bs = (if unat l < 2 ^ 28 then (True, m(unat l := words_at bs 0)) else (False, m))"
proof (cases "unat l < 2 ^ 28")
  case True
  then have "unat l mod 2 ^ 28 < dr_size (on_medium m)" by simp
  from write_one [OF demo_follows demo_bears(2) ata_info_present on_medium_quiet(1) this, of bs] True
  show ?thesis by (auto simp: ata_blk_def)
qed (simp add: ata_blk_def)

lemma ata_blk_flush: "blk_flush ata_blk m = (True, m)"
proof -
  have "resting (on_medium m)" using on_medium_quiet(1) [of m] by (simp add: quiet_def resting_def)
  from flush_rests [OF demo_follows this] show ?thesis
    using demo_bears(2) by (auto simp: ata_blk_def ata_flush_def)
qed

lemma length_bytes_of_words: "length (bytes_of_words ws) = 2 * length ws"
  by (induction ws) (simp_all add: bytes_of_words_def le16_def)

interpretation ata_dev: block_device ata_blk
proof
  fix d :: "nat \<Rightarrow> u16 list" and lba bs ok d' l
  show "blk_read ata_blk d lba = Some bs \<Longrightarrow> length bs = 512"
    by (auto simp: ata_blk_read length_bytes_of_words split: if_splits)
  show "blk_write ata_blk d lba bs = (True, d') \<Longrightarrow> length bs = 512 \<Longrightarrow> blk_read ata_blk d' lba = Some bs"
    using words_bytes [of 0 bs]
    by (auto simp: ata_blk_read ata_blk_write words_at_def [of _ 0] subbuf_def split: if_splits)
  show "blk_write ata_blk d lba bs = (ok, d') \<Longrightarrow> l \<noteq> lba \<Longrightarrow> blk_read ata_blk d' l = blk_read ata_blk d l"
    by (auto simp: ata_blk_read ata_blk_write word_unat_eq_iff split: if_splits)
qed (auto simp: ata_blk_flush, simp_all add: ata_blk_def)

interpretation ata_rel: reliable_device ata_blk medium_ok "2 ^ 28"
  by unfold_locales (auto simp: ata_blk_read ata_blk_write ata_blk_flush medium_ok_def words_at_def)

end
