(* ===== verification/Interrupts.thy ===== *)
theory Interrupts
  imports Prelude
begin

text \<open>
  The interrupt side of the kernel: the timer (\<open>kernel/pit.cpp\<close>), the interrupt controllers
  (\<open>kernel/pic.cpp\<close>), the descriptor table (\<open>kernel/idt.cpp\<close>) and the common handler
  (\<open>kernel/isr.cpp\<close>).  What is written to ports is a list; the addresses of the assembly stubs and
  the code segment are parameters.
\<close>

type_synonym port_writes = "(u16 \<times> u8) list"

section \<open>Timer\<close>

definition pit_divisor :: "u32 \<Rightarrow> u32 option" where
  "pit_divisor hz = (if hz = 0 then None else Some (1193180 div hz))"

definition pit_init :: "u32 \<Rightarrow> port_writes option" where
  "pit_init hz = map_option (\<lambda>divisor.
     [(0x43, 0x36), (0x40, ucast (divisor AND 0xFF)), (0x40, ucast (drop_bit 8 divisor AND 0xFF))]) (pit_divisor hz)"

definition pit_handle :: "u64 \<Rightarrow> u64" where "pit_handle ticks = ticks + 1"

definition wait_ticks :: "u64 \<Rightarrow> u64" where
  "wait_ticks ms = (if ms div 10 = 0 \<and> ms > 0 then 1 else ms div 10)"

text \<open>\<open>while (ticks < end) hlt;\<close> where \<open>wake t\<close> is the counter after the interrupt that ends a halt at
  \<open>t\<close>.\<close>

partial_function (option) sleep_until :: "(u64 \<Rightarrow> u64) \<Rightarrow> u64 \<Rightarrow> u64 \<Rightarrow> u64 option" where
  "sleep_until wake stop ticks = (if ticks < stop then sleep_until wake stop (wake ticks) else Some ticks)"

declare sleep_until.simps [code]

definition pit_sleep :: "(u64 \<Rightarrow> u64) \<Rightarrow> u64 \<Rightarrow> u64 \<Rightarrow> u64 option" where
  "pit_sleep wake ms ticks = sleep_until wake (ticks + wait_ticks ms) ticks"

section \<open>Interrupt controllers\<close>

definition pic_remap :: "u8 \<Rightarrow> u8 \<Rightarrow> port_writes" where
  "pic_remap offset1 offset2 = concat (map (\<lambda>w. [w, (0x80, 0)])
     [(0x20, 0x11), (0xA0, 0x11), (0x21, offset1), (0xA1, offset2), (0x21, 0x04), (0xA1, 0x02),
      (0x21, 0x01), (0xA1, 0x01), (0x21, 0xFC), (0xA1, 0xFF)])"

definition pic_eoi :: "u8 \<Rightarrow> port_writes" where
  "pic_eoi irq = (if irq \<ge> 8 then [(0xA0, 0x20)] else []) @ [(0x20, 0x20)]"

definition pic_stop :: port_writes where
  "pic_stop = [(0x21, 0xFF), (0xA1, 0xFF), (0x80, 0)]"

definition irq_handler :: "u64 \<Rightarrow> u64 \<Rightarrow> u64 \<times> port_writes" where
  "irq_handler irq ticks =
     (if irq = 32 then pit_handle ticks else ticks,
      if irq \<ge> 32 \<and> irq \<le> 47 then pic_eoi (ucast (irq - 32)) else [])"

section \<open>Descriptor table\<close>

record idt_entry =
  isr_low :: u16
  kernel_cs :: u16
  ist :: u8
  attributes :: u8
  isr_mid :: u16
  isr_high :: u32
  reserved :: u32

definition set_gate :: "u8 \<Rightarrow> u64 \<Rightarrow> u16 \<Rightarrow> u8 \<Rightarrow> idt_entry list \<Rightarrow> idt_entry list" where
  "set_gate num base sel flags table = table[unat num :=
     \<lparr>isr_low = ucast (base AND 0xFFFF), kernel_cs = sel, ist = 0, attributes = flags,
      isr_mid = ucast (drop_bit 16 base AND 0xFFFF), isr_high = ucast (drop_bit 32 base AND 0xFFFFFFFF), reserved = 0\<rparr>]"

definition idt_init :: "u64 \<Rightarrow> (nat \<Rightarrow> u64) \<Rightarrow> u16 \<Rightarrow> idt_entry list \<Rightarrow> idt_entry list" where
  "idt_init isr_default isr cs table =
     (let table = fold (\<lambda>i. set_gate (of_nat i) isr_default cs 0x8E) [0..<32] table;
          table = fold (\<lambda>i. set_gate (of_nat i) isr_default cs 0x8E) [48..<256] table
      in fold (\<lambda>i. set_gate (of_nat i) (isr i) cs 0x8E) [32..<48] table)"

text \<open>The limit that \<open>lidt\<close> gets: \<open>(uint16_t)sizeof(idt_entry) * 256 - 1\<close>.\<close>

definition idt_limit :: u16 where "idt_limit = ucast (16 * 256 - 1 :: u32)"

section \<open>What is installed\<close>

text \<open>The address the processor reads from a gate.\<close>

definition gate_target :: "idt_entry \<Rightarrow> u64" where
  "gate_target e = ucast (isr_low e) OR push_bit 16 (ucast (isr_mid e)) OR push_bit 32 (ucast (isr_high e))"

lemma gate_roundtrip:
  "unat num < length table \<Longrightarrow> gate_target (set_gate num base sel flags table ! unat num) = base"
proof -
  assume n: "unat num < length table"
  have m: "base AND 0xFFFF = take_bit 16 base" "drop_bit 16 base AND 0xFFFF = take_bit 16 (drop_bit 16 base)"
    "drop_bit 32 base AND 0xFFFFFFFF = take_bit 32 (drop_bit 32 base)"
    by (simp_all only: take_bit_eq_mask) (simp_all add: mask_eq_exp_minus_1)
  have "ucast (ucast (take_bit 16 base) :: u16) OR push_bit 16 (ucast (ucast (take_bit 16 (drop_bit 16 base)) :: u16))
      OR push_bit 32 (ucast (ucast (take_bit 32 (drop_bit 32 base)) :: u32)) = (base :: u64)"
  proof (rule bit_word_eqI)
    fix k assume "k < LENGTH(64)"
    then consider "k < 16" | "16 \<le> k \<and> k < 32" | "32 \<le> k \<and> k < 64" by fastforce
    then show "bit (ucast (ucast (take_bit 16 base) :: u16) OR push_bit 16 (ucast (ucast (take_bit 16 (drop_bit 16 base)) :: u16))
      OR push_bit 32 (ucast (ucast (take_bit 32 (drop_bit 32 base)) :: u32)) :: u64) k = bit base k"
      by cases (auto simp: bit_simps)
  qed
  then show ?thesis using n unfolding set_gate_def gate_target_def m by simp
qed

definition gate_ok :: "idt_entry \<Rightarrow> u64 \<Rightarrow> u16 \<Rightarrow> bool" where
  "gate_ok e target cs \<longleftrightarrow> gate_target e = target \<and> kernel_cs e = cs \<and> attributes e = 0x8E \<and> ist e = 0"

lemma set_gate_ok: "unat num < length table \<Longrightarrow> gate_ok (set_gate num base cs 0x8E table ! unat num) base cs"
  using gate_roundtrip [of num table base cs "0x8E"] by (simp add: gate_ok_def) (simp add: set_gate_def)

lemma gates_fold:
  assumes "\<forall>i \<in> set is. i < 256" "length table = 256"
  shows "length (fold (\<lambda>i. set_gate (of_nat i) (h i) cs 0x8E) is table) = 256
    \<and> (\<forall>k < 256. if k \<in> set is then gate_ok (fold (\<lambda>i. set_gate (of_nat i) (h i) cs 0x8E) is table ! k) (h k) cs
        else fold (\<lambda>i. set_gate (of_nat i) (h i) cs 0x8E) is table ! k = table ! k)"
  using assms
proof (induction "is" rule: rev_induct)
  case (snoc i "is")
  let ?t = "fold (\<lambda>i. set_gate (of_nat i) (h i) cs 0x8E) is table"
  have u: "unat (of_nat i :: u8) = i" using snoc.prems(1) by (intro unat_of_nat_eq) simp
  have l: "length ?t = 256" and ih: "\<forall>k < 256. if k \<in> set is then gate_ok (?t ! k) (h k) cs else ?t ! k = table ! k"
    using snoc by simp_all
  have g: "gate_ok (set_gate (of_nat i) (h i) cs 0x8E ?t ! i) (h i) cs"
    using set_gate_ok [of "of_nat i" ?t "h i" cs] u l snoc.prems(1) by simp
  have o: "set_gate (of_nat i) (h i) cs 0x8E ?t ! k = ?t ! k" if "k \<noteq> i" for k
    using that u by (simp add: set_gate_def)
  have "length (set_gate (of_nat i) (h i) cs 0x8E ?t) = 256" using l by (simp add: set_gate_def)
  moreover have "if k \<in> set (is @ [i]) then gate_ok (set_gate (of_nat i) (h i) cs 0x8E ?t ! k) (h k) cs
      else set_gate (of_nat i) (h i) cs 0x8E ?t ! k = table ! k" if "k < 256" for k
    using g o [of k] ih that by (cases "k = i") auto
  ultimately show ?case by simp
qed simp

lemma idt_installed:
  assumes "length table = 256" "v < 256"
  shows "gate_ok (idt_init isr_default isr cs table ! v) (if 32 \<le> v \<and> v < 48 then isr v else isr_default) cs"
proof -
  define t1 where "t1 = fold (\<lambda>i. set_gate (of_nat i) isr_default cs 0x8E) [0..<32] table"
  define t2 where "t2 = fold (\<lambda>i. set_gate (of_nat i) isr_default cs 0x8E) [48..<256] t1"
  define t3 where "t3 = fold (\<lambda>i. set_gate (of_nat i) (isr i) cs 0x8E) [32..<48] t2"
  have e: "idt_init isr_default isr cs table = t3" by (simp only: idt_init_def Let_def t1_def t2_def t3_def)
  have 1: "length t1 = 256 \<and> (\<forall>k < 256. if k \<in> set [0..<32] then gate_ok (t1 ! k) isr_default cs else t1 ! k = table ! k)"
    unfolding t1_def by (rule gates_fold [OF _ assms(1)]) (auto simp only: set_upt atLeastLessThan_iff)
  have 2: "length t2 = 256 \<and> (\<forall>k < 256. if k \<in> set [48..<256] then gate_ok (t2 ! k) isr_default cs else t2 ! k = t1 ! k)"
    unfolding t2_def by (rule gates_fold [OF _ conjunct1 [OF 1]]) (auto simp only: set_upt atLeastLessThan_iff)
  have 3: "length t3 = 256 \<and> (\<forall>k < 256. if k \<in> set [32..<48] then gate_ok (t3 ! k) (isr k) cs else t3 ! k = t2 ! k)"
    unfolding t3_def by (rule gates_fold [OF _ conjunct1 [OF 2]]) (auto simp only: set_upt atLeastLessThan_iff)
  have s: "v \<in> set [a..<b] \<longleftrightarrow> a \<le> v \<and> v < b" for a b by simp
  have "(if 32 \<le> v \<and> v < 48 then gate_ok (t3 ! v) (isr v) cs else t3 ! v = t2 ! v)"
    "(if 48 \<le> v \<and> v < 256 then gate_ok (t2 ! v) isr_default cs else t2 ! v = t1 ! v)"
    "(if 0 \<le> v \<and> v < 32 then gate_ok (t1 ! v) isr_default cs else t1 ! v = table ! v)"
    using conjunct2 [OF 1] conjunct2 [OF 2] conjunct2 [OF 3] assms(2) unfolding s [symmetric] by blast+
  then show ?thesis unfolding e using assms(2) by (cases "v < 32"; cases "v < 48") (simp_all split: if_splits)
qed

section \<open>Sleeping\<close>

text \<open>With a counter that advances by one, \<open>sleep\<close> returns after exactly its number of ticks.\<close>

lemma sleep_until_ends:
  "unat t \<le> unat stop \<Longrightarrow> sleep_until pit_handle stop t = Some stop"
proof (induction "unat stop - unat t" arbitrary: t)
  case 0
  then have "t = stop" by (simp add: word_unat_eq_iff)
  then show ?case by (subst sleep_until.simps) simp
next
  case (Suc n)
  have lt: "unat t < unat stop" using Suc(2) by simp
  have "unat stop < 2 ^ LENGTH(64)" by (rule unsigned_less)
  then have u: "unat (t + 1) = unat t + 1" using lt by (subst unat_add_no_overflow) simp_all
  have "sleep_until pit_handle stop (t + 1) = Some stop" using Suc u lt by simp
  then show ?case using lt by (subst sleep_until.simps) (simp add: word_less_nat_alt pit_handle_def)
qed

lemma sleep_ticks:
  assumes "unat t + unat (wait_ticks ms) < 2 ^ 64"
  shows "pit_sleep pit_handle ms t = Some (t + wait_ticks ms)"
proof -
  have "unat (t + wait_ticks ms) = unat t + unat (wait_ticks ms)"
    using assms by (subst unat_add_no_overflow) simp_all
  then show ?thesis unfolding pit_sleep_def by (intro sleep_until_ends) simp
qed

text \<open>A request that is no multiple of 10 ms is cut, so the wait is shorter than asked for.\<close>

lemma sleep_cuts: "pit_sleep pit_handle 19 0 = Some 1"
  by (subst sleep_ticks) (simp_all add: wait_ticks_def)

end
