(* ===== verification/CmdText.thy ===== *)
theory CmdText
  imports Fmt LibMem "HOL-Library.Signed_Division"
begin

text \<open>
  Numbers and words of the command line, \<open>shell/commands.cpp\<close>: reading integers and fixed-point
  decimals, printing them, comparing words without case, and the calculator.  \<open>int\<close> and
  \<open>std::int64_t\<close> values are integers; a result outside the type is undefined and becomes \<open>None\<close>.
\<close>

section \<open>Reading\<close>

definition is_digit :: "u8 \<Rightarrow> bool" where "is_digit c \<longleftrightarrow> 48 \<le> c \<and> c \<le> 57"

definition digit_val :: "u8 \<Rightarrow> int" where "digit_val c = uint c - 48"

definition in_range :: "nat \<Rightarrow> int \<Rightarrow> bool" where "in_range w n \<longleftrightarrow> - (2 ^ (w - 1)) \<le> n \<and> n < 2 ^ (w - 1)"

definition skip_spaces :: "cstr \<Rightarrow> cstr" where "skip_spaces = dropWhile (\<lambda>c. c = 32)"
definition skip_word :: "cstr \<Rightarrow> cstr" where "skip_word = dropWhile (\<lambda>c. c \<noteq> 32)"

text \<open>A sign before a number: whether it is negative, and the rest.\<close>

definition sign_of :: "cstr \<Rightarrow> bool \<times> cstr" where
  "sign_of s = (case s of [] \<Rightarrow> (False, [])
     | c # cs \<Rightarrow> if c = 45 then (True, cs) else if c = 43 then (False, cs) else (False, s))"

fun atoi_digits :: "cstr \<Rightarrow> int \<Rightarrow> int option" where
  "atoi_digits [] result = Some result"
| "atoi_digits (c # cs) result =
     (if is_digit c
      then let r = result * 10 + digit_val c in if in_range 32 r then atoi_digits cs r else None
      else Some result)"

definition simple_atoi :: "cstr \<Rightarrow> int option" where
  "simple_atoi s =
     (let (neg, s) = sign_of (skip_spaces s) in map_option (\<lambda>r. if neg then - r else r) (atoi_digits s 0))"

definition lower :: "u8 \<Rightarrow> u8" where "lower c = (if 65 \<le> c \<and> c \<le> 90 then c + 32 else c)"

fun streq_ci :: "cstr \<Rightarrow> cstr \<Rightarrow> bool" where
  "streq_ci (a # as) (b # bs) = (lower a = lower b \<and> streq_ci as bs)"
| "streq_ci as bs = (as = [] \<and> bs = [])"

definition FIXED_SCALE :: int where "FIXED_SCALE = 10000"

text \<open>The digits before the point, cut at 10^11, and what follows them.\<close>

fun atof_int :: "cstr \<Rightarrow> int \<Rightarrow> int \<times> cstr" where
  "atof_int [] result = (result, [])"
| "atof_int (c # cs) result =
     (if is_digit c
      then let r = result * 10 + digit_val c
           in if r > 100000000000 then (100000000000, dropWhile is_digit (c # cs)) else atof_int cs r
      else (result, c # cs))"

fun atof_frac :: "cstr \<Rightarrow> int \<Rightarrow> int \<Rightarrow> int" where
  "atof_frac [] frac result = result"
| "atof_frac (c # cs) frac result =
     (if is_digit c \<and> frac > 0 then atof_frac cs (frac div 10) (result + digit_val c * frac) else result)"

definition simple_atof :: "cstr \<Rightarrow> int" where
  "simple_atof s =
     (let (neg, s) = sign_of (skip_spaces s);
          (result, s) = atof_int s 0;
          result = result * FIXED_SCALE;
          result = (case s of [] \<Rightarrow> result | c # cs \<Rightarrow> if c = 46 then atof_frac cs (FIXED_SCALE div 10) result else result)
      in if neg then - result else result)"

section \<open>Printing\<close>

definition dec_text :: "nat \<Rightarrow> u8 list" where
  "dec_text n = (if n = 0 then [48] else rev (dec_digits n))"

text \<open>No caller passes the least \<open>int\<close>, whose negation would be undefined.\<close>

definition print_int :: "int \<Rightarrow> u8 list" where
  "print_int n = (if n < 0 then 45 # dec_text (nat (- n)) else dec_text (nat n))"

primrec last_digit :: "u8 list \<Rightarrow> nat \<Rightarrow> nat" where
  "last_digit ds 0 = 0"
| "last_digit ds (Suc i) = (if ds ! Suc i = 48 then last_digit ds i else Suc i)"

definition frac_digits :: "nat \<Rightarrow> u8 list" where
  "frac_digits f = map (\<lambda>i. of_nat (48 + f div 10 ^ (3 - i) mod 10)) [0..<4]"

definition print_fixed :: "int \<Rightarrow> u8 list option" where
  "print_fixed v =
     (if v = - (2 ^ 63) then None
      else
        let n = nat (abs v); ipart = n div nat FIXED_SCALE; fpart = n mod nat FIXED_SCALE; ds = frac_digits fpart
        in Some ((if v < 0 then [45] else []) @ dec_text ipart
             @ (if fpart = 0 then [] else 46 # take (last_digit ds 3 + 1) ds)))"

definition copy_into :: "u8 list \<Rightarrow> cstr option \<Rightarrow> u8 list" where
  "copy_into dst src =
     (if length dst = 0 then dst
      else case src of None \<Rightarrow> dst[0 := 0]
      | Some s \<Rightarrow> let t = take (length dst - 1) s in t @ 0 # drop (length t + 1) dst)"

section \<open>The calculator\<close>

text \<open>Conversion of an \<open>__int128\<close> to 64 bits keeps the low bits.\<close>

definition to_int64 :: "int \<Rightarrow> int" where "to_int64 n = sint (word_of_int n :: 64 word)"

primrec pow_loop :: "nat \<Rightarrow> int \<Rightarrow> int \<Rightarrow> int" where
  "pow_loop 0 base acc = acc"
| "pow_loop (Suc k) base acc = pow_loop k base (to_int64 ((acc * base) sdiv FIXED_SCALE))"

datatype calc_error = Division_by_zero | Modulo_by_zero | Unknown_operation

definition calc_result :: "cstr \<Rightarrow> int \<Rightarrow> int \<Rightarrow> calc_error + int" where
  "calc_result opr a b =
     (if strcmp opr (ascii ''ADD'') = 0 then Inr (a + b)
      else if strcmp opr (ascii ''SUB'') = 0 then Inr (a - b)
      else if strcmp opr (ascii ''MUL'') = 0 then Inr (to_int64 ((a * b) sdiv FIXED_SCALE))
      else if strcmp opr (ascii ''DIV'') = 0 then
        (if b = 0 then Inl Division_by_zero else Inr (to_int64 ((a * FIXED_SCALE) sdiv b)))
      else if strcmp opr (ascii ''MOD'') = 0 then
        (if b = 0 then Inl Modulo_by_zero else Inr (a smod b))
      else if strcmp opr (ascii ''POW'') = 0 then
        (let exp = b sdiv FIXED_SCALE; acc = pow_loop (nat (min (abs exp) 64)) a FIXED_SCALE
         in if exp < 0
            then (if acc = 0 then Inl Unknown_operation else Inr (to_int64 ((FIXED_SCALE * FIXED_SCALE) sdiv acc)))
            else Inr acc)
      else Inl Unknown_operation)"

text \<open>The operands and the operation of \<open>calc\<close>; \<open>op\<close> holds seven characters.\<close>

definition calc_parse :: "cstr \<Rightarrow> int \<times> cstr \<times> int" where
  "calc_parse args =
     (let p = skip_spaces args; a = simple_atof p; p = skip_spaces (skip_word p);
          w = takeWhile (\<lambda>c. c \<noteq> 32) p; opr = take 7 w;
          p = skip_spaces (drop (length opr) p)
      in (a, opr, simple_atof p))"

end
