(* ===== verification/CmdTextProps.thy ===== *)
theory CmdTextProps
  imports CmdText
begin

text \<open>What the command line prints as a number is what it reads back.\<close>

section \<open>Integers\<close>

lemma digit_val_digit: "digit_val (of_nat (48 + v mod 10)) = int (v mod 10)"
proof -
  have "uint (of_nat (48 + v mod 10) :: u8) = int (unat (of_nat (48 + v mod 10) :: u8))" by simp
  also have "\<dots> = int (48 + v mod 10)" by (simp only: digit_value)
  finally show ?thesis by (simp add: digit_val_def)
qed

lemma is_digit_digit: "is_digit (of_nat (48 + v mod 10))"
proof -
  have "v mod 10 < 10" by simp
  then show ?thesis unfolding is_digit_def word_le_nat_alt digit_value by simp
qed

lemma is_digit_dec: "c \<in> set (dec_text n) \<Longrightarrow> is_digit c"
  using dec_digits_are_digits [of c n]
  by (auto simp: dec_text_def is_digit_def word_le_nat_alt split: if_splits)

text \<open>The value of a text of digits after \<open>r\<close>.\<close>

fun digits_from :: "int \<Rightarrow> cstr \<Rightarrow> int" where
  "digits_from r [] = r"
| "digits_from r (c # cs) = digits_from (r * 10 + digit_val c) cs"

lemma digits_from_append: "digits_from r (s @ t) = digits_from (digits_from r s) t"
  by (induction r s rule: digits_from.induct) simp_all

lemma int_split10: "int (v div 10) * 10 + int (v mod 10) = int v"
  by (metis div_mult_mod_eq of_nat_add of_nat_mult of_nat_numeral)

lemma digits_from_dec: "digits_from 0 (dec_text n) = int n"
proof -
  have "digits_from 0 (rev (dec_digits n)) = int n"
  proof (induction n rule: dec_digits.induct)
    case (1 v)
    then show ?case
      using digit_val_digit [of v] div_mult_mod_eq [of v 10]
      by (cases "v = 0") (simp_all add: dec_digits.simps [of v] digits_from_append int_split10 del: of_nat_add)
  qed
  then show ?thesis by (auto simp: dec_text_def digit_val_def)
qed

lemma digits_from_mono: "list_all is_digit s \<Longrightarrow> 0 \<le> r \<Longrightarrow> r \<le> digits_from r s"
proof (induction r s rule: digits_from.induct)
  case (2 r c cs)
  then have "0 \<le> digit_val c" by (auto simp: is_digit_def digit_val_def word_le_def)
  with 2 show ?case by fastforce
qed simp

definition no_digit :: "cstr \<Rightarrow> bool" where "no_digit s \<longleftrightarrow> (case s of [] \<Rightarrow> True | c # _ \<Rightarrow> \<not> is_digit c)"

lemma atoi_digits_value:
  "list_all is_digit s \<Longrightarrow> 0 \<le> r \<Longrightarrow> in_range 32 (digits_from r s) \<Longrightarrow> no_digit t \<Longrightarrow>
   atoi_digits (s @ t) r = Some (digits_from r s)"
proof (induction r s rule: digits_from.induct)
  case (1 r)
  then show ?case by (cases t) (simp_all add: no_digit_def)
next
  case (2 r c cs)
  have "0 \<le> digit_val c" using 2 by (auto simp: is_digit_def digit_val_def word_le_def)
  moreover from this have "r * 10 + digit_val c \<le> digits_from (r * 10 + digit_val c) cs"
    using 2 digits_from_mono by simp
  ultimately have "in_range 32 (r * 10 + digit_val c)" using 2(3,4) by (simp add: in_range_def)
  with 2 \<open>0 \<le> digit_val c\<close> show ?case by simp
qed

lemma dec_text_head: "\<exists>c cs. dec_text n = c # cs \<and> is_digit c"
proof -
  have "dec_text n \<noteq> []" by (auto simp: dec_text_def dec_digits.simps [of n])
  then show ?thesis using is_digit_dec [of _ n] by (cases "dec_text n") auto
qed

lemma sign_of_dec: "sign_of (skip_spaces (dec_text n @ t)) = (False, dec_text n @ t)"
  "sign_of (skip_spaces (45 # dec_text n @ t)) = (True, dec_text n @ t)"
  using dec_text_head [of n] by (auto simp: sign_of_def skip_spaces_def is_digit_def)

lemma atoi_print_int:
  assumes "in_range 32 (abs n)" "no_digit t"
  shows "simple_atoi (print_int n @ t) = Some n"
proof -
  have "list_all is_digit (dec_text m)" for m using is_digit_dec by (auto simp: list_all_iff)
  from atoi_digits_value [OF this, of 0 "nat (abs n)" t] have
    "atoi_digits (dec_text (nat (abs n)) @ t) 0 = Some (abs n)"
    using assms by (simp add: digits_from_dec)
  then show ?thesis by (auto simp: simple_atoi_def print_int_def sign_of_dec)
qed

section \<open>Fixed-point numbers\<close>

lemma atof_int_value:
  "list_all is_digit s \<Longrightarrow> 0 \<le> r \<Longrightarrow> digits_from r s \<le> 100000000000 \<Longrightarrow> no_digit t \<Longrightarrow>
   atof_int (s @ t) r = (digits_from r s, t)"
proof (induction r s rule: digits_from.induct)
  case (1 r)
  then show ?case by (cases t) (simp_all add: no_digit_def)
next
  case (2 r c cs)
  have "0 \<le> digit_val c" using 2 by (auto simp: is_digit_def digit_val_def word_le_def)
  moreover from this have "r * 10 + digit_val c \<le> digits_from (r * 10 + digit_val c) cs"
    using 2 digits_from_mono by simp
  ultimately show ?case using 2 by simp
qed

lemma frac_digits_4: "frac_digits f = [of_nat (48 + f div 1000 mod 10), of_nat (48 + f div 100 mod 10),
    of_nat (48 + f div 10 mod 10), of_nat (48 + f mod 10)]"
proof -
  have "[0..<4] = [0, 1, 2, 3 :: nat]" by (simp add: upt_rec)
  then show ?thesis by (simp add: frac_digits_def del: of_nat_add)
qed

lemma digit_zero: "(of_nat (48 + v mod 10) = (48 :: u8)) = (v mod 10 = 0)"
  unfolding word_unat_eq_iff digit_value by simp

lemma digits_sum:
  "f = q1 * 10 + r0 \<Longrightarrow> q1 = q2 * 10 + r1 \<Longrightarrow> q2 = q3 * 10 + r2 \<Longrightarrow> r3 = q3 \<Longrightarrow>
   r3 * 1000 + r2 * 100 + r1 * 10 + r0 = f" for f q1 q2 q3 r0 r1 r2 r3 :: nat
  by simp

lemma next_digit: "m = k * 10 \<Longrightarrow> f div k = f div m * 10 + f div k mod 10" for f k m :: nat
  by (simp only: div_mult2_eq div_mult_mod_eq)

lemma frac_sum:
  assumes "f < 10000"
  shows "f div 1000 mod 10 * 1000 + f div 100 mod 10 * 100 + f div 10 mod 10 * 10 + f mod 10 = (f :: nat)"
proof -
  have 1: "f = f div 10 * 10 + f mod 10" by (rule div_mult_mod_eq [symmetric])
  have 2: "f div 10 = f div 100 * 10 + f div 10 mod 10" by (rule next_digit) simp
  have 3: "f div 100 = f div 1000 * 10 + f div 100 mod 10" by (rule next_digit) simp
  have "f div 1000 < 10" using assms by (simp add: less_mult_imp_div_less)
  then have 4: "f div 1000 mod 10 = f div 1000" by (rule mod_less)
  from 1 2 3 4 show ?thesis by (rule digits_sum)
qed

lemma last3: "last_digit [a, b, c, d] 3 = (if d = 48 then if c = 48 then if b = 48 then 0 else 1 else 2 else 3)"
  by (simp add: numeral_eq_Suc)

lemma digit_small:
  assumes "v < 10"
  shows "digit_val (of_nat (48 + v)) = int v" "is_digit (of_nat (48 + v))" "(of_nat (48 + v) = (48 :: u8)) = (v = 0)"
  using digit_val_digit [of v] is_digit_digit [of v] digit_zero [of v] assms by simp_all

lemma atof_frac_digits:
  assumes "a < 10" "b < 10" "c < 10" "d < 10"
  defines "ds \<equiv> [of_nat (48 + a), of_nat (48 + b), of_nat (48 + c), of_nat (48 + d)]"
  shows "atof_frac (take (last_digit ds 3 + 1) ds) 1000 r = r + int (a * 1000 + b * 100 + c * 10 + d)"
  unfolding ds_def last3 using assms(1-4)
  by (simp add: digit_small del: of_nat_add)

lemma atof_frac_value:
  assumes "f < 10000"
  shows "atof_frac (take (last_digit (frac_digits f) 3 + 1) (frac_digits f)) 1000 r = r + int f"
  unfolding frac_digits_4 atof_frac_digits [OF mod_less_divisor mod_less_divisor mod_less_divisor mod_less_divisor, OF zero_less_numeral zero_less_numeral zero_less_numeral zero_less_numeral]
    frac_sum [OF assms] ..

lemma no_digit_frac: "no_digit (if f = 0 then [] else 46 # t)"
  by (simp add: no_digit_def is_digit_def)

text \<open>C29. Every value the calculator can read or hold within 10^15 is printed so that it is read back
  exactly: no digit of the fraction is lost, trailing zeros and the sign included.\<close>

theorem fixed_point_roundtrip:
  assumes "abs v < 1000000000000000"
  shows "\<exists>t. print_fixed v = Some t \<and> simple_atof t = v"
proof -
  define n where "n = nat (abs v)"
  define f where "f = n mod 10000"
  define t where "t = (if f = 0 then [] else 46 # take (last_digit (frac_digits f) 3 + 1) (frac_digits f))"
  have f: "f < 10000" by (simp add: f_def)
  have v: "v \<noteq> - (2 ^ 63)" using assms by auto
  have p: "print_fixed v = Some ((if v < 0 then [45] else []) @ dec_text (n div 10000) @ t)"
    unfolding print_fixed_def using v by (simp add: Let_def FIXED_SCALE_def n_def [symmetric] f_def [symmetric] t_def)
  have "n < 1000000000000000" using assms by (simp add: n_def)
  then have "int (n div 10000) \<le> 100000000000" by linarith
  moreover have "list_all is_digit (dec_text m)" for m using is_digit_dec by (auto simp: list_all_iff)
  moreover have "no_digit t" by (simp add: t_def no_digit_frac)
  ultimately have i: "atof_int (dec_text (n div 10000) @ t) 0 = (int (n div 10000), t)"
    using atof_int_value [of "dec_text (n div 10000)" 0 t] by (simp add: digits_from_dec)
  have sum: "int (n div 10000) * 10000 + int f = int n"
    unfolding f_def by (metis div_mult_mod_eq of_nat_add of_nat_mult of_nat_numeral)
  have fs: "FIXED_SCALE div 10 = 1000" by (simp add: FIXED_SCALE_def)
  have "(case t of [] \<Rightarrow> int (n div 10000) * FIXED_SCALE | c # cs \<Rightarrow>
      if c = 46 then atof_frac cs (FIXED_SCALE div 10) (int (n div 10000) * FIXED_SCALE)
      else int (n div 10000) * FIXED_SCALE) = int n"
    unfolding fs FIXED_SCALE_def using atof_frac_value [OF f] sum by (simp add: t_def del: of_nat_div of_nat_mod)
  then have "simple_atof ((if v < 0 then [45] else []) @ dec_text (n div 10000) @ t) = (if v < 0 then - int n else int n)"
    by (simp add: simple_atof_def sign_of_dec i Let_def)
  also have "\<dots> = v" by (simp add: n_def)
  finally show ?thesis using p by blast
qed

theorem fixed_point_roundtrip_witness: "\<exists>t. print_fixed (-3750) = Some t \<and> simple_atof t = -3750"
  by (rule fixed_point_roundtrip) simp

end
