(* ===== verification/Acpi.thy ===== *)
theory Acpi
  imports Dmi "HOL-Library.Monad_Syntax"
begin

text \<open>
  Power-off over ACPI, namespace \<open>acpi\<close> of \<open>shell/commands.cpp\<close>: from the root pointer to the
  FADT, the control ports it names, and the search of the DSDT for the \<open>_S5_\<close> package that holds
  the sleep types.  Memory is a function from addresses to bytes; the bytes of the DSDT behind its
  header are a list, and a read past its end is \<open>None\<close>.
\<close>

section \<open>Tables\<close>

definition SIG_FADT :: u32 where "SIG_FADT = 0x50434146"
definition SIG_XSDT :: u32 where "SIG_XSDT = 0x54445358"
definition SIG_RSDT :: u32 where "SIG_RSDT = 0x54445352"
definition SIG_DSDT :: u32 where "SIG_DSDT = 0x54445344"
definition SLP_EN :: u16 where "SLP_EN = push_bit 13 1"
definition MAX_SDT_LEN :: u32 where "MAX_SDT_LEN = 0x100000"

text \<open>\<open>sizeof(SDTHeader)\<close>, and the fields of a packed header at address \<open>a\<close>.\<close>

definition SDT_HEADER :: nat where "SDT_HEADER = 36"
definition sdt_signature :: "bytes_mem \<Rightarrow> nat \<Rightarrow> u32" where "sdt_signature m a = mem32 m a"
definition sdt_length :: "bytes_mem \<Rightarrow> nat \<Rightarrow> u32" where "sdt_length m a = mem32 m (a + 4)"

definition length_ok :: "bytes_mem \<Rightarrow> nat \<Rightarrow> bool" where
  "length_ok m a \<longleftrightarrow> sdt_length m a \<ge> 36 \<and> sdt_length m a \<le> MAX_SDT_LEN"

definition phys_to_virt :: "u64 \<Rightarrow> u64 \<Rightarrow> u64" where "phys_to_virt phys hhdm = phys + hhdm"

definition checksum_ok :: "bytes_mem \<Rightarrow> nat \<Rightarrow> nat \<Rightarrow> bool" where
  "checksum_ok m t len \<longleftrightarrow> fold (\<lambda>i sum. sum + m (t + i)) [0..<len] 0 = 0"

record acpi_state =
  a_ready :: bool
  a_pm1a_cnt :: u16
  a_pm1b_cnt :: u16
  a_slp_typa :: u16
  a_slp_typb :: u16

definition acpi_boot :: acpi_state where
  "acpi_boot = \<lparr>a_ready = False, a_pm1a_cnt = 0, a_pm1b_cnt = 0, a_slp_typa = 0, a_slp_typb = 0\<rparr>"

section \<open>The DSDT\<close>

definition byte_of :: "u8 list \<Rightarrow> nat \<Rightarrow> u8 option" where
  "byte_of aml i = (if i < length aml then Some (aml ! i) else None)"

fun holds_at :: "u8 list \<Rightarrow> nat \<Rightarrow> u8 list \<Rightarrow> bool option" where
  "holds_at aml i [] = Some True"
| "holds_at aml i (c # cs) = do { b \<leftarrow> byte_of aml i; if b = c then holds_at aml (i + 1) cs else Some False }"

definition S5_NAME :: "u8 list" where "S5_NAME = [0x08, 0x5F, 0x53, 0x35, 0x5F]"

text \<open>The two values, read from \<open>j\<close>: bytes behind \<open>0x0A\<close> or words behind \<open>0x0B\<close>; \<open>Some None\<close>
  when there is neither.\<close>

definition word_of_aml :: "u8 list \<Rightarrow> nat \<Rightarrow> u16 option" where
  "word_of_aml aml j = do { lo \<leftarrow> byte_of aml j; hi \<leftarrow> byte_of aml (j + 1); Some (ucast lo OR push_bit 8 (ucast hi)) }"

definition sleep_types :: "u8 list \<Rightarrow> nat \<Rightarrow> (u16 \<times> u16) option option" where
  "sleep_types aml j = do {
     t \<leftarrow> byte_of aml j;
     if t = 0x0A then do {
       a \<leftarrow> byte_of aml (j + 1);
       t2 \<leftarrow> byte_of aml (j + 2);
       if t2 = 0x0A then do { b \<leftarrow> byte_of aml (j + 3); Some (Some (ucast a, ucast b)) }
       else Some (Some (ucast a, ucast a)) }
     else if t = 0x0B then do {
       a \<leftarrow> word_of_aml aml (j + 1);
       t2 \<leftarrow> byte_of aml (j + 3);
       if t2 = 0x0B then do { b \<leftarrow> word_of_aml aml (j + 4); Some (Some (a, b)) }
       else if t2 = 0x0A then do { b \<leftarrow> byte_of aml (j + 4); Some (Some (a, ucast b)) }
       else Some (Some (a, a)) }
     else Some None }"

text \<open>The scan; the indices stay far below 2^32, so they are natural numbers.\<close>

function s5_scan :: "u8 list \<Rightarrow> nat \<Rightarrow> (u16 \<times> u16) option option" where
  "s5_scan aml i =
     (if i + 12 < length aml
      then do {
        found \<leftarrow> holds_at aml i S5_NAME;
        if \<not> found then s5_scan aml (i + 1)
        else if i + 13 \<ge> length aml then Some None
        else do {
          pkg \<leftarrow> byte_of aml (i + 5);
          if pkg \<noteq> 0x12 then Some None
          else do {
            r \<leftarrow> sleep_types aml (i + 7);
            case r of Some ts \<Rightarrow> Some (Some ts) | None \<Rightarrow> s5_scan aml (i + 1) } } }
      else Some None)"
  by pat_completeness auto
termination by (relation "measure (\<lambda>(aml, i). length aml - i)") auto

declare s5_scan.simps [simp del]

definition find_slp_typ_in_dsdt :: "bytes_mem \<Rightarrow> u64 \<Rightarrow> u64 \<Rightarrow> (u16 \<times> u16) option option" where
  "find_slp_typ_in_dsdt m dsdt_phys hhdm =
     (if dsdt_phys = 0 then Some None
      else
        let dsdt = unat (phys_to_virt dsdt_phys hhdm) in
        if sdt_signature m dsdt \<noteq> SIG_DSDT then Some None
        else if \<not> length_ok m dsdt then Some None
        else s5_scan (map m [dsdt + SDT_HEADER..<dsdt + unat (sdt_length m dsdt)]) 0)"

section \<open>From the root pointer to the ports\<close>

text \<open>The entries of the XSDT (8 bytes) or RSDT (4 bytes) whose body starts at \<open>body\<close>.\<close>

definition sdt_entries :: "bytes_mem \<Rightarrow> bool \<Rightarrow> nat \<Rightarrow> nat \<Rightarrow> u64 list" where
  "sdt_entries m use_xsdt body cnt =
     map (\<lambda>i. if use_xsdt then mem64 m (body + i * 8) else ucast (mem32 m (body + i * 4))) [0..<cnt]"

fun find_fadt :: "bytes_mem \<Rightarrow> u64 \<Rightarrow> u64 list \<Rightarrow> nat option" where
  "find_fadt m hhdm [] = None"
| "find_fadt m hhdm (phys # ps) =
     (if phys = 0 then find_fadt m hhdm ps
      else
        let hdr = unat (phys_to_virt phys hhdm) in
        if sdt_signature m hdr = SIG_FADT \<and> length_ok m hdr \<and> checksum_ok m hdr (unat (sdt_length m hdr))
        then Some hdr else find_fadt m hhdm ps)"

definition rsdp_ok :: "bytes_mem \<Rightarrow> nat \<Rightarrow> bool" where
  "rsdp_ok m rsdp \<longleftrightarrow> map m [rsdp..<rsdp + 8] = ascii ''RSD PTR '' \<and> checksum_ok m rsdp 20"

text \<open>The address of the FADT, when every check on the way passes.\<close>

definition locate_fadt :: "bytes_mem \<Rightarrow> u64 \<Rightarrow> u64 \<Rightarrow> nat option" where
  "locate_fadt m rsdp_ptr hhdm =
     (if rsdp_ptr = 0 then None
      else
        let rsdp_va = (if hhdm \<noteq> 0 \<and> rsdp_ptr < hhdm then rsdp_ptr + hhdm else rsdp_ptr); rsdp = unat rsdp_va in
        if \<not> rsdp_ok m rsdp then None
        else
          let use_xsdt = (m (rsdp + 15) \<ge> 2 \<and> mem64 m (rsdp + 24) \<noteq> 0);
              sdt_phys = (if use_xsdt then mem64 m (rsdp + 24) else ucast (mem32 m (rsdp + 16)));
              sdt = unat (phys_to_virt sdt_phys hhdm)
          in if sdt_phys = 0 then None
             else if \<not> length_ok m sdt then None
             else if use_xsdt \<and> sdt_signature m sdt \<noteq> SIG_XSDT then None
             else if \<not> use_xsdt \<and> sdt_signature m sdt \<noteq> SIG_RSDT then None
             else if \<not> checksum_ok m sdt (unat (sdt_length m sdt)) then None
             else
               let esz = unat (sdt_length m sdt) - SDT_HEADER; cnt = esz div (if use_xsdt then 8 else 4)
               in find_fadt m hhdm (sdt_entries m use_xsdt (sdt + SDT_HEADER) cnt))"

definition acpi_init :: "bytes_mem \<Rightarrow> u64 \<Rightarrow> u64 \<Rightarrow> acpi_state \<Rightarrow> (bool \<times> acpi_state) option" where
  "acpi_init m rsdp_ptr hhdm s =
     (let s = s\<lparr>a_ready := False\<rparr> in
      case locate_fadt m rsdp_ptr hhdm of None \<Rightarrow> Some (False, s)
      | Some fadt \<Rightarrow>
        let s = s\<lparr>a_pm1a_cnt := ucast (mem32 m (fadt + 64)), a_pm1b_cnt := ucast (mem32 m (fadt + 68))\<rparr> in
        if a_pm1a_cnt s = 0 then Some (False, s)
        else do {
          r \<leftarrow> find_slp_typ_in_dsdt m (ucast (mem32 m (fadt + 40))) hhdm;
          let (a, b) = (case r of Some ts \<Rightarrow> ts | None \<Rightarrow> (0, 0));
          Some (True, s\<lparr>a_slp_typa := a, a_slp_typb := b, a_ready := True\<rparr>) })"

definition acpi_is_ready :: "acpi_state \<Rightarrow> bool" where "acpi_is_ready s = a_ready s"

text \<open>The words written to ports.\<close>

definition acpi_poweroff :: "acpi_state \<Rightarrow> bool \<times> (u16 \<times> u16) list" where
  "acpi_poweroff s =
     (if \<not> a_ready s then (False, [])
      else (True, (a_pm1a_cnt s, push_bit 10 (a_slp_typa s) OR SLP_EN)
        # (if a_pm1b_cnt s \<noteq> 0 then [(a_pm1b_cnt s, push_bit 10 (a_slp_typb s) OR SLP_EN)] else [])))"

section \<open>The scan stays inside the table\<close>

lemma byte_of_inside: "i < length aml \<Longrightarrow> byte_of aml i = Some (aml ! i)"
  by (simp add: byte_of_def)

lemma holds_at_inside: "i + length s \<le> length aml \<Longrightarrow> holds_at aml i s = Some (subbuf aml i (length s) = s)"
proof (induction s arbitrary: i)
  case Nil
  then show ?case by (simp add: subbuf_def)
next
  case (Cons c cs)
  then show ?case by (simp add: byte_of_inside subbuf_def Cons_nth_drop_Suc [symmetric])
qed

lemma sleep_types_inside:
  assumes "j + 6 \<le> length aml"
  shows "\<exists>r. sleep_types aml j = Some r"
  using assms by (simp add: sleep_types_def word_of_aml_def byte_of_inside)

lemma S5_length: "length S5_NAME = 5" by (simp add: S5_NAME_def)

text \<open>C30. The search for the sleep types never reads past the DSDT, whatever bytes it holds, although
  it reads up to thirteen bytes ahead and follows lengths it does not check.\<close>

theorem s5_scan_stays_inside: "\<exists>r. s5_scan aml i = Some r"
proof (induction aml i rule: s5_scan.induct)
  case (1 aml i)
  show ?case
  proof (cases "i + 12 < length aml")
    case True
    then have "holds_at aml i S5_NAME = Some (subbuf aml i 5 = S5_NAME)" by (simp add: holds_at_inside S5_length)
    moreover have "\<exists>r. sleep_types aml (i + 7) = Some r" if "i + 13 < length aml"
      using sleep_types_inside [of "i + 7" aml] that by simp
    ultimately show ?thesis
      using 1 True by (subst s5_scan.simps) (auto simp: byte_of_inside split: option.splits)
  qed (simp add: s5_scan.simps)
qed

text \<open>What the standard puts behind the name: the package op \<open>0x12\<close>, a byte of length, a byte with the
  number of elements (four, or two), and then the values.  The scan takes the number of elements for
  the prefix of the first value.\<close>

definition s5_packages :: "u8 list \<Rightarrow> bool" where
  "s5_packages aml \<longleftrightarrow> (\<forall>i. i + 12 < length aml \<longrightarrow> subbuf aml i 5 = S5_NAME \<longrightarrow>
     aml ! (i + 5) = 0x12 \<and> aml ! (i + 7) \<noteq> 0x0A \<and> aml ! (i + 7) \<noteq> 0x0B)"

lemma s5_scan_misses:
  assumes "s5_packages aml"
  shows "s5_scan aml i = Some None"
  using assms unfolding s5_packages_def
proof (induction aml i rule: s5_scan.induct)
  case (1 aml i)
  show ?case
  proof (cases "i + 12 < length aml")
    case True
    then have h: "holds_at aml i S5_NAME = Some (subbuf aml i 5 = S5_NAME)" by (simp add: holds_at_inside S5_length)
    show ?thesis
    proof (cases "subbuf aml i 5 = S5_NAME")
      case True
      with 1(3) \<open>i + 12 < length aml\<close> have "aml ! (i + 5) = 0x12" "sleep_types aml (i + 7) = Some None"
        by (auto simp: sleep_types_def byte_of_inside)
      with 1 h True \<open>i + 12 < length aml\<close> show ?thesis by (subst s5_scan.simps) (simp add: byte_of_inside)
    next
      case False
      with 1 h \<open>i + 12 < length aml\<close> show ?thesis by (subst s5_scan.simps) simp
    qed
  qed (simp add: s5_scan.simps)
qed

text \<open>C31. Power-off with a standard firmware writes sleep type 0.  Let the tables lead to a FADT with a PM1a
  control port and to a DSDT in which every \<open>_S5_\<close> names a package of the standard's form.  Then
  \<open>init\<close> reports success, and the words that \<open>poweroff\<close> writes to the control ports hold \<open>SLP_EN\<close> and
  the sleep type 0, whatever values the packages hold.\<close>

theorem s5_package_missed:
  assumes "locate_fadt m rsdp_ptr hhdm = Some fadt" "(ucast (mem32 m (fadt + 64)) :: u16) \<noteq> 0"
    and "dsdt_phys = ucast (mem32 m (fadt + 40))" "dsdt = unat (phys_to_virt dsdt_phys hhdm)"
    and "dsdt_phys \<noteq> 0 \<Longrightarrow> sdt_signature m dsdt = SIG_DSDT \<Longrightarrow> length_ok m dsdt \<Longrightarrow>
      s5_packages (map m [dsdt + SDT_HEADER..<dsdt + unat (sdt_length m dsdt)])"
  shows "\<exists>s'. acpi_init m rsdp_ptr hhdm s = Some (True, s') \<and> acpi_is_ready s'
    \<and> acpi_poweroff s' = (True, (ucast (mem32 m (fadt + 64)), SLP_EN)
        # (if (ucast (mem32 m (fadt + 68)) :: u16) \<noteq> 0 then [(ucast (mem32 m (fadt + 68)), SLP_EN)] else []))"
proof -
  have "find_slp_typ_in_dsdt m (ucast (mem32 m (fadt + 40))) hhdm = Some None"
    using s5_scan_misses assms(5) unfolding find_slp_typ_in_dsdt_def assms(3,4) Let_def by auto
  then show ?thesis using assms(1,2) by (simp add: acpi_init_def acpi_poweroff_def acpi_is_ready_def Let_def)
qed

text \<open>A firmware with a root pointer, the tables, and a package with sleep type 5 for both ports.\<close>

definition demo_aml :: "u8 list" where
  "demo_aml = replicate 4 0xA3 @ S5_NAME @ [0x12, 0x08, 0x04, 0x0A, 0x05, 0x0A, 0x05, 0x00, 0x00] @ replicate 8 0xA3"

text \<open>The root pointer at 16, the RSDT at 36, the FADT at 76, the DSDT at 148.\<close>

definition demo_tables :: "u8 list" where
  "demo_tables = replicate 16 0 @ (ascii ''RSD PTR '' @ [189] @ replicate 7 0 @ [36, 0, 0, 0])
     @ (ascii ''RSDT'' @ [40, 0, 0, 0, 0, 79] @ replicate 26 0 @ [76, 0, 0, 0])
     @ (ascii ''FACP'' @ [72, 0, 0, 0, 0, 0] @ replicate 30 0 @ [148, 0, 0, 0] @ replicate 20 0 @ [4, 6, 0, 0] @ [0, 0, 0, 0])
     @ (ascii ''DSDT'' @ [62, 0, 0, 0] @ replicate 28 0) @ demo_aml"

lemma demo_tables_bytes [code]: "demo_tables =
   [0, 0, 0, 0, 0, 0, 0, 0, 0, 0, 0, 0, 0, 0, 0, 0, 82, 83, 68, 32, 80, 84, 82, 32, 189, 0, 0, 0, 0, 0, 0, 0, 36,
    0, 0, 0, 82, 83, 68, 84, 40, 0, 0, 0, 0, 79, 0, 0, 0, 0, 0, 0, 0, 0, 0, 0, 0, 0, 0, 0, 0, 0, 0, 0, 0, 0, 0, 0,
    0, 0, 0, 0, 76, 0, 0, 0, 70, 65, 67, 80, 72, 0, 0, 0, 0, 0, 0, 0, 0, 0, 0, 0, 0, 0, 0, 0, 0, 0, 0, 0, 0, 0, 0,
    0, 0, 0, 0, 0, 0, 0, 0, 0, 0, 0, 0, 0, 148, 0, 0, 0, 0, 0, 0, 0, 0, 0, 0, 0, 0, 0, 0, 0, 0, 0, 0, 0, 0, 0, 0,
    0, 4, 6, 0, 0, 0, 0, 0, 0, 68, 83, 68, 84, 62, 0, 0, 0, 0, 0, 0, 0, 0, 0, 0, 0, 0, 0, 0, 0, 0, 0, 0, 0, 0, 0,
    0, 0, 0, 0, 0, 0, 0, 0, 0, 0, 163, 163, 163, 163, 8, 95, 83, 53, 95, 18, 8, 4, 10, 5, 10, 5, 0, 0, 163, 163,
    163, 163, 163, 163, 163, 163]"
  by (simp add: demo_tables_def demo_aml_def S5_NAME_def ascii_def numeral_eq_Suc)

definition demo_firmware :: bytes_mem where
  "demo_firmware a = (case drop a demo_tables of [] \<Rightarrow> 0 | b # _ \<Rightarrow> b)"

theorem s5_package_missed_witness:
  "subbuf demo_aml 4 5 = S5_NAME \<and> (\<exists>s'. acpi_init demo_firmware 16 0 acpi_boot = Some (True, s')
     \<and> acpi_poweroff s' = (True, [(0x604, SLP_EN)]))"
proof
  have tables: "locate_fadt demo_firmware 16 0 = Some 76" by code_simp
  have fields: "mem32 demo_firmware (76 + 64) = 0x604" "mem32 demo_firmware (76 + 68) = 0" "mem32 demo_firmware (76 + 40) = 148"
    by code_simp+
  have dsdt: "map demo_firmware [148 + SDT_HEADER..<148 + unat (sdt_length demo_firmware 148)] = demo_aml" by code_simp
  have "\<forall>i \<in> set [0..<14]. subbuf demo_aml i 5 = S5_NAME \<longrightarrow>
     demo_aml ! (i + 5) = 0x12 \<and> demo_aml ! (i + 7) \<noteq> 0x0A \<and> demo_aml ! (i + 7) \<noteq> 0x0B"
    by code_simp
  moreover have "length demo_aml = 26" by (simp add: demo_aml_def S5_length)
  ultimately have packages: "s5_packages demo_aml" unfolding s5_packages_def by auto
  show "\<exists>s'. acpi_init demo_firmware 16 0 acpi_boot = Some (True, s') \<and> acpi_poweroff s' = (True, [(0x604, SLP_EN)])"
    using s5_package_missed [OF tables, of 148 148 acpi_boot] fields packages dsdt by (auto simp: phys_to_virt_def)
qed code_simp

end
