(* ===== verification/Sys.thy ===== *)
theory Sys
  imports CmdText Acpi Console Mbr MountConfig Fat32 Ext2Files Ext2Format Dma Heap Keyboard Shell Pci Ata Interrupts
begin

text \<open>
  The system the shell works on: the state of all components side by side, the calls a command
  makes to the console, and how a command calls a component.  Commands are programs in the state
  monad.  When a component does not return or runs into undefined behaviour, \<open>s_stuck\<close> is set;
  what follows has no meaning.
\<close>

section \<open>State\<close>

text \<open>The background is always black, so a call of \<open>set_color\<close> is its foreground.\<close>

datatype con_call = Color u32 | Puts cstr | Putc u8 | Clear | Init_console fbuf

text \<open>What the boot, the teardown and the power switch do to the machine itself.\<close>

datatype cpu_call = Sti | Load_idt "idt_entry list" | Cli | Out8 u16 u8 | Out16 u16 u16 | Null_idt | Breakpoint | Halt

record cpu_info =
  ci_vendor :: cstr
  ci_brand :: cstr
  ci_sse :: bool
  ci_sse2 :: bool
  ci_avx :: bool
  ci_avx2 :: bool

record ram_info =
  total_bytes :: u64
  usable_bytes :: u64
  reserved_bytes :: u64
  kernel_bytes :: u64
  framebuffer_bytes :: u64

record ('d, 'p) sys =
  s_e2 :: "'d ext2"
  s_fat :: fs_state
  s_cfg :: config_state
  s_drv :: driver
  s_disk :: disk_info
  s_input :: input_state
  s_bus :: 'p
  s_dma :: dma_state
  s_heap :: heap_state
  s_pci :: "pci_device list"
  s_reg :: "reg_entry list"
  s_dmi :: dmi_state
  s_acpi :: acpi_state
  s_cpu :: cpu_info
  s_ram :: ram_info
  s_boot_name :: "u8 list"
  s_boot_version :: "u8 list"
  s_firmware :: u64
  s_cmdline :: "u8 list"
  s_timestamp :: u64
  s_ticks :: u64
  s_cat :: "u8 list"
  s_out :: "con_call list"
  s_cpu_log :: "cpu_call list"
  s_stuck :: bool

text \<open>The initial values of the file-scope variables, on a disk, a bus and a memory.\<close>

definition sys_boot :: "'d \<Rightarrow> 'p \<Rightarrow> memory \<Rightarrow> phys_state \<Rightarrow> ('d, 'p) sys" where
  "sys_boot d b m p = \<lparr>s_e2 = ext2_boot d, s_fat = fs_boot, s_cfg = config_boot, s_drv = NONE, s_disk = info_boot,
     s_input = \<lparr>in_source = NoSource, in_hid = hid_reset, in_usb = usb_boot, in_ps2 = ps2_boot\<rparr>, s_bus = b,
     s_dma = dma_boot, s_heap = heap_boot m p, s_pci = [], s_reg = [], s_dmi = dmi_boot, s_acpi = acpi_boot,
     s_cpu = \<lparr>ci_vendor = [], ci_brand = [], ci_sse = False, ci_sse2 = False, ci_avx = False, ci_avx2 = False\<rparr>,
     s_ram = \<lparr>total_bytes = 0, usable_bytes = 0, reserved_bytes = 0, kernel_bytes = 0, framebuffer_bytes = 0\<rparr>,
     s_boot_name = replicate 64 0, s_boot_version = replicate 64 0, s_firmware = 0, s_cmdline = replicate 256 0,
     s_timestamp = 0, s_ticks = 0, s_cat = replicate 65536 0, s_out = [], s_cpu_log = [], s_stuck = False\<rparr>"

text \<open>What the commands use of the hardware: the block device behind \<open>disk\<close> and its \<open>stop\<close>, whether
  the DMA allocator grants the buffer of \<open>ext2::format\<close>, the input devices, whether an EHCI
  controller is present and the closing of its interrupt pipe, the state of the keyboard
  controller's input buffer (whether it becomes free), and the constants of the boot protocol.\<close>

record ('d, 'p) env =
  e_io :: "'d blk"
  e_stop :: "'d \<Rightarrow> 'd"
  e_grant :: "u32 \<Rightarrow> bool"
  e_input :: "'p input_dev"
  e_ehci :: "'p \<Rightarrow> bool"
  e_intr_close :: "'p \<Rightarrow> 'p"
  e_fw :: "u64 list"

type_synonym ('d, 'p, 'a) cmd = "(('d, 'p) sys, 'a) state"

text \<open>Hardware to run examples on: a sector store, a keyboard controller that is always ready, and a
  USB bus that answers.\<close>

definition demo_env :: "(store, (u8 \<times> u8 list) list) env" where
  "demo_env = \<lparr>e_io = store_blk, e_stop = (\<lambda>d. d), e_grant = (\<lambda>_. True),
     e_input = \<lparr>i_bus = demo_bus, i_ports = \<lparr>p_inb = (\<lambda>b _. (0, b)), p_outb = (\<lambda>b _ _. b)\<rparr>,
       i_xhci_init = (\<lambda>b _. (True, b)), i_ehci_init = (\<lambda>b _. (False, b))\<rparr>,
     e_ehci = (\<lambda>_. False), e_intr_close = (\<lambda>b. b), e_fw = [0, 1, 2, 3]\<rparr>"

section \<open>Calling the components\<close>

definition say :: "con_call list \<Rightarrow> ('d, 'p, unit) cmd" where
  "say cs = modify (\<lambda>s. s\<lparr>s_out := s_out s @ cs\<rparr>)"

definition cpu :: "cpu_call list \<Rightarrow> ('d, 'p, unit) cmd" where
  "cpu cs = modify (\<lambda>s. s\<lparr>s_cpu_log := s_cpu_log s @ cs\<rparr>)"

definition attempt :: "'a \<Rightarrow> 'a option \<Rightarrow> ('d, 'p, 'a) cmd" where
  "attempt x r = (case r of Some y \<Rightarrow> ret y | None \<Rightarrow> do { _ \<leftarrow> modify (\<lambda>s. s\<lparr>s_stuck := True\<rparr>); ret x })"

definition on_e2 :: "('d, 'a) prog \<Rightarrow> ('d, 'p, 'a) cmd" where
  "on_e2 p = do {
     s \<leftarrow> State_Monad.get;
     let (a, e) = run_state p (s_e2 s);
     _ \<leftarrow> State_Monad.set (s\<lparr>s_e2 := e\<rparr>);
     ret a }"

definition the_dev :: "('d, 'p, 'd) cmd" where "the_dev = asks (\<lambda>s. dev (s_e2 s))"

definition set_dev :: "'d \<Rightarrow> ('d, 'p, unit) cmd" where
  "set_dev d = modify (\<lambda>s. s\<lparr>s_e2 := (s_e2 s)\<lparr>dev := d\<rparr>\<rparr>)"

definition on_dev :: "('d \<Rightarrow> bool \<times> 'd) \<Rightarrow> ('d, 'p, bool) cmd" where
  "on_dev f = do { d \<leftarrow> the_dev; let (ok, d) = f d; _ \<leftarrow> set_dev d; ret ok }"

definition on_cfg :: "('d \<Rightarrow> config_state \<Rightarrow> 'a \<times> config_state \<times> 'd) \<Rightarrow> ('d, 'p, 'a) cmd" where
  "on_cfg f = do {
     d \<leftarrow> the_dev;
     c \<leftarrow> asks s_cfg;
     let (a, c, d) = f d c;
     _ \<leftarrow> modify (\<lambda>s. s\<lparr>s_cfg := c\<rparr>);
     _ \<leftarrow> set_dev d;
     ret a }"

text \<open>The operations of \<open>mount_config\<close> that do not write.\<close>

definition ask_cfg :: "('d \<Rightarrow> config_state \<Rightarrow> 'a \<times> config_state) \<Rightarrow> ('d, 'p, 'a) cmd" where
  "ask_cfg f = on_cfg (\<lambda>d c. case f d c of (a, c) \<Rightarrow> (a, c, d))"

text \<open>FAT32: operations that change the mounted state, that change the disk, that only look.\<close>

definition fat_fs :: "('d \<Rightarrow> fs_state \<Rightarrow> (bool \<times> fs_state) option) \<Rightarrow> ('d, 'p, bool) cmd" where
  "fat_fs f = do {
     d \<leftarrow> the_dev;
     v \<leftarrow> asks s_fat;
     (ok, v) \<leftarrow> attempt (False, v) (f d v);
     _ \<leftarrow> modify (\<lambda>s. s\<lparr>s_fat := v\<rparr>);
     ret ok }"

definition fat_disk_op :: "('d \<Rightarrow> fs_state \<Rightarrow> (bool \<times> 'd) option) \<Rightarrow> ('d, 'p, bool) cmd" where
  "fat_disk_op f = do {
     d \<leftarrow> the_dev;
     v \<leftarrow> asks s_fat;
     (ok, d) \<leftarrow> attempt (False, d) (f d v);
     _ \<leftarrow> set_dev d;
     ret ok }"

definition fat_look :: "'a \<Rightarrow> ('d \<Rightarrow> fs_state \<Rightarrow> 'a option) \<Rightarrow> ('d, 'p, 'a) cmd" where
  "fat_look x f = do { d \<leftarrow> the_dev; v \<leftarrow> asks s_fat; attempt x (f d v) }"

section \<open>Text\<close>

definition COLOR_GRAY :: u32 where "COLOR_GRAY = 0xC0C0C0"
definition COLOR_WHITE :: u32 where "COLOR_WHITE = 0xFFFFFF"
definition COLOR_GREEN :: u32 where "COLOR_GREEN = 0x00CC00"
definition COLOR_RED :: u32 where "COLOR_RED = 0xCC0000"
definition COLOR_YELLOW :: u32 where "COLOR_YELLOW = 0xCCCC00"
definition COLOR_CYAN :: u32 where "COLOR_CYAN = 0x00CCCC"
definition COLOR_BLUE :: u32 where "COLOR_BLUE = 0x0088FF"
definition COLOR_MAGENTA :: u32 where "COLOR_MAGENTA = 0xFF00FF"

text \<open>Text, text and a new line, and a message in colour.\<close>

definition tx :: "string \<Rightarrow> con_call" where "tx t = Puts (ascii t)"
definition ln :: "string \<Rightarrow> con_call" where "ln t = Puts (ascii t @ [10])"
definition msg :: "u32 \<Rightarrow> con_call list \<Rightarrow> con_call list" where "msg c cs = Color c # cs @ [Color COLOR_GRAY]"

definition number :: "int \<Rightarrow> con_call" where "number n = Puts (print_int n)"
definition number64 :: "u64 \<Rightarrow> con_call" where "number64 n = Puts (print_u64 n)"
definition number32 :: "u32 \<Rightarrow> con_call" where "number32 n = number64 (ucast n)"

text \<open>\<open>hex[b >> 4]\<close>, \<open>hex[b & 15]\<close>\<close>

definition hex2 :: "u8 \<Rightarrow> con_call" where "hex2 b = Puts (print_hex8 b)"

text \<open>The calls as the console executes them.\<close>

fun con_do :: "con_call \<Rightarrow> con_state \<Rightarrow> con_state" where
  "con_do (Color c) s = set_color c 0 s"
| "con_do (Puts t) s = con_puts t s"
| "con_do (Putc c) s = con_putc c s"
| "con_do Clear s = con_clear s"
| "con_do (Init_console f) s = con_init f s"

end
