(* ===== verification/Commands.thy ===== *)
theory Commands
  imports Sys
begin

text \<open>
  The commands of the shell, \<open>shell/commands.cpp\<close>, over the state of the whole system.
\<close>

section \<open>Which file system is active\<close>

datatype active_fs = No_fs | Active_fat32 | Active_ext2

definition get_active_fs :: "('d, 'p, active_fs) cmd" where
  "get_active_fs = asks (\<lambda>s. if ext2_is_mounted (fs (s_e2 s)) then Active_ext2
     else if mounted (s_fat s) then Active_fat32 else No_fs)"

definition unmount_active :: "active_fs \<Rightarrow> ('d, 'p, unit) cmd" where
  "unmount_active afs =
     (case afs of Active_ext2 \<Rightarrow> on_e2 ext2_unmount
      | Active_fat32 \<Rightarrow> modify (\<lambda>s. s\<lparr>s_fat := unmount (s_fat s)\<rparr>)
      | No_fs \<Rightarrow> ret ())"

text \<open>The two lines before a mount: whatever is mounted is unmounted.\<close>

definition unmount_all :: "('d, 'p, unit) cmd" where
  "unmount_all = do {
     e \<leftarrow> asks (\<lambda>s. ext2_is_mounted (fs (s_e2 s)));
     _ \<leftarrow> (if e then unmount_active Active_ext2 else ret ());
     f \<leftarrow> asks (\<lambda>s. mounted (s_fat s));
     if f then unmount_active Active_fat32 else ret () }"

section \<open>Partitions\<close>

text \<open>LBA, size and type of partition \<open>idx\<close>.\<close>

definition resolve_partition :: "'d blk \<Rightarrow> 'd \<Rightarrow> int \<Rightarrow> (u32 \<times> u32 \<times> u8) option" where
  "resolve_partition io d idx =
     (if idx < 0 \<or> idx > 3 then None
      else case mbr_read io d of None \<Rightarrow> None
      | Some m \<Rightarrow>
        if mbr_signature m \<noteq> 0xAA55 then None
        else let p = get_part m (nat idx) in
          if ptype p = 0 then None
          else if lba_start p = 0 \<or> sector_count p = 0 then None
          else Some (lba_start p, sector_count p, ptype p))"

definition find_partition_by_lba :: "'d blk \<Rightarrow> 'd \<Rightarrow> u32 \<Rightarrow> int" where
  "find_partition_by_lba io d lba =
     (case mbr_read io d of None \<Rightarrow> -1
      | Some m \<Rightarrow>
        if mbr_signature m \<noteq> 0xAA55 then -1
        else case List.find (\<lambda>i. ptype (get_part m i) \<noteq> 0 \<and> lba_start (get_part m i) = lba) [0, 1, 2, 3] of
            Some i \<Rightarrow> int i | None \<Rightarrow> -1)"

definition active_partition :: "('d, 'p) env \<Rightarrow> active_fs \<Rightarrow> ('d, 'p, int) cmd" where
  "active_partition env afs = do {
     d \<leftarrow> the_dev;
     lba \<leftarrow> asks (\<lambda>s. if afs = Active_ext2 then e_partition_lba (fs (s_e2 s)) else partition_lba (s_fat s));
     ret (if afs = No_fs then -1 else find_partition_by_lba (e_io env) d lba) }"

section \<open>Low-level disk commands\<close>

definition disk_present_now :: "('d, 'p) env \<Rightarrow> ('d, 'p, bool) cmd" where
  "disk_present_now env = do { d \<leftarrow> the_dev; ret (blk_present (e_io env) d) }"

text \<open>The size in sectors that \<open>diskinfo\<close> and \<open>fdisk list\<close> show.\<close>

definition info_total :: "disk_info \<Rightarrow> u64" where
  "info_total i = (if di_lba48 i then di_sectors48 i else ucast (di_sectors i))"

definition cbuf :: "u8 list \<Rightarrow> cstr" where "cbuf b = takeWhile (\<lambda>c. c \<noteq> 0) b"

definition diskinfo :: "('d, 'p) env \<Rightarrow> ('d, 'p, unit) cmd" where
  "diskinfo env = do {
     _ \<leftarrow> say (msg COLOR_CYAN [ln ''Disk Information:'']);
     present \<leftarrow> disk_present_now env;
     if \<not> present then say (msg COLOR_RED [ln ''  No disk detected!''])
     else do {
       i \<leftarrow> asks s_disk;
       drv \<leftarrow> asks s_drv;
       say ([tx ''  Driver:    '', tx (case drv of AHCI \<Rightarrow> ''AHCI'' | ATA \<Rightarrow> ''ATA PIO'' | NONE \<Rightarrow> ''none''), Putc 10,
             tx ''  Model:     '', Puts (cbuf (di_model i)), Putc 10,
             tx ''  Serial:    '', Puts (cbuf (di_serial i)), Putc 10,
             tx ''  Firmware:  '', Puts (cbuf (di_firmware i)), Putc 10,
             tx ''  LBA28:     '', number32 (di_sectors i), ln '' sectors'', tx ''  LBA48:     '']
            @ (if di_lba48 i then [number64 (di_sectors48 i), ln '' sectors''] else [ln ''not supported''])
            @ [tx ''  Size:      '', number64 (info_total i div 2048), ln '' MB'', ln ''  Sector:    512 bytes'']) } }"

definition disktest :: "('d, 'p) env \<Rightarrow> ('d, 'p, unit) cmd" where
  "disktest env = do {
     _ \<leftarrow> say (msg COLOR_CYAN [ln ''Reading sector 0 (MBR)...'']);
     d \<leftarrow> the_dev;
     case blk_read (e_io env) d 0 of None \<Rightarrow> say (msg COLOR_RED [ln ''[FAIL] Cannot read sector 0''])
     | Some b \<Rightarrow> do {
         _ \<leftarrow> say ([tx ''  First 16 bytes: ''] @ concat (map (\<lambda>i. [hex2 (b ! i), Putc 32]) [0..<16]) @ [Putc 10]);
         say ((if b ! 510 = 0x55 \<and> b ! 511 = 0xAA then [Color COLOR_GREEN, ln ''[ OK ] MBR signature found (0x55AA)'']
               else [Color COLOR_RED, ln ''[FAIL] No MBR signature'']) @ [Color COLOR_GRAY]) } }"

definition dump_row :: "u8 list \<Rightarrow> nat \<Rightarrow> con_call list" where
  "dump_row b row =
     (let bs = map (\<lambda>col. b ! (row * 16 + col)) [0..<16] in
      concat (map (\<lambda>c. [hex2 c, Putc 32]) bs) @ [tx '' | '']
      @ map (\<lambda>c. Putc (if 32 \<le> c \<and> c < 127 then c else 46)) bs @ [Putc 10])"

definition diskread :: "('d, 'p) env \<Rightarrow> cstr \<Rightarrow> ('d, 'p, unit) cmd" where
  "diskread env args = do {
     n \<leftarrow> attempt 0 (simple_atoi args);
     let lba = (word_of_int n :: u32);
     d \<leftarrow> the_dev;
     case blk_read (e_io env) d lba of None \<Rightarrow> say (msg COLOR_RED [ln ''Read failed!''])
     | Some b \<Rightarrow> say (msg COLOR_CYAN [tx ''Sector '', number32 lba, ln '':''] @ concat (map (dump_row b) [0..<32])) }"

text \<open>A hexadecimal digit; any other character counts as 0.\<close>

definition hex_val :: "u8 \<Rightarrow> u8" where
  "hex_val c = (if 48 \<le> c \<and> c \<le> 57 then c - 48
     else if 65 \<le> c \<and> c \<le> 70 then c - 65 + 10
     else if 97 \<le> c \<and> c \<le> 102 then c - 97 + 10 else 0)"

text \<open>At most \<open>n\<close> bytes from \<open>raw\<close>, the rest of the command buffer: the line, its terminator and what
  older lines left behind it.  A read past the buffer is \<open>None\<close>.\<close>

fun hex_bytes :: "nat \<Rightarrow> u8 list \<Rightarrow> u8 list option" where
  "hex_bytes 0 raw = (if raw = [] then None else Some [])"
| "hex_bytes (Suc n) raw =
     (case raw of [] \<Rightarrow> None
      | c0 # _ \<Rightarrow>
        if c0 = 0 then Some []
        else case skip_spaces raw of [] \<Rightarrow> None
        | h # cs \<Rightarrow>
          if h = 0 then Some []
          else case cs of [] \<Rightarrow> None
          | l # ls \<Rightarrow> map_option ((#) (push_bit 4 (hex_val h) OR hex_val l)) (hex_bytes n ls))"

definition diskwrite :: "('d, 'p) env \<Rightarrow> u8 list \<Rightarrow> ('d, 'p, unit) cmd" where
  "diskwrite env raw = do {
     n \<leftarrow> attempt 0 (simple_atoi (cbuf raw));
     let lba = (word_of_int n :: u32);
     bytes \<leftarrow> attempt [] (hex_bytes 512 (skip_spaces (dropWhile (\<lambda>c. c \<noteq> 0 \<and> c \<noteq> 32) raw)));
     ok \<leftarrow> on_dev (\<lambda>d. blk_write (e_io env) d lba (bytes @ replicate (512 - length bytes) 0));
     if \<not> ok then say (msg COLOR_RED [ln ''[FAIL] Write failed''])
     else say (msg COLOR_GREEN [tx ''[ OK ] Written '', number (int (length bytes)), tx '' bytes to LBA '',
       number32 lba, Putc 10]) }"

section \<open>Partitioning\<close>

definition type_of_name :: "cstr \<Rightarrow> u8 option" where
  "type_of_name t =
     (if streq_ci t (ascii ''fat32'') then Some 0x0B
      else if streq_ci t (ascii ''linux'') then Some 0x83
      else if streq_ci t (ascii ''ext2'') then Some 0x83
      else if streq_ci t (ascii ''fat'') then Some 0x0B
      else None)"

definition fdisk_create :: "('d, 'p) env \<Rightarrow> cstr \<Rightarrow> ('d, 'p, unit) cmd" where
  "fdisk_create env p = do {
     n \<leftarrow> attempt 0 (simple_atoi p);
     let p = skip_spaces (skip_word p);
     let type_str = take 15 (takeWhile (\<lambda>c. c \<noteq> 32) p);
     let p = skip_spaces (drop (length type_str) p);
     size_mb \<leftarrow> attempt 0 (simple_atoi p);
     let sectors = (word_of_int size_mb * 2048 :: u32);
     case type_of_name type_str of
       None \<Rightarrow> say (msg COLOR_RED [tx ''[FAIL] Unknown partition type: '', Puts type_str,
                 Puts (10 # ascii ''Known: Ext2, FAT32'' @ [10])])
     | Some ty \<Rightarrow>
         if n < 0 \<or> n > 3 then say (msg COLOR_RED [ln ''[FAIL] Partition number must be 0..3''])
         else if size_mb \<le> 0 then say (msg COLOR_RED [ln ''[FAIL] Size must be > 0 MB''])
         else do {
           d \<leftarrow> the_dev;
           let start = find_free_lba (e_io env) d sectors;
           if start = 0 then say (msg COLOR_RED [ln ''[FAIL] No free space''])
           else do {
             ok \<leftarrow> on_dev (\<lambda>d. create_partition (e_io env) d n start sectors ty);
             if ok then say (msg COLOR_GREEN [tx ''[ OK ] Partition '', number n, tx '' created: '', Puts type_str,
                 tx '' at LBA '', number32 start, tx '' ('', number64 (word_of_int size_mb), tx '' MB, MBR type 0x'',
                 hex2 ty, ln '')''])
             else say (msg COLOR_RED [ln ''[FAIL] Cannot create partition'']) } } }"

definition fdisk_delete :: "('d, 'p) env \<Rightarrow> cstr \<Rightarrow> ('d, 'p, unit) cmd" where
  "fdisk_delete env p = do {
     n \<leftarrow> attempt 0 (simple_atoi p);
     ok \<leftarrow> on_dev (\<lambda>d. delete_partition (e_io env) d n);
     if ok then do {
       _ \<leftarrow> say [Color COLOR_GREEN, tx ''[ OK ] Partition '', number n, ln '' deleted''];
       _ \<leftarrow> on_cfg (\<lambda>d c. remove_by_part (e_io env) d c (word_of_int n));
       say [Color COLOR_GRAY] }
     else say (msg COLOR_RED [ln ''[FAIL] Cannot delete'']) }"

definition fdisk :: "('d, 'p) env \<Rightarrow> cstr \<Rightarrow> ('d, 'p, unit) cmd" where
  "fdisk env args = do {
     present \<leftarrow> disk_present_now env;
     if \<not> present then say (msg COLOR_RED [ln ''No disk!''])
     else if args = [] \<or> streq_ci args (ascii ''list'') then do {
       i \<leftarrow> asks s_disk;
       d \<leftarrow> the_dev;
       say ([Color COLOR_CYAN, tx ''Disk: '', Puts (cbuf (di_model i)), tx '' ('', number64 (info_total i div 2048),
         Puts (ascii '' MB)'' @ [10, 10]), Color COLOR_GRAY, Puts (mbr_print_all (e_io env) d)]) }
     else if streq_ci args (ascii ''init'') then do {
       ok \<leftarrow> on_dev (\<lambda>d. mbr_write (e_io env) d create_empty);
       say (if ok then msg COLOR_GREEN [ln ''[ OK ] Empty MBR created''] else msg COLOR_RED [ln ''[FAIL] Cannot write MBR'']) }
     else if strncmp args (ascii ''create '') 7 = 0 \<or> strncmp args (ascii ''CREATE '') 7 = 0
       then fdisk_create env (drop 7 args)
     else if strncmp args (ascii ''delete '') 7 = 0 \<or> strncmp args (ascii ''DELETE '') 7 = 0
       then fdisk_delete env (drop 7 args)
     else say [ln ''Usage:'', ln ''  fdisk                        - show partitions'',
       ln ''  fdisk init                   - create empty MBR'',
       ln ''  fdisk create <n> <type> <mb> - create partition #n'', ln ''      types: Ext2, FAT32'',
       ln ''  fdisk delete <n>             - delete partition #n''] }"

text \<open>The part of \<open>format\<close> behind the checks of its arguments.\<close>

definition is_ext_name :: "cstr \<Rightarrow> bool" where
  "is_ext_name t \<longleftrightarrow> streq_ci t (ascii ''ext2'') \<or> streq_ci t (ascii ''ext3'') \<or> streq_ci t (ascii ''ext4'')"

definition format_partition :: "('d, 'p) env \<Rightarrow> cstr \<Rightarrow> int \<Rightarrow> u32 \<Rightarrow> ('d, 'p, unit) cmd" where
  "format_partition env fs_name part override_mb = do {
     d \<leftarrow> the_dev;
     case resolve_partition (e_io env) d part of
       None \<Rightarrow> say (msg COLOR_RED [tx ''[FAIL] No partition #'', number part, ln '' in MBR (or empty slot)'',
         tx ''       Use 'fdisk create '', number part, ln '' <type> <mb>' first.''])
     | Some (lba, sectors, _) \<Rightarrow> do {
         let smaller = (override_mb > 0 \<and> override_mb < sectors div 2048);
         let size_mb = (if smaller then override_mb else sectors div 2048);
         let sectors = (if smaller then size_mb * 2048 else sectors);
         _ \<leftarrow> say (msg COLOR_YELLOW [tx ''[FORMAT] Formatting '', Puts fs_name, tx '' partition #'', number part,
           tx '' at LBA '', number32 lba, tx '' ('', number32 size_mb, ln '' MB)...'']);
         ok \<leftarrow> on_dev (\<lambda>d. if is_ext_name fs_name then ext2_format (e_io env) (e_grant env) d lba sectors
                  else format (e_io env) d lba sectors);
         if ok then say (msg COLOR_GREEN [tx ''[ OK ] Partition #'', number part, tx '' formatted as '', Puts fs_name, Putc 10])
         else say (msg COLOR_RED [ln ''[FAIL] Format failed'']) } }"

definition format_cmd :: "('d, 'p) env \<Rightarrow> cstr \<Rightarrow> ('d, 'p, unit) cmd" where
  "format_cmd env args = do {
     present \<leftarrow> disk_present_now env;
     if \<not> present then say (msg COLOR_RED [ln ''[FAIL] No disk''])
     else do {
       let p = skip_spaces args;
       let fs_name = take 15 (takeWhile (\<lambda>c. c \<noteq> 32) p);
       let p = skip_spaces (drop (length fs_name) p);
       if fs_name = [] then say (msg COLOR_RED [ln ''[FAIL] Invalid parameters'', ln ''Usage: format <ext2|fat32> <part#>''])
       else if \<not> is_ext_name fs_name \<and> \<not> streq_ci fs_name (ascii ''fat32'')
         then say (msg COLOR_RED [tx ''[FAIL] Unknown filesystem: '', Puts fs_name, Puts (10 # ascii ''Supported: ext2, fat32'' @ [10])])
       else if p = [] then say (msg COLOR_RED [ln ''[FAIL] Missing partition number'', ln ''Usage: format <ext2|fat32> <part#>''])
       else do {
         part \<leftarrow> attempt 0 (simple_atoi p);
         let p = skip_spaces (skip_word p);
         override \<leftarrow> (if p \<noteq> [] \<and> is_digit (hd p) then attempt 0 (simple_atoi p) else ret 0);
         if part < 0 \<or> part > 3 then say (msg COLOR_RED [ln ''[FAIL] Partition number must be 0..3''])
         else format_partition env fs_name part (word_of_int override) } } }"

end
