(* ===== verification/FileCommands.thy ===== *)
theory FileCommands
  imports Commands
begin

text \<open>
  The commands on mounts and files, \<open>shell/commands.cpp\<close>.
\<close>

section \<open>Mounting\<close>

definition mount_usage :: "con_call list" where
  "mount_usage = [ln ''Usage: mount <A-Z>: <part#>'', ln ''Example: mount C: 0'']"

definition mounted_msg :: "string \<Rightarrow> int \<Rightarrow> u8 \<Rightarrow> u32 \<Rightarrow> con_call list" where
  "mounted_msg t part ltr lba = msg COLOR_GREEN [tx ''[ OK ] Mounted '', tx t, tx '' (partition #'', number part,
     tx '') as '', Putc ltr, tx '': at LBA '', number32 lba, ln '' (saved)'']"

text \<open>What \<open>mount\<close> does once its arguments are checked: ext2 is tried first.\<close>

definition mount_at :: "('d, 'p) env \<Rightarrow> u8 \<Rightarrow> int \<Rightarrow> u32 \<Rightarrow> ('d, 'p, unit) cmd" where
  "mount_at env ltr part lba = do {
     _ \<leftarrow> unmount_all;
     e \<leftarrow> on_e2 (ext2_mount (e_io env) lba ltr);
     if e then do {
       _ \<leftarrow> on_cfg (\<lambda>d c. add (e_io env) d c ltr FS_EXT2 (word_of_int part) lba);
       say (mounted_msg ''Ext2'' part ltr lba) }
     else do {
       f \<leftarrow> fat_fs (\<lambda>d v. mount (e_io env) d lba ltr v);
       if f then do {
         _ \<leftarrow> on_cfg (\<lambda>d c. add (e_io env) d c ltr FS_FAT32 (word_of_int part) lba);
         say (mounted_msg ''FAT32'' part ltr lba) }
       else say (msg COLOR_RED [tx ''[FAIL] Cannot mount partition #'', number part,
         ln '': not a valid Ext2/FAT32 filesystem'', tx ''       Did you format it? Try: format ext2 '', number part, Putc 10]) } }"

definition mount_cmd :: "('d, 'p) env \<Rightarrow> cstr \<Rightarrow> ('d, 'p, unit) cmd" where
  "mount_cmd env args =
     (let p = skip_spaces args in
      if p = [] \<or> cget p 1 \<noteq> 58 then say mount_usage
      else
        let ltr = upcase (hd p) in
        if ltr < 65 \<or> ltr > 90 then say [ln ''Invalid drive letter'']
        else
          let p = skip_spaces (drop 2 p) in
          if p = [] then say mount_usage
          else do {
            part \<leftarrow> attempt 0 (simple_atoi p);
            if part < 0 \<or> part > 3 then say (msg COLOR_RED [ln ''[FAIL] Partition number must be 0..3''])
            else do {
              d \<leftarrow> the_dev;
              case resolve_partition (e_io env) d part of
                None \<Rightarrow> say (msg COLOR_RED [tx ''[FAIL] No partition #'', number part, ln '' in MBR (or empty slot)''])
              | Some (lba, _, _) \<Rightarrow> mount_at env ltr part lba } })"

text \<open>The first saved entry that satisfies \<open>P\<close>, as the loops over \<open>count\<close> and \<open>get\<close> find it.\<close>

definition find_saved :: "('d, 'p) env \<Rightarrow> (saved_entry \<Rightarrow> bool) \<Rightarrow> ('d, 'p, saved_entry option) cmd" where
  "find_saved env P = do {
     n \<leftarrow> ask_cfg (config_count (e_io env));
     first_m (\<lambda>i. do {
       r \<leftarrow> ask_cfg (\<lambda>d c. MountConfig.get (e_io env) d c (int i));
       ret (case r of Some e \<Rightarrow> if P e then Some e else None | None \<Rightarrow> None) }) [0..<nat n] }"

definition remove_mount :: "('d, 'p) env \<Rightarrow> active_fs \<Rightarrow> int \<Rightarrow> int \<Rightarrow> ('d, 'p, unit) cmd" where
  "remove_mount env afs active part =
     (if part < 0 \<or> part > 3 then say (msg COLOR_RED [ln ''[FAIL] Invalid partition number''])
      else do {
        _ \<leftarrow> (if active = part then unmount_active afs else ret ());
        _ \<leftarrow> on_cfg (\<lambda>d c. remove_by_part (e_io env) d c (word_of_int part));
        say (msg COLOR_GREEN ([tx ''[ OK ] Unmounted partition #'', number part]
          @ (if active = part then [] else [tx '' (was not active)'']) @ [Putc 10])) })"

definition unmount_cmd :: "('d, 'p) env \<Rightarrow> cstr \<Rightarrow> ('d, 'p, unit) cmd" where
  "unmount_cmd env args = do {
     let p = skip_spaces args;
     afs \<leftarrow> get_active_fs;
     active \<leftarrow> active_partition env afs;
     if p = [] then do {
       _ \<leftarrow> unmount_active afs;
       _ \<leftarrow> on_cfg (clear (e_io env));
       say (msg COLOR_GREEN [ln ''[ OK ] Unmounted active FS and cleared all saved entries'']) }
     else if cget p 1 = 58 then do {
       let ltr = upcase (hd p);
       r \<leftarrow> find_saved env (\<lambda>e. letter e = ltr);
       case r of
         None \<Rightarrow> say (msg COLOR_RED [tx ''[FAIL] No saved mount for drive '', Putc ltr, ln '':''])
       | Some e \<Rightarrow> remove_mount env afs active (uint (part_num e)) }
     else do {
       part \<leftarrow> attempt 0 (simple_atoi p);
       remove_mount env afs active part } }"

section \<open>Switching\<close>

definition switch_usage :: "con_call list" where
  "switch_usage = [ln ''Usage: switch <L>: | <part#>'', ln ''Example: switch E:   or   switch 0'']"

text \<open>The entry wanted: by letter (then \<open>want_part\<close> is -1) or by partition (then the letter is 0).\<close>

definition wanted :: "u8 \<Rightarrow> int \<Rightarrow> saved_entry \<Rightarrow> bool" where
  "wanted want_letter want_part e \<longleftrightarrow>
     (want_letter \<noteq> 0 \<and> letter e = want_letter) \<or> (want_part \<ge> 0 \<and> uint (part_num e) = want_part)"

text \<open>Mounting a saved entry, as \<open>switch\<close> and the boot do it.\<close>

definition mount_saved :: "('d, 'p) env \<Rightarrow> saved_entry \<Rightarrow> ('d, 'p, bool) cmd" where
  "mount_saved env e =
     (if fs_type e = FS_EXT2 then on_e2 (ext2_mount (e_io env) (se_lba e) (letter e))
      else if fs_type e = FS_FAT32 then fat_fs (\<lambda>d v. mount (e_io env) d (se_lba e) (letter e) v)
      else ret False)"

definition switch_to :: "('d, 'p) env \<Rightarrow> saved_entry \<Rightarrow> ('d, 'p, unit) cmd" where
  "switch_to env e = do {
     afs \<leftarrow> get_active_fs;
     active \<leftarrow> active_partition env afs;
     if active = uint (part_num e)
     then say (msg COLOR_YELLOW [tx ''[INFO] '', Putc (letter e), ln '': is already the active filesystem''])
     else do {
       _ \<leftarrow> unmount_all;
       ok \<leftarrow> mount_saved env e;
       if ok then do {
         _ \<leftarrow> on_cfg (\<lambda>d c. add (e_io env) d c (letter e) (fs_type e) (part_num e) (se_lba e));
         say (msg COLOR_GREEN [tx ''[ OK ] Switched to '', Putc (letter e), tx '': (partition #'',
           number (uint (part_num e)), ln '')'']) }
       else say (msg COLOR_RED [Puts (ascii ''[FAIL] Switch failed '' @ [0xE2, 0x80, 0x94]
         @ ascii '' partition may have been deleted or filesystem corrupted'' @ [10])]) } }"

definition switch_lookup :: "('d, 'p) env \<Rightarrow> u8 \<Rightarrow> int \<Rightarrow> ('d, 'p, unit) cmd" where
  "switch_lookup env want_letter want_part = do {
     r \<leftarrow> find_saved env (wanted want_letter want_part);
     case r of Some e \<Rightarrow> switch_to env e
     | None \<Rightarrow> say (msg COLOR_RED ([tx ''[FAIL] No saved mount for '']
         @ (if want_letter \<noteq> 0 then [Putc want_letter, tx '':''] else [tx ''partition #'', number want_part])
         @ [ln ''  (use 'mount' first, then 'drives' to list)''])) }"

definition switch_cmd :: "('d, 'p) env \<Rightarrow> cstr \<Rightarrow> ('d, 'p, unit) cmd" where
  "switch_cmd env args =
     (let p = skip_spaces args in
      if p = [] then say switch_usage
      else if cget p 1 = 58 then
        (let ltr = upcase (hd p) in
         if ltr < 65 \<or> ltr > 90 then say (msg COLOR_RED [ln ''[FAIL] Invalid drive letter''])
         else switch_lookup env ltr (-1))
      else if is_digit (hd p) then do {
        part \<leftarrow> attempt 0 (simple_atoi p);
        if part < 0 \<or> part > 3 then say (msg COLOR_RED [ln ''[FAIL] Partition number must be 0..3''])
        else switch_lookup env 0 part }
      else say switch_usage)"

definition drive_line :: "int \<Rightarrow> saved_entry \<Rightarrow> con_call list" where
  "drive_line active e =
     (let is_active = (active \<ge> 0 \<and> active = uint (part_num e)) in
      (if is_active then [Color COLOR_GREEN, tx ''  * ''] else [tx ''    ''])
      @ [Putc (letter e), tx '':  '', tx (if fs_type e = FS_EXT2 then ''Ext2 '' else ''FAT32''), tx ''  partition #'',
         number (uint (part_num e)), tx ''  at LBA '', number32 (se_lba e)]
      @ (if is_active then [tx ''  [active]'', Color COLOR_GRAY] else []) @ [Putc 10])"

definition drives :: "('d, 'p) env \<Rightarrow> ('d, 'p, unit) cmd" where
  "drives env = do {
     _ \<leftarrow> say (msg COLOR_CYAN [ln ''Mounted drives:'']);
     afs \<leftarrow> get_active_fs;
     active \<leftarrow> active_partition env afs;
     n \<leftarrow> ask_cfg (config_count (e_io env));
     if n = 0 then say [ln ''  (none)'']
     else for_m (\<lambda>i. do {
       r \<leftarrow> ask_cfg (\<lambda>d c. MountConfig.get (e_io env) d c (int i));
       case r of None \<Rightarrow> ret () | Some e \<Rightarrow> say (drive_line active e) }) [0..<nat n] }"

section \<open>Files\<close>

text \<open>The operation of the active file system; \<open>x\<close> when none is mounted.\<close>

definition by_fs :: "'a \<Rightarrow> ('d, 'p, 'a) cmd \<Rightarrow> ('d, 'p, 'a) cmd \<Rightarrow> ('d, 'p, 'a) cmd" where
  "by_fs x on_ext2 on_fat = do {
     afs \<leftarrow> get_active_fs;
     case afs of Active_ext2 \<Rightarrow> on_ext2 | Active_fat32 \<Rightarrow> on_fat | No_fs \<Rightarrow> ret x }"

definition no_fs_msg :: "con_call list" where "no_fs_msg = [ln ''No filesystem mounted'']"

definition report :: "bool \<Rightarrow> string \<Rightarrow> string \<Rightarrow> con_call list" where
  "report ok yes no = (if ok then msg COLOR_GREEN [ln (''[ OK ] '' @ yes)] else msg COLOR_RED [ln (''[FAIL] '' @ no)])"

definition cd_cmd :: "('d, 'p) env \<Rightarrow> cstr \<Rightarrow> ('d, 'p, unit) cmd" where
  "cd_cmd env args = do {
     afs \<leftarrow> get_active_fs;
     if afs = No_fs then say (msg COLOR_RED [ln ''[FAIL] No filesystem mounted''])
     else do {
       let p = (if skip_spaces args = [] then ascii ''/'' else skip_spaces args);
       ok \<leftarrow> by_fs False (on_e2 (ext2_cd (e_io env) (Some p))) (fat_fs (\<lambda>d v. cd (e_io env) d v (Some p)));
       if ok then ret ()
       else say (msg COLOR_RED [tx ''[FAIL] Directory not found: '', Puts p, Putc 10]) } }"

definition print_pwd :: "('d, 'p, unit) cmd" where
  "print_pwd = by_fs ()
     (do { f \<leftarrow> asks (\<lambda>s. fs (s_e2 s)); t \<leftarrow> attempt [] (ext2_pwd f); say [Puts t] })
     (do { t \<leftarrow> fat_look [] (\<lambda>d v. pwd v); say [Puts t] })"

definition pwd_cmd :: "('d, 'p, unit) cmd" where
  "pwd_cmd = do {
     afs \<leftarrow> get_active_fs;
     if afs = No_fs then say [ln ''No filesystem'']
     else do { _ \<leftarrow> print_pwd; say [Putc 10] } }"

definition shell_print_prompt :: "('d, 'p, unit) cmd" where
  "shell_print_prompt = do {
     _ \<leftarrow> say [Color COLOR_GREEN];
     afs \<leftarrow> get_active_fs;
     _ \<leftarrow> (if afs = No_fs then say [tx ''root''] else print_pwd);
     say [tx ''/ > '', Color COLOR_GRAY] }"

definition fat_ls :: "('d, 'p) env \<Rightarrow> cstr \<Rightarrow> ('d, 'p, unit) cmd" where
  "fat_ls env args = do {
     t \<leftarrow> by_fs (ascii ''No filesystem mounted'' @ [10]) (on_e2 (ext2_list_dir (e_io env) (Some args)))
           (fat_look [] (\<lambda>d v. list_dir (e_io env) d v (Some args)));
     say [Puts t] }"

text \<open>\<open>cat\<close> reads into a static buffer of 65536 bytes.\<close>

definition fat_cat :: "('d, 'p) env \<Rightarrow> cstr \<Rightarrow> ('d, 'p, unit) cmd" where
  "fat_cat env args = do {
     afs \<leftarrow> get_active_fs;
     if afs = No_fs then say no_fs_msg
     else do {
       buf \<leftarrow> asks s_cat;
       (ok, buf, size) \<leftarrow> by_fs (False, buf, 0) (on_e2 (ext2_read_file (e_io env) (Some args) buf))
         (fat_look (False, buf, 0) (\<lambda>d v. read_file (e_io env) d v args buf));
       _ \<leftarrow> modify (\<lambda>s. s\<lparr>s_cat := buf\<rparr>);
       if \<not> ok then say [ln ''Cannot read file'']
       else do {
         t \<leftarrow> attempt [] (if unat size \<le> length buf then Some (take (unat size) buf) else None);
         say (map Putc t @ (if t = [] \<or> last t \<noteq> 10 then [Putc 10] else [])) } } }"

definition fat_mkdir :: "('d, 'p) env \<Rightarrow> cstr \<Rightarrow> ('d, 'p, unit) cmd" where
  "fat_mkdir env args = do {
     afs \<leftarrow> get_active_fs;
     if afs = No_fs then say no_fs_msg
     else do {
       ok \<leftarrow> by_fs False (on_e2 (ext2_create_dir (e_io env) (Some args)))
         (fat_disk_op (\<lambda>d v. create_dir (e_io env) d v args));
       say (report ok ''Directory created'' ''Cannot create directory'') } }"

definition fat_rm :: "('d, 'p) env \<Rightarrow> cstr \<Rightarrow> ('d, 'p, unit) cmd" where
  "fat_rm env args = do {
     afs \<leftarrow> get_active_fs;
     if afs = No_fs then say no_fs_msg
     else do {
       ok \<leftarrow> by_fs False (on_e2 (ext2_delete_file (e_io env) (Some args)))
         (fat_disk_op (\<lambda>d v. delete_file (e_io env) d v args));
       say (report ok ''File deleted'' ''Cannot delete'') } }"

definition fat_write :: "('d, 'p) env \<Rightarrow> cstr \<Rightarrow> ('d, 'p, unit) cmd" where
  "fat_write env args = do {
     afs \<leftarrow> get_active_fs;
     if afs = No_fs then say no_fs_msg
     else do {
       let path = take 63 (takeWhile (\<lambda>c. c \<noteq> 32) args);
       let text = skip_spaces (drop (length path) args);
       if path = [] then say [ln ''Usage: write <path> <text>'']
       else do {
         ok \<leftarrow> by_fs False (on_e2 (ext2_write_file (e_io env) (Some path) text (of_nat (length text))))
           (fat_disk_op (\<lambda>d v. write_file (e_io env) d v path text (of_nat (length text))));
         say (report ok ''File written'' ''Cannot write file'') } } }"

end
