(* ===== verification/SystemCommands.thy ===== *)
theory SystemCommands
  imports FileCommands
begin

text \<open>
  The remaining commands of \<open>shell/commands.cpp\<close>: information, the calculator, the heap test, the
  teardown with power-off and reboot, and the dispatch of a command line.
\<close>

section \<open>Information\<close>

definition ok_tag :: "bool \<Rightarrow> con_call list" where
  "ok_tag ok = (if ok then [Color COLOR_GREEN, tx ''  [ OK ] ''] else [Color COLOR_RED, tx ''  [FAIL] ''])"

definition driver_line :: "reg_entry \<Rightarrow> con_call list" where
  "driver_line e = ok_tag (re_ok e) @ [Color COLOR_GRAY, Puts (re_name e)]
     @ (if length (re_name e) < 12 then replicate (12 - length (re_name e)) (Putc 32) else [Putc 32])
     @ [tx ''- '', Puts (re_description e), Putc 10]"

definition drivers :: "('d, 'p, unit) cmd" where
  "drivers = do {
     es \<leftarrow> asks s_reg;
     say (msg COLOR_CYAN [ln ''Loaded drivers:'']
       @ concat (map (\<lambda>i. case reg_get es (int i) of None \<Rightarrow> [] | Some e \<Rightarrow> driver_line e) [0..<nat (reg_count es)])) }"

definition lspci :: "('d, 'p, unit) cmd" where
  "lspci = do { ds \<leftarrow> asks s_pci; say [Puts (pci_print_all ds)] }"

definition cpu_features :: "cpu_info \<Rightarrow> con_call list" where
  "cpu_features c = (if ci_sse c then [tx ''SSE ''] else []) @ (if ci_sse2 c then [tx ''SSE2 ''] else [])
     @ (if ci_avx c then [tx ''AVX ''] else []) @ (if ci_avx2 c then [tx ''AVX2 ''] else [])"

definition cpuinfo :: "('d, 'p, unit) cmd" where
  "cpuinfo = do {
     c \<leftarrow> asks s_cpu;
     say (msg COLOR_CYAN [ln ''CPU Information (CPUID):'']
       @ [tx ''  Vendor:   '', Puts (ci_vendor c), Putc 10, tx ''  Brand:    '', Puts (ci_brand c), Putc 10, tx ''  Features: '']
       @ cpu_features c @ [Putc 10]) }"

definition mb_of :: "u64 \<Rightarrow> con_call" where "mb_of b = number64 (b div (1024 * 1024))"

definition meminfo :: "('d, 'p, unit) cmd" where
  "meminfo = do {
     r \<leftarrow> asks s_ram;
     say (msg COLOR_CYAN [ln ''Memory Information:'']
       @ [tx ''  Total:        '', mb_of (total_bytes r), ln '' MB'', tx ''  Usable:       '', mb_of (usable_bytes r), ln '' MB'',
          tx ''  Reserved:     '', mb_of (reserved_bytes r), ln '' MB'', tx ''  Kernel:       '', mb_of (kernel_bytes r), ln '' MB'',
          tx ''  Framebuffer:  '', mb_of (framebuffer_bytes r), ln '' MB'']) }"

text \<open>The kinds of the memory map's entries.\<close>

datatype mem_kind = Mem_usable | Mem_kernel | Mem_framebuffer | Mem_other

definition add_entry :: "mem_kind \<times> u64 \<Rightarrow> ram_info \<Rightarrow> ram_info" where
  "add_entry e r =
     (let l = snd e; r = r\<lparr>total_bytes := total_bytes r + l\<rparr> in
      case fst e of Mem_usable \<Rightarrow> r\<lparr>usable_bytes := usable_bytes r + l\<rparr>
      | Mem_kernel \<Rightarrow> r\<lparr>kernel_bytes := kernel_bytes r + l\<rparr>
      | Mem_framebuffer \<Rightarrow> r\<lparr>framebuffer_bytes := framebuffer_bytes r + l\<rparr>
      | Mem_other \<Rightarrow> r\<lparr>reserved_bytes := reserved_bytes r + l\<rparr>)"

definition init_ram_info :: "(mem_kind \<times> u64) list option \<Rightarrow> ram_info \<Rightarrow> ram_info" where
  "init_ram_info response r =
     (case response of None \<Rightarrow> r
      | Some es \<Rightarrow> fold add_entry es \<lparr>total_bytes = 0, usable_bytes = 0, reserved_bytes = 0, kernel_bytes = 0, framebuffer_bytes = 0\<rparr>)"

text \<open>\<open>cpuid\<close> is a parameter: leaf and subleaf to \<open>eax\<close>, \<open>ebx\<close>, \<open>ecx\<close>, \<open>edx\<close>.  The leading blanks of
  the brand are cut away.\<close>

definition init_cpuinfo :: "(u32 \<Rightarrow> u32 \<Rightarrow> u32 \<times> u32 \<times> u32 \<times> u32) \<Rightarrow> cpu_info" where
  "init_cpuinfo cpuid =
     (let regs = (\<lambda>leaf. case cpuid leaf 0 of (a, b, c, d) \<Rightarrow> le32 a @ le32 b @ le32 c @ le32 d);
          (eax0, ebx0, ecx0, edx0) = cpuid 0 0;
          (eaxm, _, _, _) = cpuid 0x80000000 0;
          brand = (if eaxm \<ge> 0x80000004
            then skip_spaces (cbuf (regs 0x80000002 @ regs 0x80000003 @ regs 0x80000004))
            else ascii ''Unknown x86_64 CPU'');
          (_, _, ecx1, edx1) = cpuid 1 0;
          (_, ebx7, _, _) = cpuid 7 0
      in \<lparr>ci_vendor = cbuf (le32 ebx0 @ le32 edx0 @ le32 ecx0), ci_brand = brand,
          ci_sse = (edx1 AND push_bit 25 1 \<noteq> 0), ci_sse2 = (edx1 AND push_bit 26 1 \<noteq> 0),
          ci_avx = (ecx1 AND push_bit 28 1 \<noteq> 0), ci_avx2 = (ebx7 AND push_bit 5 1 \<noteq> 0)\<rparr>)"

definition inputinfo :: "('d, 'p) env \<Rightarrow> ('d, 'p, unit) cmd" where
  "inputinfo env = do {
     i \<leftarrow> asks s_input;
     b \<leftarrow> asks s_bus;
     let (has, b) = input_has_data (e_input env) i b;
     _ \<leftarrow> modify (\<lambda>s. s\<lparr>s_bus := b\<rparr>);
     say (msg COLOR_CYAN [ln ''Input Information:'']
       @ [tx ''  Active source: '', Puts (active_source_name i), Putc 10,
          tx ''  has_data():    '', tx (if has then ''yes'' else ''no''), Putc 10]) }"

text \<open>What the boot hands over.\<close>

definition set_bootloader_info :: "cstr option \<Rightarrow> cstr option \<Rightarrow> ('d, 'p, unit) cmd" where
  "set_bootloader_info name ver = modify (\<lambda>s. s\<lparr>s_boot_name := copy_into (s_boot_name s) name,
     s_boot_version := copy_into (s_boot_version s) ver\<rparr>)"

definition set_firmware_type :: "u64 \<Rightarrow> ('d, 'p, unit) cmd" where
  "set_firmware_type t = modify (\<lambda>s. s\<lparr>s_firmware := t\<rparr>)"

definition set_cmdline :: "cstr option \<Rightarrow> ('d, 'p, unit) cmd" where
  "set_cmdline c = modify (\<lambda>s. s\<lparr>s_cmdline := copy_into (s_cmdline s) c\<rparr>)"

definition set_boot_timestamp :: "u64 \<Rightarrow> ('d, 'p, unit) cmd" where
  "set_boot_timestamp t = modify (\<lambda>s. s\<lparr>s_timestamp := t\<rparr>)"

text \<open>\<open>e_fw\<close> holds the constants for BIOS, EFI32, EFI64 and SBI.\<close>

definition firmware_str :: "u64 list \<Rightarrow> u64 \<Rightarrow> string" where
  "firmware_str fw t =
     (if t = fw ! 0 then ''BIOS'' else if t = fw ! 1 then ''UEFI 32-bit'' else if t = fw ! 2 then ''UEFI 64-bit''
      else if t = fw ! 3 then ''SBI'' else ''Unknown'')"

text \<open>The six lines of the banner, as bytes.\<close>

definition banner :: "(u32 \<times> cstr) list" where
  "banner = [
    (COLOR_BLUE, [95, 95, 95, 95, 95, 95, 95, 95, 95, 95, 32, 32, 32, 32, 32, 32, 32, 32, 32, 32, 46, 95, 95, 95, 32, 32, 32, 32,
     32, 32, 32, 32, 32, 32, 32, 32, 32, 32, 32, 32, 32, 32, 32, 32, 95, 95, 32, 32, 95, 95, 95, 95, 95, 95, 95, 95,
     32, 32, 32, 32, 95, 95, 95, 95, 95, 95, 95, 95, 95, 10]),
    (COLOR_BLUE, [92, 95, 95, 95, 95, 95, 95, 32, 32, 32, 92, 95, 95, 95, 95, 32, 32, 32, 95, 95, 124, 32, 95, 47, 95, 32, 95, 95,
     32, 32, 95, 95, 95, 95, 95, 32, 95, 95, 95, 95, 95, 32, 95, 47, 32, 32, 124, 95, 92, 95, 95, 95, 95, 95, 32, 32,
     92, 32, 32, 47, 32, 32, 32, 95, 95, 95, 95, 95, 47, 10]),
    (COLOR_CYAN, [32, 124, 32, 32, 32, 32, 32, 95, 95, 95, 47, 32, 32, 95, 32, 92, 32, 47, 32, 95, 95, 32, 124, 32, 32, 124, 32,
     32, 92, 47, 32, 32, 32, 32, 32, 92, 92, 95, 95, 32, 32, 92, 92, 32, 32, 32, 95, 95, 92, 47, 32, 32, 32, 124, 32,
     32, 32, 92, 32, 92, 95, 95, 95, 95, 95, 32, 32, 92, 32, 10]),
    (COLOR_CYAN, [32, 124, 32, 32, 32, 32, 124, 32, 32, 40, 32, 32, 60, 95, 62, 32, 41, 32, 47, 95, 47, 32, 124, 32, 32, 124, 32,
     32, 47, 32, 32, 89, 32, 89, 32, 32, 92, 47, 32, 95, 95, 32, 92, 124, 32, 32, 124, 32, 47, 32, 32, 32, 32, 124,
     32, 32, 32, 32, 92, 47, 32, 32, 32, 32, 32, 32, 32, 32, 92, 10]),
    (COLOR_GREEN, [32, 124, 95, 95, 95, 95, 124, 32, 32, 32, 92, 95, 95, 95, 95, 47, 92, 95, 95, 95, 95, 32, 124, 95, 95, 95, 95,
     47, 124, 95, 95, 124, 95, 124, 32, 32, 40, 95, 95, 95, 95, 32, 32, 47, 95, 95, 124, 32, 92, 95, 95, 95, 95, 95,
     95, 95, 32, 32, 47, 95, 95, 95, 95, 95, 95, 95, 32, 32, 47, 10]),
    (COLOR_GREEN, [32, 32, 32, 32, 32, 32, 32, 32, 32, 32, 32, 32, 32, 32, 32, 32, 32, 32, 32, 32, 32, 92, 47, 32, 32, 32, 32, 32,
     32, 32, 32, 32, 32, 32, 92, 47, 32, 32, 32, 32, 32, 92, 47, 32, 32, 32, 32, 32, 32, 32, 32, 32, 32, 32, 32, 32,
     92, 47, 32, 32, 32, 32, 32, 32, 32, 32, 92, 47, 32, 10])]"

definition field :: "string \<Rightarrow> con_call list \<Rightarrow> con_call list" where
  "field name cs = msg COLOR_YELLOW [tx name] @ cs"

text \<open>Memory in use in per cent; the product is a 64-bit one.\<close>

definition ram_percent :: "ram_info \<Rightarrow> int" where
  "ram_percent r =
     (if total_bytes r > 0 then sint (ucast (((total_bytes r - usable_bytes r) * 100) div total_bytes r) :: u32) else 0)"

definition neofetch :: "('d, 'p) env \<Rightarrow> ('d, 'p, unit) cmd" where
  "neofetch env = do {
     s \<leftarrow> State_Monad.get;
     let c = s_cpu s;
     let r = s_ram s;
     let secs = s_ticks s div 100;
     say (concat (map (\<lambda>(c, t). msg c [Puts t]) banner)
       @ msg COLOR_WHITE [Puts (replicate 30 32), tx ''PodumatOS'', tx '' v'', tx ''0.2.0'', Putc 10] @ [Putc 10]
       @ field ''  CPU:         '' [Puts (ci_brand c), Putc 10]
       @ field ''  CPU FEAT:    '' ([tx ''Vendor: '', Puts (ci_vendor c), tx '' | ''] @ cpu_features c @ [Putc 10])
       @ field ''  RAM:         '' [mb_of (total_bytes r), tx '' MB total ('', mb_of (usable_bytes r), ln '' MB usable)'']
       @ field ''  RAM USAGE:   '' [mb_of (total_bytes r - usable_bytes r), tx '' MB / '', mb_of (total_bytes r), tx '' MB ('',
           number (ram_percent r), ln ''%)'']
       @ field ''  MOTHERBOARD: '' [Puts (motherboard (s_dmi s)), Putc 10]
       @ field ''  MODEL:       '' [Puts (product_name (s_dmi s)), Putc 10]
       @ field ''  BIOS:        '' [Puts (bios_vendor (s_dmi s)), tx '' '', Puts (bios_version (s_dmi s)), tx '' ('',
           Puts (bios_date (s_dmi s)), ln '')'']
       @ field ''  FIRMWARE:    '' [tx (firmware_str (e_fw env) (s_firmware s)), Putc 10]
       @ field ''  KERNEL:      '' ([tx ''PodumatOS'', tx '' '', tx ''0.2.0'', tx '' ('', tx ''x86_64'', tx '', '']
           @ (if cbuf (s_boot_name s) \<noteq> []
              then [Puts (cbuf (s_boot_name s))] @ (if cbuf (s_boot_version s) \<noteq> [] then [tx '' v'', Puts (cbuf (s_boot_version s))] else [])
              else [tx ''unknown bootloader'']) @ [ln '')''])
       @ field ''  CMDLINE:     '' [Puts (if cbuf (s_cmdline s) \<noteq> [] then cbuf (s_cmdline s) else ascii ''(empty)''), Putc 10]
       @ field ''  STORAGE:     '' [tx (case s_drv s of AHCI \<Rightarrow> ''AHCI'' | ATA \<Rightarrow> ''ATA PIO'' | NONE \<Rightarrow> ''none''), Putc 10]
       @ field ''  INPUT:       '' [Puts (active_source_name (s_input s)), Putc 10]
       @ field ''  UPTIME:      '' [number64 (secs div 3600), tx ''h '', number64 (secs mod 3600 div 60), tx ''m '',
           number64 (secs mod 60), ln ''s'']
       @ field ''  SHELL:       '' [ln ''PodumShell v1.4'']
       @ field ''  TIMER:       '' [tx ''PIT @ 100 Hz, ticks='', number64 (s_ticks s), Putc 10] @ [Putc 10]
       @ field ''  COLOR TEST:  '' (concat (map (\<lambda>c. msg c [tx ''###''])
           [COLOR_RED, COLOR_GREEN, COLOR_YELLOW, COLOR_BLUE, COLOR_MAGENTA, COLOR_CYAN, COLOR_WHITE]) @ [Putc 10])) }"

section \<open>Calculator\<close>

definition calc :: "cstr \<Rightarrow> ('d, 'p, unit) cmd" where
  "calc args =
     (let (a, opr, b) = calc_parse args in
      case calc_result opr a b of
        Inl Division_by_zero \<Rightarrow> say (msg COLOR_RED [ln ''Error: division by zero''])
      | Inl Modulo_by_zero \<Rightarrow> say (msg COLOR_RED [ln ''Error: modulo by zero''])
      | Inl Unknown_operation \<Rightarrow> say (msg COLOR_RED [tx ''Unknown operation: '', Puts opr,
          Puts (10 # ascii ''Valid: ADD, SUB, MUL, DIV, MOD, POW'' @ [10])])
      | Inr r \<Rightarrow> do {
          ta \<leftarrow> attempt [] (print_fixed a);
          tb \<leftarrow> attempt [] (print_fixed b);
          tr \<leftarrow> attempt [] (print_fixed r);
          say [Color COLOR_GREEN, Puts ta, Putc 32, Puts opr, Putc 32, Puts tb, tx '' = '', Color COLOR_WHITE,
            Puts tr, Putc 10, Color COLOR_GRAY] })"

section \<open>Heap\<close>

definition on_heap :: "'a \<Rightarrow> (heap_state \<Rightarrow> ('a \<times> heap_state) option) \<Rightarrow> ('d, 'p, 'a) cmd" where
  "on_heap x f = do {
     h \<leftarrow> asks s_heap;
     (y, h) \<leftarrow> attempt (x, h) (f h);
     _ \<leftarrow> modify (\<lambda>s. s\<lparr>s_heap := h\<rparr>);
     ret y }"

definition heap_free :: "u64 \<Rightarrow> ('d, 'p, unit) cmd" where
  "heap_free p = on_heap () (\<lambda>h. map_option (\<lambda>h. ((), h)) (kfree p h))"

definition say_stats :: "('d, 'p, unit) cmd" where
  "say_stats = do { h \<leftarrow> asks s_heap; say [Puts (heap_stats h)] }"

definition heap_cmd :: "('d, 'p, unit) cmd" where
  "heap_cmd = do { _ \<leftarrow> say (msg COLOR_CYAN [ln ''Kernel heap:'']); say_stats }"

definition passed :: "bool \<Rightarrow> string \<Rightarrow> con_call list" where
  "passed ok t = [ln ((if ok then ''  [PASS] '' else ''  [FAIL] '') @ t)]"

text \<open>\<open>bytes[i] = (uint8_t)i\<close> for 4096 bytes.\<close>

definition test_pattern :: "u8 list" where "test_pattern = map of_nat [0..<4096]"

definition heaptest_cmd :: "('d, 'p, unit) cmd" where
  "heaptest_cmd = do {
     _ \<leftarrow> say (msg COLOR_CYAN [ln ''Heap self-test:'']);
     p1 \<leftarrow> on_heap 0 (kmalloc 16);
     _ \<leftarrow> say (passed (p1 \<noteq> 0) ''kmalloc(16)'');
     p2 \<leftarrow> on_heap 0 (kmalloc 1024);
     _ \<leftarrow> say (passed (p2 \<noteq> 0) ''kmalloc(1024)'');
     p3 \<leftarrow> on_heap 0 (kmalloc (2 * 1024 * 1024));
     _ \<leftarrow> say (passed (p3 \<noteq> 0) ''kmalloc(2 MB)'');
     _ \<leftarrow> (if p3 \<noteq> 0 then do {
            good \<leftarrow> on_heap False (\<lambda>h. let h = upd_mem (\<lambda>m. st m p3 test_pattern) h in Some (ld (h_mem h) p3 4096 = test_pattern, h));
            say (passed good ''write/read 4 KB of 2 MB block'') } else ret ());
     z \<leftarrow> on_heap 0 (kcalloc 64 1);
     _ \<leftarrow> (if z \<noteq> 0 then do {
            h \<leftarrow> asks s_heap;
            say (passed (ld (h_mem h) z 64 = replicate 64 0) ''kcalloc zeroes memory'') }
          else say (passed False ''kcalloc(64, 1)''));
     _ \<leftarrow> say [Puts (10 # ascii ''  Before free:'' @ [10])];
     _ \<leftarrow> say_stats;
     _ \<leftarrow> heap_free p1;
     _ \<leftarrow> heap_free p2;
     _ \<leftarrow> heap_free p3;
     _ \<leftarrow> heap_free z;
     _ \<leftarrow> say [Putc 10, ln ''  After free:''];
     _ \<leftarrow> say_stats;
     h \<leftarrow> asks s_heap;
     say (if region_count h = 0 \<and> current_in_use_bytes h = 0
          then [Color COLOR_GREEN, Puts (10 # ascii ''[ OK ] Heap returned to empty state'' @ [10]), Color COLOR_GRAY]
          else [Color COLOR_RED, Puts (10 # ascii ''[FAIL] Heap leaked: regions or bytes remain'' @ [10]), Color COLOR_GRAY]) }"

section \<open>Teardown\<close>

text \<open>The lines on the serial port are left out.\<close>

definition teardown_ok :: "string \<Rightarrow> ('d, 'p, unit) cmd" where
  "teardown_ok name = say [Color COLOR_GREEN, tx '' [ OK ] '', Color COLOR_GRAY, tx name, Putc 10]"
definition teardown_fail :: "string \<Rightarrow> ('d, 'p, unit) cmd" where
  "teardown_fail name = say [Color COLOR_RED, tx '' [FAIL] '', Color COLOR_GRAY, tx name, Putc 10]"
definition teardown_info :: "cstr \<Rightarrow> ('d, 'p, unit) cmd" where
  "teardown_info name = say [Color COLOR_CYAN, tx '' [INFO] '', Color COLOR_GRAY, Puts name, Putc 10]"

text \<open>A dash in UTF-8 between two texts.\<close>

definition dash :: "string \<Rightarrow> string \<Rightarrow> cstr" where "dash a b = ascii a @ [32, 0xE2, 0x80, 0x94, 32] @ ascii b"

text \<open>\<open>m\<close> is the memory by virtual address; the machine code of the DSDT is only read inside its length.\<close>

definition set_acpi_rsdp :: "bytes_mem \<Rightarrow> u64 \<Rightarrow> u64 \<Rightarrow> ('d, 'p, unit) cmd" where
  "set_acpi_rsdp m rsdp hhdm =
     (if rsdp = 0 then teardown_info (ascii ''ACPI: RSDP not provided'')
      else do {
        a \<leftarrow> asks s_acpi;
        (ok, a) \<leftarrow> attempt (False, a) (acpi_init m rsdp hhdm a);
        _ \<leftarrow> modify (\<lambda>s. s\<lparr>s_acpi := a\<rparr>);
        if ok then teardown_ok ''ACPI: FADT parsed''
        else teardown_info (dash ''ACPI: FADT not usable'' ''poweroff may be limited'') })"

definition teardown_stop_interrupts :: "('d, 'p, unit) cmd" where
  "teardown_stop_interrupts = do { _ \<leftarrow> cpu [Cli]; teardown_ok ''Interrupts disabled (CLI)'' }"

definition teardown_unmount_fs :: "('d, 'p, unit) cmd" where
  "teardown_unmount_fs = do {
     afs \<leftarrow> get_active_fs;
     _ \<leftarrow> unmount_active afs;
     case afs of Active_ext2 \<Rightarrow> teardown_ok ''Ext2 unmounted (runtime only)''
     | Active_fat32 \<Rightarrow> teardown_ok ''FAT32 unmounted (runtime only)''
     | No_fs \<Rightarrow> teardown_info (dash ''No filesystem mounted'' ''skipping unmount'') }"

definition teardown_flush_disks :: "('d, 'p) env \<Rightarrow> ('d, 'p, unit) cmd" where
  "teardown_flush_disks env = do {
     present \<leftarrow> disk_present_now env;
     if \<not> present then teardown_info (dash ''No disk'' ''skipping flush'')
     else do {
       ok \<leftarrow> on_dev (blk_flush (e_io env));
       if ok then teardown_ok ''Disk caches flushed'' else teardown_fail ''Disk flush failed'' } }"

definition teardown_stop_input :: "('d, 'p) env \<Rightarrow> ('d, 'p, unit) cmd" where
  "teardown_stop_input env = do {
     src \<leftarrow> asks (\<lambda>s. in_source (s_input s));
     b \<leftarrow> asks s_bus;
     _ \<leftarrow> (if src = USB \<and> e_ehci env b then do {
            _ \<leftarrow> modify (\<lambda>s. s\<lparr>s_bus := e_intr_close env b\<rparr>);
            teardown_ok ''USB HID intr closed'' } else ret ());
     _ \<leftarrow> (if src = PS2 then do {
            b \<leftarrow> attempt b (ps2_stop (i_ports (e_input env)) b);
            _ \<leftarrow> modify (\<lambda>s. s\<lparr>s_bus := b\<rparr>);
            teardown_ok ''PS/2 stopped'' } else ret ());
     _ \<leftarrow> modify (\<lambda>s. s\<lparr>s_input := input_stop (s_input s)\<rparr>);
     teardown_ok ''Input subsystem stopped'' }"

definition teardown_stop_block :: "('d, 'p) env \<Rightarrow> ('d, 'p, unit) cmd" where
  "teardown_stop_block env = do {
     drv \<leftarrow> asks s_drv;
     if drv = NONE then teardown_info (dash ''No block driver active'' ''skipping'')
     else do {
       d \<leftarrow> the_dev;
       _ \<leftarrow> set_dev (e_stop env d);
       teardown_ok (if drv = AHCI then ''AHCI stopped'' else ''ATA stopped'') } }"

definition teardown_stop_dma :: "('d, 'p, unit) cmd" where
  "teardown_stop_dma = do {
     ready \<leftarrow> asks (\<lambda>s. dma_ready (s_dma s));
     if ready then do { _ \<leftarrow> modify (\<lambda>s. s\<lparr>s_dma := dma_stop (s_dma s)\<rparr>); teardown_ok ''DMA allocator stopped'' }
     else teardown_info (dash ''DMA not initialized'' ''skipping'') }"

definition teardown_stop_pic :: "('d, 'p, unit) cmd" where
  "teardown_stop_pic = do { _ \<leftarrow> cpu (map (\<lambda>(p, v). Out8 p v) pic_stop); teardown_ok ''PIC masked'' }"

definition teardown_stop_idt :: "('d, 'p, unit) cmd" where
  "teardown_stop_idt = do { _ \<leftarrow> cpu [Null_idt]; teardown_ok ''IDT replaced with null'' }"

definition teardown_stop_dmi :: "('d, 'p, unit) cmd" where
  "teardown_stop_dmi = do { _ \<leftarrow> modify (\<lambda>s. s\<lparr>s_dmi := dmi_stop (s_dmi s)\<rparr>); teardown_ok ''DMI/SMBIOS subsystem stopped'' }"

definition system_teardown :: "('d, 'p) env \<Rightarrow> ('d, 'p, unit) cmd" where
  "system_teardown env = do {
     _ \<leftarrow> say (msg COLOR_YELLOW [Puts (10 # ascii ''[TEARDOWN] Stopping system services...'' @ [10])]);
     _ \<leftarrow> teardown_stop_interrupts;
     _ \<leftarrow> teardown_unmount_fs;
     _ \<leftarrow> teardown_flush_disks env;
     _ \<leftarrow> teardown_stop_input env;
     _ \<leftarrow> teardown_stop_block env;
     _ \<leftarrow> teardown_stop_dma;
     _ \<leftarrow> teardown_stop_pic;
     _ \<leftarrow> teardown_stop_idt;
     _ \<leftarrow> teardown_stop_dmi;
     say (msg COLOR_GREEN [Puts (10 # ascii ''[ OK ] All subsystems stopped.'' @ [10])]) }"

text \<open>Behind \<open>Halt\<close> the processor does nothing more.  The busy loop before the power-off is left out.\<close>

definition shutdown :: "('d, 'p) env \<Rightarrow> ('d, 'p, unit) cmd" where
  "shutdown env = do {
     _ \<leftarrow> system_teardown env;
     _ \<leftarrow> say (msg COLOR_YELLOW [Puts (10 # ascii ''[SHUTDOWN] Powering off in 2 seconds...'' @ [10])]);
     a \<leftarrow> asks s_acpi;
     _ \<leftarrow> cpu ([Cli] @ map (\<lambda>(p, v). Out16 p v) (snd (acpi_poweroff a))
       @ [Out16 0x604 0x2000, Out16 0xB004 0x2000, Out16 0x4004 0x3400]);
     _ \<leftarrow> say (msg COLOR_RED [ln ''[FAIL] ACPI shutdown not supported by this machine.'']);
     cpu [Halt] }"

text \<open>At most \<open>n\<close> polls of the keyboard controller.\<close>

primrec await_kbc :: "'p ports \<Rightarrow> nat \<Rightarrow> 'p \<Rightarrow> 'p" where
  "await_kbc io 0 b = b"
| "await_kbc io (Suc n) b =
     (let (v, b) = p_inb io b 0x64 in if v AND 0x02 = 0 then b else await_kbc io n (p_outb io b 0x80 0))"

definition reboot :: "('d, 'p) env \<Rightarrow> ('d, 'p, unit) cmd" where
  "reboot env = do {
     _ \<leftarrow> system_teardown env;
     _ \<leftarrow> say (msg COLOR_YELLOW [Puts (10 # ascii ''[REBOOT] Resetting...'' @ [10])]);
     _ \<leftarrow> modify (\<lambda>s. s\<lparr>s_bus := await_kbc (i_ports (e_input env)) 100000 (s_bus s)\<rparr>);
     cpu [Out8 0x64 0xFE, Null_idt, Breakpoint, Halt] }"

definition emerdown :: "('d, 'p, unit) cmd" where
  "emerdown = cpu [Cli, Null_idt, Breakpoint, Halt]"

section \<open>Dispatch\<close>

definition help_lines :: "string list" where
  "help_lines = [
     ''  help                  - this message'',
     ''  clear                 - clear screen'',
     ''  echo <text>           - print text'',
     ''  neofetch              - system info'',
     ''  cpuinfo               - CPU details (CPUID)'',
     ''  meminfo               - RAM details'',
     ''  inputinfo             - input device info'',
     ''  heap                  - kernel heap statistics'',
     ''  heaptest              - run heap allocator self-test'',
     ''  drivers               - list loaded drivers'',
     ''  lspci                 - list PCI devices'',
     ''  diskinfo              - disk information'',
     ''  disktest              - test disk read'',
     ''  diskread <lba>        - hex dump sector (low-level)'',
     ''  diskwrite <lba> <hex> - write sector (low-level)'',
     ''  fdisk [args]          - MBR partition manager'',
     ''  format <fs> <part#>   - format partition #0..#3 (fs=ext2/fat32)'',
     ''  mount <L>: <part#>    - mount partition #0..#3 as L: (saved)'',
     ''  switch <L>:|<part#>   - switch active FS to a saved mount'',
     ''  unmount [<part#>|L:]  - remove one; no arg clears all'',
     ''  drives                - list all saved mounts'',
     ''  cd [path]             - change directory (. .. / path)'',
     ''  pwd                   - print working directory'',
     ''  ls [path]             - list directory'',
     ''  cat <file>            - show file'',
     ''  mkdir <dir>           - create directory'',
     ''  rm <file>             - delete file'',
     ''  write <f> <txt>       - write file'',
     ''  calc <a> <op> <b>     - calculator (ADD/SUB/MUL/DIV/MOD/POW)'',
     ''  reboot                - graceful reboot (remounts saved FS)'',
     ''  shutdown              - graceful power off'',
     ''  emerdown              - emergency halt'']"

definition help_text :: "con_call list" where
  "help_text = msg COLOR_CYAN [ln ''PodumShell v1.2 commands:''] @ map ln help_lines"

definition is_cmd :: "cstr \<Rightarrow> string \<Rightarrow> bool" where "is_cmd cmd w \<longleftrightarrow> strcmp cmd (ascii w) = 0"
definition starts :: "cstr \<Rightarrow> string \<Rightarrow> bool" where "starts cmd w \<longleftrightarrow> strncmp cmd (ascii w) (length w) = 0"

text \<open>\<open>buf\<close> is the buffer of the shell, with the line and what is behind its terminator.\<close>

definition execute :: "('d, 'p) env \<Rightarrow> u8 list \<Rightarrow> ('d, 'p, unit) cmd" where
  "execute env buf =
     (let cmd = cbuf buf in
      if is_cmd cmd '''' then ret ()
      else if is_cmd cmd ''clear'' then say [Clear]
      else if starts cmd ''echo '' then say [Puts (drop 5 cmd), Puts [10]]
      else if is_cmd cmd ''echo'' then say [Putc 10]
      else if is_cmd cmd ''help'' then say help_text
      else if is_cmd cmd ''neofetch'' then neofetch env
      else if is_cmd cmd ''cpuinfo'' then cpuinfo
      else if is_cmd cmd ''meminfo'' then meminfo
      else if is_cmd cmd ''inputinfo'' then inputinfo env
      else if is_cmd cmd ''heap'' then heap_cmd
      else if is_cmd cmd ''heaptest'' then heaptest_cmd
      else if is_cmd cmd ''drivers'' then drivers
      else if is_cmd cmd ''lspci'' then lspci
      else if is_cmd cmd ''diskinfo'' then diskinfo env
      else if is_cmd cmd ''disktest'' then disktest env
      else if starts cmd ''diskread '' then diskread env (drop 9 cmd)
      else if starts cmd ''diskwrite '' then diskwrite env (drop 10 buf)
      else if is_cmd cmd ''fdisk'' then fdisk env []
      else if starts cmd ''fdisk '' then fdisk env (drop 6 cmd)
      else if is_cmd cmd ''format'' then format_cmd env []
      else if starts cmd ''format '' then format_cmd env (drop 7 cmd)
      else if starts cmd ''mount '' then mount_cmd env (drop 6 cmd)
      else if starts cmd ''switch '' then switch_cmd env (drop 7 cmd)
      else if is_cmd cmd ''switch'' then switch_cmd env []
      else if is_cmd cmd ''unmount'' then unmount_cmd env []
      else if starts cmd ''unmount '' then unmount_cmd env (drop 8 cmd)
      else if is_cmd cmd ''drives'' then drives env
      else if is_cmd cmd ''cd'' then cd_cmd env (ascii ''/'')
      else if starts cmd ''cd '' then cd_cmd env (drop 3 cmd)
      else if is_cmd cmd ''pwd'' then pwd_cmd
      else if is_cmd cmd ''ls'' then fat_ls env []
      else if starts cmd ''ls '' then fat_ls env (drop 3 cmd)
      else if starts cmd ''cat '' then fat_cat env (drop 4 cmd)
      else if starts cmd ''mkdir '' then fat_mkdir env (drop 6 cmd)
      else if starts cmd ''rm '' then fat_rm env (drop 3 cmd)
      else if starts cmd ''write '' then fat_write env (drop 6 cmd)
      else if starts cmd ''fat_write '' then fat_write env (drop 10 cmd)
      else if starts cmd ''calc '' then calc (drop 5 cmd)
      else if is_cmd cmd ''reboot'' then reboot env
      else if is_cmd cmd ''shutdown'' then shutdown env
      else if is_cmd cmd ''emerdown'' then emerdown
      else say (msg COLOR_RED [tx ''Command not found: '', Puts cmd, Puts [10]]))"

end
