(* ===== verification/CommandRun.thy ===== *)
theory CommandRun
  imports SystemCommands
begin

text \<open>
  Running commands: what the calls of \<open>Sys\<close> do to the state, and which handler a line of text
  reaches.
\<close>

section \<open>Calls\<close>

named_theorems run_cmd

lemma run_say [run_cmd]: "run_state (say cs) s = ((), s\<lparr>s_out := s_out s @ cs\<rparr>)" by (simp add: say_def)

lemma run_attempt [run_cmd]:
  "run_state (attempt x r) s = (case r of Some y \<Rightarrow> (y, s) | None \<Rightarrow> (x, s\<lparr>s_stuck := True\<rparr>))"
  by (simp add: attempt_def split: option.split)

lemma run_on_e2 [run_cmd]:
  "run_state (on_e2 p) s = (fst (run_state p (s_e2 s)), s\<lparr>s_e2 := snd (run_state p (s_e2 s))\<rparr>)"
  by (simp add: on_e2_def split_def Let_def)

lemma run_the_dev [run_cmd]: "run_state the_dev s = (dev (s_e2 s), s)" by (simp add: the_dev_def)

lemma run_set_dev [run_cmd]: "run_state (set_dev d) s = ((), s\<lparr>s_e2 := (s_e2 s)\<lparr>dev := d\<rparr>\<rparr>)" by (simp add: set_dev_def)

lemma run_on_dev [run_cmd]:
  "run_state (on_dev f) s = (fst (f (dev (s_e2 s))), s\<lparr>s_e2 := (s_e2 s)\<lparr>dev := snd (f (dev (s_e2 s)))\<rparr>\<rparr>)"
  by (simp add: on_dev_def run_cmd split_def Let_def)

lemma run_on_cfg [run_cmd]:
  "run_state (on_cfg f) s =
     (case f (dev (s_e2 s)) (s_cfg s) of (a, c, d) \<Rightarrow> (a, s\<lparr>s_cfg := c, s_e2 := (s_e2 s)\<lparr>dev := d\<rparr>\<rparr>))"
  by (simp add: on_cfg_def run_cmd split_def Let_def)

lemma run_fat_fs [run_cmd]:
  "run_state (fat_fs f) s =
     (case f (dev (s_e2 s)) (s_fat s) of Some (ok, v) \<Rightarrow> (ok, s\<lparr>s_fat := v\<rparr>)
      | None \<Rightarrow> (False, s\<lparr>s_stuck := True\<rparr>))"
  by (auto simp: fat_fs_def run_cmd split_def split: option.split)

lemma run_fat_disk_op [run_cmd]:
  "run_state (fat_disk_op f) s =
     (case f (dev (s_e2 s)) (s_fat s) of Some (ok, d) \<Rightarrow> (ok, s\<lparr>s_e2 := (s_e2 s)\<lparr>dev := d\<rparr>\<rparr>)
      | None \<Rightarrow> (False, s\<lparr>s_stuck := True\<rparr>))"
  by (auto simp: fat_disk_op_def run_cmd split_def split: option.split)

lemma run_fat_look [run_cmd]:
  "run_state (fat_look x f) s =
     (case f (dev (s_e2 s)) (s_fat s) of Some y \<Rightarrow> (y, s) | None \<Rightarrow> (x, s\<lparr>s_stuck := True\<rparr>))"
  by (simp add: fat_look_def run_cmd split: option.split)

lemma run_active_fs [run_cmd]:
  "run_state get_active_fs s =
     (if e_mounted (fs (s_e2 s)) then Active_ext2 else if mounted (s_fat s) then Active_fat32 else No_fs, s)"
  by (simp add: get_active_fs_def ext2_is_mounted_def)

lemma run_by_fs [run_cmd]:
  "run_state (by_fs x a b) s =
     (if e_mounted (fs (s_e2 s)) then run_state a s else if mounted (s_fat s) then run_state b s else (x, s))"
  by (simp add: by_fs_def run_cmd)

lemma run_unmount_all [run_cmd]:
  "run_state unmount_all s = ((), s\<lparr>s_e2 := (s_e2 s)\<lparr>fs := (fs (s_e2 s))\<lparr>e_mounted := False\<rparr>\<rparr>,
     s_fat := (s_fat s)\<lparr>mounted := False\<rparr>\<rparr>)"
  by (simp add: unmount_all_def unmount_active_def ext2_is_mounted_def run_cmd ext2_unmount_def unmount_def)

section \<open>Lines\<close>

lemma of_char_inj: "(of_char c :: u8) = of_char d \<longleftrightarrow> c = d"
proof
  assume "(of_char c :: u8) = of_char d"
  then have "(of_nat (of_char c) :: u8) = of_nat (of_char d)" by (simp only: of_nat_of_char)
  then have "unat (of_nat (of_char c) :: u8) = unat (of_nat (of_char d) :: u8)" by simp
  moreover have "of_char e < (2 :: nat) ^ LENGTH(8)" for e :: char using nat_of_char_less_256 [of e] by simp
  ultimately have "(of_char c :: nat) = of_char d" by (simp add: unat_of_nat_eq del: of_nat_of_char)
  then show "c = d" by (metis char_of_char)
qed simp

lemma ascii_eq_iff: "ascii a = ascii b \<longleftrightarrow> a = b"
  unfolding ascii_def by (rule inj_map_eq_map) (simp add: inj_def of_char_inj)

definition plain :: "string \<Rightarrow> bool" where "plain a \<longleftrightarrow> CHR 0x00 \<notin> set a"

lemma cstr_ascii: "plain a \<Longrightarrow> is_cstr (ascii a)"
proof -
  assume "plain a"
  then have "(of_char (CHR 0x00) :: u8) \<notin> of_char ` set a" unfolding image_iff plain_def of_char_inj by blast
  then show ?thesis by (simp add: is_cstr_def ascii_def)
qed

lemma cbuf_ascii: "plain a \<Longrightarrow> cbuf (ascii a @ 0 # t) = ascii a"
  using cstr_ascii [of a] unfolding cbuf_def is_cstr_def by (subst takeWhile_append2) auto

lemma uint_diff_0: "uint (x :: u8) = uint y \<longleftrightarrow> x = y"
  by (simp add: word_uint_eq_iff)

lemma strcmp_0_iff: "is_cstr a \<Longrightarrow> is_cstr b \<Longrightarrow> strcmp a b = 0 \<longleftrightarrow> a = b"
proof (induction a arbitrary: b)
  case Nil
  then show ?case by (cases b) (auto simp: strcmp_Nil cget_def uint_0_iff)
next
  case (Cons x xs)
  then show ?case
    by (cases b) (simp_all add: strcmp_Nil strcmp_Cons cget_def uint_0_iff uint_diff_0)
qed

lemma is_cmd_ascii: "plain a \<Longrightarrow> plain w \<Longrightarrow> is_cmd (ascii a) w \<longleftrightarrow> a = w"
  by (simp add: is_cmd_def strcmp_0_iff cstr_ascii ascii_eq_iff)

lemma starts_ascii: "plain a \<Longrightarrow> plain w \<Longrightarrow> starts (ascii a) w \<longleftrightarrow> take (length w) a = w"
  using ascii_eq_iff [of "take (length w) a" w]
  by (simp add: starts_def strncmp_take cstr_ascii) (simp add: ascii_def take_map)

end
