(* ===== verification/Remount.thy ===== *)
theory Remount
  imports CommandRun Fat32Format
begin

text \<open>
  Formatting and mounting from the command line: a partition that was ext2 and is formatted as
  FAT32 is mounted as ext2 again.
\<close>

section \<open>What mounting ext2 looks at\<close>

lemma run_require: "run_state (require c) s = ((), if c then s else s\<lparr>ub := True\<rparr>)"
  by (simp add: require_def)

lemma ext2_mount_reads:
  assumes "blk_read io (dev s') (plba + 2) = blk_read io (dev s) (plba + 2)"
    and "blk_read io (dev s') (plba + 3) = blk_read io (dev s) (plba + 3)"
  shows "fst (run_state (ext2_mount io plba ltr) s') = fst (run_state (ext2_mount io plba ltr) s)"
  using assms
  by (simp add: ext2_mount_def read_superblock_def run_require zero_fs_def split_def Let_def split: option.split)

lemma ext2_mount_dev: "dev (snd (run_state (ext2_mount io plba ltr) s)) = dev s"
  by (simp add: ext2_mount_def read_superblock_def run_require zero_fs_def split_def Let_def split: option.split)

lemma ext2_mount_mounted:
  "e_mounted (fs (snd (run_state (ext2_mount io plba ltr) s))) = fst (run_state (ext2_mount io plba ltr) s)"
  by (simp add: ext2_mount_def read_superblock_def run_require zero_fs_def split_def Let_def split: option.split)

lemma ext2_mount_letter: "fst (run_state (ext2_mount io plba ltr) s) = fst (run_state (ext2_mount io plba ltr') s)"
  by (simp add: ext2_mount_def read_superblock_def run_require zero_fs_def split_def Let_def split: option.split)

section \<open>What formatting FAT32 leaves alone\<close>

context block_device
begin

lemma write_all_keeps: "l \<notin> fst ` set ws \<Longrightarrow> blk_read io (write_all io ws d) l = blk_read io d l"
proof (induction ws arbitrary: d)
  case (Cons w ws)
  then show ?case by (cases w) (auto simp: write_snd)
qed simp

lemma write_all_present: "blk_present io (write_all io ws d) = blk_present io d"
proof (induction ws arbitrary: d)
  case (Cons w ws)
  then show ?case by (cases w) (auto simp: write_snd)
qed simp

text \<open>Sectors of the partition at other offsets than those written, and sectors before it.\<close>

lemma format_keeps:
  assumes "format io d plba n = (ok, d')" "2048 \<le> unat n" "unat plba + unat n \<le> 2 ^ 32"
    and l: "unat l < unat plba \<or> l = plba + 2 \<or> l = plba + 3"
  shows "blk_read io d' l = blk_read io d l"
proof -
  obtain cc fat where lay: "fat_layout n = (cc, fat)" by (cases "fat_layout n")
  let ?s = "choose_spc n"
  let ?b = "boot_sector ?s n fat"
  note f = fat_layout_facts [OF assms(2) lay] and room = layout_room [OF assms(2) lay] and b = choose_spc_bounds [of n]
  have addr: "unat (plba + of_nat k) = unat plba + k" if "k < unat n" for k
    using plba_addr [OF assms(3) order.refl that] .
  have ne: "l \<noteq> plba + of_nat k" if "k < unat n" "k \<noteq> 2" "k \<noteq> 3" for k
  proof
    assume "l = plba + of_nat k"
    then show False using l addr [OF that(1)] addr [of 2] addr [of 3] that assms(2) by (auto simp: word_unat_eq_iff)
  qed
  have 1: "l \<notin> fst ` set [(plba, ?b), (plba + 6, ?b)]" using ne [of 0] ne [of 6] assms(2) by auto
  have 2: "l \<notin> fst ` set (format_writes plba ?s fat)"
  proof
    assume "l \<in> fst ` set (format_writes plba ?s fat)"
    then obtain k where "k \<in> format_offsets (unat fat) (unat ?s)" "l = plba + of_nat k"
      using format_writes_set [of fat ?s plba, OF f(2)] b(1) by auto
    then show False using ne [of k] room assms(2) by (auto simp: format_offsets_def)
  qed
  show ?thesis
  proof (cases "blk_present io d \<and> \<not> n < MIN_SECTORS \<and> \<not> cc < 16")
    case False
    then show ?thesis using assms(1) lay by (auto simp: format_def split: if_splits)
  next
    case True
    obtain r d1 where w: "write_seq io d [(plba, ?b), (plba + 6, ?b)] = (r, d1)"
      by (cases "write_seq io d [(plba, ?b), (plba + 6, ?b)]")
    have k1: "blk_read io d1 l = blk_read io d l" using write_seq_frame [OF w 1] .
    have "d' = (if r then snd (blk_flush io (write_all io (format_writes plba ?s fat) d1)) else d1)"
      using assms(1) True lay w by (auto simp: format_def Let_def simp del: write_seq.simps split: bool.splits)
    then show ?thesis using k1 by (simp add: flush_snd write_all_keeps [OF 2])
  qed
qed

lemma format_present: "blk_present io (snd (format io d plba n)) = blk_present io d"
proof -
  have "blk_present io d' = blk_present io d" if "format io d plba n = (ok, d')" for ok d'
    using that by (auto simp: format_def Let_def flush_snd write_all_present simp del: write_seq.simps
      dest!: write_seq_present split: if_splits prod.splits bool.splits)
  then show ?thesis by (metis prod.collapse)
qed

end

section \<open>The two commands\<close>

lemma resolve_present: "resolve_partition io d p = Some (lba, n, ty) \<Longrightarrow> 0 < unat lba"
  by (auto simp: resolve_partition_def Let_def unat_gt_0 split: if_splits option.splits)

lemma resolve_reads: "blk_read io d' 0 = blk_read io d 0 \<Longrightarrow> resolve_partition io d' p = resolve_partition io d p"
  by (simp add: resolve_partition_def mbr_read_def)

text \<open>The arguments \<open>fat32 0\<close> and \<open>C: 0\<close>.\<close>

definition fat32_0 :: cstr where "fat32_0 = ascii ''fat32 0''"
definition C_0 :: cstr where "C_0 = ascii ''C: 0''"

lemma fat32_0_args:
  "take 15 (takeWhile (\<lambda>c. c \<noteq> 32) (skip_spaces fat32_0)) = ascii ''fat32''"
  "skip_spaces (drop (length (ascii ''fat32'')) (skip_spaces fat32_0)) = [48]"
  "\<not> is_ext_name (ascii ''fat32'')" "streq_ci (ascii ''fat32'') (ascii ''fat32'')" "ascii ''fat32'' \<noteq> []"
  "simple_atoi [48] = Some 0" "skip_spaces (skip_word [48]) = []"
  by code_simp+

lemma C_0_args:
  "skip_spaces C_0 \<noteq> []" "cget (skip_spaces C_0) 1 = 58" "upcase (hd (skip_spaces C_0)) = 67"
  "skip_spaces (drop 2 (skip_spaces C_0)) = [48]"
  by code_simp+

lemma run_format_0:
  assumes "blk_present (e_io env) (dev (s_e2 s))" "resolve_partition (e_io env) (dev (s_e2 s)) 0 = Some (lba, n, ty)"
  obtains out where "snd (run_state (format_cmd env fat32_0) s) =
    s\<lparr>s_e2 := (s_e2 s)\<lparr>dev := snd (format (e_io env) (dev (s_e2 s)) lba n)\<rparr>, s_out := s_out s @ out\<rparr>"
proof -
  have "\<exists>out. snd (run_state (format_partition env (ascii ''fat32'') 0 0) s) =
    s\<lparr>s_e2 := (s_e2 s)\<lparr>dev := snd (format (e_io env) (dev (s_e2 s)) lba n)\<rparr>, s_out := s_out s @ out\<rparr>"
    using assms fat32_0_args(3) by (auto simp: format_partition_def run_cmd split_def)
  moreover have "run_state (format_cmd env fat32_0) s = run_state (format_partition env (ascii ''fat32'') 0 0) s"
    unfolding format_cmd_def Let_def fat32_0_args(1)
    unfolding fat32_0_args(2)
    using assms(1) fat32_0_args(3-7) by (simp add: disk_present_now_def run_cmd)
  ultimately show ?thesis using that by auto
qed

lemma run_mount_0:
  assumes "resolve_partition (e_io env) (dev (s_e2 s)) 0 = Some (lba, n, ty)"
    and "\<And>e. dev e = dev (s_e2 s) \<Longrightarrow> fst (run_state (ext2_mount (e_io env) lba 67) e)"
  shows "e_mounted (fs (s_e2 (snd (run_state (mount_cmd env C_0) s)))) \<and> \<not> mounted (s_fat (snd (run_state (mount_cmd env C_0) s)))"
proof -
  let ?e = "(s_e2 s)\<lparr>fs := (fs (s_e2 s))\<lparr>e_mounted := False\<rparr>\<rparr>"
  have m: "fst (run_state (ext2_mount (e_io env) lba 67) ?e)" using assms(2) by simp
  show ?thesis
    unfolding mount_cmd_def Let_def C_0_args(2-4)
    using assms(1) C_0_args(1) fat32_0_args(6) m ext2_mount_mounted [of "e_io env" lba 67 ?e]
    by (simp add: mount_at_def run_cmd split_def)
qed

lemma drop_ascii: "drop n (ascii a) = ascii (drop n a)" by (simp add: ascii_def drop_map)

lemma execute_format: "execute env (ascii ''format fat32 0'' @ [0]) = format_cmd env fat32_0"
proof -
  have "cbuf (ascii ''format fat32 0'' @ [0]) = ascii ''format fat32 0''" by (rule cbuf_ascii) (simp add: plain_def)
  then show ?thesis
    by (simp add: execute_def is_cmd_ascii starts_ascii plain_def fat32_0_def drop_ascii)
qed

lemma execute_mount: "execute env (ascii ''mount C: 0'' @ [0]) = mount_cmd env C_0"
proof -
  have "cbuf (ascii ''mount C: 0'' @ [0]) = ascii ''mount C: 0''" by (rule cbuf_ascii) (simp add: plain_def)
  then show ?thesis
    by (simp add: execute_def is_cmd_ascii starts_ascii plain_def C_0_def drop_ascii)
qed

text \<open>C28. A partition that holds an ext2 file system and is formatted as FAT32 with success is mounted as
  ext2 by the next \<open>mount\<close>: the new file system leaves the old superblock where it was, and
  \<open>mount\<close> tries ext2 first.  What is written to it then destroys the FAT32 volume.\<close>

theorem reformatted_partition_mounts_as_ext2:
  assumes "block_device (e_io env)" and "blk_present (e_io env) (dev (s_e2 s))"
    and "resolve_partition (e_io env) (dev (s_e2 s)) 0 = Some (lba, n, ty)"
    and "2048 \<le> unat n" and "unat lba + unat n \<le> 2 ^ 32"
    and "fst (run_state (ext2_mount (e_io env) lba 67) (s_e2 s))"
    and "format (e_io env) (dev (s_e2 s)) lba n = (True, d')"
    and "s1 = snd (run_state (execute env (ascii ''format fat32 0'' @ [0])) s)"
    and "s2 = snd (run_state (execute env (ascii ''mount C: 0'' @ [0])) s1)"
  shows "dev (s_e2 s1) = d' \<and> e_mounted (fs (s_e2 s2)) \<and> \<not> mounted (s_fat s2)"
proof -
  let ?io = "e_io env" and ?d = "dev (s_e2 s)"
  note keeps = block_device.format_keeps [OF assms(1,7,4,5)]
  obtain out where s1: "s1 = s\<lparr>s_e2 := (s_e2 s)\<lparr>dev := d'\<rparr>, s_out := s_out s @ out\<rparr>"
    using run_format_0 [OF assms(2,3)] assms(7,8) execute_format by (metis snd_conv)
  have "blk_read ?io d' 0 = blk_read ?io ?d 0" using resolve_present [OF assms(3)] by (intro keeps) simp
  then have r: "resolve_partition ?io (dev (s_e2 s1)) 0 = Some (lba, n, ty)" using resolve_reads [of ?io d' ?d 0] assms(3) by (simp add: s1)
  have "fst (run_state (ext2_mount ?io lba 67) e)" if "dev e = dev (s_e2 s1)" for e
    using assms(6) ext2_mount_reads [of ?io e lba "s_e2 s" 67] keeps that by (simp add: s1)
  from run_mount_0 [OF r this] show ?thesis unfolding assms(9) execute_mount by (simp add: s1)
qed

section \<open>A disk to try it on\<close>

text \<open>One partition of 1 MB at sector 2048 with an ext2 superblock.\<close>

definition mixed_part :: partition where
  "mixed_part = \<lparr>boot_flag = 0, chs_start = [0, 0, 0], ptype = 0x83, chs_end = [0, 0, 0], lba_start = 2048, sector_count = 2048\<rparr>"

definition mixed_mbr :: "u8 list" where "mixed_mbr = wr16 (set_part (replicate 512 0) 0 mixed_part) 510 0xAA55"
definition mixed_sb :: "u8 list" where "mixed_sb = wr32 (wr16 (replicate 512 0) 56 EXT2_MAGIC) 32 8192"

definition mixed_disk :: store where
  "mixed_disk = \<lparr>cells = (\<lambda>l. if l = 0 then mixed_mbr else if l = 2050 then mixed_sb else replicate 512 0),
     faulty = (\<lambda>_. False), capacity = 4096\<rparr>"

lemma rd_front:
  "off + 2 \<le> length xs \<Longrightarrow> rd16 (xs @ ys) off = rd16 xs off"
  "off + 4 \<le> length xs \<Longrightarrow> rd32 (xs @ ys) off = rd32 xs off"
  by (simp_all add: rd16_def rd32_def nth_append)

lemma rd_splice_here:
  "off + 2 \<le> length bs \<Longrightarrow> rd16 (splice bs off (le16 b)) off = b"
  "off + 4 \<le> length bs \<Longrightarrow> rd32 (splice bs off (le32 c)) off = c"
  using rd_wr_same [of off bs] by (simp_all add: wr16_def wr32_def)

lemma mixed_lengths: "length mixed_mbr = 512" "length mixed_sb = 512"
  by (simp_all add: mixed_mbr_def mixed_sb_def set_part_def part_off_def mixed_part_def partition_bytes_def wr16_def wr32_def)

lemma mixed_fields:
  "rd16 mixed_sb 56 = EXT2_MAGIC" "rd32 mixed_sb 24 = 0" "rd32 mixed_sb 32 = 8192" "rd32 mixed_sb 76 = 0"
  unfolding mixed_sb_def wr32_def wr16_def by (simp_all add: rd_splice_other rd_splice_here rd32_zeros)

lemma mixed_read: "blk_read store_blk mixed_disk l = Some (cells mixed_disk l)"
  by (simp add: store_blk_def mixed_disk_def mixed_lengths)

lemma mixed_resolve: "resolve_partition store_blk mixed_disk 0 = Some (2048, 2048, 0x83)"
proof -
  have "partition_wf mixed_part" by (simp add: mixed_part_def partition_wf_def)
  then have "get_part mixed_mbr 0 = mixed_part" unfolding mixed_mbr_def by (subst get_set_part) simp_all
  moreover have "mbr_signature mixed_mbr = 0xAA55"
    unfolding mixed_mbr_def mbr_signature_def
    by (rule rd_wr_same) (simp add: set_part_def part_off_def mixed_part_def partition_bytes_def)
  ultimately show ?thesis
    by (simp add: resolve_partition_def mbr_read_def mixed_read) (simp add: mixed_disk_def mixed_part_def)
qed

lemma mixed_super:
  assumes "dev s = mixed_disk" "e_partition_lba (fs s) = 2048" "sb (fs s) = replicate 1024 0"
  shows "run_state (read_superblock store_blk) s = (True, s\<lparr>fs := (fs s)\<lparr>sb := mixed_sb @ replicate 512 0\<rparr>\<rparr>)"
proof -
  have "splice (splice (replicate 1024 0) 0 mixed_sb) 512 (replicate 512 0) = mixed_sb @ replicate 512 0"
    by (simp add: splice_def mixed_lengths)
  moreover have "cells mixed_disk 2050 = mixed_sb" "cells mixed_disk 2051 = replicate 512 0" by (simp_all add: mixed_disk_def)
  ultimately show ?thesis using assms by (simp add: read_superblock_def mixed_read)
qed

lemma mixed_ext2: "fst (run_state (ext2_mount store_blk 2048 67) (ext2_boot mixed_disk))"
proof -
  have f: "rd16 (mixed_sb @ replicate 512 0) 56 = EXT2_MAGIC" "rd32 (mixed_sb @ replicate 512 0) 24 = 0"
    "rd32 (mixed_sb @ replicate 512 0) 32 = 8192" "rd32 (mixed_sb @ replicate 512 0) 76 = 0"
    by (simp_all add: rd_front mixed_lengths mixed_fields)
  show ?thesis
    by (simp add: ext2_mount_def mixed_super zero_fs_def ext2_boot_def run_require f
      s_magic_def s_log_block_size_def s_blocks_per_group_def s_rev_level_def Let_def)
qed

theorem reformatted_partition_mounts_as_ext2_witness:
  "e_mounted (fs (s_e2 (snd (run_state (execute demo_env (ascii ''mount C: 0'' @ [0]))
     (snd (run_state (execute demo_env (ascii ''format fat32 0'' @ [0])) (sys_boot mixed_disk [] (\<lambda>_. 0) phys_boot)))))))"
proof -
  let ?s = "sys_boot mixed_disk [] (\<lambda>_. 0) phys_boot"
  have s: "dev (s_e2 ?s) = mixed_disk" "s_e2 ?s = ext2_boot mixed_disk" "dev (ext2_boot mixed_disk) = mixed_disk"
    by (simp_all add: sys_boot_def ext2_boot_def)
  have g: "store_good mixed_disk" by (simp add: store_good_def mixed_disk_def mixed_lengths)
  obtain cc fat where lay: "fat_layout 2048 = (cc, fat)" by (cases "fat_layout 2048")
  obtain d' where "format store_blk mixed_disk 2048 2048 = (True, d')"
    by (rule store_rel.format_effect [OF g _ _ _ _ lay, of 2048]) (simp_all add: store_blk_def)
  then have f: "format (e_io demo_env) (dev (s_e2 ?s)) 2048 2048 = (True, d')" by (simp add: demo_env_def s)
  have 1: "block_device (e_io demo_env)" "blk_present (e_io demo_env) (dev (s_e2 ?s))"
    using store_dev.block_device_axioms by (simp_all add: demo_env_def store_blk_def)
  have 2: "resolve_partition (e_io demo_env) (dev (s_e2 ?s)) 0 = Some (2048, 2048, 0x83)"
    using mixed_resolve by (simp add: demo_env_def s)
  have 3: "fst (run_state (ext2_mount (e_io demo_env) 2048 67) (s_e2 ?s))" using mixed_ext2 by (simp add: demo_env_def s)
  have 4: "2048 \<le> unat (2048 :: u32)" "unat (2048 :: u32) + unat (2048 :: u32) \<le> 2 ^ 32" by simp_all
  show ?thesis using reformatted_partition_mounts_as_ext2 [OF 1 2 4 3 f refl refl] by blast
qed

end
