(* ===== verification/Ext2Frame.thy ===== *)
theory Ext2Frame
  imports Ext2Files
begin

text \<open>
  What the file operations of ext2 leave alone: whether and where the volume is mounted, its
  geometry and its letter.
\<close>

section \<open>Programs that keep a view of the state\<close>

definition keeps :: "('s \<Rightarrow> 'b) \<Rightarrow> ('s, 'a) state \<Rightarrow> bool" where
  "keeps f p \<longleftrightarrow> (\<forall>s. f (snd (run_state p s)) = f s)"

named_theorems keep

lemma keepsD: "keeps f p \<Longrightarrow> f (snd (run_state p s)) = f s" by (simp add: keeps_def)

lemma keeps_return [keep]: "keeps f (ret x)" by (simp add: keeps_def)
lemma keeps_asks [keep]: "keeps f (asks g)" by (simp add: keeps_def)
lemma keeps_modify: "(\<And>s. f (g s) = f s) \<Longrightarrow> keeps f (modify g)" by (simp add: keeps_def)

lemma keeps_bind [keep]: "keeps f p \<Longrightarrow> (\<And>x. keeps f (q x)) \<Longrightarrow> keeps f (State_Monad.bind p q)"
  by (simp add: keeps_def split_def)

lemma keeps_if [keep]: "(c \<Longrightarrow> keeps f p) \<Longrightarrow> (\<not> c \<Longrightarrow> keeps f q) \<Longrightarrow> keeps f (if c then p else q)" by simp

lemma keeps_Let [keep]: "(\<And>y. keeps f (p y)) \<Longrightarrow> keeps f (Let x p)" by simp

lemma keeps_option [keep]: "(r = None \<Longrightarrow> keeps f p) \<Longrightarrow> (\<And>x. r = Some x \<Longrightarrow> keeps f (q x)) \<Longrightarrow>
    keeps f (case r of None \<Rightarrow> p | Some x \<Rightarrow> q x)" by (cases r) simp_all

lemma keeps_prod [keep]: "(\<And>a b. r = (a, b) \<Longrightarrow> keeps f (p a b)) \<Longrightarrow> keeps f (case r of (a, b) \<Rightarrow> p a b)"
  by (cases r) simp

lemma keeps_first_m [keep]: "(\<And>x. keeps f (p x)) \<Longrightarrow> keeps f (first_m p xs)"
  by (induction xs) (auto intro!: keep)

lemma keeps_for_m [keep]: "(\<And>x. keeps f (p x)) \<Longrightarrow> keeps f (for_m p xs)"
  by (induction xs) (auto intro!: keep)

text \<open>The fixed part of a mounted volume.\<close>

definition fixed :: "'d ext2 \<Rightarrow> ext2_fs" where
  "fixed s = (fs s)\<lparr>current_inode := 0, sb := [], e_names := [], e_inodes := [], e_depth := 0\<rparr>"

lemma fixed_upd [simp]:
  "fixed (s\<lparr>dev := d\<rparr>) = fixed s" "fixed (s\<lparr>g_buf := b\<rparr>) = fixed s" "fixed (s\<lparr>g_buf2 := b\<rparr>) = fixed s"
  "fixed (s\<lparr>dir_buf := b\<rparr>) = fixed s" "fixed (s\<lparr>ub := u\<rparr>) = fixed s"
  "fixed (s\<lparr>fs := (fs s)\<lparr>sb := x\<rparr>\<rparr>) = fixed s" "fixed (s\<lparr>fs := (fs s)\<lparr>current_inode := n\<rparr>\<rparr>) = fixed s"
  "fixed (s\<lparr>fs := (fs s)\<lparr>e_depth := k\<rparr>\<rparr>) = fixed s"
  by (simp_all add: fixed_def)

lemma fixed_put [simp]: "fixed (buf_put b p s) = fixed s" "fixed (sb_put off v s) = fixed s"
  "fixed (sb_dec off s) = fixed s" "fixed (sb_inc off s) = fixed s"
  by (simp_all add: buf_put_def sb_put_def sb_dec_def sb_inc_def fixed_def Let_def split: buffer.splits)

lemma fixed_path [simp]: "fixed (e_push n i s) = fixed s" "fixed (e_pop s) = fixed s" "fixed (e_restore old s) = fixed s"
  by (simp_all add: fixed_def e_push_def e_pop_def e_restore_def Let_def)

lemma keeps_fixed_modify [keep]: "(\<And>s. fixed (g s) = fixed s) \<Longrightarrow> keeps fixed (modify g)" by (rule keeps_modify)

section \<open>The operations\<close>

lemma keeps_require [keep]: "keeps fixed (require c)" by (simp add: require_def keeps_def)

lemma keeps_read_block [keep]: "keeps fixed (read_block io k b)" by (simp add: read_block_def keeps_def split_def Let_def)
lemma keeps_write_block [keep]: "keeps fixed (write_block io k b)" by (simp add: write_block_def keeps_def split_def Let_def)
lemma keeps_write_superblock [keep]: "keeps fixed (write_superblock io)"
  by (simp add: write_superblock_def keeps_def split_def Let_def del: write_seq.simps)

lemma keeps_read_bgd [keep]: "keeps fixed (read_bgd io g)" unfolding read_bgd_def by (auto intro!: keep)
lemma keeps_write_bgd [keep]: "keeps fixed (write_bgd io g b)" unfolding write_bgd_def by (auto intro!: keep)
lemma keeps_read_inode [keep]: "keeps fixed (read_inode io n)" unfolding read_inode_def by (auto intro!: keep)
lemma keeps_write_inode [keep]: "keeps fixed (write_inode io n i)" unfolding write_inode_def by (auto intro!: keep)
lemma keeps_alloc_block [keep]: "keeps fixed (alloc_block_internal io)"
  unfolding alloc_block_internal_def alloc_in_group_def by (auto intro!: keep)
lemma keeps_free_block [keep]: "keeps fixed (free_block io b)" unfolding free_block_def by (auto intro!: keep)
lemma keeps_alloc_inode [keep]: "keeps fixed (alloc_inode io dir)"
  unfolding alloc_inode_def alloc_inode_in_group_def by (auto intro!: keep)
lemma keeps_free_inode [keep]: "keeps fixed (free_inode io n dir)" unfolding free_inode_def by (auto intro!: keep)
lemma keeps_get_inode_block [keep]: "keeps fixed (get_inode_block io i k)"
  unfolding get_inode_block_def follow_def by (auto intro!: keep)
lemma keeps_set_inode_block [keep]: "keeps fixed (set_inode_block io i k v)"
  unfolding set_inode_block_def top_pointer_def sub_pointer_def store_pointer_def new_zero_block_def by (auto intro!: keep)
lemma keeps_free_inode_blocks [keep]: "keeps fixed (free_inode_blocks io i)"
  unfolding free_inode_blocks_def free_triple_def free_double_def free_indirect_def free_gbuf_pointers_def by (auto intro!: keep)

section \<open>Directories, paths and files\<close>

lemma keeps_each_dir_block [keep]: "(\<And>b. keeps fixed (body b)) \<Longrightarrow> keeps fixed (each_dir_block io d x body)"
  unfolding each_dir_block_def by (auto intro!: keep)
lemma keeps_find_dir_entry [keep]: "keeps fixed (find_dir_entry io d nm)" unfolding find_dir_entry_def by (auto intro!: keep)
lemma keeps_add_dir_entry [keep]: "keeps fixed (add_dir_entry io d n nm ty)" unfolding add_dir_entry_def by (auto intro!: keep)
lemma keeps_remove_dir_entry [keep]: "keeps fixed (remove_dir_entry io d nm)" unfolding remove_dir_entry_def by (auto intro!: keep)
lemma keeps_parent_of [keep]: "keeps fixed (parent_of io i)" unfolding parent_of_def by (auto intro!: keep)

lemma keeps_resolve_loop [keep]: "keeps fixed (resolve_loop io cur p)"
  by (induction io cur p rule: resolve_loop.induct) (subst resolve_loop.simps, auto simp: Let_def intro!: keep)

lemma keeps_resolve_relative [keep]: "keeps fixed (resolve_relative io st p)" unfolding resolve_relative_def by (auto intro!: keep)

lemma keeps_read_rounds [keep]: "keeps fixed (read_rounds io i n ks buf)"
  by (induction io i n ks buf rule: read_rounds.induct) (auto simp: Let_def intro!: keep)

lemma keeps_read_file [keep]: "keeps fixed (ext2_read_file io p buf)" unfolding ext2_read_file_def by (auto intro!: keep)
lemma keeps_open_for_write [keep]: "keeps fixed (open_for_write io n)" unfolding open_for_write_def by (auto intro!: keep)
lemma keeps_give_up_dir [keep]: "keeps fixed (give_up_dir io n b)" unfolding give_up_dir_def by (auto intro!: keep)

lemma keeps_create_dir [keep]: "keeps fixed (ext2_create_dir io p)" unfolding ext2_create_dir_def by (auto intro!: keep)
lemma keeps_delete_file [keep]: "keeps fixed (ext2_delete_file io p)" unfolding ext2_delete_file_def by (auto intro!: keep)
lemma keeps_file_exists [keep]: "keeps fixed (ext2_file_exists io p)" unfolding ext2_file_exists_def by (auto intro!: keep)
lemma keeps_file_size [keep]: "keeps fixed (ext2_file_size io p)" unfolding ext2_file_size_def by (auto intro!: keep)

lemma keeps_cd_loop [keep]: "keeps fixed (ext2_cd_loop io cur p)"
  by (induction io cur p rule: ext2_cd_loop.induct) (subst ext2_cd_loop.simps, auto simp: Let_def intro!: keep)

lemma keeps_cd [keep]: "keeps fixed (ext2_cd io p)" unfolding ext2_cd_def by (auto intro!: keep)

lemma keeps_write_rounds [keep]: "keeps fixed (write_rounds io data sz new n bs ks i)"
  by (induction io data sz new n bs ks i rule: write_rounds.induct) (auto simp: Let_def intro!: keep)

lemma keeps_write_file [keep]: "keeps fixed (ext2_write_file io p data sz)" unfolding ext2_write_file_def by (auto intro!: keep)

lemma keeps_list_walk [keep]: "keeps fixed (list_walk io n off acc)"
proof (induction io n off acc rule: list_walk.induct)
  case (1 io n off acc)
  show ?case unfolding list_walk.simps [of io n off acc] unfolding Let_def
    by (intro keep 1) auto
qed

lemma keeps_list_blocks [keep]: "keeps fixed (list_blocks io d n bs acc)"
  by (induction bs arbitrary: acc) (auto intro!: keep)

lemma keeps_list_dir [keep]: "keeps fixed (ext2_list_dir io p)" unfolding ext2_list_dir_def by (auto intro!: keep)

text \<open>What stays as it is through every operation on files.\<close>

lemma fixed_fields:
  "fixed s' = fixed s \<Longrightarrow> e_mounted (fs s') = e_mounted (fs s)"
  "fixed s' = fixed s \<Longrightarrow> e_partition_lba (fs s') = e_partition_lba (fs s)"
  unfolding fixed_def by (drule arg_cong [of _ _ e_mounted], simp) (drule arg_cong [of _ _ e_partition_lba], simp)

end
