(* ===== verification/OneMount.thy ===== *)
theory OneMount
  imports Remount Ext2Frame
begin

text \<open>
  An invariant of the whole command line: at most one of the two file systems is mounted.  (That it holds
  from power on is in \<open>BootProps\<close>.)
\<close>

section \<open>Programs that preserve a property of the state\<close>

definition preserves :: "('s \<Rightarrow> bool) \<Rightarrow> ('s, 'a) state \<Rightarrow> bool" where
  "preserves P p \<longleftrightarrow> (\<forall>s. P s \<longrightarrow> P (snd (run_state p s)))"

named_theorems pres

lemma preservesD: "preserves P p \<Longrightarrow> P s \<Longrightarrow> P (snd (run_state p s))" by (simp add: preserves_def)

lemma preserves_return [pres]: "preserves P (ret x)" by (simp add: preserves_def)
lemma preserves_asks [pres]: "preserves P (asks g)" by (simp add: preserves_def)
lemma preserves_get [pres]: "preserves P State_Monad.get" by (simp add: preserves_def)

lemma preserves_bind [pres]: "preserves P p \<Longrightarrow> (\<And>x. preserves P (q x)) \<Longrightarrow> preserves P (State_Monad.bind p q)"
  by (simp add: preserves_def split_def)

lemma preserves_if [pres]: "(c \<Longrightarrow> preserves P p) \<Longrightarrow> (\<not> c \<Longrightarrow> preserves P q) \<Longrightarrow> preserves P (if c then p else q)" by simp

lemma preserves_Let [pres]: "(\<And>y. preserves P (p y)) \<Longrightarrow> preserves P (Let x p)" by simp

lemma preserves_option [pres]: "(r = None \<Longrightarrow> preserves P p) \<Longrightarrow> (\<And>x. r = Some x \<Longrightarrow> preserves P (q x)) \<Longrightarrow>
    preserves P (case r of None \<Rightarrow> p | Some x \<Rightarrow> q x)" by (cases r) simp_all

lemma preserves_prod [pres]: "(\<And>a b. r = (a, b) \<Longrightarrow> preserves P (p a b)) \<Longrightarrow> preserves P (case r of (a, b) \<Rightarrow> p a b)"
  by (cases r) simp

lemma preserves_first_m [pres]: "(\<And>x. preserves P (p x)) \<Longrightarrow> preserves P (first_m p xs)"
  by (induction xs) (auto intro!: pres)

lemma preserves_for_m [pres]: "(\<And>x. preserves P (p x)) \<Longrightarrow> preserves P (for_m p xs)"
  by (induction xs) (auto intro!: pres)

section \<open>One file system\<close>

definition one_fs :: "('d, 'p) sys \<Rightarrow> bool" where
  "one_fs s \<longleftrightarrow> \<not> (e_mounted (fs (s_e2 s)) \<and> mounted (s_fat s))"

lemma one_modify: "(\<And>s. e_mounted (fs (s_e2 (g s))) \<longrightarrow> e_mounted (fs (s_e2 s))) \<Longrightarrow> (\<And>s. mounted (s_fat (g s)) \<longrightarrow> mounted (s_fat s)) \<Longrightarrow>
    preserves one_fs (modify g)"
  by (auto simp: preserves_def one_fs_def)

lemma one_say [pres]: "preserves one_fs (say cs)" by (simp add: preserves_def run_cmd one_fs_def)
lemma one_cpu [pres]: "preserves one_fs (cpu cs)" by (simp add: preserves_def cpu_def one_fs_def)
lemma one_attempt [pres]: "preserves one_fs (attempt x r)" by (simp add: preserves_def run_cmd one_fs_def split: option.split)
lemma one_the_dev [pres]: "preserves one_fs the_dev" by (simp add: preserves_def run_cmd)
lemma one_set_dev [pres]: "preserves one_fs (set_dev d)" by (simp add: preserves_def run_cmd one_fs_def)
lemma one_on_dev [pres]: "preserves one_fs (on_dev f)" by (simp add: preserves_def run_cmd one_fs_def)
lemma one_on_cfg [pres]: "preserves one_fs (on_cfg f)" by (simp add: preserves_def run_cmd one_fs_def split: prod.split)
lemma one_ask_cfg [pres]: "preserves one_fs (ask_cfg f)" unfolding ask_cfg_def by (intro pres)

lemma keeps_e_mounted: "keeps fixed p \<Longrightarrow> e_mounted (fs (snd (run_state p s))) = e_mounted (fs s)"
  by (rule fixed_fields(1)) (rule keepsD)

lemma one_on_e2 [pres]: "keeps fixed p \<Longrightarrow> preserves one_fs (on_e2 p)"
  by (simp add: preserves_def run_cmd one_fs_def keeps_e_mounted)

lemma one_fat_disk_op [pres]: "preserves one_fs (fat_disk_op f)"
  by (simp add: preserves_def run_cmd one_fs_def split: option.split prod.split)
lemma one_fat_look [pres]: "preserves one_fs (fat_look x f)" by (simp add: preserves_def run_cmd one_fs_def split: option.split)

lemma one_unmount_active [pres]: "preserves one_fs (unmount_active afs)"
  by (simp add: preserves_def unmount_active_def run_cmd one_fs_def ext2_unmount_def unmount_def split: active_fs.split)

lemma one_active_fs [pres]: "preserves one_fs get_active_fs" by (simp add: preserves_def run_cmd)
lemma one_active_partition [pres]: "preserves one_fs (active_partition env afs)" unfolding active_partition_def by (intro pres)
lemma one_by_fs [pres]: "preserves one_fs a \<Longrightarrow> preserves one_fs b \<Longrightarrow> preserves one_fs (by_fs x a b)"
  by (simp add: preserves_def run_cmd)

text \<open>\<open>fat32::cd\<close> leaves the volume mounted, and a failed mount changes nothing.\<close>

lemma path_mounted [simp]:
  "mounted (push_path v c) = mounted v" "mounted (pop_path v) = mounted v" "mounted (enter v n) = mounted v"
  "mounted (restore_path w v) = mounted v"
  by (simp_all add: push_path_def pop_path_def enter_def restore_path_def Let_def)

declare cd_loop.simps [simp del]

definition keeps_mounted :: "bool \<Rightarrow> (bool \<times> fs_state) option \<Rightarrow> bool" where
  "keeps_mounted m r \<longleftrightarrow> (\<forall>ok v. r = Some (ok, v) \<longrightarrow> mounted v = m)"

lemma keeps_mounted_simps [simp]: "keeps_mounted m None" "keeps_mounted m (Some (ok, v)) \<longleftrightarrow> mounted v = m"
  by (auto simp: keeps_mounted_def)

lemma km_if: "(c \<Longrightarrow> keeps_mounted m x) \<Longrightarrow> (\<not> c \<Longrightarrow> keeps_mounted m y) \<Longrightarrow> keeps_mounted m (if c then x else y)" by simp
lemma km_option: "(r = None \<Longrightarrow> keeps_mounted m x) \<Longrightarrow> (\<And>a. r = Some a \<Longrightarrow> keeps_mounted m (f a)) \<Longrightarrow>
    keeps_mounted m (case r of None \<Rightarrow> x | Some a \<Rightarrow> f a)" by (cases r) simp_all
lemma km_prod: "(\<And>a b. r = (a, b) \<Longrightarrow> keeps_mounted m (f a b)) \<Longrightarrow> keeps_mounted m (case r of (a, b) \<Rightarrow> f a b)" by (cases r) simp

lemma cd_loop_mounted: "keeps_mounted (mounted v) (cd_loop io d v p)"
proof (induction io d v p rule: cd_loop.induct)
  case (1 io d v p)
  note IH = "1.IH" [OF _ refl refl, simplified path_mounted]
  show ?case unfolding cd_loop.simps [of io d v p] Let_def
    by (intro km_if km_option km_prod) (simp | (rule IH, (simp; fail)+))+
qed

lemma cd_mounted: "keeps_mounted (mounted v) (cd io d v p)"
  using cd_loop_mounted [of v io d] cd_loop_mounted [of "v\<lparr>current_cluster := root_cluster v, fs_path := (fs_path v)\<lparr>depth := 0\<rparr>\<rparr>" io d]
  unfolding cd_def by (auto simp: keeps_mounted_def split: if_split_asm option.split_asm prod.split_asm Option.bind_split_asm)

lemma one_cd [pres]: "preserves one_fs (fat_fs (\<lambda>d v. cd io d v p))"
  by (auto simp: preserves_def run_cmd one_fs_def split: option.split dest: cd_mounted [unfolded keeps_mounted_def, rule_format])

section \<open>Mounting\<close>

text \<open>A program that leads from states in \<open>P\<close> to results and states in \<open>Q\<close>.\<close>

definition leads :: "('s \<Rightarrow> bool) \<Rightarrow> ('s, 'a) state \<Rightarrow> ('a \<Rightarrow> 's \<Rightarrow> bool) \<Rightarrow> bool" where
  "leads P p Q \<longleftrightarrow> (\<forall>s. P s \<longrightarrow> Q (fst (run_state p s)) (snd (run_state p s)))"

lemma leads_bind: "leads P p R \<Longrightarrow> (\<And>x. leads (R x) (q x) Q) \<Longrightarrow> leads P (State_Monad.bind p q) Q"
  by (auto simp: leads_def split_def)

lemma preserves_leads: "preserves P p \<longleftrightarrow> leads P p (\<lambda>_. P)" by (simp add: leads_def preserves_def)

definition none_fs :: "('d, 'p) sys \<Rightarrow> bool" where
  "none_fs s \<longleftrightarrow> \<not> e_mounted (fs (s_e2 s)) \<and> \<not> mounted (s_fat s)"

lemma unmount_all_none: "leads P unmount_all (\<lambda>_. none_fs)" by (simp add: leads_def run_cmd none_fs_def)

lemma mount_e2_one: "leads none_fs (on_e2 (ext2_mount io lba ltr)) (\<lambda>ok. if ok then one_fs else none_fs)"
  by (simp add: leads_def run_cmd none_fs_def one_fs_def ext2_mount_mounted)

lemma mount_fat_one: "leads none_fs (fat_fs f) (\<lambda>_. one_fs)"
  by (simp add: leads_def run_cmd none_fs_def one_fs_def split: option.split)

lemma leads_if: "(c \<Longrightarrow> leads P p Q) \<Longrightarrow> (\<not> c \<Longrightarrow> leads P q Q) \<Longrightarrow> leads P (if c then p else q) Q" by simp

lemma leads_pre: "leads P p Q \<Longrightarrow> P' = P \<Longrightarrow> leads P' p Q" by simp

lemma leads_one: "leads none_fs p (\<lambda>ok. if ok then one_fs else none_fs) \<Longrightarrow> leads none_fs p (\<lambda>_. one_fs)"
  by (auto simp: leads_def none_fs_def one_fs_def split: if_splits)

lemma mount_saved_one: "leads none_fs (mount_saved env e) (\<lambda>_. one_fs)"
  unfolding mount_saved_def by (intro leads_if mount_fat_one leads_one [OF mount_e2_one]) (simp add: leads_def none_fs_def one_fs_def)

lemma one_mount_at [pres]: "preserves one_fs (mount_at env ltr part lba)"
proof -
  have "leads (if ok then one_fs else none_fs)
      (if ok then do { _ \<leftarrow> on_cfg f; say cs }
       else do { ok \<leftarrow> fat_fs g; if ok then do { _ \<leftarrow> on_cfg h; say cs1 } else say cs2 }) (\<lambda>_. one_fs)" for ok f h g cs cs1 cs2
    by (cases ok) (auto intro!: leads_bind [OF mount_fat_one] pres simp flip: preserves_leads)
  then show ?thesis
    unfolding mount_at_def preserves_leads by (intro leads_bind [OF unmount_all_none] leads_bind [OF mount_e2_one])
qed

lemma one_remount: "preserves one_fs (do { _ \<leftarrow> unmount_all; ok \<leftarrow> mount_saved env e;
    if ok then do { _ \<leftarrow> on_cfg f; say cs } else say cs1 })"
  unfolding preserves_leads by (intro leads_bind [OF unmount_all_none] leads_bind [OF mount_saved_one])
    (auto intro!: pres simp flip: preserves_leads)

lemma one_switch_to [pres]: "preserves one_fs (switch_to env e)"
  unfolding switch_to_def by (intro preserves_bind [OF one_active_fs] preserves_bind [OF one_active_partition]
    preserves_if one_say one_remount)

section \<open>The commands\<close>

lemma one_unmount_all [pres]: "preserves one_fs unmount_all" by (simp add: preserves_def run_cmd one_fs_def)
lemma one_on_heap [pres]: "preserves one_fs (on_heap x f)"
  by (auto simp: preserves_def on_heap_def run_cmd one_fs_def split_def split: option.split)

lemma one_disk_commands [pres]:
  "preserves one_fs (disk_present_now env)" "preserves one_fs (diskinfo env)" "preserves one_fs (disktest env)"
  "preserves one_fs (diskread env a)" "preserves one_fs (diskwrite env r)"
  unfolding disk_present_now_def diskinfo_def disktest_def diskread_def diskwrite_def Let_def by (intro pres)+

lemma one_fdisk_parts [pres]: "preserves one_fs (fdisk_create env p)" "preserves one_fs (fdisk_delete env p)"
    "preserves one_fs (format_partition env nm part mb)"
  unfolding fdisk_create_def fdisk_delete_def format_partition_def Let_def by (intro pres)+

lemma one_partition_commands [pres]: "preserves one_fs (fdisk env a)" "preserves one_fs (format_cmd env a)"
  unfolding fdisk_def format_cmd_def Let_def by (intro pres)+

lemma one_mount_parts [pres]: "preserves one_fs (find_saved env P)" "preserves one_fs (remove_mount env afs active part)"
    "preserves one_fs (mount_cmd env a)"
  unfolding find_saved_def remove_mount_def mount_cmd_def Let_def by (intro pres)+

lemma one_mount_commands [pres]: "preserves one_fs (unmount_cmd env a)" "preserves one_fs (switch_lookup env l part)"
    "preserves one_fs (drives env)"
  unfolding unmount_cmd_def switch_lookup_def drives_def Let_def by (intro pres)+

lemma one_switch_cmd [pres]: "preserves one_fs (switch_cmd env a)" unfolding switch_cmd_def Let_def by (intro pres)

lemma one_files [pres]: "preserves one_fs (cd_cmd env a)" "preserves one_fs print_pwd" "preserves one_fs (fat_ls env a)"
    "preserves one_fs (fat_mkdir env a)" "preserves one_fs (fat_rm env a)" "preserves one_fs (fat_write env a)"
  unfolding cd_cmd_def print_pwd_def fat_ls_def fat_mkdir_def fat_rm_def fat_write_def Let_def by (intro pres keep)+

lemma one_cat [pres]: "preserves one_fs (fat_cat env a)"
  unfolding fat_cat_def Let_def by (intro pres keep one_modify) simp_all

lemma one_prompt [pres]: "preserves one_fs pwd_cmd" "preserves one_fs shell_print_prompt"
  unfolding pwd_cmd_def shell_print_prompt_def by (intro pres)+

lemma one_info [pres]:
  "preserves one_fs drivers" "preserves one_fs lspci" "preserves one_fs cpuinfo" "preserves one_fs meminfo"
  "preserves one_fs (neofetch env)" "preserves one_fs (calc a)"
  unfolding drivers_def lspci_def cpuinfo_def meminfo_def neofetch_def calc_def Let_def
  by (intro pres | simp only: split: sum.split calc_error.split | intro allI impI conjI)+

lemma one_inputinfo [pres]: "preserves one_fs (inputinfo env)"
  unfolding inputinfo_def Let_def by (intro pres one_modify) simp_all

lemma one_heap_parts [pres]: "preserves one_fs (heap_free a)" "preserves one_fs say_stats"
  unfolding heap_free_def say_stats_def by (intro pres)+

lemma one_heap_commands [pres]: "preserves one_fs heap_cmd" "preserves one_fs heaptest_cmd"
  unfolding heap_cmd_def heaptest_cmd_def by (intro pres)+

lemma one_teardown_say [pres]: "preserves one_fs (teardown_ok a)" "preserves one_fs (teardown_fail a)"
    "preserves one_fs (teardown_info t)"
  unfolding teardown_ok_def teardown_fail_def teardown_info_def by (intro pres)+

lemma one_teardown_parts [pres]:
  "preserves one_fs teardown_stop_interrupts" "preserves one_fs (teardown_flush_disks env)"
  "preserves one_fs (teardown_stop_block env)" "preserves one_fs teardown_stop_pic" "preserves one_fs teardown_stop_idt"
  unfolding teardown_stop_interrupts_def teardown_flush_disks_def teardown_stop_block_def teardown_stop_pic_def
    teardown_stop_idt_def Let_def
  by (intro pres)+

lemma one_teardown_state [pres]:
  "preserves one_fs (teardown_stop_input env)" "preserves one_fs teardown_stop_dma" "preserves one_fs teardown_stop_dmi"
  unfolding teardown_stop_input_def teardown_stop_dma_def teardown_stop_dmi_def by (intro pres one_modify; simp)+

lemma one_teardown_unmount [pres]: "preserves one_fs teardown_unmount_fs"
  unfolding teardown_unmount_fs_def by (intro pres) (simp split: active_fs.split add: pres)

lemma one_teardown [pres]: "preserves one_fs (system_teardown env)" unfolding system_teardown_def by (intro pres)

lemma one_power [pres]: "preserves one_fs (shutdown env)" "preserves one_fs (reboot env)" "preserves one_fs emerdown"
  unfolding shutdown_def reboot_def emerdown_def by (intro pres one_modify; simp)+

lemma one_execute [pres]: "preserves one_fs (execute env l)" unfolding execute_def Let_def by (intro pres)

text \<open>A session: the command lines one after the other.\<close>

definition session :: "('d, 'p) env \<Rightarrow> u8 list list \<Rightarrow> ('d, 'p) sys \<Rightarrow> ('d, 'p) sys" where
  "session env ls s = fold (\<lambda>l s. snd (run_state (execute env l) s)) ls s"

lemma one_session: "one_fs s \<Longrightarrow> one_fs (session env ls s)"
  unfolding session_def by (induction ls arbitrary: s) (simp_all add: preservesD [OF one_execute])

end
