(* ===== verification/Mmio.thy ===== *)
theory Mmio
  imports Heap Dma Pci Prog
begin

text \<open>
  What the drivers of controllers with registers in memory share, \<open>drivers/ahci.cpp\<close>, \<open>drivers/usb/xhci.cpp\<close> and
  \<open>drivers/usb/ehci.cpp\<close>, each of which has its own copy of it: the page tables through which the registers
  are reached, and 32-bit accesses to them.  Memory is shared with the controller, whose registers are a
  parameter: an access may change both.  The content of \<open>cr3\<close> is a parameter too.  \<open>dr_ub\<close> records an
  allocation that leaves the page bitmap.
\<close>

section \<open>State\<close>

record 'h driver =
  dr_mem :: memory
  dr_hw :: 'h
  dr_base :: u64
  dr_hhdm :: u64
  dr_cr3_orig :: u64
  dr_pml4 :: u64
  dr_dma :: dma_state
  dr_phys :: phys_state
  dr_ub :: bool

definition driver_boot :: "memory \<Rightarrow> 'h \<Rightarrow> dma_state \<Rightarrow> phys_state \<Rightarrow> 'h driver" where
  "driver_boot m h d p = \<lparr>dr_mem = m, dr_hw = h, dr_base = 0, dr_hhdm = 0, dr_cr3_orig = 0, dr_pml4 = 0,
     dr_dma = d, dr_phys = p, dr_ub = False\<rparr>"

type_synonym ('h, 'z, 'a) drv = "(('h, 'z) driver_scheme, 'a) state"

definition PAGE_MASK :: u64 where "PAGE_MASK = NOT 0xFFF"
definition ADDR_MASK :: u64 where "ADDR_MASK = 0x000FFFFFFFFFF000"

text \<open>32-bit accesses to the registers by address; either may change memory, as the controller works
  beside the driver.\<close>

record 'h mmio =
  mm_read :: "u64 \<Rightarrow> memory \<times> 'h \<Rightarrow> u32 \<times> memory \<times> 'h"
  mm_write :: "u64 \<Rightarrow> u32 \<Rightarrow> memory \<times> 'h \<Rightarrow> memory \<times> 'h"

text \<open>A USB controller: time passes for it while the driver waits, and it has a PCI configuration space.\<close>

record 'h usb_io = "'h mmio" +
  ui_delay :: "u32 \<Rightarrow> memory \<times> 'h \<Rightarrow> memory \<times> 'h"
  ui_pci :: "'h pci_ports"

definition on_mem :: "(memory \<Rightarrow> memory) \<Rightarrow> ('h, 'z, unit) drv" where
  "on_mem f = modify (\<lambda>s. s\<lparr>dr_mem := f (dr_mem s)\<rparr>)"

definition dr_alloc :: "u64 \<Rightarrow> u64 \<Rightarrow> ('h, 'z, u64) drv" where
  "dr_alloc sz alignment = do {
     s \<leftarrow> State_Monad.get;
     case dma_alloc (dr_dma s) (dr_phys s) sz alignment of
       None \<Rightarrow> do { _ \<leftarrow> State_Monad.set (s\<lparr>dr_ub := True\<rparr>); ret 0 }
     | Some (a, p) \<Rightarrow> do { _ \<leftarrow> State_Monad.set (s\<lparr>dr_phys := p\<rparr>); ret a } }"

section \<open>Page tables\<close>

definition vmm_init :: "u64 \<Rightarrow> u64 \<Rightarrow> ('h, 'z, unit) drv" where
  "vmm_init cr3 hhdm = modify (\<lambda>s. s\<lparr>dr_cr3_orig := cr3, dr_pml4 := (cr3 AND PAGE_MASK) + hhdm\<rparr>)"

text \<open>The index of an address in a table at the level that \<open>k\<close> names: 39, 30, 21 or 12.\<close>

definition pt_index :: "u64 \<Rightarrow> nat \<Rightarrow> u64" where "pt_index virt k = drop_bit k virt AND 0x1FF"

definition pt_entry :: "memory \<Rightarrow> u64 \<Rightarrow> u64 \<Rightarrow> u64" where "pt_entry m table idx = ld64 m (table + idx * 8)"

text \<open>A null pointer is 0.\<close>

definition next_table :: "u64 \<Rightarrow> u64 \<Rightarrow> ('h, 'z, u64) drv" where
  "next_table table idx = do {
     s \<leftarrow> State_Monad.get;
     let e = pt_entry (dr_mem s) table idx;
     if e AND 1 \<noteq> 0 then ret (if e AND 0x80 \<noteq> 0 then 0 else (e AND ADDR_MASK) + dr_hhdm s)
     else do {
       t \<leftarrow> dr_alloc PAGE_SIZE PAGE_SIZE;
       if t = 0 then ret 0
       else do {
         _ \<leftarrow> on_mem (\<lambda>m. st m t (replicate 4096 0));
         let phys = dma_map (dr_dma s) t;
         _ \<leftarrow> on_mem (\<lambda>m. st64 m (table + idx * 8) ((phys AND ADDR_MASK) OR 0x03));
         ret t } } }"

text \<open>The levels below the root: a present entry that is no page of its own leads to the next table.\<close>

fun walk_mapped :: "memory \<Rightarrow> u64 \<Rightarrow> u64 \<Rightarrow> u64 \<Rightarrow> nat list \<Rightarrow> bool" where
  "walk_mapped m hhdm virt table [] = (pt_entry m table (pt_index virt 12) AND 1 \<noteq> 0)"
| "walk_mapped m hhdm virt table (k # ks) =
     (let e = pt_entry m table (pt_index virt k) in
      if e AND 1 = 0 then False
      else if e AND 0x80 \<noteq> 0 then True
      else walk_mapped m hhdm virt ((e AND ADDR_MASK) + hhdm) ks)"

definition is_page_mapped :: "('h, 'z) driver_scheme \<Rightarrow> u64 \<Rightarrow> bool" where
  "is_page_mapped s virt = walk_mapped (dr_mem s) (dr_hhdm s) virt (dr_pml4 s) [39, 30, 21]"

definition map_one_page :: "u64 \<Rightarrow> u64 \<Rightarrow> ('h, 'z, bool) drv" where
  "map_one_page virt phys = do {
     pml4 \<leftarrow> asks dr_pml4;
     pdpt \<leftarrow> next_table pml4 (pt_index virt 39);
     if pdpt = 0 then ret False
     else do {
       pd \<leftarrow> next_table pdpt (pt_index virt 30);
       if pd = 0 then ret False
       else do {
         pt \<leftarrow> next_table pd (pt_index virt 21);
         if pt = 0 then ret False
         else do {
           _ \<leftarrow> on_mem (\<lambda>m. st64 m (pt + pt_index virt 12 * 8) ((phys AND ADDR_MASK) OR 0x13));
           ret True } } } }"

text \<open>The loop of \<open>map_mmio\<close> over \<open>n\<close> pages.  Both bounds of the source's loop are page-aligned, so it
  runs once for each page between them.\<close>

primrec map_pages :: "nat \<Rightarrow> u64 \<Rightarrow> u64 \<Rightarrow> ('h, 'z, bool) drv" where
  "map_pages 0 v p = ret True"
| "map_pages (Suc n) v p = do {
     s \<leftarrow> State_Monad.get;
     ok \<leftarrow> (if \<not> is_page_mapped s v then map_one_page v p else ret True);
     if \<not> ok then ret False else map_pages n (v + PAGE_SIZE) (p + PAGE_SIZE) }"

definition map_mmio :: "u64 \<Rightarrow> u64 \<Rightarrow> ('h, 'z, bool) drv" where
  "map_mmio phys sz = do {
     hhdm \<leftarrow> asks dr_hhdm;
     let v_lo = (phys + hhdm) AND PAGE_MASK;
     let v_hi = (phys + hhdm + sz + PAGE_SIZE - 1) AND PAGE_MASK;
     map_pages (if v_lo < v_hi then unat ((v_hi - v_lo) div PAGE_SIZE) else 0) v_lo (phys AND PAGE_MASK) }"

section \<open>Registers\<close>

definition rd_at :: "('h, 'y) mmio_scheme \<Rightarrow> u64 \<Rightarrow> ('h, 'z, u32) drv" where
  "rd_at io a = do {
     s \<leftarrow> State_Monad.get;
     let (v, m, h) = mm_read io a (dr_mem s, dr_hw s);
     _ \<leftarrow> State_Monad.set (s\<lparr>dr_mem := m, dr_hw := h\<rparr>);
     ret v }"

definition wr_at :: "('h, 'y) mmio_scheme \<Rightarrow> u64 \<Rightarrow> u32 \<Rightarrow> ('h, 'z, unit) drv" where
  "wr_at io a v = modify (\<lambda>s. let (m, h) = mm_write io a v (dr_mem s, dr_hw s) in s\<lparr>dr_mem := m, dr_hw := h\<rparr>)"

definition mmio_read :: "('h, 'y) mmio_scheme \<Rightarrow> u32 \<Rightarrow> ('h, 'z, u32) drv" where
  "mmio_read io off = do { b \<leftarrow> asks dr_base; rd_at io (b + ucast off) }"

definition mmio_write :: "('h, 'y) mmio_scheme \<Rightarrow> u32 \<Rightarrow> u32 \<Rightarrow> ('h, 'z, unit) drv" where
  "mmio_write io off v = do { b \<leftarrow> asks dr_base; wr_at io (b + ucast off) v }"

definition delay_us :: "('h, 'y) usb_io_scheme \<Rightarrow> u32 \<Rightarrow> ('h, 'z, unit) drv" where
  "delay_us io us = modify (\<lambda>s. let (m, h) = ui_delay io us (dr_mem s, dr_hw s) in s\<lparr>dr_mem := m, dr_hw := h\<rparr>)"

definition pci_get :: "('h, 'y) usb_io_scheme \<Rightarrow> pci_device \<Rightarrow> u8 \<Rightarrow> ('h, 'z, u32) drv" where
  "pci_get io dev off = do {
     s \<leftarrow> State_Monad.get;
     let (v, h) = read_config (ui_pci io) (dr_hw s) (pd_bus dev) (pd_slot dev) (pd_func dev) off;
     _ \<leftarrow> State_Monad.set (s\<lparr>dr_hw := h\<rparr>);
     ret v }"

definition pci_put :: "('h, 'y) usb_io_scheme \<Rightarrow> pci_device \<Rightarrow> u8 \<Rightarrow> u32 \<Rightarrow> ('h, 'z, unit) drv" where
  "pci_put io dev off v = modify (\<lambda>s. s\<lparr>dr_hw := write_config (ui_pci io) (dr_hw s) (pd_bus dev) (pd_slot dev) (pd_func dev) off v\<rparr>)"

text \<open>The first memory region of a USB controller.\<close>

definition bar0_of :: "pci_device \<Rightarrow> u64 option" where
  "bar0_of d =
     (let bar0 = pd_bar d ! 0;
          a = (ucast bar0 :: u64) AND NOT 0xF;
          a = (if bar0 AND 4 \<noteq> 0 then a OR push_bit 32 (ucast (pd_bar d ! 1)) else a)
      in if bar0 AND 1 \<noteq> 0 then None else if a = 0 then None else Some a)"

text \<open>Two steps, the second only when the first succeeds.\<close>

definition and_then :: "('s, bool) state \<Rightarrow> ('s, bool) state \<Rightarrow> ('s, bool) state" where
  "and_then f g = do { ok \<leftarrow> f; if ok then g else ret False }"

definition lo32 :: "u64 \<Rightarrow> u32" where "lo32 v = ucast (v AND 0xFFFFFFFF)"
definition hi32 :: "u64 \<Rightarrow> u32" where "hi32 v = ucast (drop_bit 32 v)"

end
