(* ===== verification/Ahci.thy ===== *)
theory Ahci
  imports Ata Mmio
begin

text \<open>
  The AHCI driver, \<open>drivers/ahci.cpp\<close>: the port it chooses and its command structures in memory, commands
  as frame information structures, and sector transfers.  The trace on the serial port is left out.
\<close>

section \<open>Registers\<close>

definition AHCI_CAP :: u32 where "AHCI_CAP = 0x00"
definition AHCI_GHC :: u32 where "AHCI_GHC = 0x04"
definition AHCI_PI :: u32 where "AHCI_PI = 0x0C"
definition AHCI_VS :: u32 where "AHCI_VS = 0x10"
definition AHCI_GHC_AE :: u32 where "AHCI_GHC_AE = push_bit 31 1"
definition HBA_PORT_BASE :: u32 where "HBA_PORT_BASE = 0x100"
definition HBA_PORT_SIZE :: u32 where "HBA_PORT_SIZE = 0x80"
definition P_CLB :: u32 where "P_CLB = 0x00"
definition P_CLBU :: u32 where "P_CLBU = 0x04"
definition P_FB :: u32 where "P_FB = 0x08"
definition P_FBU :: u32 where "P_FBU = 0x0C"
definition P_IS :: u32 where "P_IS = 0x10"
definition P_IE :: u32 where "P_IE = 0x14"
definition P_CMD :: u32 where "P_CMD = 0x18"
definition P_TFD :: u32 where "P_TFD = 0x20"
definition P_SIG :: u32 where "P_SIG = 0x24"
definition P_SSTS :: u32 where "P_SSTS = 0x28"
definition P_SERR :: u32 where "P_SERR = 0x30"
definition P_CI :: u32 where "P_CI = 0x38"
definition P_CMD_ST :: u32 where "P_CMD_ST = push_bit 0 1"
definition P_CMD_SUD :: u32 where "P_CMD_SUD = push_bit 1 1"
definition P_CMD_POD :: u32 where "P_CMD_POD = push_bit 2 1"
definition P_CMD_FRE :: u32 where "P_CMD_FRE = push_bit 4 1"
definition P_CMD_FR :: u32 where "P_CMD_FR = push_bit 14 1"
definition P_CMD_CR :: u32 where "P_CMD_CR = push_bit 15 1"
definition TFD_BSY :: u32 where "TFD_BSY = push_bit 7 1"
definition TFD_DRQ :: u32 where "TFD_DRQ = push_bit 3 1"
definition TFD_ERR :: u32 where "TFD_ERR = push_bit 0 1"
definition HBA_PORT_DET_PRESENT :: u32 where "HBA_PORT_DET_PRESENT = 3"
definition HBA_PORT_IPM_ACTIVE :: u32 where "HBA_PORT_IPM_ACTIVE = 1"
definition SATA_SIG_ATA :: u32 where "SATA_SIG_ATA = 0x00000101"
definition FIS_TYPE_REG_H2D :: u8 where "FIS_TYPE_REG_H2D = 0x27"
definition ATA_CMD_IDENTIFY :: u8 where "ATA_CMD_IDENTIFY = 0xEC"
definition ATA_CMD_READ_DMA_EXT :: u8 where "ATA_CMD_READ_DMA_EXT = 0x25"
definition ATA_CMD_WRITE_DMA_EXT :: u8 where "ATA_CMD_WRITE_DMA_EXT = 0x35"
definition ATA_CMD_FLUSH_CACHE_EXT :: u8 where "ATA_CMD_FLUSH_CACHE_EXT = 0xEA"
definition PORT_STOP_TIMEOUT :: nat where "PORT_STOP_TIMEOUT = 1000000"
definition PORT_START_TIMEOUT :: nat where "PORT_START_TIMEOUT = 1000000"
definition CMD_WAIT_TIMEOUT :: nat where "CMD_WAIT_TIMEOUT = 10000000"
definition XFER_WAIT_TIMEOUT :: nat where "XFER_WAIT_TIMEOUT = 100000000"
definition MMIO_MAP_SIZE :: u64 where "MMIO_MAP_SIZE = 0x4000"

lemmas ahci_regs = AHCI_CAP_def AHCI_GHC_def AHCI_PI_def AHCI_VS_def AHCI_GHC_AE_def HBA_PORT_BASE_def HBA_PORT_SIZE_def
  P_CLB_def P_CLBU_def P_FB_def P_FBU_def P_IS_def P_IE_def P_CMD_def P_TFD_def P_SIG_def P_SSTS_def P_SERR_def P_CI_def

section \<open>State\<close>

record 'h ahci = "'h driver" +
  ah_abar_phys :: u64
  ah_port :: int
  ah_ready :: bool
  ah_cmd_list :: u64
  ah_fis :: u64
  ah_cmd_tbl :: u64
  ah_buf :: u64
  ah_cr3 :: u64
  ah_info :: disk_info

definition ahci_boot :: "memory \<Rightarrow> 'h \<Rightarrow> dma_state \<Rightarrow> phys_state \<Rightarrow> 'h ahci" where
  "ahci_boot m h d p = driver.extend (driver_boot m h d p) \<lparr>ah_abar_phys = 0, ah_port = -1, ah_ready = False,
     ah_cmd_list = 0, ah_fis = 0, ah_cmd_tbl = 0, ah_buf = 0, ah_cr3 = 0, ah_info = info_boot\<rparr>"

type_synonym ('h, 'a) ah = "('h ahci, 'a) state"

section \<open>Ports\<close>

definition port_off :: "int \<Rightarrow> u32 \<Rightarrow> u32" where
  "port_off p off = HBA_PORT_BASE + word_of_int p * HBA_PORT_SIZE + off"

definition port_read :: "'h mmio \<Rightarrow> int \<Rightarrow> u32 \<Rightarrow> ('h, u32) ah" where
  "port_read io p off = mmio_read io (port_off p off)"

definition port_write :: "'h mmio \<Rightarrow> int \<Rightarrow> u32 \<Rightarrow> u32 \<Rightarrow> ('h, unit) ah" where
  "port_write io p off v = mmio_write io (port_off p off) v"

text \<open>Reading a register up to \<open>n\<close> times until a condition holds: all waits but that of a transfer.\<close>

primrec poll :: "'h mmio \<Rightarrow> int \<Rightarrow> u32 \<Rightarrow> (u32 \<Rightarrow> bool) \<Rightarrow> nat \<Rightarrow> ('h, bool) ah" where
  "poll io p off good 0 = ret False"
| "poll io p off good (Suc n) = do { v \<leftarrow> port_read io p off; if good v then ret True else poll io p off good n }"

definition port_stop :: "'h mmio \<Rightarrow> int \<Rightarrow> ('h, unit) ah" where
  "port_stop io p = do {
     cmd \<leftarrow> port_read io p P_CMD;
     _ \<leftarrow> port_write io p P_CMD (cmd AND NOT P_CMD_ST);
     _ \<leftarrow> poll io p P_CMD (\<lambda>v. v AND P_CMD_CR = 0) PORT_STOP_TIMEOUT;
     cmd \<leftarrow> port_read io p P_CMD;
     _ \<leftarrow> port_write io p P_CMD (cmd AND NOT P_CMD_FRE);
     _ \<leftarrow> poll io p P_CMD (\<lambda>v. v AND P_CMD_FR = 0) PORT_STOP_TIMEOUT;
     ret () }"

definition port_start :: "'h mmio \<Rightarrow> int \<Rightarrow> ('h, unit) ah" where
  "port_start io p = do {
     _ \<leftarrow> poll io p P_CMD (\<lambda>v. v AND P_CMD_CR = 0) PORT_START_TIMEOUT;
     cmd \<leftarrow> port_read io p P_CMD;
     _ \<leftarrow> port_write io p P_CMD (cmd OR P_CMD_FRE);
     cmd \<leftarrow> port_read io p P_CMD;
     port_write io p P_CMD (cmd OR (P_CMD_ST OR P_CMD_SUD OR P_CMD_POD)) }"

definition wait_port_ready :: "'h mmio \<Rightarrow> int \<Rightarrow> ('h, bool) ah" where
  "wait_port_ready io p = poll io p P_CMD (\<lambda>v. v AND P_CMD_FR \<noteq> 0 \<and> v AND P_CMD_CR \<noteq> 0) PORT_START_TIMEOUT"

definition wait_not_busy :: "'h mmio \<Rightarrow> int \<Rightarrow> ('h, bool) ah" where
  "wait_not_busy io p = poll io p P_TFD (\<lambda>v. v AND (TFD_BSY OR TFD_DRQ) = 0) CMD_WAIT_TIMEOUT"

fun find_port_from :: "'h mmio \<Rightarrow> u32 \<Rightarrow> nat list \<Rightarrow> ('h, int) ah" where
  "find_port_from io pi [] = ret (-1)"
| "find_port_from io pi (i # is) =
     (if pi AND push_bit i 1 = 0 then find_port_from io pi is
      else do {
        ssts \<leftarrow> port_read io (int i) P_SSTS;
        if ssts AND 0x0F \<noteq> HBA_PORT_DET_PRESENT then find_port_from io pi is
        else if drop_bit 8 ssts AND 0x0F \<noteq> HBA_PORT_IPM_ACTIVE then find_port_from io pi is
        else do {
          sig \<leftarrow> port_read io (int i) P_SIG;
          if sig \<noteq> SATA_SIG_ATA then find_port_from io pi is else ret (int i) } })"

definition find_port :: "'h mmio \<Rightarrow> ('h, int) ah" where
  "find_port io = do { pi \<leftarrow> mmio_read io AHCI_PI; find_port_from io pi [0..<32] }"

definition init_port :: "'h mmio \<Rightarrow> int \<Rightarrow> ('h, bool) ah" where
  "init_port io p = do {
     _ \<leftarrow> port_stop io p;
     _ \<leftarrow> port_write io p P_SERR 0xFFFFFFFF;
     _ \<leftarrow> port_write io p P_IS 0xFFFFFFFF;
     _ \<leftarrow> port_write io p P_IE 0;
     cl \<leftarrow> dr_alloc 1024 1024;
     fb \<leftarrow> dr_alloc 256 256;
     ct \<leftarrow> dr_alloc 4096 128;
     bf \<leftarrow> dr_alloc 4096 4096;
     _ \<leftarrow> modify (\<lambda>s. s\<lparr>ah_cmd_list := cl, ah_fis := fb, ah_cmd_tbl := ct, ah_buf := bf\<rparr>);
     if cl = 0 \<or> fb = 0 \<or> ct = 0 \<or> bf = 0 then ret False
     else do {
       _ \<leftarrow> on_mem (\<lambda>m. st m cl (replicate 1024 0));
       _ \<leftarrow> on_mem (\<lambda>m. st m fb (replicate 256 0));
       _ \<leftarrow> on_mem (\<lambda>m. st m ct (replicate 4096 0));
       _ \<leftarrow> on_mem (\<lambda>m. st m bf (replicate 4096 0));
       d \<leftarrow> asks dr_dma;
       _ \<leftarrow> port_write io p P_CLB (lo32 (dma_map d cl));
       _ \<leftarrow> port_write io p P_CLBU (hi32 (dma_map d cl));
       _ \<leftarrow> port_write io p P_FB (lo32 (dma_map d fb));
       _ \<leftarrow> port_write io p P_FBU (hi32 (dma_map d fb));
       _ \<leftarrow> port_start io p;
       wait_port_ready io p } }"

section \<open>Commands\<close>

definition FIS_LEN :: nat where "FIS_LEN = 20"

definition build_rw_fis :: "u8 \<Rightarrow> u64 \<Rightarrow> u16 \<Rightarrow> u8 list" where
  "build_rw_fis cmd lba count =
     [FIS_TYPE_REG_H2D, 0x80, cmd, 0,
      ucast (lba AND 0xFF), ucast (drop_bit 8 lba AND 0xFF), ucast (drop_bit 16 lba AND 0xFF), 0x40,
      ucast (drop_bit 24 lba AND 0xFF), ucast (drop_bit 32 lba AND 0xFF), ucast (drop_bit 40 lba AND 0xFF), 0,
      ucast (count AND 0xFF), ucast (drop_bit 8 count AND 0xFF), 0, 0, 0, 0, 0, 0]"

text \<open>The FIS of \<open>identify\<close> and \<open>flush\<close>.\<close>

definition plain_fis :: "u8 \<Rightarrow> u8 list" where
  "plain_fis cmd = [FIS_TYPE_REG_H2D, 0x80, cmd] @ replicate 17 0"

text \<open>The header in slot 0, the command table and its one data region.\<close>

definition cmd_header :: "bool \<Rightarrow> bool \<Rightarrow> u64 \<Rightarrow> u64 \<Rightarrow> memory \<Rightarrow> memory" where
  "cmd_header write data hdr ctba m =
     (let m = st m hdr (replicate 32 0);
          opts = (of_nat (FIS_LEN div 4) :: u16) OR (if write then push_bit 6 1 else 0);
          m = st m hdr (le16 opts);
          m = st m (hdr + 2) (le16 (if data then 1 else 0));
          m = st32 m (hdr + 4) 0;
          m = st32 m (hdr + 8) (lo32 ctba)
      in st32 m (hdr + 12) (hi32 ctba))"

definition cmd_table :: "u8 list \<Rightarrow> u64 \<Rightarrow> u64 \<Rightarrow> u32 \<Rightarrow> memory \<Rightarrow> memory" where
  "cmd_table fis tbl buf_phys buf_size m =
     (let m = st m tbl (replicate 64 0);
          m = st m tbl fis
      in if buf_size = 0 then m
      else let m = st32 m (tbl + 0x80) (lo32 buf_phys);
               m = st32 m (tbl + 0x84) (hi32 buf_phys);
               m = st32 m (tbl + 0x88) 0
           in st32 m (tbl + 0x8C) (((buf_size - 1) AND 0x3FFFFF) OR push_bit 31 1))"

primrec await_done :: "'h mmio \<Rightarrow> int \<Rightarrow> nat \<Rightarrow> ('h, bool) ah" where
  "await_done io p 0 = ret False"
| "await_done io p (Suc n) = do {
     ci \<leftarrow> port_read io p P_CI;
     tfd \<leftarrow> port_read io p P_TFD;
     if tfd AND TFD_ERR \<noteq> 0 then ret False
     else if ci AND 1 = 0 then ret True
     else await_done io p n }"

definition ahci_transfer :: "'h mmio \<Rightarrow> int \<Rightarrow> u8 list \<Rightarrow> u64 \<Rightarrow> u32 \<Rightarrow> bool \<Rightarrow> ('h, bool) ah" where
  "ahci_transfer io p fis buf_phys buf_size write = do {
     ready \<leftarrow> wait_not_busy io p;
     if \<not> ready then ret False
     else do {
       slot_free \<leftarrow> poll io p P_CI (\<lambda>v. v AND 1 = 0) CMD_WAIT_TIMEOUT;
       if \<not> slot_free then ret False
       else do {
         s \<leftarrow> State_Monad.get;
         _ \<leftarrow> on_mem (cmd_header write (buf_size > 0) (ah_cmd_list s) (dma_map (dr_dma s) (ah_cmd_tbl s)));
         _ \<leftarrow> on_mem (cmd_table fis (ah_cmd_tbl s) buf_phys buf_size);
         _ \<leftarrow> port_write io p P_CI 1;
         await_done io p XFER_WAIT_TIMEOUT } } }"

text \<open>The identify data as 16-bit words.\<close>

definition identify_words :: "memory \<Rightarrow> u64 \<Rightarrow> u16 list" where
  "identify_words m a = words_at (ld m a 512) 0"

definition identify :: "'h mmio \<Rightarrow> int \<Rightarrow> ('h, bool) ah" where
  "identify io p = do {
     s \<leftarrow> State_Monad.get;
     ok \<leftarrow> ahci_transfer io p (plain_fis ATA_CMD_IDENTIFY) (dma_map (dr_dma s) (ah_buf s)) 512 False;
     if \<not> ok then ret False
     else do {
       _ \<leftarrow> modify (\<lambda>s. s\<lparr>ah_info := info_of_identify (identify_words (dr_mem s) (ah_buf s)) (ah_info s)\<rparr>);
       ret True } }"

section \<open>Initialisation\<close>

text \<open>The first device with class 1, subclass 6 and interface 1.\<close>

definition is_ahci_device :: "pci_device \<Rightarrow> bool" where
  "is_ahci_device d \<longleftrightarrow> pd_class_code d = 0x01 \<and> pd_subclass d = 0x06 \<and> pd_prog_if d = 0x01"

definition abar_of :: "pci_device \<Rightarrow> u64 option" where
  "abar_of d =
     (let bar5 = pd_bar d ! 5;
          a = (ucast bar5 :: u64) AND NOT 0xF;
          a = (if bar5 AND 4 \<noteq> 0 then a OR push_bit 32 (ucast (pd_bar d ! 4)) else a)
      in if bar5 AND 1 \<noteq> 0 then None else if a = 0 then None else Some a)"

text \<open>What follows once the registers are mapped.\<close>

definition start_controller :: "'h mmio \<Rightarrow> ('h, bool) ah" where
  "start_controller io = do {
     cap \<leftarrow> mmio_read io AHCI_CAP;
     vs \<leftarrow> mmio_read io AHCI_VS;
     if cap = 0xFFFFFFFF \<or> vs = 0xFFFFFFFF then ret False
     else do {
       ghc \<leftarrow> mmio_read io AHCI_GHC;
       _ \<leftarrow> mmio_write io AHCI_GHC (ghc OR AHCI_GHC_AE);
       ghc \<leftarrow> mmio_read io AHCI_GHC;
       if ghc AND AHCI_GHC_AE = 0 then ret False
       else do {
         p \<leftarrow> find_port io;
         if p < 0 then ret False
         else do {
           ok \<leftarrow> init_port io p;
           if \<not> ok then ret False
           else do {
             _ \<leftarrow> modify (\<lambda>s. s\<lparr>ah_port := p\<rparr>);
             ok \<leftarrow> identify io p;
             if \<not> ok then do { _ \<leftarrow> modify (\<lambda>s. s\<lparr>ah_port := -1\<rparr>); ret False }
             else do { _ \<leftarrow> modify (\<lambda>s. s\<lparr>ah_ready := True\<rparr>); ret True } } } } } }"

definition ahci_init :: "'h mmio \<Rightarrow> u64 \<Rightarrow> pci_device list \<Rightarrow> u64 \<Rightarrow> ('h, bool) ah" where
  "ahci_init io cr3 devices hhdm = do {
     _ \<leftarrow> modify (\<lambda>s. s\<lparr>dr_hhdm := hhdm, dr_base := 0, ah_port := -1, ah_ready := False\<rparr>);
     _ \<leftarrow> vmm_init cr3 hhdm;
     _ \<leftarrow> modify (\<lambda>s. s\<lparr>ah_cr3 := cr3 AND PAGE_MASK\<rparr>);
     case List.find is_ahci_device devices of None \<Rightarrow> ret False
     | Some dev \<Rightarrow>
       (case abar_of dev of None \<Rightarrow> ret False
        | Some abar_phys \<Rightarrow> do {
            _ \<leftarrow> modify (\<lambda>s. s\<lparr>ah_abar_phys := abar_phys\<rparr>);
            ok \<leftarrow> map_mmio abar_phys MMIO_MAP_SIZE;
            if \<not> ok then ret False
            else do {
              _ \<leftarrow> modify (\<lambda>s. s\<lparr>dr_base := abar_phys + hhdm\<rparr>);
              start_controller io } }) }"

section \<open>The block device\<close>

definition ahci_is_present :: "'h ahci \<Rightarrow> bool" where "ahci_is_present s \<longleftrightarrow> ah_ready s \<and> ah_port s \<ge> 0"

text \<open>A read returns what it stored in the buffer.\<close>

definition ahci_read_sector :: "'h mmio \<Rightarrow> u32 \<Rightarrow> ('h, bool \<times> u8 list) ah" where
  "ahci_read_sector io lba = do {
     s \<leftarrow> State_Monad.get;
     if \<not> ahci_is_present s then ret (False, [])
     else do {
       ok \<leftarrow> ahci_transfer io (ah_port s) (build_rw_fis ATA_CMD_READ_DMA_EXT (ucast lba) 1) (dma_map (dr_dma s) (ah_buf s)) 512 False;
       if \<not> ok then ret (False, [])
       else do { m \<leftarrow> asks dr_mem; ret (True, ld m (ah_buf s) 512) } } }"

definition ahci_write_sector :: "'h mmio \<Rightarrow> u32 \<Rightarrow> u8 list \<Rightarrow> ('h, bool) ah" where
  "ahci_write_sector io lba buffer = do {
     s \<leftarrow> State_Monad.get;
     if \<not> ahci_is_present s then ret False
     else do {
       _ \<leftarrow> on_mem (\<lambda>m. st m (ah_buf s) (take 512 buffer));
       ahci_transfer io (ah_port s) (build_rw_fis ATA_CMD_WRITE_DMA_EXT (ucast lba) 1) (dma_map (dr_dma s) (ah_buf s)) 512 True } }"

fun ahci_reads :: "'h mmio \<Rightarrow> u32 \<Rightarrow> nat list \<Rightarrow> ('h, bool \<times> u8 list) ah" where
  "ahci_reads io lba [] = ret (True, [])"
| "ahci_reads io lba (i # is) = do {
     (ok, bs) \<leftarrow> ahci_read_sector io (lba + of_nat i);
     if \<not> ok then ret (False, [])
     else do { (ok, rest) \<leftarrow> ahci_reads io lba is; ret (ok, bs @ rest) } }"

definition ahci_read_sectors :: "'h mmio \<Rightarrow> u32 \<Rightarrow> u8 \<Rightarrow> ('h, bool \<times> u8 list) ah" where
  "ahci_read_sectors io lba count = do {
     s \<leftarrow> State_Monad.get;
     if \<not> ahci_is_present s \<or> count = 0 then ret (False, []) else ahci_reads io lba [0..<unat count] }"

fun ahci_writes :: "'h mmio \<Rightarrow> u32 \<Rightarrow> u8 list \<Rightarrow> nat list \<Rightarrow> ('h, bool) ah" where
  "ahci_writes io lba buffer [] = ret True"
| "ahci_writes io lba buffer (i # is) = do {
     ok \<leftarrow> ahci_write_sector io (lba + of_nat i) (drop (i * 512) buffer);
     if \<not> ok then ret False else ahci_writes io lba buffer is }"

definition ahci_write_sectors :: "'h mmio \<Rightarrow> u32 \<Rightarrow> u8 \<Rightarrow> u8 list \<Rightarrow> ('h, bool) ah" where
  "ahci_write_sectors io lba count buffer = do {
     s \<leftarrow> State_Monad.get;
     if \<not> ahci_is_present s \<or> count = 0 then ret False else ahci_writes io lba buffer [0..<unat count] }"

definition ahci_flush :: "'h mmio \<Rightarrow> ('h, bool) ah" where
  "ahci_flush io = do {
     s \<leftarrow> State_Monad.get;
     if \<not> ahci_is_present s then ret False
     else ahci_transfer io (ah_port s) (plain_fis ATA_CMD_FLUSH_CACHE_EXT) 0 0 True }"

definition ahci_stop :: "'h mmio \<Rightarrow> ('h, bool) ah" where
  "ahci_stop io = do {
     s \<leftarrow> State_Monad.get;
     if \<not> ah_ready s \<or> ah_port s < 0 then ret True
     else do {
       _ \<leftarrow> port_stop io (ah_port s);
       _ \<leftarrow> modify (\<lambda>s. s\<lparr>ah_port := -1, ah_ready := False\<rparr>);
       ret True } }"

end
