(* ===== verification/MemPages.thy ===== *)
theory MemPages
  imports Mmio HeapMem
begin

text \<open>
  Pages of memory as byte lists: a store inside a page is a splice of its bytes, a store into another
  page leaves them alone; and addresses in two halves, as the controllers read them.
\<close>

section \<open>Pages\<close>

definition page :: "memory \<Rightarrow> u64 \<Rightarrow> u8 list" where "page m a = ld m a 4096"

definition aligned :: "u64 \<Rightarrow> bool" where "aligned a \<longleftrightarrow> unat a mod 4096 = 0"

lemma length_page [simp]: "length (page m a) = 4096" by (simp add: page_def)

lemma ld_page: "j + n \<le> 4096 \<Longrightarrow> ld m (a + of_nat j) n = subbuf (page m a) j n"
  by (rule nth_equalityI) (simp_all add: page_def ld_def nth_subbuf add.assoc)

lemma ld_page_0: "n \<le> 4096 \<Longrightarrow> ld m a n = subbuf (page m a) 0 n"
  using ld_page [of 0 n m a] by simp

lemma unat_in_page: "i < 4096 \<Longrightarrow> k < 4096 \<Longrightarrow> unat (a + of_nat k - (a + of_nat i) :: u64) = (if i \<le> k then k - i else 2 ^ 64 + k - i)"
proof -
  assume b: "i < 4096" "k < 4096"
  have e: "a + of_nat k - (a + of_nat i) = (of_nat k - of_nat i :: u64)" by simp
  have u: "unat (of_nat k :: u64) = k" "unat (of_nat i :: u64) = i" using b by (simp_all add: unat_of_nat_eq)
  show ?thesis unfolding e unat_sub_if' u by (auto simp: word_le_nat_alt u)
qed

lemma page_st:
  assumes "i + length bs \<le> 4096"
  shows "page (st m (a + of_nat i) bs) a = splice (page m a) i bs"
proof (rule nth_equalityI)
  fix k assume "k < length (page (st m (a + of_nat i) bs) a)"
  then have k: "k < 4096" by simp
  have "bs = [] \<or> i < 4096" using assms by (cases bs) auto
  then show "page (st m (a + of_nat i) bs) a ! k = splice (page m a) i bs ! k"
  proof
    assume i: "i < 4096"
    show ?thesis using assms k unat_in_page [OF i k, of a]
      by (auto simp: page_def ld_def st_def nth_splice)
  qed (simp add: page_def ld_def st_def k splice_def)
qed (use assms in simp)

lemma page_st_0: "length bs \<le> 4096 \<Longrightarrow> page (st m a bs) a = splice (page m a) 0 bs"
  using page_st [of 0 bs m a] by simp

lemma page_st_other:
  assumes a: "aligned a" and b: "aligned b" and ne: "a \<noteq> b" and len: "i + length bs \<le> 4096"
  shows "page (st m (b + of_nat i) bs) a = page m a"
  unfolding page_def
proof (rule ld_cong)
  fix k :: nat assume k: "k < 4096"
  show "st m (b + of_nat i) bs (a + of_nat k) = m (a + of_nat k)"
  proof (rule ccontr)
    assume "\<not> ?thesis"
    then have lt: "unat (a + of_nat k - (b + of_nat i)) < length bs" by (auto simp: st_def split: if_splits)
    define x where "x = unat (a + of_nat k - (b + of_nat i))"
    have x: "i + x < 4096" using lt len by (simp add: x_def)
    have "a + of_nat k = b + of_nat (i + x)" by (simp add: x_def)
    then have e: "unat (a + of_nat k) div 4096 = unat (b + of_nat (i + x)) div 4096" by simp
    have page_div: "unat (c + of_nat j) div 4096 = unat c div 4096" if "aligned c" "j < 4096" for c :: u64 and j
    proof -
      have "4096 dvd unat c" using that(1) by (simp only: aligned_def dvd_eq_mod_eq_0)
      then obtain q where q: "unat c = 4096 * q" by (rule dvdE)
      have "unat c < 2 ^ 64" using unsigned_less [of c, where ?'a = nat] by simp
      then have "q < 2 ^ 52" using q by simp
      then have "unat c + j < 2 ^ 64" using that(2) q by simp
      then have "unat (c + of_nat j) = unat c + j" using that(2)
        by (subst unat_add_no_overflow) (simp_all add: unat_of_nat_eq)
      then show ?thesis using q that(2) by simp
    qed
    have "unat a div 4096 = unat b div 4096" using e page_div [OF a k] page_div [OF b x] by simp
    then have "unat a = unat b" using a b unfolding aligned_def by (metis div_mult_mod_eq)
    then show False using ne by (simp add: word_unat_eq_iff)
  qed
qed

lemma page_st_other_0: "aligned a \<Longrightarrow> aligned b \<Longrightarrow> a \<noteq> b \<Longrightarrow> length bs \<le> 4096 \<Longrightarrow> page (st m b bs) a = page m a"
  using page_st_other [of a b 0 bs m] by simp

section \<open>What the controller reads\<close>

text \<open>An address in two registers or fields, low half first.\<close>

definition addr_at :: "memory \<Rightarrow> u64 \<Rightarrow> u64" where
  "addr_at m a = ucast (ld32 m a) OR push_bit 32 (ucast (ld32 m (a + 4)))"

lemma lo_hi: "ucast (lo32 a) OR push_bit 32 (ucast (hi32 a)) = a"
proof (rule bit_word_eqI)
  have m: "(0xFFFFFFFF :: u64) = mask 32" by (simp add: mask_eq_exp_minus_1)
  fix n assume "n < LENGTH(64)"
  then show "bit (ucast (lo32 a) OR push_bit 32 (ucast (hi32 a)) :: u64) n = bit a n"
    unfolding lo32_def hi32_def m bit_or_iff bit_push_bit_iff bit_unsigned_iff bit_and_iff bit_mask_iff bit_drop_bit_eq possible_bit_word
    by auto
qed

lemma ld32_page: "j + 4 \<le> 4096 \<Longrightarrow> ld32 m (a + of_nat j) = rd32 (page m a) j"
  by (simp add: ld32_def ld_page rd32_subbuf [of j])

lemma addr_at_page: "j + 8 \<le> 4096 \<Longrightarrow> addr_at m (a + of_nat j) = ucast (rd32 (page m a) j) OR push_bit 32 (ucast (rd32 (page m a) (j + 4)))"
  using ld32_page [of j m a] ld32_page [of "j + 4" m a] by (simp add: addr_at_def add.assoc)

text \<open>A direct map, for examples.\<close>

definition HHDM :: u64 where "HHDM = 0xFFFF800000000000"

end
