(* ===== verification/AhciMem.thy ===== *)
theory AhciMem
  imports Ahci MemPages
begin

text \<open>What the structures of an AHCI command hold after the driver has filled them.\<close>

section \<open>The structures of a command\<close>

text \<open>Stores at literal offsets of a page.\<close>

lemma page_st_at:
  "length bs \<le> 4094 \<Longrightarrow> page (st m (a + 2) bs) a = splice (page m a) 2 bs"
  "page (st32 m (a + 4) v) a = wr32 (page m a) 4 v"
  "page (st32 m (a + 8) v) a = wr32 (page m a) 8 v"
  "page (st32 m (a + 12) v) a = wr32 (page m a) 12 v"
  "page (st32 m (a + 0x80) v) a = wr32 (page m a) 0x80 v"
  "page (st32 m (a + 0x84) v) a = wr32 (page m a) 0x84 v"
  "page (st32 m (a + 0x88) v) a = wr32 (page m a) 0x88 v"
  "page (st32 m (a + 0x8C) v) a = wr32 (page m a) 0x8C v"
  using page_st [of 2 bs m a] page_st [of 4 "le32 v" m a] page_st [of 8 "le32 v" m a] page_st [of 12 "le32 v" m a]
    page_st [of "0x80" "le32 v" m a] page_st [of "0x84" "le32 v" m a] page_st [of "0x88" "le32 v" m a] page_st [of "0x8C" "le32 v" m a]
  by (simp_all add: st32_def wr32_def)

lemma page_st_at_other:
  assumes "aligned a" "aligned b" "a \<noteq> b"
  shows "length bs \<le> 4094 \<Longrightarrow> page (st m (b + 2) bs) a = page m a"
    "page (st32 m (b + 4) v) a = page m a" "page (st32 m (b + 8) v) a = page m a" "page (st32 m (b + 12) v) a = page m a"
    "page (st32 m (b + 0x80) v) a = page m a" "page (st32 m (b + 0x84) v) a = page m a"
    "page (st32 m (b + 0x88) v) a = page m a" "page (st32 m (b + 0x8C) v) a = page m a"
  using page_st_other [OF assms, of 2 bs m] page_st_other [OF assms, of 4 "le32 v" m] page_st_other [OF assms, of 8 "le32 v" m]
    page_st_other [OF assms, of 12 "le32 v" m] page_st_other [OF assms, of "0x80" "le32 v" m] page_st_other [OF assms, of "0x84" "le32 v" m]
    page_st_other [OF assms, of "0x88" "le32 v" m] page_st_other [OF assms, of "0x8C" "le32 v" m]
  by (simp_all add: st32_def)

lemma rd_splice_wr32 [buf_simps]:
  "off + 4 \<le> length bs \<Longrightarrow> o2 + 2 \<le> off \<or> off + 4 \<le> o2 \<Longrightarrow> o2 + 2 \<le> length bs \<Longrightarrow> rd16 (wr32 bs off v) o2 = rd16 bs o2"
  "off + 4 \<le> length bs \<Longrightarrow> o2 + 4 \<le> off \<or> off + 4 \<le> o2 \<Longrightarrow> o2 + 4 \<le> length bs \<Longrightarrow> rd32 (wr32 bs off v) o2 = rd32 bs o2"
  by (simp_all add: wr32_def buf_simps)

lemma rd16_splice_le16: "off + 2 \<le> length bs \<Longrightarrow> rd16 (splice bs off (le16 v)) off = v"
  using rd_wr_same(2) [of off bs v] by (simp add: wr16_def)

lemma header_other: "aligned a \<Longrightarrow> aligned l \<Longrightarrow> a \<noteq> l \<Longrightarrow> page (cmd_header w d l ct m) a = page m a"
  unfolding cmd_header_def Let_def by (simp add: page_st_at_other page_st_other_0)

lemma table_other: "aligned a \<Longrightarrow> aligned t \<Longrightarrow> a \<noteq> t \<Longrightarrow> length fis = 20 \<Longrightarrow> page (cmd_table fis t b n m) a = page m a"
  unfolding cmd_table_def Let_def by (simp add: page_st_at_other page_st_other_0)

lemma header_fields:
  "rd16 (page (cmd_header w d l ct m) l) 0 = of_nat (FIS_LEN div 4) OR (if w then push_bit 6 1 else 0)"
  "rd16 (page (cmd_header w d l ct m) l) 2 = (if d then 1 else 0)"
  "rd32 (page (cmd_header w d l ct m) l) 8 = lo32 ct" "rd32 (page (cmd_header w d l ct m) l) 12 = hi32 ct"
  unfolding cmd_header_def Let_def page_st_at
  by (simp_all add: page_st_0 buf_simps rd16_splice_le16 page_st_at)

lemma table_fields:
  assumes "length fis = 20"
  shows "subbuf (page (cmd_table fis t b n m) t) 0 20 = fis"
    "n \<noteq> 0 \<Longrightarrow> rd32 (page (cmd_table fis t b n m) t) 0x80 = lo32 b"
    "n \<noteq> 0 \<Longrightarrow> rd32 (page (cmd_table fis t b n m) t) 0x84 = hi32 b"
    "n \<noteq> 0 \<Longrightarrow> rd32 (page (cmd_table fis t b n m) t) 0x8C = ((n - 1) AND 0x3FFFFF) OR push_bit 31 1"
  using assms unfolding cmd_table_def Let_def
  by (simp add: page_st_0 page_st_at buf_simps wr32_def, simp_all add: page_st_0 page_st_at buf_simps)

end
