(* ===== verification/AhciProps.thy ===== *)
theory AhciProps
  imports AhciMem AtaProps
begin

text \<open>
  The AHCI driver against the controller.  What the controller does is a hypothesis (\<open>follows_ahci\<close>):
  it fetches the command in slot 0 from memory, moves the data, and reports the end in its registers,
  with any latency below the time limit of the driver.
\<close>

section \<open>The controller\<close>

text \<open>Physical address \<open>a\<close> is seen by the driver at \<open>a + hhdm\<close>.  \<open>hb_wait\<close> is the number of register
  reads until the pending command is done.\<close>

record hba =
  hb_medium :: "nat \<Rightarrow> u8 list"
  hb_cap :: nat
  hb_id :: "u8 list"
  hb_clb :: u64
  hb_ci :: bool
  hb_wait :: nat
  hb_err :: bool

definition fis_lba :: "u8 list \<Rightarrow> nat" where
  "fis_lba f = unat (f ! 4) + 2 ^ 8 * unat (f ! 5) + 2 ^ 16 * unat (f ! 6)
     + 2 ^ 24 * unat (f ! 8) + 2 ^ 32 * unat (f ! 9) + 2 ^ 40 * unat (f ! 10)"

definition fis_count :: "u8 list \<Rightarrow> nat" where "fis_count f = unat (f ! 12) + 2 ^ 8 * unat (f ! 13)"

text \<open>What the controller finds in memory: the flags and the length of the header, the FIS, the data
  region.\<close>

record command =
  c_opts :: u16
  c_prdtl :: u16
  c_fis :: "u8 list"
  c_data :: u64
  c_len :: nat

definition fetch :: "u64 \<Rightarrow> memory \<Rightarrow> u64 \<Rightarrow> command" where
  "fetch hhdm m clb =
     (let hdr = clb + hhdm; ct = addr_at m (hdr + 8) + hhdm in
      \<lparr>c_opts = rd16 (ld m hdr 2) 0, c_prdtl = rd16 (ld m (hdr + 2) 2) 0, c_fis = ld m ct 20,
       c_data = addr_at m (ct + 0x80) + hhdm, c_len = unat (ld32 m (ct + 0x8C) AND 0x3FFFFF) + 1\<rparr>)"

text \<open>A command that is not of the form the standard asks for, or that names sectors outside the medium,
  ends in an error; it stays in the command register until the port is restarted.\<close>

definition well_formed :: "command \<Rightarrow> bool" where
  "well_formed c \<longleftrightarrow> c_opts c AND 0x1F = 5 \<and> c_fis c ! 0 = 0x27 \<and> c_fis c ! 1 AND 0x80 \<noteq> 0"

definition sectors_ok :: "hba \<Rightarrow> command \<Rightarrow> bool" where
  "sectors_ok v c \<longleftrightarrow> c_prdtl c = 1 \<and> fis_lba (c_fis c) + fis_count (c_fis c) \<le> hb_cap v
     \<and> c_len c = 512 * fis_count (c_fis c)"

definition hba_done :: "u64 \<Rightarrow> memory \<times> hba \<Rightarrow> memory \<times> hba" where
  "hba_done hhdm = (\<lambda>(m, v).
     let c = fetch hhdm m (hb_clb v); op = c_fis c ! 2; lba = fis_lba (c_fis c); n = fis_count (c_fis c);
         good = v\<lparr>hb_ci := False\<rparr>; bad = v\<lparr>hb_err := True\<rparr>; out = (c_opts c AND 0x40 \<noteq> 0)
     in if \<not> well_formed c then (m, bad)
     else if op = 0x25 \<and> \<not> out \<and> sectors_ok v c then (st m (c_data c) (concat (map (hb_medium v) [lba..<lba + n])), good)
     else if op = 0x35 \<and> out \<and> sectors_ok v c then
       (m, good\<lparr>hb_medium := (\<lambda>k. if lba \<le> k \<and> k < lba + n then ld m (c_data c + of_nat (512 * (k - lba))) 512
                                 else hb_medium v k)\<rparr>)
     else if op = 0xEC \<and> \<not> out \<and> c_prdtl c = 1 \<and> c_len c = 512 then (st m (c_data c) (hb_id v), good)
     else if op = 0xEA then (m, good)
     else (m, bad))"

definition hba_tick :: "u64 \<Rightarrow> memory \<times> hba \<Rightarrow> memory \<times> hba" where
  "hba_tick hhdm = (\<lambda>(m, v).
     if hb_ci v \<and> \<not> hb_err v then (if hb_wait v = 0 then hba_done hhdm (m, v) else (m, v\<lparr>hb_wait := hb_wait v - 1\<rparr>))
     else (m, v))"

definition hba_ci :: "hba \<Rightarrow> u32" where "hba_ci v = (if hb_ci v then 1 else 0)"
definition hba_tfd :: "hba \<Rightarrow> u32" where "hba_tfd v = (if hb_err v then 0x41 else if hb_ci v then 0xD0 else 0x50)"

definition reg_at :: "u64 \<Rightarrow> int \<Rightarrow> u32 \<Rightarrow> u64" where "reg_at abar p off = abar + ucast (port_off p off)"

text \<open>The registers at \<open>abar\<close> are those of a controller with port \<open>p\<close>.\<close>

definition follows_ahci :: "'h mmio \<Rightarrow> ('h \<Rightarrow> hba) \<Rightarrow> u64 \<Rightarrow> u64 \<Rightarrow> int \<Rightarrow> bool" where
  "follows_ahci io view hhdm abar p \<longleftrightarrow>
     (\<forall>m h. \<exists>h'. mm_read io (reg_at abar p P_CI) (m, h) = (hba_ci (view h'), fst (hba_tick hhdm (m, view h)), h')
        \<and> view h' = snd (hba_tick hhdm (m, view h)))
     \<and> (\<forall>m h. \<exists>h'. mm_read io (reg_at abar p P_TFD) (m, h) = (hba_tfd (view h'), fst (hba_tick hhdm (m, view h)), h')
        \<and> view h' = snd (hba_tick hhdm (m, view h)))
     \<and> (\<forall>m h. \<exists>h' lat. mm_write io (reg_at abar p P_CI) 1 (m, h) = (m, h') \<and> lat < XFER_WAIT_TIMEOUT
        \<and> view h' = (view h)\<lparr>hb_ci := True, hb_wait := lat\<rparr>)"

section \<open>Waiting for a command\<close>

lemma run_mmio_read: "mm_read io (dr_base s + ucast off) (dr_mem s, dr_hw s) = (v, m, h) \<Longrightarrow>
    run_state (mmio_read io off) s = (v, s\<lparr>dr_mem := m, dr_hw := h\<rparr>)"
  by (simp add: mmio_read_def rd_at_def)

lemma read_ci:
  assumes "follows_ahci io view hhdm (dr_base s) p"
  shows "\<exists>h'. run_state (port_read io p P_CI) s
      = (hba_ci (view h'), s\<lparr>dr_mem := fst (hba_tick hhdm (dr_mem s, view (dr_hw s))), dr_hw := h'\<rparr>)
    \<and> view h' = snd (hba_tick hhdm (dr_mem s, view (dr_hw s)))"
proof -
  obtain h' where h: "mm_read io (reg_at (dr_base s) p P_CI) (dr_mem s, dr_hw s)
      = (hba_ci (view h'), fst (hba_tick hhdm (dr_mem s, view (dr_hw s))), h')"
      "view h' = snd (hba_tick hhdm (dr_mem s, view (dr_hw s)))"
    using assms unfolding follows_ahci_def by blast
  from run_mmio_read [OF h(1) [unfolded reg_at_def]] h(2) show ?thesis by (intro exI [of _ h']) (simp add: port_read_def)
qed

lemma read_tfd:
  assumes "follows_ahci io view hhdm (dr_base s) p"
  shows "\<exists>h'. run_state (port_read io p P_TFD) s
      = (hba_tfd (view h'), s\<lparr>dr_mem := fst (hba_tick hhdm (dr_mem s, view (dr_hw s))), dr_hw := h'\<rparr>)
    \<and> view h' = snd (hba_tick hhdm (dr_mem s, view (dr_hw s)))"
proof -
  obtain h' where h: "mm_read io (reg_at (dr_base s) p P_TFD) (dr_mem s, dr_hw s)
      = (hba_tfd (view h'), fst (hba_tick hhdm (dr_mem s, view (dr_hw s))), h')"
      "view h' = snd (hba_tick hhdm (dr_mem s, view (dr_hw s)))"
    using assms unfolding follows_ahci_def by blast
  from run_mmio_read [OF h(1) [unfolded reg_at_def]] h(2) show ?thesis by (intro exI [of _ h']) (simp add: port_read_def)
qed

lemma done_ends: "hb_ci v \<Longrightarrow> \<not> hb_err v \<Longrightarrow> hb_ci (snd (hba_done hhdm (m, v))) = hb_err (snd (hba_done hhdm (m, v)))"
  by (simp add: hba_done_def Let_def)

lemma tick_still: "\<not> hb_ci v \<or> hb_err v \<Longrightarrow> hba_tick hhdm (m, v) = (m, v)" by (auto simp: hba_tick_def)

lemma regs_read: "hba_tfd v AND TFD_ERR \<noteq> 0 \<longleftrightarrow> hb_err v" "hba_ci v AND 1 = 0 \<longleftrightarrow> \<not> hb_ci v"
  by (simp_all add: hba_tfd_def hba_ci_def TFD_ERR_def)

text \<open>The wait ends with the command, and tells how it went.\<close>

lemma await_done_idle:
  assumes "follows_ahci io view hhdm (dr_base s) p" "\<not> hb_ci (view (dr_hw s))" "\<not> hb_err (view (dr_hw s))"
  shows "\<exists>h'. run_state (await_done io p (Suc n)) s = (True, s\<lparr>dr_hw := h'\<rparr>) \<and> view h' = view (dr_hw s)"
proof -
  let ?v = "view (dr_hw s)"
  have t: "hba_tick hhdm (dr_mem s, ?v) = (dr_mem s, ?v)" using assms by (simp add: tick_still)
  obtain h1 where h1: "run_state (port_read io p P_CI) s = (hba_ci ?v, s\<lparr>dr_hw := h1\<rparr>)" "view h1 = ?v"
    using read_ci [OF assms(1)] t by fastforce
  obtain h2 where h2: "run_state (port_read io p P_TFD) (s\<lparr>dr_hw := h1\<rparr>) = (hba_tfd ?v, s\<lparr>dr_hw := h2\<rparr>)" "view h2 = ?v"
    using read_tfd [of io view hhdm "s\<lparr>dr_hw := h1\<rparr>" p] assms(1) t h1(2) by fastforce
  show ?thesis using h1 h2 assms(2,3) by (intro exI [of _ h2]) (simp add: regs_read)
qed

lemma await_done_ends:
  assumes "follows_ahci io view hhdm (dr_base s) p" "hb_ci (view (dr_hw s))" "\<not> hb_err (view (dr_hw s))"
    and "hb_wait (view (dr_hw s)) < n"
  defines "mv \<equiv> hba_done hhdm (dr_mem s, (view (dr_hw s))\<lparr>hb_wait := 0\<rparr>)"
  shows "\<exists>h'. run_state (await_done io p n) s = (\<not> hb_err (snd mv), s\<lparr>dr_mem := fst mv, dr_hw := h'\<rparr>) \<and> view h' = snd mv"
  using assms(1-4) unfolding mv_def
proof (induction n arbitrary: s)
  case (Suc n)
  let ?v = "view (dr_hw s)"
  let ?mv = "hba_done hhdm (dr_mem s, ?v\<lparr>hb_wait := 0\<rparr>)"
  have ends: "hb_ci (snd ?mv) = hb_err (snd ?mv)" using done_ends [of "?v\<lparr>hb_wait := 0\<rparr>"] Suc.prems by simp
  have still: "hba_tick hhdm (fst ?mv, snd ?mv) = ?mv" using tick_still [of "snd ?mv" hhdm "fst ?mv"] ends by auto
  obtain h1 where h1: "run_state (port_read io p P_CI) s
      = (hba_ci (view h1), s\<lparr>dr_mem := fst (hba_tick hhdm (dr_mem s, ?v)), dr_hw := h1\<rparr>)"
      "view h1 = snd (hba_tick hhdm (dr_mem s, ?v))"
    using read_ci [OF Suc.prems(1)] by blast
  let ?s1 = "s\<lparr>dr_mem := fst (hba_tick hhdm (dr_mem s, ?v)), dr_hw := h1\<rparr>"
  obtain h2 where h2: "run_state (port_read io p P_TFD) ?s1
      = (hba_tfd (view h2), ?s1\<lparr>dr_mem := fst (hba_tick hhdm (dr_mem ?s1, view h1)), dr_hw := h2\<rparr>)"
      "view h2 = snd (hba_tick hhdm (dr_mem ?s1, view h1))"
    using read_tfd [of io view hhdm ?s1 p] Suc.prems(1) by auto
  show ?case
  proof (cases "hb_wait ?v")
    case 0
    then have e: "?v\<lparr>hb_wait := 0\<rparr> = ?v" by simp
    have t1: "hba_tick hhdm (dr_mem s, ?v) = ?mv" using 0 Suc.prems by (simp add: hba_tick_def e)
    show ?thesis using h1 h2 t1 still ends by (intro exI [of _ h2]) (simp add: regs_read)
  next
    case w: (Suc w)
    then have t1: "hba_tick hhdm (dr_mem s, ?v) = (dr_mem s, ?v\<lparr>hb_wait := w\<rparr>)" using Suc.prems by (simp add: hba_tick_def)
    have ci: "hba_ci (view h1) AND 1 \<noteq> 0" using Suc.prems(2) by (simp add: regs_read h1(2) t1)
    show ?thesis
    proof (cases w)
      case 0
      have t2: "hba_tick hhdm (dr_mem s, view h1) = ?mv" using 0 t1 h1(2) Suc.prems by (simp add: hba_tick_def)
      let ?s2 = "s\<lparr>dr_mem := fst ?mv, dr_hw := h2\<rparr>"
      have v2: "view h2 = snd ?mv" using h2(2) t1 t2 by simp
      show ?thesis
      proof (cases "hb_err (snd ?mv)")
        case True
        then show ?thesis using h1 h2 t1 t2 by (intro exI [of _ h2]) (simp add: regs_read)
      next
        case False
        obtain k where k: "n = Suc k" using Suc.prems(4) w 0 by (cases n) auto
        obtain h3 where h3: "run_state (await_done io p n) ?s2 = (True, ?s2\<lparr>dr_hw := h3\<rparr>)" "view h3 = snd ?mv"
          using await_done_idle [of io view hhdm ?s2 p k] Suc.prems(1) v2 False ends k by auto
        show ?thesis using h1 h2 h3 t1 t2 ci False by (intro exI [of _ h3]) (simp add: regs_read)
      qed
    next
      case w2: (Suc w')
      let ?s2 = "s\<lparr>dr_hw := h2\<rparr>"
      have r1: "run_state (port_read io p P_CI) s = (hba_ci (view h1), s\<lparr>dr_hw := h1\<rparr>)" and v1: "view h1 = ?v\<lparr>hb_wait := w\<rparr>"
        using h1 t1 by simp_all
      have t2: "hba_tick hhdm (dr_mem s, ?v\<lparr>hb_wait := w\<rparr>) = (dr_mem s, ?v\<lparr>hb_wait := w'\<rparr>)"
        using w2 Suc.prems by (simp add: hba_tick_def)
      have r2: "run_state (port_read io p P_TFD) (s\<lparr>dr_hw := h1\<rparr>) = (hba_tfd (view h2), ?s2)"
          and v2: "view h2 = ?v\<lparr>hb_wait := w'\<rparr>"
        using h2 by (simp_all add: t1 v1 t2)
      obtain h3 where h3: "run_state (await_done io p n) ?s2 = (\<not> hb_err (snd ?mv), s\<lparr>dr_mem := fst ?mv, dr_hw := h3\<rparr>)"
          "view h3 = snd ?mv"
        using Suc.IH [of ?s2] Suc.prems v2 w w2 by auto
      have "\<not> hb_err (view h2)" using v2 Suc.prems(3) by simp
      then show ?thesis using r1 r2 h3 ci by (intro exI [of _ h3]) (simp add: regs_read)
    qed
  qed
qed simp

section \<open>A command\<close>

definition issue :: "u8 list \<Rightarrow> u64 \<Rightarrow> u32 \<Rightarrow> bool \<Rightarrow> 'h ahci \<Rightarrow> memory" where
  "issue fis bufp n wr s = cmd_table fis (ah_cmd_tbl s) bufp n
     (cmd_header wr (n > 0) (ah_cmd_list s) (dma_map (dr_dma s) (ah_cmd_tbl s)) (dr_mem s))"

text \<open>The structures of the driver are three pages of their own, seen by the controller where the driver
  says.\<close>

definition set_up :: "'h mmio \<Rightarrow> ('h \<Rightarrow> hba) \<Rightarrow> 'h ahci \<Rightarrow> bool" where
  "set_up io view s \<longleftrightarrow> follows_ahci io view (dr_hhdm s) (dr_base s) (ah_port s) \<and> ahci_is_present s
     \<and> aligned (ah_cmd_list s) \<and> aligned (ah_cmd_tbl s) \<and> aligned (ah_buf s) \<and> distinct [ah_cmd_list s, ah_cmd_tbl s, ah_buf s]
     \<and> (\<forall>a\<in>{ah_cmd_list s, ah_cmd_tbl s, ah_buf s}. dma_map (dr_dma s) a + dr_hhdm s = a)
     \<and> hb_clb (view (dr_hw s)) = dma_map (dr_dma s) (ah_cmd_list s) \<and> (\<forall>k. length (hb_medium (view (dr_hw s)) k) = 512)"

definition at_rest :: "('h \<Rightarrow> hba) \<Rightarrow> 'h ahci \<Rightarrow> bool" where
  "at_rest view s \<longleftrightarrow> \<not> hb_ci (view (dr_hw s)) \<and> \<not> hb_err (view (dr_hw s))"

lemma rd16_ld: "rd16 (ld m a 2) 0 = rd16 (page m a) 0" "rd16 (ld m (a + 2) 2) 0 = rd16 (page m a) 2"
  using ld_page [of 2 2 m a] rd16_subbuf [of 0 "page m a"] rd16_subbuf [of 2 "page m a"] by (simp_all add: ld_page_0)

lemma addr_at_fields: "addr_at m (a + 8) = ucast (rd32 (page m a) 8) OR push_bit 32 (ucast (rd32 (page m a) 12))"
  "addr_at m (a + 0x80) = ucast (rd32 (page m a) 0x80) OR push_bit 32 (ucast (rd32 (page m a) 0x84))"
  "ld32 m (a + 0x8C) = rd32 (page m a) 0x8C"
  using addr_at_page [of 8 m a] addr_at_page [of "0x80" m a] ld32_page [of "0x8C" m a] by simp_all

text \<open>The controller fetches what the driver issued.\<close>

lemma fetch_issued:
  fixes view :: "'h \<Rightarrow> hba" and bufp :: u64 and n :: u32 and wr :: bool
  assumes "set_up io view s" "length fis = 20"
  defines "c \<equiv> fetch (dr_hhdm s) (issue fis bufp n wr s) (hb_clb (view (dr_hw s)))"
  shows "c_opts c = 5 OR (if wr then 0x40 else 0)" "c_prdtl c = (if n > 0 then 1 else 0)" "c_fis c = fis"
    "n \<noteq> 0 \<Longrightarrow> c_data c = bufp + dr_hhdm s" "n \<noteq> 0 \<Longrightarrow> c_len c = unat ((n - 1) AND 0x3FFFFF) + 1"
proof -
  let ?cl = "ah_cmd_list s" and ?ct = "ah_cmd_tbl s" and ?m = "issue fis bufp n wr s"
  have st: "aligned ?cl" "aligned ?ct" "?cl \<noteq> ?ct" "hb_clb (view (dr_hw s)) + dr_hhdm s = ?cl"
      "dma_map (dr_dma s) ?ct + dr_hhdm s = ?ct"
    using assms(1) by (auto simp: set_up_def)
  have cl: "page ?m ?cl = page (cmd_header wr (n > 0) ?cl (dma_map (dr_dma s) ?ct) (dr_mem s)) ?cl"
    unfolding issue_def using st assms(2) by (intro table_other)
  have a: "addr_at ?m (?cl + 8) = dma_map (dr_dma s) ?ct" by (simp add: addr_at_fields cl header_fields lo_hi)
  have t: "c = \<lparr>c_opts = rd16 (page ?m ?cl) 0, c_prdtl = rd16 (page ?m ?cl) 2, c_fis = subbuf (page ?m ?ct) 0 20,
      c_data = addr_at ?m (?ct + 0x80) + dr_hhdm s, c_len = unat (ld32 ?m (?ct + 0x8C) AND 0x3FFFFF) + 1\<rparr>"
    unfolding c_def fetch_def Let_def st(4) a st(5) rd16_ld(1) [of _ ?cl] rd16_ld(2) [of _ ?cl] by (simp add: ld_page_0)
  note tf = table_fields [OF assms(2), where t = ?ct and b = bufp and n = n]
  have m: "((n - 1) AND 0x3FFFFF OR push_bit 31 1) AND 0x3FFFFF = (n - 1) AND (0x3FFFFF :: u32)"
    by (simp add: bit.conj_disj_distrib2 and.assoc)
  show "c_opts c = 5 OR (if wr then 0x40 else 0)" "c_prdtl c = (if n > 0 then 1 else 0)"
    unfolding t by (simp_all add: cl header_fields FIS_LEN_def)
  show "c_fis c = fis" unfolding t by (simp add: issue_def tf)
  show "n \<noteq> 0 \<Longrightarrow> c_data c = bufp + dr_hhdm s" unfolding t by (simp add: addr_at_fields issue_def tf lo_hi)
  show "n \<noteq> 0 \<Longrightarrow> c_len c = unat ((n - 1) AND 0x3FFFFF) + 1" unfolding t using m by (simp add: addr_at_fields issue_def tf)
qed

lemma issue_buf: "set_up io view s \<Longrightarrow> length fis = 20 \<Longrightarrow> page (issue fis bufp n wr s) (ah_buf s) = page (dr_mem s) (ah_buf s)"
  unfolding issue_def set_up_def by (auto simp: table_other header_other)

section \<open>Transfers\<close>

lemma poll_now:
  assumes "run_state (port_read io p off) s = (v, s')" "good v"
  shows "run_state (poll io p off good (Suc n)) s = (True, s')"
  using assms by simp

lemma timeouts: "CMD_WAIT_TIMEOUT = Suc 9999999" by (simp add: CMD_WAIT_TIMEOUT_def)

lemma transfer_runs:
  fixes view :: "'h \<Rightarrow> hba" and bufp :: u64 and n :: u32 and wr :: bool
  assumes "set_up io view s" "at_rest view s" "length fis = 20"
  defines "mv \<equiv> hba_done (dr_hhdm s) (issue fis bufp n wr s, (view (dr_hw s))\<lparr>hb_ci := True, hb_wait := 0\<rparr>)"
  shows "\<exists>h'. run_state (ahci_transfer io (ah_port s) fis bufp n wr) s = (\<not> hb_err (snd mv), s\<lparr>dr_mem := fst mv, dr_hw := h'\<rparr>)
    \<and> view h' = snd mv"
proof -
  let ?v = "view (dr_hw s)" and ?p = "ah_port s"
  have f: "follows_ahci io view (dr_hhdm s) (dr_base s) ?p" using assms(1) by (simp add: set_up_def)
  have v: "\<not> hb_ci ?v" "\<not> hb_err ?v" using assms(2) by (simp_all add: at_rest_def)
  have t: "hba_tick (dr_hhdm s) (dr_mem s, ?v) = (dr_mem s, ?v)" using v by (simp add: tick_still)
  obtain h1 where h1: "run_state (port_read io ?p P_TFD) s = (hba_tfd ?v, s\<lparr>dr_hw := h1\<rparr>)" "view h1 = ?v"
    using read_tfd [OF f] t by fastforce
  obtain h2 where h2: "run_state (port_read io ?p P_CI) (s\<lparr>dr_hw := h1\<rparr>) = (hba_ci ?v, s\<lparr>dr_hw := h2\<rparr>)" "view h2 = ?v"
    using read_ci [of io view "dr_hhdm s" "s\<lparr>dr_hw := h1\<rparr>" ?p] f t h1(2) by fastforce
  let ?m = "issue fis bufp n wr s"
  obtain h3 lat where h3: "mm_write io (reg_at (dr_base s) ?p P_CI) 1 (?m, h2) = (?m, h3)" "lat < XFER_WAIT_TIMEOUT"
      "view h3 = ?v\<lparr>hb_ci := True, hb_wait := lat\<rparr>"
    using f h2(2) unfolding follows_ahci_def by metis
  let ?s3 = "s\<lparr>dr_mem := ?m, dr_hw := h3\<rparr>"
  obtain h4 where h4: "run_state (await_done io ?p XFER_WAIT_TIMEOUT) ?s3 = (\<not> hb_err (snd mv), s\<lparr>dr_mem := fst mv, dr_hw := h4\<rparr>)"
      "view h4 = snd mv"
    using await_done_ends [of io view "dr_hhdm s" ?s3 ?p XFER_WAIT_TIMEOUT] f h3(2,3) v by (auto simp: mv_def)
  have "run_state (wait_not_busy io ?p) s = (True, s\<lparr>dr_hw := h1\<rparr>)"
    unfolding wait_not_busy_def timeouts using v by (intro poll_now [OF h1(1)]) (simp add: hba_tfd_def TFD_BSY_def TFD_DRQ_def)
  moreover have "run_state (poll io ?p P_CI (\<lambda>v. v AND 1 = 0) CMD_WAIT_TIMEOUT) (s\<lparr>dr_hw := h1\<rparr>) = (True, s\<lparr>dr_hw := h2\<rparr>)"
    unfolding timeouts using v by (intro poll_now [OF h2(1)]) (simp add: hba_ci_def)
  moreover have "run_state (port_write io ?p P_CI 1) (s\<lparr>dr_hw := h2, dr_mem := ?m\<rparr>) = ((), ?s3)"
    using h3(1) by (simp add: port_write_def mmio_write_def wr_at_def reg_at_def)
  ultimately show ?thesis using h4
    by (intro exI [of _ h4]) (simp add: ahci_transfer_def on_mem_def issue_def)
qed

section \<open>Sectors\<close>

lemma unat_fis_byte: "unat (ucast (drop_bit k (w :: u64) AND 0xFF) :: u8) = unat w div 2 ^ k mod 256"
proof -
  have e: "drop_bit k w AND 0xFF = take_bit 8 (drop_bit k w)" by (simp add: take_bit_eq_mask mask_eq_exp_minus_1)
  have 1: "unat (ucast x :: u8) = unat x mod 256" for x :: u64 by (simp add: unsigned_ucast_eq take_bit_eq_mod)
  have 2: "unat (take_bit 8 (drop_bit k w)) mod 256 = unat w div 2 ^ k mod 256"
    unfolding unsigned_take_bit_eq unsigned_drop_bit_eq using unsigned_less [of w, where ?'a = nat]
    by (simp add: take_bit_eq_mod drop_bit_eq_div)
  show ?thesis unfolding e 1 2 ..
qed

lemma four_bytes: "(n :: nat) < 2 ^ 32 \<Longrightarrow>
    n mod 256 + 2 ^ 8 * (n div 2 ^ 8 mod 256) + 2 ^ 16 * (n div 2 ^ 16 mod 256) + 2 ^ 24 * (n div 2 ^ 24 mod 256) = n"
proof -
  assume b: "n < 2 ^ 32"
  have d: "n div 2 ^ 16 = n div 256 div 256" "n div 2 ^ 24 = n div 256 div 256 div 256" by (simp_all add: div_mult2_eq [symmetric])
  have "n div 256 div 256 div 256 < 256" using b by (simp add: div_mult2_eq [symmetric] less_mult_imp_div_less)
  then have l: "n div 256 div 256 div 256 mod 256 = n div 256 div 256 div 256" by simp
  define a b c r0 r1 r2 where v: "a = n div 256" "b = a div 256" "c = b div 256" "r0 = n mod 256" "r1 = a mod 256" "r2 = b mod 256"
  have "n = 256 * a + r0" "a = 256 * b + r1" "b = 256 * c + r2" by (simp_all add: v)
  then have "r0 + 2 ^ 8 * r1 + 2 ^ 16 * r2 + 2 ^ 24 * c = n" by simp
  then show ?thesis unfolding d l by (simp add: v)
qed

lemma rw_fis:
  fixes lba :: u32
  shows "length (build_rw_fis cmd (ucast lba) 1) = 20" "build_rw_fis cmd (ucast lba) 1 ! 0 = 0x27"
    "build_rw_fis cmd (ucast lba) 1 ! Suc 0 AND 0x80 = 0x80" "build_rw_fis cmd (ucast lba) 1 ! 2 = cmd"
    "fis_lba (build_rw_fis cmd (ucast lba) 1) = unat lba" "fis_count (build_rw_fis cmd (ucast lba) 1) = 1"
proof -
  let ?w = "ucast lba :: u64"
  have u: "unat ?w = unat lba" by (rule unat_ucast_up) simp
  have b: "unat lba < 2 ^ 32" using unsigned_less [of lba, where ?'a = nat] by simp
  have f: "build_rw_fis cmd w 1 ! 4 = ucast (drop_bit 0 w AND 0xFF)" "build_rw_fis cmd w 1 ! 5 = ucast (drop_bit 8 w AND 0xFF)"
    "build_rw_fis cmd w 1 ! 6 = ucast (drop_bit 16 w AND 0xFF)" "build_rw_fis cmd w 1 ! 8 = ucast (drop_bit 24 w AND 0xFF)"
    "build_rw_fis cmd w 1 ! 9 = ucast (drop_bit 32 w AND 0xFF)" "build_rw_fis cmd w 1 ! 10 = ucast (drop_bit 40 w AND 0xFF)" for w
    by (simp_all add: build_rw_fis_def)
  have "unat lba div 2 ^ 32 = 0" "unat lba div 2 ^ 40 = 0" using b by simp_all
  then show "fis_lba (build_rw_fis cmd (ucast lba) 1) = unat lba"
    unfolding fis_lba_def f unat_fis_byte u using four_bytes [OF b] by simp
qed (simp_all add: build_rw_fis_def FIS_TYPE_REG_H2D_def fis_count_def)

text \<open>What a state shows of the medium.\<close>

definition ah_medium :: "('h \<Rightarrow> hba) \<Rightarrow> 'h ahci \<Rightarrow> nat \<Rightarrow> u8 list" where "ah_medium view s = hb_medium (view (dr_hw s))"
definition ah_cap :: "('h \<Rightarrow> hba) \<Rightarrow> 'h ahci \<Rightarrow> nat" where "ah_cap view s = hb_cap (view (dr_hw s))"

text \<open>A state that can serve commands; what a command leaves: another memory, another state of the hardware.\<close>

definition serving :: "'h mmio \<Rightarrow> ('h \<Rightarrow> hba) \<Rightarrow> 'h ahci \<Rightarrow> bool" where
  "serving io view s \<longleftrightarrow> set_up io view s \<and> at_rest view s"

lemma set_up_mem: "set_up io view (s\<lparr>dr_mem := m\<rparr>) = set_up io view s" by (simp add: set_up_def ahci_is_present_def)

lemma set_up_hw:
  "set_up io view s \<Longrightarrow> hb_clb (view h) = hb_clb (view (dr_hw s)) \<Longrightarrow> \<forall>k. length (hb_medium (view h) k) = 512 \<Longrightarrow>
     set_up io view (s\<lparr>dr_mem := m, dr_hw := h\<rparr>)"
  by (simp add: set_up_def ahci_is_present_def)

lemma dbc_512: "unat ((512 - 1 :: u32) AND 0x3FFFFF) + 1 = 512" by simp

lemma read_sector_ok:
  assumes "serving io view s" "unat lba < ah_cap view s"
  shows "\<exists>s'. run_state (ahci_read_sector io lba) s = ((True, ah_medium view s (unat lba)), s') \<and> serving io view s'
    \<and> ah_medium view s' = ah_medium view s \<and> ah_cap view s' = ah_cap view s"
proof -
  let ?fis = "build_rw_fis ATA_CMD_READ_DMA_EXT (ucast lba) 1" and ?b = "dma_map (dr_dma s) (ah_buf s)"
  let ?v = "view (dr_hw s)" and ?m = "issue ?fis ?b 512 False s"
  let ?bs = "hb_medium ?v (unat lba)"
  have su: "set_up io view s" "at_rest view s" using assms(1) by (simp_all add: serving_def)
  have buf: "?b + dr_hhdm s = ah_buf s" "length ?bs = 512" using su(1) by (auto simp: set_up_def)
  note c = fetch_issued [OF su(1) rw_fis(1) [of ATA_CMD_READ_DMA_EXT lba], where bufp = ?b and n = 512 and wr = False]
  have d: "hba_done (dr_hhdm s) (?m, ?v\<lparr>hb_ci := True, hb_wait := 0\<rparr>)
      = (st ?m (ah_buf s) ?bs, ?v\<lparr>hb_ci := False, hb_wait := 0\<rparr>)"
  proof -
    define C where "C = fetch (dr_hhdm s) ?m (hb_clb ?v)"
    have C: "c_opts C = 5" "c_prdtl C = 1" "c_fis C = ?fis" "c_data C = ah_buf s" "c_len C = 512"
      using c buf unfolding C_def by simp_all
    have ok: "well_formed C" "sectors_ok (?v\<lparr>hb_ci := True, hb_wait := 0\<rparr>) C" "?fis ! 2 = 0x25"
      using assms(2) by (simp_all add: well_formed_def sectors_ok_def C rw_fis ah_cap_def ATA_CMD_READ_DMA_EXT_def)
    have clb: "hb_clb (?v\<lparr>hb_ci := True, hb_wait := 0\<rparr>) = hb_clb ?v" "hb_medium (?v\<lparr>hb_ci := True, hb_wait := 0\<rparr>) = hb_medium ?v"
      by simp_all
    show ?thesis unfolding hba_done_def Let_def split clb C_def [symmetric] C(3,4) rw_fis(5,6)
      using ok by (simp add: C(1))
  qed
  obtain h' where h': "run_state (ahci_transfer io (ah_port s) ?fis ?b 512 False) s
      = (\<not> hb_err ?v, s\<lparr>dr_mem := st ?m (ah_buf s) ?bs, dr_hw := h'\<rparr>)" "view h' = ?v\<lparr>hb_ci := False, hb_wait := 0\<rparr>"
    using transfer_runs [OF su rw_fis(1) [of ATA_CMD_READ_DMA_EXT lba], where bufp = ?b and n = 512 and wr = False] unfolding d by auto
  let ?s = "s\<lparr>dr_mem := st ?m (ah_buf s) ?bs, dr_hw := h'\<rparr>"
  have p: "ahci_is_present s" "\<not> hb_err ?v" using su by (simp_all add: set_up_def at_rest_def)
  have "run_state (ahci_read_sector io lba) s = ((True, ?bs), ?s)"
    using h' p by (simp add: ahci_read_sector_def ld_st_same buf)
  moreover have "serving io view ?s" using set_up_hw [OF su(1), of h'] su h'(2) by (simp add: serving_def at_rest_def set_up_def)
  ultimately show ?thesis using h'(2) by (intro exI [of _ ?s]) (simp add: ah_medium_def ah_cap_def)
qed

lemma write_sector_ok:
  assumes "serving io view s" "unat lba < ah_cap view s" "512 \<le> length buffer"
  shows "\<exists>s'. run_state (ahci_write_sector io lba buffer) s = (True, s') \<and> serving io view s'
    \<and> ah_medium view s' = (ah_medium view s)(unat lba := take 512 buffer) \<and> ah_cap view s' = ah_cap view s"
proof -
  let ?fis = "build_rw_fis ATA_CMD_WRITE_DMA_EXT (ucast lba) 1" and ?b = "dma_map (dr_dma s) (ah_buf s)"
  let ?s0 = "s\<lparr>dr_mem := st (dr_mem s) (ah_buf s) (take 512 buffer)\<rparr>"
  let ?v = "view (dr_hw s)" and ?m = "issue ?fis ?b 512 True ?s0"
  have su: "set_up io view ?s0" "at_rest view ?s0" using assms(1) by (simp_all add: serving_def set_up_mem at_rest_def)
  have buf: "?b + dr_hhdm s = ah_buf s" using su(1) by (auto simp: set_up_def)
  note c = fetch_issued [OF su(1) rw_fis(1) [of ATA_CMD_WRITE_DMA_EXT lba], where bufp = ?b and n = 512 and wr = True, simplified]
  have ld: "ld ?m (ah_buf s) 512 = take 512 buffer"
    using issue_buf [OF su(1) rw_fis(1) [of ATA_CMD_WRITE_DMA_EXT lba], where bufp = ?b and n = 512 and wr = True] assms(3)
    by (simp add: ld_page_0 page_st_0 buf_simps)
  let ?v' = "?v\<lparr>hb_medium := (hb_medium ?v)(unat lba := take 512 buffer), hb_ci := False, hb_wait := 0\<rparr>"
  have d: "hba_done (dr_hhdm s) (?m, ?v\<lparr>hb_ci := True, hb_wait := 0\<rparr>) = (?m, ?v')"
  proof -
    define C where "C = fetch (dr_hhdm s) ?m (hb_clb ?v)"
    have C: "c_opts C = 0x45" "c_prdtl C = 1" "c_fis C = ?fis" "c_data C = ah_buf s" "c_len C = 512"
      using c buf unfolding C_def by simp_all
    have ok: "well_formed C" "sectors_ok (?v\<lparr>hb_ci := True, hb_wait := 0\<rparr>) C" "?fis ! 2 = 0x35"
      using assms(2) by (simp_all add: well_formed_def sectors_ok_def C rw_fis ah_cap_def ATA_CMD_WRITE_DMA_EXT_def)
    have m: "(\<lambda>k. if unat lba \<le> k \<and> k < unat lba + 1 then ld ?m (ah_buf s + of_nat (512 * (k - unat lba))) 512 else hb_medium ?v k)
        = (hb_medium ?v)(unat lba := take 512 buffer)"
      using ld by (auto simp: fun_eq_iff)
    have clb: "hb_clb (?v\<lparr>hb_ci := True, hb_wait := 0\<rparr>) = hb_clb ?v" "hb_medium (?v\<lparr>hb_ci := True, hb_wait := 0\<rparr>) = hb_medium ?v"
      by simp_all
    show ?thesis unfolding hba_done_def Let_def split clb C_def [symmetric] C(3,4) rw_fis(5,6) m
      using ok by (simp add: C(1))
  qed
  obtain h' where h': "run_state (ahci_transfer io (ah_port s) ?fis ?b 512 True) ?s0 = (\<not> hb_err ?v', s\<lparr>dr_mem := ?m, dr_hw := h'\<rparr>)"
      "view h' = ?v'"
    using transfer_runs [OF su rw_fis(1) [of ATA_CMD_WRITE_DMA_EXT lba], where bufp = ?b and n = 512 and wr = True] d by auto
  let ?s = "s\<lparr>dr_mem := ?m, dr_hw := h'\<rparr>"
  have p: "ahci_is_present s" "\<not> hb_err ?v" using su by (simp_all add: set_up_def at_rest_def ahci_is_present_def)
  have "run_state (ahci_write_sector io lba buffer) s = (True, ?s)"
    using h' p by (simp add: ahci_write_sector_def on_mem_def)
  moreover have "serving io view ?s" using set_up_hw [of io view s h'] assms(1,3) h'(2) p
    by (simp add: serving_def at_rest_def set_up_def)
  ultimately show ?thesis using h'(2) by (intro exI [of _ ?s]) (simp add: ah_medium_def ah_cap_def)
qed

lemma flush_ok:
  assumes "serving io view s"
  shows "\<exists>s'. run_state (ahci_flush io) s = (True, s') \<and> serving io view s'
    \<and> ah_medium view s' = ah_medium view s \<and> ah_cap view s' = ah_cap view s"
proof -
  let ?fis = "plain_fis ATA_CMD_FLUSH_CACHE_EXT" and ?v = "view (dr_hw s)"
  let ?m = "issue ?fis 0 0 True s"
  have su: "set_up io view s" "at_rest view s" using assms by (simp_all add: serving_def)
  have l: "length ?fis = 20" by (simp add: plain_fis_def)
  note c = fetch_issued [OF su(1) l, where bufp = 0 and n = 0 and wr = True]
  have d: "hba_done (dr_hhdm s) (?m, ?v\<lparr>hb_ci := True, hb_wait := 0\<rparr>) = (?m, ?v\<lparr>hb_ci := False, hb_wait := 0\<rparr>)"
  proof -
    define C where "C = fetch (dr_hhdm s) ?m (hb_clb ?v)"
    have C: "c_opts C = 0x45" "c_fis C = ?fis" using c unfolding C_def by simp_all
    have ok: "well_formed C" "?fis ! 2 = 0xEA"
      by (simp_all add: well_formed_def C plain_fis_def FIS_TYPE_REG_H2D_def ATA_CMD_FLUSH_CACHE_EXT_def)
    have clb: "hb_clb (?v\<lparr>hb_ci := True, hb_wait := 0\<rparr>) = hb_clb ?v" by simp
    show ?thesis unfolding hba_done_def Let_def split clb C_def [symmetric] C(2) using ok by simp
  qed
  obtain h' where h': "run_state (ahci_transfer io (ah_port s) ?fis 0 0 True) s = (\<not> hb_err ?v, s\<lparr>dr_mem := ?m, dr_hw := h'\<rparr>)"
      "view h' = ?v\<lparr>hb_ci := False, hb_wait := 0\<rparr>"
    using transfer_runs [OF su l, where bufp = 0 and n = 0 and wr = True] unfolding d by auto
  let ?s = "s\<lparr>dr_mem := ?m, dr_hw := h'\<rparr>"
  have p: "ahci_is_present s" "\<not> hb_err ?v" using su by (simp_all add: set_up_def at_rest_def)
  have "serving io view ?s" using set_up_hw [OF su(1), of h'] su h'(2) by (simp add: serving_def at_rest_def set_up_def)
  then show ?thesis using h' p by (intro exI [of _ ?s]) (simp add: ahci_flush_def ah_medium_def ah_cap_def)
qed

text \<open>Several sectors.\<close>

lemma reads_ok:
  assumes "serving io view s" "\<And>i. i \<in> set is \<Longrightarrow> unat lba + i < 2 ^ 32 \<and> unat lba + i < ah_cap view s"
  shows "\<exists>s'. run_state (ahci_reads io lba is) s = ((True, concat (map (\<lambda>i. ah_medium view s (unat lba + i)) is)), s')
    \<and> serving io view s' \<and> ah_medium view s' = ah_medium view s \<and> ah_cap view s' = ah_cap view s"
  using assms
proof (induction "is" arbitrary: s)
  case (Cons i "is")
  have u: "unat (lba + of_nat i) = unat lba + i" using Cons.prems(2) [of i] by (subst unat_add_no_overflow) (auto simp: unat_of_nat_eq)
  obtain s1 where 1: "run_state (ahci_read_sector io (lba + of_nat i)) s = ((True, ah_medium view s (unat lba + i)), s1)"
      "serving io view s1" "ah_medium view s1 = ah_medium view s" "ah_cap view s1 = ah_cap view s"
    using read_sector_ok [OF Cons.prems(1), of "lba + of_nat i"] Cons.prems(2) [of i] u by auto
  obtain s2 where 2: "run_state (ahci_reads io lba is) s1 = ((True, concat (map (\<lambda>i. ah_medium view s1 (unat lba + i)) is)), s2)"
      "serving io view s2" "ah_medium view s2 = ah_medium view s1" "ah_cap view s2 = ah_cap view s1"
    using Cons.IH [OF 1(2)] Cons.prems(2) 1(4) by auto
  show ?case using 1 2 by (intro exI [of _ s2]) simp
qed simp

lemma writes_ok:
  assumes "serving io view s" "\<And>i. i \<in> set is \<Longrightarrow> unat lba + i < 2 ^ 32 \<and> unat lba + i < ah_cap view s \<and> 512 * i + 512 \<le> length buffer"
  shows "\<exists>s'. run_state (ahci_writes io lba buffer is) s = (True, s') \<and> serving io view s' \<and> ah_cap view s' = ah_cap view s
    \<and> ah_medium view s' = (\<lambda>k. if k \<in> (+) (unat lba) ` set is then subbuf buffer (512 * (k - unat lba)) 512 else ah_medium view s k)"
  using assms
proof (induction "is" arbitrary: s)
  case (Cons i "is")
  have u: "unat (lba + of_nat i) = unat lba + i" using Cons.prems(2) [of i] by (subst unat_add_no_overflow) (auto simp: unat_of_nat_eq)
  obtain s1 where 1: "run_state (ahci_write_sector io (lba + of_nat i) (drop (i * 512) buffer)) s = (True, s1)" "serving io view s1"
      "ah_medium view s1 = (ah_medium view s)(unat lba + i := take 512 (drop (i * 512) buffer))" "ah_cap view s1 = ah_cap view s"
  proof -
    have "512 \<le> length (drop (i * 512) buffer)" "unat (lba + of_nat i) < ah_cap view s"
      using Cons.prems(2) [of i] u by auto
    from write_sector_ok [OF Cons.prems(1) this(2,1)] u that show thesis by auto
  qed
  obtain s2 where 2: "run_state (ahci_writes io lba buffer is) s1 = (True, s2)" "serving io view s2" "ah_cap view s2 = ah_cap view s1"
      "ah_medium view s2 = (\<lambda>k. if k \<in> (+) (unat lba) ` set is then subbuf buffer (512 * (k - unat lba)) 512 else ah_medium view s1 k)"
  proof -
    have "\<And>j. j \<in> set is \<Longrightarrow> unat lba + j < 2 ^ 32 \<and> unat lba + j < ah_cap view s1 \<and> 512 * j + 512 \<le> length buffer"
      using Cons.prems(2) 1(4) by simp
    from Cons.IH [OF 1(2) this] that show thesis by blast
  qed
  have "ah_medium view s2 = (\<lambda>k. if k \<in> (+) (unat lba) ` set (i # is) then subbuf buffer (512 * (k - unat lba)) 512 else ah_medium view s k)"
    unfolding 2(4) 1(3) by (auto simp: fun_eq_iff subbuf_def mult.commute)
  then show ?case using 1 2 by (intro exI [of _ s2]) simp
qed simp

section \<open>Errors\<close>

definition jammed :: "'h mmio \<Rightarrow> ('h \<Rightarrow> hba) \<Rightarrow> 'h ahci \<Rightarrow> bool" where
  "jammed io view s \<longleftrightarrow> set_up io view s \<and> hb_ci (view (dr_hw s)) \<and> hb_err (view (dr_hw s))"

lemma poll_jammed:
  assumes "jammed io view s"
  shows "\<exists>h'. run_state (poll io (ah_port s) P_CI (\<lambda>v. v AND 1 = 0) n) s = (False, s\<lparr>dr_hw := h'\<rparr>) \<and> view h' = view (dr_hw s)"
  using assms
proof (induction n arbitrary: s)
  case 0
  show ?case by (intro exI [of _ "dr_hw s"]) simp
next
  case (Suc n)
  let ?v = "view (dr_hw s)"
  have v: "set_up io view s" "hb_ci ?v" "hb_err ?v" using Suc.prems by (auto simp: jammed_def)
  have t: "hba_tick (dr_hhdm s) (dr_mem s, ?v) = (dr_mem s, ?v)" using v by (simp add: tick_still)
  have f: "follows_ahci io view (dr_hhdm s) (dr_base s) (ah_port s)" using v(1) by (simp add: set_up_def)
  obtain h1 where h1: "run_state (port_read io (ah_port s) P_CI) s = (hba_ci ?v, s\<lparr>dr_hw := h1\<rparr>)" "view h1 = ?v"
    using read_ci [OF f] t by fastforce
  have "jammed io view (s\<lparr>dr_hw := h1\<rparr>)" using v set_up_hw [OF v(1), of h1 "dr_mem s"] h1(2) by (simp add: jammed_def set_up_def)
  from Suc.IH [OF this] obtain h2 where "run_state (poll io (ah_port s) P_CI (\<lambda>v. v AND 1 = 0) n) (s\<lparr>dr_hw := h1\<rparr>) = (False, s\<lparr>dr_hw := h2\<rparr>)"
      "view h2 = ?v" using h1(2) by auto
  then show ?case using h1 v by (intro exI [of _ h2]) (simp add: hba_ci_def)
qed

text \<open>Nothing gets through a port in error: the slot never becomes free.\<close>

lemma transfer_jammed:
  assumes "jammed io view s"
  shows "\<exists>h'. run_state (ahci_transfer io (ah_port s) fis bufp n wr) s = (False, s\<lparr>dr_hw := h'\<rparr>) \<and> view h' = view (dr_hw s)"
proof -
  let ?v = "view (dr_hw s)"
  have v: "set_up io view s" "hb_ci ?v" "hb_err ?v" using assms by (auto simp: jammed_def)
  have t: "hba_tick (dr_hhdm s) (dr_mem s, ?v) = (dr_mem s, ?v)" using v by (simp add: tick_still)
  have f: "follows_ahci io view (dr_hhdm s) (dr_base s) (ah_port s)" using v(1) by (simp add: set_up_def)
  obtain h1 where h1: "run_state (port_read io (ah_port s) P_TFD) s = (hba_tfd ?v, s\<lparr>dr_hw := h1\<rparr>)" "view h1 = ?v"
    using read_tfd [OF f] t by fastforce
  have 1: "run_state (wait_not_busy io (ah_port s)) s = (True, s\<lparr>dr_hw := h1\<rparr>)"
    unfolding wait_not_busy_def timeouts using v by (intro poll_now [OF h1(1)]) (simp add: hba_tfd_def TFD_BSY_def TFD_DRQ_def)
  have "jammed io view (s\<lparr>dr_hw := h1\<rparr>)" using v set_up_hw [OF v(1), of h1 "dr_mem s"] h1(2) by (simp add: jammed_def set_up_def)
  from poll_jammed [OF this] obtain h2 where
      "run_state (poll io (ah_port s) P_CI (\<lambda>v. v AND 1 = 0) CMD_WAIT_TIMEOUT) (s\<lparr>dr_hw := h1\<rparr>) = (False, s\<lparr>dr_hw := h2\<rparr>)" "view h2 = ?v"
    using h1(2) by auto
  then show ?thesis using 1 by (intro exI [of _ h2]) (simp add: ahci_transfer_def)
qed

lemma jammed_hw: "jammed io view s \<Longrightarrow> view h = view (dr_hw s) \<Longrightarrow> jammed io view (s\<lparr>dr_mem := m, dr_hw := h\<rparr>)"
  using set_up_hw [of io view s h m] by (auto simp: jammed_def set_up_def)

lemma read_past_end:
  assumes "serving io view s" "ah_cap view s \<le> unat lba"
  shows "\<exists>s'. run_state (ahci_read_sector io lba) s = ((False, []), s') \<and> jammed io view s'"
proof -
  let ?fis = "build_rw_fis ATA_CMD_READ_DMA_EXT (ucast lba) 1" and ?b = "dma_map (dr_dma s) (ah_buf s)"
  let ?v = "view (dr_hw s)" and ?m = "issue ?fis ?b 512 False s"
  have su: "set_up io view s" "at_rest view s" using assms(1) by (simp_all add: serving_def)
  note c = fetch_issued [OF su(1) rw_fis(1) [of ATA_CMD_READ_DMA_EXT lba], where bufp = ?b and n = 512 and wr = False]
  let ?v' = "?v\<lparr>hb_ci := True, hb_wait := 0, hb_err := True\<rparr>"
  have d: "hba_done (dr_hhdm s) (?m, ?v\<lparr>hb_ci := True, hb_wait := 0\<rparr>) = (?m, ?v')"
  proof -
    define C where "C = fetch (dr_hhdm s) ?m (hb_clb ?v)"
    have C: "c_fis C = ?fis" using c unfolding C_def by simp
    have ok: "\<not> sectors_ok (?v\<lparr>hb_ci := True, hb_wait := 0\<rparr>) C" "?fis ! 2 = 0x25"
      using assms(2) by (simp_all add: sectors_ok_def C rw_fis ah_cap_def ATA_CMD_READ_DMA_EXT_def)
    have clb: "hb_clb (?v\<lparr>hb_ci := True, hb_wait := 0\<rparr>) = hb_clb ?v" by simp
    show ?thesis unfolding hba_done_def Let_def split clb C_def [symmetric] C using ok by simp
  qed
  obtain h' where h': "run_state (ahci_transfer io (ah_port s) ?fis ?b 512 False) s = (False, s\<lparr>dr_mem := ?m, dr_hw := h'\<rparr>)"
      "view h' = ?v'"
    using transfer_runs [OF su rw_fis(1) [of ATA_CMD_READ_DMA_EXT lba], where bufp = ?b and n = 512 and wr = False]
    unfolding d by auto
  let ?s = "s\<lparr>dr_mem := ?m, dr_hw := h'\<rparr>"
  have "ahci_is_present s" using su by (simp add: set_up_def)
  then have "run_state (ahci_read_sector io lba) s = ((False, []), ?s)" using h' by (simp add: ahci_read_sector_def)
  moreover have "jammed io view ?s" using set_up_hw [OF su(1), of h' ?m] su(1) h'(2) by (simp add: jammed_def set_up_def)
  ultimately show ?thesis by blast
qed

text \<open>Any sequence of operations, with their results.\<close>

datatype disk_op = Read_op u32 | Write_op u32 "u8 list" | Flush_op

fun ahci_op :: "'h mmio \<Rightarrow> disk_op \<Rightarrow> ('h, bool) ah" where
  "ahci_op io (Read_op lba) = do { (ok, _) \<leftarrow> ahci_read_sector io lba; ret ok }"
| "ahci_op io (Write_op lba buffer) = ahci_write_sector io lba buffer"
| "ahci_op io Flush_op = ahci_flush io"

fun ahci_ops :: "'h mmio \<Rightarrow> disk_op list \<Rightarrow> ('h, bool list) ah" where
  "ahci_ops io [] = ret []"
| "ahci_ops io (x # xs) = do { ok \<leftarrow> ahci_op io x; oks \<leftarrow> ahci_ops io xs; ret (ok # oks) }"

lemma op_jammed:
  assumes "jammed io view s"
  shows "\<exists>s'. run_state (ahci_op io x) s = (False, s') \<and> jammed io view s'"
proof -
  have p: "ahci_is_present s" using assms by (simp add: jammed_def set_up_def)
  have "\<exists>h'. run_state (ahci_transfer io (ah_port s) fis b n wr) (s\<lparr>dr_mem := m\<rparr>) = (False, s\<lparr>dr_mem := m, dr_hw := h'\<rparr>)
      \<and> view h' = view (dr_hw s)" for fis b n wr m
    using transfer_jammed [of io view "s\<lparr>dr_mem := m\<rparr>" fis b n wr] assms by (auto simp: jammed_def set_up_mem)
  note t = this this [of _ _ _ _ "dr_mem s", simplified]
  note j = jammed_hw [OF assms]
  show ?thesis
  proof (cases x)
    case (Read_op lba)
    obtain h' where "run_state (ahci_transfer io (ah_port s) (build_rw_fis ATA_CMD_READ_DMA_EXT (ucast lba) 1)
        (dma_map (dr_dma s) (ah_buf s)) 512 False) s = (False, s\<lparr>dr_hw := h'\<rparr>)" "view h' = view (dr_hw s)" using t(2) by blast
    then show ?thesis using Read_op p j [of h' "dr_mem s"] by (intro exI [of _ "s\<lparr>dr_hw := h'\<rparr>"]) (simp add: ahci_read_sector_def)
  next
    case (Write_op lba buffer)
    let ?m = "st (dr_mem s) (ah_buf s) (take 512 buffer)"
    obtain h' where "run_state (ahci_transfer io (ah_port s) (build_rw_fis ATA_CMD_WRITE_DMA_EXT (ucast lba) 1)
        (dma_map (dr_dma s) (ah_buf s)) 512 True) (s\<lparr>dr_mem := ?m\<rparr>) = (False, s\<lparr>dr_mem := ?m, dr_hw := h'\<rparr>)"
        "view h' = view (dr_hw s)" using t(1) by blast
    then show ?thesis using Write_op p j [of h' ?m] by (intro exI [of _ "s\<lparr>dr_mem := ?m, dr_hw := h'\<rparr>"])
      (simp add: ahci_write_sector_def on_mem_def)
  next
    case Flush_op
    obtain h' where "run_state (ahci_transfer io (ah_port s) (plain_fis ATA_CMD_FLUSH_CACHE_EXT) 0 0 True) s = (False, s\<lparr>dr_hw := h'\<rparr>)"
        "view h' = view (dr_hw s)" using t(2) by blast
    then show ?thesis using Flush_op p j [of h' "dr_mem s"] by (intro exI [of _ "s\<lparr>dr_hw := h'\<rparr>"]) (simp add: ahci_flush_def)
  qed
qed

lemma ops_jammed: "jammed io view s \<Longrightarrow> fst (run_state (ahci_ops io xs) s) = replicate (length xs) False"
proof (induction xs arbitrary: s)
  case (Cons x xs)
  obtain s1 where "run_state (ahci_op io x) s = (False, s1)" "jammed io view s1" using op_jammed [OF Cons.prems] by blast
  with Cons.IH [of s1] show ?case by (simp add: split_def)
qed simp

section \<open>A controller\<close>

text \<open>The controller as a machine: the hypothesis at its simplest, with a latency of 3.\<close>

definition demo_mmio :: "u64 \<Rightarrow> u64 \<Rightarrow> int \<Rightarrow> hba mmio" where
  "demo_mmio hhdm abar p =
     \<lparr>mm_read = (\<lambda>a (m, v). let (m, v) = hba_tick hhdm (m, v) in (if a = reg_at abar p P_CI then hba_ci v else hba_tfd v, m, v)),
      mm_write = (\<lambda>a x (m, v). (m, v\<lparr>hb_ci := True, hb_wait := 3\<rparr>))\<rparr>"

lemma demo_follows_ahci: "p = 0 \<Longrightarrow> follows_ahci (demo_mmio hhdm abar p) (\<lambda>v. v) hhdm abar p"
proof -
  assume p: "p = 0"
  have "reg_at abar p P_TFD \<noteq> reg_at abar p P_CI"
    by (simp add: p reg_at_def port_off_def HBA_PORT_BASE_def HBA_PORT_SIZE_def P_TFD_def P_CI_def)
  have l: "(3 :: nat) < XFER_WAIT_TIMEOUT" by (simp add: XFER_WAIT_TIMEOUT_def)
  show ?thesis unfolding follows_ahci_def
  proof (intro conjI allI)
    fix m and h :: hba
    let ?t = "hba_tick hhdm (m, h)"
    show "\<exists>h'. mm_read (demo_mmio hhdm abar p) (reg_at abar p P_CI) (m, h) = (hba_ci h', fst ?t, h') \<and> h' = snd ?t"
      "\<exists>h'. mm_read (demo_mmio hhdm abar p) (reg_at abar p P_TFD) (m, h) = (hba_tfd h', fst ?t, h') \<and> h' = snd ?t"
      using \<open>reg_at abar p P_TFD \<noteq> reg_at abar p P_CI\<close> by (simp_all add: demo_mmio_def split_def Let_def)
    show "\<exists>h' lat. mm_write (demo_mmio hhdm abar p) (reg_at abar p P_CI) 1 (m, h) = (m, h') \<and> lat < XFER_WAIT_TIMEOUT
        \<and> h' = h\<lparr>hb_ci := True, hb_wait := lat\<rparr>"
      using l by (intro exI [of _ "h\<lparr>hb_ci := True, hb_wait := 3\<rparr>"] exI [of _ 3]) (simp add: demo_mmio_def)
  qed
qed

text \<open>The driver after its initialisation, with its structures in pages 16 to 18, over a medium.\<close>

definition ready :: "(nat \<Rightarrow> u8 list) \<Rightarrow> nat \<Rightarrow> hba ahci" where
  "ready med n = (ahci_boot (\<lambda>_. 0) \<lparr>hb_medium = med, hb_cap = n, hb_id = [], hb_clb = 0x10000, hb_ci = False, hb_wait = 0,
       hb_err = False\<rparr> (dma_boot\<lparr>dma_hhdm_offset := HHDM, dma_ready := True\<rparr>) phys_ex)
     \<lparr>dr_hhdm := HHDM, dr_base := HHDM + 0xFEBF0000, ah_port := 0, ah_ready := True, ah_cmd_list := HHDM + 0x10000,
      ah_cmd_tbl := HHDM + 0x11000, ah_buf := HHDM + 0x12000\<rparr>"

abbreviation demo_hba :: "hba mmio" where "demo_hba \<equiv> demo_mmio HHDM (HHDM + 0xFEBF0000) 0"

lemma ready_serving: "(\<And>k. length (med k) = 512) \<Longrightarrow> serving demo_hba (\<lambda>v. v) (ready med n)"
  using demo_follows_ahci [of 0 HHDM "HHDM + 0xFEBF0000"]
  by (simp add: serving_def set_up_def at_rest_def ready_def ahci_boot_def driver_boot_def driver.defs ahci_is_present_def aligned_def HHDM_def
      dma_map_def dma_boot_def)

lemma ready_fields [simp]: "ah_medium (\<lambda>v. v) (ready med n) = med" "ah_cap (\<lambda>v. v) (ready med n) = n"
  by (simp_all add: ah_medium_def ah_cap_def ready_def ahci_boot_def driver_boot_def driver.defs)

section \<open>The driver as a block device\<close>

text \<open>What the file systems see of the driver and its disk: the medium, between two operations, over all
  the sectors that a 32-bit number can name.  A sector of the medium has 512 bytes.\<close>

definition whole :: "u8 list \<Rightarrow> u8 list" where "whole bs = take 512 (bs @ replicate 512 0)"

definition ahci_on :: "(nat \<Rightarrow> u8 list) \<Rightarrow> hba ahci" where "ahci_on m = ready (\<lambda>k. whole (m k)) (2 ^ 32)"

definition ahci_blk :: "(nat \<Rightarrow> u8 list) blk" where
  "ahci_blk = \<lparr>blk_init = (\<lambda>m. (True, m)), blk_present = (\<lambda>m. ahci_is_present (ahci_on m)), blk_sectors = (\<lambda>_. -1),
     blk_read = (\<lambda>m l. case run_state (ahci_read_sector demo_hba l) (ahci_on m) of ((True, bs), _) \<Rightarrow> Some bs | _ \<Rightarrow> None),
     blk_write = (\<lambda>m l bs. if length bs < 512 then (False, m)
       else case run_state (ahci_write_sector demo_hba l bs) (ahci_on m) of (ok, s) \<Rightarrow> (ok, hb_medium (dr_hw s))),
     blk_reads = (\<lambda>m l n. case run_state (ahci_read_sectors demo_hba l n) (ahci_on m) of ((True, bs), _) \<Rightarrow> Some bs | _ \<Rightarrow> None),
     blk_writes = (\<lambda>m l n bs. if length bs < 512 * unat n then (False, m)
       else case run_state (ahci_write_sectors demo_hba l n bs) (ahci_on m) of (ok, s) \<Rightarrow> (ok, hb_medium (dr_hw s))),
     blk_flush = (\<lambda>m. case run_state (ahci_flush demo_hba) (ahci_on m) of (ok, s) \<Rightarrow> (ok, hb_medium (dr_hw s)))\<rparr>"

lemma length_whole [simp]: "length (whole bs) = 512" by (simp add: whole_def)

lemma whole_id [simp]: "length bs = 512 \<Longrightarrow> whole bs = bs" by (simp add: whole_def)

lemma ahci_on_serving: "serving demo_hba (\<lambda>v. v) (ahci_on m)"
  unfolding ahci_on_def by (rule ready_serving) simp

lemma ahci_on_fields [simp]: "ah_medium (\<lambda>v. v) (ahci_on m) = (\<lambda>k. whole (m k))" "ah_cap (\<lambda>v. v) (ahci_on m) = 2 ^ 32"
  by (simp_all add: ahci_on_def)

lemma ahci_on_medium [simp]: "hb_medium (dr_hw (ahci_on m)) = (\<lambda>k. whole (m k))"
  using ahci_on_fields(1) [of m] by (simp only: ah_medium_def)

lemma lba_in_range: "unat (l :: u32) < ah_cap (\<lambda>v. v) (ahci_on m)"
  using unsigned_less [of l, where ?'a = nat] by simp

lemma ahci_blk_read: "blk_read ahci_blk m l = Some (whole (m (unat l)))"
  using read_sector_ok [OF ahci_on_serving lba_in_range, of l m] by (auto simp: ahci_blk_def)

lemma ahci_blk_write: "blk_write ahci_blk m l bs =
    (if length bs < 512 then (False, m) else (True, (\<lambda>k. whole (m k))(unat l := take 512 bs)))"
proof (cases "length bs < 512")
  case False
  then have "512 \<le> length bs" by simp
  from write_sector_ok [OF ahci_on_serving lba_in_range this, of l m] False show ?thesis
    by (auto simp: ahci_blk_def ah_medium_def)
qed (simp add: ahci_blk_def)

lemma ahci_blk_flush: "blk_flush ahci_blk m = (True, \<lambda>k. whole (m k))"
  using flush_ok [OF ahci_on_serving [of m]] by (auto simp: ahci_blk_def ah_medium_def)

interpretation ahci_dev: block_device ahci_blk
proof
  fix d :: "nat \<Rightarrow> u8 list" and lba bs ok d' l
  show "blk_write ahci_blk d lba bs = (ok, d') \<Longrightarrow> l \<noteq> lba \<Longrightarrow> blk_read ahci_blk d' l = blk_read ahci_blk d l"
    by (auto simp: ahci_blk_read ahci_blk_write word_unat_eq_iff split: if_splits)
  have "ahci_is_present (ahci_on m)" for m using ahci_on_serving [of m] by (simp add: serving_def set_up_def)
  then have "blk_present ahci_blk m" for m by (simp add: ahci_blk_def)
  then show "blk_write ahci_blk d lba bs = (ok, d') \<Longrightarrow> blk_present ahci_blk d' = blk_present ahci_blk d"
    and "blk_flush ahci_blk d = (ok, d') \<Longrightarrow> blk_present ahci_blk d' = blk_present ahci_blk d"
    by simp_all
qed (auto simp: ahci_blk_read ahci_blk_write ahci_blk_flush split: if_splits)

interpretation ahci_rel: reliable_device ahci_blk "\<lambda>_. True" "2 ^ 32"
  by unfold_locales (auto simp: ahci_blk_read ahci_blk_write)

text \<open>The disk of the system: the dispatch over the two drivers.\<close>

interpretation real_disk: two_drivers ahci_blk ata_blk
  by unfold_locales

section \<open>Properties\<close>

text \<open>C35. On a controller that follows AHCI, whatever its latency, the sectors written are those of the medium
  that the caller named, and no others; they are what the driver reads back.\<close>

theorem ahci_write_then_read:
  assumes "serving io view s" "count \<noteq> 0" "length buffer = 512 * unat count"
    and "unat lba + unat count \<le> 2 ^ 32" "unat lba + unat count \<le> ah_cap view s"
  shows "\<exists>s1 s2. run_state (ahci_write_sectors io lba count buffer) s = (True, s1)
     \<and> ah_medium view s1 = (\<lambda>k. if unat lba \<le> k \<and> k < unat lba + unat count then subbuf buffer (512 * (k - unat lba)) 512
                               else ah_medium view s k)
     \<and> run_state (ahci_read_sectors io lba count) s1 = ((True, buffer), s2) \<and> ah_medium view s2 = ah_medium view s1"
proof -
  have b: "unat lba + i < 2 ^ 32 \<and> unat lba + i < ah_cap view s \<and> 512 * i + 512 \<le> length buffer" if "i \<in> set [0..<unat count]" for i
    using that assms(3-5) by auto
  obtain s1 where 1: "run_state (ahci_writes io lba buffer [0..<unat count]) s = (True, s1)" "serving io view s1"
      "ah_cap view s1 = ah_cap view s"
      "ah_medium view s1 = (\<lambda>k. if k \<in> (+) (unat lba) ` set [0..<unat count] then subbuf buffer (512 * (k - unat lba)) 512
                               else ah_medium view s k)"
    using writes_ok [OF assms(1) b] by blast
  have "k \<in> (+) (unat lba) ` set [0..<unat count] \<longleftrightarrow> unat lba \<le> k \<and> k < unat lba + unat count" for k
  proof
    assume "unat lba \<le> k \<and> k < unat lba + unat count"
    then show "k \<in> (+) (unat lba) ` set [0..<unat count]" by (intro image_eqI [of _ _ "k - unat lba"]) auto
  qed auto
  then have med: "ah_medium view s1 = (\<lambda>k. if unat lba \<le> k \<and> k < unat lba + unat count then subbuf buffer (512 * (k - unat lba)) 512
      else ah_medium view s k)" unfolding 1(4) by simp
  obtain s2 where 2: "run_state (ahci_reads io lba [0..<unat count]) s1
      = ((True, concat (map (\<lambda>i. ah_medium view s1 (unat lba + i)) [0..<unat count])), s2)" "ah_medium view s2 = ah_medium view s1"
    using reads_ok [OF 1(2), of "[0..<unat count]" lba] b 1(3) by auto
  have cut: "map (\<lambda>i. ah_medium view s1 (unat lba + i)) [0..<unat count] = map (\<lambda>i. subbuf buffer (512 * i) 512) [0..<unat count]"
    unfolding med by simp
  have join: "concat (map (\<lambda>i. subbuf buffer (512 * i) 512) [0..<n]) = take (512 * n) buffer" if "512 * n \<le> length buffer" for n
    using that
  proof (induction n)
    case (Suc n)
    have "512 * Suc n = 512 * n + 512" by simp
    then show ?case using Suc by (simp only: take_add) (simp add: subbuf_def)
  qed simp
  have cat: "concat (map (\<lambda>i. ah_medium view s1 (unat lba + i)) [0..<unat count]) = buffer"
    unfolding cut using join [of "unat count"] assms(3) by simp
  have p: "ahci_is_present s" "ahci_is_present s1" using assms(1) 1(2) by (simp_all add: serving_def set_up_def)
  show ?thesis
    using 1(1) 2 cat med p assms(2) by (intro exI [of _ s1] exI [of _ s2])
      (simp add: ahci_write_sectors_def ahci_read_sectors_def)
qed

theorem ahci_write_then_read_witness:
  "\<exists>s1 s2. run_state (ahci_write_sectors demo_hba 63 2 (replicate 1024 7)) (ready (\<lambda>_. replicate 512 0) 100) = (True, s1)
     \<and> run_state (ahci_read_sectors demo_hba 63 2) s1 = ((True, replicate 1024 7), s2)"
  using ahci_write_then_read [OF ready_serving, of "\<lambda>_. replicate 512 0" 2 "replicate 1024 7" 63 100] by auto

text \<open>C36. The driver never restarts a port after an error: once a sector behind the end of the disk has been asked
  for, every later read, write and flush fails, whatever it is.\<close>

theorem ahci_error_sticks:
  assumes "serving io view s" "ah_cap view s \<le> unat lba"
  shows "fst (run_state (ahci_read_sector io lba) s) = (False, [])
    \<and> fst (run_state (ahci_ops io xs) (snd (run_state (ahci_read_sector io lba) s))) = replicate (length xs) False"
  using read_past_end [OF assms] ops_jammed by fastforce


theorem ahci_error_sticks_witness:
  "fst (run_state (ahci_ops demo_hba [Read_op 0, Write_op 5 [], Flush_op])
     (snd (run_state (ahci_read_sector demo_hba 100) (ready (\<lambda>_. replicate 512 0) 100)))) = [False, False, False]"
  using ahci_error_sticks [OF ready_serving, of "\<lambda>_. replicate 512 0" 100 100 "[Read_op 0, Write_op 5 [], Flush_op]"]
  by (simp add: numeral_3_eq_3)

end
