(* ===== verification/XhciHw.thy ===== *)
theory XhciHw
  imports Prelude
begin

text \<open>
  The registers, request blocks and contexts of an xHCI controller, \<open>drivers/usb/xhci_hw.hpp\<close>, with the constants of
  \<open>xhci.cpp\<close>: those that the driver uses.
\<close>

section \<open>Constants\<close>

definition CAP_CAPLENGTH :: u32 where "CAP_CAPLENGTH = 0x00"
definition CAP_HCSPARAMS1 :: u32 where "CAP_HCSPARAMS1 = 0x04"
definition CAP_HCSPARAMS2 :: u32 where "CAP_HCSPARAMS2 = 0x08"
definition CAP_HCCPARAMS1 :: u32 where "CAP_HCCPARAMS1 = 0x10"
definition CAP_DBOFF :: u32 where "CAP_DBOFF = 0x14"
definition CAP_RTSOFF :: u32 where "CAP_RTSOFF = 0x18"
definition OP_USBCMD :: u32 where "OP_USBCMD = 0x00"
definition OP_USBSTS :: u32 where "OP_USBSTS = 0x04"
definition OP_PAGESIZE :: u32 where "OP_PAGESIZE = 0x08"
definition OP_CRCR :: u32 where "OP_CRCR = 0x18"
definition OP_DCBAAP :: u32 where "OP_DCBAAP = 0x30"
definition OP_CONFIG :: u32 where "OP_CONFIG = 0x38"
definition OP_PORTS :: u32 where "OP_PORTS = 0x400"
definition CMD_RUN :: u32 where "CMD_RUN = push_bit 0 1"
definition CMD_HCRST :: u32 where "CMD_HCRST = push_bit 1 1"
definition CMD_INTE :: u32 where "CMD_INTE = push_bit 2 1"
definition CMD_HSEE :: u32 where "CMD_HSEE = push_bit 3 1"
definition STS_HCH :: u32 where "STS_HCH = push_bit 0 1"
definition STS_CNR :: u32 where "STS_CNR = push_bit 11 1"
definition CRCR_RCS :: u64 where "CRCR_RCS = push_bit 0 1"
definition PORTSC :: u32 where "PORTSC = 0x00"
definition PS_CCS :: u32 where "PS_CCS = push_bit 0 1"
definition PS_PED :: u32 where "PS_PED = push_bit 1 1"
definition PS_PR :: u32 where "PS_PR = push_bit 4 1"
definition PS_PLS_MASK :: u32 where "PS_PLS_MASK = push_bit 5 0xF"
definition PS_PP :: u32 where "PS_PP = push_bit 9 1"
definition PS_SPEED_SHIFT :: nat where "PS_SPEED_SHIFT = 10"
definition PS_LWS :: u32 where "PS_LWS = push_bit 16 1"
definition PS_PRC :: u32 where "PS_PRC = push_bit 21 1"
definition PLS_U0 :: u32 where "PLS_U0 = 0"
definition PLS_DISABLED :: u32 where "PLS_DISABLED = 4"
definition PLS_RXDETECT :: u32 where "PLS_RXDETECT = 5"
definition RT_IR0 :: u32 where "RT_IR0 = 0x20"
definition IR_IMAN :: u32 where "IR_IMAN = 0x00"
definition IR_IMOD :: u32 where "IR_IMOD = 0x04"
definition IR_ERSTSZ :: u32 where "IR_ERSTSZ = 0x08"
definition IR_ERSTBA :: u32 where "IR_ERSTBA = 0x10"
definition IR_ERDP :: u32 where "IR_ERDP = 0x18"
definition IMAN_IE :: u32 where "IMAN_IE = push_bit 1 1"
definition ERDP_EHB :: u64 where "ERDP_EHB = push_bit 3 1"
definition TRB_NORMAL :: u32 where "TRB_NORMAL = 1"
definition TRB_SETUP :: u32 where "TRB_SETUP = 2"
definition TRB_DATA :: u32 where "TRB_DATA = 3"
definition TRB_STATUS :: u32 where "TRB_STATUS = 4"
definition TRB_LINK :: u32 where "TRB_LINK = 6"
definition TRB_ENABLE_SLOT :: u32 where "TRB_ENABLE_SLOT = 9"
definition TRB_DISABLE_SLOT :: u32 where "TRB_DISABLE_SLOT = 10"
definition TRB_ADDRESS_DEV :: u32 where "TRB_ADDRESS_DEV = 11"
definition TRB_CONFIG_EP :: u32 where "TRB_CONFIG_EP = 12"
definition TRB_EVAL_CTX :: u32 where "TRB_EVAL_CTX = 13"
definition TRB_NOOP_CMD :: u32 where "TRB_NOOP_CMD = 23"
definition TRB_TRANSFER :: u32 where "TRB_TRANSFER = 32"
definition TRB_CMD_COMPLETE :: u32 where "TRB_CMD_COMPLETE = 33"
definition TRB_CYCLE :: u32 where "TRB_CYCLE = push_bit 0 1"
definition TRB_TC :: u32 where "TRB_TC = push_bit 1 1"
definition TRB_IOC :: u32 where "TRB_IOC = push_bit 5 1"
definition TRB_IDT :: u32 where "TRB_IDT = push_bit 6 1"
definition TRB_BSR :: u32 where "TRB_BSR = push_bit 9 1"
definition TRB_DIR_IN :: u32 where "TRB_DIR_IN = push_bit 16 1"
definition TRB_TRT_OUT :: u32 where "TRB_TRT_OUT = push_bit 16 2"
definition TRB_TRT_IN :: u32 where "TRB_TRT_IN = push_bit 16 3"
definition COMP_SUCCESS :: u32 where "COMP_SUCCESS = 1"
definition COMP_SHORT_PACKET :: u32 where "COMP_SHORT_PACKET = 13"
definition EP2_DCS :: u64 where "EP2_DCS = push_bit 0 1"
definition EP_TYPE_CTRL :: u32 where "EP_TYPE_CTRL = 4"
definition EP_TYPE_INT_IN :: u32 where "EP_TYPE_INT_IN = 7"
definition ICTRL_ADD_SLOT :: u32 where "ICTRL_ADD_SLOT = push_bit 0 1"
definition ICTRL_ADD_EP0 :: u32 where "ICTRL_ADD_EP0 = push_bit 1 1"
definition XECP_LEGSUP_ID :: u32 where "XECP_LEGSUP_ID = 0x01"
definition LEGSUP_BIOS_OWNED :: u32 where "LEGSUP_BIOS_OWNED = push_bit 16 1"
definition LEGSUP_OS_OWNED :: u32 where "LEGSUP_OS_OWNED = push_bit 24 1"
definition LEGSUP_LEGCTLSTS_OFF :: u32 where "LEGSUP_LEGCTLSTS_OFF = 0x04"
definition RING_TRBS :: u32 where "RING_TRBS = 256"
definition USABLE_TRBS :: u32 where "USABLE_TRBS = RING_TRBS - 1"
definition CTX_SIZE_32 :: u32 where "CTX_SIZE_32 = 32"
definition CTX_SIZE_64 :: u32 where "CTX_SIZE_64 = 64"
definition TMO_RESET_US :: nat where "TMO_RESET_US = 1000000"
definition TMO_CMD_US :: u32 where "TMO_CMD_US = 5000000"
definition TMO_XFER_US :: nat where "TMO_XFER_US = 5000000"
definition TMO_PORT_RESET :: nat where "TMO_PORT_RESET = 500000"
definition IC_CTRL :: u32 where "IC_CTRL = 0"
definition IC_SLOT :: u32 where "IC_SLOT = 1"
definition IC_EP0 :: u32 where "IC_EP0 = 2"
definition DC_SLOT :: u32 where "DC_SLOT = 0"
definition DC_EP0 :: u32 where "DC_EP0 = 1"
definition PCI_CMD_IO :: u16 where "PCI_CMD_IO = push_bit 0 1"
definition PCI_CMD_MEM :: u16 where "PCI_CMD_MEM = push_bit 1 1"
definition PCI_CMD_BUSMSTR :: u16 where "PCI_CMD_BUSMSTR = push_bit 2 1"
definition PCI_CMD_INT_DIS :: u16 where "PCI_CMD_INT_DIS = push_bit 10 1"
definition INTEL_XUSB2PR :: u8 where "INTEL_XUSB2PR = 0xD0"
definition INTEL_USB2PRM :: u8 where "INTEL_USB2PRM = 0xD4"
definition INTEL_USB3_PSSEN :: u8 where "INTEL_USB3_PSSEN = 0xD8"
definition INTEL_USB3PRM :: u8 where "INTEL_USB3PRM = 0xDC"
definition PORTSC_RO :: u32 where "PORTSC_RO = (push_bit 0 1) OR (push_bit 3 1) OR (push_bit 10 0xF) OR (push_bit 30 1)"
definition PORTSC_RWS :: u32 where "PORTSC_RWS = (push_bit 5 0xF) OR (push_bit 9 1) OR (push_bit 14 0x3) OR (push_bit 25 0x7)"
definition PS_CSC :: u32 where "PS_CSC = push_bit 17 1"
definition PS_PEC :: u32 where "PS_PEC = push_bit 18 1"
definition PS_WRC :: u32 where "PS_WRC = push_bit 19 1"
definition PS_OCC :: u32 where "PS_OCC = push_bit 20 1"
definition PS_PLC :: u32 where "PS_PLC = push_bit 22 1"
definition PS_CEC :: u32 where "PS_CEC = push_bit 23 1"
definition PORT_CHANGE_BITS :: u32 where "PORT_CHANGE_BITS = PS_CSC OR PS_PEC OR PS_WRC OR PS_OCC OR PS_PRC OR PS_PLC OR PS_CEC"

text \<open>Fields of registers, request blocks and contexts.\<close>

definition HCS1_MAX_SLOTS :: "u32 \<Rightarrow> u32" where "HCS1_MAX_SLOTS v = v AND 0xFF"
definition HCS1_MAX_INTRS :: "u32 \<Rightarrow> u32" where "HCS1_MAX_INTRS v = (drop_bit 8 v) AND 0x7FF"
definition HCS1_MAX_PORTS :: "u32 \<Rightarrow> u32" where "HCS1_MAX_PORTS v = (drop_bit 24 v) AND 0xFF"
definition HCS2_MAX_SP :: "u32 \<Rightarrow> u32" where "HCS2_MAX_SP v = (push_bit 5 ((drop_bit 21 v) AND 0x1F)) OR ((drop_bit 27 v) AND 0x1F)"
definition HCC1_CSZ :: "u32 \<Rightarrow> u32" where "HCC1_CSZ v = (drop_bit 2 v) AND 0x1"
definition TRB_TYPE :: "u32 \<Rightarrow> u32" where "TRB_TYPE t = push_bit 10 (t AND 0x3F)"
definition TRB_TYPE_GET :: "u32 \<Rightarrow> u32" where "TRB_TYPE_GET f = (drop_bit 10 f) AND 0x3F"
definition TRB_SLOT :: "u32 \<Rightarrow> u32" where "TRB_SLOT s = push_bit 24 (s AND 0xFF)"
definition TRB_SLOT_GET :: "u32 \<Rightarrow> u32" where "TRB_SLOT_GET f = (drop_bit 24 f) AND 0xFF"
definition TRB_EP_GET :: "u32 \<Rightarrow> u32" where "TRB_EP_GET f = (drop_bit 16 f) AND 0x1F"
definition TRB_LEN :: "u32 \<Rightarrow> u32" where "TRB_LEN n = n AND 0x1FFFF"
definition TRB_IRQ :: "u32 \<Rightarrow> u32" where "TRB_IRQ n = push_bit 22 (n AND 0x3FF)"
definition TRB_COMP_GET :: "u32 \<Rightarrow> u32" where "TRB_COMP_GET s = (drop_bit 24 s) AND 0xFF"
definition TRB_REM_GET :: "u32 \<Rightarrow> u32" where "TRB_REM_GET s = s AND 0xFFFFFF"
definition SLOT0_SPEED :: "u32 \<Rightarrow> u32" where "SLOT0_SPEED s = push_bit 20 (s AND 0xF)"
definition SLOT0_ENTRIES :: "u32 \<Rightarrow> u32" where "SLOT0_ENTRIES n = push_bit 27 (n AND 0x1F)"
definition SLOT1_RH_PORT :: "u32 \<Rightarrow> u32" where "SLOT1_RH_PORT p = push_bit 16 (p AND 0xFF)"
definition SLOT3_ADDR_GET :: "u32 \<Rightarrow> u32" where "SLOT3_ADDR_GET v = v AND 0xFF"
definition EP0_INTERVAL :: "u32 \<Rightarrow> u32" where "EP0_INTERVAL i = push_bit 16 (i AND 0xFF)"
definition EP1_CERR :: "u32 \<Rightarrow> u32" where "EP1_CERR c = push_bit 1 (c AND 0x3)"
definition EP1_EPTYPE :: "u32 \<Rightarrow> u32" where "EP1_EPTYPE t = push_bit 3 (t AND 0x7)"
definition EP1_MPS :: "u32 \<Rightarrow> u32" where "EP1_MPS m = push_bit 16 (m AND 0xFFFF)"
definition EP4_AVG_TRB :: "u32 \<Rightarrow> u32" where "EP4_AVG_TRB a = a AND 0xFFFF"
definition XECP_ID :: "u32 \<Rightarrow> u32" where "XECP_ID v = v AND 0xFF"
definition XECP_NEXT :: "u32 \<Rightarrow> u32" where "XECP_NEXT v = (drop_bit 8 v) AND 0xFF"
definition XECP_PTR :: "u32 \<Rightarrow> u32" where "XECP_PTR hcc = push_bit 2 ((drop_bit 16 hcc) AND 0xFFFF)"
definition IC_EPn :: "u32 \<Rightarrow> u32" where "IC_EPn dci = dci + 1"

end
