(* ===== verification/Xhci.thy ===== *)
theory Xhci
  imports Mmio XhciHw "HOL-Library.While_Combinator"
begin

text \<open>
  The xHCI driver, \<open>drivers/usb/xhci.cpp\<close> and \<open>xhci_hw.hpp\<close>: rings of transfer request blocks in memory, which the
  driver and the controller walk with a cycle bit, commands, ports, contexts, control transfers and the interrupt
  endpoint of the keyboard.  The one loop that may run for ever, the wait for a command, is exact: \<open>xh_hung\<close> records
  that it did not end.  Lines on the serial port are left out, memory barriers have no counterpart.
\<close>

section \<open>State\<close>

record trb =
  t_param :: u64
  t_status :: u32
  t_flags :: u32

text \<open>A ring with the driver's side of it: \<open>g_cmd_ring\<close> with \<open>g_cmd_ring_phys\<close>, \<open>g_cmd_enq\<close> and \<open>g_cmd_cycle\<close>, and
  likewise for the control and the interrupt endpoint and the event ring.\<close>

record ring =
  rg_trbs :: u64
  rg_phys :: u64
  rg_idx :: u32
  rg_cycle :: u32

definition ring_boot :: ring where "ring_boot = \<lparr>rg_trbs = 0, rg_phys = 0, rg_idx = 0, rg_cycle = 1\<rparr>"

record 'h xhci = "'h driver" +
  xh_op_base :: u32
  xh_rt_base :: u32
  xh_db_base :: u32
  xh_csz :: u32
  xh_ctx_stride :: u32
  xh_max_slots :: u32
  xh_max_ports :: u32
  xh_max_intrs :: u32
  xh_ready :: bool
  xh_pci_dev :: "pci_device option"
  xh_pci_vendor :: u16
  xh_pci_device :: u16
  xh_dcbaa :: u64
  xh_dcbaa_phys :: u64
  xh_cmd :: ring
  xh_event :: ring
  xh_erst :: u64
  xh_erst_phys :: u64
  xh_slot :: u32
  xh_port :: u32
  xh_speed :: u32
  xh_device_addr :: u8
  xh_ep0_mps :: u16
  xh_input_ctx :: u64
  xh_input_ctx_phys :: u64
  xh_device_ctx :: u64
  xh_device_ctx_phys :: u64
  xh_ep0 :: ring
  xh_ctrl_buf :: u64
  xh_ctrl_buf_phys :: u64
  xh_intr :: ring
  xh_intr_buf :: u64
  xh_intr_buf_phys :: u64
  xh_intr_dci :: u8
  xh_intr_mps :: u16
  xh_intr_open :: bool
  xh_hung :: bool

definition xhci_boot :: "memory \<Rightarrow> 'h \<Rightarrow> dma_state \<Rightarrow> phys_state \<Rightarrow> 'h xhci" where
  "xhci_boot m h d p = driver.extend (driver_boot m h d p) \<lparr>xh_op_base = 0, xh_rt_base = 0, xh_db_base = 0, xh_csz = 0,
     xh_ctx_stride = 32, xh_max_slots = 0, xh_max_ports = 0, xh_max_intrs = 0, xh_ready = False, xh_pci_dev = None,
     xh_pci_vendor = 0, xh_pci_device = 0, xh_dcbaa = 0, xh_dcbaa_phys = 0, xh_cmd = ring_boot, xh_event = ring_boot,
     xh_erst = 0, xh_erst_phys = 0, xh_slot = 0, xh_port = 0, xh_speed = 0, xh_device_addr = 0, xh_ep0_mps = 8,
     xh_input_ctx = 0, xh_input_ctx_phys = 0, xh_device_ctx = 0, xh_device_ctx_phys = 0, xh_ep0 = ring_boot,
     xh_ctrl_buf = 0, xh_ctrl_buf_phys = 0, xh_intr = ring_boot, xh_intr_buf = 0, xh_intr_buf_phys = 0, xh_intr_dci = 0,
     xh_intr_mps = 8, xh_intr_open = False, xh_hung = False\<rparr>"

type_synonym ('h, 'a) xh = "('h xhci, 'a) state"

section \<open>Registers\<close>

definition mmio_wr64 :: "'h usb_io \<Rightarrow> u32 \<Rightarrow> u64 \<Rightarrow> ('h, unit) xh" where
  "mmio_wr64 io off v = do {
     b \<leftarrow> asks dr_base;
     _ \<leftarrow> wr_at io (b + ucast off) (lo32 v);
     wr_at io (b + ucast off + 4) (hi32 v) }"

definition op_rd32 :: "'h usb_io \<Rightarrow> u32 \<Rightarrow> ('h, u32) xh" where
  "op_rd32 io off = do { b \<leftarrow> asks xh_op_base; mmio_read io (b + off) }"

definition op_wr32 :: "'h usb_io \<Rightarrow> u32 \<Rightarrow> u32 \<Rightarrow> ('h, unit) xh" where
  "op_wr32 io off v = do { b \<leftarrow> asks xh_op_base; mmio_write io (b + off) v }"

definition op_wr64 :: "'h usb_io \<Rightarrow> u32 \<Rightarrow> u64 \<Rightarrow> ('h, unit) xh" where
  "op_wr64 io off v = do { b \<leftarrow> asks xh_op_base; mmio_wr64 io (b + off) v }"

definition rt_wr32 :: "'h usb_io \<Rightarrow> u32 \<Rightarrow> u32 \<Rightarrow> ('h, unit) xh" where
  "rt_wr32 io off v = do { b \<leftarrow> asks xh_rt_base; mmio_write io (b + off) v }"

definition rt_wr64 :: "'h usb_io \<Rightarrow> u32 \<Rightarrow> u64 \<Rightarrow> ('h, unit) xh" where
  "rt_wr64 io off v = do { b \<leftarrow> asks xh_rt_base; mmio_wr64 io (b + off) v }"

definition port_rd32 :: "'h usb_io \<Rightarrow> u32 \<Rightarrow> ('h, u32) xh" where
  "port_rd32 io port = op_rd32 io (OP_PORTS + port * 0x10 + PORTSC)"

definition port_wr32 :: "'h usb_io \<Rightarrow> u32 \<Rightarrow> u32 \<Rightarrow> ('h, unit) xh" where
  "port_wr32 io port v = op_wr32 io (OP_PORTS + port * 0x10 + PORTSC) v"

definition doorbell :: "'h usb_io \<Rightarrow> u32 \<Rightarrow> u32 \<Rightarrow> ('h, unit) xh" where
  "doorbell io slot target = do {
     b \<leftarrow> asks xh_db_base;
     _ \<leftarrow> mmio_write io (b + slot * 4) (target AND 0xFFFF);
     _ \<leftarrow> mmio_read io (b + slot * 4);
     ret () }"

section \<open>PCI\<close>

definition pci_enable_bus_master :: "'h usb_io \<Rightarrow> pci_device \<Rightarrow> ('h, unit) xh" where
  "pci_enable_bus_master io dev = do {
     cmd_dw \<leftarrow> pci_get io dev 0x04;
     let cmd = (ucast (cmd_dw AND 0xFFFF) :: u16);
     let cmd = cmd AND NOT PCI_CMD_IO;
     let cmd = cmd OR PCI_CMD_MEM;
     let cmd = cmd OR PCI_CMD_BUSMSTR;
     let cmd = cmd AND NOT PCI_CMD_INT_DIS;
     _ \<leftarrow> pci_put io dev 0x04 ((cmd_dw AND 0xFFFF0000) OR ucast cmd);
     _ \<leftarrow> pci_get io dev 0x04;
     ret () }"

definition has_intel_ehci :: "pci_device list \<Rightarrow> bool" where
  "has_intel_ehci devices = list_ex (\<lambda>d. pd_vendor_id d = 0x8086 \<and> pd_class_code d = 0x0C \<and> pd_subclass d = 0x03
     \<and> pd_prog_if d = 0x20) devices"

definition intel_switch_ports :: "'h usb_io \<Rightarrow> pci_device list \<Rightarrow> pci_device \<Rightarrow> ('h, unit) xh" where
  "intel_switch_ports io devices dev =
     (if \<not> has_intel_ehci devices then ret ()
      else do {
        usb3prm \<leftarrow> pci_get io dev INTEL_USB3PRM;
        usb2prm \<leftarrow> pci_get io dev INTEL_USB2PRM;
        _ \<leftarrow> pci_put io dev INTEL_USB3_PSSEN usb3prm;
        _ \<leftarrow> pci_put io dev INTEL_XUSB2PR usb2prm;
        _ \<leftarrow> pci_get io dev INTEL_USB3_PSSEN;
        _ \<leftarrow> pci_get io dev INTEL_XUSB2PR;
        delay_us io 20000 })"

section \<open>Ports\<close>

definition port_state_to_neutral :: "u32 \<Rightarrow> u32" where
  "port_state_to_neutral portsc = (portsc AND PORTSC_RO) OR (portsc AND PORTSC_RWS)"

definition port_write_rmw :: "'h usb_io \<Rightarrow> u32 \<Rightarrow> u32 \<Rightarrow> ('h, unit) xh" where
  "port_write_rmw io port set_bits = do {
     cur \<leftarrow> port_rd32 io port;
     _ \<leftarrow> port_wr32 io port (port_state_to_neutral cur OR PS_PP OR set_bits);
     _ \<leftarrow> port_rd32 io port;
     ret () }"

definition port_set_link_state :: "'h usb_io \<Rightarrow> u32 \<Rightarrow> u32 \<Rightarrow> ('h, unit) xh" where
  "port_set_link_state io port pls = do {
     cur \<leftarrow> port_rd32 io port;
     let nv = port_state_to_neutral cur;
     let nv = nv AND NOT PS_PLS_MASK;
     _ \<leftarrow> port_wr32 io port (nv OR (PS_LWS OR push_bit 5 pls));
     _ \<leftarrow> port_rd32 io port;
     ret () }"

definition pls_of :: "u32 \<Rightarrow> u32" where "pls_of v = drop_bit 5 (v AND PS_PLS_MASK)"
definition speed_of :: "u32 \<Rightarrow> u32" where "speed_of v = drop_bit PS_SPEED_SHIFT v AND 0xF"

definition port_bring_up :: "'h usb_io \<Rightarrow> u32 \<Rightarrow> ('h, unit) xh" where
  "port_bring_up io port = do {
     _ \<leftarrow> port_write_rmw io port PORT_CHANGE_BITS;
     _ \<leftarrow> delay_us io 50000;
     v \<leftarrow> port_rd32 io port;
     if pls_of v = PLS_DISABLED then do { _ \<leftarrow> port_set_link_state io port PLS_RXDETECT; delay_us io 30000 } else ret () }"

text \<open>The two waits of a reset, for the reset bit to go and for the change bit to come.\<close>

primrec await_port :: "'h usb_io \<Rightarrow> u32 \<Rightarrow> (u32 \<Rightarrow> bool) \<Rightarrow> nat \<Rightarrow> ('h, unit) xh" where
  "await_port io port good 0 = ret ()"
| "await_port io port good (Suc n) = do {
     v \<leftarrow> port_rd32 io port;
     if good v then ret () else do { _ \<leftarrow> delay_us io 1; await_port io port good n } }"

definition port_reset :: "'h usb_io \<Rightarrow> u32 \<Rightarrow> ('h, bool \<times> u32) xh" where
  "port_reset io port = do {
     _ \<leftarrow> port_write_rmw io port PORT_CHANGE_BITS;
     _ \<leftarrow> delay_us io 20000;
     _ \<leftarrow> port_rd32 io port;
     _ \<leftarrow> port_write_rmw io port PS_PR;
     _ \<leftarrow> await_port io port (\<lambda>v. v AND PS_PR = 0) TMO_PORT_RESET;
     _ \<leftarrow> await_port io port (\<lambda>v. v AND PS_PRC \<noteq> 0) 200000;
     _ \<leftarrow> delay_us io 30000;
     v \<leftarrow> port_rd32 io port;
     speed \<leftarrow> (if v AND PS_PED = 0 \<and> pls_of v \<noteq> PLS_U0 \<and> pls_of v \<noteq> PLS_RXDETECT then do {
       _ \<leftarrow> port_set_link_state io port PLS_RXDETECT;
       _ \<leftarrow> delay_us io 30000;
       v \<leftarrow> port_rd32 io port;
       ret (speed_of v) } else ret (speed_of v));
     _ \<leftarrow> port_write_rmw io port PORT_CHANGE_BITS;
     _ \<leftarrow> delay_us io 50000;
     v \<leftarrow> port_rd32 io port;
     ret (\<not> (v AND PS_CCS = 0 \<or> v AND PS_PED = 0 \<or> pls_of v \<noteq> PLS_U0), speed) }"

section \<open>Rings\<close>

definition trb_at :: "memory \<Rightarrow> u64 \<Rightarrow> trb" where
  "trb_at m a = \<lparr>t_param = ld64 m a, t_status = ld32 m (a + 8), t_flags = ld32 m (a + 12)\<rparr>"

definition put_trb :: "u64 \<Rightarrow> u64 \<Rightarrow> u32 \<Rightarrow> u32 \<Rightarrow> memory \<Rightarrow> memory" where
  "put_trb a p s f m = st32 (st32 (st64 m a p) (a + 8) s) (a + 12) f"

definition slot_at :: "ring \<Rightarrow> u32 \<Rightarrow> u64" where "slot_at r i = rg_trbs r + ucast i * 16"

definition ring_init :: "u64 \<Rightarrow> u64 \<Rightarrow> memory \<Rightarrow> memory" where
  "ring_init trbs phys m =
     put_trb (trbs + ucast USABLE_TRBS * 16) phys 0 (TRB_TYPE TRB_LINK OR TRB_TC)
       (st m trbs (replicate (unat RING_TRBS * 16) 0))"

definition ring_enqueue :: "ring \<Rightarrow> u64 \<Rightarrow> u32 \<Rightarrow> u32 \<Rightarrow> memory \<Rightarrow> memory \<times> ring" where
  "ring_enqueue r param status flags m =
     (let c = (if rg_cycle r \<noteq> 0 then TRB_CYCLE else 0);
          m = put_trb (slot_at r (rg_idx r)) param status ((flags AND NOT TRB_CYCLE) OR c) m;
          r = r\<lparr>rg_idx := rg_idx r + 1\<rparr>
      in if rg_idx r \<ge> USABLE_TRBS
         then (put_trb (slot_at r USABLE_TRBS) (rg_phys r) 0 (TRB_TYPE TRB_LINK OR TRB_TC OR c) m,
               r\<lparr>rg_idx := 0, rg_cycle := rg_cycle r XOR 1\<rparr>)
         else (m, r))"

text \<open>\<open>ring_enqueue\<close> on one of the rings of the driver, named by its selector and its update.\<close>

definition enqueue :: "('h xhci \<Rightarrow> ring) \<Rightarrow> ((ring \<Rightarrow> ring) \<Rightarrow> 'h xhci \<Rightarrow> 'h xhci) \<Rightarrow> u64 \<Rightarrow> u32 \<Rightarrow> u32 \<Rightarrow> ('h, unit) xh" where
  "enqueue sel upd param status flags = modify (\<lambda>s.
     let (m, r) = ring_enqueue (sel s) param status flags (dr_mem s) in upd (\<lambda>_. r) (s\<lparr>dr_mem := m\<rparr>))"

text \<open>\<open>i\<close> counts the reads; every hundredth failed one is followed by a pause.  All callers read operational registers.\<close>

primrec wait_bits_from :: "nat \<Rightarrow> nat \<Rightarrow> 'h usb_io \<Rightarrow> u32 \<Rightarrow> u32 \<Rightarrow> u32 \<Rightarrow> ('h, bool) xh" where
  "wait_bits_from 0 i io off msk expected = ret False"
| "wait_bits_from (Suc n) i io off msk expected = do {
     v \<leftarrow> op_rd32 io off;
     if v AND msk = expected then ret True
     else do { _ \<leftarrow> (if i mod 100 = 0 then delay_us io 1 else ret ()); wait_bits_from n (i + 1) io off msk expected } }"

definition wait_bits :: "'h usb_io \<Rightarrow> u32 \<Rightarrow> u32 \<Rightarrow> u32 \<Rightarrow> nat \<Rightarrow> ('h, bool) xh" where
  "wait_bits io off msk expected tmo_us = wait_bits_from tmo_us 0 io off msk expected"

text \<open>Taking the event at the driver's position, once its cycle bit is the expected one.\<close>

definition event_at :: "memory \<Rightarrow> ring \<Rightarrow> trb option" where
  "event_at m r =
     (let t = trb_at m (slot_at r (rg_idx r)) in
      if t_flags t AND TRB_CYCLE = (if rg_cycle r \<noteq> 0 then TRB_CYCLE else 0) then Some t else None)"

definition next_event :: "ring \<Rightarrow> ring" where
  "next_event r =
     (let r = r\<lparr>rg_idx := rg_idx r + 1\<rparr> in
      if rg_idx r \<ge> RING_TRBS then r\<lparr>rg_idx := 0, rg_cycle := rg_cycle r XOR 1\<rparr> else r)"

primrec poll_event :: "'h usb_io \<Rightarrow> nat \<Rightarrow> ('h, trb option) xh" where
  "poll_event io 0 = ret None"
| "poll_event io (Suc n) = do {
     s \<leftarrow> State_Monad.get;
     case event_at (dr_mem s) (xh_event s) of
       Some t \<Rightarrow> do {
         let r = next_event (xh_event s);
         _ \<leftarrow> State_Monad.set (s\<lparr>xh_event := r\<rparr>);
         _ \<leftarrow> rt_wr64 io (RT_IR0 + IR_ERDP) ((rg_phys r + ucast (rg_idx r) * 16) OR ERDP_EHB);
         ret (Some t) }
     | None \<Rightarrow> do { _ \<leftarrow> delay_us io 1; poll_event io n } }"

section \<open>Commands\<close>

text \<open>One turn of the wait for a command.  Another event is dropped, and does not count against the time limit.\<close>

definition await_cond :: "u32 \<times> trb option \<times> 'h xhci \<Rightarrow> bool" where
  "await_cond = (\<lambda>(tmo, r, s). tmo > 0 \<and> r = None)"

definition await_turn :: "'h usb_io \<Rightarrow> u32 \<times> trb option \<times> 'h xhci \<Rightarrow> u32 \<times> trb option \<times> 'h xhci" where
  "await_turn io = (\<lambda>(tmo, r, s).
     case run_state (poll_event io 1000) s of
       (None, s) \<Rightarrow> (tmo - 1000, None, s)
     | (Some ev, s) \<Rightarrow> (tmo, if TRB_TYPE_GET (t_flags ev) = TRB_CMD_COMPLETE then Some ev else None, s))"

definition await_command :: "'h usb_io \<Rightarrow> ('h, trb option) xh" where
  "await_command io = do {
     s \<leftarrow> State_Monad.get;
     case while_option await_cond (await_turn io) (TMO_CMD_US, None, s) of
       None \<Rightarrow> do { _ \<leftarrow> State_Monad.set (s\<lparr>xh_hung := True\<rparr>); ret None }
     | Some (_, r, s) \<Rightarrow> do { _ \<leftarrow> State_Monad.set s; ret r } }"

text \<open>The result with what goes to \<open>out_status\<close> and \<open>out_flags\<close>, which every caller sets to 0.\<close>

definition do_command :: "'h usb_io \<Rightarrow> u64 \<Rightarrow> u32 \<Rightarrow> u32 \<Rightarrow> ('h, bool \<times> u32 \<times> u32) xh" where
  "do_command io param status flags = do {
     _ \<leftarrow> enqueue xh_cmd xh_cmd_update param status flags;
     _ \<leftarrow> doorbell io 0 0;
     r \<leftarrow> await_command io;
     case r of None \<Rightarrow> ret (False, 0, 0)
     | Some ev \<Rightarrow> ret (TRB_COMP_GET (t_status ev) = COMP_SUCCESS, t_status ev, t_flags ev) }"

section \<open>Contexts\<close>

definition ictx :: "'h xhci \<Rightarrow> u32 \<Rightarrow> u64" where
  "ictx s index = xh_input_ctx s + ucast (index * xh_ctx_stride s)"

definition ictx_rd32 :: "'h xhci \<Rightarrow> u32 \<Rightarrow> u32 \<Rightarrow> u32" where
  "ictx_rd32 s index dw = ld32 (dr_mem s) (xh_input_ctx s + ucast (index * xh_ctx_stride s) + ucast (dw * 4))"

definition ictx_wr32 :: "u32 \<Rightarrow> u32 \<Rightarrow> u32 \<Rightarrow> ('h, unit) xh" where
  "ictx_wr32 index dw v = modify (\<lambda>s. s\<lparr>dr_mem :=
     st32 (dr_mem s) (xh_input_ctx s + ucast (index * xh_ctx_stride s) + ucast (dw * 4)) v\<rparr>)"

definition dctx_rd32 :: "'h xhci \<Rightarrow> u32 \<Rightarrow> u32 \<Rightarrow> u32" where
  "dctx_rd32 s index dw = ld32 (dr_mem s) (xh_device_ctx s + ucast (index * xh_ctx_stride s) + ucast (dw * 4))"

section \<open>Reset and hand-over\<close>

definition xhci_halt :: "'h usb_io \<Rightarrow> ('h, bool) xh" where
  "xhci_halt io = do {
     v \<leftarrow> op_rd32 io OP_USBCMD;
     _ \<leftarrow> op_wr32 io OP_USBCMD (v AND NOT CMD_RUN);
     wait_bits io OP_USBSTS STS_HCH STS_HCH TMO_RESET_US }"

definition xhci_reset :: "'h usb_io \<Rightarrow> ('h, bool) xh" where
  "xhci_reset io = do {
     v \<leftarrow> op_rd32 io OP_USBCMD;
     _ \<leftarrow> op_wr32 io OP_USBCMD (v OR CMD_HCRST);
     vendor \<leftarrow> asks xh_pci_vendor;
     _ \<leftarrow> (if vendor = 0x8086 then delay_us io 1000 else ret ());
     and_then (wait_bits io OP_USBCMD CMD_HCRST 0 TMO_RESET_US) (wait_bits io OP_USBSTS STS_CNR 0 TMO_RESET_US) }"

primrec await_bios :: "'h usb_io \<Rightarrow> u32 \<Rightarrow> nat \<Rightarrow> ('h, unit) xh" where
  "await_bios io eecp 0 = ret ()"
| "await_bios io eecp (Suc n) = do {
     _ \<leftarrow> delay_us io 50000;
     v \<leftarrow> mmio_read io eecp;
     if v AND LEGSUP_BIOS_OWNED = 0 then ret () else await_bios io eecp n }"

text \<open>The walk over at most 64 extended capabilities.\<close>

primrec bios_handoff_from :: "'h usb_io \<Rightarrow> nat \<Rightarrow> u32 \<Rightarrow> ('h, unit) xh" where
  "bios_handoff_from io 0 eecp = ret ()"
| "bios_handoff_from io (Suc n) eecp =
     (if eecp < 0x40 then ret ()
      else do {
        v \<leftarrow> mmio_read io eecp;
        if XECP_ID v = XECP_LEGSUP_ID then do {
          _ \<leftarrow> (if v AND LEGSUP_BIOS_OWNED \<noteq> 0 then do {
            _ \<leftarrow> mmio_read io eecp;
            _ \<leftarrow> mmio_write io eecp (v OR LEGSUP_OS_OWNED);
            _ \<leftarrow> await_bios io eecp 20;
            w \<leftarrow> mmio_read io eecp;
            mmio_write io eecp (w AND NOT LEGSUP_BIOS_OWNED) } else ret ());
          mmio_write io (eecp + LEGSUP_LEGCTLSTS_OFF) 0 }
        else if XECP_NEXT v = 0 then ret ()
        else bios_handoff_from io n (eecp + push_bit 2 (XECP_NEXT v)) })"

definition bios_handoff :: "'h usb_io \<Rightarrow> u32 \<Rightarrow> ('h, unit) xh" where
  "bios_handoff io hcc = bios_handoff_from io 64 (XECP_PTR hcc)"

section \<open>The commands\<close>

definition cmd_enable_slot :: "'h usb_io \<Rightarrow> ('h, bool \<times> u32) xh" where
  "cmd_enable_slot io = do {
     (ok, st, fl) \<leftarrow> do_command io 0 0 (TRB_TYPE TRB_ENABLE_SLOT);
     if \<not> ok then do { g_slot \<leftarrow> asks xh_slot; ret (False, g_slot) }
     else ret (TRB_SLOT_GET fl \<noteq> 0, TRB_SLOT_GET fl) }"

definition cmd_disable_slot :: "'h usb_io \<Rightarrow> u32 \<Rightarrow> ('h, bool) xh" where
  "cmd_disable_slot io slot = do {
     (ok, st, fl) \<leftarrow> do_command io 0 0 (TRB_TYPE TRB_DISABLE_SLOT OR TRB_SLOT slot);
     ret ok }"

definition cmd_address_device :: "'h usb_io \<Rightarrow> bool \<Rightarrow> u32 \<Rightarrow> ('h, bool) xh" where
  "cmd_address_device io bsr slot = do {
     let f = TRB_TYPE TRB_ADDRESS_DEV OR TRB_SLOT slot;
     let f = (if bsr then f OR TRB_BSR else f);
     p \<leftarrow> asks xh_input_ctx_phys;
     (ok, st, fl) \<leftarrow> do_command io p 0 f;
     ret ok }"

definition cmd_configure_endpoint :: "'h usb_io \<Rightarrow> u32 \<Rightarrow> ('h, bool) xh" where
  "cmd_configure_endpoint io slot = do {
     p \<leftarrow> asks xh_input_ctx_phys;
     (ok, st, fl) \<leftarrow> do_command io p 0 (TRB_TYPE TRB_CONFIG_EP OR TRB_SLOT slot);
     ret ok }"

definition cmd_evaluate_context :: "'h usb_io \<Rightarrow> u32 \<Rightarrow> ('h, bool) xh" where
  "cmd_evaluate_context io slot = do {
     p \<leftarrow> asks xh_input_ctx_phys;
     (ok, st, fl) \<leftarrow> do_command io p 0 (TRB_TYPE TRB_EVAL_CTX OR TRB_SLOT slot);
     ret ok }"

definition cmd_noop :: "'h usb_io \<Rightarrow> ('h, bool) xh" where
  "cmd_noop io = do { (ok, st, fl) \<leftarrow> do_command io 0 0 (TRB_TYPE TRB_NOOP_CMD); ret ok }"

section \<open>Setting up contexts\<close>

definition speed_to_default_mps :: "u32 \<Rightarrow> u16" where
  "speed_to_default_mps speed =
     (if speed = 1 then 8 else if speed = 2 then 8 else if speed = 3 then 64 else if speed = 4 then 512
      else if speed = 5 then 512 else 8)"

definition setup_slot_ctx :: "u64 \<Rightarrow> u32 \<Rightarrow> u32 \<Rightarrow> u32 \<Rightarrow> memory \<Rightarrow> memory" where
  "setup_slot_ctx sctx speed rh_port context_entries m =
     (let m = st32 m sctx (SLOT0_SPEED speed OR SLOT0_ENTRIES context_entries);
          m = st32 m (sctx + 4) (SLOT1_RH_PORT (rh_port + 1));
          m = st32 m (sctx + 8) 0
      in st32 m (sctx + 12) 0)"

definition setup_ep0_ctx :: "u64 \<Rightarrow> u16 \<Rightarrow> u64 \<Rightarrow> memory \<Rightarrow> memory" where
  "setup_ep0_ctx ectx mps ring_phys m =
     (let m = st32 m ectx 0;
          m = st32 m (ectx + 4) (EP1_CERR 3 OR EP1_EPTYPE EP_TYPE_CTRL OR EP1_MPS (ucast mps));
          m = st64 m (ectx + 8) ((ring_phys AND NOT 0xF) OR EP2_DCS)
      in st32 m (ectx + 16) (EP4_AVG_TRB 8))"

definition setup_intr_ep_ctx :: "u64 \<Rightarrow> u16 \<Rightarrow> u8 \<Rightarrow> u32 \<Rightarrow> u64 \<Rightarrow> memory \<Rightarrow> memory" where
  "setup_intr_ep_ctx ectx mps interval ep_type ring_phys m =
     (let m = st32 m ectx (EP0_INTERVAL (ucast interval));
          m = st32 m (ectx + 4) (EP1_CERR 3 OR EP1_EPTYPE ep_type OR EP1_MPS (ucast mps));
          m = st64 m (ectx + 8) ((ring_phys AND NOT 0xF) OR EP2_DCS)
      in st32 m (ectx + 16) (EP4_AVG_TRB (ucast mps)))"

definition update_ep0_mps :: "'h usb_io \<Rightarrow> u16 \<Rightarrow> ('h, bool) xh" where
  "update_ep0_mps io mps =
     (if mps = 0 \<or> mps > 1024 then ret False
      else do {
        s \<leftarrow> State_Monad.get;
        let stride = unat (xh_ctx_stride s);
        _ \<leftarrow> on_mem (\<lambda>m. st m (xh_input_ctx s) (replicate (33 * stride) 0));
        _ \<leftarrow> on_mem (\<lambda>m. st m (ictx s IC_EP0) (ld m (xh_device_ctx s + ucast (DC_EP0 * xh_ctx_stride s)) stride));
        ep_info \<leftarrow> asks (\<lambda>s. ictx_rd32 s IC_EP0 0);
        _ \<leftarrow> ictx_wr32 IC_EP0 0 (ep_info AND NOT 0x7);
        ep_info2 \<leftarrow> asks (\<lambda>s. ictx_rd32 s IC_EP0 1);
        _ \<leftarrow> ictx_wr32 IC_EP0 1 ((ep_info2 AND 0x0000FFFF) OR EP1_MPS (ucast mps));
        _ \<leftarrow> ictx_wr32 IC_EP0 4 (EP4_AVG_TRB 8);
        _ \<leftarrow> ictx_wr32 IC_CTRL 0 0;
        _ \<leftarrow> ictx_wr32 IC_CTRL 1 ICTRL_ADD_EP0;
        ok \<leftarrow> cmd_evaluate_context io (xh_slot s);
        if \<not> ok then ret False
        else do { _ \<leftarrow> modify (\<lambda>s. s\<lparr>xh_ep0_mps := mps\<rparr>); ret True } })"

text \<open>\<open>while (temp != 1) { temp >>= 1; n++; }\<close>: \<open>temp\<close> is positive.\<close>

function halvings :: "u32 \<Rightarrow> u8 \<Rightarrow> u8" where
  "halvings temp n = (if temp = 1 \<or> temp = 0 then n else halvings (drop_bit 1 temp) (n + 1))"
  by pat_completeness auto
termination
proof (relation "measure (\<lambda>(t, n). unat t)")
  fix temp :: u32 and n :: u8
  assume "\<not> (temp = 1 \<or> temp = 0)"
  then have "unat temp \<noteq> 0" by (simp add: unat_eq_zero)
  then show "((drop_bit 1 temp, n + 1), temp, n) \<in> measure (\<lambda>(t, n). unat t)"
    by (simp add: drop_bit_eq_div unat_div)
qed simp

declare halvings.simps [simp del]

definition calc_interval :: "u32 \<Rightarrow> u8 \<Rightarrow> u8" where
  "calc_interval speed binterval =
     (let binterval = (if binterval = 0 then 1 else binterval) in
      if speed = 3 \<or> speed = 4 \<or> speed = 5 then (if binterval > 16 then 16 else binterval) - 1
      else let temp = (ucast binterval :: u32);
               temp = (if temp < 1 then 1 else temp);
               temp = (if temp > 255 then 255 else temp);
               v = halvings temp 0 + 3;
               v = (if v < 3 then 3 else v)
           in if v > 10 then 10 else v)"

section \<open>Initialisation\<close>

definition is_xhci_device :: "pci_device \<Rightarrow> bool" where
  "is_xhci_device d \<longleftrightarrow> pd_class_code d = 0x0C \<and> pd_subclass d = 0x03 \<and> pd_prog_if d = 0x30"

text \<open>What is read of the capabilities, and the base of the other registers.  The result is \<open>hcc\<close>.\<close>

definition read_capabilities :: "'h usb_io \<Rightarrow> ('h, (u32 \<times> u32) option) xh" where
  "read_capabilities io = do {
     hc_capbase \<leftarrow> mmio_read io CAP_CAPLENGTH;
     let cap_len = hc_capbase AND 0xFF;
     let hci_ver = drop_bit 16 hc_capbase AND 0xFFFF;
     hcs1 \<leftarrow> mmio_read io CAP_HCSPARAMS1;
     hcs2 \<leftarrow> mmio_read io CAP_HCSPARAMS2;
     hcc \<leftarrow> mmio_read io CAP_HCCPARAMS1;
     if hc_capbase = 0xFFFFFFFF then ret None
     else if cap_len = 0 \<or> cap_len = 0xFF then ret None
     else if hci_ver < 0x0090 \<or> hci_ver > 0x0120 then ret None
     else do {
       _ \<leftarrow> modify (\<lambda>s. s\<lparr>xh_op_base := cap_len\<rparr>);
       rts \<leftarrow> mmio_read io CAP_RTSOFF;
       _ \<leftarrow> modify (\<lambda>s. s\<lparr>xh_rt_base := rts AND NOT 0x1F\<rparr>);
       dbo \<leftarrow> mmio_read io CAP_DBOFF;
       _ \<leftarrow> modify (\<lambda>s. s\<lparr>xh_db_base := dbo AND NOT 0x3, xh_max_slots := HCS1_MAX_SLOTS hcs1, xh_max_ports := HCS1_MAX_PORTS hcs1,
              xh_max_intrs := HCS1_MAX_INTRS hcs1, xh_csz := HCC1_CSZ hcc,
              xh_ctx_stride := (if HCC1_CSZ hcc \<noteq> 0 then CTX_SIZE_64 else CTX_SIZE_32)\<rparr>);
       s \<leftarrow> State_Monad.get;
       ret (if xh_max_slots s = 0 \<or> xh_max_ports s = 0 then None else Some (hcs2, hcc)) } }"

text \<open>Allocating \<open>n\<close> bytes: null, or a buffer and its physical address.\<close>

definition alloc_buffer :: "u64 \<Rightarrow> u64 \<Rightarrow> (u64 \<Rightarrow> u64 \<Rightarrow> ('h, bool) xh) \<Rightarrow> ('h, bool) xh" where
  "alloc_buffer n al f = do {
     a \<leftarrow> dr_alloc n al;
     d \<leftarrow> asks dr_dma;
     if a = 0 then ret False else f a (dma_map d a) }"

definition set_dcbaa :: "'h usb_io \<Rightarrow> ('h, bool) xh" where
  "set_dcbaa io = do {
     n \<leftarrow> asks xh_max_slots;
     let dcbaa_size = (n + 1) * 8;
     a \<leftarrow> dr_alloc (ucast dcbaa_size) 64;
     _ \<leftarrow> modify (\<lambda>s. s\<lparr>xh_dcbaa := a\<rparr>);
     if a = 0 then ret False
     else do {
       _ \<leftarrow> on_mem (\<lambda>m. st m a (replicate (unat dcbaa_size) 0));
       d \<leftarrow> asks dr_dma;
       _ \<leftarrow> modify (\<lambda>s. s\<lparr>xh_dcbaa_phys := dma_map d a\<rparr>);
       _ \<leftarrow> op_wr64 io OP_DCBAAP (dma_map d a);
       ret True } }"

fun scratchpad_pages :: "u64 \<Rightarrow> nat list \<Rightarrow> ('h, bool) xh" where
  "scratchpad_pages sp_array [] = ret True"
| "scratchpad_pages sp_array (i # is) = alloc_buffer PAGE_SIZE PAGE_SIZE (\<lambda>buf phys. do {
     _ \<leftarrow> on_mem (\<lambda>m. st m buf (replicate 4096 0));
     _ \<leftarrow> on_mem (\<lambda>m. st64 m (sp_array + of_nat i * 8) phys);
     scratchpad_pages sp_array is })"

definition set_scratchpads :: "u32 \<Rightarrow> ('h, bool) xh" where
  "set_scratchpads hcs2 =
     (let max_sp = HCS2_MAX_SP hcs2 in
      if max_sp > 0 then alloc_buffer (ucast max_sp * 8) 64 (\<lambda>sp_array phys. do {
        _ \<leftarrow> on_mem (\<lambda>m. st m sp_array (replicate (unat max_sp * 8) 0));
        and_then (scratchpad_pages sp_array [0..<unat max_sp]) (do {
          a \<leftarrow> asks xh_dcbaa;
          _ \<leftarrow> on_mem (\<lambda>m. st64 m a phys);
          ret True }) })
      else ret True)"

text \<open>A ring for the driver to fill: its memory, and the driver's position at the start.\<close>

definition new_ring :: "((ring \<Rightarrow> ring) \<Rightarrow> 'h xhci \<Rightarrow> 'h xhci) \<Rightarrow> ('h, bool) xh" where
  "new_ring upd = do {
     a \<leftarrow> dr_alloc (ucast RING_TRBS * 16) 64;
     _ \<leftarrow> modify (upd (\<lambda>r. r\<lparr>rg_trbs := a\<rparr>));
     if a = 0 then ret False
     else do {
       d \<leftarrow> asks dr_dma;
       _ \<leftarrow> modify (upd (\<lambda>r. r\<lparr>rg_phys := dma_map d a\<rparr>));
       _ \<leftarrow> on_mem (ring_init a (dma_map d a));
       _ \<leftarrow> modify (upd (\<lambda>r. r\<lparr>rg_idx := 0, rg_cycle := 1\<rparr>));
       ret True } }"

definition set_cmd_ring :: "'h usb_io \<Rightarrow> ('h, bool) xh" where
  "set_cmd_ring io = and_then (new_ring xh_cmd_update) (do {
     r \<leftarrow> asks xh_cmd;
     _ \<leftarrow> op_wr64 io OP_CRCR ((rg_phys r AND NOT 0x3F) OR CRCR_RCS);
     ret True })"

definition set_event_ring :: "'h usb_io \<Rightarrow> ('h, bool) xh" where
  "set_event_ring io = do {
     e \<leftarrow> dr_alloc 64 64;
     _ \<leftarrow> modify (\<lambda>s. s\<lparr>xh_erst := e\<rparr>);
     if e = 0 then ret False
     else do {
       _ \<leftarrow> on_mem (\<lambda>m. st m e (replicate 64 0));
       d \<leftarrow> asks dr_dma;
       _ \<leftarrow> modify (\<lambda>s. s\<lparr>xh_erst_phys := dma_map d e\<rparr>);
       a \<leftarrow> dr_alloc (ucast RING_TRBS * 16) 64;
       _ \<leftarrow> modify (\<lambda>s. s\<lparr>xh_event := (xh_event s)\<lparr>rg_trbs := a\<rparr>\<rparr>);
       if a = 0 then ret False
       else do {
         _ \<leftarrow> on_mem (\<lambda>m. st m a (replicate (unat RING_TRBS * 16) 0));
         let phys = dma_map d a;
         _ \<leftarrow> modify (\<lambda>s. s\<lparr>xh_event := (xh_event s)\<lparr>rg_phys := phys, rg_idx := 0, rg_cycle := 1\<rparr>\<rparr>);
         _ \<leftarrow> on_mem (\<lambda>m. st32 (st32 (st64 m e phys) (e + 8) RING_TRBS) (e + 12) 0);
         _ \<leftarrow> rt_wr32 io (RT_IR0 + IR_ERSTSZ) 1;
         _ \<leftarrow> rt_wr64 io (RT_IR0 + IR_ERSTBA) (dma_map d e);
         _ \<leftarrow> rt_wr64 io (RT_IR0 + IR_ERDP) (phys OR ERDP_EHB);
         _ \<leftarrow> rt_wr32 io (RT_IR0 + IR_IMOD) 0;
         _ \<leftarrow> rt_wr32 io (RT_IR0 + IR_IMAN) IMAN_IE;
         ret True } } }"

definition run_controller :: "'h usb_io \<Rightarrow> ('h, bool) xh" where
  "run_controller io = do {
     _ \<leftarrow> op_wr32 io OP_USBCMD (CMD_RUN OR CMD_INTE OR CMD_HSEE);
     wait_bits io OP_USBSTS STS_HCH 0 TMO_RESET_US }"

text \<open>From the halt to the running controller.\<close>

definition set_up_controller :: "'h usb_io \<Rightarrow> u32 \<Rightarrow> ('h, bool) xh" where
  "set_up_controller io hcs2 =
     and_then (xhci_halt io) (and_then (xhci_reset io) (do {
       n \<leftarrow> asks xh_max_slots;
       _ \<leftarrow> op_wr32 io OP_CONFIG n;
       pagesize \<leftarrow> op_rd32 io OP_PAGESIZE;
       if pagesize AND 1 = 0 then ret False
       else and_then (set_dcbaa io) (and_then (set_scratchpads hcs2) (and_then (set_cmd_ring io)
         (and_then (set_event_ring io) (run_controller io)))) }))"

fun find_port_on :: "'h usb_io \<Rightarrow> nat list \<Rightarrow> ('h, bool) xh" where
  "find_port_on io [] = ret False"
| "find_port_on io (i # is) = do {
     v \<leftarrow> port_rd32 io (of_nat i);
     if v AND PS_CCS = 0 then find_port_on io is
     else do { _ \<leftarrow> modify (\<lambda>s. s\<lparr>xh_port := of_nat i, xh_speed := speed_of v\<rparr>); ret True } }"

definition find_device :: "'h usb_io \<Rightarrow> ('h, bool) xh" where
  "find_device io = do {
     _ \<leftarrow> delay_us io 100000;
     _ \<leftarrow> cmd_noop io;
     n \<leftarrow> asks xh_max_ports;
     _ \<leftarrow> for_m (\<lambda>i. port_bring_up io (of_nat i)) [0..<unat n];
     _ \<leftarrow> delay_us io 500000;
     _ \<leftarrow> modify (\<lambda>s. s\<lparr>xh_port := 0xFFFFFFFF\<rparr>);
     found \<leftarrow> find_port_on io [0..<unat n];
     if \<not> found then ret False
     else do {
       p \<leftarrow> asks xh_port;
       (ok, speed) \<leftarrow> port_reset io p;
       _ \<leftarrow> modify (\<lambda>s. s\<lparr>xh_speed := speed\<rparr>);
       ret ok } }"

definition set_contexts :: "('h, bool) xh" where
  "set_contexts = do {
     s \<leftarrow> State_Monad.get;
     let ic_size = 33 * xh_ctx_stride s;
     let dc_size = 32 * xh_ctx_stride s;
     ic \<leftarrow> dr_alloc (ucast ic_size) 64;
     dc \<leftarrow> dr_alloc (ucast dc_size) 64;
     _ \<leftarrow> modify (\<lambda>s. s\<lparr>xh_input_ctx := ic, xh_device_ctx := dc\<rparr>);
     if ic = 0 \<or> dc = 0 then ret False
     else do {
       _ \<leftarrow> on_mem (\<lambda>m. st m ic (replicate (unat ic_size) 0));
       _ \<leftarrow> on_mem (\<lambda>m. st m dc (replicate (unat dc_size) 0));
       _ \<leftarrow> modify (\<lambda>s. s\<lparr>xh_input_ctx_phys := dma_map (dr_dma s) ic, xh_device_ctx_phys := dma_map (dr_dma s) dc\<rparr>);
       s \<leftarrow> State_Monad.get;
       _ \<leftarrow> on_mem (\<lambda>m. st64 m (xh_dcbaa s + ucast (xh_slot s) * 8) (xh_device_ctx_phys s));
       ret True } }"

definition set_ctrl_buf :: "('h, bool) xh" where
  "set_ctrl_buf = do {
     a \<leftarrow> dr_alloc 4096 4096;
     _ \<leftarrow> modify (\<lambda>s. s\<lparr>xh_ctrl_buf := a\<rparr>);
     if a = 0 then ret False
     else do {
       _ \<leftarrow> on_mem (\<lambda>m. st m a (replicate 4096 0));
       _ \<leftarrow> modify (\<lambda>s. s\<lparr>xh_ctrl_buf_phys := dma_map (dr_dma s) a\<rparr>);
       ret True } }"

text \<open>The contexts of slot and control endpoint, as \<open>init\<close> and \<open>do_set_address\<close> fill them.\<close>

definition address_ctx :: "u16 \<Rightarrow> u64 \<Rightarrow> ('h, unit) xh" where
  "address_ctx mps deq = do {
     s \<leftarrow> State_Monad.get;
     _ \<leftarrow> on_mem (setup_slot_ctx (ictx s IC_SLOT) (xh_speed s) (xh_port s) 1);
     on_mem (setup_ep0_ctx (ictx s IC_EP0) mps deq) }"

definition add_flags :: "u32 \<Rightarrow> ('h, unit) xh" where
  "add_flags a = do { _ \<leftarrow> ictx_wr32 IC_CTRL 0 0; ictx_wr32 IC_CTRL 1 a }"

definition set_up_device :: "'h usb_io \<Rightarrow> ('h, bool) xh" where
  "set_up_device io = do {
     (ok, slot) \<leftarrow> cmd_enable_slot io;
     _ \<leftarrow> modify (\<lambda>s. s\<lparr>xh_slot := slot\<rparr>);
     n \<leftarrow> asks xh_max_slots;
     if \<not> ok then ret False
     else if slot = 0 \<or> slot > n then ret False
     else and_then set_contexts (and_then (new_ring xh_ep0_update) (and_then set_ctrl_buf (do {
       _ \<leftarrow> add_flags (ICTRL_ADD_SLOT OR ICTRL_ADD_EP0);
       s \<leftarrow> State_Monad.get;
       let mps0 = speed_to_default_mps (xh_speed s);
       _ \<leftarrow> modify (\<lambda>s. s\<lparr>xh_ep0_mps := mps0\<rparr>);
       _ \<leftarrow> address_ctx mps0 (rg_phys (xh_ep0 s));
       ok \<leftarrow> cmd_address_device io True slot;
       if \<not> ok then ret False
       else do { _ \<leftarrow> modify (\<lambda>s. s\<lparr>xh_device_addr := 0, xh_ready := True\<rparr>); ret True } }))) }"

definition xhci_init :: "'h usb_io \<Rightarrow> u64 \<Rightarrow> pci_device list \<Rightarrow> u64 \<Rightarrow> ('h, bool) xh" where
  "xhci_init io cr3 devices hhdm = do {
     _ \<leftarrow> modify (\<lambda>s. s\<lparr>dr_hhdm := hhdm, xh_ready := False, xh_pci_dev := None\<rparr>);
     _ \<leftarrow> vmm_init cr3 hhdm;
     case List.find is_xhci_device devices of None \<Rightarrow> ret False
     | Some dev \<Rightarrow> do {
         _ \<leftarrow> modify (\<lambda>s. s\<lparr>xh_pci_dev := Some dev, xh_pci_vendor := pd_vendor_id dev, xh_pci_device := pd_device_id dev\<rparr>);
         _ \<leftarrow> pci_enable_bus_master io dev;
         _ \<leftarrow> (if pd_vendor_id dev = 0x8086 then intel_switch_ports io devices dev else ret ());
         case bar0_of dev of None \<Rightarrow> ret False
         | Some mmio_phys \<Rightarrow> and_then (map_mmio mmio_phys 0x10000) (do {
             _ \<leftarrow> modify (\<lambda>s. s\<lparr>dr_base := mmio_phys + hhdm\<rparr>);
             caps \<leftarrow> read_capabilities io;
             case caps of None \<Rightarrow> ret False
             | Some (hcs2, hcc) \<Rightarrow> do {
                 _ \<leftarrow> bios_handoff io hcc;
                 and_then (set_up_controller io hcs2) (and_then (find_device io) (set_up_device io)) } }) } }"

definition xhci_is_present :: "'h xhci \<Rightarrow> bool" where "xhci_is_present s = xh_ready s"

section \<open>Control transfers\<close>

definition do_set_address :: "'h usb_io \<Rightarrow> u16 \<Rightarrow> ('h, bool) xh" where
  "do_set_address io mps = do {
     s \<leftarrow> State_Monad.get;
     _ \<leftarrow> on_mem (\<lambda>m. st m (xh_input_ctx s) (replicate (33 * unat (xh_ctx_stride s)) 0));
     let ep0_deq = rg_phys (xh_ep0 s) + ucast (rg_idx (xh_ep0 s)) * 16;
     let ep0_deq = (ep0_deq AND NOT 0xF) OR (if rg_cycle (xh_ep0 s) \<noteq> 0 then EP2_DCS else 0);
     _ \<leftarrow> address_ctx mps ep0_deq;
     _ \<leftarrow> add_flags (ICTRL_ADD_SLOT OR ICTRL_ADD_EP0);
     ok \<leftarrow> cmd_address_device io False (xh_slot s);
     if \<not> ok then ret False
     else do {
       _ \<leftarrow> modify (\<lambda>s. s\<lparr>xh_device_addr := ucast (SLOT3_ADDR_GET (dctx_rd32 s DC_SLOT 3)), xh_ep0_mps := mps\<rparr>);
       _ \<leftarrow> delay_us io 10000;
       ret True } }"

text \<open>The blocks of a control transfer: setup, data when there is a length, status.\<close>

definition setup_value :: "u8 list \<Rightarrow> u64" where
  "setup_value setup = fold (\<lambda>i v. v OR push_bit (i * 8) (ucast (setup ! i))) [0..<8] 0"

definition queue_control :: "u8 list \<Rightarrow> bool \<Rightarrow> u16 \<Rightarrow> ('h, unit) xh" where
  "queue_control setup dir_in len = do {
     let trt = (if len = 0 then 0 else if dir_in then TRB_TRT_IN else TRB_TRT_OUT);
     _ \<leftarrow> enqueue xh_ep0 xh_ep0_update (setup_value setup) (TRB_LEN 8 OR TRB_IRQ 0) (TRB_TYPE TRB_SETUP OR TRB_IDT OR trt);
     buf \<leftarrow> asks xh_ctrl_buf_phys;
     _ \<leftarrow> (if len > 0 then
         enqueue xh_ep0 xh_ep0_update buf (TRB_LEN (ucast len) OR TRB_IRQ 0) (TRB_TYPE TRB_DATA OR (if dir_in then TRB_DIR_IN else 0))
       else ret ());
     enqueue xh_ep0 xh_ep0_update 0 (TRB_IRQ 0)
       (TRB_TYPE TRB_STATUS OR TRB_IOC OR (if len = 0 \<or> \<not> dir_in then TRB_DIR_IN else 0)) }"

primrec await_transfer :: "'h usb_io \<Rightarrow> u32 \<Rightarrow> nat \<Rightarrow> ('h, trb option) xh" where
  "await_transfer io slot 0 = ret None"
| "await_transfer io slot (Suc n) = do {
     r \<leftarrow> poll_event io 1000;
     case r of None \<Rightarrow> await_transfer io slot n
     | Some ev \<Rightarrow>
         if TRB_TYPE_GET (t_flags ev) = TRB_TRANSFER \<and> TRB_SLOT_GET (t_flags ev) = slot \<and> TRB_EP_GET (t_flags ev) = 1
         then ret (Some ev) else await_transfer io slot n }"

text \<open>Queued, rung and waited for.\<close>

definition request :: "'h usb_io \<Rightarrow> u8 list \<Rightarrow> bool \<Rightarrow> u16 \<Rightarrow> ('h, trb option) xh" where
  "request io setup dir_in len = do {
     slot \<leftarrow> asks xh_slot;
     _ \<leftarrow> queue_control setup dir_in len;
     _ \<leftarrow> doorbell io slot 1;
     await_transfer io slot (TMO_XFER_US div 1000) }"

definition into_device :: "u8 list \<Rightarrow> bool" where "into_device setup \<longleftrightarrow> setup ! 0 AND 0x80 = 0"
definition sets_address :: "u8 list \<Rightarrow> bool" where "sets_address setup \<longleftrightarrow> setup ! 0 = 0x00 \<and> setup ! 1 = 0x05"

text \<open>The request of a device descriptor, whose eighth byte is the packet size of the endpoint.\<close>

definition asks_descriptor :: "u8 list \<Rightarrow> u16 \<Rightarrow> bool" where
  "asks_descriptor setup len \<longleftrightarrow> setup ! 1 = 0x06 \<and> setup ! 2 = 0x00 \<and> setup ! 3 = 0x01 \<and> len \<ge> 8"

text \<open>The caller's buffer is \<open>None\<close> for a null pointer; the result holds what is in it afterwards.\<close>

definition control_end :: "'h usb_io \<Rightarrow> u8 list \<Rightarrow> u8 list option \<Rightarrow> u16 \<Rightarrow> trb option \<Rightarrow> ('h, bool \<times> u8 list option) xh" where
  "control_end io setup data len r = (case r of None \<Rightarrow> ret (False, data)
     | Some ev \<Rightarrow> do {
         let comp = TRB_COMP_GET (t_status ev);
         if comp \<noteq> COMP_SUCCESS \<and> comp \<noteq> COMP_SHORT_PACKET then ret (False, data)
         else if len > 0 \<and> \<not> into_device setup \<and> data \<noteq> None then do {
           let remaining = t_status ev AND 0xFFFFFF;
           let xfer_len = (if comp = COMP_SUCCESS then ucast len else if remaining < ucast len then ucast len - remaining else 0);
           t \<leftarrow> State_Monad.get;
           let data = Some (splice (the data) 0 (ld (dr_mem t) (xh_ctrl_buf t) (unat xfer_len)));
           let b7 = dr_mem t (xh_ctrl_buf t + 7);
           if asks_descriptor setup len \<and> b7 \<noteq> 0 \<and> ucast b7 \<noteq> xh_ep0_mps t
           then do { ok \<leftarrow> update_ep0_mps io (ucast b7); ret (ok, data) }
           else ret (True, data) }
         else ret (True, data) })"

definition xhci_control :: "'h usb_io \<Rightarrow> u8 list \<Rightarrow> u8 list option \<Rightarrow> u16 \<Rightarrow> ('h, bool \<times> u8 list option) xh" where
  "xhci_control io setup data len = do {
     s \<leftarrow> State_Monad.get;
     let has_data = (len > 0);
     if \<not> xh_ready s then ret (False, data)
     else if sets_address setup then do { ok \<leftarrow> do_set_address io (xh_ep0_mps s); ret (ok, data) }
     else if has_data \<and> into_device setup \<and> (data = None \<or> len > 4096) then ret (False, data)
     else do {
       _ \<leftarrow> (if has_data \<and> into_device setup then on_mem (\<lambda>m. st m (xh_ctrl_buf s) (take (unat len) (the data))) else ret ());
       r \<leftarrow> request io setup (\<not> into_device setup) len;
       control_end io setup data len r } }"

section \<open>The interrupt endpoint\<close>

definition queue_report :: "('h, unit) xh" where
  "queue_report = do {
     s \<leftarrow> State_Monad.get;
     enqueue xh_intr xh_intr_update (xh_intr_buf_phys s) (TRB_LEN (ucast (xh_intr_mps s)) OR TRB_IRQ 0) (TRB_TYPE TRB_NORMAL OR TRB_IOC) }"

text \<open>The input context for the new endpoint.\<close>

definition intr_ctx :: "u8 \<Rightarrow> u16 \<Rightarrow> u8 \<Rightarrow> ('h, unit) xh" where
  "intr_ctx dci mps interval = do {
     _ \<leftarrow> add_flags (ICTRL_ADD_SLOT OR push_bit (unat dci) 1);
     s \<leftarrow> State_Monad.get;
     let dw0 = dctx_rd32 s DC_SLOT 0 AND NOT (push_bit 27 0x1F);
     _ \<leftarrow> ictx_wr32 IC_SLOT 0 (dw0 OR SLOT0_ENTRIES (ucast dci));
     d1 \<leftarrow> asks (\<lambda>s. dctx_rd32 s DC_SLOT 1);
     _ \<leftarrow> ictx_wr32 IC_SLOT 1 d1;
     d2 \<leftarrow> asks (\<lambda>s. dctx_rd32 s DC_SLOT 2);
     _ \<leftarrow> ictx_wr32 IC_SLOT 2 d2;
     d3 \<leftarrow> asks (\<lambda>s. dctx_rd32 s DC_SLOT 3);
     _ \<leftarrow> ictx_wr32 IC_SLOT 3 d3;
     let ep = ictx s (IC_EPn (ucast dci));
     _ \<leftarrow> on_mem (\<lambda>m. st m ep (replicate (unat (xh_ctx_stride s)) 0));
     on_mem (setup_intr_ep_ctx ep mps (calc_interval (xh_speed s) interval) EP_TYPE_INT_IN (rg_phys (xh_intr s))) }"

definition xhci_intr_open :: "'h usb_io \<Rightarrow> u8 \<Rightarrow> u16 \<Rightarrow> u8 \<Rightarrow> ('h, bool) xh" where
  "xhci_intr_open io ep mps interval = do {
     s \<leftarrow> State_Monad.get;
     if \<not> xh_ready s then ret False
     else if ep = 0 \<or> ep > 15 then ret False
     else if mps = 0 \<or> mps > 1024 then ret False
     else do {
       let dci = ep * 2 + 1;
       _ \<leftarrow> modify (\<lambda>s. s\<lparr>xh_intr_dci := dci, xh_intr_mps := mps\<rparr>);
       and_then (new_ring xh_intr_update) (do {
         b \<leftarrow> dr_alloc (ucast mps) 64;
         _ \<leftarrow> modify (\<lambda>s. s\<lparr>xh_intr_buf := b\<rparr>);
         if b = 0 then ret False
         else do {
           _ \<leftarrow> on_mem (\<lambda>m. st m b (replicate (unat mps) 0));
           _ \<leftarrow> modify (\<lambda>s. s\<lparr>xh_intr_buf_phys := dma_map (dr_dma s) b\<rparr>);
           _ \<leftarrow> intr_ctx dci mps interval;
           ok \<leftarrow> cmd_configure_endpoint io (xh_slot s);
           if \<not> ok then ret False
           else do {
             _ \<leftarrow> queue_report;
             _ \<leftarrow> doorbell io (xh_slot s) (ucast dci);
             _ \<leftarrow> modify (\<lambda>s. s\<lparr>xh_intr_open := True\<rparr>);
             ret True } } }) } }"

definition xhci_intr_close :: "('h, unit) xh" where
  "xhci_intr_close = modify (\<lambda>s. if \<not> xh_intr_open s then s else s\<lparr>xh_intr_open := False\<rparr>)"

definition xhci_intr_read :: "'h usb_io \<Rightarrow> u8 list option \<Rightarrow> u16 \<Rightarrow> ('h, bool \<times> u8 list option) xh" where
  "xhci_intr_read io out len = do {
     s \<leftarrow> State_Monad.get;
     if \<not> xh_intr_open s \<or> out = None then ret (False, out)
     else do {
       r \<leftarrow> poll_event io 2000;
       case r of None \<Rightarrow> ret (False, out)
       | Some ev \<Rightarrow>
           if TRB_TYPE_GET (t_flags ev) \<noteq> TRB_TRANSFER then ret (False, out)
           else if TRB_SLOT_GET (t_flags ev) \<noteq> xh_slot s \<or> TRB_EP_GET (t_flags ev) \<noteq> ucast (xh_intr_dci s) then ret (False, out)
           else do {
             let comp = TRB_COMP_GET (t_status ev);
             if comp \<noteq> COMP_SUCCESS \<and> comp \<noteq> COMP_SHORT_PACKET then ret (False, out)
             else do {
               let remaining = TRB_REM_GET (t_status ev);
               let mps = (ucast (xh_intr_mps s) :: u32);
               let xfer_len = (if comp = COMP_SUCCESS then mps else if remaining < mps then mps - remaining else 0);
               let xfer_len = (if xfer_len > ucast len then ucast len else xfer_len);
               m \<leftarrow> asks dr_mem;
               let out = Some (splice (the out) 0 (ld m (xh_intr_buf s) (unat xfer_len)));
               _ \<leftarrow> on_mem (\<lambda>m. st m (xh_intr_buf s) (replicate (unat (xh_intr_mps s)) 0));
               _ \<leftarrow> queue_report;
               _ \<leftarrow> doorbell io (xh_slot s) (ucast (xh_intr_dci s));
               ret (True, out) } } } }"

primrec await_stopped :: "'h usb_io \<Rightarrow> nat \<Rightarrow> ('h, unit) xh" where
  "await_stopped io 0 = ret ()"
| "await_stopped io (Suc n) = do {
     v \<leftarrow> op_rd32 io OP_USBCMD;
     if v AND CMD_RUN \<noteq> 0 then do { _ \<leftarrow> delay_us io 1; await_stopped io n } else ret () }"

definition xhci_stop :: "'h usb_io \<Rightarrow> ('h, unit) xh" where
  "xhci_stop io = do {
     s \<leftarrow> State_Monad.get;
     if \<not> xh_ready s then ret ()
     else do {
       _ \<leftarrow> modify (\<lambda>s. s\<lparr>xh_intr_open := False\<rparr>);
       _ \<leftarrow> op_wr32 io OP_USBCMD 0;
       _ \<leftarrow> await_stopped io 100000;
       modify (\<lambda>s. s\<lparr>xh_ready := False\<rparr>) } }"

end
