(* ===== verification/XhciRing.thy ===== *)
theory XhciRing
  imports Xhci MemPages
begin

text \<open>
  The rings as queues.  One side writes blocks with its cycle bit, the other takes those that carry the bit it expects,
  and both change the bit when they wrap.  A ring that the driver fills has 255 blocks and a link back to its start; the
  event ring, which the controller fills, has 256 blocks and no link.  \<open>consume\<close> is what the standard says of the
  controller's side of the first, \<open>produce\<close> of its side of the second.
\<close>

section \<open>Queues\<close>

text \<open>A bounded queue between two sides.\<close>

locale fifo =
  fixes rep :: "'s \<Rightarrow> 'x list \<Rightarrow> bool" and put :: "'x \<Rightarrow> 's \<Rightarrow> 's" and get :: "'s \<Rightarrow> ('x \<times> 's) option"
    and ok :: "'x \<Rightarrow> bool" and cap :: nat
  assumes put: "rep s q \<Longrightarrow> length q < cap \<Longrightarrow> ok x \<Longrightarrow> rep (put x s) (q @ [x])"
    and get_empty: "rep s [] \<Longrightarrow> get s = None"
    and get_cons: "rep s (x # q) \<Longrightarrow> \<exists>s'. get s = Some (x, s') \<and> rep s' q"
begin

lemma puts: "rep s q \<Longrightarrow> length q + length xs \<le> cap \<Longrightarrow> list_all ok xs \<Longrightarrow> rep (fold put xs s) (q @ xs)"
proof (induction xs arbitrary: s q)
  case (Cons x xs)
  have "rep (put x s) (q @ [x])" using Cons.prems by (intro put) auto
  from Cons.IH [OF this] Cons.prems show ?case by simp
qed simp

primrec gets :: "nat \<Rightarrow> 's \<Rightarrow> 'x list \<times> 's" where
  "gets 0 s = ([], s)"
| "gets (Suc n) s = (case get s of None \<Rightarrow> ([], s) | Some (x, s) \<Rightarrow> (let (xs, s) = gets n s in (x # xs, s)))"

lemma gets_take: "rep s q \<Longrightarrow> \<exists>s'. gets n s = (take n q, s') \<and> rep s' (drop n q)"
proof (induction n arbitrary: s q)
  case (Suc n)
  show ?case
  proof (cases q)
    case Nil
    then show ?thesis using Suc.prems get_empty by auto
  next
    case (Cons x q')
    then obtain s1 where 1: "get s = Some (x, s1)" "rep s1 q'" using get_cons Suc.prems by blast
    obtain s2 where "gets n s1 = (take n q', s2)" "rep s2 (drop n q')" using Suc.IH [OF 1(2)] by blast
    then show ?thesis using 1 Cons by simp
  qed
qed simp

text \<open>What is put comes out again, all of it, once and in order.\<close>

lemma put_gets:
  assumes "rep s []" "length xs \<le> cap" "list_all ok xs"
  shows "\<exists>s'. gets (length xs) (fold put xs s) = (xs, s') \<and> rep s' []"
  using gets_take [OF puts [OF assms(1)], of xs "length xs"] assms by simp

end

section \<open>Blocks in a page\<close>

definition trb_of :: "u8 list \<Rightarrow> nat \<Rightarrow> trb" where
  "trb_of bs i = \<lparr>t_param = rd64 bs (16 * i), t_status = rd32 bs (16 * i + 8), t_flags = rd32 bs (16 * i + 12)\<rparr>"

definition trb_bytes :: "u64 \<Rightarrow> u32 \<Rightarrow> u32 \<Rightarrow> u8 list" where "trb_bytes p s f = le64 p @ le32 s @ le32 f"

lemma length_trb_bytes [simp]: "length (trb_bytes p s f) = 16" by (simp add: trb_bytes_def)

lemma rd64_subbuf: "off + 8 \<le> length bs \<Longrightarrow> rd64 bs off = rd64 (subbuf bs off 8) 0"
  by (simp add: rd64_def rd32_subbuf [of off bs] rd32_subbuf [of "off + 4" bs] rd32_subbuf [of _ "subbuf bs off 8"])
    (simp add: subbuf_def drop_take min_def add.commute)

lemma trb_of_subbuf: "16 * i + 16 \<le> length bs \<Longrightarrow> trb_of bs i = trb_of (subbuf bs (16 * i) 16) 0"
proof -
  assume l: "16 * i + 16 \<le> length bs"
  have s: "subbuf (subbuf bs (16 * i) 16) 0 8 = subbuf bs (16 * i) 8" "subbuf (subbuf bs (16 * i) 16) 8 4 = subbuf bs (16 * i + 8) 4"
    "subbuf (subbuf bs (16 * i) 16) 12 4 = subbuf bs (16 * i + 12) 4"
    using l by (simp_all add: subbuf_def drop_take min_def ac_simps)
  show ?thesis using l s unfolding trb_of_def
    by (simp add: rd64_subbuf [of "16 * i" bs] rd32_subbuf [of "16 * i + 8" bs] rd32_subbuf [of "16 * i + 12" bs]
        rd64_subbuf [of 0 "subbuf bs (16 * i) 16"] rd32_subbuf [of 8 "subbuf bs (16 * i) 16"]
        rd32_subbuf [of 12 "subbuf bs (16 * i) 16"])
qed

lemma trb_of_bytes: "trb_of (trb_bytes p s f) 0 = \<lparr>t_param = p, t_status = s, t_flags = f\<rparr>"
proof -
  have "rd64 (le64 p @ xs) 0 = p" for xs
    using rd64_subbuf [of 0 "le64 p @ xs"] by (simp add: rd64_le64 subbuf_def)
  then show ?thesis by (simp add: trb_of_def trb_bytes_def struct_simps)
qed

lemma trb_of_splice:
  assumes "i < 256" "j < 256" "length bs = 4096"
  shows "trb_of (splice bs (16 * i) (trb_bytes p s f)) j = (if j = i then \<lparr>t_param = p, t_status = s, t_flags = f\<rparr> else trb_of bs j)"
proof -
  have "j \<noteq> i \<Longrightarrow> 16 * j + 16 \<le> 16 * i \<or> 16 * i + 16 \<le> 16 * j" by linarith
  then show ?thesis using assms
    by (simp add: trb_of_subbuf [of j] buf_simps trb_of_bytes)
qed

lemma trb_at_page: "i < 256 \<Longrightarrow> trb_at m (a + of_nat (16 * i)) = trb_of (page m a) i"
  using ld_page [of "16 * i" 8 m a] ld_page [of "16 * i + 8" 4 m a] ld_page [of "16 * i + 12" 4 m a]
    rd64_subbuf [of "16 * i" "page m a"] rd32_subbuf [of "16 * i + 8" "page m a"] rd32_subbuf [of "16 * i + 12" "page m a"]
  by (simp add: trb_at_def trb_of_def ld64_def ld32_def add.assoc)

lemma page_put_trb: "i < 256 \<Longrightarrow> page (put_trb (a + of_nat (16 * i)) p s f m) a = splice (page m a) (16 * i) (trb_bytes p s f)"
proof -
  assume i: "i < 256"
  have a: "a + of_nat (16 * i) + 8 = a + of_nat (16 * i + 8)" "a + of_nat (16 * i) + 12 = a + of_nat (16 * i + 12)" by simp_all
  have l: "16 * i + length (le64 p) \<le> 4096" "16 * i + 8 + length (le32 s) \<le> 4096" "16 * i + 12 + length (le32 f) \<le> 4096"
    using i by simp_all
  show ?thesis unfolding put_trb_def st32_def st64_def a page_st [OF l(3)] page_st [OF l(2)] page_st [OF l(1)]
    using i splice_append [of "16 * i" "le64 p" "le32 s" "page m a"] splice_append [of "16 * i" "le64 p @ le32 s" "le32 f" "page m a"]
    by (simp add: trb_bytes_def)
qed

lemma page_put_trb_other:
  assumes "aligned a" "aligned b" "a \<noteq> b" "i < 256"
  shows "page (put_trb (b + of_nat (16 * i)) p s f m) a = page m a"
proof -
  have e: "b + of_nat (16 * i) + 8 = b + of_nat (16 * i + 8)" "b + of_nat (16 * i) + 12 = b + of_nat (16 * i + 12)" by simp_all
  have l: "16 * i + length (le64 p) \<le> 4096" "16 * i + 8 + length (le32 s) \<le> 4096" "16 * i + 12 + length (le32 f) \<le> 4096"
    using assms by simp_all
  note o = page_st_other [OF assms(1-3)]
  show ?thesis unfolding put_trb_def st32_def st64_def e o [OF l(3)] o [OF l(2)] o [OF l(1)] ..
qed

lemma slot_at_nat: "slot_at r i = rg_trbs r + of_nat (16 * unat i)"
  by (simp add: slot_at_def mult.commute)

section \<open>Cycle bits\<close>

definition bare :: "trb \<Rightarrow> trb" where "bare t = t\<lparr>t_flags := t_flags t AND NOT TRB_CYCLE\<rparr>"
definition cyc :: "trb \<Rightarrow> bool" where "cyc t \<longleftrightarrow> t_flags t AND TRB_CYCLE \<noteq> 0"
definition phase :: "nat \<Rightarrow> nat \<Rightarrow> bool" where "phase n k \<longleftrightarrow> even (k div n)"

definition with_cycle :: "u32 \<Rightarrow> bool \<Rightarrow> u32" where
  "with_cycle f c = (f AND NOT TRB_CYCLE) OR (if c then TRB_CYCLE else 0)"

lemma with_cycle: "cyc \<lparr>t_param = p, t_status = s, t_flags = with_cycle f c\<rparr> = c"
  "bare \<lparr>t_param = p, t_status = s, t_flags = with_cycle f c\<rparr> = \<lparr>t_param = p, t_status = s, t_flags = f AND NOT TRB_CYCLE\<rparr>"
proof -
  have "with_cycle f c AND TRB_CYCLE = (if c then TRB_CYCLE else 0)"
    by (simp add: with_cycle_def bit.conj_disj_distrib2 and.assoc)
  then show "cyc \<lparr>t_param = p, t_status = s, t_flags = with_cycle f c\<rparr> = c" by (simp add: cyc_def TRB_CYCLE_def)
  have "with_cycle f c AND NOT TRB_CYCLE = f AND NOT TRB_CYCLE"
    by (simp add: with_cycle_def bit.conj_disj_distrib2 and.assoc)
  then show "bare \<lparr>t_param = p, t_status = s, t_flags = with_cycle f c\<rparr> = \<lparr>t_param = p, t_status = s, t_flags = f AND NOT TRB_CYCLE\<rparr>"
    by (simp add: bare_def)
qed

lemma fields_bare [simp]:
  "TRB_TYPE_GET (t_flags (bare t)) = TRB_TYPE_GET (t_flags t)" "TRB_SLOT_GET (t_flags (bare t)) = TRB_SLOT_GET (t_flags t)"
  "TRB_EP_GET (t_flags (bare t)) = TRB_EP_GET (t_flags t)" "t_status (bare t) = t_status t" "t_param (bare t) = t_param t"
proof -
  have "drop_bit 10 (NOT (1 :: u32)) AND 0x3F = 0x3F" "drop_bit 24 (NOT (1 :: u32)) AND 0xFF = 0xFF"
    "drop_bit 16 (NOT (1 :: u32)) AND 0x1F = 0x1F" by simp_all
  then show "TRB_TYPE_GET (t_flags (bare t)) = TRB_TYPE_GET (t_flags t)" "TRB_SLOT_GET (t_flags (bare t)) = TRB_SLOT_GET (t_flags t)"
    "TRB_EP_GET (t_flags (bare t)) = TRB_EP_GET (t_flags t)"
    by (simp_all add: bare_def TRB_TYPE_GET_def TRB_SLOT_GET_def TRB_EP_GET_def TRB_CYCLE_def and.assoc)
qed (simp_all add: bare_def)

text \<open>The blocks of a ring of \<open>n\<close>, from the one that is taken next, with the queue that they hold.\<close>

definition holds :: "u8 list \<Rightarrow> nat \<Rightarrow> nat \<Rightarrow> trb list \<Rightarrow> bool" where
  "holds bs n c q \<longleftrightarrow> length q \<le> n \<and> (\<forall>k<n. let t = trb_of bs ((c + k) mod n) in
     if k < length q then bare t = q ! k \<and> cyc t = phase n (c + k) else cyc t \<noteq> phase n (c + k))"

lemma phase_next: "0 < n \<Longrightarrow> phase n (c + n) \<longleftrightarrow> \<not> phase n c" by (simp add: phase_def div_add_self2)

lemma holds_empty: "holds bs n c [] \<Longrightarrow> 0 < n \<Longrightarrow> cyc (trb_of bs (c mod n)) \<noteq> phase n c"
  unfolding holds_def by (auto simp: Let_def dest: spec [of _ 0])

lemma holds_first: "holds bs n c (x # q) \<Longrightarrow> bare (trb_of bs (c mod n)) = x \<and> cyc (trb_of bs (c mod n)) = phase n c"
  unfolding holds_def by (auto simp: Let_def dest: spec [of _ 0])

lemma holds_take:
  assumes "holds bs n c (x # q)" shows "holds bs n (Suc c) q"
proof -
  have n: "0 < n" "length q < n" using assms by (auto simp: holds_def)
  show ?thesis unfolding holds_def
  proof (intro conjI allI impI)
    fix k assume k: "k < n"
    show "let t = trb_of bs ((Suc c + k) mod n) in
      if k < length q then bare t = q ! k \<and> cyc t = phase n (Suc c + k) else cyc t \<noteq> phase n (Suc c + k)"
    proof (cases "Suc k < n")
      case True
      then show ?thesis using assms unfolding holds_def by (auto simp: Let_def dest: spec [of _ "Suc k"])
    next
      case False
      then have e: "Suc c + k = c + n" using k by simp
      show ?thesis unfolding e using holds_first [OF assms] n k False by (auto simp: phase_next)
    qed
  qed (use n in simp)
qed

lemma mod_inj_window:
  fixes n :: nat assumes "(c + k) mod n = (c + l) mod n" "k < n" "l < n" shows "k = l"
proof -
  have "a = b" if "a \<le> b" "b < n" "(c + a) mod n = (c + b) mod n" for a b
  proof -
    have "n dvd b - a" using that mod_eq_dvd_iff_nat [of "c + a" "c + b" n] by simp
    then show ?thesis using that by (auto dest!: dvd_imp_le)
  qed
  then show ?thesis using assms by (metis nat_le_linear)
qed

lemma holds_cong: "(\<And>j. j < n \<Longrightarrow> trb_of bs' j = trb_of bs j) \<Longrightarrow> holds bs' n c q = holds bs n c q"
  unfolding holds_def by (cases "n = 0") simp_all

lemma holds_put:
  assumes h: "holds bs n c q" "length q < n" and n: "n \<le> 256" "length bs = 4096"
  shows "holds (splice bs (16 * ((c + length q) mod n)) (trb_bytes p s (with_cycle f (phase n (c + length q))))) n c
    (q @ [\<lparr>t_param = p, t_status = s, t_flags = f AND NOT TRB_CYCLE\<rparr>])"
proof -
  let ?i = "(c + length q) mod n" and ?x = "\<lparr>t_param = p, t_status = s, t_flags = f AND NOT TRB_CYCLE\<rparr>"
  let ?bs = "splice bs (16 * ?i) (trb_bytes p s (with_cycle f (phase n (c + length q))))"
  have i: "?i < n" using h(2) by simp
  have t: "trb_of ?bs j = (if j = ?i then \<lparr>t_param = p, t_status = s, t_flags = with_cycle f (phase n (c + length q))\<rparr> else trb_of bs j)"
    if "j < n" for j using that less_le_trans [OF i n(1)] n by (intro trb_of_splice) simp_all
  show ?thesis unfolding holds_def
  proof (intro conjI allI impI)
    fix k assume k: "k < n"
    have j: "(c + k) mod n < n" using k by simp
    show "let t = trb_of ?bs ((c + k) mod n) in
      if k < length (q @ [?x]) then bare t = (q @ [?x]) ! k \<and> cyc t = phase n (c + k) else cyc t \<noteq> phase n (c + k)"
    proof (cases "k = length q")
      case True
      show ?thesis unfolding True using t [OF i] by (simp add: Let_def with_cycle)
    next
      case False
      then have "(c + k) mod n \<noteq> ?i" using mod_inj_window [of c k n "length q"] k h(2) by blast
      then show ?thesis using h(1) k False unfolding holds_def by (auto simp: Let_def t [OF j] nth_append)
    qed
  qed (use h in simp)
qed

lemma phase_Suc: "0 < n \<Longrightarrow> phase n (Suc k) = (if Suc k mod n = 0 then \<not> phase n k else phase n k)"
  by (simp add: phase_def div_Suc)

section \<open>A ring that the driver fills\<close>

text \<open>The controller's side: its position is a physical address with the cycle bit it expects.\<close>

definition consume :: "u64 \<Rightarrow> memory \<Rightarrow> u64 \<times> bool \<Rightarrow> (trb \<times> u64 \<times> bool) option" where
  "consume hhdm m = (\<lambda>(p, c).
     let t = trb_at m (p + hhdm) in
     if cyc t \<noteq> c then None
     else if TRB_TYPE_GET (t_flags t) = TRB_LINK then
       (let p = t_param t AND NOT 0xF; c = (if t_flags t AND TRB_TC \<noteq> 0 then \<not> c else c); t = trb_at m (p + hhdm) in
        if cyc t \<noteq> c then None else Some (t, p + 16, c))
     else Some (t, p + 16, c))"

definition ring_put :: "trb \<Rightarrow> memory \<times> ring \<times> u64 \<times> bool \<Rightarrow> memory \<times> ring \<times> u64 \<times> bool" where
  "ring_put x = (\<lambda>(m, r, pc). let (m, r) = ring_enqueue r (t_param x) (t_status x) (t_flags x) m in (m, r, pc))"

definition ring_get :: "u64 \<Rightarrow> memory \<times> ring \<times> u64 \<times> bool \<Rightarrow> (trb \<times> memory \<times> ring \<times> u64 \<times> bool) option" where
  "ring_get hhdm = (\<lambda>(m, r, pc). case consume hhdm m pc of None \<Rightarrow> None | Some (t, pc) \<Rightarrow> Some (bare t, m, r, pc))"

text \<open>A block that may be put on a ring: no link, and the cycle bit left to \<open>ring_enqueue\<close>.\<close>

definition plain_trb :: "trb \<Rightarrow> bool" where
  "plain_trb x \<longleftrightarrow> TRB_TYPE_GET (t_flags x) \<noteq> TRB_LINK \<and> t_flags x AND NOT TRB_CYCLE = t_flags x"

definition ring_at :: "memory \<Rightarrow> ring \<Rightarrow> nat \<Rightarrow> trb list \<Rightarrow> bool" where
  "ring_at m r c q \<longleftrightarrow>
     length q \<le> 254 \<and> list_all plain_trb q \<and> holds (page m (rg_trbs r)) 255 c q
     \<and> rg_idx r = of_nat ((c + length q) mod 255) \<and> rg_cycle r = (if phase 255 (c + length q) then 1 else 0)
     \<and> (let l = trb_of (page m (rg_trbs r)) 255 in
          TRB_TYPE_GET (t_flags l) = TRB_LINK \<and> t_flags l AND TRB_TC \<noteq> 0 \<and> t_param l = rg_phys r
          \<and> cyc l = (\<not> phase 255 (c + length q)))"

definition ring_ok :: "u64 \<Rightarrow> ring \<Rightarrow> bool" where
  "ring_ok hhdm r \<longleftrightarrow> rg_phys r + hhdm = rg_trbs r \<and> rg_phys r AND NOT 0xF = rg_phys r"

text \<open>Between the last block of a round and the first of the next the controller may stand at the link.\<close>

definition deq_at :: "ring \<Rightarrow> nat \<Rightarrow> u64 \<times> bool \<Rightarrow> bool" where
  "deq_at r c pc \<longleftrightarrow> pc = (rg_phys r + of_nat (16 * (c mod 255)), phase 255 c)
     \<or> c mod 255 = 0 \<and> pc = (rg_phys r + of_nat (16 * 255), \<not> phase 255 c)"

definition ring_rep :: "u64 \<Rightarrow> memory \<times> ring \<times> u64 \<times> bool \<Rightarrow> trb list \<Rightarrow> bool" where
  "ring_rep hhdm = (\<lambda>(m, r, pc) q. ring_ok hhdm r \<and> (\<exists>c. ring_at m r c q \<and> deq_at r c pc))"

lemma trb_eta: "\<lparr>t_param = t_param x, t_status = t_status x, t_flags = t_flags x\<rparr> = x" by simp

lemma enqueue_same [simp]:
  "rg_trbs (snd (ring_enqueue r p s f m)) = rg_trbs r" "rg_phys (snd (ring_enqueue r p s f m)) = rg_phys r"
  by (simp_all add: ring_enqueue_def Let_def)

lemma enqueue_other:
  assumes "aligned a" "aligned (rg_trbs r)" "a \<noteq> rg_trbs r" "unat (rg_idx r) < 256"
  shows "page (fst (ring_enqueue r p s f m)) a = page m a"
proof -
  have u: "unat USABLE_TRBS < 256" by (simp add: USABLE_TRBS_def RING_TRBS_def)
  note o = page_put_trb_other [OF assms(1-3)]
  show ?thesis by (simp add: ring_enqueue_def Let_def slot_at_nat o [OF assms(4), simplified] o [OF u, simplified])
qed

text \<open>\<open>ring_enqueue\<close> appends to the queue; at the end of a round it hands over the link as well.\<close>

lemma enqueue_at:
  assumes r: "ring_at m r c q" "length q < 254" and x: "plain_trb x"
  shows "ring_at (fst (ring_enqueue r (t_param x) (t_status x) (t_flags x) m))
    (snd (ring_enqueue r (t_param x) (t_status x) (t_flags x) m)) c (q @ [x])"
proof -
  let ?n = "c + length q" and ?a = "rg_trbs r"
  let ?bs = "splice (page m ?a) (16 * (?n mod 255)) (trb_bytes (t_param x) (t_status x) (with_cycle (t_flags x) (phase 255 ?n)))"
  have idx: "rg_idx r = of_nat (?n mod 255)" and cy: "rg_cycle r = (if phase 255 ?n then 1 else 0)"
    using r(1) by (simp_all add: ring_at_def)
  have u: "unat (rg_idx r) = ?n mod 255" unfolding idx by (rule unat_of_nat_eq) (simp add: less_trans [of _ 255])
  have lt: "?n mod 255 < 255" by simp
  have fl: "(t_flags x AND NOT TRB_CYCLE) OR (if rg_cycle r \<noteq> 0 then TRB_CYCLE else 0) = with_cycle (t_flags x) (phase 255 ?n)"
    by (simp add: with_cycle_def cy)
  have bare: "\<lparr>t_param = t_param x, t_status = t_status x, t_flags = t_flags x AND NOT TRB_CYCLE\<rparr> = x"
    using x by (simp add: plain_trb_def)
  have h: "holds ?bs 255 c (q @ [x])"
    using holds_put [of "page m ?a" 255 c q "t_param x" "t_status x" "t_flags x"] r unfolding bare by (simp add: ring_at_def)
  have pl: "length (q @ [x]) \<le> 254" "list_all plain_trb (q @ [x])" using r x by (simp_all add: ring_at_def)
  have t255: "trb_of ?bs 255 = trb_of (page m ?a) 255" using lt by (subst trb_of_splice) simp_all
  have us: "unat USABLE_TRBS = 255" by (simp add: USABLE_TRBS_def RING_TRBS_def)
  have n1: "rg_idx r + 1 = of_nat (Suc (?n mod 255))" by (simp add: idx)
  have ge: "rg_idx r + 1 \<ge> USABLE_TRBS \<longleftrightarrow> Suc (?n mod 255) = 255"
    unfolding n1 word_le_nat_alt us using lt by (subst unat_of_nat_eq) auto
  have m1: "page (put_trb (slot_at r (rg_idx r)) (t_param x) (t_status x) (with_cycle (t_flags x) (phase 255 ?n)) m) ?a = ?bs"
    unfolding slot_at_nat u using lt by (intro page_put_trb) simp
  have len: "c + length (q @ [x]) = Suc ?n" by simp
  show ?thesis
  proof (cases "Suc (?n mod 255) = 255")
    case False
    then have md: "Suc ?n mod 255 = Suc (?n mod 255)" by (simp add: mod_Suc)
    have e: "ring_enqueue r (t_param x) (t_status x) (t_flags x) m =
        (put_trb (slot_at r (rg_idx r)) (t_param x) (t_status x) (with_cycle (t_flags x) (phase 255 ?n)) m, r\<lparr>rg_idx := rg_idx r + 1\<rparr>)"
      using False ge by (simp add: ring_enqueue_def Let_def fl)
    show ?thesis unfolding e fst_conv snd_conv ring_at_def len phase_Suc [OF zero_less_numeral] md
      using r(1) h pl cy m1 t255 n1 by (simp add: ring_at_def Let_def)
  next
    case True
    then have md: "Suc ?n mod 255 = 0" by (simp add: mod_Suc)
    let ?l = "TRB_TYPE TRB_LINK OR TRB_TC OR (if phase 255 ?n then TRB_CYCLE else 0)"
    let ?m1 = "put_trb (slot_at r (rg_idx r)) (t_param x) (t_status x) (with_cycle (t_flags x) (phase 255 ?n)) m"
    have cyr: "(if rg_cycle r \<noteq> 0 then TRB_CYCLE else 0) = (if phase 255 ?n then TRB_CYCLE else 0)" by (simp add: cy)
    have e: "ring_enqueue r (t_param x) (t_status x) (t_flags x) m =
        (put_trb (slot_at r USABLE_TRBS) (rg_phys r) 0 ?l ?m1, r\<lparr>rg_idx := 0, rg_cycle := rg_cycle r XOR 1\<rparr>)"
      using True ge unfolding ring_enqueue_def Let_def fl cyr by (simp add: slot_at_def with_cycle_def)
    have m2: "page (put_trb (slot_at r USABLE_TRBS) (rg_phys r) 0 ?l ?m1) ?a = splice ?bs (16 * 255) (trb_bytes (rg_phys r) 0 ?l)"
      unfolding slot_at_nat us m1 [symmetric] by (rule page_put_trb) simp
    have lb: "length ?bs = 4096" using lt by simp
    note t = trb_of_splice [of 255 _ ?bs "rg_phys r" 0 ?l, OF _ _ lb]
    have h2: "holds (splice ?bs (16 * 255) (trb_bytes (rg_phys r) 0 ?l)) 255 c (q @ [x])"
    proof (rule iffD2 [OF holds_cong h])
      fix j :: nat assume "j < 255"
      then show "trb_of (splice ?bs (16 * 255) (trb_bytes (rg_phys r) 0 ?l)) j = trb_of ?bs j" using t [of j] by simp
    qed
    have t2: "trb_of (splice ?bs (16 * 255) (trb_bytes (rg_phys r) 0 ?l)) 255 = \<lparr>t_param = rg_phys r, t_status = 0, t_flags = ?l\<rparr>"
      using t [of 255] by simp
    have f: "TRB_TYPE_GET ?l = TRB_LINK" "?l AND TRB_TC \<noteq> 0" "cyc \<lparr>t_param = rg_phys r, t_status = 0, t_flags = ?l\<rparr> = phase 255 ?n"
      by (simp_all add: TRB_TYPE_GET_def TRB_TYPE_def TRB_LINK_def TRB_TC_def TRB_CYCLE_def cyc_def)
    have x1: "rg_cycle r XOR 1 = (if \<not> phase 255 ?n then 1 else 0)" by (simp add: cy)
    show ?thesis unfolding e fst_conv snd_conv ring_at_def len phase_Suc [OF zero_less_numeral] md ring.select_convs ring.update_convs
      using h2 pl m2 t2 f x1 by (simp add: Let_def)
  qed
qed

lemma ring_put_at:
  assumes "ring_rep hhdm s q" "length q < 254" "plain_trb x"
  shows "ring_rep hhdm (ring_put x s) (q @ [x])"
proof -
  obtain m r pc where s: "s = (m, r, pc)" by (cases s) auto
  obtain c where c: "ring_ok hhdm r" "ring_at m r c q" "deq_at r c pc" using assms(1) by (auto simp: ring_rep_def s)
  from enqueue_at [OF c(2) assms(2,3)] c(1,3) show ?thesis
    by (auto simp: ring_rep_def ring_put_def s split_def Let_def ring_ok_def deq_at_def intro!: exI [of _ c])
qed

text \<open>The controller takes the first block, following the link when it stands at it.\<close>

lemma phys_slot: "ring_ok hhdm r \<Longrightarrow> rg_phys r + of_nat (16 * i) + hhdm = rg_trbs r + of_nat (16 * i)"
  by (simp add: ring_ok_def add.assoc add.commute add.left_commute)

lemma consume_at:
  assumes ok: "ring_ok hhdm r" and at: "ring_at m r c q" and d: "deq_at r c pc"
  shows "q = [] \<Longrightarrow> consume hhdm m pc = None"
    and "q = x # q' \<Longrightarrow> \<exists>t pc'. consume hhdm m pc = Some (t, pc') \<and> bare t = x \<and> ring_at m r (Suc c) q' \<and> deq_at r (Suc c) pc'"
proof -
  let ?a = "rg_trbs r" and ?t = "trb_of (page m (rg_trbs r)) (c mod 255)"
  have lt: "c mod 255 < 256" by (rule less_trans [of _ 255]) simp_all
  have slot: "trb_at m (rg_phys r + of_nat (16 * (c mod 255)) + hhdm) = ?t"
    unfolding phys_slot [OF ok] by (rule trb_at_page [OF lt])
  have link: "trb_at m (rg_phys r + of_nat (16 * 255) + hhdm) = trb_of (page m ?a) 255"
    unfolding phys_slot [OF ok] by (rule trb_at_page) simp
  note at' = at [unfolded ring_at_def Let_def]
  have nxt: "consume hhdm m pc = (if cyc ?t \<noteq> phase 255 c then None else Some (?t, rg_phys r + of_nat (16 * (c mod 255)) + 16, phase 255 c))"
    if "q \<noteq> [] \<longrightarrow> TRB_TYPE_GET (t_flags ?t) \<noteq> TRB_LINK" "q = [] \<longrightarrow> cyc ?t \<noteq> phase 255 c"
    using d unfolding deq_at_def
  proof
    assume p: "pc = (rg_phys r + of_nat (16 * (c mod 255)), phase 255 c)"
    show ?thesis unfolding p consume_def split slot using that by (auto simp: Let_def)
  next
    assume p: "c mod 255 = 0 \<and> pc = (rg_phys r + of_nat (16 * 255), \<not> phase 255 c)"
    have "(c + length q) div 255 = c div 255" using p at' by (auto simp: div_add1_eq)
    then have ph: "phase 255 (c + length q) = phase 255 c" by (simp add: phase_def)
    have s0: "trb_at m (rg_phys r + hhdm) = ?t" using slot p by simp
    have l: "cyc (trb_of (page m ?a) 255) = (\<not> phase 255 c)" "TRB_TYPE_GET (t_flags (trb_of (page m ?a) 255)) = TRB_LINK"
      "t_flags (trb_of (page m ?a) 255) AND TRB_TC \<noteq> 0" "t_param (trb_of (page m ?a) 255) AND NOT 0xF = rg_phys r"
      using at' ok ph by (simp_all add: ring_ok_def)
    show ?thesis unfolding p [THEN conjunct2] consume_def split link using l s0 p by (auto simp: Let_def)
  qed
  show "consume hhdm m pc = None" if "q = []"
    using nxt holds_empty [of "page m ?a" 255 c] at' that by simp
  show "\<exists>t pc'. consume hhdm m pc = Some (t, pc') \<and> bare t = x \<and> ring_at m r (Suc c) q' \<and> deq_at r (Suc c) pc'" if q: "q = x # q'"
  proof -
    have h: "holds (page m ?a) 255 c (x # q')" "plain_trb x" using at' q by simp_all
    note f = holds_first [OF h(1)]
    have nl: "TRB_TYPE_GET (t_flags ?t) \<noteq> TRB_LINK" using f h(2) fields_bare(1) [of ?t] by (auto simp: plain_trb_def)
    have c1: "consume hhdm m pc = Some (?t, rg_phys r + of_nat (16 * (c mod 255)) + 16, phase 255 c)" using nxt nl f q by simp
    have "ring_at m r (Suc c) q'" using at q holds_take [OF h(1)] by (simp add: ring_at_def)
    moreover have "deq_at r (Suc c) (rg_phys r + of_nat (16 * (c mod 255)) + 16, phase 255 c)"
    proof (cases "Suc (c mod 255) = 255")
      case True
      then have "Suc c mod 255 = 0" "c mod 255 = 254" by (simp_all add: mod_Suc)
      then show ?thesis by (simp add: deq_at_def phase_Suc)
    next
      case False
      then have "Suc c mod 255 = Suc (c mod 255)" by (simp add: mod_Suc)
      then show ?thesis by (simp add: deq_at_def phase_Suc)
    qed
    ultimately show ?thesis using c1 f by auto
  qed
qed

interpretation trb_ring: fifo "ring_rep hhdm" ring_put "ring_get hhdm" plain_trb 254 for hhdm
proof
  fix s q x
  show "ring_rep hhdm s q \<Longrightarrow> length q < 254 \<Longrightarrow> plain_trb x \<Longrightarrow> ring_rep hhdm (ring_put x s) (q @ [x])" by (rule ring_put_at)
  obtain m r pc where s: "s = (m, r, pc)" by (cases s) auto
  show "ring_get hhdm s = None" if a: "ring_rep hhdm s []"
  proof -
    obtain c where c: "ring_ok hhdm r" "ring_at m r c []" "deq_at r c pc" using a by (auto simp: ring_rep_def s)
    from consume_at(1) [OF c refl] show ?thesis by (simp add: ring_get_def s)
  qed
  show "\<exists>s'. ring_get hhdm s = Some (x, s') \<and> ring_rep hhdm s' q" if a: "ring_rep hhdm s (x # q)"
  proof -
    obtain c where c: "ring_ok hhdm r" "ring_at m r c (x # q)" "deq_at r c pc" using a by (auto simp: ring_rep_def s)
    from consume_at(2) [OF c refl] c(1) show ?thesis by (force simp: ring_rep_def ring_get_def s)
  qed
qed

text \<open>A ring fresh from \<open>ring_init\<close> is the empty queue, with the controller at its first block.\<close>

lemma trb_of_zero: "i < 256 \<Longrightarrow> trb_of (replicate 4096 0) i = \<lparr>t_param = 0, t_status = 0, t_flags = 0\<rparr>"
  by (simp add: trb_of_def rd64_def rd32_def)

lemma ring_init_rep:
  assumes ok: "ring_ok hhdm r" and r: "rg_idx r = 0" "rg_cycle r = 1"
  shows "ring_rep hhdm (ring_init (rg_trbs r) (rg_phys r) m, r, rg_phys r, True) []"
proof -
  let ?l = "TRB_TYPE TRB_LINK OR TRB_TC"
  let ?bs = "splice (replicate 4096 0) (16 * 255) (trb_bytes (rg_phys r) 0 ?l)"
  have us: "ucast USABLE_TRBS * 16 = (of_nat (16 * 255) :: u64)" "unat RING_TRBS * 16 = 4096"
    by (simp_all add: USABLE_TRBS_def RING_TRBS_def)
  have z: "splice bs 0 (replicate 4096 0) = replicate 4096 (0 :: u8)" if "length bs = 4096" for bs
    using that by (simp add: splice_def)
  have z: "page (st m (rg_trbs r) (replicate 4096 0)) (rg_trbs r) = replicate 4096 0"
    by (subst page_st_0) (simp_all add: z)
  have p: "page (ring_init (rg_trbs r) (rg_phys r) m) (rg_trbs r) = ?bs"
    unfolding ring_init_def us by (subst page_put_trb) (simp, simp only: z)
  have t: "trb_of ?bs j = (if j = 255 then \<lparr>t_param = rg_phys r, t_status = 0, t_flags = ?l\<rparr> else \<lparr>t_param = 0, t_status = 0, t_flags = 0\<rparr>)"
    if "j < 256" for j
    using that trb_of_splice [of 255 j "replicate 4096 0" "rg_phys r" 0 ?l] trb_of_zero [of j] by simp
  have ph: "phase 255 k" if "k < 255" for k using that by (simp add: phase_def)
  have "holds ?bs 255 0 []" unfolding holds_def
  proof (intro conjI allI impI)
    fix k :: nat assume "k < 255"
    then show "let x = trb_of ?bs ((0 + k) mod 255) in if k < length [] then bare x = [] ! k \<and> cyc x = phase 255 (0 + k)
        else cyc x \<noteq> phase 255 (0 + k)"
      using t [of k] ph [of k] by (simp add: Let_def cyc_def)
  qed simp
  moreover have "TRB_TYPE_GET ?l = TRB_LINK" "?l AND TRB_TC \<noteq> 0" "\<not> cyc \<lparr>t_param = rg_phys r, t_status = 0, t_flags = ?l\<rparr>"
    by (simp_all add: TRB_TYPE_GET_def TRB_TYPE_def TRB_LINK_def TRB_TC_def TRB_CYCLE_def cyc_def)
  ultimately have "ring_at (ring_init (rg_trbs r) (rg_phys r) m) r 0 []"
    unfolding ring_at_def p using t [of 255] r ph [of 0] by (simp add: Let_def)
  then show ?thesis using ok ph [of 0] by (auto simp: ring_rep_def deq_at_def intro!: exI [of _ 0])
qed

section \<open>The event ring\<close>

text \<open>The controller's side: an index with its cycle bit; \<open>a\<close> is where the driver sees the ring.\<close>

definition produce :: "u64 \<Rightarrow> trb \<Rightarrow> memory \<times> nat \<times> bool \<Rightarrow> memory \<times> nat \<times> bool" where
  "produce a x = (\<lambda>(m, i, c).
     (put_trb (a + of_nat (16 * i)) (t_param x) (t_status x) (with_cycle (t_flags x) c) m,
      if Suc i = 256 then (0, \<not> c) else (Suc i, c)))"

definition event_put :: "trb \<Rightarrow> memory \<times> ring \<times> nat \<times> bool \<Rightarrow> memory \<times> ring \<times> nat \<times> bool" where
  "event_put x = (\<lambda>(m, r, ic). let (m, ic) = produce (rg_trbs r) x (m, ic) in (m, r, ic))"

definition event_get :: "memory \<times> ring \<times> nat \<times> bool \<Rightarrow> (trb \<times> memory \<times> ring \<times> nat \<times> bool) option" where
  "event_get = (\<lambda>(m, r, ic). case event_at m r of None \<Rightarrow> None | Some t \<Rightarrow> Some (bare t, m, next_event r, ic))"

definition event_rep :: "memory \<times> ring \<times> nat \<times> bool \<Rightarrow> trb list \<Rightarrow> bool" where
  "event_rep = (\<lambda>(m, r, i, c) q. \<exists>n. holds (page m (rg_trbs r)) 256 n q
     \<and> rg_idx r = of_nat (n mod 256) \<and> rg_cycle r = (if phase 256 n then 1 else 0)
     \<and> i = (n + length q) mod 256 \<and> c = phase 256 (n + length q))"

lemma cycle_bit: "t_flags t AND TRB_CYCLE = (if cyc t then TRB_CYCLE else 0)"
proof -
  have "t_flags t AND TRB_CYCLE = (if odd (t_flags t) then 1 else 0)" by (simp add: TRB_CYCLE_def and_one_eq odd_iff_mod_2_eq_one)
  then show ?thesis by (auto simp: cyc_def TRB_CYCLE_def)
qed

lemma event_at_rep:
  assumes "rg_idx r = of_nat (n mod 256)" "rg_cycle r = (if phase 256 n then 1 else 0)"
  shows "event_at m r = (let t = trb_of (page m (rg_trbs r)) (n mod 256) in if cyc t = phase 256 n then Some t else None)"
proof -
  have u: "unat (rg_idx r) = n mod 256" unfolding assms(1) by (rule unat_of_nat_eq) (simp add: less_trans [of _ 256])
  have "TRB_CYCLE \<noteq> 0" by (simp add: TRB_CYCLE_def)
  then show ?thesis unfolding event_at_def slot_at_nat u cycle_bit
    using trb_at_page [of "n mod 256" m "rg_trbs r"] by (simp add: Let_def assms(2))
qed

lemma next_event_rep:
  assumes "rg_idx r = of_nat (n mod 256)" "rg_cycle r = (if phase 256 n then 1 else 0)"
  shows "rg_idx (next_event r) = of_nat (Suc n mod 256)" "rg_cycle (next_event r) = (if phase 256 (Suc n) then 1 else 0)"
    "rg_trbs (next_event r) = rg_trbs r" "rg_phys (next_event r) = rg_phys r"
proof -
  have lt: "n mod 256 < 256" by simp
  have i: "rg_idx r + 1 = of_nat (Suc (n mod 256))" by (simp add: assms(1))
  have ge: "rg_idx r + 1 \<ge> RING_TRBS \<longleftrightarrow> Suc (n mod 256) = 256"
    unfolding i word_le_nat_alt RING_TRBS_def using lt by (subst unat_of_nat_eq) auto
  have e: "next_event r = (if Suc (n mod 256) = 256 then r\<lparr>rg_idx := 0, rg_cycle := rg_cycle r XOR 1\<rparr> else r\<lparr>rg_idx := rg_idx r + 1\<rparr>)"
    by (simp add: next_event_def Let_def ge)
  show "rg_idx (next_event r) = of_nat (Suc n mod 256)" "rg_cycle (next_event r) = (if phase 256 (Suc n) then 1 else 0)"
    unfolding e using i assms(2) phase_Suc [of 256 n] by (auto simp: mod_Suc)
qed (simp_all add: next_event_def Let_def)

lemma event_put_rep:
  assumes "event_rep s q" "length q < 256" "bare x = x"
  shows "event_rep (event_put x s) (q @ [x])"
proof -
  obtain m r i c where s: "s = (m, r, i, c)" by (metis prod_cases4)
  obtain n where n: "holds (page m (rg_trbs r)) 256 n q" "rg_idx r = of_nat (n mod 256)"
      "rg_cycle r = (if phase 256 n then 1 else 0)" "i = (n + length q) mod 256" "c = phase 256 (n + length q)"
    using assms(1) by (auto simp: event_rep_def s)
  have x: "\<lparr>t_param = t_param x, t_status = t_status x, t_flags = t_flags x AND NOT TRB_CYCLE\<rparr> = x"
    using assms(3) by (cases x) (simp add: bare_def)
  have i: "i < 256" using n(4) by simp
  have h: "holds (page (put_trb (rg_trbs r + of_nat (16 * i)) (t_param x) (t_status x) (with_cycle (t_flags x) c) m) (rg_trbs r)) 256 n (q @ [x])"
    using holds_put [OF n(1) assms(2), of "t_param x" "t_status x" "t_flags x"]
    unfolding x n(4) [symmetric] n(5) [symmetric] page_put_trb [OF i, symmetric] by simp
  then show ?thesis using n(2-5) phase_Suc [of 256 "n + length q"]
    by (auto simp: event_rep_def event_put_def produce_def s Let_def mod_Suc intro!: exI [of _ n])
qed

lemma event_get_rep:
  "event_rep s [] \<Longrightarrow> event_get s = None"
  "event_rep s (x # q) \<Longrightarrow> \<exists>s'. event_get s = Some (x, s') \<and> event_rep s' q"
proof -
  obtain m r i c where s: "s = (m, r, i, c)" by (metis prod_cases4)
  have "\<exists>n. holds (page m (rg_trbs r)) 256 n q' \<and> rg_idx r = of_nat (n mod 256) \<and> rg_cycle r = (if phase 256 n then 1 else 0)
     \<and> i = (n + length q') mod 256 \<and> c = phase 256 (n + length q')" if "event_rep s q'" for q'
    using that by (simp add: event_rep_def s)
  note rep = this
  show "event_get s = None" if a: "event_rep s []"
  proof -
    obtain n where n: "holds (page m (rg_trbs r)) 256 n []" "rg_idx r = of_nat (n mod 256)" "rg_cycle r = (if phase 256 n then 1 else 0)"
      using rep [OF a] by auto
    show ?thesis using event_at_rep [OF n(2,3), of m] holds_empty [OF n(1)] by (simp add: event_get_def s Let_def)
  qed
  show "\<exists>s'. event_get s = Some (x, s') \<and> event_rep s' q" if a: "event_rep s (x # q)"
  proof -
    obtain n where n: "holds (page m (rg_trbs r)) 256 n (x # q)" "rg_idx r = of_nat (n mod 256)" "rg_cycle r = (if phase 256 n then 1 else 0)"
        "i = (n + length (x # q)) mod 256" "c = phase 256 (n + length (x # q))"
      using rep [OF a] by auto
    note f = holds_first [OF n(1)]
    have "event_rep (m, next_event r, i, c) q"
      using holds_take [OF n(1)] next_event_rep [OF n(2,3)] n(4,5) by (auto simp: event_rep_def intro!: exI [of _ "Suc n"])
    then show ?thesis using event_at_rep [OF n(2,3), of m] f by (simp add: event_get_def s Let_def)
  qed
qed

interpretation event_ring: fifo event_rep event_put event_get "\<lambda>x. bare x = x" 256
  by unfold_locales (rule event_put_rep event_get_rep; assumption)+


text \<open>A cleared event ring holds no event.\<close>

lemma event_init_rep:
  "page m (rg_trbs r) = replicate 4096 0 \<Longrightarrow> rg_idx r = 0 \<Longrightarrow> rg_cycle r = 1 \<Longrightarrow> event_rep (m, r, 0, True) []"
  by (auto simp: event_rep_def holds_def trb_of_zero cyc_def phase_def intro!: exI [of _ 0])

end
