(* ===== verification/XhciHost.thy ===== *)
theory XhciHost
  imports XhciRing
begin

text \<open>
  The controller that the driver talks to, as far as control transfers go, and how the driver waits for it.  What the
  controller does is a hypothesis (\<open>follows_xhci\<close>): rung, it takes the blocks of a transfer from the ring, carries the
  request to the device, moves the data and posts an event, with any latency below the time limit of the driver.  What
  the device answers is a parameter.
\<close>

section \<open>The controller\<close>

text \<open>A device takes the eight bytes of a request with the data sent to it; it answers with data, or not at all: a
  stall.\<close>

type_synonym 'd usb_device = "'d \<Rightarrow> u8 list \<Rightarrow> u8 list \<Rightarrow> u8 list option \<times> 'd"

record 'd hc =
  hc_dev :: 'd
  hc_slot :: u32
  hc_ep0 :: "u64 \<times> bool"
  hc_events :: u64
  hc_ev :: "nat \<times> bool"
  hc_rung :: bool
  hc_wait :: nat
  hc_halted :: bool

definition xfer_event :: "u32 \<Rightarrow> u64 \<Rightarrow> u32 \<Rightarrow> trb" where
  "xfer_event slot p code = \<lparr>t_param = p, t_status = push_bit 24 code, t_flags = TRB_TYPE TRB_TRANSFER OR push_bit 16 1 OR TRB_SLOT slot\<rparr>"

definition post :: "u64 \<Rightarrow> u64 \<Rightarrow> u32 \<Rightarrow> memory \<times> 'd hc \<Rightarrow> memory \<times> 'd hc" where
  "post hhdm p code = (\<lambda>(m, v).
     let (m, ev) = produce (hc_events v + hhdm) (xfer_event (hc_slot v) p code) (m, hc_ev v) in (m, v\<lparr>hc_ev := ev, hc_rung := False\<rparr>))"

text \<open>Setup, data if there is any, status; with the position after them.\<close>

definition td_of :: "u64 \<Rightarrow> memory \<Rightarrow> u64 \<times> bool \<Rightarrow> (trb \<times> trb option \<times> trb \<times> u64 \<times> bool) option" where
  "td_of hhdm m pc = (case consume hhdm m pc of None \<Rightarrow> None | Some (t1, pc) \<Rightarrow>
     (case consume hhdm m pc of None \<Rightarrow> None | Some (t2, pc) \<Rightarrow>
       if TRB_TYPE_GET (t_flags t2) = TRB_DATA
       then (case consume hhdm m pc of None \<Rightarrow> None | Some (t3, pc) \<Rightarrow> Some (t1, Some t2, t3, pc))
       else Some (t1, None, t2, pc)))"

definition is_in :: "trb \<Rightarrow> bool" where "is_in t \<longleftrightarrow> t_flags t AND push_bit 16 1 \<noteq> 0"

text \<open>The stages must be of the right type; the setup stage holds eight bytes itself and tells the direction of the data;
  the status stage goes the other way, and asks for an event.\<close>

definition stages_ok :: "trb \<Rightarrow> trb option \<Rightarrow> trb \<Rightarrow> bool" where
  "stages_ok t1 d t3 \<longleftrightarrow>
     TRB_TYPE_GET (t_flags t1) = 2 \<and> t_flags t1 AND push_bit 6 1 \<noteq> 0 \<and> t_status t1 AND 0x1FFFF = 8
     \<and> TRB_TYPE_GET (t_flags t3) = 4 \<and> t_flags t3 AND push_bit 5 1 \<noteq> 0
     \<and> t_flags t1 AND push_bit 16 3 = (case d of None \<Rightarrow> 0 | Some t \<Rightarrow> if is_in t then push_bit 16 3 else push_bit 16 2)
     \<and> is_in t3 = (case d of None \<Rightarrow> True | Some t \<Rightarrow> \<not> is_in t)"

definition td_len :: "trb \<Rightarrow> nat" where "td_len t = unat (t_status t AND 0x1FFFF)"

definition perform :: "'d usb_device \<Rightarrow> u64 \<Rightarrow> memory \<times> 'd hc \<Rightarrow> memory \<times> 'd hc" where
  "perform usb hhdm = (\<lambda>(m, v).
     case td_of hhdm m (hc_ep0 v) of None \<Rightarrow> (m, v\<lparr>hc_rung := False\<rparr>)
     | Some (t1, d, t3, pc) \<Rightarrow>
         if \<not> stages_ok t1 d t3 then post hhdm (fst (hc_ep0 v)) 5 (m, v\<lparr>hc_halted := True\<rparr>)
         else
           let out = (case d of Some t \<Rightarrow> if is_in t then [] else ld m (t_param t + hhdm) (td_len t) | None \<Rightarrow> []);
               (reply, dev) = usb (hc_dev v) (le64 (t_param t1)) out;
               v = v\<lparr>hc_dev := dev\<rparr>
           in case reply of
             None \<Rightarrow> post hhdm (fst (hc_ep0 v)) 6 (m, v\<lparr>hc_halted := True\<rparr>)
           | Some bs \<Rightarrow>
               let m = (case d of Some t \<Rightarrow> if is_in t then st m (t_param t + hhdm) (take (td_len t) bs) else m | None \<Rightarrow> m)
               in post hhdm (fst (hc_ep0 v)) 1 (m, v\<lparr>hc_ep0 := pc\<rparr>))"

text \<open>A halted endpoint does nothing.\<close>

definition hc_tick :: "'d usb_device \<Rightarrow> u64 \<Rightarrow> memory \<times> 'd hc \<Rightarrow> memory \<times> 'd hc" where
  "hc_tick usb hhdm = (\<lambda>(m, v).
     if hc_rung v \<and> \<not> hc_halted v then (if hc_wait v = 0 then perform usb hhdm (m, v) else (m, v\<lparr>hc_wait := hc_wait v - 1\<rparr>))
     else (m, v))"

definition bell :: "'h xhci \<Rightarrow> u64" where "bell s = dr_base s + ucast (xh_db_base s + xh_slot s * 4)"
definition erdp :: "'h xhci \<Rightarrow> u64" where "erdp s = dr_base s + ucast (xh_rt_base s + (RT_IR0 + IR_ERDP))"

definition follows_xhci :: "'d usb_device \<Rightarrow> 'h usb_io \<Rightarrow> ('h \<Rightarrow> 'd hc) \<Rightarrow> 'h xhci \<Rightarrow> bool" where
  "follows_xhci usb io view s \<longleftrightarrow>
     (\<forall>m h us. view (snd (ui_delay io us (m, h))) = snd (hc_tick usb (dr_hhdm s) (m, view h))
        \<and> fst (ui_delay io us (m, h)) = fst (hc_tick usb (dr_hhdm s) (m, view h)))
     \<and> (\<forall>m h. \<exists>h' lat. mm_write io (bell s) 1 (m, h) = (m, h') \<and> lat + 1 < TMO_XFER_US
        \<and> view h' = (view h)\<lparr>hc_rung := True, hc_wait := lat\<rparr>)
     \<and> (\<forall>m h. \<exists>v h'. mm_read io (bell s) (m, h) = (v, m, h') \<and> view h' = view h)
     \<and> (\<forall>m h a v. a \<in> {erdp s, erdp s + 4} \<longrightarrow> (\<exists>h'. mm_write io a v (m, h) = (m, h') \<and> view h' = view h))"

section \<open>Waiting for an event\<close>

text \<open>Memory and controller after \<open>n\<close> ticks.\<close>

abbreviation ticks :: "'d usb_device \<Rightarrow> ('h \<Rightarrow> 'd hc) \<Rightarrow> 'h xhci \<Rightarrow> nat \<Rightarrow> memory \<times> 'd hc" where
  "ticks usb view s n \<equiv> (hc_tick usb (dr_hhdm s) ^^ n) (dr_mem s, view (dr_hw s))"

lemma run_delay:
  assumes "follows_xhci usb io view s"
  shows "\<exists>h'. run_state (delay_us io us) s = ((), s\<lparr>dr_mem := fst (ticks usb view s 1), dr_hw := h'\<rparr>)
    \<and> view h' = snd (ticks usb view s 1)"
proof -
  have "view (snd (ui_delay io us (dr_mem s, dr_hw s))) = snd (ticks usb view s 1)" "fst (ui_delay io us (dr_mem s, dr_hw s)) = fst (ticks usb view s 1)"
    using assms [unfolded follows_xhci_def, THEN conjunct1, rule_format, of us "dr_mem s" "dr_hw s"] by simp_all
  then show ?thesis by (intro exI [of _ "snd (ui_delay io us (dr_mem s, dr_hw s))"]) (simp add: delay_us_def split_def)
qed

lemma follows_upd [simp]: "follows_xhci usb io view (s\<lparr>dr_mem := m, dr_hw := h\<rparr>) = follows_xhci usb io view s"
  "follows_xhci usb io view (s\<lparr>dr_mem := m\<rparr>) = follows_xhci usb io view s"
  "follows_xhci usb io view (s\<lparr>dr_hw := h\<rparr>) = follows_xhci usb io view s"
  "follows_xhci usb io view (s\<lparr>xh_ep0 := r\<rparr>) = follows_xhci usb io view s"
  "follows_xhci usb io view (s\<lparr>xh_event := r\<rparr>) = follows_xhci usb io view s"
  by (simp_all add: follows_xhci_def bell_def erdp_def)

lemma run_rt_wr64:
  assumes "follows_xhci usb io view s"
  shows "\<exists>h'. run_state (rt_wr64 io (RT_IR0 + IR_ERDP) x) s = ((), s\<lparr>dr_hw := h'\<rparr>) \<and> view h' = view (dr_hw s)"
proof -
  have w: "\<exists>h'. mm_write io a v (m, h) = (m, h') \<and> view h' = view h" if "a \<in> {erdp s, erdp s + 4}" for a v m h
    using assms that unfolding follows_xhci_def by blast
  obtain h1 where h1: "mm_write io (erdp s) (lo32 x) (dr_mem s, dr_hw s) = (dr_mem s, h1)" "view h1 = view (dr_hw s)"
    using w [of "erdp s"] by blast
  obtain h2 where h2: "mm_write io (erdp s + 4) (hi32 x) (dr_mem s, h1) = (dr_mem s, h2)" "view h2 = view h1"
    using w [of "erdp s + 4"] by blast
  show ?thesis using h1 h2 by (intro exI [of _ h2]) (simp add: rt_wr64_def mmio_wr64_def wr_at_def erdp_def)
qed

lemma poll_none:
  assumes "follows_xhci usb io view s" "\<And>j. j < n \<Longrightarrow> event_at (fst (ticks usb view s j)) (xh_event s) = None"
  shows "\<exists>h'. run_state (poll_event io n) s = (None, s\<lparr>dr_mem := fst (ticks usb view s n), dr_hw := h'\<rparr>) \<and> view h' = snd (ticks usb view s n)"
  using assms
proof (induction n arbitrary: s)
  case 0
  show ?case by (intro exI [of _ "dr_hw s"]) simp
next
  case (Suc n)
  obtain h1 where h1: "run_state (delay_us io 1) s = ((), s\<lparr>dr_mem := fst (ticks usb view s 1), dr_hw := h1\<rparr>)"
      "view h1 = snd (ticks usb view s 1)"
    using run_delay [OF Suc.prems(1)] by blast
  let ?s = "s\<lparr>dr_mem := fst (ticks usb view s 1), dr_hw := h1\<rparr>"
  have t: "ticks usb view ?s j = ticks usb view s (Suc j)" for j by (simp add: h1(2) funpow_swap1)
  obtain h2 where h2: "run_state (poll_event io n) ?s = (None, ?s\<lparr>dr_mem := fst (ticks usb view s (Suc n)), dr_hw := h2\<rparr>)"
      "view h2 = snd (ticks usb view s (Suc n))"
    using Suc.IH [of ?s, unfolded t] Suc.prems(1) Suc.prems(2) [of "Suc _"] by (auto simp del: funpow.simps)
  have "event_at (dr_mem s) (xh_event s) = None" using Suc.prems(2) [of 0] by simp
  then show ?case using h1 h2 by (intro exI [of _ h2]) simp
qed

lemma poll_some:
  assumes "follows_xhci usb io view s" "\<And>j. j < k \<Longrightarrow> event_at (fst (ticks usb view s j)) (xh_event s) = None"
    and "event_at (fst (ticks usb view s k)) (xh_event s) = Some t" "k < n"
  shows "\<exists>h'. run_state (poll_event io n) s
      = (Some t, s\<lparr>dr_mem := fst (ticks usb view s k), dr_hw := h', xh_event := next_event (xh_event s)\<rparr>) \<and> view h' = snd (ticks usb view s k)"
  using assms
proof (induction n arbitrary: s k)
  case (Suc n)
  show ?case
  proof (cases k)
    case 0
    let ?s = "s\<lparr>xh_event := next_event (xh_event s)\<rparr>"
    let ?x = "(rg_phys (next_event (xh_event s)) + ucast (rg_idx (next_event (xh_event s))) * 16) OR ERDP_EHB"
    obtain h1 where "run_state (rt_wr64 io (RT_IR0 + IR_ERDP) ?x) ?s = ((), ?s\<lparr>dr_hw := h1\<rparr>)" "view h1 = view (dr_hw s)"
      using run_rt_wr64 [of usb io view ?s ?x] Suc.prems(1) by auto
    then show ?thesis using Suc.prems(3) 0 by (intro exI [of _ h1]) (simp add: Let_def)
  next
    case k: (Suc k')
    obtain h1 where h1: "run_state (delay_us io 1) s = ((), s\<lparr>dr_mem := fst (ticks usb view s 1), dr_hw := h1\<rparr>)"
        "view h1 = snd (ticks usb view s 1)"
      using run_delay [OF Suc.prems(1)] by blast
    let ?s = "s\<lparr>dr_mem := fst (ticks usb view s 1), dr_hw := h1\<rparr>"
    have t: "ticks usb view ?s j = ticks usb view s (Suc j)" for j by (simp add: h1(2) funpow_swap1)
    obtain h2 where h2: "run_state (poll_event io n) ?s
        = (Some t, ?s\<lparr>dr_mem := fst (ticks usb view s k), dr_hw := h2, xh_event := next_event (xh_event s)\<rparr>)"
        "view h2 = snd (ticks usb view s k)"
      using Suc.IH [of ?s k', unfolded t] Suc.prems(1,3,4) Suc.prems(2) [of "Suc _"] k by (auto simp del: funpow.simps)
    have "event_at (dr_mem s) (xh_event s) = None" using Suc.prems(2) [of 0] k by simp
    then show ?thesis using h1 h2 by (intro exI [of _ h2]) simp
  qed
qed simp


text \<open>The wait for the end of a transfer, \<open>n\<close> polls of 1000.\<close>

lemma ticks_after:
  assumes "view h' = snd (ticks usb view s n)"
  shows "ticks usb view (s\<lparr>dr_mem := fst (ticks usb view s n), dr_hw := h'\<rparr>) j = ticks usb view s (n + j)"
  using assms by (simp add: add.commute [of n] funpow_add)

lemma await_none:
  assumes "follows_xhci usb io view s" "\<And>j. j < 1000 * n \<Longrightarrow> event_at (fst (ticks usb view s j)) (xh_event s) = None"
  shows "\<exists>h'. run_state (await_transfer io slot n) s = (None, s\<lparr>dr_mem := fst (ticks usb view s (1000 * n)), dr_hw := h'\<rparr>)
    \<and> view h' = snd (ticks usb view s (1000 * n))"
  using assms
proof (induction n arbitrary: s)
  case 0
  show ?case by (intro exI [of _ "dr_hw s"]) simp
next
  case (Suc n)
  obtain h1 where h1: "run_state (poll_event io 1000) s = (None, s\<lparr>dr_mem := fst (ticks usb view s 1000), dr_hw := h1\<rparr>)"
      "view h1 = snd (ticks usb view s 1000)"
    using poll_none [OF Suc.prems(1), of 1000] Suc.prems(2) by auto
  let ?s = "s\<lparr>dr_mem := fst (ticks usb view s 1000), dr_hw := h1\<rparr>"
  have e: "1000 * Suc n = 1000 + 1000 * n" by simp
  have "\<exists>h'. run_state (await_transfer io slot n) ?s = (None, ?s\<lparr>dr_mem := fst (ticks usb view ?s (1000 * n)), dr_hw := h'\<rparr>)
      \<and> view h' = snd (ticks usb view ?s (1000 * n))"
  proof (rule Suc.IH)
    show "event_at (fst (ticks usb view ?s j)) (xh_event ?s) = None" if "j < 1000 * n" for j
      unfolding ticks_after [OF h1(2)] using Suc.prems(2) [of "1000 + j"] that by simp
  qed (use Suc.prems in simp)
  then obtain h2 where "run_state (await_transfer io slot n) ?s = (None, s\<lparr>dr_mem := fst (ticks usb view s (1000 + 1000 * n)), dr_hw := h2\<rparr>)"
      "view h2 = snd (ticks usb view s (1000 + 1000 * n))"
    unfolding ticks_after [OF h1(2)] by auto
  then show ?case unfolding e using h1 by (intro exI [of _ h2]) simp
qed

lemma await_some:
  assumes "follows_xhci usb io view s" "\<And>j. j < k \<Longrightarrow> event_at (fst (ticks usb view s j)) (xh_event s) = None"
    and "event_at (fst (ticks usb view s k)) (xh_event s) = Some t" "k < 1000 * n"
    and "TRB_TYPE_GET (t_flags t) = TRB_TRANSFER" "TRB_SLOT_GET (t_flags t) = slot" "TRB_EP_GET (t_flags t) = 1"
  shows "\<exists>h'. run_state (await_transfer io slot n) s
      = (Some t, s\<lparr>dr_mem := fst (ticks usb view s k), dr_hw := h', xh_event := next_event (xh_event s)\<rparr>) \<and> view h' = snd (ticks usb view s k)"
  using assms(1-4)
proof (induction n arbitrary: s k)
  case (Suc n)
  show ?case
  proof (cases "k < 1000")
    case True
    from poll_some [OF Suc.prems(1-3) True] assms(5-7) show ?thesis by auto
  next
    case False
    obtain h1 where h1: "run_state (poll_event io 1000) s = (None, s\<lparr>dr_mem := fst (ticks usb view s 1000), dr_hw := h1\<rparr>)"
        "view h1 = snd (ticks usb view s 1000)"
      using poll_none [OF Suc.prems(1), of 1000] Suc.prems(2) False by auto
    let ?s = "s\<lparr>dr_mem := fst (ticks usb view s 1000), dr_hw := h1\<rparr>"
    have k: "1000 + (k - 1000) = k" using False by simp
    have "\<exists>h'. run_state (await_transfer io slot n) ?s
        = (Some t, ?s\<lparr>dr_mem := fst (ticks usb view ?s (k - 1000)), dr_hw := h', xh_event := next_event (xh_event ?s)\<rparr>)
        \<and> view h' = snd (ticks usb view ?s (k - 1000))"
    proof (rule Suc.IH)
      show "event_at (fst (ticks usb view ?s j)) (xh_event ?s) = None" if "j < k - 1000" for j
        unfolding ticks_after [OF h1(2)] using Suc.prems(2) [of "1000 + j"] that by simp
      show "event_at (fst (ticks usb view ?s (k - 1000))) (xh_event ?s) = Some t"
        unfolding ticks_after [OF h1(2)] k using Suc.prems(3) by simp
    qed (use Suc.prems False in simp_all)
    then obtain h2 where "run_state (await_transfer io slot n) ?s
        = (Some t, s\<lparr>dr_mem := fst (ticks usb view s k), dr_hw := h2, xh_event := next_event (xh_event s)\<rparr>)"
        "view h2 = snd (ticks usb view s k)"
      unfolding ticks_after [OF h1(2)] k by auto
    then show ?thesis using h1 by (intro exI [of _ h2]) simp
  qed
qed simp

text \<open>The time a command of the controller takes.\<close>

lemma ticks_wait:
  assumes "hc_rung v" "\<not> hc_halted v" "j \<le> hc_wait v"
  shows "(hc_tick usb hhdm ^^ j) (m, v) = (m, v\<lparr>hc_wait := hc_wait v - j\<rparr>)"
  using assms by (induction j) (simp_all add: hc_tick_def)

lemma ticks_perform:
  assumes "hc_rung v" "\<not> hc_halted v"
  shows "(hc_tick usb hhdm ^^ Suc (hc_wait v)) (m, v) = perform usb hhdm (m, v\<lparr>hc_wait := 0\<rparr>)"
  using ticks_wait [OF assms, of "hc_wait v" usb hhdm m] assms by (simp add: hc_tick_def)

lemma ticks_halted: "hc_halted v \<Longrightarrow> (hc_tick usb hhdm ^^ j) (m, v) = (m, v)"
  by (induction j) (simp_all add: hc_tick_def)

end
