(* ===== verification/XhciControl.thy ===== *)
theory XhciControl
  imports XhciHost
begin

text \<open>
  Control transfers end to end: a request put on the ring reaches the device as it is, and its answer the caller.  An
  endpoint that a device has stalled stays halted, as the driver has no command to restart it.
\<close>

section \<open>Rings and the rest of memory\<close>

lemma ring_rep_cong: "page m' (rg_trbs r) = page m (rg_trbs r) \<Longrightarrow> ring_rep hhdm (m', r, pc) q = ring_rep hhdm (m, r, pc) q"
  by (simp add: ring_rep_def ring_at_def)

lemma event_rep_cong: "page m' (rg_trbs r) = page m (rg_trbs r) \<Longrightarrow> event_rep (m', r, ev) q = event_rep (m, r, ev) q"
  by (cases ev) (simp add: event_rep_def)

lemma ring_rep_idx: "ring_rep hhdm (m, r, pc) q \<Longrightarrow> unat (rg_idx r) < 255"
proof -
  assume "ring_rep hhdm (m, r, pc) q"
  then obtain c where "rg_idx r = of_nat ((c + length q) mod 255)" by (auto simp: ring_rep_def ring_at_def)
  moreover have "(c + length q) mod 255 < 255" by simp
  ultimately show ?thesis by (simp add: unat_of_nat_eq less_trans [of _ 255])
qed

lemma enqueue_idx: "unat (rg_idx r) < 255 \<Longrightarrow> unat (rg_idx (snd (ring_enqueue r p x f m))) < 255"
proof -
  assume "unat (rg_idx r) < 255"
  then have "unat (rg_idx r + 1) = unat (rg_idx r) + 1" by (subst unat_add_no_overflow) simp_all
  then show ?thesis by (simp add: ring_enqueue_def Let_def word_le_nat_alt USABLE_TRBS_def RING_TRBS_def)
qed

text \<open>Putting blocks on a ring changes the page of the ring alone, full or not.\<close>

lemma puts_frame:
  assumes "unat (rg_idx r) < 255"
  shows "\<exists>m' r'. fold ring_put xs (m, r, pc) = (m', r', pc) \<and> rg_trbs r' = rg_trbs r \<and> rg_phys r' = rg_phys r \<and> unat (rg_idx r') < 255
      \<and> (\<forall>a. aligned a \<longrightarrow> aligned (rg_trbs r) \<longrightarrow> a \<noteq> rg_trbs r \<longrightarrow> page m' a = page m a)"
  using assms
proof (induction xs arbitrary: m r)
  case (Cons x xs)
  obtain m1 r1 where e: "ring_enqueue r (t_param x) (t_status x) (t_flags x) m = (m1, r1)" by fastforce
  have p: "ring_put x (m, r, pc) = (m1, r1, pc)" by (simp add: ring_put_def e)
  have r1: "unat (rg_idx r1) < 255" "rg_trbs r1 = rg_trbs r" "rg_phys r1 = rg_phys r"
    using enqueue_idx [OF Cons.prems, of "t_param x" "t_status x" "t_flags x" m] enqueue_same [of r "t_param x" "t_status x" "t_flags x" m]
    by (simp_all add: e)
  have "aligned a \<Longrightarrow> aligned (rg_trbs r) \<Longrightarrow> a \<noteq> rg_trbs r \<Longrightarrow> page m1 a = page m a" for a
    using enqueue_other [of a r "t_param x" "t_status x" "t_flags x" m] Cons.prems by (simp add: e)
  with Cons.IH [OF r1(1), of m1] r1(2,3) p show ?case by auto
qed simp

lemma puts_rep:
  assumes "ring_rep hhdm (m, r, pc) q" "length q + length xs \<le> 254" "list_all plain_trb xs"
  obtains m' r' where "fold ring_put xs (m, r, pc) = (m', r', pc)" "ring_rep hhdm (m', r', pc) (q @ xs)"
    "rg_trbs r' = rg_trbs r" "\<And>a. aligned a \<Longrightarrow> aligned (rg_trbs r) \<Longrightarrow> a \<noteq> rg_trbs r \<Longrightarrow> page m' a = page m a"
  using puts_frame [OF ring_rep_idx [OF assms(1)], of xs m pc] trb_ring.puts [OF assms] by auto

lemma event_none: "event_rep (m, r, ev) [] \<Longrightarrow> event_at m r = None"
  using event_ring.get_empty [of "(m, r, ev)"] by (auto simp: event_get_def split: option.splits)

lemma event_some:
  assumes "event_rep (m, r, ev) (x # q)"
  obtains t where "event_at m r = Some t" "bare t = x" "event_rep (m, next_event r, ev) q"
  using event_ring.get_cons [OF assms] by (auto simp: event_get_def split: option.splits)

section \<open>A transfer on the ring\<close>

definition control_trbs :: "u64 \<Rightarrow> u8 list \<Rightarrow> bool \<Rightarrow> u16 \<Rightarrow> trb list" where
  "control_trbs buf setup dir_in len =
     [\<lparr>t_param = setup_value setup, t_status = TRB_LEN 8 OR TRB_IRQ 0,
       t_flags = TRB_TYPE TRB_SETUP OR TRB_IDT OR (if len = 0 then 0 else if dir_in then TRB_TRT_IN else TRB_TRT_OUT)\<rparr>]
     @ (if len > 0 then [\<lparr>t_param = buf, t_status = TRB_LEN (ucast len) OR TRB_IRQ 0, t_flags = TRB_TYPE TRB_DATA OR (if dir_in then TRB_DIR_IN else 0)\<rparr>]
        else [])
     @ [\<lparr>t_param = 0, t_status = TRB_IRQ 0, t_flags = TRB_TYPE TRB_STATUS OR TRB_IOC OR (if len = 0 \<or> \<not> dir_in then TRB_DIR_IN else 0)\<rparr>]"

lemmas trb_consts = TRB_TYPE_def TRB_TYPE_GET_def TRB_SETUP_def TRB_DATA_def TRB_STATUS_def TRB_LINK_def TRB_IDT_def TRB_TRT_IN_def
  TRB_TRT_OUT_def TRB_IOC_def TRB_DIR_IN_def TRB_CYCLE_def TRB_LEN_def TRB_IRQ_def

lemma control_trbs_plain: "list_all plain_trb (control_trbs buf setup dir_in len)" "length (control_trbs buf setup dir_in len) \<le> 3"
  by (auto simp: control_trbs_def plain_trb_def trb_consts)

lemma run_enqueue: "run_state (enqueue sel upd p x f) s
    = ((), upd (\<lambda>_. snd (ring_enqueue (sel s) p x f (dr_mem s))) (s\<lparr>dr_mem := fst (ring_enqueue (sel s) p x f (dr_mem s))\<rparr>))"
  by (simp add: enqueue_def split_def Let_def)

lemma run_queue_control:
  assumes "fold ring_put (control_trbs (xh_ctrl_buf_phys s) setup dir_in len) (dr_mem s, xh_ep0 s, pc) = (m', r', pc)"
  shows "run_state (queue_control setup dir_in len) s = ((), s\<lparr>dr_mem := m', xh_ep0 := r'\<rparr>)"
  using assms unfolding queue_control_def control_trbs_def
  by (cases "len = 0"; cases dir_in) (auto simp: run_enqueue ring_put_def split_def Let_def word_gt_0)

text \<open>What the controller makes of it.\<close>

lemma bare_field: "k AND TRB_CYCLE = 0 \<Longrightarrow> t_flags (bare t) AND k = t_flags t AND k"
proof -
  assume z: "k AND TRB_CYCLE = 0"
  have "k = k AND (TRB_CYCLE OR NOT TRB_CYCLE)" by simp
  also have "\<dots> = NOT TRB_CYCLE AND k" unfolding bit.conj_disj_distrib z by (simp add: and.commute)
  finally have "NOT TRB_CYCLE AND k = k" by (rule sym)
  then show ?thesis by (simp add: bare_def and.assoc)
qed

lemma bare_fields: "t_flags (bare t) AND push_bit 6 1 = t_flags t AND push_bit 6 1" "t_flags (bare t) AND push_bit 5 1 = t_flags t AND push_bit 5 1"
  "t_flags (bare t) AND push_bit 16 3 = t_flags t AND push_bit 16 3" "is_in (bare t) = is_in t"
  unfolding is_in_def by (simp_all add: bare_field TRB_CYCLE_def)

lemma stages_bare: "stages_ok t1 d t3 = stages_ok (bare t1) (map_option bare d) (bare t3)"
  unfolding stages_ok_def fields_bare bare_fields by (cases d) (simp_all add: bare_fields)

lemma consume_some:
  assumes "ring_rep hhdm (m, r, pc) (x # q)"
  obtains t pc' where "consume hhdm m pc = Some (t, pc')" "bare t = x" "ring_rep hhdm (m, r, pc') q"
  using trb_ring.get_cons [OF assms] by (auto simp: ring_get_def split: option.splits)

lemma td_of_control:
  assumes "ring_rep hhdm (m, r, pc) (control_trbs buf setup dir_in len)"
  obtains t1 d t3 pc' where "td_of hhdm m pc = Some (t1, d, t3, pc')" "ring_rep hhdm (m, r, pc') []" "stages_ok t1 d t3"
    "t_param t1 = setup_value setup" "d = None \<longleftrightarrow> len = 0"
    "\<And>t. d = Some t \<Longrightarrow> is_in t = dir_in \<and> t_param t = buf \<and> td_len t = unat len"
proof -
  have ln: "unat ((ucast len :: u32) AND 0x1FFFF) = unat len"
  proof -
    have "(ucast len :: u32) AND 0x1FFFF = take_bit 17 (ucast len)" by (simp add: take_bit_eq_mask mask_eq_exp_minus_1)
    moreover have "unat len < 2 ^ 17" using unsigned_less [of len, where ?'a = nat] by simp
    ultimately show ?thesis by (simp add: unsigned_take_bit_eq unat_ucast_up take_bit_nat_eq_self)
  qed
  show thesis
  proof (cases "len = 0")
    case True
    then have q: "control_trbs buf setup dir_in len = [hd (control_trbs buf setup dir_in 0), last (control_trbs buf setup dir_in 0)]"
      by (simp add: control_trbs_def)
    from consume_some [OF assms [unfolded q]] obtain t1 pc1 where 1: "consume hhdm m pc = Some (t1, pc1)"
        "bare t1 = hd (control_trbs buf setup dir_in 0)" "ring_rep hhdm (m, r, pc1) [last (control_trbs buf setup dir_in 0)]" by blast
    from consume_some [OF 1(3)] obtain t3 pc3 where 3: "consume hhdm m pc1 = Some (t3, pc3)"
        "bare t3 = last (control_trbs buf setup dir_in 0)" "ring_rep hhdm (m, r, pc3) []" by blast
    have ty: "TRB_TYPE_GET (t_flags t3) \<noteq> TRB_DATA" unfolding fields_bare(1) [of t3, symmetric] 3(2)
      by (simp add: control_trbs_def trb_consts)
    have "td_of hhdm m pc = Some (t1, None, t3, pc3)" using 1 3 ty by (simp add: td_of_def)
    moreover have "stages_ok t1 None t3" by (subst stages_bare) (simp add: 1(2) 3(2) stages_ok_def control_trbs_def trb_consts is_in_def)
    moreover have "t_param t1 = setup_value setup" using 1(2) fields_bare(5) [of t1] by (simp add: control_trbs_def)
    ultimately show thesis using that 3(3) True by auto
  next
    case False
    then have l0: "len > 0" by (simp add: word_gt_0)
    let ?x1 = "hd (control_trbs buf setup dir_in len)" and ?x2 = "control_trbs buf setup dir_in len ! 1" and ?x3 = "last (control_trbs buf setup dir_in len)"
    have q: "control_trbs buf setup dir_in len = [?x1, ?x2, ?x3]"
      using l0 by (simp add: control_trbs_def)
    have "ring_rep hhdm (m, r, pc) [?x1, ?x2, ?x3]" using assms by (subst q [symmetric])
    from consume_some [OF this] obtain t1 pc1 where 1: "consume hhdm m pc = Some (t1, pc1)"
        "bare t1 = ?x1" "ring_rep hhdm (m, r, pc1) [?x2, ?x3]" by blast
    from consume_some [OF 1(3)] obtain t2 pc2 where 2: "consume hhdm m pc1 = Some (t2, pc2)"
        "bare t2 = ?x2" "ring_rep hhdm (m, r, pc2) [?x3]" by blast
    from consume_some [OF 2(3)] obtain t3 pc3 where 3: "consume hhdm m pc2 = Some (t3, pc3)"
        "bare t3 = ?x3" "ring_rep hhdm (m, r, pc3) []" by blast
    have ty: "TRB_TYPE_GET (t_flags t2) = TRB_DATA" unfolding fields_bare(1) [of t2, symmetric] 2(2)
      using l0 by (simp add: control_trbs_def trb_consts)
    have "td_of hhdm m pc = Some (t1, Some t2, t3, pc3)" using 1 2 3 ty by (simp add: td_of_def)
    moreover have "stages_ok t1 (Some t2) t3" using l0
      by (subst stages_bare) (simp add: 1(2) 2(2) 3(2) stages_ok_def control_trbs_def trb_consts is_in_def)
    moreover have "t_param t1 = setup_value setup" using 1(2) fields_bare(5) [of t1] by (simp add: control_trbs_def)
    moreover have "is_in t2 = dir_in" using bare_fields(4) [of t2] l0 unfolding 2(2)
      by (cases dir_in) (simp_all add: control_trbs_def is_in_def trb_consts)
    moreover have "t_param t2 = buf" using 2(2) fields_bare(5) [of t2] l0 by (simp add: control_trbs_def)
    moreover have "td_len t2 = unat len"
    proof -
      have "t_status t2 = ucast len AND 0x1FFFF" using fields_bare(4) [of t2] l0 unfolding 2(2) by (simp add: control_trbs_def trb_consts)
      then have "t_status t2 AND 0x1FFFF = ucast len AND 0x1FFFF" by (simp add: and.assoc)
      then show ?thesis using ln by (simp add: td_len_def)
    qed
    ultimately show thesis using that 3(3) False by auto
  qed
qed


section \<open>What the controller leaves\<close>

lemma take_bit_small: "x < 256 \<Longrightarrow> take_bit 8 x = (x :: u32)"
  by (simp add: take_bit_eq_mask less_mask_eq)

lemma and_masks: "x AND 0x3F = take_bit 6 (x :: u32)" "x AND 0xFF = take_bit 8 x" "x AND 0x1F = take_bit 5 x"
  by (simp_all add: take_bit_eq_mask mask_eq_exp_minus_1)

lemma drop_push: "drop_bit 10 (push_bit 24 x) = push_bit 14 (x :: u32) AND mask 22"
  "drop_bit 16 (push_bit 24 x) = push_bit 8 (x :: u32) AND mask 16"
  "drop_bit 24 (push_bit 24 x) = take_bit 8 (x :: u32)"
  by (rule bit_word_eqI, auto simp: bit_drop_bit_eq bit_push_bit_iff bit_and_iff bit_mask_iff bit_take_bit_iff)+

lemma event_type: "TRB_TYPE_GET (t_flags (xfer_event slot p code)) = TRB_TRANSFER"
  unfolding xfer_event_def trb.select_convs TRB_TYPE_GET_def TRB_SLOT_def and_masks TRB_TRANSFER_def TRB_TYPE_def
  by (simp add: drop_bit_or drop_push take_bit_push_bit take_bit_or flip: take_bit_eq_mask)

lemma event_slot: "slot < 256 \<Longrightarrow> TRB_SLOT_GET (t_flags (xfer_event slot p code)) = slot"
  unfolding xfer_event_def trb.select_convs TRB_SLOT_GET_def TRB_SLOT_def and_masks TRB_TRANSFER_def TRB_TYPE_def
  by (simp add: drop_bit_or drop_push take_bit_push_bit take_bit_or take_bit_small flip: take_bit_eq_mask)

lemma event_ep: "TRB_EP_GET (t_flags (xfer_event slot p code)) = 1"
  unfolding xfer_event_def trb.select_convs TRB_EP_GET_def TRB_SLOT_def and_masks TRB_TRANSFER_def TRB_TYPE_def
  by (simp add: drop_bit_or drop_push take_bit_push_bit take_bit_or flip: take_bit_eq_mask)

lemma event_code: "code < 256 \<Longrightarrow> TRB_COMP_GET (t_status (xfer_event slot p code)) = code"
  unfolding xfer_event_def trb.select_convs TRB_COMP_GET_def and_masks
  by (simp add: drop_push take_bit_small)

lemma push_bit_even: "push_bit 24 y AND NOT 1 = push_bit 24 (y :: u32)"
  by (rule bit_word_eqI) (auto simp: bit_push_bit_iff bit_and_iff bit_not_iff bit_1_iff)

lemma event_bare: "bare (xfer_event slot p code) = xfer_event slot p code"
  using push_bit_even [of "slot AND 0xFF"] by (simp add: xfer_event_def bare_def TRB_CYCLE_def TRB_SLOT_def TRB_TYPE_def TRB_TRANSFER_def bit.conj_disj_distrib2)

lemmas event_fields = event_type event_slot event_ep event_code event_bare

lemma post_rep:
  assumes e: "event_rep (m, e, hc_ev v) []" and a: "hc_events v + hhdm = rg_trbs e" "aligned (rg_trbs e)"
  obtains m' ev where "post hhdm p code (m, v) = (m', v\<lparr>hc_ev := ev, hc_rung := False\<rparr>)"
    "event_rep (m', e, ev) [xfer_event (hc_slot v) p code]" "\<And>x. aligned x \<Longrightarrow> x \<noteq> rg_trbs e \<Longrightarrow> page m' x = page m x"
proof -
  let ?x = "xfer_event (hc_slot v) p code"
  obtain m' ev where pr: "produce (rg_trbs e) ?x (m, hc_ev v) = (m', ev)" by (metis surj_pair)
  have "event_rep (event_put ?x (m, e, hc_ev v)) ([] @ [?x])" by (intro event_ring.put e) (simp_all add: event_bare)
  then have 1: "event_rep (m', e, ev) [?x]" by (simp add: event_put_def pr)
  obtain i c where ev: "hc_ev v = (i, c)" by fastforce
  then have i: "i < 256" using e by (auto simp: event_rep_def)
  have "m' = put_trb (rg_trbs e + of_nat (16 * i)) (t_param ?x) (t_status ?x) (with_cycle (t_flags ?x) c) m"
    using pr by (auto simp: produce_def ev)
  then have "page m' x = page m x" if "aligned x" "x \<noteq> rg_trbs e" for x
    using page_put_trb_other [OF that(1) a(2) that(2) i] by simp
  moreover have "post hhdm p code (m, v) = (m', v\<lparr>hc_ev := ev, hc_rung := False\<rparr>)" by (simp add: post_def a pr)
  ultimately show thesis using that 1 by blast
qed

lemma bit_setup_value:
  "bit (fold (\<lambda>i v. v OR push_bit (i * 8) (ucast (xs ! i))) [0..<k] (0 :: u64)) n \<longleftrightarrow>
     n < 64 \<and> n div 8 < k \<and> bit (xs ! (n div 8) :: u8) (n mod 8)"
proof (induction k)
  case (Suc k)
  have "bit (push_bit (k * 8) (ucast (xs ! k) :: u64)) n \<longleftrightarrow> n < 64 \<and> n div 8 = k \<and> bit (xs ! (n div 8)) (n mod 8)"
  proof
    assume b: "bit (push_bit (k * 8) (ucast (xs ! k) :: u64)) n"
    then have "k * 8 \<le> n" "n < 64" "bit (xs ! k) (n - k * 8)" by (simp_all add: bit_push_bit_iff bit_unsigned_iff)
    moreover from this have "n - k * 8 < 8" using bit_imp_le_length [of "xs ! k" "n - k * 8"] by simp
    moreover from calculation have "n div 8 = k" by (intro div_nat_eqI) simp_all
    moreover from this have "n mod 8 = n - k * 8" using minus_div_mult_eq_mod [of n 8] by simp
    ultimately show "n < 64 \<and> n div 8 = k \<and> bit (xs ! (n div 8)) (n mod 8)" by simp
  next
    assume a: "n < 64 \<and> n div 8 = k \<and> bit (xs ! (n div 8)) (n mod 8)"
    then have "n - k * 8 = n mod 8" "k * 8 \<le> n"
      using minus_div_mult_eq_mod [of n 8] div_times_less_eq_dividend [of n 8] by auto
    with a show "bit (push_bit (k * 8) (ucast (xs ! k) :: u64)) n"
      by (auto simp: bit_push_bit_iff bit_unsigned_iff)
  qed
  then show ?case using Suc by (auto simp: bit_or_iff less_Suc_eq)
qed simp

lemma le64_bytes: "le64 v = map (\<lambda>i. ucast (drop_bit (8 * i) v)) [0..<8]"
proof -
  have d: "(ucast (drop_bit k (ucast (w :: u64) :: u32)) :: u8) = ucast (drop_bit k w)" if "k \<le> 24" for k w
    by (rule bit_word_eqI) (use that in \<open>auto simp: bit_drop_bit_eq bit_unsigned_iff\<close>)
  have d0: "(ucast (ucast (w :: u64) :: u32) :: u8) = ucast w" for w using d [of 0 w] by simp
  have u: "[0..<8] = [0, 1, 2, 3, 4, 5, 6, 7]" by (simp add: upt_rec)
  show ?thesis unfolding u by (simp add: le64_def le32_def d d0 drop_bit_drop_bit)
qed

lemma le64_setup: "length setup = 8 \<Longrightarrow> le64 (setup_value setup) = setup"
proof (rule nth_equalityI)
  assume l: "length setup = 8"
  then show "length (le64 (setup_value setup)) = length setup" by simp
  fix i assume i: "i < length (le64 (setup_value setup))"
  have "ucast (drop_bit (8 * i) (setup_value setup)) = setup ! i"
    by (rule bit_word_eqI) (use i in \<open>auto simp: bit_byte_of setup_value_def bit_setup_value\<close>)
  then show "le64 (setup_value setup) ! i = setup ! i" using i unfolding le64_bytes by simp
qed


text \<open>What the device is sent, and what the controller leaves of its answer.\<close>

definition sent :: "memory \<Rightarrow> u64 \<Rightarrow> bool \<Rightarrow> u16 \<Rightarrow> u8 list" where
  "sent m cb dir_in len = (if dir_in \<or> len = 0 then [] else ld m cb (unat len))"

lemma perform_control:
  assumes td: "ring_rep hhdm (m, r, hc_ep0 v) (control_trbs buf setup dir_in len)" and ev: "event_rep (m, e, hc_ev v) []"
    and a: "hc_events v + hhdm = rg_trbs e" "aligned (rg_trbs r)" "aligned (rg_trbs e)" "aligned (buf + hhdm)"
    and ne: "distinct [rg_trbs r, rg_trbs e, buf + hhdm]" and len: "length setup = 8" "len \<le> 4096"
    and usb: "usb (hc_dev v) setup (sent m (buf + hhdm) dir_in len) = (reply, dev)"
  obtains m' v' where "perform usb hhdm (m, v) = (m', v')" "hc_dev v' = dev" "\<not> hc_rung v'" "hc_halted v' = (reply = None \<or> hc_halted v)"
    "hc_slot v' = hc_slot v" "hc_events v' = hc_events v"
    "event_rep (m', e, hc_ev v') [xfer_event (hc_slot v) (fst (hc_ep0 v)) (if reply = None then 6 else 1)]"
    "reply \<noteq> None \<Longrightarrow> ring_rep hhdm (m', r, hc_ep0 v') []"
    "page m' (buf + hhdm) = (case reply of Some bs \<Rightarrow> if dir_in then splice (page m (buf + hhdm)) 0 (take (unat len) bs) else page m (buf + hhdm)
       | None \<Rightarrow> page m (buf + hhdm))"
proof -
  let ?cb = "buf + hhdm"
  obtain t1 d t3 pc where t: "td_of hhdm m (hc_ep0 v) = Some (t1, d, t3, pc)" "ring_rep hhdm (m, r, pc) []" "stages_ok t1 d t3"
      "t_param t1 = setup_value setup" "d = None \<longleftrightarrow> len = 0"
      "\<And>t. d = Some t \<Longrightarrow> is_in t = dir_in \<and> t_param t = buf \<and> td_len t = unat len"
    by (rule td_of_control [OF td]) blast
  have su: "le64 (t_param t1) = setup" by (simp add: t(4) le64_setup [OF len(1)])
  have out: "(case d of None \<Rightarrow> [] | Some t \<Rightarrow> if is_in t then [] else ld m (t_param t + hhdm) (td_len t)) = sent m ?cb dir_in len"
    using t(5,6) by (auto simp: sent_def split: option.split)
  have n: "unat len \<le> 4096" using len(2) by (simp add: word_le_nat_alt)
  show thesis
  proof (cases reply)
    case None
    let ?v = "v\<lparr>hc_dev := dev, hc_halted := True\<rparr>"
    obtain m' ev' where p: "post hhdm (fst (hc_ep0 v)) 6 (m, ?v) = (m', ?v\<lparr>hc_ev := ev', hc_rung := False\<rparr>)"
        "event_rep (m', e, ev') [xfer_event (hc_slot v) (fst (hc_ep0 v)) 6]" "\<And>x. aligned x \<Longrightarrow> x \<noteq> rg_trbs e \<Longrightarrow> page m' x = page m x"
      using post_rep [of m e ?v hhdm "fst (hc_ep0 v)" 6] ev a(1,3) by auto
    have "perform usb hhdm (m, v) = (m', ?v\<lparr>hc_ev := ev', hc_rung := False\<rparr>)"
      using t(3) usb None by (simp add: perform_def t(1) su out p(1))
    moreover have "page m' ?cb = page m ?cb" using p(3) [OF a(4)] ne by auto
    ultimately show thesis using that [of m'] p(2) None by simp
  next
    case (Some bs)
    let ?v = "v\<lparr>hc_dev := dev, hc_ep0 := pc\<rparr>"
    let ?m = "case d of None \<Rightarrow> m | Some t \<Rightarrow> if is_in t then st m (t_param t + hhdm) (take (td_len t) bs) else m"
    have pg: "page ?m x = (if x = ?cb \<and> dir_in then splice (page m ?cb) 0 (take (unat len) bs) else page m x)" if "aligned x" for x
    proof (cases d)
      case None
      then show ?thesis using t(5) by (simp add: splice_def)
    next
      case (Some t')
      then show ?thesis using t(6) [OF Some] n page_st_0 [of "take (unat len) bs" m ?cb]
          page_st_other_0 [OF that a(4), of "take (unat len) bs" m]
        by auto
    qed
    have er: "event_rep (?m, e, hc_ev ?v) []" using ev pg [OF a(3)] ne by (subst event_rep_cong [of _ _ m]) auto
    obtain m' ev' where p: "post hhdm (fst (hc_ep0 v)) 1 (?m, ?v) = (m', ?v\<lparr>hc_ev := ev', hc_rung := False\<rparr>)"
        "event_rep (m', e, ev') [xfer_event (hc_slot v) (fst (hc_ep0 v)) 1]" "\<And>x. aligned x \<Longrightarrow> x \<noteq> rg_trbs e \<Longrightarrow> page m' x = page ?m x"
      using post_rep [OF er, of hhdm "fst (hc_ep0 v)" 1] a(1,3) by auto
    have "perform usb hhdm (m, v) = (m', ?v\<lparr>hc_ev := ev', hc_rung := False\<rparr>)"
      using t(3) usb Some p(1) by (simp add: perform_def t(1) su out Let_def)
    moreover have "ring_rep hhdm (m', r, pc) []"
      using t(2) p(3) [OF a(2)] pg [OF a(2)] ne by (subst ring_rep_cong [of _ _ m]) auto
    moreover have "page m' ?cb = (if dir_in then splice (page m ?cb) 0 (take (unat len) bs) else page m ?cb)"
      using p(3) [OF a(4)] pg [OF a(4)] ne by auto
    ultimately show thesis using that [of m'] p(2) Some by simp
  qed
qed


section \<open>The driver's side\<close>

text \<open>A driver after its initialisation: the rings and the buffer are pages of their own, seen by the controller where the
  driver says, and no event waits.\<close>

definition xhci_up :: "'d usb_device \<Rightarrow> 'h usb_io \<Rightarrow> ('h \<Rightarrow> 'd hc) \<Rightarrow> 'h xhci \<Rightarrow> bool" where
  "xhci_up usb io view s \<longleftrightarrow>
     follows_xhci usb io view s \<and> xh_ready s \<and> xh_slot s < 256
     \<and> aligned (rg_trbs (xh_ep0 s)) \<and> aligned (rg_trbs (xh_event s)) \<and> aligned (xh_ctrl_buf s)
     \<and> distinct [rg_trbs (xh_ep0 s), rg_trbs (xh_event s), xh_ctrl_buf s]
     \<and> xh_ctrl_buf_phys s + dr_hhdm s = xh_ctrl_buf s \<and> unat (rg_idx (xh_ep0 s)) < 255
     \<and> hc_slot (view (dr_hw s)) = xh_slot s \<and> hc_events (view (dr_hw s)) + dr_hhdm s = rg_trbs (xh_event s)
     \<and> event_rep (dr_mem s, xh_event s, hc_ev (view (dr_hw s))) []"

text \<open>The control endpoint is idle; or it is halted.\<close>

definition xhci_serving :: "'d usb_device \<Rightarrow> 'h usb_io \<Rightarrow> ('h \<Rightarrow> 'd hc) \<Rightarrow> 'h xhci \<Rightarrow> bool" where
  "xhci_serving usb io view s \<longleftrightarrow> xhci_up usb io view s \<and> \<not> hc_halted (view (dr_hw s)) \<and> \<not> hc_rung (view (dr_hw s))
     \<and> ring_rep (dr_hhdm s) (dr_mem s, xh_ep0 s, hc_ep0 (view (dr_hw s))) []"

definition xhci_stalled :: "'d usb_device \<Rightarrow> 'h usb_io \<Rightarrow> ('h \<Rightarrow> 'd hc) \<Rightarrow> 'h xhci \<Rightarrow> bool" where
  "xhci_stalled usb io view s \<longleftrightarrow> xhci_up usb io view s \<and> hc_halted (view (dr_hw s))"

lemma upd_order: "s\<lparr>xh_ep0 := r, dr_mem := m\<rparr> = s\<lparr>dr_mem := m, xh_ep0 := r\<rparr>" by simp

lemma run_doorbell:
  assumes "follows_xhci usb io view s"
  shows "\<exists>h' lat. run_state (doorbell io (xh_slot s) 1) s = ((), s\<lparr>dr_hw := h'\<rparr>) \<and> lat + 1 < TMO_XFER_US
    \<and> view h' = (view (dr_hw s))\<lparr>hc_rung := True, hc_wait := lat\<rparr>"
proof -
  note f = assms [unfolded follows_xhci_def]
  note wr = f [THEN conjunct2, THEN conjunct1] and rd = f [THEN conjunct2, THEN conjunct2, THEN conjunct1]
  obtain h1 lat where h1: "mm_write io (bell s) 1 (dr_mem s, dr_hw s) = (dr_mem s, h1)" "lat + 1 < TMO_XFER_US"
      "view h1 = (view (dr_hw s))\<lparr>hc_rung := True, hc_wait := lat\<rparr>"
    using wr by meson
  obtain v h2 where h2: "mm_read io (bell s) (dr_mem s, h1) = (v, dr_mem s, h2)" "view h2 = view h1"
    using rd by meson
  have "run_state (mmio_write io (xh_db_base s + xh_slot s * 4) 1) s = ((), s\<lparr>dr_hw := h1\<rparr>)"
    using h1(1) by (simp add: mmio_write_def wr_at_def bell_def)
  moreover have "run_state (mmio_read io (xh_db_base s + xh_slot s * 4)) (s\<lparr>dr_hw := h1\<rparr>) = (v, s\<lparr>dr_hw := h2\<rparr>)"
    using h2(1) by (simp add: mmio_read_def rd_at_def bell_def)
  ultimately have "run_state (doorbell io (xh_slot s) 1) s = ((), s\<lparr>dr_hw := h2\<rparr>)" by (simp add: doorbell_def)
  then show ?thesis using h1(2,3) h2(2) by (intro exI [of _ h2] exI [of _ lat]) simp
qed

lemma polls: "1000 * (TMO_XFER_US div 1000) = TMO_XFER_US" by (simp add: TMO_XFER_US_def)

lemma request_served:
  assumes sv: "xhci_serving usb io view s" and len: "length setup = 8" "len \<le> 4096"
    and usb: "usb (hc_dev (view (dr_hw s))) setup (sent (dr_mem s) (xh_ctrl_buf s) dir_in len) = (reply, dev)"
  obtains t m' r' e' h' where
    "run_state (request io setup dir_in len) s = (Some t, s\<lparr>dr_mem := m', xh_ep0 := r', dr_hw := h', xh_event := e'\<rparr>)"
    "TRB_COMP_GET (t_status t) = (if reply = None then 6 else 1)" "hc_dev (view h') = dev"
    "reply \<noteq> None \<Longrightarrow> xhci_serving usb io view (s\<lparr>dr_mem := m', xh_ep0 := r', dr_hw := h', xh_event := e'\<rparr>)"
    "reply = None \<Longrightarrow> xhci_stalled usb io view (s\<lparr>dr_mem := m', xh_ep0 := r', dr_hw := h', xh_event := e'\<rparr>)"
    "page m' (xh_ctrl_buf s) = (case reply of Some bs \<Rightarrow> if dir_in then splice (page (dr_mem s) (xh_ctrl_buf s)) 0 (take (unat len) bs)
       else page (dr_mem s) (xh_ctrl_buf s) | None \<Rightarrow> page (dr_mem s) (xh_ctrl_buf s))"
proof -
  let ?v = "view (dr_hw s)" and ?cb = "xh_ctrl_buf s" and ?T = "control_trbs (xh_ctrl_buf_phys s) setup dir_in len"
  have up: "xhci_up usb io view s" and idle: "\<not> hc_halted ?v" "\<not> hc_rung ?v" "ring_rep (dr_hhdm s) (dr_mem s, xh_ep0 s, hc_ep0 ?v) []"
    using sv by (simp_all add: xhci_serving_def)
  note u = up [unfolded xhci_up_def]
  have f: "follows_xhci usb io view s" using u by blast
  obtain m2 r2 where q: "fold ring_put ?T (dr_mem s, xh_ep0 s, hc_ep0 ?v) = (m2, r2, hc_ep0 ?v)"
      "ring_rep (dr_hhdm s) (m2, r2, hc_ep0 ?v) ([] @ ?T)" "rg_trbs r2 = rg_trbs (xh_ep0 s)"
      "\<And>a. aligned a \<Longrightarrow> aligned (rg_trbs (xh_ep0 s)) \<Longrightarrow> a \<noteq> rg_trbs (xh_ep0 s) \<Longrightarrow> page m2 a = page (dr_mem s) a"
    using puts_rep [OF idle(3), of ?T] control_trbs_plain [of "xh_ctrl_buf_phys s" "setup" dir_in len] by auto
  let ?s2 = "s\<lparr>dr_mem := m2, xh_ep0 := r2\<rparr>"
  obtain h3 lat where d: "run_state (doorbell io (xh_slot s) 1) ?s2 = ((), ?s2\<lparr>dr_hw := h3\<rparr>)" "lat + 1 < TMO_XFER_US"
      "view h3 = ?v\<lparr>hc_rung := True, hc_wait := lat\<rparr>"
    using run_doorbell [of usb io view ?s2] f by auto
  let ?s3 = "?s2\<lparr>dr_hw := h3\<rparr>" and ?v3 = "view h3"
  have ev2: "event_rep (m2, xh_event s, hc_ev ?v) []"
    using u q(4) [of "rg_trbs (xh_event s)"] by (subst event_rep_cong [of _ _ "dr_mem s"]) auto
  have cb: "xh_ctrl_buf_phys s + dr_hhdm s = ?cb" using u by blast
  have pg: "page m2 ?cb = page (dr_mem s) ?cb" using u q(4) [of ?cb] by auto
  have snt: "sent m2 ?cb dir_in len = sent (dr_mem s) ?cb dir_in len"
    using pg ld_page_0 [of "unat len"] len(2) by (simp add: sent_def word_le_nat_alt)
  obtain m4 v4 where p: "perform usb (dr_hhdm s) (m2, ?v3\<lparr>hc_wait := 0\<rparr>) = (m4, v4)" "hc_dev v4 = dev" "\<not> hc_rung v4"
      "hc_halted v4 = (reply = None)" "hc_slot v4 = xh_slot s" "hc_events v4 = hc_events ?v"
      "event_rep (m4, xh_event s, hc_ev v4) [xfer_event (xh_slot s) (fst (hc_ep0 ?v)) (if reply = None then 6 else 1)]"
      "reply \<noteq> None \<Longrightarrow> ring_rep (dr_hhdm s) (m4, r2, hc_ep0 v4) []"
      "page m4 ?cb = (case reply of Some bs \<Rightarrow> if dir_in then splice (page (dr_mem s) ?cb) 0 (take (unat len) bs) else page (dr_mem s) ?cb
         | None \<Rightarrow> page (dr_mem s) ?cb)"
    using perform_control [of "dr_hhdm s" m2 r2 "?v3\<lparr>hc_wait := 0\<rparr>" "xh_ctrl_buf_phys s" "setup" dir_in len "xh_event s" usb reply dev]
      q(2,3) ev2 u len usb idle(1) unfolding cb snt pg d(3) by auto
  obtain t where t: "event_at m4 (xh_event s) = Some t" "bare t = xfer_event (xh_slot s) (fst (hc_ep0 ?v)) (if reply = None then 6 else 1)"
      "event_rep (m4, next_event (xh_event s), hc_ev v4) []"
    using event_some [OF p(7)] by blast
  have sl: "xh_slot s < 256" using u by blast
  have tf: "TRB_TYPE_GET (t_flags t) = TRB_TRANSFER" "TRB_SLOT_GET (t_flags t) = xh_slot s" "TRB_EP_GET (t_flags t) = 1"
    using fields_bare(1-3) [of t] unfolding t(2) by (simp_all add: event_fields sl)
  have tc: "TRB_COMP_GET (t_status t) = (if reply = None then 6 else 1)"
    using arg_cong [OF t(2), of "\<lambda>x. TRB_COMP_GET (t_status x)"] by (cases reply) (simp_all add: event_code)
  have rung: "hc_rung ?v3" "\<not> hc_halted ?v3" "hc_wait ?v3 = lat" using idle d(3) by simp_all
  have tk: "ticks usb view ?s3 j = (m2, ?v3\<lparr>hc_wait := lat - j\<rparr>)" if "j \<le> lat" for j
    using ticks_wait [OF rung(1,2), of j usb "dr_hhdm s" m2] that rung(3) by simp
  have tp: "ticks usb view ?s3 (Suc lat) = (m4, v4)"
    using ticks_perform [OF rung(1,2), of usb "dr_hhdm s" m2] p(1) by (simp only: rung(3)) simp
  have none: "event_at (fst (ticks usb view ?s3 j)) (xh_event ?s3) = None" if "j < Suc lat" for j
    using tk [of j] event_none [OF ev2] that by simp
  have "\<exists>h'. run_state (await_transfer io (xh_slot s) (TMO_XFER_US div 1000)) ?s3
      = (Some t, ?s3\<lparr>dr_mem := fst (ticks usb view ?s3 (Suc lat)), dr_hw := h', xh_event := next_event (xh_event ?s3)\<rparr>)
      \<and> view h' = snd (ticks usb view ?s3 (Suc lat))"
    by (rule await_some) (use f none tp t(1) d(2) tf in \<open>simp_all add: polls del: funpow.simps\<close>)
  then obtain h' where h': "run_state (await_transfer io (xh_slot s) (TMO_XFER_US div 1000)) ?s3
      = (Some t, s\<lparr>dr_mem := m4, xh_ep0 := r2, dr_hw := h', xh_event := next_event (xh_event s)\<rparr>)" "view h' = v4"
    unfolding tp by (auto simp: upd_order)
  let ?s' = "s\<lparr>dr_mem := m4, xh_ep0 := r2, dr_hw := h', xh_event := next_event (xh_event s)\<rparr>"
  have "rg_trbs (next_event (xh_event s)) = rg_trbs (xh_event s)" by (simp add: next_event_def Let_def)
  then have up': "xhci_up usb io view ?s'"
    using u q(3) t(3) p(5,6) h'(2) ring_rep_idx [OF q(2)] by (simp add: xhci_up_def follows_xhci_def bell_def erdp_def)
  have "run_state (request io setup dir_in len) s = (Some t, ?s')"
    using run_queue_control [of s "setup" dir_in len] q(1) d(1) h'(1) by (simp add: request_def)
  moreover have "reply \<noteq> None \<Longrightarrow> xhci_serving usb io view ?s'" using up' p(3,4,8) h'(2) by (simp add: xhci_serving_def)
  moreover have "reply = None \<Longrightarrow> xhci_stalled usb io view ?s'" using up' p(4) h'(2) by (simp add: xhci_stalled_def)
  ultimately show thesis using that tc p(2,9) h'(2) by blast
qed


section \<open>A control transfer\<close>

lemma up_mem:
  assumes "xhci_up usb io view s" "length bs \<le> 4096"
  shows "xhci_up usb io view (s\<lparr>dr_mem := st (dr_mem s) (xh_ctrl_buf s) bs\<rparr>)"
    "page (st (dr_mem s) (xh_ctrl_buf s) bs) (rg_trbs (xh_ep0 s)) = page (dr_mem s) (rg_trbs (xh_ep0 s))"
proof -
  note u = assms(1) [unfolded xhci_up_def]
  have p: "page (st (dr_mem s) (xh_ctrl_buf s) bs) a = page (dr_mem s) a" if "aligned a" "a \<noteq> xh_ctrl_buf s" for a
    using that u assms(2) by (intro page_st_other_0) auto
  have "event_rep (st (dr_mem s) (xh_ctrl_buf s) bs, xh_event s, hc_ev (view (dr_hw s))) []"
    using u p [of "rg_trbs (xh_event s)"] by (subst event_rep_cong [of _ _ "dr_mem s"]) auto
  then show "xhci_up usb io view (s\<lparr>dr_mem := st (dr_mem s) (xh_ctrl_buf s) bs\<rparr>)" using u by (simp add: xhci_up_def)
  show "page (st (dr_mem s) (xh_ctrl_buf s) bs) (rg_trbs (xh_ep0 s)) = page (dr_mem s) (rg_trbs (xh_ep0 s))"
    using u p [of "rg_trbs (xh_ep0 s)"] by auto
qed

lemma serving_mem:
  assumes "xhci_serving usb io view s" "length bs \<le> 4096"
  shows "xhci_serving usb io view (s\<lparr>dr_mem := st (dr_mem s) (xh_ctrl_buf s) bs\<rparr>)"
proof -
  have up: "xhci_up usb io view s" using assms(1) by (simp add: xhci_serving_def)
  have "ring_rep (dr_hhdm s) (st (dr_mem s) (xh_ctrl_buf s) bs, xh_ep0 s, hc_ep0 (view (dr_hw s))) []"
    using up_mem(2) [OF up assms(2)] assms(1) by (subst ring_rep_cong [of _ _ "dr_mem s"]) (auto simp: xhci_serving_def)
  then show ?thesis using up_mem(1) [OF up assms(2)] assms(1) by (simp add: xhci_serving_def)
qed

lemma stalled_mem:
  assumes "xhci_stalled usb io view s" "length bs \<le> 4096"
  shows "xhci_stalled usb io view (s\<lparr>dr_mem := st (dr_mem s) (xh_ctrl_buf s) bs\<rparr>)"
  using assms up_mem(1) [of usb io view s bs] by (simp add: xhci_stalled_def)

lemma control_request:
  assumes "xh_ready s" "\<not> sets_address setup" "len > 0 \<Longrightarrow> into_device setup \<Longrightarrow> data \<noteq> None \<and> len \<le> 4096"
  shows "run_state (xhci_control io setup data len) s =
    run_state (do { r \<leftarrow> request io setup (\<not> into_device setup) len; control_end io setup data len r })
      (if len > 0 \<and> into_device setup then s\<lparr>dr_mem := st (dr_mem s) (xh_ctrl_buf s) (take (unat len) (the data))\<rparr> else s)"
  using assms unfolding xhci_control_def by (auto simp: on_mem_def Let_def split_def not_less)


text \<open>The data that goes to the device, and what the caller's buffer holds after an answer: what the device sent, and
  behind a short answer whatever the driver's buffer held before.\<close>

definition data_out :: "u8 list \<Rightarrow> u8 list option \<Rightarrow> u16 \<Rightarrow> u8 list" where
  "data_out setup data len = (if into_device setup \<and> len > 0 then take (unat len) (the data) else [])"

definition data_in :: "u8 list \<Rightarrow> u8 list option \<Rightarrow> u16 \<Rightarrow> u8 list \<Rightarrow> u8 list \<Rightarrow> u8 list option" where
  "data_in setup data len old bs =
     (if into_device setup \<or> len = 0 then data
      else Some (splice (the data) 0 (take (unat len) bs @ drop (length bs) old)))"

lemma ld_control: "n \<le> 4096 \<Longrightarrow> page m' a = splice (page m a) 0 (take n bs) \<Longrightarrow> ld m' a n = take n bs @ drop (length bs) (ld m a n)"
proof -
  assume n: "n \<le> 4096" and p: "page m' a = splice (page m a) 0 (take n bs)"
  have "take n (splice (page m a) 0 (take n bs)) = take n bs @ drop (length bs) (take n (page m a))"
    by (cases "length bs \<le> n") (simp_all add: splice_def drop_take)
  then show ?thesis using n by (simp add: ld_page_0 p subbuf_def)
qed

lemma request_control:
  assumes sv: "xhci_serving usb io view s" and su: "length setup = 8" and len: "len \<le> 4096"
    and d: "len > 0 \<Longrightarrow> data \<noteq> None"
    and usb: "usb (hc_dev (view (dr_hw s))) setup (sent (dr_mem s) (xh_ctrl_buf s) (\<not> into_device setup) len) = (reply, dev)"
    and mps: "\<And>bs. reply = Some bs \<Longrightarrow> asks_descriptor setup len \<Longrightarrow> 8 \<le> length bs \<and> ucast (bs ! 7) = xh_ep0_mps s"
  shows "\<exists>s'. run_state (do { r \<leftarrow> request io setup (\<not> into_device setup) len; control_end io setup data len r }) s
      = ((reply \<noteq> None, case reply of Some bs \<Rightarrow> data_in setup data len (ld (dr_mem s) (xh_ctrl_buf s) (unat len)) bs | None \<Rightarrow> data), s')
    \<and> hc_dev (view (dr_hw s')) = dev
    \<and> (if reply = None then xhci_stalled usb io view s' else xhci_serving usb io view s')"
proof -
  obtain t m' r' e' h' where r:
    "run_state (request io setup (\<not> into_device setup) len) s = (Some t, s\<lparr>dr_mem := m', xh_ep0 := r', dr_hw := h', xh_event := e'\<rparr>)"
    "TRB_COMP_GET (t_status t) = (if reply = None then 6 else 1)" "hc_dev (view h') = dev"
    "reply \<noteq> None \<Longrightarrow> xhci_serving usb io view (s\<lparr>dr_mem := m', xh_ep0 := r', dr_hw := h', xh_event := e'\<rparr>)"
    "reply = None \<Longrightarrow> xhci_stalled usb io view (s\<lparr>dr_mem := m', xh_ep0 := r', dr_hw := h', xh_event := e'\<rparr>)"
    "page m' (xh_ctrl_buf s) = (case reply of Some bs \<Rightarrow> if \<not> into_device setup then splice (page (dr_mem s) (xh_ctrl_buf s)) 0 (take (unat len) bs)
       else page (dr_mem s) (xh_ctrl_buf s) | None \<Rightarrow> page (dr_mem s) (xh_ctrl_buf s))"
    using request_served [OF sv su len usb] by metis
  let ?s = "s\<lparr>dr_mem := m', xh_ep0 := r', dr_hw := h', xh_event := e'\<rparr>"
  have n: "unat len \<le> 4096" using len by (simp add: word_le_nat_alt)
  have "run_state (control_end io setup data len (Some t)) ?s
      = ((reply \<noteq> None, case reply of Some bs \<Rightarrow> data_in setup data len (ld (dr_mem s) (xh_ctrl_buf s) (unat len)) bs | None \<Rightarrow> data), ?s)"
  proof (cases reply)
    case None
    then show ?thesis using r(2) by (simp add: control_end_def COMP_SUCCESS_def COMP_SHORT_PACKET_def)
  next
    case (Some bs)
    show ?thesis
    proof (cases "len > 0 \<and> \<not> into_device setup")
      case True
      then have p: "page m' (xh_ctrl_buf s) = splice (page (dr_mem s) (xh_ctrl_buf s)) 0 (take (unat len) bs)" using r(6) Some by simp
      have b7: "ucast (m' (xh_ctrl_buf s + 7)) = xh_ep0_mps s" if "asks_descriptor setup len"
      proof -
        have l: "7 < unat len" using that by (simp add: asks_descriptor_def word_le_nat_alt)
        have "m' (xh_ctrl_buf s + 7) = page m' (xh_ctrl_buf s) ! 7" by (simp add: page_def ld_def)
        also have "\<dots> = bs ! 7" unfolding p using mps [OF Some that] l n by (simp add: nth_splice)
        finally show ?thesis using mps [OF Some that] by simp
      qed
      have u: "unat (ucast len :: u32) = unat len" by (rule unat_ucast_up) simp
      have "ld m' (xh_ctrl_buf s) (unat len) = take (unat len) bs @ drop (length bs) (ld (dr_mem s) (xh_ctrl_buf s) (unat len))"
        by (rule ld_control [OF n p])
      then show ?thesis using r(2) Some True b7 d by (auto simp: control_end_def COMP_SUCCESS_def Let_def data_in_def u)
    next
      case False
      then show ?thesis using r(2) Some by (auto simp: control_end_def COMP_SUCCESS_def Let_def data_in_def word_gt_0)
    qed
  qed
  then show ?thesis using r by (intro exI [of _ ?s]) simp
qed

lemma control_serves:
  assumes sv: "xhci_serving usb io view s" and su: "length setup = 8" "\<not> sets_address setup" and len: "len \<le> 4096"
    and d: "len > 0 \<Longrightarrow> \<exists>bs. data = Some bs \<and> unat len \<le> length bs"
    and usb: "usb (hc_dev (view (dr_hw s))) setup (data_out setup data len) = (reply, dev)"
    and mps: "\<And>bs. reply = Some bs \<Longrightarrow> asks_descriptor setup len \<Longrightarrow> 8 \<le> length bs \<and> ucast (bs ! 7) = xh_ep0_mps s"
  shows "\<exists>s'. run_state (xhci_control io setup data len) s
      = ((reply \<noteq> None, case reply of Some bs \<Rightarrow> data_in setup data len (ld (dr_mem s) (xh_ctrl_buf s) (unat len)) bs | None \<Rightarrow> data), s')
    \<and> hc_dev (view (dr_hw s')) = dev
    \<and> (if reply = None then xhci_stalled usb io view s' else xhci_serving usb io view s')"
proof -
  let ?fill = "len > 0 \<and> into_device setup"
  let ?s = "if ?fill then s\<lparr>dr_mem := st (dr_mem s) (xh_ctrl_buf s) (take (unat len) (the data))\<rparr> else s"
  have n: "unat len \<le> 4096" using len by (simp add: word_le_nat_alt)
  have up: "xh_ready s" using sv by (simp add: xhci_serving_def xhci_up_def)
  have sv': "xhci_serving usb io view ?s" using serving_mem [OF sv, of "take (unat len) (the data)"] sv n by auto
  have out: "sent (dr_mem ?s) (xh_ctrl_buf ?s) (\<not> into_device setup) len = data_out setup data len"
    using d n by (auto simp: sent_def data_out_def ld_st_same word_gt_0)
  have same: "hc_dev (view (dr_hw ?s)) = hc_dev (view (dr_hw s))" "xh_ep0_mps ?s = xh_ep0_mps s" by simp_all
  have c: "run_state (xhci_control io setup data len) s =
      run_state (do { r \<leftarrow> request io setup (\<not> into_device setup) len; control_end io setup data len r }) ?s"
    using control_request [OF up su(2)] d len by auto
  have i: "data_in setup data len (ld (dr_mem ?s) (xh_ctrl_buf ?s) (unat len)) bs
      = data_in setup data len (ld (dr_mem s) (xh_ctrl_buf s) (unat len)) bs" for bs
    by (auto simp: data_in_def)
  have "\<exists>s'. run_state (do { r \<leftarrow> request io setup (\<not> into_device setup) len; control_end io setup data len r }) ?s
      = ((reply \<noteq> None, case reply of Some bs \<Rightarrow> data_in setup data len (ld (dr_mem ?s) (xh_ctrl_buf ?s) (unat len)) bs | None \<Rightarrow> data), s')
    \<and> hc_dev (view (dr_hw s')) = dev
    \<and> (if reply = None then xhci_stalled usb io view s' else xhci_serving usb io view s')"
    by (rule request_control [OF sv' su(1) len]) (use d usb mps in \<open>auto simp: out same simp del: if_split\<close>)
  then show ?thesis unfolding c i .
qed


section \<open>After a stall\<close>

lemma request_stalled:
  assumes st: "xhci_stalled usb io view s"
  shows "\<exists>s'. run_state (request io setup dir_in len) s = (None, s') \<and> xhci_stalled usb io view s'"
proof -
  let ?v = "view (dr_hw s)" and ?T = "control_trbs (xh_ctrl_buf_phys s) setup dir_in len"
  have up: "xhci_up usb io view s" "hc_halted ?v" using st by (simp_all add: xhci_stalled_def)
  note u = up(1) [unfolded xhci_up_def]
  have f: "follows_xhci usb io view s" using u by blast
  have "unat (rg_idx (xh_ep0 s)) < 255" using u by blast
  from puts_frame [OF this, of ?T "dr_mem s" "(0, True)"] obtain m2 r2 where q: "fold ring_put ?T (dr_mem s, xh_ep0 s, 0, True) = (m2, r2, 0, True)"
      "rg_trbs r2 = rg_trbs (xh_ep0 s)" "unat (rg_idx r2) < 255"
      "\<And>a. aligned a \<Longrightarrow> aligned (rg_trbs (xh_ep0 s)) \<Longrightarrow> a \<noteq> rg_trbs (xh_ep0 s) \<Longrightarrow> page m2 a = page (dr_mem s) a" by blast
  let ?s2 = "s\<lparr>dr_mem := m2, xh_ep0 := r2\<rparr>"
  obtain h3 lat where d: "run_state (doorbell io (xh_slot s) 1) ?s2 = ((), ?s2\<lparr>dr_hw := h3\<rparr>)"
      "view h3 = ?v\<lparr>hc_rung := True, hc_wait := lat\<rparr>"
    using run_doorbell [of usb io view ?s2] f by auto
  let ?s3 = "?s2\<lparr>dr_hw := h3\<rparr>"
  have ev2: "event_rep (m2, xh_event s, hc_ev ?v) []"
    using u q(4) [of "rg_trbs (xh_event s)"] by (subst event_rep_cong [of _ _ "dr_mem s"]) auto
  have tk: "ticks usb view ?s3 j = (m2, view h3)" for j by (simp add: ticks_halted d(2) up(2))
  have "event_at (fst (ticks usb view ?s3 j)) (xh_event ?s3) = None" for j unfolding tk using event_none [OF ev2] by simp
  then obtain h4 where h4: "run_state (await_transfer io (xh_slot s) (TMO_XFER_US div 1000)) ?s3 = (None, ?s3\<lparr>dr_hw := h4\<rparr>)" "view h4 = view h3"
    using await_none [of usb io view ?s3 "TMO_XFER_US div 1000" "xh_slot s"] f unfolding tk by (auto simp: upd_order)
  let ?s' = "?s2\<lparr>dr_hw := h4\<rparr>"
  have "run_state (request io setup dir_in len) s = (None, ?s')"
    using run_queue_control [of s "setup" dir_in len] q(1) d(1) h4(1) by (simp add: request_def)
  moreover have "xhci_up usb io view ?s'" using u q(2,3) ev2 d(2) h4(2) by (simp add: xhci_up_def follows_xhci_def bell_def erdp_def)
  then have "xhci_stalled usb io view ?s'" using up(2) d(2) h4(2) by (simp add: xhci_stalled_def)
  ultimately show ?thesis by blast
qed

lemma control_stalled:
  assumes "xhci_stalled usb io view s" "\<not> sets_address setup"
  shows "\<exists>s'. run_state (xhci_control io setup data len) s = ((False, data), s') \<and> xhci_stalled usb io view s'"
proof (cases "len > 0 \<and> into_device setup \<longrightarrow> data \<noteq> None \<and> len \<le> 4096")
  case True
  have rdy: "xh_ready s" using assms(1) by (simp add: xhci_stalled_def xhci_up_def)
  let ?s = "if len > 0 \<and> into_device setup then s\<lparr>dr_mem := st (dr_mem s) (xh_ctrl_buf s) (take (unat len) (the data))\<rparr> else s"
  have "unat len \<le> 4096" if "len \<le> 4096" using that by (simp add: word_le_nat_alt)
  then have "xhci_stalled usb io view ?s" using True stalled_mem [OF assms(1), of "take (unat len) (the data)"] assms(1) by auto
  from request_stalled [OF this] obtain s' where "run_state (request io setup (\<not> into_device setup) len) ?s = (None, s')" "xhci_stalled usb io view s'"
    by blast
  then show ?thesis using control_request [OF rdy assms(2), of len data io] True by (intro exI [of _ s']) (simp add: control_end_def)
next
  case False
  have rdy: "xh_ready s" using assms(1) by (simp add: xhci_stalled_def xhci_up_def)
  show ?thesis using False rdy assms by (intro exI [of _ s]) (auto simp: xhci_control_def Let_def not_less)
qed

text \<open>A series of requests, with their results.\<close>

fun control_all :: "'h usb_io \<Rightarrow> (u8 list \<times> u8 list option \<times> u16) list \<Rightarrow> ('h, bool list) xh" where
  "control_all io [] = ret []"
| "control_all io ((setup, data, len) # xs) = do {
     (ok, _) \<leftarrow> xhci_control io setup data len;
     oks \<leftarrow> control_all io xs;
     ret (ok # oks) }"

lemma control_all_stalled:
  "xhci_stalled usb io view s \<Longrightarrow> list_all (\<lambda>(setup, _). \<not> sets_address setup) xs \<Longrightarrow>
   fst (run_state (control_all io xs) s) = replicate (length xs) False"
proof (induction xs arbitrary: s)
  case (Cons x xs)
  obtain su data len where x: "x = (su, data, len)" by (metis prod_cases3)
  obtain s' where "run_state (xhci_control io su data len) s = ((False, data), s')" "xhci_stalled usb io view s'"
    using control_stalled [OF Cons.prems(1), of su data len] Cons.prems(2) by (auto simp: x)
  with Cons.IH [of s'] Cons.prems(2) show ?case by (simp add: x split_def)
qed simp

text \<open>C34. A control transfer on a controller that follows xHCI: the request reaches the device once, with the bytes of the
  caller when the data goes out; the caller gets the answer in its buffer, and \<open>True\<close>, or \<open>False\<close> with the
  buffer unchanged when the device stalls.  After an answer the controller serves the next transfer in the same way; after a stall
  every later transfer fails, as the driver has no command to restart the endpoint.  The device says the packet size of
  endpoint 0 that was set up (otherwise the driver sets it up again), and no request sets the address.\<close>

theorem xhci_control_transfers:
  assumes sv: "xhci_serving usb io view s" and su: "length setup = 8" "\<not> sets_address setup" and len: "len \<le> 4096"
    and d: "len > 0 \<Longrightarrow> \<exists>bs. data = Some bs \<and> unat len \<le> length bs"
    and usb: "usb (hc_dev (view (dr_hw s))) setup (data_out setup data len) = (reply, dev)"
    and mps: "\<And>bs. reply = Some bs \<Longrightarrow> asks_descriptor setup len \<Longrightarrow> 8 \<le> length bs \<and> ucast (bs ! 7) = xh_ep0_mps s"
  shows "\<exists>s'. run_state (xhci_control io setup data len) s
      = ((reply \<noteq> None, case reply of Some bs \<Rightarrow> data_in setup data len (ld (dr_mem s) (xh_ctrl_buf s) (unat len)) bs | None \<Rightarrow> data), s')
    \<and> hc_dev (view (dr_hw s')) = dev
    \<and> (if reply \<noteq> None then xhci_serving usb io view s'
       else \<forall>xs. list_all (\<lambda>(setup, _). \<not> sets_address setup) xs \<longrightarrow> fst (run_state (control_all io xs) s') = replicate (length xs) False)"
proof -
  from control_serves [OF sv su len d usb mps] obtain s' where
    "run_state (xhci_control io setup data len) s
      = ((reply \<noteq> None, case reply of Some bs \<Rightarrow> data_in setup data len (ld (dr_mem s) (xh_ctrl_buf s) (unat len)) bs | None \<Rightarrow> data), s')"
    "hc_dev (view (dr_hw s')) = dev" "if reply = None then xhci_stalled usb io view s' else xhci_serving usb io view s'" by blast
  then show ?thesis using control_all_stalled [of usb io view s'] by (intro exI [of _ s']) auto
qed

text \<open>In particular a series of requests whose first one is stalled fails as a whole.\<close>

theorem xhci_stall_is_final:
  assumes sv: "xhci_serving usb io view s" and su: "length setup = 8" "\<not> sets_address setup" and len: "len \<le> 4096"
    and d: "len > 0 \<Longrightarrow> \<exists>bs. data = Some bs \<and> unat len \<le> length bs"
    and usb: "fst (usb (hc_dev (view (dr_hw s))) setup (data_out setup data len)) = None"
    and xs: "list_all (\<lambda>(setup, _). \<not> sets_address setup) xs"
  shows "fst (run_state (control_all io ((setup, data, len) # xs)) s) = replicate (Suc (length xs)) False"
proof -
  obtain dev where u: "usb (hc_dev (view (dr_hw s))) setup (data_out setup data len) = (None, dev)" using usb by (metis prod.collapse)
  from control_serves [OF sv su len d u] obtain s' where
    s': "run_state (xhci_control io setup data len) s = ((False, data), s')" "xhci_stalled usb io view s'" by auto
  show ?thesis using s'(1) control_all_stalled [OF s'(2) xs] by (simp add: split_def)
qed

section \<open>A controller\<close>

text \<open>The hypothesis at its simplest: every register of the controller is a doorbell or has no effect, with a latency of 3.\<close>

definition demo_usb :: "'d usb_device \<Rightarrow> u64 \<Rightarrow> u64 \<Rightarrow> ('d hc) usb_io" where
  "demo_usb usb hhdm db =
     \<lparr>mm_read = (\<lambda>a (m, v). (0, m, v)),
      mm_write = (\<lambda>a x (m, v). (m, if a = db then v\<lparr>hc_rung := True, hc_wait := 3\<rparr> else v)),
      ui_delay = (\<lambda>us. hc_tick usb hhdm),
      ui_pci = \<lparr>pci_outl = (\<lambda>v _ _. v), pci_inl = (\<lambda>v _. (0, v))\<rparr>\<rparr>"


definition demo_device :: "unit usb_device" where
  "demo_device d setup out = (if setup ! 1 = 6 then Some [18, 1, 0, 2, 0, 0, 0, 64] else None, d)"

definition demo_host :: "unit hc xhci" where
  "demo_host = (xhci_boot (ring_init (HHDM + 0x10000) 0x10000 (\<lambda>_. 0))
       \<lparr>hc_dev = (), hc_slot = 1, hc_ep0 = (0x10000, True), hc_events = 0x11000, hc_ev = (0, True), hc_rung = False,
        hc_wait = 0, hc_halted = False\<rparr> dma_boot phys_ex)
     \<lparr>dr_hhdm := HHDM, dr_base := HHDM + 0xFEB00000, xh_rt_base := 0x2000, xh_db_base := 0x3000, xh_ready := True,
      xh_slot := 1, xh_ep0_mps := 64, xh_ctrl_buf := HHDM + 0x12000, xh_ctrl_buf_phys := 0x12000,
      xh_ep0 := \<lparr>rg_trbs = HHDM + 0x10000, rg_phys = 0x10000, rg_idx = 0, rg_cycle = 1\<rparr>,
      xh_event := \<lparr>rg_trbs = HHDM + 0x11000, rg_phys = 0x11000, rg_idx = 0, rg_cycle = 1\<rparr>\<rparr>"

abbreviation demo_io :: "unit hc usb_io" where "demo_io \<equiv> demo_usb demo_device HHDM (bell demo_host)"

lemma demo_host_fields: "dr_hhdm demo_host = HHDM" "dr_base demo_host = HHDM + 0xFEB00000" "xh_rt_base demo_host = 0x2000"
    "xh_db_base demo_host = 0x3000" "xh_ready demo_host" "xh_slot demo_host = 1" "xh_ep0_mps demo_host = 64"
    "xh_ctrl_buf demo_host = HHDM + 0x12000" "xh_ctrl_buf_phys demo_host = 0x12000"
    "xh_ep0 demo_host = \<lparr>rg_trbs = HHDM + 0x10000, rg_phys = 0x10000, rg_idx = 0, rg_cycle = 1\<rparr>"
    "xh_event demo_host = \<lparr>rg_trbs = HHDM + 0x11000, rg_phys = 0x11000, rg_idx = 0, rg_cycle = 1\<rparr>"
    "dr_mem demo_host = ring_init (HHDM + 0x10000) 0x10000 (\<lambda>_. 0)"
    "dr_hw demo_host = \<lparr>hc_dev = (), hc_slot = 1, hc_ep0 = (0x10000, True), hc_events = 0x11000, hc_ev = (0, True), hc_rung = False,
        hc_wait = 0, hc_halted = False\<rparr>"
  by (simp_all add: demo_host_def xhci_boot_def driver_boot_def driver.defs)

lemma demo_host_follows: "follows_xhci demo_device demo_io (\<lambda>v. v) demo_host"
proof -
  have ne: "erdp demo_host \<noteq> bell demo_host" "erdp demo_host + 4 \<noteq> bell demo_host"
    by (simp_all add: erdp_def bell_def demo_host_fields RT_IR0_def IR_ERDP_def)
  have l: "(3 :: nat) + 1 < TMO_XFER_US" by (simp add: TMO_XFER_US_def)
  show ?thesis unfolding follows_xhci_def
  proof (intro conjI allI impI)
    fix m and h :: "unit hc"
    show "\<exists>h' lat. mm_write demo_io (bell demo_host) 1 (m, h) = (m, h') \<and> lat + 1 < TMO_XFER_US \<and> h' = h\<lparr>hc_rung := True, hc_wait := lat\<rparr>"
      using l by (intro exI [of _ "h\<lparr>hc_rung := True, hc_wait := 3\<rparr>"] exI [of _ 3]) (simp add: demo_usb_def)
  qed (use ne in \<open>auto simp: demo_usb_def demo_host_fields\<close>)
qed

lemma demo_serving: "xhci_serving demo_device demo_io (\<lambda>v. v) demo_host"
proof -
  have a: "aligned (HHDM + 0x10000)" "aligned (HHDM + 0x11000)" "aligned (HHDM + 0x12000)" by (simp_all add: aligned_def HHDM_def)
  have us: "ucast USABLE_TRBS * 16 = (of_nat (16 * 255) :: u64)" "unat RING_TRBS * 16 = 4096"
    by (simp_all add: USABLE_TRBS_def RING_TRBS_def)
  have "page (ring_init (HHDM + 0x10000) 0x10000 (\<lambda>_. 0)) (HHDM + 0x11000) = page (\<lambda>_. 0) (HHDM + 0x11000)"
    unfolding ring_init_def us using a by (subst page_put_trb_other) (simp_all add: page_st_other_0)
  then have e: "event_rep (dr_mem demo_host, xh_event demo_host, 0, True) []"
    by (intro event_init_rep) (simp_all add: demo_host_fields page_def ld_def map_replicate_const)
  have r: "ring_rep HHDM (dr_mem demo_host, xh_ep0 demo_host, 0x10000, True) []"
    using ring_init_rep [of HHDM "xh_ep0 demo_host" "\<lambda>_. 0"] by (simp add: demo_host_fields ring_ok_def)
  show ?thesis using demo_host_follows a e r
    by (simp add: xhci_serving_def xhci_up_def demo_host_fields)
qed

theorem xhci_control_transfers_witness:
  "\<exists>s'. run_state (xhci_control demo_io [0x80, 6, 0, 1, 0, 0, 8, 0] (Some (replicate 18 0)) 8) demo_host
     = ((True, Some ([18, 1, 0, 2, 0, 0, 0, 64] @ replicate 10 0)), s')"
proof -
  have "\<exists>s'. run_state (xhci_control demo_io [0x80, 6, 0, 1, 0, 0, 8, 0] (Some (replicate 18 0)) 8) demo_host
     = ((Some [18, 1, 0, 2, 0, 0, 0, 64 :: u8] \<noteq> None, case Some [18, 1, 0, 2, 0, 0, 0, 64] of
         Some bs \<Rightarrow> data_in [0x80, 6, 0, 1, 0, 0, 8, 0] (Some (replicate 18 0)) 8 (ld (dr_mem demo_host) (xh_ctrl_buf demo_host) (unat (8 :: u16))) bs
       | None \<Rightarrow> Some (replicate 18 0)), s')
    \<and> hc_dev (dr_hw s') = ()
    \<and> (if Some [18, 1, 0, 2, 0, 0, 0, 64 :: u8] \<noteq> None then xhci_serving demo_device demo_io (\<lambda>v. v) s'
       else \<forall>xs. list_all (\<lambda>(setup, _). \<not> sets_address setup) xs \<longrightarrow> fst (run_state (control_all demo_io xs) s') = replicate (length xs) False)"
    by (rule xhci_control_transfers [OF demo_serving])
      (auto simp: sets_address_def demo_device_def demo_host_fields data_out_def into_device_def)
  then show ?thesis by (auto simp: data_in_def into_device_def splice_def)
qed

theorem xhci_stall_is_final_witness:
  "fst (run_state (control_all demo_io
     [([0x21, 0x0A, 0, 0, 0, 0, 0, 0], None, 0), ([0x80, 6, 0, 1, 0, 0, 8, 0], Some (replicate 18 0), 8)]) demo_host) = [False, False]"
proof -
  let ?xs = "[([0x80, 6, 0, 1, 0, 0, 8, 0], Some (replicate 18 0), 8)] :: (u8 list \<times> u8 list option \<times> u16) list"
  have "fst (run_state (control_all demo_io (([0x21, 0x0A, 0, 0, 0, 0, 0, 0], None, 0) # ?xs)) demo_host) = replicate (Suc (length ?xs)) False"
    by (rule xhci_stall_is_final [OF demo_serving]) (simp_all add: sets_address_def demo_device_def)
  then show ?thesis by (simp del: control_all.simps)
qed

end
