(* ===== verification/Boot.thy ===== *)
theory Boot
  imports SystemCommands
begin

text \<open>
  The boot sequence, \<open>main.cpp\<close>: a program over the state of the system that brings up every component
  in the order of the code, restores the saved mount and registers the drivers, up to the call of the
  shell.  What the boot loader answers to its requests is a parameter (\<open>limine\<close>).
\<close>

section \<open>What the boot finds\<close>

text \<open>The framebuffer of the boot loader: the console uses its geometry, the log its depth too.\<close>

record limine_fb =
  lf_geometry :: fbuf
  lf_bpp :: u16

text \<open>The responses of the boot loader (\<open>None\<close> for a null pointer; the command line is only used when
  both pointers on its way are set), the memory in which firmware tables lie, \<open>cpuid\<close>, the PCI
  configuration ports, the addresses of the interrupt stubs, and \<open>disk::init\<close> with what it leaves in
  \<open>disk::active_driver\<close> and \<open>disk::info\<close>.\<close>

record ('d, 'p) limine =
  b_revision_ok :: bool
  b_fb :: "limine_fb option"
  b_loader :: "(cstr option \<times> cstr option) option"
  b_firmware :: "u64 option"
  b_cmdline :: "cstr option"
  b_date :: "u64 option"
  b_memmap :: "(mem_kind \<times> u64 \<times> u64) list option"
  b_hhdm :: "u64 option"
  b_smbios :: "smbios_response option"
  b_rsdp :: "u64 option"
  b_tables :: bytes_mem
  b_cpuid :: "u32 \<Rightarrow> u32 \<Rightarrow> u32 \<times> u32 \<times> u32 \<times> u32"
  b_pci :: "'p pci_ports"
  b_isr_default :: u64
  b_isr :: "nat \<Rightarrow> u64"
  b_cs :: u16
  b_disk_init :: "u64 \<Rightarrow> 'd \<Rightarrow> bool \<times> 'd"
  b_driver :: "'d \<Rightarrow> driver"
  b_info :: "'d \<Rightarrow> disk_info"

definition usable_map :: "(mem_kind \<times> u64 \<times> u64) list \<Rightarrow> memmap" where
  "usable_map es = map (\<lambda>(k, b, l). Some \<lparr>me_base = b, me_length = l, me_usable = (k = Mem_usable)\<rparr>) es"

section \<open>Messages\<close>

definition print_tag :: "u32 \<Rightarrow> string \<Rightarrow> cstr \<Rightarrow> ('d, 'p, unit) cmd" where
  "print_tag c tag t = say [Color c, tx tag, Color COLOR_GRAY, Puts t, Puts [10]]"

definition print_ok :: "string \<Rightarrow> ('d, 'p, unit) cmd" where "print_ok t = print_tag COLOR_GREEN '' [ OK ] '' (ascii t)"
definition print_info :: "string \<Rightarrow> ('d, 'p, unit) cmd" where "print_info t = print_tag COLOR_CYAN '' [INFO] '' (ascii t)"
definition print_warn :: "cstr \<Rightarrow> ('d, 'p, unit) cmd" where "print_warn t = print_tag COLOR_YELLOW '' [WARN] '' t"
definition print_fail :: "string \<Rightarrow> ('d, 'p, unit) cmd" where "print_fail t = print_tag COLOR_RED '' [FAIL] '' (ascii t)"

text \<open>A line that starts with a label in cyan.\<close>

definition labelled :: "string \<Rightarrow> con_call list \<Rightarrow> con_call list" where
  "labelled t cs = [Color COLOR_CYAN, tx ('' [INFO] '' @ t), Color COLOR_GRAY] @ cs"

definition debug_u64 :: "u64 \<Rightarrow> con_call list" where "debug_u64 v = map Putc (print_u64 v)"

definition debug_hex64 :: "u64 \<Rightarrow> con_call list" where
  "debug_hex64 v = tx ''0x'' # map (\<lambda>i. Putc (hex_digit (unat (drop_bit (4 * i) v AND 0xF)))) (rev [0..<16])"

definition debug_hex8 :: "u8 \<Rightarrow> con_call list" where "debug_hex8 v = map Putc (print_hex8 v)"

text \<open>The lines are those of the banner of \<open>neofetch\<close>.\<close>

definition print_banner :: "('d, 'p, unit) cmd" where
  "print_banner = say
    (let ls = map (\<lambda>(c, l). Puts l) banner in
     Color COLOR_BLUE # take 2 ls @ Color COLOR_CYAN # take 2 (drop 2 ls) @ Color COLOR_GREEN # drop 4 ls
     @ [Color COLOR_GRAY, tx ''                              '', tx ''PodumatOS'', tx '' v'', tx ''0.2.0'',
        Puts (ascii '' by Thinking Developer'' @ [10, 10])])"

text \<open>The tone: the speaker's timer, then its gate on and off.  The busy loop in between is left out.\<close>

definition beep :: "('d, 'p) env \<Rightarrow> u32 \<Rightarrow> ('d, 'p, unit) cmd" where
  "beep env freq = modify (\<lambda>s.
     let io = i_ports (e_input env);
         divisor = 1193180 div freq;
         b = p_outb io (s_bus s) 0x43 0xB6;
         b = p_outb io b 0x42 (ucast (divisor AND 0xFF));
         b = p_outb io b 0x42 (ucast (drop_bit 8 divisor AND 0xFF));
         (v, b) = p_inb io b 0x61;
         b = p_outb io b 0x61 (v OR 0x03);
         (v, b) = p_inb io b 0x61;
         b = p_outb io b 0x61 (v AND NOT 0x03)
     in s\<lparr>s_bus := b\<rparr>)"

section \<open>The stages\<close>

definition boot_loader :: "('d, 'p) limine \<Rightarrow> ('d, 'p, unit) cmd" where
  "boot_loader lm =
     (case b_loader lm of None \<Rightarrow> print_warn (ascii ''No bootloader info from Limine'')
      | Some (bname, bver) \<Rightarrow> do {
          _ \<leftarrow> set_bootloader_info bname bver;
          say (labelled ''Bootloader: '' [Puts (case bname of Some n \<Rightarrow> n | None \<Rightarrow> ascii ''?''), tx '' v'',
            Puts (case bver of Some v \<Rightarrow> v | None \<Rightarrow> ascii ''?''), Putc 10]) })"

definition boot_firmware :: "('d, 'p) env \<Rightarrow> ('d, 'p) limine \<Rightarrow> ('d, 'p, unit) cmd" where
  "boot_firmware env lm =
     (case b_firmware lm of None \<Rightarrow> ret ()
      | Some t \<Rightarrow> do {
          _ \<leftarrow> set_firmware_type t;
          say (labelled ''Firmware: '' [tx (firmware_str (e_fw env) t), Putc 10]) })"

definition boot_cmdline :: "('d, 'p) limine \<Rightarrow> ('d, 'p, unit) cmd" where
  "boot_cmdline lm =
     (case b_cmdline lm of None \<Rightarrow> ret ()
      | Some c \<Rightarrow> do {
          _ \<leftarrow> set_cmdline (Some c);
          say (labelled ''Kernel cmdline: '' [Puts c, Putc 10]) })"

definition boot_date :: "('d, 'p) limine \<Rightarrow> ('d, 'p, unit) cmd" where
  "boot_date lm = (case b_date lm of None \<Rightarrow> ret () | Some t \<Rightarrow> set_boot_timestamp t)"

definition boot_cpu :: "('d, 'p) limine \<Rightarrow> ('d, 'p, unit) cmd" where
  "boot_cpu lm = do {
     let c = init_cpuinfo (b_cpuid lm);
     _ \<leftarrow> modify (\<lambda>s. s\<lparr>s_cpu := c\<rparr>);
     _ \<leftarrow> print_ok ''CPUID info gathered'';
     _ \<leftarrow> say (labelled ''CPU: '' [Puts (ci_brand c), Putc 10]);
     say (labelled ''Vendor: '' ([Puts (ci_vendor c), tx '' | '']
       @ (if ci_sse c then [tx ''SSE ''] else []) @ (if ci_sse2 c then [tx ''SSE2 ''] else [])
       @ (if ci_avx c then [tx ''AVX ''] else []) @ (if ci_avx2 c then [tx ''AVX2 ''] else []) @ [Putc 10])) }"

definition boot_ram :: "('d, 'p) limine \<Rightarrow> ('d, 'p, unit) cmd" where
  "boot_ram lm =
     (case b_memmap lm of None \<Rightarrow> print_warn (ascii ''No memory map from Limine'')
      | Some es \<Rightarrow> do {
          _ \<leftarrow> modify (\<lambda>s. s\<lparr>s_ram := init_ram_info (Some (map (\<lambda>(k, b, l). (k, l)) es)) (s_ram s)\<rparr>);
          _ \<leftarrow> print_ok ''Memory map parsed'';
          r \<leftarrow> asks s_ram;
          say (labelled ''RAM: total '' (debug_u64 (total_bytes r div (1024 * 1024)) @ [tx '' MB, usable '']
            @ debug_u64 (usable_bytes r div (1024 * 1024)) @ [ln '' MB''])) })"

text \<open>Interrupts and PCI.\<close>

definition boot_interrupts :: "('d, 'p) limine \<Rightarrow> ('d, 'p, unit) cmd" where
  "boot_interrupts lm = do {
     _ \<leftarrow> cpu [Load_idt (idt_init (b_isr_default lm) (b_isr lm) (b_cs lm) (replicate 256
       \<lparr>isr_low = 0, kernel_cs = 0, ist = 0, attributes = 0, isr_mid = 0, isr_high = 0, reserved = 0\<rparr>))];
     _ \<leftarrow> print_ok ''IDT loaded (256 vectors)'';
     _ \<leftarrow> cpu (map (\<lambda>(p, v). Out8 p v) (pic_remap 32 40));
     _ \<leftarrow> print_ok ''PIC remapped (IRQ 32-47)'';
     ws \<leftarrow> attempt [] (pit_init 100);
     _ \<leftarrow> cpu (map (\<lambda>(p, v). Out8 p v) ws);
     print_ok ''PIT initialized (100 Hz)'' }"

definition boot_pci :: "('d, 'p) limine \<Rightarrow> ('d, 'p, unit) cmd" where
  "boot_pci lm = do {
     _ \<leftarrow> modify (\<lambda>s. case pci_init (b_pci lm) (s_bus s) of (ds, b) \<Rightarrow> s\<lparr>s_pci := ds, s_bus := b\<rparr>);
     _ \<leftarrow> print_ok ''PCI enumerated'';
     ds \<leftarrow> asks s_pci;
     say (labelled ''PCI devices: '' (debug_u64 (of_nat (pci_device_count ds)) @ [Putc 10])) }"

text \<open>The offset of the direct map, 0 without one.\<close>

definition boot_hhdm :: "('d, 'p) limine \<Rightarrow> ('d, 'p, u64) cmd" where
  "boot_hhdm lm =
     (case b_hhdm lm of None \<Rightarrow> do { _ \<leftarrow> print_warn (ascii ''No HHDM from Limine''); ret 0 }
      | Some h \<Rightarrow> do {
          _ \<leftarrow> say (labelled ''HHDM offset: '' (debug_hex64 h @ [Putc 10]));
          _ \<leftarrow> print_ok ''HHDM offset available'';
          ret h })"

definition boot_smbios :: "('d, 'p) limine \<Rightarrow> u64 \<Rightarrow> ('d, 'p, unit) cmd" where
  "boot_smbios lm hhdm =
     (case b_smbios lm of None \<Rightarrow> print_warn (ascii ''No SMBIOS from Limine'')
      | Some r \<Rightarrow> do {
          _ \<leftarrow> modify (\<lambda>s. s\<lparr>s_dmi := dmi_init (b_tables lm) (Some r) hhdm (s_dmi s)\<rparr>);
          d \<leftarrow> asks s_dmi;
          if dmi_available d then do {
            _ \<leftarrow> print_ok ''SMBIOS/DMI parsed'';
            _ \<leftarrow> say (labelled ''Motherboard: '' [Puts (motherboard d), Putc 10]);
            say (labelled ''BIOS: '' [Puts (bios_vendor d), tx '' '', Puts (bios_version d), Putc 10]) }
          else print_warn (ascii ''SMBIOS table not usable'') })"

definition boot_acpi :: "('d, 'p) limine \<Rightarrow> u64 \<Rightarrow> ('d, 'p, unit) cmd" where
  "boot_acpi lm hhdm =
     (case b_rsdp lm of None \<Rightarrow> print_warn (ascii ''No RSDP from Limine - ACPI poweroff unavailable'')
      | Some a \<Rightarrow> if a \<noteq> 0 then set_acpi_rsdp (b_tables lm) a hhdm
                 else print_warn (ascii ''No RSDP from Limine - ACPI poweroff unavailable''))"

definition boot_memory :: "('d, 'p) limine \<Rightarrow> u64 \<Rightarrow> ('d, 'p, unit) cmd" where
  "boot_memory lm hhdm = do {
     _ \<leftarrow> (case b_memmap lm of None \<Rightarrow> ret ()
      | Some es \<Rightarrow> do {
          _ \<leftarrow> modify (\<lambda>s. case dma_init (h_phys (s_heap s)) (Some (usable_map es)) hhdm of
             (d, p) \<Rightarrow> s\<lparr>s_dma := d, s_heap := (s_heap s)\<lparr>h_phys := p\<rparr>\<rparr>);
          s \<leftarrow> State_Monad.get;
          let p = h_phys (s_heap s);
          if dma_ready (s_dma s) then do {
            _ \<leftarrow> say (labelled ''Physical pages: '' (debug_u64 (g_free_pages p) @ [tx '' free / ''] @ debug_u64 (g_total_pages p)
              @ [tx '' total (''] @ debug_u64 (g_total_pages p * 4096 div (1024 * 1024)) @ [tx '' MB total, '']
              @ debug_u64 (g_used_pages p * 4096 div (1024 * 1024)) @ [ln '' MB used)'']));
            print_ok ''Physical page allocator ready'' }
          else print_warn (ascii ''Physical page allocator not initialized'') });
     _ \<leftarrow> modify (\<lambda>s. s\<lparr>s_heap := heap_init (s_heap s)\<rparr>);
     print_ok ''Kernel heap initialized'' }"

text \<open>\<open>input::init\<close> never returns \<open>false\<close>; it may wait for ever.\<close>

definition boot_input :: "('d, 'p) env \<Rightarrow> u64 \<Rightarrow> ('d, 'p, unit) cmd" where
  "boot_input env hhdm = do {
     i \<leftarrow> asks s_input;
     b \<leftarrow> asks s_bus;
     (i, b) \<leftarrow> attempt (i, b) (input_init (e_input env) hhdm i b);
     _ \<leftarrow> modify (\<lambda>s. s\<lparr>s_input := i, s_bus := b\<rparr>);
     _ \<leftarrow> say (labelled ''Input source: '' [Puts (active_source_name i), Putc 10]);
     print_ok ''Input initialized'' }"

definition driver_name :: "driver \<Rightarrow> string" where
  "driver_name d = (case d of AHCI \<Rightarrow> ''AHCI'' | ATA \<Rightarrow> ''ATA PIO'' | NONE \<Rightarrow> ''none'')"

definition boot_disk :: "('d, 'p) limine \<Rightarrow> u64 \<Rightarrow> ('d, 'p, unit) cmd" where
  "boot_disk lm hhdm = do {
     ok \<leftarrow> on_dev (b_disk_init lm hhdm);
     d \<leftarrow> the_dev;
     let i = b_info lm d;
     _ \<leftarrow> modify (\<lambda>s. s\<lparr>s_drv := b_driver lm d, s_disk := i\<rparr>);
     if ok then do {
       _ \<leftarrow> say (labelled ''Block driver: '' [tx (driver_name (b_driver lm d)), Putc 10]);
       _ \<leftarrow> say (labelled ''Disk: '' ([Puts (cbuf (di_model i)), tx '' (''] @ debug_u64 (info_total i div 2048) @ [ln '' MB)'']));
       print_ok ''Block device initialized'' }
     else print_warn (ascii ''No ATA/AHCI disk found'') }"

section \<open>Partitions and the saved mount\<close>

definition partition_line :: "nat \<Rightarrow> partition \<Rightarrow> con_call list" where
  "partition_line i p =
     [Color COLOR_CYAN, tx '' [INFO] Partition '', Putc (of_nat (48 + i)), tx '': type=0x'', Color COLOR_GRAY]
     @ debug_hex8 (ptype p) @ [tx ''  lba=''] @ debug_u64 (ucast (lba_start p))
     @ [tx ''  size=''] @ debug_u64 (ucast (sector_count p div 2048)) @ [tx '' MB  ('', Puts (type_name (ptype p)), ln '')'']"

definition restore_mount :: "('d, 'p) env \<Rightarrow> ('d, 'p, unit) cmd" where
  "restore_mount env = do {
     r \<leftarrow> ask_cfg (get_last (e_io env));
     case r of None \<Rightarrow> ret ()
     | Some e \<Rightarrow> do {
         _ \<leftarrow> say (labelled ''Restoring saved mount: '' ([Putc (letter e), tx '': at LBA '']
           @ debug_u64 (ucast (se_lba e)) @ [Putc 10]));
         restored \<leftarrow> mount_saved env e;
         if restored then print_ok ''Mount restored from config sector''
         else do {
           _ \<leftarrow> print_warn (dash ''Saved mount no longer valid'' ''clearing config'');
           _ \<leftarrow> on_cfg (clear (e_io env));
           ret () } } }"

definition report_partitions :: "u8 list \<Rightarrow> ('d, 'p, unit) cmd" where
  "report_partitions m = do {
     _ \<leftarrow> print_ok ''MBR signature valid (0xAA55)'';
     let parts = filter (\<lambda>i. ptype (get_part m i) \<noteq> 0) [0, 1, 2, 3];
     _ \<leftarrow> say (concat (map (\<lambda>i. partition_line i (get_part m i)) parts));
     print_tag COLOR_CYAN '' [INFO] '' (if parts \<noteq> []
       then ascii ''Use '' @ [39] @ ascii ''mount <letter>: <lba>'' @ [39] @ ascii '' to mount a partition''
       else ascii ''No partitions found. Use '' @ [39] @ ascii ''fdisk create ...'' @ [39] @ ascii '' to create one.'') }"

definition boot_partitions :: "('d, 'p) env \<Rightarrow> ('d, 'p, unit) cmd" where
  "boot_partitions env = do {
     i \<leftarrow> asks s_disk;
     d \<leftarrow> the_dev;
     if \<not> di_present i then print_info ''No disk, skipping filesystem setup''
     else case mbr_read (e_io env) d of
       None \<Rightarrow> print_warn (ascii ''No valid MBR signature. Use '' @ [39] @ ascii ''fdisk init'' @ [39] @ ascii '' to create one.'')
     | Some m \<Rightarrow>
         if mbr_signature m \<noteq> 0xAA55
         then print_warn (ascii ''No valid MBR signature. Use '' @ [39] @ ascii ''fdisk init'' @ [39] @ ascii '' to create one.'')
         else do { _ \<leftarrow> report_partitions m; restore_mount env } }"

definition register :: "cstr \<Rightarrow> cstr \<Rightarrow> bool \<Rightarrow> ('d, 'p, unit) cmd" where
  "register name description ok = modify (\<lambda>s. s\<lparr>s_reg := reg_add (s_reg s) name description ok\<rparr>)"

definition boot_registry :: "('d, 'p, unit) cmd" where
  "boot_registry = do {
     _ \<leftarrow> modify (\<lambda>s. s\<lparr>s_reg := reg_clear\<rparr>);
     _ \<leftarrow> register (ascii ''serial'') (ascii ''COM1 (0x3F8)'') True;
     _ \<leftarrow> register (ascii ''framebuffer'') (ascii ''VESA (Limine)'') True;
     s \<leftarrow> State_Monad.get;
     _ \<leftarrow> register (ascii ''input'') (active_source_name (s_input s)) (in_source (s_input s) \<noteq> NoSource);
     _ \<leftarrow> register (ascii ''pit'') (ascii ''PIT @ 100 Hz'') True;
     _ \<leftarrow> register (ascii ''pci'') (ascii ''PCI enumeration'') True;
     _ \<leftarrow> (if di_present (s_disk s) then register (ascii (driver_name (s_drv s))) (cbuf (di_model (s_disk s))) True
          else register (ascii ''block'') (ascii ''no disk'') False);
     if ext2_is_mounted (fs (s_e2 s)) then register (ascii ''ext2'') (ascii ''mounted'') True
     else if mounted (s_fat s) then register (ascii ''fat32'') (ascii ''mounted'') True
     else register (ascii ''fs'') (ascii ''not mounted'') False }"

section \<open>The boot\<close>

text \<open>The stages behind the framebuffer.\<close>

definition boot_stages :: "('d, 'p) env \<Rightarrow> ('d, 'p) limine \<Rightarrow> limine_fb \<Rightarrow> ('d, 'p, unit) cmd" where
  "boot_stages env lm f = do {
     let g = lf_geometry f;
     _ \<leftarrow> say [Init_console g];
     _ \<leftarrow> print_banner;
     _ \<leftarrow> beep env 880;
     _ \<leftarrow> print_ok ''Kernel loaded'';
     _ \<leftarrow> print_info ''Limine boot protocol: base revision 6'';
     _ \<leftarrow> say (labelled ''Framebuffer: '' (debug_u64 (fb_width g) @ [tx ''x''] @ debug_u64 (fb_height g) @ [tx ''x'']
       @ debug_u64 (ucast (lf_bpp f)) @ [tx ''bpp, pitch=''] @ debug_u64 (fb_pitch g) @ [ln '' bytes'']));
     _ \<leftarrow> boot_loader lm;
     _ \<leftarrow> boot_firmware env lm;
     _ \<leftarrow> boot_cmdline lm;
     _ \<leftarrow> boot_date lm;
     _ \<leftarrow> boot_cpu lm;
     _ \<leftarrow> boot_ram lm;
     _ \<leftarrow> boot_interrupts lm;
     _ \<leftarrow> boot_pci lm;
     hhdm \<leftarrow> boot_hhdm lm;
     _ \<leftarrow> boot_smbios lm hhdm;
     _ \<leftarrow> boot_acpi lm hhdm;
     _ \<leftarrow> boot_memory lm hhdm;
     _ \<leftarrow> boot_input env hhdm;
     _ \<leftarrow> boot_disk lm hhdm;
     _ \<leftarrow> boot_partitions env;
     _ \<leftarrow> boot_registry;
     _ \<leftarrow> cpu [Sti];
     _ \<leftarrow> print_ok ''Interrupts enabled (IF=1)'';
     _ \<leftarrow> beep env 1320;
     say [Puts [10], Color COLOR_WHITE, tx ''Welcome to '', tx ''PodumatOS'', tx '' v'', tx ''0.2.0'', Putc 10,
       Color COLOR_GRAY, Puts [10]] }"

text \<open>Whether the shell is reached; otherwise the processor is halted for good.\<close>

definition kmain :: "('d, 'p) env \<Rightarrow> ('d, 'p) limine \<Rightarrow> ('d, 'p, bool) cmd" where
  "kmain env lm = do {
     _ \<leftarrow> say [Color COLOR_GRAY];
     if \<not> b_revision_ok lm then do { _ \<leftarrow> cpu [Halt]; ret False }
     else case b_fb lm of None \<Rightarrow> do { _ \<leftarrow> cpu [Halt]; ret False }
     | Some f \<Rightarrow> do { _ \<leftarrow> boot_stages env lm f; ret True } }"

end
