(* ===== verification/BootProps.thy ===== *)
theory BootProps
  imports Boot OneMount
begin

text \<open>
  From power on: what the boot leaves alone, which file systems can be mounted after it and any session,
  and that a mount survives a reboot.
\<close>

section \<open>What the boot leaves alone\<close>

text \<open>The part of the state that matters to the file systems: what is mounted, the saved mounts, the disk.\<close>

definition boot_view :: "('d, 'p) sys \<Rightarrow> ext2_fs \<times> fs_state \<times> config_state \<times> 'd" where
  "boot_view s = (fs (s_e2 s), s_fat s, s_cfg s, dev (s_e2 s))"

definition quiet :: "('d, 'p, 'a) cmd \<Rightarrow> bool" where
  "quiet p \<longleftrightarrow> (\<forall>s. boot_view (snd (run_state p s)) = boot_view s)"

named_theorems quiet

lemma quiet_return [quiet]: "quiet (ret x)" by (simp add: quiet_def)
lemma quiet_asks [quiet]: "quiet (asks g)" by (simp add: quiet_def)
lemma quiet_get [quiet]: "quiet State_Monad.get" by (simp add: quiet_def)
lemma quiet_bind [quiet]: "quiet p \<Longrightarrow> (\<And>x. quiet (q x)) \<Longrightarrow> quiet (State_Monad.bind p q)" by (simp add: quiet_def split_def)
lemma quiet_if [quiet]: "(c \<Longrightarrow> quiet p) \<Longrightarrow> (\<not> c \<Longrightarrow> quiet q) \<Longrightarrow> quiet (if c then p else q)" by simp
lemma quiet_Let [quiet]: "(\<And>y. quiet (p y)) \<Longrightarrow> quiet (Let x p)" by simp
lemma quiet_option [quiet]: "(r = None \<Longrightarrow> quiet p) \<Longrightarrow> (\<And>x. r = Some x \<Longrightarrow> quiet (q x)) \<Longrightarrow>
    quiet (case r of None \<Rightarrow> p | Some x \<Rightarrow> q x)" by (cases r) simp_all
lemma quiet_prod [quiet]: "(\<And>a b. r = (a, b) \<Longrightarrow> quiet (p a b)) \<Longrightarrow> quiet (case r of (a, b) \<Rightarrow> p a b)" by (cases r) simp
lemma quiet_modify: "(\<And>s. boot_view (g s) = boot_view s) \<Longrightarrow> quiet (modify g)" by (simp add: quiet_def)
lemma quiet_say [quiet]: "quiet (say cs)" by (simp add: quiet_def run_cmd boot_view_def)
lemma quiet_cpu [quiet]: "quiet (cpu cs)" by (simp add: quiet_def cpu_def boot_view_def)
lemma quiet_attempt [quiet]: "quiet (attempt x r)" by (simp add: quiet_def run_cmd boot_view_def split: option.split)
lemma quiet_the_dev [quiet]: "quiet the_dev" by (simp add: quiet_def run_cmd)

lemma quiet_messages [quiet]: "quiet (print_tag c t l)" "quiet (print_ok a)" "quiet (print_info a)" "quiet (print_warn l)"
    "quiet print_banner" "quiet (teardown_info l)" "quiet (teardown_ok a)"
  unfolding print_ok_def print_info_def print_warn_def print_tag_def print_banner_def teardown_info_def teardown_ok_def
  by (intro quiet)+

lemma quiet_beep [quiet]: "quiet (beep env f)"
  unfolding beep_def by (rule quiet_modify) (simp add: boot_view_def Let_def split_def)

lemma quiet_handed_over [quiet]: "quiet (set_bootloader_info a b)" "quiet (set_firmware_type t)" "quiet (set_cmdline c)"
    "quiet (set_boot_timestamp t)" "quiet (set_acpi_rsdp m r h)"
  unfolding set_bootloader_info_def set_firmware_type_def set_cmdline_def set_boot_timestamp_def set_acpi_rsdp_def
  by (intro quiet quiet_modify; simp add: boot_view_def)+

lemma quiet_stages [quiet]:
  "quiet (boot_loader lm)" "quiet (boot_firmware env lm)" "quiet (boot_cmdline lm)" "quiet (boot_date lm)" "quiet (boot_cpu lm)"
  "quiet (boot_ram lm)" "quiet (boot_interrupts lm)" "quiet (boot_pci lm)" "quiet (boot_smbios lm h)"
  "quiet (boot_acpi lm h)" "quiet (boot_memory lm h)" "quiet (boot_input env h)"
  unfolding boot_loader_def boot_firmware_def boot_cmdline_def boot_date_def boot_cpu_def boot_ram_def boot_interrupts_def
    boot_pci_def boot_smbios_def boot_acpi_def boot_memory_def boot_input_def
  by (intro quiet quiet_modify; simp add: boot_view_def split_def)+

lemma quiet_register [quiet]: "quiet (register a b c)" "quiet boot_registry"
  unfolding boot_registry_def register_def by (intro quiet quiet_modify; simp add: boot_view_def)+

lemma quiet_report [quiet]: "quiet (report_partitions m)" unfolding report_partitions_def Let_def by (intro quiet)

lemma quiet_leads: "quiet p \<Longrightarrow> leads (\<lambda>s. P (boot_view s)) p (\<lambda>_ s. P (boot_view s))" by (simp add: quiet_def leads_def)

text \<open>The boot as far as the file systems go: the disk, then the partitions.\<close>

definition hhdm_of :: "('d, 'p) limine \<Rightarrow> u64" where "hhdm_of lm = (case b_hhdm lm of None \<Rightarrow> 0 | Some h \<Rightarrow> h)"

lemma quiet_hhdm: "quiet (boot_hhdm lm)" unfolding boot_hhdm_def by (intro quiet)

lemma boot_hhdm_leads: "leads (\<lambda>s. P (boot_view s)) (boot_hhdm lm) (\<lambda>h s. h = hhdm_of lm \<and> P (boot_view s))"
proof -
  have "fst (run_state (boot_hhdm lm) s) = hhdm_of lm" for s
    by (simp add: boot_hhdm_def hhdm_of_def split_def split: option.split)
  then show ?thesis using quiet_hhdm [of lm] by (simp add: leads_def quiet_def)
qed

lemma boot_stages_leads:
  assumes "leads (\<lambda>s. P (boot_view s)) (boot_disk lm (hhdm_of lm)) (\<lambda>_. R)"
    and "leads R (boot_partitions env) (\<lambda>_ s. Q (boot_view s))"
  shows "leads (\<lambda>s. P (boot_view s)) (boot_stages env lm f) (\<lambda>_ s. Q (boot_view s))"
proof -
  have d: "leads (\<lambda>s. h = hhdm_of lm \<and> P (boot_view s)) (boot_disk lm h) (\<lambda>_. R)" for h
    using assms(1) by (auto simp: leads_def)
  have q: "leads (\<lambda>s. h = hhdm_of lm \<and> P (boot_view s)) p (\<lambda>_ s. h = hhdm_of lm \<and> P (boot_view s))" if "quiet p" for h and p :: "('a, 'b, unit) cmd"
    using quiet_leads [OF that, of "\<lambda>v. h = hhdm_of lm \<and> P v"] .
  note before = leads_bind [OF quiet_leads [where P = P]] and after = leads_bind [OF quiet_leads [where P = Q]]
  show ?thesis
    unfolding boot_stages_def Let_def
    by ((rule before, (intro quiet; fail))+, rule leads_bind [OF boot_hhdm_leads [where P = P]],
        (rule leads_bind [OF q], (intro quiet; fail))+, rule leads_bind [OF d], rule leads_bind [OF assms(2)],
        (rule after, (intro quiet; fail))+, rule quiet_leads [where P = Q], intro quiet)
qed

lemma kmain_leads:
  assumes "leads (\<lambda>s. P (boot_view s)) (boot_disk lm (hhdm_of lm)) (\<lambda>_. R)"
    and "leads R (boot_partitions env) (\<lambda>_ s. Q (boot_view s))"
  shows "leads (\<lambda>s. P (boot_view s)) (kmain env lm) (\<lambda>ok s. if ok then Q (boot_view s) else P (boot_view s))"
proof -
  have h: "leads (\<lambda>s. P (boot_view s)) (do { _ \<leftarrow> cpu [Halt]; ret False }) (\<lambda>ok s. if ok then Q (boot_view s) else P (boot_view s))"
    by (simp add: leads_def cpu_def boot_view_def)
  have b: "leads (\<lambda>s. P (boot_view s)) (do { _ \<leftarrow> boot_stages env lm f; ret True }) (\<lambda>ok s. if ok then Q (boot_view s) else P (boot_view s))" for f
    by (rule leads_bind [OF boot_stages_leads [OF assms]]) (simp add: leads_def)
  show ?thesis unfolding kmain_def
    by (rule leads_bind [OF quiet_leads [where P = P]], intro quiet, intro leads_if h, cases "b_fb lm") (simp_all add: h b)
qed

section \<open>One file system\<close>

lemma fs_views:
  "none_fs = (\<lambda>s. case boot_view s of (f, v, c, d) \<Rightarrow> \<not> e_mounted f \<and> \<not> mounted v)"
  "one_fs = (\<lambda>s. case boot_view s of (f, v, c, d) \<Rightarrow> \<not> (e_mounted f \<and> mounted v))"
  by (simp_all add: none_fs_def one_fs_def boot_view_def fun_eq_iff)

lemma boot_disk_view: "boot_view (snd (run_state (boot_disk lm h) s))
    = (fs (s_e2 s), s_fat s, s_cfg s, snd (b_disk_init lm h (dev (s_e2 s))))"
  by (simp add: boot_disk_def run_cmd print_ok_def print_warn_def print_tag_def boot_view_def split_def Let_def)

lemma boot_disk_info: "s_disk (snd (run_state (boot_disk lm h) s)) = b_info lm (snd (b_disk_init lm h (dev (s_e2 s))))"
  by (simp add: boot_disk_def run_cmd print_ok_def print_warn_def print_tag_def split_def Let_def)

lemma leads_post: "leads P p Q \<Longrightarrow> (\<And>x s. Q x s \<Longrightarrow> Q' x s) \<Longrightarrow> leads P p Q'" by (auto simp: leads_def)
lemma leads_weaken: "leads P p Q \<Longrightarrow> (\<And>s. P' s \<Longrightarrow> P s) \<Longrightarrow> leads P' p Q" by (auto simp: leads_def)

lemma quiet_one: "quiet p \<Longrightarrow> leads one_fs p (\<lambda>_. one_fs)" "quiet p \<Longrightarrow> leads none_fs p (\<lambda>_. none_fs)"
  by (simp_all add: quiet_def leads_def fs_views)

lemma restore_one: "leads none_fs (restore_mount env) (\<lambda>_. one_fs)"
proof -
  have g: "leads none_fs (ask_cfg g) (\<lambda>_. none_fs)" for g
    by (simp add: leads_def ask_cfg_def run_cmd none_fs_def split: prod.split)
  have none: "leads none_fs (ret ()) (\<lambda>_. one_fs)" by (simp add: leads_def none_fs_def one_fs_def)
  have last: "leads one_fs (if ok then print_ok t else do { _ \<leftarrow> print_warn w; _ \<leftarrow> on_cfg c; ret () }) (\<lambda>_. one_fs)" for ok t w c
    by (intro leads_if quiet_one quiet leads_bind [OF quiet_one(1)] leads_bind [OF one_on_cfg [unfolded preserves_leads]])
  show ?thesis unfolding restore_mount_def
    by (intro leads_bind [OF g], rename_tac r, case_tac r)
      (auto simp: none intro!: leads_bind [OF quiet_one(2)] leads_bind [OF mount_saved_one] quiet last)
qed

lemma partitions_one: "leads none_fs (boot_partitions env) (\<lambda>_. one_fs)"
proof -
  have stop: "leads none_fs p (\<lambda>_. one_fs)" if "quiet p" for p :: "('a, 'b, unit) cmd"
    using quiet_one(2) [OF that] by (rule leads_post) (simp add: none_fs_def one_fs_def)
  have opt: "leads none_fs (case r of None \<Rightarrow> p | Some m \<Rightarrow> q m) (\<lambda>_. one_fs)"
    if "leads none_fs p (\<lambda>_. one_fs)" "\<And>m. leads none_fs (q m) (\<lambda>_. one_fs)" for r p and q :: "u8 list \<Rightarrow> ('a, 'b, unit) cmd"
    using that by (cases r) simp_all
  show ?thesis unfolding boot_partitions_def Let_def
    by (intro leads_bind [OF quiet_one(2)] quiet leads_if stop opt restore_one)
qed

lemma boot_one: "one_fs (snd (run_state (kmain env lm) (sys_boot d b m p)))"
proof -
  have d: "leads none_fs (boot_disk lm (hhdm_of lm)) (\<lambda>_. none_fs)"
    by (simp add: leads_def fs_views(1) boot_disk_view) (simp add: boot_view_def)
  have "leads none_fs (kmain env lm) (\<lambda>ok s. if ok then one_fs s else none_fs s)"
    using kmain_leads [OF d [unfolded fs_views(1)] partitions_one [unfolded fs_views]] unfolding fs_views .
  moreover have "none_fs (sys_boot d b m p)" by (simp add: none_fs_def sys_boot_def ext2_boot_def zero_fs_def fs_boot_def)
  ultimately show ?thesis by (auto simp: leads_def none_fs_def one_fs_def split: if_splits)
qed

section \<open>Mounts that survive\<close>

text \<open>What is mounted: file system, letter and first sector.\<close>

definition drive :: "('d, 'p) sys \<Rightarrow> (u8 \<times> u8 \<times> u32) option" where
  "drive s = (if e_mounted (fs (s_e2 s)) then Some (FS_EXT2, e_letter (fs (s_e2 s)), e_partition_lba (fs (s_e2 s)))
     else if mounted (s_fat s) then Some (FS_FAT32, drive_letter (s_fat s), partition_lba (s_fat s)) else None)"

lemma ext2_mount_fields:
  "fst (run_state (ext2_mount io plba ltr) s) \<Longrightarrow>
     e_letter (fs (snd (run_state (ext2_mount io plba ltr) s))) = ltr
     \<and> e_partition_lba (fs (snd (run_state (ext2_mount io plba ltr) s))) = plba"
  by (auto simp: ext2_mount_def read_superblock_def run_require zero_fs_def split_def Let_def split: option.split_asm if_split_asm)

text \<open>Whether a partition can be mounted does not depend on what was mounted before.\<close>

definition mounts_as :: "'d blk \<Rightarrow> 'd \<Rightarrow> u8 \<Rightarrow> u32 \<Rightarrow> bool" where
  "mounts_as io d t lba \<longleftrightarrow>
     (if t = FS_EXT2 then fst (run_state (ext2_mount io lba 0) (ext2_boot d))
      else t = FS_FAT32 \<and> (\<exists>v. mount io d lba 0 fs_boot = Some (True, v)))"

lemma ext2_mounts: "fst (run_state (ext2_mount io lba ltr) s) = mounts_as io (dev s) FS_EXT2 lba"
proof -
  have "fst (run_state (ext2_mount io lba ltr) s) = fst (run_state (ext2_mount io lba ltr) (ext2_boot (dev s)))"
    by (rule ext2_mount_reads) (simp_all add: ext2_boot_def)
  then show ?thesis by (simp add: mounts_as_def ext2_mount_letter [of io lba ltr "ext2_boot (dev s)" 0])
qed

lemma fat_mounts: "(\<exists>v'. mount io d lba ltr v = Some (True, v')) = mounts_as io d FS_FAT32 lba"
  by (simp add: mounts_as_def mount_def FS_EXT2_def FS_FAT32_def Let_def split: option.split)

lemma fat_mount_fields: "mount io d lba ltr v = Some (True, v') \<Longrightarrow> mounted v' \<and> drive_letter v' = ltr \<and> partition_lba v' = lba"
  by (auto simp: mount_def Let_def split: option.split_asm if_split_asm)

lemma mounts_as_reads:
  assumes "\<And>l. l \<in> {lba, lba + 2, lba + 3} \<Longrightarrow> blk_read io d' l = blk_read io d l"
  shows "mounts_as io d' t lba = mounts_as io d t lba"
proof -
  have "fst (run_state (ext2_mount io lba 0) (ext2_boot d')) = fst (run_state (ext2_mount io lba 0) (ext2_boot d))"
    by (rule ext2_mount_reads) (simp_all add: ext2_boot_def assms)
  then show ?thesis by (simp add: mounts_as_def mount_def assms)
qed

lemma mount_at_effect:
  assumes "s1 = snd (run_state (mount_at env ltr part lba) s)" "drive s1 \<noteq> None"
  obtains t where "drive s1 = Some (t, ltr, lba)" "mounts_as (e_io env) (dev (s_e2 s)) t lba"
    "dev (s_e2 s1) = snd (snd (add (e_io env) (dev (s_e2 s)) (s_cfg s) ltr t (word_of_int part) lba))"
    "s_cfg s1 = fst (snd (add (e_io env) (dev (s_e2 s)) (s_cfg s) ltr t (word_of_int part) lba))"
proof -
  define e where "e = (s_e2 s)\<lparr>fs := (fs (s_e2 s))\<lparr>e_mounted := False\<rparr>\<rparr>"
  define v where "v = unmount (s_fat s)"
  let ?io = "e_io env" and ?d = "dev (s_e2 s)"
  have d: "dev e = ?d" "\<not> mounted v" by (simp_all add: e_def v_def unmount_def)
  have u: "run_state unmount_all s = ((), s\<lparr>s_e2 := e, s_fat := v\<rparr>)" by (simp add: run_unmount_all e_def v_def unmount_def)
  show thesis
  proof (cases "mounts_as ?io ?d FS_EXT2 lba")
    case True
    let ?r = "run_state (ext2_mount ?io lba ltr) e"
    have m: "fst ?r" using True by (simp add: ext2_mounts d)
    have "drive s1 = Some (FS_EXT2, ltr, lba)"
      using ext2_mount_fields [OF m] ext2_mount_mounted [of ?io lba ltr e] m
      by (simp add: assms(1) mount_at_def run_cmd u split_def drive_def del: run_unmount_all)
    moreover have "dev (s_e2 s1) = snd (snd (add ?io ?d (s_cfg s) ltr FS_EXT2 (word_of_int part) lba))"
        "s_cfg s1 = fst (snd (add ?io ?d (s_cfg s) ltr FS_EXT2 (word_of_int part) lba))"
      using m ext2_mount_dev [of ?io lba ltr e] d by (simp_all add: assms(1) mount_at_def run_cmd u split_def del: run_unmount_all)
    ultimately show ?thesis using that True by blast
  next
    case False
    let ?r = "run_state (ext2_mount ?io lba ltr) e"
    have m: "\<not> fst ?r" "dev (snd ?r) = ?d" "\<not> e_mounted (fs (snd ?r))"
      using False ext2_mount_mounted [of ?io lba ltr e] by (simp_all add: ext2_mounts d ext2_mount_dev)
    show ?thesis
    proof (cases "\<exists>v'. mount ?io ?d lba ltr v = Some (True, v')")
      case True
      then obtain v' where v': "mount ?io ?d lba ltr v = Some (True, v')" by blast
      have "drive s1 = Some (FS_FAT32, ltr, lba)"
        using m v' fat_mount_fields [OF v'] by (simp add: assms(1) mount_at_def run_cmd u split_def drive_def del: run_unmount_all)
      moreover have "dev (s_e2 s1) = snd (snd (add ?io ?d (s_cfg s) ltr FS_FAT32 (word_of_int part) lba))"
          "s_cfg s1 = fst (snd (add ?io ?d (s_cfg s) ltr FS_FAT32 (word_of_int part) lba))"
        using m v' by (simp_all add: assms(1) mount_at_def run_cmd u split_def del: run_unmount_all)
      ultimately show ?thesis using that True fat_mounts [of ?io ?d lba ltr v] by blast
    next
      case False
      have "mount ?io ?d lba ltr v = Some (False, v') \<Longrightarrow> v' = v" for v'
        by (auto simp: mount_def Let_def split: option.split_asm if_split_asm)
      then have "drive s1 = None"
        using m False d by (auto simp: assms(1) mount_at_def run_cmd u split_def drive_def split: option.split simp del: run_unmount_all)
      then show ?thesis using assms(2) by simp
    qed
  qed
qed

text \<open>The saved mounts, as a boot finds them on the disk.\<close>

definition on_disk :: "'d blk \<Rightarrow> 'd \<Rightarrow> saved_entry list \<Rightarrow> bool" where
  "on_disk io d es \<longleftrightarrow> (\<exists>c. load io d config_boot = (es \<noteq> [], c) \<and> saved (g_cfg c) = es \<and> layout_wf (g_cfg c) \<and> g_loaded c)"

lemma on_disk_reads:
  assumes "blk_read io d' CONFIG_LBA = blk_read io d CONFIG_LBA" "blk_present io d' = blk_present io d"
  shows "on_disk io d' es = on_disk io d es"
  unfolding on_disk_def load_def assms ..

lemma get_last_saved:
  assumes "on_disk io d es" "es \<noteq> []"
  shows "fst (get_last io d config_boot) = Some (last es)"
proof -
  obtain c where c: "load io d config_boot = (es \<noteq> [], c)" "saved (g_cfg c) = es" "layout_wf (g_cfg c)" "g_loaded c"
    using assms(1) by (auto simp: on_disk_def)
  have e: "ensure_loaded io d config_boot = c" using c(1) by (simp add: ensure_loaded_def config_boot_def)
  have n: "length es = unat (count (g_cfg c))" "unat (count (g_cfg c)) \<le> 4" "length (entries (g_cfg c)) = 4"
    using c(2,3) length_saved [OF c(3)] by (simp_all add: layout_wf_def)
  have s: "sint (count (g_cfg c)) = int (unat (count (g_cfg c)))"
    using n(2) by (simp add: sint_small)
  have u: "0 < unat (count (g_cfg c))" using n(1) assms(2) by (metis length_greater_0_conv)
  then have z: "count (g_cfg c) \<noteq> 0" by auto
  have "take (length es) (entries (g_cfg c)) = es" using c(2) n(1) by (simp add: saved_def)
  moreover have "length es - 1 < length es" using assms(2) by simp
  ultimately have "entries (g_cfg c) ! (length es - 1) = es ! (length es - 1)" by (metis nth_take)
  then have "entries (g_cfg c) ! (length es - 1) = last es" using assms(2) by (simp add: last_conv_nth)
  moreover have "sint (count (g_cfg c)) - 1 = int (length es - 1)" using s n(1) u by simp
  moreover have "length es - 1 < unat (count (g_cfg c))" using u n(1) by simp
  ultimately show ?thesis using z c(4) by (simp only: get_last_def get_def e ensure_loaded_id Let_def) simp
qed

lemma ensure_loaded_wf:
  assumes "block_device io" "layout_wf (g_cfg s)"
  shows "layout_wf (g_cfg (ensure_loaded io d s)) \<and> g_loaded (ensure_loaded io d s)"
proof -
  have r: "layout_wf (g_cfg (reset s))" by (simp add: reset_def) (simp add: layout_wf_def zero_layout_def MAX_ENTRIES_def)
  have "layout_wf ((layout_of bs)\<lparr>checksum := 0\<rparr>)" if "blk_read io d CONFIG_LBA = Some bs" "unat (count (layout_of bs)) \<le> 4" for bs
    using block_device.read_len [OF assms(1) that(1)] that(2) by (simp add: layout_wf_def layout_of_def)
  then show ?thesis using r assms(2) by (auto simp: ensure_loaded_def load_def Let_def MAX_ENTRIES_def split: option.split)
qed

lemma save_on_disk:
  assumes "block_device io" "layout_wf (g_cfg s)" "save io d s = (True, s', d')"
  shows "on_disk io d' (saved (g_cfg s))"
  using block_device.save_load [OF assms] by (auto simp: on_disk_def)

text \<open>The boot mounts the last of the saved entries, when it can be mounted.\<close>

lemma mount_saved_drive:
  assumes "mounts_as (e_io env) (dev (s_e2 s)) (fs_type e) (se_lba e)" "none_fs s"
  shows "fst (run_state (mount_saved env e) s) \<and> drive (snd (run_state (mount_saved env e) s)) = Some (fs_type e, letter e, se_lba e)"
proof (cases "fs_type e = FS_EXT2")
  case True
  let ?r = "run_state (ext2_mount (e_io env) (se_lba e) (letter e)) (s_e2 s)"
  have m: "fst ?r" using assms(1) True by (simp add: ext2_mounts)
  then show ?thesis using True ext2_mount_fields [OF m] ext2_mount_mounted [of "e_io env" "se_lba e" "letter e" "s_e2 s"]
    by (simp add: mount_saved_def run_cmd split_def drive_def)
next
  case False
  then have t: "fs_type e = FS_FAT32" using assms(1) by (simp add: mounts_as_def)
  obtain v' where v': "mount (e_io env) (dev (s_e2 s)) (se_lba e) (letter e) (s_fat s) = Some (True, v')"
    using assms(1) t fat_mounts by metis
  show ?thesis using False t v' fat_mount_fields [OF v'] assms(2)
    by (simp add: mount_saved_def run_cmd split_def drive_def none_fs_def FS_FAT32_def FS_EXT2_def)
qed

definition bootable :: "('d, 'p) env \<Rightarrow> ('d, 'p) limine \<Rightarrow> 'd \<Rightarrow> bool" where
  "bootable env lm d \<longleftrightarrow> b_revision_ok lm \<and> b_fb lm \<noteq> None
     \<and> (let d' = snd (b_disk_init lm (hhdm_of lm) d) in
        di_present (b_info lm d') \<and> blk_present (e_io env) d' = blk_present (e_io env) d
        \<and> (\<forall>l. blk_read (e_io env) d' l = blk_read (e_io env) d l))
     \<and> (\<exists>m. mbr_read (e_io env) d = Some m \<and> mbr_signature m = 0xAA55)"

lemma partitions_restore:
  fixes s :: "('a, 'b) sys"
  assumes "di_present (s_disk s)" "mbr_read (e_io env) (dev (s_e2 s)) = Some m" "mbr_signature m = 0xAA55"
  shows "\<exists>s'. boot_view s' = boot_view s \<and> run_state (boot_partitions env) s = run_state (restore_mount env) s'"
proof -
  have "quiet (report_partitions m :: ('a, 'b, unit) cmd)" by (rule quiet_report)
  then show ?thesis using assms
    by (intro exI [of _ "snd (run_state (report_partitions m) s)"]) (simp add: boot_partitions_def run_cmd quiet_def split_def)
qed

lemma quiet_drive: "quiet p \<Longrightarrow> drive (snd (run_state p s)) = drive s" by (simp add: quiet_def drive_def boot_view_def)

lemma restore_drive:
  assumes "none_fs s" "s_cfg s = config_boot" "on_disk (e_io env) (dev (s_e2 s)) es" "es \<noteq> []"
    and "mounts_as (e_io env) (dev (s_e2 s)) (fs_type (last es)) (se_lba (last es))"
  shows "drive (snd (run_state (restore_mount env) s)) = Some (fs_type (last es), letter (last es), se_lba (last es))"
proof -
  let ?g = "get_last (e_io env) (dev (s_e2 s)) config_boot" and ?e = "last es"
  define s2 where "s2 = s\<lparr>s_cfg := snd ?g, s_e2 := (s_e2 s)\<lparr>dev := dev (s_e2 s)\<rparr>,
    s_out := s_out s @ labelled ''Restoring saved mount: '' ([Putc (letter ?e), tx '': at LBA ''] @ debug_u64 (ucast (se_lba ?e)) @ [Putc 10])\<rparr>"
  have m: "fst (run_state (mount_saved env ?e) s2)" "drive (snd (run_state (mount_saved env ?e) s2)) = Some (fs_type ?e, letter ?e, se_lba ?e)"
    using mount_saved_drive [of env s2 ?e] assms(1,5) by (simp_all add: s2_def none_fs_def)
  have "run_state (restore_mount env) s = run_state (print_ok ''Mount restored from config sector'') (snd (run_state (mount_saved env ?e) s2))"
    using get_last_saved [OF assms(3,4)] m(1) assms(2) by (simp add: restore_mount_def ask_cfg_def run_cmd split_def s2_def)
  then show ?thesis using m(2) by (simp add: quiet_drive quiet)
qed

lemma boot_restores:
  fixes env :: "('a, 'b) env"
  assumes b: "bootable env lm d" and es: "on_disk (e_io env) d es" "es \<noteq> []"
    and m: "mounts_as (e_io env) d (fs_type (last es)) (se_lba (last es))"
  shows "drive (snd (run_state (kmain env lm) (sys_boot d bus mem p))) = Some (fs_type (last es), letter (last es), se_lba (last es))"
proof -
  let ?d = "snd (b_disk_init lm (hhdm_of lm) d)" and ?io = "e_io env" and ?e = "last es"
  have r: "\<And>l. blk_read ?io ?d l = blk_read ?io d l" "blk_present ?io ?d = blk_present ?io d" "di_present (b_info lm ?d)"
    using b by (auto simp: bootable_def Let_def)
  obtain mb where mb: "mbr_read ?io ?d = Some mb" "mbr_signature mb = 0xAA55"
    using b r by (auto simp: bootable_def mbr_read_def)
  define Q where "Q = (\<lambda>v :: ext2_fs \<times> fs_state \<times> config_state \<times> 'a. case v of (f, w, c, x) \<Rightarrow>
    (if e_mounted f then Some (FS_EXT2, e_letter f, e_partition_lba f)
     else if mounted w then Some (FS_FAT32, drive_letter w, partition_lba w) else None) = Some (fs_type ?e, letter ?e, se_lba ?e))"
  have Q: "Q (boot_view s) \<longleftrightarrow> drive s = Some (fs_type ?e, letter ?e, se_lba ?e)" for s :: "('a, 'b) sys"
    by (simp add: Q_def boot_view_def drive_def)
  let ?P = "\<lambda>x v. v = (fs (ext2_boot d), fs_boot, config_boot, x)"
  let ?R = "\<lambda>s. ?P ?d (boot_view s) \<and> di_present (s_disk s)"
  have 1: "leads (\<lambda>s. ?P d (boot_view s)) (boot_disk lm (hhdm_of lm)) (\<lambda>_. ?R)"
    by (auto simp: leads_def boot_disk_view boot_disk_info) (simp_all add: boot_view_def r(3))
  have 2: "leads ?R (boot_partitions env) (\<lambda>_ s. Q (boot_view s))"
    unfolding leads_def
  proof (intro allI impI)
    fix s :: "('a, 'b) sys" assume R: "?R s"
    obtain s' where s': "boot_view s' = boot_view s" "run_state (boot_partitions env) s = run_state (restore_mount env) s'"
      using partitions_restore [of s env mb] R mb by (auto simp: boot_view_def)
    have "on_disk ?io ?d es" using es(1) on_disk_reads [of ?io ?d d es] r by simp
    moreover have "mounts_as ?io ?d (fs_type ?e) (se_lba ?e)" using m mounts_as_reads [of "se_lba ?e" ?io ?d d] r by simp
    moreover have "none_fs s'" "s_cfg s' = config_boot" "dev (s_e2 s') = ?d"
      using R s'(1) by (auto simp: boot_view_def none_fs_def ext2_boot_def zero_fs_def fs_boot_def)
    ultimately show "Q (boot_view (snd (run_state (boot_partitions env) s)))"
      unfolding Q s'(2) using restore_drive [of s' env es] es(2) by simp
  qed
  have "?P d (boot_view (sys_boot d bus mem p))" by (simp add: boot_view_def sys_boot_def ext2_boot_def)
  moreover have "fst (run_state (kmain env lm) s)" for s
    using b by (auto simp: kmain_def run_cmd bootable_def split_def)
  ultimately show ?thesis using kmain_leads [OF 1 2] unfolding leads_def Q by force
qed

lemma add_on_disk:
  fixes ltr t pn :: u8 and lba :: u32
  assumes r: "reliable_device io good lim" "1 < lim" "good d" "blk_present io d" and wf: "layout_wf (g_cfg s)"
  defines "es \<equiv> saved (g_cfg (ensure_loaded io d s))" and "d' \<equiv> snd (snd (add io d s ltr t pn lba))"
  shows "on_disk io d' (upsert \<lparr>letter = ltr, fs_type = t, part_num = pn, se_reserved = 0, se_lba = lba\<rparr> es)
    \<and> (\<forall>l. l \<noteq> CONFIG_LBA \<longrightarrow> blk_read io d' l = blk_read io d l)"
proof -
  have bd: "block_device io" using r(1) by (rule reliable_device.axioms(1))
  let ?s = "ensure_loaded io d s"
  note w = ensure_loaded_wf [OF bd wf, of d]
  have "add io d s ltr t pn lba = add io d ?s ltr t pn lba" using w by (simp add: add_def ensure_loaded_id)
  then obtain c where c: "layout_wf c" "saved c = upsert \<lparr>letter = ltr, fs_type = t, part_num = pn, se_reserved = 0, se_lba = lba\<rparr> es"
      "add io d s ltr t pn lba = save io d (?s\<lparr>g_cfg := c\<rparr>)"
    using add_is_save [of ?s ltr t pn lba io d] w by (auto simp: es_def)
  have "length (layout_bytes (stored c)) = 512" using c(1) by (simp add: length_layout_bytes)
  then have "fst (blk_write io d CONFIG_LBA (layout_bytes (stored c)))"
    using reliable_device.good_write [OF r(1,3), of CONFIG_LBA] r(2) by (simp add: CONFIG_LBA_def)
  then obtain d1 where d1: "blk_write io d CONFIG_LBA (layout_bytes (stored c)) = (True, d1)" by (metis (full_types) prod.collapse)
  have sv: "save io d (?s\<lparr>g_cfg := c\<rparr>) = (True, ?s\<lparr>g_cfg := stored c\<rparr>, d1)"
    using d1 r(4) by (simp add: save_def stored_def Let_def)
  have "on_disk io d1 (saved c)" using save_on_disk [OF bd _ sv] c(1) by simp
  moreover have "d' = d1" using c(3) sv by (simp add: d'_def)
  moreover have "blk_read io d1 l = blk_read io d l" if "l \<noteq> CONFIG_LBA" for l
    using block_device.write_frame [OF bd d1 that] .
  ultimately show ?thesis using c(2) by simp
qed

lemma last_upsert:
  "\<forall>x\<in>set es. part_num x \<noteq> part_num e \<and> letter x \<noteq> letter e \<Longrightarrow> last (upsert e es) = e"
  "x \<in> set (butlast es) \<Longrightarrow> part_num x = part_num e \<Longrightarrow> last (upsert e es) = last es"
  "upsert e es \<noteq> []"
proof -
  assume "\<forall>x\<in>set es. part_num x \<noteq> part_num e \<and> letter x \<noteq> letter e"
  then have "position (\<lambda>x. part_num x = part_num e) es = None" "position (\<lambda>x. letter x = letter e) es = None"
    by (simp_all add: position_None)
  then show "last (upsert e es) = e" by (simp add: upsert_def)
next
  assume x: "x \<in> set (butlast es)" "part_num x = part_num e"
  have "x \<in> set es" using in_set_butlastD [OF x(1)] .
  then obtain i where i: "position (\<lambda>x. part_num x = part_num e) es = Some i"
    using x(2) by (cases "position (\<lambda>x. part_num x = part_num e) es") (auto simp: position_None)
  obtain k where k: "k < length es - 1" "butlast es ! k = x" using x(1) by (auto simp: in_set_conv_nth)
  then have "part_num (es ! k) = part_num e" using x(2) by (simp add: nth_butlast)
  then have "\<not> k < i" using position_Some [OF i] by auto
  then have "i \<noteq> length es - 1" "es \<noteq> []" using k(1) by auto
  then show "last (upsert e es) = last es" using last_list_update [of es i] i by (simp add: upsert_def)
next
  show "upsert e es \<noteq> []"
    by (auto simp: upsert_def split: option.split dest!: position_Some)
qed

lemma away_from_config: "(lba :: u32) \<notin> {1, -1, -2} \<Longrightarrow> l \<in> {lba, lba + 2, lba + 3} \<Longrightarrow> l \<noteq> CONFIG_LBA"
proof -
  have "lba + 2 = 1 \<longleftrightarrow> lba = -1" "lba + 3 = 1 \<longleftrightarrow> lba = -2"
    using eq_diff_eq [of lba 1 2] eq_diff_eq [of lba 1 3] by simp_all
  then show "lba \<notin> {1, -1, -2} \<Longrightarrow> l \<in> {lba, lba + 2, lba + 3} \<Longrightarrow> l \<noteq> CONFIG_LBA" by (auto simp: CONFIG_LBA_def)
qed

section \<open>Properties\<close>

text \<open>C26. From power on, whatever the hardware is and whatever lines are typed, the two file systems are never
  mounted at the same time, so the commands on files always know which one they mean.\<close>

theorem never_two_file_systems:
  "\<not> (e_mounted (fs (s_e2 (session env ls (snd (run_state (kmain env lm) (sys_boot d b m p))))))
      \<and> mounted (s_fat (session env ls (snd (run_state (kmain env lm) (sys_boot d b m p))))))"
  using one_session [OF boot_one, of env ls env lm d b m p] by (simp add: one_fs_def)

text \<open>C27. A mount of a partition that was never saved survives a reboot.  Let the disk be without faults
  and the configuration well-formed, let neither the partition nor the letter occur in an entry saved
  before, let the sectors 0, 2 and 3 of the partition be others than that of the configuration (its
  start is not 1, -1 or -2), and let the next boot find the framebuffer, the same disk and its MBR
  (\<open>bootable\<close>).  Then a partition mounted under the letter is mounted again, as the same file system
  under the same letter and at the same sector, by the boot of a kernel with fresh memory.  (For a
  partition that was saved before this fails: \<open>remount_lost_at_reboot\<close>.)\<close>

theorem mount_survives_reboot:
  assumes "reliable_device (e_io env) good lim" and "1 < lim" and "good (dev (s_e2 s))" and "blk_present (e_io env) (dev (s_e2 s))"
    and "layout_wf (g_cfg (s_cfg s))"
    and "\<forall>e\<in>set (saved (g_cfg (ensure_loaded (e_io env) (dev (s_e2 s)) (s_cfg s)))). part_num e \<noteq> word_of_int part \<and> letter e \<noteq> ltr"
    and "lba \<notin> {1, -1, -2}"
    and "s1 = snd (run_state (mount_at env ltr part lba) s)" and "drive s1 \<noteq> None" and "bootable env lm (dev (s_e2 s1))"
  shows "drive (snd (run_state (kmain env lm) (sys_boot (dev (s_e2 s1)) b m p))) = drive s1
    \<and> map_option snd (drive s1) = Some (ltr, lba)"
proof -
  obtain t where t: "drive s1 = Some (t, ltr, lba)" "mounts_as (e_io env) (dev (s_e2 s)) t lba"
      "dev (s_e2 s1) = snd (snd (add (e_io env) (dev (s_e2 s)) (s_cfg s) ltr t (word_of_int part) lba))"
    using mount_at_effect [OF assms(8,9)] by metis
  let ?e = "\<lparr>letter = ltr, fs_type = t, part_num = word_of_int part, se_reserved = 0, se_lba = lba\<rparr>"
  note a = add_on_disk [OF assms(1-5), where ltr = ltr and t = t and pn = "word_of_int part" and lba = lba, folded t(3)]
  have "mounts_as (e_io env) (dev (s_e2 s1)) t lba"
    using t(2) mounts_as_reads [of lba "e_io env" "dev (s_e2 s1)" "dev (s_e2 s)"] a away_from_config [OF assms(7)] by blast
  with boot_restores [OF assms(10) conjunct1 [OF a] last_upsert(3)] last_upsert(1) [of _ ?e] assms(6) t(1)
  show ?thesis by simp
qed

definition demo_limine :: "(store, 'p) limine" where
  "demo_limine = \<lparr>b_revision_ok = True,
     b_fb = Some \<lparr>lf_geometry = \<lparr>fb_width = 0, fb_height = 0, fb_pitch = 0\<rparr>, lf_bpp = 32\<rparr>,
     b_loader = None, b_firmware = None, b_cmdline = None, b_date = None, b_memmap = None, b_hhdm = None, b_smbios = None,
     b_rsdp = None, b_tables = (\<lambda>_. 0), b_cpuid = (\<lambda>_ _. (0, 0, 0, 0)),
     b_pci = \<lparr>pci_outl = (\<lambda>d _ _. d), pci_inl = (\<lambda>d _. (0xFFFFFFFF, d))\<rparr>,
     b_isr_default = 0, b_isr = (\<lambda>_. 0), b_cs = 8, b_disk_init = (\<lambda>_ d. (True, d)), b_driver = (\<lambda>_. ATA),
     b_info = (\<lambda>_. info_boot\<lparr>di_present := True\<rparr>)\<rparr>"

abbreviation mixed_sys :: "(store, (u8 \<times> u8 list) list) sys" where "mixed_sys \<equiv> sys_boot mixed_disk [] (\<lambda>_. 0) phys_boot"

lemma mixed_dev: "dev (s_e2 mixed_sys) = mixed_disk" "s_cfg mixed_sys = config_boot" "e_io demo_env = store_blk"
  by (simp_all add: sys_boot_def ext2_boot_def demo_env_def)

lemma mixed_config: "layout_wf (g_cfg config_boot)" "saved (g_cfg (ensure_loaded store_blk mixed_disk config_boot)) = []"
proof -
  show "layout_wf (g_cfg config_boot)" by (simp add: config_boot_def zero_layout_def layout_wf_def MAX_ENTRIES_def)
  have "blk_read store_blk mixed_disk CONFIG_LBA = Some (replicate 512 0)"
    by (simp add: mixed_read) (simp add: mixed_disk_def CONFIG_LBA_def)
  moreover have "magic (layout_of (replicate 512 0)) \<noteq> CONFIG_MAGIC" by (simp add: layout_of_def rd32_zeros CONFIG_MAGIC_def)
  ultimately show "saved (g_cfg (ensure_loaded store_blk mixed_disk config_boot)) = []"
    by (simp add: ensure_loaded_def load_def Let_def config_boot_def reset_def saved_def zero_layout_def)
qed

lemma mixed_drive: "drive (snd (run_state (mount_at demo_env 67 0 2048) mixed_sys)) \<noteq> None"
proof -
  have "fst (run_state (ext2_mount store_blk 2048 67) e)" if "dev e = mixed_disk" for e
    using mixed_ext2 that by (simp add: ext2_mounts ext2_boot_def)
  then show ?thesis
    by (simp add: mount_at_def run_cmd split_def drive_def ext2_mount_mounted mixed_dev)
qed

lemma mixed_bootable: "bootable demo_env demo_limine (dev (s_e2 (snd (run_state (mount_at demo_env 67 0 2048) mixed_sys))))"
proof -
  let ?s1 = "snd (run_state (mount_at demo_env 67 0 2048) mixed_sys)"
  obtain t where d: "dev (s_e2 ?s1) = snd (snd (add store_blk mixed_disk config_boot 67 t 0 2048))"
    using mount_at_effect [OF refl mixed_drive] by (metis mixed_dev of_int_0)
  have g: "store_good mixed_disk" by (simp add: store_good_def mixed_disk_def mixed_lengths)
  have "blk_read store_blk (dev (s_e2 ?s1)) 0 = blk_read store_blk mixed_disk 0"
    unfolding d using add_on_disk [OF store_rel.reliable_device_axioms _ g _ mixed_config(1)]
    by (simp add: CONFIG_LBA_def) (simp add: store_blk_def)
  moreover have "blk_read store_blk mixed_disk 0 = Some mixed_mbr" by (simp add: mixed_read) (simp add: mixed_disk_def)
  moreover have "mbr_signature mixed_mbr = 0xAA55"
    unfolding mixed_mbr_def mbr_signature_def
    by (rule rd_wr_same) (simp add: set_part_def part_off_def mixed_part_def partition_bytes_def)
  ultimately show ?thesis by (simp add: bootable_def demo_limine_def mixed_dev mbr_read_def)
qed

theorem mount_survives_reboot_witness:
  "map_option snd (drive (snd (run_state (kmain demo_env demo_limine)
     (sys_boot (dev (s_e2 (snd (run_state (mount_at demo_env 67 0 2048) mixed_sys)))) [] (\<lambda>_. 0) phys_boot)))) = Some (67, 2048)"
proof -
  have r: "reliable_device (e_io demo_env) store_good (2 ^ 32)" "store_good (dev (s_e2 mixed_sys))"
    "blk_present (e_io demo_env) (dev (s_e2 mixed_sys))" "layout_wf (g_cfg (s_cfg mixed_sys))"
    using store_rel.reliable_device_axioms mixed_config(1)
    by (simp_all add: mixed_dev) (simp_all add: store_good_def mixed_disk_def mixed_lengths store_blk_def)
  have f: "\<forall>e\<in>set (saved (g_cfg (ensure_loaded (e_io demo_env) (dev (s_e2 mixed_sys)) (s_cfg mixed_sys)))).
      part_num e \<noteq> word_of_int 0 \<and> letter e \<noteq> 67" unfolding mixed_dev mixed_config by simp
  show ?thesis
    using mount_survives_reboot [OF r(1) _ r(2-4) f _ refl mixed_drive mixed_bootable] by simp
qed

text \<open>Mounting a partition again that was saved earlier does not make it the last one: the boot comes up with
  another.\<close>

lemma remount_lost_at_reboot:
  assumes "reliable_device (e_io env) good lim" "1 < lim" "good (dev (s_e2 s))" "blk_present (e_io env) (dev (s_e2 s))"
    and "layout_wf (g_cfg (s_cfg s))" and "es = saved (g_cfg (ensure_loaded (e_io env) (dev (s_e2 s)) (s_cfg s)))"
    and "e \<in> set (butlast es)" "part_num e = word_of_int part" "letter (last es) \<noteq> ltr"
    and "mounts_as (e_io env) (dev (s_e2 s)) (fs_type (last es)) (se_lba (last es))" "se_lba (last es) \<notin> {1, -1, -2}"
    and "s1 = snd (run_state (mount_at env ltr part lba) s)" "drive s1 \<noteq> None" "bootable env lm (dev (s_e2 s1))"
  shows "drive (snd (run_state (kmain env lm) (sys_boot (dev (s_e2 s1)) b m p))) \<noteq> drive s1"
proof -
  obtain t where t: "drive s1 = Some (t, ltr, lba)"
      "dev (s_e2 s1) = snd (snd (add (e_io env) (dev (s_e2 s)) (s_cfg s) ltr t (word_of_int part) lba))"
    using mount_at_effect [OF assms(12,13)] by metis
  let ?e = "\<lparr>letter = ltr, fs_type = t, part_num = word_of_int part, se_reserved = 0, se_lba = lba\<rparr>"
  note a = add_on_disk [OF assms(1-5), where ltr = ltr and t = t and pn = "word_of_int part" and lba = lba, folded t(2) assms(6)]
  have l: "last (upsert ?e es) = last es" using last_upsert(2) [OF assms(7), of ?e] assms(8) by simp
  have "mounts_as (e_io env) (dev (s_e2 s1)) (fs_type (last es)) (se_lba (last es))"
    using assms(10) mounts_as_reads [of "se_lba (last es)" "e_io env" "dev (s_e2 s1)" "dev (s_e2 s)"] a
      away_from_config [OF assms(11)] by blast
  with boot_restores [OF assms(14) conjunct1 [OF a] last_upsert(3)] l t(1) assms(9) show ?thesis by simp
qed

end
