(* ===== verification/Spec2Isabelle.thy ===== *)
theory Spec2Isabelle
  imports LibMem PhysSpec Dma Disk Fmt Mbr MountConfig Fat32Format Ext2Inode Ext2Leak Ext2FormatProps HeapProps Keyboard Shell
    ConsoleProps Pci DmiProps AtaProps Interrupts CmdTextProps OneMount AhciProps XhciControl BootProps
begin

text \<open>
  \<^bold>\<open>A model of the PodumatOS kernel and its correctness\<close>

  PodumatOS is a freestanding x86-64 kernel in C++ (\<open>src/kernel/src\<close>).  It boots from the Limine
  protocol, sets up memory, interrupts, a console and drivers, and runs a shell over two file
  systems.  This development translates the kernel's own logic into executable definitions and
  proves what makes it correct.  Hardware and the boot loader are parameters.

  \<^bold>\<open>The program and its theories\<close>

  \<^item> \<open>Prelude\<close>: machine words, byte buffers, little-endian fields, C strings; the collections
    \<open>buf_simps\<close> and \<open>struct_simps\<close>.  \<open>LibMem\<close>: \<open>lib/memory.cpp\<close> and \<open>lib/string.cpp\<close>.
    \<open>Fmt\<close>: the decimal and hexadecimal output routine that most files repeat.  \<open>Prog\<close>: the steps of
    programs in the state monad.
  \<^item> Memory.  \<open>Phys\<close>: the bitmap of \<open>mm/phys.cpp\<close>; \<open>PhysSpec\<close>: its contract \<open>page_provider\<close> and
    properties.  \<open>Dma\<close>: \<open>drivers/dma.cpp\<close>.  \<open>Heap\<close>: \<open>mm/heap.cpp\<close> over byte memory, headers at
    their offsets; \<open>HeapMem\<close> (loads after stores), \<open>HeapRegion\<close>, \<open>HeapPlace\<close> (one region),
    \<open>HeapSpec\<close>, \<open>HeapLink\<close>, \<open>HeapCreate\<close> (the list of regions and the abstraction \<open>heap_rel\<close>),
    \<open>HeapOps\<close>, \<open>HeapAlloc\<close> (every operation), \<open>HeapProps\<close> (interface \<open>allocator\<close> and properties).
  \<^item> Disks.  \<open>Disk\<close>: the dispatch of \<open>drivers/disk.cpp\<close> and the interfaces \<open>block_device\<close>,
    \<open>reliable_device\<close> and \<open>two_drivers\<close>.  \<open>Ata\<close>: \<open>drivers/ata.cpp\<close>; \<open>AtaDrive\<close>: a drive that
    follows the PIO protocol; \<open>AtaProps\<close>: the driver on it.  \<open>Mmio\<close>: memory-mapped registers, page tables and PCI
    access of a driver, shared by AHCI and xHCI; \<open>MemPages\<close>: memory page by page; \<open>Ahci\<close>, \<open>AhciMem\<close>,
    \<open>AhciProps\<close>: \<open>drivers/ahci.cpp\<close> against the AHCI protocol; the two drivers under the dispatch are
    the interpretation \<open>real_disk\<close>.  \<open>Mbr\<close>: \<open>fs/mbr.cpp\<close>.  \<open>MountConfig\<close>: \<open>fs/mount_config.cpp\<close>.
  \<^item> File systems.  \<open>Paths\<close>: splitting and printing paths.  \<open>Fat32\<close>: all of \<open>fs/fat32.cpp\<close>;
    \<open>Fat32Layout\<close>, \<open>Fat32Vol\<close>, \<open>Fat32File\<close>, \<open>Fat32Format\<close>: geometry, chains, files, formatting.
    \<open>Ext2\<close>, \<open>Ext2Files\<close>, \<open>Ext2Format\<close>: all of \<open>fs/ext2.cpp\<close>; \<open>Ext2Vol\<close>, \<open>Ext2Alloc\<close>, \<open>Ext2Inode\<close>,
    \<open>Ext2Dir\<close>, \<open>Ext2Leak\<close>, \<open>Ext2FormatProps\<close>, \<open>Ext2Frame\<close>: volumes, allocation, inodes,
    directory blocks, the defect in freeing, formatting, and what operations leave alone.
  \<^item> Input and output.  \<open>Font\<close>, \<open>Console\<close>: \<open>console/*.cpp\<close>; \<open>ConsoleDraw\<close>, \<open>ConsoleText\<close>,
    \<open>ConsoleProps\<close>: pictures, text, the refinement of a terminal.  \<open>Usb\<close>, \<open>UsbHid\<close>: \<open>drivers/usb/usb.cpp\<close>
    and \<open>usb_hid.cpp\<close>.  \<open>Keyboard\<close>: \<open>drivers/ps2.cpp\<close> and \<open>drivers/input.cpp\<close>.
  \<^item> The xHCI controller.  \<open>XhciHw\<close>: the constants of \<open>drivers/usb/xhci_hw.hpp\<close>; \<open>Xhci\<close>: all of
    \<open>drivers/usb/xhci.cpp\<close> (but the unused dump of the protocols), contexts and rings at their addresses in memory; \<open>XhciRing\<close>: a transfer
    ring and the event ring as queues (the interface \<open>fifo\<close>, interpreted on both); \<open>XhciHost\<close>: a
    controller that follows xHCI beside the driver; \<open>XhciControl\<close>: control transfers on it.
  \<^item> Machine.  \<open>Pci\<close>: \<open>drivers/pci.cpp\<close>.  \<open>Interrupts\<close>: \<open>kernel/{idt,pic,pit,isr}.cpp\<close>.  \<open>Dmi\<close>,
    \<open>DmiProps\<close>: \<open>lib/dmi.cpp\<close>.  \<open>Acpi\<close>: the namespace \<open>acpi\<close> of \<open>shell/commands.cpp\<close>.
  \<^item> Shell.  \<open>Shell\<close>: \<open>shell/shell.cpp\<close> and \<open>lib/driver_registry.cpp\<close>.  \<open>CmdText\<close>, \<open>CmdTextProps\<close>: numbers
    and words of \<open>shell/commands.cpp\<close>.  \<open>Sys\<close>: the state of all components side by side.
    \<open>Commands\<close>, \<open>FileCommands\<close>, \<open>SystemCommands\<close>: every command and the dispatch \<open>execute\<close>.
    \<open>CommandRun\<close>: which handler a line reaches.  \<open>Remount\<close>, \<open>OneMount\<close>: properties of whole
    sessions.
  \<^item> Boot.  \<open>Boot\<close>: \<open>main.cpp\<close>, every stage of \<open>kmain\<close> over \<open>sys\<close>.  \<open>BootProps\<close>: properties from power on,
    over boots, sessions and reboots.

  \<^bold>\<open>How the components meet\<close>

  \<open>kmain\<close> brings the components up in order, restores the saved mount and calls the shell.  The shell reads
  characters (\<open>input\<close>, over USB or PS/2) and hands a line to \<open>execute\<close>, which runs a
  program in the state monad over \<open>sys\<close>.  The file systems, the partition table and the mount
  configuration see the disk only as a \<open>blk\<close> and are verified inside the locales \<open>block_device\<close> and
  \<open>reliable_device\<close>, which are interpreted on the sector store of the examples and on the model of
  the drivers; \<open>two_drivers\<close> carries the contract through the dispatch.  The heap and
  the DMA allocator rest on \<open>page_provider\<close>, which \<open>phys\<close> satisfies; \<open>allocator\<close> is the contract
  that the heap gives to its clients.

  \<^bold>\<open>Conventions\<close>

  Integers keep their width (\<open>u8\<close> to \<open>u64\<close> are words, so wrap-around is that of the code); \<open>int\<close> and
  \<open>int64_t\<close> are integers where an overflow would be undefined.  A \<open>bool\<close> result of the code stays a
  Boolean.  Undefined behaviour and a wait that does not end are values: \<open>None\<close> in most theories,
  the flag \<open>ub\<close> in \<open>Ext2\<close>, \<open>con_ub\<close> in \<open>Console\<close>, \<open>s_stuck\<close> in \<open>Sys\<close>.  Unbounded waits are
  \<open>partial_function (option)\<close>, and that they end is a theorem about hardware that follows its
  protocol; loops with a counter recurse on the counter of the code, so no other fuel occurs.
  Global variables are records, with the initial values of the code as \<open>..._boot\<close>.

  \<^bold>\<open>What is proved\<close>

  Invariants of the state that every operation keeps (page bitmap, heap lists, console cursor, the
  file systems never both mounted, from power on); refinement of abstract specifications (allocator, upsert of saved
  mounts, directory lists, terminal); round trips (files, inodes, sectors, configuration,
  numbers, a mount across a reboot);
  equivalence with reference definitions (line editor, PCI scan, SMBIOS walk, descriptor walk);
  termination against protocol-abiding hardware; and, where the code falls short, theorems that
  exhibit it: 32-bit and 28-bit wrap-around, a shared buffer overwritten while it is read, an
  ext2 partition that survives its reformatting, sleep types that are never found, a write that a
  drive may drop, a USB endpoint that stays halted.

  \<^bold>\<open>Parameters\<close>

  Port input and output, memory-mapped registers, \<open>cpuid\<close>, the host controllers behind USB transfers, the
  assembly stubs, and what the boot loader hands over.  Hypotheses about them state the documented
  protocol (ATA PIO, PCI configuration space, AHCI command lists, xHCI transfer and event rings, SMBIOS tables) and each
  property with such a hypothesis is applied to a concrete instance by its witness.

  \<open>follows_pio\<close> binds a drive only for accesses that the protocol allows: with BSY or DRQ set, with the
  LBA bit clear or past the end of the medium, anything may happen.  The one place where the driver leaves the protocol, the
  FLUSH CACHE right behind the data of a write, needs \<open>prompt\<close> or \<open>tolerant\<close> on top, and \<open>ata_write_lost\<close>
  shows that it does; \<open>init\<close> also reads registers back while DRQ is set (\<open>reads_back\<close>).  \<open>follows_xhci\<close> binds the controller for its doorbell, the dequeue pointer and
  the passing of time: a rung transfer ring is carried out and reported within the time-out of the driver.  Bringing the controller
  up is modelled, but its registers are not interpreted, so nothing is proved of it.

  \<^bold>\<open>Not modelled\<close>

  \<open>drivers/usb/ehci.cpp\<close>: queue heads and transfer descriptors in memory shared with a controller that
  runs beside the code; the layers above see it as a parameter.  These layers (\<open>Usb\<close>, \<open>UsbHid\<close>, \<open>Sys\<close>) see
  both controllers through the operations of a bus, and \<open>Xhci\<close> is not plugged into them.
  \<open>kernel/isr.asm\<close> and \<open>io/io.hpp\<close>: assembly and single port instructions.  Trace output on the
  serial port and busy loops that only pass time are left out of the handlers that contain them.
\<close>

end
